(* ===== verification/Prelude.thy ===== *)
theory Prelude
  imports Main "HOL-Library.Word"
begin

text \<open>
  What every component of the development shares: the result type of a fallible Go function,
  signed 64-bit integers as \<open>64 word\<close> with the arithmetic that \<open>sint\<close> sees, and the list
  lemmas that carry the component proofs.

  A Go function that returns \<open>(T, error)\<close> is a HOL function into \<open>error + T\<close>: \<open>Inl\<close> is the
  error return, \<open>Inr\<close> the value.  An \<open>int64\<close> is a \<open>64 word\<close> read with \<open>sint\<close>; Go's \<open>+\<close>, \<open>-\<close> and
  \<open>*\<close> wrap around, as the operations of the word type do.
\<close>

section \<open>Collections of rewrite rules\<close>

named_theorems go_defs \<open>unfolding of the small helper definitions of the Go standard library\<close>
named_theorems int64_simps \<open>what \<open>sint\<close> sees of the wrapping operations\<close>

section \<open>Results\<close>

type_synonym ('e, 'a) result = "'e + 'a"

abbreviation is_ok :: "('e, 'a) result \<Rightarrow> bool" where
  "is_ok r \<equiv> \<not> isl r"

lemma is_ok_iff: "is_ok r \<longleftrightarrow> (\<exists>v. r = Inr v)"
  by (cases r) auto

section \<open>Signed 64-bit integers\<close>

type_synonym int64 = "64 word"

definition in_int64 :: "int \<Rightarrow> bool" where
  "in_int64 v \<longleftrightarrow> - (2 ^ 63) \<le> v \<and> v < 2 ^ 63"

definition wrap64 :: "int \<Rightarrow> int" where
  "wrap64 v = (v + 2 ^ 63) mod 2 ^ 64 - 2 ^ 63"

lemma wrap64_id: "in_int64 v \<Longrightarrow> wrap64 v = v"
  by (simp add: in_int64_def wrap64_def)

lemma wrap64_in: "in_int64 (wrap64 v)"
proof -
  have "0 \<le> (v + 2 ^ 63) mod 2 ^ 64" "(v + 2 ^ 63) mod 2 ^ 64 < (2 ^ 64 :: int)" by simp_all
  then show ?thesis unfolding in_int64_def wrap64_def by simp
qed

lemma sint_word_of_int64: "sint (word_of_int v :: int64) = wrap64 v"
  by (simp add: sint_sbintrunc' signed_take_bit_eq_take_bit_shift take_bit_eq_mod wrap64_def)

lemma sint_in_int64 [simp]: "in_int64 (sint (a :: int64))"
  using sint_ge [of a] sint_lt [of a] by (simp add: in_int64_def)

lemma sint_add64 [int64_simps]: "sint (a + b :: int64) = wrap64 (sint a + sint b)"
proof -
  have "a + b = word_of_int (sint a + sint b)" by simp
  then show ?thesis by (simp only: sint_word_of_int64)
qed

lemma sint_diff64 [int64_simps]: "sint (a - b :: int64) = wrap64 (sint a - sint b)"
proof -
  have "a - b = word_of_int (sint a - sint b)" by simp
  then show ?thesis by (simp only: sint_word_of_int64)
qed

lemma sint_mult64 [int64_simps]: "sint (a * b :: int64) = wrap64 (sint a * sint b)"
proof -
  have "a * b = word_of_int (sint a * sint b)" by simp
  then show ?thesis by (simp only: sint_word_of_int64)
qed

lemma sint_uminus64 [int64_simps]: "sint (- a :: int64) = wrap64 (- sint a)"
proof -
  have "- a = word_of_int (- sint a)" by simp
  then show ?thesis by (simp only: sint_word_of_int64)
qed

lemma sint_eq_iff64: "a = b \<longleftrightarrow> sint (a :: int64) = sint b"
  by (simp add: signed_word_eqI word_eq_iff_signed)

lemma wrap64_high: "2 ^ 63 \<le> v \<Longrightarrow> v < 2 ^ 64 + 2 ^ 63 \<Longrightarrow> wrap64 v = v - 2 ^ 64"
  by (simp add: wrap64_def mod_pos_geq)

lemma wrap64_low: "- (2 ^ 64) - 2 ^ 63 \<le> v \<Longrightarrow> v < - (2 ^ 63) \<Longrightarrow> wrap64 v = v + 2 ^ 64"
proof -
  assume a: "- (2 ^ 64) - 2 ^ 63 \<le> v" "v < - (2 ^ 63)"
  have "(v + 2 ^ 63) mod 2 ^ 64 = (v + 2 ^ 63 + 2 ^ 64) mod (2 ^ 64 :: int)"
    by (rule mod_add_self2 [symmetric])
  also have "\<dots> = v + 2 ^ 63 + 2 ^ 64" using a by (intro mod_pos_pos_trivial) simp_all
  finally show ?thesis by (simp add: wrap64_def)
qed

text \<open>Go's integer division truncates towards zero.\<close>

definition trunc_div :: "int \<Rightarrow> int \<Rightarrow> int" where
  "trunc_div a b = sgn a * sgn b * (\<bar>a\<bar> div \<bar>b\<bar>)"

text \<open>
  The idiom \<open>p := a * m; p / m != a\<close> detects exactly the products that do not fit, for a
  multiplier that is positive and itself fits.
\<close>

lemma mult_overflow_check:
  assumes a: "0 \<le> a" and m: "0 < m" "m < 2 ^ 63"
  shows "trunc_div (wrap64 (a * m)) m = a \<longleftrightarrow> in_int64 (a * m)"
proof
  assume "in_int64 (a * m)"
  then show "trunc_div (wrap64 (a * m)) m = a"
    using a m by (simp add: wrap64_id trunc_div_def sgn_mult abs_mult sgn_if)
next
  assume t: "trunc_div (wrap64 (a * m)) m = a"
  let ?w = "wrap64 (a * m)"
  define k where "k = (a * m + 2 ^ 63) div 2 ^ 64"
  have k: "?w = a * m - k * 2 ^ 64"
    unfolding wrap64_def k_def minus_div_mult_eq_mod [symmetric] by simp
  have nn: "a = 0 \<or> 0 < ?w"
  proof (cases "?w \<le> 0")
    case True
    moreover have "0 \<le> \<bar>?w\<bar> div \<bar>m\<bar>" using m by (simp add: pos_imp_zdiv_nonneg_iff)
    ultimately have "trunc_div ?w m \<le> 0" using m by (auto simp: trunc_div_def sgn_if)
    then show ?thesis using t a by simp
  qed simp
  show "in_int64 (a * m)"
  proof (cases "a = 0")
    case False
    then have "?w div m = a" using t nn m by (simp add: trunc_div_def)
    then have "a * m \<le> ?w" "?w < a * m + m"
      using div_mult_mod_eq [of ?w m] pos_mod_bound [OF m(1), of ?w] pos_mod_sign [OF m(1), of ?w] by auto
    then have "- k * 2 ^ 64 < 2 ^ 63" "0 \<le> - k * 2 ^ 64" using k m by linarith+
    then have "k = 0" by simp
    then show ?thesis using k wrap64_in [of "a * m"] by simp
  qed (simp add: in_int64_def)
qed

section \<open>Looking up in a table\<close>

lemma find_in_set: "find P xs = Some x \<Longrightarrow> x \<in> set xs \<and> P x"
  by (metis find_Some_iff nth_mem)

lemma filter_length_mono: "(\<And>x. x \<in> set xs \<Longrightarrow> P x \<Longrightarrow> Q x) \<Longrightarrow> length (filter P xs) \<le> length (filter Q xs)"
  by (induction xs) (auto simp: le_SucI)

end
