(* ===== verification/Go_Strings.thy ===== *)
theory Go_Strings
  imports Prelude "HOL-Library.Sublist"
begin

text \<open>
  The part of Go's \<^verbatim>\<open>strings\<close>, \<^verbatim>\<open>strconv\<close>, \<^verbatim>\<open>unicode\<close> and \<^verbatim>\<open>unicode/utf8\<close> packages that the
  components use.  A Go string is a sequence of bytes and is a HOL \<open>string\<close>, whose characters are
  bytes.  Functions that look at code points decode UTF-8 the way Go does: a byte that does not
  start a well-formed sequence is one code point U+FFFD of width one.

  The Unicode character database is data of the Go distribution.  Below U+0080 it is written out
  here; above, it is the argument \<open>unicode_tables\<close> of the functions that need it, and every theorem
  holds for any tables.
\<close>

section \<open>Bytes and simple string operations\<close>

abbreviation byte :: "char \<Rightarrow> nat" where
  "byte c \<equiv> of_char c"

abbreviation chr :: "nat \<Rightarrow> char" where
  "chr n \<equiv> char_of n"

definition is_digit :: "char \<Rightarrow> bool" where
  "is_digit c \<longleftrightarrow> 48 \<le> byte c \<and> byte c \<le> 57"

definition has_prefix :: "string \<Rightarrow> string \<Rightarrow> bool" where
  "has_prefix s p \<longleftrightarrow> take (length p) s = p"

definition has_suffix :: "string \<Rightarrow> string \<Rightarrow> bool" where
  "has_suffix s p \<longleftrightarrow> length p \<le> length s \<and> drop (length s - length p) s = p"

definition trim_prefix :: "string \<Rightarrow> string \<Rightarrow> string" where
  "trim_prefix s p = (if has_prefix s p then drop (length p) s else s)"

definition trim_suffix :: "string \<Rightarrow> string \<Rightarrow> string" where
  "trim_suffix s p = (if has_suffix s p then take (length s - length p) s else s)"

text \<open>\<open>strings.Cut\<close> at the first occurrence of a one-byte separator: before, after, found.\<close>

fun cut_byte :: "char \<Rightarrow> string \<Rightarrow> string \<times> string \<times> bool" where
  "cut_byte c [] = ([], [], False)"
| "cut_byte c (x # xs) =
     (if x = c then ([], xs, True)
      else (case cut_byte c xs of (a, b, f) \<Rightarrow> (x # a, b, f)))"

text \<open>\<open>strings.Split\<close> on a one-byte separator, and on any non-empty separator.\<close>

fun split_byte :: "char \<Rightarrow> string \<Rightarrow> string list" where
  "split_byte c [] = [[]]"
| "split_byte c (x # xs) =
     (if x = c then [] # split_byte c xs
      else (case split_byte c xs of p # ps \<Rightarrow> (x # p) # ps | [] \<Rightarrow> [[x]]))"

fun split_str :: "string \<Rightarrow> string \<Rightarrow> string list" where
  "split_str sep [] = [[]]"
| "split_str sep (x # xs) =
     (if sep \<noteq> [] \<and> has_prefix (x # xs) sep then [] # split_str sep (drop (length sep - 1) xs)
      else (case split_str sep xs of p # ps \<Rightarrow> (x # p) # ps | [] \<Rightarrow> [[x]]))"

fun join :: "string \<Rightarrow> string list \<Rightarrow> string" where
  "join sep [] = []"
| "join sep [p] = p"
| "join sep (p # ps) = p @ sep @ join sep ps"

lemma cut_byte_absent: "c \<notin> set s \<Longrightarrow> cut_byte c s = (s, [], False)"
  by (induction s) auto

lemma cut_byte_found: "c \<notin> set a \<Longrightarrow> cut_byte c (a @ c # b) = (a, b, True)"
  by (induction a) auto

lemma cut_byte_spec:
  "cut_byte c s = (a, b, f) \<Longrightarrow>
     c \<notin> set a \<and> (if f then s = a @ c # b else s = a \<and> b = [])"
  by (induction s arbitrary: a b f) (auto split: if_splits prod.splits)

lemma split_byte_nonempty [simp]: "split_byte c s \<noteq> []"
  by (induction s) (auto split: list.splits)

lemma split_byte_absent: "c \<notin> set s \<Longrightarrow> split_byte c s = [s]"
  by (induction s) auto

lemma split_byte_cons: "c \<notin> set a \<Longrightarrow> split_byte c (a @ c # b) = a # split_byte c b"
  by (induction a) auto

lemma split_byte_pieces: "p \<in> set (split_byte c s) \<Longrightarrow> c \<notin> set p"
  by (induction s arbitrary: p) (auto split: if_splits list.splits)

lemma join_split_byte: "join [c] (split_byte c s) = s"
proof (induction s)
  case (Cons x xs)
  then show ?case by (cases "split_byte c xs"; cases "tl (split_byte c xs)") auto
qed simp

lemma split_byte_join:
  "ps \<noteq> [] \<Longrightarrow> \<forall>p \<in> set ps. c \<notin> set p \<Longrightarrow> split_byte c (join [c] ps) = ps"
  by (induction "[c]" ps rule: join.induct) (auto simp: split_byte_absent split_byte_cons)

lemma has_prefix_iff: "has_prefix s p \<longleftrightarrow> prefix p s"
  by (auto simp: has_prefix_def prefix_def) (metis append_take_drop_id)

lemma has_suffix_iff: "has_suffix s p \<longleftrightarrow> suffix p s"
  by (auto simp: has_suffix_def suffix_def) (metis append_take_drop_id)

text \<open>\<open>strings.TrimRight\<close> and \<open>strings.TrimLeft\<close> with a cutset of one byte.\<close>

definition trim_right_byte :: "char \<Rightarrow> string \<Rightarrow> string" where
  "trim_right_byte c s = rev (dropWhile (\<lambda>x. x = c) (rev s))"

definition trim_left_byte :: "char \<Rightarrow> string \<Rightarrow> string" where
  "trim_left_byte c s = dropWhile (\<lambda>x. x = c) s"

lemma takeWhile_eq_replicate: "\<exists>k. takeWhile (\<lambda>x. x = c) s = replicate k c"
proof (induction s)
  case (Cons x s)
  then obtain k where "takeWhile (\<lambda>x. x = c) s = replicate k c" by blast
  then have "x = c \<Longrightarrow> takeWhile (\<lambda>x. x = c) (x # s) = replicate (Suc k) c" by simp
  moreover have "x \<noteq> c \<Longrightarrow> takeWhile (\<lambda>x. x = c) (x # s) = replicate 0 c" by simp
  ultimately show ?case by metis
qed simp

lemma trim_left_byte_split: "\<exists>k. s = replicate k c @ trim_left_byte c s"
  unfolding trim_left_byte_def by (metis takeWhile_dropWhile_id takeWhile_eq_replicate)

lemma trim_right_byte_split: "\<exists>k. s = trim_right_byte c s @ replicate k c"
proof -
  obtain k where "rev s = replicate k c @ dropWhile (\<lambda>x. x = c) (rev s)"
    using trim_left_byte_split [of "rev s" c] by (auto simp: trim_left_byte_def)
  then have "rev (rev s) = trim_right_byte c s @ replicate k c"
    unfolding trim_right_byte_def by (metis rev_append rev_replicate)
  then show ?thesis by auto
qed

section \<open>Decimal numbers\<close>

definition digit_char :: "nat \<Rightarrow> char" where
  "digit_char d = chr (48 + d)"

fun fmt_nat :: "nat \<Rightarrow> string" where
  "fmt_nat n = (if n < 10 then [digit_char n] else fmt_nat (n div 10) @ [digit_char (n mod 10)])"

declare fmt_nat.simps [simp del]

definition fmt_int :: "int \<Rightarrow> string" where
  "fmt_int i = (if i < 0 then ''-'' @ fmt_nat (nat (- i)) else fmt_nat (nat i))"

definition pad_zeros :: "nat \<Rightarrow> string \<Rightarrow> string" where
  "pad_zeros w s = replicate (w - length s) (CHR ''0'') @ s"

definition digit_val :: "char \<Rightarrow> nat" where
  "digit_val c = byte c - 48"

definition digits_val :: "string \<Rightarrow> nat" where
  "digits_val s = foldl (\<lambda>a c. 10 * a + digit_val c) 0 s"

text \<open>
  \<open>strconv.ParseInt(s, 10, 64)\<close>: an optional sign, then digits, read one at a time; a value that
  leaves the range is reported at the digit where it does, before anything after it is looked at.
\<close>

datatype num_error = NumSyntax | NumRange

fun parse_uint_loop :: "nat \<Rightarrow> string \<Rightarrow> (num_error, nat) result" where
  "parse_uint_loop n [] = Inr n"
| "parse_uint_loop n (c # cs) =
     (if \<not> is_digit c then Inl NumSyntax
      else if n * 10 + digit_val c > 2 ^ 64 - 1 then Inl NumRange
      else parse_uint_loop (n * 10 + digit_val c) cs)"

definition parse_uint :: "string \<Rightarrow> (num_error, nat) result" where
  "parse_uint s = (if s = [] then Inl NumSyntax else parse_uint_loop 0 s)"

definition parse_int :: "string \<Rightarrow> (num_error, int) result" where
  "parse_int s =
     (if s = [] then Inl NumSyntax
      else let neg = hd s = CHR ''-'';
               body = (if hd s = CHR ''+'' \<or> hd s = CHR ''-'' then tl s else s)
           in case parse_uint body of
                Inl e \<Rightarrow> Inl e
              | Inr un \<Rightarrow>
                  if \<not> neg \<and> un \<ge> 2 ^ 63 then Inl NumRange
                  else if neg \<and> un > 2 ^ 63 then Inl NumRange
                  else Inr (if neg then - int un else int un))"

lemma digit_char_digit [simp]: "d < 10 \<Longrightarrow> is_digit (digit_char d)"
  by (simp add: is_digit_def digit_char_def)

lemma digit_val_char [simp]: "d < 10 \<Longrightarrow> digit_val (digit_char d) = d"
  by (simp add: digit_val_def digit_char_def)

lemma digit_val_less: "is_digit c \<Longrightarrow> digit_val c < 10"
  by (auto simp: is_digit_def digit_val_def)

lemma fmt_nat_digits: "\<forall>c \<in> set (fmt_nat n). is_digit c"
proof (induction n rule: fmt_nat.induct)
  case (1 n)
  then show ?case by (subst fmt_nat.simps) auto
qed

lemma fmt_nat_nonempty [simp]: "fmt_nat n \<noteq> []"
  by (subst fmt_nat.simps) simp

lemma digits_val_snoc [simp]: "digits_val (s @ [c]) = 10 * digits_val s + digit_val c"
  by (simp add: digits_val_def)

lemma digits_val_Nil [simp]: "digits_val [] = 0"
  by (simp add: digits_val_def)

lemma digits_val_append: "digits_val (s @ t) = digits_val s * 10 ^ length t + digits_val t"
  by (induction t rule: rev_induct) (simp_all add: algebra_simps flip: append_assoc)

lemma digits_val_fmt_nat [simp]: "digits_val (fmt_nat n) = n"
proof (induction n rule: fmt_nat.induct)
  case (1 n)
  then show ?case by (subst fmt_nat.simps) (auto simp: digits_val_def)
qed

lemma digits_val_replicate0 [simp]: "digits_val (replicate k (CHR ''0'')) = 0"
proof (induction k)
  case (Suc k)
  then show ?case
    using digits_val_append [of "[CHR ''0'']" "replicate k (CHR ''0'')"]
    by (simp add: digits_val_def digit_val_def)
qed simp

lemma digits_val_bound: "\<forall>c \<in> set s. is_digit c \<Longrightarrow> digits_val s < 10 ^ length s"
proof (induction s rule: rev_induct)
  case (snoc c s)
  then have "digits_val s < 10 ^ length s" "digit_val c < 10" by (auto simp: digit_val_less)
  then show ?case by (simp add: algebra_simps)
qed simp

lemma parse_uint_loop_digits:
  assumes "\<forall>c \<in> set s. is_digit c" "n < 2 ^ 64"
  shows "parse_uint_loop n s =
    (if n * 10 ^ length s + digits_val s < 2 ^ 64
     then Inr (n * 10 ^ length s + digits_val s) else Inl NumRange)"
  using assms
proof (induction s arbitrary: n)
  case (Cons c cs)
  have val: "digits_val (c # cs) = digit_val c * 10 ^ length cs + digits_val cs"
    using digits_val_append [of "[c]" cs] by (simp add: digits_val_def)
  have eq: "n * 10 ^ length (c # cs) + digits_val (c # cs)
      = (n * 10 + digit_val c) * 10 ^ length cs + digits_val cs"
    by (simp add: val algebra_simps)
  show ?case
  proof (cases "n * 10 + digit_val c < 2 ^ 64")
    case True
    then show ?thesis using Cons.IH [OF _ True] Cons.prems by (simp add: eq algebra_simps val)
  next
    case False
    have "(n * 10 + digit_val c) * 1 \<le> (n * 10 + digit_val c) * 10 ^ length cs"
      by (rule mult_le_mono2) simp
    then have "2 ^ 64 \<le> (n * 10 + digit_val c) * 10 ^ length cs" using False by (metis linorder_not_less mult_1_right order_trans)
    then have "\<not> n * 10 ^ length (c # cs) + digits_val (c # cs) < 2 ^ 64" by (simp only: eq)
    then show ?thesis using Cons.prems False by simp
  qed
qed simp

lemma parse_uint_digits:
  "s \<noteq> [] \<Longrightarrow> \<forall>c \<in> set s. is_digit c \<Longrightarrow>
     parse_uint s = (if digits_val s < 2 ^ 64 then Inr (digits_val s) else Inl NumRange)"
  using parse_uint_loop_digits [of s 0] by (simp add: parse_uint_def)

lemma digit_not_sign: "is_digit c \<Longrightarrow> c \<noteq> CHR ''-'' \<and> c \<noteq> CHR ''+''"
  by (auto simp: is_digit_def)

lemma parse_int_digits:
  "s \<noteq> [] \<Longrightarrow> \<forall>c \<in> set s. is_digit c \<Longrightarrow>
     parse_int s = (if digits_val s < 2 ^ 63 then Inr (int (digits_val s)) else Inl NumRange)"
  by (cases s) (auto simp: parse_int_def parse_uint_digits digit_not_sign Let_def)

lemma parse_int_minus_digits:
  "s \<noteq> [] \<Longrightarrow> \<forall>c \<in> set s. is_digit c \<Longrightarrow>
     parse_int (CHR ''-'' # s) =
       (if digits_val s \<le> 2 ^ 63 then Inr (- int (digits_val s)) else Inl NumRange)"
  by (auto simp: parse_int_def parse_uint_digits Let_def)

lemma parse_int_fmt_int: "in_int64 i \<Longrightarrow> parse_int (fmt_int i) = Inr i"
  by (auto simp: fmt_int_def in_int64_def parse_int_digits parse_int_minus_digits fmt_nat_digits)

end
