(* ===== verification/Utf8.thy ===== *)
theory Utf8
  imports Go_Strings
begin

text \<open>
  Code points of a Go string.  \<open>utf8_chunks\<close> is what \<open>for _, r := range s\<close> and \<open>[]rune(s)\<close> see:
  each code point with the bytes it was read from.  On top of it are the code-point functions of
  \<^verbatim>\<open>strings\<close> and \<^verbatim>\<open>unicode\<close> the components call.
\<close>

section \<open>Decoding and encoding\<close>

type_synonym rune = nat

definition rune_error :: rune where
  "rune_error = 65533"

definition cont_byte :: "nat \<Rightarrow> bool" where
  "cont_byte b \<longleftrightarrow> 128 \<le> b \<and> b \<le> 191"

text \<open>The bytes that may follow a first byte of a three-byte and of a four-byte sequence.\<close>

definition second3 :: "nat \<Rightarrow> nat \<Rightarrow> bool" where
  "second3 b0 b1 \<longleftrightarrow>
     (if b0 = 224 then 160 \<le> b1 \<and> b1 \<le> 191
      else if b0 = 237 then 128 \<le> b1 \<and> b1 \<le> 159 else cont_byte b1)"

definition second4 :: "nat \<Rightarrow> nat \<Rightarrow> bool" where
  "second4 b0 b1 \<longleftrightarrow>
     (if b0 = 240 then 144 \<le> b1 \<and> b1 \<le> 191
      else if b0 = 244 then 128 \<le> b1 \<and> b1 \<le> 143 else cont_byte b1)"

fun decode_rune :: "nat list \<Rightarrow> rune \<times> nat" where
  "decode_rune [] = (rune_error, 1)"
| "decode_rune (b0 # bs) =
     (if b0 < 128 then (b0, 1)
      else if 194 \<le> b0 \<and> b0 \<le> 223 then
        (case bs of
           b1 # _ \<Rightarrow> if cont_byte b1 then ((b0 - 192) * 64 + (b1 - 128), 2) else (rune_error, 1)
         | _ \<Rightarrow> (rune_error, 1))
      else if 224 \<le> b0 \<and> b0 \<le> 239 then
        (case bs of
           b1 # b2 # _ \<Rightarrow>
             if second3 b0 b1 \<and> cont_byte b2
             then ((b0 - 224) * 4096 + (b1 - 128) * 64 + (b2 - 128), 3) else (rune_error, 1)
         | _ \<Rightarrow> (rune_error, 1))
      else if 240 \<le> b0 \<and> b0 \<le> 244 then
        (case bs of
           b1 # b2 # b3 # _ \<Rightarrow>
             if second4 b0 b1 \<and> cont_byte b2 \<and> cont_byte b3
             then ((b0 - 240) * 262144 + (b1 - 128) * 4096 + (b2 - 128) * 64 + (b3 - 128), 4)
             else (rune_error, 1)
         | _ \<Rightarrow> (rune_error, 1))
      else (rune_error, 1))"

lemma decode_rune_width: "0 < snd (decode_rune bs)"
  by (cases bs) (auto split: list.splits)

function utf8_chunks :: "string \<Rightarrow> (rune \<times> string) list" where
  "utf8_chunks s =
     (if s = [] then []
      else let d = decode_rune (map byte (take 4 s))
           in (fst d, take (snd d) s) # utf8_chunks (drop (snd d) s))"
  by pat_completeness auto
termination
  by (relation "measure length") (auto simp: decode_rune_width)

declare utf8_chunks.simps [simp del]

definition runes_of :: "string \<Rightarrow> rune list" where
  "runes_of s = map fst (utf8_chunks s)"

definition encode_rune :: "rune \<Rightarrow> string" where
  "encode_rune r =
     (if r < 128 then [chr r]
      else if r < 2048 then [chr (192 + r div 64), chr (128 + r mod 64)]
      else if (55296 \<le> r \<and> r \<le> 57343) \<or> 1114111 < r then [chr 239, chr 191, chr 189]
      else if r < 65536 then
        [chr (224 + r div 4096), chr (128 + r div 64 mod 64), chr (128 + r mod 64)]
      else
        [chr (240 + r div 262144), chr (128 + r div 4096 mod 64),
         chr (128 + r div 64 mod 64), chr (128 + r mod 64)])"

definition string_of_runes :: "rune list \<Rightarrow> string" where
  "string_of_runes rs = concat (map encode_rune rs)"

definition scalar :: "rune \<Rightarrow> bool" where
  "scalar r \<longleftrightarrow> r \<le> 1114111 \<and> \<not> (55296 \<le> r \<and> r \<le> 57343)"

lemma utf8_chunks_Nil [simp]: "utf8_chunks [] = []"
  by (subst utf8_chunks.simps) simp

lemma utf8_chunks_bytes: "concat (map snd (utf8_chunks s)) = s"
proof (induction s rule: utf8_chunks.induct)
  case (1 s)
  then show ?case by (subst utf8_chunks.simps) (auto simp: Let_def)
qed

lemma utf8_chunks_step:
  "0 < length p \<Longrightarrow> decode_rune (map byte (take 4 (p @ s))) = (r, length p) \<Longrightarrow>
     utf8_chunks (p @ s) = (r, p) # utf8_chunks s"
  by (subst utf8_chunks.simps) (auto simp: Let_def)

lemma encode_rune_nonempty [simp]: "encode_rune r \<noteq> []"
  by (simp add: encode_rune_def)

lemma decode_encode_rune:
  assumes "scalar r"
  shows "decode_rune (map byte (take 4 (encode_rune r @ s))) = (r, length (encode_rune r))"
proof -
  have split4: "r = r div 262144 * 262144 + r div 4096 mod 64 * 4096 + r div 64 mod 64 * 64 + r mod 64"
  proof -
    have "r div 64 = r div 4096 * 64 + r div 64 mod 64"
      using div_mult_mod_eq [of "r div 64" 64] by (simp flip: div_mult2_eq)
    moreover have "r div 4096 = r div 262144 * 64 + r div 4096 mod 64"
      using div_mult_mod_eq [of "r div 4096" 64] by (simp flip: div_mult2_eq)
    ultimately show ?thesis using div_mult_mod_eq [of r 64] by linarith
  qed
  consider "r < 128" | "128 \<le> r" "r < 2048" | "2048 \<le> r" "r < 65536" | "65536 \<le> r" by linarith
  then show ?thesis
  proof cases
    case 1
    then show ?thesis by (simp add: encode_rune_def)
  next
    case 2
    then have "2 \<le> r div 64" "r div 64 \<le> 31" by auto
    then show ?thesis using 2 by (simp add: encode_rune_def cont_byte_def)
  next
    case 3
    have q: "r div 4096 < 16" using 3 by auto
    have m: "r div 64 mod 64 < 64" "r mod 64 < 64" by simp_all
    have d: "r = r div 4096 * 4096 + r div 64 mod 64 * 64 + r mod 64" using split4 3 by simp
    have lo: "r div 4096 = 0 \<Longrightarrow> 32 \<le> r div 64 mod 64" using d m 3 by linarith
    have hi: "r div 4096 = 13 \<Longrightarrow> r div 64 mod 64 < 32"
      using d m assms unfolding scalar_def by linarith
    have "second3 (224 + r div 4096) (128 + r div 64 mod 64)"
      using lo hi m q by (auto simp: second3_def cont_byte_def)
    moreover have "r mod 64 \<le> 63" using m(2) by linarith
    ultimately show ?thesis using 3 q assms
      by (simp add: encode_rune_def cont_byte_def scalar_def d [symmetric])
  next
    case 4
    have q: "r div 262144 \<le> 4" using assms by (auto simp: scalar_def)
    have m: "r div 4096 mod 64 < 64" "r div 64 mod 64 < 64" "r mod 64 < 64" by simp_all
    have lo: "r div 262144 = 0 \<Longrightarrow> 16 \<le> r div 4096 mod 64" using split4 m 4 by linarith
    have hi: "r div 262144 = 4 \<Longrightarrow> r div 4096 mod 64 < 16"
      using split4 m assms unfolding scalar_def by linarith
    have "second4 (240 + r div 262144) (128 + r div 4096 mod 64)"
      using lo hi m q by (auto simp: second4_def cont_byte_def)
    moreover have "r mod 64 \<le> 63" "r div 64 mod 64 \<le> 63" using m(2,3) by linarith+
    ultimately show ?thesis using 4 q assms
      by (simp add: encode_rune_def cont_byte_def scalar_def split4 [symmetric])
  qed
qed

lemma utf8_chunks_encode:
  "scalar r \<Longrightarrow> utf8_chunks (encode_rune r @ s) = (r, encode_rune r) # utf8_chunks s"
  by (rule utf8_chunks_step [OF _ decode_encode_rune]) simp_all

lemma utf8_chunks_string_of_runes:
  "\<forall>r \<in> set rs. scalar r \<Longrightarrow>
     utf8_chunks (string_of_runes rs) = map (\<lambda>r. (r, encode_rune r)) rs"
  by (induction rs) (auto simp: string_of_runes_def utf8_chunks_encode)

lemma runes_of_string_of_runes:
  "\<forall>r \<in> set rs. scalar r \<Longrightarrow> runes_of (string_of_runes rs) = rs"
  by (simp add: runes_of_def utf8_chunks_string_of_runes comp_def)

lemma encode_rune_ascii: "r < 128 \<Longrightarrow> encode_rune r = [chr r]"
  by (simp add: encode_rune_def)

text \<open>On ASCII every byte is its own code point.\<close>

definition ascii :: "string \<Rightarrow> bool" where
  "ascii s \<longleftrightarrow> (\<forall>c \<in> set s. byte c < 128)"

lemma utf8_chunks_ascii: "ascii s \<Longrightarrow> utf8_chunks s = map (\<lambda>c. (byte c, [c])) s"
proof (induction s)
  case (Cons c s)
  then have "byte c < 128" "utf8_chunks s = map (\<lambda>c. (byte c, [c])) s" by (auto simp: ascii_def)
  then show ?case using utf8_chunks_step [of "[c]" s "byte c"] by simp
qed simp

lemma runes_of_ascii: "ascii s \<Longrightarrow> runes_of s = map byte s"
  by (simp add: runes_of_def utf8_chunks_ascii comp_def)

lemma ascii_digits: "\<forall>c \<in> set s. is_digit c \<Longrightarrow> ascii s"
  by (auto simp: ascii_def is_digit_def)

lemma string_of_runes_ascii: "\<forall>r \<in> set rs. r < 128 \<Longrightarrow> string_of_runes rs = map chr rs"
  by (induction rs) (auto simp: string_of_runes_def encode_rune_ascii)

section \<open>The \<^verbatim>\<open>unicode\<close> package\<close>

text \<open>
  The tables for code points from U+0080 up.  \<open>tab_fold\<close> names one representative of each simple
  case-folding orbit.
\<close>

record unicode_tables =
  tab_letter :: "rune \<Rightarrow> bool"
  tab_digit :: "rune \<Rightarrow> bool"
  tab_mark :: "rune \<Rightarrow> bool"
  tab_lower :: "rune \<Rightarrow> rune"
  tab_fold :: "rune \<Rightarrow> rune"

text \<open>Tables that say nothing above ASCII, for evaluating on ASCII input.\<close>

definition plain_tables :: unicode_tables where
  "plain_tables =
     \<lparr>tab_letter = (\<lambda>_. False), tab_digit = (\<lambda>_. False), tab_mark = (\<lambda>_. False),
      tab_lower = id, tab_fold = id\<rparr>"

definition ascii_letter :: "rune \<Rightarrow> bool" where
  "ascii_letter r \<longleftrightarrow> (65 \<le> r \<and> r \<le> 90) \<or> (97 \<le> r \<and> r \<le> 122)"

definition ascii_lower :: "rune \<Rightarrow> rune" where
  "ascii_lower r = (if 65 \<le> r \<and> r \<le> 90 then r + 32 else r)"

definition IsLetter :: "unicode_tables \<Rightarrow> rune \<Rightarrow> bool" where
  "IsLetter U r \<longleftrightarrow> (if r < 128 then ascii_letter r else tab_letter U r)"

definition IsDigit :: "unicode_tables \<Rightarrow> rune \<Rightarrow> bool" where
  "IsDigit U r \<longleftrightarrow> (if r < 128 then 48 \<le> r \<and> r \<le> 57 else tab_digit U r)"

definition IsMark :: "unicode_tables \<Rightarrow> rune \<Rightarrow> bool" where
  "IsMark U r \<longleftrightarrow> (if r < 128 then False else tab_mark U r)"

definition ToLowerRune :: "unicode_tables \<Rightarrow> rune \<Rightarrow> rune" where
  "ToLowerRune U r = (if r < 128 then ascii_lower r else tab_lower U r)"

definition FoldRune :: "unicode_tables \<Rightarrow> rune \<Rightarrow> rune" where
  "FoldRune U r = (if r < 128 then ascii_lower r else tab_fold U r)"

text \<open>The White\_Space property in full: there are twenty-five such code points.\<close>

definition IsSpace :: "rune \<Rightarrow> bool" where
  "IsSpace r \<longleftrightarrow>
     (9 \<le> r \<and> r \<le> 13) \<or> r = 32 \<or> r = 133 \<or> r = 160 \<or> r = 5760
     \<or> (8192 \<le> r \<and> r \<le> 8202) \<or> r = 8232 \<or> r = 8233 \<or> r = 8239 \<or> r = 8287 \<or> r = 12288"

section \<open>Code-point functions of the \<^verbatim>\<open>strings\<close> package\<close>

definition chunk_text :: "(rune \<times> string) list \<Rightarrow> string" where
  "chunk_text cs = concat (map snd cs)"

definition TrimLeftFunc :: "(rune \<Rightarrow> bool) \<Rightarrow> string \<Rightarrow> string" where
  "TrimLeftFunc f s = chunk_text (dropWhile (\<lambda>c. f (fst c)) (utf8_chunks s))"

definition TrimFunc :: "(rune \<Rightarrow> bool) \<Rightarrow> string \<Rightarrow> string" where
  "TrimFunc f s =
     chunk_text (rev (dropWhile (\<lambda>c. f (fst c))
       (rev (dropWhile (\<lambda>c. f (fst c)) (utf8_chunks s)))))"

definition TrimSpace :: "string \<Rightarrow> string" where
  "TrimSpace s = TrimFunc IsSpace s"

text \<open>\<open>strings.FieldsFunc\<close>: maximal runs of code points for which \<open>f\<close> does not hold.\<close>

fun fields_loop :: "(rune \<Rightarrow> bool) \<Rightarrow> string \<Rightarrow> (rune \<times> string) list \<Rightarrow> string list" where
  "fields_loop f cur [] = (if cur = [] then [] else [cur])"
| "fields_loop f cur ((r, b) # cs) =
     (if f r then (if cur = [] then fields_loop f [] cs else cur # fields_loop f [] cs)
      else fields_loop f (cur @ b) cs)"

definition FieldsFunc :: "(rune \<Rightarrow> bool) \<Rightarrow> string \<Rightarrow> string list" where
  "FieldsFunc f s = fields_loop f [] (utf8_chunks s)"

definition Fields :: "string \<Rightarrow> string list" where
  "Fields s = FieldsFunc IsSpace s"

definition ToLower :: "unicode_tables \<Rightarrow> string \<Rightarrow> string" where
  "ToLower U s = string_of_runes (map (ToLowerRune U) (runes_of s))"

definition EqualFold :: "unicode_tables \<Rightarrow> string \<Rightarrow> string \<Rightarrow> bool" where
  "EqualFold U s t \<longleftrightarrow> map (FoldRune U) (runes_of s) = map (FoldRune U) (runes_of t)"

definition lower_byte :: "char \<Rightarrow> char" where
  "lower_byte c = chr (ascii_lower (byte c))"

lemma ToLower_ascii: "ascii s \<Longrightarrow> ToLower U s = map lower_byte s"
proof -
  assume "ascii s"
  then have "\<forall>c \<in> set s. ToLowerRune U (byte c) = ascii_lower (byte c) \<and> ascii_lower (byte c) < 128"
    by (auto simp: ascii_def ToLowerRune_def ascii_lower_def)
  then have "map (ToLowerRune U) (map byte s) = map (\<lambda>c. ascii_lower (byte c)) s"
    and "\<forall>r \<in> set (map (\<lambda>c. ascii_lower (byte c)) s). r < 128" by auto
  then show ?thesis
    using \<open>ascii s\<close>
    by (simp add: ToLower_def runes_of_ascii string_of_runes_ascii lower_byte_def)
qed

lemma TrimSpace_digits: "s \<noteq> [] \<Longrightarrow> \<forall>c \<in> set s. byte c < 128 \<and> \<not> IsSpace (byte c) \<Longrightarrow> TrimSpace s = s"
proof -
  assume a: "s \<noteq> []" "\<forall>c \<in> set s. byte c < 128 \<and> \<not> IsSpace (byte c)"
  then have "ascii s" by (auto simp: ascii_def)
  then have cs: "utf8_chunks s = map (\<lambda>c. (byte c, [c])) s" by (rule utf8_chunks_ascii)
  have none: "\<forall>c \<in> set (utf8_chunks s). \<not> IsSpace (fst c)" using a(2) cs by auto
  have id: "dropWhile (\<lambda>c. IsSpace (fst c)) xs = xs" if "\<forall>c \<in> set xs. \<not> IsSpace (fst c)" for xs :: "(rune \<times> string) list"
    using that by (cases xs) auto
  show ?thesis using none utf8_chunks_bytes [of s] by (simp add: TrimSpace_def TrimFunc_def id chunk_text_def)
qed

end
