(* ===== verification/Utf8_Chunks.thy ===== *)
theory Utf8_Chunks
  imports Utf8
begin

text \<open>
  How Go's decoding of a byte string behaves when the string is cut or put together: cutting between two code
  points keeps the decoding of both sides, and so does joining before a byte that does not continue a sequence.
  On these rest the facts about \<open>TrimSpace\<close> and \<open>Fields\<close> that hold for arbitrary bytes.
\<close>

section \<open>Decoding\<close>

lemma decode_take:
  assumes "bs \<noteq> []" "snd (decode_rune bs) \<le> m"
  shows "decode_rune (take m bs) = decode_rune bs"
proof -
  obtain b0 t where bs: "bs = b0 # t" using assms(1) by (cases bs) auto
  have m: "0 < m" using assms(2) decode_rune_width [of bs] by simp
  then obtain k where k: "m = Suc k" by (cases m) auto
  show ?thesis
  proof (cases t)
    case Nil
    then show ?thesis using bs k by simp
  next
    case (Cons b1 t1)
    note c1 = this
    show ?thesis
    proof (cases t1)
      case Nil
      then show ?thesis using bs k c1 assms(2) by (cases k) (auto split: if_splits)
    next
      case (Cons b2 t2)
      then show ?thesis using bs k c1 assms(2)
        by (cases k; cases "k - 1"; cases "k - 2"; cases t2) (auto split: if_splits list.splits)
    qed
  qed
qed

lemma decode_append_ascii:
  assumes "bs \<noteq> []" "length bs < 4" "c = [] \<or> hd c < 128"
  shows "decode_rune (bs @ c) = decode_rune bs"
proof -
  obtain b0 t where bs: "bs = b0 # t" using assms(1) by (cases bs) auto
  have nc: "c = y # ys \<Longrightarrow> \<not> cont_byte y \<and> \<not> second3 b0 y \<and> \<not> second4 b0 y" for y ys
    using assms(3) by (auto simp: cont_byte_def second3_def second4_def)
  consider "t = []" | b1 where "t = [b1]" | b1 b2 where "t = [b1, b2]"
    using assms(2) bs by (cases t; cases "tl t"; cases "tl (tl t)") auto
  then show ?thesis
    by cases (use bs nc in \<open>auto split: list.splits\<close>)
qed

lemma decode_width_le: "bs \<noteq> [] \<Longrightarrow> snd (decode_rune bs) \<le> length bs"
  by (cases bs) (auto split: list.splits)

lemma decode_width_4: "snd (decode_rune bs) \<le> 4"
  by (cases bs) (auto split: list.splits)

lemma decode_rune_max: "fst (decode_rune bs) \<le> 1114111"
proof (cases bs)
  case (Cons b0 t)
  have 2: "b0 \<le> 223 \<Longrightarrow> cont_byte b1 \<Longrightarrow> (b0 - 192) * 64 + (b1 - 128) \<le> 1114111" for b1
    by (auto simp: cont_byte_def)
  have 3: "b0 \<le> 239 \<Longrightarrow> second3 b0 b1 \<Longrightarrow> cont_byte b2 \<Longrightarrow> (b0 - 224) * 4096 + (b1 - 128) * 64 + (b2 - 128) \<le> 1114111" for b1 b2
    by (auto simp: cont_byte_def second3_def split: if_splits)
  have 4: "b0 \<le> 244 \<Longrightarrow> second4 b0 b1 \<Longrightarrow> cont_byte b2 \<Longrightarrow> cont_byte b3 \<Longrightarrow>
      (b0 - 240) * 262144 + (b1 - 128) * 4096 + (b2 - 128) * 64 + (b3 - 128) \<le> 1114111" for b1 b2 b3
  proof (cases "b0 = 244")
    case False
    moreover assume "b0 \<le> 244" "second4 b0 b1" "cont_byte b2" "cont_byte b3"
    ultimately have "b0 - 240 \<le> 3" "b1 - 128 \<le> 63" "b2 - 128 \<le> 63" "b3 - 128 \<le> 63"
      by (auto simp: second4_def cont_byte_def split: if_splits)
    then show ?thesis by linarith
  qed (auto simp: second4_def cont_byte_def)
  show ?thesis unfolding Cons using 2 3 4 by (auto simp: rune_error_def split: list.split)
qed (simp add: rune_error_def)

section \<open>Cutting and joining\<close>

lemma utf8_chunks_Cons:
  assumes "s \<noteq> []"
  obtains r n where "decode_rune (map byte (take 4 s)) = (r, n)" "0 < n" "n \<le> length s" "n \<le> 4"
    "utf8_chunks s = (r, take n s) # utf8_chunks (drop n s)"
proof -
  obtain r n where d: "decode_rune (map byte (take 4 s)) = (r, n)" by (cases "decode_rune (map byte (take 4 s))")
  have "0 < n" "n \<le> 4" "n \<le> length s"
    using decode_rune_width [of "map byte (take 4 s)"] decode_width_4 [of "map byte (take 4 s)"]
      decode_width_le [of "map byte (take 4 s)"] assms d by auto
  moreover have "utf8_chunks s = (r, take n s) # utf8_chunks (drop n s)"
    using assms d by (subst utf8_chunks.simps) (simp add: Let_def)
  ultimately show thesis using that d by blast
qed

lemma utf8_chunks_append:
  "b = [] \<or> byte (hd b) < 128 \<Longrightarrow> utf8_chunks (a @ b) = utf8_chunks a @ utf8_chunks b"
proof (induction a rule: length_induct)
  case (1 a)
  show ?case
  proof (cases "a = []")
    case False
    then obtain r n where d: "decode_rune (map byte (take 4 a)) = (r, n)" "0 < n" "n \<le> length a"
      "utf8_chunks a = (r, take n a) # utf8_chunks (drop n a)" by (rule utf8_chunks_Cons)
    have "decode_rune (map byte (take 4 (a @ b))) = (r, n)"
    proof (cases "length a < 4")
      case True
      have "map byte (take 4 (a @ b)) = map byte a @ map byte (take (4 - length a) b)" using True by simp
      moreover have "map byte (take (4 - length a) b) = [] \<or> hd (map byte (take (4 - length a) b)) < 128"
        using 1(2) True by (cases b) (auto simp: take_Cons')
      ultimately show ?thesis
        using decode_append_ascii [of "map byte a" "map byte (take (4 - length a) b)"] True False d(1) by simp
    qed (use d(1) in simp)
    then have "utf8_chunks (a @ b) = (r, take n a) # utf8_chunks (drop n a @ b)"
      using d(2,3) False by (subst utf8_chunks.simps) (simp add: Let_def)
    then show ?thesis using 1 d by simp
  qed simp
qed

lemma utf8_chunks_ascii_Cons: "byte c < 128 \<Longrightarrow> utf8_chunks (c # s) = (byte c, [c]) # utf8_chunks s"
  by (subst utf8_chunks.simps) (simp add: Let_def)

lemma chunk_text_append [simp]: "chunk_text (a @ b) = chunk_text a @ chunk_text b"
  by (simp add: chunk_text_def)

lemma chunk_text_simps [simp]: "chunk_text [] = []" "chunk_text (x # xs) = snd x @ chunk_text xs"
  by (simp_all add: chunk_text_def)

lemma chunk_text_chunks [simp]: "chunk_text (utf8_chunks s) = s"
  by (simp add: chunk_text_def utf8_chunks_bytes)

lemma utf8_chunks_drop: "utf8_chunks (chunk_text (drop k (utf8_chunks s))) = drop k (utf8_chunks s)"
proof (induction k arbitrary: s)
  case (Suc k)
  show ?case
  proof (cases "s = []")
    case False
    then obtain r n where "utf8_chunks s = (r, take n s) # utf8_chunks (drop n s)" by (rule utf8_chunks_Cons)
    then show ?thesis using Suc by simp
  qed simp
qed simp

lemma utf8_chunks_take: "utf8_chunks (chunk_text (take k (utf8_chunks s))) = take k (utf8_chunks s)"
proof (induction k arbitrary: s)
  case (Suc k)
  show ?case
  proof (cases "s = []")
    case False
    then obtain r n where d: "decode_rune (map byte (take 4 s)) = (r, n)" "0 < n" "n \<le> length s" "n \<le> 4"
      "utf8_chunks s = (r, take n s) # utf8_chunks (drop n s)" by (rule utf8_chunks_Cons)
    let ?u = "chunk_text (take k (utf8_chunks (drop n s)))"
    have "drop n s = ?u @ chunk_text (drop k (utf8_chunks (drop n s)))"
      by (metis append_take_drop_id chunk_text_append chunk_text_chunks)
    then have u: "take n s @ ?u = take (n + length ?u) s"
      by (metis append_eq_conv_conj take_add)
    have "map byte (take 4 (take n s @ ?u)) = take (n + length ?u) (map byte (take 4 s))"
      unfolding u by (simp add: take_map min.commute)
    moreover have "decode_rune (take (n + length ?u) (map byte (take 4 s))) = (r, n)"
      using decode_take [of "map byte (take 4 s)" "n + length ?u"] d(1) False by simp
    ultimately have "decode_rune (map byte (take 4 (take n s @ ?u))) = (r, n)" by simp
    then have "utf8_chunks (take n s @ ?u) = (r, take n s) # utf8_chunks ?u"
      using utf8_chunks_step [of "take n s" ?u r] d(2,3) by simp
    then show ?thesis using d(5) Suc by simp
  qed simp
qed simp

text \<open>Any run of consecutive code points of a string decodes to itself.\<close>

definition decodes :: "(rune \<times> string) list \<Rightarrow> bool" where
  "decodes cs \<longleftrightarrow> utf8_chunks (chunk_text cs) = cs"

lemma decodes_chunks: "decodes (utf8_chunks s)"
  by (simp add: decodes_def)

lemma decodes_segment: "decodes (a @ b @ c) \<Longrightarrow> decodes b"
proof -
  assume d: "decodes (a @ b @ c)"
  then have "drop (length a) (utf8_chunks (chunk_text (a @ b @ c))) = b @ c" by (simp add: decodes_def)
  then have "utf8_chunks (chunk_text (b @ c)) = b @ c" using utf8_chunks_drop by metis
  then have "take (length b) (utf8_chunks (chunk_text (b @ c))) = b" by simp
  then show "decodes b" using utf8_chunks_take decodes_def by metis
qed

lemma chunk_nonempty: "x \<in> set (utf8_chunks s) \<Longrightarrow> snd x \<noteq> []"
proof (induction s rule: length_induct)
  case (1 s)
  show ?case
  proof (cases "s = []")
    case False
    then obtain r n where d: "0 < n" "n \<le> length s" "utf8_chunks s = (r, take n s) # utf8_chunks (drop n s)"
      by (rule utf8_chunks_Cons)
    then show ?thesis using 1 by auto
  qed (use 1 in simp)
qed

lemma chunk_rune_max: "x \<in> set (utf8_chunks s) \<Longrightarrow> fst x \<le> 1114111"
proof (induction s rule: length_induct)
  case (1 s)
  show ?case
  proof (cases "s = []")
    case False
    then obtain r n where d: "decode_rune (map byte (take 4 s)) = (r, n)" "0 < n"
      "utf8_chunks s = (r, take n s) # utf8_chunks (drop n s)" by (rule utf8_chunks_Cons)
    moreover have "length (drop n s) < length s" using d(2) False by simp
    ultimately show ?thesis using 1 decode_rune_max [of "map byte (take 4 s)"] by fastforce
  qed (use 1 in simp)
qed

section \<open>White space\<close>

abbreviation blank :: "rune \<times> string \<Rightarrow> bool" where
  "blank x \<equiv> IsSpace (fst x)"

lemma fields_loop_space:
  "f r \<Longrightarrow> fields_loop f cur (xs @ (r, b) # ys) = fields_loop f cur xs @ fields_loop f [] ys"
  by (induction f cur xs rule: fields_loop.induct) auto

lemma fields_loop_leading: "\<forall>x \<in> set pre. f (fst x) \<Longrightarrow> fields_loop f [] (pre @ cs) = fields_loop f [] cs"
  by (induction pre) auto

lemma fields_loop_blank: "\<forall>x \<in> set post. f (fst x) \<Longrightarrow> fields_loop f [] post = []"
  using fields_loop_leading [of post f "[]"] by simp

lemma fields_loop_trailing: "\<forall>x \<in> set post. f (fst x) \<Longrightarrow> fields_loop f cur (cs @ post) = fields_loop f cur cs"
proof (cases post)
  case (Cons x xs)
  moreover assume "\<forall>x \<in> set post. f (fst x)"
  ultimately show ?thesis using fields_loop_space [of f "fst x" cur cs "snd x" xs] by (simp add: fields_loop_blank)
qed simp

lemma fields_loop_plain:
  "\<forall>x \<in> set cs. \<not> f (fst x) \<Longrightarrow> fields_loop f cur cs = (if cur @ chunk_text cs = [] then [] else [cur @ chunk_text cs])"
  by (induction f cur cs rule: fields_loop.induct) auto

lemma TrimSpace_parts:
  obtains pre post where "utf8_chunks s = pre @ utf8_chunks (TrimSpace s) @ post" "\<forall>x \<in> set pre. blank x" "\<forall>x \<in> set post. blank x"
proof -
  let ?d = "dropWhile blank (utf8_chunks s)"
  let ?m = "rev (dropWhile blank (rev ?d))" and ?post = "rev (takeWhile blank (rev ?d))"
  have "?d = ?m @ ?post" by (metis rev_append rev_rev_ident takeWhile_dropWhile_id)
  then have e: "utf8_chunks s = takeWhile blank (utf8_chunks s) @ ?m @ ?post" by (metis takeWhile_dropWhile_id)
  then have "decodes ?m" using decodes_segment [of _ ?m] decodes_chunks [of s] by metis
  then have "utf8_chunks (TrimSpace s) = ?m" by (simp add: decodes_def TrimSpace_def TrimFunc_def)
  then show thesis using that [of "takeWhile blank (utf8_chunks s)" ?post] e set_takeWhileD by (metis set_rev)
qed

lemma Fields_TrimSpace: "Fields (TrimSpace s) = Fields s"
proof -
  obtain pre post where "utf8_chunks s = pre @ utf8_chunks (TrimSpace s) @ post" "\<forall>x \<in> set pre. blank x" "\<forall>x \<in> set post. blank x"
    by (rule TrimSpace_parts)
  then show ?thesis by (simp add: Fields_def FieldsFunc_def fields_loop_leading fields_loop_trailing)
qed

lemma Fields_Nil [simp]: "Fields [] = []"
  by (simp add: Fields_def FieldsFunc_def)

lemma Fields_space_Cons: "byte c < 128 \<Longrightarrow> IsSpace (byte c) \<Longrightarrow> Fields (c # s) = Fields s"
  by (simp add: Fields_def FieldsFunc_def utf8_chunks_ascii_Cons)

lemma Fields_space_join: "byte c < 128 \<Longrightarrow> IsSpace (byte c) \<Longrightarrow> Fields (a @ c # b) = Fields a @ Fields b"
  using utf8_chunks_append [of "c # b" a]
  by (simp add: Fields_def FieldsFunc_def utf8_chunks_ascii_Cons fields_loop_space)

text \<open>A word: not empty, and none of its code points is a space.\<close>

definition solid :: "string \<Rightarrow> bool" where
  "solid w \<longleftrightarrow> w \<noteq> [] \<and> (\<forall>x \<in> set (utf8_chunks w). \<not> blank x)"

lemma Fields_solid: "solid w \<Longrightarrow> Fields w = [w]"
  by (simp add: solid_def Fields_def FieldsFunc_def fields_loop_plain)

lemma fields_loop_solid:
  assumes "decodes (p @ q @ cs)" "\<forall>x \<in> set (p @ q @ cs). snd x \<noteq> []" "\<forall>x \<in> set q. \<not> blank x"
    and "w \<in> set (fields_loop IsSpace (chunk_text q) cs)"
  shows "solid w"
  using assms
proof (induction cs arbitrary: p q)
  case Nil
  then have w: "w = chunk_text q" "w \<noteq> []" by (auto split: if_splits)
  moreover have "decodes q" using decodes_segment [of p q "[]"] Nil(1) by simp
  ultimately show ?case using Nil(3) by (simp add: solid_def decodes_def)
next
  case (Cons x cs)
  obtain r b where x: "x = (r, b)" by (cases x)
  show ?case
  proof (cases "IsSpace r")
    case True
    have "decodes q" using decodes_segment [of p q "x # cs"] Cons.prems(1) by simp
    then have "w = chunk_text q \<and> w \<noteq> [] \<Longrightarrow> ?thesis" using Cons.prems(3) by (auto simp: solid_def decodes_def)
    moreover have "w \<in> set (fields_loop IsSpace (chunk_text []) cs) \<Longrightarrow> ?thesis"
      using Cons.IH [of "p @ q @ [x]" "[]"] Cons.prems(1,2) by simp
    ultimately show ?thesis using Cons.prems(4) x True by (auto split: if_splits)
  next
    case False
    then show ?thesis using Cons.IH [of p "q @ [x]"] Cons.prems x by simp
  qed
qed

lemma Fields_words: "w \<in> set (Fields s) \<Longrightarrow> solid w"
  using fields_loop_solid [of "[]" "[]" "utf8_chunks s" w] decodes_chunks [of s] chunk_nonempty [of _ s]
  by (simp add: Fields_def FieldsFunc_def)

lemma TrimSpace_blank: "TrimSpace s = [] \<Longrightarrow> Fields s = []"
  using Fields_TrimSpace [of s] by simp

section \<open>Splitting at a separator\<close>

lemma split_str_nonempty [simp]: "split_str sep s \<noteq> []"
  by (cases s) (auto split: list.splits)

lemma join_Cons_char: "join sep ((x # p) # ps) = x # join sep (p # ps)"
  by (cases ps) auto

lemma join_split_str: "sep \<noteq> [] \<Longrightarrow> join sep (split_str sep s) = s"
proof (induction sep s rule: split_str.induct)
  case (2 sep x xs)
  show ?case
  proof (cases "has_prefix (x # xs) sep")
    case True
    then have "take (length sep) (x # xs) = sep" by (simp add: has_prefix_def)
    then have e: "x # xs = sep @ drop (length sep - 1) xs"
      using 2(3) append_take_drop_id [of "length sep" "x # xs"] by (cases sep) auto
    obtain p ps where ps: "split_str sep (drop (length sep - 1) xs) = p # ps"
      by (cases "split_str sep (drop (length sep - 1) xs)") auto
    have "join sep (split_str sep (x # xs)) = sep @ join sep (p # ps)" using True 2(3) ps by simp
    also have "\<dots> = x # xs" using 2(1) [OF _ 2(3)] True 2(3) ps e by simp
    finally show ?thesis .
  next
    case False
    obtain p ps where "split_str sep xs = p # ps" by (cases "split_str sep xs") auto
    then show ?thesis using 2(2) [OF _ 2(3)] False by (simp add: join_Cons_char)
  qed
qed simp

end
