(* ===== verification/Codes.thy ===== *)
theory Codes
  imports Utf8_Chunks
begin

text \<open>
  Texts that can be read back in one way only: the lemmas the two description formats share.  A prefix code is an encoding of
  single values none of which begins another; the texts of lists over it determine the lists.
\<close>

locale prefix_code =
  fixes code :: "'a \<Rightarrow> 'b list" and dom :: "'a \<Rightarrow> bool"
  assumes nonempty: "dom x \<Longrightarrow> code x \<noteq> []"
    and unambiguous: "dom x \<Longrightarrow> dom y \<Longrightarrow> code x @ u = code y @ v \<Longrightarrow> x = y"
begin

lemma head_inj: "dom x \<Longrightarrow> dom y \<Longrightarrow> code x @ u = code y @ v \<Longrightarrow> x = y \<and> u = v"
  using unambiguous by blast

lemma concat_inj:
  "list_all dom xs \<Longrightarrow> list_all dom ys \<Longrightarrow> concat (map code xs) = concat (map code ys) \<Longrightarrow> xs = ys"
proof (induction xs arbitrary: ys)
  case Nil
  then show ?case using nonempty by (cases ys) auto
next
  case (Cons x xs)
  then obtain y zs where ys: "ys = y # zs" using nonempty by (cases ys) auto
  with Cons.prems have "x = y \<and> concat (map code xs) = concat (map code zs)" using head_inj by (intro head_inj) auto
  then show ?case using Cons ys by auto
qed

end

interpretation utf8: prefix_code encode_rune scalar
proof
  fix x y u v
  show "encode_rune x \<noteq> []" by simp
  assume "scalar x" "scalar y" "encode_rune x @ u = encode_rune y @ v"
  then show "x = y" using utf8_chunks_encode [of x u] utf8_chunks_encode [of y v] by simp
qed

text \<open>A text that is valid UTF-8, which determines its runes and is determined by them.\<close>

definition valid_utf8 :: "string \<Rightarrow> bool" where
  "valid_utf8 m \<longleftrightarrow> (\<exists>rs. list_all scalar rs \<and> m = string_of_runes rs)"

lemma string_of_runes_simps [simp]:
  "string_of_runes [] = []" "string_of_runes (r # rs) = encode_rune r @ string_of_runes rs"
  "string_of_runes (a @ b) = string_of_runes a @ string_of_runes b"
  by (simp_all add: string_of_runes_def)

lemma valid_utf8_runes:
  assumes "valid_utf8 s"
  shows "list_all scalar (runes_of s)" "string_of_runes (runes_of s) = s"
  using assms by (auto simp: valid_utf8_def runes_of_string_of_runes list_all_iff)

section \<open>Numbers\<close>

lemma fmt_nat_inj: "fmt_nat m = fmt_nat n \<longleftrightarrow> m = n"
  using digits_val_fmt_nat by metis

lemma fmt_nat_not_minus: "CHR ''-'' \<notin> set (fmt_nat n)"
  using fmt_nat_digits digit_not_sign by blast

lemma fmt_int_inj: "fmt_int i = fmt_int j \<longleftrightarrow> i = j"
proof
  assume eq: "fmt_int i = fmt_int j"
  have "hd (fmt_nat n) \<noteq> CHR ''-''" for n using fmt_nat_not_minus [of n] by (cases "fmt_nat n") auto
  then have "i < 0 \<longleftrightarrow> j < 0" using eq by (auto simp: fmt_int_def split: if_splits) (metis list.sel(1))+
  then show "i = j" using eq by (auto simp: fmt_int_def fmt_nat_inj split: if_splits)
qed simp

lemma fmt_int_chars: "set (fmt_int i) \<subseteq> {c. is_digit c} \<union> {CHR ''-''}"
  using fmt_nat_digits by (auto simp: fmt_int_def)

lemma fmt_int_nonempty [simp]: "fmt_int i \<noteq> []"
  by (simp add: fmt_int_def)

section \<open>Hexadecimal\<close>

definition hex_digit :: "nat \<Rightarrow> char" where
  "hex_digit d = (if d < 10 then chr (48 + d) else chr (87 + d))"

lemma byte_hex_digit: "d < 16 \<Longrightarrow> byte (hex_digit d) = (if d < 10 then 48 + d else 87 + d)"
  by (simp add: hex_digit_def)

lemma hex_digit_inj:
  assumes "a < 16" "b < 16" "hex_digit a = hex_digit b"
  shows "a = b"
proof -
  have "(if a < 10 then 48 + a else 87 + a) = (if b < 10 then 48 + b else 87 + b)"
    using assms(3) byte_hex_digit [OF assms(1)] byte_hex_digit [OF assms(2)] by metis
  then show ?thesis by (split if_split_asm; split if_split_asm) linarith+
qed

section \<open>Cutting a text at a delimiter\<close>

lemma cut_unique:
  assumes "a @ r = b @ s" "\<forall>c \<in> set a. \<not> P c" "\<forall>c \<in> set b. \<not> P c" "r = [] \<or> P (hd r)" "s = [] \<or> P (hd s)"
  shows "a = b \<and> r = s"
proof -
  have t: "takeWhile (\<lambda>c. \<not> P c) (x @ y) = x" if "\<forall>c \<in> set x. \<not> P c" "y = [] \<or> P (hd y)" for x y
    using that by (cases y) (auto simp: takeWhile_append)
  then have "a = b" using assms by metis
  then show ?thesis using assms(1) by simp
qed

end
