(* ===== verification/Money.thy ===== *)
theory Money
  imports Go_Strings
begin

text \<open>
  \<^verbatim>\<open>internal/money/money.go\<close>: exact fixed-point amounts.  \<open>Stroops\<close> is Go's \<open>int64\<close>, here a
  \<open>64 word\<close> read with \<open>sint\<close>.  \<open>Parse\<close> reads the strict decimal form, \<open>String_of\<close> writes it,
  \<open>Display\<close> writes it for a person; \<open>Add\<close>, \<open>Sub\<close>, \<open>Neg\<close> and \<open>Sum\<close> report an overflow instead of
  wrapping.  The lemmas show the strict grammar of \<open>Parse\<close>, the round trip with \<open>String_of\<close>, that
  \<open>Display\<close> never rounds, and that the arithmetic is exact or refuses.
\<close>

section \<open>Definitions\<close>

type_synonym stroops = int64

definition Precision :: nat where
  "Precision = 7"

definition One :: stroops where
  "One = 10000000"

definition minStroops :: stroops where
  "minStroops = - (2 ^ 63)"

definition maxStroops :: stroops where
  "maxStroops = 2 ^ 63 - 1"

datatype money_error = ErrOverflow | ErrSyntax | ErrPrecision

fun allDigits :: "string \<Rightarrow> bool" where
  "allDigits [] = True"
| "allDigits (c # cs) = (if byte c < 48 \<or> byte c > 57 then False else allDigits cs)"

definition Parse :: "string \<Rightarrow> (money_error, stroops) result" where
  "Parse s =
     (if s = [] then Inl ErrSyntax
      else let neg = (hd s = CHR ''-'');
               body = (if neg then tl s else s);
               (intPart, fracPart, hasDot) = cut_byte (CHR ''.'') body
           in if intPart = [] then Inl ErrSyntax
              else if hasDot \<and> fracPart = [] then Inl ErrSyntax
              else if \<not> allDigits intPart \<or> \<not> allDigits fracPart then Inl ErrSyntax
              else if length fracPart > Precision then Inl ErrPrecision
              else let digits = intPart @ fracPart
                         @ replicate (Precision - length fracPart) (CHR ''0'');
                       signed = (if neg then CHR ''-'' # digits else digits)
                   in case parse_int signed of
                        Inl NumRange \<Rightarrow> Inl ErrOverflow
                      | Inl NumSyntax \<Rightarrow> Inl ErrSyntax
                      | Inr v \<Rightarrow> Inr (word_of_int v))"

text \<open>\<open>MustParse\<close> panics where \<open>Parse\<close> fails: the panic is \<open>None\<close>.\<close>

definition MustParse :: "string \<Rightarrow> stroops option" where
  "MustParse s = (case Parse s of Inl _ \<Rightarrow> None | Inr v \<Rightarrow> Some v)"

text \<open>The magnitude as a \<open>uint64\<close>, and the sign.\<close>

definition abs_mag :: "stroops \<Rightarrow> 64 word \<times> bool" where
  "abs_mag s = (if sint s < 0 then (- (s + 1) + 1, True) else (s, False))"

definition String_of :: "stroops \<Rightarrow> string" where
  "String_of s =
     (let (u, neg) = abs_mag s;
          whole = u div One; frac = u mod One
      in (if neg then ''-'' else []) @ fmt_nat (unat whole) @ ''.''
         @ pad_zeros Precision (fmt_nat (unat frac)))"

text \<open>The loop of \<open>group\<close>: three digits at a time, a comma before each but the first.\<close>

fun group_loop :: "string \<Rightarrow> string \<Rightarrow> string" where
  "group_loop b (x # y # z # rest) =
     group_loop ((if b \<noteq> [] then b @ '','' else b) @ [x, y, z]) rest"
| "group_loop b _ = b"

definition group_thousands :: "nat \<Rightarrow> string" where
  "group_thousands n =
     (let plain = fmt_nat n
      in if length plain \<le> 3 then plain
         else let lead = length plain mod 3
              in group_loop (take lead plain) (drop lead plain))"

definition Display :: "stroops \<Rightarrow> string" where
  "Display s =
     (let (u, neg) = abs_mag s;
          whole = u div One; frac = u mod One;
          digits = pad_zeros Precision (fmt_nat (unat frac));
          trimmed0 = trim_right_byte (CHR ''0'') digits;
          trimmed = (if length trimmed0 < 2 then take 2 digits else trimmed0)
      in (if neg then ''-'' else []) @ group_thousands (unat whole) @ ''.'' @ trimmed)"

definition Add :: "stroops \<Rightarrow> stroops \<Rightarrow> (money_error, stroops) result" where
  "Add s t =
     (let total = s + t
      in if (sint s > 0 \<and> sint t > 0 \<and> sint total < 0)
           \<or> (sint s < 0 \<and> sint t < 0 \<and> sint total \<ge> 0)
         then Inl ErrOverflow else Inr total)"

definition Sub :: "stroops \<Rightarrow> stroops \<Rightarrow> (money_error, stroops) result" where
  "Sub s t =
     (if t = minStroops
      then (if sint s \<ge> 0 then Inl ErrOverflow else Inr (s + maxStroops + 1))
      else Add s (- t))"

definition Neg :: "stroops \<Rightarrow> (money_error, stroops) result" where
  "Neg s = (if s = minStroops then Inl ErrOverflow else Inr (- s))"

definition IsZero :: "stroops \<Rightarrow> bool" where
  "IsZero s \<longleftrightarrow> s = 0"

definition Sign :: "stroops \<Rightarrow> int" where
  "Sign s = (if sint s < 0 then -1 else if sint s > 0 then 1 else 0)"

fun Sum_from :: "stroops \<Rightarrow> stroops list \<Rightarrow> (money_error, stroops) result" where
  "Sum_from acc [] = Inr acc"
| "Sum_from acc (a # rest) =
     (case Add acc a of Inl e \<Rightarrow> Inl e | Inr acc' \<Rightarrow> Sum_from acc' rest)"

definition Sum :: "stroops list \<Rightarrow> (money_error, stroops) result" where
  "Sum amounts = Sum_from 0 amounts"

section \<open>The digits of an amount\<close>

lemma allDigits_iff: "allDigits s \<longleftrightarrow> (\<forall>c \<in> set s. is_digit c)"
  by (induction s) (auto simp: is_digit_def)

lemma allDigits_no_dot: "allDigits s \<Longrightarrow> CHR ''.'' \<notin> set s"
  by (auto simp: allDigits_iff is_digit_def)

text \<open>What an accepted amount string denotes, in stroops.\<close>

definition amount_value :: "bool \<Rightarrow> string \<Rightarrow> string \<Rightarrow> int" where
  "amount_value neg ip fp =
     (let m = int (digits_val ip) * 10 ^ 7 + int (digits_val fp) * 10 ^ (7 - length fp)
      in if neg then - m else m)"

definition amount_text :: "bool \<Rightarrow> string \<Rightarrow> string \<Rightarrow> string" where
  "amount_text neg ip fp =
     (if neg then ''-'' else []) @ ip @ (if fp = [] then [] else CHR ''.'' # fp)"

definition amount_syntax :: "string \<Rightarrow> string \<Rightarrow> bool" where
  "amount_syntax ip fp \<longleftrightarrow> ip \<noteq> [] \<and> allDigits ip \<and> allDigits fp \<and> length fp \<le> 7"

lemma digits_val_amount:
  "length fp \<le> 7 \<Longrightarrow>
     int (digits_val (ip @ fp @ replicate (7 - length fp) (CHR ''0'')))
       = amount_value False ip fp"
  by (simp add: digits_val_append amount_value_def power_add [symmetric] algebra_simps)

lemma amount_value_neg: "amount_value True ip fp = - amount_value False ip fp"
  by (simp add: amount_value_def)

lemma amount_value_nonneg: "0 \<le> amount_value False ip fp"
  by (simp add: amount_value_def)

lemma cut_amount_body:
  "amount_syntax ip fp \<Longrightarrow>
     cut_byte (CHR ''.'') (ip @ (if fp = [] then [] else CHR ''.'' # fp)) = (ip, fp, fp \<noteq> [])"
  by (auto simp: amount_syntax_def cut_byte_absent cut_byte_found allDigits_no_dot)

lemma parse_int_amount:
  assumes "amount_syntax ip fp"
  defines "ds \<equiv> ip @ fp @ replicate (7 - length fp) (CHR ''0'')"
  shows "parse_int (if neg then CHR ''-'' # ds else ds) =
    (if in_int64 (amount_value neg ip fp) then Inr (amount_value neg ip fp) else Inl NumRange)"
proof -
  have ne: "ds \<noteq> []" and dig: "\<forall>c \<in> set ds. is_digit c" and len: "length fp \<le> 7"
    using assms by (auto simp: amount_syntax_def allDigits_iff is_digit_def)
  have val: "int (digits_val ds) = amount_value False ip fp"
    unfolding ds_def using len by (rule digits_val_amount)
  show ?thesis
    using amount_value_nonneg [of ip fp]
    by (cases neg)
       (auto simp: parse_int_digits [OF ne dig] parse_int_minus_digits [OF ne dig]
          val in_int64_def amount_value_neg simp flip: val)
qed

lemma Parse_amount_text:
  assumes "amount_syntax ip fp"
  shows "Parse (amount_text neg ip fp) =
    (if in_int64 (amount_value neg ip fp) then Inr (word_of_int (amount_value neg ip fp))
     else Inl ErrOverflow)"
proof -
  have hd: "hd ip \<noteq> CHR ''-''" and ne: "ip \<noteq> []" and len: "length fp \<le> 7"
    and dig: "allDigits ip" "allDigits fp"
    using assms digit_not_sign by (auto simp: amount_syntax_def allDigits_iff)
  show ?thesis
    using ne hd len dig parse_int_amount [OF assms, of neg]
    by (auto simp: Parse_def amount_text_def Let_def Precision_def cut_amount_body [OF assms])
qed

text \<open>What \<open>Parse\<close> accepts is of the strict form: nothing else gets past its checks.\<close>

lemma Parse_shape:
  assumes "Parse t = Inr v"
  shows "\<exists>neg ip fp. t = amount_text neg ip fp \<and> amount_syntax ip fp"
proof -
  define neg where "neg = (hd t = CHR ''-'')"
  define body where "body = (if neg then tl t else t)"
  obtain ip fp dot where cut: "cut_byte (CHR ''.'') body = (ip, fp, dot)"
    by (cases "cut_byte (CHR ''.'') body")
  have ne: "t \<noteq> []" using assms by (auto simp: Parse_def)
  have ok: "ip \<noteq> []" "\<not> (dot \<and> fp = [])" "allDigits ip" "allDigits fp" "length fp \<le> 7"
    using assms cut ne
    by (auto simp: Parse_def Let_def neg_def [symmetric] body_def [symmetric] Precision_def
          split: if_splits)
  have body: "body = ip @ (if fp = [] then [] else CHR ''.'' # fp)"
    using cut_byte_spec [OF cut] ok(2) by (auto split: if_splits)
  have "t = (if neg then ''-'' else []) @ body"
    using ne by (cases t) (auto simp: body_def neg_def)
  then have "t = amount_text neg ip fp" using body by (simp add: amount_text_def)
  moreover have "amount_syntax ip fp" using ok by (simp add: amount_syntax_def)
  ultimately show ?thesis by blast
qed

lemma Parse_iff:
  "Parse t = Inr v \<longleftrightarrow>
     (\<exists>neg ip fp. t = amount_text neg ip fp \<and> amount_syntax ip fp
        \<and> sint v = amount_value neg ip fp)"
proof
  assume p: "Parse t = Inr v"
  then obtain neg ip fp where t: "t = amount_text neg ip fp" "amount_syntax ip fp"
    using Parse_shape by blast
  with p have "in_int64 (amount_value neg ip fp)" "v = word_of_int (amount_value neg ip fp)"
    by (auto simp: Parse_amount_text split: if_splits)
  then have "sint v = amount_value neg ip fp" by (simp add: sint_word_of_int64 wrap64_id)
  with t show "\<exists>neg ip fp. t = amount_text neg ip fp \<and> amount_syntax ip fp
        \<and> sint v = amount_value neg ip fp" by blast
next
  assume "\<exists>neg ip fp. t = amount_text neg ip fp \<and> amount_syntax ip fp
        \<and> sint v = amount_value neg ip fp"
  then obtain neg ip fp where t: "t = amount_text neg ip fp" "amount_syntax ip fp"
    and v: "sint v = amount_value neg ip fp" by blast
  have "in_int64 (amount_value neg ip fp)" unfolding v [symmetric] by simp
  then show "Parse t = Inr v" using t Parse_amount_text [OF t(2), of neg] by (simp flip: v)
qed

section \<open>Writing an amount\<close>

lemma abs_mag_spec:
  "abs_mag s = (u, neg) \<Longrightarrow> int (unat u) = \<bar>sint s\<bar> \<and> (neg \<longleftrightarrow> sint s < 0)"
proof -
  assume a: "abs_mag s = (u, neg)"
  have r: "in_int64 (sint s)" by simp
  show ?thesis
  proof (cases "sint s < 0")
    case True
    then have u: "u = - s" and "neg" using a by (auto simp: abs_mag_def)
    have "u = word_of_int (- sint s)" by (simp add: u)
    then have "uint u = (- sint s) mod 2 ^ 64" by (simp only: uint_word_of_int) simp
    also have "\<dots> = - sint s" using True r by (simp add: in_int64_def)
    finally show ?thesis using True \<open>neg\<close> by simp
  next
    case False
    then have u: "u = s" and "\<not> neg" using a by (auto simp: abs_mag_def)
    have "u = word_of_int (sint s)" by (simp add: u)
    then have "uint u = sint s mod 2 ^ 64" by (simp only: uint_word_of_int) simp
    also have "\<dots> = sint s" using False r by (simp add: in_int64_def)
    finally show ?thesis using False \<open>\<not> neg\<close> by simp
  qed
qed

lemma digits_val_pad [simp]: "digits_val (pad_zeros w s) = digits_val s"
  by (simp add: pad_zeros_def digits_val_append)

lemma allDigits_pad: "allDigits s \<Longrightarrow> allDigits (pad_zeros w s)"
  by (auto simp: pad_zeros_def allDigits_iff is_digit_def)

lemma allDigits_fmt_nat [simp]: "allDigits (fmt_nat n)"
  by (simp add: allDigits_iff fmt_nat_digits)

lemma length_fmt_nat: "n < 10 ^ k \<Longrightarrow> 0 < k \<Longrightarrow> length (fmt_nat n) \<le> k"
proof (induction n arbitrary: k rule: fmt_nat.induct)
  case (1 n)
  show ?case
  proof (cases "n < 10")
    case True
    then show ?thesis using "1.prems" by (subst fmt_nat.simps) simp
  next
    case False
    then obtain j where k: "k = Suc j" "0 < j" using "1.prems" by (cases k; cases "k - 1") auto
    then have "n div 10 < 10 ^ j" using "1.prems" by (simp add: less_mult_imp_div_less mult.commute)
    then have "length (fmt_nat (n div 10)) \<le> j" using "1.IH" False k by blast
    then show ?thesis using False k by (subst fmt_nat.simps) simp
  qed
qed

lemma length_frac: "n < 10 ^ 7 \<Longrightarrow> length (pad_zeros 7 (fmt_nat n)) = 7"
  using length_fmt_nat [of n 7] by (simp add: pad_zeros_def)

text \<open>The whole and the fractional part of a magnitude, as \<open>String_of\<close> and \<open>Display\<close> split it.\<close>

definition split_mag :: "64 word \<Rightarrow> nat \<times> nat" where
  "split_mag u = (unat (u div One), unat (u mod One))"

lemma split_mag_value:
  "split_mag u = (w, f) \<Longrightarrow> unat u = w * 10 ^ 7 + f \<and> f < 10 ^ 7"
  by (auto simp: split_mag_def One_def unat_div unat_mod)

lemma String_of_eq:
  assumes "abs_mag s = (u, neg)" "split_mag u = (w, f)"
  shows "String_of s = amount_text neg (fmt_nat w) (pad_zeros 7 (fmt_nat f))"
  using assms length_frac [of f] split_mag_value [of u w f]
  by (auto simp: String_of_def amount_text_def split_mag_def Precision_def Let_def)

lemma amount_value_mag:
  assumes "abs_mag s = (u, neg)" "split_mag u = (w, f)"
    "digits_val ip = w" "digits_val fp * 10 ^ (7 - length fp) = f"
  shows "amount_value neg ip fp = sint s"
proof -
  have "int (unat u) = \<bar>sint s\<bar>" "neg \<longleftrightarrow> sint s < 0" using abs_mag_spec [OF assms(1)] by auto
  moreover have "int (unat u) = int w * 10 ^ 7 + int f"
    using split_mag_value [OF assms(2)] by simp
  moreover have "int (digits_val fp) * 10 ^ (7 - length fp) = int f"
    using assms(4) by (metis of_nat_mult of_nat_numeral of_nat_power)
  ultimately show ?thesis using assms(3) by (auto simp: amount_value_def Let_def)
qed

lemma Parse_String: "Parse (String_of s) = Inr s"
proof -
  obtain u neg w f where m: "abs_mag s = (u, neg)" "split_mag u = (w, f)"
    by (cases "abs_mag s"; cases "split_mag (fst (abs_mag s))") auto
  have f: "f < 10 ^ 7" using split_mag_value [OF m(2)] by simp
  let ?ip = "fmt_nat w" and ?fp = "pad_zeros 7 (fmt_nat f)"
  have "amount_syntax ?ip ?fp"
    by (simp add: amount_syntax_def allDigits_pad length_frac [OF f])
  moreover have "amount_value neg ?ip ?fp = sint s"
    using m by (rule amount_value_mag) (simp_all add: length_frac [OF f])
  ultimately show ?thesis unfolding String_of_eq [OF m] Parse_iff by (metis (full_types))
qed

text \<open>
  Writing an amount in Stellar's canonical form and reading it back gives the same amount, for
  every representable value, the most negative one included.
\<close>

theorem Parse_String_of: "Parse (String_of s) = Inr s"
  by (rule Parse_String)

text \<open>
  C32: \<open>Parse\<close> accepts exactly an optional minus sign, at least one digit, and optionally a point
  and one to seven digits, and the amount it returns is the exact value of those digits.
\<close>

theorem Parse_strict_and_exact:
  "Parse t = Inr v \<longleftrightarrow>
     (\<exists>neg ip fp. t = amount_text neg ip fp \<and> amount_syntax ip fp
        \<and> sint v = amount_value neg ip fp)"
  by (rule Parse_iff)

section \<open>Displaying an amount\<close>

lemma group_loop_commas:
  "length ds mod 3 = 0 \<Longrightarrow> CHR '','' \<notin> set ds \<Longrightarrow>
     filter (\<lambda>c. c \<noteq> CHR '','') (group_loop b ds) = filter (\<lambda>c. c \<noteq> CHR '','') b @ ds"
  by (induction b ds rule: group_loop.induct) auto

lemma digits_no_comma: "allDigits s \<Longrightarrow> CHR '','' \<notin> set s"
  by (auto simp: allDigits_iff is_digit_def)

lemma filter_no_comma: "allDigits s \<Longrightarrow> filter (\<lambda>c. c \<noteq> CHR '','') s = s"
  using digits_no_comma by (auto simp: filter_id_conv)

lemma group_thousands_commas:
  "filter (\<lambda>c. c \<noteq> CHR '','') (group_thousands n) = fmt_nat n"
proof (cases "length (fmt_nat n) \<le> 3")
  case False
  let ?p = "fmt_nat n" and ?l = "length (fmt_nat n) mod 3"
  have "length (drop ?l ?p) mod 3 = 0"
    by (metis length_drop minus_mod_eq_mult_div mod_mult_self1_is_0)
  moreover have "CHR '','' \<notin> set (drop ?l ?p)"
    using digits_no_comma [of ?p] in_set_dropD [of _ ?l ?p] by auto
  moreover have "filter (\<lambda>c. c \<noteq> CHR '','') (take ?l ?p) = take ?l ?p"
    using digits_no_comma [of ?p] in_set_takeD [of _ ?l ?p] by (auto simp: filter_id_conv)
  ultimately show ?thesis
    using False by (simp add: group_thousands_def group_loop_commas Let_def)
qed (simp add: group_thousands_def filter_no_comma Let_def)

text \<open>The decimals \<open>Display\<close> shows are the seven of the amount less trailing zeros.\<close>

definition shown_decimals :: "string \<Rightarrow> string" where
  "shown_decimals ds =
     (let t = trim_right_byte (CHR ''0'') ds in if length t < 2 then take 2 ds else t)"

lemma shown_decimals_split:
  assumes "length ds = 7"
  shows "\<exists>k. ds = shown_decimals ds @ replicate k (CHR ''0'') \<and> 2 \<le> length (shown_decimals ds)"
proof -
  let ?t = "trim_right_byte (CHR ''0'') ds"
  obtain k where k: "ds = ?t @ replicate k (CHR ''0'')" using trim_right_byte_split by blast
  show ?thesis
  proof (cases "length ?t < 2")
    case True
    have "drop 2 ds = drop (2 - length ?t) (replicate k (CHR ''0''))"
      by (subst k) (use True in simp)
    then have "drop 2 ds = replicate (k - (2 - length ?t)) (CHR ''0'')" by simp
    then have "ds = take 2 ds @ replicate (k - (2 - length ?t)) (CHR ''0'')"
      by (metis append_take_drop_id)
    then show ?thesis using True assms by (auto simp: shown_decimals_def Let_def)
  next
    case False
    then show ?thesis using k by (auto simp: shown_decimals_def Let_def)
  qed
qed

lemma shown_decimals_value:
  assumes "length ds = 7" "allDigits ds"
  defines "t \<equiv> shown_decimals ds"
  shows "digits_val t * 10 ^ (7 - length t) = digits_val ds"
    and "allDigits t" and "t \<noteq> []" and "length t \<le> 7"
proof -
  obtain k where k: "ds = t @ replicate k (CHR ''0'')" "2 \<le> length t"
    using shown_decimals_split [OF assms(1)] unfolding t_def by blast
  have "length t + k = 7" using arg_cong [OF k(1), of length] assms(1) by simp
  then have "k = 7 - length t" by simp
  then show "digits_val t * 10 ^ (7 - length t) = digits_val ds"
    using arg_cong [OF k(1), of digits_val] by (simp add: digits_val_append)
  show "allDigits t" using assms(2) k(1) by (metis Un_iff allDigits_iff set_append)
  show "t \<noteq> []" "length t \<le> 7" using k(2) \<open>length t + k = 7\<close> by auto
qed

lemma Display_eq:
  assumes "abs_mag s = (u, neg)" "split_mag u = (w, f)"
  shows "filter (\<lambda>c. c \<noteq> CHR '','') (Display s) =
    amount_text neg (fmt_nat w) (shown_decimals (pad_zeros 7 (fmt_nat f)))"
proof -
  let ?ds = "pad_zeros 7 (fmt_nat f)"
  have len: "length ?ds = 7" using length_frac split_mag_value [OF assms(2)] by blast
  have d: "allDigits ?ds" by (simp add: allDigits_pad)
  note v = shown_decimals_value [OF len d]
  have "Display s = (if neg then ''-'' else []) @ group_thousands w @ ''.'' @ shown_decimals ?ds"
    using assms
    by (simp add: Display_def shown_decimals_def split_mag_def Precision_def Let_def)
  then show ?thesis using v(2,3) by (simp add: group_thousands_commas amount_text_def filter_no_comma)
qed

lemma Parse_Display: "Parse (filter (\<lambda>c. c \<noteq> CHR '','') (Display s)) = Inr s"
proof -
  obtain u neg w f where m: "abs_mag s = (u, neg)" "split_mag u = (w, f)"
    by (cases "abs_mag s"; cases "split_mag (fst (abs_mag s))") auto
  let ?ds = "pad_zeros 7 (fmt_nat f)"
  have len: "length ?ds = 7" using length_frac split_mag_value [OF m(2)] by blast
  have d: "allDigits ?ds" by (simp add: allDigits_pad)
  note v = shown_decimals_value [OF len d]
  have "amount_syntax (fmt_nat w) (shown_decimals ?ds)" using v by (simp add: amount_syntax_def)
  moreover have "amount_value neg (fmt_nat w) (shown_decimals ?ds) = sint s"
    using m by (rule amount_value_mag) (use v in simp_all)
  ultimately show ?thesis unfolding Display_eq [OF m] Parse_iff by (metis (full_types))
qed

text \<open>
  \<open>Display\<close> never rounds.  Taking the thousands separators out of what it shows leaves a
  canonical amount that reads back as exactly the amount displayed.
\<close>

theorem Display_never_rounds: "Parse (filter (\<lambda>c. c \<noteq> CHR '','') (Display s)) = Inr s"
  by (rule Parse_Display)

section \<open>Arithmetic\<close>

lemma minStroops_iff: "t = minStroops \<longleftrightarrow> sint t = - (2 ^ 63)"
proof -
  have "sint minStroops = - (2 ^ 63)" by (simp add: minStroops_def)
  then show ?thesis by (metis sint_eq_iff64)
qed

lemma Add_exact:
  "Add s t = (if in_int64 (sint s + sint t) then Inr (s + t) else Inl ErrOverflow)"
proof -
  have r: "in_int64 (sint s)" "in_int64 (sint t)" by simp_all
  consider "in_int64 (sint s + sint t)" | "sint s + sint t \<ge> 2 ^ 63" | "sint s + sint t < - (2 ^ 63)"
    unfolding in_int64_def by linarith
  then show ?thesis
  proof cases
    case 1
    then show ?thesis by (auto simp: Add_def Let_def sint_add64 wrap64_id)
  next
    case 2
    then have "sint (s + t) = sint s + sint t - 2 ^ 64"
      using r by (subst sint_add64, intro wrap64_high) (auto simp: in_int64_def)
    then show ?thesis using 2 r by (auto simp: Add_def Let_def in_int64_def)
  next
    case 3
    then have "sint (s + t) = sint s + sint t + 2 ^ 64"
      using r by (subst sint_add64, intro wrap64_low) (auto simp: in_int64_def)
    then show ?thesis using 3 r by (auto simp: Add_def Let_def in_int64_def)
  qed
qed

lemma Sub_exact:
  "Sub s t = (if in_int64 (sint s - sint t) then Inr (s - t) else Inl ErrOverflow)"
proof (cases "t = minStroops")
  case True
  have r: "in_int64 (sint s)" by simp
  have t: "sint t = - (2 ^ 63)" using True minStroops_iff by blast
  have "s + maxStroops + 1 = s - t" unfolding True by (simp add: maxStroops_def minStroops_def)
  then show ?thesis using True r t by (auto simp: Sub_def in_int64_def)
next
  case False
  have r: "in_int64 (sint t)" by simp
  have "sint t \<noteq> - (2 ^ 63)" using False minStroops_iff by blast
  then have "sint (- t) = - sint t"
    using r by (simp add: sint_uminus64 wrap64_id in_int64_def)
  then show ?thesis using False by (simp add: Sub_def Add_exact)
qed

lemma Inr_word_iff:
  fixes w r :: stroops
  assumes "in_int64 v \<Longrightarrow> sint w = v"
  shows "(if in_int64 v then Inr w else Inl ErrOverflow) = Inr r \<longleftrightarrow> sint r = v"
proof -
  have "in_int64 (sint r)" by simp
  then show ?thesis using assms by (auto simp: sint_eq_iff64)
qed

lemma Neg_exact: "Neg s = (if in_int64 (- sint s) then Inr (- s) else Inl ErrOverflow)"
proof -
  have "in_int64 (sint s)" by simp
  then show ?thesis by (auto simp: Neg_def minStroops_iff in_int64_def)
qed

text \<open>
  C33: addition, subtraction and negation return the exact mathematical result whenever it is
  representable and refuse otherwise; none of them ever returns a wrapped value.
\<close>

theorem arithmetic_exact_or_refused:
  "(Add s t = Inr r \<longleftrightarrow> sint r = sint s + sint t)
   \<and> (Sub s t = Inr r \<longleftrightarrow> sint r = sint s - sint t)
   \<and> (Neg s = Inr r \<longleftrightarrow> sint r = - sint s)"
  unfolding Add_exact Sub_exact Neg_exact
  by (intro conjI Inr_word_iff) (simp_all add: int64_simps wrap64_id)

lemma Add_iff: "Add s t = Inr r \<longleftrightarrow> sint r = sint s + sint t"
  unfolding Add_exact by (intro Inr_word_iff) (simp add: sint_add64 wrap64_id)

lemma Sum_from_iff:
  "Sum_from a xs = Inr r \<longleftrightarrow>
     sint r = sint a + sum_list (map sint xs)
     \<and> (\<forall>k \<le> length xs. in_int64 (sint a + sum_list (map sint (take k xs))))"
proof (induction xs arbitrary: a)
  case Nil
  then show ?case by (auto simp: sint_eq_iff64)
next
  case (Cons x xs)
  have split: "(\<forall>k \<le> length (x # xs). in_int64 (sint a + sum_list (map sint (take k (x # xs)))))
    \<longleftrightarrow> (\<forall>k \<le> length xs. in_int64 (sint a + sint x + sum_list (map sint (take k xs))))"
    (is "?L = ?R")
  proof
    assume l: ?L
    show ?R
    proof (intro allI impI)
      fix k assume "k \<le> length xs"
      then show "in_int64 (sint a + sint x + sum_list (map sint (take k xs)))"
        using l [rule_format, of "Suc k"] by (simp add: add.assoc)
    qed
  next
    assume r: ?R
    show ?L
    proof (intro allI impI)
      fix k assume k: "k \<le> length (x # xs)"
      show "in_int64 (sint a + sum_list (map sint (take k (x # xs))))"
      proof (cases k)
        case (Suc j)
        then show ?thesis using r [rule_format, of j] k by (simp add: add.assoc)
      qed simp
    qed
  qed
  show ?case
  proof (cases "Add a x")
    case (Inl e)
    then have "\<not> in_int64 (sint a + sint x)" by (auto simp: Add_exact split: if_splits)
    then have "\<not> (\<forall>k \<le> length xs. in_int64 (sint a + sint x + sum_list (map sint (take k xs))))"
      by (metis add_0_right le0 list.simps(8) sum_list.Nil take0)
    then show ?thesis unfolding split using Inl by simp
  next
    case (Inr b)
    then have "sint b = sint a + sint x" by (simp add: Add_iff)
    then show ?thesis unfolding split using Inr Cons.IH [of b] by (simp add: add.assoc)
  qed
qed

text \<open>
  \<open>Sum\<close> returns the exact total, and returns it exactly when every running total is
  representable; it never wraps on the way to a total that happens to fit.
\<close>

theorem Sum_exact:
  "Sum xs = Inr r \<longleftrightarrow>
     sint r = sum_list (map sint xs)
     \<and> (\<forall>k \<le> length xs. in_int64 (sum_list (map sint (take k xs))))"
  unfolding Sum_def by (simp add: Sum_from_iff)

theorem Sum_exact_witness:
  "sint (- 3 :: stroops) = sum_list (map sint [- 5, 2 :: stroops]) \<and> Sum [- 5, 2] = Inr (- 3)
   \<and> in_int64 (sum_list (map sint (take 1 [- 5, 2 :: stroops])))"
proof -
  have "Sum [- 5, 2] = Inr (- 3)" by (simp add: Sum_def Add_exact in_int64_def)
  moreover from this have "\<forall>k \<le> length [- 5, 2 :: stroops].
      in_int64 (sum_list (map sint (take k [- 5, 2 :: stroops])))"
    using Sum_exact [of "[- 5, 2]" "- 3"] by blast
  ultimately show ?thesis using Sum_exact [of "[- 5, 2]" "- 3"] by (simp add: in_int64_def)
qed

end
