(* ===== verification/Intent_Amount.thy ===== *)
theory Intent_Amount
  imports Money Utf8 "HOL-Library.Multiset"
begin

text \<open>
  \<^verbatim>\<open>api/intent/amount.go\<close>: turning the words of an amount into stroops.  The suffix table is a Go
  map, and \<open>range\<close> visits a map in an order the runtime picks; that order is the argument \<open>order\<close>
  of \<open>normalizeDigits\<close> and \<open>NormalizeAmount\<close>.  The running totals of \<open>normalizeWords\<close> are
  \<open>int64\<close>, as in the code, so they wrap.
\<close>

section \<open>Definitions\<close>

datatype amount_error = ErrAmountUnreadable | ErrAmountAmbiguous

definition multipliers :: "(string \<times> int64) list" where
  "multipliers = [(''k'', 1000), (''m'', 1000000), (''bn'', 1000000000), (''b'', 1000000000)]"

definition numberWords :: "(string \<times> int64) list" where
  "numberWords =
    [(''zero'', 0), (''one'', 1), (''two'', 2), (''three'', 3), (''four'', 4),
     (''five'', 5), (''six'', 6), (''seven'', 7), (''eight'', 8), (''nine'', 9),
     (''ten'', 10), (''eleven'', 11), (''twelve'', 12), (''thirteen'', 13), (''fourteen'', 14),
     (''fifteen'', 15), (''sixteen'', 16), (''seventeen'', 17), (''eighteen'', 18),
     (''nineteen'', 19), (''twenty'', 20), (''thirty'', 30), (''forty'', 40), (''fifty'', 50),
     (''sixty'', 60), (''seventy'', 70), (''eighty'', 80), (''ninety'', 90)]"

definition wordScales :: "(string \<times> int64) list" where
  "wordScales = [(''hundred'', 100), (''thousand'', 1000), (''million'', 1000000)]"

text \<open>Reading a key that is not in a Go map gives the zero value.\<close>

definition map_get0 :: "(string \<times> int64) list \<Rightarrow> string \<Rightarrow> int64" where
  "map_get0 m k = (case map_of m k of None \<Rightarrow> 0 | Some v \<Rightarrow> v)"

definition isDigit :: "char \<Rightarrow> bool" where
  "isDigit b \<longleftrightarrow> byte b \<ge> 48 \<and> byte b \<le> 57"

fun isNumeric_from :: "nat \<Rightarrow> string \<Rightarrow> bool" where
  "isNumeric_from dots [] = True"
| "isNumeric_from dots (c # cs) =
     (if isDigit c then isNumeric_from dots cs
      else if c = CHR ''.'' then (if dots + 1 > 1 then False else isNumeric_from (dots + 1) cs)
      else False)"

definition isNumeric :: "string \<Rightarrow> bool" where
  "isNumeric s = isNumeric_from 0 s"

text \<open>The loop of \<open>stripGroupingCommas\<close>: the byte before, if any, and the bytes from here on.\<close>

fun stripCommas_from :: "char option \<Rightarrow> string \<Rightarrow> string" where
  "stripCommas_from prev [] = []"
| "stripCommas_from prev (c # cs) =
     (if c = CHR '','' \<and> (case prev of None \<Rightarrow> False | Some p \<Rightarrow> isDigit p)
         \<and> cs \<noteq> [] \<and> isDigit (hd cs)
      then stripCommas_from (Some c) cs
      else c # stripCommas_from (Some c) cs)"

definition stripGroupingCommas :: "string \<Rightarrow> string" where
  "stripGroupingCommas s = stripCommas_from None s"

fun pickMultiplier :: "(string \<times> int64) list \<Rightarrow> string \<Rightarrow> int64 \<times> string" where
  "pickMultiplier [] body = (1, body)"
| "pickMultiplier ((suf, m) # rest) body =
     (if length body > length suf \<and> has_suffix body suf then
        (if suf = ''b'' \<and> has_suffix body ''bn'' then pickMultiplier rest body
         else (m, trim_suffix body suf))
      else pickMultiplier rest body)"

definition normalizeDigits ::
    "(string \<times> int64) list \<Rightarrow> string \<Rightarrow> (amount_error, stroops) result" where
  "normalizeDigits order text =
     (let (multiplier, body0) = pickMultiplier order text;
          body = stripGroupingCommas body0
      in if body = [] \<or> \<not> isNumeric body then Inl ErrAmountUnreadable
         else case Parse body of
                Inl _ \<Rightarrow> Inl ErrAmountUnreadable
              | Inr base \<Rightarrow>
                  if multiplier = 1 then Inr base
                  else let scaled = base * multiplier
                       in if base \<noteq> 0 \<and> trunc_div (sint scaled) (sint multiplier) \<noteq> sint base
                          then Inl ErrAmountUnreadable else Inr scaled)"

text \<open>The loop of \<open>normalizeWords\<close> over \<open>total\<close>, \<open>current\<close> and \<open>sawAny\<close>.\<close>

fun words_loop :: "int64 \<Rightarrow> int64 \<Rightarrow> bool \<Rightarrow> string list \<Rightarrow>
    (amount_error, int64 \<times> int64 \<times> bool) result" where
  "words_loop tot cur saw [] = Inr (tot, cur, saw)"
| "words_loop tot cur saw (w # ws) =
     (if w = ''and'' then words_loop tot cur saw ws
      else if map_get0 numberWords w \<noteq> 0 \<or> w = ''zero''
      then words_loop tot (cur + map_get0 numberWords w) True ws
      else if map_get0 wordScales w \<noteq> 0
      then let scale = map_get0 wordScales w;
               cur1 = (if cur = 0 then 1 else cur)
           in if sint scale \<ge> 1000 then words_loop (tot + cur1 * scale) 0 True ws
              else words_loop tot (cur1 * scale) True ws
      else Inl ErrAmountUnreadable)"

definition normalizeWords :: "string \<Rightarrow> (amount_error, stroops) result" where
  "normalizeWords text =
     (let fields = FieldsFunc (\<lambda>r. r = 32 \<or> r = 45) text
      in if fields = [] then Inl ErrAmountUnreadable
         else case words_loop 0 0 False fields of
                Inl e \<Rightarrow> Inl e
              | Inr (tot, cur, saw) \<Rightarrow>
                  if \<not> saw then Inl ErrAmountUnreadable
                  else let whole = tot + cur; amount = whole * One
                       in if whole \<noteq> 0 \<and> trunc_div (sint amount) (sint One) \<noteq> sint whole
                          then Inl ErrAmountUnreadable else Inr amount)"

text \<open>The cutset \<^verbatim>\<open>"\<open>N\<close>$\<open>E\<close>\<open>L\<close> "\<close>: the naira, dollar, euro and pound signs, and a space.\<close>

definition currency_rune :: "rune \<Rightarrow> bool" where
  "currency_rune r \<longleftrightarrow> r = 8358 \<or> r = 36 \<or> r = 8364 \<or> r = 163 \<or> r = 32"

definition NormalizeAmount ::
    "unicode_tables \<Rightarrow> (string \<times> int64) list \<Rightarrow> string \<Rightarrow> (amount_error, stroops) result" where
  "NormalizeAmount U order text =
     (let cleaned = TrimSpace (ToLower U text)
      in if cleaned = [] then Inl ErrAmountUnreadable
         else let bare = TrimSpace (TrimLeftFunc currency_rune cleaned)
              in if bare = [] then Inl ErrAmountUnreadable
                 else case normalizeDigits order bare of
                        Inr v \<Rightarrow> Inr v
                      | Inl e \<Rightarrow>
                          if e \<noteq> ErrAmountUnreadable then Inl e else normalizeWords bare)"

section \<open>The order in which the suffix table is visited does not matter\<close>

lemma has_suffix_same_end:
  "has_suffix s p \<Longrightarrow> has_suffix s q \<Longrightarrow> p \<noteq> [] \<Longrightarrow> q \<noteq> [] \<Longrightarrow> last p = last q"
  by (auto simp: has_suffix_iff suffix_def) (metis last_appendR)

text \<open>A suffix of the table is taken at a text exactly when this holds of it.\<close>

definition takes :: "string \<Rightarrow> string \<Rightarrow> bool" where
  "takes body suf \<longleftrightarrow>
     length body > length suf \<and> has_suffix body suf \<and> \<not> (suf = ''b'' \<and> has_suffix body ''bn'')"

lemma pickMultiplier_Cons:
  "pickMultiplier ((suf, m) # rest) body =
     (if takes body suf then (m, trim_suffix body suf) else pickMultiplier rest body)"
  by (simp add: takes_def)

lemma pickMultiplier_find:
  "pickMultiplier order body =
     (case find (\<lambda>(suf, m). takes body suf) order of
        None \<Rightarrow> (1, body) | Some (suf, m) \<Rightarrow> (m, trim_suffix body suf))"
proof (induction order)
  case (Cons x order)
  then show ?case by (cases x) (simp add: pickMultiplier_Cons del: pickMultiplier.simps(2))
qed simp

lemma takes_unique:
  "takes body p \<Longrightarrow> takes body q \<Longrightarrow> (p, m) \<in> set multipliers \<Longrightarrow> (q, n) \<in> set multipliers \<Longrightarrow>
     (p, m) = (q, n)"
  using has_suffix_same_end [of body p q]
  by (auto simp: multipliers_def takes_def)

lemma find_unique:
  assumes "\<And>x y. x \<in> set xs \<Longrightarrow> y \<in> set xs \<Longrightarrow> P x \<Longrightarrow> P y \<Longrightarrow> x = y" "set ys = set xs"
  shows "find P ys = find P xs"
proof (cases "find P ys")
  case None
  then show ?thesis using assms(2) by (metis find_None_iff)
next
  case (Some y)
  then have y: "y \<in> set xs" "P y" using assms(2) by (auto simp: find_Some_iff)
  then obtain x where x: "find P xs = Some x" by (cases "find P xs") (auto simp: find_None_iff)
  then have "x \<in> set xs" "P x" by (auto simp: find_Some_iff)
  then show ?thesis using Some x y assms(1) by simp
qed

lemma pickMultiplier_order:
  assumes "mset order = mset multipliers"
  shows "pickMultiplier order body = pickMultiplier multipliers body"
proof -
  have "set order = set multipliers" using assms by (metis set_mset_mset)
  then have "find (\<lambda>(suf, m). takes body suf) order = find (\<lambda>(suf, m). takes body suf) multipliers"
    by (intro find_unique) (auto dest: takes_unique)
  then show ?thesis by (simp add: pickMultiplier_find)
qed

lemma normalizeDigits_order:
  "mset order = mset multipliers \<Longrightarrow> normalizeDigits order text = normalizeDigits multipliers text"
  by (simp only: normalizeDigits_def pickMultiplier_order [of order])

text \<open>
  Whatever order the runtime visits the suffix table in, an amount reads the same: the check
  that lets "bn" win over "b" is enough.
\<close>

theorem NormalizeAmount_order_irrelevant:
  assumes "mset order = mset multipliers"
  shows "NormalizeAmount U order text = NormalizeAmount U multipliers text"
  unfolding NormalizeAmount_def Let_def normalizeDigits_order [OF assms] ..

theorem NormalizeAmount_order_irrelevant_witness:
  "NormalizeAmount plain_tables (rev multipliers) ''2bn''
     = NormalizeAmount plain_tables multipliers ''2bn''"
  by (rule NormalizeAmount_order_irrelevant) (simp add: multipliers_def)

section \<open>What the digit forms mean\<close>

lemma isDigit_iff: "isDigit c = is_digit c"
  by (auto simp: isDigit_def is_digit_def)

lemma isNumeric_digits: "allDigits s \<Longrightarrow> isNumeric_from d (s @ t) = isNumeric_from d t"
  by (induction s) (auto simp: isDigit_def)

lemma isNumeric_amount:
  assumes "amount_syntax ip fp"
  shows "isNumeric (amount_text False ip fp)"
proof -
  have "isNumeric_from 1 fp"
    using isNumeric_digits [of fp 1 "[]"] assms by (simp add: amount_syntax_def)
  then show ?thesis
    using assms by (auto simp: isNumeric_def amount_text_def amount_syntax_def isNumeric_digits isDigit_def)
qed

lemma stripCommas_none: "CHR '','' \<notin> set s \<Longrightarrow> stripCommas_from p s = s"
  by (induction s arbitrary: p) auto

lemma amount_text_chars:
  "amount_syntax ip fp \<Longrightarrow> c \<in> set (amount_text False ip fp) \<Longrightarrow> is_digit c \<or> c = CHR ''.''"
  by (auto simp: amount_text_def amount_syntax_def allDigits_iff split: if_splits)

lemma amount_text_no_comma: "amount_syntax ip fp \<Longrightarrow> CHR '','' \<notin> set (amount_text False ip fp)"
  using amount_text_chars [of ip fp "CHR '',''"] by (auto simp: is_digit_def)

lemma last_amount_text: "amount_syntax ip fp \<Longrightarrow> is_digit (last (amount_text False ip fp))"
  by (auto simp: amount_text_def amount_syntax_def allDigits_iff)

lemma amount_text_nonempty: "amount_syntax ip fp \<Longrightarrow> amount_text False ip fp \<noteq> []"
  by (auto simp: amount_text_def amount_syntax_def)

text \<open>A text that ends in a digit takes no suffix; one that ends in a suffix takes that one.\<close>

lemma pick_none:
  assumes "is_digit (last t)"
  shows "pickMultiplier multipliers t = (1, t)"
proof -
  have "\<not> takes t suf" if "(suf, m) \<in> set multipliers" for suf m
  proof
    assume "takes t suf"
    then obtain z where "t = z @ suf" by (auto simp: takes_def has_suffix_iff suffix_def)
    then show False using that assms by (auto simp: multipliers_def is_digit_def)
  qed
  then have "find (\<lambda>(suf, m). takes t suf) multipliers = None" by (auto simp: find_None_iff)
  then show ?thesis by (simp add: pickMultiplier_find)
qed

lemma trim_suffix_append [simp]: "trim_suffix (t @ suf) suf = t"
  by (simp add: trim_suffix_def has_suffix_def)

lemma pick_suffix:
  assumes t: "t \<noteq> []" "is_digit (last t)" and suf: "(suf, m) \<in> set multipliers"
  shows "pickMultiplier multipliers (t @ suf) = (m, t)"
proof -
  have "\<not> has_suffix (t @ ''b'') ''bn''"
    using has_suffix_same_end [of "t @ ''b''" "''b''" "''bn''"] by (auto simp: has_suffix_def)
  then have tk: "takes (t @ suf) suf"
    using t suf by (auto simp: takes_def has_suffix_def multipliers_def)
  have "find (\<lambda>(p, m). takes (t @ suf) p) multipliers = Some (suf, m)"
  proof (cases "find (\<lambda>(p, m). takes (t @ suf) p) multipliers")
    case None
    then show ?thesis using tk suf by (auto simp: find_None_iff)
  next
    case (Some x)
    then have "x \<in> set multipliers" "takes (t @ suf) (fst x)"
      by (auto simp: find_Some_iff) (metis nth_mem)
    then have "x = (suf, m)" using takes_unique [OF _ tk _ suf, of "fst x" "snd x"] by simp
    then show ?thesis using Some by simp
  qed
  then show ?thesis by (simp add: pickMultiplier_find)
qed

lemma multiplier_range: "(suf, m) \<in> set multipliers \<Longrightarrow> 1 < sint m \<and> sint m < 2 ^ 63 \<and> m \<noteq> 1"
  by (auto simp: multipliers_def)

lemma normalizeDigits_plain:
  assumes "amount_syntax ip fp"
  defines "v \<equiv> amount_value False ip fp"
  shows "normalizeDigits multipliers (amount_text False ip fp) =
    (if in_int64 v then Inr (word_of_int v) else Inl ErrAmountUnreadable)"
proof -
  have "CHR '','' \<notin> set (amount_text False ip fp)" by (rule amount_text_no_comma [OF assms(1)])
  then show ?thesis
    by (simp add: normalizeDigits_def pick_none last_amount_text [OF assms(1)]
        stripGroupingCommas_def stripCommas_none isNumeric_amount [OF assms(1)]
        amount_text_nonempty [OF assms(1)] Parse_amount_text [OF assms(1)] v_def)
qed

lemma scaled_check:
  fixes b m :: int64
  assumes "0 \<le> sint b" "1 < sint m"
  shows "(b \<noteq> 0 \<and> trunc_div (sint (b * m)) (sint m) \<noteq> sint b) \<longleftrightarrow> \<not> in_int64 (sint b * sint m)"
proof -
  have "sint m < 2 ^ 63" using sint_in_int64 [of m] by (simp add: in_int64_def)
  then have "trunc_div (sint (b * m)) (sint m) = sint b \<longleftrightarrow> in_int64 (sint b * sint m)"
    using assms mult_overflow_check [of "sint b" "sint m"] by (simp add: sint_mult64)
  moreover have "b = 0 \<Longrightarrow> in_int64 (sint b * sint m)" by (simp add: in_int64_def)
  ultimately show ?thesis by blast
qed

lemma normalizeDigits_suffix:
  assumes "amount_syntax ip fp" "(suf, m) \<in> set multipliers"
  defines "v \<equiv> amount_value False ip fp"
  shows "normalizeDigits multipliers (amount_text False ip fp @ suf) =
    (if in_int64 (v * sint m) then Inr (word_of_int (v * sint m)) else Inl ErrAmountUnreadable)"
proof -
  let ?t = "amount_text False ip fp"
  have nc: "CHR '','' \<notin> set ?t" by (rule amount_text_no_comma [OF assms(1)])
  have m: "1 < sint m" "m \<noteq> 1" using multiplier_range [OF assms(2)] by auto
  have v: "0 \<le> v" unfolding v_def by (rule amount_value_nonneg)
  have step: "normalizeDigits multipliers (?t @ suf) =
    (case Parse ?t of Inl _ \<Rightarrow> Inl ErrAmountUnreadable
     | Inr b \<Rightarrow> if b \<noteq> 0 \<and> trunc_div (sint (b * m)) (sint m) \<noteq> sint b
                then Inl ErrAmountUnreadable else Inr (b * m))"
    using m
    by (simp add: normalizeDigits_def stripGroupingCommas_def stripCommas_none [OF nc]
        pick_suffix [OF amount_text_nonempty [OF assms(1)] last_amount_text [OF assms(1)] assms(2)]
        isNumeric_amount [OF assms(1)] amount_text_nonempty [OF assms(1)] Let_def split: sum.split)
  show ?thesis
  proof (cases "in_int64 v")
    case True
    have b: "sint (word_of_int v :: int64) = v" using True by (simp add: sint_word_of_int64 wrap64_id)
    have "word_of_int v * m = word_of_int (v * sint m)" by simp
    then show ?thesis
      using True v m scaled_check [of "word_of_int v" m]
      by (simp add: step Parse_amount_text [OF assms(1)] b flip: v_def)
  next
    case False
    have "v \<le> v * sint m" using v m mult_left_mono [of 1 "sint m" v] by simp
    then have "\<not> in_int64 (v * sint m)" using False v unfolding in_int64_def by linarith
    then show ?thesis using False by (simp add: step Parse_amount_text [OF assms(1)] flip: v_def)
  qed
qed

section \<open>The whole normaliser on the digit forms\<close>

text \<open>Text that no cleaning step changes: lower-case ASCII with no space and no dollar sign.\<close>

definition clean_text :: "string \<Rightarrow> bool" where
  "clean_text s \<longleftrightarrow>
     s \<noteq> [] \<and> (\<forall>c \<in> set s. byte c < 128 \<and> \<not> IsSpace (byte c) \<and> lower_byte c = c \<and> byte c \<noteq> 36)"

lemma TrimLeft_currency_clean: "clean_text s \<Longrightarrow> TrimLeftFunc currency_rune s = s"
proof -
  assume a: "clean_text s"
  then have "ascii s" by (auto simp: clean_text_def ascii_def)
  then have cs: "utf8_chunks s = map (\<lambda>c. (byte c, [c])) s" by (rule utf8_chunks_ascii)
  obtain c r where s: "s = c # r" using a by (cases s) (auto simp: clean_text_def)
  then have "byte c < 128" "byte c \<noteq> 32" "byte c \<noteq> 36"
    using a by (auto simp: clean_text_def IsSpace_def)
  then have "\<not> currency_rune (byte c)" by (auto simp: currency_rune_def)
  then have "dropWhile (\<lambda>c. currency_rune (fst c)) (utf8_chunks s) = utf8_chunks s"
    unfolding cs by (simp add: s)
  then show ?thesis using utf8_chunks_bytes [of s] by (simp add: TrimLeftFunc_def chunk_text_def)
qed

lemma NormalizeAmount_clean:
  assumes "clean_text s"
  shows "NormalizeAmount U order s =
    (case normalizeDigits order s of Inr v \<Rightarrow> Inr v
     | Inl e \<Rightarrow> if e \<noteq> ErrAmountUnreadable then Inl e else normalizeWords s)"
proof -
  have "ascii s" "s \<noteq> []" using assms by (auto simp: clean_text_def ascii_def)
  moreover have "map lower_byte s = s" using assms by (auto simp: clean_text_def map_idI)
  moreover have "TrimSpace s = s" using assms by (intro TrimSpace_digits) (auto simp: clean_text_def)
  ultimately show ?thesis
    by (simp add: NormalizeAmount_def ToLower_ascii TrimLeft_currency_clean [OF assms])
qed

lemma fields_loop_none:
  "\<forall>c \<in> set cs. \<not> f (fst c) \<Longrightarrow> fields_loop f cur cs =
     (if cur @ concat (map snd cs) = [] then [] else [cur @ concat (map snd cs)])"
  by (induction f cur cs rule: fields_loop.induct) auto

lemma map_get0_digit:
  "is_digit d \<Longrightarrow> map_get0 numberWords (d # r) = 0 \<and> map_get0 wordScales (d # r) = 0"
proof -
  assume d: "is_digit d"
  have "\<forall>k \<in> fst ` set (numberWords @ wordScales). k \<noteq> [] \<and> \<not> is_digit (hd k)"
    by (simp add: numberWords_def wordScales_def is_digit_def)
  then have "d # r \<notin> fst ` set (numberWords @ wordScales)" using d by (metis list.sel(1))
  then have "map_of numberWords (d # r) = None" "map_of wordScales (d # r) = None"
    by (auto simp: map_of_eq_None_iff)
  then show ?thesis by (simp add: map_get0_def)
qed

lemma normalizeWords_digits:
  assumes "clean_text s" "is_digit (hd s)" "CHR ''-'' \<notin> set s"
  shows "normalizeWords s = Inl ErrAmountUnreadable"
proof -
  obtain d r where s: "s = d # r" "is_digit d" using assms by (cases s) (auto simp: clean_text_def)
  have "ascii s" using assms by (auto simp: clean_text_def ascii_def)
  then have cs: "utf8_chunks s = map (\<lambda>c. (byte c, [c])) s" by (rule utf8_chunks_ascii)
  have "byte c \<noteq> 45" if "c \<in> set s" for c
  proof
    assume "byte c = 45"
    then have "byte c = byte (CHR ''-'')" by simp
    then have "c = CHR ''-''" by (simp only: of_char_eq_iff)
    then show False using that assms(3) by simp
  qed
  then have "\<forall>c \<in> set (utf8_chunks s). \<not> (fst c = 32 \<or> fst c = 45)"
    using assms(1) by (auto simp: cs clean_text_def IsSpace_def)
  then have "FieldsFunc (\<lambda>r. r = 32 \<or> r = 45) s = [s]"
    using utf8_chunks_bytes [of s] s(1) by (simp add: FieldsFunc_def fields_loop_none)
  then show ?thesis
    using s map_get0_digit [OF s(2), of r]
    by (auto simp: normalizeWords_def Let_def is_digit_def)
qed

lemma clean_amount:
  assumes "amount_syntax ip fp" "suf = [] \<or> (suf, m) \<in> set multipliers"
  defines "t \<equiv> amount_text False ip fp @ suf"
  shows "clean_text t" "is_digit (hd t)" "CHR ''-'' \<notin> set t"
proof -
  have num: "byte c < 128 \<and> \<not> IsSpace (byte c) \<and> lower_byte c = c \<and> byte c \<noteq> 36 \<and> c \<noteq> CHR ''-''"
    if "is_digit c \<or> c = CHR ''.''" for c
    using that by (auto simp: is_digit_def IsSpace_def lower_byte_def ascii_lower_def)
  have suf: "byte c < 128 \<and> \<not> IsSpace (byte c) \<and> lower_byte c = c \<and> byte c \<noteq> 36 \<and> c \<noteq> CHR ''-''"
    if "c \<in> set suf" for c
    using that assms(2) by (auto simp: multipliers_def IsSpace_def lower_byte_def ascii_lower_def)
  have all: "byte c < 128 \<and> \<not> IsSpace (byte c) \<and> lower_byte c = c \<and> byte c \<noteq> 36 \<and> c \<noteq> CHR ''-''"
    if "c \<in> set t" for c
    using that num suf amount_text_chars [OF assms(1)] unfolding t_def by (metis Un_iff set_append)
  show "clean_text t" using all amount_text_nonempty [OF assms(1)] by (auto simp: clean_text_def t_def)
  show "CHR ''-'' \<notin> set t" using all by blast
  show "is_digit (hd t)"
    using assms(1) by (cases ip) (auto simp: t_def amount_text_def amount_syntax_def allDigits_iff)
qed

text \<open>
  A plain decimal, alone or with one of the suffixes k, m, bn and b, is read as its exact
  value times the multiplier, and is refused exactly when that does not fit in an \<open>int64\<close>.
\<close>

theorem NormalizeAmount_digits_exact:
  assumes "amount_syntax ip fp" "(suf, m) \<in> set (([], 1) # multipliers)"
    "mset order = mset multipliers"
  defines "v \<equiv> amount_value False ip fp * sint m"
  shows "NormalizeAmount U order (amount_text False ip fp @ suf) =
    (if in_int64 v then Inr (word_of_int v) else Inl ErrAmountUnreadable)"
proof -
  let ?t = "amount_text False ip fp @ suf"
  have s: "suf = [] \<or> (suf, m) \<in> set multipliers" using assms(2) by auto
  note c = clean_amount [OF assms(1) s]
  have m1: "suf = [] \<Longrightarrow> m = 1" using assms(2) by (auto simp: multipliers_def)
  have "normalizeDigits multipliers ?t =
    (if in_int64 v then Inr (word_of_int v) else Inl ErrAmountUnreadable)"
  proof (cases "suf = []")
    case True
    then show ?thesis using normalizeDigits_plain [OF assms(1)] m1 by (simp add: v_def)
  next
    case False
    then show ?thesis using normalizeDigits_suffix [OF assms(1), of suf m] s by (simp add: v_def)
  qed
  then show ?thesis
    by (simp add: NormalizeAmount_clean [OF c(1)] normalizeDigits_order [OF assms(3)]
        normalizeWords_digits [OF c])
qed

theorem NormalizeAmount_digits_exact_witness:
  "NormalizeAmount plain_tables multipliers ''2.5m'' = Inr (word_of_int 25000000000000)"
proof -
  have a: "amount_syntax ''2'' ''5''" by (simp add: amount_syntax_def)
  have b: "(''m'', 1000000) \<in> set (([], 1) # multipliers)" by (simp add: multipliers_def)
  have v: "amount_value False ''2'' ''5'' * sint (1000000 :: int64) = 25000000000000"
    by (simp add: amount_value_def digits_val_def digit_val_def)
  show ?thesis
    using NormalizeAmount_digits_exact [OF a b, of multipliers plain_tables] v
    by (simp add: amount_text_def in_int64_def)
qed

section \<open>Reading back what a person was shown\<close>

text \<open>Every comma stands between two digits.\<close>

fun commas_ok :: "char option \<Rightarrow> string \<Rightarrow> bool" where
  "commas_ok prev [] = True"
| "commas_ok prev (c # cs) =
     ((c = CHR '','' \<longrightarrow> (case prev of None \<Rightarrow> False | Some p \<Rightarrow> is_digit p) \<and> cs \<noteq> [] \<and> is_digit (hd cs))
      \<and> commas_ok (Some c) cs)"

lemma stripCommas_filter:
  "commas_ok prev s \<Longrightarrow> stripCommas_from prev s = filter (\<lambda>c. c \<noteq> CHR '','') s"
  by (induction s arbitrary: prev) (auto simp: isDigit_iff split: option.splits)

lemma commas_ok_none: "CHR '','' \<notin> set s \<Longrightarrow> commas_ok prev s"
  by (induction s arbitrary: prev) auto

lemma commas_ok_digits:
  "allDigits a \<Longrightarrow> a \<noteq> [] \<Longrightarrow> commas_ok prev (a @ s) = commas_ok (Some (last a)) s"
  by (induction a arbitrary: prev) (auto simp: allDigits_iff is_digit_def)

fun commas3 :: "string \<Rightarrow> string" where
  "commas3 (x # y # z # r) = CHR '','' # x # y # z # commas3 r"
| "commas3 _ = []"

lemma group_loop_commas3: "b \<noteq> [] \<Longrightarrow> group_loop b ds = b @ commas3 ds"
  by (induction b ds rule: group_loop.induct) auto

lemma allDigits_Cons: "allDigits (c # cs) \<longleftrightarrow> is_digit c \<and> allDigits cs"
  by (simp add: is_digit_def)

lemma comma_not_digit [simp]: "\<not> is_digit (CHR '','')"
  by (simp add: is_digit_def)

lemma commas_ok_commas3:
  "allDigits ds \<Longrightarrow> is_digit d \<Longrightarrow> CHR '','' \<notin> set t \<Longrightarrow> commas_ok (Some d) (commas3 ds @ t)"
  by (induction ds arbitrary: d rule: commas3.induct)
     (auto simp: allDigits_Cons commas_ok_none simp del: allDigits.simps)

lemma group_thousands_shape:
  "\<exists>a ds. group_thousands n = a @ commas3 ds \<and> a \<noteq> [] \<and> allDigits a \<and> allDigits ds"
proof -
  let ?p = "fmt_nat n"
  have sub: "allDigits (take k ?p)" "allDigits (drop k ?p)" for k
    using allDigits_fmt_nat [of n] by (auto simp: allDigits_iff dest: in_set_takeD in_set_dropD)
  show ?thesis
  proof (cases "length ?p \<le> 3")
    case True
    then show ?thesis by (intro exI [of _ ?p] exI [of _ "[]"]) (simp add: group_thousands_def Let_def)
  next
    case False
    let ?l = "length ?p mod 3"
    show ?thesis
    proof (cases "?l = 0")
      case True
      obtain x y z r where d: "?p = x # y # z # r"
        using False by (cases ?p; cases "tl ?p"; cases "tl (tl ?p)") auto
      then have "group_thousands n = [x, y, z] @ commas3 r"
        using False True by (simp add: group_thousands_def Let_def group_loop_commas3 del: commas3.simps)
      moreover have "allDigits [x, y, z]" "allDigits r" using sub(1) [of 3] sub(2) [of 3] d by auto
      ultimately show ?thesis by blast
    next
      case nz: False
      then have "group_thousands n = take ?l ?p @ commas3 (drop ?l ?p)"
        using False by (simp add: group_thousands_def Let_def group_loop_commas3)
      moreover have "take ?l ?p \<noteq> []" using nz by auto
      ultimately show ?thesis using sub by blast
    qed
  qed
qed

lemma Display_nonneg:
  assumes "0 \<le> sint s"
  shows "\<exists>w t. Display s = group_thousands w @ CHR ''.'' # t \<and> allDigits t \<and> t \<noteq> []"
proof -
  obtain u neg w f where m: "abs_mag s = (u, neg)" "split_mag u = (w, f)"
    by (cases "abs_mag s"; cases "split_mag (fst (abs_mag s))") auto
  let ?ds = "pad_zeros 7 (fmt_nat f)"
  have len: "length ?ds = 7" using length_frac split_mag_value [OF m(2)] by blast
  have d: "allDigits ?ds" by (simp add: allDigits_pad)
  have "\<not> neg" using abs_mag_spec [OF m(1)] assms by simp
  then have "Display s = group_thousands w @ CHR ''.'' # shown_decimals ?ds"
    using m by (simp add: Display_def shown_decimals_def split_mag_def Precision_def Let_def)
  then show ?thesis using shown_decimals_value(2,3) [OF len d] by blast
qed

lemma commas3_digits: "allDigits ds \<Longrightarrow> c \<in> set (commas3 ds) \<Longrightarrow> is_digit c \<or> c = CHR '',''"
  by (induction ds rule: commas3.induct) (auto simp: is_digit_def split: if_splits)

lemma Display_commas:
  assumes "0 \<le> sint s"
  shows "stripGroupingCommas (Display s) = filter (\<lambda>c. c \<noteq> CHR '','') (Display s)"
    and "clean_text (Display s)" and "is_digit (last (Display s))"
proof -
  obtain w t where D: "Display s = group_thousands w @ CHR ''.'' # t" "allDigits t" "t \<noteq> []"
    using Display_nonneg [OF assms] by blast
  obtain a ds where g: "group_thousands w = a @ commas3 ds" "a \<noteq> []" "allDigits a" "allDigits ds"
    using group_thousands_shape by blast
  have "CHR '','' \<notin> set (CHR ''.'' # t)" using D(2) digits_no_comma by auto
  moreover have "is_digit (last a)" using g(2,3) by (auto simp: allDigits_iff)
  ultimately have "commas_ok None (Display s)"
    using g by (simp add: D(1) commas_ok_digits commas_ok_commas3)
  then show "stripGroupingCommas (Display s) = filter (\<lambda>c. c \<noteq> CHR '','') (Display s)"
    by (simp add: stripGroupingCommas_def stripCommas_filter)
  have "is_digit c \<or> c = CHR '','' \<or> c = CHR ''.''" if "c \<in> set (Display s)" for c
    using that D(2) g commas3_digits [OF g(4)] by (auto simp: D(1) allDigits_iff)
  then have "byte c < 128 \<and> \<not> IsSpace (byte c) \<and> lower_byte c = c \<and> byte c \<noteq> 36"
    if "c \<in> set (Display s)" for c
    using that by (force simp: is_digit_def IsSpace_def lower_byte_def ascii_lower_def)
  then show "clean_text (Display s)" using D(1) by (auto simp: clean_text_def)
  show "is_digit (last (Display s))" using D by (auto simp: allDigits_iff)
qed

lemma Display_amount:
  assumes "0 \<le> sint s"
  shows "\<exists>ip fp. filter (\<lambda>c. c \<noteq> CHR '','') (Display s) = amount_text False ip fp \<and> amount_syntax ip fp"
proof -
  obtain u neg w f where m: "abs_mag s = (u, neg)" "split_mag u = (w, f)"
    by (cases "abs_mag s"; cases "split_mag (fst (abs_mag s))") auto
  let ?ds = "pad_zeros 7 (fmt_nat f)"
  have len: "length ?ds = 7" using length_frac split_mag_value [OF m(2)] by blast
  have d: "allDigits ?ds" by (simp add: allDigits_pad)
  have "\<not> neg" using abs_mag_spec [OF m(1)] assms by simp
  moreover have "amount_syntax (fmt_nat w) (shown_decimals ?ds)"
    using shown_decimals_value [OF len d] by (simp add: amount_syntax_def)
  ultimately show ?thesis using Display_eq [OF m] by auto
qed

text \<open>
  An amount shown to a person by \<open>Display\<close> and typed back by them is read as the same amount.
\<close>

theorem NormalizeAmount_Display:
  assumes "0 \<le> sint s" "mset order = mset multipliers"
  shows "NormalizeAmount U order (Display s) = Inr s"
proof -
  note D = Display_commas [OF assms(1)]
  let ?t = "filter (\<lambda>c. c \<noteq> CHR '','') (Display s)"
  obtain ip fp where t: "?t = amount_text False ip fp" "amount_syntax ip fp"
    using Display_amount [OF assms(1)] by blast
  have "isNumeric ?t" "?t \<noteq> []"
    using isNumeric_amount [OF t(2)] t by (auto simp: amount_text_def amount_syntax_def)
  then have "normalizeDigits multipliers (Display s) = Inr s"
    using Parse_Display [of s] by (simp add: normalizeDigits_def pick_none [OF D(3)] D(1) Let_def)
  then show ?thesis
    by (simp add: NormalizeAmount_clean [OF D(2)] normalizeDigits_order [OF assms(2)])
qed

theorem NormalizeAmount_Display_witness:
  "NormalizeAmount plain_tables multipliers (Display 12345600000000) = Inr 12345600000000"
  by (rule NormalizeAmount_Display) simp_all

section \<open>The words that wrap\<close>

text \<open>
  The running value of \<open>normalizeWords\<close> wraps: thirty-two times \<open>hundred\<close> multiply to a power of two and
  leave nothing of what was said before.
\<close>

lemma words_hundred: "c \<noteq> 0 \<Longrightarrow> words_loop t c b (''hundred'' # ws) = words_loop t (c * 100) True ws"
  by (simp add: map_get0_def numberWords_def wordScales_def)

lemma hundreds:
  "\<forall>k < n. c * 100 ^ k \<noteq> 0 \<Longrightarrow> words_loop t c True (replicate n ''hundred'' @ ws) = words_loop t (c * 100 ^ n) True ws"
proof (induction n arbitrary: c)
  case (Suc n)
  have "\<forall>k < n. (c * 100) * 100 ^ k \<noteq> 0"
    using Suc.prems unfolding mult.assoc power_Suc [symmetric] by blast
  note ih = Suc.IH [OF this]
  have "c \<noteq> 0" using Suc.prems [rule_format, OF zero_less_Suc] unfolding power_0 mult_1_right .
  note h = words_hundred [OF this, of t True "replicate n ''hundred'' @ ws", unfolded ih]
  show ?case unfolding replicate_Suc append_Cons h power_Suc mult.assoc ..
qed simp

lemma normalizeWords_wraps: "words_loop 0 1 True (replicate 32 ''hundred'' @ [''five'']) = Inr (0, 5, True)"
proof -
  have top: "(100 :: int64) ^ 31 \<noteq> 0" "(1 :: int64) * 100 ^ 32 = 0" by simp_all
  have nz: "(1 :: int64) * 100 ^ k \<noteq> 0" if "k < 32" for k
  proof
    assume "(1 :: int64) * 100 ^ k = 0"
    then have "(100 :: int64) ^ (k + (31 - k)) = 0" by (simp add: power_add)
    then show False using top(1) that by simp
  qed
  have "words_loop 0 1 True (replicate 32 ''hundred'' @ [''five'']) = words_loop 0 (1 * 100 ^ 32) True [''five'']"
    using hundreds [of 32 1 0 "[''five'']"] nz by blast
  also have "\<dots> = words_loop 0 0 True [''five'']" by (simp only: top(2))
  also have "\<dots> = Inr (0, 5, True)" by (simp add: map_get0_def numberWords_def)
  finally show ?thesis .
qed

end
