(* ===== verification/Intent_Verify.thy ===== *)
theory Intent_Verify
  imports Codes Intent_Amount
begin

text \<open>
  \<^verbatim>\<open>api/intent/tokenize.go\<close>, \<^verbatim>\<open>api/intent/verify.go\<close> and \<^verbatim>\<open>api/intent/resolve.go\<close>: the tokens of a message,
  the check of a decoder's claims against them, and the lookup of the recipient.  The decoder's output is an
  arbitrary argument.  Above U+0080 the Unicode tables are a parameter; of the database, what \<open>lower\<close> and
  \<open>LIKE\<close> compute, and of the Stellar SDK, which addresses are valid, are parameters too.
\<close>

section \<open>Tokens\<close>

record Token =
  Index :: nat
  Text_of :: string
  Start :: nat
  End :: nat

definition isWordRune :: "unicode_tables \<Rightarrow> rune \<Rightarrow> bool" where
  "isWordRune U r \<longleftrightarrow> IsLetter U r \<or> IsDigit U r \<or> IsMark U r"

text \<open>The runes of a comma, a full stop, an apostrophe, a hyphen, an underscore, a slash and a colon.\<close>

definition isInternalSeparator :: "rune \<Rightarrow> bool" where
  "isInternalSeparator r \<longleftrightarrow> r \<in> {44, 46, 39, 45, 95, 47, 58}"

text \<open>The inner loop: what belongs to a word after its first rune, and the rest.\<close>

fun word_run :: "unicode_tables \<Rightarrow> rune list \<Rightarrow> rune list \<times> rune list" where
  "word_run U [] = ([], [])"
| "word_run U (r # rs) =
     (if isWordRune U r then (case word_run U rs of (a, b) \<Rightarrow> (r # a, b))
      else case rs of
          [] \<Rightarrow> ([], [r])
        | s # rs' \<Rightarrow>
            if isInternalSeparator r \<and> isWordRune U s then (case word_run U rs' of (a, b) \<Rightarrow> (r # s # a, b))
            else ([], r # s # rs'))"

lemma word_run_append: "word_run U rs = (a, b) \<Longrightarrow> rs = a @ b"
  by (induction U rs arbitrary: a b rule: word_run.induct) (auto split: if_splits prod.splits list.splits)

lemma word_run_length: "length (snd (word_run U rs)) \<le> length rs"
  by (metis word_run_append le_add2 length_append prod.collapse)

text \<open>
  The outer loop, with the index of the next token and the byte offset of the next rune.  The offsets add up the
  lengths of the runes encoded again.
\<close>

function tokenize_from :: "unicode_tables \<Rightarrow> nat \<Rightarrow> nat \<Rightarrow> rune list \<Rightarrow> Token list" where
  "tokenize_from U i off [] = []"
| "tokenize_from U i off (r # rs) =
     (if IsSpace r then tokenize_from U i (off + length (encode_rune r)) rs
      else let ab = (if isWordRune U r then word_run U rs else ([], rs));
               txt1 = string_of_runes (r # fst ab)
           in \<lparr>Index = i, Text_of = txt1, Start = off, End = off + length txt1\<rparr>
              # tokenize_from U (i + 1) (off + length txt1) (snd ab))"
  by pat_completeness auto
termination
  by (relation "measure (\<lambda>(_, _, _, rs). length rs)") (auto simp: word_run_length le_imp_less_Suc)

definition Tokenize :: "unicode_tables \<Rightarrow> string \<Rightarrow> Token list" where
  "Tokenize U message = tokenize_from U 0 0 (runes_of message)"

definition Text_span :: "Token list \<Rightarrow> int \<Rightarrow> int \<Rightarrow> string" where
  "Text_span tokens s e =
     (if s < 0 \<or> e > int (length tokens) \<or> s \<ge> e then []
      else join '' '' (map Text_of (take (nat (e - s)) (drop (nat s) tokens))))"

section \<open>Verification\<close>

datatype Action = ActionSend | ActionBalance | ActionAddress | ActionHistory

definition actionVerbs :: "(string \<times> Action) list" where
  "actionVerbs =
     [(''send'', ActionSend), (''transfer'', ActionSend), (''pay'', ActionSend), (''give'', ActionSend), (''credit'', ActionSend),
      (''balance'', ActionBalance), (''bal'', ActionBalance), (''address'', ActionAddress), (''wallet'', ActionAddress),
      (''history'', ActionHistory), (''transactions'', ActionHistory)]"

definition DestinationBeneficiary :: string where "DestinationBeneficiary = ''beneficiary''"
definition DestinationAddress :: string where "DestinationAddress = ''address''"

record Span =
  Turn :: int
  SpanStart :: int
  SpanEnd :: int

record Field =
  f_Text :: string
  f_Span :: Span

record Decoded =
  d_Action :: Field
  d_Amount :: Field
  d_Destination :: Field
  d_DestinationKind :: string

record Grounded =
  g_Action :: Action
  g_Amount :: stroops
  g_AmountText :: string
  g_DestinationText :: string
  g_DestinationKind :: string
  g_AmountSpan :: Span
  g_DestinationSpan :: Span

datatype verify_error =
    ErrSpanOutOfRange | ErrSpanMismatch | ErrUnknownAction | MissingAction | MissingAmount | MissingDestination
  | AmountError amount_error | AmountNotPositive | UnknownDestinationKind

definition canonical :: "unicode_tables \<Rightarrow> string \<Rightarrow> string" where
  "canonical U s = join '' '' (Fields (ToLower U s))"

definition equivalent :: "unicode_tables \<Rightarrow> string \<Rightarrow> string \<Rightarrow> bool" where
  "equivalent U a b \<longleftrightarrow> canonical U a = canonical U b"

definition groundedText :: "unicode_tables \<Rightarrow> Token list list \<Rightarrow> Field \<Rightarrow> (verify_error, string) result" where
  "groundedText U conversation f =
     (let sp = f_Span f
      in if Turn sp < 0 \<or> Turn sp \<ge> int (length conversation) then Inl ErrSpanOutOfRange
         else let tokens = conversation ! nat (Turn sp)
              in if SpanStart sp < 0 \<or> SpanEnd sp > int (length tokens) \<or> SpanStart sp \<ge> SpanEnd sp
                 then Inl ErrSpanOutOfRange
                 else let actual = Text_span tokens (SpanStart sp) (SpanEnd sp)
                      in if \<not> equivalent U actual (f_Text f) then Inl ErrSpanMismatch else Inr actual)"

definition in_cutset :: "char \<Rightarrow> bool" where
  "in_cutset c \<longleftrightarrow> c \<in> set ''.,!?''"

definition trim_marks :: "string \<Rightarrow> string" where
  "trim_marks s = rev (dropWhile in_cutset (rev (dropWhile in_cutset s)))"

fun first_action :: "string list \<Rightarrow> Action option" where
  "first_action [] = None"
| "first_action (w # ws) =
     (case map_of actionVerbs (trim_marks w) of Some a \<Rightarrow> Some a | None \<Rightarrow> first_action ws)"

definition verifyAction :: "unicode_tables \<Rightarrow> Token list list \<Rightarrow> Field \<Rightarrow> (verify_error, Action) result" where
  "verifyAction U conversation f =
     (if f_Text f = [] then Inl MissingAction
      else case groundedText U conversation f of
          Inl e \<Rightarrow> Inl e
        | Inr txt1 \<Rightarrow>
            (case first_action (Fields (ToLower U txt1)) of None \<Rightarrow> Inl ErrUnknownAction | Some a \<Rightarrow> Inr a))"

definition no_span :: Span where
  "no_span = \<lparr>Turn = 0, SpanStart = 0, SpanEnd = 0\<rparr>"

definition grounded_action :: "Action \<Rightarrow> Grounded" where
  "grounded_action a = \<lparr>g_Action = a, g_Amount = 0, g_AmountText = [], g_DestinationText = [], g_DestinationKind = [],
     g_AmountSpan = no_span, g_DestinationSpan = no_span\<rparr>"

definition verify_intent ::
  "unicode_tables \<Rightarrow> (string \<times> int64) list \<Rightarrow> Token list list \<Rightarrow> Decoded \<Rightarrow> (verify_error, Grounded) result" where
  "verify_intent U order conversation d =
     (case verifyAction U conversation (d_Action d) of
        Inl e \<Rightarrow> Inl e
      | Inr action \<Rightarrow>
     (if action \<noteq> ActionSend then Inr (grounded_action action)
      else if f_Text (d_Amount d) = [] then Inl MissingAmount
      else case groundedText U conversation (d_Amount d) of
          Inl e \<Rightarrow> Inl e
        | Inr amountText \<Rightarrow>
     (case NormalizeAmount U order amountText of
        Inl e \<Rightarrow> Inl (AmountError e)
      | Inr amount \<Rightarrow>
     (if Sign amount \<le> 0 then Inl AmountNotPositive
      else if f_Text (d_Destination d) = [] then Inl MissingDestination
      else case groundedText U conversation (d_Destination d) of
          Inl e \<Rightarrow> Inl e
        | Inr destText \<Rightarrow>
            if d_DestinationKind d \<noteq> DestinationBeneficiary \<and> d_DestinationKind d \<noteq> DestinationAddress
            then Inl UnknownDestinationKind
            else Inr \<lparr>g_Action = action, g_Amount = amount, g_AmountText = amountText, g_DestinationText = destText,
              g_DestinationKind = d_DestinationKind d, g_AmountSpan = f_Span (d_Amount d),
              g_DestinationSpan = f_Span (d_Destination d)\<rparr>))))"

section \<open>Resolution\<close>

datatype resolve_error =
    ErrDestinationNotFound | AmbiguousError string "string list" | ErrDestinationInvalid | LookupFailed

record Destination =
  Address :: string
  Label :: string
  dest_kind :: string

record beneficiary =
  b_org :: int64
  b_owner :: string
  b_label :: string
  b_address :: string

text \<open>What the database and the SDK compute.\<close>

record resolve_env =
  pg_lower :: "string \<Rightarrow> string"
  pg_like :: "string \<Rightarrow> string \<Rightarrow> bool"
  valid_key :: "string \<Rightarrow> bool"
  order_labels :: "beneficiary list \<Rightarrow> beneficiary list"

definition resolveAddress :: "resolve_env \<Rightarrow> string \<Rightarrow> (resolve_error, Destination) result" where
  "resolveAddress env txt1 =
     (let address = TrimSpace txt1
      in if \<not> valid_key env address then Inl ErrDestinationInvalid
         else Inr \<lparr>Address = address, Label = address, dest_kind = DestinationAddress\<rparr>)"

definition resolveBeneficiary ::
  "unicode_tables \<Rightarrow> resolve_env \<Rightarrow> beneficiary list \<Rightarrow> int64 \<Rightarrow> string \<Rightarrow> string \<Rightarrow> (resolve_error, Destination) result" where
  "resolveBeneficiary U env rows org ownerRef label =
     (let needle = ToLower U (TrimSpace label);
          own = filter (\<lambda>b. b_org b = org \<and> b_owner b = ownerRef) rows
      in if needle = [] then Inl ErrDestinationInvalid
         else case find (\<lambda>b. pg_lower env (b_label b) = needle) own of
             Some b \<Rightarrow> Inr \<lparr>Address = b_address b, Label = b_label b, dest_kind = DestinationBeneficiary\<rparr>
           | None \<Rightarrow>
               (case order_labels env (filter (\<lambda>b. pg_like env (pg_lower env (b_label b)) (''%'' @ needle @ ''%'')) own) of
                  [] \<Rightarrow> Inl ErrDestinationNotFound
                | [b] \<Rightarrow> Inr \<lparr>Address = b_address b, Label = b_label b, dest_kind = DestinationBeneficiary\<rparr>
                | bs \<Rightarrow> Inl (AmbiguousError label (map b_label bs))))"

definition Resolve ::
  "unicode_tables \<Rightarrow> resolve_env \<Rightarrow> beneficiary list \<Rightarrow> int64 \<Rightarrow> string \<Rightarrow> Grounded \<Rightarrow> (resolve_error, Destination) result" where
  "Resolve U env rows org ownerRef g =
     (if g_DestinationKind g = DestinationAddress then resolveAddress env (g_DestinationText g)
      else if g_DestinationKind g = DestinationBeneficiary
      then resolveBeneficiary U env rows org ownerRef (g_DestinationText g)
      else Inl ErrDestinationInvalid)"

section \<open>Tokens point into the message\<close>

fun spans_ok :: "string \<Rightarrow> nat \<Rightarrow> nat \<Rightarrow> Token list \<Rightarrow> bool" where
  "spans_ok msg i off [] = True"
| "spans_ok msg i off (t # ts) =
     (Index t = i \<and> off \<le> Start t \<and> Start t < End t \<and> End t \<le> length msg
      \<and> Text_of t = take (End t - Start t) (drop (Start t) msg) \<and> spans_ok msg (i + 1) (End t) ts)"

text \<open>No white space is a letter, a digit or a mark: in the Unicode database the categories are disjoint.\<close>

definition spaces_apart :: "unicode_tables \<Rightarrow> bool" where
  "spaces_apart U \<longleftrightarrow> (\<forall>r. IsSpace r \<longrightarrow> \<not> isWordRune U r)"

lemma tokens_point:
  "length pre = off \<Longrightarrow> msg = pre @ string_of_runes rs \<Longrightarrow> spans_ok msg i off (tokenize_from U i off rs)"
proof (induction U i off rs arbitrary: pre rule: tokenize_from.induct)
  case (2 U i off r rs)
  show ?case
  proof (cases "IsSpace r")
    case True
    have later: "off \<le> off' \<Longrightarrow> spans_ok msg i off' ts \<Longrightarrow> spans_ok msg i off ts" for off' ts by (cases ts) auto
    have "spans_ok msg i (off + length (encode_rune r)) (tokenize_from U i (off + length (encode_rune r)) rs)"
      using 2(1) [OF True, of "pre @ encode_rune r"] 2(3,4) by simp
    then show ?thesis using later [of "off + length (encode_rune r)"] True by simp
  next
    case False
    define ab where "ab = (if isWordRune U r then word_run U rs else ([], rs))"
    have rs: "rs = fst ab @ snd ab" using word_run_append [of U rs] by (auto simp: ab_def split: prod.splits intro: prod_eqI)
    define t where "t = string_of_runes (r # fst ab)"
    have msg: "msg = (pre @ t) @ string_of_runes (snd ab)"
      using 2(4) rs by (metis append.assoc append_Cons string_of_runes_simps(3) t_def)
    have "spans_ok msg (i + 1) (off + length t) (tokenize_from U (i + 1) (off + length t) (snd ab))"
      using 2(2) [OF False ab_def t_def, of "pre @ t"] 2(3) msg by simp
    moreover have "t = take (length t) (drop off msg)" unfolding msg using 2(3) by simp
    moreover have "off + length t \<le> length msg" unfolding msg using 2(3) by simp
    moreover have "0 < length t" by (simp add: t_def)
    ultimately show ?thesis using False
      by (simp add: Let_def ab_def [symmetric] t_def [symmetric] del: string_of_runes_simps(2))
  qed
qed simp

lemma word_run_solid:
  "spaces_apart U \<Longrightarrow> word_run U rs = (a, b) \<Longrightarrow> \<forall>r \<in> set a. \<not> IsSpace r"
proof (induction U rs arbitrary: a b rule: word_run.induct)
  case (2 U r rs)
  have w: "isWordRune U x \<Longrightarrow> \<not> IsSpace x" for x using 2(3) by (auto simp: spaces_apart_def)
  have sep: "isInternalSeparator x \<Longrightarrow> \<not> IsSpace x" for x by (auto simp: isInternalSeparator_def IsSpace_def)
  show ?case using 2 w sep by (auto split: if_splits prod.splits list.splits)
qed simp

lemma tokens_text:
  "spaces_apart U \<Longrightarrow> concat (map Text_of (tokenize_from U i off rs)) = string_of_runes (filter (\<lambda>r. \<not> IsSpace r) rs)"
proof (induction U i off rs rule: tokenize_from.induct)
  case (2 U i off r rs)
  show ?case
  proof (cases "IsSpace r")
    case False
    define ab where "ab = (if isWordRune U r then word_run U rs else ([], rs))"
    have rs: "rs = fst ab @ snd ab" using word_run_append [of U rs] by (auto simp: ab_def split: prod.splits intro: prod_eqI)
    have "\<forall>x \<in> set (fst ab). \<not> IsSpace x" using word_run_solid [OF 2(3), of rs] by (cases "word_run U rs") (auto simp: ab_def)
    then have "filter (\<lambda>r. \<not> IsSpace r) rs = fst ab @ filter (\<lambda>r. \<not> IsSpace r) (snd ab)"
      by (subst rs) (simp add: filter_id_conv)
    then show ?thesis using 2(2) [OF False ab_def refl 2(3)] False by (simp add: Let_def ab_def [symmetric])
  qed (use 2 in simp)
qed simp

lemma runes_of_valid: "list_all scalar rs \<Longrightarrow> runes_of (string_of_runes rs) = rs"
  using runes_of_string_of_runes [of rs] by (simp add: list_all_iff)

lemma tokens_of_valid: "valid_utf8 m \<Longrightarrow> spans_ok m 0 0 (Tokenize U m)"
  using tokens_point [of "[]" 0] by (auto simp: valid_utf8_def Tokenize_def runes_of_valid)

lemma spans_ok_token: "spans_ok msg i off ts \<Longrightarrow> t \<in> set ts \<Longrightarrow> sublist (Text_of t) msg"
proof (induction msg i off ts rule: spans_ok.induct)
  case (2 msg i off u us)
  have "sublist (take n (drop k msg)) msg" for n k
    by (meson sublist_drop sublist_order.order.trans sublist_take)
  then show ?case using 2 by auto
qed simp

section \<open>What survives verification\<close>

text \<open>
  \<open>quoted\<close>: a text is the words of a message that a span numbers, from its start up to but without its end, joined by single
  spaces, and a word is the bytes of the message between the offsets of its token.
\<close>

definition bytes_at :: "string \<Rightarrow> nat \<Rightarrow> nat \<Rightarrow> string" where
  "bytes_at m a b = take (b - a) (drop a m)"

definition quoted :: "unicode_tables \<Rightarrow> string list \<Rightarrow> Span \<Rightarrow> string \<Rightarrow> bool" where
  "quoted U messages sp s \<longleftrightarrow> 0 \<le> Turn sp \<and> Turn sp < int (length messages)
     \<and> (\<exists>m ts. m = messages ! nat (Turn sp) \<and> ts = Tokenize U m \<and> spans_ok m 0 0 ts
          \<and> 0 \<le> SpanStart sp \<and> SpanStart sp < SpanEnd sp \<and> SpanEnd sp \<le> int (length ts)
          \<and> s = join '' '' (map (\<lambda>i. bytes_at m (Start (ts ! i)) (End (ts ! i))) [nat (SpanStart sp) ..< nat (SpanEnd sp)]))"

lemma spans_ok_nth: "spans_ok msg k off ts \<Longrightarrow> i < length ts \<Longrightarrow> Text_of (ts ! i) = bytes_at msg (Start (ts ! i)) (End (ts ! i))"
proof (induction msg k off ts arbitrary: i rule: spans_ok.induct)
  case (2 msg k off t ts)
  then show ?case by (cases i) (simp_all add: bytes_at_def)
qed simp

lemma groundedText_quoted:
  assumes "list_all valid_utf8 messages" "groundedText U (map (Tokenize U) messages) f = Inr s"
  shows "quoted U messages (f_Span f) s \<and> canonical U s = canonical U (f_Text f)"
proof -
  let ?sp = "f_Span f" and ?m = "messages ! nat (Turn (f_Span f))"
  let ?ts = "Tokenize U ?m" and ?is = "[nat (SpanStart ?sp) ..< nat (SpanEnd ?sp)]"
  have t: "0 \<le> Turn ?sp" "Turn ?sp < int (length messages)" using assms(2) by (auto simp: groundedText_def Let_def split: if_splits)
  then have "map (Tokenize U) messages ! nat (Turn ?sp) = ?ts" by simp
  then have r: "0 \<le> SpanStart ?sp" "SpanEnd ?sp \<le> int (length ?ts)" "SpanStart ?sp < SpanEnd ?sp"
    "s = Text_span ?ts (SpanStart ?sp) (SpanEnd ?sp)" "equivalent U s (f_Text f)"
    using assms(2) by (auto simp: groundedText_def Let_def split: if_splits)
  have sp: "spans_ok ?m 0 0 ?ts" using tokens_of_valid assms(1) t by (simp add: list_all_iff)
  have n: "nat (SpanEnd ?sp - SpanStart ?sp) = nat (SpanEnd ?sp) - nat (SpanStart ?sp)" using r(1) by simp
  have "take (nat (SpanEnd ?sp - SpanStart ?sp)) (drop (nat (SpanStart ?sp)) ?ts) = map ((!) ?ts) ?is"
    unfolding n using r(1-3) by (intro nth_equalityI) auto
  moreover have "\<forall>i \<in> set ?is. Text_of (?ts ! i) = bytes_at ?m (Start (?ts ! i)) (End (?ts ! i))"
    using spans_ok_nth [OF sp] r(2) by auto
  then have w: "map (\<lambda>i. Text_of (?ts ! i)) ?is = map (\<lambda>i. bytes_at ?m (Start (?ts ! i)) (End (?ts ! i))) ?is"
    by (intro map_cong refl) blast
  ultimately have "s = join '' '' (map (\<lambda>i. Text_of (?ts ! i)) ?is)" using r(1-4) by (simp add: Text_span_def comp_def)
  then have "s = join '' '' (map (\<lambda>i. bytes_at ?m (Start (?ts ! i)) (End (?ts ! i))) ?is)" unfolding w .
  then show ?thesis using t r(1-3,5) sp unfolding quoted_def equivalent_def by blast
qed

lemma first_action_Some: "first_action ws = Some a \<Longrightarrow> \<exists>w \<in> set ws. map_of actionVerbs (trim_marks w) = Some a"
  by (induction ws rule: first_action.induct) (auto split: option.splits)

lemma verifyAction_quoted:
  assumes "list_all valid_utf8 messages" "verifyAction U (map (Tokenize U) messages) f = Inr a"
  shows "\<exists>s w. quoted U messages (f_Span f) s \<and> w \<in> set (Fields (ToLower U s)) \<and> map_of actionVerbs (trim_marks w) = Some a"
proof -
  obtain s where "groundedText U (map (Tokenize U) messages) f = Inr s" "first_action (Fields (ToLower U s)) = Some a"
    using assms(2) by (auto simp: verifyAction_def split: if_splits sum.splits option.splits)
  then show ?thesis using groundedText_quoted [OF assms(1)] first_action_Some by blast
qed

lemma verify_send:
  assumes "verify_intent U order conversation d = Inr g" "g_Action g = ActionSend"
  obtains "verifyAction U conversation (d_Action d) = Inr ActionSend"
    "groundedText U conversation (d_Amount d) = Inr (g_AmountText g)"
    "NormalizeAmount U order (g_AmountText g) = Inr (g_Amount g)" "0 < Sign (g_Amount g)"
    "groundedText U conversation (d_Destination d) = Inr (g_DestinationText g)"
    "g_DestinationKind g = d_DestinationKind d" "g_DestinationKind g \<in> {DestinationBeneficiary, DestinationAddress}"
    "g_AmountSpan g = f_Span (d_Amount d)" "g_DestinationSpan g = f_Span (d_Destination d)"
  using assms by (auto simp: verify_intent_def grounded_action_def split: sum.splits if_splits)

section \<open>Properties\<close>

text \<open>
  The tokens of a message are numbered from zero, lie in it in order without overlapping, carry exactly the
  bytes between their offsets, and together carry everything of the message but its white space.
\<close>

theorem Tokenize_covers:
  assumes "list_all scalar rs" "spaces_apart U"
  shows "spans_ok (string_of_runes rs) 0 0 (Tokenize U (string_of_runes rs))
    \<and> concat (map Text_of (Tokenize U (string_of_runes rs))) = string_of_runes (filter (\<lambda>r. \<not> IsSpace r) rs)"
  using tokens_of_valid [of "string_of_runes rs" U] tokens_text [OF assms(2), of 0 0 rs] assms(1)
  by (auto simp: valid_utf8_def Tokenize_def runes_of_valid)

lemma plain_spaces_apart: "spaces_apart plain_tables"
  by (auto simp: spaces_apart_def isWordRune_def IsLetter_def IsDigit_def IsMark_def IsSpace_def ascii_letter_def plain_tables_def)

theorem Tokenize_covers_witness:
  "spans_ok (string_of_runes [112, 97, 121, 32, 53, 44, 48]) 0 0 (Tokenize plain_tables (string_of_runes [112, 97, 121, 32, 53, 44, 48]))
     \<and> concat (map Text_of (Tokenize plain_tables (string_of_runes [112, 97, 121, 32, 53, 44, 48])))
       = string_of_runes [112, 97, 121, 53, 44, 48]"
  using Tokenize_covers [OF _ plain_spaces_apart, of "[112, 97, 121, 32, 53, 44, 48]"]
  by (simp add: scalar_def IsSpace_def)

text \<open>
  C31: whatever a decoder claims, an instruction to send that survives verification consists of the user's own words.  The
  amount and the destination are the words of the messages that the spans claimed number, read from their offsets, and equal
  to the claims up to case and spacing; the verb that makes it a payment is among the words the span given for it numbers.  The
  amount is positive and is what \<open>NormalizeAmount\<close> reads of those words; when they are a decimal number, alone or with one of
  the suffixes of a thousand, a million or a billion, it is exactly that number.
\<close>

theorem Verify_grounded:
  assumes "list_all valid_utf8 messages"
    and "verify_intent U order (map (Tokenize U) messages) d = Inr g" "g_Action g = ActionSend" "mset order = mset multipliers"
  shows "g_AmountSpan g = f_Span (d_Amount d) \<and> quoted U messages (f_Span (d_Amount d)) (g_AmountText g)
    \<and> canonical U (g_AmountText g) = canonical U (f_Text (d_Amount d))
    \<and> NormalizeAmount U order (g_AmountText g) = Inr (g_Amount g) \<and> 0 < sint (g_Amount g)
    \<and> (\<forall>ip fp suf m. amount_syntax ip fp \<and> (suf, m) \<in> set (([], 1) # multipliers) \<and> g_AmountText g = amount_text False ip fp @ suf
         \<longrightarrow> sint (g_Amount g) = amount_value False ip fp * sint m)
    \<and> g_DestinationSpan g = f_Span (d_Destination d) \<and> quoted U messages (f_Span (d_Destination d)) (g_DestinationText g)
    \<and> canonical U (g_DestinationText g) = canonical U (f_Text (d_Destination d))
    \<and> (\<exists>s w. quoted U messages (f_Span (d_Action d)) s \<and> w \<in> set (Fields (ToLower U s))
         \<and> map_of actionVerbs (trim_marks w) = Some ActionSend)"
proof -
  from verify_send [OF assms(2,3)]
  have s: "verifyAction U (map (Tokenize U) messages) (d_Action d) = Inr ActionSend"
    "groundedText U (map (Tokenize U) messages) (d_Amount d) = Inr (g_AmountText g)"
    "NormalizeAmount U order (g_AmountText g) = Inr (g_Amount g)" "0 < Sign (g_Amount g)"
    "groundedText U (map (Tokenize U) messages) (d_Destination d) = Inr (g_DestinationText g)"
    "g_AmountSpan g = f_Span (d_Amount d)" "g_DestinationSpan g = f_Span (d_Destination d)" by blast+
  have pos: "0 < sint (g_Amount g)" using s(4) by (auto simp: Sign_def split: if_splits)
  have exact: "sint (g_Amount g) = amount_value False ip fp * sint m"
    if "amount_syntax ip fp" "(suf, m) \<in> set (([], 1) # multipliers)" "g_AmountText g = amount_text False ip fp @ suf" for ip fp suf m
  proof -
    let ?v = "amount_value False ip fp * sint m"
    have "in_int64 ?v \<and> g_Amount g = word_of_int ?v"
      using NormalizeAmount_digits_exact [OF that(1,2) assms(4), of U] s(3) that(3) by (simp split: if_splits)
    then show ?thesis using sint_word_of_int64 [of ?v] wrap64_id by metis
  qed
  show ?thesis
    using s(3,6,7) pos exact groundedText_quoted [OF assms(1) s(2)] groundedText_quoted [OF assms(1) s(5)] verifyAction_quoted [OF assms(1) s(1)]
    by blast
qed

definition demo_message :: string where "demo_message = ''send 5 bob''"

definition demo_field :: "string \<Rightarrow> int \<Rightarrow> Field" where
  "demo_field s i = \<lparr>f_Text = s, f_Span = \<lparr>Turn = 0, SpanStart = i, SpanEnd = i + 1\<rparr>\<rparr>"

definition demo_decoded :: Decoded where
  "demo_decoded = \<lparr>d_Action = demo_field ''send'' 0, d_Amount = demo_field ''5'' 1, d_Destination = demo_field ''bob'' 2,
     d_DestinationKind = DestinationBeneficiary\<rparr>"

lemma demo_valid: "valid_utf8 demo_message"
proof -
  let ?rs = "map byte demo_message"
  have "string_of_runes ?rs = demo_message"
    by (subst string_of_runes_ascii) (simp_all add: demo_message_def char_of_eq_iff take_bit_eq_mod)
  moreover have "list_all scalar ?rs" by (simp add: demo_message_def scalar_def)
  ultimately show ?thesis unfolding valid_utf8_def by metis
qed

lemma demo_tokens:
  "Tokenize plain_tables demo_message =
     [\<lparr>Index = 0, Text_of = ''send'', Start = 0, End = 4\<rparr>, \<lparr>Index = 1, Text_of = ''5'', Start = 5, End = 6\<rparr>,
      \<lparr>Index = 2, Text_of = ''bob'', Start = 7, End = 10\<rparr>]"
  by (simp add: Tokenize_def demo_message_def runes_of_ascii ascii_def isWordRune_def IsLetter_def IsDigit_def IsMark_def
      IsSpace_def ascii_letter_def isInternalSeparator_def encode_rune_def Let_def char_of_eq_iff take_bit_eq_mod)

lemma demo_amount: "NormalizeAmount plain_tables multipliers ''5'' = Inr 50000000"
proof -
  have a: "amount_syntax ''5'' []" by (simp add: amount_syntax_def)
  have v: "amount_value False ''5'' [] = 50000000" by (simp add: amount_value_def digits_val_def digit_val_def)
  have t: "amount_text False ''5'' [] = ''5''" by (simp add: amount_text_def)
  show ?thesis
    using NormalizeAmount_clean [of "''5''" plain_tables multipliers] clean_amount(1) [OF a, of "[]" 1]
      normalizeDigits_plain [OF a] by (simp add: t v in_int64_def)
qed

lemma demo_verified:
  "verify_intent plain_tables multipliers (map (Tokenize plain_tables) [demo_message]) demo_decoded =
     Inr \<lparr>g_Action = ActionSend, g_Amount = 50000000, g_AmountText = ''5'', g_DestinationText = ''bob'',
       g_DestinationKind = DestinationBeneficiary, g_AmountSpan = \<lparr>Turn = 0, SpanStart = 1, SpanEnd = 2\<rparr>,
       g_DestinationSpan = \<lparr>Turn = 0, SpanStart = 2, SpanEnd = 3\<rparr>\<rparr>"
proof -
  have w: "Fields (ToLower plain_tables ''send'') = [''send'']"
    by (simp add: ToLower_ascii ascii_def lower_byte_def ascii_lower_def Fields_def FieldsFunc_def utf8_chunks_ascii IsSpace_def
        char_of_eq_iff take_bit_eq_mod)
  have c: "trim_marks ''send'' = ''send''" by (simp add: trim_marks_def in_cutset_def)
  show ?thesis
    using demo_amount w
    by (simp add: verify_intent_def verifyAction_def groundedText_def demo_decoded_def demo_field_def Let_def demo_tokens
        Text_span_def equivalent_def c actionVerbs_def Sign_def DestinationBeneficiary_def)
qed

theorem Verify_grounded_witness:
  "\<exists>g. verify_intent plain_tables multipliers (map (Tokenize plain_tables) [demo_message]) demo_decoded = Inr g
     \<and> quoted plain_tables [demo_message] (g_AmountSpan g) (g_AmountText g) \<and> sint (g_Amount g) = 5 * 10 ^ 7
     \<and> quoted plain_tables [demo_message] (g_DestinationSpan g) (g_DestinationText g)"
proof -
  have "list_all valid_utf8 [demo_message]" using demo_valid by simp
  note v = Verify_grounded [OF this demo_verified _ refl]
  have "amount_syntax ''5'' []" "amount_value False ''5'' [] = 5 * 10 ^ 7" "''5'' = amount_text False ''5'' [] @ []"
    by (simp_all add: amount_syntax_def amount_value_def digits_val_def digit_val_def amount_text_def)
  then show ?thesis using v demo_verified by (auto simp: demo_decoded_def demo_field_def)
qed

text \<open>Resolution never chooses: an address comes from the only match among the owner's own recipients.\<close>

lemma resolveBeneficiary_unique:
  assumes r: "resolveBeneficiary U env rows org ownerRef label = Inr dst"
    and o: "\<And>bs. mset (order_labels env bs) = mset bs"
  defines "needle \<equiv> ToLower U (TrimSpace label)"
  shows "\<exists>b \<in> set rows. b_org b = org \<and> b_owner b = ownerRef \<and> Address dst = b_address b \<and> Label dst = b_label b
    \<and> (pg_lower env (b_label b) = needle
       \<or> filter (\<lambda>b. pg_like env (pg_lower env (b_label b)) (''%'' @ needle @ ''%''))
            (filter (\<lambda>b. b_org b = org \<and> b_owner b = ownerRef) rows) = [b])"
proof -
  define own where "own = filter (\<lambda>b. b_org b = org \<and> b_owner b = ownerRef) rows"
  define hits where "hits = filter (\<lambda>b. pg_like env (pg_lower env (b_label b)) (''%'' @ needle @ ''%'')) own"
  have own: "b \<in> set own \<Longrightarrow> b \<in> set rows \<and> b_org b = org \<and> b_owner b = ownerRef" for b by (simp add: own_def)
  consider b where "find (\<lambda>b. pg_lower env (b_label b) = needle) own = Some b" "Address dst = b_address b" "Label dst = b_label b"
    | b where "order_labels env hits = [b]" "Address dst = b_address b" "Label dst = b_label b"
    using r unfolding resolveBeneficiary_def Let_def needle_def [symmetric] own_def [symmetric] hits_def [symmetric]
    by (auto split: if_splits option.splits list.splits)
  then have "\<exists>b \<in> set rows. b_org b = org \<and> b_owner b = ownerRef \<and> Address dst = b_address b \<and> Label dst = b_label b
    \<and> (pg_lower env (b_label b) = needle \<or> hits = [b])"
  proof cases
    case 1
    then show ?thesis using find_in_set [OF 1(1)] own by blast
  next
    case 2
    then have "mset hits = {#b#}" using o [of hits] by simp
    then have h: "hits = [b]" by simp
    then have "b \<in> set hits" by simp
    then have "b \<in> set own" unfolding hits_def by simp
    then show ?thesis using 2 h own by blast
  qed
  then show ?thesis unfolding hits_def own_def .
qed

end
