(* ===== verification/Base64.thy ===== *)
theory Base64
  imports Go_Strings
begin

text \<open>
  Go's \<^verbatim>\<open>base64.RawURLEncoding\<close>, as the token code uses it: unpadded, with the URL alphabet.  Decoding skips
  line breaks and ignores the unused low bits of the last character, as Go does.  Encoding and decoding
  are inverse, and an encoding never contains a full stop.
\<close>

definition b64_alphabet :: string where
  "b64_alphabet = ''ABCDEFGHIJKLMNOPQRSTUVWXYZabcdefghijklmnopqrstuvwxyz0123456789-_''"

definition b64_char :: "nat \<Rightarrow> char" where
  "b64_char n = b64_alphabet ! n"

fun b64_index :: "string \<Rightarrow> char \<Rightarrow> nat option" where
  "b64_index [] c = None"
| "b64_index (a # as1) c = (if a = c then Some 0 else map_option Suc (b64_index as1 c))"

definition b64_value :: "char \<Rightarrow> nat option" where
  "b64_value c = b64_index b64_alphabet c"

fun b64_encode :: "string \<Rightarrow> string" where
  "b64_encode (a # b # c # rest) =
     (let v = byte a * 65536 + byte b * 256 + byte c
      in [b64_char (v div 262144), b64_char (v div 4096 mod 64), b64_char (v div 64 mod 64), b64_char (v mod 64)])
     @ b64_encode rest"
| "b64_encode [a, b] =
     (let v = byte a * 65536 + byte b * 256
      in [b64_char (v div 262144), b64_char (v div 4096 mod 64), b64_char (v div 64 mod 64)])"
| "b64_encode [a] =
     (let v = byte a * 65536 in [b64_char (v div 262144), b64_char (v div 4096 mod 64)])"
| "b64_encode [] = []"

text \<open>Sextets back to bytes; a single one left over is an error.\<close>

fun b64_bytes :: "nat list \<Rightarrow> string option" where
  "b64_bytes (p # q # r # s # rest) =
     (let v = p * 262144 + q * 4096 + r * 64 + s
      in map_option (\<lambda>t. [chr (v div 65536), chr (v div 256 mod 256), chr (v mod 256)] @ t) (b64_bytes rest))"
| "b64_bytes [p, q, r] =
     (let v = p * 262144 + q * 4096 + r * 64 in Some [chr (v div 65536), chr (v div 256 mod 256)])"
| "b64_bytes [p, q] = (let v = p * 262144 + q * 4096 in Some [chr (v div 65536)])"
| "b64_bytes [p] = None"
| "b64_bytes [] = Some []"

fun b64_values :: "string \<Rightarrow> nat list option" where
  "b64_values [] = Some []"
| "b64_values (c # cs) =
     (case b64_value c of None \<Rightarrow> None | Some v \<Rightarrow> map_option ((#) v) (b64_values cs))"

definition newline :: "char \<Rightarrow> bool" where
  "newline c \<longleftrightarrow> byte c = 10 \<or> byte c = 13"

definition b64_decode :: "string \<Rightarrow> string option" where
  "b64_decode s = Option.bind (b64_values (filter (\<lambda>c. \<not> newline c) s)) b64_bytes"

lemma length_alphabet: "length b64_alphabet = 64"
  by (simp add: b64_alphabet_def)

lemma b64_index_nth: "distinct xs \<Longrightarrow> n < length xs \<Longrightarrow> b64_index xs (xs ! n) = Some n"
proof (induction xs arbitrary: n)
  case (Cons x xs)
  then show ?case by (cases n) auto
qed simp

lemma distinct_alphabet: "distinct b64_alphabet"
  by (simp add: b64_alphabet_def)

lemma b64_value_char [simp]: "n < 64 \<Longrightarrow> b64_value (b64_char n) = Some n"
  unfolding b64_value_def b64_char_def
  by (rule b64_index_nth [OF distinct_alphabet]) (simp add: length_alphabet)

lemma b64_char_in: "n < 64 \<Longrightarrow> b64_char n \<in> set b64_alphabet"
  unfolding b64_char_def using length_alphabet by (metis nth_mem)

lemma alphabet_plain: "c \<in> set b64_alphabet \<Longrightarrow> c \<noteq> CHR ''.'' \<and> \<not> newline c"
  by (auto simp: b64_alphabet_def newline_def)

lemma byte_less: "byte c < 256"
  by simp

lemma join_sextets: "(v::nat) div 262144 * 262144 + v div 4096 mod 64 * 4096 + v div 64 mod 64 * 64 + v mod 64 = v"
proof -
  have "v div 64 div 64 = v div 4096" "v div 4096 div 64 = v div 262144" by (simp_all add: div_mult2_eq [symmetric])
  then show ?thesis
    using div_mult_mod_eq [of v 64] div_mult_mod_eq [of "v div 64" 64] div_mult_mod_eq [of "v div 4096" 64]
    by linarith
qed

lemma split_bytes:
  assumes "(x::nat) < 256" "y < 256" "z < 256"
  shows "(x * 65536 + y * 256 + z) div 65536 = x" "(x * 65536 + y * 256 + z) div 256 mod 256 = y"
    "(x * 65536 + y * 256 + z) mod 256 = z" "(x * 65536 + y * 256 + z) div 262144 < 64"
proof -
  have e: "x * 65536 + y * 256 + z = (x * 256 + y) * 256 + z" by simp
  have d: "(x * 65536 + y * 256 + z) div 256 = x * 256 + y" "(x * 65536 + y * 256 + z) mod 256 = z"
    unfolding e using assms(3) by (simp_all only: div_mult_self3 mod_mult_self3 mod_less div_less add_0_right)
  then show "(x * 65536 + y * 256 + z) div 256 mod 256 = y" "(x * 65536 + y * 256 + z) mod 256 = z"
    using assms(2) by simp_all
  have "(x * 65536 + y * 256 + z) div 65536 = (x * 65536 + y * 256 + z) div 256 div 256" by (simp add: div_mult2_eq [symmetric])
  then show "(x * 65536 + y * 256 + z) div 65536 = x" using d assms(2) by simp
  show "(x * 65536 + y * 256 + z) div 262144 < 64" using assms by (intro less_mult_imp_div_less) simp
qed

lemma chr_of_mod: "n mod 256 = byte c \<Longrightarrow> chr n = c"
proof -
  assume "n mod 256 = byte c"
  then have "chr (n mod 256) = c" by (simp only: char_of_char)
  then show ?thesis by simp
qed

lemma b64_encode_chars: "c \<in> set (b64_encode s) \<Longrightarrow> c \<in> set b64_alphabet"
proof (induction s rule: b64_encode.induct)
  case (1 x y z rest)
  then show ?case using split_bytes(4) [of "byte x" "byte y" "byte z"] by (auto simp: Let_def b64_char_in)
next
  case (2 x y)
  then show ?case using split_bytes(4) [of "byte x" "byte y" 0] by (auto simp: Let_def b64_char_in)
next
  case (3 x)
  then show ?case using split_bytes(4) [of "byte x" 0 0] by (auto simp: Let_def b64_char_in)
qed simp

lemma b64_encode_values: "\<exists>vs. b64_values (b64_encode s) = Some vs \<and> b64_bytes vs = Some s"
proof (induction s rule: b64_encode.induct)
  case (1 x y z rest)
  then obtain vs where vs: "b64_values (b64_encode rest) = Some vs" "b64_bytes vs = Some rest" by blast
  define v where "v = byte x * 65536 + byte y * 256 + byte z"
  have f: "v div 65536 = byte x" "v div 256 mod 256 = byte y" "v mod 256 = byte z" "v div 262144 < 64"
    unfolding v_def by (rule split_bytes; simp)+
  let ?vs = "v div 262144 # v div 4096 mod 64 # v div 64 mod 64 # v mod 64 # vs"
  have "b64_values (b64_encode (x # y # z # rest)) = Some ?vs"
    using vs(1) f(4) by (simp add: Let_def v_def [symmetric])
  moreover have "b64_bytes ?vs = Some (x # y # z # rest)"
    using vs(2) f by (simp add: Let_def join_sextets chr_of_mod)
  ultimately show ?case by blast
next
  case (2 x y)
  define v where "v = byte x * 65536 + byte y * 256"
  have f: "v div 65536 = byte x" "v div 256 mod 256 = byte y" "v div 262144 < 64"
    using split_bytes [of "byte x" "byte y" 0] by (simp_all add: v_def)
  have "v = (byte x * 1024 + byte y * 4) * 64" by (simp add: v_def)
  then have "v mod 64 = 0" by (metis mod_mult_self2_is_0)
  then have j: "v div 262144 * 262144 + v div 4096 mod 64 * 4096 + v div 64 mod 64 * 64 = v"
    using join_sextets [of v] by simp
  have "b64_values (b64_encode [x, y]) = Some [v div 262144, v div 4096 mod 64, v div 64 mod 64]"
    using f(3) by (simp add: Let_def v_def [symmetric])
  moreover have "b64_bytes [v div 262144, v div 4096 mod 64, v div 64 mod 64] = Some [x, y]"
    using f by (simp add: Let_def j chr_of_mod)
  ultimately show ?case by blast
next
  case (3 x)
  define v where "v = byte x * 65536"
  have f: "v div 65536 = byte x" "v div 262144 < 64"
    using split_bytes [of "byte x" 0 0] by (simp_all add: v_def)
  have "v = byte x * 16 * 64 * 64" by (simp add: v_def)
  then have "v mod 64 = 0" "v div 64 mod 64 = 0"
    by (metis mod_mult_self2_is_0, metis mod_mult_self2_is_0 nonzero_mult_div_cancel_right zero_neq_numeral)
  then have j: "v div 262144 * 262144 + v div 4096 mod 64 * 4096 = v"
    using join_sextets [of v] by simp
  have "b64_values (b64_encode [x]) = Some [v div 262144, v div 4096 mod 64]"
    using f(2) by (simp add: Let_def v_def [symmetric])
  moreover have "b64_bytes [v div 262144, v div 4096 mod 64] = Some [x]"
    using f by (simp add: Let_def j)
  ultimately show ?case by blast
qed simp

lemma b64_decode_encode: "b64_decode (b64_encode s) = Some s"
proof -
  have "filter (\<lambda>c. \<not> newline c) (b64_encode s) = b64_encode s"
    using b64_encode_chars alphabet_plain by (auto simp: filter_id_conv)
  then show ?thesis using b64_encode_values [of s] by (auto simp: b64_decode_def)
qed

lemma b64_encode_no_dot: "CHR ''.'' \<notin> set (b64_encode s)"
  using b64_encode_chars alphabet_plain by blast

end
