(* ===== verification/Ledger.thy ===== *)
theory Ledger
  imports Money "HOL-Library.Product_Lexorder" "HOL-Library.Multiset"
begin

text \<open>
  \<^verbatim>\<open>ledger/ledger.go\<close>: the append-only double-entry record.  The state is the part of the
  database the package writes (\<open>ledger_db\<close>: one list per table, the trigger-maintained balances
  as a map), and each of \<open>Post\<close>, \<open>Balance\<close>, \<open>EnsureAsset\<close> and \<open>EnsureAccount\<close> is a function on
  it.  A statement's constraints and triggers are the ones \<^verbatim>\<open>ledger/migrations/00001_core.sql\<close>
  and \<^verbatim>\<open>00016_opening_balances.sql\<close> declare.  A transaction runs alone and is rolled back whole on an
  error, except that an identity sequence never gives a value back.

  What PostgreSQL decides (which texts, documents and times it can store, how it folds case) and
  SHA-256 are parameters.  The lemmas show that every reachable ledger balances, that the derived
  balances are the sums of the entries, that no account but a counterparty is ever negative, that
  a retry is recognised whatever the order of its lines, and that value never crosses tenants.
\<close>

section \<open>Data\<close>

type_synonym OrgID = int64
type_synonym AccountID = int64
type_synonym AssetID = "16 word"
type_synonym TxID = int64

datatype AccountKind =
    AccountMember | AccountTreasury | AccountExternal | AccountFeeExpense
  | AccountSponsoredReserve | AccountTrading

text \<open>A kind of transaction is a string in the source: the table's constraint lists the kinds.\<close>

type_synonym TxKind = string

definition tx_kinds :: "TxKind list" where
  "tx_kinds = [''deposit'', ''send'', ''fee'', ''sponsor'', ''reserve_release'', ''withdrawal'',
     ''trade'', ''opening'']"

datatype db_error = CheckViolation | ForeignKeyViolation | SequenceExhausted | OutOfRange | NotStorable | NoRows

datatype ledger_error =
    OrgRequired | KeyRequired | KindRequired | OccurredRequired
  | ErrNoPostings | ErrZeroAmount nat | ErrSum AssetID money_error | ErrUnbalanced AssetID
  | ErrInsufficientFunds | ErrCrossOrg | ErrIdempotencyKeyReused TxID | Database db_error

record Posting =
  Account :: AccountID
  Asset :: AssetID
  Amount :: stroops

text \<open>Instants are nanoseconds since the Unix epoch.\<close>

record PostRequest =
  Org :: OrgID
  IdempotencyKey :: string
  Kind :: TxKind
  ExternalRef :: string
  OccurredAt :: int
  Metadata :: string
  Postings :: "Posting list"

definition zero_time :: int where
  "zero_time = - 62135596800 * 10 ^ 9"

definition UnixNano :: "int \<Rightarrow> int64" where
  "UnixNano t = word_of_int t"

section \<open>The request's own checks\<close>

fun zero_posting :: "nat \<Rightarrow> Posting list \<Rightarrow> nat option" where
  "zero_posting i [] = None"
| "zero_posting i (p # ps) = (if IsZero (Amount p) then Some i else zero_posting (Suc i) ps)"

definition amounts_of :: "Posting list \<Rightarrow> AssetID \<Rightarrow> stroops list" where
  "amounts_of ps a = map Amount (filter (\<lambda>p. Asset p = a) ps)"

fun check_assets :: "Posting list \<Rightarrow> AssetID list \<Rightarrow> ledger_error option" where
  "check_assets ps [] = None"
| "check_assets ps (a # rest) =
     (case Sum (amounts_of ps a) of
        Inl e \<Rightarrow> Some (ErrSum a e)
      | Inr tot \<Rightarrow> if \<not> IsZero tot then Some (ErrUnbalanced a) else check_assets ps rest)"

text \<open>\<open>ord\<close> is the order in which the runtime visits the keys of a Go map.\<close>

definition validate :: "(AssetID list \<Rightarrow> AssetID list) \<Rightarrow> PostRequest \<Rightarrow> ledger_error option" where
  "validate ord req =
     (if Org req = 0 then Some OrgRequired
      else if IdempotencyKey req = [] then Some KeyRequired
      else if Kind req = [] then Some KindRequired
      else if OccurredAt req = zero_time then Some OccurredRequired
      else if Postings req = [] then Some ErrNoPostings
      else case zero_posting 1 (Postings req) of
             Some i \<Rightarrow> Some (ErrZeroAmount i)
           | None \<Rightarrow> check_assets (Postings req) (ord (remdups (map Asset (Postings req)))))"

section \<open>The fingerprint\<close>

fun be_bytes :: "nat \<Rightarrow> nat \<Rightarrow> string" where
  "be_bytes 0 v = []"
| "be_bytes (Suc k) v = be_bytes k (v div 256) @ [chr (v mod 256)]"

definition writeInt :: "int64 \<Rightarrow> string" where
  "writeInt v = be_bytes 8 (unat v)"

definition writeString :: "string \<Rightarrow> string" where
  "writeString s = writeInt (of_nat (length s)) @ s"

definition posting_key :: "Posting \<Rightarrow> int \<times> int \<times> int" where
  "posting_key p = (sint (Account p), sint (Asset p), sint (Amount p))"

definition write_posting :: "Posting \<Rightarrow> string" where
  "write_posting p = writeInt (Account p) @ writeInt (scast (Asset p)) @ writeInt (Amount p)"

definition fingerprint_preimage :: "PostRequest \<Rightarrow> string" where
  "fingerprint_preimage r =
     (let postings = sort_key posting_key (Postings r)
      in writeInt (Org r) @ writeString (Kind r) @ writeString (ExternalRef r)
         @ writeInt (UnixNano (OccurredAt r)) @ writeInt (of_nat (length postings))
         @ concat (map write_posting postings))"

definition fingerprint :: "(string \<Rightarrow> string) \<Rightarrow> PostRequest \<Rightarrow> string" where
  "fingerprint sha256 r = sha256 (fingerprint_preimage r)"

section \<open>The tables\<close>

record ledger_account =
  acc_id :: AccountID
  acc_org :: OrgID
  acc_kind :: AccountKind
  acc_owner :: "string option"
  acc_name :: string
  allows_negative :: bool

record asset_row =
  asset_id :: AssetID
  asset_code :: string
  asset_issuer :: "string option"
  is_native :: bool

record ledger_tx =
  tx_id :: TxID
  tx_org :: OrgID
  tx_key :: string
  tx_fingerprint :: string
  tx_kind :: TxKind
  tx_ref :: "string option"
  tx_occurred :: int
  tx_metadata :: string

record ledger_entry =
  e_tx :: TxID
  e_account :: AccountID
  e_asset :: AssetID
  e_amount :: stroops

record ledger_db =
  orgs :: "OrgID list"
  assets :: "asset_row list"
  accounts :: "ledger_account list"
  transactions :: "ledger_tx list"
  entries :: "ledger_entry list"
  balances :: "AccountID \<times> AssetID \<Rightarrow> stroops option"
  asset_seq :: AssetID
  account_seq :: AccountID
  tx_seq :: TxID

text \<open>What the database server decides, and the hash.\<close>

record platform =
  text_ok :: "string \<Rightarrow> bool"
  json_ok :: "string \<Rightarrow> bool"
  time_ok :: "int \<Rightarrow> bool"
  pg_lower :: "string \<Rightarrow> string"
  sha256 :: "string \<Rightarrow> string"
  map_order :: "AssetID list \<Rightarrow> AssetID list"

text \<open>An identity column: the last value handed out, and the next one unless the type is used up.\<close>

definition next_id :: "'a::len word \<Rightarrow> 'a word option" where
  "next_id s = (if sint (s + 1) \<le> sint s then None else Some (s + 1))"

definition hex_char :: "char \<Rightarrow> bool" where
  "hex_char c \<longleftrightarrow> is_digit c \<or> (97 \<le> byte c \<and> byte c \<le> 102)"

definition ref_ok :: "string option \<Rightarrow> bool" where
  "ref_ok r = (case r of None \<Rightarrow> True | Some s \<Rightarrow> length s = 64 \<and> list_all hex_char s)"

section \<open>Posting\<close>

definition tx_row :: "platform \<Rightarrow> PostRequest \<Rightarrow> TxID \<Rightarrow> ledger_tx" where
  "tx_row pf req i =
     \<lparr> tx_id = i, tx_org = Org req, tx_key = IdempotencyKey req,
       tx_fingerprint = fingerprint (sha256 pf) req, tx_kind = Kind req,
       tx_ref = (if ExternalRef req \<noteq> [] then Some (ExternalRef req) else None),
       tx_occurred = OccurredAt req div 1000,
       tx_metadata = (if Metadata req = [] then ''{}'' else Metadata req) \<rparr>"

definition storable_tx :: "platform \<Rightarrow> ledger_tx \<Rightarrow> bool" where
  "storable_tx pf t \<longleftrightarrow> text_ok pf (tx_key t) \<and> text_ok pf (tx_kind t)
     \<and> (case tx_ref t of None \<Rightarrow> True | Some r \<Rightarrow> text_ok pf r)
     \<and> time_ok pf (tx_occurred t) \<and> json_ok pf (tx_metadata t)"

definition tx_checks :: "ledger_tx \<Rightarrow> bool" where
  "tx_checks t \<longleftrightarrow> tx_key t \<noteq> [] \<and> length (tx_fingerprint t) = 32
     \<and> tx_kind t \<in> set tx_kinds \<and> ref_ok (tx_ref t)"

definition find_key :: "ledger_db \<Rightarrow> OrgID \<Rightarrow> string \<Rightarrow> ledger_tx option" where
  "find_key db org key = find (\<lambda>t. tx_org t = org \<and> tx_key t = key) (transactions db)"

text \<open>
  \<open>INSERT INTO ledger_transactions ... ON CONFLICT (org_id, idempotency_key) DO NOTHING RETURNING id\<close>:
  \<open>Inr None\<close> is the conflict, for which no row is returned.  The identity value is drawn first
  and stays drawn.
\<close>

definition insert_transaction ::
  "platform \<Rightarrow> PostRequest \<Rightarrow> ledger_db \<Rightarrow> (db_error, TxID option) result \<times> ledger_db" where
  "insert_transaction pf req db =
     (case next_id (tx_seq db) of
        None \<Rightarrow> (Inl SequenceExhausted, db)
      | Some i \<Rightarrow>
          let t = tx_row pf req i; drawn = db\<lparr>tx_seq := i\<rparr>
          in if \<not> storable_tx pf t then (Inl NotStorable, db)
             else if \<not> tx_checks t then (Inl CheckViolation, drawn)
             else if find_key db (Org req) (IdempotencyKey req) \<noteq> None then (Inr None, drawn)
             else if Org req \<notin> set (orgs db) then (Inl ForeignKeyViolation, drawn)
             else (Inr (Some i), drawn\<lparr>transactions := transactions db @ [t]\<rparr>))"

definition find_account :: "ledger_db \<Rightarrow> AccountID \<Rightarrow> ledger_account option" where
  "find_account db a = find (\<lambda>r. acc_id r = a) (accounts db)"

definition find_asset :: "ledger_db \<Rightarrow> AssetID \<Rightarrow> asset_row option" where
  "find_asset db a = find (\<lambda>r. asset_id r = a) (assets db)"

text \<open>The trigger \<open>ledger_apply_to_balance\<close>: \<open>bigint\<close> addition raises instead of wrapping.\<close>

definition apply_to_balance ::
  "ledger_account \<Rightarrow> ledger_entry \<Rightarrow> ledger_db \<Rightarrow> (ledger_error, ledger_db) result" where
  "apply_to_balance acct e db =
     (let k = (e_account e, e_asset e);
          new = (case balances db k of None \<Rightarrow> sint (e_amount e) | Some b \<Rightarrow> sint b + sint (e_amount e))
      in if \<not> in_int64 new then Inl (Database OutOfRange)
         else if new < 0 \<and> \<not> allows_negative acct then Inl ErrInsufficientFunds
         else Inr (db\<lparr>balances := (balances db)(k := Some (word_of_int new))\<rparr>))"

text \<open>\<open>INSERT INTO ledger_entries\<close>: the check, the references, then the balance.\<close>

definition insert_entry :: "ledger_entry \<Rightarrow> ledger_db \<Rightarrow> (ledger_error, ledger_db) result" where
  "insert_entry e db =
     (if e_amount e = 0 then Inl (Database CheckViolation)
      else case find_account db (e_account e) of
             None \<Rightarrow> Inl (Database ForeignKeyViolation)
           | Some acct \<Rightarrow>
               if find_asset db (e_asset e) = None then Inl (Database ForeignKeyViolation)
               else apply_to_balance acct e (db\<lparr>entries := entries db @ [e]\<rparr>))"

definition entry_of :: "TxID \<Rightarrow> Posting \<Rightarrow> ledger_entry" where
  "entry_of i p = \<lparr>e_tx = i, e_account = Account p, e_asset = Asset p, e_amount = Amount p\<rparr>"

fun insert_entries :: "TxID \<Rightarrow> Posting list \<Rightarrow> ledger_db \<Rightarrow> (ledger_error, ledger_db) result" where
  "insert_entries i [] db = Inr db"
| "insert_entries i (p # ps) db =
     (case insert_entry (entry_of i p) db of
        Inl e \<Rightarrow> Inl e
      | Inr db' \<Rightarrow> insert_entries i ps db')"

text \<open>The two deferred triggers, at commit.\<close>

definition asset_total :: "ledger_db \<Rightarrow> TxID \<Rightarrow> AssetID \<Rightarrow> int" where
  "asset_total db i a =
     sum_list (map (\<lambda>e. if e_tx e = i \<and> e_asset e = a then sint (e_amount e) else 0) (entries db))"

definition unbalanced_asset :: "ledger_db \<Rightarrow> TxID \<Rightarrow> AssetID option" where
  "unbalanced_asset db i =
     find (\<lambda>a. asset_total db i a \<noteq> 0) (map e_asset (filter (\<lambda>e. e_tx e = i) (entries db)))"

definition touches_other_org :: "ledger_db \<Rightarrow> TxID \<Rightarrow> bool" where
  "touches_other_org db i \<longleftrightarrow>
     list_ex (\<lambda>e. e_tx e = i \<and>
       list_ex (\<lambda>a. acc_id a = e_account e \<and>
         list_ex (\<lambda>t. tx_id t = i \<and> acc_org a \<noteq> tx_org t) (transactions db)) (accounts db)) (entries db)"

definition commit_checks :: "ledger_db \<Rightarrow> TxID \<Rightarrow> ledger_error option" where
  "commit_checks db i =
     (case unbalanced_asset db i of
        Some a \<Rightarrow> Some (ErrUnbalanced a)
      | None \<Rightarrow> if touches_other_org db i then Some ErrCrossOrg else None)"

definition resolveReplay ::
  "ledger_db \<Rightarrow> OrgID \<Rightarrow> string \<Rightarrow> string \<Rightarrow> (ledger_error, TxID) result" where
  "resolveReplay db org key want =
     (case find_key db org key of
        None \<Rightarrow> Inl (Database NoRows)
      | Some t \<Rightarrow> if tx_fingerprint t \<noteq> want then Inl (ErrIdempotencyKeyReused (tx_id t))
                  else Inr (tx_id t))"

text \<open>\<open>Post\<close>: every early return leaves the books as they were; only the drawn identity is spent.\<close>

definition Post :: "platform \<Rightarrow> PostRequest \<Rightarrow> ledger_db \<Rightarrow> (ledger_error, TxID) result \<times> ledger_db" where
  "Post pf req db =
     (case validate (map_order pf) req of
        Some e \<Rightarrow> (Inl e, db)
      | None \<Rightarrow>
          (case insert_transaction pf req db of
             (Inl e, db1) \<Rightarrow> (Inl (Database e), db1)
           | (Inr None, db1) \<Rightarrow>
               (resolveReplay db1 (Org req) (IdempotencyKey req) (fingerprint (sha256 pf) req), db1)
           | (Inr (Some i), db1) \<Rightarrow>
               (case insert_entries i (Postings req) db1 of
                  Inl e \<Rightarrow> (Inl e, db\<lparr>tx_seq := i\<rparr>)
                | Inr db2 \<Rightarrow>
                    (case commit_checks db2 i of
                       Some e \<Rightarrow> (Inl e, db\<lparr>tx_seq := i\<rparr>)
                     | None \<Rightarrow> (Inr i, db2)))))"

section \<open>Balances, assets and accounts\<close>

definition Balance :: "ledger_db \<Rightarrow> OrgID \<Rightarrow> AccountID \<Rightarrow> AssetID \<Rightarrow> stroops" where
  "Balance db org account asset =
     (case balances db (account, asset) of
        None \<Rightarrow> 0
      | Some b \<Rightarrow> if list_ex (\<lambda>a. acc_id a = account \<and> acc_org a = org) (accounts db) then b else 0)"

definition base32_char :: "char \<Rightarrow> bool" where
  "base32_char c \<longleftrightarrow> (65 \<le> byte c \<and> byte c \<le> 90) \<or> (50 \<le> byte c \<and> byte c \<le> 55)"

definition issuer_ok :: "string \<Rightarrow> bool" where
  "issuer_ok s \<longleftrightarrow> length s = 56 \<and> hd s = CHR ''G'' \<and> list_all base32_char (tl s)"

definition coalesce :: "string option \<Rightarrow> string" where
  "coalesce o1 = (case o1 of None \<Rightarrow> [] | Some s \<Rightarrow> s)"

definition same_asset :: "string \<Rightarrow> string option \<Rightarrow> asset_row \<Rightarrow> bool" where
  "same_asset code issuer r \<longleftrightarrow> asset_code r = code \<and> coalesce (asset_issuer r) = coalesce issuer"

definition EnsureAsset ::
  "platform \<Rightarrow> string \<Rightarrow> string \<Rightarrow> ledger_db \<Rightarrow> (ledger_error, AssetID) result \<times> ledger_db" where
  "EnsureAsset pf code issuer db =
     (let native = (issuer = []); issuerArg = (if native then None else Some issuer)
      in if \<not> text_ok pf code \<or> \<not> text_ok pf issuer then (Inl (Database NotStorable), db)
         else case next_id (asset_seq db) of
           None \<Rightarrow> (Inl (Database SequenceExhausted), db)
         | Some i \<Rightarrow>
             let drawn = db\<lparr>asset_seq := i\<rparr>
             in if code = [] \<or> \<not> (native \<or> issuer_ok issuer) then (Inl (Database CheckViolation), drawn)
                else case find (same_asset code issuerArg) (assets db) of
                       Some r \<Rightarrow> (Inr (asset_id r), drawn)
                     | None \<Rightarrow> (Inr i, drawn\<lparr>assets := assets db @
                         [\<lparr>asset_id = i, asset_code = code, asset_issuer = issuerArg, is_native = native\<rparr>]\<rparr>))"

definition singleton_kind :: "AccountKind \<Rightarrow> bool" where
  "singleton_kind k \<longleftrightarrow> k \<in> {AccountExternal, AccountFeeExpense, AccountSponsoredReserve, AccountTrading}"

text \<open>The three partial unique indexes, and the tuple the re-select matches on.\<close>

definition account_conflict :: "platform \<Rightarrow> ledger_account \<Rightarrow> ledger_account \<Rightarrow> bool" where
  "account_conflict pf n r \<longleftrightarrow> acc_org r = acc_org n \<and> acc_kind r = acc_kind n \<and>
     (acc_kind n = AccountMember \<and> acc_owner r = acc_owner n
      \<or> singleton_kind (acc_kind n)
      \<or> acc_kind n = AccountTreasury \<and> pg_lower pf (acc_name r) = pg_lower pf (acc_name n))"

definition account_match :: "platform \<Rightarrow> ledger_account \<Rightarrow> ledger_account \<Rightarrow> bool" where
  "account_match pf n r \<longleftrightarrow> acc_org r = acc_org n \<and> acc_kind r = acc_kind n
     \<and> coalesce (acc_owner r) = coalesce (acc_owner n)
     \<and> (acc_kind r \<noteq> AccountTreasury \<or> pg_lower pf (acc_name r) = pg_lower pf (acc_name n))"

definition account_checks :: "ledger_account \<Rightarrow> bool" where
  "account_checks n \<longleftrightarrow> acc_name n \<noteq> [] \<and> (acc_kind n = AccountMember \<longleftrightarrow> acc_owner n \<noteq> None)
     \<and> (allows_negative n \<longleftrightarrow> acc_kind n \<in> {AccountExternal, AccountTrading})"

definition new_account :: "AccountID \<Rightarrow> OrgID \<Rightarrow> AccountKind \<Rightarrow> string \<Rightarrow> string \<Rightarrow> ledger_account" where
  "new_account i org kind ownerRef name =
     \<lparr>acc_id = i, acc_org = org, acc_kind = kind,
      acc_owner = (if ownerRef \<noteq> [] then Some ownerRef else None), acc_name = name,
      allows_negative = (kind = AccountExternal \<or> kind = AccountTrading)\<rparr>"

definition EnsureAccount ::
  "platform \<Rightarrow> OrgID \<Rightarrow> AccountKind \<Rightarrow> string \<Rightarrow> string \<Rightarrow> ledger_db
   \<Rightarrow> (ledger_error, AccountID) result \<times> ledger_db" where
  "EnsureAccount pf org kind ownerRef name db =
     (if org = 0 then (Inl OrgRequired, db)
      else if \<not> text_ok pf ownerRef \<or> \<not> text_ok pf name then (Inl (Database NotStorable), db)
      else case next_id (account_seq db) of
        None \<Rightarrow> (Inl (Database SequenceExhausted), db)
      | Some i \<Rightarrow>
          let n = new_account i org kind ownerRef name; drawn = db\<lparr>account_seq := i\<rparr>
          in if \<not> account_checks n then (Inl (Database CheckViolation), drawn)
             else if list_ex (account_conflict pf n) (accounts db)
                  then (case find (account_match pf n) (accounts db) of
                          None \<Rightarrow> (Inl (Database NoRows), drawn)
                        | Some r \<Rightarrow> (Inr (acc_id r), drawn))
             else if org \<notin> set (orgs db) then (Inl (Database ForeignKeyViolation), drawn)
             else (Inr i, drawn\<lparr>accounts := accounts db @ [n]\<rparr>))"

section \<open>What a request says\<close>

lemma zero_posting_None: "zero_posting i ps = None \<longleftrightarrow> (\<forall>p \<in> set ps. Amount p \<noteq> 0)"
  by (induction ps arbitrary: i) (auto simp: IsZero_def)

lemma check_assets_None:
  "check_assets ps xs = None \<longleftrightarrow> (\<forall>a \<in> set xs. Sum (amounts_of ps a) = Inr 0)"
  by (induction xs) (auto simp: IsZero_def split: sum.splits)

lemma validate_None:
  assumes "\<And>xs. set (ord xs) = set xs"
  shows "validate ord req = None \<longleftrightarrow>
    Org req \<noteq> 0 \<and> IdempotencyKey req \<noteq> [] \<and> Kind req \<noteq> [] \<and> OccurredAt req \<noteq> zero_time
    \<and> Postings req \<noteq> [] \<and> (\<forall>p \<in> set (Postings req). Amount p \<noteq> 0)
    \<and> (\<forall>a \<in> Asset ` set (Postings req). Sum (amounts_of (Postings req) a) = Inr 0)"
  using zero_posting_None [of 1 "Postings req"]
  by (auto simp: validate_def check_assets_None assms split: option.splits)

text \<open>The bytes the fingerprint is taken over determine the request, up to the order of its lines.\<close>

lemma length_be_bytes [simp]: "length (be_bytes k v) = k"
  by (induction k arbitrary: v) auto

lemma be_bytes_inj: "be_bytes k v = be_bytes k w \<Longrightarrow> v < 256 ^ k \<Longrightarrow> w < 256 ^ k \<Longrightarrow> v = w"
proof (induction k arbitrary: v w)
  case (Suc k)
  have "v div 256 = w div 256"
    using Suc.prems by (intro Suc.IH) (auto simp: less_mult_imp_div_less mult.commute)
  moreover have "v mod 256 = w mod 256"
    using Suc.prems(1) by (simp add: char_of_eq_iff [symmetric])
  ultimately show ?case by (metis div_mult_mod_eq)
qed simp

lemma writeInt_append: "writeInt a @ x = writeInt b @ y \<longleftrightarrow> a = b \<and> x = y"
proof -
  have "unat a < 256 ^ 8" "unat b < 256 ^ 8" using unsigned_less [of a, where 'a = nat] unsigned_less [of b, where 'a = nat] by simp_all
  then have "be_bytes 8 (unat a) = be_bytes 8 (unat b) \<longleftrightarrow> a = b"
    using be_bytes_inj [of 8 "unat a" "unat b"] word_unat_eq_iff by blast
  then show ?thesis unfolding writeInt_def by (simp add: append_eq_append_conv)
qed

definition wf_len :: "string \<Rightarrow> bool" where
  "wf_len s \<longleftrightarrow> length s < 2 ^ 63"

lemma writeString_append:
  "wf_len s \<Longrightarrow> wf_len t \<Longrightarrow> writeString s @ x = writeString t @ y \<longleftrightarrow> s = t \<and> x = y"
proof -
  assume l: "wf_len s" "wf_len t"
  have "length s = length t" if "(of_nat (length s) :: int64) = of_nat (length t)"
    using arg_cong [OF that, of unat] l
    by (simp add: wf_len_def unat_of_nat)
  then show ?thesis unfolding writeString_def by (auto simp: writeInt_append)
qed

lemma scast_asset_inj: "(scast (a :: AssetID) :: int64) = scast b \<longleftrightarrow> a = b"
proof
  assume "(scast a :: int64) = scast b"
  then have "sint (scast a :: int64) = sint (scast b :: int64)" by simp
  moreover have "signed_take_bit 63 (sint c) = sint c" for c :: AssetID
    using sint_ge [of c] sint_lt [of c] by (intro signed_take_bit_int_eq_self) simp_all
  ultimately have "sint a = sint b" by (simp add: signed_scast_eq)
  then show "a = b" by (rule signed_word_eqI)
qed simp

lemma write_posting_append: "write_posting p @ x = write_posting q @ y \<longleftrightarrow> p = q \<and> x = y"
  by (cases p; cases q) (auto simp: write_posting_def writeInt_append scast_asset_inj)

lemma write_postings_inj:
  "length ps = length qs \<Longrightarrow> concat (map write_posting ps) = concat (map write_posting qs) \<Longrightarrow> ps = qs"
  by (induction ps qs rule: list_induct2) (auto simp: write_posting_append)

lemma posting_key_inj: "inj posting_key"
proof (rule injI)
  fix p q :: Posting
  assume "posting_key p = posting_key q"
  then show "p = q" by (cases p; cases q) (auto simp: posting_key_def signed_word_eqI)
qed

lemma sort_postings_eq:
  "sort_key posting_key ps = sort_key posting_key qs \<longleftrightarrow> mset ps = mset qs"
proof
  assume "mset ps = mset qs"
  then show "sort_key posting_key ps = sort_key posting_key qs"
    by (intro sort_key_inj_key_eq) (simp_all add: inj_on_subset [OF posting_key_inj])
qed (metis mset_sort)

definition same_content :: "PostRequest \<Rightarrow> PostRequest \<Rightarrow> bool" where
  "same_content r s \<longleftrightarrow> Org r = Org s \<and> Kind r = Kind s \<and> ExternalRef r = ExternalRef s
     \<and> UnixNano (OccurredAt r) = UnixNano (OccurredAt s) \<and> mset (Postings r) = mset (Postings s)"

definition wf_request :: "PostRequest \<Rightarrow> bool" where
  "wf_request r \<longleftrightarrow> wf_len (Kind r) \<and> wf_len (ExternalRef r) \<and> length (Postings r) < 2 ^ 63"

text \<open>
  The bytes that are hashed are the same exactly for requests with the same content.  The
  order of the lines is left out, and nothing else is: the length prefixes make the concatenation
  unambiguous.
\<close>

theorem fingerprint_identifies_content:
  assumes "wf_request r" "wf_request s"
  shows "fingerprint_preimage r = fingerprint_preimage s \<longleftrightarrow> same_content r s"
proof -
  let ?p = "sort_key posting_key (Postings r)" and ?q = "sort_key posting_key (Postings s)"
  have w: "wf_len (Kind r)" "wf_len (Kind s)" "wf_len (ExternalRef r)" "wf_len (ExternalRef s)"
    using assms by (auto simp: wf_request_def)
  have len: "(of_nat (length ?p) :: int64) = of_nat (length ?q) \<longleftrightarrow> length ?p = length ?q"
  proof
    assume "(of_nat (length ?p) :: int64) = of_nat (length ?q)"
    from arg_cong [OF this, of unat] show "length ?p = length ?q"
      using assms by (simp add: wf_request_def unat_of_nat)
  qed simp
  have "fingerprint_preimage r = fingerprint_preimage s \<longleftrightarrow>
    Org r = Org s \<and> Kind r = Kind s \<and> ExternalRef r = ExternalRef s
    \<and> UnixNano (OccurredAt r) = UnixNano (OccurredAt s) \<and> length ?p = length ?q
    \<and> concat (map write_posting ?p) = concat (map write_posting ?q)"
    unfolding fingerprint_preimage_def Let_def
    by (simp only: append_assoc writeInt_append writeString_append [OF w(1,2)]
        writeString_append [OF w(3,4)] len)
  also have "\<dots> \<longleftrightarrow> Org r = Org s \<and> Kind r = Kind s \<and> ExternalRef r = ExternalRef s
    \<and> UnixNano (OccurredAt r) = UnixNano (OccurredAt s) \<and> ?p = ?q"
    using write_postings_inj by metis
  finally show ?thesis by (simp add: sort_postings_eq same_content_def)
qed

section \<open>Well-formed books\<close>

definition bal :: "ledger_db \<Rightarrow> AccountID \<Rightarrow> AssetID \<Rightarrow> int" where
  "bal db a s = (case balances db (a, s) of None \<Rightarrow> 0 | Some b \<Rightarrow> sint b)"

definition entry_sum :: "(ledger_entry \<Rightarrow> bool) \<Rightarrow> ledger_entry list \<Rightarrow> int" where
  "entry_sum P es = sum_list (map (\<lambda>e. if P e then sint (e_amount e) else 0) es)"

lemma entry_sum_simps [simp]:
  "entry_sum P [] = 0"
  "entry_sum P (e # es) = (if P e then sint (e_amount e) else 0) + entry_sum P es"
  "entry_sum P (es @ fs) = entry_sum P es + entry_sum P fs"
  by (simp_all add: entry_sum_def)

lemma asset_total_eq: "asset_total db i a = entry_sum (\<lambda>e. e_tx e = i \<and> e_asset e = a) (entries db)"
  by (simp add: asset_total_def entry_sum_def)

text \<open>Every transaction of the books sums to zero in every asset.\<close>

definition balanced :: "ledger_db \<Rightarrow> bool" where
  "balanced db \<longleftrightarrow> (\<forall>i a. asset_total db i a = 0)"

text \<open>Every line is non-zero, belongs to a recorded transaction and touches an account of its org.\<close>

definition lines_ok :: "ledger_db \<Rightarrow> bool" where
  "lines_ok db \<longleftrightarrow> (\<forall>e \<in> set (entries db). e_amount e \<noteq> 0 \<and>
     (\<exists>t \<in> set (transactions db). tx_id t = e_tx e \<and>
       (\<exists>a \<in> set (accounts db). acc_id a = e_account e \<and> acc_org a = tx_org t)))"

text \<open>The derived balances are the sums of the entries, and only counterparties are negative.\<close>

definition balances_ok :: "ledger_db \<Rightarrow> bool" where
  "balances_ok db \<longleftrightarrow>
     (\<forall>a s. bal db a s = entry_sum (\<lambda>e. e_account e = a \<and> e_asset e = s) (entries db))"

definition signs_ok :: "ledger_db \<Rightarrow> bool" where
  "signs_ok db \<longleftrightarrow>
     (\<forall>r \<in> set (accounts db). \<not> allows_negative r \<longrightarrow> (\<forall>s. 0 \<le> bal db (acc_id r) s))"

definition ids_ok :: "ledger_db \<Rightarrow> bool" where
  "ids_ok db \<longleftrightarrow> distinct (map tx_id (transactions db))
     \<and> distinct (map (\<lambda>t. (tx_org t, tx_key t)) (transactions db))
     \<and> distinct (map acc_id (accounts db)) \<and> (\<forall>a \<in> set (accounts db). account_checks a)
     \<and> (\<forall>t \<in> set (transactions db). sint (tx_id t) \<le> sint (tx_seq db))
     \<and> (\<forall>a \<in> set (accounts db). sint (acc_id a) \<le> sint (account_seq db))"

definition books_ok :: "ledger_db \<Rightarrow> bool" where
  "books_ok db \<longleftrightarrow> balanced db \<and> lines_ok db \<and> balances_ok db \<and> signs_ok db \<and> ids_ok db"

text \<open>The tables without the sequences.\<close>

definition books :: "ledger_db \<Rightarrow> ledger_db" where
  "books db = db\<lparr>tx_seq := 0, account_seq := 0, asset_seq := 0\<rparr>"

lemma next_id_gt: "next_id s = Some i \<Longrightarrow> sint s < sint i"
  by (auto simp: next_id_def split: if_splits)

lemma distinct_map_eq: "distinct (map f xs) \<Longrightarrow> x \<in> set xs \<Longrightarrow> y \<in> set xs \<Longrightarrow> f x = f y \<Longrightarrow> x = y"
  by (auto simp: distinct_map inj_on_def)

section \<open>One line\<close>

lemma insert_entry_Inr:
  assumes "insert_entry e db = Inr db'"
  obtains r w where "find_account db (e_account e) = Some r" "e_amount e \<noteq> 0"
    "sint w = bal db (e_account e) (e_asset e) + sint (e_amount e)"
    "sint w < 0 \<longrightarrow> allows_negative r"
    "db' = db\<lparr>entries := entries db @ [e],
       balances := (balances db)((e_account e, e_asset e) := Some w)\<rparr>"
proof -
  define new where "new = bal db (e_account e) (e_asset e) + sint (e_amount e)"
  have new: "(case balances db (e_account e, e_asset e) of None \<Rightarrow> sint (e_amount e)
      | Some b \<Rightarrow> sint b + sint (e_amount e)) = new"
    by (simp add: new_def bal_def split: option.split)
  obtain r where r: "find_account db (e_account e) = Some r" "e_amount e \<noteq> 0"
    "apply_to_balance r e (db\<lparr>entries := entries db @ [e]\<rparr>) = Inr db'"
    using assms by (auto simp: insert_entry_def split: if_splits option.splits)
  then have f: "in_int64 new" "new < 0 \<longrightarrow> allows_negative r"
    "db' = db\<lparr>entries := entries db @ [e],
       balances := (balances db)((e_account e, e_asset e) := Some (word_of_int new))\<rparr>"
    by (auto simp: apply_to_balance_def Let_def new split: if_splits)
  have "sint (word_of_int new :: int64) = new" using f(1) by (simp only: sint_word_of_int64 wrap64_id)
  then show thesis using that r(1,2) f(2,3) new_def by metis
qed

lemma bal_after:
  "bal (db\<lparr>entries := es, balances := (balances db)((x, y) := Some w)\<rparr>) a s =
    (if a = x \<and> s = y then sint w else bal db a s)"
  by (auto simp: bal_def)

lemma insert_entry_balances:
  assumes "insert_entry e db = Inr db'" "balances_ok db"
  shows "balances_ok db'"
proof (rule insert_entry_Inr [OF assms(1)])
  fix r w
  assume "sint w = bal db (e_account e) (e_asset e) + sint (e_amount e)"
    "db' = db\<lparr>entries := entries db @ [e],
       balances := (balances db)((e_account e, e_asset e) := Some w)\<rparr>"
  then show ?thesis using assms(2) by (auto simp: balances_ok_def bal_after)
qed

lemma insert_entry_signs:
  assumes "insert_entry e db = Inr db'" "signs_ok db" "distinct (map acc_id (accounts db))"
  shows "signs_ok db'"
proof (rule insert_entry_Inr [OF assms(1)])
  fix r w
  assume r: "find_account db (e_account e) = Some r"
    and new: "sint w < 0 \<longrightarrow> allows_negative r"
    and db': "db' = db\<lparr>entries := entries db @ [e],
       balances := (balances db)((e_account e, e_asset e) := Some w)\<rparr>"
  have "q = r" if "q \<in> set (accounts db)" "acc_id q = e_account e" for q
    using that find_in_set [OF r [unfolded find_account_def]] distinct_map_eq [OF assms(3), of q r]
    by simp
  then have "0 \<le> bal db' (acc_id q) s" if "q \<in> set (accounts db)" "\<not> allows_negative q" for q s
    using assms(2) new that by (auto simp: signs_ok_def db' bal_after)
  then show ?thesis by (simp add: signs_ok_def db')
qed

lemma insert_entry_frame:
  assumes "insert_entry e db = Inr db'"
  shows "entries db' = entries db @ [e]" "accounts db' = accounts db" "transactions db' = transactions db"
    "orgs db' = orgs db" "assets db' = assets db" "tx_seq db' = tx_seq db"
    "account_seq db' = account_seq db" "asset_seq db' = asset_seq db"
  by (rule insert_entry_Inr [OF assms]; simp)+

lemma insert_entries_frame:
  assumes "insert_entries i ps db = Inr db'"
  shows "entries db' = entries db @ map (entry_of i) ps" "accounts db' = accounts db"
    "transactions db' = transactions db" "orgs db' = orgs db" "assets db' = assets db"
    "tx_seq db' = tx_seq db" "account_seq db' = account_seq db" "asset_seq db' = asset_seq db"
  using assms
  by (induction ps arbitrary: db) (auto simp: insert_entry_frame split: sum.splits)

lemma insert_entries_ok:
  assumes "insert_entries i ps db = Inr db'" "balances_ok db" "signs_ok db"
    "distinct (map acc_id (accounts db))"
  shows "balances_ok db' \<and> signs_ok db' \<and>
    (\<forall>p \<in> set ps. Amount p \<noteq> 0 \<and> (\<exists>r \<in> set (accounts db). acc_id r = Account p))"
  using assms
proof (induction ps arbitrary: db)
  case (Cons p ps)
  then obtain db1 where 1: "insert_entry (entry_of i p) db = Inr db1" "insert_entries i ps db1 = Inr db'"
    by (auto split: sum.splits)
  have p: "Amount p \<noteq> 0 \<and> (\<exists>r \<in> set (accounts db). acc_id r = Account p)"
    by (rule insert_entry_Inr [OF 1(1)]) (auto simp: entry_of_def find_account_def dest: find_in_set)
  have "balances_ok db1" "signs_ok db1" "accounts db1 = accounts db"
    using insert_entry_balances [OF 1(1)] insert_entry_signs [OF 1(1)] insert_entry_frame [OF 1(1)] Cons.prems
    by auto
  then show ?case using Cons.IH [OF 1(2)] Cons.prems p by auto
qed auto

section \<open>A whole transaction\<close>

text \<open>The ways a posting ends: refused, recognised as a replay, or recorded.\<close>

lemma Post_cases:
  assumes "Post pf req db = (res, db')"
  obtains
    (refused) e s where "res = Inl e" "db' = db\<lparr>tx_seq := s\<rparr>" "sint (tx_seq db) \<le> sint s"
  | (replayed) t s where "res = Inr (tx_id t)" "db' = db\<lparr>tx_seq := s\<rparr>" "sint (tx_seq db) \<le> sint s"
      "find_key db (Org req) (IdempotencyKey req) = Some t"
      "tx_fingerprint t = fingerprint (sha256 pf) req"
      "storable_tx pf (tx_row pf req s)" "tx_checks (tx_row pf req s)"
  | (recorded) i where "res = Inr i" "validate (map_order pf) req = None"
      "next_id (tx_seq db) = Some i" "find_key db (Org req) (IdempotencyKey req) = None"
      "insert_entries i (Postings req)
         (db\<lparr>tx_seq := i, transactions := transactions db @ [tx_row pf req i]\<rparr>) = Inr db'"
      "commit_checks db' i = None"
      "storable_tx pf (tx_row pf req i)" "tx_checks (tx_row pf req i)" "Org req \<in> set (orgs db)"
proof (cases "validate (map_order pf) req")
  case (Some e)
  then show thesis using assms refused [of e "tx_seq db"] by (simp add: Post_def)
next
  case v: None
  show thesis
  proof (cases "next_id (tx_seq db)")
    case None
    then show thesis
      using assms v refused [of _ "tx_seq db"] by (auto simp: Post_def insert_transaction_def)
  next
    case (Some i)
    let ?t = "tx_row pf req i"
    let ?db1 = "db\<lparr>tx_seq := i, transactions := transactions db @ [?t]\<rparr>"
    have i: "sint (tx_seq db) \<le> sint i" using next_id_gt [OF Some] by simp
    note P = Post_def insert_transaction_def v Some Let_def
    consider (unstored) "\<not> storable_tx pf ?t" | (checks) "storable_tx pf ?t" "\<not> tx_checks ?t"
      | (key) t where "storable_tx pf ?t" "tx_checks ?t" "find_key db (Org req) (IdempotencyKey req) = Some t"
      | (org) "storable_tx pf ?t" "tx_checks ?t" "find_key db (Org req) (IdempotencyKey req) = None"
          "Org req \<notin> set (orgs db)"
      | (new) "storable_tx pf ?t" "tx_checks ?t" "find_key db (Org req) (IdempotencyKey req) = None"
          "Org req \<in> set (orgs db)"
      by (metis not_Some_eq)
    then show thesis
    proof cases
      case unstored
      then show thesis using assms refused [of _ "tx_seq db"] by (auto simp: P)
    next
      case checks
      then show thesis using assms refused [of _ i] i by (auto simp: P)
    next
      case (key t)
      have "find_key (db\<lparr>tx_seq := i\<rparr>) (Org req) (IdempotencyKey req) = Some t"
        using key by (simp add: find_key_def)
      then show thesis
        using assms key i refused [of _ i] replayed [of t i]
        by (auto simp: P resolveReplay_def split: if_splits)
    next
      case org
      then show thesis using assms refused [of _ i] i by (auto simp: P)
    next
      case new
      have d: "db\<lparr>tx_seq := i, transactions := transactions db @ [?t]\<rparr> = ?db1" by simp
      show thesis
      proof (cases "insert_entries i (Postings req) ?db1")
        case (Inl e)
        then show thesis using assms new refused [of e i] i by (auto simp: P)
      next
        case (Inr db2)
        then show thesis
          using assms new i refused [of _ i] recorded [of i] v Some
          by (cases "commit_checks db2 i") (auto simp: P)
      qed
    qed
  qed
qed

lemma Post_refused_books:
  "Post pf req db = (Inl e, db') \<Longrightarrow> books db' = books db"
  by (erule Post_cases) (auto simp: books_def)

lemma books_ok_frame:
  assumes "books_ok db" "entries db' = entries db" "balances db' = balances db"
    "transactions db' = transactions db" "set (accounts db) \<subseteq> set (accounts db')" "signs_ok db'" "ids_ok db'"
  shows "books_ok db'"
proof -
  have "balanced db'" "balances_ok db'"
    using assms by (simp_all add: books_ok_def balanced_def asset_total_def balances_ok_def bal_def)
  moreover have "lines_ok db'" using assms(1,2,4,5) unfolding books_ok_def lines_ok_def by (metis subsetD)
  ultimately show ?thesis using assms(6,7) by (simp add: books_ok_def)
qed

lemma signs_ok_frame:
  "signs_ok db \<Longrightarrow> balances db' = balances db \<Longrightarrow> accounts db' = accounts db \<Longrightarrow> signs_ok db'"
  by (simp add: signs_ok_def bal_def)

lemma books_ok_seq:
  assumes "books_ok db" "sint (tx_seq db) \<le> sint s"
  shows "books_ok (db\<lparr>tx_seq := s\<rparr>)"
proof -
  have "ids_ok (db\<lparr>tx_seq := s\<rparr>)" using assms by (auto simp: books_ok_def ids_ok_def dest: order_trans)
  moreover have "signs_ok (db\<lparr>tx_seq := s\<rparr>)" using assms(1) signs_ok_frame [of db] by (simp add: books_ok_def)
  ultimately show ?thesis by (intro books_ok_frame [OF assms(1)]) simp_all
qed

lemma entry_sum_none: "\<forall>e \<in> set es. \<not> P e \<Longrightarrow> entry_sum P es = 0"
  by (induction es) auto

lemma commit_balanced:
  assumes "commit_checks db i = None"
  shows "asset_total db i a = 0"
proof (cases "\<exists>e \<in> set (entries db). e_tx e = i \<and> e_asset e = a")
  case True
  moreover have "unbalanced_asset db i = None"
    using assms by (auto simp: commit_checks_def split: option.splits)
  ultimately show ?thesis by (auto simp: unbalanced_asset_def find_None_iff)
next
  case False
  then show ?thesis by (auto simp: asset_total_eq intro: entry_sum_none)
qed

lemma commit_single_org:
  assumes "commit_checks db i = None" "e \<in> set (entries db)" "e_tx e = i"
    "a \<in> set (accounts db)" "acc_id a = e_account e" "t \<in> set (transactions db)" "tx_id t = i"
  shows "acc_org a = tx_org t"
  using assms by (auto simp: commit_checks_def touches_other_org_def list_ex_iff split: option.splits if_splits)

text \<open>What a recorded transaction adds to well-formed books keeps them well-formed.\<close>

lemma recorded_books_ok:
  assumes ok: "books_ok db" and i: "next_id (tx_seq db) = Some i"
    and key: "find_key db (Org req) (IdempotencyKey req) = None"
    and ins: "insert_entries i (Postings req)
         (db\<lparr>tx_seq := i, transactions := transactions db @ [tx_row pf req i]\<rparr>) = Inr db'"
    and com: "commit_checks db' i = None"
  shows "books_ok db'"
proof -
  let ?t = "tx_row pf req i" and ?new = "map (entry_of i) (Postings req)"
  let ?db1 = "db\<lparr>tx_seq := i, transactions := transactions db @ [?t]\<rparr>"
  note fr = insert_entries_frame [OF ins, simplified]
  have fresh: "tx_id t \<noteq> i" "sint (tx_id t) < sint i" if "t \<in> set (transactions db)" for t
    using ok next_id_gt [OF i] that by (fastforce simp: books_ok_def ids_ok_def)+
  have fresh_e: "e_tx e \<noteq> i" if "e \<in> set (entries db)" for e
    using ok fresh that by (fastforce simp: books_ok_def lines_ok_def)
  have t: "tx_id ?t = i" "tx_org ?t = Org req" "tx_key ?t = IdempotencyKey req"
    by (simp_all add: tx_row_def)
  have "asset_total db' j a = 0" for j a
  proof (cases "j = i")
    case False
    have "entry_sum (\<lambda>e. e_tx e = j \<and> e_asset e = a) ?new = 0"
      using False by (intro entry_sum_none) (auto simp: entry_of_def)
    then show ?thesis using ok fr(1) by (simp add: books_ok_def balanced_def asset_total_eq)
  qed (simp add: commit_balanced [OF com])
  then have bal: "balanced db'" by (simp add: balanced_def)
  have "balances_ok ?db1" "signs_ok ?db1" "distinct (map acc_id (accounts ?db1))"
    using ok by (auto simp: books_ok_def balances_ok_def signs_ok_def ids_ok_def bal_def)
  note new = insert_entries_ok [OF ins this, simplified]
  have lines: "lines_ok db'"
    unfolding lines_ok_def
  proof
    fix e assume "e \<in> set (entries db')"
    then consider "e \<in> set (entries db)" | p where "p \<in> set (Postings req)" "e = entry_of i p"
      using fr(1) by auto
    then show "e_amount e \<noteq> 0 \<and> (\<exists>t \<in> set (transactions db'). tx_id t = e_tx e \<and>
       (\<exists>a \<in> set (accounts db'). acc_id a = e_account e \<and> acc_org a = tx_org t))"
    proof cases
      case 1
      then show ?thesis using ok fr(2,3) by (fastforce simp: books_ok_def lines_ok_def)
    next
      case 2
      then obtain r where r: "r \<in> set (accounts db')" "acc_id r = Account p" "Amount p \<noteq> 0"
        using new fr(2) by fastforce
      have "acc_org r = tx_org ?t"
        using 2 r fr(1,3) t(1) by (intro commit_single_org [OF com, of e]) (auto simp: entry_of_def)
      then show ?thesis using 2 r fr(3) t(1) by (auto simp: entry_of_def)
    qed
  qed
  have "(Org req, IdempotencyKey req) \<notin> (\<lambda>t. (tx_org t, tx_key t)) ` set (transactions db)"
    using key by (auto simp: find_key_def find_None_iff)
  then have "ids_ok db'"
    using ok fresh t unfolding books_ok_def ids_ok_def fr
    by (auto simp: fr image_iff dest: less_imp_le)
  then show ?thesis using bal lines new by (simp add: books_ok_def)
qed

lemma Post_books_ok:
  assumes "books_ok db" "Post pf req db = (res, db')"
  shows "books_ok db'"
  using assms(2)
proof (cases rule: Post_cases)
  case (recorded i)
  then show ?thesis using recorded_books_ok assms(1) by blast
qed (auto intro: books_ok_seq assms(1))

section \<open>Accounts\<close>

lemma match_conflict:
  "account_checks (new_account i org kind ownerRef name)
   \<Longrightarrow> account_match pf (new_account i org kind ownerRef name) r
   \<Longrightarrow> account_conflict pf (new_account i org kind ownerRef name) r"
  by (cases kind) (auto simp: account_match_def account_conflict_def account_checks_def new_account_def
      singleton_kind_def coalesce_def split: option.splits if_splits)

lemma conflict_match:
  "account_checks n \<Longrightarrow> account_checks r \<Longrightarrow> account_conflict pf n r \<Longrightarrow> account_match pf n r"
  by (cases "acc_kind n") (simp_all add: account_match_def account_conflict_def account_checks_def singleton_kind_def coalesce_def)

lemma match_new_account: "account_match pf (new_account i org k ow nm) = account_match pf (new_account j org k ow nm)"
  by (simp add: account_match_def new_account_def fun_eq_iff)

lemma checks_new_account: "account_checks (new_account i org k ow nm) = account_checks (new_account j org k ow nm)"
  by (simp add: account_checks_def new_account_def)

lemma EnsureAccount_cases:
  assumes "EnsureAccount pf org kind ownerRef name db = (res, db')"
  obtains
    (same) s where "db' = db\<lparr>account_seq := s\<rparr>" "sint (account_seq db) \<le> sint s"
      "\<forall>i. res = Inr i \<longrightarrow> (\<exists>r. find (account_match pf (new_account s org kind ownerRef name)) (accounts db) = Some r
         \<and> acc_id r = i \<and> account_checks (new_account s org kind ownerRef name))"
  | (new) i where "res = Inr i" "next_id (account_seq db) = Some i"
      "account_checks (new_account i org kind ownerRef name)"
      "\<forall>r \<in> set (accounts db). \<not> account_match pf (new_account i org kind ownerRef name) r"
      "db' = db\<lparr>account_seq := i, accounts := accounts db @ [new_account i org kind ownerRef name]\<rparr>"
proof (cases "org = 0 \<or> \<not> text_ok pf ownerRef \<or> \<not> text_ok pf name \<or> next_id (account_seq db) = None")
  case True
  then show thesis
    using assms same [of "account_seq db"] by (auto simp: EnsureAccount_def split: if_splits option.splits)
next
  case False
  then obtain i where i: "next_id (account_seq db) = Some i" by auto
  let ?n = "new_account i org kind ownerRef name"
  have le: "sint (account_seq db) \<le> sint i" using next_id_gt [OF i] by simp
  have E: "EnsureAccount pf org kind ownerRef name db =
    (if \<not> account_checks ?n then (Inl (Database CheckViolation), db\<lparr>account_seq := i\<rparr>)
     else if list_ex (account_conflict pf ?n) (accounts db)
          then (case find (account_match pf ?n) (accounts db) of
                  None \<Rightarrow> (Inl (Database NoRows), db\<lparr>account_seq := i\<rparr>)
                | Some r \<Rightarrow> (Inr (acc_id r), db\<lparr>account_seq := i\<rparr>))
     else if org \<notin> set (orgs db) then (Inl (Database ForeignKeyViolation), db\<lparr>account_seq := i\<rparr>)
     else (Inr i, db\<lparr>account_seq := i, accounts := accounts db @ [?n]\<rparr>))"
    using False i by (simp add: EnsureAccount_def Let_def)
  show thesis
  proof (cases "account_checks ?n \<and> \<not> list_ex (account_conflict pf ?n) (accounts db) \<and> org \<in> set (orgs db)")
    case True
    then show thesis
      using assms i match_conflict [of i org kind ownerRef name pf] by (intro new [of i]) (auto simp: E list_ex_iff)
  next
    case False
    then show thesis
      using assms le by (intro same [of i]) (auto simp: E split: if_splits option.splits)
  qed
qed

lemma EnsureAccount_books_ok:
  assumes ok: "books_ok db" and E: "EnsureAccount pf org kind ownerRef name db = (res, db')"
  shows "books_ok db'"
  using E
proof (cases rule: EnsureAccount_cases)
  case (same s)
  have "ids_ok db'" using ok same by (auto simp: books_ok_def ids_ok_def dest: order_trans)
  moreover have "signs_ok db'" using ok signs_ok_frame [of db db'] same(1) by (simp add: books_ok_def)
  ultimately show ?thesis using same(1) by (intro books_ok_frame [OF ok]) simp_all
next
  case (new i)
  let ?n = "new_account i org kind ownerRef name"
  have id: "acc_id ?n = i" by (simp add: new_account_def)
  have fresh: "sint (acc_id a) < sint i" if "a \<in> set (accounts db)" for a
    using ok next_id_gt [OF new(2)] that by (fastforce simp: books_ok_def ids_ok_def)
  have "e_account e \<noteq> i" if "e \<in> set (entries db)" for e
    using ok fresh that by (fastforce simp: books_ok_def lines_ok_def)
  then have "bal db i s = 0" for s
    using ok by (auto simp: books_ok_def balances_ok_def intro: entry_sum_none)
  then have "signs_ok db'" using ok by (auto simp: books_ok_def signs_ok_def new id bal_def)
  moreover have "ids_ok db'"
    using ok new(3) fresh unfolding books_ok_def ids_ok_def
    by (auto simp: new(5) id less_imp_le)
  ultimately show ?thesis using new(5) by (intro books_ok_frame [OF ok]) auto
qed

lemma EnsureAsset_frame:
  assumes "EnsureAsset pf code issuer db = (res, db')"
  obtains s xs where "db' = db\<lparr>asset_seq := s, assets := assets db @ xs\<rparr>"
proof -
  have "db' = db \<or> (\<exists>s. db' = db\<lparr>asset_seq := s\<rparr>) \<or> (\<exists>s x. db' = db\<lparr>asset_seq := s, assets := assets db @ [x]\<rparr>)"
    using assms by (auto simp: EnsureAsset_def Let_def split: if_splits option.splits)
  then consider "db' = db" | s where "db' = db\<lparr>asset_seq := s\<rparr>"
    | s x where "db' = db\<lparr>asset_seq := s, assets := assets db @ [x]\<rparr>" by blast
  then show thesis
  proof cases
    case 1
    then show thesis by (intro that [where s = "asset_seq db" and xs = "[]"]) simp
  next
    case (2 s)
    then show thesis by (intro that [where s = s and xs = "[]"]) simp
  qed (rule that)
qed

section \<open>Reachable ledgers\<close>

text \<open>The database after the migrations: the native asset and nothing else.\<close>

definition ledger_init :: ledger_db where
  "ledger_init =
     \<lparr>orgs = [], assets = [\<lparr>asset_id = 1, asset_code = ''XLM'', asset_issuer = None, is_native = True\<rparr>],
      accounts = [], transactions = [], entries = [], balances = (\<lambda>_. None),
      asset_seq = 1, account_seq = 0, tx_seq = 0\<rparr>"

text \<open>One call of the package, or another package registering an org.\<close>

inductive ledger_step :: "platform \<Rightarrow> ledger_db \<Rightarrow> ledger_db \<Rightarrow> bool" for pf where
  step_org: "ledger_step pf db (db\<lparr>orgs := org # orgs db\<rparr>)"
| step_post: "Post pf req db = (res, db') \<Longrightarrow> ledger_step pf db db'"
| step_asset: "EnsureAsset pf code issuer db = (res2, db') \<Longrightarrow> ledger_step pf db db'"
| step_account: "EnsureAccount pf org kind ownerRef name db = (res3, db') \<Longrightarrow> ledger_step pf db db'"

inductive_cases ledger_stepE: "ledger_step pf db db'"

lemma books_ok_init: "books_ok ledger_init"
  by (simp add: books_ok_def ledger_init_def balanced_def asset_total_def lines_ok_def balances_ok_def
      bal_def signs_ok_def ids_ok_def)

lemma step_books_ok:
  assumes "ledger_step pf db db'" and ok: "books_ok db"
  shows "books_ok db'"
  using assms(1)
proof cases
  case (step_org org)
  then show ?thesis using ok by (intro books_ok_frame [OF ok]) (auto simp: books_ok_def signs_ok_def ids_ok_def bal_def)
next
  case (step_asset code issuer res)
  from step_asset(1) obtain s xs where "db' = db\<lparr>asset_seq := s, assets := assets db @ xs\<rparr>"
    by (rule EnsureAsset_frame)
  then show ?thesis using ok by (intro books_ok_frame [OF ok]) (auto simp: books_ok_def signs_ok_def ids_ok_def bal_def)
qed (auto intro: Post_books_ok EnsureAccount_books_ok ok)

lemma steps_books_ok: "(ledger_step pf)\<^sup>*\<^sup>* db db' \<Longrightarrow> books_ok db \<Longrightarrow> books_ok db'"
  by (induction rule: rtranclp_induct) (auto intro: step_books_ok)

text \<open>
  C2: whatever sequence of postings and registrations the ledger has been through, accepted or
  refused, every transaction sums to zero in every asset, every line is non-zero and touches an
  account of its own org, the balance table is the sum of the entries, and no account but a
  counterparty is negative.
\<close>

theorem reachable_books:
  assumes "(ledger_step pf)\<^sup>*\<^sup>* ledger_init db"
  shows "balanced db \<and> lines_ok db \<and> balances_ok db \<and> signs_ok db"
  using steps_books_ok [OF assms books_ok_init] by (simp add: books_ok_def)

lemma entry_sum_swap:
  assumes "distinct ks"
  shows "sum_list (map (\<lambda>k. entry_sum (\<lambda>e. f e = k \<and> P e) es) ks) = entry_sum (\<lambda>e. f e \<in> set ks \<and> P e) es"
proof (induction es)
  case (Cons e es)
  have "sum_list (map (\<lambda>k. if f e = k \<and> P e then x else 0) ks) = (if f e \<in> set ks \<and> P e then x else 0)" for x :: int
    using assms by (induction ks) auto
  then show ?case using Cons.IH by (simp add: sum_list_addf)
qed (simp add: entry_sum_def)

lemma entry_sum_cong: "(\<And>e. e \<in> set es \<Longrightarrow> P e \<longleftrightarrow> Q e) \<Longrightarrow> entry_sum P es = entry_sum Q es"
  by (simp add: entry_sum_def cong: map_cong)

lemma org_total_zero:
  assumes "books_ok db"
  shows "sum_list (map (\<lambda>a. bal db (acc_id a) s) (filter (\<lambda>a. acc_org a = org) (accounts db))) = 0"
proof -
  let ?as = "map acc_id (filter (\<lambda>a. acc_org a = org) (accounts db))"
  let ?ts = "map tx_id (filter (\<lambda>t. tx_org t = org) (transactions db))"
  have d: "distinct (map acc_id (accounts db))" "distinct (map tx_id (transactions db))"
    using assms by (auto simp: books_ok_def ids_ok_def)
  then have d': "distinct ?as" "distinct ?ts" by (simp_all add: distinct_map_filter)
  have "e_account e \<in> set ?as \<longleftrightarrow> e_tx e \<in> set ?ts" if e: "e \<in> set (entries db)" for e
  proof -
    obtain t a where "t \<in> set (transactions db)" "tx_id t = e_tx e" "a \<in> set (accounts db)"
      "acc_id a = e_account e" "acc_org a = tx_org t"
      using assms e by (fastforce simp: books_ok_def lines_ok_def)
    then show ?thesis using d by (auto simp: image_iff dest: distinct_map_eq) (metis distinct_map_eq)+
  qed
  then have "entry_sum (\<lambda>e. e_account e \<in> set ?as \<and> e_asset e = s) (entries db) =
    entry_sum (\<lambda>e. e_tx e \<in> set ?ts \<and> e_asset e = s) (entries db)"
    by (intro entry_sum_cong) simp
  also have "\<dots> = sum_list (map (\<lambda>i. asset_total db i s) ?ts)"
    unfolding asset_total_eq by (rule entry_sum_swap [OF d'(2), symmetric])
  also have "\<dots> = 0" using assms by (simp add: books_ok_def balanced_def comp_def)
  finally show ?thesis
    using assms entry_sum_swap [OF d'(1), of e_account "\<lambda>e. e_asset e = s" "entries db"]
    by (simp add: books_ok_def balances_ok_def comp_def)
qed

lemma Balance_eq:
  "sint (Balance db org a s) =
     (if \<exists>r \<in> set (accounts db). acc_id r = a \<and> acc_org r = org then bal db a s else 0)"
  by (auto simp: Balance_def bal_def list_ex_iff split: option.split)

text \<open>
  C25: value is conserved within each tenant.  The balances the ledger reports for all the accounts
  of an org add up to zero in every asset: what its members and treasuries hold is exactly what its
  counterparty accounts owe.
\<close>

theorem org_conserves_value:
  assumes "(ledger_step pf)\<^sup>*\<^sup>* ledger_init db"
  shows "sum_list (map (\<lambda>a. sint (Balance db org (acc_id a) s))
      (filter (\<lambda>a. acc_org a = org) (accounts db))) = 0"
proof -
  have "map (\<lambda>a. sint (Balance db org (acc_id a) s)) (filter (\<lambda>a. acc_org a = org) (accounts db))
    = map (\<lambda>a. bal db (acc_id a) s) (filter (\<lambda>a. acc_org a = org) (accounts db))"
    by (auto simp: Balance_eq)
  then show ?thesis by (simp only: org_total_zero [OF steps_books_ok [OF assms books_ok_init]])
qed

text \<open>
  The balance reported for an account is the sum of its entries, and an account of another
  tenant reads as zero.
\<close>

theorem Balance_reads_entries:
  assumes "(ledger_step pf)\<^sup>*\<^sup>* ledger_init db"
  shows "sint (Balance db org a s) =
    (if \<exists>r \<in> set (accounts db). acc_id r = a \<and> acc_org r = org
     then entry_sum (\<lambda>e. e_account e = a \<and> e_asset e = s) (entries db) else 0)"
  using steps_books_ok [OF assms books_ok_init] by (auto simp: Balance_eq books_ok_def balances_ok_def)

section \<open>Retries\<close>

lemma step_append_only:
  assumes "ledger_step pf db db'"
  shows "prefix (transactions db) (transactions db') \<and> prefix (entries db) (entries db')
    \<and> prefix (accounts db) (accounts db')"
  using assms
proof cases
  case (step_post req res)
  from step_post(1) show ?thesis
  proof (cases rule: Post_cases)
    case (recorded i)
    then show ?thesis using insert_entries_frame [OF recorded(5)] by simp
  qed simp_all
next
  case (step_asset code issuer res)
  from step_asset(1) obtain s xs where "db' = db\<lparr>asset_seq := s, assets := assets db @ xs\<rparr>"
    by (rule EnsureAsset_frame)
  then show ?thesis by simp
next
  case (step_account org kind ownerRef name res)
  from step_account(1) show ?thesis by (cases rule: EnsureAccount_cases) simp_all
qed simp

lemma steps_append_only:
  assumes "(ledger_step pf)\<^sup>*\<^sup>* db db'"
  shows "prefix (transactions db) (transactions db') \<and> prefix (entries db) (entries db')
    \<and> prefix (accounts db) (accounts db')"
  using assms
proof (induction rule: rtranclp_induct)
  case (step db1 db2)
  then show ?case using step_append_only [OF step(2)] by (meson prefix_order.trans)
qed simp

lemma find_prefix: "prefix xs ys \<Longrightarrow> find P xs = Some x \<Longrightarrow> find P ys = Some x"
proof -
  have "find P xs = Some x \<Longrightarrow> find P (xs @ zs) = Some x" for zs
    by (induction xs) auto
  then show "prefix xs ys \<Longrightarrow> find P xs = Some x \<Longrightarrow> find P ys = Some x" by (auto simp: prefix_def)
qed

lemma find_append_none: "find P xs = None \<Longrightarrow> P x \<Longrightarrow> find P (xs @ [x]) = Some x"
  by (induction xs) (auto split: if_splits)

text \<open>A posting that succeeded, new or replayed, is found under its key, with its fingerprint.\<close>

lemma Post_found:
  assumes "Post pf req db = (Inr i, db')"
  obtains t where "find_key db' (Org req) (IdempotencyKey req) = Some t" "tx_id t = i"
    "tx_fingerprint t = fingerprint (sha256 pf) req" "\<And>j. storable_tx pf (tx_row pf req j)"
    "\<And>j. tx_checks (tx_row pf req j)"
  using assms
proof (cases rule: Post_cases)
  case (replayed t s)
  then show thesis
    by (intro that [of t]) (auto simp: find_key_def storable_tx_def tx_checks_def tx_row_def)
next
  case (recorded k)
  then have "transactions db' = transactions db @ [tx_row pf req k]"
    using insert_entries_frame(3) [OF recorded(5)] by simp
  then have "find_key db' (Org req) (IdempotencyKey req) = Some (tx_row pf req k)"
    using recorded(4) by (simp add: find_key_def find_append_none tx_row_def)
  then show thesis
    using recorded by (intro that [of "tx_row pf req k"]) (auto simp: storable_tx_def tx_checks_def tx_row_def)
qed simp

lemma Post_replay:
  assumes "find_key db (Org req) (IdempotencyKey req) = Some t" "next_id (tx_seq db) = Some j"
    "validate (map_order pf) req = None" "storable_tx pf (tx_row pf req j)" "tx_checks (tx_row pf req j)"
  shows "Post pf req db =
    (if tx_fingerprint t = fingerprint (sha256 pf) req then Inr (tx_id t)
     else Inl (ErrIdempotencyKeyReused (tx_id t)), db\<lparr>tx_seq := j\<rparr>)"
proof -
  have "find_key (db\<lparr>tx_seq := j\<rparr>) (Org req) (IdempotencyKey req) = Some t"
    using assms(1) by (simp add: find_key_def)
  then show ?thesis
    using assms by (simp add: Post_def insert_transaction_def Let_def resolveReplay_def)
qed

text \<open>Lines in an order in which the running total of every asset stays within 64 bits.\<close>

definition totals_fit :: "Posting list \<Rightarrow> bool" where
  "totals_fit ps \<longleftrightarrow> (\<forall>a k. in_int64 (sum_list (map sint (take k (amounts_of ps a)))))"

lemma Sum_fits: "Sum xs = Inr r \<longleftrightarrow> sint r = sum_list (map sint xs) \<and> (\<forall>k. in_int64 (sum_list (map sint (take k xs))))"
proof -
  have "(\<forall>k \<le> length xs. in_int64 (sum_list (map sint (take k xs)))) \<longleftrightarrow> (\<forall>k. in_int64 (sum_list (map sint (take k xs))))"
    by (metis nat_le_linear order_refl take_all)
  then show ?thesis by (simp add: Sum_def Sum_from_iff)
qed

lemma Sum_refused: "Sum xs = Inl e \<Longrightarrow> e = ErrOverflow"
proof -
  have "Sum_from acc xs = Inl e \<Longrightarrow> e = ErrOverflow" for acc
    by (induction xs arbitrary: acc) (auto simp: Add_def Let_def split: sum.splits if_splits)
  then show "Sum xs = Inl e \<Longrightarrow> e = ErrOverflow" by (simp add: Sum_def)
qed

lemma check_assets_overflow:
  assumes "check_assets ps xs = Some e" "\<And>a t. a \<in> set xs \<Longrightarrow> Sum (amounts_of ps a) = Inr t \<Longrightarrow> t = 0"
  shows "\<exists>a. e = ErrSum a ErrOverflow"
  using assms
proof (induction xs)
  case (Cons x xs)
  show ?case
  proof (cases "Sum (amounts_of ps x)")
    case (Inl m)
    then show ?thesis using Cons.prems(1) Sum_refused by auto
  next
    case (Inr t)
    then have "t = 0" by (rule Cons.prems(2) [rotated]) simp
    then have "check_assets ps xs = Some e" using Cons.prems(1) Inr by (simp add: IsZero_def)
    then show ?thesis by (rule Cons.IH) (rule Cons.prems(2), simp_all)
  qed
qed simp

text \<open>Of a request that passed, its lines in another order pass too, unless a running total overflows on the way.\<close>

lemma validate_reordered:
  assumes "validate ord req = None" "mset ps = mset (Postings req)" and ord: "\<And>xs. set (ord xs) = set xs"
  shows "validate ord (req\<lparr>Postings := ps\<rparr>) = None \<longleftrightarrow> totals_fit ps"
    and "\<not> totals_fit ps \<Longrightarrow> \<exists>a. validate ord (req\<lparr>Postings := ps\<rparr>) = Some (ErrSum a ErrOverflow)"
proof -
  have S: "set ps = set (Postings req)" using assms(2) by (rule mset_eq_setD)
  have "mset (map sint (amounts_of ps a)) = mset (map sint (amounts_of (Postings req) a))" for a
    using assms(2) by (simp add: amounts_of_def)
  then have sum: "sum_list (map sint (amounts_of ps a)) = sum_list (map sint (amounts_of (Postings req) a))" for a
    by (metis sum_mset_sum_list)
  note v = assms(1) [unfolded validate_None [OF ord]]
  have none: "amounts_of ps a = []" if "a \<notin> Asset ` set ps" for a using that by (auto simp: amounts_of_def filter_empty_conv)
  have zero: "t = 0" if "a \<in> Asset ` set ps" "Sum (amounts_of ps a) = Inr t" for a t
  proof -
    have "Sum (amounts_of (Postings req) a) = Inr 0" using v that(1) S by blast
    then have "sint t = sint (0 :: stroops)" using that(2) sum [of a] unfolding Sum_fits by simp
    then show ?thesis by (rule signed_word_eqI)
  qed
  have "(\<forall>a \<in> Asset ` set ps. Sum (amounts_of ps a) = Inr 0) \<longleftrightarrow> totals_fit ps"
  proof
    assume all: "\<forall>a \<in> Asset ` set ps. Sum (amounts_of ps a) = Inr 0"
    have "in_int64 (sum_list (map sint (take k (amounts_of ps a))))" for a k
    proof (cases "a \<in> Asset ` set ps")
      case True
      then show ?thesis using all Sum_fits by blast
    qed (simp add: none in_int64_def)
    then show "totals_fit ps" by (simp add: totals_fit_def)
  next
    assume f: "totals_fit ps"
    show "\<forall>a \<in> Asset ` set ps. Sum (amounts_of ps a) = Inr 0"
    proof
      fix a assume "a \<in> Asset ` set ps"
      then have "Sum (amounts_of (Postings req) a) = Inr 0" using v S by blast
      then show "Sum (amounts_of ps a) = Inr 0" using f sum [of a] unfolding Sum_fits totals_fit_def by simp
    qed
  qed
  then show fit: "validate ord (req\<lparr>Postings := ps\<rparr>) = None \<longleftrightarrow> totals_fit ps"
    using v S unfolding validate_None [OF ord] by fastforce
  assume "\<not> totals_fit ps"
  with fit obtain e where e: "validate ord (req\<lparr>Postings := ps\<rparr>) = Some e" by auto
  have "zero_posting 1 ps = None" "ps \<noteq> []" using v S by (auto simp: zero_posting_None)
  then have "check_assets ps (ord (remdups (map Asset ps))) = Some e" using e v by (simp add: validate_def)
  then have "\<exists>a. e = ErrSum a ErrOverflow" by (rule check_assets_overflow) (use zero ord in auto)
  then show "\<exists>a. validate ord (req\<lparr>Postings := ps\<rparr>) = Some (ErrSum a ErrOverflow)" using e by auto
qed

text \<open>
  C24: a retry is safe.  Once a request has been posted, posting it again at any later time returns the same transaction and
  changes nothing in the books but the next number of a sequence.  The same holds with its lines in any other order in which
  the running total of every asset stays within 64 bits, as it does in the order first posted; in an order in which one does
  not, the retry is refused as an overflow and changes nothing at all.  The Go map of the assets visits each of its keys.
\<close>

theorem Post_retry_safe:
  assumes "Post pf req db = (Inr i, db1)" "(ledger_step pf)\<^sup>*\<^sup>* db1 db2" "mset ps = mset (Postings req)"
    and "next_id (tx_seq db2) = Some j" "\<And>xs. set (map_order pf xs) = set xs"
  shows "(totals_fit ps \<longrightarrow> Post pf (req\<lparr>Postings := ps\<rparr>) db2 = (Inr i, db2\<lparr>tx_seq := j\<rparr>))
    \<and> (\<not> totals_fit ps \<longrightarrow> (\<exists>a. Post pf (req\<lparr>Postings := ps\<rparr>) db2 = (Inl (ErrSum a ErrOverflow), db2)))
    \<and> totals_fit (Postings req)"
proof -
  let ?r = "req\<lparr>Postings := ps\<rparr>"
  obtain t where t: "find_key db1 (Org req) (IdempotencyKey req) = Some t" "tx_id t = i"
    "tx_fingerprint t = fingerprint (sha256 pf) req"
    and row: "\<And>j. storable_tx pf (tx_row pf req j)" "\<And>j. tx_checks (tx_row pf req j)"
    by (rule Post_found [OF assms(1)]) blast
  have valid: "validate (map_order pf) req = None" using assms(1) by (auto simp: Post_def split: option.splits)
  note order = validate_reordered [OF valid assms(3,5)]
  have k: "find_key db2 (Org ?r) (IdempotencyKey ?r) = Some t"
    using t(1) steps_append_only [OF assms(2)] find_prefix by (fastforce simp: find_key_def)
  have "sort_key posting_key ps = sort_key posting_key (Postings req)"
    using assms(3) by (simp add: sort_postings_eq)
  then have f: "fingerprint (sha256 pf) ?r = fingerprint (sha256 pf) req"
    by (simp add: fingerprint_def fingerprint_preimage_def)
  then have "tx_row pf ?r j = tx_row pf req j" by (simp add: tx_row_def)
  then have "Post pf ?r db2 = (Inr i, db2\<lparr>tx_seq := j\<rparr>)" if "totals_fit ps"
    using Post_replay [OF k assms(4)] order(1) that row t(2,3) f by simp
  moreover have "\<exists>a. Post pf ?r db2 = (Inl (ErrSum a ErrOverflow), db2)" if "\<not> totals_fit ps"
    using order(2) [OF that] by (auto simp: Post_def)
  moreover have "totals_fit (Postings req)" using validate_reordered(1) [OF valid refl assms(5)] valid by simp
  ultimately show ?thesis by blast
qed

text \<open>
  So the order of the lines is not always immaterial, though the fingerprint sorts them so that it should be: of these two
  requests with the same lines one is posted and the other refused.
\<close>

definition demo_lines :: "bool \<Rightarrow> Posting list" where
  "demo_lines b = map (\<lambda>n. \<lparr>Account = 1, Asset = 1, Amount = n\<rparr>) (if b then [2 ^ 62, - (2 ^ 62), 2 ^ 62, - (2 ^ 62)] else [2 ^ 62, 2 ^ 62, - (2 ^ 62), - (2 ^ 62)])"

lemma order_matters:
  "mset (demo_lines True) = mset (demo_lines False) \<and> totals_fit (demo_lines True) \<and> \<not> totals_fit (demo_lines False)"
proof (intro conjI)
  have "in_int64 (sum_list (map sint (take k (amounts_of (demo_lines True) a))))" for a k
  proof (cases "a = 1")
    case True
    have "amounts_of (demo_lines True) 1 = [2 ^ 62, - (2 ^ 62), 2 ^ 62, - (2 ^ 62)]" by (simp add: amounts_of_def demo_lines_def)
    then show ?thesis unfolding True by (cases k rule: nat.exhaust) (auto simp: in_int64_def take_Cons split: nat.splits)
  next
    case False
    then have "amounts_of (demo_lines True) a = []" by (simp add: amounts_of_def demo_lines_def)
    then show ?thesis by (simp add: in_int64_def)
  qed
  then show "totals_fit (demo_lines True)" by (simp add: totals_fit_def)
  have "\<not> in_int64 (sum_list (map sint (take 2 (amounts_of (demo_lines False) 1))))"
    by (simp add: amounts_of_def demo_lines_def in_int64_def)
  then show "\<not> totals_fit (demo_lines False)" unfolding totals_fit_def by blast
qed (simp add: demo_lines_def)

text \<open>
  A key names one transaction for good.  A request whose key its org has already used never
  records anything: it is answered with the original transaction when its fingerprint is the
  original's, and with an error otherwise.
\<close>

theorem Post_key_used_once:
  assumes "find_key db (Org req) (IdempotencyKey req) = Some t" "Post pf req db = (res, db')"
  shows "books db' = books db
    \<and> (res = Inr (tx_id t) \<and> tx_fingerprint t = fingerprint (sha256 pf) req \<or> (\<exists>e. res = Inl e))"
  using assms(2)
proof (cases rule: Post_cases)
  case (recorded i)
  then show ?thesis using assms(1) by simp
qed (use assms(1) in \<open>auto simp: books_def\<close>)

text \<open>
  Registering an account is idempotent: asking again for the same kind, owner and (for a
  treasury) name returns the same account at any later time and adds none.
\<close>

theorem EnsureAccount_idempotent:
  assumes "EnsureAccount pf org kind ownerRef name db = (Inr i, db1)" "(ledger_step pf)\<^sup>*\<^sup>* db1 db2"
    and "next_id (account_seq db2) = Some j"
  shows "EnsureAccount pf org kind ownerRef name db2 = (Inr i, db2\<lparr>account_seq := j\<rparr>)"
proof -
  let ?n = "\<lambda>k. new_account k org kind ownerRef name"
  have "\<exists>r. find (account_match pf (?n j)) (accounts db1) = Some r \<and> acc_id r = i \<and> account_checks (?n j)"
    using assms(1)
  proof (cases rule: EnsureAccount_cases)
    case (same s)
    then show ?thesis
      using match_new_account [of pf s org kind ownerRef name j] checks_new_account [of s org kind ownerRef name j] by simp
  next
    case (new k)
    have "find (account_match pf (?n k)) (accounts db) = None" using new(4) by (simp add: find_None_iff)
    moreover have "account_match pf (?n k) (?n k)" by (simp add: account_match_def)
    ultimately have "find (account_match pf (?n k)) (accounts db1) = Some (?n k)"
      by (simp add: new(5) find_append_none)
    then show ?thesis
      using new(1,3) match_new_account [of pf k org kind ownerRef name j] checks_new_account [of k org kind ownerRef name j]
      by (simp add: new_account_def)
  qed
  then obtain r where r: "find (account_match pf (?n j)) (accounts db1) = Some r" "acc_id r = i"
    and c: "account_checks (?n j)" by blast
  have f: "find (account_match pf (?n j)) (accounts db2) = Some r"
    using find_prefix [OF _ r(1)] steps_append_only [OF assms(2)] by simp
  have "account_conflict pf (?n j) r" using match_conflict [OF c] find_in_set [OF f] by blast
  then have "list_ex (account_conflict pf (?n j)) (accounts db2)"
    using find_in_set [OF f] by (auto simp: list_ex_iff)
  moreover have "org \<noteq> 0" "text_ok pf ownerRef" "text_ok pf name"
    using assms(1) by (auto simp: EnsureAccount_def split: if_splits)
  ultimately show ?thesis using c by (simp add: EnsureAccount_def Let_def assms(3) f r(2))
qed

section \<open>A small ledger\<close>

text \<open>One org with an external account and a member, and one deposit.\<close>

definition demo_pf :: platform where
  "demo_pf = \<lparr>text_ok = (\<lambda>_. True), json_ok = (\<lambda>_. True), time_ok = (\<lambda>_. True), pg_lower = id,
     sha256 = (\<lambda>s. replicate 32 (CHR ''0'')), map_order = id\<rparr>"

definition demo_request :: PostRequest where
  "demo_request = \<lparr>Org = 1, IdempotencyKey = ''op-1'', Kind = ''deposit'', ExternalRef = [],
     OccurredAt = 1700000000 * 10 ^ 9, Metadata = [],
     Postings = [\<lparr>Account = 2, Asset = 1, Amount = 50\<rparr>, \<lparr>Account = 1, Asset = 1, Amount = - 50\<rparr>]\<rparr>"

definition demo_external :: ledger_db where
  "demo_external = snd (EnsureAccount demo_pf 1 AccountExternal [] ''outside'' (ledger_init\<lparr>orgs := [1]\<rparr>))"

definition demo_opened :: ledger_db where
  "demo_opened = snd (EnsureAccount demo_pf 1 AccountMember ''u'' ''u'' demo_external)"

definition demo_db :: ledger_db where
  "demo_db = snd (Post demo_pf demo_request demo_opened)"

lemmas ledger_eval =
  EnsureAccount_def demo_pf_def ledger_init_def next_id_def Let_def new_account_def account_checks_def
  account_conflict_def singleton_kind_def Post_def validate_def demo_request_def amounts_of_def Sum_def
  Add_def IsZero_def insert_transaction_def tx_row_def storable_tx_def tx_checks_def tx_kinds_def
  ref_ok_def zero_time_def find_key_def fingerprint_def insert_entry_def entry_of_def find_account_def
  find_asset_def apply_to_balance_def in_int64_def commit_checks_def unbalanced_asset_def
  asset_total_def touches_other_org_def resolveReplay_def account_match_def

lemma demo_external_eq:
  "EnsureAccount demo_pf 1 AccountExternal [] ''outside'' (ledger_init\<lparr>orgs := [1]\<rparr>) = (Inr 1, demo_external)"
  by (simp add: demo_external_def ledger_eval)

lemma demo_opened_eq: "demo_opened = ledger_init\<lparr>orgs := [1], account_seq := 2,
    accounts := [new_account 1 1 AccountExternal [] ''outside'', new_account 2 1 AccountMember ''u'' ''u'']\<rparr>"
  by (simp add: demo_opened_def demo_external_def ledger_eval)

lemma demo_post: "Post demo_pf demo_request demo_opened = (Inr 1, demo_db)"
  by (simp add: demo_db_def demo_opened_eq ledger_eval)

lemma demo_db_eq: "demo_db = demo_opened\<lparr>tx_seq := 1, transactions := [tx_row demo_pf demo_request 1],
    entries := [\<lparr>e_tx = 1, e_account = 2, e_asset = 1, e_amount = 50\<rparr>,
                \<lparr>e_tx = 1, e_account = 1, e_asset = 1, e_amount = - 50\<rparr>],
    balances := [(2, 1) \<mapsto> 50, (1, 1) \<mapsto> - 50]\<rparr>"
  by (simp add: demo_db_def demo_opened_eq ledger_eval)

lemma demo_steps: "(ledger_step demo_pf)\<^sup>*\<^sup>* ledger_init demo_external" "(ledger_step demo_pf)\<^sup>*\<^sup>* demo_external demo_db"
proof -
  have "ledger_step demo_pf ledger_init (ledger_init\<lparr>orgs := [1]\<rparr>)"
    using step_org [of demo_pf ledger_init 1] by (simp add: ledger_init_def)
  moreover have "ledger_step demo_pf (ledger_init\<lparr>orgs := [1]\<rparr>) demo_external"
    by (rule step_account [OF demo_external_eq])
  ultimately show "(ledger_step demo_pf)\<^sup>*\<^sup>* ledger_init demo_external" by auto
  have "EnsureAccount demo_pf 1 AccountMember ''u'' ''u'' demo_external =
      (fst (EnsureAccount demo_pf 1 AccountMember ''u'' ''u'' demo_external), demo_opened)"
    by (simp add: demo_opened_def)
  then have "ledger_step demo_pf demo_external demo_opened" by (rule step_account)
  moreover have "ledger_step demo_pf demo_opened demo_db" by (rule step_post [OF demo_post])
  ultimately show "(ledger_step demo_pf)\<^sup>*\<^sup>* demo_external demo_db" by auto
qed

lemma demo_reach: "(ledger_step demo_pf)\<^sup>*\<^sup>* ledger_init demo_db"
  using demo_steps by (rule rtranclp_trans)

theorem fingerprint_identifies_content_witness:
  "fingerprint_preimage (demo_request\<lparr>Postings := rev (Postings demo_request)\<rparr>) = fingerprint_preimage demo_request
   \<and> fingerprint_preimage (demo_request\<lparr>Kind := ''send''\<rparr>) \<noteq> fingerprint_preimage demo_request"
proof -
  have w: "wf_request demo_request" "wf_request (demo_request\<lparr>Postings := rev (Postings demo_request)\<rparr>)"
    "wf_request (demo_request\<lparr>Kind := ''send''\<rparr>)"
    by (simp_all add: wf_request_def demo_request_def wf_len_def)
  show ?thesis
    using fingerprint_identifies_content [OF w(2,1)] fingerprint_identifies_content [OF w(3,1)]
    by (simp add: same_content_def demo_request_def)
qed

theorem reachable_books_witness:
  "length (entries demo_db) = 2 \<and> balanced demo_db \<and> lines_ok demo_db \<and> balances_ok demo_db \<and> signs_ok demo_db"
  using reachable_books [OF demo_reach] by (simp add: demo_db_eq)

theorem org_conserves_value_witness:
  "map (\<lambda>a. sint (Balance demo_db 1 (acc_id a) 1)) (filter (\<lambda>a. acc_org a = 1) (accounts demo_db)) = [- 50, 50]
   \<and> sum_list (map (\<lambda>a. sint (Balance demo_db 1 (acc_id a) 1)) (filter (\<lambda>a. acc_org a = 1) (accounts demo_db))) = 0"
  using org_conserves_value [OF demo_reach, of 1 1]
  by (simp add: demo_db_eq demo_opened_eq new_account_def Balance_def)

theorem Balance_reads_entries_witness:
  "sint (Balance demo_db 1 2 1) = entry_sum (\<lambda>e. e_account e = 2 \<and> e_asset e = 1) (entries demo_db)
   \<and> sint (Balance demo_db 2 2 1) = 0"
  using Balance_reads_entries [OF demo_reach, of 1 2 1] Balance_reads_entries [OF demo_reach, of 2 2 1]
  by (simp add: demo_db_eq demo_opened_eq new_account_def)

theorem Post_retry_safe_witness:
  "Post demo_pf (demo_request\<lparr>Postings := rev (Postings demo_request)\<rparr>) demo_db = (Inr 1, demo_db\<lparr>tx_seq := 2\<rparr>)"
proof -
  let ?r = "demo_request\<lparr>Postings := rev (Postings demo_request)\<rparr>"
  have j: "next_id (tx_seq demo_db) = Some 2" by (simp add: demo_db_eq next_id_def)
  have o: "\<And>xs. set (map_order demo_pf xs) = set xs" by (simp add: demo_pf_def)
  have v: "validate (map_order demo_pf) demo_request = None" "validate (map_order demo_pf) ?r = None" by (simp_all add: ledger_eval)
  have "totals_fit (rev (Postings demo_request))" using validate_reordered(1) [OF v(1) _ o, of "rev (Postings demo_request)"] v(2) by simp
  then show ?thesis using Post_retry_safe [OF demo_post rtranclp.rtrancl_refl _ j o, of "rev (Postings demo_request)"] by simp
qed

theorem Post_key_used_once_witness:
  "books (snd (Post demo_pf (demo_request\<lparr>Metadata := ''{}''\<rparr>) demo_db)) = books demo_db"
proof -
  have k: "find_key demo_db (Org (demo_request\<lparr>Metadata := ''{}''\<rparr>)) (IdempotencyKey (demo_request\<lparr>Metadata := ''{}''\<rparr>))
    = Some (tx_row demo_pf demo_request 1)"
    by (simp add: demo_db_eq find_key_def demo_request_def tx_row_def)
  show ?thesis
    using Post_key_used_once [OF k, of demo_pf "fst (Post demo_pf (demo_request\<lparr>Metadata := ''{}''\<rparr>) demo_db)"
        "snd (Post demo_pf (demo_request\<lparr>Metadata := ''{}''\<rparr>) demo_db)"] by simp
qed

theorem EnsureAccount_idempotent_witness:
  "EnsureAccount demo_pf 1 AccountExternal [] ''outside'' demo_db = (Inr 1, demo_db\<lparr>account_seq := 3\<rparr>)"
  by (rule EnsureAccount_idempotent [OF demo_external_eq demo_steps(2)])
     (simp add: demo_db_eq demo_opened_eq next_id_def)

end
