(* ===== verification/Proposal_Store.thy ===== *)
theory Proposal_Store
  imports Ledger "HOL-Library.List_Lexorder"
begin

text \<open>
  \<^verbatim>\<open>ledger/store/proposal.go\<close>: envelopes waiting for enough signatures.  The state is the three
  tables of \<^verbatim>\<open>ledger/migrations/00006_treasury.sql\<close> (with the columns and kinds that
  \<^verbatim>\<open>00010_workspace.sql\<close> and \<^verbatim>\<open>00014_restore_proposals.sql\<close> add) and the rows their foreign keys
  look up; every operation of the file is a function on it that takes the time as an argument.
  An operation is one database transaction: an error rolls all of it back.

  The lemmas show that a treasury never has two open proposals, that what a proposal says never
  changes and a closed one never reopens, that a key's approval counts once, and that the event log
  agrees with the tables.
\<close>

section \<open>Data\<close>

type_synonym TreasuryID = int64
type_synonym ProposalID = int64
type_synonym MemberID = int64
type_synonym IdentityID = int64

abbreviation ProposalOpen :: string where "ProposalOpen \<equiv> ''open''"
abbreviation ProposalExecuted :: string where "ProposalExecuted \<equiv> ''executed''"
abbreviation ProposalFailed :: string where "ProposalFailed \<equiv> ''failed''"
abbreviation ProposalCancelled :: string where "ProposalCancelled \<equiv> ''cancelled''"
abbreviation ProposalExpired :: string where "ProposalExpired \<equiv> ''expired''"

definition proposal_statuses :: "string list" where
  "proposal_statuses = [ProposalOpen, ProposalExecuted, ProposalFailed, ProposalCancelled, ProposalExpired]"

abbreviation EventCreated :: string where "EventCreated \<equiv> ''created''"
abbreviation EventSigned :: string where "EventSigned \<equiv> ''signed''"

definition event_kinds :: "string list" where
  "event_kinds = [EventCreated, EventSigned, ''submitted'', ''executed'', ''failed'', ''cancelled'',
     ''expired'', ''superseded'']"

definition proposal_kinds :: "string list" where
  "proposal_kinds = [''payment'', ''payroll'', ''trustline'', ''dex'', ''signers'', ''invoke'', ''restore'']"

datatype store_error =
    ErrNoProposal | ErrProposalAlreadyOpen | ErrProposalClosed | NotAResolution | StoreDb db_error

record Proposal =
  pr_id :: ProposalID
  pr_org :: OrgID
  pr_treasury :: TreasuryID
  pr_kind :: string
  pr_xdr :: string
  pr_hash :: string
  pr_seq :: int64
  pr_description :: string
  pr_digest :: string
  pr_status :: string
  pr_created_by :: MemberID
  pr_created_at :: int
  pr_expires_at :: int
  pr_resolved_at :: "int option"
  pr_submitted :: "string option"
  pr_amount :: "stroops option"

record CreateProposalParams =
  cp_org :: OrgID
  cp_treasury :: TreasuryID
  cp_kind :: string
  cp_xdr :: string
  cp_hash :: string
  cp_seq :: int64
  cp_description :: string
  cp_digest :: string
  cp_amount :: stroops
  cp_created_by :: MemberID
  cp_expires_at :: int

record ProposalSignature =
  sg_signer :: string
  sg_signature :: string
  sg_weight :: int
  sg_added_by :: IdentityID
  sg_created_at :: int

record ProposalEvent =
  ev_proposal :: ProposalID
  ev_kind :: string
  ev_actor :: "IdentityID option"
  ev_detail :: string
  ev_created_at :: int

record proposal_db =
  treasuries :: "(TreasuryID \<times> OrgID) list"
  members :: "(MemberID \<times> OrgID) list"
  identities :: "IdentityID list"
  proposals :: "Proposal list"
  signatures :: "(ProposalID \<times> ProposalSignature) list"
  events :: "ProposalEvent list"
  proposal_seq :: ProposalID

section \<open>Expiry\<close>

definition stale :: "int \<Rightarrow> Proposal \<Rightarrow> bool" where
  "stale now p \<longleftrightarrow> pr_status p = ProposalOpen \<and> pr_expires_at p \<le> now"

definition event :: "ProposalID \<Rightarrow> string \<Rightarrow> IdentityID option \<Rightarrow> string \<Rightarrow> int \<Rightarrow> ProposalEvent" where
  "event i kind actor detail now =
     \<lparr>ev_proposal = i, ev_kind = kind, ev_actor = actor, ev_detail = detail, ev_created_at = now\<rparr>"

text \<open>\<open>expireSQL\<close>, a further predicate, \<open>expireEventsSQL\<close>.\<close>

definition expire_where :: "(Proposal \<Rightarrow> bool) \<Rightarrow> int \<Rightarrow> proposal_db \<Rightarrow> proposal_db" where
  "expire_where P now db =
     db\<lparr>proposals := map (\<lambda>p. if stale now p \<and> P p
            then p\<lparr>pr_status := ProposalExpired, pr_resolved_at := Some now\<rparr> else p) (proposals db),
        events := events db
          @ map (\<lambda>p. event (pr_id p) ''expired'' None ''the signing window closed'' now)
              (filter (\<lambda>p. stale now p \<and> P p) (proposals db))\<rparr>"

definition ExpireProposals :: "int \<Rightarrow> proposal_db \<Rightarrow> nat \<times> proposal_db" where
  "ExpireProposals now db =
     (length (filter (stale now) (proposals db)), expire_where (\<lambda>_. True) now db)"

section \<open>Creation\<close>

definition hash_ok :: "string \<Rightarrow> bool" where
  "hash_ok s \<longleftrightarrow> length s = 64 \<and> list_all hex_char s"

definition proposal_row :: "CreateProposalParams \<Rightarrow> int \<Rightarrow> ProposalID \<Rightarrow> Proposal" where
  "proposal_row p now i =
     \<lparr>pr_id = i, pr_org = cp_org p, pr_treasury = cp_treasury p, pr_kind = cp_kind p,
      pr_xdr = cp_xdr p, pr_hash = cp_hash p, pr_seq = cp_seq p, pr_description = cp_description p,
      pr_digest = cp_digest p, pr_status = ProposalOpen, pr_created_by = cp_created_by p,
      pr_created_at = now, pr_expires_at = cp_expires_at p, pr_resolved_at = None,
      pr_submitted = None, pr_amount = (if cp_amount p = 0 then None else Some (cp_amount p))\<rparr>"

definition proposal_storable :: "platform \<Rightarrow> Proposal \<Rightarrow> bool" where
  "proposal_storable pf p \<longleftrightarrow> text_ok pf (pr_kind p) \<and> text_ok pf (pr_xdr p) \<and> text_ok pf (pr_hash p)
     \<and> text_ok pf (pr_description p) \<and> time_ok pf (pr_expires_at p)"

definition proposal_checks :: "Proposal \<Rightarrow> bool" where
  "proposal_checks p \<longleftrightarrow> pr_kind p \<in> set proposal_kinds \<and> pr_xdr p \<noteq> [] \<and> hash_ok (pr_hash p)
     \<and> 0 \<le> sint (pr_seq p) \<and> pr_description p \<noteq> [] \<and> length (pr_digest p) = 32
     \<and> pr_status p \<in> set proposal_statuses
     \<and> (case pr_submitted p of None \<Rightarrow> True | Some h \<Rightarrow> hash_ok h)
     \<and> pr_created_at p < pr_expires_at p
     \<and> (pr_status p = ProposalOpen \<longleftrightarrow> pr_resolved_at p = None)
     \<and> (case pr_amount p of None \<Rightarrow> True | Some a \<Rightarrow> 0 < sint a)"

text \<open>The two unique indexes.\<close>

definition proposal_conflict :: "Proposal \<Rightarrow> Proposal \<Rightarrow> bool" where
  "proposal_conflict n p \<longleftrightarrow> pr_hash p = pr_hash n
     \<or> pr_status n = ProposalOpen \<and> pr_status p = ProposalOpen \<and> pr_treasury p = pr_treasury n"

definition insert_proposal ::
  "platform \<Rightarrow> int \<Rightarrow> CreateProposalParams \<Rightarrow> proposal_db
   \<Rightarrow> (store_error, Proposal \<times> proposal_db) result" where
  "insert_proposal pf now p db =
     (case next_id (proposal_seq db) of
        None \<Rightarrow> Inl (StoreDb SequenceExhausted)
      | Some i \<Rightarrow>
          let n = proposal_row p now i
          in if \<not> proposal_storable pf n then Inl (StoreDb NotStorable)
             else if \<not> proposal_checks n then Inl (StoreDb CheckViolation)
             else if list_ex (proposal_conflict n) (proposals db) then Inl ErrProposalAlreadyOpen
             else if (cp_treasury p, cp_org p) \<notin> set (treasuries db)
                   \<or> (cp_created_by p, cp_org p) \<notin> set (members db) then Inl (StoreDb ForeignKeyViolation)
             else Inr (n, db\<lparr>proposals := proposals db @ [n], proposal_seq := i\<rparr>))"

text \<open>A drawn identity stays drawn, also when the transaction is rolled back.\<close>

definition spend_id :: "proposal_db \<Rightarrow> proposal_db" where
  "spend_id db = (case next_id (proposal_seq db) of None \<Rightarrow> db | Some i \<Rightarrow> db\<lparr>proposal_seq := i\<rparr>)"

definition CreateProposal ::
  "platform \<Rightarrow> int \<Rightarrow> CreateProposalParams \<Rightarrow> proposal_db
   \<Rightarrow> (store_error, Proposal) result \<times> proposal_db" where
  "CreateProposal pf now p db =
     (let db1 = expire_where (\<lambda>q. pr_treasury q = cp_treasury p \<and> pr_org q = cp_org p) now db
      in case insert_proposal pf now p db1 of
           Inl e \<Rightarrow> (Inl e, spend_id db)
         | Inr (n, db2) \<Rightarrow>
             (Inr n, db2\<lparr>events := events db2 @ [event (pr_id n) EventCreated None (cp_kind p) now]\<rparr>))"

section \<open>Reads\<close>

definition find_proposal :: "proposal_db \<Rightarrow> OrgID \<Rightarrow> ProposalID \<Rightarrow> Proposal option" where
  "find_proposal db org i = find (\<lambda>p. pr_id p = i \<and> pr_org p = org) (proposals db)"

definition Proposal_of :: "proposal_db \<Rightarrow> OrgID \<Rightarrow> ProposalID \<Rightarrow> (store_error, Proposal) result" where
  "Proposal_of db org i = (case find_proposal db org i of None \<Rightarrow> Inl ErrNoProposal | Some p \<Rightarrow> Inr p)"

definition OpenProposal :: "int \<Rightarrow> proposal_db \<Rightarrow> OrgID \<Rightarrow> TreasuryID \<Rightarrow> Proposal option" where
  "OpenProposal now db org t =
     find (\<lambda>p. pr_treasury p = t \<and> pr_org p = org \<and> pr_status p = ProposalOpen \<and> now < pr_expires_at p)
       (proposals db)"

definition Proposals_of :: "proposal_db \<Rightarrow> OrgID \<Rightarrow> int \<Rightarrow> Proposal list" where
  "Proposals_of db org limit =
     (let n = (if limit \<le> 0 \<or> limit > 100 then 20 else limit)
      in take (nat n) (sort_key (\<lambda>p. (- pr_created_at p, - sint (pr_id p)))
           (filter (\<lambda>p. pr_org p = org) (proposals db))))"

definition Signatures :: "proposal_db \<Rightarrow> OrgID \<Rightarrow> ProposalID \<Rightarrow> ProposalSignature list" where
  "Signatures db org i =
     (if find_proposal db org i = None then []
      else sort_key (\<lambda>s. (sg_created_at s, map (\<lambda>c. byte c) (sg_signer s)))
             (map snd (filter (\<lambda>(j, s). j = i) (signatures db))))"

definition ProposalHistory :: "proposal_db \<Rightarrow> OrgID \<Rightarrow> ProposalID \<Rightarrow> ProposalEvent list" where
  "ProposalHistory db org i =
     (if find_proposal db org i = None then [] else filter (\<lambda>e. ev_proposal e = i) (events db))"

section \<open>Signing\<close>

definition signature_checks :: "ProposalSignature \<Rightarrow> bool" where
  "signature_checks s \<longleftrightarrow> issuer_ok (sg_signer s) \<and> length (sg_signature s) = 64
     \<and> 0 \<le> sg_weight s \<and> sg_weight s \<le> 255"

definition nullable :: "int64 \<Rightarrow> int64 option" where
  "nullable a = (if a \<noteq> 0 then Some a else None)"

definition actor_known :: "proposal_db \<Rightarrow> IdentityID option \<Rightarrow> bool" where
  "actor_known db a \<longleftrightarrow> (case a of None \<Rightarrow> True | Some i \<Rightarrow> i \<in> set (identities db))"

text \<open>\<open>now\<close> is the clock of the process, \<open>dbnow\<close> the clock of the database.\<close>

definition AddSignature ::
  "platform \<Rightarrow> int \<Rightarrow> int \<Rightarrow> OrgID \<Rightarrow> ProposalID \<Rightarrow> ProposalSignature \<Rightarrow> proposal_db
   \<Rightarrow> store_error option \<times> proposal_db" where
  "AddSignature pf now dbnow org i sig db =
     (case find_proposal db org i of
        None \<Rightarrow> (Some ErrNoProposal, db)
      | Some p \<Rightarrow>
          if pr_status p \<noteq> ProposalOpen then (Some ErrProposalClosed, db)
          else if \<not> now < pr_expires_at p then (Some ErrProposalClosed, db)
          else let addedBy = nullable (sg_added_by sig)
               in if \<not> text_ok pf (sg_signer sig) then (Some (StoreDb NotStorable), db)
                  else if \<not> signature_checks sig then (Some (StoreDb CheckViolation), db)
                  else if list_ex (\<lambda>(j, s). j = i \<and> sg_signer s = sg_signer sig) (signatures db)
                       then (None, db)
                  else if \<not> actor_known db addedBy then (Some (StoreDb ForeignKeyViolation), db)
                  else (None, db\<lparr>signatures := signatures db @ [(i, sig\<lparr>sg_created_at := dbnow\<rparr>)],
                      events := events db @ [event i EventSigned addedBy (sg_signer sig) dbnow]\<rparr>))"

section \<open>Resolution\<close>

text \<open>The row as the \<open>UPDATE\<close> leaves it.\<close>

definition resolved_row :: "string \<Rightarrow> string \<Rightarrow> int \<Rightarrow> Proposal \<Rightarrow> Proposal" where
  "resolved_row status submittedHash now p =
     p\<lparr>pr_status := status, pr_resolved_at := Some now,
       pr_submitted := (if submittedHash \<noteq> [] then Some submittedHash else pr_submitted p)\<rparr>"

definition ResolveProposal ::
  "platform \<Rightarrow> int \<Rightarrow> OrgID \<Rightarrow> ProposalID \<Rightarrow> string \<Rightarrow> string \<Rightarrow> string \<Rightarrow> IdentityID \<Rightarrow> proposal_db
   \<Rightarrow> store_error option \<times> proposal_db" where
  "ResolveProposal pf now org i status submittedHash detail actor db =
     (if status = ProposalOpen then (Some NotAResolution, db)
      else if \<not> text_ok pf status \<or> \<not> text_ok pf submittedHash then (Some (StoreDb NotStorable), db)
      else case find (\<lambda>p. pr_id p = i \<and> pr_org p = org \<and> pr_status p = ProposalOpen) (proposals db) of
             None \<Rightarrow> (Some ErrProposalClosed, db)
           | Some p \<Rightarrow>
               if \<not> proposal_checks (resolved_row status submittedHash now p)
               then (Some (StoreDb CheckViolation), db)
               else if \<not> text_ok pf detail then (Some (StoreDb NotStorable), db)
               else if status \<notin> set event_kinds then (Some (StoreDb CheckViolation), db)
               else if \<not> actor_known db (nullable actor) then (Some (StoreDb ForeignKeyViolation), db)
               else (None, db\<lparr>proposals := map (\<lambda>q. if pr_id q = i \<and> pr_org q = org \<and> pr_status q = ProposalOpen
                         then resolved_row status submittedHash now q else q) (proposals db),
                       events := events db @ [event i status (nullable actor) detail now]\<rparr>))"

section \<open>What is true of every reachable state\<close>

inductive proposal_step :: "platform \<Rightarrow> proposal_db \<Rightarrow> proposal_db \<Rightarrow> bool" for pf where
  p_create: "CreateProposal pf now p db = (r, db') \<Longrightarrow> proposal_step pf db db'"
| p_sign: "AddSignature pf now dbnow org i sig db = (e, db') \<Longrightarrow> proposal_step pf db db'"
| p_resolve: "ResolveProposal pf now org i status h detail actor db = (e, db') \<Longrightarrow> proposal_step pf db db'"
| p_expire: "ExpireProposals now db = (n, db') \<Longrightarrow> proposal_step pf db db'"
| p_rows: "proposal_step pf db (db\<lparr>treasuries := ts, members := ms, identities := ids\<rparr>)"

definition proposal_init :: proposal_db where
  "proposal_init = \<lparr>treasuries = [], members = [], identities = [], proposals = [], signatures = [],
     events = [], proposal_seq = 0\<rparr>"

definition terminal_kinds :: "string list" where
  "terminal_kinds = [ProposalExecuted, ProposalFailed, ProposalCancelled, ProposalExpired]"

definition event_count :: "(string \<Rightarrow> bool) \<Rightarrow> proposal_db \<Rightarrow> ProposalID \<Rightarrow> nat" where
  "event_count K db i = length (filter (\<lambda>e. ev_proposal e = i \<and> K (ev_kind e)) (events db))"

definition signature_count :: "proposal_db \<Rightarrow> ProposalID \<Rightarrow> nat" where
  "signature_count db i = length (filter (\<lambda>(j, s). j = i) (signatures db))"

text \<open>One open proposal per treasury, one proposal per envelope.\<close>

definition slots_ok :: "Proposal list \<Rightarrow> bool" where
  "slots_ok ps \<longleftrightarrow> distinct (map pr_id ps) \<and> distinct (map pr_hash ps)
     \<and> distinct (map pr_treasury (filter (\<lambda>p. pr_status p = ProposalOpen) ps))
     \<and> (\<forall>p \<in> set ps. proposal_checks p)"

text \<open>The log says of every proposal that it was created, signed as often as it has signatures, and closed once.\<close>

definition log_ok :: "proposal_db \<Rightarrow> bool" where
  "log_ok db \<longleftrightarrow>
     (\<forall>p \<in> set (proposals db).
        event_count (\<lambda>k. k = EventCreated) db (pr_id p) = 1
        \<and> event_count (\<lambda>k. k = EventSigned) db (pr_id p) = signature_count db (pr_id p)
        \<and> event_count (\<lambda>k. k \<in> set terminal_kinds) db (pr_id p) = (if pr_status p = ProposalOpen then 0 else 1))
     \<and> (\<forall>e \<in> set (events db). ev_proposal e \<in> pr_id ` set (proposals db))
     \<and> (\<forall>(j, s) \<in> set (signatures db). j \<in> pr_id ` set (proposals db))"

definition signers_once :: "proposal_db \<Rightarrow> bool" where
  "signers_once db \<longleftrightarrow> distinct (map (\<lambda>(j, s). (j, sg_signer s)) (signatures db))"

definition proposals_ok :: "proposal_db \<Rightarrow> bool" where
  "proposals_ok db \<longleftrightarrow> slots_ok (proposals db) \<and> log_ok db \<and> signers_once db
     \<and> (\<forall>p \<in> set (proposals db). sint (pr_id p) \<le> sint (proposal_seq db))"

subsection \<open>Closing proposals\<close>

lemma filter_unique:
  assumes "distinct (map f xs)" "\<forall>x \<in> set xs. P x \<longrightarrow> f x = k" "find P xs = Some p"
  shows "filter P xs = [p]"
  using assms
proof (induction xs)
  case (Cons x xs)
  show ?case
  proof (cases "P x")
    case True
    then have "\<not> P y" if "y \<in> set xs" for y using Cons.prems that by (auto simp: image_iff)
    then show ?thesis using True Cons.prems(3) by (simp add: filter_empty_conv)
  next
    case False
    then show ?thesis using Cons by simp
  qed
qed simp

definition closes :: "(Proposal \<Rightarrow> bool) \<Rightarrow> (Proposal \<Rightarrow> Proposal) \<Rightarrow> Proposal list \<Rightarrow> bool" where
  "closes C g ps \<longleftrightarrow> (\<forall>p \<in> set ps. C p \<longrightarrow> pr_status p = ProposalOpen \<and> pr_id (g p) = pr_id p
     \<and> pr_hash (g p) = pr_hash p \<and> pr_treasury (g p) = pr_treasury p
     \<and> pr_status (g p) \<in> set terminal_kinds \<and> proposal_checks (g p))"

lemma closes_slots:
  assumes "slots_ok ps" "closes C g ps"
  shows "slots_ok (map (\<lambda>p. if C p then g p else p) ps)"
proof -
  let ?h = "\<lambda>p. if C p then g p else p"
  have m: "map (pr_id \<circ> ?h) ps = map pr_id ps" "map (pr_hash \<circ> ?h) ps = map pr_hash ps"
    using assms(2) by (auto simp: closes_def)
  have "filter (\<lambda>p. pr_status p = ProposalOpen) (map ?h ps) =
    filter (\<lambda>p. \<not> C p) (filter (\<lambda>p. pr_status p = ProposalOpen) ps)"
    using assms(2) by (induction ps) (auto simp: closes_def terminal_kinds_def)
  moreover have "distinct (map pr_treasury (filter (\<lambda>p. \<not> C p) (filter (\<lambda>p. pr_status p = ProposalOpen) ps)))"
    using assms(1) by (simp only: slots_ok_def distinct_map_filter)
  ultimately show ?thesis
    using assms by (auto simp: slots_ok_def m closes_def simp del: map_map)
       (simp_all add: m)
qed

lemma event_count_append:
  "event_count K (db\<lparr>proposals := ps, events := es @ fs\<rparr>) i =
     length (filter (\<lambda>e. ev_proposal e = i \<and> K (ev_kind e)) es)
     + length (filter (\<lambda>e. ev_proposal e = i \<and> K (ev_kind e)) fs)"
  by (simp add: event_count_def)

lemma length_filter_id:
  assumes "distinct (map pr_id ps)" "p \<in> set ps"
  shows "length (filter (\<lambda>q. C q \<and> pr_id q = pr_id p \<and> K q) ps) = (if C p \<and> K p then 1 else 0)"
  using assms by (induction ps) (auto simp: filter_empty_conv image_iff)

lemma closes_log:
  assumes ok: "log_ok db" "distinct (map pr_id (proposals db))" and c: "closes C g (proposals db)"
    and new: "map (\<lambda>e. (ev_proposal e, ev_kind e)) new =
      map (\<lambda>p. (pr_id p, pr_status (g p))) (filter C (proposals db))"
  defines "db' \<equiv> db\<lparr>proposals := map (\<lambda>p. if C p then g p else p) (proposals db), events := events db @ new\<rparr>"
  shows "log_ok db'"
proof -
  have cnt: "length (filter (\<lambda>e. ev_proposal e = i \<and> K (ev_kind e)) new) =
    length (filter (\<lambda>p. C p \<and> pr_id p = i \<and> K (pr_status (g p))) (proposals db))" for K i
  proof -
    have "length (filter (\<lambda>e. ev_proposal e = i \<and> K (ev_kind e)) new) =
      length (filter (\<lambda>(j, k). j = i \<and> K k) (map (\<lambda>e. (ev_proposal e, ev_kind e)) new))"
      by (induction new) auto
    also have "\<dots> = length (filter (\<lambda>p. C p \<and> pr_id p = i \<and> K (pr_status (g p))) (proposals db))"
      unfolding new by (induction "proposals db") (auto simp: filter_map comp_def filter_filter conj_ac)
    finally show ?thesis .
  qed
  have ids: "ev_proposal e \<in> pr_id ` set (proposals db)" if "e \<in> set new" for e
  proof -
    have "(ev_proposal e, ev_kind e) \<in> set (map (\<lambda>e. (ev_proposal e, ev_kind e)) new)" using that by force
    then show ?thesis unfolding new by auto
  qed
  have "map pr_id (proposals db') = map pr_id (proposals db)" using c by (auto simp: db'_def closes_def)
  then have img: "pr_id ` set (proposals db') = pr_id ` set (proposals db)" by (metis set_map)
  have "event_count K db' (pr_id q) =
    event_count K db (pr_id q) + (if C q \<and> K (pr_status (g q)) then 1 else 0)"
    if "q \<in> set (proposals db)" for K q
    unfolding db'_def event_count_append cnt length_filter_id [OF ok(2) that] by (simp add: event_count_def)
  moreover have "signature_count db' i = signature_count db i" for i by (simp add: db'_def signature_count_def)
  moreover have "q' \<in> set (proposals db') \<Longrightarrow> \<exists>q \<in> set (proposals db). q' = (if C q then g q else q)" for q'
    by (auto simp: db'_def)
  ultimately show ?thesis
    using ok(1) c img ids
    unfolding log_ok_def by (fastforce simp: closes_def terminal_kinds_def db'_def)
qed

lemma closes_ok:
  assumes ok: "proposals_ok db" and c: "closes C g (proposals db)"
    and new: "map (\<lambda>e. (ev_proposal e, ev_kind e)) new =
      map (\<lambda>p. (pr_id p, pr_status (g p))) (filter C (proposals db))"
  shows "proposals_ok (db\<lparr>proposals := map (\<lambda>p. if C p then g p else p) (proposals db), events := events db @ new\<rparr>)"
    (is "proposals_ok ?db'")
proof -
  have "log_ok ?db'" using ok closes_log [OF _ _ c new] by (simp add: proposals_ok_def slots_ok_def)
  moreover have "slots_ok (proposals ?db')" using ok closes_slots [OF _ c] by (simp add: proposals_ok_def)
  ultimately show ?thesis using ok c by (auto simp: proposals_ok_def signers_once_def closes_def)
qed

lemma expire_closes:
  assumes "slots_ok (proposals db)"
  shows "closes (\<lambda>p. stale now p \<and> P p) (\<lambda>p. p\<lparr>pr_status := ProposalExpired, pr_resolved_at := Some now\<rparr>) (proposals db)"
  using assms by (auto simp: closes_def stale_def terminal_kinds_def slots_ok_def proposal_checks_def proposal_statuses_def)

lemma expire_where_ok:
  assumes "proposals_ok db"
  shows "proposals_ok (expire_where P now db)"
  unfolding expire_where_def
proof (rule closes_ok [OF assms])
  show "closes (\<lambda>p. stale now p \<and> P p) (\<lambda>p. p\<lparr>pr_status := ProposalExpired, pr_resolved_at := Some now\<rparr>) (proposals db)"
    using assms by (intro expire_closes) (simp add: proposals_ok_def)
qed (simp add: event_def)

text \<open>The outcome of a resolution: refused with nothing changed, or the one open row closed.\<close>

lemma ResolveProposal_cases:
  assumes "ResolveProposal pf now org i status h detail actor db = (r, db')" "distinct (map pr_id (proposals db))"
  obtains (refused) e where "r = Some e" "db' = db"
  | (closed) p where "r = None" "filter (\<lambda>q. pr_id q = i \<and> pr_org q = org \<and> pr_status q = ProposalOpen) (proposals db) = [p]"
      "proposal_checks (resolved_row status h now p)" "status \<noteq> ProposalOpen"
      "db' = db\<lparr>proposals := map (\<lambda>q. if pr_id q = i \<and> pr_org q = org \<and> pr_status q = ProposalOpen
           then resolved_row status h now q else q) (proposals db),
         events := events db @ [event i status (nullable actor) detail now]\<rparr>"
proof (cases "find (\<lambda>q. pr_id q = i \<and> pr_org q = org \<and> pr_status q = ProposalOpen) (proposals db)")
  case None
  then show thesis using assms(1) refused by (auto simp: ResolveProposal_def split: if_splits)
next
  case (Some p)
  have f: "filter (\<lambda>q. pr_id q = i \<and> pr_org q = org \<and> pr_status q = ProposalOpen) (proposals db) = [p]"
    using assms(2) Some by (intro filter_unique [of pr_id _ _ i]) auto
  show thesis
  proof (cases r)
    case None
    then show thesis
      using assms(1) Some f by (intro closed) (auto simp: ResolveProposal_def split: if_splits)
  next
    case (Some e)
    then show thesis
      using assms(1) \<open>find _ _ = Some p\<close> refused [of e] by (auto simp: ResolveProposal_def split: if_splits)
  qed
qed

lemma resolve_closes:
  assumes "filter (\<lambda>q. pr_id q = i \<and> pr_org q = org \<and> pr_status q = ProposalOpen) ps = [p]"
    "proposal_checks (resolved_row status h now p)" "status \<noteq> ProposalOpen"
  shows "closes (\<lambda>q. pr_id q = i \<and> pr_org q = org \<and> pr_status q = ProposalOpen) (resolved_row status h now) ps"
proof -
  have "{q \<in> set ps. pr_id q = i \<and> pr_org q = org \<and> pr_status q = ProposalOpen} = {p}"
    using arg_cong [OF assms(1), of set] by simp
  then have one: "q = p" if "q \<in> set ps" "pr_id q = i" "pr_org q = org" "pr_status q = ProposalOpen" for q
    using that by blast
  have "pr_status (resolved_row status h now p) \<in> set terminal_kinds"
    using assms(2,3) by (auto simp: proposal_checks_def resolved_row_def proposal_statuses_def terminal_kinds_def)
  then show ?thesis using assms(2) one by (auto simp: closes_def) (auto simp: resolved_row_def)
qed

lemma ResolveProposal_ok:
  assumes "proposals_ok db" "ResolveProposal pf now org i status h detail actor db = (r, db')"
  shows "proposals_ok db'"
proof -
  have "distinct (map pr_id (proposals db))" using assms(1) by (simp add: proposals_ok_def slots_ok_def)
  with assms(2) show ?thesis
  proof (cases rule: ResolveProposal_cases)
    case (closed p)
    have "p \<in> set (filter (\<lambda>q. pr_id q = i \<and> pr_org q = org \<and> pr_status q = ProposalOpen) (proposals db))"
      unfolding closed(2) by simp
    then have "pr_id p = i" by simp
    then show ?thesis unfolding closed(5)
      by (intro closes_ok [OF assms(1) resolve_closes [OF closed(2-4)]]) (simp add: closed(2) event_def resolved_row_def)
  qed (use assms in simp)
qed

subsection \<open>Signing and creating\<close>

lemma AddSignature_cases:
  assumes "AddSignature pf now dbnow org i sig db = (r, db')"
  obtains (refused) e where "r = Some e" "db' = db"
  | (again) p s where "r = None" "db' = db" "find_proposal db org i = Some p" "pr_status p = ProposalOpen"
      "now < pr_expires_at p" "(i, s) \<in> set (signatures db)" "sg_signer s = sg_signer sig"
  | (signed) p where "r = None" "find_proposal db org i = Some p" "pr_status p = ProposalOpen"
      "now < pr_expires_at p" "\<forall>(j, s) \<in> set (signatures db). \<not> (j = i \<and> sg_signer s = sg_signer sig)"
      "db' = db\<lparr>signatures := signatures db @ [(i, sig\<lparr>sg_created_at := dbnow\<rparr>)],
         events := events db @ [event i EventSigned (nullable (sg_added_by sig)) (sg_signer sig) dbnow]\<rparr>"
proof (cases r)
  case (Some e)
  then show thesis
    using assms refused by (auto simp: AddSignature_def Let_def split: if_splits option.splits)
next
  case None
  then obtain p where p: "find_proposal db org i = Some p" "pr_status p = ProposalOpen" "now < pr_expires_at p"
    using assms by (auto simp: AddSignature_def Let_def split: if_splits option.splits)
  show thesis
  proof (cases "list_ex (\<lambda>(j, s). j = i \<and> sg_signer s = sg_signer sig) (signatures db)")
    case True
    then obtain s where "(i, s) \<in> set (signatures db)" "sg_signer s = sg_signer sig" by (auto simp: list_ex_iff)
    moreover have "db' = db"
      using assms p None True by (auto simp: AddSignature_def Let_def split: if_splits)
    ultimately show thesis using again None p by blast
  next
    case False
    then show thesis
      using assms p None by (intro signed [of p]) (auto simp: AddSignature_def Let_def list_ex_iff split: if_splits)
  qed
qed

lemma AddSignature_ok:
  assumes ok: "proposals_ok db" and a: "AddSignature pf now dbnow org i sig db = (r, db')"
  shows "proposals_ok db'"
  using a
proof (cases rule: AddSignature_cases)
  case (signed p)
  have p: "p \<in> set (proposals db)" "pr_id p = i"
    using find_in_set [OF signed(2) [unfolded find_proposal_def]] by auto
  have "log_ok db'"
    using ok p unfolding signed(6)
    by (auto simp: proposals_ok_def log_ok_def event_count_def signature_count_def event_def terminal_kinds_def)
  moreover have "signers_once db'"
    using ok signed(5) by (auto simp: proposals_ok_def signers_once_def signed(6))
  ultimately show ?thesis using ok by (simp add: proposals_ok_def signed(6))
qed (use ok in simp_all)

lemma CreateProposal_cases:
  assumes "CreateProposal pf now p db = (r, db')"
  defines "db1 \<equiv> expire_where (\<lambda>q. pr_treasury q = cp_treasury p \<and> pr_org q = cp_org p) now db"
  obtains (refused) e where "r = Inl e" "db' = spend_id db"
  | (created) i where "r = Inr (proposal_row p now i)" "next_id (proposal_seq db) = Some i"
      "proposal_checks (proposal_row p now i)"
      "\<forall>q \<in> set (proposals db1). \<not> proposal_conflict (proposal_row p now i) q"
      "(cp_treasury p, cp_org p) \<in> set (treasuries db)"
      "db' = db1\<lparr>proposals := proposals db1 @ [proposal_row p now i], proposal_seq := i,
         events := events db1 @ [event i EventCreated None (cp_kind p) now]\<rparr>"
proof (cases "insert_proposal pf now p db1")
  case (Inl e)
  then show thesis using assms refused by (auto simp: CreateProposal_def Let_def)
next
  case (Inr x)
  moreover have "proposal_seq db1 = proposal_seq db" "treasuries db1 = treasuries db"
    by (simp_all add: db1_def expire_where_def)
  ultimately obtain i where "next_id (proposal_seq db) = Some i" "x = (proposal_row p now i,
      db1\<lparr>proposals := proposals db1 @ [proposal_row p now i], proposal_seq := i\<rparr>)"
    "proposal_checks (proposal_row p now i)" "\<not> list_ex (proposal_conflict (proposal_row p now i)) (proposals db1)"
    "(cp_treasury p, cp_org p) \<in> set (treasuries db)"
    by (auto simp: insert_proposal_def Let_def split: if_splits option.splits)
  then show thesis
    using assms Inr by (intro created [of i])
      (auto simp: CreateProposal_def Let_def proposal_row_def list_ex_iff)
qed

lemma spend_id_ok: "proposals_ok db \<Longrightarrow> proposals_ok (spend_id db)"
  by (fastforce simp: spend_id_def proposals_ok_def log_ok_def event_count_def signature_count_def
      signers_once_def dest: next_id_gt split: option.split)

lemma CreateProposal_ok:
  assumes ok: "proposals_ok db" and c: "CreateProposal pf now p db = (r, db')"
  shows "proposals_ok db'"
  using c
proof (cases rule: CreateProposal_cases)
  case (refused e)
  then show ?thesis using ok spend_id_ok by simp
next
  case (created i)
  let ?db1 = "expire_where (\<lambda>q. pr_treasury q = cp_treasury p \<and> pr_org q = cp_org p) now db"
  let ?n = "proposal_row p now i"
  have 1: "proposals_ok ?db1" using ok by (rule expire_where_ok)
  have seq: "proposal_seq ?db1 = proposal_seq db" by (simp add: expire_where_def)
  have n: "pr_id ?n = i" "pr_status ?n = ProposalOpen" by (simp_all add: proposal_row_def)
  have fresh: "sint (pr_id q) < sint i" if "q \<in> set (proposals ?db1)" for q
    using 1 that next_id_gt [OF created(2)] by (fastforce simp: proposals_ok_def seq)
  then have new: "pr_id q \<noteq> i" if "q \<in> set (proposals ?db1)" for q using that by fastforce
  have none: "event_count K ?db1 i = 0" "signature_count ?db1 i = 0" for K
    using 1 new by (fastforce simp: proposals_ok_def log_ok_def event_count_def signature_count_def filter_empty_conv)+
  have "slots_ok (proposals db')"
    using 1 new created(3,4) n unfolding created(6)
    by (auto simp: proposals_ok_def slots_ok_def proposal_conflict_def)
  moreover have "log_ok db'"
    using 1 new n none unfolding created(6)
    by (auto simp: proposals_ok_def log_ok_def event_count_def signature_count_def event_def terminal_kinds_def)
  ultimately show ?thesis
    using 1 fresh n by (auto simp: proposals_ok_def created(6) signers_once_def less_imp_le)
qed

subsection \<open>Reachable states\<close>

lemma step_proposals_ok:
  assumes "proposal_step pf db db'" "proposals_ok db"
  shows "proposals_ok db'"
  using assms(1)
proof cases
  case (p_expire now n)
  then show ?thesis using expire_where_ok [OF assms(2)] by (auto simp: ExpireProposals_def)
next
  case (p_rows ts ms ids)
  then show ?thesis using assms(2)
    by (simp add: proposals_ok_def log_ok_def event_count_def signature_count_def signers_once_def)
next
  case p_create
  then show ?thesis using CreateProposal_ok [OF assms(2)] by simp
next
  case p_sign
  then show ?thesis using AddSignature_ok [OF assms(2)] by simp
next
  case p_resolve
  then show ?thesis using ResolveProposal_ok [OF assms(2)] by simp
qed

lemma proposals_ok_init: "proposals_ok proposal_init"
  by (simp add: proposals_ok_def proposal_init_def slots_ok_def log_ok_def signers_once_def)

lemma steps_proposals_ok: "(proposal_step pf)\<^sup>*\<^sup>* db db' \<Longrightarrow> proposals_ok db \<Longrightarrow> proposals_ok db'"
  by (induction rule: rtranclp_induct) (auto intro: step_proposals_ok)

lemma distinct_filter_eq:
  "distinct (map f (filter P xs)) \<Longrightarrow> x \<in> set xs \<Longrightarrow> P x \<Longrightarrow> y \<in> set xs \<Longrightarrow> P y \<Longrightarrow> f x = f y \<Longrightarrow> x = y"
  by (rule distinct_map_eq [of f "filter P xs"]) simp_all

text \<open>
  C15: a treasury never has two open proposals, and no two proposals are over one envelope, whatever
  was created, signed, resolved or expired before, and in whatever order.
\<close>

theorem one_open_proposal:
  assumes "(proposal_step pf)\<^sup>*\<^sup>* proposal_init db" "p \<in> set (proposals db)" "q \<in> set (proposals db)"
    and "pr_hash p = pr_hash q
      \<or> pr_treasury p = pr_treasury q \<and> pr_status p = ProposalOpen \<and> pr_status q = ProposalOpen"
  shows "p = q"
proof -
  have ok: "slots_ok (proposals db)"
    using steps_proposals_ok [OF assms(1) proposals_ok_init] by (simp add: proposals_ok_def)
  then have d: "distinct (map pr_hash (proposals db))"
    "distinct (map pr_treasury (filter (\<lambda>p. pr_status p = ProposalOpen) (proposals db)))"
    by (simp_all add: slots_ok_def)
  from assms(4) show ?thesis
    using distinct_map_eq [OF d(1) assms(2,3)] distinct_filter_eq [OF d(2) assms(2) _ assms(3)] by blast
qed

text \<open>
  The audit trail agrees with the tables.  Of every proposal the log holds one creation, exactly
  as many signings as it has signatures, no two of them by one key, and one closing event if it is
  closed and none while it is open.
\<close>

theorem audit_trail:
  assumes "(proposal_step pf)\<^sup>*\<^sup>* proposal_init db" "p \<in> set (proposals db)"
  shows "event_count (\<lambda>k. k = EventCreated) db (pr_id p) = 1
    \<and> event_count (\<lambda>k. k = EventSigned) db (pr_id p) = signature_count db (pr_id p)
    \<and> distinct (map (\<lambda>(j, s). (j, sg_signer s)) (signatures db))
    \<and> event_count (\<lambda>k. k \<in> set terminal_kinds) db (pr_id p) = (if pr_status p = ProposalOpen then 0 else 1)"
  using steps_proposals_ok [OF assms(1) proposals_ok_init] assms(2)
  by (simp add: proposals_ok_def log_ok_def signers_once_def)

text \<open>Everything a signature covers.\<close>

definition envelope :: "Proposal \<Rightarrow> Proposal" where
  "envelope p = p\<lparr>pr_status := [], pr_resolved_at := None, pr_submitted := None\<rparr>"

definition evolves :: "Proposal list \<Rightarrow> Proposal list \<Rightarrow> bool" where
  "evolves ps qs \<longleftrightarrow> (\<forall>p \<in> set ps. \<exists>q \<in> set qs. envelope q = envelope p \<and> (pr_status p \<noteq> ProposalOpen \<longrightarrow> q = p))"

lemma evolves_refl [simp]: "evolves ps ps"
  by (auto simp: evolves_def)

lemma evolves_trans: "evolves ps qs \<Longrightarrow> evolves qs rs \<Longrightarrow> evolves ps rs"
  unfolding evolves_def by (metis (no_types))

lemma evolves_append: "evolves ps qs \<Longrightarrow> evolves ps (qs @ rs)"
  by (auto simp: evolves_def)

lemma evolves_map:
  assumes "\<And>p. C p \<Longrightarrow> pr_status p = ProposalOpen" "\<And>p. envelope (g p) = envelope p"
  shows "evolves ps (map (\<lambda>p. if C p then g p else p) ps)"
  unfolding evolves_def
proof
  fix p assume "p \<in> set ps"
  then show "\<exists>q \<in> set (map (\<lambda>p. if C p then g p else p) ps).
      envelope q = envelope p \<and> (pr_status p \<noteq> ProposalOpen \<longrightarrow> q = p)"
    using assms by (intro bexI [of _ "if C p then g p else p"]) auto
qed

lemma evolves_expire: "evolves (proposals db) (proposals (expire_where P now db))"
  unfolding expire_where_def
  by simp (rule evolves_map, auto simp: stale_def envelope_def)

lemma step_evolves:
  assumes "proposal_step pf db db'" "proposals_ok db"
  shows "evolves (proposals db) (proposals db')"
  using assms(1)
proof cases
  case (p_create now p r)
  from p_create(1) show ?thesis
    by (cases rule: CreateProposal_cases)
       (auto simp: spend_id_def intro: evolves_append evolves_expire split: option.split)
next
  case (p_sign now dbnow org i sig e)
  from p_sign(1) show ?thesis by (cases rule: AddSignature_cases) simp_all
next
  case (p_resolve now org i status h detail actor e)
  have "distinct (map pr_id (proposals db))" using assms(2) by (simp add: proposals_ok_def slots_ok_def)
  with p_resolve(1) show ?thesis
  proof (cases rule: ResolveProposal_cases)
    case (closed p)
    then show ?thesis by simp (rule evolves_map, auto simp: envelope_def resolved_row_def)
  qed simp
next
  case (p_expire now n)
  then show ?thesis using evolves_expire by (auto simp: ExpireProposals_def)
qed simp

lemma steps_evolves:
  "(proposal_step pf)\<^sup>*\<^sup>* db db' \<Longrightarrow> proposals_ok db \<Longrightarrow> evolves (proposals db) (proposals db')"
proof (induction rule: rtranclp_induct)
  case (step db1 db2)
  then show ?case
    using step_evolves [OF step(2)] steps_proposals_ok [OF step(1)] by (blast intro: evolves_trans)
qed simp

text \<open>
  What a signature covers is frozen, and a closed proposal stays as it was closed.  In every later
  state the proposal is still there with the same envelope, hash, sequence number, treasury, amount and
  description, and if it was closed it is unchanged in every respect: two members racing to resolve it
  produce one outcome.
\<close>

theorem proposal_frozen:
  assumes "(proposal_step pf)\<^sup>*\<^sup>* proposal_init db" "(proposal_step pf)\<^sup>*\<^sup>* db db'" "p \<in> set (proposals db)"
  shows "\<exists>q \<in> set (proposals db'). envelope q = envelope p \<and> (pr_status p \<noteq> ProposalOpen \<longrightarrow> q = p)"
  using steps_evolves [OF assms(2) steps_proposals_ok [OF assms(1) proposals_ok_init]] assms(3)
  by (simp add: evolves_def)

text \<open>
  C35: a proposal past its window never blocks a new one.  A well-formed proposal over a new envelope is
  created whenever the treasury has no open proposal still inside its window, swept or not, and is then
  the one \<open>OpenProposal\<close> offers for signing.
\<close>

theorem CreateProposal_takes_stale_slot:
  assumes "next_id (proposal_seq db) = Some i" "proposal_storable pf (proposal_row p now i)"
    "proposal_checks (proposal_row p now i)"
    "(cp_treasury p, cp_org p) \<in> set (treasuries db)" "(cp_created_by p, cp_org p) \<in> set (members db)"
    and free: "\<forall>q \<in> set (proposals db). pr_hash q \<noteq> cp_hash p \<and>
      (pr_treasury q = cp_treasury p \<and> pr_status q = ProposalOpen \<longrightarrow> pr_org q = cp_org p \<and> pr_expires_at q \<le> now)"
  shows "fst (CreateProposal pf now p db) = Inr (proposal_row p now i)
    \<and> OpenProposal now (snd (CreateProposal pf now p db)) (cp_org p) (cp_treasury p) = Some (proposal_row p now i)"
proof -
  let ?n = "proposal_row p now i"
  let ?db1 = "expire_where (\<lambda>q. pr_treasury q = cp_treasury p \<and> pr_org q = cp_org p) now db"
  have clear: "pr_hash q \<noteq> cp_hash p" "\<not> (pr_treasury q = cp_treasury p \<and> pr_status q = ProposalOpen)"
    if "q \<in> set (proposals ?db1)" for q
    using that free by (auto simp: expire_where_def stale_def split: if_splits)
  then have "\<not> list_ex (proposal_conflict ?n) (proposals ?db1)"
    by (auto simp: list_ex_iff proposal_conflict_def proposal_row_def)
  then have ins: "insert_proposal pf now p ?db1 = Inr (?n, ?db1\<lparr>proposals := proposals ?db1 @ [?n], proposal_seq := i\<rparr>)"
    using assms by (simp add: insert_proposal_def Let_def expire_where_def)
  have "find (\<lambda>q. pr_treasury q = cp_treasury p \<and> pr_org q = cp_org p \<and> pr_status q = ProposalOpen \<and> now < pr_expires_at q)
      (proposals ?db1 @ [?n]) = Some ?n"
    using clear assms(3) by (intro find_append_none) (auto simp: find_None_iff proposal_row_def proposal_checks_def)
  then show ?thesis using ins by (simp add: CreateProposal_def Let_def OpenProposal_def)
qed

text \<open>
  An approval is taken only while the proposal is open and inside its window, is stored once per
  key, and a second tap by the same key is accepted and changes nothing.
\<close>

theorem AddSignature_idempotent:
  assumes "AddSignature pf now dbnow org i sig db = (None, db')"
  shows "(\<exists>p. find_proposal db org i = Some p \<and> pr_status p = ProposalOpen \<and> now < pr_expires_at p)
    \<and> (\<exists>s. (i, s) \<in> set (signatures db') \<and> sg_signer s = sg_signer sig)
    \<and> AddSignature pf now dbnow' org i sig db' = (None, db')"
proof -
  have c: "text_ok pf (sg_signer sig)" "signature_checks sig"
    using assms by (auto simp: AddSignature_def Let_def split: if_splits option.splits)
  have tap: "AddSignature pf now dbnow' org i sig d = (None, d)"
    if "find_proposal d org i = Some p" "pr_status p = ProposalOpen" "now < pr_expires_at p"
      "(i, s) \<in> set (signatures d)" "sg_signer s = sg_signer sig" for d p s
    using that c by (auto simp: AddSignature_def Let_def list_ex_iff)
  from assms show ?thesis
  proof (cases rule: AddSignature_cases)
    case (again p s)
    then show ?thesis using tap by blast
  next
    case (signed p)
    let ?s = "sig\<lparr>sg_created_at := dbnow\<rparr>"
    have "find_proposal db' org i = Some p" "(i, ?s) \<in> set (signatures db')" "sg_signer ?s = sg_signer sig"
      using signed by (simp_all add: find_proposal_def)
    then show ?thesis using tap signed by blast
  qed simp
qed

section \<open>A small history\<close>

text \<open>One treasury; a proposal created, signed and executed.\<close>

definition demo_params :: CreateProposalParams where
  "demo_params = \<lparr>cp_org = 1, cp_treasury = 7, cp_kind = ''payment'', cp_xdr = ''AAAA'',
     cp_hash = replicate 64 (CHR ''a''), cp_seq = 5, cp_description = ''pay'', cp_digest = replicate 32 (CHR ''d''),
     cp_amount = 50, cp_created_by = 3, cp_expires_at = 100\<rparr>"

definition demo_rows :: proposal_db where
  "demo_rows = proposal_init\<lparr>treasuries := [(7, 1)], members := [(3, 1)], identities := [9]\<rparr>"

definition demo_created :: proposal_db where
  "demo_created = snd (CreateProposal demo_pf 10 demo_params demo_rows)"

definition demo_signature :: ProposalSignature where
  "demo_signature = \<lparr>sg_signer = replicate 56 (CHR ''G''), sg_signature = replicate 64 (CHR ''s''),
     sg_weight = 1, sg_added_by = 9, sg_created_at = 0\<rparr>"

definition demo_signed :: proposal_db where
  "demo_signed = snd (AddSignature demo_pf 20 20 1 1 demo_signature demo_created)"

definition demo_executed :: proposal_db where
  "demo_executed = snd (ResolveProposal demo_pf 30 1 1 ProposalExecuted [] [] 9 demo_signed)"

lemma step_of_snd:
  "proposal_step pf db (snd (CreateProposal pf now p db))"
  "proposal_step pf db (snd (AddSignature pf now dbnow org i sig db))"
  "proposal_step pf db (snd (ResolveProposal pf now org i status h detail actor db))"
  by (metis p_create prod.collapse) (metis p_sign prod.collapse, metis p_resolve prod.collapse)

lemma demo_reaches:
  "(proposal_step demo_pf)\<^sup>*\<^sup>* proposal_init demo_signed" "(proposal_step demo_pf)\<^sup>*\<^sup>* demo_signed demo_executed"
proof -
  have "(proposal_step demo_pf) proposal_init demo_rows" unfolding demo_rows_def by (rule p_rows)
  moreover have "(proposal_step demo_pf) demo_rows demo_created" unfolding demo_created_def by (rule step_of_snd)
  moreover have "(proposal_step demo_pf) demo_created demo_signed" unfolding demo_signed_def by (rule step_of_snd)
  ultimately show "(proposal_step demo_pf)\<^sup>*\<^sup>* proposal_init demo_signed"
    by (metis converse_rtranclp_into_rtranclp r_into_rtranclp)
  have "(proposal_step demo_pf) demo_signed demo_executed" unfolding demo_executed_def by (rule step_of_snd)
  then show "(proposal_step demo_pf)\<^sup>*\<^sup>* demo_signed demo_executed" by blast
qed

lemma demo_hash: "list_all hex_char (replicate 64 (CHR ''a''))"
  by (simp add: list_all_iff hex_char_def is_digit_def)

lemma demo_signer: "issuer_ok (replicate 56 (CHR ''G''))"
  by (simp add: issuer_ok_def list_all_iff base32_char_def)

lemmas proposal_eval =
  CreateProposal_def demo_params_def demo_rows_def demo_pf_def proposal_init_def next_id_def Let_def
  insert_proposal_def proposal_row_def proposal_storable_def proposal_checks_def proposal_kinds_def
  proposal_statuses_def expire_where_def event_def AddSignature_def find_proposal_def
  signature_checks_def demo_signature_def actor_known_def nullable_def ResolveProposal_def
  resolved_row_def event_kinds_def hash_ok_def

lemma demo_created_eq: "demo_created = demo_rows\<lparr>proposals := [proposal_row demo_params 10 1], proposal_seq := 1,
    events := [event 1 EventCreated None ''payment'' 10]\<rparr>"
  by (simp add: demo_created_def proposal_eval demo_hash)

lemma demo_signed_eq: "AddSignature demo_pf 20 20 1 1 demo_signature demo_created = (None, demo_signed)"
  "demo_signed = demo_created\<lparr>signatures := [(1, demo_signature\<lparr>sg_created_at := 20\<rparr>)],
    events := [event 1 EventCreated None ''payment'' 10, event 1 EventSigned (Some 9) (replicate 56 (CHR ''G'')) 20]\<rparr>"
  by (simp_all add: demo_signed_def demo_created_eq proposal_eval demo_signer)

lemma demo_executed_eq: "proposals demo_executed = [resolved_row ProposalExecuted [] 30 (proposal_row demo_params 10 1)]"
  "events demo_executed = events demo_signed @ [event 1 ProposalExecuted (Some 9) [] 30]"
  "signatures demo_executed = signatures demo_signed"
  by (simp_all add: demo_executed_def demo_signed_eq demo_created_eq proposal_eval demo_hash)

theorem one_open_proposal_witness:
  "hd (proposals demo_signed) = last (proposals demo_signed) \<and> pr_status (hd (proposals demo_signed)) = ProposalOpen"
proof -
  have "hd (proposals demo_signed) \<in> set (proposals demo_signed)" "last (proposals demo_signed) \<in> set (proposals demo_signed)"
    "pr_hash (hd (proposals demo_signed)) = pr_hash (last (proposals demo_signed))"
    by (simp_all add: demo_signed_eq(2) demo_created_eq)
  then show ?thesis
    using one_open_proposal [OF demo_reaches(1)] by (simp add: demo_signed_eq(2) demo_created_eq proposal_row_def)
qed

theorem audit_trail_witness:
  "event_count (\<lambda>k. k = EventCreated) demo_executed 1 = 1
    \<and> event_count (\<lambda>k. k = EventSigned) demo_executed 1 = 1 \<and> signature_count demo_executed 1 = 1
    \<and> event_count (\<lambda>k. k \<in> set terminal_kinds) demo_executed 1 = 1"
proof -
  have r: "(proposal_step demo_pf)\<^sup>*\<^sup>* proposal_init demo_executed" using demo_reaches by (rule rtranclp_trans)
  show ?thesis
    using audit_trail [OF r, of "resolved_row ProposalExecuted [] 30 (proposal_row demo_params 10 1)"]
    by (simp add: demo_executed_eq demo_signed_eq(2) resolved_row_def proposal_row_def signature_count_def)
qed

theorem proposal_frozen_witness:
  "envelope (hd (proposals demo_executed)) = envelope (hd (proposals demo_signed))"
  using proposal_frozen [OF demo_reaches, of "proposal_row demo_params 10 1"]
  by (simp add: demo_executed_eq demo_signed_eq(2) demo_created_eq)

theorem CreateProposal_takes_stale_slot_witness:
  "OpenProposal 200 (snd (CreateProposal demo_pf 200 (demo_params\<lparr>cp_hash := replicate 64 (CHR ''b''), cp_expires_at := 300\<rparr>)
     demo_signed)) 1 7 = Some (proposal_row (demo_params\<lparr>cp_hash := replicate 64 (CHR ''b''), cp_expires_at := 300\<rparr>) 200 2)"
proof -
  let ?p = "demo_params\<lparr>cp_hash := replicate 64 (CHR ''b''), cp_expires_at := 300\<rparr>"
  have "CHR ''b'' \<noteq> CHR ''a''" by simp
  then have ne: "replicate 64 (CHR ''a'') \<noteq> replicate 64 (CHR ''b'')" by (simp add: replicate_eq_replicate)
  have h: "list_all hex_char (replicate 64 (CHR ''b''))" by (simp add: list_all_iff hex_char_def is_digit_def)
  have "fst (CreateProposal demo_pf 200 ?p demo_signed) = Inr (proposal_row ?p 200 2)
    \<and> OpenProposal 200 (snd (CreateProposal demo_pf 200 ?p demo_signed)) (cp_org ?p) (cp_treasury ?p) = Some (proposal_row ?p 200 2)"
    by (rule CreateProposal_takes_stale_slot)
       (simp_all add: demo_signed_eq(2) demo_created_eq proposal_eval h ne)
  then show ?thesis by (simp add: demo_params_def)
qed

theorem AddSignature_idempotent_witness:
  "AddSignature demo_pf 20 25 1 1 demo_signature demo_signed = (None, demo_signed)"
  using AddSignature_idempotent [OF demo_signed_eq(1)] by blast

end
