(* ===== verification/Rails.thy ===== *)
theory Rails
  imports Proposal_Store
begin

text \<open>
  The limits the deployment enforces itself: the spend policy and the daily sums of
  \<^verbatim>\<open>ledger/store/workspace.go\<close> (\<open>SpendPolicyOf\<close>, \<open>SetSpendPolicy\<close>, \<open>ProposedSince\<close>) and the guards of
  \<^verbatim>\<open>api/rails.go\<close> (\<open>writable\<close>, \<open>checkSpend\<close>, \<open>preflight\<close>).  What the file system and Horizon
  answer are arguments.  The sums of the guards are the code's own \<open>int64\<close> additions, which wrap:
  the lemmas say when the ceilings hold exactly, and show the case in which the addition defeats them.
\<close>

section \<open>Spend policies\<close>

record SpendPolicy =
  PerPayment :: stroops
  Daily :: stroops

type_synonym policies = "OrgID \<Rightarrow> SpendPolicy option"

datatype rails_error =
    ErrReadOnly
  | CeilingError string string stroops stroops
  | DestinationError string
  | LoadFailed
  | BalanceUnreadable money_error
  | ErrOrgNotFound
  | NegativeCeiling
  | SumOutOfRange

definition SpendPolicyOf :: "policies \<Rightarrow> OrgID \<Rightarrow> (rails_error, SpendPolicy) result" where
  "SpendPolicyOf pol org = (case pol org of None \<Rightarrow> Inl ErrOrgNotFound | Some p \<Rightarrow> Inr p)"

definition SetSpendPolicy :: "OrgID \<Rightarrow> SpendPolicy \<Rightarrow> policies \<Rightarrow> rails_error option \<times> policies" where
  "SetSpendPolicy org p pol =
     (if sint (PerPayment p) < 0 \<or> sint (Daily p) < 0 then (Some NegativeCeiling, pol)
      else if pol org = None then (Some ErrOrgNotFound, pol)
      else (None, pol(org := Some p)))"

text \<open>The sum is taken in \<open>numeric\<close> and cast back to \<open>bigint\<close>, which raises when it does not fit.\<close>

definition counts_since :: "OrgID \<Rightarrow> int \<Rightarrow> Proposal \<Rightarrow> bool" where
  "counts_since org since p \<longleftrightarrow> (org = 0 \<or> pr_org p = org) \<and> since < pr_created_at p
     \<and> pr_status p \<in> {ProposalOpen, ProposalExecuted}"

definition amount_of :: "Proposal \<Rightarrow> int" where
  "amount_of p = (case pr_amount p of None \<Rightarrow> 0 | Some a \<Rightarrow> sint a)"

definition proposed_total :: "proposal_db \<Rightarrow> OrgID \<Rightarrow> int \<Rightarrow> int" where
  "proposed_total db org since = sum_list (map amount_of (filter (counts_since org since) (proposals db)))"

definition ProposedSince :: "proposal_db \<Rightarrow> OrgID \<Rightarrow> int \<Rightarrow> (rails_error, stroops) result" where
  "ProposedSince db org since =
     (let s = proposed_total db org since
      in if in_int64 s then Inr (word_of_int s) else Inl SumOutOfRange)"

section \<open>The guards\<close>

datatype stat_result = StatFound | StatNotExist | StatOther

record rails_config =
  ReadOnly :: bool
  ReadOnlyFile :: string
  MaxPayment :: stroops
  MaxDaily :: stroops
  CreditAsset :: "(string \<times> string) option"

definition writable :: "rails_config \<Rightarrow> (string \<Rightarrow> stat_result) \<Rightarrow> rails_error option" where
  "writable cfg stat =
     (if ReadOnly cfg then Some ErrReadOnly
      else let path = ReadOnlyFile cfg
           in if path \<noteq> []
              then (case stat path of
                      StatFound \<Rightarrow> Some ErrReadOnly
                    | StatNotExist \<Rightarrow> None
                    | StatOther \<Rightarrow> Some ErrReadOnly)
              else None)"

text \<open>Instants are in nanoseconds.\<close>

definition day :: int where
  "day = 24 * 60 * 60 * 10 ^ 9"

definition over_payment :: "string \<Rightarrow> stroops \<Rightarrow> stroops \<Rightarrow> rails_error option" where
  "over_payment scope limit amount =
     (if sint limit > 0 \<and> sint amount > sint limit
      then Some (CeilingError scope ''payment'' limit amount) else None)"

definition over_day ::
  "proposal_db \<Rightarrow> OrgID \<Rightarrow> int \<Rightarrow> string \<Rightarrow> stroops \<Rightarrow> stroops \<Rightarrow> rails_error option" where
  "over_day db org since scope limit amount =
     (if sint limit > 0
      then (case ProposedSince db org since of
              Inl e \<Rightarrow> Some e
            | Inr so \<Rightarrow> if sint (so + amount) > sint limit
                        then Some (CeilingError scope ''day'' limit (so + amount)) else None)
      else None)"

definition checkSpend ::
  "rails_config \<Rightarrow> policies \<Rightarrow> proposal_db \<Rightarrow> int \<Rightarrow> OrgID \<Rightarrow> stroops \<Rightarrow> rails_error option" where
  "checkSpend cfg pol db now org amount =
     (case SpendPolicyOf pol org of
        Inl e \<Rightarrow> Some e
      | Inr policy \<Rightarrow>
          (case over_payment ''workspace'' (PerPayment policy) amount of
             Some e \<Rightarrow> Some e
           | None \<Rightarrow>
          (case over_payment ''deployment'' (MaxPayment cfg) amount of
             Some e \<Rightarrow> Some e
           | None \<Rightarrow>
          (case over_day db org (now - day) ''workspace'' (Daily policy) amount of
             Some e \<Rightarrow> Some e
           | None \<Rightarrow> over_day db 0 (now - day) ''deployment'' (MaxDaily cfg) amount))))"

record balance_line =
  bl_code :: string
  bl_issuer :: string
  bl_authorized :: "bool option"
  bl_balance :: string
  bl_limit :: string

datatype load_error = AccountNotFound | LoadError

fun check_lines :: "string \<Rightarrow> string \<Rightarrow> stroops \<Rightarrow> balance_line list \<Rightarrow> rails_error option" where
  "check_lines code issuer amount [] = Some (DestinationError ''no trustline'')"
| "check_lines code issuer amount (b # bs) =
     (if bl_code b \<noteq> code \<or> bl_issuer b \<noteq> issuer then check_lines code issuer amount bs
      else if bl_authorized b = Some False then Some (DestinationError ''not authorised'')
      else case Parse (bl_balance b) of
             Inl e \<Rightarrow> Some (BalanceUnreadable e)
           | Inr held \<Rightarrow>
               (case Parse (bl_limit b) of
                  Inl e \<Rightarrow> Some (BalanceUnreadable e)
                | Inr limit \<Rightarrow>
                    if sint (held + amount) > sint limit then Some (DestinationError ''trustline limit'')
                    else None))"

definition preflight ::
  "rails_config \<Rightarrow> (string \<Rightarrow> (load_error, balance_line list) result) \<Rightarrow> string \<Rightarrow> stroops \<Rightarrow> rails_error option" where
  "preflight cfg load destination amount =
     (case load destination of
        Inl AccountNotFound \<Rightarrow> Some (DestinationError ''does not exist on this network yet'')
      | Inl LoadError \<Rightarrow> Some LoadFailed
      | Inr bs \<Rightarrow>
          (case CreditAsset cfg of
             None \<Rightarrow> None
           | Some (code, issuer) \<Rightarrow>
               if destination = issuer then None else check_lines code issuer amount bs))"

section \<open>What the guards guarantee\<close>

lemma writable_iff: "writable cfg stat = None \<longleftrightarrow>
    \<not> ReadOnly cfg \<and> (ReadOnlyFile cfg = [] \<or> stat (ReadOnlyFile cfg) = StatNotExist)"
  by (auto simp: writable_def Let_def split: stat_result.splits)

lemma over_payment_None: "over_payment sc limit amount = None \<longleftrightarrow> (sint limit > 0 \<longrightarrow> sint amount \<le> sint limit)"
  by (auto simp: over_payment_def)

lemma ProposedSince_Inr: "ProposedSince db org since = Inr so \<longleftrightarrow> sint so = proposed_total db org since"
  unfolding ProposedSince_def Let_def
  by (metis Inl_Inr_False Inr_inject sint_eq_iff64 sint_in_int64 sint_word_of_int64 wrap64_id)

lemma over_day_None:
  assumes "over_day db org since sc limit amount = None" "sint limit > 0"
    and "in_int64 (proposed_total db org since + sint amount)"
  shows "proposed_total db org since + sint amount \<le> sint limit"
proof -
  obtain so where so: "ProposedSince db org since = Inr so" "sint (so + amount) \<le> sint limit"
    using assms(1,2) by (auto simp: over_day_def split: sum.splits if_splits)
  then have "sint so = proposed_total db org since" by (simp add: ProposedSince_Inr)
  then show ?thesis using so(2) assms(3) by (simp add: sint_add64 wrap64_id)
qed

text \<open>
  C30: a payment that passes \<open>checkSpend\<close> is within every ceiling that is set: the workspace's and the
  deployment's, per payment and (with what was proposed in the last twenty-four hours and is open or
  executed) per day, provided that the daily figures fit in an \<open>int64\<close>.
\<close>

theorem checkSpend_holds_ceilings:
  assumes "checkSpend cfg pol db now org amount = None"
    and "in_int64 (proposed_total db org (now - day) + sint amount)"
    and "in_int64 (proposed_total db 0 (now - day) + sint amount)"
  shows "\<exists>p. pol org = Some p
    \<and> (sint (PerPayment p) > 0 \<longrightarrow> sint amount \<le> sint (PerPayment p))
    \<and> (sint (MaxPayment cfg) > 0 \<longrightarrow> sint amount \<le> sint (MaxPayment cfg))
    \<and> (sint (Daily p) > 0 \<longrightarrow> proposed_total db org (now - day) + sint amount \<le> sint (Daily p))
    \<and> (sint (MaxDaily cfg) > 0 \<longrightarrow> proposed_total db 0 (now - day) + sint amount \<le> sint (MaxDaily cfg))"
proof -
  obtain p where p: "pol org = Some p" "over_payment ''workspace'' (PerPayment p) amount = None"
    "over_payment ''deployment'' (MaxPayment cfg) amount = None"
    "over_day db org (now - day) ''workspace'' (Daily p) amount = None"
    "over_day db 0 (now - day) ''deployment'' (MaxDaily cfg) amount = None"
    using assms(1) by (auto simp: checkSpend_def SpendPolicyOf_def split: option.splits)
  then show ?thesis
    using over_day_None [OF p(4) _ assms(2)] over_day_None [OF p(5) _ assms(3)]
    by (auto simp: over_payment_None)
qed

lemma check_lines_None:
  assumes "check_lines code issuer amount bs = None"
  shows "\<exists>b held limit. b \<in> set bs \<and> bl_code b = code \<and> bl_issuer b = issuer \<and> bl_authorized b \<noteq> Some False
    \<and> Parse (bl_balance b) = Inr held \<and> Parse (bl_limit b) = Inr limit \<and> sint (held + amount) \<le> sint limit"
  using assms
proof (induction bs)
  case (Cons b bs)
  show ?case
  proof (cases "bl_code b \<noteq> code \<or> bl_issuer b \<noteq> issuer")
    case True
    then show ?thesis using Cons by auto
  next
    case False
    then show ?thesis using Cons.prems by (auto split: if_splits sum.splits)
  qed
qed simp

text \<open>
  A destination that passes \<open>preflight\<close> exists, and for an issued asset it is the issuer or holds an
  authorised trustline to exactly that asset with room for the payment, as long as what it holds and
  the payment together fit in an \<open>int64\<close>.
\<close>

theorem preflight_destination_can_receive:
  assumes "preflight cfg load dest amount = None"
  shows "\<exists>bs. load dest = Inr bs \<and>
    (case CreditAsset cfg of None \<Rightarrow> True
     | Some (code, issuer) \<Rightarrow> dest = issuer \<or>
         (\<exists>b \<in> set bs. \<exists>held limit. bl_code b = code \<and> bl_issuer b = issuer \<and> bl_authorized b \<noteq> Some False
            \<and> Parse (bl_balance b) = Inr held \<and> Parse (bl_limit b) = Inr limit
            \<and> (in_int64 (sint held + sint amount) \<longrightarrow> sint held + sint amount \<le> sint limit)))"
proof -
  obtain bs where l: "load dest = Inr bs"
    using assms by (auto simp: preflight_def split: sum.splits load_error.splits)
  show ?thesis
  proof (cases "CreditAsset cfg")
    case (Some a)
    then obtain code issuer where a: "CreditAsset cfg = Some (code, issuer)" by (cases a) auto
    show ?thesis
    proof (cases "dest = issuer")
      case False
      then have "check_lines code issuer amount bs = None" using assms a l by (simp add: preflight_def)
      from check_lines_None [OF this] show ?thesis
        using l a by (auto simp: sint_add64) (metis wrap64_id)
    qed (use l a in simp)
  qed (use l in simp)
qed

section \<open>Instances\<close>

definition demo_cfg :: rails_config where
  "demo_cfg = \<lparr>ReadOnly = False, ReadOnlyFile = [], MaxPayment = 0, MaxDaily = 0,
     CreditAsset = Some (''USDC'', ''GISSUER'')\<rparr>"

definition demo_policies :: policies where
  "demo_policies = [1 \<mapsto> \<lparr>PerPayment = 0, Daily = 100\<rparr>]"

lemma demo_total: "proposed_total demo_signed org (20 - day) = (if org = 0 \<or> org = 1 then 50 else 0)"
  by (simp add: proposed_total_def demo_signed_eq(2) demo_created_eq counts_since_def amount_of_def
      proposal_row_def demo_params_def day_def)

theorem checkSpend_holds_ceilings_witness:
  "checkSpend demo_cfg demo_policies demo_signed 20 1 50 = None
   \<and> proposed_total demo_signed 1 (20 - day) + sint (50 :: stroops) \<le> 100"
proof -
  have c: "checkSpend demo_cfg demo_policies demo_signed 20 1 50 = None"
    by (simp add: checkSpend_def SpendPolicyOf_def demo_policies_def over_payment_def over_day_def
        ProposedSince_def demo_total Let_def in_int64_def demo_cfg_def)
  show ?thesis
    using checkSpend_holds_ceilings [OF c] c by (auto simp: demo_total in_int64_def demo_policies_def)
qed

text \<open>
  The addition wraps: with no per-payment ceiling, a workspace with a daily ceiling of 100 stroops and 50
  already proposed accepts a payment of the largest amount there is.
\<close>

lemma daily_ceiling_wraps:
  "checkSpend demo_cfg demo_policies demo_signed 20 1 maxStroops = None
   \<and> proposed_total demo_signed 1 (20 - day) + sint maxStroops > 100"
  by (simp add: checkSpend_def SpendPolicyOf_def demo_policies_def over_payment_def over_day_def
      ProposedSince_def demo_total Let_def in_int64_def demo_cfg_def maxStroops_def)

definition demo_load :: "string \<Rightarrow> (load_error, balance_line list) result" where
  "demo_load a = (if a = ''GDEST'' then Inr [\<lparr>bl_code = ''USDC'', bl_issuer = ''GISSUER'', bl_authorized = Some True,
     bl_balance = String_of 10, bl_limit = String_of 100\<rparr>] else Inl AccountNotFound)"

theorem preflight_destination_can_receive_witness:
  "preflight demo_cfg demo_load ''GDEST'' 50 = None \<and> bl_code (hd (projr (demo_load ''GDEST''))) = ''USDC''"
proof -
  have p: "preflight demo_cfg demo_load ''GDEST'' 50 = None"
    by (simp add: preflight_def demo_load_def demo_cfg_def Parse_String)
  show ?thesis
    using p preflight_destination_can_receive [OF p] by (auto simp: demo_cfg_def demo_load_def)
qed

end
