(* ===== verification/Signer.thy ===== *)
theory Signer
  imports Ledger
begin

text \<open>
  \<^verbatim>\<open>signer/\<close>: what contributes signatures, and what only counts them.  \<open>Router_Sign\<close> dispatches on a
  purpose, \<open>External_Sign\<close> is the signer of a treasury and signs nothing, \<open>Attribute\<close> decides which of an
  account's signers are on an envelope, and \<open>Local_Sign\<close> is the operator's own key.

  The Stellar SDK (envelopes, hashes, addresses, Ed25519) is the record \<open>sdk\<close> of functions over an
  unspecified type of envelopes.  A Go map is an association list with distinct keys, and the order in
  which the runtime visits it in the \<open>k\<close>-th loop is the argument \<open>ord k\<close>.  A request with neither a transaction nor a fee bump,
  which no caller makes and which the code would dereference, is the value \<open>NothingToSign\<close>.
\<close>

section \<open>Data\<close>

type_synonym int32 = "32 word"
type_synonym address = string

record env_sig =
  sig_hint :: string
  sig_bytes :: string

record ('tx, 'fb, 'kp) sdk =
  Hash :: "'tx \<Rightarrow> string \<Rightarrow> string option"
  TxSignatures :: "'tx \<Rightarrow> env_sig list"
  HintOf :: "address \<Rightarrow> string option"
  Verify :: "address \<Rightarrow> string \<Rightarrow> string \<Rightarrow> bool"
  SignTx :: "string \<Rightarrow> 'kp \<Rightarrow> 'tx \<Rightarrow> 'tx option"
  SignFeeBump :: "string \<Rightarrow> 'kp \<Rightarrow> 'fb \<Rightarrow> 'fb option"
  ParseFull :: "string \<Rightarrow> 'kp option"
  KeyAddress :: "'kp \<Rightarrow> address"
  PublicNetworkPassphrase :: string

record signer_set =
  signers :: "(address \<times> int32) list"
  medium :: int32

abbreviation PurposeSponsor :: string where "PurposeSponsor \<equiv> ''sponsor''"
abbreviation PurposeFeeBump :: string where "PurposeFeeBump \<equiv> ''fee_bump''"
abbreviation PurposeTreasury :: string where "PurposeTreasury \<equiv> ''treasury''"
abbreviation PurposeChallenge :: string where "PurposeChallenge \<equiv> ''challenge''"

datatype signer_error =
    NoPurpose | NoNetwork | NothingToSign | BothEnvelopes
  | ErrNetworkMismatch | ErrNoSigner | ErrMainnetKeyInProcess
  | NoSigners | HashFailed | BadSigner address | FeeBumpNotTreasury | SignFailed
  | RouterIncomplete | BadSeed | SignedElsewhere | LookupFailed

record ('tx, 'fb) Request =
  rq_org :: OrgID
  rq_purpose :: string
  rq_network :: string
  rq_account :: address
  rq_tx :: "'tx option"
  rq_feebump :: "'fb option"

record ('tx, 'fb) Response =
  rs_tx :: "'tx option"
  rs_feebump :: "'fb option"
  rs_complete :: bool
  rs_have :: int32
  rs_need :: int32

definition Request_validate :: "('tx, 'fb) Request \<Rightarrow> signer_error option" where
  "Request_validate r =
     (if rq_purpose r = [] then Some NoPurpose
      else if rq_network r = [] then Some NoNetwork
      else if rq_tx r = None \<and> rq_feebump r = None then Some NothingToSign
      else if rq_tx r \<noteq> None \<and> rq_feebump r \<noteq> None then Some BothEnvelopes
      else None)"

section \<open>Who signed\<close>

type_synonym map_order = "nat \<Rightarrow> (address \<times> int32) list \<Rightarrow> (address \<times> int32) list"

definition signed_by :: "('tx, 'fb, 'kp) sdk \<Rightarrow> string \<Rightarrow> env_sig \<Rightarrow> address \<Rightarrow> bool" where
  "signed_by S hash sig a \<longleftrightarrow> HintOf S a = Some (sig_hint sig) \<and> Verify S a hash (sig_bytes sig)"

text \<open>The inner loop: the first key not yet counted that the signature verifies under.\<close>

fun match_key ::
  "('tx, 'fb, 'kp) sdk \<Rightarrow> string \<Rightarrow> env_sig \<Rightarrow> (address \<times> int32) list \<Rightarrow> (address \<times> int32) list
   \<Rightarrow> (address \<times> int32) option" where
  "match_key S hash sig seen [] = None"
| "match_key S hash sig seen ((a, w) # keys) =
     (if a \<in> fst ` set seen then match_key S hash sig seen keys
      else if \<not> signed_by S hash sig a then match_key S hash sig seen keys
      else Some (a, w))"

fun attribute_loop ::
  "('tx, 'fb, 'kp) sdk \<Rightarrow> map_order \<Rightarrow> nat \<Rightarrow> string \<Rightarrow> (address \<times> int32) list \<Rightarrow> env_sig list
   \<Rightarrow> (address \<times> int32) list \<Rightarrow> (address \<times> int32) list" where
  "attribute_loop S ord k hash keys [] seen = seen"
| "attribute_loop S ord k hash keys (sig # sigs) seen =
     (case match_key S hash sig seen (ord k keys) of
        None \<Rightarrow> attribute_loop S ord (Suc k) hash keys sigs seen
      | Some aw \<Rightarrow> attribute_loop S ord (Suc k) hash keys sigs (seen @ [aw]))"

definition Attribute ::
  "('tx, 'fb, 'kp) sdk \<Rightarrow> map_order \<Rightarrow> env_sig list \<Rightarrow> 'tx \<Rightarrow> string \<Rightarrow> signer_set
   \<Rightarrow> (signer_error, (address \<times> int32) list) result" where
  "Attribute S ord sigs env network s =
     (if signers s = [] then Inl NoSigners
      else case Hash S env network of
             None \<Rightarrow> Inl HashFailed
           | Some hash \<Rightarrow>
               (case find (\<lambda>(a, w). HintOf S a = None) (ord 0 (signers s)) of
                  Some (a, w) \<Rightarrow> Inl (BadSigner a)
                | None \<Rightarrow> Inr (attribute_loop S ord 1 hash (signers s) sigs [])))"

definition weightOf ::
  "('tx, 'fb, 'kp) sdk \<Rightarrow> map_order \<Rightarrow> env_sig list \<Rightarrow> 'tx \<Rightarrow> string \<Rightarrow> signer_set
   \<Rightarrow> (signer_error, int32) result" where
  "weightOf S ord sigs env network s =
     (case Attribute S ord sigs env network s of
        Inl e \<Rightarrow> Inl e
      | Inr seen \<Rightarrow> Inr (sum_list (map snd seen)))"

section \<open>The signers\<close>

definition External_Sign ::
  "('tx, 'fb, 'kp) sdk \<Rightarrow> map_order \<Rightarrow> signer_set \<Rightarrow> ('tx, 'fb) Request
   \<Rightarrow> (signer_error, ('tx, 'fb) Response) result" where
  "External_Sign S ord s req =
     (if rq_feebump req \<noteq> None then Inl FeeBumpNotTreasury
      else case rq_tx req of
             None \<Rightarrow> Inl NothingToSign
           | Some tx \<Rightarrow>
               (case weightOf S ord (TxSignatures S tx) tx (rq_network req) s of
                  Inl e \<Rightarrow> Inl e
                | Inr have_w \<Rightarrow>
                    Inr \<lparr>rs_tx = Some tx, rs_feebump = None,
                         rs_complete = (sint (medium s) > 0 \<and> sint have_w \<ge> sint (medium s)),
                         rs_have = have_w, rs_need = medium s\<rparr>))"

definition External_Address :: "(signer_error, address) result" where
  "External_Address = Inl SignedElsewhere"

record 'kp Local =
  lc_kp :: 'kp
  lc_network :: string

definition NewLocal ::
  "('tx, 'fb, 'kp) sdk \<Rightarrow> string \<Rightarrow> string \<Rightarrow> bool \<Rightarrow> (signer_error, 'kp Local) result" where
  "NewLocal S seed networkPassphrase allowMainnet =
     (case ParseFull S seed of
        None \<Rightarrow> Inl BadSeed
      | Some kp \<Rightarrow>
          if networkPassphrase = [] then Inl NoNetwork
          else if networkPassphrase = PublicNetworkPassphrase S \<and> \<not> allowMainnet then Inl ErrMainnetKeyInProcess
          else Inr \<lparr>lc_kp = kp, lc_network = networkPassphrase\<rparr>)"

definition Local_Address :: "('tx, 'fb, 'kp) sdk \<Rightarrow> 'kp Local \<Rightarrow> address" where
  "Local_Address S l = KeyAddress S (lc_kp l)"

definition Local_Sign ::
  "('tx, 'fb, 'kp) sdk \<Rightarrow> 'kp Local \<Rightarrow> ('tx, 'fb) Request \<Rightarrow> (signer_error, ('tx, 'fb) Response) result" where
  "Local_Sign S l req =
     (case rq_feebump req of
        Some fb \<Rightarrow>
          (case SignFeeBump S (lc_network l) (lc_kp l) fb of
             None \<Rightarrow> Inl SignFailed
           | Some fb' \<Rightarrow> Inr \<lparr>rs_tx = None, rs_feebump = Some fb', rs_complete = True, rs_have = 0, rs_need = 0\<rparr>)
      | None \<Rightarrow>
          (case rq_tx req of
             None \<Rightarrow> Inl NothingToSign
           | Some tx \<Rightarrow>
               (case SignTx S (lc_network l) (lc_kp l) tx of
                  None \<Rightarrow> Inl SignFailed
                | Some tx' \<Rightarrow> Inr \<lparr>rs_tx = Some tx', rs_feebump = None, rs_complete = True, rs_have = 0, rs_need = 0\<rparr>)))"

type_synonym ('tx, 'fb) signer_fn = "('tx, 'fb) Request \<Rightarrow> (signer_error, ('tx, 'fb) Response) result"

record ('tx, 'fb) Router =
  rt_network :: string
  rt_operator :: "('tx, 'fb) signer_fn"
  rt_webAuth :: "('tx, 'fb) signer_fn option"
  rt_treasury :: "OrgID \<Rightarrow> address \<Rightarrow> (signer_error, signer_set) result"

definition NewRouter ::
  "string \<Rightarrow> ('tx, 'fb) signer_fn option \<Rightarrow> ('tx, 'fb) signer_fn option
   \<Rightarrow> (OrgID \<Rightarrow> address \<Rightarrow> (signer_error, signer_set) result) option
   \<Rightarrow> (signer_error, ('tx, 'fb) Router) result" where
  "NewRouter network operator webAuth treasury =
     (case (operator, treasury) of
        (Some op, Some t) \<Rightarrow>
          if network = [] then Inl RouterIncomplete
          else Inr \<lparr>rt_network = network, rt_operator = op, rt_webAuth = webAuth, rt_treasury = t\<rparr>
      | _ \<Rightarrow> Inl RouterIncomplete)"

definition Router_Sign ::
  "('tx, 'fb, 'kp) sdk \<Rightarrow> map_order \<Rightarrow> ('tx, 'fb) Router \<Rightarrow> ('tx, 'fb) Request
   \<Rightarrow> (signer_error, ('tx, 'fb) Response) result" where
  "Router_Sign S ord r req =
     (case Request_validate req of
        Some e \<Rightarrow> Inl e
      | None \<Rightarrow>
          if rq_network req \<noteq> rt_network r then Inl ErrNetworkMismatch
          else if rq_purpose req = PurposeSponsor \<or> rq_purpose req = PurposeFeeBump then rt_operator r req
          else if rq_purpose req = PurposeChallenge
               then (case rt_webAuth r of None \<Rightarrow> Inl ErrNoSigner | Some w \<Rightarrow> w req)
          else if rq_purpose req = PurposeTreasury
               then (case rt_treasury r (rq_org req) (rq_account req) of
                       Inl e \<Rightarrow> Inl e
                     | Inr s \<Rightarrow> External_Sign S ord s req)
          else Inl ErrNoSigner)"

section \<open>Counting\<close>

definition permutes :: "map_order \<Rightarrow> bool" where
  "permutes ord \<longleftrightarrow> (\<forall>k xs. set (ord k xs) = set xs)"

lemma match_key_Some:
  "match_key S hash sig seen keys = Some (a, w) \<Longrightarrow>
     (a, w) \<in> set keys \<and> a \<notin> fst ` set seen \<and> signed_by S hash sig a"
  by (induction S hash sig seen keys rule: match_key.induct) (auto split: if_splits)

lemma match_key_None:
  "match_key S hash sig seen keys = None \<longleftrightarrow>
     (\<forall>(a, w) \<in> set keys. signed_by S hash sig a \<longrightarrow> a \<in> fst ` set seen)"
  by (induction S hash sig seen keys rule: match_key.induct) (auto split: if_splits)

text \<open>Everything in the result was there, or is a signer with a signature of its own; each once.\<close>

lemma attribute_loop_sound:
  assumes "permutes ord" "distinct (map fst seen)"
    and "\<forall>(a, w) \<in> set seen. (a, w) \<in> set keys \<and> (\<exists>sig \<in> set all. signed_by S hash sig a)"
    and "set sigs \<subseteq> set all"
  shows "distinct (map fst (attribute_loop S ord k hash keys sigs seen))
    \<and> (\<forall>(a, w) \<in> set (attribute_loop S ord k hash keys sigs seen).
         (a, w) \<in> set keys \<and> (\<exists>sig \<in> set all. signed_by S hash sig a))"
  using assms(2-)
proof (induction sigs arbitrary: k seen)
  case (Cons sig sigs)
  show ?case
  proof (cases "match_key S hash sig seen (ord k keys)")
    case None
    then show ?thesis using Cons by simp
  next
    case (Some aw)
    obtain a w where aw: "aw = (a, w)" by (cases aw)
    have m: "(a, w) \<in> set keys" "a \<notin> fst ` set seen" "signed_by S hash sig a"
      using match_key_Some [OF Some [unfolded aw]] assms(1) by (simp_all add: permutes_def)
    have d: "distinct (map fst (seen @ [aw]))" using Cons.prems(1) m(2) aw by simp
    have p: "\<forall>(a, w) \<in> set (seen @ [aw]). (a, w) \<in> set keys \<and> (\<exists>sig \<in> set all. signed_by S hash sig a)"
      using Cons.prems m aw by auto
    have q: "set sigs \<subseteq> set all" using Cons.prems(3) by simp
    show ?thesis unfolding attribute_loop.simps Some option.case by (rule Cons.IH [OF d p q])
  qed
qed simp

lemma attribute_loop_mono: "set seen \<subseteq> set (attribute_loop S ord k hash keys sigs seen)"
proof (induction sigs arbitrary: k seen)
  case (Cons sig sigs)
  show ?case
  proof (cases "match_key S hash sig seen (ord k keys)")
    case (Some aw)
    then show ?thesis using Cons.IH [of "seen @ [aw]" "Suc k"] by simp
  qed (use Cons in simp)
qed simp

text \<open>A signature verifies under at most one of the account's keys.\<close>

definition one_key_each :: "('tx, 'fb, 'kp) sdk \<Rightarrow> string \<Rightarrow> env_sig list \<Rightarrow> (address \<times> int32) list \<Rightarrow> bool" where
  "one_key_each S hash sigs keys \<longleftrightarrow>
     (\<forall>sig \<in> set sigs. \<forall>a \<in> fst ` set keys. \<forall>b \<in> fst ` set keys.
        signed_by S hash sig a \<and> signed_by S hash sig b \<longrightarrow> a = b)"

lemma attribute_loop_complete:
  assumes "permutes ord" "one_key_each S hash sigs keys" "distinct (map fst keys)"
    and "(a, w) \<in> set keys" "sig \<in> set sigs" "signed_by S hash sig a"
  shows "a \<in> fst ` set (attribute_loop S ord k hash keys sigs seen)"
  using assms(2,5)
proof (induction sigs arbitrary: k seen)
  case (Cons s sigs)
  have one: "one_key_each S hash sigs keys" using Cons.prems(1) by (simp add: one_key_each_def)
  let ?m = "match_key S hash s seen (ord k keys)"
  let ?seen = "case ?m of None \<Rightarrow> seen | Some aw \<Rightarrow> seen @ [aw]"
  have step: "attribute_loop S ord k hash keys (s # sigs) seen = attribute_loop S ord (Suc k) hash keys sigs ?seen"
    by (simp split: option.split)
  show ?case
  proof (cases "sig = s")
    case False
    then show ?thesis unfolding step using Cons.IH [OF one] Cons.prems(2) by simp
  next
    case True
    have "a \<in> fst ` set ?seen"
    proof (cases ?m)
      case None
      then have "\<forall>(a, w) \<in> set keys. signed_by S hash s a \<longrightarrow> a \<in> fst ` set seen"
        using assms(1) unfolding match_key_None by (simp add: permutes_def)
      then show ?thesis using assms(4,6) True None by auto
    next
      case (Some aw)
      obtain b v where b: "aw = (b, v)" by (cases aw)
      have "(b, v) \<in> set keys" "signed_by S hash s b"
        using match_key_Some [OF Some [unfolded b]] assms(1) by (simp_all add: permutes_def)
      then have "b = a" using Cons.prems(1) assms(4,6) True by (force simp: one_key_each_def)
      then show ?thesis using Some b by simp
    qed
    then show ?thesis unfolding step using attribute_loop_mono by blast
  qed
qed simp

text \<open>
  The signers of the account that have a verifying signature on the envelope, and their weight.
\<close>

definition signers_on :: "('tx, 'fb, 'kp) sdk \<Rightarrow> string \<Rightarrow> env_sig list \<Rightarrow> (address \<times> int32) list \<Rightarrow> (address \<times> int32) list" where
  "signers_on S hash sigs keys = filter (\<lambda>(a, w). \<exists>sig \<in> set sigs. signed_by S hash sig a) keys"

lemma attribute_loop_exact:
  assumes "permutes ord" "one_key_each S hash sigs keys" "distinct (map fst keys)"
  shows "mset (attribute_loop S ord k hash keys sigs []) = mset (signers_on S hash sigs keys)"
proof -
  let ?r = "attribute_loop S ord k hash keys sigs []"
  have s: "distinct (map fst ?r)"
    "\<forall>(a, w) \<in> set ?r. (a, w) \<in> set keys \<and> (\<exists>sig \<in> set sigs. signed_by S hash sig a)"
    using attribute_loop_sound [OF assms(1), of "[]" keys sigs S hash sigs k] by auto
  have "set ?r = set (signers_on S hash sigs keys)"
  proof
    show "set ?r \<subseteq> set (signers_on S hash sigs keys)" using s(2) by (auto simp: signers_on_def)
    show "set (signers_on S hash sigs keys) \<subseteq> set ?r"
    proof
      fix x assume "x \<in> set (signers_on S hash sigs keys)"
      then obtain a w sig where x: "x = (a, w)" "(a, w) \<in> set keys" "sig \<in> set sigs" "signed_by S hash sig a"
        by (auto simp: signers_on_def)
      then have "a \<in> fst ` set ?r" using attribute_loop_complete [OF assms] by blast
      then obtain v where v: "(a, v) \<in> set ?r" by auto
      then have "(a, v) \<in> set keys" using s(2) by blast
      then have "v = w" using x(2) distinct_map_eq [OF assms(3), of "(a, v)" "(a, w)"] by simp
      then show "x \<in> set ?r" using v x by simp
    qed
  qed
  moreover have "distinct ?r" using s(1) by (simp add: distinct_map)
  moreover have "distinct (signers_on S hash sigs keys)"
    using assms(3) by (simp add: signers_on_def distinct_map)
  ultimately show ?thesis by (simp add: set_eq_iff_mset_eq_distinct)
qed

lemma Attribute_Inr:
  assumes "permutes ord"
  shows "Attribute S ord sigs env network s = Inr r \<longleftrightarrow>
    signers s \<noteq> [] \<and> (\<exists>hash. Hash S env network = Some hash \<and> (\<forall>a \<in> fst ` set (signers s). HintOf S a \<noteq> None)
      \<and> r = attribute_loop S ord 1 hash (signers s) sigs [])"
proof -
  let ?f = "find (\<lambda>(a, w). HintOf S a = None) (ord 0 (signers s))" and ?ok = "\<forall>a \<in> fst ` set (signers s). HintOf S a \<noteq> None"
  have f: "?f = None \<longleftrightarrow> ?ok" using assms by (auto simp: find_None_iff permutes_def)
  show ?thesis
  proof (cases ?ok)
    case True
    then have "?f = None" using f by blast
    with True show ?thesis by (simp add: Attribute_def split: option.split) blast
  next
    case False
    then obtain a w where "?f = Some (a, w)" using f by (metis not_Some_eq surj_pair)
    with False show ?thesis by (auto simp: Attribute_def split: option.split)
  qed
qed

text \<open>
  C26: only the account's own signers count, each at most once and at its own weight, and only with a
  signature that verifies under its key over the hash of this envelope: whatever order the runtime
  visits the maps in, and however often a signature is repeated.
\<close>

theorem Attribute_sound:
  assumes "permutes ord" "Attribute S ord sigs env network s = Inr r"
  shows "distinct (map fst r) \<and> (\<exists>hash. Hash S env network = Some hash \<and>
    (\<forall>(a, w) \<in> set r. (a, w) \<in> set (signers s) \<and> (\<exists>sig \<in> set sigs. signed_by S hash sig a)))"
proof -
  obtain hash where h: "Hash S env network = Some hash" "r = attribute_loop S ord 1 hash (signers s) sigs []"
    using assms by (auto simp: Attribute_Inr)
  then show ?thesis
    using attribute_loop_sound [OF assms(1), of "[]" "signers s" sigs S hash sigs 1] by simp
qed

lemma sum_mset_snd: "mset xs = mset ys \<Longrightarrow> sum_list (map snd xs) = (sum_list (map snd ys) :: int32)"
  by (metis mset_map sum_mset_sum_list)

text \<open>Weights whose total fits add up without wrapping.\<close>

lemma sint_sum32:
  assumes "\<forall>w \<in> set ws. 0 \<le> sint w" "sum_list (map sint ws) < 2 ^ 31"
  shows "sint (sum_list ws :: int32) = sum_list (map sint ws)"
  using assms
proof (induction ws)
  case (Cons w ws)
  have nn: "0 \<le> sum_list (map sint ws)" using Cons.prems(1) by (intro sum_list_nonneg) auto
  have IH: "sint (sum_list ws) = sum_list (map sint ws)" using Cons by simp
  have "w + sum_list ws = word_of_int (sint w + sint (sum_list ws))" by simp
  then have "sint (w + sum_list ws) = signed_take_bit 31 (sint w + sint (sum_list ws))"
    by (simp only: sint_sbintrunc') simp
  also have "\<dots> = sint w + sint (sum_list ws)"
    using Cons.prems IH nn by (intro signed_take_bit_int_eq_self) auto
  finally show ?case using IH by simp
qed simp

definition weight_on :: "('tx, 'fb, 'kp) sdk \<Rightarrow> string \<Rightarrow> env_sig list \<Rightarrow> (address \<times> int32) list \<Rightarrow> int" where
  "weight_on S hash sigs keys = sum_list (map (\<lambda>(a, w). sint w) (signers_on S hash sigs keys))"

lemma sum_filter_le:
  "\<forall>x \<in> set xs. 0 \<le> f x \<Longrightarrow> sum_list (map f (filter P xs)) \<le> (sum_list (map f xs) :: int)"
  by (induction xs) auto

text \<open>An account's weights: one entry per key, none negative, their sum within \<open>int32\<close>.\<close>

definition wf_signers :: "(address \<times> int32) list \<Rightarrow> bool" where
  "wf_signers keys \<longleftrightarrow> distinct (map fst keys) \<and> (\<forall>(a, w) \<in> set keys. 0 \<le> sint w)
     \<and> sum_list (map (\<lambda>(a, w). sint w) keys) < 2 ^ 31"

lemma weight_exact:
  assumes "permutes ord" "wf_signers keys" "one_key_each S hash sigs keys"
  shows "sint (sum_list (map snd (attribute_loop S ord k hash keys sigs [])) :: int32) = weight_on S hash sigs keys"
proof -
  let ?on = "signers_on S hash sigs keys"
  have "sum_list (map snd (attribute_loop S ord k hash keys sigs [])) = sum_list (map snd ?on)"
    using assms by (intro sum_mset_snd attribute_loop_exact) (auto simp: wf_signers_def)
  moreover have "sum_list (map sint (map snd ?on)) = weight_on S hash sigs keys"
    by (simp add: weight_on_def comp_def case_prod_unfold)
  moreover have "\<forall>w \<in> set (map snd ?on). 0 \<le> sint w"
    using assms(2) by (auto simp: wf_signers_def signers_on_def)
  moreover have "weight_on S hash sigs keys \<le> sum_list (map (\<lambda>(a, w). sint w) keys)"
    unfolding weight_on_def signers_on_def
    by (rule sum_filter_le) (use assms(2) in \<open>auto simp: wf_signers_def\<close>)
  ultimately show ?thesis using assms(2) sint_sum32 [of "map snd ?on"] by (simp add: wf_signers_def)
qed

text \<open>
  The signer of a treasury adds nothing to the envelope, and reports it complete exactly when the
  signers of the account with a verifying signature on it carry the threshold's weight, and the
  threshold is positive.
\<close>

theorem External_complete_iff:
  assumes "permutes ord" "wf_signers (signers s)" "rq_tx req = Some tx"
    and "Hash S tx (rq_network req) = Some hash" "one_key_each S hash (TxSignatures S tx) (signers s)"
    and "External_Sign S ord s req = Inr resp"
  shows "rs_tx resp = rq_tx req \<and> rs_feebump resp = None
    \<and> (rs_complete resp \<longleftrightarrow> 0 < sint (medium s) \<and> sint (medium s) \<le> weight_on S hash (TxSignatures S tx) (signers s))"
proof -
  obtain r where r: "Attribute S ord (TxSignatures S tx) tx (rq_network req) s = Inr r"
    and resp: "resp = \<lparr>rs_tx = Some tx, rs_feebump = None,
      rs_complete = (sint (medium s) > 0 \<and> sint (sum_list (map snd r)) \<ge> sint (medium s)),
      rs_have = sum_list (map snd r), rs_need = medium s\<rparr>"
    using assms(3,6) by (auto simp: External_Sign_def weightOf_def split: if_splits sum.splits)
  have "r = attribute_loop S ord 1 hash (signers s) (TxSignatures S tx) []"
    using r assms(1,4) by (auto simp: Attribute_Inr)
  then show ?thesis using weight_exact [OF assms(1,2,5)] assms(3) by (simp add: resp)
qed

text \<open>
  No key of this process ever signs for a treasury.  What the router answers to a treasury request does
  not depend on the operator's signer or the web-authentication signer, and the envelope it hands back is
  the one it was given.
\<close>

theorem Router_treasury_no_key:
  assumes "rq_purpose req = PurposeTreasury"
  shows "Router_Sign S ord (r\<lparr>rt_operator := op1, rt_webAuth := wa1\<rparr>) req = Router_Sign S ord r req
    \<and> (\<forall>resp. Router_Sign S ord r req = Inr resp \<longrightarrow> rs_tx resp = rq_tx req \<and> rs_feebump resp = None)"
  using assms
  by (auto simp: Router_Sign_def External_Sign_def split: option.splits sum.splits if_splits)

text \<open>A mainnet key is not held in the process without the acknowledgement.\<close>

lemma NewLocal_mainnet:
  "NewLocal S seed network allow = Inr l \<Longrightarrow> lc_network l = network \<and> (network = PublicNetworkPassphrase S \<longrightarrow> allow)"
  by (auto simp: NewLocal_def split: option.splits if_splits)

section \<open>An instance\<close>

text \<open>Envelopes are their signature lists; a signature is the address that made it.\<close>

definition demo_sdk :: "(env_sig list, unit, unit) sdk" where
  "demo_sdk = \<lparr>Hash = (\<lambda>tx n. Some ''h''), TxSignatures = (\<lambda>tx. tx), HintOf = (\<lambda>a. Some (take 4 a)),
     Verify = (\<lambda>a h s. s = a), SignTx = (\<lambda>n k tx. Some tx), SignFeeBump = (\<lambda>n k f. Some f),
     ParseFull = (\<lambda>s. Some ()), KeyAddress = (\<lambda>k. ''GOPER''), PublicNetworkPassphrase = ''Public''\<rparr>"

definition demo_set :: signer_set where
  "demo_set = \<lparr>signers = [(''GALICE'', 1), (''GBOB'', 1), (''GCAROL'', 1)], medium = 2\<rparr>"

definition demo_tx :: "env_sig list" where
  "demo_tx = [\<lparr>sig_hint = ''GALI'', sig_bytes = ''GALICE''\<rparr>, \<lparr>sig_hint = ''GALI'', sig_bytes = ''GALICE''\<rparr>,
     \<lparr>sig_hint = ''GBOB'', sig_bytes = ''GBOB''\<rparr>]"

definition demo_req :: "(env_sig list, unit) Request" where
  "demo_req = \<lparr>rq_org = 1, rq_purpose = PurposeTreasury, rq_network = ''Test'', rq_account = ''GTREASURY'',
     rq_tx = Some demo_tx, rq_feebump = None\<rparr>"

lemmas signer_eval = demo_sdk_def demo_set_def demo_tx_def demo_req_def signed_by_def

lemma permutes_id: "permutes (\<lambda>k xs. xs)"
  by (simp add: permutes_def)

theorem Attribute_sound_witness:
  "Attribute demo_sdk (\<lambda>k xs. xs) demo_tx demo_tx ''Test'' demo_set = Inr [(''GALICE'', 1), (''GBOB'', 1)]
   \<and> distinct (map fst [(''GALICE'', 1 :: int32), (''GBOB'', 1)])"
proof -
  have a: "Attribute demo_sdk (\<lambda>k xs. xs) demo_tx demo_tx ''Test'' demo_set = Inr [(''GALICE'', 1), (''GBOB'', 1)]"
    by (simp add: Attribute_def signer_eval)
  show ?thesis using a Attribute_sound [OF permutes_id a] by blast
qed

theorem External_complete_iff_witness:
  "rs_complete (projr (External_Sign demo_sdk (\<lambda>k xs. xs) demo_set demo_req))"
proof -
  have "wf_signers (signers demo_set)" by (simp add: wf_signers_def demo_set_def)
  moreover have "one_key_each demo_sdk ''h'' (TxSignatures demo_sdk demo_tx) (signers demo_set)"
    by (simp add: one_key_each_def signer_eval)
  moreover have "External_Sign demo_sdk (\<lambda>k xs. xs) demo_set demo_req =
    Inr (projr (External_Sign demo_sdk (\<lambda>k xs. xs) demo_set demo_req))"
    by (simp add: External_Sign_def weightOf_def Attribute_def signer_eval)
  moreover have "weight_on demo_sdk ''h'' (TxSignatures demo_sdk demo_tx) (signers demo_set) = 2"
    by (simp add: weight_on_def signers_on_def signer_eval)
  moreover have "Hash demo_sdk demo_tx (rq_network demo_req) = Some ''h''" by (simp add: demo_sdk_def)
  moreover have "rq_tx demo_req = Some demo_tx" by (simp add: demo_req_def)
  ultimately show ?thesis
    using External_complete_iff [OF permutes_id, of demo_set demo_req demo_tx demo_sdk "''h''"] by (simp add: demo_set_def)
qed

theorem Router_treasury_no_key_witness:
  "rs_tx (projr (Router_Sign demo_sdk (\<lambda>k xs. xs)
     \<lparr>rt_network = ''Test'', rt_operator = (\<lambda>r. Inl SignFailed), rt_webAuth = None, rt_treasury = (\<lambda>o1 a. Inr demo_set)\<rparr>
     demo_req)) = Some demo_tx"
  (is "rs_tx (projr (Router_Sign _ _ ?r _)) = _")
proof -
  have p: "rq_purpose demo_req = PurposeTreasury" by (simp add: demo_req_def)
  have ok: "is_ok (Router_Sign demo_sdk (\<lambda>k xs. xs) ?r demo_req)"
    by (simp add: Router_Sign_def Request_validate_def External_Sign_def weightOf_def Attribute_def signer_eval)
  then show ?thesis
    using Router_treasury_no_key [OF p, where S = demo_sdk and ord = "\<lambda>k xs. xs" and r = ?r] by (auto simp: is_ok_iff demo_req_def)
qed

end
