(* ===== verification/Settlement.thy ===== *)
theory Settlement
  imports Signer
begin

text \<open>
  \<^verbatim>\<open>settlement/settlement.go\<close>: what a submission to the network means.  Horizon's answers to a
  submission and to a lookup are arguments; \<open>Submit\<close> decides from them whether the transaction landed,
  was refused, or is still an open question.  \<open>Spent\<close> says whether a refused envelope can ever be sent
  again.  Also \<^verbatim>\<open>settlement/ops_multisig.go\<close>: the signer and threshold changes that can be built, and
  the arithmetic that keeps an account from being locked.
\<close>

section \<open>Submission\<close>

record Result =
  r_hash :: string
  r_ledger :: int32
  r_closed_at :: int
  r_already_known :: bool
  r_failed :: bool

record Rejection =
  rj_hash :: string
  rj_transaction :: string
  rj_operations :: "string list"

text \<open>Horizon's answer to a submission: taken, a problem with or without result codes, or no answer.\<close>

datatype submit_answer =
    Accepted Result | ResultCodes string "string list" | NoCodes

datatype lookup_answer = Found Result | NotFound | LookupError

datatype submit_error = HashError | Rejected Rejection | NotOnLedger | OutcomeUnknown

definition rejectionOf :: "string \<Rightarrow> submit_answer \<Rightarrow> Rejection option" where
  "rejectionOf hash a =
     (case a of
        ResultCodes t ops \<Rightarrow> Some \<lparr>rj_hash = hash, rj_transaction = t, rj_operations = ops\<rparr>
      | _ \<Rightarrow> None)"

definition resolveAmbiguous ::
  "(string \<Rightarrow> lookup_answer) \<Rightarrow> string \<Rightarrow> submit_answer \<Rightarrow> (submit_error, Result) result" where
  "resolveAmbiguous lookup hash a =
     (case rejectionOf hash a of
        Some r \<Rightarrow> Inl (Rejected r)
      | None \<Rightarrow>
          (case lookup hash of
             Found r \<Rightarrow> Inr (r\<lparr>r_already_known := True\<rparr>)
           | NotFound \<Rightarrow> Inl NotOnLedger
           | LookupError \<Rightarrow> Inl OutcomeUnknown))"

definition Submit ::
  "('tx \<Rightarrow> string option) \<Rightarrow> ('tx \<Rightarrow> submit_answer) \<Rightarrow> (string \<Rightarrow> lookup_answer) \<Rightarrow> 'tx
   \<Rightarrow> (submit_error, Result) result" where
  "Submit hashHex horizon lookup tx =
     (case hashHex tx of
        None \<Rightarrow> Inl HashError
      | Some hash \<Rightarrow>
          (case horizon tx of
             Accepted r \<Rightarrow> Inr (r\<lparr>r_already_known := False, r_failed := False\<rparr>)
           | a \<Rightarrow> resolveAmbiguous lookup hash a))"

definition Spent :: "Rejection \<Rightarrow> bool" where
  "Spent r \<longleftrightarrow> rj_transaction r \<in> {''tx_failed'', ''tx_fee_bump_inner_failed'', ''tx_bad_seq'', ''tx_too_late''}"

definition Codes :: "Rejection \<Rightarrow> string" where
  "Codes r = (if rj_operations r = [] then rj_transaction r
     else rj_transaction r @ '' ('' @ join '', '' (rj_operations r) @ '')'')"

lemma Submit_rejected:
  "Submit hx hz lk tx = Inl (Rejected r) \<Longrightarrow> \<exists>t ops. hz tx = ResultCodes t ops \<and> rj_transaction r = t"
  by (auto simp: Submit_def resolveAmbiguous_def rejectionOf_def split: option.splits submit_answer.splits lookup_answer.splits)

section \<open>Changing who can sign\<close>

type_synonym uint32 = "32 word"

record SignerChange =
  sc_address :: address
  sc_weight :: uint32

text \<open>A Go map is an association list with distinct keys.\<close>

record SignerSet =
  MasterWeight :: uint32
  Signers :: "(address \<times> uint32) list"
  Low :: uint32
  Medium :: uint32
  High :: uint32

record MultisigRequest =
  mr_account :: address
  mr_current :: SignerSet
  mr_changes :: "SignerChange list"
  mr_master :: "uint32 option"
  mr_low :: "uint32 option"
  mr_medium :: "uint32 option"
  mr_high :: "uint32 option"
  mr_home :: "string option"

text \<open>One \<open>SetOptions\<close> operation; a \<open>txnbuild.Threshold\<close> is one byte.\<close>

record SetOptions =
  so_source :: address
  so_signer :: "(address \<times> 8 word) option"
  so_master :: "8 word option"
  so_low :: "8 word option"
  so_medium :: "8 word option"
  so_high :: "8 word option"
  so_home :: "string option"

datatype multisig_error =
    InvalidAccount | NeedCurrent | WeightTooHigh | InvalidSigner | MasterAsSigner | NothingChanges | ErrLockout

definition TotalWeight :: "SignerSet \<Rightarrow> uint32" where
  "TotalWeight s = MasterWeight s + sum_list (map snd (Signers s))"

definition map_delete :: "address \<Rightarrow> (address \<times> 'w) list \<Rightarrow> (address \<times> 'w) list" where
  "map_delete a m = filter (\<lambda>(b, w). b \<noteq> a) m"

definition map_put :: "address \<Rightarrow> 'w \<Rightarrow> (address \<times> 'w) list \<Rightarrow> (address \<times> 'w) list" where
  "map_put a w m = map_delete a m @ [(a, w)]"

fun apply_signers :: "SignerChange list \<Rightarrow> (address \<times> uint32) list \<Rightarrow> (multisig_error, (address \<times> uint32) list) result" where
  "apply_signers [] m = Inr m"
| "apply_signers (c # cs) m =
     (if unat (sc_weight c) > 255 then Inl WeightTooHigh
      else if sc_weight c = 0 then apply_signers cs (map_delete (sc_address c) m)
      else apply_signers cs (map_put (sc_address c) (sc_weight c) m))"

definition too_high :: "uint32 option \<Rightarrow> bool" where
  "too_high v \<longleftrightarrow> (case v of None \<Rightarrow> False | Some w \<Rightarrow> unat w > 255)"

definition override :: "'a \<Rightarrow> 'a option \<Rightarrow> 'a" where
  "override d v = (case v of None \<Rightarrow> d | Some w \<Rightarrow> w)"

definition applyChanges :: "MultisigRequest \<Rightarrow> (multisig_error, SignerSet) result" where
  "applyChanges req =
     (case apply_signers (mr_changes req) (Signers (mr_current req)) of
        Inl e \<Rightarrow> Inl e
      | Inr m \<Rightarrow>
          if too_high (mr_master req) \<or> too_high (mr_low req) \<or> too_high (mr_medium req) \<or> too_high (mr_high req)
          then Inl WeightTooHigh
          else Inr \<lparr>MasterWeight = override (MasterWeight (mr_current req)) (mr_master req), Signers = m,
                 Low = override (Low (mr_current req)) (mr_low req),
                 Medium = override (Medium (mr_current req)) (mr_medium req),
                 High = override (High (mr_current req)) (mr_high req)\<rparr>)"

definition checkLockout :: "SignerSet \<Rightarrow> multisig_error option" where
  "checkLockout s =
     (let total_w = TotalWeight s
      in if total_w = 0 then Some ErrLockout
         else if High s > total_w then Some ErrLockout
         else if Medium s > total_w \<or> Low s > total_w then Some ErrLockout
         else if Low s > Medium s \<or> Medium s > High s then Some ErrLockout
         else None)"

definition signer_op :: "address \<Rightarrow> SignerChange \<Rightarrow> SetOptions" where
  "signer_op account c = \<lparr>so_source = account, so_signer = Some (sc_address c, ucast (sc_weight c)),
     so_master = None, so_low = None, so_medium = None, so_high = None, so_home = None\<rparr>"

fun signer_ops :: "(address \<Rightarrow> bool) \<Rightarrow> address \<Rightarrow> SignerChange list \<Rightarrow> (multisig_error, SetOptions list) result" where
  "signer_ops valid account [] = Inr []"
| "signer_ops valid account (c # cs) =
     (if \<not> valid (sc_address c) then Inl InvalidSigner
      else if sc_address c = account then Inl MasterAsSigner
      else case signer_ops valid account cs of
             Inl e \<Rightarrow> Inl e
           | Inr ops \<Rightarrow> Inr (signer_op account c # ops))"

definition threshold_op :: "MultisigRequest \<Rightarrow> SetOptions" where
  "threshold_op req = \<lparr>so_source = mr_account req, so_signer = None, so_master = map_option ucast (mr_master req),
     so_low = map_option ucast (mr_low req), so_medium = map_option ucast (mr_medium req),
     so_high = map_option ucast (mr_high req), so_home = mr_home req\<rparr>"

text \<open>\<open>nil_signers\<close>: the map of the current signers is the nil map; \<open>valid\<close>: the SDK's address check.\<close>

definition Multisig ::
  "(address \<Rightarrow> bool) \<Rightarrow> bool \<Rightarrow> MultisigRequest \<Rightarrow> (multisig_error, SetOptions list) result" where
  "Multisig valid nil_signers req =
     (if \<not> valid (mr_account req) then Inl InvalidAccount
      else if nil_signers \<and> MasterWeight (mr_current req) = 0 then Inl NeedCurrent
      else case applyChanges req of
             Inl e \<Rightarrow> Inl e
           | Inr resulting \<Rightarrow>
               (case checkLockout resulting of
                  Some e \<Rightarrow> Inl e
                | None \<Rightarrow>
                    (case signer_ops valid (mr_account req) (mr_changes req) of
                       Inl e \<Rightarrow> Inl e
                     | Inr ops1 \<Rightarrow>
                         let ops = (if mr_master req \<noteq> None \<or> mr_low req \<noteq> None \<or> mr_medium req \<noteq> None
                                      \<or> mr_high req \<noteq> None \<or> mr_home req \<noteq> None
                                    then ops1 @ [threshold_op req] else ops1)
                         in if ops = [] then Inl NothingChanges else Inr ops)))"

subsection \<open>What the network makes of the operations\<close>

text \<open>
  The ledger's own rule for \<open>SetOptions\<close>: a signer of weight zero is removed, any other is set, and each
  field that is present replaces the account's.
\<close>

definition set_options :: "SetOptions \<Rightarrow> SignerSet \<Rightarrow> SignerSet" where
  "set_options op1 s =
     \<lparr>MasterWeight = override (MasterWeight s) (map_option ucast (so_master op1)),
      Signers = (case so_signer op1 of None \<Rightarrow> Signers s
                 | Some (a, w) \<Rightarrow> if w = 0 then map_delete a (Signers s) else map_put a (ucast w) (Signers s)),
      Low = override (Low s) (map_option ucast (so_low op1)),
      Medium = override (Medium s) (map_option ucast (so_medium op1)),
      High = override (High s) (map_option ucast (so_high op1))\<rparr>"

lemma override_simps [simp]: "override d None = d" "override d (Some w) = w"
  by (simp_all add: override_def)

lemma ucast_small: "unat (w :: uint32) \<le> 255 \<Longrightarrow> ucast (ucast w :: 8 word) = w"
  by (rule word_unat_eq_iff [THEN iffD2]) (simp add: unsigned_ucast_eq unsigned_take_bit_eq take_bit_nat_eq_self)

lemma ucast_small_0:
  assumes "unat (w :: uint32) \<le> 255"
  shows "(ucast w :: 8 word) = 0 \<longleftrightarrow> w = 0"
proof
  assume "(ucast w :: 8 word) = 0"
  then have "(ucast (ucast w :: 8 word) :: uint32) = 0" by simp
  then show "w = 0" using ucast_small [OF assms] by simp
qed simp

lemma override_ucast: "\<not> too_high v \<Longrightarrow> override d (map_option (ucast :: 8 word \<Rightarrow> uint32) (map_option ucast v)) = override d v"
  by (cases v) (auto simp: too_high_def override_def ucast_small)

lemma signer_ops_effect:
  assumes "apply_signers cs (Signers s) = Inr m" "signer_ops valid account cs = Inr ops"
  shows "fold set_options ops s = s\<lparr>Signers := m\<rparr>"
  using assms
proof (induction cs arbitrary: s ops)
  case (Cons c cs)
  have w: "unat (sc_weight c) \<le> 255" using Cons.prems(1) by (auto split: if_splits)
  let ?m = "if sc_weight c = 0 then map_delete (sc_address c) (Signers s) else map_put (sc_address c) (sc_weight c) (Signers s)"
  have m: "apply_signers cs ?m = Inr m" using Cons.prems(1) w by (auto split: if_splits)
  obtain ops' where o: "ops = signer_op account c # ops'" "signer_ops valid account cs = Inr ops'"
    using Cons.prems(2) by (auto split: if_splits sum.splits)
  have "set_options (signer_op account c) s = s\<lparr>Signers := ?m\<rparr>"
    using ucast_small [OF w] ucast_small_0 [OF w]
    by (simp add: set_options_def signer_op_def override_def)
  then show ?case using Cons.IH [of "s\<lparr>Signers := ?m\<rparr>" ops'] m o by simp
qed simp

lemma threshold_op_effect:
  "\<not> too_high (mr_master req) \<Longrightarrow> \<not> too_high (mr_low req) \<Longrightarrow> \<not> too_high (mr_medium req) \<Longrightarrow> \<not> too_high (mr_high req)
   \<Longrightarrow> set_options (threshold_op req) s =
     s\<lparr>MasterWeight := override (MasterWeight s) (mr_master req), Low := override (Low s) (mr_low req),
       Medium := override (Medium s) (mr_medium req), High := override (High s) (mr_high req)\<rparr>"
  by (simp add: set_options_def threshold_op_def override_ucast)

text \<open>The operations that are built take the account exactly to the state the check was made on.\<close>

lemma Multisig_effect:
  assumes "Multisig valid nl req = Inr ops"
  shows "\<exists>r. applyChanges req = Inr r \<and> checkLockout r = None \<and> fold set_options ops (mr_current req) = r"
proof -
  let ?any = "mr_master req \<noteq> None \<or> mr_low req \<noteq> None \<or> mr_medium req \<noteq> None \<or> mr_high req \<noteq> None \<or> mr_home req \<noteq> None"
  obtain r ops1 where r: "applyChanges req = Inr r" "checkLockout r = None"
    and o: "signer_ops valid (mr_account req) (mr_changes req) = Inr ops1"
      "ops = (if ?any then ops1 @ [threshold_op req] else ops1)"
    using assms by (auto simp: Multisig_def Let_def split: if_splits sum.splits option.splits)
  obtain m where m: "apply_signers (mr_changes req) (Signers (mr_current req)) = Inr m"
    and th: "\<not> too_high (mr_master req)" "\<not> too_high (mr_low req)" "\<not> too_high (mr_medium req)" "\<not> too_high (mr_high req)"
    and r': "r = \<lparr>MasterWeight = override (MasterWeight (mr_current req)) (mr_master req), Signers = m,
                 Low = override (Low (mr_current req)) (mr_low req),
                 Medium = override (Medium (mr_current req)) (mr_medium req),
                 High = override (High (mr_current req)) (mr_high req)\<rparr>"
    using r(1) by (auto simp: applyChanges_def split: sum.splits if_splits)
  have "fold set_options ops1 (mr_current req) = (mr_current req)\<lparr>Signers := m\<rparr>"
    by (rule signer_ops_effect [OF m o(1)])
  then have "fold set_options ops (mr_current req) = r"
    using o(2) r' threshold_op_effect [OF th] by (cases "mr_current req") auto
  then show ?thesis using r by blast
qed

text \<open>Weights of at most 255, as the network holds them, and no more keys than an \<open>int32\<close> of them can sum.\<close>

definition chain_set :: "SignerSet \<Rightarrow> bool" where
  "chain_set s \<longleftrightarrow> unat (MasterWeight s) \<le> 255 \<and> (\<forall>(a, w) \<in> set (Signers s). unat w \<le> 255)"

definition weight_sum :: "SignerSet \<Rightarrow> nat" where
  "weight_sum s = unat (MasterWeight s) + sum_list (map (\<lambda>(a, w). unat w) (Signers s))"

lemma length_delete: "length (map_delete a m) \<le> length m"
  by (simp add: map_delete_def)

lemma apply_signers_bounded:
  assumes "apply_signers cs m = Inr m'" "\<forall>(a, w) \<in> set m. unat w \<le> 255"
  shows "(\<forall>(a, w) \<in> set m'. unat w \<le> 255) \<and> length m' \<le> length m + length cs"
  using assms
proof (induction cs arbitrary: m)
  case (Cons c cs)
  let ?m = "if sc_weight c = 0 then map_delete (sc_address c) m else map_put (sc_address c) (sc_weight c) m"
  have m: "apply_signers cs ?m = Inr m'" "unat (sc_weight c) \<le> 255"
    using Cons.prems(1) by (auto split: if_splits)
  have "\<forall>(a, w) \<in> set ?m. unat w \<le> 255"
    using Cons.prems(2) m(2) by (auto simp: map_put_def map_delete_def)
  moreover have "length ?m \<le> length m + 1"
    using length_delete [of "sc_address c" m] by (simp add: map_put_def)
  ultimately show ?case using Cons.IH [OF m(1)] by fastforce
qed simp

lemma sum_unat_bound: "\<forall>(a, w) \<in> set m. unat (w :: uint32) \<le> 255 \<Longrightarrow> sum_list (map (\<lambda>(a, w). unat w) m) \<le> 255 * length m"
  by (induction m) auto

lemma unat_sum32:
  "sum_list (map (\<lambda>(a, w). unat w) m) < 2 ^ 32 \<Longrightarrow> unat (sum_list (map snd m) :: uint32) = sum_list (map (\<lambda>(a, w). unat w) m)"
proof (induction m)
  case (Cons x m)
  then show ?case by (cases x) (simp add: unat_word_ariths)
qed simp

lemma TotalWeight_exact: "weight_sum s < 2 ^ 32 \<Longrightarrow> unat (TotalWeight s) = weight_sum s"
  using unat_sum32 [of "Signers s"] by (simp add: weight_sum_def TotalWeight_def unat_word_ariths)

text \<open>
  C16: no signer change that locks an account can be built.  Whatever operations \<open>Multisig\<close> returns, after the
  network has applied them in order to the account as it stands, the remaining keys carry the high threshold's
  weight, so a further change can always be authorised, and the thresholds are in order.
\<close>

theorem Multisig_never_locks:
  assumes "Multisig valid nl req = Inr ops" "chain_set (mr_current req)"
    and "length (Signers (mr_current req)) + length (mr_changes req) < 2 ^ 20"
  defines "s \<equiv> fold set_options ops (mr_current req)"
  shows "0 < weight_sum s \<and> unat (High s) \<le> weight_sum s \<and> unat (Medium s) \<le> unat (High s) \<and> unat (Low s) \<le> unat (Medium s)"
proof -
  have a: "applyChanges req = Inr s" and c: "checkLockout s = None"
    using Multisig_effect [OF assms(1)] unfolding s_def by auto
  obtain m where m: "apply_signers (mr_changes req) (Signers (mr_current req)) = Inr m" "Signers s = m"
    and mw: "MasterWeight s = override (MasterWeight (mr_current req)) (mr_master req)" "\<not> too_high (mr_master req)"
    using a by (auto simp: applyChanges_def split: sum.splits if_splits)
  have "\<forall>(a, w) \<in> set m. unat w \<le> 255" "length m < 2 ^ 20"
    using apply_signers_bounded [OF m(1)] assms(2,3) by (auto simp: chain_set_def)
  then have "sum_list (map (\<lambda>(a, w). unat w) m) < 255 * 2 ^ 20" using sum_unat_bound [of m] by simp
  moreover have "unat (MasterWeight s) \<le> 255"
    using mw assms(2) by (auto simp: override_def too_high_def chain_set_def split: option.splits)
  ultimately have "weight_sum s < 2 ^ 32" by (simp add: weight_sum_def m(2))
  then have t: "unat (TotalWeight s) = weight_sum s" by (rule TotalWeight_exact)
  have "TotalWeight s \<noteq> 0" "High s \<le> TotalWeight s" "Low s \<le> Medium s" "Medium s \<le> High s"
    using c by (auto simp: checkLockout_def Let_def split: if_splits)
  then show ?thesis using t unfolding word_le_nat_alt by (metis not_gr_zero unat_eq_zero)
qed

theorem Multisig_never_locks_witness:
  "unat (High (fold set_options
     [signer_op ''GT'' \<lparr>sc_address = ''GA'', sc_weight = 1\<rparr>,
      threshold_op \<lparr>mr_account = ''GT'', mr_current = \<lparr>MasterWeight = 1, Signers = [], Low = 0, Medium = 0, High = 0\<rparr>,
        mr_changes = [\<lparr>sc_address = ''GA'', sc_weight = 1\<rparr>], mr_master = None, mr_low = None,
        mr_medium = Some 2, mr_high = Some 2, mr_home = None\<rparr>]
     \<lparr>MasterWeight = 1, Signers = [], Low = 0, Medium = 0, High = 0\<rparr>)) = 2"
proof -
  let ?cur = "\<lparr>MasterWeight = 1, Signers = [], Low = 0, Medium = 0, High = 0\<rparr>"
  let ?req = "\<lparr>mr_account = ''GT'', mr_current = ?cur, mr_changes = [\<lparr>sc_address = ''GA'', sc_weight = 1\<rparr>],
     mr_master = None, mr_low = None, mr_medium = Some 2, mr_high = Some 2, mr_home = None\<rparr>"
  let ?ops = "[signer_op ''GT'' \<lparr>sc_address = ''GA'', sc_weight = 1\<rparr>, threshold_op ?req]"
  have "Multisig (\<lambda>_. True) False ?req = Inr ?ops"
    by (simp add: Multisig_def applyChanges_def map_put_def map_delete_def too_high_def override_def checkLockout_def
        TotalWeight_def Let_def)
  then have "unat (High (fold set_options ?ops ?cur)) \<le> weight_sum (fold set_options ?ops ?cur)"
    using Multisig_never_locks [of "\<lambda>_. True" False ?req ?ops] by (simp add: chain_set_def)
  then show ?thesis
    by (simp add: set_options_def signer_op_def threshold_op_def override_def map_put_def map_delete_def)
qed

end
