(* ===== verification/Proposal_Service.thy ===== *)
theory Proposal_Service
  imports Rails Settlement Utf8
begin

text \<open>
  \<^verbatim>\<open>api/proposal.go\<close>: proposing a treasury payment, collecting approvals, executing and withdrawing.
  The state is the proposal tables of \<open>Proposal_Store\<close>, the linked treasuries, the spend policies and the
  list of envelopes handed to the network; each service method is a function on it.  The rails, the signer
  arithmetic and the submission logic it calls are those of the other theories.  The network and the Stellar
  SDK are the record \<open>world\<close> (what the account looks like, what Horizon answers, how an envelope is built,
  parsed and described).  A contract call and a swap are checked once more before they are submitted
  (\<^verbatim>\<open>api/invoke.go\<close>, \<^verbatim>\<open>api/swap.go\<close>): those checks are the fields \<open>InvokeOk\<close>, \<open>CallsOn\<close> and
  \<open>StillDelivers\<close>.
\<close>

section \<open>Data\<close>

record Scope =
  sp_org :: OrgID
  sp_owner :: string

datatype svc_error =
    ScopeNoOrg | ScopeNoOwner | ScopeNul | NotPositive | OnRails rails_error | OnStore store_error
  | OnSigner signer_error | NoOrg | ErrNoTreasury | NotClassic | BuildFailed | Indescribable | CannotHash | CannotEncode
  | NoEnvelope | ErrWrongEnvelope | ErrNotEnoughSignatures | ErrSequenceMoved | LoadAccountFailed
  | NotAnAccount | AttachFailed | RefusedError string "string list" bool | SubmitFailed submit_error
  | InvokeRefused | ContractCallsOff | ContractCallFailed | SorobanAmbiguous | MarketMoved | ErrNotYoursToCancel

record Treasury =
  tr_id :: TreasuryID
  tr_org :: OrgID
  tr_kind :: string
  tr_address :: address

abbreviation TreasuryClassic :: string where "TreasuryClassic \<equiv> ''classic''"

text \<open>The one operation a payment proposal holds: destination, amount as text, asset.\<close>

datatype operation = PaymentOp address string "(string \<times> string) option"

record 'tx world =
  w_now :: int
  w_dbnow :: int
  w_network :: string
  w_cfg :: rails_config
  w_pf :: platform
  w_stat :: "string \<Rightarrow> stat_result"
  w_balances :: "address \<Rightarrow> (load_error, balance_line list) result"
  w_sequence :: "address \<Rightarrow> int64 option"
  w_signer_set :: "address \<Rightarrow> signer_set option"
  w_sdk :: "('tx, unit, unit) sdk"
  w_order :: map_order
  FromXDR :: "string \<Rightarrow> 'tx option"
  HashHex :: "'tx \<Rightarrow> string \<Rightarrow> string option"
  Base64 :: "'tx \<Rightarrow> string option"
  BuildTx :: "address \<Rightarrow> operation list \<Rightarrow> string option \<Rightarrow> int \<Rightarrow> 'tx option"
  DescribeTx :: "'tx \<Rightarrow> string option"
  SequenceNumber :: "'tx \<Rightarrow> int64"
  MaxTime :: "'tx \<Rightarrow> int"
  AddSignatureDecorated :: "'tx \<Rightarrow> env_sig \<Rightarrow> 'tx option"
  HorizonSubmit :: "'tx \<Rightarrow> submit_answer"
  HorizonLookup :: "string \<Rightarrow> lookup_answer"
  SubmitSoroban :: "'tx \<Rightarrow> Result option"
  InvokeOk :: "'tx \<Rightarrow> bool"
  CallsOn :: bool
  StillDelivers :: "'tx \<Rightarrow> bool"

record 'tx svc =
  sv_db :: proposal_db
  sv_treasuries :: "Treasury list"
  sv_ttl :: "OrgID \<Rightarrow> int option"
  sv_policies :: policies
  sv_sent :: "'tx list"

record ProposalView =
  vw_proposal :: Proposal
  vw_treasury :: Treasury
  vw_description :: string
  vw_have :: int32
  vw_need :: int32
  vw_signed :: "address list"
  vw_missing :: "address list"

definition Ready :: "ProposalView \<Rightarrow> bool" where
  "Ready v \<longleftrightarrow> sint (vw_need v) > 0 \<and> sint (vw_have v) \<ge> sint (vw_need v)"

section \<open>Helpers\<close>

definition scope_check :: "Scope \<Rightarrow> svc_error option" where
  "scope_check s =
     (if sp_org s = 0 then Some ScopeNoOrg
      else if sp_owner s = [] then Some ScopeNoOwner
      else if chr 0 \<in> set (sp_owner s) then Some ScopeNul
      else None)"

definition find_treasury :: "'tx svc \<Rightarrow> OrgID \<Rightarrow> TreasuryID \<Rightarrow> Treasury option" where
  "find_treasury st org i = find (\<lambda>t. tr_id t = i \<and> tr_org t = org) (sv_treasuries st)"

text \<open>Dropping the last rune until the text is at most 28 bytes.\<close>

function trim_runes :: "rune list \<Rightarrow> rune list" where
  "trim_runes rs = (if length (string_of_runes rs) > 28 then trim_runes (butlast rs) else rs)"
  by auto
termination
proof (relation "measure length")
  fix rs :: "rune list"
  assume "28 < length (string_of_runes rs)"
  then have "rs \<noteq> []" by (auto simp: string_of_runes_def)
  then show "(butlast rs, rs) \<in> measure length" by simp
qed simp

declare trim_runes.simps [simp del]

definition memoOf :: "string \<Rightarrow> string option" where
  "memoOf text0 = (if text0 = [] then None else Some (string_of_runes (trim_runes (runes_of text0))))"

definition transactionFrom :: "'tx world \<Rightarrow> string \<Rightarrow> (svc_error, 'tx) result" where
  "transactionFrom w xdr = (case FromXDR w xdr of None \<Rightarrow> Inl ErrWrongEnvelope | Some tx \<Rightarrow> Inr tx)"

definition hintOf :: "'tx world \<Rightarrow> address \<Rightarrow> (svc_error, string) result" where
  "hintOf w a = (case HintOf (w_sdk w) a of None \<Rightarrow> Inl NotAnAccount | Some h \<Rightarrow> Inr h)"

fun decorate :: "'tx world \<Rightarrow> ProposalSignature list \<Rightarrow> (svc_error, env_sig list) result" where
  "decorate w [] = Inr []"
| "decorate w (s # ss) =
     (case hintOf w (sg_signer s) of
        Inl e \<Rightarrow> Inl e
      | Inr h \<Rightarrow>
          (case decorate w ss of
             Inl e \<Rightarrow> Inl e
           | Inr sigs \<Rightarrow> Inr (\<lparr>sig_hint = h, sig_bytes = sg_signature s\<rparr> # sigs)))"

definition rebuild ::
  "'tx world \<Rightarrow> 'tx \<Rightarrow> ProposalSignature list \<Rightarrow> (address \<times> int32) list
   \<Rightarrow> (svc_error, (address \<times> int32) list) result" where
  "rebuild w tx stored summary =
     (if stored = [] then Inr []
      else case decorate w stored of
             Inl e \<Rightarrow> Inl e
           | Inr sigs \<Rightarrow>
               (case Attribute (w_sdk w) (w_order w) sigs tx (w_network w) \<lparr>signers = summary, medium = 1\<rparr> of
                  Inl e \<Rightarrow> Inl (OnSigner e)
                | Inr r \<Rightarrow> Inr r))"

fun applySignatures :: "'tx world \<Rightarrow> 'tx \<Rightarrow> ProposalSignature list \<Rightarrow> (svc_error, 'tx) result" where
  "applySignatures w tx [] = Inr tx"
| "applySignatures w tx (s # ss) =
     (case hintOf w (sg_signer s) of
        Inl e \<Rightarrow> Inl e
      | Inr h \<Rightarrow>
          (case AddSignatureDecorated w tx \<lparr>sig_hint = h, sig_bytes = sg_signature s\<rparr> of
             None \<Rightarrow> Inl AttachFailed
           | Some tx' \<Rightarrow> applySignatures w tx' ss))"

definition ownerOf :: "'tx world \<Rightarrow> nat \<Rightarrow> env_sig \<Rightarrow> (address \<times> int32) list \<Rightarrow> 'tx \<Rightarrow> address option" where
  "ownerOf w k sig attributed env =
     (case Hash (w_sdk w) env (w_network w) of
        None \<Rightarrow> None
      | Some hash \<Rightarrow> map_option fst (find (\<lambda>(a, v). signed_by (w_sdk w) hash sig a) (w_order w k attributed)))"

definition sort_addresses :: "address list \<Rightarrow> address list" where
  "sort_addresses xs = sort_key (map (\<lambda>c. byte c)) xs"

section \<open>Viewing\<close>

definition viewOf ::
  "'tx world \<Rightarrow> 'tx svc \<Rightarrow> Scope \<Rightarrow> Proposal \<Rightarrow> Treasury \<Rightarrow> 'tx \<Rightarrow> string \<Rightarrow> (svc_error, ProposalView) result" where
  "viewOf w st scope p t tx description =
     (case w_signer_set w (tr_address t) of
        None \<Rightarrow> Inl LoadAccountFailed
      | Some s \<Rightarrow>
          (case rebuild w tx (Signatures (sv_db st) (sp_org scope) (pr_id p)) (signers s) of
             Inl e \<Rightarrow> Inl e
           | Inr seen \<Rightarrow>
               let did = filter (\<lambda>(a, v). a \<in> fst ` set seen) (signers s);
                   not = filter (\<lambda>(a, v). a \<notin> fst ` set seen) (signers s)
               in Inr \<lparr>vw_proposal = p, vw_treasury = t, vw_description = description,
                       vw_have = sum_list (map snd did), vw_need = medium s,
                       vw_signed = sort_addresses (map fst did), vw_missing = sort_addresses (map fst not)\<rparr>))"

definition expire_all :: "'tx world \<Rightarrow> 'tx svc \<Rightarrow> 'tx svc" where
  "expire_all w st = st\<lparr>sv_db := snd (ExpireProposals (w_dbnow w) (sv_db st))\<rparr>"

definition LoadProposal ::
  "'tx world \<Rightarrow> Scope \<Rightarrow> ProposalID \<Rightarrow> 'tx svc \<Rightarrow> (svc_error, ProposalView) result \<times> 'tx svc" where
  "LoadProposal w scope i st0 =
     (case scope_check scope of
        Some e \<Rightarrow> (Inl e, st0)
      | None \<Rightarrow>
          let st = expire_all w st0
          in (case Proposal_of (sv_db st) (sp_org scope) i of
                Inl e \<Rightarrow> Inl (OnStore e)
              | Inr p \<Rightarrow>
                  (case find_treasury st (sp_org scope) (pr_treasury p) of
                     None \<Rightarrow> Inl ErrNoTreasury
                   | Some t \<Rightarrow>
                       (case transactionFrom w (pr_xdr p) of
                          Inl e \<Rightarrow> Inl e
                        | Inr tx \<Rightarrow>
                            (case DescribeTx w tx of
                               None \<Rightarrow> Inl Indescribable
                             | Some d \<Rightarrow> viewOf w st scope p t tx d))), st))"

section \<open>Proposing\<close>

definition openProposal ::
  "'tx world \<Rightarrow> Scope \<Rightarrow> int \<Rightarrow> Treasury \<Rightarrow> string \<Rightarrow> operation list \<Rightarrow> string \<Rightarrow> stroops \<Rightarrow> MemberID
   \<Rightarrow> 'tx svc \<Rightarrow> (svc_error, ProposalView) result \<times> 'tx svc" where
  "openProposal w scope ttl t kind ops memo amount by_member st =
     (case BuildTx w (tr_address t) ops (memoOf memo) ttl of
        None \<Rightarrow> (Inl BuildFailed, st)
      | Some tx \<Rightarrow>
          (case DescribeTx w tx of
             None \<Rightarrow> (Inl Indescribable, st)
           | Some canonical \<Rightarrow>
               (case HashHex w tx (w_network w) of
                  None \<Rightarrow> (Inl CannotHash, st)
                | Some hash \<Rightarrow>
                    (case Base64 w tx of
                       None \<Rightarrow> (Inl CannotEncode, st)
                     | Some env \<Rightarrow>
                         (case CreateProposal (w_pf w) (w_dbnow w)
                            \<lparr>cp_org = sp_org scope, cp_treasury = tr_id t, cp_kind = kind, cp_xdr = env, cp_hash = hash,
                             cp_seq = SequenceNumber w tx, cp_description = canonical,
                             cp_digest = sha256 (w_pf w) canonical, cp_amount = amount, cp_created_by = by_member,
                             cp_expires_at = MaxTime w tx * 10 ^ 9\<rparr> (sv_db st) of
                            (Inl e, db) \<Rightarrow> (Inl (OnStore e), st\<lparr>sv_db := db\<rparr>)
                          | (Inr p, db) \<Rightarrow>
                              (viewOf w (st\<lparr>sv_db := db\<rparr>) scope p t tx canonical, st\<lparr>sv_db := db\<rparr>))))))"

record ProposePaymentParams =
  pp_treasury :: TreasuryID
  pp_destination :: address
  pp_amount :: stroops
  pp_memo :: string
  pp_created_by :: MemberID

definition ProposePayment ::
  "'tx world \<Rightarrow> Scope \<Rightarrow> ProposePaymentParams \<Rightarrow> 'tx svc \<Rightarrow> (svc_error, ProposalView) result \<times> 'tx svc" where
  "ProposePayment w scope p st =
     (case scope_check scope of
        Some e \<Rightarrow> (Inl e, st)
      | None \<Rightarrow>
     (if sint (pp_amount p) \<le> 0 then (Inl NotPositive, st)
      else case writable (w_cfg w) (w_stat w) of
        Some e \<Rightarrow> (Inl (OnRails e), st)
      | None \<Rightarrow>
     (case checkSpend (w_cfg w) (sv_policies st) (sv_db st) (w_now w) (sp_org scope) (pp_amount p) of
        Some e \<Rightarrow> (Inl (OnRails e), st)
      | None \<Rightarrow>
     (case preflight (w_cfg w) (w_balances w) (pp_destination p) (pp_amount p) of
        Some e \<Rightarrow> (Inl (OnRails e), st)
      | None \<Rightarrow>
     (case sv_ttl st (sp_org scope) of
        None \<Rightarrow> (Inl NoOrg, st)
      | Some ttl \<Rightarrow>
     (case find_treasury st (sp_org scope) (pp_treasury p) of
        None \<Rightarrow> (Inl ErrNoTreasury, st)
      | Some t \<Rightarrow>
          if tr_kind t \<noteq> TreasuryClassic then (Inl NotClassic, st)
          else openProposal w scope ttl t ''payment''
                 [PaymentOp (pp_destination p) (String_of (pp_amount p)) (CreditAsset (w_cfg w))]
                 (pp_memo p) (pp_amount p) (pp_created_by p) st))))))"

section \<open>Approving\<close>

text \<open>One row per signature of the returned envelope that an attributed signer made.\<close>

fun store_signatures ::
  "'tx world \<Rightarrow> OrgID \<Rightarrow> ProposalID \<Rightarrow> (address \<times> int32) list \<Rightarrow> 'tx \<Rightarrow> IdentityID \<Rightarrow> nat \<Rightarrow> env_sig list \<Rightarrow> proposal_db
   \<Rightarrow> svc_error option \<times> proposal_db" where
  "store_signatures w org i attributed env by_id k [] db = (None, db)"
| "store_signatures w org i attributed env by_id k (sig # sigs) db =
     (case ownerOf w k sig attributed env of
        None \<Rightarrow> store_signatures w org i attributed env by_id (Suc k) sigs db
      | Some a \<Rightarrow>
          (case AddSignature (w_pf w) (w_now w) (w_dbnow w) org i
                  \<lparr>sg_signer = a, sg_signature = sig_bytes sig,
                   sg_weight = sint (case map_of attributed a of None \<Rightarrow> 0 | Some v \<Rightarrow> v),
                   sg_added_by = by_id, sg_created_at = 0\<rparr> db of
             (Some e, db') \<Rightarrow> (Some (OnStore e), db')
           | (None, db') \<Rightarrow> store_signatures w org i attributed env by_id (Suc k) sigs db'))"

text \<open>The checks of \<open>Approve\<close>: the envelope that came back, and which of the account's signers are on it.\<close>

definition check_approval ::
  "'tx world \<Rightarrow> Scope \<Rightarrow> ProposalID \<Rightarrow> string \<Rightarrow> 'tx svc \<Rightarrow> (svc_error, 'tx \<times> (address \<times> int32) list) result" where
  "check_approval w scope i signedXDR st =
     (case Proposal_of (sv_db st) (sp_org scope) i of
        Inl e \<Rightarrow> Inl (OnStore e)
      | Inr p \<Rightarrow>
     (if pr_status p \<noteq> ProposalOpen then Inl (OnStore ErrProposalClosed)
      else case find_treasury st (sp_org scope) (pr_treasury p) of
        None \<Rightarrow> Inl ErrNoTreasury
      | Some t \<Rightarrow>
     (case transactionFrom w signedXDR of
        Inl e \<Rightarrow> Inl e
      | Inr returned \<Rightarrow>
     (case HashHex w returned (w_network w) of
        None \<Rightarrow> Inl CannotHash
      | Some h \<Rightarrow>
     (if h \<noteq> pr_hash p then Inl ErrWrongEnvelope
      else case w_signer_set w (tr_address t) of
        None \<Rightarrow> Inl LoadAccountFailed
      | Some s \<Rightarrow>
     (case Attribute (w_sdk w) (w_order w) (TxSignatures (w_sdk w) returned) returned (w_network w) s of
        Inl e \<Rightarrow> Inl (OnSigner e)
      | Inr attributed \<Rightarrow>
          if attributed = [] then Inl ErrWrongEnvelope else Inr (returned, attributed)))))))"

definition Approve ::
  "'tx world \<Rightarrow> Scope \<Rightarrow> ProposalID \<Rightarrow> string \<Rightarrow> IdentityID \<Rightarrow> 'tx svc \<Rightarrow> (svc_error, ProposalView) result \<times> 'tx svc" where
  "Approve w scope i signedXDR by_id st =
     (case scope_check scope of
        Some e \<Rightarrow> (Inl e, st)
      | None \<Rightarrow>
          if signedXDR = [] then (Inl NoEnvelope, st)
          else case check_approval w scope i signedXDR st of
                 Inl e \<Rightarrow> (Inl e, st)
               | Inr (returned, attributed) \<Rightarrow>
                   (case store_signatures w (sp_org scope) i attributed returned by_id 1
                           (TxSignatures (w_sdk w) returned) (sv_db st) of
                      (Some e, db) \<Rightarrow> (Inl e, st\<lparr>sv_db := db\<rparr>)
                    | (None, db) \<Rightarrow> LoadProposal w scope i (st\<lparr>sv_db := db\<rparr>)))"

section \<open>Executing\<close>

definition resolve ::
  "'tx world \<Rightarrow> Scope \<Rightarrow> ProposalID \<Rightarrow> string \<Rightarrow> string \<Rightarrow> string \<Rightarrow> IdentityID \<Rightarrow> 'tx svc \<Rightarrow> store_error option \<times> 'tx svc" where
  "resolve w scope i status hash detail actor st =
     (case ResolveProposal (w_pf w) (w_dbnow w) (sp_org scope) i status hash detail actor (sv_db st) of
        (e, db) \<Rightarrow> (e, st\<lparr>sv_db := db\<rparr>))"

definition resolve_or ::
  "'tx world \<Rightarrow> Scope \<Rightarrow> ProposalID \<Rightarrow> string \<Rightarrow> string \<Rightarrow> string \<Rightarrow> IdentityID \<Rightarrow> (svc_error, 'a) result \<Rightarrow> 'tx svc
   \<Rightarrow> (svc_error, 'a) result \<times> 'tx svc" where
  "resolve_or w scope i status hash detail actor r st =
     (case resolve w scope i status hash detail actor st of
        (Some e, st') \<Rightarrow> (Inl (OnStore e), st')
      | (None, st') \<Rightarrow> (r, st'))"

definition sequence_detail :: "int64 \<Rightarrow> int64 \<Rightarrow> string" where
  "sequence_detail current reserved =
     ''the treasury's sequence moved to '' @ fmt_int (sint current) @ ''; this envelope reserved '' @ fmt_int (sint reserved)"

definition refused ::
  "'tx world \<Rightarrow> Scope \<Rightarrow> ProposalID \<Rightarrow> Rejection \<Rightarrow> IdentityID \<Rightarrow> 'tx svc \<Rightarrow> (svc_error, Result) result \<times> 'tx svc" where
  "refused w scope i rej by_id st =
     (let out = Inl (RefusedError (rj_transaction rej) (rj_operations rej) (Spent rej))
      in if \<not> Spent rej then (out, st)
         else let status = (if rj_transaction rej = ''tx_too_late'' then ProposalExpired else ProposalFailed);
                  hash = (if rj_transaction rej = ''tx_failed'' then rj_hash rej else [])
              in case resolve w scope i status hash (''the network refused it: '' @ Codes rej) by_id st of
                   (Some e, st') \<Rightarrow> if e \<noteq> ErrProposalClosed then (Inl (OnStore e), st') else (out, st')
                 | (None, st') \<Rightarrow> (out, st'))"

definition soroban ::
  "'tx world \<Rightarrow> Scope \<Rightarrow> ProposalID \<Rightarrow> string \<Rightarrow> IdentityID \<Rightarrow> 'tx \<Rightarrow> 'tx svc \<Rightarrow> (svc_error, Result) result \<times> 'tx svc" where
  "soroban w scope i detail by_id env st0 =
     (let st = st0\<lparr>sv_sent := sv_sent st0 @ [env]\<rparr>
      in case SubmitSoroban w env of
           None \<Rightarrow> (Inl SorobanAmbiguous, st)
         | Some r \<Rightarrow>
             if r_failed r then resolve_or w scope i ProposalFailed (r_hash r) detail by_id (Inl ContractCallFailed) st
             else resolve_or w scope i ProposalExecuted (r_hash r) [] by_id (Inr r) st)"

definition submit_classic ::
  "'tx world \<Rightarrow> Scope \<Rightarrow> ProposalID \<Rightarrow> IdentityID \<Rightarrow> 'tx \<Rightarrow> 'tx svc \<Rightarrow> (svc_error, Result) result \<times> 'tx svc" where
  "submit_classic w scope i by_id env st0 =
     (let st = st0\<lparr>sv_sent := sv_sent st0 @ [env]\<rparr>
      in case Submit (\<lambda>t. HashHex w t (w_network w)) (HorizonSubmit w) (HorizonLookup w) env of
           Inl (Rejected rej) \<Rightarrow> refused w scope i rej by_id st
         | Inl e \<Rightarrow> (Inl (SubmitFailed e), st)
         | Inr r \<Rightarrow> resolve_or w scope i ProposalExecuted (r_hash r) [] by_id (Inr r) st)"

definition submit_by_kind ::
  "'tx world \<Rightarrow> Scope \<Rightarrow> ProposalID \<Rightarrow> string \<Rightarrow> IdentityID \<Rightarrow> 'tx \<Rightarrow> 'tx svc \<Rightarrow> (svc_error, Result) result \<times> 'tx svc" where
  "submit_by_kind w scope i kind by_id env st =
     (if kind = ''invoke''
      then (if \<not> InvokeOk w env then (Inl InvokeRefused, st)
            else soroban w scope i ''the contract call was included and failed'' by_id env st)
      else if kind = ''restore''
      then (if \<not> CallsOn w then (Inl ContractCallsOff, st)
            else soroban w scope i ''the restore was included and failed'' by_id env st)
      else if kind = ''dex'' \<and> \<not> StillDelivers w env then (Inl MarketMoved, st)
      else submit_classic w scope i by_id env st)"

definition ExecuteProposal ::
  "'tx world \<Rightarrow> Scope \<Rightarrow> ProposalID \<Rightarrow> IdentityID \<Rightarrow> 'tx svc \<Rightarrow> (svc_error, Result) result \<times> 'tx svc" where
  "ExecuteProposal w scope i by_id st0 =
     (case scope_check scope of
        Some e \<Rightarrow> (Inl e, st0)
      | None \<Rightarrow>
     (case writable (w_cfg w) (w_stat w) of
        Some e \<Rightarrow> (Inl (OnRails e), st0)
      | None \<Rightarrow>
     (case LoadProposal w scope i st0 of
        (Inl e, st) \<Rightarrow> (Inl e, st)
      | (Inr view, st) \<Rightarrow>
          let p = vw_proposal view
          in if pr_status p \<noteq> ProposalOpen then (Inl (OnStore ErrProposalClosed), st)
             else if \<not> Ready view then (Inl ErrNotEnoughSignatures, st)
             else case w_sequence w (tr_address (vw_treasury view)) of
               None \<Rightarrow> (Inl LoadAccountFailed, st)
             | Some current \<Rightarrow>
                 if sint current \<ge> sint (pr_seq p)
                 then resolve_or w scope i ProposalFailed [] (sequence_detail current (pr_seq p)) by_id (Inl ErrSequenceMoved) st
                 else case transactionFrom w (pr_xdr p) of
                   Inl e \<Rightarrow> (Inl e, st)
                 | Inr tx \<Rightarrow>
                     (case applySignatures w tx (Signatures (sv_db st) (sp_org scope) i) of
                        Inl e \<Rightarrow> (Inl e, st)
                      | Inr env \<Rightarrow> submit_by_kind w scope i (pr_kind p) by_id env st))))"

section \<open>Withdrawing\<close>

definition CancelProposal ::
  "'tx world \<Rightarrow> Scope \<Rightarrow> ProposalID \<Rightarrow> MemberID \<Rightarrow> bool \<Rightarrow> 'tx svc \<Rightarrow> (svc_error, Proposal) result \<times> 'tx svc" where
  "CancelProposal w scope i by_member admin st0 =
     (case scope_check scope of
        Some e \<Rightarrow> (Inl e, st0)
      | None \<Rightarrow>
          let st = expire_all w st0
          in case Proposal_of (sv_db st) (sp_org scope) i of
               Inl e \<Rightarrow> (Inl (OnStore e), st)
             | Inr p \<Rightarrow>
                 if pr_status p \<noteq> ProposalOpen then (Inl (OnStore ErrProposalClosed), st)
                 else if \<not> admin \<and> pr_created_by p \<noteq> by_member then (Inl ErrNotYoursToCancel, st)
                 else resolve_or w scope i ProposalCancelled []
                        (''withdrawn by member #'' @ fmt_int (sint by_member)) 0
                        (Inr (p\<lparr>pr_status := ProposalCancelled\<rparr>)) st)"

section \<open>What is sent\<close>

lemma resolve_or_sent: "sv_sent (snd (resolve_or w scope i status h d a r st)) = sv_sent st"
  by (simp add: resolve_or_def resolve_def split: prod.splits option.splits)

lemma refused_sent: "sv_sent (snd (refused w scope i rej a st)) = sv_sent st"
  by (simp add: refused_def resolve_def Let_def split: prod.splits option.splits)

lemma submit_by_kind_sent:
  "sv_sent (snd (submit_by_kind w scope i kind by_id env st)) \<in> {sv_sent st, sv_sent st @ [env]}"
  by (simp add: submit_by_kind_def soroban_def submit_classic_def Let_def resolve_or_sent refused_sent
      split: option.split sum.split submit_error.split)

lemma LoadProposal_Inr:
  assumes "LoadProposal w scope i st0 = (Inr v, st)"
  obtains p t tx d where "st = expire_all w st0" "find_proposal (sv_db st) (sp_org scope) i = Some p"
    "find_treasury st (sp_org scope) (pr_treasury p) = Some t" "FromXDR w (pr_xdr p) = Some tx"
    "viewOf w st scope p t tx d = Inr v"
  using assms
  by (auto simp: LoadProposal_def Let_def Proposal_of_def transactionFrom_def
      split: option.splits sum.splits)

lemma LoadProposal_state: "sv_sent (snd (LoadProposal w scope i st)) = sv_sent st"
  by (simp add: LoadProposal_def Let_def expire_all_def split: option.split)

lemma open_after_expiry:
  assumes "p \<in> set (proposals (snd (ExpireProposals now db)))" "pr_status p = ProposalOpen"
  shows "now < pr_expires_at p"
  using assms by (auto simp: ExpireProposals_def expire_where_def stale_def split: if_splits)

lemma sum_filter_mono:
  assumes "\<forall>x \<in> set xs. 0 \<le> f x" "\<And>x. x \<in> set xs \<Longrightarrow> P x \<Longrightarrow> Q x"
  shows "sum_list (map f (filter P xs)) \<le> (sum_list (map f (filter Q xs)) :: int)"
  using assms by (induction xs) fastforce+

lemma pr_id_find: "find_proposal db org i = Some p \<Longrightarrow> pr_id p = i \<and> pr_org p = org \<and> p \<in> set (proposals db)"
  using find_in_set [of "\<lambda>p. pr_id p = i \<and> pr_org p = org" "proposals db" p] by (simp add: find_proposal_def)

text \<open>A view that says ready rests on stored signatures that verify.\<close>

lemma Ready_weight:
  assumes "viewOf w st scope p t tx d = Inr v" "Ready v" "permutes (w_order w)"
    and "\<And>a s. w_signer_set w a = Some s \<Longrightarrow> wf_signers (signers s)"
  obtains s sigs hash where "w_signer_set w (tr_address t) = Some s"
    "decorate w (Signatures (sv_db st) (sp_org scope) (pr_id p)) = Inr sigs"
    "Hash (w_sdk w) tx (w_network w) = Some hash"
    "0 < sint (medium s)" "sint (medium s) \<le> weight_on (w_sdk w) hash sigs (signers s)"
proof -
  let ?stored = "Signatures (sv_db st) (sp_org scope) (pr_id p)"
  obtain s seen where s: "w_signer_set w (tr_address t) = Some s" "rebuild w tx ?stored (signers s) = Inr seen"
    and v: "vw_have v = sum_list (map snd (filter (\<lambda>(a, x). a \<in> fst ` set seen) (signers s)))" "vw_need v = medium s"
    using assms(1) by (auto simp: viewOf_def Let_def split: option.splits sum.splits)
  have wf: "wf_signers (signers s)" using assms(4) s(1) by blast
  have need: "0 < sint (medium s)" "sint (medium s) \<le> sint (vw_have v)"
    using assms(2) v(2) by (auto simp: Ready_def)
  have "seen \<noteq> []"
  proof
    assume "seen = []"
    then have "vw_have v = 0" using v(1) by simp
    then show False using need by simp
  qed
  then obtain sigs where sigs: "decorate w ?stored = Inr sigs"
    "Attribute (w_sdk w) (w_order w) sigs tx (w_network w) \<lparr>signers = signers s, medium = 1\<rparr> = Inr seen"
    using s(2) by (auto simp: rebuild_def split: if_splits sum.splits)
  then obtain hash where h: "Hash (w_sdk w) tx (w_network w) = Some hash"
    "seen = attribute_loop (w_sdk w) (w_order w) 1 hash (signers s) sigs []"
    using sigs(2) unfolding Attribute_Inr [OF assms(3)] by auto
  have by_sig: "\<exists>sig \<in> set sigs. signed_by (w_sdk w) hash sig a" if "a \<in> fst ` set seen" for a
    using that attribute_loop_sound [OF assms(3), of "[]" "signers s" sigs "w_sdk w" hash sigs 1] h(2) by auto
  let ?did = "filter (\<lambda>(a, x). a \<in> fst ` set seen) (signers s)"
  have nn: "\<forall>x \<in> set (signers s). 0 \<le> (case x of (a, x) \<Rightarrow> sint x)" using wf by (auto simp: wf_signers_def)
  have "sum_list (map (\<lambda>(a, x). sint x) ?did) \<le> sum_list (map (\<lambda>(a, x). sint x) (signers s))"
    by (rule sum_filter_le [OF nn])
  moreover have e: "sum_list (map sint (map snd ?did)) = sum_list (map (\<lambda>(a, x). sint x) ?did)"
    by (simp add: comp_def case_prod_unfold)
  moreover have "\<forall>x \<in> set (map snd ?did). 0 \<le> sint x" using wf by (auto simp: wf_signers_def)
  ultimately have "sint (vw_have v) = sum_list (map (\<lambda>(a, x). sint x) ?did)"
    using sint_sum32 [of "map snd ?did"] wf v(1) by (simp add: wf_signers_def)
  also have "\<dots> \<le> weight_on (w_sdk w) hash sigs (signers s)"
    unfolding weight_on_def signers_on_def by (rule sum_filter_mono [OF nn]) (use by_sig in auto)
  finally have "sint (medium s) \<le> weight_on (w_sdk w) hash sigs (signers s)" using need(2) by simp
  then show thesis using that s(1) sigs(1) h(1) need(1) by blast
qed

text \<open>The part of \<open>ExecuteProposal\<close> after the proposal has been loaded.\<close>

lemma Execute_loaded:
  assumes "scope_check scope = None" "writable (w_cfg w) (w_stat w) = None" "LoadProposal w scope i st = (Inr v, st1)"
  obtains p t tx d where "st1 = expire_all w st" "find_proposal (sv_db st1) (sp_org scope) i = Some p"
    "find_treasury st1 (sp_org scope) (pr_treasury p) = Some t" "FromXDR w (pr_xdr p) = Some tx"
    "viewOf w st1 scope p t tx d = Inr v"
    "ExecuteProposal w scope i by_id st =
    (if pr_status p \<noteq> ProposalOpen then (Inl (OnStore ErrProposalClosed), st1)
     else if \<not> Ready v then (Inl ErrNotEnoughSignatures, st1)
     else case w_sequence w (tr_address t) of
        None \<Rightarrow> (Inl LoadAccountFailed, st1)
      | Some current \<Rightarrow>
          if sint current \<ge> sint (pr_seq p)
          then resolve_or w scope i ProposalFailed [] (sequence_detail current (pr_seq p)) by_id (Inl ErrSequenceMoved) st1
          else case applySignatures w tx (Signatures (sv_db st1) (sp_org scope) i) of
                 Inl e \<Rightarrow> (Inl e, st1)
               | Inr env \<Rightarrow> submit_by_kind w scope i (pr_kind p) by_id env st1)"
proof -
  obtain p t tx d where l: "st1 = expire_all w st" "find_proposal (sv_db st1) (sp_org scope) i = Some p"
    "find_treasury st1 (sp_org scope) (pr_treasury p) = Some t" "FromXDR w (pr_xdr p) = Some tx"
    "viewOf w st1 scope p t tx d = Inr v"
    by (rule LoadProposal_Inr [OF assms(3)])
  have "vw_proposal v = p" "vw_treasury v = t"
    using l(5) by (auto simp: viewOf_def Let_def split: option.splits sum.splits)
  then show thesis
    using assms l(4) by (intro that [OF l]) (simp add: ExecuteProposal_def Let_def transactionFrom_def split: option.split)
qed

text \<open>
  C1: nothing is submitted that its signers did not authorise.  If executing a proposal hands an envelope to the
  network, it hands over exactly one: the proposal's own envelope with the stored signatures attached, of a
  proposal that is open and inside its window, in a deployment that is not read-only, from a treasury whose
  sequence number has not moved past the one reserved, and stored signatures that verify over this envelope's
  hash carry the weight of the account's medium threshold as the network reports it now.
\<close>

theorem Execute_submits_only_authorised:
  assumes "ExecuteProposal w scope i by_id st = (r, st')" "sv_sent st' \<noteq> sv_sent st" "permutes (w_order w)"
    and "\<And>a s. w_signer_set w a = Some s \<Longrightarrow> wf_signers (signers s)"
  defines "db \<equiv> sv_db (expire_all w st)"
  shows "\<exists>p t tx env s sigs hash cur.
    writable (w_cfg w) (w_stat w) = None
    \<and> find_proposal db (sp_org scope) i = Some p \<and> pr_status p = ProposalOpen \<and> w_dbnow w < pr_expires_at p
    \<and> find_treasury st (sp_org scope) (pr_treasury p) = Some t \<and> FromXDR w (pr_xdr p) = Some tx
    \<and> applySignatures w tx (Signatures db (sp_org scope) i) = Inr env \<and> sv_sent st' = sv_sent st @ [env]
    \<and> w_sequence w (tr_address t) = Some cur \<and> sint cur < sint (pr_seq p)
    \<and> w_signer_set w (tr_address t) = Some s \<and> decorate w (Signatures db (sp_org scope) i) = Inr sigs
    \<and> Hash (w_sdk w) tx (w_network w) = Some hash
    \<and> 0 < sint (medium s) \<and> sint (medium s) \<le> weight_on (w_sdk w) hash sigs (signers s)"
proof -
  have wr: "writable (w_cfg w) (w_stat w) = None" and sc: "scope_check scope = None"
    using assms(1,2) by (auto simp: ExecuteProposal_def split: option.splits)
  obtain v st1 where v: "LoadProposal w scope i st = (Inr v, st1)"
    using assms(1,2) wr sc LoadProposal_state [of w scope i st]
    by (cases "LoadProposal w scope i st") (auto simp: ExecuteProposal_def split: sum.splits)
  obtain p t tx d where l: "st1 = expire_all w st" "find_proposal (sv_db st1) (sp_org scope) i = Some p"
    "find_treasury st1 (sp_org scope) (pr_treasury p) = Some t" "FromXDR w (pr_xdr p) = Some tx"
    "viewOf w st1 scope p t tx d = Inr v"
    and ex: "ExecuteProposal w scope i by_id st =
    (if pr_status p \<noteq> ProposalOpen then (Inl (OnStore ErrProposalClosed), st1)
     else if \<not> Ready v then (Inl ErrNotEnoughSignatures, st1)
     else case w_sequence w (tr_address t) of
        None \<Rightarrow> (Inl LoadAccountFailed, st1)
      | Some current \<Rightarrow>
          if sint current \<ge> sint (pr_seq p)
          then resolve_or w scope i ProposalFailed [] (sequence_detail current (pr_seq p)) by_id (Inl ErrSequenceMoved) st1
          else case applySignatures w tx (Signatures (sv_db st1) (sp_org scope) i) of
                 Inl e \<Rightarrow> (Inl e, st1)
               | Inr env \<Rightarrow> submit_by_kind w scope i (pr_kind p) by_id env st1)"
    by (rule Execute_loaded [OF sc wr v])
  have sent1: "sv_sent st1 = sv_sent st" using l(1) by (simp add: expire_all_def)
  have op: "pr_status p = ProposalOpen" and rd: "Ready v"
    using assms(1,2) ex sent1 by (auto split: if_splits)
  obtain cur where cur: "w_sequence w (tr_address t) = Some cur" "sint cur < sint (pr_seq p)"
  proof (cases "w_sequence w (tr_address t)")
    case None
    then show thesis using assms(1,2) ex sent1 op rd by simp
  next
    case (Some cur)
    have "\<not> sint cur \<ge> sint (pr_seq p)"
    proof
      assume "sint cur \<ge> sint (pr_seq p)"
      then have "resolve_or w scope i ProposalFailed [] (sequence_detail cur (pr_seq p)) by_id (Inl ErrSequenceMoved) st1 = (r, st')"
        using assms(1) ex op rd Some by simp
      then show False using assms(2) sent1 resolve_or_sent by (metis snd_conv)
    qed
    then show thesis using that Some by simp
  qed
  obtain env where env: "applySignatures w tx (Signatures (sv_db st1) (sp_org scope) i) = Inr env"
    "submit_by_kind w scope i (pr_kind p) by_id env st1 = (r, st')"
    using assms(1,2) ex sent1 op rd cur by (auto split: sum.splits)
  have sent: "sv_sent st' = sv_sent st @ [env]"
    using submit_by_kind_sent [of w scope i "pr_kind p" by_id env st1] env(2) sent1 assms(2) by simp
  have ex: "w_dbnow w < pr_expires_at p"
    using open_after_expiry [OF _ op] pr_id_find [OF l(2)] l(1) by (auto simp: expire_all_def)
  have t: "find_treasury st (sp_org scope) (pr_treasury p) = Some t"
    using l(1,3) by (simp add: find_treasury_def expire_all_def)
  have i: "pr_id p = i" using pr_id_find [OF l(2)] by simp
  obtain s sigs hash where s: "w_signer_set w (tr_address t) = Some s"
    "decorate w (Signatures (sv_db st1) (sp_org scope) (pr_id p)) = Inr sigs"
    "Hash (w_sdk w) tx (w_network w) = Some hash"
    "0 < sint (medium s)" "sint (medium s) \<le> weight_on (w_sdk w) hash sigs (signers s)"
    by (rule Ready_weight [OF l(5) rd assms(3,4)])
  show ?thesis
    using wr l(2,4) op ex t env(1) sent cur s i unfolding db_def l(1)
    by (intro exI [of _ p] exI [of _ t] exI [of _ tx] exI [of _ env] exI [of _ s] exI [of _ sigs] exI [of _ hash]
        exI [of _ cur]) simp
qed

section \<open>What an unsettled submission leaves behind\<close>

definition unsettled :: "svc_error \<Rightarrow> bool" where
  "unsettled e = (case e of SubmitFailed _ \<Rightarrow> True | SorobanAmbiguous \<Rightarrow> True | RefusedError _ _ closed \<Rightarrow> \<not> closed | _ \<Rightarrow> False)"

lemma unsettled_simps [simp]:
  "unsettled (SubmitFailed x)" "unsettled SorobanAmbiguous" "unsettled (RefusedError c ops b) \<longleftrightarrow> \<not> b"
  "\<not> unsettled (OnStore y)" "\<not> unsettled (OnSigner z)" "\<not> unsettled (OnRails u)" "\<not> unsettled NotAnAccount" "\<not> unsettled AttachFailed"
  "\<not> unsettled ErrSequenceMoved" "\<not> unsettled ContractCallFailed" "\<not> unsettled ErrWrongEnvelope" "\<not> unsettled Indescribable"
  "\<not> unsettled ErrNoTreasury" "\<not> unsettled LoadAccountFailed" "\<not> unsettled ErrNotEnoughSignatures"
  "\<not> unsettled InvokeRefused" "\<not> unsettled ContractCallsOff" "\<not> unsettled MarketMoved"
  by (simp_all add: unsettled_def)

lemma hintOf_error: "hintOf w a = Inl e \<Longrightarrow> \<not> unsettled e"
  by (auto simp: hintOf_def split: option.splits)

lemma decorate_error: "decorate w ss = Inl e \<Longrightarrow> \<not> unsettled e"
  by (induction ss) (auto dest: hintOf_error split: sum.splits)

lemma applySignatures_error: "applySignatures w tx ss = Inl e \<Longrightarrow> \<not> unsettled e"
  by (induction ss arbitrary: tx) (auto dest: hintOf_error split: sum.splits option.splits)

lemma rebuild_error: "rebuild w tx ss m = Inl e \<Longrightarrow> \<not> unsettled e"
  by (auto simp: rebuild_def dest: decorate_error split: if_splits sum.splits)

lemma viewOf_error: "viewOf w st scope p t tx d = Inl e \<Longrightarrow> \<not> unsettled e"
  by (auto simp: viewOf_def Let_def dest: rebuild_error split: option.splits sum.splits)

lemma scope_error: "scope_check scope = Some e \<Longrightarrow> \<not> unsettled e"
  by (auto simp: scope_check_def unsettled_def split: if_splits)

lemma LoadProposal_error: "LoadProposal w scope i st = (Inl e, st') \<Longrightarrow> \<not> unsettled e"
  by (auto simp: LoadProposal_def Let_def transactionFrom_def Proposal_of_def dest: viewOf_error scope_error
      split: option.splits sum.splits)

lemma resolve_or_error:
  "resolve_or w scope i status h d a r st = (Inl e, st') \<Longrightarrow> unsettled e \<Longrightarrow> r = Inl e"
  by (auto simp: resolve_or_def split: prod.splits option.splits)

lemma refused_unsettled:
  "refused w scope i rej a st = (Inl e, st') \<Longrightarrow> unsettled e \<Longrightarrow> sv_db st' = sv_db st"
  by (auto simp: refused_def Let_def split: prod.splits option.splits if_splits)

lemma soroban_unsettled:
  "soroban w scope i d a env st = (Inl e, st') \<Longrightarrow> unsettled e \<Longrightarrow> sv_db st' = sv_db st"
  by (auto simp: soroban_def Let_def dest: resolve_or_error split: option.splits if_splits)

lemma submit_classic_unsettled:
  "submit_classic w scope i a env st = (Inl e, st') \<Longrightarrow> unsettled e \<Longrightarrow> sv_db st' = sv_db st"
  by (auto simp: submit_classic_def Let_def dest: resolve_or_error refused_unsettled split: sum.splits submit_error.splits)

lemma submit_by_kind_unsettled:
  "submit_by_kind w scope i kind a env st = (Inl e, st') \<Longrightarrow> unsettled e \<Longrightarrow> sv_db st' = sv_db st"
  by (auto simp: submit_by_kind_def dest: soroban_unsettled submit_classic_unsettled split: if_splits)

text \<open>
  C18: an unanswered question is not an answer.  When a submission's outcome is unknown, or the network turned the
  envelope away for a reason that leaves it valid, the proposal tables are left as they were (beyond the expiry
  every read performs): the proposal stays open with its signatures and can be executed again.
\<close>

theorem Execute_unsettled_stays_open:
  assumes "ExecuteProposal w scope i by_id st = (Inl e, st')" "unsettled e"
  shows "sv_db st' = sv_db (expire_all w st)"
proof -
  have sc: "scope_check scope = None" and wr: "writable (w_cfg w) (w_stat w) = None"
    using assms by (auto simp: ExecuteProposal_def dest: scope_error split: option.splits)
  obtain v st1 where v: "LoadProposal w scope i st = (Inr v, st1)"
    using assms sc wr LoadProposal_error [of w scope i st]
    by (cases "LoadProposal w scope i st") (auto simp: ExecuteProposal_def split: sum.splits)
  show ?thesis
  proof (rule Execute_loaded [OF sc wr v, of by_id], goal_cases)
    case (1 p t tx d)
    have "sv_db st' = sv_db st1"
      using assms 1(6) by (auto dest: resolve_or_error applySignatures_error submit_by_kind_unsettled
          split: if_splits option.splits sum.splits)
    then show ?case using 1(1) by simp
  qed
qed

section \<open>What an approval records\<close>

lemma AddSignature_rows:
  assumes "AddSignature pf now dbnow org i sig db = (r, db')" "x \<in> set (signatures db')"
  shows "x \<in> set (signatures db) \<or> x = (i, sig\<lparr>sg_created_at := dbnow\<rparr>)"
  using assms(1) by (cases rule: AddSignature_cases) (use assms(2) in auto)

lemma ownerOf_Some:
  assumes "ownerOf w k sig attributed env = Some a" "permutes (w_order w)"
  shows "a \<in> fst ` set attributed \<and> (\<exists>hash. Hash (w_sdk w) env (w_network w) = Some hash \<and> signed_by (w_sdk w) hash sig a)"
proof -
  obtain hash x where h: "Hash (w_sdk w) env (w_network w) = Some hash" "a = fst x"
    "find (\<lambda>(a, v). signed_by (w_sdk w) hash sig a) (w_order w k attributed) = Some x"
    using assms(1) by (auto simp: ownerOf_def split: option.splits)
  then show ?thesis using find_in_set [OF h(3)] assms(2) by (auto simp: permutes_def)
qed

lemma store_signatures_rows:
  assumes "permutes (w_order w)" "store_signatures w org i attributed env by_id k sigs db = (r, db')"
    and "(j, s) \<in> set (signatures db')" "(j, s) \<notin> set (signatures db)"
  shows "j = i \<and> sg_signer s \<in> fst ` set attributed \<and>
    (\<exists>hash. Hash (w_sdk w) env (w_network w) = Some hash \<and> Verify (w_sdk w) (sg_signer s) hash (sg_signature s))"
  using assms(2-)
proof (induction sigs arbitrary: k db)
  case (Cons sig sigs)
  show ?case
  proof (cases "ownerOf w k sig attributed env")
    case None
    then show ?thesis using Cons by simp
  next
    case (Some a)
    let ?row = "\<lparr>sg_signer = a, sg_signature = sig_bytes sig,
        sg_weight = sint (case map_of attributed a of None \<Rightarrow> 0 | Some v \<Rightarrow> v), sg_added_by = by_id, sg_created_at = 0\<rparr>"
    obtain e db1 where add: "AddSignature (w_pf w) (w_now w) (w_dbnow w) org i ?row db = (e, db1)" by fastforce
    show ?thesis
    proof (cases "(j, s) \<in> set (signatures db1)")
      case True
      then have "(j, s) = (i, ?row\<lparr>sg_created_at := w_dbnow w\<rparr>)"
        using AddSignature_rows [OF add True] Cons.prems(3) by blast
      then show ?thesis using ownerOf_Some [OF Some assms(1)] by (auto simp: signed_by_def)
    next
      case False
      then have "e = None" using Cons.prems Some add by (cases e) auto
      then have "store_signatures w org i attributed env by_id (Suc k) sigs db1 = (r, db')"
        using Cons.prems(1) Some add by simp
      then show ?thesis using Cons.IH Cons.prems(2) False by blast
    qed
  qed
qed simp

lemma expire_all_signatures: "signatures (sv_db (expire_all w st)) = signatures (sv_db st)"
  by (simp add: expire_all_def ExpireProposals_def expire_where_def)

lemma LoadProposal_signatures: "signatures (sv_db (snd (LoadProposal w scope i st))) = signatures (sv_db st)"
  by (simp add: LoadProposal_def Let_def expire_all_signatures split: option.split)

lemma check_approval_Inr:
  assumes "check_approval w scope i xdr st = Inr (returned, attributed)"
  obtains p t s where "find_proposal (sv_db st) (sp_org scope) i = Some p" "pr_status p = ProposalOpen"
    "find_treasury st (sp_org scope) (pr_treasury p) = Some t" "FromXDR w xdr = Some returned"
    "HashHex w returned (w_network w) = Some (pr_hash p)" "w_signer_set w (tr_address t) = Some s"
    "Attribute (w_sdk w) (w_order w) (TxSignatures (w_sdk w) returned) returned (w_network w) s = Inr attributed"
  using assms
  by (auto simp: check_approval_def Proposal_of_def transactionFrom_def split: option.splits sum.splits if_splits)

text \<open>
  C17: only a signer's own signature over the proposal is ever recorded.  Every signature that \<open>Approve\<close> adds is for
  the proposal named, which is open; the envelope it came on hashes to the proposal's hash; and it verifies, over
  that envelope, under a key that is a signer of the treasury as the network reports it at that moment.
\<close>

theorem Approve_records_only_signers:
  assumes "Approve w scope i xdr by_id st = (r, st')" "permutes (w_order w)"
    and "(j, s) \<in> set (signatures (sv_db st'))" "(j, s) \<notin> set (signatures (sv_db st))"
  shows "j = i \<and> (\<exists>p t returned ss hash.
    find_proposal (sv_db st) (sp_org scope) i = Some p \<and> pr_status p = ProposalOpen
    \<and> find_treasury st (sp_org scope) (pr_treasury p) = Some t \<and> FromXDR w xdr = Some returned
    \<and> HashHex w returned (w_network w) = Some (pr_hash p) \<and> w_signer_set w (tr_address t) = Some ss
    \<and> sg_signer s \<in> fst ` set (signers ss) \<and> Hash (w_sdk w) returned (w_network w) = Some hash
    \<and> Verify (w_sdk w) (sg_signer s) hash (sg_signature s))"
proof -
  obtain returned attributed where c: "check_approval w scope i xdr st = Inr (returned, attributed)"
    using assms by (auto simp: Approve_def split: option.splits if_splits sum.splits)
  obtain e db where ss: "store_signatures w (sp_org scope) i attributed returned by_id 1
      (TxSignatures (w_sdk w) returned) (sv_db st) = (e, db)" by fastforce
  have "signatures (sv_db st') = signatures db"
    using assms c ss LoadProposal_signatures [of w scope i "st\<lparr>sv_db := db\<rparr>"]
    by (auto simp: Approve_def split: option.splits if_splits)
  then have row: "j = i" "sg_signer s \<in> fst ` set attributed"
    "\<exists>hash. Hash (w_sdk w) returned (w_network w) = Some hash \<and> Verify (w_sdk w) (sg_signer s) hash (sg_signature s)"
    using store_signatures_rows [OF assms(2) ss, of j s] assms(3,4) by auto
  obtain p t s' where p: "find_proposal (sv_db st) (sp_org scope) i = Some p" "pr_status p = ProposalOpen"
    "find_treasury st (sp_org scope) (pr_treasury p) = Some t" "FromXDR w xdr = Some returned"
    "HashHex w returned (w_network w) = Some (pr_hash p)" "w_signer_set w (tr_address t) = Some s'"
    and att: "Attribute (w_sdk w) (w_order w) (TxSignatures (w_sdk w) returned) returned (w_network w) s' = Inr attributed"
    by (rule check_approval_Inr [OF c])
  obtain hash where "attributed = attribute_loop (w_sdk w) (w_order w) 1 hash (signers s') (TxSignatures (w_sdk w) returned) []"
    using att unfolding Attribute_Inr [OF assms(2)] by auto
  then have "sg_signer s \<in> fst ` set (signers s')"
    using row(2) attribute_loop_sound [OF assms(2), of "[]" "signers s'" "TxSignatures (w_sdk w) returned" "w_sdk w" hash
        "TxSignatures (w_sdk w) returned" 1] by force
  then show ?thesis using row(1,3) p by blast
qed

section \<open>What proposing records\<close>

lemma trim_runes_bounded: "length (string_of_runes (trim_runes rs)) \<le> 28"
proof (induction rs rule: trim_runes.induct)
  case (1 rs)
  then show ?case by (subst trim_runes.simps) simp
qed

lemma trim_runes_prefix: "prefix (trim_runes rs) rs"
proof (induction rs rule: trim_runes.induct)
  case (1 rs)
  show ?case
  proof (cases "28 < length (string_of_runes rs)")
    case True
    have "prefix (butlast rs) rs" by (cases rs rule: rev_cases) auto
    with 1 [OF True] show ?thesis using True
      by (subst trim_runes.simps) (auto intro: prefix_order.trans)
  qed (subst trim_runes.simps, simp)
qed

text \<open>A memo is at most 28 bytes and is cut between characters, never inside one.\<close>

lemma memoOf_fits:
  "memoOf t = Some m \<Longrightarrow> length m \<le> 28 \<and> (\<exists>rs. prefix rs (runes_of t) \<and> m = string_of_runes rs)"
  using trim_runes_prefix by (auto simp: memoOf_def trim_runes_bounded split: if_splits)

lemma new_rows_created:
  assumes "CreateProposal pf now p db = (r, db')" "q \<in> set (proposals db')" "pr_id q \<notin> pr_id ` set (proposals db)"
  shows "\<exists>i. r = Inr (proposal_row p now i) \<and> q = proposal_row p now i"
  using assms(1)
proof (cases rule: CreateProposal_cases)
  case (refused e)
  then show ?thesis using assms(2,3) by (auto simp: spend_id_def split: option.splits)
next
  case (created i)
  then show ?thesis using assms(2,3) by (auto simp: expire_where_def image_iff split: if_splits)
qed

lemma openProposal_rows:
  assumes "openProposal w scope ttl t kind ops memo amount m st = (r, st')"
    and "q \<in> set (proposals (sv_db st'))" "pr_id q \<notin> pr_id ` set (proposals (sv_db st))"
  shows "\<exists>tx. BuildTx w (tr_address t) ops (memoOf memo) ttl = Some tx \<and> DescribeTx w tx = Some (pr_description q)
    \<and> HashHex w tx (w_network w) = Some (pr_hash q) \<and> Base64 w tx = Some (pr_xdr q)
    \<and> pr_org q = sp_org scope \<and> pr_treasury q = tr_id t \<and> pr_seq q = SequenceNumber w tx
    \<and> pr_amount q = (if amount = 0 then None else Some amount)"
proof -
  let ?P = "\<lambda>tx c h e. \<lparr>cp_org = sp_org scope, cp_treasury = tr_id t, cp_kind = kind, cp_xdr = e, cp_hash = h,
     cp_seq = SequenceNumber w tx, cp_description = c, cp_digest = sha256 (w_pf w) c, cp_amount = amount,
     cp_created_by = m, cp_expires_at = MaxTime w tx * 10 ^ 9\<rparr>"
  obtain tx c h e where b: "BuildTx w (tr_address t) ops (memoOf memo) ttl = Some tx" "DescribeTx w tx = Some c"
    "HashHex w tx (w_network w) = Some h" "Base64 w tx = Some e"
    using assms by (auto simp: openProposal_def split: option.splits)
  obtain r2 db where cr: "CreateProposal (w_pf w) (w_dbnow w) (?P tx c h e) (sv_db st) = (r2, db)" by fastforce
  have "sv_db st' = db" using assms(1) b cr by (auto simp: openProposal_def split: sum.splits)
  then obtain i where "q = proposal_row (?P tx c h e) (w_dbnow w) i"
    using new_rows_created [OF cr] assms(2,3) by blast
  then show ?thesis using b by (simp add: proposal_row_def)
qed

text \<open>
  C19: a payment is put to the signers only past every guard.  A proposal that \<open>ProposePayment\<close> stores is for a
  positive amount, in a writable deployment, within the ceilings, to a destination that can receive it, from a
  classic treasury of the caller's org; its stored text, hash and sequence number are those of the very envelope
  stored, which pays exactly that amount with a memo of at most 28 bytes, and the amount recorded for the ceilings
  is the amount paid.
\<close>

theorem ProposePayment_guarded:
  assumes "ProposePayment w scope p st = (r, st')"
    and "q \<in> set (proposals (sv_db st'))" "pr_id q \<notin> pr_id ` set (proposals (sv_db st))"
  shows "0 < sint (pp_amount p) \<and> writable (w_cfg w) (w_stat w) = None
    \<and> checkSpend (w_cfg w) (sv_policies st) (sv_db st) (w_now w) (sp_org scope) (pp_amount p) = None
    \<and> preflight (w_cfg w) (w_balances w) (pp_destination p) (pp_amount p) = None
    \<and> pr_org q = sp_org scope \<and> pr_amount q = Some (pp_amount p)
    \<and> (\<exists>t tx memo ttl. find_treasury st (sp_org scope) (pp_treasury p) = Some t \<and> tr_kind t = TreasuryClassic
        \<and> pr_treasury q = tr_id t \<and> (\<forall>m. memo = Some m \<longrightarrow> length m \<le> 28)
        \<and> BuildTx w (tr_address t) [PaymentOp (pp_destination p) (String_of (pp_amount p)) (CreditAsset (w_cfg w))] memo ttl = Some tx
        \<and> DescribeTx w tx = Some (pr_description q) \<and> HashHex w tx (w_network w) = Some (pr_hash q)
        \<and> Base64 w tx = Some (pr_xdr q) \<and> pr_seq q = SequenceNumber w tx)"
proof -
  have same: "st' \<noteq> st" using assms(2,3) by auto
  obtain ttl t where g: "0 < sint (pp_amount p)" "writable (w_cfg w) (w_stat w) = None"
    "checkSpend (w_cfg w) (sv_policies st) (sv_db st) (w_now w) (sp_org scope) (pp_amount p) = None"
    "preflight (w_cfg w) (w_balances w) (pp_destination p) (pp_amount p) = None"
    "find_treasury st (sp_org scope) (pp_treasury p) = Some t" "tr_kind t = TreasuryClassic"
    and o: "openProposal w scope ttl t ''payment''
      [PaymentOp (pp_destination p) (String_of (pp_amount p)) (CreditAsset (w_cfg w))]
      (pp_memo p) (pp_amount p) (pp_created_by p) st = (r, st')"
    using assms(1) same by (auto simp: ProposePayment_def not_le split: option.splits if_splits)
  have "pp_amount p \<noteq> 0" using g(1) by auto
  then show ?thesis
    using openProposal_rows [OF o assms(2,3)] g memoOf_fits [of "pp_memo p"] by auto
qed

section \<open>Instances\<close>

text \<open>One key of weight one and a threshold of one; the proposal of the small history of \<open>Proposal_Store\<close>.\<close>

definition demo_key :: address where
  "demo_key = replicate 56 (CHR ''G'')"

definition demo_sig :: env_sig where
  "demo_sig = \<lparr>sig_hint = ''GGGG'', sig_bytes = replicate 64 (CHR ''s'')\<rparr>"

definition demo_keys :: "(env_sig list, unit, unit) sdk" where
  "demo_keys = demo_sdk\<lparr>HintOf := (\<lambda>a. Some ''GGGG''),
     Verify := (\<lambda>a h s. a = demo_key \<and> s = replicate 64 (CHR ''s''))\<rparr>"

definition demo_world :: "submit_answer \<Rightarrow> env_sig list world" where
  "demo_world a = \<lparr>w_now = 20, w_dbnow = 20, w_network = ''Test'', w_cfg = demo_cfg, w_pf = demo_pf,
     w_stat = (\<lambda>_. StatNotExist), w_balances = demo_load, w_sequence = (\<lambda>_. Some 4),
     w_signer_set = (\<lambda>_. Some \<lparr>signers = [(demo_key, 1)], medium = 1\<rparr>), w_sdk = demo_keys, w_order = (\<lambda>k xs. xs),
     FromXDR = (\<lambda>s. Some (if s = ''signed'' then [demo_sig] else [])), HashHex = (\<lambda>t n. Some (replicate 64 (CHR ''a''))),
     Base64 = (\<lambda>t. Some ''AAAA''), BuildTx = (\<lambda>a ops m ttl. Some []), DescribeTx = (\<lambda>t. Some ''pay''),
     SequenceNumber = (\<lambda>t. 5), MaxTime = (\<lambda>t. 100), AddSignatureDecorated = (\<lambda>t s. Some (t @ [s])),
     HorizonSubmit = (\<lambda>t. a), HorizonLookup = (\<lambda>h. LookupError), SubmitSoroban = (\<lambda>t. None),
     InvokeOk = (\<lambda>t. False), CallsOn = False, StillDelivers = (\<lambda>t. True)\<rparr>"

definition demo_result :: Result where
  "demo_result = \<lparr>r_hash = replicate 64 (CHR ''a''), r_ledger = 1, r_closed_at = 25, r_already_known = False, r_failed = False\<rparr>"

definition demo_svc :: "proposal_db \<Rightarrow> env_sig list svc" where
  "demo_svc db = \<lparr>sv_db = db, sv_treasuries = [\<lparr>tr_id = 7, tr_org = 1, tr_kind = TreasuryClassic, tr_address = ''GT''\<rparr>],
     sv_ttl = (\<lambda>_. Some 100), sv_policies = demo_policies, sv_sent = []\<rparr>"

definition demo_scope :: Scope where
  "demo_scope = \<lparr>sp_org = 1, sp_owner = ''u''\<rparr>"

lemma demo_world_simps [simp]:
  "w_now (demo_world a) = 20" "w_dbnow (demo_world a) = 20" "w_network (demo_world a) = ''Test''"
  "w_cfg (demo_world a) = demo_cfg" "w_pf (demo_world a) = demo_pf" "w_stat (demo_world a) = (\<lambda>_. StatNotExist)"
  "w_balances (demo_world a) = demo_load" "w_sequence (demo_world a) = (\<lambda>_. Some 4)"
  "w_signer_set (demo_world a) = (\<lambda>_. Some \<lparr>signers = [(demo_key, 1)], medium = 1\<rparr>)"
  "w_sdk (demo_world a) = demo_keys" "w_order (demo_world a) = (\<lambda>k xs. xs)"
  "FromXDR (demo_world a) x = Some (if x = ''signed'' then [demo_sig] else [])"
  "HashHex (demo_world a) = (\<lambda>t n. Some (replicate 64 (CHR ''a'')))" "Base64 (demo_world a) = (\<lambda>t. Some ''AAAA'')"
  "BuildTx (demo_world a) = (\<lambda>a ops m ttl. Some [])" "DescribeTx (demo_world a) = (\<lambda>t. Some ''pay'')"
  "SequenceNumber (demo_world a) = (\<lambda>t. 5)" "MaxTime (demo_world a) = (\<lambda>t. 100)"
  "AddSignatureDecorated (demo_world a) = (\<lambda>t s. Some (t @ [s]))"
  "HorizonSubmit (demo_world a) = (\<lambda>t. a)" "HorizonLookup (demo_world a) = (\<lambda>h. LookupError)"
  by (simp_all add: demo_world_def)

lemma demo_svc_simps [simp]: "sv_db (demo_svc db) = db" "sv_sent (demo_svc db) = []" "sv_policies (demo_svc db) = demo_policies"
  "sv_ttl (demo_svc db) = (\<lambda>_. Some 100)" "(demo_svc db)\<lparr>sv_db := db'\<rparr> = demo_svc db'"
  by (simp_all add: demo_svc_def)

lemma nul_not_u: "chr 0 \<noteq> CHR ''u''"
proof
  assume "chr 0 = CHR ''u''"
  then have "byte (chr 0) = byte (CHR ''u'')" by simp
  then show False by simp
qed

lemma demo_wf: "permutes (w_order (demo_world a))" "w_signer_set (demo_world a) b = Some s \<Longrightarrow> wf_signers (signers s)"
  by (auto simp: permutes_def wf_signers_def)

lemma demo_scope_ok: "scope_check demo_scope = None" "sp_org demo_scope = 1"
  by (simp_all add: scope_check_def demo_scope_def nul_not_u)

lemma demo_writable: "writable (w_cfg (demo_world a)) (w_stat (demo_world a)) = None"
  by (simp add: writable_def demo_cfg_def)

lemma demo_expire: "snd (ExpireProposals 20 demo_signed) = demo_signed"
  by (simp add: ExpireProposals_def expire_where_def demo_signed_eq(2) demo_created_eq stale_def proposal_row_def demo_params_def)

lemma demo_expire_all: "expire_all (demo_world a) (demo_svc demo_signed) = demo_svc demo_signed"
  by (simp add: expire_all_def demo_expire)

lemma demo_signatures: "Signatures demo_signed 1 1 = [demo_signature\<lparr>sg_created_at := 20\<rparr>]"
  by (simp add: Signatures_def find_proposal_def demo_signed_eq(2) demo_created_eq proposal_row_def demo_params_def)

lemma demo_find: "find_proposal demo_signed 1 1 = Some (proposal_row demo_params 10 1)"
  by (simp add: find_proposal_def demo_signed_eq(2) demo_created_eq proposal_row_def demo_params_def)

definition demo_treasury :: Treasury where
  "demo_treasury = \<lparr>tr_id = 7, tr_org = 1, tr_kind = TreasuryClassic, tr_address = ''GT''\<rparr>"

lemma demo_loaded:
  "LoadProposal (demo_world a) demo_scope 1 (demo_svc demo_signed) =
    (Inr \<lparr>vw_proposal = proposal_row demo_params 10 1, vw_treasury = demo_treasury, vw_description = ''pay'',
       vw_have = 1, vw_need = 1, vw_signed = [demo_key], vw_missing = []\<rparr>, demo_svc demo_signed)"
proof -
  have t: "find_treasury (demo_svc demo_signed) 1 (pr_treasury (proposal_row demo_params 10 1)) = Some demo_treasury"
    by (simp add: find_treasury_def demo_svc_def proposal_row_def demo_params_def demo_treasury_def)
  have x: "pr_xdr (proposal_row demo_params 10 1) = ''AAAA''" "pr_id (proposal_row demo_params 10 1) = 1"
    by (simp_all add: proposal_row_def demo_params_def)
  have "rebuild (demo_world a) [] [demo_signature\<lparr>sg_created_at := 20\<rparr>] [(demo_key, 1)] = Inr [(demo_key, 1)]"
    by (simp add: rebuild_def hintOf_def demo_keys_def Attribute_def demo_sdk_def signed_by_def demo_signature_def)
  then have "viewOf (demo_world a) (demo_svc demo_signed) demo_scope (proposal_row demo_params 10 1) demo_treasury [] ''pay'' =
    Inr \<lparr>vw_proposal = proposal_row demo_params 10 1, vw_treasury = demo_treasury, vw_description = ''pay'',
       vw_have = 1, vw_need = 1, vw_signed = [demo_key], vw_missing = []\<rparr>"
    by (simp add: viewOf_def x demo_scope_ok demo_signatures Let_def sort_addresses_def)
  then show ?thesis
    using t demo_expire_all [of a] x(1) demo_find
    by (simp add: LoadProposal_def demo_scope_ok Let_def Proposal_of_def transactionFrom_def)
qed

lemma demo_execute:
  "ExecuteProposal (demo_world a) demo_scope 1 9 (demo_svc demo_signed) =
    submit_classic (demo_world a) demo_scope 1 9 [demo_sig] (demo_svc demo_signed)"
proof -
  have p: "pr_status (proposal_row demo_params 10 1) = ProposalOpen" "pr_seq (proposal_row demo_params 10 1) = 5"
    "pr_xdr (proposal_row demo_params 10 1) = ''AAAA''" "pr_kind (proposal_row demo_params 10 1) = ''payment''"
    by (simp_all add: proposal_row_def demo_params_def)
  have "applySignatures (demo_world a) [] [demo_signature\<lparr>sg_created_at := 20\<rparr>] = Inr [demo_sig]"
    by (simp add: hintOf_def demo_keys_def demo_sdk_def demo_signature_def demo_sig_def)
  then show ?thesis
    by (simp add: ExecuteProposal_def demo_scope_ok demo_writable demo_loaded p Ready_def Let_def transactionFrom_def
        demo_signatures submit_by_kind_def demo_writable [simplified])
qed

theorem Execute_submits_only_authorised_witness:
  "sv_sent (snd (ExecuteProposal (demo_world (Accepted demo_result)) demo_scope 1 9 (demo_svc demo_signed))) = [[demo_sig]]"
proof -
  let ?w = "demo_world (Accepted demo_result)"
  have sent: "sv_sent (snd (ExecuteProposal ?w demo_scope 1 9 (demo_svc demo_signed))) \<noteq> sv_sent (demo_svc demo_signed)"
    by (simp add: demo_execute submit_classic_def Submit_def Let_def resolve_or_sent)
  obtain r st' where e: "ExecuteProposal ?w demo_scope 1 9 (demo_svc demo_signed) = (r, st')" by fastforce
  show ?thesis
    using Execute_submits_only_authorised [OF e _ demo_wf] sent e demo_expire_all
    by (auto simp: demo_scope_ok demo_find demo_signatures hintOf_def demo_keys_def demo_sdk_def demo_signature_def demo_sig_def
        proposal_row_def demo_params_def)
qed

theorem Execute_unsettled_stays_open_witness:
  "sv_db (snd (ExecuteProposal (demo_world NoCodes) demo_scope 1 9 (demo_svc demo_signed))) = demo_signed"
proof -
  have "ExecuteProposal (demo_world NoCodes) demo_scope 1 9 (demo_svc demo_signed) =
    (Inl (SubmitFailed OutcomeUnknown), (demo_svc demo_signed)\<lparr>sv_sent := [[demo_sig]]\<rparr>)"
    by (simp add: demo_execute submit_classic_def Submit_def resolveAmbiguous_def rejectionOf_def Let_def)
  from Execute_unsettled_stays_open [OF this] this show ?thesis by (simp add: demo_expire_all)
qed

lemma demo_created_find: "find_proposal demo_created 1 1 = Some (proposal_row demo_params 10 1)"
  by (simp add: find_proposal_def demo_created_eq proposal_row_def demo_params_def)

theorem Approve_records_only_signers_witness:
  "fst ` set (signatures (sv_db (snd (Approve (demo_world NoCodes) demo_scope 1 ''signed'' 9 (demo_svc demo_created))))) = {1}"
proof -
  let ?w = "demo_world NoCodes"
  have t: "find_treasury (demo_svc demo_created) 1 7 = Some demo_treasury"
    by (simp add: find_treasury_def demo_svc_def demo_treasury_def)
  have p: "pr_status (proposal_row demo_params 10 1) = ProposalOpen" "pr_treasury (proposal_row demo_params 10 1) = 7"
    "pr_hash (proposal_row demo_params 10 1) = replicate 64 (CHR ''a'')"
    by (simp_all add: proposal_row_def demo_params_def)
  have c: "check_approval ?w demo_scope 1 ''signed'' (demo_svc demo_created) = Inr ([demo_sig], [(demo_key, 1)])"
    by (simp add: check_approval_def demo_scope_ok Proposal_of_def demo_created_find p t transactionFrom_def
        Attribute_def demo_keys_def demo_sdk_def signed_by_def demo_sig_def)
  have row: "\<lparr>sg_signer = demo_key, sg_signature = replicate 64 (CHR ''s''), sg_weight = 1, sg_added_by = 9, sg_created_at = 0\<rparr> = demo_signature"
    by (simp add: demo_signature_def demo_key_def)
  have s: "store_signatures ?w 1 1 [(demo_key, 1)] [demo_sig] 9 1 [demo_sig] demo_created = (None, demo_signed)"
    using demo_signed_eq(1) row by (simp add: ownerOf_def demo_keys_def demo_sdk_def signed_by_def demo_sig_def)
  obtain r st' where a: "Approve ?w demo_scope 1 ''signed'' 9 (demo_svc demo_created) = (r, st')" by fastforce
  then have "st' = snd (LoadProposal ?w demo_scope 1 (demo_svc demo_signed))"
    using c s by (simp add: Approve_def demo_scope_ok demo_keys_def demo_sdk_def)
  then have sg: "signatures (sv_db st') = [(1, demo_signature\<lparr>sg_created_at := 20\<rparr>)]"
    using LoadProposal_signatures [of ?w demo_scope 1 "demo_svc demo_signed"] by (simp add: demo_signed_eq(2))
  have "signatures (sv_db (demo_svc demo_created)) = []" by (simp add: demo_created_eq demo_rows_def proposal_init_def)
  then have "(1 :: int64) = 1 \<and> sg_signer (demo_signature\<lparr>sg_created_at := 20\<rparr>) \<in> {demo_key}"
    using Approve_records_only_signers [OF a demo_wf(1), of 1 "demo_signature\<lparr>sg_created_at := 20\<rparr>"] sg by auto
  then show ?thesis using a sg by simp
qed

definition demo_payment :: ProposePaymentParams where
  "demo_payment = \<lparr>pp_treasury = 7, pp_destination = ''GDEST'', pp_amount = 50, pp_memo = ''rent'', pp_created_by = 3\<rparr>"

theorem ProposePayment_guarded_witness:
  "pr_amount (hd (proposals (sv_db (snd (ProposePayment (demo_world NoCodes) demo_scope demo_payment (demo_svc demo_rows)))))) = Some 50"
proof -
  let ?w = "demo_world NoCodes"
  have spend: "checkSpend demo_cfg demo_policies demo_rows 20 1 50 = None"
    by (simp add: checkSpend_def SpendPolicyOf_def demo_policies_def over_payment_def over_day_def ProposedSince_def
        proposed_total_def demo_rows_def proposal_init_def Let_def in_int64_def demo_cfg_def)
  have pre: "preflight demo_cfg demo_load ''GDEST'' 50 = None"
    by (simp add: preflight_def demo_load_def demo_cfg_def Parse_String)
  have t: "find_treasury (demo_svc demo_rows) 1 7 = Some demo_treasury"
    by (simp add: find_treasury_def demo_svc_def demo_treasury_def)
  obtain r st' where pr: "ProposePayment ?w demo_scope demo_payment (demo_svc demo_rows) = (r, st')" by fastforce
  let ?p = "\<lparr>cp_org = 1, cp_treasury = 7, cp_kind = ''payment'', cp_xdr = ''AAAA'', cp_hash = replicate 64 (CHR ''a''),
     cp_seq = 5, cp_description = ''pay'', cp_digest = replicate 32 (CHR ''0''), cp_amount = 50,
     cp_created_by = 3, cp_expires_at = 100 * 10 ^ 9\<rparr>"
  have cr: "CreateProposal demo_pf 20 ?p demo_rows = (Inr (proposal_row ?p 20 1), snd (CreateProposal demo_pf 20 ?p demo_rows))"
    "proposals (snd (CreateProposal demo_pf 20 ?p demo_rows)) = [proposal_row ?p 20 1]"
    by (simp_all add: proposal_eval demo_hash)
  have sha: "sha256 demo_pf ''pay'' = replicate 32 (CHR ''0'')" by (simp add: demo_pf_def)
  have "proposals (sv_db st') = [proposal_row ?p 20 1]"
    using pr cr spend pre t demo_writable [of NoCodes]
    by (auto simp: ProposePayment_def demo_payment_def demo_scope_ok demo_treasury_def openProposal_def sha split: prod.splits sum.splits)
  moreover have "proposals (sv_db (demo_svc demo_rows)) = []" by (simp add: demo_rows_def proposal_init_def)
  ultimately show ?thesis
    using ProposePayment_guarded [OF pr, of "proposal_row ?p 20 1"] pr by (simp add: demo_payment_def)
qed

end
