(* ===== verification/Tokens.thy ===== *)
theory Tokens
  imports Base64 Proposal_Service
begin

text \<open>
  The link-borne tokens of \<^verbatim>\<open>api/token.go\<close>, \<^verbatim>\<open>api/approve_token.go\<close>, \<^verbatim>\<open>api/link_token.go\<close> and
  \<^verbatim>\<open>api/enroll_token.go\<close>: a version, a base64 payload of NUL-joined fields and a MAC over both.
  HMAC-SHA256 is the parameter \<open>hmac\<close>, of which nothing is assumed.  What the four kinds promise is the
  locale \<open>token_codec\<close>, interpreted for each: what is issued verifies until it expires, what
  verifies carries the MAC for its own version, and a token of another version is refused.
\<close>

section \<open>Times\<close>

text \<open>
  A \<^verbatim>\<open>time.Time\<close> is its distance in nanoseconds from 1970.  Go holds its seconds in an \<open>int64\<close> counted from
  the year 1; \<open>Time.Unix\<close> and \<open>time.Unix\<close> shift between the two origins and wrap around.
\<close>

definition unixToInternal :: int where
  "unixToInternal = 62135596800"

definition go_time :: "int \<Rightarrow> bool" where
  "go_time t \<longleftrightarrow> in_int64 (t div 1000000000 + unixToInternal)"

definition Unix_of :: "int \<Rightarrow> int" where
  "Unix_of t = wrap64 (t div 1000000000)"

definition time_Unix :: "int \<Rightarrow> int" where
  "time_Unix s = (wrap64 (s + unixToInternal) - unixToInternal) * 1000000000"

section \<open>Data\<close>

type_synonym mac_fun = "string \<Rightarrow> string \<Rightarrow> string"

datatype token_error = ErrTokenInvalid | ErrTokenExpired

datatype issue_error = BadScope svc_error | NeedsHash | FieldNul | NeedsProposal

record token_keys =
  secret :: string

definition tokenVersion :: string where "tokenVersion = ''v2''"
definition approveTokenVersion :: string where "approveTokenVersion = ''a1''"
definition linkTokenVersion :: string where "linkTokenVersion = ''l1''"
definition enrollTokenVersion :: string where "enrollTokenVersion = ''e2''"

definition nul :: char where "nul = chr 0"

section \<open>Operations\<close>

text \<open>The four constructors; a short secret is refused.\<close>

definition NewConfirmTokens :: "string \<Rightarrow> token_keys option" where
  "NewConfirmTokens s = (if length s < 32 then None else Some \<lparr>secret = s\<rparr>)"

definition NewApproveTokens :: "string \<Rightarrow> token_keys option" where
  "NewApproveTokens s = (if length s < 32 then None else Some \<lparr>secret = s\<rparr>)"

definition NewLinkTokens :: "string \<Rightarrow> token_keys option" where
  "NewLinkTokens s = (if length s < 32 then None else Some \<lparr>secret = s\<rparr>)"

definition NewEnrollTokens :: "string \<Rightarrow> token_keys option" where
  "NewEnrollTokens s = (if length s < 32 then None else Some \<lparr>secret = s\<rparr>)"

text \<open>\<open>sign\<close> writes the version, a zero byte and the encoded payload into the MAC.\<close>

definition token_sign :: "mac_fun \<Rightarrow> token_keys \<Rightarrow> string \<Rightarrow> string \<Rightarrow> string" where
  "token_sign hmac c version encoded = b64_encode (hmac (secret c) (version @ [nul] @ encoded))"

text \<open>The end of each \<open>Issue\<close>: the fields joined with NUL, encoded, signed.\<close>

definition mint :: "mac_fun \<Rightarrow> token_keys \<Rightarrow> string \<Rightarrow> string list \<Rightarrow> string" where
  "mint hmac c version parts =
     (let encoded = b64_encode (join [nul] parts)
      in version @ ''.'' @ encoded @ ''.'' @ token_sign hmac c version encoded)"

text \<open>
  The beginning of each \<open>Verify\<close>, up to the fields of the payload: the version, the signature, and only then
  the payload.
\<close>

definition unseal :: "mac_fun \<Rightarrow> token_keys \<Rightarrow> string \<Rightarrow> string \<Rightarrow> (token_error, string list) result" where
  "unseal hmac c want token =
     (case cut_byte (CHR ''.'') token of (version, rest, ok) \<Rightarrow>
        if \<not> ok \<or> version \<noteq> want then Inl ErrTokenInvalid
        else (case cut_byte (CHR ''.'') rest of (encoded, mac, ok2) \<Rightarrow>
          if \<not> ok2 then Inl ErrTokenInvalid
          else if mac \<noteq> token_sign hmac c want encoded then Inl ErrTokenInvalid
          else (case b64_decode encoded of
              None \<Rightarrow> Inl ErrTokenInvalid
            | Some payload \<Rightarrow> Inr (split_byte nul payload))))"

definition read_org :: "string \<Rightarrow> OrgID option" where
  "read_org p = (case parse_int p of Inl _ \<Rightarrow> None | Inr n \<Rightarrow> if n = 0 then None else Some (word_of_int n))"

text \<open>The end of each \<open>Verify\<close>: the expiry field and the clock.\<close>

definition check_expiry :: "int \<Rightarrow> string \<Rightarrow> 'a \<Rightarrow> (token_error, 'a) result" where
  "check_expiry now p grant =
     (case parse_int p of
        Inl _ \<Rightarrow> Inl ErrTokenInvalid
      | Inr unix \<Rightarrow> if \<not> now < time_Unix unix then Inl ErrTokenExpired else Inr grant)"

definition scope_of :: "OrgID \<Rightarrow> string \<Rightarrow> Scope" where
  "scope_of org owner = \<lparr>sp_org = org, sp_owner = owner\<rparr>"

definition hash_fields :: "Scope \<Rightarrow> string \<Rightarrow> int \<Rightarrow> string list" where
  "hash_fields scope hash expiresAt =
     [fmt_int (sint (sp_org scope)), sp_owner scope, hash, fmt_int (Unix_of expiresAt)]"

definition ConfirmTokens_Issue ::
  "mac_fun \<Rightarrow> token_keys \<Rightarrow> Scope \<Rightarrow> string \<Rightarrow> int \<Rightarrow> (issue_error, string) result" where
  "ConfirmTokens_Issue hmac c scope hash expiresAt =
     (case scope_check scope of
        Some e \<Rightarrow> Inl (BadScope e)
      | None \<Rightarrow>
          if hash = [] then Inl NeedsHash
          else if nul \<in> set hash then Inl FieldNul
          else Inr (mint hmac c tokenVersion (hash_fields scope hash expiresAt)))"

definition ConfirmTokens_Verify ::
  "mac_fun \<Rightarrow> token_keys \<Rightarrow> int \<Rightarrow> string \<Rightarrow> (token_error, Scope \<times> string) result" where
  "ConfirmTokens_Verify hmac c now token =
     (case unseal hmac c tokenVersion token of
        Inr [p0, p1, p2, p3] \<Rightarrow>
          (case read_org p0 of
             None \<Rightarrow> Inl ErrTokenInvalid
           | Some org \<Rightarrow> check_expiry now p3 (scope_of org p1, p2))
      | _ \<Rightarrow> Inl ErrTokenInvalid)"

definition LinkTokens_Issue ::
  "mac_fun \<Rightarrow> token_keys \<Rightarrow> Scope \<Rightarrow> string \<Rightarrow> int \<Rightarrow> (issue_error, string) result" where
  "LinkTokens_Issue hmac c scope hash expiresAt =
     (case scope_check scope of
        Some e \<Rightarrow> Inl (BadScope e)
      | None \<Rightarrow>
          if hash = [] then Inl NeedsHash
          else if nul \<in> set hash then Inl FieldNul
          else Inr (mint hmac c linkTokenVersion (hash_fields scope hash expiresAt)))"

definition LinkTokens_Verify ::
  "mac_fun \<Rightarrow> token_keys \<Rightarrow> int \<Rightarrow> string \<Rightarrow> (token_error, Scope \<times> string) result" where
  "LinkTokens_Verify hmac c now token =
     (case unseal hmac c linkTokenVersion token of
        Inr [p0, p1, p2, p3] \<Rightarrow>
          (case read_org p0 of
             None \<Rightarrow> Inl ErrTokenInvalid
           | Some org \<Rightarrow> check_expiry now p3 (scope_of org p1, p2))
      | _ \<Rightarrow> Inl ErrTokenInvalid)"

definition ApproveTokens_Issue ::
  "mac_fun \<Rightarrow> token_keys \<Rightarrow> Scope \<Rightarrow> ProposalID \<Rightarrow> int \<Rightarrow> (issue_error, string) result" where
  "ApproveTokens_Issue hmac c scope proposal expiresAt =
     (case scope_check scope of
        Some e \<Rightarrow> Inl (BadScope e)
      | None \<Rightarrow>
          if sint proposal \<le> 0 then Inl NeedsProposal
          else Inr (mint hmac c approveTokenVersion
                 [fmt_int (sint (sp_org scope)), sp_owner scope, fmt_int (sint proposal), fmt_int (Unix_of expiresAt)]))"

definition ApproveTokens_Verify ::
  "mac_fun \<Rightarrow> token_keys \<Rightarrow> int \<Rightarrow> string \<Rightarrow> (token_error, Scope \<times> ProposalID) result" where
  "ApproveTokens_Verify hmac c now token =
     (case unseal hmac c approveTokenVersion token of
        Inr [p0, p1, p2, p3] \<Rightarrow>
          (case read_org p0 of
             None \<Rightarrow> Inl ErrTokenInvalid
           | Some org \<Rightarrow>
               (case parse_int p2 of
                  Inl _ \<Rightarrow> Inl ErrTokenInvalid
                | Inr i \<Rightarrow>
                    if i \<le> 0 then Inl ErrTokenInvalid
                    else check_expiry now p3 (scope_of org p1, word_of_int i)))
      | _ \<Rightarrow> Inl ErrTokenInvalid)"

definition EnrollTokens_Issue :: "mac_fun \<Rightarrow> token_keys \<Rightarrow> Scope \<Rightarrow> int \<Rightarrow> (issue_error, string) result" where
  "EnrollTokens_Issue hmac c scope expiresAt =
     (case scope_check scope of
        Some e \<Rightarrow> Inl (BadScope e)
      | None \<Rightarrow>
          if nul \<in> set (sp_owner scope) then Inl FieldNul
          else Inr (mint hmac c enrollTokenVersion
                 [fmt_int (sint (sp_org scope)), sp_owner scope, fmt_int (Unix_of expiresAt)]))"

definition EnrollTokens_Verify :: "mac_fun \<Rightarrow> token_keys \<Rightarrow> int \<Rightarrow> string \<Rightarrow> (token_error, Scope) result" where
  "EnrollTokens_Verify hmac c now token =
     (case unseal hmac c enrollTokenVersion token of
        Inr [p0, p1, p2] \<Rightarrow>
          (case read_org p0 of
             None \<Rightarrow> Inl ErrTokenInvalid
           | Some org \<Rightarrow> check_expiry now p2 (scope_of org p1))
      | _ \<Rightarrow> Inl ErrTokenInvalid)"

section \<open>Lemmas\<close>

lemma wrap64_shift: "wrap64 (wrap64 x + k) = wrap64 (x + k)"
proof -
  have "(wrap64 x + k + 2 ^ 63) mod 2 ^ 64 = ((x + 2 ^ 63) mod 2 ^ 64 + k) mod 2 ^ 64"
    by (simp add: wrap64_def)
  also have "\<dots> = (x + k + 2 ^ 63) mod 2 ^ 64" by (simp add: mod_add_right_eq ac_simps)
  finally show ?thesis by (simp only: wrap64_def)
qed

lemma time_Unix_of: "go_time t \<Longrightarrow> time_Unix (Unix_of t) = t div 1000000000 * 1000000000"
  by (simp add: go_time_def time_Unix_def Unix_of_def wrap64_shift wrap64_id)

lemma nul_not_digit: "is_digit c \<Longrightarrow> c \<noteq> nul"
proof
  assume "is_digit c" "c = nul"
  then have "is_digit (chr 0)" by (simp add: nul_def)
  then show False by (simp add: is_digit_def)
qed

lemma nul_not_minus: "nul \<noteq> CHR ''-''"
proof
  assume "nul = CHR ''-''"
  then have "byte (chr 0) = byte (CHR ''-'')" by (simp add: nul_def)
  then show False by simp
qed

lemma fmt_int_no_nul [simp]: "nul \<notin> set (fmt_int i)"
  using fmt_nat_digits nul_not_digit nul_not_minus by (auto simp: fmt_int_def)

lemma b64_encode_inject: "b64_encode a = b64_encode b \<Longrightarrow> a = b"
  using b64_decode_encode by (metis option.inject)

lemma read_org_fmt: "org \<noteq> 0 \<Longrightarrow> read_org (fmt_int (sint org)) = Some org"
  using sint_eq_iff64 [of org 0] by (simp add: read_org_def parse_int_fmt_int)

lemma check_expiry_fmt:
  "go_time t \<Longrightarrow> check_expiry now (fmt_int (Unix_of t)) g =
     (if now < t div 1000000000 * 1000000000 then Inr g else Inl ErrTokenExpired)"
  using wrap64_in by (simp add: check_expiry_def Unix_of_def parse_int_fmt_int)
     (simp add: Unix_of_def [symmetric] time_Unix_of)

lemma scope_checked: "scope_check s = None \<longleftrightarrow> sp_org s \<noteq> 0 \<and> sp_owner s \<noteq> [] \<and> nul \<notin> set (sp_owner s)"
  by (simp add: scope_check_def nul_def)

lemma scope_of_fields [simp]: "scope_of (sp_org s) (sp_owner s) = s"
  by (simp add: scope_of_def)

lemma unseal_mint:
  assumes "CHR ''.'' \<notin> set v" "parts \<noteq> []" "\<forall>p \<in> set parts. nul \<notin> set p"
  shows "unseal hmac c v (mint hmac c v parts) = Inr parts"
  using assms by (simp add: unseal_def mint_def Let_def cut_byte_found b64_encode_no_dot b64_decode_encode split_byte_join)

lemma unseal_envelope:
  assumes "unseal hmac c v token = Inr parts"
  shows "\<exists>e. token = v @ ''.'' @ e @ ''.'' @ token_sign hmac c v e \<and> CHR ''.'' \<notin> set e"
proof -
  obtain a rest f where 1: "cut_byte (CHR ''.'') token = (a, rest, f)" by (metis prod_cases3)
  obtain e m g where 2: "cut_byte (CHR ''.'') rest = (e, m, g)" by (metis prod_cases3)
  have "f" "a = v" "g" "m = token_sign hmac c v e"
    using assms by (auto simp: unseal_def 1 2 split: if_splits)
  then show ?thesis using cut_byte_spec [OF 1] cut_byte_spec [OF 2] by auto
qed

lemma unseal_foreign:
  "CHR ''.'' \<notin> set a \<Longrightarrow> a \<noteq> v \<Longrightarrow> unseal hmac c v (a @ ''.'' @ rest) = Inl ErrTokenInvalid"
  by (simp add: unseal_def cut_byte_found)

lemma unseal_error: "unseal hmac c v token = Inl e \<Longrightarrow> e = ErrTokenInvalid"
  by (auto simp: unseal_def split: prod.splits if_splits option.splits)

lemma versions_plain [simp]:
  "CHR ''.'' \<notin> set tokenVersion" "CHR ''.'' \<notin> set approveTokenVersion" "CHR ''.'' \<notin> set linkTokenVersion"
  "CHR ''.'' \<notin> set enrollTokenVersion"
  by (simp_all add: tokenVersion_def approveTokenVersion_def linkTokenVersion_def enrollTokenVersion_def)

section \<open>The contract of a token kind\<close>

text \<open>
  \<open>seal\<close> is the signature of an encoded payload, \<open>issue\<close> and \<open>verify\<close> the two operations of a kind; a request
  is what the token will grant.
\<close>

locale token_codec =
  fixes version :: string
    and seal :: "string \<Rightarrow> string"
    and issue :: "'g \<Rightarrow> int \<Rightarrow> (issue_error, string) result"
    and verify :: "int \<Rightarrow> string \<Rightarrow> (token_error, 'g) result"
  assumes plain: "CHR ''.'' \<notin> set version"
    and issued: "issue g t = Inr tok \<Longrightarrow> \<exists>e. tok = version @ ''.'' @ e @ ''.'' @ seal e \<and> CHR ''.'' \<notin> set e"
    and live: "issue g t = Inr tok \<Longrightarrow> go_time t \<Longrightarrow>
      verify now tok = (if now < t div 1000000000 * 1000000000 then Inr g else Inl ErrTokenExpired)"
    and sealed: "verify now tok \<noteq> Inl ErrTokenInvalid \<Longrightarrow>
      \<exists>e. tok = version @ ''.'' @ e @ ''.'' @ seal e \<and> CHR ''.'' \<notin> set e"
begin

lemma cut_version:
  assumes "CHR ''.'' \<notin> set v" "v @ ''.'' @ r = version @ ''.'' @ r'"
  shows "v = version \<and> r = r'"
proof -
  have "(v, r, True) = cut_byte (CHR ''.'') (v @ ''.'' @ r)" using cut_byte_found [OF assms(1)] by simp
  also have "\<dots> = (version, r', True)" unfolding assms(2) using cut_byte_found [OF plain] by simp
  finally show ?thesis by simp
qed

text \<open>A token that announces another version is not valid, whatever follows.\<close>

lemma other_version:
  assumes "CHR ''.'' \<notin> set v" "v \<noteq> version"
  shows "verify now (v @ ''.'' @ rest) = Inl ErrTokenInvalid"
  using sealed [of now "v @ ''.'' @ rest"] cut_version [OF assms(1)] assms(2) by metis

text \<open>The text between the two full stops decides the only signature that is accepted.\<close>

lemma only_seal:
  assumes "CHR ''.'' \<notin> set e" "verify now (version @ ''.'' @ e @ ''.'' @ m) \<noteq> Inl ErrTokenInvalid"
  shows "m = seal e"
proof -
  obtain e' where e': "version @ ''.'' @ e @ ''.'' @ m = version @ ''.'' @ e' @ ''.'' @ seal e'" "CHR ''.'' \<notin> set e'"
    using sealed [OF assms(2)] by blast
  have "(e, m, True) = cut_byte (CHR ''.'') (e @ CHR ''.'' # m)" by (simp only: cut_byte_found [OF assms(1)])
  also have "e @ CHR ''.'' # m = e' @ CHR ''.'' # seal e'" using e'(1) by simp
  also have "cut_byte (CHR ''.'') \<dots> = (e', seal e', True)" by (simp only: cut_byte_found [OF e'(2)])
  finally show ?thesis by simp
qed

text \<open>One token never carries two grants, and an expiry is final.\<close>

lemma unambiguous:
  assumes "issue g t = Inr tok" "issue g' t' = Inr tok" "go_time t" "go_time t'"
  shows "g = g' \<and> t div 1000000000 = t' div 1000000000"
proof -
  let ?f = "t div 1000000000 * 1000000000" and ?f' = "t' div 1000000000 * 1000000000"
  have eq: "(if now < ?f then Inr g else Inl ErrTokenExpired) = (if now < ?f' then Inr g' else Inl ErrTokenExpired)" for now
    using live [OF assms(1,3)] live [OF assms(2,4)] by metis
  have "?f = ?f'"
  proof (rule ccontr)
    assume "?f \<noteq> ?f'"
    then show False using eq [of "min ?f ?f'"] by (auto simp: min_def split: if_splits)
  qed
  then show ?thesis using eq [of "min ?f ?f' - 1"] by simp
qed

lemma expiry_final:
  assumes "issue g t = Inr tok" "go_time t" "verify now tok = Inl ErrTokenExpired" "now \<le> now'"
  shows "verify now' tok = Inl ErrTokenExpired"
  using assms live [OF assms(1,2)] by (auto split: if_splits)

end

section \<open>The four kinds keep the contract\<close>

lemmas issue_defs = ConfirmTokens_Issue_def LinkTokens_Issue_def ApproveTokens_Issue_def EnrollTokens_Issue_def

lemmas verify_defs = ConfirmTokens_Verify_def LinkTokens_Verify_def ApproveTokens_Verify_def EnrollTokens_Verify_def

lemma mint_envelope:
  "\<exists>e. mint hmac c v ps = v @ ''.'' @ e @ ''.'' @ token_sign hmac c v e \<and> CHR ''.'' \<notin> set e"
  by (auto simp: mint_def Let_def b64_encode_no_dot)

lemma verify_sealed:
  "ConfirmTokens_Verify hmac c now tok \<noteq> Inl ErrTokenInvalid \<Longrightarrow> \<exists>ps. unseal hmac c tokenVersion tok = Inr ps"
  "LinkTokens_Verify hmac c now tok \<noteq> Inl ErrTokenInvalid \<Longrightarrow> \<exists>ps. unseal hmac c linkTokenVersion tok = Inr ps"
  "ApproveTokens_Verify hmac c now tok \<noteq> Inl ErrTokenInvalid \<Longrightarrow> \<exists>ps. unseal hmac c approveTokenVersion tok = Inr ps"
  "EnrollTokens_Verify hmac c now tok \<noteq> Inl ErrTokenInvalid \<Longrightarrow> \<exists>ps. unseal hmac c enrollTokenVersion tok = Inr ps"
  by (auto simp: verify_defs split: sum.splits)

lemmas token_reads = unseal_mint hash_fields_def read_org_fmt check_expiry_fmt parse_int_fmt_int

interpretation confirm: token_codec tokenVersion "token_sign hmac c tokenVersion"
  "\<lambda>g t. ConfirmTokens_Issue hmac c (fst g) (snd g) t" "ConfirmTokens_Verify hmac c" for hmac c
proof unfold_locales
  fix g t tok now
  assume i: "ConfirmTokens_Issue hmac c (fst g) (snd g) t = Inr tok"
  then show "\<exists>e. tok = tokenVersion @ ''.'' @ e @ ''.'' @ token_sign hmac c tokenVersion e \<and> CHR ''.'' \<notin> set e"
    using mint_envelope by (fastforce simp: issue_defs split: option.splits if_splits)
  assume "go_time t"
  then show "ConfirmTokens_Verify hmac c now tok = (if now < t div 1000000000 * 1000000000 then Inr g else Inl ErrTokenExpired)"
    using i by (auto simp: issue_defs verify_defs token_reads scope_checked split: option.splits if_splits)
qed (use verify_sealed(1) unseal_envelope in \<open>fastforce+\<close>)

interpretation link: token_codec linkTokenVersion "token_sign hmac c linkTokenVersion"
  "\<lambda>g t. LinkTokens_Issue hmac c (fst g) (snd g) t" "LinkTokens_Verify hmac c" for hmac c
proof unfold_locales
  fix g t tok now
  assume i: "LinkTokens_Issue hmac c (fst g) (snd g) t = Inr tok"
  then show "\<exists>e. tok = linkTokenVersion @ ''.'' @ e @ ''.'' @ token_sign hmac c linkTokenVersion e \<and> CHR ''.'' \<notin> set e"
    using mint_envelope by (fastforce simp: issue_defs split: option.splits if_splits)
  assume "go_time t"
  then show "LinkTokens_Verify hmac c now tok = (if now < t div 1000000000 * 1000000000 then Inr g else Inl ErrTokenExpired)"
    using i by (auto simp: issue_defs verify_defs token_reads scope_checked split: option.splits if_splits)
qed (use verify_sealed(2) unseal_envelope in \<open>fastforce+\<close>)

interpretation approve: token_codec approveTokenVersion "token_sign hmac c approveTokenVersion"
  "\<lambda>g t. ApproveTokens_Issue hmac c (fst g) (snd g) t" "ApproveTokens_Verify hmac c" for hmac c
proof unfold_locales
  fix g t tok now
  assume i: "ApproveTokens_Issue hmac c (fst g) (snd g) t = Inr tok"
  then show "\<exists>e. tok = approveTokenVersion @ ''.'' @ e @ ''.'' @ token_sign hmac c approveTokenVersion e \<and> CHR ''.'' \<notin> set e"
    using mint_envelope by (fastforce simp: issue_defs split: option.splits if_splits)
  assume "go_time t"
  then show "ApproveTokens_Verify hmac c now tok = (if now < t div 1000000000 * 1000000000 then Inr g else Inl ErrTokenExpired)"
    using i by (auto simp: issue_defs verify_defs token_reads scope_checked split: option.splits if_splits)
qed (use verify_sealed(3) unseal_envelope in \<open>fastforce+\<close>)

interpretation enroll: token_codec enrollTokenVersion "token_sign hmac c enrollTokenVersion"
  "EnrollTokens_Issue hmac c" "EnrollTokens_Verify hmac c" for hmac c
proof unfold_locales
  fix g t tok now
  assume i: "EnrollTokens_Issue hmac c g t = Inr tok"
  then show "\<exists>e. tok = enrollTokenVersion @ ''.'' @ e @ ''.'' @ token_sign hmac c enrollTokenVersion e \<and> CHR ''.'' \<notin> set e"
    using mint_envelope by (fastforce simp: issue_defs split: option.splits if_splits)
  assume "go_time t"
  then show "EnrollTokens_Verify hmac c now tok = (if now < t div 1000000000 * 1000000000 then Inr g else Inl ErrTokenExpired)"
    using i by (auto simp: issue_defs verify_defs token_reads scope_checked split: option.splits if_splits)
qed (use verify_sealed(4) unseal_envelope in \<open>fastforce+\<close>)

section \<open>The kinds side by side\<close>

datatype token_kind = ConfirmKind | ApproveKind | LinkKind | EnrollKind

datatype grant =
    ConfirmGrant Scope string
  | ApproveGrant Scope ProposalID
  | LinkGrant Scope string
  | EnrollGrant Scope

fun kind_of :: "grant \<Rightarrow> token_kind" where
  "kind_of (ConfirmGrant _ _) = ConfirmKind"
| "kind_of (ApproveGrant _ _) = ApproveKind"
| "kind_of (LinkGrant _ _) = LinkKind"
| "kind_of (EnrollGrant _) = EnrollKind"

fun kind_version :: "token_kind \<Rightarrow> string" where
  "kind_version ConfirmKind = tokenVersion"
| "kind_version ApproveKind = approveTokenVersion"
| "kind_version LinkKind = linkTokenVersion"
| "kind_version EnrollKind = enrollTokenVersion"

fun issue_grant :: "mac_fun \<Rightarrow> token_keys \<Rightarrow> grant \<Rightarrow> int \<Rightarrow> (issue_error, string) result" where
  "issue_grant hmac c (ConfirmGrant s h) t = ConfirmTokens_Issue hmac c s h t"
| "issue_grant hmac c (ApproveGrant s i) t = ApproveTokens_Issue hmac c s i t"
| "issue_grant hmac c (LinkGrant s h) t = LinkTokens_Issue hmac c s h t"
| "issue_grant hmac c (EnrollGrant s) t = EnrollTokens_Issue hmac c s t"

fun verify_as :: "mac_fun \<Rightarrow> token_keys \<Rightarrow> token_kind \<Rightarrow> int \<Rightarrow> string \<Rightarrow> (token_error, grant) result" where
  "verify_as hmac c ConfirmKind now tok = map_sum id (\<lambda>g. ConfirmGrant (fst g) (snd g)) (ConfirmTokens_Verify hmac c now tok)"
| "verify_as hmac c ApproveKind now tok = map_sum id (\<lambda>g. ApproveGrant (fst g) (snd g)) (ApproveTokens_Verify hmac c now tok)"
| "verify_as hmac c LinkKind now tok = map_sum id (\<lambda>g. LinkGrant (fst g) (snd g)) (LinkTokens_Verify hmac c now tok)"
| "verify_as hmac c EnrollKind now tok = map_sum id EnrollGrant (EnrollTokens_Verify hmac c now tok)"

lemma kind_version_plain [simp]: "CHR ''.'' \<notin> set (kind_version k)"
  by (cases k) simp_all

lemma kind_version_inject: "kind_version k = kind_version k' \<longleftrightarrow> k = k'"
  by (cases k; cases k')
     (simp_all add: tokenVersion_def approveTokenVersion_def linkTokenVersion_def enrollTokenVersion_def)

lemma map_sum_invalid [simp]: "map_sum id f r = Inl e \<longleftrightarrow> r = Inl e"
  by (cases r) auto

lemma grant_live:
  assumes "issue_grant hmac c g t = Inr tok" "go_time t"
  shows "verify_as hmac c (kind_of g) now tok =
    (if now < t div 1000000000 * 1000000000 then Inr g else Inl ErrTokenExpired)"
  using assms
  by (cases g) (auto simp: confirm.live [of _ _ "(a, b)" for a b, simplified] link.live [of _ _ "(a, b)" for a b, simplified]
     approve.live [of _ _ "(a, b)" for a b, simplified] enroll.live)

lemma grant_issued:
  assumes "issue_grant hmac c g t = Inr tok"
  shows "\<exists>e. tok = kind_version (kind_of g) @ ''.'' @ e @ ''.'' @ token_sign hmac c (kind_version (kind_of g)) e
    \<and> CHR ''.'' \<notin> set e"
  using assms confirm.issued [of hmac c "(s, h)" for s h] link.issued [of hmac c "(s, h)" for s h]
    approve.issued [of hmac c "(s, h)" for s h] enroll.issued
  by (cases g) (simp; blast)+

lemma as_sealed:
  assumes "verify_as hmac c k now tok \<noteq> Inl ErrTokenInvalid"
  shows "\<exists>e. tok = kind_version k @ ''.'' @ e @ ''.'' @ token_sign hmac c (kind_version k) e \<and> CHR ''.'' \<notin> set e"
  using assms confirm.sealed link.sealed approve.sealed enroll.sealed by (cases k) (simp; blast)+

lemma as_other_version:
  "CHR ''.'' \<notin> set v \<Longrightarrow> v \<noteq> kind_version k \<Longrightarrow> verify_as hmac c k now (v @ ''.'' @ rest) = Inl ErrTokenInvalid"
  by (cases k) (simp_all del: append.simps add: confirm.other_version link.other_version approve.other_version enroll.other_version)

lemma as_only_seal:
  "CHR ''.'' \<notin> set e \<Longrightarrow> verify_as hmac c k now (kind_version k @ ''.'' @ e @ ''.'' @ m) \<noteq> Inl ErrTokenInvalid \<Longrightarrow>
     m = token_sign hmac c (kind_version k) e"
  using confirm.only_seal link.only_seal approve.only_seal enroll.only_seal by (cases k) (simp del: append.simps; blast)+

section \<open>Properties\<close>

text \<open>
  A token of any kind, verified by its own kind, yields exactly the scope and the hash or proposal it was
  issued for until the second it expires in, and the expiry error from then on.
\<close>

theorem token_grants_until_expiry:
  assumes "issue_grant hmac c g expiresAt = Inr tok" "go_time expiresAt"
  shows "verify_as hmac c (kind_of g) now tok =
    (if now < expiresAt div 1000000000 * 1000000000 then Inr g else Inl ErrTokenExpired)"
  using assms by (rule grant_live)

definition demo_mac :: mac_fun where
  "demo_mac k m = m"

definition demo_keys :: token_keys where
  "demo_keys = \<lparr>secret = replicate 32 (CHR ''k'')\<rparr>"

definition demo_grant :: grant where
  "demo_grant = ApproveGrant demo_scope 7"

lemma demo_issue: "\<exists>tok. issue_grant demo_mac demo_keys demo_grant 5500000000 = Inr tok"
  by (simp add: demo_grant_def ApproveTokens_Issue_def demo_scope_ok)

lemma demo_time: "go_time 5500000000"
  by (simp add: go_time_def unixToInternal_def in_int64_def)

theorem token_grants_until_expiry_witness:
  "\<exists>tok. issue_grant demo_mac demo_keys demo_grant 5500000000 = Inr tok
     \<and> verify_as demo_mac demo_keys ApproveKind 4999999999 tok = Inr demo_grant
     \<and> verify_as demo_mac demo_keys ApproveKind 5000000000 tok = Inl ErrTokenExpired"
proof -
  obtain tok where t: "issue_grant demo_mac demo_keys demo_grant 5500000000 = Inr tok" using demo_issue by blast
  have k: "kind_of demo_grant = ApproveKind" by (simp add: demo_grant_def)
  show ?thesis
    using t token_grants_until_expiry [OF t demo_time, of 4999999999] token_grants_until_expiry [OF t demo_time, of 5000000000]
    by (simp add: k)
qed

text \<open>
  C38: whatever a kind does not reject as invalid (a granted token, and one reported as expired) is its version,
  a payload and the encoded MAC under the secret of exactly that version and payload: without the MAC a caller does
  not even learn whether the expiry had passed.
\<close>

theorem token_authentic:
  assumes "verify_as hmac c k now tok \<noteq> Inl ErrTokenInvalid"
  shows "\<exists>e. tok = kind_version k @ ''.'' @ e @ ''.'' @ b64_encode (hmac (secret c) (kind_version k @ [nul] @ e))"
  using as_sealed [OF assms] by (auto simp: token_sign_def)

theorem token_authentic_witness:
  "\<exists>tok e. issue_grant demo_mac demo_keys demo_grant 5500000000 = Inr tok
     \<and> tok = ''a1'' @ ''.'' @ e @ ''.'' @ b64_encode (demo_mac (secret demo_keys) (''a1'' @ [nul] @ e))"
proof -
  obtain tok where t: "issue_grant demo_mac demo_keys demo_grant 5500000000 = Inr tok" using demo_issue by blast
  have "verify_as demo_mac demo_keys ApproveKind 0 tok \<noteq> Inl ErrTokenInvalid"
    using grant_live [OF t demo_time, of 0] by (simp add: demo_grant_def)
  from token_authentic [OF this] show ?thesis using t by (auto simp: approveTokenVersion_def)
qed

text \<open>
  A token of one kind is invalid for every other kind, and with its version rewritten to that of the other
  kind it is still invalid, unless the MAC takes the same value on the two different messages.
\<close>

theorem token_kinds_separate:
  assumes "issue_grant hmac c g expiresAt = Inr tok" "k \<noteq> kind_of g"
  shows "verify_as hmac c k now tok = Inl ErrTokenInvalid
    \<and> (\<exists>e m. tok = kind_version (kind_of g) @ ''.'' @ e @ ''.'' @ m
         \<and> (verify_as hmac c k now (kind_version k @ ''.'' @ e @ ''.'' @ m) = Inl ErrTokenInvalid
            \<or> hmac (secret c) (kind_version k @ [nul] @ e) = hmac (secret c) (kind_version (kind_of g) @ [nul] @ e)))"
proof -
  obtain e where e: "tok = kind_version (kind_of g) @ ''.'' @ e @ ''.'' @ token_sign hmac c (kind_version (kind_of g)) e"
    "CHR ''.'' \<notin> set e"
    using grant_issued [OF assms(1)] by blast
  have v: "kind_version (kind_of g) \<noteq> kind_version k" using assms(2) by (simp add: kind_version_inject)
  show ?thesis
    using as_other_version [OF kind_version_plain v] as_only_seal [OF e(2)] e(1) b64_encode_inject
    unfolding token_sign_def by metis
qed

theorem token_kinds_separate_witness:
  "\<exists>tok. issue_grant demo_mac demo_keys demo_grant 5500000000 = Inr tok
     \<and> verify_as demo_mac demo_keys ConfirmKind 0 tok = Inl ErrTokenInvalid
     \<and> (\<exists>e m. tok = ''a1'' @ ''.'' @ e @ ''.'' @ m
          \<and> verify_as demo_mac demo_keys ConfirmKind 0 (''v2'' @ ''.'' @ e @ ''.'' @ m) = Inl ErrTokenInvalid)"
proof -
  obtain tok where t: "issue_grant demo_mac demo_keys demo_grant 5500000000 = Inr tok" using demo_issue by blast
  have k: "ConfirmKind \<noteq> kind_of demo_grant" "kind_of demo_grant = ApproveKind" by (simp_all add: demo_grant_def)
  show ?thesis
    using t token_kinds_separate [OF t k(1), of 0] unfolding k(2)
    by (auto simp: demo_mac_def tokenVersion_def approveTokenVersion_def)
qed

end
