(* ===== verification/Connector_Amount.thy ===== *)
theory Connector_Amount
  imports Money Utf8
begin

text \<open>
  \<^verbatim>\<open>connector/amount.go\<close>: reading an amount out of a spreadsheet cell.  Every refusal of
  \<open>NormalizeTabularAmount\<close> is a constructor of \<open>cell_error\<close>; the wording of the messages and the helper that
  clips the quoted cell are not modelled.  The cell is accepted exactly when it is a plain decimal, possibly
  grouped in threes, that is not zero, and the text returned denotes exactly that decimal.
\<close>

section \<open>Definitions\<close>

datatype cell_error =
    CellEmpty | Formula | AccountingNegative | NegativeCell | HasSign | SeparatorInFraction | Misgrouped | NoDigits
  | TwoPoints | NotPlain | EndsInPoint | TooManyPlaces | ZeroCell

definition MaxDecimalPlaces :: nat where
  "MaxDecimalPlaces = 7"

text \<open>The loop ranges over code points, not bytes.\<close>

definition rune_digit :: "rune \<Rightarrow> bool" where
  "rune_digit r \<longleftrightarrow> 48 \<le> r \<and> r \<le> 57"

definition cell_allDigits :: "string \<Rightarrow> bool" where
  "cell_allDigits s = (if s = [] then True else list_all rune_digit (runes_of s))"

fun groups_ok :: "nat \<Rightarrow> string list \<Rightarrow> bool" where
  "groups_ok i [] = True"
| "groups_ok i (g # gs) =
     (if \<not> cell_allDigits g \<or> g = [] then False
      else if i = 0 \<and> length g > 3 then False
      else if i > 0 \<and> length g \<noteq> 3 then False
      else groups_ok (i + 1) gs)"

definition stripGrouping :: "string \<Rightarrow> string option" where
  "stripGrouping whole =
     (if CHR '','' \<notin> set whole then Some whole
      else let groups = split_byte (CHR '','') whole
           in if groups_ok 0 groups then Some (join [] groups) else None)"

definition trim_zeros :: "string \<Rightarrow> string" where
  "trim_zeros s = trim_right_byte (CHR ''0'') (trim_left_byte (CHR ''0'') s)"

definition isZero :: "string \<Rightarrow> string \<Rightarrow> bool" where
  "isZero whole fraction \<longleftrightarrow> trim_zeros whole = [] \<and> trim_zeros fraction = []"

text \<open>The part of \<open>NormalizeTabularAmount\<close> after the cut at the point.\<close>

definition normalizeCut :: "string \<Rightarrow> string \<Rightarrow> bool \<Rightarrow> (cell_error, string) result" where
  "normalizeCut whole fraction hasPoint =
     (if CHR '','' \<in> set fraction then Inl SeparatorInFraction
      else (case stripGrouping whole of
          None \<Rightarrow> Inl Misgrouped
        | Some whole1 \<Rightarrow>
            if whole1 = [] \<and> \<not> hasPoint then Inl NoDigits
            else if CHR ''.'' \<in> set fraction then Inl TwoPoints
            else if \<not> cell_allDigits whole1 \<or> (hasPoint \<and> \<not> cell_allDigits fraction) then Inl NotPlain
            else let whole2 = (if whole1 = [] then ''0'' else whole1)
                 in if hasPoint \<and> fraction = [] then Inl EndsInPoint
                    else if length fraction > MaxDecimalPlaces then Inl TooManyPlaces
                    else let t = trim_left_byte (CHR ''0'') whole2;
                             whole3 = (if t = [] then ''0'' else t);
                             out = (if fraction \<noteq> [] then whole3 @ ''.'' @ fraction else whole3)
                         in if isZero whole3 fraction then Inl ZeroCell else Inr out))"

definition NormalizeTabularAmount :: "string \<Rightarrow> (cell_error, string) result" where
  "NormalizeTabularAmount raw =
     (let text0 = TrimSpace raw
      in if text0 = [] then Inl CellEmpty
         else let text1 = trim_prefix text0 [chr 39]
              in if has_prefix text1 ''='' then Inl Formula
                 else if has_prefix text1 ''('' \<and> has_suffix text1 '')'' then Inl AccountingNegative
                 else if has_prefix text1 ''-'' then Inl NegativeCell
                 else if has_prefix text1 ''+'' then Inl HasSign
                 else (case cut_byte (CHR ''.'') text1 of
                     (whole, fraction, hasPoint) \<Rightarrow> normalizeCut whole fraction hasPoint))"

section \<open>Digits, code point by code point\<close>

lemma decode_rune_digit:
  assumes "rune_digit (fst (decode_rune (b # bs)))"
  shows "decode_rune (b # bs) = (b, 1) \<and> rune_digit b"
proof (cases "b < 128")
  case True
  then show ?thesis using assms by simp
next
  case False
  then have "128 \<le> fst (decode_rune (b # bs))"
    by (auto simp: rune_error_def cont_byte_def second3_def second4_def split: list.splits if_splits)
  then show ?thesis using assms by (simp add: rune_digit_def)
qed

lemma runes_digits: "list_all rune_digit (runes_of s) \<Longrightarrow> allDigits s"
proof (induction s rule: utf8_chunks.induct)
  case (1 s)
  show ?case
  proof (cases s)
    case (Cons c cs)
    have r: "list_all rune_digit (map fst (utf8_chunks (c # cs)))" using 1(2) Cons by (simp add: runes_of_def)
    then have "rune_digit (fst (decode_rune (map byte (take 4 (c # cs)))))"
      by (subst (asm) utf8_chunks.simps) (simp add: Let_def del: decode_rune.simps take_Suc_Cons)
    then have d: "decode_rune (map byte (take 4 (c # cs))) = (byte c, 1)" "rune_digit (byte c)"
      using decode_rune_digit [of "byte c" "map byte (take 3 cs)"] by (simp_all del: decode_rune.simps)
    then have "utf8_chunks (c # cs) = (byte c, [c]) # utf8_chunks cs"
      by (subst utf8_chunks.simps) (simp add: Let_def del: decode_rune.simps)
    then have "list_all rune_digit (runes_of cs)" using r by (simp add: runes_of_def)
    moreover have "\<lbrakk>list_all rune_digit (runes_of cs)\<rbrakk> \<Longrightarrow> allDigits cs"
      using 1(1) [of "(byte c, 1)"] Cons d(1) by (simp del: decode_rune.simps take_Suc_Cons)
    ultimately show ?thesis using d(2) Cons by (auto simp: rune_digit_def)
  qed simp
qed

lemma cell_allDigits_iff [simp]: "cell_allDigits s \<longleftrightarrow> allDigits s"
proof
  show "cell_allDigits s \<Longrightarrow> allDigits s" using runes_digits by (auto simp: cell_allDigits_def split: if_splits)
  assume a: "allDigits s"
  then have "ascii s" by (simp add: allDigits_iff ascii_digits)
  then show "cell_allDigits s"
    using a by (auto simp: cell_allDigits_def runes_of_ascii list_all_iff allDigits_iff is_digit_def rune_digit_def)
qed

section \<open>Grouping and leading zeros\<close>

text \<open>What a whole part may look like: plain digits, or one to three digits and then groups of three.\<close>

definition grouped :: "string \<Rightarrow> string \<Rightarrow> bool" where
  "grouped body ip \<longleftrightarrow> allDigits ip \<and>
     (body = ip \<or> (\<exists>g gs. gs \<noteq> [] \<and> body = join [CHR '',''] (g # gs) \<and> ip = g @ concat gs
        \<and> 0 < length g \<and> length g \<le> 3 \<and> (\<forall>h \<in> set gs. length h = 3)))"

definition canonical_whole :: "string \<Rightarrow> string" where
  "canonical_whole ip = (let t = dropWhile (\<lambda>c. c = CHR ''0'') ip in if t = [] then ''0'' else t)"

lemma groups_ok_later: "groups_ok (Suc i) gs \<longleftrightarrow> (\<forall>h \<in> set gs. allDigits h \<and> length h = 3)"
  by (induction gs arbitrary: i) auto

lemma groups_ok_iff:
  "groups_ok 0 (g # gs) \<longleftrightarrow> allDigits g \<and> 0 < length g \<and> length g \<le> 3 \<and> (\<forall>h \<in> set gs. allDigits h \<and> length h = 3)"
  by (auto simp: groups_ok_later)

lemma allDigits_append [simp]: "allDigits (a @ b) \<longleftrightarrow> allDigits a \<and> allDigits b"
  by (auto simp: allDigits_iff)

lemma allDigits_concat: "allDigits (concat gs) \<longleftrightarrow> (\<forall>g \<in> set gs. allDigits g)"
  by (induction gs) auto

lemma join_empty: "join [] gs = concat gs"
  by (induction "[] :: string" gs rule: join.induct) auto

lemma join_comma_in: "gs \<noteq> [] \<Longrightarrow> c \<in> set (join [c] (g # gs))"
  by (cases gs) auto

lemma stripGrouping_iff:
  "stripGrouping body = Some ip \<and> allDigits ip \<longleftrightarrow> grouped body ip"
proof (cases "CHR '','' \<in> set body")
  case False
  then show ?thesis using join_comma_in [of _ "CHR '',''"] by (auto simp: stripGrouping_def grouped_def)
next
  case True
  have nt: "allDigits ip \<Longrightarrow> body \<noteq> ip" using True digits_no_comma by blast
  obtain g gs where sp: "split_byte (CHR '','') body = g # gs" by (cases "split_byte (CHR '','') body") auto
  have tx: "body = join [CHR '',''] (g # gs)" using join_split_byte [of "CHR '',''" body] sp by simp
  have ne: "gs \<noteq> []"
    using True tx split_byte_pieces [of g "CHR '',''" body] sp by (auto split: list.splits)
  have fwd: "stripGrouping body = Some ip \<longleftrightarrow> groups_ok 0 (g # gs) \<and> ip = g @ concat gs"
    using True by (auto simp: stripGrouping_def Let_def sp join_empty)
  show ?thesis
  proof
    assume "stripGrouping body = Some ip \<and> allDigits ip"
    then show "grouped body ip" using fwd tx ne groups_ok_iff [of g gs] by (auto simp: grouped_def)
  next
    assume gr: "grouped body ip"
    then have ip: "allDigits ip" by (simp add: grouped_def)
    then obtain g' gs' where g': "gs' \<noteq> []" "body = join [CHR '',''] (g' # gs')" "ip = g' @ concat gs'"
      "0 < length g'" "length g' \<le> 3" "\<forall>h \<in> set gs'. length h = 3"
      using gr nt unfolding grouped_def by blast
    have dg: "\<forall>p \<in> set (g' # gs'). allDigits p" using ip g'(3) by (auto simp: allDigits_concat)
    then have "split_byte (CHR '','') body = g' # gs'"
      unfolding g'(2) using digits_no_comma by (intro split_byte_join) auto
    then have "g = g'" "gs = gs'" using sp by auto
    then show "stripGrouping body = Some ip \<and> allDigits ip"
      using fwd g' dg ip groups_ok_iff [of g' gs'] by auto
  qed
qed

lemma dropWhile_zeros_val: "digits_val (dropWhile (\<lambda>c. c = CHR ''0'') s) = digits_val s"
proof -
  obtain k where "s = replicate k (CHR ''0'') @ dropWhile (\<lambda>c. c = CHR ''0'') s"
    using trim_left_byte_split [of s "CHR ''0''"] by (auto simp: trim_left_byte_def)
  then have "digits_val s = digits_val (replicate k (CHR ''0'') @ dropWhile (\<lambda>c. c = CHR ''0'') s)" by simp
  then show ?thesis by (simp add: digits_val_append)
qed

lemma digits_val_zero_iff: "allDigits s \<Longrightarrow> digits_val s = 0 \<longleftrightarrow> (\<forall>c \<in> set s. c = CHR ''0'')"
proof (induction s rule: rev_induct)
  case (snoc c s)
  have "digit_val c = 0 \<longleftrightarrow> c = CHR ''0''" if "is_digit c"
  proof
    assume "digit_val c = 0"
    then have "byte c = byte (CHR ''0'')" using that by (simp add: digit_val_def is_digit_def)
    then show "c = CHR ''0''" by (simp only: of_char_eq_iff)
  qed (simp add: digit_val_def)
  then show ?case using snoc by (auto simp: allDigits_iff)
qed simp

lemma trim_zeros_Nil: "trim_zeros s = [] \<longleftrightarrow> (\<forall>c \<in> set s. c = CHR ''0'')"
proof -
  have "trim_zeros s = [] \<longleftrightarrow> (\<forall>c \<in> set (trim_left_byte (CHR ''0'') s). c = CHR ''0'')"
    by (simp add: trim_zeros_def trim_right_byte_def)
  also have "\<dots> \<longleftrightarrow> (\<forall>c \<in> set s. c = CHR ''0'')"
    unfolding trim_left_byte_def by (induction s) auto
  finally show ?thesis .
qed

lemma canonical_whole_digits:
  assumes "allDigits ip"
  shows "allDigits (canonical_whole ip)" "canonical_whole ip \<noteq> []" "digits_val (canonical_whole ip) = digits_val ip"
proof -
  show "canonical_whole ip \<noteq> []" by (simp add: canonical_whole_def Let_def)
  have "allDigits (dropWhile (\<lambda>c. c = CHR ''0'') ip)" using assms by (meson allDigits_iff set_dropWhileD)
  then show "allDigits (canonical_whole ip)" by (simp add: canonical_whole_def Let_def)
  have "dropWhile (\<lambda>c. c = CHR ''0'') ip = [] \<Longrightarrow> digits_val ip = 0"
    using digits_val_zero_iff [OF assms] by simp
  then show "digits_val (canonical_whole ip) = digits_val ip"
    using dropWhile_zeros_val [of ip] digits_val_replicate0 [of 1] by (simp add: canonical_whole_def Let_def)
qed

lemma isZero_iff:
  assumes "allDigits ip" "allDigits fp"
  shows "isZero (canonical_whole ip) fp \<longleftrightarrow> amount_value False ip fp = 0"
proof -
  have "isZero (canonical_whole ip) fp \<longleftrightarrow> digits_val ip = 0 \<and> digits_val fp = 0"
    using canonical_whole_digits [OF assms(1)] digits_val_zero_iff assms(2) by (metis isZero_def trim_zeros_Nil)
  moreover have "0 \<le> int (digits_val ip) * 10 ^ 7" "0 \<le> int (digits_val fp) * 10 ^ (7 - length fp)" by simp_all
  ultimately show ?thesis by (auto simp: amount_value_def Let_def add_nonneg_eq_0_iff simp del: of_nat_add)
qed

section \<open>What is accepted\<close>

lemma normalizeCut_iff:
  "normalizeCut whole fraction hasPoint = Inr out \<longleftrightarrow>
     (\<exists>ip. grouped whole ip \<and> allDigits fraction \<and> length fraction \<le> 7 \<and> hasPoint = (fraction \<noteq> [])
        \<and> (ip \<noteq> [] \<or> hasPoint) \<and> out = amount_text False (canonical_whole ip) fraction \<and> amount_value False ip fraction \<noteq> 0)"
  if fp: "\<not> hasPoint \<Longrightarrow> fraction = []"
proof -
  have can: "(let t = trim_left_byte (CHR ''0'') (if ip = [] then ''0'' else ip) in if t = [] then ''0'' else t) = canonical_whole ip" for ip
    by (auto simp: canonical_whole_def trim_left_byte_def Let_def)
  have plain: "allDigits fraction \<Longrightarrow> CHR '','' \<notin> set fraction \<and> CHR ''.'' \<notin> set fraction"
    using digits_no_comma allDigits_no_dot by blast
  show ?thesis
  proof (cases "\<exists>ip. grouped whole ip")
    case True
    then obtain ip where ip: "grouped whole ip" by blast
    then have st: "stripGrouping whole = Some ip" and d: "allDigits ip" using stripGrouping_iff by blast+
    have uniq: "grouped whole i \<longleftrightarrow> i = ip" for i using stripGrouping_iff [of whole i] st d by auto
    show ?thesis
      using fp plain isZero_iff [OF d, of fraction] can [of ip]
      by (cases "allDigits fraction"; cases "fraction = []")
         (auto simp: normalizeCut_def st d uniq MaxDecimalPlaces_def amount_text_def Let_def)
  next
    case False
    then have "stripGrouping whole \<noteq> Some i \<or> \<not> allDigits i" for i using stripGrouping_iff by blast
    then show ?thesis using False by (auto simp: normalizeCut_def Let_def split: option.splits if_splits)
  qed
qed

lemma grouped_hd:
  assumes "grouped whole ip" "whole \<noteq> []"
  shows "is_digit (hd whole)"
proof -
  have "allDigits ip" using assms(1) by (simp add: grouped_def)
  moreover have "hd whole = hd ip" "ip \<noteq> []"
  proof -
    have "hd (join [CHR '',''] (g # gs)) = hd (g @ concat gs)" if "0 < length g" "gs \<noteq> []" for g gs
      using that by (cases gs; cases g) auto
    then show "hd whole = hd ip" "ip \<noteq> []" using assms unfolding grouped_def by auto
  qed
  ultimately show ?thesis by (simp add: allDigits_iff)
qed

lemma grouped_Nil: "grouped [] ip \<Longrightarrow> ip = []"
proof -
  have "join [CHR '',''] (g # gs) \<noteq> []" if "0 < length g" for g gs using that by (cases gs) auto
  then show "grouped [] ip \<Longrightarrow> ip = []" unfolding grouped_def by metis
qed

lemma grouped_no_dot: "grouped whole ip \<Longrightarrow> CHR ''.'' \<notin> set whole"
proof -
  have j: "c \<in> set (join [CHR '',''] gs) \<Longrightarrow> c = CHR '','' \<or> c \<in> set (concat gs)" for c gs
    by (induction "[CHR '','']" gs rule: join.induct) auto
  assume "grouped whole ip"
  then have "allDigits ip" "\<And>c. c \<in> set whole \<Longrightarrow> c = CHR '','' \<or> c \<in> set ip"
    using j unfolding grouped_def by fastforce+
  then show ?thesis using allDigits_no_dot by blast
qed

text \<open>None of the refusals before the cut applies to a text that starts with a digit or a point.\<close>

lemma refusals_pass:
  assumes "t = amount_text False whole fp" "grouped whole ip" "t \<noteq> []"
  shows "\<not> has_prefix t ''=''" "\<not> has_prefix t ''(''" "\<not> has_prefix t ''-''" "\<not> has_prefix t ''+''"
proof -
  have "is_digit (hd t) \<or> hd t = CHR ''.''"
    using assms grouped_hd [OF assms(2)] by (cases "whole = []"; cases "fp = []") (auto simp: amount_text_def)
  then show "\<not> has_prefix t ''=''" "\<not> has_prefix t ''(''" "\<not> has_prefix t ''-''" "\<not> has_prefix t ''+''"
    using assms(3) by (cases t; auto simp: has_prefix_def is_digit_def)+
qed

lemma cut_text:
  "CHR ''.'' \<notin> set whole \<Longrightarrow> cut_byte (CHR ''.'') (amount_text False whole fp) = (whole, fp, fp \<noteq> [])"
  by (simp add: amount_text_def cut_byte_absent cut_byte_found)

lemma Parse_canonical:
  assumes "allDigits ip" "allDigits fp" "length fp \<le> 7"
  shows "Parse (amount_text False (canonical_whole ip) fp) =
    (if in_int64 (amount_value False ip fp) then Inr (word_of_int (amount_value False ip fp)) else Inl ErrOverflow)"
proof -
  have "amount_syntax (canonical_whole ip) fp" using canonical_whole_digits [OF assms(1)] assms by (simp add: amount_syntax_def)
  moreover have "amount_value False (canonical_whole ip) fp = amount_value False ip fp"
    using canonical_whole_digits(3) [OF assms(1)] by (simp add: amount_value_def)
  ultimately show ?thesis using Parse_amount_text [of "canonical_whole ip" fp False] by simp
qed

lemma tabular_sound:
  assumes "NormalizeTabularAmount raw = Inr out"
  shows "\<exists>whole ip fp. trim_prefix (TrimSpace raw) [chr 39] = amount_text False whole fp \<and> grouped whole ip
    \<and> allDigits fp \<and> length fp \<le> 7 \<and> 0 < amount_value False ip fp \<and> out = amount_text False (canonical_whole ip) fp"
proof -
  let ?t = "trim_prefix (TrimSpace raw) [chr 39]"
  obtain whole fp pt where cut: "cut_byte (CHR ''.'') ?t = (whole, fp, pt)" by (metis prod_cases3)
  have n: "normalizeCut whole fp pt = Inr out"
    using assms by (auto simp: NormalizeTabularAmount_def Let_def cut split: if_splits)
  have sp: "?t = (if pt then whole @ CHR ''.'' # fp else whole)" "\<not> pt \<Longrightarrow> fp = []"
    using cut_byte_spec [OF cut] by auto
  obtain ip where "grouped whole ip" "allDigits fp" "length fp \<le> 7" "pt = (fp \<noteq> [])"
    "out = amount_text False (canonical_whole ip) fp" "amount_value False ip fp \<noteq> 0"
    using normalizeCut_iff [of pt fp whole out] sp(2) n by blast
  moreover from this have "?t = amount_text False whole fp" using sp(1) by (simp add: amount_text_def)
  moreover have "0 < amount_value False ip fp" using calculation(6) amount_value_nonneg [of ip fp] by simp
  ultimately show ?thesis by blast
qed

lemma tabular_complete:
  assumes t: "trim_prefix (TrimSpace raw) [chr 39] = amount_text False whole fp" and g: "grouped whole ip"
    and fp: "allDigits fp" "length fp \<le> 7" and v: "0 < amount_value False ip fp"
  shows "NormalizeTabularAmount raw = Inr (amount_text False (canonical_whole ip) fp)"
proof -
  have ne: "ip \<noteq> [] \<or> fp \<noteq> []" using v by (auto simp: amount_value_def)
  have "normalizeCut whole fp (fp \<noteq> []) = Inr (amount_text False (canonical_whole ip) fp)"
    using normalizeCut_iff [of "fp \<noteq> []" fp whole] g fp v ne by auto
  moreover have tne: "amount_text False whole fp \<noteq> []" using ne g grouped_Nil by (auto simp: amount_text_def)
  then have "TrimSpace raw \<noteq> []" using t by (auto simp: trim_prefix_def has_prefix_def)
  ultimately show ?thesis
    using refusals_pass [OF refl g tne] cut_text [OF grouped_no_dot [OF g], of fp]
    by (simp add: NormalizeTabularAmount_def Let_def t)
qed

text \<open>
  A cell is accepted exactly when, without surrounding space and the text mark, it is digits, plain or
  grouped in threes, with at most seven decimals, and not zero; what is returned is that decimal in its
  canonical form, which the money package parses to exactly the value of the cell's digits or refuses as too
  large.  Nothing else (words, suffixes, signs, formulas, other groupings) is ever read as an amount.
\<close>

theorem NormalizeTabularAmount_exact:
  "NormalizeTabularAmount raw = Inr out \<longleftrightarrow>
     (\<exists>whole ip fp. trim_prefix (TrimSpace raw) [chr 39] = amount_text False whole fp \<and> grouped whole ip
        \<and> allDigits fp \<and> length fp \<le> 7 \<and> 0 < amount_value False ip fp
        \<and> out = amount_text False (canonical_whole ip) fp
        \<and> Parse out = (if in_int64 (amount_value False ip fp) then Inr (word_of_int (amount_value False ip fp))
                       else Inl ErrOverflow))"
  using tabular_sound [of raw out] tabular_complete [of raw] Parse_canonical by (metis grouped_def)

end
