(* ===== verification/Connector.thy ===== *)
theory Connector
  imports Ledger "HOL-Library.List_Lexorder"
begin

text \<open>
  The gate every connector call goes through: \<^verbatim>\<open>connector/guard.go\<close>, \<^verbatim>\<open>connector/connector.go\<close>,
  the in-process limiter of \<^verbatim>\<open>connector/rate.go\<close> and the shared one, \<open>AllowConnectorCall\<close> of
  \<^verbatim>\<open>ledger/store/connector.go\<close>.  What the guard relies on in a limiter is the locale \<open>limiter\<close>, interpreted
  on both.  A connector (somebody else's code) is its descriptor and the two methods it may have; the grants of
  the registry, the digest and the clock are arguments.  Instants are in nanoseconds, in the shared limiter
  as the database holds them.
\<close>

section \<open>Connectors\<close>

record Descriptor =
  d_ID :: string
  d_Kind :: string
  d_Capabilities :: "string list"

record Request =
  Selector :: string
  Limit :: int

text \<open>What a reader returns, less the time it was read at.\<close>

record observation =
  ob_columns :: "string list"
  ob_rows :: "string list list"
  ob_truncated :: bool

definition KindReader :: string where "KindReader = ''reader''"
definition KindProposer :: string where "KindProposer = ''proposer''"

text \<open>The value behind \<^verbatim>\<open>any\<close>: the interfaces it implements are the methods it has.\<close>

record ('obs, 'draft) connector =
  Describe :: Descriptor
  Read_method :: "(Request \<Rightarrow> 'obs) option"
  Propose_method :: "(Request \<Rightarrow> 'draft) option"

definition is_reader :: "('obs, 'draft) connector \<Rightarrow> bool" where
  "is_reader c \<longleftrightarrow> Read_method c \<noteq> None"

definition is_proposer :: "('obs, 'draft) connector \<Rightarrow> bool" where
  "is_proposer c \<longleftrightarrow> Propose_method c \<noteq> None"

datatype guard_error =
    ErrNotGranted | ErrBothKinds | NeitherKind | NotAKind | NoID | ErrSurfaceChanged | ErrCapabilityNotGranted
  | ErrRateExceeded | ErrNotAReader | ErrNotAProposer | GrantFailed

definition CheckKind :: "('obs, 'draft) connector \<Rightarrow> guard_error option" where
  "CheckKind c =
     (if is_reader c \<and> is_proposer c then Some ErrBothKinds
      else if \<not> is_reader c \<and> \<not> is_proposer c then Some NeitherKind
      else if is_reader c \<and> d_Kind (Describe c) \<noteq> KindReader then Some ErrBothKinds
      else if is_proposer c \<and> d_Kind (Describe c) \<noteq> KindProposer then Some ErrBothKinds
      else None)"

section \<open>The surface digest\<close>

text \<open>\<open>sort.Strings\<close> orders by bytes.\<close>

definition sort_strings :: "string list \<Rightarrow> string list" where
  "sort_strings ss = sort_key (map byte) ss"

definition write_field :: "string \<Rightarrow> string" where
  "write_field s = fmt_nat (length s) @ '':'' @ s"

definition surface_preimage :: "Descriptor \<Rightarrow> string" where
  "surface_preimage d =
     (let capabilities = sort_strings (d_Capabilities d)
      in write_field ''stelfin-connector-surface-1'' @ write_field (d_ID d) @ write_field (d_Kind d)
         @ fmt_nat (length capabilities) @ '':'' @ concat (map write_field capabilities))"

definition SurfaceDigest :: "(string \<Rightarrow> string) \<Rightarrow> Descriptor \<Rightarrow> string" where
  "SurfaceDigest sha256_hex d = sha256_hex (surface_preimage d)"

section \<open>The guard\<close>

record Grant =
  g_Capabilities :: "string list"
  g_SurfaceDigest :: string
  g_PerHour :: int

text \<open>\<open>Limiter.Allow\<close>: \<open>None\<close> is the error return.\<close>

type_synonym 's allow_fun = "'s \<Rightarrow> OrgID \<Rightarrow> string \<Rightarrow> int \<Rightarrow> int \<Rightarrow> bool option \<times> 's"

definition MaxRows :: int where "MaxRows = 500"

definition bound_request :: "Request \<Rightarrow> Request" where
  "bound_request r = (if Limit r \<le> 0 \<or> Limit r > MaxRows then r\<lparr>Limit := MaxRows\<rparr> else r)"

definition covers :: "string list \<Rightarrow> string \<Rightarrow> bool" where
  "covers granted capability = (if capability = [] then False else list_ex (\<lambda>g. g = capability) granted)"

definition checkDescriptor :: "Descriptor \<Rightarrow> guard_error option" where
  "checkDescriptor d =
     (if d_Kind d \<noteq> KindReader \<and> d_Kind d \<noteq> KindProposer then Some NotAKind
      else if d_ID d = [] then Some NoID else None)"

record 's guard =
  grants :: "OrgID \<Rightarrow> string \<Rightarrow> (guard_error, Grant) result"
  allow_call :: "'s allow_fun"
  digest :: "string \<Rightarrow> string"

definition authorise ::
  "'s guard \<Rightarrow> int \<Rightarrow> OrgID \<Rightarrow> Descriptor \<Rightarrow> string \<Rightarrow> 's \<Rightarrow> guard_error option \<times> 's" where
  "authorise g now org d capability st =
     (case checkDescriptor d of
        Some e \<Rightarrow> (Some e, st)
      | None \<Rightarrow>
     (case grants g org (d_ID d) of
        Inl e \<Rightarrow> (Some e, st)
      | Inr grant \<Rightarrow>
          if g_SurfaceDigest grant = [] then (Some ErrNotGranted, st)
          else if SurfaceDigest (digest g) d \<noteq> g_SurfaceDigest grant then (Some ErrSurfaceChanged, st)
          else if \<not> covers (g_Capabilities grant) capability then (Some ErrCapabilityNotGranted, st)
          else (case allow_call g st org (d_ID d) (g_PerHour grant) now of
              (None, st1) \<Rightarrow> (Some ErrRateExceeded, st1)
            | (Some allowed, st1) \<Rightarrow> if \<not> allowed then (Some ErrRateExceeded, st1) else (None, st1))))"

definition Guard_Read ::
  "'s guard \<Rightarrow> int \<Rightarrow> OrgID \<Rightarrow> ('obs, 'draft) connector \<Rightarrow> string \<Rightarrow> Request \<Rightarrow> 's \<Rightarrow> (guard_error, 'obs) result \<times> 's" where
  "Guard_Read g now org c capability request st =
     (case Read_method c of
        None \<Rightarrow> (Inl ErrNotAReader, st)
      | Some read \<Rightarrow>
          (case authorise g now org (Describe c) capability st of
             (Some e, st1) \<Rightarrow> (Inl e, st1)
           | (None, st1) \<Rightarrow> (Inr (read (bound_request request)), st1)))"

definition Guard_Propose ::
  "'s guard \<Rightarrow> int \<Rightarrow> OrgID \<Rightarrow> ('obs, 'draft) connector \<Rightarrow> string \<Rightarrow> Request \<Rightarrow> 's \<Rightarrow> (guard_error, 'draft) result \<times> 's" where
  "Guard_Propose g now org c capability request st =
     (case Propose_method c of
        None \<Rightarrow> (Inl ErrNotAProposer, st)
      | Some propose \<Rightarrow>
          (case authorise g now org (Describe c) capability st of
             (Some e, st1) \<Rightarrow> (Inl e, st1)
           | (None, st1) \<Rightarrow> (Inr (propose (bound_request request)), st1)))"

section \<open>The in-process limiter\<close>

definition rateWindow :: int where "rateWindow = 3600 * 10 ^ 9"

record window =
  w_start :: int
  w_count :: int

type_synonym rate_state = "OrgID \<times> string \<Rightarrow> window option"

definition sweep :: "int \<Rightarrow> rate_state \<Rightarrow> rate_state" where
  "sweep now ws = (\<lambda>k. case ws k of None \<Rightarrow> None
     | Some w \<Rightarrow> if now - w_start w \<ge> rateWindow then None else Some w)"

definition rate_allow :: "rate_state \<Rightarrow> OrgID \<Rightarrow> string \<Rightarrow> int \<Rightarrow> int \<Rightarrow> bool \<times> rate_state" where
  "rate_allow ws org connector perHour now =
     (if perHour \<le> 0 then (False, ws)
      else let fresh = (True, sweep now (ws((org, connector) \<mapsto> \<lparr>w_start = now, w_count = 1\<rparr>)))
           in case ws (org, connector) of
                None \<Rightarrow> fresh
              | Some w \<Rightarrow>
                  if now - w_start w \<ge> rateWindow then fresh
                  else if w_count w \<ge> perHour then (False, ws)
                  else (True, ws((org, connector) \<mapsto> w\<lparr>w_count := w_count w + 1\<rparr>)))"

definition localLimiter_Allow :: "rate_state allow_fun" where
  "localLimiter_Allow ws org connector perHour now =
     (case rate_allow ws org connector perHour now of (a, ws1) \<Rightarrow> (Some a, ws1))"

section \<open>The shared limiter\<close>

record connector_call =
  cc_org :: OrgID
  cc_connector :: string
  cc_at :: int

definition calls_of :: "OrgID \<Rightarrow> string \<Rightarrow> connector_call \<Rightarrow> bool" where
  "calls_of org connector r \<longleftrightarrow> cc_org r = org \<and> cc_connector r = connector"

definition prune_calls :: "OrgID \<Rightarrow> string \<Rightarrow> int \<Rightarrow> connector_call list \<Rightarrow> connector_call list" where
  "prune_calls org connector since rows = filter (\<lambda>r. \<not> (calls_of org connector r \<and> cc_at r \<le> since)) rows"

text \<open>
  \<open>up\<close> says whether the database answered every statement of the transaction.  A refusal returns before the
  commit, so the deferred rollback undoes the pruning as well.
\<close>

definition AllowConnectorCall :: "bool \<Rightarrow> connector_call list allow_fun" where
  "AllowConnectorCall up rows org connector perHour now =
     (if perHour \<le> 0 then (Some False, rows)
      else if \<not> up then (None, rows)
      else let since = now - rateWindow;
               pruned = prune_calls org connector since rows;
               used = int (length (filter (calls_of org connector) pruned))
           in if used \<ge> perHour then (Some False, rows)
              else (Some True, pruned @ [\<lparr>cc_org = org, cc_connector = connector, cc_at = now\<rparr>]))"

section \<open>What a limiter promises\<close>

text \<open>
  \<open>spent\<close> is how many calls count against the allowance at an instant.  A call is granted exactly when there is
  room, costs one, and leaves every other connector's count alone; a refused or failed call costs nothing; time
  only ever releases calls.
\<close>

locale limiter =
  fixes allow :: "'s allow_fun"
    and spent :: "'s \<Rightarrow> OrgID \<Rightarrow> string \<Rightarrow> int \<Rightarrow> nat"
    and invar :: "'s \<Rightarrow> bool"
    and fails :: bool
  assumes decides: "invar s \<Longrightarrow> fst (allow s org c p now) = Some (int (spent s org c now) < p)
      \<or> fails \<and> 0 < p \<and> fst (allow s org c p now) = None"
    and refused: "fst (allow s org c p now) \<noteq> Some True \<Longrightarrow> snd (allow s org c p now) = s"
    and granted: "invar s \<Longrightarrow> fst (allow s org c p now) = Some True \<Longrightarrow>
      spent (snd (allow s org c p now)) org c now = Suc (spent s org c now)"
    and others: "(org', c') \<noteq> (org, c) \<Longrightarrow> now \<le> t \<Longrightarrow>
      spent (snd (allow s org c p now)) org' c' t = spent s org' c' t"
    and release: "invar s \<Longrightarrow> now \<le> t \<Longrightarrow> spent s org c t \<le> spent s org c now"
    and keeps: "invar s \<Longrightarrow> invar (snd (allow s org c p now))"
begin

lemma granted_room: "invar s \<Longrightarrow> fst (allow s org c p now) = Some True \<Longrightarrow> int (spent s org c now) < p"
  using decides [of s org c p now] by auto

text \<open>A call never pushes any count above the larger of what it was and the limit it was made with.\<close>

lemma spent_after:
  assumes "invar s" "now \<le> t"
  shows "spent (snd (allow s org c p now)) org' c' t \<le> max (spent s org' c' now) (nat p)"
proof (cases "(org', c') = (org, c) \<and> fst (allow s org c p now) = Some True")
  case True
  then have "spent (snd (allow s org c p now)) org c t \<le> Suc (spent s org c now)"
    using release [OF keeps [OF assms(1)] assms(2), of org c p now org c] granted [OF assms(1)] by metis
  then show ?thesis using True granted_room [OF assms(1), of org c p now] by auto
next
  case False
  then consider "(org', c') \<noteq> (org, c)" | "snd (allow s org c p now) = s" using refused by blast
  then show ?thesis
    using others [OF _ assms(2), of org' c' org c s p] release [OF assms, of org' c'] by cases auto
qed

text \<open>A guard over such a limiter spends one call when it admits one, and nothing when it refuses.\<close>

lemma authorise_spends:
  assumes "allow_call g = allow" "invar st" "authorise g now org d capability st = (None, st1)"
  shows "spent st1 org (d_ID d) now = Suc (spent st org (d_ID d) now) \<and> invar st1
    \<and> (\<exists>grant. grants g org (d_ID d) = Inr grant \<and> int (spent st org (d_ID d) now) < g_PerHour grant)"
proof -
  obtain grant where gr: "grants g org (d_ID d) = Inr grant"
    "allow st org (d_ID d) (g_PerHour grant) now = (Some True, st1)"
    using assms(1,3) by (auto simp: authorise_def split: option.splits sum.splits if_splits prod.splits)
  then show ?thesis
    using granted [OF assms(2), of org "d_ID d" "g_PerHour grant" now] granted_room [OF assms(2), of org "d_ID d" "g_PerHour grant" now]
      keeps [OF assms(2), of org "d_ID d" "g_PerHour grant" now] by simp
qed

lemma authorise_refuses:
  assumes "allow_call g = allow" "authorise g now org d capability st = (Some e, st1)"
  shows "st1 = st"
proof -
  have "st1 = snd (allow st org (d_ID d) p now)" if "allow st org (d_ID d) p now = (r, st1)" for p r using that by simp
  moreover have "r \<noteq> Some True \<Longrightarrow> st' = st" if "allow st org (d_ID d) p now = (r, st')" for p r st'
    using refused [of st org "d_ID d" p now] that by simp
  ultimately show ?thesis
    using assms by (auto simp: authorise_def split: option.splits sum.splits if_splits prod.splits)
qed

end

section \<open>Both limiters keep the promise\<close>

definition local_spent :: "rate_state \<Rightarrow> OrgID \<Rightarrow> string \<Rightarrow> int \<Rightarrow> nat" where
  "local_spent ws org c now =
     (case ws (org, c) of None \<Rightarrow> 0 | Some w \<Rightarrow> if now - w_start w \<ge> rateWindow then 0 else nat (w_count w))"

definition shared_spent :: "connector_call list \<Rightarrow> OrgID \<Rightarrow> string \<Rightarrow> int \<Rightarrow> nat" where
  "shared_spent rows org c now = length (filter (\<lambda>r. calls_of org c r \<and> now - rateWindow < cc_at r) rows)"

lemma rateWindow_pos: "0 < rateWindow"
  by (simp add: rateWindow_def)

definition counts_ok :: "rate_state \<Rightarrow> bool" where
  "counts_ok ws \<longleftrightarrow> (\<forall>k w. ws k = Some w \<longrightarrow> 0 < w_count w)"

lemma rate_allow_cases:
  assumes "rate_allow ws org c p now = (a, ws1)"
  obtains "\<not> a" "ws1 = ws"
  | "a" "0 < p" "local_spent ws org c now = 0" "ws1 = sweep now (ws((org, c) \<mapsto> \<lparr>w_start = now, w_count = 1\<rparr>))"
  | w where "a" "ws (org, c) = Some w" "now - w_start w < rateWindow" "w_count w < p"
      "ws1 = ws((org, c) \<mapsto> w\<lparr>w_count := w_count w + 1\<rparr>)"
proof -
  let ?fresh = "sweep now (ws((org, c) \<mapsto> \<lparr>w_start = now, w_count = 1\<rparr>))"
  consider "p \<le> 0" | "0 < p" "ws (org, c) = None" | w where "0 < p" "ws (org, c) = Some w" by (cases "ws (org, c)") force+
  then show thesis
  proof cases
    case 1
    then show thesis using assms that(1) by (simp add: rate_allow_def)
  next
    case 2
    then have "a" "ws1 = ?fresh" using assms by (simp_all add: rate_allow_def Let_def)
    then show thesis using that(2) 2 by (simp add: local_spent_def)
  next
    case 3
    consider "now - w_start w \<ge> rateWindow" | "now - w_start w < rateWindow" "w_count w \<ge> p"
      | "now - w_start w < rateWindow" "w_count w < p" by linarith
    then show thesis
    proof cases
      case 1
      then have "a" "ws1 = ?fresh" using assms 3 by (simp_all add: rate_allow_def Let_def)
      then show thesis using that(2) 1 3 by (simp add: local_spent_def)
    next
      case 2
      then show thesis using assms that(1) 3 by (simp add: rate_allow_def Let_def)
    next
      case 4: 3
      then have "a" "ws1 = ws((org, c) \<mapsto> w\<lparr>w_count := w_count w + 1\<rparr>)" using assms 3 by (simp_all add: rate_allow_def Let_def)
      then show thesis using that(3) 3 4 by blast
    qed
  qed
qed

lemma sweep_spent: "now \<le> t \<Longrightarrow> local_spent (sweep now ws) org c t = local_spent ws org c t"
  by (auto simp: local_spent_def sweep_def split: option.splits)

lemma local_spent_other: "(org', c') \<noteq> (org, c) \<Longrightarrow> local_spent (ws((org, c) \<mapsto> w)) org' c' t = local_spent ws org' c' t"
  by (auto simp: local_spent_def)

lemma counts_ok_pos: "counts_ok ws \<Longrightarrow> ws k = Some w \<Longrightarrow> 0 < w_count w"
  unfolding counts_ok_def by blast

lemma counts_ok_upd: "counts_ok ws \<Longrightarrow> 0 < w_count w \<Longrightarrow> counts_ok (ws(k \<mapsto> w))"
  by (auto simp: counts_ok_def)

lemma counts_ok_sweep: "counts_ok ws \<Longrightarrow> counts_ok (sweep now ws)"
  by (auto simp: counts_ok_def sweep_def split: option.splits if_splits)

lemma local_decides:
  assumes "counts_ok ws"
  shows "fst (rate_allow ws org c p now) \<longleftrightarrow> int (local_spent ws org c now) < p"
proof (cases "ws (org, c)")
  case None
  then show ?thesis by (simp add: rate_allow_def local_spent_def Let_def)
next
  case (Some w)
  then have "0 < w_count w" using assms by (auto simp: counts_ok_def)
  then show ?thesis using Some by (auto simp: rate_allow_def local_spent_def Let_def)
qed

interpretation local_rate: limiter localLimiter_Allow local_spent counts_ok False
proof unfold_locales
  fix s :: rate_state and org org' :: OrgID and c c' :: string and p now t :: int
  obtain a s1 where r: "rate_allow s org c p now = (a, s1)" by (cases "rate_allow s org c p now")
  have al: "localLimiter_Allow s org c p now = (Some a, s1)" by (simp add: localLimiter_Allow_def r)
  show "counts_ok s \<Longrightarrow> fst (localLimiter_Allow s org c p now) = Some (int (local_spent s org c now) < p)
      \<or> False \<and> 0 < p \<and> fst (localLimiter_Allow s org c p now) = None"
    using local_decides [of s org c p now] r by (simp add: al)
  show "fst (localLimiter_Allow s org c p now) \<noteq> Some True \<Longrightarrow> snd (localLimiter_Allow s org c p now) = s"
    using r by (cases rule: rate_allow_cases) (auto simp: al)
  show "counts_ok s \<Longrightarrow> fst (localLimiter_Allow s org c p now) = Some True \<Longrightarrow>
      local_spent (snd (localLimiter_Allow s org c p now)) org c now = Suc (local_spent s org c now)"
    using r
  proof (cases rule: rate_allow_cases)
    case (3 w)
    assume "counts_ok s"
    then have "0 < w_count w" using 3(2) by (auto simp: counts_ok_def)
    then show ?thesis using 3 by (simp add: al local_spent_def nat_add_distrib)
  qed (auto simp: al sweep_spent, simp add: local_spent_def rateWindow_def)
  show "(org', c') \<noteq> (org, c) \<Longrightarrow> now \<le> t \<Longrightarrow>
      local_spent (snd (localLimiter_Allow s org c p now)) org' c' t = local_spent s org' c' t"
    using r by (cases rule: rate_allow_cases) (simp_all add: al sweep_spent local_spent_other)
  show "counts_ok s \<Longrightarrow> now \<le> t \<Longrightarrow> local_spent s org c t \<le> local_spent s org c now"
    by (auto simp: local_spent_def split: option.splits)
  show "counts_ok s \<Longrightarrow> counts_ok (snd (localLimiter_Allow s org c p now))"
    using r by (cases rule: rate_allow_cases) (auto simp: al dest: counts_ok_pos intro!: counts_ok_upd counts_ok_sweep)
qed

text \<open>The shared limiter: the rows that count at an instant are those younger than the window.\<close>

lemma pruned_spent:
  "length (filter (calls_of org c) (prune_calls org c (now - rateWindow) rows)) = shared_spent rows org c now"
  unfolding shared_spent_def prune_calls_def filter_filter by (rule arg_cong [where f = length], rule filter_cong) auto

lemma AllowConnectorCall_cases:
  assumes "AllowConnectorCall up rows org c p now = (r, rows1)"
  obtains "r = Some False" "rows1 = rows" "p \<le> int (shared_spent rows org c now)"
  | "r = None" "rows1 = rows" "\<not> up" "0 < p"
  | "r = Some True" "int (shared_spent rows org c now) < p"
      "rows1 = prune_calls org c (now - rateWindow) rows
         @ [\<lparr>cc_org = org, cc_connector = c, cc_at = now\<rparr>]"
proof -
  consider "p \<le> 0" | "0 < p" "\<not> up" | "0 < p" "up" "p \<le> int (shared_spent rows org c now)"
    | "0 < p" "up" "int (shared_spent rows org c now) < p" by linarith
  then show thesis
    using assms by cases (auto simp: AllowConnectorCall_def Let_def pruned_spent intro: that)
qed

lemma shared_spent_pruned:
  "now \<le> t \<Longrightarrow> shared_spent (prune_calls org c (now - rateWindow) rows) org' c' t = shared_spent rows org' c' t"
  unfolding shared_spent_def prune_calls_def filter_filter
  by (rule arg_cong [where f = length], rule filter_cong) (auto simp: calls_of_def)

lemma shared_spent_append: "shared_spent (h @ k) org c t = shared_spent h org c t + shared_spent k org c t"
  by (simp add: shared_spent_def)

lemma shared_spent_one:
  "shared_spent [\<lparr>cc_org = org, cc_connector = c, cc_at = now\<rparr>] org' c' t =
     (if org' = org \<and> c' = c \<and> t - rateWindow < now then 1 else 0)"
  by (auto simp: shared_spent_def calls_of_def)

lemmas shared_counts = shared_spent_pruned shared_spent_append shared_spent_one

interpretation shared_rate: limiter "AllowConnectorCall up" shared_spent "\<lambda>_. True" "\<not> up" for up
proof unfold_locales
  fix s :: "connector_call list" and org org' :: OrgID and c c' :: string and p now t :: int
  obtain r s1 where al: "AllowConnectorCall up s org c p now = (r, s1)" by (cases "AllowConnectorCall up s org c p now")
  show "fst (AllowConnectorCall up s org c p now) = Some (int (shared_spent s org c now) < p)
      \<or> \<not> up \<and> 0 < p \<and> fst (AllowConnectorCall up s org c p now) = None"
    unfolding al using al by (cases rule: AllowConnectorCall_cases) auto
  show "fst (AllowConnectorCall up s org c p now) \<noteq> Some True \<Longrightarrow> snd (AllowConnectorCall up s org c p now) = s"
    unfolding al using al by (cases rule: AllowConnectorCall_cases) simp_all
  show "fst (AllowConnectorCall up s org c p now) = Some True \<Longrightarrow>
      shared_spent (snd (AllowConnectorCall up s org c p now)) org c now = Suc (shared_spent s org c now)"
    unfolding al using al by (cases rule: AllowConnectorCall_cases) (simp_all add: shared_counts rateWindow_pos)
  show "(org', c') \<noteq> (org, c) \<Longrightarrow> now \<le> t \<Longrightarrow>
      shared_spent (snd (AllowConnectorCall up s org c p now)) org' c' t = shared_spent s org' c' t"
    unfolding al using al by (cases rule: AllowConnectorCall_cases) (auto simp: shared_counts)
  show "now \<le> t \<Longrightarrow> shared_spent s org c t \<le> shared_spent s org c now"
    unfolding shared_spent_def by (induction s) auto
qed simp

section \<open>The shared limit over a history of calls\<close>

record call =
  cl_up :: bool
  cl_org :: OrgID
  cl_connector :: string
  cl_perHour :: int
  cl_now :: int

text \<open>The calls that were granted, in order, when the calls of all instances are served one after the other.\<close>

fun run_shared :: "connector_call list \<Rightarrow> call list \<Rightarrow> connector_call list" where
  "run_shared rows [] = []"
| "run_shared rows (x # xs) =
     (case AllowConnectorCall (cl_up x) rows (cl_org x) (cl_connector x) (cl_perHour x) (cl_now x) of
        (r, rows1) \<Rightarrow>
          (if r = Some True then [\<lparr>cc_org = cl_org x, cc_connector = cl_connector x, cc_at = cl_now x\<rparr>] else [])
          @ run_shared rows1 xs)"

definition in_hour :: "OrgID \<Rightarrow> string \<Rightarrow> int \<Rightarrow> connector_call \<Rightarrow> bool" where
  "in_hour org c a r \<longleftrightarrow> calls_of org c r \<and> a < cc_at r \<and> cc_at r \<le> a + rateWindow"

text \<open>\<open>tracks\<close>: at \<open>t\<close> and later the table holds exactly the calls of the history that still count.\<close>

definition tracks :: "OrgID \<Rightarrow> string \<Rightarrow> int \<Rightarrow> connector_call list \<Rightarrow> connector_call list \<Rightarrow> bool" where
  "tracks org c t rows h \<longleftrightarrow> (\<forall>u \<ge> t. shared_spent rows org c u = shared_spent h org c u)"

lemma grant_within:
  assumes "\<forall>a. length (filter (in_hour org c a) h) \<le> P" "shared_spent h org c now < P"
  shows "length (filter (in_hour org c a) (h @ [\<lparr>cc_org = org', cc_connector = c', cc_at = now\<rparr>])) \<le> P"
proof (cases "in_hour org c a \<lparr>cc_org = org', cc_connector = c', cc_at = now\<rparr>")
  case True
  then have "length (filter (in_hour org c a) h) \<le> shared_spent h org c now"
    unfolding shared_spent_def by (intro filter_length_mono) (auto simp: in_hour_def)
  then show ?thesis using assms(2) True by simp
qed (use assms(1) in simp)

lemma run_shared_bound:
  assumes "sorted (map cl_now xs)" "\<forall>x \<in> set xs. cl_org x = org \<and> cl_connector x = c \<longrightarrow> cl_perHour x \<le> int P"
    and "\<forall>x \<in> set xs. t \<le> cl_now x" "tracks org c t rows h" "\<forall>a. length (filter (in_hour org c a) h) \<le> P"
  shows "length (filter (in_hour org c a) (h @ run_shared rows xs)) \<le> P"
  using assms
proof (induction xs arbitrary: rows h t)
  case (Cons x xs)
  let ?row = "\<lparr>cc_org = cl_org x, cc_connector = cl_connector x, cc_at = cl_now x\<rparr>"
  obtain r rows1 where al: "AllowConnectorCall (cl_up x) rows (cl_org x) (cl_connector x) (cl_perHour x) (cl_now x) = (r, rows1)"
    by (cases "AllowConnectorCall (cl_up x) rows (cl_org x) (cl_connector x) (cl_perHour x) (cl_now x)")
  have later: "\<forall>y \<in> set xs. cl_now x \<le> cl_now y" "sorted (map cl_now xs)" using Cons.prems(1) by auto
  have t: "t \<le> cl_now x" using Cons.prems(3) by simp
  have tr: "tracks org c (cl_now x) rows h" using Cons.prems(4) t by (simp add: tracks_def)
  define h1 where "h1 = h @ (if r = Some True then [?row] else [])"
  have tr1: "tracks org c (cl_now x) rows1 h1"
    using al by (cases rule: AllowConnectorCall_cases)
      (use tr in \<open>simp_all add: h1_def tracks_def shared_counts\<close>)
  have "\<forall>a. length (filter (in_hour org c a) h1) \<le> P"
    using al
  proof (cases rule: AllowConnectorCall_cases)
    case 3
    show ?thesis
    proof (cases "cl_org x = org \<and> cl_connector x = c")
      case True
      then have "shared_spent h org c (cl_now x) < P" using 3(2) tr Cons.prems(2) by (auto simp: tracks_def)
      then show ?thesis using grant_within [OF Cons.prems(5)] 3(1) by (simp add: h1_def)
    next
      case False
      then have "\<not> in_hour org c a ?row" for a by (auto simp: in_hour_def calls_of_def)
      then show ?thesis using Cons.prems(5) by (simp add: h1_def)
    qed
  qed (use Cons.prems(5) in \<open>simp_all add: h1_def\<close>)
  then have "length (filter (in_hour org c a) (h1 @ run_shared rows1 xs)) \<le> P"
    using Cons.IH [OF later(2) _ later(1) tr1] Cons.prems(2) by simp
  then show ?case by (simp add: al h1_def)
qed simp

section \<open>The surface a grant pins\<close>

lemma write_number_append:
  "fmt_nat m @ '':'' @ x = fmt_nat n @ '':'' @ y \<longleftrightarrow> m = n \<and> x = y"
proof
  have nc: "CHR '':'' \<notin> set (fmt_nat k)" for k using fmt_nat_digits [of k] by (auto simp: is_digit_def)
  assume "fmt_nat m @ '':'' @ x = fmt_nat n @ '':'' @ y"
  then have "cut_byte (CHR '':'') (fmt_nat m @ CHR '':'' # x) = cut_byte (CHR '':'') (fmt_nat n @ CHR '':'' # y)" by simp
  then have "fmt_nat m = fmt_nat n" "x = y" by (simp_all add: cut_byte_found nc)
  then show "m = n \<and> x = y" by (metis digits_val_fmt_nat)
qed simp

lemma write_field_append: "write_field s @ x = write_field t @ y \<longleftrightarrow> s = t \<and> x = y"
  using write_number_append [of "length s" "s @ x" "length t" "t @ y"] by (auto simp: write_field_def)

lemma write_fields_inj:
  "length ss = length ts \<Longrightarrow> concat (map write_field ss) = concat (map write_field ts) \<Longrightarrow> ss = ts"
  by (induction ss ts rule: list_induct2) (auto simp: write_field_append)

lemma sort_strings_eq: "sort_strings ss = sort_strings ts \<longleftrightarrow> mset ss = mset ts"
proof
  have "inj (map byte)" by (simp add: inj_mapI inj_def of_char_eq_iff)
  moreover assume "mset ss = mset ts"
  ultimately show "sort_strings ss = sort_strings ts"
    unfolding sort_strings_def by (intro sort_key_inj_key_eq) (auto intro: inj_on_subset)
qed (metis mset_sort sort_strings_def)

text \<open>The hashed text is the same exactly for the same id, kind and bag of capabilities.\<close>

lemma surface_preimage_eq:
  "surface_preimage d = surface_preimage e \<longleftrightarrow>
     d_ID d = d_ID e \<and> d_Kind d = d_Kind e \<and> mset (d_Capabilities d) = mset (d_Capabilities e)"
proof
  assume "surface_preimage d = surface_preimage e"
  then have "d_ID d = d_ID e" "d_Kind d = d_Kind e"
    and l: "length (sort_strings (d_Capabilities d)) = length (sort_strings (d_Capabilities e))"
    and c: "concat (map write_field (sort_strings (d_Capabilities d))) = concat (map write_field (sort_strings (d_Capabilities e)))"
    unfolding surface_preimage_def Let_def write_field_append write_number_append by blast+
  then show "d_ID d = d_ID e \<and> d_Kind d = d_Kind e \<and> mset (d_Capabilities d) = mset (d_Capabilities e)"
    using write_fields_inj [OF l c] sort_strings_eq by blast
next
  assume a: "d_ID d = d_ID e \<and> d_Kind d = d_Kind e \<and> mset (d_Capabilities d) = mset (d_Capabilities e)"
  then have "sort_strings (d_Capabilities d) = sort_strings (d_Capabilities e)" using sort_strings_eq by blast
  then show "surface_preimage d = surface_preimage e" using a by (simp add: surface_preimage_def Let_def)
qed

lemma covers_iff: "covers granted capability \<longleftrightarrow> capability \<noteq> [] \<and> capability \<in> set granted"
  by (auto simp: covers_def list_ex_iff)

lemma authorise_None:
  "authorise g now org d capability st = (None, st1) \<longleftrightarrow>
     checkDescriptor d = None
     \<and> (\<exists>grant. grants g org (d_ID d) = Inr grant \<and> g_SurfaceDigest grant \<noteq> []
          \<and> SurfaceDigest (digest g) d = g_SurfaceDigest grant \<and> covers (g_Capabilities grant) capability
          \<and> allow_call g st org (d_ID d) (g_PerHour grant) now = (Some True, st1))"
  by (auto simp: authorise_def split: option.splits sum.splits if_splits prod.splits)

lemma bound_request_limit: "0 < Limit (bound_request r) \<and> Limit (bound_request r) \<le> MaxRows"
  by (simp add: bound_request_def MaxRows_def)

section \<open>Properties\<close>

text \<open>
  A read that reaches the connector was granted on every count: the registry holds a grant for exactly this
  org and connector, the capability is named in it, the limiter counted the call, and the rows asked for are
  bounded.  The surface presented is the one the grant pins: when the pinned digest is that of an agreed
  descriptor, the id, the kind and the bag of capabilities are the agreed ones, or the digest collides on two
  different texts.
\<close>

theorem Read_only_as_granted:
  assumes "Guard_Read g now org c capability request st = (Inr obs, st1)"
  shows "\<exists>read grant. Read_method c = Some read \<and> obs = read (bound_request request)
    \<and> 0 < Limit (bound_request request) \<and> Limit (bound_request request) \<le> MaxRows
    \<and> grants g org (d_ID (Describe c)) = Inr grant \<and> capability \<in> set (g_Capabilities grant)
    \<and> allow_call g st org (d_ID (Describe c)) (g_PerHour grant) now = (Some True, st1)
    \<and> g_SurfaceDigest grant = digest g (surface_preimage (Describe c))
    \<and> (g_SurfaceDigest grant = SurfaceDigest (digest g) agreed \<longrightarrow>
         d_ID (Describe c) = d_ID agreed \<and> d_Kind (Describe c) = d_Kind agreed
           \<and> mset (d_Capabilities (Describe c)) = mset (d_Capabilities agreed)
         \<or> (surface_preimage (Describe c) \<noteq> surface_preimage agreed
            \<and> digest g (surface_preimage (Describe c)) = digest g (surface_preimage agreed)))"
proof -
  obtain read where r: "Read_method c = Some read" "obs = read (bound_request request)"
    "authorise g now org (Describe c) capability st = (None, st1)"
    using assms by (auto simp: Guard_Read_def split: option.splits prod.splits)
  obtain grant where g: "grants g org (d_ID (Describe c)) = Inr grant" "g_SurfaceDigest grant = digest g (surface_preimage (Describe c))"
    "covers (g_Capabilities grant) capability"
    "allow_call g st org (d_ID (Describe c)) (g_PerHour grant) now = (Some True, st1)"
    using r(3) unfolding authorise_None SurfaceDigest_def by metis
  show ?thesis
    using r(1,2) g bound_request_limit [of request] surface_preimage_eq [of "Describe c" agreed]
    unfolding covers_iff SurfaceDigest_def by metis
qed

definition demo_descriptor :: Descriptor where
  "demo_descriptor = \<lparr>d_ID = ''sheet'', d_Kind = ''reader'', d_Capabilities = [''rows'', ''cells'']\<rparr>"

definition demo_guard :: "rate_state guard" where
  "demo_guard = \<lparr>grants = (\<lambda>_ _. Inr \<lparr>g_Capabilities = [''rows''], g_SurfaceDigest = surface_preimage demo_descriptor, g_PerHour = 2\<rparr>),
     allow_call = localLimiter_Allow, digest = (\<lambda>s. s)\<rparr>"

definition demo_reader :: "(int, unit) connector" where
  "demo_reader = \<lparr>Describe = demo_descriptor, Read_method = Some Limit, Propose_method = None\<rparr>"

lemma demo_read:
  "Guard_Read demo_guard 0 1 demo_reader ''rows'' \<lparr>Selector = ''A1'', Limit = 9000\<rparr> (\<lambda>_. None) =
     (Inr 500, sweep 0 ((\<lambda>_. None)((1, ''sheet'') \<mapsto> \<lparr>w_start = 0, w_count = 1\<rparr>)))"
proof -
  have "surface_preimage demo_descriptor \<noteq> []" by (simp add: surface_preimage_def write_field_def Let_def)
  then show ?thesis
    by (simp add: Guard_Read_def demo_guard_def demo_reader_def authorise_def checkDescriptor_def SurfaceDigest_def covers_def
        KindReader_def localLimiter_Allow_def rate_allow_def bound_request_def MaxRows_def demo_descriptor_def)
qed

theorem Read_only_as_granted_witness:
  "\<exists>grant st1. fst (Guard_Read demo_guard 0 1 demo_reader ''rows'' \<lparr>Selector = ''A1'', Limit = 9000\<rparr> (\<lambda>_. None)) = Inr 500
     \<and> grants demo_guard 1 ''sheet'' = Inr grant \<and> ''rows'' \<in> set (g_Capabilities grant)
     \<and> localLimiter_Allow (\<lambda>_. None) 1 ''sheet'' (g_PerHour grant) 0 = (Some True, st1)"
  using Read_only_as_granted [OF demo_read, of demo_descriptor] demo_read
  by (auto simp: demo_reader_def demo_descriptor_def demo_guard_def)

text \<open>
  However many instances call, and however the allowances of the grant changed below \<open>P\<close> in between, the shared
  limiter never grants more than \<open>P\<close> calls of a connector within any period of one hour; database failures in
  between grant nothing.
\<close>

theorem shared_limit_any_hour:
  assumes "sorted (map cl_now xs)"
    and "\<forall>x \<in> set xs. cl_org x = org \<and> cl_connector x = c \<longrightarrow> cl_perHour x \<le> int P"
    and "filter (calls_of org c) rows = []"
  shows "length (filter (in_hour org c a) (run_shared rows xs)) \<le> P"
proof (cases xs)
  case (Cons x ys)
  have "shared_spent rows org c u = 0" for u using assms(3) by (auto simp: shared_spent_def filter_empty_conv)
  then have "tracks org c (cl_now x) rows []" by (simp add: tracks_def shared_spent_def)
  then show ?thesis
    using run_shared_bound [OF assms(1,2), of "cl_now x" rows "[]" a] assms(1) Cons by auto
qed simp

definition demo_calls :: "call list" where
  "demo_calls = map (\<lambda>t. \<lparr>cl_up = True, cl_org = 1, cl_connector = ''sheet'', cl_perHour = 2, cl_now = t\<rparr>) [0, 1, 2]"

theorem shared_limit_any_hour_witness:
  "length (run_shared [] demo_calls) = 2 \<and> length (filter (in_hour 1 ''sheet'' (-1)) (run_shared [] demo_calls)) \<le> 2"
proof -
  have "sorted (map cl_now demo_calls)"
    "\<forall>x \<in> set demo_calls. cl_org x = 1 \<and> cl_connector x = ''sheet'' \<longrightarrow> cl_perHour x \<le> int 2"
    by (simp_all add: demo_calls_def)
  from shared_limit_any_hour [OF this, of "[]" "-1"] show ?thesis
    by (simp add: demo_calls_def AllowConnectorCall_def prune_calls_def calls_of_def rateWindow_def)
qed

text \<open>
  The in-process limiter counts a window from its first call, so the end of one window and the start of the
  next still fit back to back: with an allowance of three, five calls pass within two seconds.
\<close>

fun run_local :: "rate_state \<Rightarrow> OrgID \<Rightarrow> string \<Rightarrow> int \<Rightarrow> int list \<Rightarrow> int list" where
  "run_local ws org c p [] = []"
| "run_local ws org c p (t # ts) =
     (case rate_allow ws org c p t of (a, ws1) \<Rightarrow> (if a then [t] else []) @ run_local ws1 org c p ts)"

lemma local_window_burst:
  "run_local (\<lambda>_. None) 1 ''sheet'' 3 (map (\<lambda>s. s * 10 ^ 9) [0, 3599, 3599, 3599, 3600, 3600, 3600, 3600]) =
     map (\<lambda>s. s * 10 ^ 9) [0, 3599, 3599, 3600, 3600, 3600]"
  by (simp add: rate_allow_def rateWindow_def sweep_def)

end
