(* ===== verification/Breaker.thy ===== *)
theory Breaker
  imports Main
begin

text \<open>
  The circuit breaker of \<^verbatim>\<open>connector/mcpclient/breaker.go\<close>.  \<open>enter\<close> hands a call that may proceed a function to
  report with; that function is the pair of the breaker and the flag \<open>probe\<close> it closed over, and \<open>report\<close> is its
  body.  Calls overlap: a state of the system is the breaker with the flags of the calls in flight, and a step is
  one call entering, being turned away, or reporting, in any order; a run keeps the history of the reports.  Instants and the cool-down are in nanoseconds.
\<close>

section \<open>Definitions\<close>

datatype outcome = succeeded | failed | inconclusive

record breaker =
  threshold :: int
  coolDown :: int
  failures :: int
  is_open :: bool
  openedAt :: int
  probing :: bool

definition enter :: "breaker \<Rightarrow> int \<Rightarrow> bool option \<times> breaker" where
  "enter b now =
     (if is_open b then
        (if probing b \<or> now - openedAt b < coolDown b then (None, b)
         else (Some True, b\<lparr>probing := True\<rparr>))
      else (Some False, b))"

fun report :: "bool \<Rightarrow> outcome \<Rightarrow> int \<Rightarrow> breaker \<Rightarrow> breaker" where
  "report True succeeded at b = b\<lparr>probing := False, is_open := False, failures := 0\<rparr>"
| "report True failed at b = b\<lparr>probing := False, openedAt := at\<rparr>"
| "report True inconclusive at b = b\<lparr>probing := False\<rparr>"
| "report False result at b =
     (if is_open b then b
      else case result of
          succeeded \<Rightarrow> b\<lparr>failures := 0\<rparr>
        | failed \<Rightarrow>
            let n = failures b + 1
            in if n \<ge> threshold b then b\<lparr>failures := n, is_open := True, openedAt := at\<rparr> else b\<lparr>failures := n\<rparr>
        | inconclusive \<Rightarrow> b)"

definition new_breaker :: "int \<Rightarrow> int \<Rightarrow> breaker" where
  "new_breaker n cool = \<lparr>threshold = n, coolDown = cool, failures = 0, is_open = False, openedAt = 0, probing = False\<rparr>"

section \<open>Overlapping calls\<close>

text \<open>
  A run keeps the history of what was reported, oldest first: whether the call was a probe, what became of it, and when.
\<close>

type_synonym system = "breaker \<times> bool list"
type_synonym reported_call = "bool \<times> outcome \<times> int"

inductive breaker_run :: "int \<Rightarrow> int \<Rightarrow> reported_call list \<Rightarrow> system \<Rightarrow> bool" for n cool where
  start: "breaker_run n cool [] (new_breaker n cool, [])"
| entered: "breaker_run n cool log (b, fl) \<Longrightarrow> enter b now = (Some probe, b') \<Longrightarrow> breaker_run n cool log (b', fl @ [probe])"
| turned_away: "breaker_run n cool log (b, fl) \<Longrightarrow> enter b now = (None, b') \<Longrightarrow> breaker_run n cool log (b', fl)"
| reported: "breaker_run n cool log (b, xs @ probe # ys) \<Longrightarrow>
    breaker_run n cool (log @ [(probe, result, at)]) (report probe result at b, xs @ ys)"

section \<open>Histories\<close>

text \<open>
  Read off the history alone: some calls in a row, none of them a probe and none a success, of which at least \<open>n\<close> failed,
  and no probe has succeeded since.
\<close>

definition ordinary :: "reported_call \<Rightarrow> bool" where
  "ordinary x \<longleftrightarrow> \<not> fst x \<and> fst (snd x) \<noteq> succeeded"

definition fails :: "reported_call list \<Rightarrow> int" where
  "fails xs = int (length (filter (\<lambda>x. fst (snd x) = failed) xs))"

definition closes :: "reported_call \<Rightarrow> bool" where
  "closes x \<longleftrightarrow> fst x \<and> fst (snd x) = succeeded"

definition probe_failed :: "reported_call \<Rightarrow> bool" where
  "probe_failed x \<longleftrightarrow> fst x \<and> fst (snd x) = failed"

definition tripped :: "int \<Rightarrow> reported_call list \<Rightarrow> bool" where
  "tripped n log \<longleftrightarrow> (\<exists>pre run post. log = pre @ run @ post \<and> list_all ordinary run \<and> n \<le> fails run \<and> \<not> list_ex closes post)"

text \<open>The calls of the history since the last that was a probe or a success.\<close>

definition streak :: "reported_call list \<Rightarrow> reported_call list" where
  "streak log = takeWhile ordinary (rev log)"

text \<open>Where the cool-down is counted from: the failure that tripped the breaker, or the last probe that failed since.\<close>

definition opened_by :: "int \<Rightarrow> reported_call list \<Rightarrow> int \<Rightarrow> bool" where
  "opened_by n log t \<longleftrightarrow> (\<exists>pre x post. log = pre @ x # post \<and> snd x = (failed, t) \<and> \<not> list_ex probe_failed post
     \<and> (fst x \<or> \<not> tripped n pre \<and> tripped n (pre @ [x])))"

lemma fails_simps [simp]:
  "fails [] = 0" "fails (x # xs) = (if fst (snd x) = failed then 1 else 0) + fails xs" "fails (xs @ ys) = fails xs + fails ys" "fails (rev xs) = fails xs"
  "0 \<le> fails xs"
  by (simp_all add: fails_def rev_filter [symmetric])

lemma streak_simps [simp]: "streak [] = []" "streak (log @ [x]) = (if ordinary x then x # streak log else [])"
  by (simp_all add: streak_def)

lemma tripped_Nil [simp]: "1 \<le> n \<Longrightarrow> \<not> tripped n []"
  by (simp add: tripped_def)

lemma tripped_snoc:
  assumes "1 \<le> n"
  shows "tripped n (log @ [x]) \<longleftrightarrow> \<not> closes x \<and> (tripped n log \<or> n \<le> fails (streak (log @ [x])))"
proof
  assume "tripped n (log @ [x])"
  then obtain pre run post where t: "log @ [x] = pre @ run @ post" "list_all ordinary run" "n \<le> fails run" "\<not> list_ex closes post"
    by (auto simp: tripped_def)
  show "\<not> closes x \<and> (tripped n log \<or> n \<le> fails (streak (log @ [x])))"
  proof (cases post rule: rev_cases)
    case Nil
    from t(1) Nil have "rev run @ rev pre = rev (log @ [x])" by simp
    then have "streak (log @ [x]) = rev run @ takeWhile ordinary (rev pre)"
      unfolding streak_def using t(2) by (metis list_all_iff set_rev takeWhile_append2)
    moreover have "run \<noteq> []" using t(3) assms by auto
    moreover from this have "x \<in> set run" using t(1) Nil by (metis append_Nil2 last_appendR last_in_set last_snoc)
    ultimately have "fails (streak (log @ [x])) = fails run + fails (takeWhile ordinary (rev pre))" "\<not> closes x"
      using t(2) by (auto simp: list_all_iff closes_def ordinary_def)
    then show ?thesis using t(3) fails_simps(5) [of "takeWhile ordinary (rev pre)"] by linarith
  next
    case (snoc post' y)
    with t(1) have "x = y" "log = pre @ run @ post'" by simp_all
    then show ?thesis using t snoc unfolding tripped_def by fastforce
  qed
next
  assume r: "\<not> closes x \<and> (tripped n log \<or> n \<le> fails (streak (log @ [x])))"
  show "tripped n (log @ [x])"
  proof (cases "tripped n log")
    case True
    then obtain pre run post where "log = pre @ run @ post" "list_all ordinary run" "n \<le> fails run" "\<not> list_ex closes post"
      by (auto simp: tripped_def)
    then have "log @ [x] = pre @ run @ (post @ [x])" "\<not> list_ex closes (post @ [x])" using r by simp_all
    then show ?thesis unfolding tripped_def using \<open>list_all ordinary run\<close> \<open>n \<le> fails run\<close> by blast
  next
    case False
    let ?s = "streak (log @ [x])" and ?r = "dropWhile ordinary (rev (log @ [x]))"
    have "?s @ ?r = rev (log @ [x])" unfolding streak_def by (rule takeWhile_dropWhile_id)
    then have "rev (?s @ ?r) = log @ [x]" by (metis rev_rev_ident)
    then have d: "log @ [x] = rev ?r @ rev ?s @ []" unfolding rev_append by simp
    have "list_all ordinary (rev ?s)" unfolding list_all_iff streak_def set_rev by (blast dest: set_takeWhileD)
    moreover have "n \<le> fails (rev ?s)" using r False unfolding fails_simps(4) by blast
    ultimately have "list_all ordinary (rev ?s) \<and> n \<le> fails (rev ?s) \<and> \<not> list_ex closes []" by simp
    with d show ?thesis unfolding tripped_def by blast
  qed
qed

section \<open>The invariant\<close>

definition breaker_inv :: "int \<Rightarrow> int \<Rightarrow> reported_call list \<Rightarrow> system \<Rightarrow> bool" where
  "breaker_inv n cool log s \<longleftrightarrow>
     (case s of (b, fl) \<Rightarrow>
        threshold b = n \<and> coolDown b = cool \<and> length (filter id fl) = (if probing b then 1 else 0)
        \<and> (probing b \<longrightarrow> is_open b) \<and> (is_open b \<longleftrightarrow> tripped n log)
        \<and> (is_open b \<longrightarrow> opened_by n log (openedAt b)) \<and> (\<not> is_open b \<longrightarrow> failures b = fails (streak log)))"

lemma enter_cases:
  assumes e: "enter b now = (r, b')"
  obtains (refused) "is_open b" "r = None" "b' = b"
  | (probe) "is_open b" "\<not> probing b" "coolDown b \<le> now - openedAt b" "r = Some True" "b' = b\<lparr>probing := True\<rparr>"
  | (closed) "\<not> is_open b" "r = Some False" "b' = b"
proof -
  consider "is_open b" "probing b \<or> now - openedAt b < coolDown b"
    | "is_open b" "\<not> probing b" "coolDown b \<le> now - openedAt b" | "\<not> is_open b" by linarith
  then show thesis
  proof cases
    case 1
    then have "(None, b) = (r, b')" unfolding e [symmetric] enter_def by simp
    then show thesis using refused 1(1) by blast
  next
    case 2
    then have "(Some True, b\<lparr>probing := True\<rparr>) = (r, b')" unfolding e [symmetric] enter_def by simp
    then show thesis using probe 2 by blast
  next
    case 3
    then have "(Some False, b) = (r, b')" unfolding e [symmetric] enter_def by simp
    then show thesis using closed 3 by blast
  qed
qed

lemma opened_by_later: "opened_by n log t \<Longrightarrow> \<not> probe_failed x \<Longrightarrow> opened_by n (log @ [x]) t"
  unfolding opened_by_def
proof (elim exE conjE)
  fix pre y post
  assume "log = pre @ y # post" "snd y = (failed, t)" "\<not> list_ex probe_failed post" "fst y \<or> \<not> tripped n pre \<and> tripped n (pre @ [y])" "\<not> probe_failed x"
  then show "\<exists>pre y post. log @ [x] = pre @ y # post \<and> snd y = (failed, t) \<and> \<not> list_ex probe_failed post
      \<and> (fst y \<or> \<not> tripped n pre \<and> tripped n (pre @ [y]))"
    by (intro exI [of _ pre] exI [of _ y] exI [of _ "post @ [x]"]) simp
qed

lemma opened_by_now:
  "\<not> tripped n log \<and> tripped n (log @ [(p, failed, t)]) \<or> p \<Longrightarrow> opened_by n (log @ [(p, failed, t)]) t"
  unfolding opened_by_def by (intro exI [of _ log] exI [of _ "(p, failed, t)"] exI [of _ "[]"]) auto

text \<open>A call that was let through while the breaker was closed.\<close>

lemma report_ordinary_inv:
  assumes "breaker_inv n cool log (b, xs @ False # ys)" "1 \<le> n"
  shows "breaker_inv n cool (log @ [(False, result, at)]) (report False result at b, xs @ ys)"
proof -
  let ?x = "(False, result, at)"
  have x: "\<not> closes ?x" "\<not> probe_failed ?x" by (simp_all add: closes_def probe_failed_def)
  note t = tripped_snoc [OF assms(2), of log ?x]
  show ?thesis
  proof (cases "is_open b")
    case True
    then have "tripped n (log @ [?x])" "opened_by n (log @ [?x]) (openedAt b)" using assms(1) t x opened_by_later by (auto simp: breaker_inv_def)
    then show ?thesis using assms(1) True by (auto simp: breaker_inv_def split: if_splits)
  next
    case False
    then have c: "\<not> tripped n log" "failures b = fails (streak log)" "threshold b = n" using assms(1) by (auto simp: breaker_inv_def)
    have below: "fails (streak log) < n"
    proof (cases log rule: rev_cases)
      case (snoc l y)
      then show ?thesis using c(1) tripped_snoc [OF assms(2), of l y] assms(2) by (cases "closes y") (auto simp: closes_def ordinary_def)
    qed (use assms(2) in simp)
    show ?thesis
    proof (cases result)
      case failed
      then show ?thesis using assms False c t x opened_by_now [of n log False at]
        by (auto simp: breaker_inv_def ordinary_def Let_def split: if_splits)
    qed (use assms False c t x below in \<open>auto simp: breaker_inv_def ordinary_def split: if_splits\<close>)
  qed
qed

lemma report_probe_inv:
  assumes "breaker_inv n cool log (b, xs @ True # ys)" "1 \<le> n"
  shows "breaker_inv n cool (log @ [(True, result, at)]) (report True result at b, xs @ ys)"
proof -
  have o: "probing b" "is_open b" "tripped n log" "opened_by n log (openedAt b)" using assms(1) by (auto simp: breaker_inv_def split: if_splits)
  note t = tripped_snoc [OF assms(2), of log "(True, result, at)"]
  show ?thesis
  proof (cases result)
    case inconclusive
    then have "opened_by n (log @ [(True, result, at)]) (openedAt b)" using opened_by_later [OF o(4)] by (simp add: probe_failed_def)
    then show ?thesis using assms(1) o t inconclusive by (auto simp: breaker_inv_def closes_def)
  qed (use assms(1) o t opened_by_now [of n log True at] in \<open>auto simp: breaker_inv_def closes_def ordinary_def\<close>)
qed

lemma run_inv: "breaker_run n cool log s \<Longrightarrow> 1 \<le> n \<Longrightarrow> breaker_inv n cool log s"
proof (induction rule: breaker_run.induct)
  case start
  then show ?case by (simp add: breaker_inv_def new_breaker_def)
next
  case (entered log b fl now probe b')
  from entered(2) show ?case using entered(3) [OF entered(4)] by (cases rule: enter_cases) (auto simp: breaker_inv_def)
next
  case (turned_away log b fl now b')
  from turned_away(2) show ?case using turned_away(3) [OF turned_away(4)] by (cases rule: enter_cases) auto
next
  case (reported log b xs probe ys result at)
  then show ?case using report_probe_inv report_ordinary_inv by (cases probe) simp_all
qed

section \<open>Properties\<close>


definition demo_open :: breaker where
  "demo_open = \<lparr>threshold = 2, coolDown = 5, failures = 2, is_open = True, openedAt = 7, probing = False\<rparr>"

definition demo_log :: "reported_call list" where
  "demo_log = [(False, failed, 1), (False, succeeded, 2), (False, failed, 3), (False, inconclusive, 4), (False, failed, 7)]"

text \<open>Five calls enter a fresh breaker and then report, the last of them the second failure after the success.\<close>

lemma demo_breaker_run: "breaker_run 2 5 demo_log (demo_open, [])"
proof -
  let ?b = "new_breaker 2 5"
  have b: "enter (b :: breaker) 0 = (Some False, b)" if "\<not> is_open b" for b using that by (simp add: enter_def)
  have s: "breaker_run 2 5 (log @ [(False, r, t)]) (report False r t b, [])" if "breaker_run 2 5 log (b, [])" "\<not> is_open b" for log b r t
    using breaker_run.reported [of 2 5 log b "[]" False "[]"] breaker_run.entered [OF that(1) b [OF that(2)]] by simp
  have "breaker_run 2 5 [(False, failed, 1)] (?b\<lparr>failures := 1\<rparr>, [])" using s [OF breaker_run.start, of failed 1] by (simp add: new_breaker_def)
  from s [OF this, of succeeded 2] have "breaker_run 2 5 [(False, failed, 1), (False, succeeded, 2)] (?b, [])" by (simp add: new_breaker_def)
  from s [OF this, of failed 3] have "breaker_run 2 5 [(False, failed, 1), (False, succeeded, 2), (False, failed, 3)] (?b\<lparr>failures := 1\<rparr>, [])"
    by (simp add: new_breaker_def)
  from s [OF this, of inconclusive 4]
  have "breaker_run 2 5 [(False, failed, 1), (False, succeeded, 2), (False, failed, 3), (False, inconclusive, 4)] (?b\<lparr>failures := 1\<rparr>, [])"
    by (simp add: new_breaker_def)
  from s [OF this, of failed 7] show ?thesis by (simp add: new_breaker_def demo_open_def demo_log_def)
qed


end
