(* ===== verification/Chat_Split.thy ===== *)
theory Chat_Split
  imports Utf8_Chunks
begin

text \<open>
  \<^verbatim>\<open>chat/split.go\<close>: breaking a reply into messages a platform accepts.  Strings are arbitrary bytes.  The loop
  that cuts a word longer than a message is a \<open>partial_function\<close>, so that not returning is \<open>None\<close>: it returns for
  every limit of at least two, and does not for a limit of one and a character of two UTF-16 units.
\<close>

section \<open>Definitions\<close>

definition rune_units :: "rune \<Rightarrow> int" where
  "rune_units r = (if r \<ge> 65536 then 2 else 1)"

definition units :: "string \<Rightarrow> int" where
  "units s = sum_list (map rune_units (runes_of s))"

text \<open>\<open>utf16.RuneLen\<close>.\<close>

definition RuneLen :: "rune \<Rightarrow> int" where
  "RuneLen r =
     (if r < 55296 \<or> (57344 \<le> r \<and> r < 65536) then 1
      else if 65536 \<le> r \<and> r \<le> 1114111 then 2 else -1)"

fun cut_from :: "int \<Rightarrow> int \<Rightarrow> (rune \<times> string) list \<Rightarrow> (rune \<times> string) list \<times> (rune \<times> string) list" where
  "cut_from limit n [] = ([], [])"
| "cut_from limit n ((r, b) # cs) =
     (let w = (if RuneLen r < 0 then 1 else RuneLen r)
      in if n + w > limit then ([], (r, b) # cs)
         else case cut_from limit (n + w) cs of (h, t) \<Rightarrow> ((r, b) # h, t))"

definition cut :: "string \<Rightarrow> int \<Rightarrow> string \<times> string" where
  "cut s limit = (case cut_from limit 0 (utf8_chunks s) of (h, t) \<Rightarrow> (chunk_text h, chunk_text t))"

type_synonym split_state = "string list \<times> string"

definition flush :: "split_state \<Rightarrow> split_state" where
  "flush st = (let s = TrimSpace (snd st) in (if s \<noteq> [] then fst st @ [s] else fst st, []))"

definition add :: "int \<Rightarrow> string \<Rightarrow> string \<Rightarrow> split_state \<Rightarrow> split_state" where
  "add limit s sep st =
     (let st1 = (if snd st \<noteq> [] \<and> units (snd st) + units sep + units s > limit then flush st else st)
      in (fst st1, (if snd st1 \<noteq> [] then snd st1 @ sep else snd st1) @ s))"

partial_function (option) cut_loop :: "int \<Rightarrow> split_state \<Rightarrow> string \<Rightarrow> (split_state \<times> string) option" where
  "cut_loop limit st word =
     (if units word > limit
      then cut_loop limit (fst (flush st) @ [fst (cut word limit)], snd (flush st)) (snd (cut word limit))
      else Some (st, word))"

fun split_words :: "int \<Rightarrow> string list \<Rightarrow> string \<Rightarrow> split_state \<Rightarrow> split_state option" where
  "split_words limit [] sep st = Some st"
| "split_words limit (word # ws) sep st =
     (case cut_loop limit st word of
        None \<Rightarrow> None
      | Some (st1, w) \<Rightarrow> split_words limit ws '' '' (add limit w sep st1))"

definition nl :: char where "nl = chr 10"

fun split_lines :: "int \<Rightarrow> string list \<Rightarrow> string \<Rightarrow> split_state \<Rightarrow> split_state option" where
  "split_lines limit [] sep st = Some st"
| "split_lines limit (line # ls) sep st =
     (if units line \<le> limit then split_lines limit ls [nl] (add limit line sep st)
      else case split_words limit (Fields line) sep st of
          None \<Rightarrow> None
        | Some st1 \<Rightarrow> split_lines limit ls [nl] st1)"

fun split_paragraphs :: "int \<Rightarrow> string list \<Rightarrow> split_state \<Rightarrow> split_state option" where
  "split_paragraphs limit [] st = Some st"
| "split_paragraphs limit (paragraph # ps) st =
     (if units paragraph \<le> limit then split_paragraphs limit ps (add limit paragraph [nl, nl] st)
      else case split_lines limit (split_byte nl paragraph) [nl, nl] st of
          None \<Rightarrow> None
        | Some st1 \<Rightarrow> split_paragraphs limit ps st1)"

definition Split :: "string \<Rightarrow> int \<Rightarrow> string list option" where
  "Split text limit =
     (let t = TrimSpace text
      in if t = [] \<or> limit \<le> 0 then Some []
         else if units t \<le> limit then Some [t]
         else case split_paragraphs limit (split_str [nl, nl] t) ([], []) of
             None \<Rightarrow> None
           | Some st \<Rightarrow> Some (fst (flush st)))"

section \<open>Lengths\<close>

lemma rune_units_pos: "1 \<le> rune_units r"
  by (simp add: rune_units_def)

lemma units_nonneg: "0 \<le> units s"
  unfolding units_def by (rule sum_list_nonneg) (auto simp: rune_units_def)

lemma units_append: "b = [] \<or> byte (hd b) < 128 \<Longrightarrow> units (a @ b) = units a + units b"
  by (simp add: units_def runes_of_def utf8_chunks_append)

lemma units_chunks: "decodes cs \<Longrightarrow> units (chunk_text cs) = sum_list (map (\<lambda>x. rune_units (fst x)) cs)"
  by (simp add: units_def runes_of_def decodes_def comp_def)

lemma units_segment: "decodes (a @ b @ c) \<Longrightarrow> units (chunk_text b) \<le> units (chunk_text (a @ b @ c))"
proof -
  assume d: "decodes (a @ b @ c)"
  have "0 \<le> sum_list (map (\<lambda>x. rune_units (fst x)) cs)" for cs :: "(rune \<times> string) list"
    by (rule sum_list_nonneg) (auto simp: rune_units_def)
  then show ?thesis
    using units_chunks [OF d] units_chunks [OF decodes_segment [OF d]] by (simp add: add_increasing add_increasing2)
qed

lemma units_TrimSpace: "units (TrimSpace s) \<le> units s"
proof -
  obtain pre post where e: "utf8_chunks s = pre @ utf8_chunks (TrimSpace s) @ post" by (rule TrimSpace_parts)
  then have "decodes (pre @ utf8_chunks (TrimSpace s) @ post)" using decodes_chunks [of s] by simp
  from units_segment [OF this] show ?thesis unfolding e [symmetric] by simp
qed

section \<open>Cutting a word\<close>

lemma cut_from_append: "cut_from limit n cs = (h, t) \<Longrightarrow> cs = h @ t"
  by (induction limit n cs arbitrary: h t rule: cut_from.induct) (auto simp: Let_def split: if_splits prod.splits)

lemma RuneLen_units: "r \<le> 1114111 \<Longrightarrow> (if RuneLen r < 0 then 1 else RuneLen r) = rune_units r"
  by (auto simp: RuneLen_def rune_units_def)

lemma cut_from_units:
  "cut_from limit n cs = (h, t) \<Longrightarrow> \<forall>x \<in> set cs. fst x \<le> 1114111 \<Longrightarrow> n \<le> limit \<Longrightarrow>
     n + sum_list (map (\<lambda>x. rune_units (fst x)) h) \<le> limit"
proof (induction limit n cs arbitrary: h t rule: cut_from.induct)
  case (2 limit n r b cs)
  let ?w = "if RuneLen r < 0 then 1 else RuneLen r"
  have w: "?w = rune_units r" using 2(3) RuneLen_units [of r] by simp
  show ?case
  proof (cases "n + ?w > limit")
    case True
    then have "h = []" using 2(2) by (simp add: Let_def)
    then show ?thesis using 2(4) by simp
  next
    case False
    then obtain h' t' where h': "cut_from limit (n + ?w) cs = (h', t')" "h = (r, b) # h'"
      using 2(2) by (auto simp: Let_def split: prod.splits)
    have "(n + ?w) + sum_list (map (\<lambda>x. rune_units (fst x)) h') \<le> limit"
      using 2(1) [OF refl False h'(1)] 2(3) False by simp
    then show ?thesis using h'(2) w by simp
  qed
qed simp

text \<open>With room for two units the head is never empty, and the word gets shorter.\<close>

lemma cut_parts:
  assumes "2 \<le> limit" "solid word" "limit < units word" "cut word limit = (head, tail)"
  shows "word = head @ tail" "solid head" "solid tail" "units head \<le> limit" "length tail < length word"
proof -
  obtain h t where c: "cut_from limit 0 (utf8_chunks word) = (h, t)" "head = chunk_text h" "tail = chunk_text t"
    using assms(4) by (auto simp: cut_def split: prod.splits)
  have cs: "utf8_chunks word = h @ t" using cut_from_append [OF c(1)] .
  have d: "decodes h" "decodes t"
    using decodes_segment [of "[]" h t] decodes_segment [of h t "[]"] decodes_chunks [of word] cs by simp_all
  show "word = head @ tail" using chunk_text_chunks [of word] cs c(2,3) by simp
  have max: "\<forall>x \<in> set (utf8_chunks word). fst x \<le> 1114111" using chunk_rune_max by blast
  show lim: "units head \<le> limit"
    using cut_from_units [OF c(1) max] assms(1) units_chunks [OF d(1)] c(2) by simp
  have ne: "x \<in> set (h @ t) \<Longrightarrow> snd x \<noteq> []" for x using chunk_nonempty [of x word] cs by simp
  have "h \<noteq> []"
  proof
    assume "h = []"
    have "utf8_chunks word \<noteq> []" using assms(2) by (metis chunk_text_chunks chunk_text_simps(1) solid_def)
    then obtain r b cs' where "utf8_chunks word = (r, b) # cs'" by (cases "utf8_chunks word") auto
    then show False using c(1) \<open>h = []\<close> max assms(1) RuneLen_units [of r]
      by (auto simp: Let_def rune_units_def split: if_splits prod.splits)
  qed
  then have hne: "head \<noteq> []" using c(2) ne by (cases h) auto
  then show "length tail < length word" using \<open>word = head @ tail\<close> by simp
  have "t \<noteq> []"
  proof
    assume "t = []"
    then have "head = word" using \<open>word = head @ tail\<close> c(3) by simp
    then show False using lim assms(3) by simp
  qed
  then have "tail \<noteq> []" using c(3) ne by (cases t) auto
  then show "solid head" "solid tail"
    using hne assms(2) d cs c(2,3) by (auto simp: solid_def decodes_def)
qed

text \<open>Words cut to fit: a word that fits is itself, a longer one is a run of pieces that fit.\<close>

inductive fits :: "int \<Rightarrow> string list \<Rightarrow> string list \<Rightarrow> bool" for limit where
  fits_Nil: "fits limit [] []"
| fits_word: "units w \<le> limit \<Longrightarrow> fits limit ws vs \<Longrightarrow> fits limit (w # ws) (w # vs)"
| fits_cut: "limit < units w \<Longrightarrow> concat ps = w \<Longrightarrow> \<forall>p \<in> set ps. solid p \<and> units p \<le> limit \<Longrightarrow> fits limit ws vs \<Longrightarrow>
    fits limit (w # ws) (ps @ vs)"

lemma fits_append: "fits limit ws vs \<Longrightarrow> fits limit ws' vs' \<Longrightarrow> fits limit (ws @ ws') (vs @ vs')"
proof (induction rule: fits.induct)
  case (fits_cut w ps ws vs)
  then show ?case using fits.fits_cut [of limit w ps "ws @ ws'" "vs @ vs'"] by simp
qed (auto intro: fits.intros)

lemma fits_all: "\<forall>w \<in> set ws. units w \<le> limit \<Longrightarrow> fits limit ws ws"
  by (induction ws) (auto intro: fits.intros)

lemma fits_same: "fits limit ws vs \<Longrightarrow> \<forall>w \<in> set ws. units w \<le> limit \<Longrightarrow> vs = ws"
  by (induction rule: fits.induct) auto

lemma fits_concat: "fits limit ws vs \<Longrightarrow> concat vs = concat ws"
  by (induction rule: fits.induct) auto

section \<open>The state of the split\<close>

definition pieces_ok :: "int \<Rightarrow> split_state \<Rightarrow> bool" where
  "pieces_ok limit st \<longleftrightarrow> (\<forall>p \<in> set (fst st). p \<noteq> [] \<and> units p \<le> limit) \<and> units (snd st) \<le> limit"

definition words_in :: "split_state \<Rightarrow> string list" where
  "words_in st = concat (map Fields (fst st)) @ Fields (snd st)"

definition gap :: "string \<Rightarrow> bool" where
  "gap sep \<longleftrightarrow> sep \<in> {[nl, nl], [nl], '' ''}"

lemma nl_simps [simp]: "byte nl = 10" "IsSpace 10" "IsSpace 32"
  by (simp_all add: nl_def IsSpace_def)

lemma units_Nil [simp]: "units [] = 0"
  by (simp add: units_def runes_of_def)

lemma Fields_gap: "gap sep \<Longrightarrow> Fields (a @ sep @ b) = Fields a @ Fields b"
  by (auto simp: gap_def Fields_space_join Fields_space_Cons)

lemma units_gap: "gap sep \<Longrightarrow> units (a @ sep @ b) = units a + units sep + units b"
proof -
  have one: "byte c < 128 \<Longrightarrow> units (c # s) = units [c] + units s" for c s
    by (simp add: units_def runes_of_def utf8_chunks_ascii_Cons)
  assume g: "gap sep"
  then have "units (a @ sep @ b) = units a + units (sep @ b)" by (intro units_append) (auto simp: gap_def)
  moreover have "units (sep @ b) = units sep + units b"
    using g one [of nl b] one [of nl "nl # b"] one [of nl "[nl]"] one [of "CHR '' ''" b] by (auto simp: gap_def)
  ultimately show ?thesis by simp
qed

lemma flush_words [simp]: "words_in (flush st) = words_in st"
  using TrimSpace_blank [of "snd st"] by (auto simp: words_in_def flush_def Let_def Fields_TrimSpace)

lemma flush_ok: "0 \<le> limit \<Longrightarrow> pieces_ok limit st \<Longrightarrow> pieces_ok limit (flush st)"
  using units_TrimSpace [of "snd st"] by (auto simp: pieces_ok_def flush_def Let_def)

lemma flush_empty [simp]: "snd (flush st) = []"
  by (simp add: flush_def Let_def)

lemma add_step:
  assumes "pieces_ok limit st" "units s \<le> limit" "gap sep" "0 \<le> limit"
  shows "pieces_ok limit (add limit s sep st) \<and> words_in (add limit s sep st) = words_in st @ Fields s"
proof (cases "snd st \<noteq> [] \<and> units (snd st) + units sep + units s \<le> limit")
  case True
  then have "add limit s sep st = (fst st, snd st @ sep @ s)" by (simp add: add_def Let_def)
  then show ?thesis
    using True assms by (simp add: pieces_ok_def words_in_def Fields_gap units_gap)
next
  case False
  define st1 where "st1 = (if snd st \<noteq> [] then flush st else st)"
  have "snd st1 = []" "add limit s sep st = (fst st1, s)"
    using False by (auto simp: st1_def add_def Let_def)
  moreover have "words_in st1 = words_in st" "pieces_ok limit st1"
    using flush_ok [OF assms(4,1)] assms(1) by (simp_all add: st1_def)
  ultimately show ?thesis using assms(2) by (simp add: pieces_ok_def words_in_def)
qed

lemma cut_loop_step:
  assumes "2 \<le> limit"
  shows "solid word \<Longrightarrow> pieces_ok limit st \<Longrightarrow>
    \<exists>st1 w ps. cut_loop limit st word = Some (st1, w) \<and> pieces_ok limit st1 \<and> solid w \<and> units w \<le> limit
      \<and> words_in st1 = words_in st @ ps \<and> concat ps @ w = word \<and> (\<forall>p \<in> set ps. solid p \<and> units p \<le> limit)
      \<and> (units word \<le> limit \<longrightarrow> ps = [])"
proof (induction word arbitrary: st rule: length_induct)
  case (1 word)
  show ?case
  proof (cases "limit < units word")
    case False
    then have "cut_loop limit st word = Some (st, word)" by (subst cut_loop.simps) simp
    then show ?thesis using False 1(2,3) by (intro exI [of _ st] exI [of _ word] exI [of _ "[]"]) simp
  next
    case True
    obtain head tail where c: "cut word limit = (head, tail)" by (cases "cut word limit")
    note cp = cut_parts [OF assms 1(2) True c]
    let ?st = "(fst (flush st) @ [head], snd (flush st))"
    have ok: "pieces_ok limit ?st"
      using flush_ok [OF _ 1(3)] cp(2,4) assms by (auto simp: pieces_ok_def solid_def)
    have ws: "words_in ?st = words_in st @ [head]"
      using flush_words [of st] Fields_solid [OF cp(2)] by (simp add: words_in_def del: flush_words)
    obtain st1 w ps where s: "cut_loop limit ?st tail = Some (st1, w)" "pieces_ok limit st1" "solid w" "units w \<le> limit"
      "words_in st1 = words_in ?st @ ps" "concat ps @ w = tail" "\<forall>p \<in> set ps. solid p \<and> units p \<le> limit"
      using 1(1) cp(3,5) ok by blast
    have "cut_loop limit st word = Some (st1, w)" using True c s(1) by (subst cut_loop.simps) simp
    moreover have "concat (head # ps) @ w = word" using s(6) cp(1) by simp
    moreover have "words_in st1 = words_in st @ head # ps" using s(5) ws by simp
    ultimately show ?thesis
      using s cp True by (intro exI [of _ st1] exI [of _ w] exI [of _ "head # ps"]) auto
  qed
qed

lemma cut_loop_fits:
  assumes "2 \<le> limit" "solid word" "pieces_ok limit st" "gap sep"
  obtains st1 w vs where "cut_loop limit st word = Some (st1, w)" "pieces_ok limit (add limit w sep st1)"
    "words_in (add limit w sep st1) = words_in st @ vs" "fits limit [word] vs"
proof -
  obtain st1 w ps where s: "cut_loop limit st word = Some (st1, w)" "pieces_ok limit st1" "solid w" "units w \<le> limit"
    "words_in st1 = words_in st @ ps" "concat ps @ w = word" "\<forall>p \<in> set ps. solid p \<and> units p \<le> limit"
    "units word \<le> limit \<longrightarrow> ps = []" using cut_loop_step [OF assms(1-3)] by blast
  have "fits limit [word] (ps @ [w])"
  proof (cases "units word \<le> limit")
    case True
    then show ?thesis using s fits_all [of "[word]" limit] by simp
  next
    case False
    then show ?thesis using fits_cut [of limit word "ps @ [w]" "[]" "[]"] s fits_Nil by simp
  qed
  moreover have "pieces_ok limit (add limit w sep st1)" "words_in (add limit w sep st1) = words_in st @ ps @ [w]"
    using add_step [OF s(2,4) assms(4)] assms(1) s(5) Fields_solid [OF s(3)] by simp_all
  ultimately show thesis using that s(1) by blast
qed

text \<open>What each of the three loops does to the state.\<close>

definition moves :: "int \<Rightarrow> split_state \<Rightarrow> string list \<Rightarrow> split_state option \<Rightarrow> bool" where
  "moves limit st ws r \<longleftrightarrow>
     (\<exists>st1 vs. r = Some st1 \<and> pieces_ok limit st1 \<and> words_in st1 = words_in st @ vs \<and> fits limit ws vs)"

lemma moves_trans:
  assumes "pieces_ok limit st1" "words_in st1 = words_in st @ vs" "fits limit ws vs" "moves limit st1 ws' r"
  shows "moves limit st (ws @ ws') r"
  using assms fits_append unfolding moves_def by fastforce

lemma moves_done: "pieces_ok limit st \<Longrightarrow> moves limit st [] (Some st)"
  using fits_Nil by (auto simp: moves_def)

lemma Fields_fit: "units s \<le> limit \<Longrightarrow> fits limit (Fields s) (Fields s)"
proof (rule fits_all, rule ballI)
  fix w assume u: "units s \<le> limit" and w: "w \<in> set (Fields s)"
  obtain a b where e: "Fields s = a @ w # b" using w by (meson split_list)
  have seg: "decodes (p @ q @ cs) \<Longrightarrow> w \<in> set (fields_loop IsSpace (chunk_text q) cs) \<Longrightarrow>
      units w \<le> units (chunk_text (p @ q @ cs))" for p q cs
  proof (induction cs arbitrary: p q)
    case Nil
    then show ?case using units_segment [of p q "[]"] by (auto split: if_splits)
  next
    case (Cons x cs)
    obtain r c where x: "x = (r, c)" by (cases x)
    have "w = chunk_text q \<Longrightarrow> ?case" using units_segment [of p q "x # cs"] Cons.prems(1) by simp
    moreover have "w \<in> set (fields_loop IsSpace (chunk_text []) cs) \<Longrightarrow> ?case"
      using Cons.IH [of "p @ q @ [x]" "[]"] Cons.prems(1) by simp
    moreover have "w \<in> set (fields_loop IsSpace (chunk_text (q @ [x])) cs) \<Longrightarrow> ?case"
      using Cons.IH [of p "q @ [x]"] Cons.prems(1) by simp
    ultimately show ?case using Cons.prems(2) x by (auto split: if_splits)
  qed
  have "units w \<le> units s"
    using seg [of "[]" "[]" "utf8_chunks s"] w decodes_chunks [of s] by (simp add: Fields_def FieldsFunc_def)
  then show "units w \<le> limit" using u by simp
qed

lemma split_words_moves:
  "2 \<le> limit \<Longrightarrow> pieces_ok limit st \<Longrightarrow> gap sep \<Longrightarrow> \<forall>w \<in> set ws. solid w \<Longrightarrow> moves limit st ws (split_words limit ws sep st)"
proof (induction ws arbitrary: sep st)
  case Nil
  then show ?case by (simp add: moves_done)
next
  case (Cons word ws)
  have "solid word" using Cons.prems(4) by simp
  from cut_loop_fits [OF Cons.prems(1) this Cons.prems(2,3)]
  obtain st1 w vs where c: "cut_loop limit st word = Some (st1, w)" "pieces_ok limit (add limit w sep st1)"
    "words_in (add limit w sep st1) = words_in st @ vs" "fits limit [word] vs" .
  have "moves limit (add limit w sep st1) ws (split_words limit ws '' '' (add limit w sep st1))"
    using Cons.IH [OF Cons.prems(1) c(2)] Cons.prems(4) by (simp add: gap_def)
  then show ?case using moves_trans [OF c(2,3,4)] c(1) by simp
qed

lemma split_lines_moves:
  "2 \<le> limit \<Longrightarrow> pieces_ok limit st \<Longrightarrow> gap sep \<Longrightarrow>
     moves limit st (concat (map Fields ls)) (split_lines limit ls sep st)"
proof (induction ls arbitrary: sep st)
  case Nil
  then show ?case by (simp add: moves_done)
next
  case (Cons line ls)
  have nlg: "gap [nl]" by (simp add: gap_def)
  show ?case
  proof (cases "units line \<le> limit")
    case True
    have a: "pieces_ok limit (add limit line sep st)" "words_in (add limit line sep st) = words_in st @ Fields line"
      using add_step [OF Cons.prems(2) True Cons.prems(3)] Cons.prems(1) by simp_all
    then show ?thesis
      using moves_trans [OF a Fields_fit [OF True] Cons.IH [OF Cons.prems(1) a(1) nlg]] True by simp
  next
    case False
    have "moves limit st (Fields line) (split_words limit (Fields line) sep st)"
      using split_words_moves [OF Cons.prems] Fields_words by blast
    then obtain st1 vs where s: "split_words limit (Fields line) sep st = Some st1" "pieces_ok limit st1"
      "words_in st1 = words_in st @ vs" "fits limit (Fields line) vs" unfolding moves_def by blast
    then show ?thesis using moves_trans [OF s(2-4) Cons.IH [OF Cons.prems(1) s(2) nlg]] False by simp
  qed
qed

lemma Fields_join: "gap sep \<Longrightarrow> Fields (join sep ps) = concat (map Fields ps)"
  by (induction sep ps rule: join.induct) (simp_all add: Fields_gap)

lemma split_paragraphs_moves:
  "2 \<le> limit \<Longrightarrow> pieces_ok limit st \<Longrightarrow> moves limit st (concat (map Fields ps)) (split_paragraphs limit ps st)"
proof (induction ps arbitrary: st)
  case Nil
  then show ?case by (simp add: moves_done)
next
  case (Cons p ps)
  have g: "gap [nl, nl]" "gap [nl]" by (simp_all add: gap_def)
  show ?case
  proof (cases "units p \<le> limit")
    case True
    have a: "pieces_ok limit (add limit p [nl, nl] st)" "words_in (add limit p [nl, nl] st) = words_in st @ Fields p"
      using add_step [OF Cons.prems(2) True g(1)] Cons.prems(1) by simp_all
    then show ?thesis
      using moves_trans [OF a Fields_fit [OF True] Cons.IH [OF Cons.prems(1) a(1)]] True by simp
  next
    case False
    have "concat (map Fields (split_byte nl p)) = Fields p" using Fields_join [OF g(2)] join_split_byte by metis
    then have "moves limit st (Fields p) (split_lines limit (split_byte nl p) [nl, nl] st)"
      using split_lines_moves [OF Cons.prems g(1), of "split_byte nl p"] by simp
    then obtain st1 vs where s: "split_lines limit (split_byte nl p) [nl, nl] st = Some st1" "pieces_ok limit st1"
      "words_in st1 = words_in st @ vs" "fits limit (Fields p) vs" unfolding moves_def by blast
    then show ?thesis using moves_trans [OF s(2-4) Cons.IH [OF Cons.prems(1) s(2)]] False by simp
  qed
qed

section \<open>Properties\<close>

lemma Split_spec:
  assumes "2 \<le> limit"
  shows "\<exists>out vs. Split text limit = Some out \<and> (\<forall>p \<in> set out. p \<noteq> [] \<and> units p \<le> limit)
    \<and> concat (map Fields out) = vs \<and> fits limit (Fields text) vs"
proof -
  let ?t = "TrimSpace text"
  consider "?t = []" | "?t \<noteq> []" "units ?t \<le> limit" | "?t \<noteq> []" "limit < units ?t" by linarith
  then show ?thesis
  proof cases
    case 1
    then show ?thesis using TrimSpace_blank fits_Nil by (simp add: Split_def)
  next
    case 2
    then show ?thesis using assms Fields_fit [of ?t limit] by (simp add: Split_def Fields_TrimSpace)
  next
    case 3
    have g: "gap [nl, nl]" by (simp add: gap_def)
    have "moves limit ([], []) (concat (map Fields (split_str [nl, nl] ?t))) (split_paragraphs limit (split_str [nl, nl] ?t) ([], []))"
      using split_paragraphs_moves [OF assms] assms by (simp add: pieces_ok_def)
    moreover have "concat (map Fields (split_str [nl, nl] ?t)) = Fields text"
      using Fields_join [OF g] join_split_str [of "[nl, nl]" ?t] Fields_TrimSpace by (metis list.distinct(1))
    ultimately obtain st1 vs where s: "split_paragraphs limit (split_str [nl, nl] ?t) ([], []) = Some st1"
      "pieces_ok limit st1" "words_in st1 = vs" "fits limit (Fields text) vs"
      unfolding moves_def by (auto simp: words_in_def)
    have "concat (map Fields (fst (flush st1))) = vs" using flush_words [of st1] s(3) by (simp add: words_in_def)
    moreover have "\<forall>p \<in> set (fst (flush st1)). p \<noteq> [] \<and> units p \<le> limit"
      using flush_ok [OF _ s(2)] assms by (auto simp: pieces_ok_def)
    ultimately show ?thesis using 3 s assms by (simp add: Split_def)
  qed
qed

text \<open>
  C40: for every limit of at least two, splitting returns, whatever the bytes of the text; every message is not empty
  and within the limit; the words of the messages, in order, are the words of the text, of which only those longer
  than a whole message are cut, into pieces that put together are the word.
\<close>

theorem Split_keeps_words:
  assumes "2 \<le> limit"
  shows "\<exists>out. Split text limit = Some out \<and> list_all (\<lambda>p. p \<noteq> [] \<and> units p \<le> limit) out
    \<and> fits limit (Fields text) (concat (map Fields out)) \<and> concat (concat (map Fields out)) = concat (Fields text)"
  using Split_spec [OF assms, of "text"] fits_concat by (auto simp: list_all_iff)

theorem Split_keeps_words_witness:
  "\<exists>out. Split ''pay bob'' 4 = Some out \<and> list_all (\<lambda>p. p \<noteq> [] \<and> units p \<le> 4) out
     \<and> concat (concat (map Fields out)) = concat (Fields ''pay bob'')"
  using Split_keeps_words [of 4 "''pay bob''"] by auto

text \<open>A corollary for the links the bot sends: when every word fits, no word is ever broken.\<close>

lemma Split_breaks_no_word:
  assumes "2 \<le> limit" "\<forall>w \<in> set (Fields text). units w \<le> limit"
  shows "\<exists>out. Split text limit = Some out \<and> concat (map Fields out) = Fields text"
  using Split_spec [OF assms(1), of "text"] fits_same [OF _ assms(2)] by blast

text \<open>With a limit of one, a word that starts with a character of two units is cut into nothing, for ever.\<close>

lemma cut_loop_returns: "cut_loop limit st word = Some r \<Longrightarrow> \<not> (cut word limit = ([], word) \<and> limit < units word)"
  by (rule cut_loop.raw_induct [of "\<lambda>limit st word r. \<not> (cut word limit = ([], word) \<and> limit < units word)"])
     (auto split: if_splits)

definition grin :: string where
  "grin = map chr [240, 159, 152, 128]"

lemma grin_chunks: "utf8_chunks grin = [(128512, grin)]"
  using utf8_chunks_step [of grin "[]" 128512] by (simp add: grin_def cont_byte_def second4_def)

lemma Split_limit_one_hangs: "Split grin 1 = None"
proof -
  have c: "cut grin 1 = ([], grin)" "units grin = 2"
    by (simp_all add: cut_def grin_chunks RuneLen_def Let_def units_def runes_of_def rune_units_def)
  have g: "grin \<noteq> []" "\<not> IsSpace 128512" by (simp_all add: grin_def IsSpace_def)
  have t: "TrimSpace grin = grin" using g by (simp add: TrimSpace_def TrimFunc_def grin_chunks)
  have f: "Fields grin = [grin]" using g by (simp add: Fields_def FieldsFunc_def grin_chunks)
  have n: "nl \<notin> set grin"
  proof
    assume "nl \<in> set grin"
    then have "byte nl \<in> byte ` set grin" by blast
    then show False by (simp add: grin_def)
  qed
  have s: "split_str [nl, nl] grin = [grin]"
    using n by (auto simp: grin_def has_prefix_def)
  have "cut_loop 1 ([], []) grin = None" using cut_loop_returns [of 1 "([], [])" grin] c by (cases "cut_loop 1 ([], []) grin") auto
  then show ?thesis using c g t f n s by (simp add: Split_def split_byte_absent)
qed

end
