(* ===== verification/Egress.thy ===== *)
theory Egress
  imports Go_Strings Utf8
begin

text \<open>
  \<^verbatim>\<open>connector/egress/addr.go\<close>, \<^verbatim>\<open>connector/egress/url.go\<close> and the dialer of \<^verbatim>\<open>connector/egress/egress.go\<close>: which
  addresses and URLs the deployment reaches on an org's say-so.  An address is \<^verbatim>\<open>netip.Addr\<close>: nothing, 32 bits, or
  128 bits with a zone.  What \<^verbatim>\<open>url.Parse\<close> and \<^verbatim>\<open>netip.ParseAddr\<close> make of a text, what a resolver answers and
  whether a connection opens are arguments.  The HTTP client around the dialer is not modelled.
\<close>

section \<open>Addresses\<close>

datatype addr = NoAddr | V4 "32 word" | V6 "128 word" string

definition ip4 :: "nat \<Rightarrow> nat \<Rightarrow> nat \<Rightarrow> nat \<Rightarrow> 32 word" where
  "ip4 a b c d = of_nat (((a * 256 + b) * 256 + c) * 256 + d)"

text \<open>The leading sixteen-bit groups of an IPv6 address; the rest are zero.\<close>

definition ip6 :: "nat list \<Rightarrow> 128 word" where
  "ip6 gs = of_nat (foldl (\<lambda>acc g. acc * 65536 + g) 0 gs * 65536 ^ (8 - length gs))"

definition contains4 :: "32 word \<times> nat \<Rightarrow> 32 word \<Rightarrow> bool" where
  "contains4 p a \<longleftrightarrow> drop_bit (32 - snd p) a = drop_bit (32 - snd p) (fst p)"

definition contains6 :: "128 word \<times> nat \<Rightarrow> 128 word \<Rightarrow> bool" where
  "contains6 p a \<longleftrightarrow> drop_bit (128 - snd p) a = drop_bit (128 - snd p) (fst p)"

definition refused4 :: "(32 word \<times> nat) list" where
  "refused4 =
     [(ip4 0 0 0 0, 8), (ip4 10 0 0 0, 8), (ip4 100 64 0 0, 10), (ip4 127 0 0 0, 8), (ip4 169 254 0 0, 16),
      (ip4 172 16 0 0, 12), (ip4 192 0 0 0, 24), (ip4 192 0 2 0, 24), (ip4 192 88 99 0, 24), (ip4 192 168 0 0, 16),
      (ip4 198 18 0 0, 15), (ip4 198 51 100 0, 24), (ip4 203 0 113 0, 24), (ip4 224 0 0 0, 4), (ip4 240 0 0 0, 4)]"

definition global6 :: "128 word \<times> nat" where
  "global6 = (ip6 [0x2000], 3)"

definition refused6 :: "(128 word \<times> nat) list" where
  "refused6 =
     [(ip6 [], 128), (ip6 [0, 0, 0, 0, 0, 0, 0, 1], 128), (ip6 [], 96), (ip6 [0, 0, 0, 0, 0, 0xFFFF], 96),
      (ip6 [0x64, 0xFF9B], 96), (ip6 [0x64, 0xFF9B, 1], 48), (ip6 [0x100], 64), (ip6 [0x2001], 23), (ip6 [0x2001, 0xDB8], 32),
      (ip6 [0x2002], 16), (ip6 [0x3FFF], 20), (ip6 [0x5F00], 16), (ip6 [0xFC00], 7), (ip6 [0xFE80], 10), (ip6 [0xFEC0], 10),
      (ip6 [0xFF00], 8)]"

text \<open>\<open>Addr.Unmap\<close>, \<open>Addr.Zone\<close> and \<open>Addr.IsLoopback\<close>.\<close>

fun Unmap :: "addr \<Rightarrow> addr" where
  "Unmap (V6 w z) = (if drop_bit 32 w = 0xFFFF then V4 (ucast w) else V6 w z)"
| "Unmap a = a"

fun Zone :: "addr \<Rightarrow> string" where
  "Zone (V6 _ z) = z"
| "Zone _ = []"

fun IsLoopback :: "addr \<Rightarrow> bool" where
  "IsLoopback (V4 w) = contains4 (ip4 127 0 0 0, 8) w"
| "IsLoopback (V6 w _) = (w = 1)"
| "IsLoopback NoAddr = False"

datatype egress_error =
    NotAnAddress | NamesInterface | InRefusedRange | OutsidePublic | TooLong | Unparsable | NotHTTPS | OpaqueURL | HasUserinfo
  | BadPort | PortNotPermitted | NoHost | HostTooLong | SingleLabel | BadLabel | AddressInDisguise
  | ResolveFailed | ErrNoAddress | ConnectFailed | NoHostPort

definition checkAddr :: "addr \<Rightarrow> bool \<Rightarrow> egress_error option" where
  "checkAddr a loopbackAllowed =
     (if a = NoAddr then Some NotAnAddress
      else if Zone a \<noteq> [] then Some NamesInterface
      else let u = Unmap a
           in if loopbackAllowed \<and> IsLoopback u then None
              else case u of
                  V4 w \<Rightarrow> if list_ex (\<lambda>r. contains4 r w) refused4 then Some InRefusedRange else None
                | V6 w _ \<Rightarrow>
                    if list_ex (\<lambda>r. contains6 r w) refused6 then Some InRefusedRange
                    else if \<not> contains6 global6 w then Some OutsidePublic else None
                | NoAddr \<Rightarrow> None)"

definition CheckAddr :: "addr \<Rightarrow> egress_error option" where
  "CheckAddr a = checkAddr a False"

section \<open>URLs\<close>

record policy =
  ports :: "nat list"
  relaxed :: bool

definition portAllowed :: "policy \<Rightarrow> nat \<Rightarrow> bool" where
  "portAllowed p port \<longleftrightarrow> relaxed p \<or> port \<in> set (ports p)"

definition maxURLLength :: nat where "maxURLLength = 2048"
definition defaultPort :: nat where "defaultPort = 443"

text \<open>The parts of a \<^verbatim>\<open>url.URL\<close> the checks look at.\<close>

record url =
  Scheme :: string
  Opaque :: string
  has_user :: bool
  Port_text :: string
  Hostname :: string

definition validLabel :: "string \<Rightarrow> bool" where
  "validLabel s =
     (if s = [] \<or> length s > 63 \<or> hd s = CHR ''-'' \<or> last s = CHR ''-'' then False
      else list_all (\<lambda>c. (97 \<le> byte c \<and> byte c \<le> 122) \<or> is_digit c \<or> c = CHR ''-'') s)"

definition numeric :: "string \<Rightarrow> bool" where
  "numeric label =
     (if has_prefix label ''0x''
      then list_all (\<lambda>c. is_digit c \<or> (97 \<le> byte c \<and> byte c \<le> 102)) (drop 2 label)
      else list_all is_digit label)"

definition checkHost :: "unicode_tables \<Rightarrow> (string \<Rightarrow> addr option) \<Rightarrow> string \<Rightarrow> policy \<Rightarrow> egress_error option" where
  "checkHost U parse_addr host p =
     (if host = [] then Some NoHost
      else case parse_addr host of
          Some a \<Rightarrow> checkAddr a (relaxed p)
        | None \<Rightarrow>
            if length host > 253 then Some HostTooLong
            else let labels = split_byte (CHR ''.'') (ToLower U host)
                 in if length labels < 2 then Some SingleLabel
                    else if \<not> list_all validLabel labels then Some BadLabel
                    else if numeric (last labels) then Some AddressInDisguise else None)"

definition checkURL :: "unicode_tables \<Rightarrow> (string \<Rightarrow> addr option) \<Rightarrow> url \<Rightarrow> policy \<Rightarrow> egress_error option" where
  "checkURL U parse_addr u p =
     (if Scheme u \<noteq> ''https'' then Some NotHTTPS
      else if Opaque u \<noteq> [] then Some OpaqueURL
      else if has_user u then Some HasUserinfo
      else case (if Port_text u = [] then Some defaultPort
                 else case parse_uint (Port_text u) of
                     Inl _ \<Rightarrow> None
                   | Inr n \<Rightarrow> if n > 65535 \<or> n = 0 then None else Some n) of
          None \<Rightarrow> Some BadPort
        | Some port \<Rightarrow>
            if \<not> portAllowed p port then Some PortNotPermitted
            else checkHost U parse_addr (Hostname u) p)"

definition checkRawURL ::
  "unicode_tables \<Rightarrow> (string \<Rightarrow> url option) \<Rightarrow> (string \<Rightarrow> addr option) \<Rightarrow> string \<Rightarrow> policy \<Rightarrow> egress_error option" where
  "checkRawURL U parse_url parse_addr raw p =
     (if length raw > maxURLLength then Some TooLong
      else case parse_url raw of None \<Rightarrow> Some Unparsable | Some u \<Rightarrow> checkURL U parse_addr u p)"

definition ValidateURL ::
  "unicode_tables \<Rightarrow> (string \<Rightarrow> url option) \<Rightarrow> (string \<Rightarrow> addr option) \<Rightarrow> string \<Rightarrow> egress_error option" where
  "ValidateURL U parse_url parse_addr raw = checkRawURL U parse_url parse_addr raw \<lparr>ports = [defaultPort], relaxed = False\<rparr>"

section \<open>The dialer\<close>

definition maxDialAttempts :: nat where "maxDialAttempts = 4"

text \<open>The answers of the one lookup, a literal answering for itself.\<close>

definition resolve ::
  "(string \<Rightarrow> addr option) \<Rightarrow> (string \<Rightarrow> addr list option) \<Rightarrow> string \<Rightarrow> egress_error + addr list" where
  "resolve parse_addr look host =
     (case parse_addr host of
        Some a \<Rightarrow> Inr [Unmap a]
      | None \<Rightarrow>
          (case look host of
             None \<Rightarrow> Inl ResolveFailed
           | Some found \<Rightarrow> if found = [] then Inl ErrNoAddress else Inr (map Unmap found)))"

fun check_all :: "addr list \<Rightarrow> bool \<Rightarrow> egress_error option" where
  "check_all [] loopbackAllowed = None"
| "check_all (a # as1) loopbackAllowed =
     (case checkAddr a loopbackAllowed of Some e \<Rightarrow> Some e | None \<Rightarrow> check_all as1 loopbackAllowed)"

text \<open>Trying one address after the other: the connection, if any, and every address dialled.\<close>

fun try_dial :: "(addr \<Rightarrow> nat \<Rightarrow> 'conn option) \<Rightarrow> nat \<Rightarrow> addr list \<Rightarrow> 'conn option \<times> addr list" where
  "try_dial dial port [] = (None, [])"
| "try_dial dial port (a # as1) =
     (case dial a port of
        Some c \<Rightarrow> (Some c, [a])
      | None \<Rightarrow> (case try_dial dial port as1 of (r, t) \<Rightarrow> (r, a # t)))"

text \<open>\<open>net.SplitHostPort\<close>.\<close>

definition SplitHostPort :: "string \<Rightarrow> (string \<times> string) option" where
  "SplitHostPort s =
     (case cut_byte (CHR '':'') (rev s) of (rport, rbefore, found) \<Rightarrow>
        if \<not> found then None
        else if has_prefix s ''[''
        then (case cut_byte (CHR '']'') s of (inner, _, closed) \<Rightarrow>
               if \<not> closed \<or> length inner + 1 \<noteq> length rbefore then None
               else if CHR ''['' \<in> set (drop 1 s) \<or> CHR '']'' \<in> set (drop (length inner + 1) s) then None
               else Some (tl inner, rev rport))
        else if CHR '':'' \<in> set rbefore \<or> CHR ''['' \<in> set s \<or> CHR '']'' \<in> set s then None
        else Some (rev rbefore, rev rport))"

text \<open>The whole of \<open>dialContext\<close>, with the addresses that were dialled.\<close>

definition dialContext ::
  "policy \<Rightarrow> (string \<Rightarrow> addr option) \<Rightarrow> (string \<Rightarrow> addr list option) \<Rightarrow> (addr \<Rightarrow> nat \<Rightarrow> 'conn option) \<Rightarrow> string
   \<Rightarrow> (egress_error + 'conn) \<times> addr list" where
  "dialContext p parse_addr look dial address =
     (case SplitHostPort address of
        None \<Rightarrow> (Inl NoHostPort, [])
      | Some (host, portText) \<Rightarrow>
     (case parse_uint portText of
        Inl _ \<Rightarrow> (Inl PortNotPermitted, [])
      | Inr n \<Rightarrow>
          if n > 65535 \<or> \<not> portAllowed p n then (Inl PortNotPermitted, [])
          else (case resolve parse_addr look host of
              Inl e \<Rightarrow> (Inl e, [])
            | Inr addrs \<Rightarrow>
                (case check_all addrs (relaxed p) of
                   Some e \<Rightarrow> (Inl e, [])
                 | None \<Rightarrow>
                     (case try_dial dial n (take maxDialAttempts addrs) of
                        (Some c, t) \<Rightarrow> (Inr c, t)
                      | (None, t) \<Rightarrow> (Inl ConnectFailed, t))))))"

text \<open>The check at the socket, on the address the kernel is about to be given.\<close>

definition control :: "policy \<Rightarrow> (string \<Rightarrow> addr option) \<Rightarrow> string \<Rightarrow> egress_error option" where
  "control p parse_addr_port address =
     (case parse_addr_port address of None \<Rightarrow> Some NotAnAddress | Some a \<Rightarrow> checkAddr a (relaxed p))"

section \<open>The reference: public addresses by their octets and groups\<close>

definition public4 :: "nat \<Rightarrow> nat \<Rightarrow> nat \<Rightarrow> bool" where
  "public4 a b c \<longleftrightarrow>
     \<not> (a = 0 \<or> a = 10 \<or> (a = 100 \<and> 64 \<le> b \<and> b < 128) \<or> a = 127 \<or> (a = 169 \<and> b = 254) \<or> (a = 172 \<and> 16 \<le> b \<and> b < 32)
       \<or> (a = 192 \<and> b = 0 \<and> c = 0) \<or> (a = 192 \<and> b = 0 \<and> c = 2) \<or> (a = 192 \<and> b = 88 \<and> c = 99) \<or> (a = 192 \<and> b = 168)
       \<or> (a = 198 \<and> 18 \<le> b \<and> b < 20) \<or> (a = 198 \<and> b = 51 \<and> c = 100) \<or> (a = 203 \<and> b = 0 \<and> c = 113) \<or> 224 \<le> a)"

definition public6 :: "nat \<Rightarrow> nat \<Rightarrow> bool" where
  "public6 a b \<longleftrightarrow> 0x2000 \<le> a \<and> a \<le> 0x3FFF \<and> a \<noteq> 0x2002 \<and> \<not> (a = 0x2001 \<and> (b < 0x200 \<or> b = 0xDB8))
     \<and> \<not> (a = 0x3FFF \<and> b < 0x1000)"

text \<open>An address is public when it names no interface and its octets (or, for IPv6, its first two groups) are public; an
  IPv4 address written as an IPv6 one is judged by its octets.\<close>

definition octet :: "nat \<Rightarrow> nat \<Rightarrow> nat" where
  "octet n i = n div 256 ^ i mod 256"

fun publicly_routable :: "addr \<Rightarrow> bool" where
  "publicly_routable NoAddr = False"
| "publicly_routable (V4 w) = public4 (octet (unat w) 3) (octet (unat w) 2) (octet (unat w) 1)"
| "publicly_routable (V6 w z) =
     (z = [] \<and>
      (if unat w div 2 ^ 32 = 0xFFFF
       then public4 (octet (unat w) 3) (octet (unat w) 2) (octet (unat w) 1)
       else public6 (unat w div 2 ^ 112) (unat w div 2 ^ 96 mod 65536)))"

fun loopback :: "addr \<Rightarrow> bool" where
  "loopback NoAddr = False"
| "loopback (V4 w) = (octet (unat w) 3 = 127)"
| "loopback (V6 w z) = (z = [] \<and> (unat w = 1 \<or> unat w div 2 ^ 32 = 0xFFFF \<and> octet (unat w) 3 = 127))"

section \<open>Prefixes as ranges of octets\<close>

lemma contains4_iff: "n \<le> 32 \<Longrightarrow> contains4 (net, n) a \<longleftrightarrow> unat a div 2 ^ (32 - n) = unat net div 2 ^ (32 - n)"
  unfolding contains4_def word_unat_eq_iff unat_drop_bit_eq fst_conv snd_conv by (simp only: drop_bit_eq_div)

lemma contains6_iff: "n \<le> 128 \<Longrightarrow> contains6 (net, n) a \<longleftrightarrow> unat a div 2 ^ (128 - n) = unat net div 2 ^ (128 - n)"
  unfolding contains6_def word_unat_eq_iff unat_drop_bit_eq fst_conv snd_conv by (simp only: drop_bit_eq_div)

lemma base_eq: "(b::nat) < k \<Longrightarrow> y < k \<Longrightarrow> a * k + b = x * k + y \<longleftrightarrow> a = x \<and> b = y"
proof
  assume l: "b < k" "y < k" and e: "a * k + b = x * k + y"
  have "(a * k + b) div k = a" "(x * k + y) div k = x" using l by simp_all
  then show "a = x \<and> b = y" using e by simp
qed simp

lemma base_div:
  assumes "(b::nat) < m * k" "y < k" "0 < m"
  shows "(a * (m * k) + b) div m = x * k + y \<longleftrightarrow> a = x \<and> y * m \<le> b \<and> b < Suc y * m"
proof -
  have e: "a * (m * k) + b = b + m * (a * k)" by (simp add: algebra_simps)
  have "(a * (m * k) + b) div m = a * k + b div m" unfolding e using div_mult_self2 [of m b "a * k"] assms(3) by simp
  moreover have "b div m < k" using assms(1) by (simp add: less_mult_imp_div_less mult.commute)
  moreover have "b div m = y \<longleftrightarrow> y * m \<le> b \<and> b < Suc y * m"
    using assms(3) by (metis div_nat_eqI less_mult_imp_div_less div_le_mono dividend_less_div_times mult.commute nonzero_mult_div_cancel_left not_less_eq order.asym less_or_eq_imp_le linorder_neqE_nat mult_Suc mult_Suc_right not_less times_div_less_eq_dividend)
  ultimately show ?thesis using base_eq [OF _ assms(2), of "b div m" a x] by simp
qed

lemma unat_ip4: "a < 256 \<Longrightarrow> b < 256 \<Longrightarrow> c < 256 \<Longrightarrow> d < 256 \<Longrightarrow> unat (ip4 a b c d) = ((a * 256 + b) * 256 + c) * 256 + d"
  unfolding ip4_def unat_of_nat by (simp add: take_bit_eq_mod)

lemma octets:
  fixes n a b c d :: nat
  assumes "n = ((a * 256 + b) * 256 + c) * 256 + d" "b < 256" "c < 256" "d < 256"
  shows "n div 16777216 = a" "n div 65536 = a * 256 + b" "n div 256 = (a * 256 + b) * 256 + c"
    "n div 4194304 = (a * 256 + b) div 64" "n div 1048576 = (a * 256 + b) div 16" "n div 131072 = (a * 256 + b) div 2"
    "n div 268435456 = a div 16"
proof -
  show 8: "n div 256 = (a * 256 + b) * 256 + c" using assms by simp
  have "n div 65536 = n div 256 div 256" by (simp add: div_mult2_eq [symmetric])
  then show 16: "n div 65536 = a * 256 + b" using 8 assms by simp
  have "n div 16777216 = n div 65536 div 256" by (simp add: div_mult2_eq [symmetric])
  then show 24: "n div 16777216 = a" using 16 assms by simp
  have "n div 4194304 = n div 65536 div 64" "n div 1048576 = n div 65536 div 16" "n div 131072 = n div 65536 div 2" "n div 268435456 = n div 16777216 div 16"
    by (simp_all add: div_mult2_eq [symmetric])
  then show "n div 4194304 = (a * 256 + b) div 64" "n div 1048576 = (a * 256 + b) div 16" "n div 131072 = (a * 256 + b) div 2"
    "n div 268435456 = a div 16" by (simp_all only: 16 24)
qed

lemma refused4_octets:
  assumes "n = ((a * 256 + b) * 256 + c) * 256 + d" "a < 256" "b < 256" "c < 256" "d < 256" "unat (w :: 32 word) = n"
  shows "list_ex (\<lambda>r. contains4 r w) refused4 \<longleftrightarrow> \<not> public4 a b c"
proof -
  note o = octets [OF assms(1,3-5)]
  have two: "y < 256 \<Longrightarrow> a * 256 + b = x * 256 + y \<longleftrightarrow> a = x \<and> b = y" for x y
    by (rule base_eq [OF assms(3)])
  have three: "y < 256 \<Longrightarrow> z < 256 \<Longrightarrow> (a * 256 + b) * 256 + c = (x * 256 + y) * 256 + z \<longleftrightarrow> a = x \<and> b = y \<and> c = z" for x y z
    by (simp only: base_eq [OF assms(4)] two conj_assoc)
  have c4: "contains4 (ip4 i j k l, m) w \<longleftrightarrow> n div 2 ^ (32 - m) = (((i * 256 + j) * 256 + k) * 256 + l) div 2 ^ (32 - m)"
    if "m \<le> 32" "i < 256" "j < 256" "k < 256" "l < 256" for i j k l m
    unfolding contains4_iff [OF that(1)] assms(6) unat_ip4 [OF that(2-5)] ..
  have q0: "contains4 (ip4 0 0 0 0, 8) w \<longleftrightarrow> a = 0"
    by (simp add: c4 o)
  have q1: "contains4 (ip4 10 0 0 0, 8) w \<longleftrightarrow> a = 10"
    by (simp add: c4 o)
  have q2: "contains4 (ip4 127 0 0 0, 8) w \<longleftrightarrow> a = 127"
    by (simp add: c4 o)
  have q3: "contains4 (ip4 100 64 0 0, 10) w \<longleftrightarrow> (a * 256 + b) div 64 = 401"
    by (simp add: c4 o)
  have q4: "contains4 (ip4 169 254 0 0, 16) w \<longleftrightarrow> a * 256 + b = 169 * 256 + 254"
    by (simp add: c4 o)
  have q5: "contains4 (ip4 172 16 0 0, 12) w \<longleftrightarrow> (a * 256 + b) div 16 = 2753"
    by (simp add: c4 o)
  have q6: "contains4 (ip4 192 0 0 0, 24) w \<longleftrightarrow> (a * 256 + b) * 256 + c = (192 * 256 + 0) * 256 + 0"
    by (simp add: c4 o)
  have q7: "contains4 (ip4 192 0 2 0, 24) w \<longleftrightarrow> (a * 256 + b) * 256 + c = (192 * 256 + 0) * 256 + 2"
    by (simp add: c4 o)
  have q8: "contains4 (ip4 192 88 99 0, 24) w \<longleftrightarrow> (a * 256 + b) * 256 + c = (192 * 256 + 88) * 256 + 99"
    by (simp add: c4 o)
  have q9: "contains4 (ip4 192 168 0 0, 16) w \<longleftrightarrow> a * 256 + b = 192 * 256 + 168"
    by (simp add: c4 o)
  have q10: "contains4 (ip4 198 18 0 0, 15) w \<longleftrightarrow> (a * 256 + b) div 2 = 25353"
    by (simp add: c4 o)
  have q11: "contains4 (ip4 198 51 100 0, 24) w \<longleftrightarrow> (a * 256 + b) * 256 + c = (198 * 256 + 51) * 256 + 100"
    by (simp add: c4 o)
  have q12: "contains4 (ip4 203 0 113 0, 24) w \<longleftrightarrow> (a * 256 + b) * 256 + c = (203 * 256 + 0) * 256 + 113"
    by (simp add: c4 o)
  have q13: "contains4 (ip4 224 0 0 0, 4) w \<longleftrightarrow> a div 16 = 14"
    by (simp add: c4 o)
  have q14: "contains4 (ip4 240 0 0 0, 4) w \<longleftrightarrow> a div 16 = 15"
    by (simp add: c4 o)
  note cs = q0 q1 q2 q3 q4 q5 q6 q7 q8 q9 q10 q11 q12 q13 q14
  have ds: "(a * 256 + b) div 64 = 401 \<longleftrightarrow> a = 100 \<and> 64 \<le> b \<and> b < 128"
    "(a * 256 + b) div 16 = 2753 \<longleftrightarrow> a = 172 \<and> 16 \<le> b \<and> b < 32"
    "(a * 256 + b) div 2 = 25353 \<longleftrightarrow> a = 198 \<and> 18 \<le> b \<and> b < 20"
    using base_div [of b 64 4 1 a 100] base_div [of b 16 16 1 a 172] base_div [of b 2 128 9 a 198] assms(3) by simp_all
  have hi: "a div 16 = 14 \<or> a div 16 = 15 \<longleftrightarrow> 224 \<le> a" using assms(2) by auto
  have tw: "a * 256 + b = 169 * 256 + 254 \<longleftrightarrow> a = 169 \<and> b = 254" "a * 256 + b = 192 * 256 + 168 \<longleftrightarrow> a = 192 \<and> b = 168"
    by (rule two; simp)+
  have th: "(a * 256 + b) * 256 + c = (192 * 256 + 0) * 256 + 0 \<longleftrightarrow> a = 192 \<and> b = 0 \<and> c = 0"
    "(a * 256 + b) * 256 + c = (192 * 256 + 0) * 256 + 2 \<longleftrightarrow> a = 192 \<and> b = 0 \<and> c = 2"
    "(a * 256 + b) * 256 + c = (192 * 256 + 88) * 256 + 99 \<longleftrightarrow> a = 192 \<and> b = 88 \<and> c = 99"
    "(a * 256 + b) * 256 + c = (198 * 256 + 51) * 256 + 100 \<longleftrightarrow> a = 198 \<and> b = 51 \<and> c = 100"
    "(a * 256 + b) * 256 + c = (203 * 256 + 0) * 256 + 113 \<longleftrightarrow> a = 203 \<and> b = 0 \<and> c = 113"
    by (rule three; simp)+
  have e: "list_ex P refused4 \<longleftrightarrow> P (ip4 0 0 0 0, 8) \<or> P (ip4 10 0 0 0, 8) \<or> P (ip4 100 64 0 0, 10) \<or> P (ip4 127 0 0 0, 8)
    \<or> P (ip4 169 254 0 0, 16) \<or> P (ip4 172 16 0 0, 12) \<or> P (ip4 192 0 0 0, 24) \<or> P (ip4 192 0 2 0, 24) \<or> P (ip4 192 88 99 0, 24)
    \<or> P (ip4 192 168 0 0, 16) \<or> P (ip4 198 18 0 0, 15) \<or> P (ip4 198 51 100 0, 24) \<or> P (ip4 203 0 113 0, 24)
    \<or> P (ip4 224 0 0 0, 4) \<or> P (ip4 240 0 0 0, 4)" for P
    by (simp add: refused4_def)
  show ?thesis unfolding public4_def e cs ds hi tw th not_not ..
qed

lemma unat_ip6:
  "foldl (\<lambda>acc g. acc * 65536 + g) 0 gs * 65536 ^ (8 - length gs) < 2 ^ 128 \<Longrightarrow>
     unat (ip6 gs) = foldl (\<lambda>acc g. acc * 65536 + g) 0 gs * 65536 ^ (8 - length gs)"
  unfolding ip6_def unat_of_nat by (simp add: take_bit_eq_mod)

lemma contains6_leading:
  assumes "contains6 (net, k) w" "16 \<le> k" "k \<le> 128"
  shows "unat w div 2 ^ 112 = unat net div 2 ^ 112"
proof -
  have e: "(2::nat) ^ 112 = 2 ^ (128 - k) * 2 ^ (k - 16)" using assms(2,3) by (simp flip: power_add)
  show ?thesis unfolding e div_mult2_eq using assms(1) contains6_iff [OF assms(3)] by simp
qed

lemma hextets:
  fixes n a b r :: nat
  assumes "n = (a * 65536 + b) * 2 ^ 96 + r" "b < 65536" "r < 2 ^ 96"
  shows "n div 2 ^ 112 = a" "n div 2 ^ 96 = a * 65536 + b" "n div 2 ^ 105 = (a * 65536 + b) div 512"
    "n div 2 ^ 108 = (a * 65536 + b) div 4096" "n div 2 ^ 125 = a div 8192" "n div 2 ^ 121 = a div 512"
    "n div 2 ^ 118 = a div 64" "n div 2 ^ 120 = a div 256"
proof -
  have sp: "n div 2 ^ (i + j) = n div 2 ^ i div 2 ^ j" for i j by (simp only: power_add div_mult2_eq)
  show 96: "n div 2 ^ 96 = a * 65536 + b" using assms by simp
  then show 112: "n div 2 ^ 112 = a" using sp [of 96 16] assms(2) by simp
  show "n div 2 ^ 105 = (a * 65536 + b) div 512" "n div 2 ^ 108 = (a * 65536 + b) div 4096"
    using 96 sp [of 96 9] sp [of 96 12] by simp_all
  show "n div 2 ^ 125 = a div 8192" "n div 2 ^ 121 = a div 512" "n div 2 ^ 118 = a div 64" "n div 2 ^ 120 = a div 256"
    using sp [of 112 13] sp [of 112 9] sp [of 112 6] sp [of 112 8] unfolding 112 by simp_all
qed

lemma accepted6_hextets:
  assumes n: "n = (a * 65536 + b) * 2 ^ 96 + r" "a < 65536" "b < 65536" "r < 2 ^ 96" "unat (w :: 128 word) = n"
  shows "\<not> list_ex (\<lambda>p. contains6 p w) refused6 \<and> contains6 global6 w \<longleftrightarrow> public6 a b"
proof -
  note h = hextets [OF n(1,3,4)]
  note hn = h [simplified]
  have g: "contains6 global6 w \<longleftrightarrow> a div 8192 = 1"
    using h(5) n(5) contains6_iff [of 3 "ip6 [0x2000]" w] unat_ip6 [of "[0x2000]"] by (simp add: global6_def)
  have lead: "\<not> contains6 (ip6 gs, k) w"
    if "16 \<le> k" "k \<le> 128" "foldl (\<lambda>acc g. acc * 65536 + g) 0 gs * 65536 ^ (8 - length gs) < 2 ^ 128"
      "a \<noteq> (foldl (\<lambda>acc g. acc * 65536 + g) 0 gs * 65536 ^ (8 - length gs)) div 2 ^ 112" for k gs
    using contains6_leading [OF _ that(1,2)] h(1) n(5) unat_ip6 [OF that(3)] that(4) by auto
  have c6: "contains6 (ip6 gs, k) w \<longleftrightarrow> n div 2 ^ (128 - k) = (foldl (\<lambda>acc g. acc * 65536 + g) 0 gs * 65536 ^ (8 - length gs)) div 2 ^ (128 - k)"
    if "k \<le> 128" "foldl (\<lambda>acc g. acc * 65536 + g) 0 gs * 65536 ^ (8 - length gs) < 2 ^ 128" for gs k
    unfolding contains6_iff [OF that(1)] n(5) unat_ip6 [OF that(2)] ..
  have p0: "contains6 (ip6 [0x2001], 23) w \<longleftrightarrow> (a * 65536 + b) div 512 = 0x2001 * 128"
    by (simp add: c6 hn)
  have p1: "contains6 (ip6 [0x2001, 0xDB8], 32) w \<longleftrightarrow> a * 65536 + b = 0x2001 * 65536 + 0xDB8"
    by (simp add: c6 hn)
  have p2: "contains6 (ip6 [0x2002], 16) w \<longleftrightarrow> a = 0x2002"
    by (simp add: c6 hn)
  have p3: "contains6 (ip6 [0x3FFF], 20) w \<longleftrightarrow> (a * 65536 + b) div 4096 = 0x3FFF * 16"
    by (simp add: c6 hn)
  have p4: "contains6 (ip6 [0xFC00], 7) w \<longleftrightarrow> a div 512 = 126"
    by (simp add: c6 hn)
  have p5: "contains6 (ip6 [0xFE80], 10) w \<longleftrightarrow> a div 64 = 1018"
    by (simp add: c6 hn)
  have p6: "contains6 (ip6 [0xFEC0], 10) w \<longleftrightarrow> a div 64 = 1019"
    by (simp add: c6 hn)
  have p7: "contains6 (ip6 [0xFF00], 8) w \<longleftrightarrow> a div 256 = 255"
    by (simp add: c6 hn)
  note sp = p0 p1 p2 p3 p4 p5 p6 p7
  show ?thesis
  proof (cases "a div 8192 = 1")
    case True
    have ne: "a \<noteq> 0" "a \<noteq> 0x64" "a \<noteq> 0x100" "a \<noteq> 0x5F00" using True by auto
    have out: "\<not> contains6 (ip6 [], 128) w" "\<not> contains6 (ip6 [0, 0, 0, 0, 0, 0, 0, 1], 128) w" "\<not> contains6 (ip6 [], 96) w"
      "\<not> contains6 (ip6 [0, 0, 0, 0, 0, 0xFFFF], 96) w" "\<not> contains6 (ip6 [0x64, 0xFF9B], 96) w"
      "\<not> contains6 (ip6 [0x64, 0xFF9B, 1], 48) w" "\<not> contains6 (ip6 [0x100], 64) w" "\<not> contains6 (ip6 [0x5F00], 16) w"
      by (rule lead; simp add: ne)+
    have hi: "a div 512 \<noteq> 126" "a div 64 \<noteq> 1018" "a div 64 \<noteq> 1019" "a div 256 \<noteq> 255" using True by auto
    have "(a * 65536 + b) div 512 = 0x2001 * 128 \<longleftrightarrow> a = 0x2001 \<and> b < 512"
      using base_div [of b 512 128 0 a "0x2001"] n(3) by simp
    moreover have "a * 65536 + b = 0x2001 * 65536 + 0xDB8 \<longleftrightarrow> a = 0x2001 \<and> b = 0xDB8"
      using base_eq [OF n(3), of "0xDB8" a "0x2001"] by simp
    moreover have "(a * 65536 + b) div 4096 = 0x3FFF * 16 \<longleftrightarrow> a = 0x3FFF \<and> b < 4096"
      using base_div [of b 4096 16 0 a "0x3FFF"] n(3) by simp
    moreover have "0x2000 \<le> a \<and> a \<le> 0x3FFF" using True by auto
    ultimately show ?thesis using True out hi sp g unfolding refused6_def public6_def by (simp del: One_nat_def) blast
  next
    case False
    then have "\<not> (0x2000 \<le> a \<and> a \<le> 0x3FFF)" by auto
    then show ?thesis using False g unfolding public6_def by blast
  qed
qed

section \<open>What is dialled\<close>

lemma unat_bound: "unat (w :: 'a::len word) < 2 ^ LENGTH('a)"
  by (rule unsigned_less)

lemma octets_of:
  fixes n :: nat
  assumes "n < 2 ^ 32"
  shows "n = ((octet n 3 * 256 + octet n 2) * 256 + octet n 1) * 256 + octet n 0"
proof -
  have "n div 16777216 < 256" using assms by (simp add: less_mult_imp_div_less)
  then have "octet n 3 = n div 16777216" by (simp add: octet_def)
  moreover have "n div 65536 = n div 16777216 * 256 + octet n 2" "n div 256 = n div 65536 * 256 + octet n 1" "n = n div 256 * 256 + octet n 0"
    using div_mult_mod_eq [of "n div 65536" 256] div_mult_mod_eq [of "n div 256" 256] div_mult_mod_eq [of n 256]
    by (simp_all add: octet_def div_mult2_eq [symmetric])
  ultimately show ?thesis by simp
qed

lemma octet_less [simp]: "octet n i < 256"
  by (simp add: octet_def)

lemma refused4_word: "list_ex (\<lambda>r. contains4 r w) refused4 \<longleftrightarrow> \<not> public4 (octet (unat w) 3) (octet (unat w) 2) (octet (unat w) 1)"
  by (rule refused4_octets [OF octets_of]) (use unat_bound [of w] in simp_all)

lemma accepted6_word:
  "\<not> list_ex (\<lambda>p. contains6 p w) refused6 \<and> contains6 global6 w \<longleftrightarrow> public6 (unat w div 2 ^ 112) (unat w div 2 ^ 96 mod 65536)"
proof (rule accepted6_hextets [where r = "unat w mod 2 ^ 96" and n = "unat w"])
  have "unat w div 2 ^ 96 = unat w div 2 ^ 112 * 65536 + unat w div 2 ^ 96 mod 65536"
    using div_mult_mod_eq [of "unat w div 2 ^ 96" 65536] by (simp add: div_mult2_eq [symmetric])
  then show "unat w = (unat w div 2 ^ 112 * 65536 + unat w div 2 ^ 96 mod 65536) * 2 ^ 96 + unat w mod 2 ^ 96"
    using div_mult_mod_eq [of "unat w" "2 ^ 96"] by simp
  show "unat w div 2 ^ 112 < 65536"
    using unat_bound [of w] by (intro less_mult_imp_div_less) simp
qed simp_all

lemma mapped_iff: "drop_bit 32 (w :: 128 word) = 0xFFFF \<longleftrightarrow> unat w div 2 ^ 32 = 0xFFFF"
  unfolding word_unat_eq_iff unat_drop_bit_eq by (simp add: drop_bit_eq_div)

lemma octet_ucast: "unat (ucast (w :: 128 word) :: 32 word) = unat w mod 2 ^ 32"
  by (simp add: unsigned_ucast_eq take_bit_eq_mod)

lemma octet_mod: "i < 4 \<Longrightarrow> octet (n mod 2 ^ 32) i = octet n i"
proof -
  assume "i < 4"
  then have e: "(2::nat) ^ 32 = 256 ^ i * (256 * 256 ^ (3 - i))" by (simp flip: power_Suc power_add)
  show ?thesis unfolding octet_def e mod_mult2_eq [of n "256 ^ i"] by (simp add: mod_mod_cancel)
qed

lemma loopback4: "contains4 (ip4 127 0 0 0, 8) w \<longleftrightarrow> octet (unat w) 3 = 127"
proof -
  have "unat w div 16777216 < 256" using unat_bound [of w] by (intro less_mult_imp_div_less) simp
  then show ?thesis by (simp add: contains4_iff unat_ip4 octet_def)
qed

lemma checkAddr_None: "checkAddr a l = None \<longleftrightarrow> publicly_routable a \<or> (l \<and> loopback a)"
proof (cases a)
  case NoAddr
  then show ?thesis by (simp add: checkAddr_def)
next
  case (V4 w)
  then show ?thesis by (simp add: checkAddr_def loopback4 refused4_word)
next
  case (V6 w z)
  have one: "w = 1 \<longleftrightarrow> unat w = 1" by (simp add: word_unat_eq_iff)
  show ?thesis
  proof (cases "unat w div 2 ^ 32 = 0xFFFF")
    case True
    then have "unat w \<noteq> 1" by auto
    with True show ?thesis
      unfolding V6 checkAddr_def Let_def Zone.simps Unmap.simps mapped_iff publicly_routable.simps loopback.simps
      by (simp add: loopback4 refused4_word octet_ucast octet_mod [simplified])
  next
    case False
    then show ?thesis using accepted6_word [of w]
      unfolding V6 checkAddr_def Let_def Zone.simps Unmap.simps mapped_iff publicly_routable.simps loopback.simps
      by (auto simp: one)
  qed
qed

lemma check_all_None: "check_all as1 l = None \<longleftrightarrow> (\<forall>a \<in> set as1. checkAddr a l = None)"
  by (induction as1) (auto split: option.splits)

lemma try_dial_prefix:
  "try_dial dial port as1 = (r, t) \<Longrightarrow>
     prefix t as1 \<and> (\<forall>c. r = Some c \<longrightarrow> t \<noteq> [] \<and> dial (last t) port = Some c) \<and> (r = None \<longrightarrow> t = as1)"
  by (induction as1 arbitrary: r t) (force split: option.splits prod.splits)+

lemma resolve_answers:
  "resolve parse_addr look host = Inr addrs \<Longrightarrow>
     (\<exists>a. parse_addr host = Some a \<and> addrs = [Unmap a]) \<or>
     parse_addr host = None \<and> (\<exists>found. look host = Some found \<and> found \<noteq> [] \<and> addrs = map Unmap found)"
  by (auto simp: resolve_def split: option.splits if_splits)

lemma dialContext_cases:
  assumes "dialContext p parse_addr look dial address = (r, tried)" "\<not> relaxed p"
  obtains (none) "tried = []" "\<forall>c. r \<noteq> Inr c"
    | (go) host portText n addrs res where "SplitHostPort address = Some (host, portText)" "n \<in> set (ports p)"
        "resolve parse_addr look host = Inr addrs" "\<forall>a \<in> set addrs. publicly_routable a"
        "try_dial dial n (take 4 addrs) = (res, tried)" "r = (case res of Some c \<Rightarrow> Inr c | None \<Rightarrow> Inl ConnectFailed)"
  using assms
  by (auto simp: dialContext_def portAllowed_def maxDialAttempts_def check_all_None checkAddr_None
      split: option.splits sum.splits if_splits prod.splits)

lemma tried_subset:
  assumes "try_dial dial n (take 4 addrs) = (res, tried)"
  shows "set tried \<subseteq> set addrs" "length tried \<le> 4"
proof -
  have p: "prefix tried (take 4 addrs)" using try_dial_prefix [OF assms] by blast
  show "set tried \<subseteq> set addrs" using set_mono_prefix [OF p] set_take_subset [of 4 addrs] by blast
  show "length tried \<le> 4" using prefix_length_le [OF p] by simp
qed

text \<open>
  The two tables of prefixes \<open>checkAddr\<close> searches are the ranges one would write down by octets and groups.
\<close>

theorem CheckAddr_public:
  "(CheckAddr a = None \<longleftrightarrow> publicly_routable a) \<and> (checkAddr a True = None \<longleftrightarrow> publicly_routable a \<or> loopback a)"
  by (simp add: CheckAddr_def checkAddr_None)

text \<open>
  C37: whatever a resolver answers, every address a client that is not relaxed dials is public and is one of the answers
  of the single lookup (or the literal the address names); one answer that is not public stops the dial before any
  connection; at most four addresses are tried; and a connection that is returned is one opened, on a permitted port, to the
  last address tried.
\<close>

theorem dialContext_public:
  assumes "dialContext p parse_addr look dial address = (r, tried)" and "\<not> relaxed p"
  shows "length tried \<le> 4 \<and>
    (\<forall>x \<in> set tried. publicly_routable x \<and>
       (\<exists>host portText addrs. SplitHostPort address = Some (host, portText) \<and> resolve parse_addr look host = Inr addrs \<and> x \<in> set addrs)) \<and>
    (\<forall>host portText addrs. SplitHostPort address = Some (host, portText) \<and> resolve parse_addr look host = Inr addrs
       \<and> \<not> list_all publicly_routable addrs \<longrightarrow> tried = []) \<and>
    (\<forall>c. r = Inr c \<longrightarrow> tried \<noteq> [] \<and> (\<exists>n. n \<in> set (ports p) \<and> dial (last tried) n = Some c))"
  using assms
proof (cases rule: dialContext_cases)
  case none
  then show ?thesis by simp
next
  case (go host portText n addrs res)
  have "\<forall>c. r = Inr c \<longrightarrow> tried \<noteq> [] \<and> dial (last tried) n = Some c"
    using try_dial_prefix [OF go(5)] go(6) by (auto split: option.splits)
  then show ?thesis using go(1-4) tried_subset [OF go(5)] by (auto simp: list_all_iff)
qed

text \<open>A name with one private answer beside a public one is not dialled at all, and a name with a public answer is.\<close>

theorem dialContext_public_witness:
  "dialContext \<lparr>ports = [443], relaxed = False\<rparr> (\<lambda>_. None)
     (\<lambda>_. Some [V4 (ip4 93 184 216 34)]) (\<lambda>a n. Some n) ''a.example:443'' = (Inr 443, [V4 (ip4 93 184 216 34)]) \<and>
   publicly_routable (V4 (ip4 93 184 216 34))"
proof -
  have p: "publicly_routable (V4 (ip4 93 184 216 34))" by (simp add: unat_ip4 octet_def public4_def)
  have h: "SplitHostPort ''a.example:443'' = Some (''a.example'', ''443'')" "parse_uint ''443'' = Inr 443"
    by code_simp (simp add: parse_uint_def is_digit_def digit_val_def)
  have "dialContext \<lparr>ports = [443], relaxed = False\<rparr> (\<lambda>_. None)
     (\<lambda>_. Some [V4 (ip4 93 184 216 34)]) (\<lambda>a n. Some n) ''a.example:443'' = (Inr 443, [V4 (ip4 93 184 216 34)])"
    using checkAddr_None [of "V4 (ip4 93 184 216 34)" False] p
    by (simp add: dialContext_def h portAllowed_def resolve_def maxDialAttempts_def del: publicly_routable.simps)
  from this dialContext_public [OF this] show ?thesis by simp
qed

end
