(* ===== verification/Proposal_Slots.thy ===== *)
theory Proposal_Slots
  imports Proposal_Store
begin

text \<open>
  What \<^verbatim>\<open>ledger/store/proposal.go\<close> promises, without tables, clocks or signatures: a treasury has one slot, a
  proposal takes it while it is free, and gives it up once, for good, with the status it ends in.  The operations of
  \<open>Proposal_Store\<close> refine this machine.
\<close>

section \<open>The machine of slots\<close>

type_synonym slots = "ProposalID \<rightharpoonup> TreasuryID \<times> string"

inductive slot_step :: "slots \<Rightarrow> slots \<Rightarrow> bool" where
  take_slot: "m i = None \<Longrightarrow> \<forall>j. m j \<noteq> Some (t, ProposalOpen) \<Longrightarrow> slot_step m (m(i \<mapsto> (t, ProposalOpen)))"
| free_slot: "m i = Some (t, ProposalOpen) \<Longrightarrow> s \<in> set terminal_kinds \<Longrightarrow> slot_step m (m(i \<mapsto> (t, s)))"

inductive_cases slot_stepE: "slot_step m m'"

text \<open>What the tables say of the slots.\<close>

definition slot_of :: "Proposal \<Rightarrow> ProposalID \<times> TreasuryID \<times> string" where
  "slot_of p = (pr_id p, pr_treasury p, pr_status p)"

definition slots_of :: "proposal_db \<Rightarrow> slots" where
  "slots_of db = map_of (map slot_of (proposals db))"

section \<open>Many slots freed at once\<close>

definition frees :: "slots \<Rightarrow> slots \<Rightarrow> bool" where
  "frees m m' \<longleftrightarrow> (\<forall>i. m' i = m i \<or> (\<exists>t s. m i = Some (t, ProposalOpen) \<and> m' i = Some (t, s) \<and> s \<in> set terminal_kinds))"

lemma frees_steps:
  assumes "finite {i. m i \<noteq> m' i}" "frees m m'"
  shows "slot_step\<^sup>*\<^sup>* m m'"
  using assms
proof (induction "{i. m i \<noteq> m' i}" arbitrary: m rule: finite_induct)
  case empty
  then have "m = m'" by auto
  then show ?case by simp
next
  case (insert x F)
  obtain t s where x: "m x = Some (t, ProposalOpen)" "m' x = Some (t, s)" "s \<in> set terminal_kinds"
  proof -
    have "m x \<noteq> m' x" using insert.hyps(4) by auto
    then show thesis using insert.prems that unfolding frees_def by metis
  qed
  let ?n = "m(x \<mapsto> (t, s))"
  have "F = {i. ?n i \<noteq> m' i}" using insert.hyps(2,4) x(2) by (auto simp: set_eq_iff)
  moreover have "frees ?n m'" using insert.prems x by (auto simp: frees_def)
  ultimately have "slot_step\<^sup>*\<^sup>* ?n m'" by (rule insert.hyps(3))
  with free_slot [of m x t s, OF x(1,3)] show ?case by (rule converse_rtranclp_into_rtranclp)
qed

lemma map_of_slots:
  assumes "distinct (map pr_id ps)" "\<forall>p \<in> set ps. pr_id (g p) = pr_id p"
  shows "map_of (map slot_of (map g ps)) i =
     (case find (\<lambda>p. pr_id p = i) ps of None \<Rightarrow> None | Some p \<Rightarrow> Some (pr_treasury (g p), pr_status (g p)))"
  using assms by (induction ps) (auto simp: slot_of_def)

lemma closes_frees:
  assumes "slots_ok (proposals db)" "closes C g (proposals db)"
    "proposals db' = map (\<lambda>p. if C p then g p else p) (proposals db)"
  shows "slot_step\<^sup>*\<^sup>* (slots_of db) (slots_of db')"
proof (rule frees_steps)
  let ?g = "\<lambda>p. if C p then g p else p"
  have d: "distinct (map pr_id (proposals db))" using assms(1) by (simp add: slots_ok_def)
  have k: "\<forall>p \<in> set (proposals db). pr_id (?g p) = pr_id p" using assms(2) by (auto simp: closes_def)
  have at: "slots_of db i = (case find (\<lambda>p. pr_id p = i) (proposals db) of None \<Rightarrow> None | Some p \<Rightarrow> Some (pr_treasury p, pr_status p))"
    "slots_of db' i = (case find (\<lambda>p. pr_id p = i) (proposals db) of None \<Rightarrow> None | Some p \<Rightarrow> Some (pr_treasury (?g p), pr_status (?g p)))"
    for i using map_of_slots [OF d, of "\<lambda>p. p" i] map_of_slots [OF d k, of i] by (simp_all add: slots_of_def assms(3))
  show "frees (slots_of db) (slots_of db')"
    unfolding frees_def at using assms(2) by (auto simp: closes_def dest: find_in_set split: option.split)
  have "{i. slots_of db i \<noteq> slots_of db' i} \<subseteq> pr_id ` set (proposals db)"
    unfolding at by (auto dest: find_in_set split: option.splits)
  then show "finite {i. slots_of db i \<noteq> slots_of db' i}" by (rule finite_subset) simp
qed

section \<open>Simulation\<close>

lemma expire_where_slots:
  assumes "slots_ok (proposals db)"
  shows "slot_step\<^sup>*\<^sup>* (slots_of db) (slots_of (expire_where P now db))"
proof (rule closes_frees [OF assms])
  show "proposals (expire_where P now db) = map (\<lambda>p. if stale now p \<and> P p
      then p\<lparr>pr_status := ProposalExpired, pr_resolved_at := Some now\<rparr> else p) (proposals db)"
    by (simp add: expire_where_def)
  show "closes (\<lambda>p. stale now p \<and> P p) (\<lambda>p. p\<lparr>pr_status := ProposalExpired, pr_resolved_at := Some now\<rparr>) (proposals db)"
    using assms by (rule expire_closes)
qed

lemma CreateProposal_slots:
  assumes ok: "proposals_ok db" and c: "CreateProposal pf now p db = (r, db')"
  shows "slot_step\<^sup>*\<^sup>* (slots_of db) (slots_of db')"
  using c
proof (cases rule: CreateProposal_cases)
  case (refused e)
  then show ?thesis by (auto simp: slots_of_def spend_id_def split: option.split)
next
  case (created i)
  let ?db1 = "expire_where (\<lambda>q. pr_treasury q = cp_treasury p \<and> pr_org q = cp_org p) now db"
  have ok1: "proposals_ok ?db1" using ok by (rule expire_where_ok)
  have "pr_id q \<noteq> i" if "q \<in> set (proposals ?db1)" for q
  proof -
    have "sint (pr_id q) \<le> sint (proposal_seq db)" using ok1 that by (auto simp: proposals_ok_def expire_where_def)
    then show ?thesis using next_id_gt [OF created(2)] by auto
  qed
  then have new: "slots_of ?db1 i = None"
    unfolding slots_of_def map_of_eq_None_iff by (force simp: slot_of_def)
  have free: "\<forall>j. slots_of ?db1 j \<noteq> Some (cp_treasury p, ProposalOpen)"
    using created(4) by (auto simp: slots_of_def slot_of_def proposal_conflict_def proposal_row_def dest!: map_of_SomeD) blast
  have "slots_of db' = (slots_of ?db1)(i \<mapsto> (cp_treasury p, ProposalOpen))"
    using new by (auto simp: created(6) slots_of_def slot_of_def proposal_row_def map_add_def fun_eq_iff split: option.splits)
  then have "slot_step (slots_of ?db1) (slots_of db')" using take_slot [of "slots_of ?db1" i "cp_treasury p", OF new free] by simp
  with expire_where_slots show ?thesis using ok by (meson proposals_ok_def rtranclp.rtrancl_into_rtrancl)
qed

lemma ResolveProposal_slots:
  assumes ok: "proposals_ok db" and c: "ResolveProposal pf now org i status h detail actor db = (r, db')"
  shows "slot_step\<^sup>*\<^sup>* (slots_of db) (slots_of db')"
proof -
  have s: "slots_ok (proposals db)" using ok by (simp add: proposals_ok_def)
  then have "distinct (map pr_id (proposals db))" by (simp add: slots_ok_def)
  with c show ?thesis
  proof (cases rule: ResolveProposal_cases)
    case (closed p)
    then show ?thesis by (intro closes_frees [OF s resolve_closes [OF closed(2-4)]]) simp
  qed simp
qed

lemma step_slots:
  assumes "proposal_step pf db db'" "proposals_ok db"
  shows "slot_step\<^sup>*\<^sup>* (slots_of db) (slots_of db')"
  using assms(1)
proof cases
  case (p_sign now dbnow org i sig e)
  from p_sign(1) have "slots_of db' = slots_of db" by (cases rule: AddSignature_cases) (simp_all add: slots_of_def)
  then show ?thesis by simp
next
  case (p_expire now n)
  then show ?thesis using expire_where_slots assms(2) by (auto simp: ExpireProposals_def proposals_ok_def)
next
  case (p_rows ts ms ids)
  then show ?thesis by (simp add: slots_of_def)
qed (use assms(2) CreateProposal_slots ResolveProposal_slots in blast)+

text \<open>
  C22: the store refines the machine of slots.  Whatever was done before, what one operation does to the tables,
  expiry of other proposals included, is a sequence of moves of the machine: a slot is taken only while it is free and
  by a new proposal, and is given up only by the proposal that holds it and only for a status that ends it; and what
  \<open>OpenProposal\<close> reads is the holder of the slot.
\<close>

theorem proposals_refine_slots:
  assumes "(proposal_step pf)\<^sup>*\<^sup>* proposal_init db" "proposal_step pf db db'"
  shows "slot_step\<^sup>*\<^sup>* (slots_of db) (slots_of db')
    \<and> (\<forall>now org t p. OpenProposal now db org t = Some p \<longrightarrow> slots_of db (pr_id p) = Some (t, ProposalOpen)
        \<and> (\<forall>j. slots_of db j = Some (t, ProposalOpen) \<longrightarrow> j = pr_id p))"
proof -
  have ok: "proposals_ok db" using steps_proposals_ok [OF assms(1) proposals_ok_init] .
  then have d: "distinct (map pr_id (proposals db))" and
    t: "distinct (map pr_treasury (filter (\<lambda>p. pr_status p = ProposalOpen) (proposals db)))"
    by (simp_all add: proposals_ok_def slots_ok_def)
  have at: "slots_of db j = Some (s, u) \<longleftrightarrow> (\<exists>p \<in> set (proposals db). pr_id p = j \<and> pr_treasury p = s \<and> pr_status p = u)" for j s u
    using d by (auto simp: slots_of_def slot_of_def o_def)
  have "p = q" if "p \<in> set (proposals db)" "q \<in> set (proposals db)" "pr_status p = ProposalOpen" "pr_status q = ProposalOpen"
    "pr_treasury p = pr_treasury q" for p q
    using t that by (auto simp: distinct_map dest: inj_onD)
  then show ?thesis using step_slots [OF assms(2) ok] unfolding at OpenProposal_def by (fastforce dest!: find_in_set)
qed

text \<open>The proposal of the small history gives up the slot of its treasury when it is executed.\<close>

theorem proposals_refine_slots_witness:
  "slot_step\<^sup>*\<^sup>* (slots_of demo_signed) (slots_of demo_executed) \<and> slots_of demo_signed 1 = Some (7, ProposalOpen)
   \<and> slots_of demo_executed 1 = Some (7, ProposalExecuted)"
proof -
  have "proposal_step demo_pf demo_signed demo_executed" unfolding demo_executed_def by (rule step_of_snd)
  from proposals_refine_slots [OF demo_reaches(1) this] show ?thesis
    by (simp add: slots_of_def slot_of_def demo_executed_eq demo_signed_eq(2) demo_created_eq resolved_row_def proposal_row_def demo_params_def)
qed

end
