(* ===== verification/Members.thy ===== *)
theory Members
  imports Proposal_Store
begin

text \<open>
  \<^verbatim>\<open>ledger/store/member.go\<close> and \<^verbatim>\<open>ledger/store/challenge.go\<close>: who a chat account speaks for, what roles a member
  holds, and how an address comes to be bound to one.  The state is the tables of
  \<^verbatim>\<open>ledger/migrations/00002_members.sql\<close> and \<^verbatim>\<open>00005_identity.sql\<close>; every operation is a function on it that takes
  the time, and the random characters of a code, as arguments.  An operation is one database transaction (the create of
  \<open>EnsureMember\<close> is its own): an error rolls the rows back.
\<close>

section \<open>Roles\<close>

datatype Role = RoleNone | RoleObserver | RoleProposer | RoleApprover | RoleAdmin

fun role_level :: "Role \<Rightarrow> nat" where
  "role_level RoleNone = 0"
| "role_level RoleObserver = 1"
| "role_level RoleProposer = 2"
| "role_level RoleApprover = 3"
| "role_level RoleAdmin = 4"

lemma role_level_inj: "role_level a = role_level b \<Longrightarrow> a = b"
  by (cases a; cases b) simp_all

instantiation Role :: linorder
begin

definition less_eq_Role :: "Role \<Rightarrow> Role \<Rightarrow> bool" where
  "less_eq_Role a b \<longleftrightarrow> role_level a \<le> role_level b"

definition less_Role :: "Role \<Rightarrow> Role \<Rightarrow> bool" where
  "less_Role a b \<longleftrightarrow> role_level a < role_level b"

instance
  by standard (auto simp: less_eq_Role_def less_Role_def role_level_inj)

end

definition AtLeast :: "Role \<Rightarrow> Role \<Rightarrow> bool" where
  "AtLeast r required \<longleftrightarrow> required \<le> r"

fun Role_String :: "Role \<Rightarrow> string" where
  "Role_String RoleObserver = ''observer''"
| "Role_String RoleProposer = ''proposer''"
| "Role_String RoleApprover = ''approver''"
| "Role_String RoleAdmin = ''admin''"
| "Role_String RoleNone = ''none''"

definition parseRole :: "string \<Rightarrow> Role" where
  "parseRole name =
     (if name = ''observer'' then RoleObserver else if name = ''proposer'' then RoleProposer
      else if name = ''approver'' then RoleApprover else if name = ''admin'' then RoleAdmin else RoleNone)"

definition highest :: "string list \<Rightarrow> Role" where
  "highest names = foldl (\<lambda>best name. if best < parseRole name then parseRole name else best) RoleNone names"

section \<open>Tables\<close>

abbreviation AddressLinked :: string where "AddressLinked \<equiv> ''linked''"
abbreviation AddressProvisioned :: string where "AddressProvisioned \<equiv> ''provisioned''"

record Member =
  m_id :: MemberID
  m_org :: OrgID
  m_name :: string
  m_address :: "string option"
  m_source :: "string option"
  m_verified :: "int option"
  m_status :: string

record identity =
  i_id :: IdentityID
  i_member :: MemberID
  i_org :: OrgID
  i_channel :: string
  i_user :: string
  i_handle :: string
  i_linked_at :: int
  i_linked_by :: "IdentityID option"

record member_role =
  r_org :: OrgID
  r_member :: MemberID
  r_role :: string
  r_granted_by :: "MemberID option"

record role_binding =
  b_org :: OrgID
  b_channel :: string
  b_channel_role :: string
  b_role :: string

record Challenge =
  ch_hash :: string
  ch_org :: OrgID
  ch_identity :: IdentityID
  ch_purpose :: string
  ch_address :: string
  ch_xdr :: string
  ch_expires :: int
  ch_consumed :: "int option"

record link_code =
  k_code :: string
  k_org :: OrgID
  k_member :: MemberID
  k_issued_by :: IdentityID
  k_expires :: int
  k_consumed :: "int option"
  k_consumed_by :: "IdentityID option"

text \<open>
  \<open>member_refs\<close> are the members that rows of other tables (grants, proposals, connectors, drafts, contracts, calls)
  refer to with a foreign key that does not cascade.
\<close>

record member_db =
  org_rows :: "OrgID list"
  member_rows :: "Member list"
  identity_rows :: "identity list"
  role_rows :: "member_role list"
  binding_rows :: "role_binding list"
  challenge_rows :: "Challenge list"
  code_rows :: "link_code list"
  member_refs :: "MemberID list"
  member_seq :: MemberID
  identity_seq :: IdentityID

datatype member_error =
    ErrNoChallenge | ErrNoLinkCode | ErrIdentityNotFound | ErrMemberNotFound | ErrAddressTaken | ErrLastAdmin
  | UnknownSource | UnknownChannel | UserIDRequired | AlreadySpeaks | SpeaksForLinked | EmptyRole | PlatformRoleRequired
  | AdminBinding | MemberUnique | MemberDb db_error

definition Channel_Valid :: "string \<Rightarrow> bool" where
  "Channel_Valid c \<longleftrightarrow> c = ''telegram'' \<or> c = ''discord''"

section \<open>Members and identities\<close>

definition HasAddress :: "Member \<Rightarrow> bool" where
  "HasAddress m \<longleftrightarrow> m_address m \<noteq> None \<and> m_address m \<noteq> Some []"

definition find_identity :: "member_db \<Rightarrow> OrgID \<Rightarrow> string \<Rightarrow> string \<Rightarrow> identity option" where
  "find_identity db org channel user = find (\<lambda>i. i_org i = org \<and> i_channel i = channel \<and> i_user i = user) (identity_rows db)"

definition find_member :: "member_db \<Rightarrow> OrgID \<Rightarrow> MemberID \<Rightarrow> Member option" where
  "find_member db org mid = find (\<lambda>m. m_org m = org \<and> m_id m = mid) (member_rows db)"

definition IdentityFor :: "member_db \<Rightarrow> OrgID \<Rightarrow> string \<Rightarrow> string \<Rightarrow> (member_error, IdentityID) result" where
  "IdentityFor db org channel user =
     (case find_identity db org channel user of None \<Rightarrow> Inl ErrIdentityNotFound | Some i \<Rightarrow> Inr (i_id i))"

text \<open>An identity joined with the member it speaks for.\<close>

definition speaker :: "member_db \<Rightarrow> OrgID \<Rightarrow> string \<Rightarrow> string \<Rightarrow> (identity \<times> Member) option" where
  "speaker db org channel user =
     (case find_identity db org channel user of
        None \<Rightarrow> None
      | Some i \<Rightarrow> map_option (Pair i) (find_member db (i_org i) (i_member i)))"

definition MemberByIdentity :: "member_db \<Rightarrow> OrgID \<Rightarrow> string \<Rightarrow> string \<Rightarrow> Member option" where
  "MemberByIdentity db org channel user = map_option snd (speaker db org channel user)"

definition Member_of :: "member_db \<Rightarrow> OrgID \<Rightarrow> MemberID \<Rightarrow> (member_error, Member) result" where
  "Member_of db org mid = (case find_member db org mid of None \<Rightarrow> Inl ErrMemberNotFound | Some m \<Rightarrow> Inr m)"

text \<open>The handle of a known identity, kept current; its error is ignored.\<close>

definition refresh_handle :: "platform \<Rightarrow> OrgID \<Rightarrow> string \<Rightarrow> string \<Rightarrow> string \<Rightarrow> member_db \<Rightarrow> member_db" where
  "refresh_handle pf org channel user handle db =
     (if text_ok pf handle
      then db\<lparr>identity_rows := map (\<lambda>i. if i_org i = org \<and> i_channel i = channel \<and> i_user i = user
             then i\<lparr>i_handle := handle\<rparr> else i) (identity_rows db)\<rparr>
      else db)"

text \<open>Inserting an identity: the row's checks, its unique index and its foreign keys.\<close>

definition insert_identity ::
  "platform \<Rightarrow> int \<Rightarrow> MemberID \<Rightarrow> OrgID \<Rightarrow> string \<Rightarrow> string \<Rightarrow> string \<Rightarrow> IdentityID option \<Rightarrow> member_db
   \<Rightarrow> member_error option \<times> member_db" where
  "insert_identity pf now member org channel user handle linkedBy db =
     (if \<not> text_ok pf channel \<or> \<not> text_ok pf user \<or> \<not> text_ok pf handle then (Some (MemberDb NotStorable), db)
      else case next_id (identity_seq db) of
          None \<Rightarrow> (Some (MemberDb SequenceExhausted), db)
        | Some n \<Rightarrow>
            let drawn = db\<lparr>identity_seq := n\<rparr>
            in if \<not> Channel_Valid channel \<or> user = [] then (Some (MemberDb CheckViolation), drawn)
               else if find_identity db org channel user \<noteq> None then (Some MemberUnique, drawn)
               else if find_member db org member = None
                     \<or> (case linkedBy of None \<Rightarrow> False | Some b \<Rightarrow> b \<notin> i_id ` set (identity_rows db))
                    then (Some (MemberDb ForeignKeyViolation), drawn)
               else (None, drawn\<lparr>identity_rows := identity_rows db @ [\<lparr>i_id = n, i_member = member, i_org = org,
                       i_channel = channel, i_user = user, i_handle = handle, i_linked_at = now, i_linked_by = linkedBy\<rparr>]\<rparr>))"

definition new_member :: "MemberID \<Rightarrow> OrgID \<Rightarrow> string \<Rightarrow> Member" where
  "new_member i org handle =
     \<lparr>m_id = i, m_org = org, m_name = handle, m_address = None, m_source = None, m_verified = None, m_status = ''active''\<rparr>"

text \<open>What a transaction that failed leaves behind: the rows as they were, the identities it drew.\<close>

definition rolled_back :: "member_db \<Rightarrow> member_db \<Rightarrow> member_db" where
  "rolled_back db db' = db\<lparr>member_seq := member_seq db', identity_seq := identity_seq db'\<rparr>"

text \<open>The transaction of \<open>EnsureMember\<close>: a member, and an identity unless another message inserted it first.\<close>

definition create_member ::
  "platform \<Rightarrow> int \<Rightarrow> OrgID \<Rightarrow> string \<Rightarrow> string \<Rightarrow> string \<Rightarrow> member_db \<Rightarrow> member_error option \<times> member_db" where
  "create_member pf now org channel user handle db =
     (if \<not> text_ok pf handle then (Some (MemberDb NotStorable), db)
      else case next_id (member_seq db) of
          None \<Rightarrow> (Some (MemberDb SequenceExhausted), db)
        | Some n \<Rightarrow>
            let db1 = db\<lparr>member_seq := n\<rparr>
            in if org \<notin> set (org_rows db) then (Some (MemberDb ForeignKeyViolation), db1)
               else case insert_identity pf now n org channel user handle None
                      (db1\<lparr>member_rows := member_rows db @ [new_member n org handle]\<rparr>) of
                   (None, db2) \<Rightarrow> (None, db2)
                 | (Some MemberUnique, db2) \<Rightarrow> (None, db2)
                 | (Some e, db2) \<Rightarrow> (Some e, rolled_back db db2))"

definition EnsureMember ::
  "platform \<Rightarrow> int \<Rightarrow> OrgID \<Rightarrow> string \<Rightarrow> string \<Rightarrow> string \<Rightarrow> member_db \<Rightarrow> (member_error, Member) result \<times> member_db" where
  "EnsureMember pf now org channel user handle db =
     (if \<not> Channel_Valid channel then (Inl UnknownChannel, db)
      else if user = [] then (Inl UserIDRequired, db)
      else if \<not> text_ok pf user then (Inl (MemberDb NotStorable), db)
      else case MemberByIdentity db org channel user of
          Some m \<Rightarrow> (Inr m, if m_name m \<noteq> handle \<and> handle \<noteq> [] then refresh_handle pf org channel user handle db else db)
        | None \<Rightarrow>
            (case create_member pf now org channel user handle db of
               (Some e, db1) \<Rightarrow> (Inl e, db1)
             | (None, db1) \<Rightarrow>
                 (case MemberByIdentity db1 org channel user of
                    None \<Rightarrow> (Inl ErrMemberNotFound, db1)
                  | Some m \<Rightarrow> (Inr m, db1))))"

text \<open>The \<open>UPDATE\<close> that binds an address, with the unique index on the addresses of an org.\<close>

definition bind_address ::
  "int \<Rightarrow> OrgID \<Rightarrow> MemberID \<Rightarrow> string \<Rightarrow> string \<Rightarrow> member_db \<Rightarrow> member_error option \<times> member_db" where
  "bind_address now org mid address source db =
     (if find_member db org mid = None then (Some ErrMemberNotFound, db)
      else if \<not> issuer_ok address then (Some (MemberDb CheckViolation), db)
      else if list_ex (\<lambda>m. m_org m = org \<and> m_id m \<noteq> mid \<and> m_address m = Some address) (member_rows db)
           then (Some ErrAddressTaken, db)
      else (None, db\<lparr>member_rows := map (\<lambda>m. if m_org m = org \<and> m_id m = mid
              then m\<lparr>m_address := Some address, m_source := Some source, m_verified := Some now\<rparr> else m) (member_rows db)\<rparr>))"

definition SetMemberAddress ::
  "platform \<Rightarrow> int \<Rightarrow> OrgID \<Rightarrow> MemberID \<Rightarrow> string \<Rightarrow> string \<Rightarrow> member_db \<Rightarrow> member_error option \<times> member_db" where
  "SetMemberAddress pf now org mid address source db =
     (if source \<noteq> AddressLinked \<and> source \<noteq> AddressProvisioned then (Some UnknownSource, db)
      else if \<not> text_ok pf address then (Some (MemberDb NotStorable), db)
      else bind_address now org mid address source db)"

text \<open>What \<open>ReleaseAddress\<close> of \<^verbatim>\<open>ledger/store/reclaim.go\<close> does to the members of an org once an account was merged away.\<close>

definition release_member :: "OrgID \<Rightarrow> string \<Rightarrow> member_db \<Rightarrow> member_db" where
  "release_member org address db = db\<lparr>member_rows := map (\<lambda>m. if m_org m = org \<and> m_address m = Some address
     then m\<lparr>m_address := None, m_source := None, m_verified := None\<rparr> else m) (member_rows db)\<rparr>"

text \<open>\<open>linked_by\<close> is any identity of the member that authorised the link.\<close>

definition LinkIdentity ::
  "platform \<Rightarrow> int \<Rightarrow> OrgID \<Rightarrow> MemberID \<Rightarrow> string \<Rightarrow> string \<Rightarrow> string \<Rightarrow> MemberID \<Rightarrow> member_db \<Rightarrow> member_error option \<times> member_db" where
  "LinkIdentity pf now org mid channel user handle by1 db =
     (if \<not> Channel_Valid channel then (Some UnknownChannel, db)
      else let linkedBy = (if by1 = 0 then None
                 else map_option i_id (find (\<lambda>i. i_org i = org \<and> i_member i = by1) (identity_rows db)))
           in case insert_identity pf now mid org channel user handle linkedBy db of
               (None, db1) \<Rightarrow> (None, db1)
             | (Some MemberUnique, db1) \<Rightarrow> (Some AlreadySpeaks, rolled_back db db1)
             | (Some e, db1) \<Rightarrow> (Some e, rolled_back db db1))"

section \<open>Roles of a member\<close>

definition GrantRole :: "OrgID \<Rightarrow> MemberID \<Rightarrow> Role \<Rightarrow> MemberID \<Rightarrow> member_db \<Rightarrow> member_error option \<times> member_db" where
  "GrantRole org mid role by1 db =
     (if role = RoleNone then (Some EmptyRole, db)
      else if list_ex (\<lambda>r. r_org r = org \<and> r_member r = mid \<and> r_role r = Role_String role) (role_rows db) then (None, db)
      else if find_member db org mid = None \<or> org \<notin> set (org_rows db) then (Some (MemberDb ForeignKeyViolation), db)
      else (None, db\<lparr>role_rows := role_rows db @
              [\<lparr>r_org = org, r_member = mid, r_role = Role_String role, r_granted_by = nullable by1\<rparr>]\<rparr>))"

definition RevokeRole :: "OrgID \<Rightarrow> MemberID \<Rightarrow> Role \<Rightarrow> member_db \<Rightarrow> member_db" where
  "RevokeRole org mid role db =
     db\<lparr>role_rows := filter (\<lambda>r. \<not> (r_org r = org \<and> r_member r = mid \<and> r_role r = Role_String role)) (role_rows db)\<rparr>"

definition EffectiveRole :: "member_db \<Rightarrow> OrgID \<Rightarrow> MemberID \<Rightarrow> string \<Rightarrow> string list \<Rightarrow> Role" where
  "EffectiveRole db org mid channel platformRoles =
     highest (remdups
       (map r_role (filter (\<lambda>r. r_org r = org \<and> r_member r = mid) (role_rows db)) @
        map b_role (filter (\<lambda>b. b_org b = org \<and> b_channel b = channel \<and> b_channel_role b \<in> set platformRoles) (binding_rows db))))"

definition BindRole ::
  "platform \<Rightarrow> OrgID \<Rightarrow> string \<Rightarrow> string \<Rightarrow> Role \<Rightarrow> member_db \<Rightarrow> member_error option \<times> member_db" where
  "BindRole pf org channel platformRole role db =
     (if \<not> Channel_Valid channel then (Some UnknownChannel, db)
      else if platformRole = [] then (Some PlatformRoleRequired, db)
      else if RoleAdmin \<le> role then (Some AdminBinding, db)
      else if role = RoleNone then (Some EmptyRole, db)
      else let b = \<lparr>b_org = org, b_channel = channel, b_channel_role = platformRole, b_role = Role_String role\<rparr>
           in if \<not> text_ok pf platformRole then (Some (MemberDb NotStorable), db)
              else if b \<in> set (binding_rows db) then (None, db)
              else if org \<notin> set (org_rows db) then (Some (MemberDb ForeignKeyViolation), db)
              else (None, db\<lparr>binding_rows := binding_rows db @ [b]\<rparr>))"

definition SetRole :: "OrgID \<Rightarrow> MemberID \<Rightarrow> Role \<Rightarrow> MemberID \<Rightarrow> member_db \<Rightarrow> member_error option \<times> member_db" where
  "SetRole org mid role by1 db =
     (if org \<notin> set (org_rows db) then (Some (MemberDb NoRows), db)
      else if find_member db org mid = None then (Some ErrMemberNotFound, db)
      else let cleared = filter (\<lambda>r. \<not> (r_org r = org \<and> r_member r = mid)) (role_rows db);
               rows = (if role = RoleNone then cleared
                  else cleared @ [\<lparr>r_org = org, r_member = mid, r_role = Role_String role, r_granted_by = nullable by1\<rparr>])
           in if filter (\<lambda>r. r_org r = org \<and> r_role r = ''admin'') rows = [] then (Some ErrLastAdmin, db)
              else (None, db\<lparr>role_rows := rows\<rparr>))"

definition Members :: "member_db \<Rightarrow> OrgID \<Rightarrow> int \<Rightarrow> (member_error, (Member \<times> Role) list) result" where
  "Members db org limit =
     (if limit < 0 then Inl (MemberDb OutOfRange)
      else Inr (map (\<lambda>m. (m, highest (map r_role (filter (\<lambda>r. r_org r = m_org m \<and> r_member r = m_id m) (role_rows db)))))
             (take (nat limit) (sort_key (\<lambda>m. sint (m_id m)) (filter (\<lambda>m. m_org m = org) (member_rows db))))))"

section \<open>Challenges\<close>

abbreviation PurposeLinkMember :: string where "PurposeLinkMember \<equiv> ''link_member''"
abbreviation PurposeLinkTreasury :: string where "PurposeLinkTreasury \<equiv> ''link_treasury''"

definition purposes :: "string list" where
  "purposes = [PurposeLinkMember, PurposeLinkTreasury, ''grant_connector'']"

definition challenge_checks :: "int \<Rightarrow> Challenge \<Rightarrow> bool" where
  "challenge_checks now c \<longleftrightarrow> hash_ok (ch_hash c) \<and> ch_purpose c \<in> set purposes \<and> issuer_ok (ch_address c) \<and> ch_xdr c \<noteq> []
     \<and> now < ch_expires c"

definition SaveChallenge :: "platform \<Rightarrow> int \<Rightarrow> Challenge \<Rightarrow> member_db \<Rightarrow> member_error option \<times> member_db" where
  "SaveChallenge pf now c db =
     (let kept = filter (\<lambda>d. \<not> (ch_identity d = ch_identity c \<and> ch_purpose d = ch_purpose c \<and> ch_consumed d = None)) (challenge_rows db)
      in if \<not> (text_ok pf (ch_purpose c) \<and> text_ok pf (ch_hash c) \<and> text_ok pf (ch_address c) \<and> text_ok pf (ch_xdr c)
              \<and> time_ok pf (ch_expires c)) then (Some (MemberDb NotStorable), db)
         else if \<not> challenge_checks now c then (Some (MemberDb CheckViolation), db)
         else if ch_hash c \<in> ch_hash ` set kept then (Some MemberUnique, db)
         else if ch_org c \<notin> set (org_rows db) \<or> ch_identity c \<notin> i_id ` set (identity_rows db)
              then (Some (MemberDb ForeignKeyViolation), db)
         else (None, db\<lparr>challenge_rows := kept @ [c\<lparr>ch_consumed := None\<rparr>]\<rparr>))"

definition live :: "int \<Rightarrow> OrgID \<Rightarrow> string \<Rightarrow> Challenge \<Rightarrow> bool" where
  "live now org hash c \<longleftrightarrow> ch_hash c = hash \<and> ch_org c = org \<and> ch_consumed c = None \<and> now < ch_expires c"

definition LiveChallenge :: "int \<Rightarrow> member_db \<Rightarrow> OrgID \<Rightarrow> string \<Rightarrow> (member_error, Challenge) result" where
  "LiveChallenge now db org hash =
     (case find (live now org hash) (challenge_rows db) of None \<Rightarrow> Inl ErrNoChallenge | Some c \<Rightarrow> Inr c)"

text \<open>The conditional \<open>UPDATE\<close> that claims a challenge.\<close>

definition claim :: "int \<Rightarrow> (Challenge \<Rightarrow> bool) \<Rightarrow> member_db \<Rightarrow> (Challenge \<times> member_db) option" where
  "claim now P db =
     (case find P (challenge_rows db) of
        None \<Rightarrow> None
      | Some c \<Rightarrow> Some (c, db\<lparr>challenge_rows := map (\<lambda>d. if P d then d\<lparr>ch_consumed := Some now\<rparr> else d) (challenge_rows db)\<rparr>))"

definition ConsumeChallenge ::
  "platform \<Rightarrow> int \<Rightarrow> OrgID \<Rightarrow> string \<Rightarrow> string \<Rightarrow> string \<Rightarrow> member_db \<Rightarrow> (member_error, MemberID) result \<times> member_db" where
  "ConsumeChallenge pf now org hash address source db =
     (if source \<noteq> AddressLinked \<and> source \<noteq> AddressProvisioned then (Inl UnknownSource, db)
      else if \<not> text_ok pf hash \<or> \<not> text_ok pf address then (Inl (MemberDb NotStorable), db)
      else case claim now (\<lambda>c. live now org hash c \<and> ch_address c = address) db of
          None \<Rightarrow> (Inl ErrNoChallenge, db)
        | Some (c, db1) \<Rightarrow>
            (case find (\<lambda>i. i_id i = ch_identity c \<and> i_org i = org) (identity_rows db1) of
               None \<Rightarrow> (Inl (MemberDb NoRows), db)
             | Some i \<Rightarrow>
                 (case bind_address now org (i_member i) address source db1 of
                    (Some e, _) \<Rightarrow> (Inl e, db)
                  | (None, db2) \<Rightarrow> (Inr (i_member i), db2))))"

section \<open>Link codes\<close>

definition linkCodeAlphabet :: string where
  "linkCodeAlphabet = ''ABCDEFGHJKMNPQRSTUVWXYZ23456789''"

definition LinkCodeLength :: nat where "LinkCodeLength = 8"

text \<open>The code that eight draws below the size of the alphabet spell.\<close>

definition newLinkCode :: "nat list \<Rightarrow> string" where
  "newLinkCode draws = map (\<lambda>n. linkCodeAlphabet ! n) (take LinkCodeLength draws)"

definition code_checks :: "int \<Rightarrow> link_code \<Rightarrow> bool" where
  "code_checks now k \<longleftrightarrow> length (k_code k) = 8
     \<and> list_all (\<lambda>c. (65 \<le> byte c \<and> byte c \<le> 90) \<or> (50 \<le> byte c \<and> byte c \<le> 57)) (k_code k) \<and> now < k_expires k"

definition IssueLinkCode ::
  "int \<Rightarrow> OrgID \<Rightarrow> MemberID \<Rightarrow> IdentityID \<Rightarrow> int \<Rightarrow> nat list \<Rightarrow> member_db \<Rightarrow> (member_error, string) result \<times> member_db" where
  "IssueLinkCode now org member by1 ttl draws db =
     (let code = newLinkCode draws;
          k = \<lparr>k_code = code, k_org = org, k_member = member, k_issued_by = by1, k_expires = now + ttl, k_consumed = None, k_consumed_by = None\<rparr>;
          kept = filter (\<lambda>d. \<not> (k_member d = member \<and> k_consumed d = None)) (code_rows db)
      in if \<not> code_checks now k then (Inl (MemberDb CheckViolation), db)
         else if code \<in> k_code ` set kept then (Inl MemberUnique, db)
         else if find_member db org member = None \<or> by1 \<notin> i_id ` set (identity_rows db)
              then (Inl (MemberDb ForeignKeyViolation), db)
         else (Inr code, db\<lparr>code_rows := kept @ [k]\<rparr>))"

text \<open>A member with an address, an identity or a role is somebody, and stays.\<close>

definition deleteEmptyMember :: "OrgID \<Rightarrow> MemberID \<Rightarrow> member_db \<Rightarrow> member_error option \<times> member_db" where
  "deleteEmptyMember org member db =
     (case find (\<lambda>m. m_id m = member \<and> m_org m = org \<and> m_address m = None
             \<and> \<not> list_ex (\<lambda>i. i_member i = m_id m) (identity_rows db)
             \<and> \<not> list_ex (\<lambda>r. r_member r = m_id m) (role_rows db)) (member_rows db) of
        None \<Rightarrow> (None, db)
      | Some m \<Rightarrow>
          if member \<in> set (member_refs db) then (Some (MemberDb ForeignKeyViolation), db)
          else (None, db\<lparr>member_rows := filter (\<lambda>m. \<not> (m_id m = member \<and> m_org m = org)) (member_rows db),
                  code_rows := filter (\<lambda>k. \<not> (k_member k = member \<and> k_org k = org)) (code_rows db)\<rparr>))"

definition live_code :: "int \<Rightarrow> OrgID \<Rightarrow> string \<Rightarrow> link_code \<Rightarrow> bool" where
  "live_code now org code k \<longleftrightarrow> k_code k = code \<and> k_org k = org \<and> k_consumed k = None \<and> now < k_expires k"

text \<open>Pointing the claiming account at the member the code names.\<close>

definition attach ::
  "platform \<Rightarrow> int \<Rightarrow> OrgID \<Rightarrow> link_code \<Rightarrow> string \<Rightarrow> string \<Rightarrow> string \<Rightarrow> member_db \<Rightarrow> member_error option \<times> member_db" where
  "attach pf now org k channel user handle db =
     (case speaker db org channel user of
        None \<Rightarrow> insert_identity pf now (k_member k) org channel user handle (Some (k_issued_by k)) db
      | Some (i, previous) \<Rightarrow>
          if m_id previous = k_member k then (None, db)
          else if m_address previous \<noteq> None then (Some SpeaksForLinked, db)
          else if \<not> text_ok pf handle then (Some (MemberDb NotStorable), db)
          else deleteEmptyMember org (m_id previous)
                 (db\<lparr>identity_rows := map (\<lambda>j. if i_id j = i_id i
                       then j\<lparr>i_member := k_member k, i_handle := handle, i_linked_by := Some (k_issued_by k)\<rparr> else j) (identity_rows db)\<rparr>))"

definition ClaimLinkCode ::
  "platform \<Rightarrow> int \<Rightarrow> OrgID \<Rightarrow> string \<Rightarrow> string \<Rightarrow> string \<Rightarrow> string \<Rightarrow> member_db
   \<Rightarrow> (member_error, MemberID) result \<times> member_db" where
  "ClaimLinkCode pf now org code channel user handle db =
     (if \<not> text_ok pf code then (Inl (MemberDb NotStorable), db)
      else case find (live_code now org code) (code_rows db) of
          None \<Rightarrow> (Inl ErrNoLinkCode, db)
        | Some k \<Rightarrow>
            let db1 = db\<lparr>code_rows := map (\<lambda>d. if live_code now org code d then d\<lparr>k_consumed := Some now\<rparr> else d) (code_rows db)\<rparr>
            in if \<not> text_ok pf user \<or> \<not> text_ok pf channel then (Inl (MemberDb NotStorable), db)
               else case attach pf now org k channel user handle db1 of
                   (Some e, db2) \<Rightarrow> (Inl e, rolled_back db db2)
                 | (None, db2) \<Rightarrow>
                     (Inr (k_member k), db2\<lparr>code_rows := map (\<lambda>d. if k_code d = code
                         then d\<lparr>k_consumed_by := map_option i_id (find_identity db2 org channel user)\<rparr> else d) (code_rows db2)\<rparr>))"

end
