(* ===== verification/Members_Inv.thy ===== *)
theory Members_Inv
  imports Members
begin

text \<open>
  What is true of the member tables whatever the operations of \<open>Members\<close> did: the constraints of the schema as one
  invariant, the fate of a proved address, the last admin, and the single use of a challenge.
\<close>

section \<open>The operations as steps\<close>

text \<open>
  Each step is one transaction, so that any interleaving of callers is a sequence of them.  \<open>m_spend\<close> is what the
  treasury and connector handshakes do to the challenges, \<open>m_rows\<close> what the rest of the program does to the rows that the
  foreign keys look up: it adds orgs, and it may refer to any member.  \<open>SetMemberAddress\<close> and \<open>RevokeRole\<close>, which nothing
  in the program but its tests calls, are further steps of \<open>member_write\<close>.
\<close>

inductive member_step :: "platform \<Rightarrow> member_db \<Rightarrow> member_db \<Rightarrow> bool" for pf where
  m_create: "create_member pf now org channel user handle db = (e, db') \<Longrightarrow> member_step pf db db'"
| m_handle: "member_step pf db (refresh_handle pf org channel user handle db)"
| m_link: "LinkIdentity pf now org mid channel user handle by1 db = (e, db') \<Longrightarrow> member_step pf db db'"
| m_grant: "GrantRole org mid role by1 db = (e, db') \<Longrightarrow> member_step pf db db'"
| m_bind: "BindRole pf org channel platformRole role db = (e, db') \<Longrightarrow> member_step pf db db'"
| m_set: "SetRole org mid role by1 db = (e, db') \<Longrightarrow> member_step pf db db'"
| m_save: "SaveChallenge pf now c db = (e, db') \<Longrightarrow> member_step pf db db'"
| m_consume: "ConsumeChallenge pf now org hash address source db = (r, db') \<Longrightarrow> member_step pf db db'"
| m_issue: "IssueLinkCode now org member by1 ttl draws db = (r, db') \<Longrightarrow> member_step pf db db'"
| m_claim: "ClaimLinkCode pf now org code channel user handle db = (r, db') \<Longrightarrow> member_step pf db db'"
| m_spend: "claim now P db = Some (c, db') \<Longrightarrow> \<forall>d. P d \<longrightarrow> ch_consumed d = None \<Longrightarrow> member_step pf db db'"
| m_release: "member_step pf db (release_member org address db)"
| m_rows: "member_step pf db (db\<lparr>org_rows := org_rows db @ new, member_refs := refs\<rparr>)"

inductive member_write :: "platform \<Rightarrow> member_db \<Rightarrow> member_db \<Rightarrow> bool" for pf where
  w_step: "member_step pf db db' \<Longrightarrow> member_write pf db db'"
| w_address: "SetMemberAddress pf now org mid address source db = (e, db') \<Longrightarrow> member_write pf db db'"
| w_revoke: "member_write pf db (RevokeRole org mid role db)"

definition member_init :: member_db where
  "member_init = \<lparr>org_rows = [], member_rows = [], identity_rows = [], role_rows = [], binding_rows = [], challenge_rows = [],
     code_rows = [], member_refs = [], member_seq = 0, identity_seq = 0\<rparr>"

section \<open>The invariant\<close>

text \<open>Members: an address comes with its proof and belongs to one member of the org.\<close>

definition address_proved :: "Member \<Rightarrow> bool" where
  "address_proved m \<longleftrightarrow> (m_address m = None \<longleftrightarrow> m_verified m = None) \<and> (m_address m = None \<longleftrightarrow> m_source m = None)
     \<and> (\<forall>a. m_address m = Some a \<longrightarrow> issuer_ok a)"

definition addresses_unique :: "Member list \<Rightarrow> bool" where
  "addresses_unique ms \<longleftrightarrow> (\<forall>m \<in> set ms. \<forall>n \<in> set ms. \<forall>a. m_org m = m_org n \<longrightarrow> m_address m = Some a \<longrightarrow> m_address n = Some a
     \<longrightarrow> m_id m = m_id n)"

definition members_ok :: "MemberID \<Rightarrow> Member list \<Rightarrow> bool" where
  "members_ok seq ms \<longleftrightarrow> distinct (map m_id ms)
     \<and> (\<forall>m \<in> set ms. sint (m_id m) \<le> sint seq)
     \<and> (\<forall>m \<in> set ms. address_proved m)
     \<and> addresses_unique ms"

text \<open>Identities: one per chat account and org, each speaking for a member of its own org.\<close>

definition identities_ok :: "IdentityID \<Rightarrow> (MemberID \<times> OrgID) set \<Rightarrow> identity list \<Rightarrow> bool" where
  "identities_ok seq K is1 \<longleftrightarrow> distinct (map i_id is1)
     \<and> distinct (map (\<lambda>i. (i_org i, i_channel i, i_user i)) is1)
     \<and> (\<forall>i \<in> set is1. sint (i_id i) \<le> sint seq) 
     \<and> (\<forall>i \<in> set is1. Channel_Valid (i_channel i) \<and> i_user i \<noteq> [] \<and> (i_member i, i_org i) \<in> K)"

text \<open>Roles are roles, held by members, and no binding confers administration.\<close>

definition roles_ok :: "(MemberID \<times> OrgID) set \<Rightarrow> member_role list \<Rightarrow> bool" where
  "roles_ok K rs \<longleftrightarrow> distinct (map (\<lambda>r. (r_org r, r_member r, r_role r)) rs)
     \<and> (\<forall>r \<in> set rs. parseRole (r_role r) \<noteq> RoleNone \<and> (r_member r, r_org r) \<in> K)"

definition bindings_ok :: "role_binding list \<Rightarrow> bool" where
  "bindings_ok bs \<longleftrightarrow> distinct bs \<and> (\<forall>b \<in> set bs. parseRole (b_role b) < RoleAdmin \<and> parseRole (b_role b) \<noteq> RoleNone)"

text \<open>One live challenge per identity and purpose, one live code per member.\<close>

definition challenges_ok :: "Challenge list \<Rightarrow> bool" where
  "challenges_ok cs \<longleftrightarrow> distinct (map ch_hash cs)
     \<and> distinct (map (\<lambda>c. (ch_identity c, ch_purpose c)) (filter (\<lambda>c. ch_consumed c = None) cs))
     \<and> (\<forall>c \<in> set cs. ch_purpose c \<in> set purposes \<and> issuer_ok (ch_address c) \<and> hash_ok (ch_hash c))"

definition codes_ok :: "(MemberID \<times> OrgID) set \<Rightarrow> link_code list \<Rightarrow> bool" where
  "codes_ok K ks \<longleftrightarrow> distinct (map k_code ks) \<and> distinct (map k_member (filter (\<lambda>k. k_consumed k = None) ks))
     \<and> (\<forall>k \<in> set ks. (k_member k, k_org k) \<in> K)"

definition member_keys :: "Member list \<Rightarrow> (MemberID \<times> OrgID) set" where
  "member_keys ms = (\<lambda>m. (m_id m, m_org m)) ` set ms"

definition member_db_ok :: "member_db \<Rightarrow> bool" where
  "member_db_ok db \<longleftrightarrow> members_ok (member_seq db) (member_rows db)
     \<and> identities_ok (identity_seq db) (member_keys (member_rows db)) (identity_rows db)
     \<and> roles_ok (member_keys (member_rows db)) (role_rows db) \<and> bindings_ok (binding_rows db)
     \<and> challenges_ok (challenge_rows db) \<and> codes_ok (member_keys (member_rows db)) (code_rows db)"

lemma ok_mono:
  "identities_ok a K is1 \<Longrightarrow> sint a \<le> sint b \<Longrightarrow> K \<subseteq> L \<Longrightarrow> identities_ok b L is1"
  "roles_ok K rs \<Longrightarrow> K \<subseteq> L \<Longrightarrow> roles_ok L rs"
  "codes_ok K ks \<Longrightarrow> K \<subseteq> L \<Longrightarrow> codes_ok L ks"
  "members_ok c ms \<Longrightarrow> sint c \<le> sint d \<Longrightarrow> members_ok d ms"
  unfolding identities_ok_def roles_ok_def codes_ok_def members_ok_def by (blast intro: order_trans)+

lemma seq_fresh:
  "members_ok c ms \<Longrightarrow> sint c < sint n \<Longrightarrow> n \<notin> m_id ` set ms"
  "identities_ok a K is1 \<Longrightarrow> sint a < sint i \<Longrightarrow> i \<notin> i_id ` set is1"
  unfolding members_ok_def identities_ok_def image_iff by (metis linorder_not_less)+

lemma addresses_unique_filter: "addresses_unique ms \<Longrightarrow> addresses_unique (filter P ms)"
  unfolding addresses_unique_def set_filter by blast

lemma members_ok_map:
  assumes "members_ok seq ms" and f: "\<And>m. m \<in> set ms \<Longrightarrow> m_id (f m) = m_id m \<and> address_proved (f m)"
    and u: "\<And>m n a. m \<in> set ms \<Longrightarrow> n \<in> set ms \<Longrightarrow> m_org (f m) = m_org (f n) \<Longrightarrow> m_address (f m) = Some a
      \<Longrightarrow> m_address (f n) = Some a \<Longrightarrow> m_id m = m_id n"
  shows "members_ok seq (map f ms)"
proof -
  have e: "map m_id (map f ms) = map m_id ms" using f by auto
  have "addresses_unique (map f ms)"
    unfolding addresses_unique_def set_map ball_simps
  proof (intro ballI allI impI)
    fix m n a assume "m \<in> set ms" "n \<in> set ms" "m_org (f m) = m_org (f n)" "m_address (f m) = Some a" "m_address (f n) = Some a"
    then show "m_id (f m) = m_id (f n)" using f u by metis
  qed
  then show ?thesis unfolding members_ok_def e using assms(1) f by (simp add: members_ok_def)
qed

lemma find_member_key: "find_member db org mid \<noteq> None \<Longrightarrow> (mid, org) \<in> member_keys (member_rows db)"
  by (auto simp: find_member_def member_keys_def dest!: find_in_set)

lemma identities_ok_map:
  assumes "identities_ok seq K is1"
    and f: "\<And>i. i \<in> set is1 \<Longrightarrow> i_id (f i) = i_id i \<and> i_org (f i) = i_org i \<and> i_channel (f i) = i_channel i \<and> i_user (f i) = i_user i
      \<and> (i_member (f i), i_org i) \<in> L"
  shows "identities_ok seq L (map f is1)"
proof -
  have e: "map i_id (map f is1) = map i_id is1"
    "map (\<lambda>i. (i_org i, i_channel i, i_user i)) (map f is1) = map (\<lambda>i. (i_org i, i_channel i, i_user i)) is1"
    using f by auto
  show ?thesis unfolding identities_ok_def e using assms(1) f by (simp add: identities_ok_def)
qed

lemma identities_okD: "identities_ok seq K is1 \<Longrightarrow> i \<in> set is1 \<Longrightarrow> (i_member i, i_org i) \<in> K"
  by (simp add: identities_ok_def)

lemma find_memberD: "find_member db org mid = Some m \<Longrightarrow> m \<in> set (member_rows db) \<and> m_id m = mid \<and> m_org m = org"
  unfolding find_member_def by (drule find_in_set) simp

lemma find_identityD:
  "find_identity db org channel user = Some i \<Longrightarrow> i \<in> set (identity_rows db) \<and> i_org i = org \<and> i_channel i = channel \<and> i_user i = user"
  unfolding find_identity_def by (drule find_in_set) simp

lemma find_identity_None:
  "find_identity db org channel user = None \<longleftrightarrow>
     (\<forall>i \<in> set (identity_rows db). \<not> (i_org i = org \<and> i_channel i = channel \<and> i_user i = user))"
  unfolding find_identity_def find_None_iff by blast

section \<open>Each operation keeps it\<close>

lemma insert_identity_cases:
  assumes "insert_identity pf now member org channel user handle linkedBy db = (e, db')"
  obtains (refused) x n where "e = Some x" "db' = db\<lparr>identity_seq := n\<rparr>" "sint (identity_seq db) \<le> sint n"
  | (inserted) n where "e = None" "next_id (identity_seq db) = Some n" "Channel_Valid channel" "user \<noteq> []"
      "find_identity db org channel user = None" "find_member db org member \<noteq> None"
      "db' = db\<lparr>identity_seq := n, identity_rows := identity_rows db @ [\<lparr>i_id = n, i_member = member, i_org = org,
         i_channel = channel, i_user = user, i_handle = handle, i_linked_at = now, i_linked_by = linkedBy\<rparr>]\<rparr>"
proof (cases "next_id (identity_seq db)")
  case None
  then show thesis using assms refused [of _ "identity_seq db"] by (auto simp: insert_identity_def split: if_splits)
next
  case (Some n)
  have le: "sint (identity_seq db) \<le> sint n" using next_id_gt [OF Some] by simp
  show thesis
  proof (cases e)
    case None
    then show thesis using assms Some inserted [of n] by (auto simp: insert_identity_def Let_def split: if_splits)
  next
    case (Some x)
    then have "db' = db \<or> db' = db\<lparr>identity_seq := n\<rparr>"
      using assms \<open>next_id _ = Some n\<close> by (auto simp: insert_identity_def Let_def split: if_splits)
    then show thesis using refused [OF Some, of "identity_seq db"] refused [OF Some, of n] le by auto
  qed
qed

lemma seq_ok:
  assumes "member_db_ok db" "sint (member_seq db) \<le> sint a" "sint (identity_seq db) \<le> sint b"
  shows "member_db_ok (db\<lparr>member_seq := a, identity_seq := b\<rparr>)"
  using assms ok_mono(1) [OF _ assms(3) order_refl] ok_mono(4) [OF _ assms(2)] by (simp add: member_db_ok_def)

lemma insert_identity_ok:
  assumes ok: "member_db_ok db" and i: "insert_identity pf now member org channel user handle linkedBy db = (e, db')"
  shows "member_db_ok db' \<and> sint (identity_seq db) \<le> sint (identity_seq db') \<and> member_seq db' = member_seq db"
  using i
proof (cases rule: insert_identity_cases)
  case (refused x n)
  then show ?thesis using seq_ok [OF ok, of "member_seq db" n] by simp
next
  case (inserted n)
  have lt: "sint (identity_seq db) < sint n" using next_id_gt [OF inserted(2)] .
  have io: "identities_ok (identity_seq db) (member_keys (member_rows db)) (identity_rows db)"
    using ok by (simp add: member_db_ok_def)
  have "n \<notin> i_id ` set (identity_rows db)" using seq_fresh(2) [OF io lt] .
  moreover have "(org, channel, user) \<notin> (\<lambda>i. (i_org i, i_channel i, i_user i)) ` set (identity_rows db)"
    using inserted(5) by (auto simp: find_identity_None)
  moreover have "(member, org) \<in> member_keys (member_rows db)" using inserted(6) by (rule find_member_key)
  ultimately have "identities_ok n (member_keys (member_rows db)) (identity_rows db')"
    using io ok_mono(1) [OF io less_imp_le [OF lt] order_refl] inserted(3,4) unfolding inserted(7) identities_ok_def by simp
  then show ?thesis using ok lt by (simp add: inserted(7) member_db_ok_def)
qed

lemma new_member_fresh:
  "m_id (new_member n org handle) = n" "address_proved (new_member n org handle)"
  "addresses_unique (ms @ [new_member n org handle]) \<longleftrightarrow> addresses_unique ms"
proof -
  have e: "m_id (new_member n org handle) = n" "m_address (new_member n org handle) = None" by (simp_all add: new_member_def)
  show "m_id (new_member n org handle) = n" "address_proved (new_member n org handle)"
    by (simp_all add: new_member_def address_proved_def)
  show "addresses_unique (ms @ [new_member n org handle]) \<longleftrightarrow> addresses_unique ms"
    by (simp add: addresses_unique_def e)
qed

lemma new_member_ok:
  assumes ok: "member_db_ok db" and n: "next_id (member_seq db) = Some n"
  shows "member_db_ok (db\<lparr>member_seq := n, member_rows := member_rows db @ [new_member n org handle]\<rparr>)" (is "member_db_ok ?db'")
proof -
  have lt: "sint (member_seq db) < sint n" using next_id_gt [OF n] .
  have mo: "members_ok (member_seq db) (member_rows db)" using ok by (simp add: member_db_ok_def)
  have "n \<notin> m_id ` set (member_rows db)" using seq_fresh(1) [OF mo lt] .
  then have "members_ok n (member_rows ?db')"
    using ok_mono(4) [OF mo less_imp_le [OF lt]] new_member_fresh by (simp add: members_ok_def)
  moreover have "member_keys (member_rows db) \<subseteq> member_keys (member_rows ?db')" by (auto simp: member_keys_def)
  ultimately show ?thesis
    using ok unfolding member_db_ok_def by (auto intro: ok_mono(1) [OF _ order_refl] ok_mono(2,3))
qed

lemma create_member_ok:
  assumes ok: "member_db_ok db" and c: "create_member pf now org channel user handle db = (e, db')"
  shows "member_db_ok db'"
proof (cases "next_id (member_seq db)")
  case None
  then show ?thesis using ok c by (auto simp: create_member_def split: if_splits)
next
  case (Some n)
  let ?db1 = "db\<lparr>member_seq := n, member_rows := member_rows db @ [new_member n org handle]\<rparr>"
  have lt: "sint (member_seq db) \<le> sint n" using next_id_gt [OF Some] by simp
  obtain x db2 where i: "insert_identity pf now n org channel user handle None ?db1 = (x, db2)" by fastforce
  note i2 = insert_identity_ok [OF new_member_ok [OF ok Some] i]
  have "member_db_ok (rolled_back db db2)"
    unfolding rolled_back_def using i2 lt by (intro seq_ok [OF ok]) simp_all
  moreover have "member_db_ok (db\<lparr>member_seq := n\<rparr>)" using seq_ok [OF ok lt, of "identity_seq db"] by simp
  moreover have "db' \<in> {db, db\<lparr>member_seq := n\<rparr>, db2, rolled_back db db2}"
    using c Some i by (auto simp: create_member_def Let_def split: if_splits option.splits member_error.splits)
  ultimately show ?thesis using ok i2 by blast
qed

lemma refresh_handle_ok: "member_db_ok db \<Longrightarrow> member_db_ok (refresh_handle pf org channel user handle db)"
  by (auto simp: refresh_handle_def member_db_ok_def dest: identities_okD intro!: identities_ok_map)

lemma LinkIdentity_ok:
  assumes ok: "member_db_ok db" and c: "LinkIdentity pf now org mid channel user handle by1 db = (e, db')"
  shows "member_db_ok db'"
proof -
  define linkedBy where "linkedBy = (if by1 = 0 then None
    else map_option i_id (find (\<lambda>i. i_org i = org \<and> i_member i = by1) (identity_rows db)))"
  obtain x db1 where i: "insert_identity pf now mid org channel user handle linkedBy db = (x, db1)" by fastforce
  note i2 = insert_identity_ok [OF ok i]
  have "db' \<in> {db, db1, rolled_back db db1}"
    using c i unfolding linkedBy_def by (auto simp: LinkIdentity_def Let_def split: if_splits option.splits member_error.splits)
  moreover have "member_db_ok (rolled_back db db1)"
    unfolding rolled_back_def using i2 by (intro seq_ok [OF ok]) simp_all
  ultimately show ?thesis using ok i2 by blast
qed

lemma Role_String_parse [simp]: "parseRole (Role_String r) = r"
  by (cases r) (simp_all add: parseRole_def)

lemma GrantRole_ok:
  assumes "member_db_ok db" "GrantRole org mid role by1 db = (e, db')"
  shows "member_db_ok db'"
proof -
  have "roles_ok K (role_rows db @ [\<lparr>r_org = org, r_member = mid, r_role = Role_String role, r_granted_by = g\<rparr>])"
    if "roles_ok K (role_rows db)" "(mid, org) \<in> K" "role \<noteq> RoleNone"
      "\<not> list_ex (\<lambda>r. r_org r = org \<and> r_member r = mid \<and> r_role r = Role_String role) (role_rows db)" for K g
    using that by (auto simp: roles_ok_def list_ex_iff)
  then show ?thesis
    using assms find_member_key by (auto simp: GrantRole_def member_db_ok_def split: if_splits)
qed

lemma BindRole_ok:
  assumes "member_db_ok db" "BindRole pf org channel platformRole role db = (e, db')"
  shows "member_db_ok db'"
  using assms by (auto simp: BindRole_def Let_def member_db_ok_def bindings_ok_def not_le split: if_splits)

lemma SetRole_ok:
  assumes "member_db_ok db" "SetRole org mid role by1 db = (e, db')"
  shows "member_db_ok db'"
proof -
  let ?c = "filter (\<lambda>r. \<not> (r_org r = org \<and> r_member r = mid)) (role_rows db)"
  have c: "roles_ok K ?c" if "roles_ok K (role_rows db)" for K
    using that by (auto simp: roles_ok_def distinct_map_filter)
  moreover have "roles_ok K (?c @ [\<lparr>r_org = org, r_member = mid, r_role = Role_String role, r_granted_by = g\<rparr>])"
    if "roles_ok K (role_rows db)" "(mid, org) \<in> K" "role \<noteq> RoleNone" for K g
    using c [OF that(1)] that(2,3) by (auto simp: roles_ok_def)
  ultimately show ?thesis
    using assms find_member_key by (auto simp: SetRole_def Let_def member_db_ok_def split: if_splits)
qed

lemma bind_address_ok:
  assumes ok: "member_db_ok db" and b: "bind_address now org mid address source db = (e, db')"
  shows "member_db_ok db'"
proof (cases e)
  case None
  let ?f = "\<lambda>m. if m_org m = org \<and> m_id m = mid
      then m\<lparr>m_address := Some address, m_source := Some source, m_verified := Some now\<rparr> else m"
  have b: "issuer_ok address" "\<forall>m \<in> set (member_rows db). \<not> (m_org m = org \<and> m_id m \<noteq> mid \<and> m_address m = Some address)"
    "db' = db\<lparr>member_rows := map ?f (member_rows db)\<rparr>"
    using b None by (auto simp: bind_address_def list_ex_iff split: if_splits)
  have k: "member_keys (map ?f (member_rows db)) = member_keys (member_rows db)"
    unfolding member_keys_def set_map image_image by (rule image_cong) simp_all
  have "members_ok seq (map ?f ms)"
    if mo: "members_ok seq ms" and free: "\<forall>m \<in> set ms. \<not> (m_org m = org \<and> m_id m \<noteq> mid \<and> m_address m = Some address)" for seq ms
  proof (rule members_ok_map [OF mo])
    fix m assume "m \<in> set ms"
    then have "address_proved m" using mo by (simp add: members_ok_def)
    then show "m_id (?f m) = m_id m \<and> address_proved (?f m)" using b(1) by (auto simp: address_proved_def)
  next
    fix x y a assume xy: "x \<in> set ms" "y \<in> set ms" "m_org (?f x) = m_org (?f y)" "m_address (?f x) = Some a" "m_address (?f y) = Some a"
    then have "m_org x = m_org y \<Longrightarrow> m_address x = Some a \<Longrightarrow> m_address y = Some a \<Longrightarrow> m_id x = m_id y"
      using mo unfolding members_ok_def addresses_unique_def by blast
    then show "m_id x = m_id y" using xy free by (auto split: if_splits)
  qed
  then show ?thesis using ok b(2) unfolding b(3) by (simp add: member_db_ok_def k)
next
  case (Some x)
  then show ?thesis using assms by (auto simp: bind_address_def split: if_splits)
qed

lemma release_member_rows:
  "member_rows (release_member org address db) = map (\<lambda>m. if m_org m = org \<and> m_address m = Some address
     then m\<lparr>m_address := None, m_source := None, m_verified := None\<rparr> else m) (member_rows db)"
  by (simp add: release_member_def)

lemma release_member_ok:
  assumes ok: "member_db_ok db"
  shows "member_db_ok (release_member org address db)"
proof -
  let ?f = "\<lambda>m. if m_org m = org \<and> m_address m = Some address then m\<lparr>m_address := None, m_source := None, m_verified := None\<rparr> else m"
  have k: "member_keys (map ?f (member_rows db)) = member_keys (member_rows db)"
    unfolding member_keys_def set_map image_image by (rule image_cong) simp_all
  have "members_ok seq (map ?f ms)" if mo: "members_ok seq ms" for seq ms
  proof (rule members_ok_map [OF mo])
    fix m assume "m \<in> set ms"
    then have "address_proved m" using mo by (simp add: members_ok_def)
    then show "m_id (?f m) = m_id m \<and> address_proved (?f m)" by (auto simp: address_proved_def)
  next
    fix x y a assume "x \<in> set ms" "y \<in> set ms" "m_org (?f x) = m_org (?f y)" "m_address (?f x) = Some a" "m_address (?f y) = Some a"
    then have "x \<in> set ms" "y \<in> set ms" "m_org x = m_org y" "m_address x = Some a" "m_address y = Some a" by (simp_all split: if_splits)
    then show "m_id x = m_id y" using mo unfolding members_ok_def addresses_unique_def by blast
  qed
  then show ?thesis using ok by (simp add: release_member_def member_db_ok_def k)
qed

lemma claim_ok:
  assumes "member_db_ok db" "claim now P db = Some (c, db')"
  shows "member_db_ok db'"
proof -
  let ?f = "\<lambda>d. if P d then d\<lparr>ch_consumed := Some now\<rparr> else d"
  have "challenges_ok (map ?f cs)" if "challenges_ok cs" for cs
  proof -
    have "map ch_hash (map ?f cs) = map ch_hash cs" by simp
    moreover have e: "map (\<lambda>c. (ch_identity c, ch_purpose c)) (filter (\<lambda>c. ch_consumed c = None) (map ?f cs)) =
      map (\<lambda>c. (ch_identity c, ch_purpose c)) (filter (\<lambda>c. \<not> P c) (filter (\<lambda>c. ch_consumed c = None) cs))"
      by (induction cs) auto
    ultimately show ?thesis using that unfolding challenges_ok_def e
      by (simp add: distinct_map_filter del: filter_filter map_map) auto
  qed
  then show ?thesis using assms by (auto simp: claim_def member_db_ok_def split: option.splits)
qed

lemma ConsumeChallenge_cases:
  assumes "ConsumeChallenge pf now org hash address source db = (r, db')"
  obtains (refused) e where "r = Inl e" "db' = db"
  | (bound) c i db1 where "r = Inr (i_member i)" "claim now (\<lambda>c. live now org hash c \<and> ch_address c = address) db = Some (c, db1)"
      "find (\<lambda>i. i_id i = ch_identity c \<and> i_org i = org) (identity_rows db1) = Some i"
      "bind_address now org (i_member i) address source db1 = (None, db')"
  using assms by (auto simp: ConsumeChallenge_def split: if_splits option.splits prod.splits)

lemma ConsumeChallenge_ok:
  assumes "member_db_ok db" "ConsumeChallenge pf now org hash address source db = (r, db')"
  shows "member_db_ok db'"
  using assms(2)
  by (cases rule: ConsumeChallenge_cases) (use assms(1) claim_ok bind_address_ok in blast)+

lemma SaveChallenge_ok:
  assumes "member_db_ok db" "SaveChallenge pf now c db = (e, db')"
  shows "member_db_ok db'"
proof -
  let ?k = "filter (\<lambda>d. \<not> (ch_identity d = ch_identity c \<and> ch_purpose d = ch_purpose c \<and> ch_consumed d = None)) (challenge_rows db)"
  have f: "filter (\<lambda>d. ch_consumed d = None) ?k =
      filter (\<lambda>d. \<not> (ch_identity d = ch_identity c \<and> ch_purpose d = ch_purpose c)) (filter (\<lambda>d. ch_consumed d = None) (challenge_rows db))"
    by (auto intro: filter_cong)
  have "challenges_ok (?k @ [c\<lparr>ch_consumed := None\<rparr>])"
    if "challenges_ok (challenge_rows db)" "challenge_checks now c" "ch_hash c \<notin> ch_hash ` set ?k"
    unfolding challenges_ok_def filter_append map_append f using that
    by (auto simp: challenges_ok_def challenge_checks_def distinct_map_filter simp del: filter_filter)
  then show ?thesis
    using assms by (auto simp: SaveChallenge_def Let_def member_db_ok_def split: if_splits)
qed

lemma IssueLinkCode_ok:
  assumes "member_db_ok db" "IssueLinkCode now org member by1 ttl draws db = (r, db')"
  shows "member_db_ok db'"
proof -
  let ?k = "filter (\<lambda>d. \<not> (k_member d = member \<and> k_consumed d = None)) (code_rows db)"
  have f: "filter (\<lambda>d. k_consumed d = None) ?k = filter (\<lambda>d. k_member d \<noteq> member) (filter (\<lambda>d. k_consumed d = None) (code_rows db))"
    by (auto intro: filter_cong)
  have "codes_ok K (?k @ [k])"
    if "codes_ok K (code_rows db)" "k_code k \<notin> k_code ` set ?k" "k_member k = member" "(member, k_org k) \<in> K" for k K
    unfolding codes_ok_def filter_append map_append f using that
    by (auto simp: codes_ok_def distinct_map_filter simp del: filter_filter)
  then show ?thesis
    using assms find_member_key [of db org member] by (auto simp: IssueLinkCode_def Let_def member_db_ok_def split: if_splits)
qed

text \<open>A member is deleted only when no identity, no role and no address is lost with it.\<close>

lemma deleteEmptyMember_cases:
  assumes "deleteEmptyMember org member db = (e, db')"
  obtains (kept) "db' = db"
  | (deleted) m where "m \<in> set (member_rows db)" "m_id m = member" "m_org m = org" "m_address m = None"
      "\<forall>i \<in> set (identity_rows db). i_member i \<noteq> member" "\<forall>r \<in> set (role_rows db). r_member r \<noteq> member"
      "db' = db\<lparr>member_rows := filter (\<lambda>m. \<not> (m_id m = member \<and> m_org m = org)) (member_rows db),
         code_rows := filter (\<lambda>k. \<not> (k_member k = member \<and> k_org k = org)) (code_rows db)\<rparr>"
proof -
  let ?P = "\<lambda>m. m_id m = member \<and> m_org m = org \<and> m_address m = None
      \<and> \<not> list_ex (\<lambda>i. i_member i = m_id m) (identity_rows db) \<and> \<not> list_ex (\<lambda>r. r_member r = m_id m) (role_rows db)"
  show thesis
  proof (cases "find ?P (member_rows db)")
    case None
    then show thesis using assms kept unfolding deleteEmptyMember_def None by simp
  next
    case (Some m)
    then have "m \<in> set (member_rows db)" "?P m" using find_in_set [OF Some] by blast+
    then have p: "m \<in> set (member_rows db)" "m_id m = member" "m_org m = org" "m_address m = None"
      "\<forall>i \<in> set (identity_rows db). i_member i \<noteq> member" "\<forall>r \<in> set (role_rows db). r_member r \<noteq> member"
      by (auto simp: list_ex_iff)
    show thesis
    proof (cases "member \<in> set (member_refs db)")
      case True
      then show thesis using assms kept unfolding deleteEmptyMember_def Some by simp
    next
      case False
      then show thesis using assms deleted [OF p] unfolding deleteEmptyMember_def Some by simp
    qed
  qed
qed

lemma deleteEmptyMember_ok:
  assumes ok: "member_db_ok db" and d: "deleteEmptyMember org member db = (e, db')"
  shows "member_db_ok db'"
  using d
proof (cases rule: deleteEmptyMember_cases)
  case kept
  then show ?thesis using ok by simp
next
  case (deleted m)
  let ?ms = "filter (\<lambda>m. \<not> (m_id m = member \<and> m_org m = org)) (member_rows db)"
  let ?K = "member_keys (member_rows db)"
  have k: "(a, b) \<in> ?K \<Longrightarrow> \<not> (a = member \<and> b = org) \<Longrightarrow> (a, b) \<in> member_keys ?ms" for a b
    by (auto simp: member_keys_def)
  have "members_ok (member_seq db) ?ms"
    using ok addresses_unique_filter by (simp add: member_db_ok_def members_ok_def distinct_map_filter)
  moreover have "identities_ok (identity_seq db) (member_keys ?ms) (identity_rows db)"
    using ok deleted(5) k by (auto simp: member_db_ok_def identities_ok_def)
  moreover have "roles_ok (member_keys ?ms) (role_rows db)"
    using ok deleted(6) k by (auto simp: member_db_ok_def roles_ok_def)
  moreover have "codes_ok (member_keys ?ms) (filter (\<lambda>k. \<not> (k_member k = member \<and> k_org k = org)) (code_rows db))"
  proof -
    have f: "filter (\<lambda>k. k_consumed k = None) (filter (\<lambda>k. \<not> (k_member k = member \<and> k_org k = org)) (code_rows db)) =
      filter (\<lambda>k. \<not> (k_member k = member \<and> k_org k = org)) (filter (\<lambda>k. k_consumed k = None) (code_rows db))"
      by (auto intro: filter_cong)
    show ?thesis unfolding codes_ok_def f using ok k
      by (auto simp: member_db_ok_def codes_ok_def distinct_map_filter simp del: filter_filter)
  qed
  ultimately show ?thesis using ok by (simp add: deleted(7) member_db_ok_def)
qed

lemma move_identity_ok:
  assumes ok: "member_db_ok db" and k: "(k_member k, i_org i) \<in> member_keys (member_rows db)" and i: "i \<in> set (identity_rows db)"
  shows "member_db_ok (db\<lparr>identity_rows := map (\<lambda>j. if i_id j = i_id i
    then j\<lparr>i_member := k_member k, i_handle := handle, i_linked_by := b\<rparr> else j) (identity_rows db)\<rparr>)"
proof -
  have "j = i" if "j \<in> set (identity_rows db)" "i_id j = i_id i" for j
    using ok i that by (auto simp: member_db_ok_def identities_ok_def distinct_map dest: inj_onD)
  then have "identities_ok (identity_seq db) (member_keys (member_rows db)) (map (\<lambda>j. if i_id j = i_id i
      then j\<lparr>i_member := k_member k, i_handle := handle, i_linked_by := b\<rparr> else j) (identity_rows db))"
    using ok k unfolding member_db_ok_def by (intro identities_ok_map) (auto simp: identities_ok_def)
  then show ?thesis using ok by (simp add: member_db_ok_def)
qed

lemma speakerD:
  "speaker db org channel user = Some (i, m) \<Longrightarrow> i \<in> set (identity_rows db) \<and> i_org i = org \<and> i_channel i = channel \<and> i_user i = user
     \<and> m \<in> set (member_rows db) \<and> m_id m = i_member i \<and> m_org m = org"
  by (auto simp: speaker_def dest!: find_identityD find_memberD split: option.splits)

lemma attach_cases:
  assumes "attach pf now org k channel user handle db = (e, db')"
  obtains (fresh) "speaker db org channel user = None"
      "insert_identity pf now (k_member k) org channel user handle (Some (k_issued_by k)) db = (e, db')"
  | (same) i m where "speaker db org channel user = Some (i, m)" "m_id m = k_member k \<or> e \<noteq> None" "db' = db"
  | (moved) i m where "speaker db org channel user = Some (i, m)" "m_id m \<noteq> k_member k" "m_address m = None"
      "deleteEmptyMember org (m_id m) (db\<lparr>identity_rows := map (\<lambda>j. if i_id j = i_id i
         then j\<lparr>i_member := k_member k, i_handle := handle, i_linked_by := Some (k_issued_by k)\<rparr> else j) (identity_rows db)\<rparr>) = (e, db')"
  using assms by (auto simp: attach_def split: option.splits prod.splits if_splits)

lemma deleteEmptyMember_seq:
  "deleteEmptyMember org member db = (e, db') \<Longrightarrow> member_seq db' = member_seq db \<and> identity_seq db' = identity_seq db"
  by (auto simp: deleteEmptyMember_def split: option.splits if_splits)

lemma attach_ok:
  assumes ok: "member_db_ok db" and k: "(k_member k, org) \<in> member_keys (member_rows db)"
    and a: "attach pf now org k channel user handle db = (e, db')"
  shows "member_db_ok db' \<and> sint (identity_seq db) \<le> sint (identity_seq db') \<and> member_seq db' = member_seq db"
  using a
proof (cases rule: attach_cases)
  case fresh
  then show ?thesis using insert_identity_ok [OF ok] by blast
next
  case (same i m)
  then show ?thesis using ok by simp
next
  case (moved i m)
  have "i \<in> set (identity_rows db)" "i_org i = org" using speakerD [OF moved(1)] by simp_all
  then have "member_db_ok (db\<lparr>identity_rows := map (\<lambda>j. if i_id j = i_id i
      then j\<lparr>i_member := k_member k, i_handle := handle, i_linked_by := Some (k_issued_by k)\<rparr> else j) (identity_rows db)\<rparr>)"
    using k by (intro move_identity_ok [OF ok]) simp_all
  from deleteEmptyMember_ok [OF this moved(4)] deleteEmptyMember_seq [OF moved(4)] show ?thesis by simp
qed

lemma codes_ok_map:
  assumes "codes_ok K ks" "\<And>k. k_code (f k) = k_code k \<and> k_member (f k) = k_member k \<and> k_org (f k) = k_org k
    \<and> (k_consumed (f k) = None \<longrightarrow> k_consumed k = None)"
  shows "codes_ok K (map f ks)"
proof -
  have "map k_code (map f ks) = map k_code ks" using assms(2) by simp
  moreover have "map k_member (filter (\<lambda>k. k_consumed k = None) (map f ks)) =
    map k_member (filter (\<lambda>k. k_consumed (f k) = None) (filter (\<lambda>k. k_consumed k = None) ks))"
  proof (induction ks)
    case (Cons k ks)
    then show ?case using assms(2) [of k] by simp
  qed simp
  ultimately show ?thesis using assms unfolding codes_ok_def by (simp add: distinct_map_filter del: filter_filter map_map)
qed

lemma ClaimLinkCode_cases:
  assumes "ClaimLinkCode pf now org code channel user handle db = (r, db')"
  defines "db1 \<equiv> db\<lparr>code_rows := map (\<lambda>d. if live_code now org code d then d\<lparr>k_consumed := Some now\<rparr> else d) (code_rows db)\<rparr>"
  obtains (refused) e where "r = Inl e" "db' = db"
  | (failed) k e db2 where "r = Inl e" "find (live_code now org code) (code_rows db) = Some k"
      "attach pf now org k channel user handle db1 = (Some e, db2)" "db' = rolled_back db db2"
  | (claimed) k db2 where "r = Inr (k_member k)" "find (live_code now org code) (code_rows db) = Some k"
      "attach pf now org k channel user handle db1 = (None, db2)"
      "db' = db2\<lparr>code_rows := map (\<lambda>d. if k_code d = code
         then d\<lparr>k_consumed_by := map_option i_id (find_identity db2 org channel user)\<rparr> else d) (code_rows db2)\<rparr>"
proof (cases "find (live_code now org code) (code_rows db)")
  case None
  then show thesis using assms(1) refused by (auto simp: ClaimLinkCode_def split: if_splits)
next
  case (Some k)
  obtain e db2 where a: "attach pf now org k channel user handle db1 = (e, db2)" by fastforce
  show thesis
  proof (cases "text_ok pf code \<and> text_ok pf user \<and> text_ok pf channel")
    case True
    then show thesis
      using assms(1) failed [OF _ Some] claimed [OF _ Some] a unfolding ClaimLinkCode_def Some Let_def db1_def [symmetric]
      by (cases e) auto
  next
    case False
    then show thesis using assms(1) refused unfolding ClaimLinkCode_def Some Let_def by (auto split: if_splits)
  qed
qed

lemma claimed_code:
  assumes "member_db_ok db" "find (live_code now org code) (code_rows db) = Some k"
  defines "db1 \<equiv> db\<lparr>code_rows := map (\<lambda>d. if live_code now org code d then d\<lparr>k_consumed := Some now\<rparr> else d) (code_rows db)\<rparr>"
  shows "member_db_ok db1" "(k_member k, org) \<in> member_keys (member_rows db1)"
proof -
  have "k \<in> set (code_rows db)" "k_org k = org" using find_in_set [OF assms(2)] by (auto simp: live_code_def)
  then show "(k_member k, org) \<in> member_keys (member_rows db1)"
    using assms(1) unfolding db1_def member_db_ok_def codes_ok_def by auto
  show "member_db_ok db1" using assms(1) unfolding db1_def member_db_ok_def by (auto intro!: codes_ok_map split: if_splits)
qed

lemma ClaimLinkCode_ok:
  assumes ok: "member_db_ok db" and c: "ClaimLinkCode pf now org code channel user handle db = (r, db')"
  shows "member_db_ok db'"
  using c
proof (cases rule: ClaimLinkCode_cases)
  case refused
  then show ?thesis using ok by simp
next
  case (failed k e db2)
  note a = attach_ok [OF claimed_code [OF ok failed(2)] failed(3)]
  show ?thesis unfolding failed(4) rolled_back_def using a by (intro seq_ok [OF ok]) simp_all
next
  case (claimed k db2)
  have "member_db_ok db2" using attach_ok [OF claimed_code [OF ok claimed(2)] claimed(3)] by simp
  then show ?thesis unfolding claimed(4) member_db_ok_def by (auto intro!: codes_ok_map split: if_splits)
qed

lemma step_member_db_ok:
  assumes "member_step pf db db'" "member_db_ok db"
  shows "member_db_ok db'"
  using assms(1)
proof cases
  case (m_rows new refs)
  then show ?thesis using assms(2) by (simp add: member_db_ok_def)
next
  case (m_release org address)
  then show ?thesis using assms(2) release_member_ok by simp
next
  case (m_handle org channel user handle)
  then show ?thesis using assms(2) refresh_handle_ok by simp
next
  case m_create
  then show ?thesis using create_member_ok [OF assms(2)] by blast
next
  case m_link
  then show ?thesis using LinkIdentity_ok [OF assms(2)] by blast
next
  case m_grant
  then show ?thesis using GrantRole_ok [OF assms(2)] by blast
next
  case m_bind
  then show ?thesis using BindRole_ok [OF assms(2)] by blast
next
  case m_set
  then show ?thesis using SetRole_ok [OF assms(2)] by blast
next
  case m_save
  then show ?thesis using SaveChallenge_ok [OF assms(2)] by blast
next
  case m_consume
  then show ?thesis using ConsumeChallenge_ok [OF assms(2)] by blast
next
  case m_issue
  then show ?thesis using IssueLinkCode_ok [OF assms(2)] by blast
next
  case m_claim
  then show ?thesis using ClaimLinkCode_ok [OF assms(2)] by blast
next
  case m_spend
  then show ?thesis using claim_ok [OF assms(2)] by blast
qed

lemma member_init_ok: "member_db_ok member_init"
  by (simp add: member_init_def member_db_ok_def members_ok_def addresses_unique_def identities_ok_def roles_ok_def bindings_ok_def
      challenges_ok_def codes_ok_def)

lemma steps_member_db_ok: "(member_step pf)\<^sup>*\<^sup>* db db' \<Longrightarrow> member_db_ok db \<Longrightarrow> member_db_ok db'"
  by (induction rule: rtranclp_induct) (auto intro: step_member_db_ok)

lemma write_member_db_ok:
  assumes "member_write pf db db'" "member_db_ok db"
  shows "member_db_ok db'"
  using assms(1)
proof cases
  case w_step
  then show ?thesis using step_member_db_ok assms(2) by blast
next
  case (w_address now org mid address source e)
  then show ?thesis using assms(2) bind_address_ok by (auto simp: SetMemberAddress_def split: if_splits)
next
  case (w_revoke org mid role)
  have "roles_ok K (filter P rs)" if "roles_ok K rs" for K P rs using that by (auto simp: roles_ok_def distinct_map_filter)
  then show ?thesis using assms(2) w_revoke by (simp add: RevokeRole_def member_db_ok_def)
qed

lemma writes_member_db_ok: "(member_write pf)\<^sup>*\<^sup>* db db' \<Longrightarrow> member_db_ok db \<Longrightarrow> member_db_ok db'"
  by (induction rule: rtranclp_induct) (auto intro: write_member_db_ok)

end
