(* ===== verification/Member_Safety.thy ===== *)
theory Member_Safety
  imports Members_Inv
begin

text \<open>
  What the member store promises its callers, on top of the invariant of \<open>Members_Inv\<close>: a shared code never touches a
  proved member, an address is bound only by spending a challenge issued for it, a challenge is spent once, an org keeps an
  admin, and no platform role makes one.
\<close>

section \<open>A code cannot move a proved member\<close>

text \<open>What an operation that only links accounts leaves alone.\<close>

definition spares_proved :: "member_db \<Rightarrow> member_db \<Rightarrow> bool" where
  "spares_proved db db' \<longleftrightarrow> set (member_rows db') \<subseteq> set (member_rows db)
     \<and> (\<forall>m \<in> set (member_rows db). m_address m \<noteq> None \<longrightarrow> m \<in> set (member_rows db'))
     \<and> role_rows db' = role_rows db
     \<and> (\<forall>i \<in> set (identity_rows db). \<forall>m \<in> set (member_rows db). m_id m = i_member i \<and> m_org m = i_org i \<and> m_address m \<noteq> None
          \<longrightarrow> i \<in> set (identity_rows db'))"

lemma spares_proved_cong:
  "member_rows a = member_rows b \<Longrightarrow> role_rows a = role_rows b \<Longrightarrow> identity_rows a = identity_rows b \<Longrightarrow>
     member_rows c = member_rows d \<Longrightarrow> role_rows c = role_rows d \<Longrightarrow> identity_rows c = identity_rows d \<Longrightarrow>
     spares_proved a c \<longleftrightarrow> spares_proved b d"
  by (simp add: spares_proved_def)

lemma attach_spares_proved:
  assumes ok: "member_db_ok db" and a: "attach pf now org k channel user handle db = (e, db')"
  shows "spares_proved db db'"
  using a
proof (cases rule: attach_cases)
  case fresh
  from fresh(2) show ?thesis by (cases rule: insert_identity_cases) (simp_all add: spares_proved_def)
next
  case (same i m)
  then show ?thesis by (simp add: spares_proved_def)
next
  case (moved i m)
  note sp = speakerD [OF moved(1)]
  let ?f = "\<lambda>j. if i_id j = i_id i then j\<lparr>i_member := k_member k, i_handle := handle, i_linked_by := Some (k_issued_by k)\<rparr> else j"
  have d: "distinct (map i_id (identity_rows db))" "distinct (map m_id (member_rows db))"
    using ok by (simp_all add: member_db_ok_def identities_ok_def members_ok_def)
  have "n = m" if "n \<in> set (member_rows db)" "m_id n = m_id m" for n
    using d(2) sp that unfolding distinct_map inj_on_def by blast
  moreover have "j = i" if "j \<in> set (identity_rows db)" "i_id j = i_id i" for j
    using d(1) sp that by (auto simp: distinct_map dest: inj_onD)
  ultimately have "i_id j \<noteq> i_id i"
    if "j \<in> set (identity_rows db)" "n \<in> set (member_rows db)" "m_id n = i_member j" "m_address n \<noteq> None" for j n
    using sp that moved(3) by metis
  then have keep: "j \<in> set (map ?f (identity_rows db))"
    if "j \<in> set (identity_rows db)" "n \<in> set (member_rows db)" "m_id n = i_member j" "m_address n \<noteq> None" for j n
    unfolding set_map using that by (intro image_eqI [of _ _ j]) auto
  from moved(4) show ?thesis
  proof (cases rule: deleteEmptyMember_cases)
    case kept
    then show ?thesis using keep unfolding spares_proved_def by simp
  next
    case (deleted x)
    have "n \<in> set (member_rows db')" if "n \<in> set (member_rows db)" "m_address n \<noteq> None" for n
    proof -
      have "n = x" if "m_id n = m_id m"
        using d(2) deleted(1,2) \<open>n \<in> _\<close> that unfolding distinct_map inj_on_def by simp
      then have "m_id n \<noteq> m_id m" using \<open>m_address n \<noteq> None\<close> deleted(4) by auto
      then show ?thesis using that by (simp add: deleted(7))
    qed
    then show ?thesis using keep unfolding spares_proved_def by (simp add: deleted(7))
  qed
qed

lemma ClaimLinkCode_spares_proved:
  assumes ok: "member_db_ok db" and c: "ClaimLinkCode pf now org code channel user handle db = (r, db')"
  shows "spares_proved db db'"
  using c
proof (cases rule: ClaimLinkCode_cases)
  case refused
  then show ?thesis by (simp add: spares_proved_def)
next
  case failed
  then show ?thesis by (simp add: spares_proved_def rolled_back_def)
next
  case (claimed k db2)
  have "spares_proved (db\<lparr>code_rows := map (\<lambda>d. if live_code now org code d then d\<lparr>k_consumed := Some now\<rparr> else d) (code_rows db)\<rparr>) db2"
    using attach_spares_proved claimed_code(1) [OF ok claimed(2)] claimed(3) by blast
  then show ?thesis by (simp add: claimed(4) spares_proved_def)
qed

section \<open>An address is bound by a challenge\<close>

lemma claimD:
  assumes "claim now P db = Some (c, db')"
  shows "c \<in> set (challenge_rows db)" "P c" "member_rows db' = member_rows db" "identity_rows db' = identity_rows db"
    "challenge_rows db' = map (\<lambda>d. if P d then d\<lparr>ch_consumed := Some now\<rparr> else d) (challenge_rows db)"
  using assms by (auto simp: claim_def dest: find_in_set split: option.splits)

lemma bind_addressD:
  assumes "bind_address now org mid address source db = (None, db')"
  shows "member_rows db' = map (\<lambda>m. if m_org m = org \<and> m_id m = mid
      then m\<lparr>m_address := Some address, m_source := Some source, m_verified := Some now\<rparr> else m) (member_rows db)"
    "identity_rows db' = identity_rows db" "challenge_rows db' = challenge_rows db"
    "(mid, org) \<in> member_keys (member_rows db)"
  using assms find_member_key [of db org mid] by (auto simp: bind_address_def split: if_splits)

text \<open>What a successful \<open>ConsumeChallenge\<close> did.\<close>

lemma ConsumeChallenge_bound:
  assumes "ConsumeChallenge pf now org hash address source db = (Inr mid, db')"
  obtains c i where "c \<in> set (challenge_rows db)" "live now org hash c" "ch_address c = address"
    "i \<in> set (identity_rows db)" "i_id i = ch_identity c" "i_org i = org" "i_member i = mid"
    "(mid, org) \<in> member_keys (member_rows db)"
    "member_rows db' = map (\<lambda>m. if m_org m = org \<and> m_id m = mid
       then m\<lparr>m_address := Some address, m_source := Some source, m_verified := Some now\<rparr> else m) (member_rows db)"
    "identity_rows db' = identity_rows db" "c\<lparr>ch_consumed := Some now\<rparr> \<in> set (challenge_rows db')"
  using assms
proof (cases rule: ConsumeChallenge_cases)
  case (bound c i db1)
  note cl = claimD [OF bound(2)] and b = bind_addressD [OF bound(4)] and i = find_in_set [OF bound(3)]
  have "c\<lparr>ch_consumed := Some now\<rparr> \<in> set (challenge_rows db')"
    using cl(1,2) unfolding b(3) cl(5) set_map by (intro image_eqI [of _ _ c]) simp_all
  then show ?thesis using that [of c i] cl b i bound(1) by auto
qed simp

definition has_address :: "member_db \<Rightarrow> MemberID \<Rightarrow> string \<Rightarrow> bool" where
  "has_address db mid a \<longleftrightarrow> (\<exists>m \<in> set (member_rows db). m_id m = mid \<and> m_address m = Some a)"

lemma same_members_address:
  "(\<And>m. m \<in> set (member_rows db') \<Longrightarrow> m_address m \<noteq> None \<Longrightarrow> m \<in> set (member_rows db)) \<Longrightarrow> has_address db' mid a \<Longrightarrow> has_address db mid a"
  by (force simp: has_address_def)

lemma insert_identity_members:
  "insert_identity pf now member org channel user handle linkedBy db = (e, db') \<Longrightarrow> member_rows db' = member_rows db"
  by (erule insert_identity_cases) simp_all

lemma create_member_members:
  assumes "create_member pf now org channel user handle db = (e, db')"
  shows "member_rows db' = member_rows db \<or> (\<exists>n. member_rows db' = member_rows db @ [new_member n org handle])"
proof (cases "next_id (member_seq db)")
  case None
  then show ?thesis using assms by (auto simp: create_member_def split: if_splits)
next
  case (Some n)
  let ?db1 = "db\<lparr>member_seq := n, member_rows := member_rows db @ [new_member n org handle]\<rparr>"
  obtain x db2 where i: "insert_identity pf now n org channel user handle None ?db1 = (x, db2)" by fastforce
  have "db' \<in> {db, db\<lparr>member_seq := n\<rparr>, db2, rolled_back db db2}"
    using assms Some i by (auto simp: create_member_def Let_def split: if_splits option.splits member_error.splits)
  then show ?thesis using insert_identity_members [OF i] by (auto simp: rolled_back_def)
qed

text \<open>Every step but the spending of a challenge leaves the proved addresses alone.\<close>

lemma step_address:
  assumes "member_step pf db db'" "member_db_ok db" "has_address db' mid a" "\<not> has_address db mid a"
  obtains now org hash source where "ConsumeChallenge pf now org hash a source db = (Inr mid, db')"
  using assms(1)
proof cases
  case (m_create now org channel user handle e)
  then show ?thesis using create_member_members [OF m_create] assms(3,4) by (auto simp: has_address_def new_member_def)
next
  case (m_link now org mid' channel user handle by1 e)
  then have "member_rows db' = member_rows db"
    by (auto simp: LinkIdentity_def Let_def rolled_back_def dest: insert_identity_members
        split: if_splits prod.splits option.splits member_error.splits)
  then show ?thesis using assms(3,4) by (simp add: has_address_def)
next
  case (m_claim now org code channel user handle r)
  then show ?thesis using ClaimLinkCode_spares_proved [OF assms(2)] assms(3,4) by (force simp: spares_proved_def has_address_def)
next
  case (m_consume now org hash address source r)
  show ?thesis
  proof (cases r)
    case (Inl e)
    with m_consume have "db' = db" by (cases rule: ConsumeChallenge_cases) simp_all
    then show ?thesis using assms(3,4) by simp
  next
    case (Inr n)
    have rows: "member_rows db' = map (\<lambda>m. if m_org m = org \<and> m_id m = n
        then m\<lparr>m_address := Some address, m_source := Some source, m_verified := Some now\<rparr> else m) (member_rows db)"
      using m_consume unfolding Inr by (rule ConsumeChallenge_bound)
    then have "mid = n \<and> a = address" using assms(3,4) by (auto simp: has_address_def split: if_splits)
    then show ?thesis using that m_consume Inr by blast
  qed
next
  case (m_spend now P c)
  then show ?thesis using claimD(3) assms(3,4) by (fastforce simp: has_address_def)
qed (use assms(3,4) in \<open>auto simp: has_address_def refresh_handle_def release_member_def GrantRole_def BindRole_def SetRole_def SaveChallenge_def
    IssueLinkCode_def Let_def split: if_splits\<close>)

section \<open>A challenge is spent once\<close>

lemma claim_keeps_spent:
  assumes "claim now P db = Some (c, db')" "\<forall>d. P d \<longrightarrow> ch_consumed d = None" "d \<in> set (challenge_rows db)" "ch_consumed d \<noteq> None"
  shows "d \<in> set (challenge_rows db')"
  unfolding claimD(5) [OF assms(1)] set_map using assms(2-4) by (intro image_eqI [of _ _ d]) auto

lemma step_keeps_spent:
  assumes "member_step pf db db'" "d \<in> set (challenge_rows db)" "ch_consumed d \<noteq> None"
  shows "d \<in> set (challenge_rows db')"
  using assms(1)
proof cases
  case (m_create now org channel user handle e)
  have i: "challenge_rows y = challenge_rows x" if "insert_identity pf now mid org channel user handle b x = (e', y)" for x y b e' mid
    using that by (rule insert_identity_cases) simp_all
  from m_create have "challenge_rows db' = challenge_rows db"
    by (auto simp: create_member_def Let_def rolled_back_def dest: i split: if_splits prod.splits option.splits member_error.splits)
  then show ?thesis using assms(2) by simp
next
  case (m_link now org mid channel user handle by1 e)
  have i: "challenge_rows y = challenge_rows x" if "insert_identity pf now mid org channel user handle b x = (e', y)" for x y b e'
    using that by (rule insert_identity_cases) simp_all
  from m_link have "challenge_rows db' = challenge_rows db"
    by (auto simp: LinkIdentity_def Let_def rolled_back_def dest: i split: if_splits prod.splits option.splits member_error.splits)
  then show ?thesis using assms(2) by simp
next
  case (m_save now c e)
  then show ?thesis using assms(2,3) by (auto simp: SaveChallenge_def Let_def split: if_splits)
next
  case (m_consume now org hash address source r)
  from m_consume show ?thesis
  proof (cases rule: ConsumeChallenge_cases)
    case (bound c i db1)
    have "d \<in> set (challenge_rows db1)" using claim_keeps_spent [OF bound(2)] assms(2,3) by (simp add: live_def)
    then show ?thesis using bind_addressD(3) [OF bound(4)] by simp
  qed (use assms(2) in simp)
next
  case (m_claim now org code channel user handle r)
  have i: "challenge_rows y = challenge_rows x" if "attach pf now org k channel user handle x = (e, y)" for x y e k
    using that
  proof (cases rule: attach_cases)
    case fresh
    from fresh(2) show ?thesis by (rule insert_identity_cases) simp_all
  next
    case (moved i m)
    from moved(4) show ?thesis by (cases rule: deleteEmptyMember_cases) simp_all
  qed simp
  from m_claim have "challenge_rows db' = challenge_rows db"
    by (cases rule: ClaimLinkCode_cases) (auto simp: rolled_back_def dest: i)
  then show ?thesis using assms(2) by simp
next
  case (m_spend now P c)
  then show ?thesis using claim_keeps_spent assms(2,3) by blast
qed (use assms(2) in \<open>auto simp: refresh_handle_def release_member_def GrantRole_def BindRole_def SetRole_def IssueLinkCode_def Let_def split: if_splits\<close>)

lemma steps_keep_spent:
  "(member_step pf)\<^sup>*\<^sup>* db db' \<Longrightarrow> d \<in> set (challenge_rows db) \<Longrightarrow> ch_consumed d \<noteq> None \<Longrightarrow> d \<in> set (challenge_rows db')"
  by (induction rule: rtranclp_induct) (auto intro: step_keeps_spent)

lemma spent_not_live:
  assumes "member_db_ok db" "d \<in> set (challenge_rows db)" "ch_consumed d \<noteq> None" "c \<in> set (challenge_rows db)"
  shows "\<not> live now org (ch_hash d) c"
proof
  assume l: "live now org (ch_hash d) c"
  then have "ch_hash c = ch_hash d" by (simp add: live_def)
  then have "c = d" using assms(1,2,4) unfolding member_db_ok_def challenges_ok_def distinct_map inj_on_def by blast
  then show False using l assms(3) by (simp add: live_def)
qed

section \<open>Roles\<close>

lemma parseRole_admin: "parseRole n = RoleAdmin \<longleftrightarrow> n = ''admin''"
  by (simp add: parseRole_def)

lemma higher_admin: "(if b < r then r else b) = RoleAdmin \<longleftrightarrow> b = RoleAdmin \<or> r = RoleAdmin"
  by (cases b; cases r) (simp_all add: less_Role_def)

lemma highest_admin: "highest names = RoleAdmin \<longleftrightarrow> ''admin'' \<in> set names"
proof -
  have "foldl (\<lambda>best name. if best < parseRole name then parseRole name else best) b names = RoleAdmin \<longleftrightarrow>
      b = RoleAdmin \<or> ''admin'' \<in> set names" for b
    by (induction names arbitrary: b) (auto simp: higher_admin parseRole_admin)
  then show ?thesis by (simp add: highest_def)
qed

lemma speaker_of_identity:
  assumes ok: "member_db_ok db" and i: "i \<in> set (identity_rows db)"
  shows "\<exists>m. speaker db (i_org i) (i_channel i) (i_user i) = Some (i, m) \<and> m_id m = i_member i"
proof -
  have "find_identity db (i_org i) (i_channel i) (i_user i) \<noteq> None" using i by (auto simp: find_identity_None)
  then obtain j where f: "find_identity db (i_org i) (i_channel i) (i_user i) = Some j" by blast
  have "j = i"
    using find_identityD [OF f] ok i unfolding member_db_ok_def identities_ok_def distinct_map inj_on_def by auto
  have "(i_member i, i_org i) \<in> member_keys (member_rows db)" using ok i by (simp add: member_db_ok_def identities_ok_def)
  then have "find_member db (i_org i) (i_member i) \<noteq> None" by (auto simp: find_member_def member_keys_def find_None_iff)
  then obtain m where m: "find_member db (i_org i) (i_member i) = Some m" by blast
  show ?thesis using find_memberD [OF m] m f \<open>j = i\<close> by (simp add: speaker_def)
qed

definition has_admin :: "member_db \<Rightarrow> OrgID \<Rightarrow> bool" where
  "has_admin db org \<longleftrightarrow> (\<exists>r \<in> set (role_rows db). r_org r = org \<and> r_role r = ''admin'')"

lemma SetRole_keeps_admin:
  assumes "SetRole org mid role by1 db = (e, db')" "has_admin db o1"
  shows "has_admin db' o1"
proof (cases "o1 = org")
  case True
  then show ?thesis
    using assms by (auto simp: SetRole_def Let_def has_admin_def filter_empty_conv split: if_splits)
next
  case False
  then show ?thesis
    using assms by (auto simp: SetRole_def Let_def has_admin_def split: if_splits)
qed

lemma step_keeps_admin:
  assumes "member_step pf db db'" "member_db_ok db" "has_admin db org"
  shows "has_admin db' org"
proof (cases "set (role_rows db) \<subseteq> set (role_rows db')")
  case True
  then show ?thesis using assms(3) by (auto simp: has_admin_def)
next
  case False
  from assms(1) show ?thesis
  proof cases
    case m_set
    then show ?thesis using SetRole_keeps_admin assms(3) by blast
  next
    case (m_create now org channel user handle e)
    have i: "role_rows y = role_rows x" if "insert_identity pf now mid org channel user handle b x = (e', y)" for x y b e' mid
      using that by (rule insert_identity_cases) simp_all
    from m_create have "role_rows db' = role_rows db"
      by (auto simp: create_member_def Let_def rolled_back_def dest: i split: if_splits prod.splits option.splits member_error.splits)
    then show ?thesis using False by simp
  next
    case (m_link now org mid channel user handle by1 e)
    have i: "role_rows y = role_rows x" if "insert_identity pf now mid org channel user handle b x = (e', y)" for x y b e'
      using that by (rule insert_identity_cases) simp_all
    from m_link have "role_rows db' = role_rows db"
      by (auto simp: LinkIdentity_def Let_def rolled_back_def dest: i split: if_splits prod.splits option.splits member_error.splits)
    then show ?thesis using False by simp
  next
    case (m_claim now org code channel user handle r)
    then show ?thesis using ClaimLinkCode_spares_proved [OF assms(2)] False by (simp add: spares_proved_def)
  qed (use False in \<open>auto simp: refresh_handle_def release_member_def GrantRole_def BindRole_def SaveChallenge_def ConsumeChallenge_def bind_address_def
      claim_def IssueLinkCode_def Let_def split: if_splits option.splits prod.splits\<close>)
qed

lemma steps_keep_admin:
  assumes "(member_step pf)\<^sup>*\<^sup>* db db'" "member_db_ok db" "has_admin db org"
  shows "has_admin db' org"
  using assms
proof (induction rule: rtranclp_induct)
  case (step y z)
  then show ?case using step_keeps_admin [OF step(2)] steps_member_db_ok [OF step(1)] by blast
qed

section \<open>Properties\<close>

text \<open>
  C36: whatever the operations on the members did, in whatever order, the release of an address whose account was merged away
  included, an address belongs to one member of an org; a member has an address exactly when it has the time the address was
  proved and how it came; every chat account known to an org speaks for exactly one member, of that org; and no identity has
  two live challenges for one purpose.  Once an address is released, no member of the org holds it.
\<close>

theorem members_consistent:
  assumes "(member_write pf)\<^sup>*\<^sup>* member_init db"
  shows "(\<forall>m \<in> set (member_rows db). \<forall>n \<in> set (member_rows db). \<forall>a.
        m_org m = m_org n \<and> m_address m = Some a \<and> m_address n = Some a \<longrightarrow> m = n)
    \<and> (\<forall>m \<in> set (member_rows db). (m_address m = None \<longleftrightarrow> m_verified m = None) \<and> (m_address m = None \<longleftrightarrow> m_source m = None))
    \<and> (\<forall>i \<in> set (identity_rows db). \<exists>m. speaker db (i_org i) (i_channel i) (i_user i) = Some (i, m) \<and> m_id m = i_member i)
    \<and> (\<forall>c \<in> set (challenge_rows db). \<forall>d \<in> set (challenge_rows db). ch_consumed c = None \<and> ch_consumed d = None
        \<and> ch_identity c = ch_identity d \<and> ch_purpose c = ch_purpose d \<longrightarrow> c = d)
    \<and> (\<forall>m \<in> set (member_rows (release_member org a db)). m_org m = org \<longrightarrow> m_address m \<noteq> Some a)"
proof -
  have ok: "member_db_ok db" using writes_member_db_ok [OF assms member_init_ok] .
  have "m = n" if "m \<in> set (member_rows db)" "n \<in> set (member_rows db)" "m_org m = m_org n" "m_address m = Some a" "m_address n = Some a" for m n a
    using ok that unfolding member_db_ok_def members_ok_def addresses_unique_def distinct_map inj_on_def by blast
  moreover have "(m_address m = None \<longleftrightarrow> m_verified m = None) \<and> (m_address m = None \<longleftrightarrow> m_source m = None)"
    if "m \<in> set (member_rows db)" for m using ok that by (auto simp: member_db_ok_def members_ok_def address_proved_def)
  moreover have "\<exists>m. speaker db (i_org i) (i_channel i) (i_user i) = Some (i, m) \<and> m_id m = i_member i" if i: "i \<in> set (identity_rows db)" for i
    using speaker_of_identity [OF ok i] .
  moreover have "c = d" if "c \<in> set (challenge_rows db)" "d \<in> set (challenge_rows db)" "ch_consumed c = None" "ch_consumed d = None"
      "ch_identity c = ch_identity d" "ch_purpose c = ch_purpose d" for c d
    using ok that unfolding member_db_ok_def challenges_ok_def distinct_map inj_on_def by auto
  moreover have "m_address m \<noteq> Some a" if m: "m \<in> set (member_rows (release_member org a db))" "m_org m = org" for m
  proof -
    obtain n where n: "m = (if m_org n = org \<and> m_address n = Some a then n\<lparr>m_address := None, m_source := None, m_verified := None\<rparr> else n)"
      using m(1) unfolding release_member_rows set_map by blast
    show ?thesis using m(2) unfolding n by (cases "m_org n = org \<and> m_address n = Some a") simp_all
  qed
  ultimately show ?thesis by (intro conjI ballI allI impI) blast+
qed

text \<open>
  A shared code cannot touch a proved member.  However a claim ends, no member is created or changed, every member
  with a proved address is still there, every chat account that spoke for one still does, and no role changes hands.
\<close>

theorem ClaimLinkCode_safe:
  assumes "(member_step pf)\<^sup>*\<^sup>* member_init db" "ClaimLinkCode pf now org code channel user handle db = (r, db')"
  shows "set (member_rows db') \<subseteq> set (member_rows db)
    \<and> (\<forall>m \<in> set (member_rows db). m_address m \<noteq> None \<longrightarrow> m \<in> set (member_rows db'))
    \<and> (\<forall>i \<in> set (identity_rows db). \<forall>m \<in> set (member_rows db). m_id m = i_member i \<and> m_org m = i_org i \<and> m_address m \<noteq> None
         \<longrightarrow> i \<in> set (identity_rows db'))
    \<and> role_rows db' = role_rows db"
  using ClaimLinkCode_spares_proved [OF steps_member_db_ok [OF assms(1) member_init_ok] assms(2)] by (simp add: spares_proved_def)

text \<open>
  An address is bound only by spending a challenge.  If a step gives a member an address it did not have, then a
  challenge issued for that address, to a chat account that speaks for that member, was live before the step, is spent
  after it, and can never be spent again.
\<close>

theorem address_needs_challenge:
  assumes "(member_step pf)\<^sup>*\<^sup>* member_init db" "member_step pf db db'" "has_address db' mid a" "\<not> has_address db mid a"
  shows "\<exists>c \<in> set (challenge_rows db). \<exists>i \<in> set (identity_rows db). ch_consumed c = None \<and> ch_address c = a
    \<and> i_id i = ch_identity c \<and> i_member i = mid
    \<and> (\<forall>db''. (member_step pf)\<^sup>*\<^sup>* db' db'' \<longrightarrow>
         (\<forall>now org address source. \<not> is_ok (fst (ConsumeChallenge pf now org (ch_hash c) address source db''))))"
proof -
  have ok: "member_db_ok db" using steps_member_db_ok [OF assms(1) member_init_ok] .
  from step_address [OF assms(2) ok assms(3,4)] obtain now org hash source where
    k: "ConsumeChallenge pf now org hash a source db = (Inr mid, db')" .
  from k obtain c i where c: "c \<in> set (challenge_rows db)" "live now org hash c" "ch_address c = a" "i \<in> set (identity_rows db)"
    "i_id i = ch_identity c" "i_member i = mid" "c\<lparr>ch_consumed := Some now\<rparr> \<in> set (challenge_rows db')"
    by (rule ConsumeChallenge_bound)
  have spent: "\<not> is_ok (fst (ConsumeChallenge pf t o1 (ch_hash c) address src db''))" if s: "(member_step pf)\<^sup>*\<^sup>* db' db''" for t o1 address src db''
  proof
    assume "is_ok (fst (ConsumeChallenge pf t o1 (ch_hash c) address src db''))"
    then obtain n where "ConsumeChallenge pf t o1 (ch_hash c) address src db'' = (Inr n, snd (ConsumeChallenge pf t o1 (ch_hash c) address src db''))"
      by (metis is_ok_iff prod.collapse)
    then obtain d where "d \<in> set (challenge_rows db'')" "live t o1 (ch_hash c) d" by (rule ConsumeChallenge_bound)
    moreover have "member_db_ok db''" using steps_member_db_ok [OF s step_member_db_ok [OF assms(2) ok]] .
    moreover have "c\<lparr>ch_consumed := Some now\<rparr> \<in> set (challenge_rows db'')" using steps_keep_spent [OF s c(7)] by simp
    ultimately show False using spent_not_live [of db'' "c\<lparr>ch_consumed := Some now\<rparr>"] by simp
  qed
  have "ch_consumed c = None" using c(2) by (simp add: live_def)
  then show ?thesis using c spent by (intro bexI [of _ c] bexI [of _ i]) simp_all
qed

text \<open>
  An org that has an admin keeps one, whoever demotes whom in what order, and holding a platform role makes nobody
  one: a member's effective role is admin exactly when an admin role was granted to that member by name.
\<close>

theorem admin_kept_and_granted:
  assumes "(member_step pf)\<^sup>*\<^sup>* member_init db" "(member_step pf)\<^sup>*\<^sup>* db db'" "has_admin db org"
  shows "has_admin db' org
    \<and> (EffectiveRole db' org mid channel platformRoles = RoleAdmin \<longleftrightarrow>
        (\<exists>r \<in> set (role_rows db'). r_org r = org \<and> r_member r = mid \<and> r_role r = ''admin''))"
proof -
  have ok: "member_db_ok db" using steps_member_db_ok [OF assms(1) member_init_ok] .
  have "bindings_ok (binding_rows db')" using steps_member_db_ok [OF assms(2) ok] by (simp add: member_db_ok_def)
  then have "\<forall>b \<in> set (binding_rows db'). ''admin'' \<noteq> b_role b"
    unfolding bindings_ok_def by (metis less_irrefl parseRole_admin)
  then have "EffectiveRole db' org mid channel platformRoles = RoleAdmin \<longleftrightarrow>
      (\<exists>r \<in> set (role_rows db'). r_org r = org \<and> r_member r = mid \<and> ''admin'' = r_role r)"
    unfolding EffectiveRole_def highest_admin set_remdups set_append set_map set_filter by blast
  then show ?thesis using steps_keep_admin [OF assms(2) ok assms(3)] by (auto simp: eq_commute)
qed

section \<open>A small history\<close>

text \<open>Ada is seen, made admin, and links a wallet; then Ben's account is seen, and claims a code of Ada's.\<close>

definition demo_orgs :: member_db where
  "demo_orgs = member_init\<lparr>org_rows := org_rows member_init @ [1], member_refs := []\<rparr>"

definition demo_ada :: member_db where
  "demo_ada = snd (create_member demo_pf 10 1 ''telegram'' ''u1'' ''ada'' demo_orgs)"

definition demo_admin :: member_db where
  "demo_admin = snd (GrantRole 1 1 RoleAdmin 1 demo_ada)"

definition demo_challenge :: Challenge where
  "demo_challenge = \<lparr>ch_hash = replicate 64 (CHR ''a''), ch_org = 1, ch_identity = 1, ch_purpose = PurposeLinkMember,
     ch_address = replicate 56 (CHR ''G''), ch_xdr = ''AAAA'', ch_expires = 300, ch_consumed = None\<rparr>"

definition demo_asked :: member_db where
  "demo_asked = snd (SaveChallenge demo_pf 20 demo_challenge demo_admin)"

definition demo_linked :: member_db where
  "demo_linked = snd (ConsumeChallenge demo_pf 30 1 (replicate 64 (CHR ''a'')) (replicate 56 (CHR ''G'')) AddressLinked demo_asked)"

definition demo_ben :: member_db where
  "demo_ben = snd (create_member demo_pf 40 1 ''discord'' ''u2'' ''ben'' demo_linked)"

definition demo_code :: member_db where
  "demo_code = snd (IssueLinkCode 50 1 1 1 600 [0, 1, 2, 3, 4, 5, 6, 7] demo_ben)"

definition demo_claimed :: member_db where
  "demo_claimed = snd (ClaimLinkCode demo_pf 60 1 ''ABCDEFGH'' ''discord'' ''u2'' ''ben'' demo_code)"

lemmas member_eval = create_member_def insert_identity_def find_identity_def find_member_def next_id_def Let_def demo_pf_def
  member_init_def Channel_Valid_def new_member_def GrantRole_def nullable_def

lemma demo_admin_eq: "demo_admin = \<lparr>org_rows = [1], member_rows = [new_member 1 1 ''ada''],
    identity_rows = [\<lparr>i_id = 1, i_member = 1, i_org = 1, i_channel = ''telegram'', i_user = ''u1'', i_handle = ''ada'', i_linked_at = 10, i_linked_by = None\<rparr>],
    role_rows = [\<lparr>r_org = 1, r_member = 1, r_role = ''admin'', r_granted_by = Some 1\<rparr>], binding_rows = [], challenge_rows = [],
    code_rows = [], member_refs = [], member_seq = 1, identity_seq = 1\<rparr>"
  by (simp add: demo_admin_def demo_ada_def demo_orgs_def member_eval)

lemma demo_asked_eq: "demo_asked = demo_admin\<lparr>challenge_rows := [demo_challenge]\<rparr>"
  by (simp add: demo_asked_def SaveChallenge_def demo_admin_eq demo_challenge_def demo_pf_def challenge_checks_def hash_ok_def
      demo_hash demo_signer purposes_def)

lemma demo_linked_eq:
  "ConsumeChallenge demo_pf 30 1 (replicate 64 (CHR ''a'')) (replicate 56 (CHR ''G'')) AddressLinked demo_asked = (Inr 1, demo_linked)"
  "demo_linked = demo_admin\<lparr>challenge_rows := [demo_challenge\<lparr>ch_consumed := Some 30\<rparr>], member_rows := [(new_member 1 1 ''ada'')
     \<lparr>m_address := Some (replicate 56 (CHR ''G'')), m_source := Some AddressLinked, m_verified := Some 30\<rparr>]\<rparr>"
  by (simp_all add: demo_linked_def ConsumeChallenge_def claim_def live_def demo_asked_eq demo_admin_eq demo_challenge_def demo_pf_def
      bind_address_def find_member_def new_member_def demo_signer)

lemma demo_member_steps:
  "(member_step demo_pf)\<^sup>*\<^sup>* member_init demo_admin" "(member_step demo_pf)\<^sup>*\<^sup>* demo_admin demo_asked"
  "member_step demo_pf demo_asked demo_linked" "(member_step demo_pf)\<^sup>*\<^sup>* demo_linked demo_code"
proof -
  have s: "member_step pf db (snd (create_member pf now org channel user handle db))"
    "member_step pf db (snd (GrantRole org mid role by1 db))" "member_step pf db (snd (SaveChallenge pf now c db))"
    "member_step pf db (snd (ConsumeChallenge pf now org hash address source db))"
    "member_step pf db (snd (IssueLinkCode now org member by1 ttl draws db))"
    for pf db now org channel user handle mid role by1 c hash address source member ttl draws
    by (rule m_create m_grant m_save m_consume m_issue, rule prod.collapse [symmetric])+
  have "member_step demo_pf member_init demo_orgs" unfolding demo_orgs_def by (rule m_rows)
  moreover have "member_step demo_pf demo_orgs demo_ada" unfolding demo_ada_def by (rule s)
  moreover have "member_step demo_pf demo_ada demo_admin" unfolding demo_admin_def by (rule s)
  ultimately show "(member_step demo_pf)\<^sup>*\<^sup>* member_init demo_admin" by (meson converse_rtranclp_into_rtranclp r_into_rtranclp)
  have "member_step demo_pf demo_admin demo_asked" unfolding demo_asked_def by (rule s)
  then show "(member_step demo_pf)\<^sup>*\<^sup>* demo_admin demo_asked" by blast
  show "member_step demo_pf demo_asked demo_linked" unfolding demo_linked_def by (rule s)
  have "member_step demo_pf demo_linked demo_ben" unfolding demo_ben_def by (rule s)
  moreover have "member_step demo_pf demo_ben demo_code" unfolding demo_code_def by (rule s)
  ultimately show "(member_step demo_pf)\<^sup>*\<^sup>* demo_linked demo_code" by (meson converse_rtranclp_into_rtranclp r_into_rtranclp)
qed

lemma demo_code_reached: "(member_step demo_pf)\<^sup>*\<^sup>* member_init demo_linked" "(member_step demo_pf)\<^sup>*\<^sup>* member_init demo_code"
  using demo_member_steps by (meson rtranclp.rtrancl_into_rtrancl rtranclp_trans)+

lemma demo_written: "(member_write demo_pf)\<^sup>*\<^sup>* member_init demo_linked"
  using demo_code_reached(1) by (rule rtranclp_mono [THEN predicate2D, rotated]) (auto intro: w_step)

theorem members_consistent_witness:
  "(\<exists>m. speaker demo_linked 1 ''telegram'' ''u1'' = Some (hd (identity_rows demo_linked), m) \<and> m_id m = 1)
   \<and> m_address (hd (member_rows demo_linked)) = Some (replicate 56 (CHR ''G''))
   \<and> m_address (hd (member_rows (release_member 1 (replicate 56 (CHR ''G'')) demo_linked))) \<noteq> Some (replicate 56 (CHR ''G''))"
proof -
  note c = members_consistent [OF demo_written, of 1 "replicate 56 (CHR ''G'')"]
  have "hd (identity_rows demo_linked) \<in> set (identity_rows demo_linked)" by (simp add: demo_linked_eq(2) demo_admin_eq)
  with c have "\<exists>m. speaker demo_linked (i_org (hd (identity_rows demo_linked))) (i_channel (hd (identity_rows demo_linked)))
      (i_user (hd (identity_rows demo_linked))) = Some (hd (identity_rows demo_linked), m) \<and> m_id m = i_member (hd (identity_rows demo_linked))"
    by blast
  then have "\<exists>m. speaker demo_linked 1 ''telegram'' ''u1'' = Some (hd (identity_rows demo_linked), m) \<and> m_id m = 1"
    by (simp add: demo_linked_eq(2) demo_admin_eq)
  moreover have "m_address (hd (member_rows demo_linked)) = Some (replicate 56 (CHR ''G''))" by (simp add: demo_linked_eq(2))
  moreover have "hd (member_rows (release_member 1 (replicate 56 (CHR ''G'')) demo_linked))
      \<in> set (member_rows (release_member 1 (replicate 56 (CHR ''G'')) demo_linked))"
    "m_org (hd (member_rows (release_member 1 (replicate 56 (CHR ''G'')) demo_linked))) = 1"
    by (simp_all add: release_member_rows demo_linked_eq(2) new_member_def)
  ultimately show ?thesis using c by blast
qed

theorem ClaimLinkCode_safe_witness:
  "hd (member_rows demo_linked) \<in> set (member_rows demo_claimed) \<and> role_rows demo_claimed = role_rows demo_code"
proof -
  have c: "ClaimLinkCode demo_pf 60 1 ''ABCDEFGH'' ''discord'' ''u2'' ''ben'' demo_code =
      (fst (ClaimLinkCode demo_pf 60 1 ''ABCDEFGH'' ''discord'' ''u2'' ''ben'' demo_code), demo_claimed)"
    by (simp add: demo_claimed_def)
  have "member_rows demo_code = member_rows demo_ben"
    by (auto simp: demo_code_def IssueLinkCode_def Let_def)
  moreover have "hd (member_rows demo_linked) \<in> set (member_rows demo_ben)"
    by (simp add: demo_ben_def demo_linked_eq(2) demo_admin_eq member_eval)
  ultimately have "hd (member_rows demo_linked) \<in> set (member_rows demo_code)" by simp
  moreover have "m_address (hd (member_rows demo_linked)) \<noteq> None" by (simp add: demo_linked_eq(2))
  ultimately show ?thesis using ClaimLinkCode_safe [OF demo_code_reached(2) c] by blast
qed

theorem address_needs_challenge_witness:
  "\<exists>c \<in> set (challenge_rows demo_asked). ch_consumed c = None \<and> ch_address c = replicate 56 (CHR ''G'')
    \<and> \<not> is_ok (fst (ConsumeChallenge demo_pf 31 1 (ch_hash c) (replicate 56 (CHR ''G'')) AddressLinked demo_linked))"
proof -
  have r: "(member_step demo_pf)\<^sup>*\<^sup>* member_init demo_asked" using demo_member_steps(1,2) by (rule rtranclp_trans)
  have "has_address demo_linked 1 (replicate 56 (CHR ''G''))"
    by (simp add: has_address_def demo_linked_eq(2) new_member_def)
  moreover have "\<not> has_address demo_asked 1 (replicate 56 (CHR ''G''))"
    by (simp add: has_address_def demo_asked_eq demo_admin_eq new_member_def)
  ultimately show ?thesis using address_needs_challenge [OF r demo_member_steps(3)] by blast
qed

theorem admin_kept_and_granted_witness:
  "has_admin demo_linked 1 \<and> EffectiveRole demo_linked 1 1 ''telegram'' [''creator''] = RoleAdmin"
proof -
  have s: "(member_step demo_pf)\<^sup>*\<^sup>* demo_admin demo_linked" using demo_member_steps(2,3) by (rule rtranclp.rtrancl_into_rtrancl)
  have "has_admin demo_admin 1" by (simp add: has_admin_def demo_admin_eq)
  from admin_kept_and_granted [OF demo_member_steps(1) s this, of 1 "''telegram''" "[''creator'']"] show ?thesis
    by (simp add: demo_linked_eq(2) demo_admin_eq)
qed

end
