(* ===== verification/Linking.thy ===== *)
theory Linking
  imports Member_Safety Proposal_Service
begin

text \<open>
  Proving control of an address: \<^verbatim>\<open>identity/sep10.go\<close> and \<^verbatim>\<open>identity/grant.go\<close> (challenges and signed statements),
  \<^verbatim>\<open>settlement/account.go\<close> (the signers an account has now), \<^verbatim>\<open>ledger/store/treasury.go\<close> (the treasuries an org has
  proved), and the handlers of \<^verbatim>\<open>api/link.go\<close> and \<^verbatim>\<open>api/treasury.go\<close> that put them together over the member store.
  What the Stellar SDK builds, parses and verifies, and what the network says of an account, are arguments.  The ledger
  account a linked wallet is then booked to, best effort, is not part of the state here.
\<close>

section \<open>Challenges and statements\<close>

text \<open>An operation of a challenge envelope: a data entry with its source, name and value, or something else.\<close>

datatype data_op = ManageData address string string | OtherOp

text \<open>
  The SDK, for one deployment's server account, network and domains: \<open>strkey.IsValidEd25519PublicKey\<close>;
  \<open>BuildChallengeTx\<close>, as the hash, the text and the end of the window of what it builds; \<open>VerifyChallengeTxSigners\<close> and
  \<open>VerifyChallengeTxThreshold\<close>; and the operations of a plain transaction.
\<close>

record challenge_sdk =
  server_account :: address
  valid_key :: "string \<Rightarrow> bool"
  BuildChallengeTx :: "address \<Rightarrow> (string \<times> string \<times> int) option"
  VerifyChallengeTxSigners :: "string \<Rightarrow> address list \<Rightarrow> address list option"
  VerifyChallengeTxThreshold :: "string \<Rightarrow> 8 word \<Rightarrow> (address \<times> int32) list \<Rightarrow> address list option"
  Operations :: "string \<Rightarrow> data_op list option"

datatype link_error =
    OnScope svc_error | ErrLinkingUnavailable | IdentityNeeded | SignedNeeded | LinkNoChallenge | ErrInvalidAddress | BuildChallengeFailed
  | ErrChallengeFailed | NotADigest | ErrTreasuryUnprovable | NotAStellarAccount | AccountReadFailed
  | TreasuryElsewhere | NoSuchTreasury | TreasuryDb db_error | OnMembers member_error

definition Challenges_Build :: "challenge_sdk \<Rightarrow> address \<Rightarrow> (link_error, string \<times> string \<times> int) result" where
  "Challenges_Build sdk address =
     (if \<not> valid_key sdk address then Inl ErrInvalidAddress
      else case BuildChallengeTx sdk address of None \<Rightarrow> Inl BuildChallengeFailed | Some c \<Rightarrow> Inr c)"

definition VerifyMember :: "challenge_sdk \<Rightarrow> string \<Rightarrow> address \<Rightarrow> link_error option" where
  "VerifyMember sdk signedXDR address =
     (if \<not> valid_key sdk address then Some ErrInvalidAddress
      else case VerifyChallengeTxSigners sdk signedXDR [address] of None \<Rightarrow> Some ErrChallengeFailed | Some _ \<Rightarrow> None)"

definition VerifyThreshold ::
  "challenge_sdk \<Rightarrow> string \<Rightarrow> 8 word \<Rightarrow> (address \<times> int32) list \<Rightarrow> (link_error, address list) result" where
  "VerifyThreshold sdk signedXDR threshold summary =
     (case VerifyChallengeTxThreshold sdk signedXDR threshold summary of None \<Rightarrow> Inl ErrChallengeFailed | Some found \<Rightarrow> Inr found)"

definition StatementKey :: string where
  "StatementKey = ''stelfin statement''"

text \<open>Sixty-four characters that decode as hexadecimal and encode back to themselves.\<close>

definition isDigest :: "string \<Rightarrow> bool" where
  "isDigest s \<longleftrightarrow> length s = 64 \<and> list_all hex_char s"

text \<open>The operations \<open>BuildStatement\<close> puts in its envelope.\<close>

definition statement_ops :: "string \<Rightarrow> string \<Rightarrow> address \<Rightarrow> address \<Rightarrow> string \<Rightarrow> string \<Rightarrow> data_op list" where
  "statement_ops homeDomain webAuthDomain serverAccount address nonce digest =
     [ManageData address (homeDomain @ '' auth'') nonce,
      ManageData serverAccount ''web_auth_domain'' webAuthDomain,
      ManageData serverAccount StatementKey digest]"

text \<open>The loop over a returned envelope: every entry of the statement's name must be the server's and say the digest.\<close>

fun scan_statement :: "address \<Rightarrow> string \<Rightarrow> data_op list \<Rightarrow> nat \<Rightarrow> (link_error, nat) result" where
  "scan_statement serverAccount digest [] carried = Inr carried"
| "scan_statement serverAccount digest (ManageData source name value # ops) carried =
     (if name \<noteq> StatementKey then scan_statement serverAccount digest ops carried
      else if source \<noteq> serverAccount \<or> value \<noteq> digest then Inl ErrChallengeFailed
      else scan_statement serverAccount digest ops (carried + 1))"
| "scan_statement serverAccount digest (OtherOp # ops) carried = scan_statement serverAccount digest ops carried"

definition VerifyStatement ::
  "challenge_sdk \<Rightarrow> string \<Rightarrow> 8 word \<Rightarrow> (address \<times> int32) list \<Rightarrow> string \<Rightarrow> (link_error, address list) result" where
  "VerifyStatement sdk signedXDR threshold summary digest =
     (if \<not> isDigest digest then Inl NotADigest
      else case VerifyThreshold sdk signedXDR threshold summary of
          Inl e \<Rightarrow> Inl e
        | Inr found \<Rightarrow>
            (case Operations sdk signedXDR of
               None \<Rightarrow> Inl ErrChallengeFailed
             | Some ops \<Rightarrow>
                 (case scan_statement (server_account sdk) digest ops 0 of
                    Inl e \<Rightarrow> Inl e
                  | Inr carried \<Rightarrow> if carried \<noteq> 1 then Inl ErrChallengeFailed else Inr found)))"

section \<open>The signers an account has now\<close>

record horizon_account =
  ha_signers :: "(string \<times> int32) list"
  ha_low :: "8 word"
  ha_medium :: "8 word"
  ha_high :: "8 word"

record AccountSigners = SignerSet +
  SkippedNonKeySigners :: nat

fun read_signers :: "(string \<Rightarrow> bool) \<Rightarrow> address \<Rightarrow> (string \<times> int32) list \<Rightarrow> AccountSigners \<Rightarrow> AccountSigners" where
  "read_signers valid address [] out = out"
| "read_signers valid address ((k, w) # ss) out =
     (if sint w \<le> 0 then read_signers valid address ss out
      else if \<not> valid k then read_signers valid address ss (out\<lparr>SkippedNonKeySigners := SkippedNonKeySigners out + 1\<rparr>)
      else if k = address then read_signers valid address ss (out\<lparr>MasterWeight := ucast w\<rparr>)
      else read_signers valid address ss (out\<lparr>Signers := map_put k (ucast w) (Signers out)\<rparr>))"

definition SignerSetOf ::
  "challenge_sdk \<Rightarrow> (address \<Rightarrow> horizon_account option) \<Rightarrow> address \<Rightarrow> (link_error, AccountSigners) result" where
  "SignerSetOf sdk load address =
     (if \<not> valid_key sdk address then Inl NotAStellarAccount
      else case load address of
          None \<Rightarrow> Inl AccountReadFailed
        | Some a \<Rightarrow> Inr (read_signers (valid_key sdk) address (ha_signers a)
            \<lparr>MasterWeight = 0, Signers = [], Low = ucast (ha_low a), Medium = ucast (ha_medium a), High = ucast (ha_high a),
             SkippedNonKeySigners = 0\<rparr>))"

definition Summary :: "AccountSigners \<Rightarrow> address \<Rightarrow> (address \<times> int32) list" where
  "Summary a account =
     (let out = map (\<lambda>(k, w). (k, ucast w)) (Signers a)
      in if MasterWeight a > 0 then map_put account (ucast (MasterWeight a)) out else out)"

section \<open>Treasuries an org has proved\<close>

record treasury_row =
  t_id :: TreasuryID
  t_org :: OrgID
  t_kind :: string
  t_address :: address
  t_label :: string
  t_low :: int32
  t_medium :: int32
  t_high :: int32
  t_contract :: "string option"
  t_verified_by :: "IdentityID option"
  t_verified_at :: int
  t_refreshed_at :: int

record LinkTreasuryParams =
  lp_org :: OrgID
  lp_kind :: string
  lp_address :: address
  lp_label :: string
  lp_contract :: string
  lp_low :: int32
  lp_medium :: int32
  lp_high :: int32
  lp_verified_by :: IdentityID

record link_db =
  people :: member_db
  treasury_rows :: "treasury_row list"
  signer_rows :: "(TreasuryID \<times> address \<times> int32) list"
  treasury_seq :: TreasuryID

definition threshold_ok :: "int32 \<Rightarrow> bool" where
  "threshold_ok w \<longleftrightarrow> 0 \<le> sint w \<and> sint w \<le> 255"

definition strkey_text :: "string \<Rightarrow> bool" where
  "strkey_text s \<longleftrightarrow> length s = 56 \<and> (hd s = CHR ''G'' \<or> hd s = CHR ''C'') \<and> list_all base32_char (tl s)"

definition treasury_checks :: "treasury_row \<Rightarrow> bool" where
  "treasury_checks t \<longleftrightarrow> strkey_text (t_address t) \<and> threshold_ok (t_low t) \<and> threshold_ok (t_medium t) \<and> threshold_ok (t_high t)
     \<and> (t_kind t = ''classic'' \<and> hd (t_address t) = CHR ''G'' \<and> t_contract t = None
        \<or> t_kind t = ''contract'' \<and> hd (t_address t) = CHR ''C'' \<and> t_contract t = Some (t_address t))"

definition treasury_of :: "LinkTreasuryParams \<Rightarrow> int \<Rightarrow> TreasuryID \<Rightarrow> treasury_row" where
  "treasury_of p now i =
     \<lparr>t_id = i, t_org = lp_org p, t_kind = lp_kind p, t_address = lp_address p, t_label = lp_label p, t_low = lp_low p,
      t_medium = lp_medium p, t_high = lp_high p, t_contract = (if lp_contract p = [] then None else Some (lp_contract p)),
      t_verified_by = nullable (lp_verified_by p), t_verified_at = now, t_refreshed_at = now\<rparr>"

text \<open>What \<open>DO UPDATE\<close> takes from the row that was refused.\<close>

definition refreshed :: "treasury_row \<Rightarrow> treasury_row \<Rightarrow> treasury_row" where
  "refreshed n t =
     t\<lparr>t_label := t_label n, t_low := t_low n, t_medium := t_medium n, t_high := t_high n, t_verified_by := t_verified_by n,
       t_verified_at := t_verified_at n, t_refreshed_at := t_refreshed_at n\<rparr>"

definition linkTreasuryTx ::
  "platform \<Rightarrow> int \<Rightarrow> LinkTreasuryParams \<Rightarrow> link_db \<Rightarrow> (link_error, treasury_row) result \<times> link_db" where
  "linkTreasuryTx pf now p db =
     (if \<not> (text_ok pf (lp_kind p) \<and> text_ok pf (lp_address p) \<and> text_ok pf (lp_label p) \<and> text_ok pf (lp_contract p))
      then (Inl (TreasuryDb NotStorable), db)
      else case next_id (treasury_seq db) of
          None \<Rightarrow> (Inl (TreasuryDb SequenceExhausted), db)
        | Some i \<Rightarrow>
            let n = treasury_of p now i; drawn = db\<lparr>treasury_seq := i\<rparr>;
                known = (case t_verified_by n of None \<Rightarrow> True | Some v \<Rightarrow> v \<in> i_id ` set (identity_rows (people db)))
            in if \<not> treasury_checks n then (Inl (TreasuryDb CheckViolation), drawn)
               else case find (\<lambda>t. t_address t = t_address n) (treasury_rows db) of
                   Some t \<Rightarrow>
                     if t_org t \<noteq> t_org n then (Inl TreasuryElsewhere, drawn)
                     else if \<not> known then (Inl (TreasuryDb ForeignKeyViolation), drawn)
                     else (Inr (refreshed n t), drawn\<lparr>treasury_rows :=
                             map (\<lambda>u. if t_address u = t_address n then refreshed n u else u) (treasury_rows db)\<rparr>)
                 | None \<Rightarrow>
                     if t_org n \<notin> set (org_rows (people db)) \<or> \<not> known then (Inl (TreasuryDb ForeignKeyViolation), drawn)
                     else (Inr n, drawn\<lparr>treasury_rows := treasury_rows db @ [n]\<rparr>))"

definition Treasury_of :: "link_db \<Rightarrow> OrgID \<Rightarrow> TreasuryID \<Rightarrow> (link_error, treasury_row) result" where
  "Treasury_of db org i =
     (case find (\<lambda>t. t_id t = i \<and> t_org t = org) (treasury_rows db) of None \<Rightarrow> Inl NoSuchTreasury | Some t \<Rightarrow> Inr t)"

definition TreasuryByAddress :: "link_db \<Rightarrow> OrgID \<Rightarrow> address \<Rightarrow> (link_error, treasury_row) result" where
  "TreasuryByAddress db org address =
     (case find (\<lambda>t. t_address t = address \<and> t_org t = org) (treasury_rows db) of None \<Rightarrow> Inl NoSuchTreasury | Some t \<Rightarrow> Inr t)"

definition Treasuries :: "link_db \<Rightarrow> OrgID \<Rightarrow> treasury_row list" where
  "Treasuries db org = sort_key (\<lambda>t. sint (t_id t)) (filter (\<lambda>t. t_org t = org) (treasury_rows db))"

definition signer_checks :: "platform \<Rightarrow> address \<times> int32 \<Rightarrow> bool" where
  "signer_checks pf s \<longleftrightarrow> text_ok pf (fst s) \<and> strkey_text (fst s) \<and> threshold_ok (snd s)"

definition SaveSignerSet ::
  "platform \<Rightarrow> int \<Rightarrow> OrgID \<Rightarrow> TreasuryID \<Rightarrow> (address \<times> int32) list \<Rightarrow> int32 \<Rightarrow> int32 \<Rightarrow> int32 \<Rightarrow> link_db
   \<Rightarrow> link_error option \<times> link_db" where
  "SaveSignerSet pf now org i weights low medium1 high db =
     (if find (\<lambda>t. t_id t = i \<and> t_org t = org) (treasury_rows db) = None then (Some NoSuchTreasury, db)
      else if \<not> (threshold_ok low \<and> threshold_ok medium1 \<and> threshold_ok high) then (Some (TreasuryDb CheckViolation), db)
      else if \<not> list_all (signer_checks pf) weights then (Some (TreasuryDb CheckViolation), db)
      else (None, db\<lparr>treasury_rows := map (\<lambda>t. if t_id t = i \<and> t_org t = org
                then t\<lparr>t_low := low, t_medium := medium1, t_high := high, t_refreshed_at := now\<rparr> else t) (treasury_rows db),
              signer_rows := filter (\<lambda>(j, _). j \<noteq> i) (signer_rows db) @ map (Pair i) weights\<rparr>))"

definition CachedSignerSet :: "link_db \<Rightarrow> OrgID \<Rightarrow> TreasuryID \<Rightarrow> (address \<times> int32) list" where
  "CachedSignerSet db org i =
     (if find (\<lambda>t. t_id t = i \<and> t_org t = org) (treasury_rows db) = None then []
      else map snd (filter (\<lambda>(j, _). j = i) (signer_rows db)))"

text \<open>The challenge is claimed and the treasury recorded in one transaction.\<close>

definition ConsumeTreasuryChallenge ::
  "platform \<Rightarrow> int \<Rightarrow> string \<Rightarrow> LinkTreasuryParams \<Rightarrow> link_db \<Rightarrow> (link_error, treasury_row) result \<times> link_db" where
  "ConsumeTreasuryChallenge pf now hash p db =
     (if \<not> text_ok pf hash \<or> \<not> text_ok pf (lp_address p) then (Inl (TreasuryDb NotStorable), db)
      else case claim now (\<lambda>c. live now (lp_org p) hash c \<and> ch_address c = lp_address p \<and> ch_purpose c = PurposeLinkTreasury) (people db) of
          None \<Rightarrow> (Inl LinkNoChallenge, db)
        | Some (c, people1) \<Rightarrow>
            (case linkTreasuryTx pf now (p\<lparr>lp_verified_by := ch_identity c\<rparr>) (db\<lparr>people := people1\<rparr>) of
               (Inl e, db1) \<Rightarrow> (Inl e, db\<lparr>treasury_seq := treasury_seq db1\<rparr>)
             | (Inr t, db1) \<Rightarrow> (Inr t, db1)))"

section \<open>The handlers\<close>

text \<open>The parts of the service the handshakes use; linking may be off.\<close>

record link_world =
  lw_now :: int
  lw_pf :: platform
  lw_sdk :: "challenge_sdk option"
  lw_load :: "address \<Rightarrow> horizon_account option"

record LinkChallenge =
  lc_address :: address
  lc_xdr :: string
  lc_hash :: string
  lc_purpose :: string

text \<open>\<open>scope.check\<close> and the test that linking is configured, which open every handler.\<close>

definition opened :: "link_world \<Rightarrow> Scope \<Rightarrow> (link_error, challenge_sdk) result" where
  "opened w scope =
     (case scope_check scope of
        Some e \<Rightarrow> Inl (OnScope e)
      | None \<Rightarrow> (case lw_sdk w of None \<Rightarrow> Inl ErrLinkingUnavailable | Some sdk \<Rightarrow> Inr sdk))"

text \<open>Recording a challenge that was built, and handing it out.\<close>

definition issue ::
  "link_world \<Rightarrow> Scope \<Rightarrow> IdentityID \<Rightarrow> string \<Rightarrow> address \<Rightarrow> string \<times> string \<times> int \<Rightarrow> link_db
   \<Rightarrow> (link_error, LinkChallenge) result \<times> link_db" where
  "issue w scope identity purpose address built db =
     (case built of (hash, xdr, expires) \<Rightarrow>
        (case SaveChallenge (lw_pf w) (lw_now w) \<lparr>ch_hash = hash, ch_org = sp_org scope, ch_identity = identity, ch_purpose = purpose,
             ch_address = address, ch_xdr = xdr, ch_expires = expires, ch_consumed = None\<rparr> (people db) of
           (Some e, _) \<Rightarrow> (Inl (OnMembers e), db)
         | (None, people1) \<Rightarrow>
             (Inr \<lparr>lc_address = address, lc_xdr = xdr, lc_hash = hash, lc_purpose = purpose\<rparr>, db\<lparr>people := people1\<rparr>)))"

definition PrepareLink ::
  "link_world \<Rightarrow> Scope \<Rightarrow> IdentityID \<Rightarrow> address \<Rightarrow> link_db \<Rightarrow> (link_error, LinkChallenge) result \<times> link_db" where
  "PrepareLink w scope identity address db =
     (case opened w scope of
        Inl e \<Rightarrow> (Inl e, db)
      | Inr sdk \<Rightarrow>
          if identity = 0 then (Inl IdentityNeeded, db)
          else case Challenges_Build sdk address of
              Inl e \<Rightarrow> (Inl e, db)
            | Inr built \<Rightarrow> issue w scope identity PurposeLinkMember address built db)"

definition PrepareTreasuryLink ::
  "link_world \<Rightarrow> Scope \<Rightarrow> IdentityID \<Rightarrow> address \<Rightarrow> link_db \<Rightarrow> (link_error, LinkChallenge) result \<times> link_db" where
  "PrepareTreasuryLink w scope identity address db =
     (case opened w scope of
        Inl e \<Rightarrow> (Inl e, db)
      | Inr sdk \<Rightarrow>
          if identity = 0 then (Inl IdentityNeeded, db)
          else case SignerSetOf sdk (lw_load w) address of
              Inl e \<Rightarrow> (Inl e, db)
            | Inr a \<Rightarrow>
                if Summary a address = [] then (Inl ErrTreasuryUnprovable, db)
                else if Medium a > 0 \<and> TotalWeight (SignerSet.truncate a) < Medium a then (Inl ErrTreasuryUnprovable, db)
                else case Challenges_Build sdk address of
                    Inl e \<Rightarrow> (Inl e, db)
                  | Inr built \<Rightarrow> issue w scope identity PurposeLinkTreasury address built db)"

definition link_error_of :: "member_error \<Rightarrow> link_error" where
  "link_error_of e = (if e = ErrNoChallenge then LinkNoChallenge else OnMembers e)"

definition live_challenge :: "link_world \<Rightarrow> Scope \<Rightarrow> string \<Rightarrow> link_db \<Rightarrow> (link_error, Challenge) result" where
  "live_challenge w scope hash db =
     (case LiveChallenge (lw_now w) (people db) (sp_org scope) hash of
        Inl e \<Rightarrow> Inl (link_error_of e)
      | Inr c \<Rightarrow> Inr c)"

text \<open>The checks of \<open>SubmitLink\<close>: the challenge on record, and the signature of its own address.\<close>

definition member_proof :: "link_world \<Rightarrow> Scope \<Rightarrow> string \<Rightarrow> string \<Rightarrow> link_db \<Rightarrow> (link_error, Challenge) result" where
  "member_proof w scope hash signedXDR db =
     (case opened w scope of
        Inl e \<Rightarrow> Inl e
      | Inr sdk \<Rightarrow>
          if signedXDR = [] then Inl SignedNeeded
          else case live_challenge w scope hash db of
              Inl e \<Rightarrow> Inl e
            | Inr c \<Rightarrow>
                if ch_purpose c \<noteq> PurposeLinkMember then Inl LinkNoChallenge
                else case VerifyMember sdk signedXDR (ch_address c) of Some e \<Rightarrow> Inl e | None \<Rightarrow> Inr c)"

definition SubmitLink ::
  "link_world \<Rightarrow> Scope \<Rightarrow> string \<Rightarrow> string \<Rightarrow> link_db \<Rightarrow> (link_error, address \<times> MemberID) result \<times> link_db" where
  "SubmitLink w scope hash signedXDR db =
     (case member_proof w scope hash signedXDR db of
        Inl e \<Rightarrow> (Inl e, db)
      | Inr c \<Rightarrow>
          (case ConsumeChallenge (lw_pf w) (lw_now w) (sp_org scope) hash (ch_address c) AddressLinked (people db) of
             (Inl e, _) \<Rightarrow> (Inl (link_error_of e), db)
           | (Inr member, people1) \<Rightarrow> (Inr (ch_address c, member), db\<lparr>people := people1\<rparr>)))"

text \<open>The checks of \<open>SubmitTreasuryLink\<close>: the challenge on record, the account as it is now, and who signed.\<close>

definition treasury_proof ::
  "link_world \<Rightarrow> Scope \<Rightarrow> string \<Rightarrow> string \<Rightarrow> link_db \<Rightarrow> (link_error, Challenge \<times> AccountSigners \<times> address list) result" where
  "treasury_proof w scope hash signedXDR db =
     (case opened w scope of
        Inl e \<Rightarrow> Inl e
      | Inr sdk \<Rightarrow>
          if signedXDR = [] then Inl SignedNeeded
          else case live_challenge w scope hash db of
              Inl e \<Rightarrow> Inl e
            | Inr c \<Rightarrow>
                if ch_purpose c \<noteq> PurposeLinkTreasury then Inl LinkNoChallenge
                else case SignerSetOf sdk (lw_load w) (ch_address c) of
                    Inl e \<Rightarrow> Inl e
                  | Inr a \<Rightarrow>
                      if Summary a (ch_address c) = [] then Inl ErrTreasuryUnprovable
                      else case VerifyThreshold sdk signedXDR (ucast (Medium a)) (Summary a (ch_address c)) of
                          Inl e \<Rightarrow> Inl e
                        | Inr signedBy \<Rightarrow> Inr (c, a, signedBy))"

definition link_params :: "Scope \<Rightarrow> string \<Rightarrow> Challenge \<Rightarrow> AccountSigners \<Rightarrow> LinkTreasuryParams" where
  "link_params scope label c a =
     \<lparr>lp_org = sp_org scope, lp_kind = ''classic'', lp_address = ch_address c, lp_label = label, lp_contract = [],
      lp_low = ucast (Low a), lp_medium = ucast (Medium a), lp_high = ucast (High a), lp_verified_by = 0\<rparr>"

definition SubmitTreasuryLink ::
  "link_world \<Rightarrow> Scope \<Rightarrow> string \<Rightarrow> string \<Rightarrow> string \<Rightarrow> link_db
   \<Rightarrow> (link_error, treasury_row \<times> address list) result \<times> link_db" where
  "SubmitTreasuryLink w scope hash signedXDR label db =
     (case treasury_proof w scope hash signedXDR db of
        Inl e \<Rightarrow> (Inl e, db)
      | Inr (c, a, signedBy) \<Rightarrow>
          (case ConsumeTreasuryChallenge (lw_pf w) (lw_now w) hash (link_params scope label c a) db of
             (Inl e, db1) \<Rightarrow> (Inl e, db1)
           | (Inr t, db1) \<Rightarrow>
               (case SaveSignerSet (lw_pf w) (lw_now w) (sp_org scope) (t_id t) (Summary a (ch_address c))
                    (ucast (Low a)) (ucast (Medium a)) (ucast (High a)) db1 of
                  (Some e, _) \<Rightarrow> (Inl e, db1)
                | (None, db2) \<Rightarrow> (Inr (t, signedBy), db2))))"

end
