(* ===== verification/Link_Safety.thy ===== *)
theory Link_Safety
  imports Linking
begin

text \<open>
  What the handshakes of \<open>Linking\<close> prove: a signed statement commits to one text, a treasury on record was proved by a
  challenge spent for it and belongs to one org for good, and a completed link is what the record says it is.
\<close>

section \<open>Statements\<close>

definition carries :: "data_op \<Rightarrow> bool" where
  "carries op \<longleftrightarrow> (case op of ManageData source name value \<Rightarrow> name = StatementKey | OtherOp \<Rightarrow> False)"

lemma scan_statement_iff:
  "scan_statement server digest ops n = Inr k \<longleftrightarrow>
     (\<forall>op \<in> set ops. carries op \<longrightarrow> op = ManageData server StatementKey digest) \<and> k = n + length (filter carries ops)"
  by (induction server digest ops n rule: scan_statement.induct) (auto simp: carries_def)

lemma statement_ops_carry:
  "filter carries (statement_ops home web server a nonce digest) = [ManageData server StatementKey digest]"
proof -
  have "last (home @ '' auth'') \<noteq> last StatementKey" by (simp add: StatementKey_def)
  then have "home @ '' auth'' \<noteq> StatementKey" by metis
  then show ?thesis by (simp add: statement_ops_def carries_def StatementKey_def)
qed

section \<open>Treasuries\<close>

inductive link_step :: "platform \<Rightarrow> link_db \<Rightarrow> link_db \<Rightarrow> bool" for pf where
  l_people: "member_step pf (people db) people1 \<Longrightarrow> link_step pf db (db\<lparr>people := people1\<rparr>)"
| l_treasury: "ConsumeTreasuryChallenge pf now hash p db = (r, db') \<Longrightarrow> link_step pf db db'"
| l_signers: "SaveSignerSet pf now org i weights low medium1 high db = (e, db') \<Longrightarrow> link_step pf db db'"

definition link_init :: link_db where
  "link_init = \<lparr>people = member_init, treasury_rows = [], signer_rows = [], treasury_seq = 0\<rparr>"

text \<open>A treasury on record: a challenge for its address was spent, for its org, to prove a treasury.\<close>

definition proved_by :: "Challenge list \<Rightarrow> treasury_row \<Rightarrow> bool" where
  "proved_by cs t \<longleftrightarrow> (\<exists>c \<in> set cs. ch_consumed c \<noteq> None \<and> ch_purpose c = PurposeLinkTreasury \<and> ch_org c = t_org t \<and> ch_address c = t_address t)"

definition treasuries_ok :: "link_db \<Rightarrow> bool" where
  "treasuries_ok db \<longleftrightarrow> distinct (map t_id (treasury_rows db)) \<and> distinct (map t_address (treasury_rows db))
     \<and> (\<forall>t \<in> set (treasury_rows db). sint (t_id t) \<le> sint (treasury_seq db))
     \<and> (\<forall>t \<in> set (treasury_rows db). proved_by (challenge_rows (people db)) t)"

definition link_ok :: "link_db \<Rightarrow> bool" where
  "link_ok db \<longleftrightarrow> member_db_ok (people db) \<and> treasuries_ok db"

text \<open>Changing what is not the id, the org or the address of a treasury.\<close>

lemma treasuries_ok_map:
  assumes "treasuries_ok db" "\<And>t. t_id (f t) = t_id t \<and> t_org (f t) = t_org t \<and> t_address (f t) = t_address t"
    "sint (treasury_seq db) \<le> sint (treasury_seq db')" "treasury_rows db' = map f (treasury_rows db)"
    "\<And>t. t \<in> set (treasury_rows db) \<Longrightarrow> proved_by (challenge_rows (people db)) t \<Longrightarrow> proved_by (challenge_rows (people db')) t"
  shows "treasuries_ok db'"
proof -
  have e: "map t_id (map f (treasury_rows db)) = map t_id (treasury_rows db)"
    "map t_address (map f (treasury_rows db)) = map t_address (treasury_rows db)" using assms(2) by simp_all
  have "proved_by cs (f t) \<longleftrightarrow> proved_by cs t" for cs t using assms(2) by (simp add: proved_by_def)
  then show ?thesis
    using assms(1,3,5) unfolding treasuries_ok_def assms(4) e by (auto simp: assms(2) intro: order_trans)
qed

lemma linkTreasuryTx_cases:
  assumes "linkTreasuryTx pf now p db = (r, db')"
  obtains (refused) e n where "r = Inl e" "db' = db\<lparr>treasury_seq := n\<rparr>" "sint (treasury_seq db) \<le> sint n"
  | (again) i t where "r = Inr (refreshed (treasury_of p now i) t)" "sint (treasury_seq db) \<le> sint i"
      "t \<in> set (treasury_rows db)" "t_address t = lp_address p" "t_org t = lp_org p"
      "db' = db\<lparr>treasury_seq := i, treasury_rows :=
         map (\<lambda>u. if t_address u = lp_address p then refreshed (treasury_of p now i) u else u) (treasury_rows db)\<rparr>"
  | (fresh) i where "r = Inr (treasury_of p now i)" "sint (treasury_seq db) < sint i"
      "\<forall>t \<in> set (treasury_rows db). t_address t \<noteq> lp_address p"
      "db' = db\<lparr>treasury_seq := i, treasury_rows := treasury_rows db @ [treasury_of p now i]\<rparr>"
proof (cases "next_id (treasury_seq db)")
  case None
  then show thesis using assms refused [of _ "treasury_seq db"] by (auto simp: linkTreasuryTx_def split: if_splits)
next
  case nx: (Some i)
  have lt: "sint (treasury_seq db) < sint i" using next_id_gt [OF nx] .
  have a: "t_address (treasury_of p now i) = lp_address p" "t_org (treasury_of p now i) = lp_org p" by (simp_all add: treasury_of_def)
  show thesis
  proof (cases r)
    case (Inl e)
    then have "db' = db \<or> db' = db\<lparr>treasury_seq := i\<rparr>"
      using assms nx by (auto simp: linkTreasuryTx_def Let_def split: if_splits option.splits)
    then show thesis using refused [OF Inl, of "treasury_seq db"] refused [OF Inl, of i] lt by auto
  next
    case (Inr t)
    show thesis
    proof (cases "find (\<lambda>t. t_address t = lp_address p) (treasury_rows db)")
      case None
      then have free: "\<forall>t \<in> set (treasury_rows db). t_address t \<noteq> lp_address p" by (auto simp: find_None_iff)
      show thesis
        using assms Inr fresh [of i, OF _ lt free] unfolding linkTreasuryTx_def nx option.case Let_def a None
        by (auto split: if_splits)
    next
      case f: (Some u)
      show thesis
        using assms Inr again [of i u] lt find_in_set [OF f] unfolding linkTreasuryTx_def nx option.case Let_def a f
        by (auto split: if_splits)
    qed
  qed
qed

lemma refreshed_keeps: "t_id (refreshed n t) = t_id t" "t_org (refreshed n t) = t_org t" "t_address (refreshed n t) = t_address t"
  by (simp_all add: refreshed_def)

lemma ConsumeTreasuryChallenge_cases:
  assumes "ConsumeTreasuryChallenge pf now hash p db = (r, db')"
  obtains (refused) e n where "r = Inl e" "db' = db\<lparr>treasury_seq := n\<rparr>" "sint (treasury_seq db) \<le> sint n"
  | (proved) t c people1 where "r = Inr t"
      "claim now (\<lambda>c. live now (lp_org p) hash c \<and> ch_address c = lp_address p \<and> ch_purpose c = PurposeLinkTreasury) (people db) = Some (c, people1)"
      "linkTreasuryTx pf now (p\<lparr>lp_verified_by := ch_identity c\<rparr>) (db\<lparr>people := people1\<rparr>) = (Inr t, db')"
proof (cases "claim now (\<lambda>c. live now (lp_org p) hash c \<and> ch_address c = lp_address p \<and> ch_purpose c = PurposeLinkTreasury) (people db)")
  case None
  then have "db' = db" "\<exists>e. r = Inl e" using assms by (auto simp: ConsumeTreasuryChallenge_def split: if_splits)
  then show thesis using refused [of _ "treasury_seq db"] by auto
next
  case (Some cp)
  then obtain c people1 where s: "claim now (\<lambda>c. live now (lp_org p) hash c \<and> ch_address c = lp_address p \<and> ch_purpose c = PurposeLinkTreasury) (people db) = Some (c, people1)"
    by (cases cp) simp
  obtain x db1 where l: "linkTreasuryTx pf now (p\<lparr>lp_verified_by := ch_identity c\<rparr>) (db\<lparr>people := people1\<rparr>) = (x, db1)" by fastforce
  have le: "x = Inl e \<Longrightarrow> sint (treasury_seq db) \<le> sint (treasury_seq db1)" for e
    using l by (cases rule: linkTreasuryTx_cases) auto
  show thesis
  proof (cases "text_ok pf hash \<and> text_ok pf (lp_address p)")
    case False
    then have "db' = db" "\<exists>e. r = Inl e" using assms by (auto simp: ConsumeTreasuryChallenge_def split: if_splits)
    then show thesis using refused [of _ "treasury_seq db"] by auto
  next
    case True
    show thesis
    proof (cases x)
      case (Inl e)
      then show thesis using assms True refused [of e "treasury_seq db1"] le unfolding ConsumeTreasuryChallenge_def s by (auto simp: l)
    next
      case (Inr t)
      then show thesis using assms True proved [of t, OF _ s] l unfolding ConsumeTreasuryChallenge_def s by auto
    qed
  qed
qed

lemma claim_proves:
  assumes "claim now P (people db) = Some (c, people1)" "\<forall>d. P d \<longrightarrow> ch_consumed d = None"
  shows "proved_by (challenge_rows (people db)) t \<Longrightarrow> proved_by (challenge_rows people1) t"
    and "ch_purpose c = PurposeLinkTreasury \<Longrightarrow> ch_org c = t_org t \<Longrightarrow> ch_address c = t_address t \<Longrightarrow> proved_by (challenge_rows people1) t"
proof -
  show "proved_by (challenge_rows (people db)) t \<Longrightarrow> proved_by (challenge_rows people1) t"
    using claim_keeps_spent [OF assms] unfolding proved_by_def by blast
  have "c\<lparr>ch_consumed := Some now\<rparr> \<in> set (challenge_rows people1)"
    unfolding claimD(5) [OF assms(1)] set_map using claimD(1,2) [OF assms(1)] by (intro image_eqI [of _ _ c]) simp_all
  then show "ch_purpose c = PurposeLinkTreasury \<Longrightarrow> ch_org c = t_org t \<Longrightarrow> ch_address c = t_address t \<Longrightarrow> proved_by (challenge_rows people1) t"
    unfolding proved_by_def by (intro bexI [of _ "c\<lparr>ch_consumed := Some now\<rparr>"]) simp_all
qed

lemma ConsumeTreasuryChallenge_ok:
  assumes ok: "link_ok db" and c: "ConsumeTreasuryChallenge pf now hash p db = (r, db')"
  shows "link_ok db'"
  using c
proof (cases rule: ConsumeTreasuryChallenge_cases)
  case (refused e n)
  then show ?thesis using ok treasuries_ok_map [of db "\<lambda>t. t" db'] by (simp add: link_ok_def)
next
  case (proved t c people1)
  let ?P = "\<lambda>c. live now (lp_org p) hash c \<and> ch_address c = lp_address p \<and> ch_purpose c = PurposeLinkTreasury"
  have u: "\<forall>d. ?P d \<longrightarrow> ch_consumed d = None" by (simp add: live_def)
  note keep = claim_proves [OF proved(2) u]
  have cp: "?P c" using claimD(2) [OF proved(2)] .
  have m: "member_db_ok people1" using ok claim_ok [OF _ proved(2)] by (simp add: link_ok_def)
  have t: "treasuries_ok db" using ok by (simp add: link_ok_def)
  from proved(3) have "people db' = people1 \<and> treasuries_ok db'"
  proof (cases rule: linkTreasuryTx_cases)
    case (again i u)
    have "treasuries_ok db'"
    proof (rule treasuries_ok_map [OF t])
      show "treasury_rows db' = map (\<lambda>v. if t_address v = lp_address p
        then refreshed (treasury_of (p\<lparr>lp_verified_by := ch_identity c\<rparr>) now i) v else v) (treasury_rows db)" by (simp add: again(6))
    qed (use again(2,6) keep(1) refreshed_keeps in auto)
    then show ?thesis by (simp add: again(6))
  next
    case (fresh i)
    let ?n = "treasury_of (p\<lparr>lp_verified_by := ch_identity c\<rparr>) now i"
    have n: "t_id ?n = i" "t_address ?n = lp_address p" "t_org ?n = lp_org p" by (simp_all add: treasury_of_def)
    have "proved_by (challenge_rows people1) ?n" using cp n by (intro keep(2)) (simp_all add: live_def)
    moreover have "t_id t \<noteq> i \<and> sint (t_id t) \<le> sint i" if "t \<in> set (treasury_rows db)" for t
      using t that fresh(2) by (fastforce simp: treasuries_ok_def)
    moreover have "\<forall>t \<in> set (treasury_rows db). t_address t \<noteq> lp_address p" using fresh(3) by simp
    ultimately have "treasuries_ok db'"
      using t keep(1) n unfolding treasuries_ok_def fresh(4) by auto
    then show ?thesis by (simp add: fresh(4))
  qed simp
  then show ?thesis using m by (simp add: link_ok_def)
qed

lemma SaveSignerSet_ok:
  assumes ok: "link_ok db" and s: "SaveSignerSet pf now org i weights low medium1 high db = (e, db')"
  shows "link_ok db'"
proof -
  let ?f = "\<lambda>t. if t_id t = i \<and> t_org t = org then t\<lparr>t_low := low, t_medium := medium1, t_high := high, t_refreshed_at := now\<rparr> else t"
  consider "db' = db" | "people db' = people db" "treasury_seq db' = treasury_seq db" "treasury_rows db' = map ?f (treasury_rows db)"
    using s by (auto simp: SaveSignerSet_def split: if_splits)
  then show ?thesis
  proof cases
    case 2
    then have "treasuries_ok db'" using ok by (intro treasuries_ok_map [of db ?f db']) (auto simp: link_ok_def)
    then show ?thesis using ok 2(1) by (simp add: link_ok_def)
  qed (use ok in simp)
qed

lemma link_step_ok:
  assumes "link_step pf db db'" "link_ok db"
  shows "link_ok db'"
  using assms(1)
proof cases
  case (l_people people1)
  have "proved_by (challenge_rows (people db)) t \<Longrightarrow> proved_by (challenge_rows people1) t" for t
    using step_keeps_spent [OF l_people(2)] unfolding proved_by_def by blast
  then have "treasuries_ok db'" using assms(2) l_people(1) treasuries_ok_map [of db "\<lambda>t. t" db'] by (simp add: link_ok_def)
  then show ?thesis using assms(2) l_people step_member_db_ok by (simp add: link_ok_def)
next
  case l_treasury
  then show ?thesis using ConsumeTreasuryChallenge_ok [OF assms(2)] by blast
next
  case l_signers
  then show ?thesis using SaveSignerSet_ok [OF assms(2)] by blast
qed

lemma link_init_ok: "link_ok link_init"
  using member_init_ok by (simp add: link_ok_def link_init_def treasuries_ok_def)

lemma link_steps_ok: "(link_step pf)\<^sup>*\<^sup>* db db' \<Longrightarrow> link_ok db \<Longrightarrow> link_ok db'"
  by (induction rule: rtranclp_induct) (auto intro: link_step_ok)

section \<open>Completed links\<close>

lemma live_challengeD:
  "live_challenge w scope hash db = Inr c \<Longrightarrow> c \<in> set (challenge_rows (people db)) \<and> live (lw_now w) (sp_org scope) hash c"
  by (auto simp: live_challenge_def LiveChallenge_def dest: find_in_set split: sum.splits option.splits)

lemma opened_sdk: "opened w scope = Inr sdk \<Longrightarrow> lw_sdk w = Some sdk"
  by (auto simp: opened_def split: option.splits)

lemma member_proofD:
  assumes "member_proof w scope hash signedXDR db = Inr c"
  obtains sdk where "opened w scope = Inr sdk" "signedXDR \<noteq> []" "live_challenge w scope hash db = Inr c" "ch_purpose c = PurposeLinkMember"
    "VerifyMember sdk signedXDR (ch_address c) = None"
  using assms unfolding member_proof_def by (auto split: sum.splits option.splits if_splits)

lemma SubmitLink_linked:
  assumes "SubmitLink w scope hash signedXDR db = (Inr (a, mid), db')"
  obtains c people1 where "member_proof w scope hash signedXDR db = Inr c" "ch_address c = a" "db' = db\<lparr>people := people1\<rparr>"
    "ConsumeChallenge (lw_pf w) (lw_now w) (sp_org scope) hash a AddressLinked (people db) = (Inr mid, people1)"
  using assms unfolding SubmitLink_def by (auto split: sum.splits prod.splits)

lemma treasury_proofD:
  assumes "treasury_proof w scope hash signedXDR db = Inr (c, a, signedBy)"
  obtains sdk where "lw_sdk w = Some sdk" "live_challenge w scope hash db = Inr c" "ch_purpose c = PurposeLinkTreasury"
    "SignerSetOf sdk (lw_load w) (ch_address c) = Inr a"
    "VerifyChallengeTxThreshold sdk signedXDR (ucast (Medium a)) (Summary a (ch_address c)) = Some signedBy"
proof (cases "opened w scope")
  case (Inr sdk)
  then show thesis
    using assms that [OF opened_sdk [OF Inr]] unfolding treasury_proof_def VerifyThreshold_def Inr
    by (auto split: sum.splits option.splits if_splits)
qed (use assms in \<open>simp add: treasury_proof_def\<close>)

lemma SubmitTreasuryLink_recorded:
  assumes "SubmitTreasuryLink w scope hash signedXDR label db = (Inr (t, signedBy), db')"
  obtains c a db1 where "treasury_proof w scope hash signedXDR db = Inr (c, a, signedBy)"
    "ConsumeTreasuryChallenge (lw_pf w) (lw_now w) hash (link_params scope label c a) db = (Inr t, db1)"
    "SaveSignerSet (lw_pf w) (lw_now w) (sp_org scope) (t_id t) (Summary a (ch_address c))
       (ucast (Low a)) (ucast (Medium a)) (ucast (High a)) db1 = (None, db')"
  using assms unfolding SubmitTreasuryLink_def by (auto split: sum.splits option.splits prod.splits)

text \<open>An operation on treasuries leaves those of other orgs, and the place of each, alone.\<close>

definition same_place :: "treasury_row \<Rightarrow> treasury_row \<Rightarrow> bool" where
  "same_place t u \<longleftrightarrow> t_id u = t_id t \<and> t_org u = t_org t \<and> t_address u = t_address t"

definition keeps_treasuries :: "OrgID \<Rightarrow> link_db \<Rightarrow> link_db \<Rightarrow> bool" where
  "keeps_treasuries org db db' \<longleftrightarrow> (\<forall>t \<in> set (treasury_rows db). \<exists>u \<in> set (treasury_rows db'). same_place t u \<and> (t_org t \<noteq> org \<longrightarrow> u = t))"

lemma keeps_treasuries_refl: "treasury_rows db' = treasury_rows db \<Longrightarrow> keeps_treasuries org db db'"
  by (auto simp: keeps_treasuries_def same_place_def)

lemma keeps_treasuries_trans: "keeps_treasuries org a b \<Longrightarrow> keeps_treasuries org b c \<Longrightarrow> keeps_treasuries org a c"
  unfolding keeps_treasuries_def same_place_def by metis

lemma keeps_treasuries_map:
  assumes "treasury_rows db' = map f (treasury_rows db)" "\<And>t. t \<in> set (treasury_rows db) \<Longrightarrow> same_place t (f t) \<and> (t_org t \<noteq> org \<longrightarrow> f t = t)"
  shows "keeps_treasuries org db db'"
  unfolding keeps_treasuries_def assms(1) using assms(2) by auto

lemma ConsumeTreasuryChallenge_keeps:
  assumes ok: "treasuries_ok db" and c: "ConsumeTreasuryChallenge pf now hash p db = (r, db')"
  shows "keeps_treasuries (lp_org p) db db'"
  using c
proof (cases rule: ConsumeTreasuryChallenge_cases)
  case (refused e n)
  then show ?thesis by (simp add: keeps_treasuries_refl)
next
  case (proved t c people1)
  from proved(3) show ?thesis
  proof (cases rule: linkTreasuryTx_cases)
    case (again i u)
    have "v = u" if "v \<in> set (treasury_rows db)" "t_address v = lp_address p" for v
      using ok that again(3,4) unfolding treasuries_ok_def distinct_map inj_on_def by simp
    then show ?thesis using again(5)
      by (intro keeps_treasuries_map [OF _, where f = "\<lambda>v. if t_address v = lp_address p
        then refreshed (treasury_of (p\<lparr>lp_verified_by := ch_identity c\<rparr>) now i) v else v"])
        (auto simp: again(6) same_place_def refreshed_keeps)
  next
    case (fresh i)
    then show ?thesis by (auto simp: keeps_treasuries_def same_place_def)
  qed simp
qed

lemma SaveSignerSet_keeps:
  assumes "SaveSignerSet pf now org i weights low medium1 high db = (e, db')"
  shows "keeps_treasuries org db db'"
proof -
  let ?f = "\<lambda>t. if t_id t = i \<and> t_org t = org then t\<lparr>t_low := low, t_medium := medium1, t_high := high, t_refreshed_at := now\<rparr> else t"
  have "treasury_rows db' = treasury_rows db \<or> treasury_rows db' = map ?f (treasury_rows db)"
    using assms by (auto simp: SaveSignerSet_def split: if_splits)
  then show ?thesis using keeps_treasuries_refl keeps_treasuries_map [of db' ?f db org] by (auto simp: same_place_def)
qed

lemma SaveSignerSet_cached:
  assumes "SaveSignerSet pf now org i weights low medium1 high db = (None, db')"
  shows "CachedSignerSet db' org i = weights"
proof -
  let ?f = "\<lambda>t. if t_id t = i \<and> t_org t = org then t\<lparr>t_low := low, t_medium := medium1, t_high := high, t_refreshed_at := now\<rparr> else t"
  have s: "find (\<lambda>t. t_id t = i \<and> t_org t = org) (treasury_rows db) \<noteq> None" "treasury_rows db' = map ?f (treasury_rows db)"
    "signer_rows db' = filter (\<lambda>(j, _). j \<noteq> i) (signer_rows db) @ map (Pair i) weights"
    using assms by (auto simp: SaveSignerSet_def split: if_splits)
  obtain t where t: "t \<in> set (treasury_rows db)" "t_id t = i" "t_org t = org" using s(1) by (auto dest: find_in_set)
  then obtain u where "u \<in> set (treasury_rows db')" "same_place t u"
    using SaveSignerSet_keeps [OF assms] unfolding keeps_treasuries_def by blast
  then have "find (\<lambda>t. t_id t = i \<and> t_org t = org) (treasury_rows db') \<noteq> None"
    using t by (auto simp: find_None_iff same_place_def)
  moreover have "filter (\<lambda>(j, _). j = i) (signer_rows db') = map (Pair i) weights"
    unfolding s(3) by (auto simp: filter_empty_conv filter_map o_def)
  ultimately show ?thesis by (auto simp: CachedSignerSet_def o_def)
qed

lemma ConsumeTreasuryChallenge_row:
  assumes "ConsumeTreasuryChallenge pf now hash p db = (Inr t, db')"
  shows "t \<in> set (treasury_rows db')" "t_org t = lp_org p" "t_address t = lp_address p"
proof -
  have "t \<in> set (treasury_rows db') \<and> t_org t = lp_org p \<and> t_address t = lp_address p"
    using assms
  proof (cases rule: ConsumeTreasuryChallenge_cases)
    case (proved t' c people1)
    from proved(3) show ?thesis
    proof (cases rule: linkTreasuryTx_cases)
      case (again i u)
      then show ?thesis using proved(1) by (auto simp: refreshed_keeps)
    next
      case (fresh i)
      then show ?thesis using proved(1) by (simp add: treasury_of_def)
    qed simp
  qed simp
  then show "t \<in> set (treasury_rows db')" "t_org t = lp_org p" "t_address t = lp_address p" by simp_all
qed

section \<open>Properties\<close>

text \<open>
  A signed statement is accepted for a digest exactly when it is a digest, the account's signers reach the threshold on
  the envelope, and the one entry of the statement's name the envelope carries is the server's and says that digest.  A plain
  proof of control, which carries no such entry, is never agreement to anything.
\<close>

theorem VerifyStatement_exact:
  "VerifyStatement sdk signedXDR threshold summary digest = Inr found \<longleftrightarrow>
     isDigest digest \<and> VerifyChallengeTxThreshold sdk signedXDR threshold summary = Some found
     \<and> map_option (filter carries) (Operations sdk signedXDR) = Some [ManageData (server_account sdk) StatementKey digest]"
proof (cases "Operations sdk signedXDR")
  case None
  then show ?thesis by (auto simp: VerifyStatement_def VerifyThreshold_def split: option.splits)
next
  case (Some ops)
  have "scan_statement (server_account sdk) digest ops 0 = Inr 1 \<longleftrightarrow> filter carries ops = [ManageData (server_account sdk) StatementKey digest]"
  proof
    assume "scan_statement (server_account sdk) digest ops 0 = Inr 1"
    then have "length (filter carries ops) = 1" "\<forall>op \<in> set (filter carries ops). op = ManageData (server_account sdk) StatementKey digest"
      by (auto simp: scan_statement_iff)
    then show "filter carries ops = [ManageData (server_account sdk) StatementKey digest]" by (cases "filter carries ops") auto
  next
    assume f: "filter carries ops = [ManageData (server_account sdk) StatementKey digest]"
    have "op = ManageData (server_account sdk) StatementKey digest" if "op \<in> set ops" "carries op" for op
      using that arg_cong [OF f, of set] by auto
    then show "scan_statement (server_account sdk) digest ops 0 = Inr 1" using f by (simp add: scan_statement_iff)
  qed
  then show ?thesis
    unfolding VerifyStatement_def VerifyThreshold_def Some by (auto split: option.splits sum.splits)
qed

text \<open>
  C23: a treasury on record was proved, and stays where it is.  Whatever was done before: no two rows have one address, so
  no two orgs have one treasury; behind each row is a spent challenge that was issued to prove a treasury, to that org and for
  that address; and a further step moves no row to another org or address, and touches none but those of the org it acts for.
\<close>

theorem treasuries_proved:
  assumes "(link_step pf)\<^sup>*\<^sup>* link_init db" "link_step pf db db'"
  shows "(\<forall>t \<in> set (treasury_rows db). \<forall>u \<in> set (treasury_rows db). t_address t = t_address u \<longrightarrow> t = u)
    \<and> (\<forall>t \<in> set (treasury_rows db). \<exists>c \<in> set (challenge_rows (people db)). ch_consumed c \<noteq> None
        \<and> ch_purpose c = PurposeLinkTreasury \<and> ch_org c = t_org t \<and> ch_address c = t_address t)
    \<and> (\<exists>org. \<forall>t \<in> set (treasury_rows db). \<exists>u \<in> set (treasury_rows db'). t_id u = t_id t \<and> t_org u = t_org t
        \<and> t_address u = t_address t \<and> (t_org t \<noteq> org \<longrightarrow> u = t))"
proof -
  have ok: "treasuries_ok db" using link_steps_ok [OF assms(1) link_init_ok] by (simp add: link_ok_def)
  from assms(2) have "\<exists>org. keeps_treasuries org db db'"
  proof cases
    case (l_people people1)
    then have "treasury_rows db' = treasury_rows db" by simp
    then show ?thesis using keeps_treasuries_refl by blast
  next
    case l_treasury
    then show ?thesis using ConsumeTreasuryChallenge_keeps [OF ok] by blast
  next
    case l_signers
    then show ?thesis using SaveSignerSet_keeps by blast
  qed
  moreover have "\<forall>t \<in> set (treasury_rows db). \<forall>u \<in> set (treasury_rows db). t_address t = t_address u \<longrightarrow> t = u"
    using ok unfolding treasuries_ok_def distinct_map inj_on_def by blast
  ultimately show ?thesis using ok unfolding treasuries_ok_def proved_by_def keeps_treasuries_def same_place_def by blast
qed

text \<open>
  A wallet is bound only to the member who asked for it.  A link that completes spent a live challenge of the org, issued
  to link a member; an envelope that proves the challenge's own address verified; the member is the one the chat account
  the challenge was issued to speaks for; that member now has that address; and no treasury changed.
\<close>

theorem SubmitLink_proved:
  assumes "(link_step pf)\<^sup>*\<^sup>* link_init db" "SubmitLink w scope hash signedXDR db = (Inr (a, mid), db')"
  shows "\<exists>sdk c i. lw_sdk w = Some sdk \<and> VerifyChallengeTxSigners sdk signedXDR [a] \<noteq> None
    \<and> c \<in> set (challenge_rows (people db)) \<and> live (lw_now w) (sp_org scope) hash c \<and> ch_purpose c = PurposeLinkMember \<and> ch_address c = a
    \<and> i \<in> set (identity_rows (people db)) \<and> i_id i = ch_identity c \<and> i_org i = sp_org scope \<and> i_member i = mid
    \<and> has_address (people db') mid a \<and> treasury_rows db' = treasury_rows db"
proof -
  from assms(2) obtain c people1 where l: "member_proof w scope hash signedXDR db = Inr c" "ch_address c = a" "db' = db\<lparr>people := people1\<rparr>"
    "ConsumeChallenge (lw_pf w) (lw_now w) (sp_org scope) hash a AddressLinked (people db) = (Inr mid, people1)"
    by (rule SubmitLink_linked)
  from l(1) obtain sdk where m: "opened w scope = Inr sdk" "live_challenge w scope hash db = Inr c" "ch_purpose c = PurposeLinkMember"
    "VerifyMember sdk signedXDR (ch_address c) = None"
    by (rule member_proofD)
  from l(4) obtain d i where d: "d \<in> set (challenge_rows (people db))" "live (lw_now w) (sp_org scope) hash d" "ch_address d = a"
    "i \<in> set (identity_rows (people db))" "i_id i = ch_identity d" "i_org i = sp_org scope" "i_member i = mid"
    "(mid, sp_org scope) \<in> member_keys (member_rows (people db))"
    "member_rows people1 = map (\<lambda>x. if m_org x = sp_org scope \<and> m_id x = mid
       then x\<lparr>m_address := Some a, m_source := Some AddressLinked, m_verified := Some (lw_now w)\<rparr> else x) (member_rows (people db))"
    by (rule ConsumeChallenge_bound)
  obtain x where x: "x \<in> set (member_rows (people db))" "m_id x = mid" "m_org x = sp_org scope" using d(8) by (auto simp: member_keys_def)
  have "has_address people1 mid a"
    unfolding has_address_def d(9) set_map using x by (intro bexI [OF _ imageI [OF x(1)]]) simp_all
  moreover have "VerifyChallengeTxSigners sdk signedXDR [a] \<noteq> None"
    using m(4) l(2) by (auto simp: VerifyMember_def split: if_splits option.splits)
  moreover have "d = c"
    using live_challengeD [OF m(2)] d(1,2) link_steps_ok [OF assms(1) link_init_ok]
    unfolding link_ok_def member_db_ok_def challenges_ok_def distinct_map inj_on_def by (auto simp: live_def)
  ultimately show ?thesis using d(1-7) m(3) l(3) opened_sdk [OF m(1)] by auto
qed

text \<open>
  The envelope that is verified need not be the one on record: any envelope that proves the address completes the challenge.
\<close>

lemma SubmitLink_any_envelope:
  assumes "SubmitLink w scope hash signedXDR db = (Inr (a, mid), db')" "lw_sdk w = Some sdk" "other \<noteq> []"
    "VerifyChallengeTxSigners sdk other [a] \<noteq> None"
  shows "SubmitLink w scope hash other db = (Inr (a, mid), db')"
proof -
  from assms(1) obtain c people1 where l: "member_proof w scope hash signedXDR db = Inr c" "ch_address c = a" "db' = db\<lparr>people := people1\<rparr>"
    "ConsumeChallenge (lw_pf w) (lw_now w) (sp_org scope) hash a AddressLinked (people db) = (Inr mid, people1)"
    by (rule SubmitLink_linked)
  from l(1) obtain sdk' where m: "opened w scope = Inr sdk'" "live_challenge w scope hash db = Inr c" "ch_purpose c = PurposeLinkMember"
    "VerifyMember sdk' signedXDR (ch_address c) = None"
    by (rule member_proofD)
  have "sdk' = sdk" using opened_sdk [OF m(1)] assms(2) by simp
  then have "VerifyMember sdk other a = None" using m(4) l(2) assms(4) by (auto simp: VerifyMember_def split: if_splits option.splits)
  then have "member_proof w scope hash other db = Inr c"
    using m(1-3) assms(3) l(2) \<open>sdk' = sdk\<close> by (simp add: member_proof_def)
  then show ?thesis using l(2-4) by (simp add: SubmitLink_def)
qed

text \<open>
  A treasury is recorded only when its signers, as the network reports them at that moment, signed at the weight that
  moves its money.  The row that comes back is on record, for the org and for the address the challenge was issued for; the
  rows of every other org are as they were; and the signers kept are the ones the proof was checked against.
\<close>

theorem SubmitTreasuryLink_proved:
  assumes "(link_step pf)\<^sup>*\<^sup>* link_init db" "SubmitTreasuryLink w scope hash signedXDR label db = (Inr (t, signedBy), db')"
  shows "\<exists>sdk c a. lw_sdk w = Some sdk \<and> c \<in> set (challenge_rows (people db)) \<and> live (lw_now w) (sp_org scope) hash c
    \<and> ch_purpose c = PurposeLinkTreasury \<and> t_org t = sp_org scope \<and> t_address t = ch_address c
    \<and> SignerSetOf sdk (lw_load w) (t_address t) = Inr a
    \<and> VerifyChallengeTxThreshold sdk signedXDR (ucast (Medium a)) (Summary a (t_address t)) = Some signedBy
    \<and> CachedSignerSet db' (sp_org scope) (t_id t) = Summary a (t_address t)
    \<and> (\<forall>u \<in> set (treasury_rows db). t_org u \<noteq> sp_org scope \<longrightarrow> u \<in> set (treasury_rows db'))"
proof -
  have ok: "treasuries_ok db" using link_steps_ok [OF assms(1) link_init_ok] by (simp add: link_ok_def)
  from assms(2) obtain c a db1 where r: "treasury_proof w scope hash signedXDR db = Inr (c, a, signedBy)"
    "ConsumeTreasuryChallenge (lw_pf w) (lw_now w) hash (link_params scope label c a) db = (Inr t, db1)"
    "SaveSignerSet (lw_pf w) (lw_now w) (sp_org scope) (t_id t) (Summary a (ch_address c))
       (ucast (Low a)) (ucast (Medium a)) (ucast (High a)) db1 = (None, db')"
    by (rule SubmitTreasuryLink_recorded)
  from r(1) obtain sdk where p: "lw_sdk w = Some sdk" "live_challenge w scope hash db = Inr c" "ch_purpose c = PurposeLinkTreasury"
    "SignerSetOf sdk (lw_load w) (ch_address c) = Inr a"
    "VerifyChallengeTxThreshold sdk signedXDR (ucast (Medium a)) (Summary a (ch_address c)) = Some signedBy"
    by (rule treasury_proofD)
  have t: "t_org t = sp_org scope" "t_address t = ch_address c"
    using ConsumeTreasuryChallenge_row [OF r(2)] by (simp_all add: link_params_def)
  have "keeps_treasuries (sp_org scope) db db1"
    using ConsumeTreasuryChallenge_keeps [OF ok r(2)] by (simp add: link_params_def)
  then have "keeps_treasuries (sp_org scope) db db'" using SaveSignerSet_keeps [OF r(3)] keeps_treasuries_trans by blast
  moreover have "CachedSignerSet db' (sp_org scope) (t_id t) = Summary a (ch_address c)" using r(3) by (rule SaveSignerSet_cached)
  ultimately show ?thesis
    using p t live_challengeD [OF p(2)] unfolding keeps_treasuries_def by (metis (no_types, lifting))
qed

section \<open>A small history\<close>

lemma lift_people: "(member_step pf)\<^sup>*\<^sup>* (people db) p \<Longrightarrow> (link_step pf)\<^sup>*\<^sup>* db (db\<lparr>people := p\<rparr>)"
proof (induction rule: rtranclp_induct)
  case (step y z)
  then have "link_step pf (db\<lparr>people := y\<rparr>) (db\<lparr>people := y\<rparr>\<lparr>people := z\<rparr>)" by (intro l_people) simp
  then show ?case using step.IH by (simp add: rtranclp.rtrancl_into_rtrancl)
qed simp

text \<open>An SDK that finds every signature it is asked for, and one account whose only signer is its own key.\<close>

definition demo_challenges :: challenge_sdk where
  "demo_challenges = \<lparr>server_account = ''S'', valid_key = (\<lambda>_. True), BuildChallengeTx = (\<lambda>_. None),
     VerifyChallengeTxSigners = (\<lambda>x ks. Some ks), VerifyChallengeTxThreshold = (\<lambda>x t s. Some (map fst s)), Operations = (\<lambda>_. None)\<rparr>"

definition demo_link_world :: link_world where
  "demo_link_world = \<lparr>lw_now = 30, lw_pf = demo_pf, lw_sdk = Some demo_challenges,
     lw_load = (\<lambda>a. Some \<lparr>ha_signers = [(a, 1)], ha_low = 1, ha_medium = 1, ha_high = 1\<rparr>)\<rparr>"

definition demo_link_scope :: Scope where
  "demo_link_scope = \<lparr>sp_org = 1, sp_owner = ''u1''\<rparr>"

definition demo_wallet_asked :: link_db where
  "demo_wallet_asked = link_init\<lparr>people := demo_asked\<rparr>"

definition demo_treasury_asked :: link_db where
  "demo_treasury_asked = link_init\<lparr>people := snd (SaveChallenge demo_pf 20 (demo_challenge\<lparr>ch_purpose := PurposeLinkTreasury\<rparr>) demo_admin)\<rparr>"

definition demo_treasury_linked :: link_db where
  "demo_treasury_linked = snd (ConsumeTreasuryChallenge demo_pf 30 (replicate 64 (CHR ''a''))
     \<lparr>lp_org = 1, lp_kind = ''classic'', lp_address = replicate 56 (CHR ''G''), lp_label = [], lp_contract = [], lp_low = 1, lp_medium = 1,
      lp_high = 1, lp_verified_by = 0\<rparr> demo_treasury_asked)"

lemma demo_link_reached:
  "(link_step demo_pf)\<^sup>*\<^sup>* link_init demo_wallet_asked" "(link_step demo_pf)\<^sup>*\<^sup>* link_init demo_treasury_asked"
  "(link_step demo_pf)\<^sup>*\<^sup>* link_init demo_treasury_linked"
proof -
  have "(member_step demo_pf)\<^sup>*\<^sup>* (people link_init) demo_asked"
    using demo_member_steps(1,2) by (simp add: link_init_def)
  then show "(link_step demo_pf)\<^sup>*\<^sup>* link_init demo_wallet_asked" unfolding demo_wallet_asked_def by (rule lift_people)
  have "member_step demo_pf demo_admin (snd (SaveChallenge demo_pf 20 (demo_challenge\<lparr>ch_purpose := PurposeLinkTreasury\<rparr>) demo_admin))"
    by (rule m_save, rule prod.collapse [symmetric])
  then have "(member_step demo_pf)\<^sup>*\<^sup>* (people link_init) (snd (SaveChallenge demo_pf 20 (demo_challenge\<lparr>ch_purpose := PurposeLinkTreasury\<rparr>) demo_admin))"
    using demo_member_steps(1) by (simp add: link_init_def rtranclp.rtrancl_into_rtrancl)
  then show t: "(link_step demo_pf)\<^sup>*\<^sup>* link_init demo_treasury_asked" unfolding demo_treasury_asked_def by (rule lift_people)
  have "link_step demo_pf demo_treasury_asked demo_treasury_linked"
    unfolding demo_treasury_linked_def by (rule l_treasury, rule prod.collapse [symmetric])
  with t show "(link_step demo_pf)\<^sup>*\<^sup>* link_init demo_treasury_linked" by (rule rtranclp.rtrancl_into_rtrancl)
qed

lemma demo_link_scope_ok: "scope_check \<lparr>sp_org = 1, sp_owner = ''u1''\<rparr> = None"
  by (simp add: scope_check_def char_of_eq_iff take_bit_eq_mod)

lemma demo_strkey: "strkey_text (replicate 56 (CHR ''G''))"
  by (simp add: strkey_text_def list_all_iff base32_char_def)

lemmas link_eval = ConsumeTreasuryChallenge_def claim_def live_def linkTreasuryTx_def treasury_of_def treasury_checks_def threshold_ok_def
  next_id_def Let_def link_init_def demo_pf_def nullable_def demo_strkey

lemma demo_treasury_asked_eq:
  "demo_treasury_asked = link_init\<lparr>people := demo_admin\<lparr>challenge_rows := [demo_challenge\<lparr>ch_purpose := PurposeLinkTreasury\<rparr>]\<rparr>\<rparr>"
  by (simp add: demo_treasury_asked_def SaveChallenge_def demo_admin_eq demo_challenge_def demo_pf_def challenge_checks_def hash_ok_def
      demo_hash demo_signer purposes_def)

lemma demo_treasury_linked_eq:
  "map t_address (treasury_rows demo_treasury_linked) = [replicate 56 (CHR ''G'')]"
  by (simp add: demo_treasury_linked_def demo_treasury_asked_eq link_eval demo_admin_eq demo_challenge_def)

theorem treasuries_proved_witness:
  "\<exists>c \<in> set (challenge_rows (people demo_treasury_linked)). ch_consumed c \<noteq> None \<and> ch_address c = replicate 56 (CHR ''G'')"
proof -
  have "SaveSignerSet demo_pf 40 7 9 [] 0 0 0 demo_treasury_linked =
      (fst (SaveSignerSet demo_pf 40 7 9 [] 0 0 0 demo_treasury_linked), snd (SaveSignerSet demo_pf 40 7 9 [] 0 0 0 demo_treasury_linked))" by simp
  then have s: "link_step demo_pf demo_treasury_linked (snd (SaveSignerSet demo_pf 40 7 9 [] 0 0 0 demo_treasury_linked))" by (rule l_signers)
  obtain t where "t \<in> set (treasury_rows demo_treasury_linked)" "t_address t = replicate 56 (CHR ''G'')"
    using demo_treasury_linked_eq by (cases "treasury_rows demo_treasury_linked") auto
  then show ?thesis using treasuries_proved [OF demo_link_reached(3) s] by metis
qed

theorem SubmitLink_proved_witness:
  "has_address (people (snd (SubmitLink demo_link_world demo_link_scope (replicate 64 (CHR ''a'')) ''AAAA'' demo_wallet_asked))) 1 (replicate 56 (CHR ''G''))"
proof -
  have m: "member_proof demo_link_world demo_link_scope (replicate 64 (CHR ''a'')) ''AAAA'' demo_wallet_asked = Inr demo_challenge"
    by (simp add: member_proof_def opened_def demo_link_scope_ok demo_link_world_def live_challenge_def LiveChallenge_def live_def demo_link_scope_def
        demo_wallet_asked_def demo_asked_eq demo_challenge_def VerifyMember_def demo_challenges_def)
  have "SubmitLink demo_link_world demo_link_scope (replicate 64 (CHR ''a'')) ''AAAA'' demo_wallet_asked =
      (Inr (replicate 56 (CHR ''G''), 1), demo_wallet_asked\<lparr>people := demo_linked\<rparr>)"
    using demo_linked_eq(1) unfolding SubmitLink_def m
    by (simp add: demo_link_world_def demo_link_scope_def demo_challenge_def demo_wallet_asked_def)
  from SubmitLink_proved [OF demo_link_reached(1) this] this show ?thesis by auto
qed

theorem SubmitTreasuryLink_proved_witness:
  "\<exists>t signedBy db'. SubmitTreasuryLink demo_link_world demo_link_scope (replicate 64 (CHR ''a'')) ''AAAA'' [] demo_treasury_asked = (Inr (t, signedBy), db')
     \<and> t_address t = replicate 56 (CHR ''G'')"
proof -
  have m: "treasury_proof demo_link_world demo_link_scope (replicate 64 (CHR ''a'')) ''AAAA'' demo_treasury_asked =
      Inr (demo_challenge\<lparr>ch_purpose := PurposeLinkTreasury\<rparr>, \<lparr>MasterWeight = 1, Signers = [], Low = 1, Medium = 1, High = 1, SkippedNonKeySigners = 0\<rparr>,
        [replicate 56 (CHR ''G'')])"
    by (simp add: treasury_proof_def opened_def demo_link_scope_ok demo_link_world_def live_challenge_def LiveChallenge_def live_def demo_link_scope_def
        demo_treasury_asked_eq demo_challenge_def VerifyThreshold_def demo_challenges_def SignerSetOf_def Summary_def map_put_def map_delete_def)
  obtain t signedBy db' where s: "SubmitTreasuryLink demo_link_world demo_link_scope (replicate 64 (CHR ''a'')) ''AAAA'' [] demo_treasury_asked = (Inr (t, signedBy), db')"
    unfolding SubmitTreasuryLink_def m
    by (simp add: demo_link_world_def demo_link_scope_def link_params_def demo_treasury_asked_eq link_eval demo_admin_eq demo_challenge_def
        SaveSignerSet_def Summary_def map_put_def map_delete_def signer_checks_def)
  from SubmitTreasuryLink_proved [OF demo_link_reached(2) s] have "t_address t = replicate 56 (CHR ''G'')"
    by (auto simp: demo_treasury_asked_eq demo_challenge_def)
  then show ?thesis using s by blast
qed

end
