(* ===== verification/Enrollment.thy ===== *)
theory Enrollment
  imports Linking
begin

text \<open>
  \<^verbatim>\<open>ledger/store/enrollment.go\<close>: the accounts the operator has paid for, and every limit on paying for another.  The state is
  the table of grants, the policy columns of the orgs, and the tables of \<open>Linking\<close> that the limits read.  Times are
  nanoseconds; \<open>dbnow\<close> is the transaction's \<open>now()\<close> and \<open>now\<close> the clock of the process, which the two ages are measured
  with.  Amounts are \<open>int64\<close> stroops, and the multiple of the float floor is computed at that width.
\<close>

section \<open>State\<close>

record enrollment_grant =
  g_org :: OrgID
  g_identity :: IdentityID
  g_member :: MemberID
  g_address :: address
  g_cost :: stroops
  g_granted_at :: int
  g_reclaimed_at :: "int option"

record org_policy =
  op_budget :: stroops
  op_daily_cap :: int
  op_created :: int

record enroll_db =
  links :: link_db
  policies_of :: "(OrgID \<times> org_policy) list"
  grants :: "enrollment_grant list"

record GrantParams =
  gp_org :: OrgID
  gp_member :: MemberID
  gp_identity :: IdentityID
  gp_address :: address
  gp_cost :: stroops
  gp_balance :: stroops

datatype enroll_error =
    NoCost | ErrAlreadyGranted | ErrOrgNotFound | ErrProvisioningOff | ErrDailyCapReached | ErrGlobalCapReached | ErrFloatTooLow
  | ErrTooNew | NegativePolicy | NoUnreclaimed | EnrollDb db_error

definition second :: int where "second = 10 ^ 9"
definition enroll_day :: int where "enroll_day = 24 * 3600 * second"
definition GlobalDailyGrants :: nat where "GlobalDailyGrants = 200"
definition MinIdentityAge :: int where "MinIdentityAge = 10 * 60 * second"
definition MinSpaceAge :: int where "MinSpaceAge = 3600 * second"
definition FloatFloorMultiple :: stroops where "FloatFloorMultiple = 50"

section \<open>Granting\<close>

text \<open>The grants of the last day, of one org and of all.\<close>

definition today :: "int \<Rightarrow> enrollment_grant list \<Rightarrow> enrollment_grant list" where
  "today dbnow gs = filter (\<lambda>g. dbnow - enroll_day < g_granted_at g) gs"

definition today_org :: "int \<Rightarrow> OrgID \<Rightarrow> enrollment_grant list \<Rightarrow> enrollment_grant list" where
  "today_org dbnow org gs = filter (\<lambda>g. g_org g = org \<and> dbnow - enroll_day < g_granted_at g) gs"

definition has_treasury :: "enroll_db \<Rightarrow> OrgID \<Rightarrow> bool" where
  "has_treasury db org \<longleftrightarrow> list_ex (\<lambda>t. t_org t = org) (treasury_rows (links db))"

text \<open>Every check of \<open>GrantEnrollment\<close>, in its order; what it reads is one state of the tables.\<close>

definition grant_checks :: "int \<Rightarrow> int \<Rightarrow> GrantParams \<Rightarrow> enroll_db \<Rightarrow> enroll_error option" where
  "grant_checks now dbnow p db =
     (if sint (gp_cost p) \<le> 0 then Some NoCost
      else if list_ex (\<lambda>g. g_member g = gp_member p) (grants db) then Some ErrAlreadyGranted
      else case map_of (policies_of db) (gp_org p) of
          None \<Rightarrow> Some ErrOrgNotFound
        | Some o1 \<Rightarrow>
            if sint (op_budget o1) \<le> 0 then Some ErrProvisioningOff
            else if \<not> has_treasury db (gp_org p) then Some ErrProvisioningOff
            else if int (length (today_org dbnow (gp_org p) (grants db))) \<ge> op_daily_cap o1 then Some ErrDailyCapReached
            else if length (today dbnow (grants db)) \<ge> GlobalDailyGrants then Some ErrGlobalCapReached
            else if sint (gp_balance p) < sint (gp_cost p * FloatFloorMultiple) then Some ErrFloatTooLow
            else case find (\<lambda>i. i_id i = gp_identity p \<and> i_org i = gp_org p) (identity_rows (people (links db))) of
                None \<Rightarrow> Some (EnrollDb NoRows)
              | Some i \<Rightarrow>
                  if now - i_linked_at i < MinIdentityAge then Some ErrTooNew
                  else if now - op_created o1 < MinSpaceAge then Some ErrTooNew
                  else None)"

text \<open>The row, its checks, its unique index on the member and its foreign keys.\<close>

definition insert_grant :: "platform \<Rightarrow> int \<Rightarrow> GrantParams \<Rightarrow> enroll_db \<Rightarrow> enroll_error option \<times> enroll_db" where
  "insert_grant pf dbnow p db =
     (if \<not> text_ok pf (gp_address p) then (Some (EnrollDb NotStorable), db)
      else if \<not> issuer_ok (gp_address p) \<or> sint (gp_cost p) \<le> 0 then (Some (EnrollDb CheckViolation), db)
      else if list_ex (\<lambda>g. g_member g = gp_member p) (grants db) then (Some ErrAlreadyGranted, db)
      else if find_member (people (links db)) (gp_org p) (gp_member p) = None then (Some (EnrollDb ForeignKeyViolation), db)
      else (None, db\<lparr>grants := grants db @ [\<lparr>g_org = gp_org p, g_identity = gp_identity p, g_member = gp_member p,
              g_address = gp_address p, g_cost = gp_cost p, g_granted_at = dbnow, g_reclaimed_at = None\<rparr>]\<rparr>))"

definition GrantEnrollment :: "platform \<Rightarrow> int \<Rightarrow> int \<Rightarrow> GrantParams \<Rightarrow> enroll_db \<Rightarrow> enroll_error option \<times> enroll_db" where
  "GrantEnrollment pf now dbnow p db =
     (case grant_checks now dbnow p db of Some e \<Rightarrow> (Some e, db) | None \<Rightarrow> insert_grant pf dbnow p db)"

section \<open>The life of a grant\<close>

definition GrantFor :: "enroll_db \<Rightarrow> OrgID \<Rightarrow> address \<Rightarrow> enrollment_grant option" where
  "GrantFor db org address = find (\<lambda>g. g_org g = org \<and> g_address g = address) (grants db)"

definition unreclaimed :: "OrgID \<Rightarrow> address \<Rightarrow> enrollment_grant \<Rightarrow> bool" where
  "unreclaimed org address g \<longleftrightarrow> g_org g = org \<and> g_address g = address \<and> g_reclaimed_at g = None"

definition ReclaimGrant :: "int \<Rightarrow> OrgID \<Rightarrow> address \<Rightarrow> enroll_db \<Rightarrow> enroll_error option \<times> enroll_db" where
  "ReclaimGrant dbnow org address db =
     (if \<not> list_ex (unreclaimed org address) (grants db) then (Some NoUnreclaimed, db)
      else (None, db\<lparr>grants := map (\<lambda>g. if unreclaimed org address g then g\<lparr>g_reclaimed_at := Some dbnow\<rparr> else g) (grants db)\<rparr>))"

definition ReleaseGrant :: "OrgID \<Rightarrow> address \<Rightarrow> enroll_db \<Rightarrow> enroll_db" where
  "ReleaseGrant org address db = db\<lparr>grants := filter (\<lambda>g. \<not> unreclaimed org address g) (grants db)\<rparr>"

section \<open>Policy\<close>

record EnrollmentPolicy =
  ep_budget :: stroops
  ep_daily_cap :: int
  ep_has_treasury :: bool

definition Policy_On :: "EnrollmentPolicy \<Rightarrow> bool" where
  "Policy_On p \<longleftrightarrow> sint (ep_budget p) > 0 \<and> ep_daily_cap p > 0 \<and> ep_has_treasury p"

definition EnrollmentPolicyOf :: "enroll_db \<Rightarrow> OrgID \<Rightarrow> (enroll_error, EnrollmentPolicy) result" where
  "EnrollmentPolicyOf db org =
     (case map_of (policies_of db) org of
        None \<Rightarrow> Inl ErrOrgNotFound
      | Some o1 \<Rightarrow> Inr \<lparr>ep_budget = op_budget o1, ep_daily_cap = op_daily_cap o1, ep_has_treasury = has_treasury db org\<rparr>)"

definition SetEnrollmentPolicy :: "OrgID \<Rightarrow> stroops \<Rightarrow> int \<Rightarrow> enroll_db \<Rightarrow> enroll_error option \<times> enroll_db" where
  "SetEnrollmentPolicy org budget dailyCap db =
     (if sint budget < 0 \<or> dailyCap < 0 then (Some NegativePolicy, db)
      else if dailyCap \<ge> 2 ^ 31 then (Some (EnrollDb OutOfRange), db)
      else if map_of (policies_of db) org = None then (Some ErrOrgNotFound, db)
      else (None, db\<lparr>policies_of := map (\<lambda>(i, o1). if i = org then (i, o1\<lparr>op_budget := budget, op_daily_cap := dailyCap\<rparr>) else (i, o1))
              (policies_of db)\<rparr>))"

definition ProvisioningWait :: "int \<Rightarrow> enroll_db \<Rightarrow> OrgID \<Rightarrow> string \<Rightarrow> string \<Rightarrow> (enroll_error, int) result" where
  "ProvisioningWait now db org channel user =
     (case map_of (policies_of db) org of
        None \<Rightarrow> Inl ErrOrgNotFound
      | Some o1 \<Rightarrow>
          let wait = MinSpaceAge - (now - op_created o1);
              identityWait = (case find_identity (people (links db)) org channel user of
                  None \<Rightarrow> MinIdentityAge
                | Some i \<Rightarrow> MinIdentityAge - (now - i_linked_at i));
              longer = (if identityWait > wait then identityWait else wait)
          in Inr (if longer < 0 then 0 else longer))"

section \<open>Grants over time\<close>

text \<open>
  One transaction after the other, each at the database's clock, which does not run backwards; anything may happen to the
  orgs and the people in between.
\<close>

inductive enroll_step :: "platform \<Rightarrow> int \<times> enroll_db \<Rightarrow> int \<times> enroll_db \<Rightarrow> bool" for pf where
  e_grant: "t \<le> dbnow \<Longrightarrow> GrantEnrollment pf now dbnow p db = (e, db') \<Longrightarrow> enroll_step pf (t, db) (dbnow, db')"
| e_reclaim: "t \<le> dbnow \<Longrightarrow> ReclaimGrant dbnow org address db = (e, db') \<Longrightarrow> enroll_step pf (t, db) (dbnow, db')"
| e_release: "enroll_step pf (t, db) (t, ReleaseGrant org address db)"
| e_policy: "SetEnrollmentPolicy org budget dailyCap db = (e, db') \<Longrightarrow> enroll_step pf (t, db) (t, db')"
| e_rows: "enroll_step pf (t, db) (t, db\<lparr>links := l, policies_of := ps\<rparr>)"

definition enroll_init :: enroll_db where
  "enroll_init = \<lparr>links = \<lparr>people = member_init, treasury_rows = [], signer_rows = [], treasury_seq = 0\<rparr>, policies_of = [], grants = []\<rparr>"

text \<open>The grants of any one day, and not only of the last.\<close>

definition in_day :: "int \<Rightarrow> enrollment_grant \<Rightarrow> bool" where
  "in_day u g \<longleftrightarrow> u - enroll_day < g_granted_at g \<and> g_granted_at g \<le> u"

definition enroll_ok :: "int \<times> enroll_db \<Rightarrow> bool" where
  "enroll_ok s \<longleftrightarrow> distinct (map g_member (grants (snd s))) \<and> (\<forall>g \<in> set (grants (snd s)). g_granted_at g \<le> fst s)
     \<and> (\<forall>u. length (filter (in_day u) (grants (snd s))) \<le> GlobalDailyGrants)"

lemma GrantEnrollment_granted:
  assumes "GrantEnrollment pf now dbnow p db = (None, db')"
  shows "grant_checks now dbnow p db = None"
    "db' = db\<lparr>grants := grants db @ [\<lparr>g_org = gp_org p, g_identity = gp_identity p, g_member = gp_member p,
              g_address = gp_address p, g_cost = gp_cost p, g_granted_at = dbnow, g_reclaimed_at = None\<rparr>]\<rparr>"
    "\<forall>g \<in> set (grants db). g_member g \<noteq> gp_member p"
  using assms by (auto simp: GrantEnrollment_def insert_grant_def list_ex_iff split: option.splits if_splits)

lemma GrantEnrollment_refused: "GrantEnrollment pf now dbnow p db = (Some e, db') \<Longrightarrow> db' = db"
  by (auto simp: GrantEnrollment_def insert_grant_def split: option.splits if_splits)

lemma grant_checks_global: "grant_checks now dbnow p db = None \<Longrightarrow> length (today dbnow (grants db)) < GlobalDailyGrants"
  by (auto simp: grant_checks_def split: option.splits if_splits)

lemma enroll_ok_grant:
  assumes ok: "enroll_ok (t, db)" and t: "t \<le> dbnow" and g: "GrantEnrollment pf now dbnow p db = (None, db')"
  shows "enroll_ok (dbnow, db')"
proof -
  note g = GrantEnrollment_granted [OF g]
  have le: "\<forall>g \<in> set (grants db). g_granted_at g \<le> dbnow" using ok t by (auto simp: enroll_ok_def)
  have "length (filter (in_day u) (grants db')) \<le> GlobalDailyGrants" for u
  proof (cases "u - enroll_day < dbnow \<and> dbnow \<le> u")
    case True
    then have "length (filter (in_day u) (grants db)) \<le> length (today dbnow (grants db))"
      unfolding today_def using le by (intro filter_length_mono) (auto simp: in_day_def)
    then show ?thesis using grant_checks_global [OF g(1)] unfolding g(2) by simp
  next
    case False
    then show ?thesis using ok unfolding g(2) by (auto simp: enroll_ok_def in_day_def)
  qed
  moreover have "distinct (map g_member (grants db'))" using ok g(3) unfolding g(2) by (auto simp: enroll_ok_def)
  moreover have "\<forall>g \<in> set (grants db'). g_granted_at g \<le> dbnow" using le unfolding g(2) by simp
  ultimately show ?thesis by (simp add: enroll_ok_def)
qed

lemma enroll_ok_later: "enroll_ok (t, db) \<Longrightarrow> t \<le> u \<Longrightarrow> enroll_ok (u, db)"
  by (auto simp: enroll_ok_def)

lemma enroll_ok_map:
  assumes "enroll_ok (t, db)" "grants db' = map f (grants db)" "\<And>g. g_member (f g) = g_member g \<and> g_granted_at (f g) = g_granted_at g"
  shows "enroll_ok (t, db')"
proof -
  have e: "map g_member (map f (grants db)) = map g_member (grants db)" using assms(3) by simp
  moreover have "length (filter (in_day u) (map f (grants db))) = length (filter (in_day u) (grants db))" for u
  proof -
    have "in_day u (f g) = in_day u g" for g using assms(3) by (simp add: in_day_def)
    then show ?thesis by (simp add: filter_map o_def)
  qed
  ultimately show ?thesis using assms(1,3) unfolding enroll_ok_def snd_conv fst_conv assms(2) e by simp
qed

lemma enroll_ok_filter:
  assumes "enroll_ok (t, db)" "grants db' = filter P (grants db)"
  shows "enroll_ok (t, db')"
proof -
  have "length (filter (in_day u) (filter P (grants db))) \<le> length (filter (in_day u) (grants db))" for u
    unfolding filter_filter by (rule filter_length_mono) simp
  then show ?thesis using assms unfolding enroll_ok_def by (auto simp: distinct_map_filter intro: order_trans)
qed

lemma enroll_step_ok:
  assumes "enroll_step pf s s'" "enroll_ok s"
  shows "enroll_ok s'"
  using assms
proof cases
  case (e_grant t dbnow now p db e db')
  then show ?thesis
    using enroll_ok_grant [of t db dbnow] enroll_ok_later [of t db dbnow] GrantEnrollment_refused assms(2) by (cases e) fastforce+
next
  case (e_reclaim t dbnow org address db e db')
  let ?f = "\<lambda>g. if unreclaimed org address g then g\<lparr>g_reclaimed_at := Some dbnow\<rparr> else g"
  have "db' = db \<or> grants db' = map ?f (grants db)" using e_reclaim(4) by (auto simp: ReclaimGrant_def split: if_splits)
  then have "enroll_ok (t, db')" using enroll_ok_map [of t db db' ?f] assms(2) e_reclaim(1) by auto
  then show ?thesis using enroll_ok_later e_reclaim(2,3) by simp
next
  case (e_release t db org address)
  then show ?thesis using enroll_ok_filter [of t db] assms(2) by (simp add: ReleaseGrant_def)
next
  case (e_policy org budget dailyCap db e db' t)
  then have "grants db' = grants db" by (auto simp: SetEnrollmentPolicy_def split: if_splits)
  then show ?thesis using assms(2) e_policy(1,2) by (simp add: enroll_ok_def)
next
  case (e_rows t db l ps)
  then show ?thesis using assms(2) by (simp add: enroll_ok_def)
qed

lemma enroll_steps_ok: "(enroll_step pf)\<^sup>*\<^sup>* s s' \<Longrightarrow> enroll_ok s \<Longrightarrow> enroll_ok s'"
  by (induction rule: rtranclp_induct) (auto intro: enroll_step_ok)

section \<open>Properties\<close>

text \<open>
  The operator's exposure is bounded.  However grants, releases and policies follow each other, in any day at all, not
  only the last, at most two hundred accounts were paid for, and no member has two grants.
\<close>

theorem enrollment_bounded:
  assumes "(enroll_step pf)\<^sup>*\<^sup>* (0, enroll_init) (t, db)"
  shows "length (filter (\<lambda>g. u - enroll_day < g_granted_at g \<and> g_granted_at g \<le> u) (grants db)) \<le> 200
    \<and> distinct (map g_member (grants db))"
proof -
  have "enroll_ok (0, enroll_init)" by (simp add: enroll_ok_def enroll_init_def)
  from enroll_steps_ok [OF assms this] have "length (filter (in_day u) (grants db)) \<le> 200" "distinct (map g_member (grants db))"
    by (simp_all add: enroll_ok_def GlobalDailyGrants_def)
  then show ?thesis by (simp add: in_day_def [abs_def])
qed

text \<open>
  The wait a person is told is the wait there is.  With everything else in order, a grant is refused as too new until
  exactly that much time has passed, and not from then on.
\<close>

theorem ProvisioningWait_exact:
  assumes w: "ProvisioningWait now db (gp_org p) channel user = Inr wait"
    and i: "find_identity (people (links db)) (gp_org p) channel user = Some i"
           "find (\<lambda>j. i_id j = gp_identity p \<and> i_org j = gp_org p) (identity_rows (people (links db))) = Some i"
    and other: "grant_checks now dbnow p db \<in> {None, Some ErrTooNew}"
    and later: "now \<le> later"
  shows "grant_checks later dbnow p db = (if later < now + wait then Some ErrTooNew else None)"
proof -
  obtain o1 where o1: "map_of (policies_of db) (gp_org p) = Some o1" using w by (auto simp: ProvisioningWait_def split: option.splits)
  have wait: "later < now + wait \<longleftrightarrow> later - i_linked_at i < MinIdentityAge \<or> later - op_created o1 < MinSpaceAge"
    using w i(1) o1 later by (auto simp: ProvisioningWait_def Let_def split: if_splits)
  have "grant_checks t dbnow p db =
      (if t - i_linked_at i < MinIdentityAge \<or> t - op_created o1 < MinSpaceAge then Some ErrTooNew else None)" for t
    using other o1 i(2) unfolding grant_checks_def o1 option.case i(2) by (auto split: if_splits)
  then show ?thesis using wait by simp
qed

text \<open>
  The limits are read and the grant is inserted in one transaction, but nothing locks what was read: two requests whose checks
  both see the tables as they were before either inserts can both be granted, and the org's daily cap is then exceeded.
\<close>

lemma concurrent_grants_pass_cap:
  assumes "grant_checks now dbnow p db = None" "grant_checks now dbnow q db = None" "gp_org q = gp_org p" "gp_member q \<noteq> gp_member p"
    "map_of (policies_of db) (gp_org p) = Some o1" "op_daily_cap o1 = int (length (today_org dbnow (gp_org p) (grants db))) + 1"
    "insert_grant pf dbnow p db = (None, db1)" "fst (insert_grant pf dbnow q db) = None"
  shows "\<exists>db2. insert_grant pf dbnow q db1 = (None, db2)
    \<and> int (length (today_org dbnow (gp_org p) (grants db2))) > op_daily_cap o1"
  using assms(3-8)
  by (auto simp: insert_grant_def today_org_def list_ex_iff enroll_day_def second_def split: if_splits)

section \<open>A small history\<close>

definition demo_enroll_grant :: GrantParams where
  "demo_enroll_grant = \<lparr>gp_org = 1, gp_member = 1, gp_identity = 1, gp_address = replicate 56 (CHR ''G''), gp_cost = 15000000, gp_balance = 10000000000\<rparr>"

definition demo_space :: enroll_db where
  "demo_space = enroll_init\<lparr>links := \<lparr>people = demo_admin, treasury_rows = [\<lparr>t_id = 1, t_org = 1, t_kind = ''classic'',
       t_address = replicate 56 (CHR ''G''), t_label = [], t_low = 1, t_medium = 1, t_high = 1, t_contract = None, t_verified_by = None,
       t_verified_at = 0, t_refreshed_at = 0\<rparr>], signer_rows = [], treasury_seq = 1\<rparr>,
     policies_of := [(1, \<lparr>op_budget = 1, op_daily_cap = 25, op_created = 0\<rparr>)]\<rparr>"

definition demo_granted :: enroll_db where
  "demo_granted = snd (GrantEnrollment demo_pf (10 ^ 13) (10 ^ 13) demo_enroll_grant demo_space)"

lemma demo_checks:
  "grant_checks later (10 ^ 13) demo_enroll_grant demo_space = (if later < 3600 * 10 ^ 9 then Some ErrTooNew else None)"
  by (simp add: grant_checks_def demo_enroll_grant_def demo_space_def enroll_init_def has_treasury_def today_org_def today_def GlobalDailyGrants_def
      FloatFloorMultiple_def demo_admin_eq MinIdentityAge_def MinSpaceAge_def second_def)

theorem enrollment_bounded_witness:
  "map g_member (grants demo_granted) = [1] \<and> distinct (map g_member (grants demo_granted))"
proof -
  have g: "GrantEnrollment demo_pf (10 ^ 13) (10 ^ 13) demo_enroll_grant demo_space = (None, demo_granted)" "map g_member (grants demo_granted) = [1]"
    unfolding demo_granted_def GrantEnrollment_def demo_checks
    by (simp_all add: insert_grant_def demo_enroll_grant_def demo_space_def enroll_init_def demo_pf_def demo_signer find_member_def demo_admin_eq new_member_def)
  have "enroll_step demo_pf (0, enroll_init) (0, demo_space)" unfolding demo_space_def by (rule e_rows)
  moreover have "enroll_step demo_pf (0, demo_space) (10 ^ 13, demo_granted)" using g(1) by (intro e_grant) simp_all
  ultimately have "(enroll_step demo_pf)\<^sup>*\<^sup>* (0, enroll_init) (10 ^ 13, demo_granted)" by (meson converse_rtranclp_into_rtranclp r_into_rtranclp)
  from enrollment_bounded [OF this] g(2) show ?thesis by blast
qed

theorem ProvisioningWait_exact_witness:
  "ProvisioningWait (1800 * 10 ^ 9) demo_space 1 ''telegram'' ''u1'' = Inr (1800 * 10 ^ 9)
   \<and> grant_checks (3600 * 10 ^ 9) (10 ^ 13) demo_enroll_grant demo_space = None"
proof -
  have w: "ProvisioningWait (1800 * 10 ^ 9) demo_space (gp_org demo_enroll_grant) ''telegram'' ''u1'' = Inr (1800 * 10 ^ 9)"
    by (simp add: ProvisioningWait_def demo_space_def demo_enroll_grant_def enroll_init_def find_identity_def demo_admin_eq MinIdentityAge_def MinSpaceAge_def second_def)
  have i: "find_identity (people (links demo_space)) (gp_org demo_enroll_grant) ''telegram'' ''u1'' = Some (hd (identity_rows demo_admin))"
    "find (\<lambda>j. i_id j = gp_identity demo_enroll_grant \<and> i_org j = gp_org demo_enroll_grant) (identity_rows (people (links demo_space))) = Some (hd (identity_rows demo_admin))"
    by (simp_all add: demo_space_def demo_enroll_grant_def find_identity_def demo_admin_eq)
  have "grant_checks (1800 * 10 ^ 9) (10 ^ 13) demo_enroll_grant demo_space \<in> {None, Some ErrTooNew}"
    using demo_checks [of "1800 * 10 ^ 9"] by simp
  from ProvisioningWait_exact [OF w i this, of "3600 * 10 ^ 9"] w show ?thesis by (simp add: demo_enroll_grant_def)
qed

end
