(* ===== verification/Scval.thy ===== *)
theory Scval
  imports Codes
begin

text \<open>
  \<^verbatim>\<open>settlement/scval.go\<close>: a contract argument as text.  A value is the union \<^verbatim>\<open>xdr.ScVal\<close>, with its wide integers in the
  64-bit parts the wire carries and an optional vector and map; the kinds that only footprints hold are \<open>ScvOther\<close>.
  The encoding of a key as an address is the SDK's: an argument, with its laws as a predicate.
\<close>

unbundle bit_operations_syntax

section \<open>Values\<close>

datatype ScAddress = AddrAccount string | AddrContract string | AddrOther

datatype ScVal =
    ScvBool bool
  | ScvVoid
  | ScvU32 "32 word" | ScvI32 "32 word" | ScvU64 "64 word" | ScvI64 "64 word"
  | ScvTimepoint "64 word" | ScvDuration "64 word"
  | ScvU128 "64 word" "64 word" | ScvI128 "64 word" "64 word"
  | ScvU256 "64 word" "64 word" "64 word" "64 word" | ScvI256 "64 word" "64 word" "64 word" "64 word"
  | ScvSymbol string | ScvString string | ScvBytes string
  | ScvAddress ScAddress
  | ScvVec "ScVal list option"
  | ScvMap "(ScVal \<times> ScVal) list option"
  | ScvOther

record strkey =
  EncodeAccount :: "string \<Rightarrow> string"
  EncodeContract :: "string \<Rightarrow> string option"

definition scvalDelimiters :: string where
  "scvalDelimiters = '',[]{}=''"

definition hex4 :: "nat \<Rightarrow> string" where
  "hex4 r = [hex_digit (r div 4096 mod 16), hex_digit (r div 256 mod 16), hex_digit (r div 16 mod 16), hex_digit (r mod 16)]"

definition escape_rune :: "rune \<Rightarrow> string" where
  "escape_rune r =
     (if r = 92 then [chr 92, chr 92]
      else if r = 10 then [chr 92, CHR ''n'']
      else if r = 13 then [chr 92, CHR ''r'']
      else if r = 9 then [chr 92, CHR ''t'']
      else if r < 32 \<or> r \<in> byte ` set scvalDelimiters then [chr 92, CHR ''u''] @ hex4 r
      else encode_rune r)"

definition escapeScval :: "string \<Rightarrow> string" where
  "escapeScval s = concat (map escape_rune (runes_of s))"

definition hexOf :: "string \<Rightarrow> string" where
  "hexOf bs = concat (map (\<lambda>c. [hex_digit (byte c div 16), hex_digit (byte c mod 16)]) bs)"

definition u128String :: "64 word \<Rightarrow> 64 word \<Rightarrow> string" where
  "u128String hi lo = fmt_int (push_bit 64 (uint hi) OR uint lo)"

definition i128String :: "64 word \<Rightarrow> 64 word \<Rightarrow> string" where
  "i128String hi lo = fmt_int (push_bit 64 (sint hi) + uint lo)"

definition u256String :: "64 word \<Rightarrow> 64 word \<Rightarrow> 64 word \<Rightarrow> 64 word \<Rightarrow> string" where
  "u256String hihi hilo lohi lolo =
     fmt_int (foldl (\<lambda>n part. push_bit 64 n OR uint part) (uint hihi) [hilo, lohi, lolo])"

definition i256String :: "64 word \<Rightarrow> 64 word \<Rightarrow> 64 word \<Rightarrow> 64 word \<Rightarrow> string" where
  "i256String hihi hilo lohi lolo =
     fmt_int (foldl (\<lambda>n part. push_bit 64 n + uint part) (sint hihi) [hilo, lohi, lolo])"

fun scAddressString :: "strkey \<Rightarrow> ScAddress \<Rightarrow> string option" where
  "scAddressString k (AddrAccount key) = Some (EncodeAccount k key)"
| "scAddressString k (AddrContract key) = EncodeContract k key"
| "scAddressString k AddrOther = None"

function scvalString :: "strkey \<Rightarrow> ScVal \<Rightarrow> string option"
and vec_parts :: "strkey \<Rightarrow> ScVal list \<Rightarrow> string list option"
and map_parts :: "strkey \<Rightarrow> (ScVal \<times> ScVal) list \<Rightarrow> string list option" where
  "scvalString k (ScvBool b) = Some (''bool:'' @ (if b then ''true'' else ''false''))"
| "scvalString k ScvVoid = Some ''void:''"
| "scvalString k (ScvU32 n) = Some (''u32:'' @ fmt_int (uint n))"
| "scvalString k (ScvI32 n) = Some (''i32:'' @ fmt_int (sint n))"
| "scvalString k (ScvU64 n) = Some (''u64:'' @ fmt_int (uint n))"
| "scvalString k (ScvI64 n) = Some (''i64:'' @ fmt_int (sint n))"
| "scvalString k (ScvTimepoint n) = Some (''timepoint:'' @ fmt_int (uint n))"
| "scvalString k (ScvDuration n) = Some (''duration:'' @ fmt_int (uint n))"
| "scvalString k (ScvU128 hi lo) = Some (''u128:'' @ u128String hi lo)"
| "scvalString k (ScvI128 hi lo) = Some (''i128:'' @ i128String hi lo)"
| "scvalString k (ScvU256 a b c d) = Some (''u256:'' @ u256String a b c d)"
| "scvalString k (ScvI256 a b c d) = Some (''i256:'' @ i256String a b c d)"
| "scvalString k (ScvSymbol s) = Some (''sym:'' @ escapeScval s)"
| "scvalString k (ScvString s) = Some (''str:'' @ escapeScval s)"
| "scvalString k (ScvBytes s) = Some (''bytes:'' @ hexOf s)"
| "scvalString k (ScvAddress a) = map_option (\<lambda>t. ''addr:'' @ t) (scAddressString k a)"
| "scvalString k (ScvVec None) = Some ''vec:[]''"
| "scvalString k (ScvVec (Some vs)) = map_option (\<lambda>ps. ''vec:['' @ join '','' ps @ '']'') (vec_parts k vs)"
| "scvalString k (ScvMap None) = Some ''map:{}''"
| "scvalString k (ScvMap (Some es)) = map_option (\<lambda>ps. ''map:{'' @ join '','' ps @ ''}'') (map_parts k es)"
| "scvalString k ScvOther = None"
| "vec_parts k [] = Some []"
| "vec_parts k (v # vs) =
     (case scvalString k v of
        None \<Rightarrow> None
      | Some p \<Rightarrow> map_option (\<lambda>ps. p # ps) (vec_parts k vs))"
| "map_parts k [] = Some []"
| "map_parts k ((a, b) # es) =
     (case scvalString k a of
        None \<Rightarrow> None
      | Some p \<Rightarrow>
          (case scvalString k b of
             None \<Rightarrow> None
           | Some q \<Rightarrow> map_option (\<lambda>ps. (p @ ''='' @ q) # ps) (map_parts k es)))"
  by pat_completeness auto
termination
  by (relation "measure (case_sum (\<lambda>(k, v). size v) (case_sum (\<lambda>(k, vs). size_list size vs)
      (\<lambda>(k, es). size_list (size_prod size size) es)))") auto


section \<open>Escaping\<close>

abbreviation delim :: "char \<Rightarrow> bool" where
  "delim c \<equiv> c \<in> set scvalDelimiters"

lemma delim_iff: "delim c \<longleftrightarrow> byte c \<in> {44, 91, 93, 123, 125, 61}"
proof -
  have "delim c \<longleftrightarrow> byte c \<in> byte ` set scvalDelimiters" by (simp add: inj_image_mem_iff [OF inj_of_char])
  then show ?thesis by (simp add: scvalDelimiters_def insert_commute)
qed

lemma delim_codes: "byte ` set scvalDelimiters = {44, 91, 93, 123, 125, 61}"
  by (simp add: scvalDelimiters_def)

definition plain :: "rune \<Rightarrow> bool" where
  "plain r \<longleftrightarrow> r \<noteq> 92 \<and> 32 \<le> r \<and> r \<notin> {44, 91, 93, 123, 125, 61}"

lemma escape_plain: "plain r \<Longrightarrow> escape_rune r = encode_rune r"
  by (simp add: plain_def escape_rune_def delim_codes)

lemma escape_special: "\<not> plain r \<Longrightarrow> \<exists>c rest. escape_rune r = chr 92 # c # rest"
  by (auto simp: plain_def escape_rune_def delim_codes)

lemma chr_eq_iff: "m < 256 \<Longrightarrow> n < 256 \<Longrightarrow> chr m = chr n \<longleftrightarrow> m = n"
  by (metis of_char_of mod_less)

lemma encode_rune_head:
  assumes "r \<noteq> b" "b < 128"
  shows "hd (encode_rune r) \<noteq> chr b"
proof -
  have "byte (hd (encode_rune r)) \<noteq> b" using assms by (auto simp: encode_rune_def)
  then show ?thesis using assms(2) by auto
qed

lemma encode_rune_bytes: "128 \<le> r \<Longrightarrow> c \<in> set (encode_rune r) \<Longrightarrow> scalar r \<Longrightarrow> 128 \<le> byte c"
  by (auto simp: encode_rune_def scalar_def split: if_splits)

lemma hex4_inj:
  assumes "m < 256" "n < 256" "hex4 m = hex4 n"
  shows "m = n"
proof -
  have d: "hex_digit (x mod 16) = hex_digit (y mod 16) \<Longrightarrow> x mod 16 = y mod 16" for x y
    by (rule hex_digit_inj) simp_all
  have "m div 16 mod 16 = n div 16 mod 16" "m mod 16 = n mod 16"
    using assms(3) d by (simp_all add: hex4_def)
  moreover have "x div 16 mod 16 = x div 16" if "x < 256" for x :: nat
    using that by (intro mod_less) (simp add: less_mult_imp_div_less)
  ultimately show ?thesis using assms(1,2) by (metis div_mult_mod_eq)
qed

lemma escape_special_cases:
  assumes "\<not> plain r"
  obtains c rest where "escape_rune r = chr 92 # c # rest" "r < 128"
    "c = chr 92 \<and> r = 92 \<and> rest = [] \<or> c = CHR ''n'' \<and> r = 10 \<and> rest = [] \<or> c = CHR ''r'' \<and> r = 13 \<and> rest = []
     \<or> c = CHR ''t'' \<and> r = 9 \<and> rest = [] \<or> c = CHR ''u'' \<and> rest = hex4 r"
proof -
  consider "r = 92" | "r = 10" | "r = 13" | "r = 9" | "r \<noteq> 92" "r \<noteq> 10" "r \<noteq> 13" "r \<noteq> 9" "r < 32 \<or> r \<in> {44, 91, 93, 123, 125, 61}"
    using assms unfolding plain_def by (metis not_le)
  then show ?thesis
  proof cases
    case 5
    then have "escape_rune r = chr 92 # CHR ''u'' # hex4 r" "r < 128" by (auto simp: escape_rune_def delim_codes)
    then show ?thesis using that by blast
  qed (use that in \<open>simp_all add: escape_rune_def\<close>)
qed

lemma escape_special_inj:
  assumes "\<not> plain x" "\<not> plain y" "escape_rune x @ u = escape_rune y @ v"
  shows "x = y"
proof -
  from assms(1) obtain c p where x: "escape_rune x = chr 92 # c # p" "x < 128"
    "c = chr 92 \<and> x = 92 \<and> p = [] \<or> c = CHR ''n'' \<and> x = 10 \<and> p = [] \<or> c = CHR ''r'' \<and> x = 13 \<and> p = []
     \<or> c = CHR ''t'' \<and> x = 9 \<and> p = [] \<or> c = CHR ''u'' \<and> p = hex4 x" by (rule escape_special_cases)
  from assms(2) obtain d q where y: "escape_rune y = chr 92 # d # q" "y < 128"
    "d = chr 92 \<and> y = 92 \<and> q = [] \<or> d = CHR ''n'' \<and> y = 10 \<and> q = [] \<or> d = CHR ''r'' \<and> y = 13 \<and> q = []
     \<or> d = CHR ''t'' \<and> y = 9 \<and> q = [] \<or> d = CHR ''u'' \<and> q = hex4 y" by (rule escape_special_cases)
  have eq: "c = d" "p @ u = q @ v" using assms(3) x(1) y(1) by simp_all
  show ?thesis
  proof (cases "c = CHR ''u''")
    case True
    moreover have "CHR ''u'' \<noteq> chr 92" by code_simp
    ultimately have "p = hex4 x" "q = hex4 y" using x(3) y(3) eq(1) by auto
    then have "hex4 x = hex4 y" using eq(2) by (simp add: hex4_def)
    then show ?thesis using x(2) y(2) by (intro hex4_inj) simp_all
  next
    case False
    have "(byte c, x) \<in> {(92, 92), (110, 10), (114, 13), (116, 9)}" using x(3) False by (elim disjE conjE) simp_all
    moreover have "(byte c, y) \<in> {(92, 92), (110, 10), (114, 13), (116, 9)}" using y(3) [folded eq(1)] False by (elim disjE conjE) simp_all
    ultimately show ?thesis by auto
  qed
qed

interpretation scval_escape: prefix_code escape_rune scalar
proof
  fix x y :: rune and u v :: string
  assume x: "scalar x"
  show "escape_rune x \<noteq> []" using escape_special [of x] by (cases "plain x") (auto simp: escape_plain)
  assume y: "scalar y" and eq: "escape_rune x @ u = escape_rune y @ v"
  have no: False if "plain a" "\<not> plain b" "escape_rune a @ p = escape_rune b @ q" for a b p q
  proof -
    have "hd (encode_rune a) = chr 92"
      using that escape_special [of b] by (auto simp: escape_plain hd_append) (metis hd_append encode_rune_nonempty list.sel(1))
    then show False using encode_rune_head [of a 92] that(1) by (simp add: plain_def)
  qed
  consider "plain x" "plain y" | "\<not> plain x" "\<not> plain y" using no eq by metis
  then show "x = y"
  proof cases
    case 1
    then show ?thesis using utf8.unambiguous [OF x y] eq by (simp add: escape_plain)
  next
    case 2
    then show ?thesis using escape_special_inj eq by blast
  qed
qed

lemma escapeScval_inj: "valid_utf8 s \<Longrightarrow> valid_utf8 t \<Longrightarrow> escapeScval s = escapeScval t \<Longrightarrow> s = t"
  unfolding escapeScval_def using scval_escape.concat_inj valid_utf8_runes by metis

lemma escape_rune_no_delim:
  assumes "scalar r" "c \<in> set (escape_rune r)"
  shows "\<not> delim c"
proof (cases "plain r")
  case True
  then have c: "c \<in> set (encode_rune r)" using assms(2) by (simp add: escape_plain)
  show ?thesis
  proof (cases "r < 128")
    case True
    then show ?thesis using c \<open>plain r\<close> by (auto simp: encode_rune_ascii plain_def delim_iff)
  next
    case False
    then show ?thesis using encode_rune_bytes [of r c] c assms(1) by (auto simp: delim_iff)
  qed
next
  case False
  have h: "\<not> delim (hex_digit (x mod 16))" for x
    using byte_hex_digit [of "x mod 16"] by (auto simp: delim_iff split: if_splits)
  from False obtain d rest where "escape_rune r = chr 92 # d # rest"
    "d = chr 92 \<and> r = 92 \<and> rest = [] \<or> d = CHR ''n'' \<and> r = 10 \<and> rest = [] \<or> d = CHR ''r'' \<and> r = 13 \<and> rest = []
     \<or> d = CHR ''t'' \<and> r = 9 \<and> rest = [] \<or> d = CHR ''u'' \<and> rest = hex4 r" by (rule escape_special_cases)
  then show ?thesis using assms(2) h by (elim disjE conjE) (auto simp: hex4_def delim_iff)
qed

lemma escapeScval_no_delim: "valid_utf8 s \<Longrightarrow> \<forall>c \<in> set (escapeScval s). \<not> delim c"
  using valid_utf8_runes(1) [of s] escape_rune_no_delim by (auto simp: escapeScval_def list_all_iff)

section \<open>Bytes and wide integers\<close>

interpretation hex: prefix_code "\<lambda>c. [hex_digit (byte c div 16), hex_digit (byte c mod 16)]" "\<lambda>c::char. True"
proof
  fix c d :: char and u v :: string
  show "[hex_digit (byte c div 16), hex_digit (byte c mod 16)] \<noteq> []" by simp
  have lt: "(byte e :: nat) div 16 < 16" for e by (simp add: less_mult_imp_div_less)
  assume "[hex_digit (byte c div 16), hex_digit (byte c mod 16)] @ u = [hex_digit (byte d div 16), hex_digit (byte d mod 16)] @ v"
  then have "(byte c :: nat) div 16 = byte d div 16" "(byte c :: nat) mod 16 = byte d mod 16"
    using hex_digit_inj [OF lt lt] hex_digit_inj [of "byte c mod 16" "byte d mod 16"] by simp_all
  then have "(byte c :: nat) = byte d" by (metis div_mult_mod_eq)
  then show "c = d" by simp
qed

lemma hexOf_inj: "hexOf a = hexOf b \<longleftrightarrow> a = b"
  unfolding hexOf_def using hex.concat_inj [of a b] by (auto simp: list_all_iff)

lemma hexOf_no_delim: "\<forall>c \<in> set (hexOf s). \<not> delim c"
proof -
  have h: "\<not> delim (hex_digit d)" if "d < 16" for d using that byte_hex_digit [OF that] by (auto simp: delim_iff split: if_splits)
  have lt: "(byte e :: nat) div 16 < 16" for e by (simp add: less_mult_imp_div_less)
  show ?thesis using h lt by (auto simp: hexOf_def)
qed

lemma fmt_int_no_delim: "\<forall>c \<in> set (fmt_int i). \<not> delim c"
  using fmt_int_chars [of i] by (auto simp: delim_iff is_digit_def)

text \<open>One more 64-bit part below a number.\<close>

definition glue :: "int \<Rightarrow> 64 word \<Rightarrow> int" where
  "glue n w = n * 2 ^ 64 + uint w"

lemma glue_add: "push_bit 64 n + uint w = glue n w"
  by (simp add: glue_def push_bit_eq_mult)

lemma glue_or: "push_bit 64 n OR uint w = glue n w"
proof -
  have "push_bit 64 n + uint w = push_bit 64 n OR uint w"
    by (rule disjunctive_add) (simp add: bit_push_bit_iff bit_uint_iff)
  then show ?thesis by (simp add: glue_add)
qed

lemma glue_inj: "glue m v = glue n w \<Longrightarrow> m = n \<and> v = w"
proof -
  assume eq: "glue m v = glue n w"
  have d: "glue x y div 2 ^ 64 = x" for x y
    using uint_lt2p [of y] by (simp add: glue_def)
  then have "m = n" using eq by metis
  then show ?thesis using eq by (simp add: glue_def word_uint_eq_iff)
qed

lemma word_eqD: "uint (a :: 'w::len word) = uint b \<Longrightarrow> a = b" "sint a = sint b \<Longrightarrow> a = b"
  by (simp add: word_uint_eq_iff) (rule signed_word_eqI)

lemma wide_inj:
  "u128String a b = u128String c d \<Longrightarrow> a = c \<and> b = d"
  "i128String a b = i128String c d \<Longrightarrow> a = c \<and> b = d"
  by (auto simp: u128String_def i128String_def glue_or glue_add fmt_int_inj dest!: glue_inj word_eqD)

lemma wider_inj:
  "u256String a b c d = u256String a' b' c' d' \<Longrightarrow> a = a' \<and> b = b' \<and> c = c' \<and> d = d'"
  "i256String a b c d = i256String a' b' c' d' \<Longrightarrow> a = a' \<and> b = b' \<and> c = c' \<and> d = d'"
  by (auto simp: u256String_def i256String_def glue_or glue_add fmt_int_inj dest!: glue_inj word_eqD)

section \<open>A rendered value determines the value\<close>

text \<open>What the SDK documents of \<^verbatim>\<open>strkey\<close>: base32 text, one for each kind and key.\<close>

definition base32 :: "char \<Rightarrow> bool" where
  "base32 c \<longleftrightarrow> 65 \<le> byte c \<and> byte c \<le> 90 \<or> 50 \<le> byte c \<and> byte c \<le> 55"

definition strkey_laws :: "strkey \<Rightarrow> bool" where
  "strkey_laws k \<longleftrightarrow> (\<forall>a b. EncodeAccount k a = EncodeAccount k b \<longrightarrow> a = b)
     \<and> (\<forall>a b t. EncodeContract k a = Some t \<and> EncodeContract k b = Some t \<longrightarrow> a = b)
     \<and> (\<forall>a b. EncodeContract k b \<noteq> Some (EncodeAccount k a))
     \<and> (\<forall>a. list_all base32 (EncodeAccount k a)) \<and> (\<forall>a t. EncodeContract k a = Some t \<longrightarrow> list_all base32 t)"

lemma address_inj: "strkey_laws k \<Longrightarrow> scAddressString k a = Some t \<Longrightarrow> scAddressString k b = Some t \<Longrightarrow> a = b"
  by (cases a; cases b) (auto simp: strkey_laws_def)

lemma address_base32: "strkey_laws k \<Longrightarrow> scAddressString k a = Some t \<Longrightarrow> list_all base32 t"
  by (cases a) (auto simp: strkey_laws_def)

text \<open>Every text in the value is valid UTF-8.\<close>

fun readable :: "ScVal \<Rightarrow> bool" where
  "readable (ScvSymbol s) = valid_utf8 s"
| "readable (ScvString s) = valid_utf8 s"
| "readable (ScvVec (Some vs)) = list_all readable vs"
| "readable (ScvMap (Some es)) = list_all (\<lambda>e. readable (fst e) \<and> readable (snd e)) es"
| "readable v = True"

text \<open>An absent vector or map and an empty one are the same value to a contract, and are written alike.\<close>

fun strip :: "ScVal \<Rightarrow> ScVal" where
  "strip (ScvVec None) = ScvVec (Some [])"
| "strip (ScvVec (Some vs)) = ScvVec (Some (map strip vs))"
| "strip (ScvMap None) = ScvMap (Some [])"
| "strip (ScvMap (Some es)) = ScvMap (Some (map (\<lambda>e. (strip (fst e), strip (snd e))) es))"
| "strip v = v"

fun tag :: "ScVal \<Rightarrow> string" where
  "tag (ScvBool b) = ''bool''" | "tag ScvVoid = ''void''"
| "tag (ScvU32 n) = ''u32''" | "tag (ScvI32 n) = ''i32''" | "tag (ScvU64 n) = ''u64''" | "tag (ScvI64 n) = ''i64''"
| "tag (ScvTimepoint n) = ''timepoint''" | "tag (ScvDuration n) = ''duration''"
| "tag (ScvU128 a b) = ''u128''" | "tag (ScvI128 a b) = ''i128''"
| "tag (ScvU256 a b c d) = ''u256''" | "tag (ScvI256 a b c d) = ''i256''"
| "tag (ScvSymbol s) = ''sym''" | "tag (ScvString s) = ''str''" | "tag (ScvBytes s) = ''bytes''" | "tag (ScvAddress a) = ''addr''"
| "tag (ScvVec vs) = ''vec''" | "tag (ScvMap es) = ''map''" | "tag ScvOther = ''other''"

definition compound :: "ScVal \<Rightarrow> bool" where
  "compound v \<longleftrightarrow> tag v = ''vec'' \<or> tag v = ''map''"

lemma tagged: "scvalString k v = Some t \<Longrightarrow> \<exists>b. t = tag v @ '':'' @ b"
  by (cases v rule: strip.cases) auto

lemma tag_no_colon: "CHR '':'' \<notin> set (tag v)"
  by (cases v) auto

lemma tag_no_delim: "c \<in> set (tag v) \<Longrightarrow> \<not> delim c"
  by (cases v) (auto simp: scvalDelimiters_def)

lemma tag_eq:
  assumes "scvalString k v = Some t" "scvalString k w = Some u" "t @ r = u @ s"
  shows "tag v = tag w"
proof -
  from tagged [OF assms(1)] tagged [OF assms(2)] obtain b d where "t = tag v @ '':'' @ b" "u = tag w @ '':'' @ d" by blast
  then have "tag v @ (CHR '':'' # b @ r) = tag w @ (CHR '':'' # d @ s)" using assms(3) by simp
  from cut_unique [OF this, of "\<lambda>c. c = CHR '':''"] show ?thesis using tag_no_colon by auto
qed

lemma atom_inj:
  assumes "strkey_laws k" "readable v" "readable w" "scvalString k v = Some t" "scvalString k w = Some t" "\<not> compound v"
  shows "strip v = strip w"
proof -
  have "tag v = tag w" using tag_eq [OF assms(4,5), of "[]" "[]"] by simp
  then show ?thesis using assms
    by (cases v; cases w)
      (auto simp: compound_def fmt_int_inj hexOf_inj dest: word_eqD wide_inj wider_inj escapeScval_inj address_inj split: if_splits)
qed

lemma base32_no_delim: "list_all base32 t \<Longrightarrow> c \<in> set t \<Longrightarrow> \<not> delim c"
  by (auto simp: list_all_iff base32_def delim_iff)

lemma atom_no_delim:
  assumes "strkey_laws k" "readable v" "scvalString k v = Some t" "\<not> compound v" "c \<in> set t"
  shows "\<not> delim c"
proof -
  have n: "\<not> delim c" if "c \<in> set (a @ CHR '':'' # b)" "c \<in> set a \<Longrightarrow> \<not> delim c" "c \<in> set b \<Longrightarrow> \<not> delim c" for a b
    using that by (auto simp: scvalDelimiters_def)
  from tagged [OF assms(3)] obtain b where t: "t = tag v @ CHR '':'' # b" by auto
  have "\<not> delim c" if "c \<in> set b"
    using that assms t fmt_int_no_delim hexOf_no_delim escapeScval_no_delim base32_no_delim [OF address_base32 [OF assms(1)]]
    by (cases v) (auto simp: compound_def u128String_def i128String_def u256String_def i256String_def split: if_splits,
        auto simp: scvalDelimiters_def)
  then show ?thesis using n [of "tag v" b] assms(5) t tag_no_delim by simp
qed

text \<open>A text is at an end or goes on with a delimiter.\<close>

definition ends :: "string \<Rightarrow> bool" where
  "ends r \<longleftrightarrow> r = [] \<or> delim (hd r)"

lemma ends_simps [simp]: "ends []" "ends (c # r) \<longleftrightarrow> delim c"
  by (simp_all add: ends_def)

lemma delims [simp]: "delim (CHR '','')" "delim (CHR ''['')" "delim (CHR '']'')" "delim (CHR ''{'')" "delim (CHR ''}'')" "delim (CHR ''='')"
  by (simp_all add: scvalDelimiters_def)

definition reads_back :: "strkey \<Rightarrow> ScVal \<Rightarrow> bool" where
  "reads_back k v \<longleftrightarrow> (\<forall>w t u r s. readable v \<longrightarrow> readable w \<longrightarrow> scvalString k v = Some t \<longrightarrow> scvalString k w = Some u
     \<longrightarrow> ends r \<longrightarrow> ends s \<longrightarrow> t @ r = u @ s \<longrightarrow> strip v = strip w \<and> r = s)"

lemma reads_backD:
  "reads_back k v \<Longrightarrow> readable v \<Longrightarrow> readable w \<Longrightarrow> scvalString k v = Some t \<Longrightarrow> scvalString k w = Some u \<Longrightarrow> ends r \<Longrightarrow> ends s
     \<Longrightarrow> t @ r = u @ s \<Longrightarrow> strip v = strip w \<and> r = s"
  unfolding reads_back_def by blast

lemma rendered_head: "scvalString k v = Some t \<Longrightarrow> \<exists>c x. t = c # x \<and> \<not> delim c"
proof -
  assume "scvalString k v = Some t"
  from tagged [OF this] obtain b where "t = tag v @ '':'' @ b" by blast
  moreover have "\<exists>c x. tag v = c # x" by (cases v) auto
  ultimately show ?thesis using tag_no_delim [of _ v] by force
qed

lemma join_Cons: "join sep (p # ps) = p @ (if ps = [] then [] else sep @ join sep ps)"
  by (cases ps) simp_all

text \<open>What follows the first part of a joined list up to its closing bracket: nothing, or a comma and the rest.\<close>

lemma after_part:
  assumes "(if ps = [] then [] else '','' @ join '','' ps) @ e # r = (if qs = [] then [] else '','' @ join '','' qs) @ e # s" "e \<noteq> CHR '',''"
  shows "(ps = [] \<longleftrightarrow> qs = []) \<and> join '','' ps @ e # r = join '','' qs @ e # s"
  using assms by (auto split: if_splits)

lemma list_back:
  assumes el: "\<And>v w t u r s. v \<in> set vs \<Longrightarrow> ok w \<Longrightarrow> rend v = Some t \<Longrightarrow> rend w = Some u \<Longrightarrow> ends r \<Longrightarrow> ends s \<Longrightarrow> t @ r = u @ s
      \<Longrightarrow> nf v = nf w \<and> r = s"
    and head: "\<And>v t. rend v = Some t \<Longrightarrow> \<exists>c x. t = c # x \<and> \<not> delim c"
    and e: "delim e" "e \<noteq> CHR '',''"
    and p: "list_all ok ws" "those (map rend vs) = Some ps" "those (map rend ws) = Some qs" "join '','' ps @ e # r = join '','' qs @ e # s"
  shows "map nf vs = map nf ws \<and> r = s"
  using el p
proof (induction vs arbitrary: ws ps qs)
  case Nil
  show ?case
  proof (cases ws)
    case (Cons w ws')
    then obtain u qs' where u: "rend w = Some u" "qs = u # qs'" using Nil.prems by (auto split: option.splits)
    from head [OF u(1)] obtain c x where "u = c # x" "\<not> delim c" by blast
    then show ?thesis using Nil.prems u e by (auto simp: join_Cons)
  qed (use Nil in auto)
next
  case (Cons v vs)
  from Cons.prems obtain t ps' where t: "rend v = Some t" "those (map rend vs) = Some ps'" "ps = t # ps'" by (auto split: option.splits)
  from head [OF t(1)] obtain c x where c: "t = c # x" "\<not> delim c" by blast
  show ?case
  proof (cases ws)
    case Nil
    then show ?thesis using Cons.prems t c e by (auto simp: join_Cons)
  next
    case (Cons w ws')
    then obtain u qs' where u: "rend w = Some u" "those (map rend ws') = Some qs'" "qs = u # qs'"
      using Cons.prems by (auto split: option.splits)
    have "t @ (if ps' = [] then [] else '','' @ join '','' ps') @ e # r = u @ (if qs' = [] then [] else '','' @ join '','' qs') @ e # s"
      using Cons.prems(5) t u by (simp add: join_Cons)
    from Cons.prems(1) [OF _ _ t(1) u(1) _ _ this] have n: "nf v = nf w"
      "(if ps' = [] then [] else '','' @ join '','' ps') @ e # r = (if qs' = [] then [] else '','' @ join '','' qs') @ e # s"
      using Cons.prems(2) Cons e by auto
    have "map nf vs = map nf ws' \<and> r = s"
    proof (rule Cons.IH)
      show "nf v' = nf w' \<and> r' = s'" if "v' \<in> set vs" "ok w'" "rend v' = Some t'" "rend w' = Some u'" "ends r'" "ends s'" "t' @ r' = u' @ s'"
        for v' w' t' u' r' s' using Cons.prems(1) that by (meson list.set_intros(2))
    qed (use Cons.prems(2) Cons t u after_part [OF n(2) e(2)] in auto)
    then show ?thesis using n(1) Cons by simp
  qed
qed

definition entryString :: "strkey \<Rightarrow> ScVal \<times> ScVal \<Rightarrow> string option" where
  "entryString k e =
     (case scvalString k (fst e) of None \<Rightarrow> None | Some p \<Rightarrow> map_option (\<lambda>q. p @ ''='' @ q) (scvalString k (snd e)))"

lemma vec_parts_those: "vec_parts k vs = those (map (scvalString k) vs)"
  by (induction vs) (auto split: option.splits)

lemma map_parts_those: "map_parts k es = those (map (entryString k) es)"
  by (induction es) (auto simp: entryString_def split: option.splits)

lemma entry_back:
  assumes "reads_back k (fst e)" "reads_back k (snd e)" "readable (fst e) \<and> readable (snd e)" "readable (fst f) \<and> readable (snd f)"
    "entryString k e = Some t" "entryString k f = Some u" "ends r" "ends s" "t @ r = u @ s"
  shows "(strip (fst e), strip (snd e)) = (strip (fst f), strip (snd f)) \<and> r = s"
proof -
  from assms(5,6) obtain p q p' q' where t: "scvalString k (fst e) = Some p" "scvalString k (snd e) = Some q" "t = p @ CHR ''='' # q"
    "scvalString k (fst f) = Some p'" "scvalString k (snd f) = Some q'" "u = p' @ CHR ''='' # q'"
    by (auto simp: entryString_def split: option.splits)
  then have eq: "p @ (CHR ''='' # q @ r) = p' @ (CHR ''='' # q' @ s)" using assms(9) by simp
  have k: "strip (fst e) = strip (fst f) \<and> CHR ''='' # q @ r = CHR ''='' # q' @ s"
    using reads_backD [OF assms(1) _ _ t(1) t(4) _ _ eq] assms(3,4) by simp
  then have "q @ r = q' @ s" by simp
  from reads_backD [OF assms(2) _ _ t(2) t(5) assms(7,8) this] k show ?thesis using assms(3,4) by simp
qed

lemma atom_back:
  assumes "strkey_laws k" "\<not> compound v"
  shows "reads_back k v"
  unfolding reads_back_def
proof (intro allI impI)
  fix w t u r s
  assume v: "readable v" "scvalString k v = Some t" and w: "readable w" "scvalString k w = Some u" and e: "ends r" "ends s" "t @ r = u @ s"
  have "\<not> compound w" using tag_eq [OF v(2) w(2) e(3)] assms(2) by (simp add: compound_def)
  have "\<forall>c \<in> set t. \<not> delim c" using atom_no_delim [OF assms(1) v assms(2)] by blast
  moreover have "\<forall>c \<in> set u. \<not> delim c" using atom_no_delim [OF assms(1) w \<open>\<not> compound w\<close>] by blast
  ultimately have "t = u \<and> r = s" by (rule cut_unique [OF e(3)]) (use e in \<open>simp_all add: ends_def\<close>)
  then show "strip v = strip w \<and> r = s" using atom_inj [OF assms(1) v(1) w(1) v(2)] w(2) assms(2) by simp
qed

text \<open>The elements of a vector or a map, none when it is absent.\<close>

definition elems :: "'a list option \<Rightarrow> 'a list" where
  "elems o1 = (case o1 of None \<Rightarrow> [] | Some x \<Rightarrow> x)"

lemma elems_simps [simp]: "elems None = []" "elems (Some x) = x"
  by (simp_all add: elems_def)

lemma vec_text: "scvalString k (ScvVec o1) = Some t \<Longrightarrow> \<exists>ps. those (map (scvalString k) (elems o1)) = Some ps \<and> t = ''vec:['' @ join '','' ps @ '']''"
  by (cases o1) (auto simp: vec_parts_those)

lemma map_text: "scvalString k (ScvMap o1) = Some t \<Longrightarrow> \<exists>ps. those (map (entryString k) (elems o1)) = Some ps \<and> t = ''map:{'' @ join '','' ps @ ''}''"
  by (cases o1) (auto simp: map_parts_those)

lemma strip_elems:
  "strip (ScvVec o1) = ScvVec (Some (map strip (elems o1)))"
  "strip (ScvMap o2) = ScvMap (Some (map (\<lambda>e. (strip (fst e), strip (snd e))) (elems o2)))"
  by (cases o1; simp) (cases o2; simp)

lemma readable_elems:
  "readable (ScvVec o1) = list_all readable (elems o1)"
  "readable (ScvMap o2) = list_all (\<lambda>e. readable (fst e) \<and> readable (snd e)) (elems o2)"
  by (cases o1; simp) (cases o2; simp)

lemma entry_head: "entryString k e = Some t \<Longrightarrow> \<exists>c x. t = c # x \<and> \<not> delim c"
  using rendered_head [of k "fst e"] by (auto simp: entryString_def split: option.splits)

lemma vec_reads_back:
  assumes el: "\<And>v. v \<in> set (elems o1) \<Longrightarrow> reads_back k v"
  shows "reads_back k (ScvVec o1)"
  unfolding reads_back_def
proof (intro allI impI)
  fix w t u r s
  assume v: "readable (ScvVec o1)" "scvalString k (ScvVec o1) = Some t" and w: "readable w" "scvalString k w = Some u" and eq: "t @ r = u @ s"
  have "tag w = ''vec''" using tag_eq [OF v(2) w(2) eq] by simp
  then obtain o2 where o2: "w = ScvVec o2" by (cases w) auto
  from vec_text [OF v(2)] vec_text [OF w(2) [unfolded o2]] obtain ps qs where
    p: "those (map (scvalString k) (elems o1)) = Some ps" "those (map (scvalString k) (elems o2)) = Some qs"
    "t = ''vec:['' @ join '','' ps @ '']''" "u = ''vec:['' @ join '','' qs @ '']''" by blast
  have "map strip (elems o1) = map strip (elems o2) \<and> r = s"
  proof (rule list_back [where ok = readable and rend = "scvalString k" and e = "CHR '']''"])
    show "strip x = strip y \<and> r' = s'" if "x \<in> set (elems o1)" "readable y" "scvalString k x = Some t'" "scvalString k y = Some u'"
        "ends r'" "ends s'" "t' @ r' = u' @ s'" for x y t' u' r' s'
    proof (rule reads_backD [OF el [OF that(1)] _ that(2-7)])
      show "readable x" using v(1) that(1) by (simp add: readable_elems list_all_iff)
    qed
  qed (use p eq w o2 rendered_head in \<open>auto simp: readable_elems\<close>)
  then show "strip (ScvVec o1) = strip w \<and> r = s" using o2 by (simp add: strip_elems)
qed

lemma map_reads_back:
  assumes el: "\<And>e. e \<in> set (elems o1) \<Longrightarrow> reads_back k (fst e) \<and> reads_back k (snd e)"
  shows "reads_back k (ScvMap o1)"
  unfolding reads_back_def
proof (intro allI impI)
  fix w t u r s
  assume v: "readable (ScvMap o1)" "scvalString k (ScvMap o1) = Some t" and w: "readable w" "scvalString k w = Some u" and eq: "t @ r = u @ s"
  have "tag w = ''map''" using tag_eq [OF v(2) w(2) eq] by simp
  then obtain o2 where o2: "w = ScvMap o2" by (cases w) auto
  from map_text [OF v(2)] map_text [OF w(2) [unfolded o2]] obtain ps qs where
    p: "those (map (entryString k) (elems o1)) = Some ps" "those (map (entryString k) (elems o2)) = Some qs"
    "t = ''map:{'' @ join '','' ps @ ''}''" "u = ''map:{'' @ join '','' qs @ ''}''" by blast
  have "map (\<lambda>e. (strip (fst e), strip (snd e))) (elems o1) = map (\<lambda>e. (strip (fst e), strip (snd e))) (elems o2) \<and> r = s"
  proof (rule list_back [where ok = "\<lambda>e. readable (fst e) \<and> readable (snd e)" and rend = "entryString k" and e = "CHR ''}''"])
    show "(strip (fst x), strip (snd x)) = (strip (fst y), strip (snd y)) \<and> r' = s'"
      if "x \<in> set (elems o1)" "readable (fst y) \<and> readable (snd y)" "entryString k x = Some t'" "entryString k y = Some u'"
        "ends r'" "ends s'" "t' @ r' = u' @ s'" for x y t' u' r' s'
    proof (rule entry_back [OF _ _ _ that(2-7)])
      show "reads_back k (fst x)" "reads_back k (snd x)" using el [OF that(1)] by simp_all
      show "readable (fst x) \<and> readable (snd x)" using v(1) that(1) by (simp add: readable_elems list_all_iff)
    qed
  qed (use p eq w o2 entry_head in \<open>auto simp: readable_elems\<close>)
  then show "strip (ScvMap o1) = strip w \<and> r = s" using o2 by (simp add: strip_elems)
qed

lemma all_read_back: "strkey_laws k \<Longrightarrow> reads_back k v"
proof (induction v rule: ScVal.induct)
  case (ScvVec o1)
  then show ?case by (intro vec_reads_back) (cases o1; simp)
next
  case (ScvMap o1)
  then show ?case by (intro map_reads_back) (cases o1; force simp: prod_set_defs)
qed (rule atom_back, simp_all add: compound_def)+

lemma scval_same:
  assumes "strkey_laws k" "readable v" "readable w" "scvalString k v = Some t" "scvalString k w = Some t"
  shows "strip v = strip w"
  using reads_backD [OF all_read_back [OF assms(1)] assms(2-5), of "[]" "[]"] by simp

lemma those_strip: "(\<And>v. v \<in> set vs \<Longrightarrow> f (g v) = f v) \<Longrightarrow> those (map f (map g vs)) = those (map f vs)"
  by (induction vs) (auto split: option.splits)

lemma scval_strip: "scvalString k (strip v) = scvalString k v"
proof (induction v rule: ScVal.induct)
  case (ScvVec o1)
  then show ?case by (cases o1) (simp_all add: vec_parts_those those_strip del: map_map)
next
  case (ScvMap o1)
  have "entryString k (strip (fst e), strip (snd e)) = entryString k e" if "e \<in> set (elems o1)" for e
  proof -
    from that obtain x where "o1 = Some x" "e \<in> set x" by (cases o1) simp_all
    then have "scvalString k (strip (fst e)) = scvalString k (fst e)" "scvalString k (strip (snd e)) = scvalString k (snd e)"
      using ScvMap [of x e] by (force simp: prod_set_defs)+
    then show ?thesis unfolding entryString_def fst_conv snd_conv by (simp split: option.split)
  qed
  then show ?case by (cases o1) (simp_all add: map_parts_those those_strip [where g = "\<lambda>e. (strip (fst e), strip (snd e))"] del: map_map)
qed simp_all

text \<open>
  C14: what a signer reads of a contract argument is the argument.  Two values are written alike exactly when they are the same
  value, an absent vector or map counting as an empty one, whatever is nested in what.
\<close>

theorem scvalString_determines:
  assumes "strkey_laws k" "readable v" "readable w" "scvalString k v = Some t"
  shows "scvalString k w = Some t \<longleftrightarrow> strip w = strip v"
  using scval_same [OF assms] scval_strip [of k v] scval_strip [of k w] assms(4) by auto

text \<open>
  Text that is not valid UTF-8 is outside that: the wire allows any bytes in a string, and each byte that is not part of a rune
  is written as the same replacement character.
\<close>

lemma scval_bytes_collide: "scvalString k (ScvString [chr 255]) = scvalString k (ScvString [chr 254])"
proof -
  have "utf8_chunks [chr b] = [(rune_error, [chr b])]" if "b \<in> {254, 255}" for b
    using that utf8_chunks_step [of "[chr b]" "[]" rune_error] by auto
  then show ?thesis by (simp add: escapeScval_def runes_of_def)
qed

text \<open>An encoding with the laws, each byte two letters after the letter of its kind.\<close>

definition letters :: "string \<Rightarrow> string" where
  "letters bs = concat (map (\<lambda>c. [chr (65 + byte c div 16), chr (65 + byte c mod 16)]) bs)"

definition demo_strkeys :: strkey where
  "demo_strkeys = \<lparr>EncodeAccount = (\<lambda>b. CHR ''G'' # letters b), EncodeContract = (\<lambda>b. Some (CHR ''C'' # letters b))\<rparr>"

lemma letters_inj: "letters a = letters b \<Longrightarrow> a = b"
proof (induction a arbitrary: b)
  case Nil
  then show ?case by (cases b) (simp_all add: letters_def)
next
  case (Cons c a)
  then obtain d b' where b: "b = d # b'" by (cases b) (simp_all add: letters_def)
  have lt: "(byte e :: nat) div 16 < 16" for e by (simp add: less_mult_imp_div_less)
  have "chr (65 + byte c div 16) = chr (65 + byte d div 16)" "chr (65 + byte c mod 16) = chr (65 + byte d mod 16)" "letters a = letters b'"
    using Cons.prems b by (simp_all add: letters_def)
  then have "(byte c :: nat) div 16 = byte d div 16" "(byte c :: nat) mod 16 = byte d mod 16" "a = b'"
    using lt [of c] lt [of d] mod_less_divisor [of 16 "byte c"] mod_less_divisor [of 16 "byte d"] Cons.IH by (simp_all add: chr_eq_iff)
  then have "(byte c :: nat) = byte d" by (metis div_mult_mod_eq)
  then show ?case using b \<open>a = b'\<close> by simp
qed

lemma demo_strkeys_laws: "strkey_laws demo_strkeys"
proof -
  have lt: "(byte e :: nat) div 16 < 16" for e by (simp add: less_mult_imp_div_less)
  have "base32 (chr (65 + x))" if "x < 16" for x using that by (simp add: base32_def)
  then have "list_all base32 (letters b)" for b using lt by (auto simp: letters_def list_all_iff)
  then show ?thesis by (auto simp: strkey_laws_def demo_strkeys_def base32_def dest: letters_inj)
qed

theorem scvalString_determines_witness:
  "scvalString demo_strkeys (ScvVec (Some [ScvU32 5, ScvVec None])) = Some ''vec:[u32:5,vec:[]]''
   \<and> strip (ScvVec (Some [ScvU32 5, ScvVec None])) = strip (ScvVec (Some [ScvU32 5, ScvVec (Some [])]))"
proof -
  have "fmt_int (uint (5 :: 32 word)) = ''5''" by code_simp
  then have t: "scvalString demo_strkeys (ScvVec (Some [ScvU32 5, ScvVec None])) = Some ''vec:[u32:5,vec:[]]''"
    "scvalString demo_strkeys (ScvVec (Some [ScvU32 5, ScvVec (Some [])])) = Some ''vec:[u32:5,vec:[]]''" by simp_all
  then show ?thesis using scvalString_determines [OF demo_strkeys_laws _ _ t(1)] by simp
qed

end
