(* ===== verification/Describe.thy ===== *)
theory Describe
  imports Scval Money "HOL-Library.Monad_Syntax"
begin

text \<open>
  \<^verbatim>\<open>settlement/describe.go\<close>, \<^verbatim>\<open>settlement/describe_invoke.go\<close>, \<^verbatim>\<open>settlement/describe_restore.go\<close>,
  \<^verbatim>\<open>settlement/canonical.go\<close> and \<^verbatim>\<open>settlement/describe_batch.go\<close>: a transaction read back as what a signer is shown, and the
  bytes two implementations compare.  An operation is the type the SDK parses an envelope into; a part of one that may be nil
  is an option.  What the SDK computes (an address of a key, the hash of an envelope) is an argument, and so is how
  \<^verbatim>\<open>%q\<close> quotes a name in a summary, which needs the Unicode tables and is not part of what is compared.  A transaction is
  what \<^verbatim>\<open>DescribeTx\<close> reads of one.  \<open>None\<close> is \<open>ErrIndescribable\<close>.
\<close>

section \<open>What the SDK parses\<close>

datatype asset = Native | Credit string string

datatype trust_asset = TrustNative | TrustPool | TrustCredit string string

record option_changes =
  oc_master :: "8 word option"
  oc_low :: "8 word option"
  oc_medium :: "8 word option"
  oc_high :: "8 word option"
  oc_signer :: "(string \<times> 8 word) option"
  oc_home :: "string option"
  oc_inflation :: "string option"
  oc_set :: "32 word list"
  oc_clear :: "32 word list"

datatype ledger_key = KeyData ScAddress bool ScVal | KeyCode string | KeyOther

record soroban_data =
  sd_read_only :: "ledger_key list"
  sd_read_write :: "ledger_key list"
  sd_fee :: int64

datatype credentials = CredSource | CredAddress "ScAddress option" | CredOther

text \<open>An authorisation: who gives it, and the bytes of the call tree it allows.\<close>

record authorization =
  au_credentials :: credentials
  au_invocation :: string

record contract_call =
  ic_contract :: ScAddress
  ic_function :: string
  ic_args :: "ScVal list"

datatype host_function = InvokeContract "contract_call option" | OtherFunction

text \<open>The first argument of an operation is the account it names as its own source, empty when it names none.\<close>

datatype operation =
    Payment string string string "asset option"
  | CreateAccount string string string
  | AccountMerge string string
  | ChangeTrust string "trust_asset option" string
  | BeginSponsoring string string
  | EndSponsoring string
  | SetOptions string option_changes
  | ManageSellOffer string "asset option" "asset option" string "32 word \<times> 32 word" int64
  | ManageBuyOffer string "asset option" "asset option" string "32 word \<times> 32 word" int64
  | CreatePassiveSellOffer string "asset option" "asset option" string "32 word \<times> 32 word"
  | PathStrictSend string "asset option" string string "asset option" string "asset option list"
  | PathStrictReceive string "asset option" string string "asset option" string "asset option list"
  | BumpSequence string int64
  | ManageData string string "string option"
  | RestoreFootprint string "soroban_data option"
  | InvokeHostFunction string host_function "authorization list"
  | OtherOperation

datatype memo = NoMemo | MemoText string | MemoID "64 word" | MemoHash string | MemoReturn string | OtherMemo

record transaction =
  tx_source :: string
  tx_sequence :: int64
  tx_fee :: int64
  tx_min :: int64
  tx_max :: int64
  tx_memo :: memo
  tx_ops :: "operation list"
  tx_data :: "soroban_data option option"

section \<open>Descriptions\<close>

abbreviation KindAmount :: string where "KindAmount \<equiv> ''amount''"
abbreviation KindAsset :: string where "KindAsset \<equiv> ''asset''"
abbreviation KindAddress :: string where "KindAddress \<equiv> ''address''"
abbreviation KindNumber :: string where "KindNumber \<equiv> ''number''"
abbreviation KindPrice :: string where "KindPrice \<equiv> ''price''"
abbreviation KindFlag :: string where "KindFlag \<equiv> ''flag''"
abbreviation KindText :: string where "KindText \<equiv> ''text''"
abbreviation KindRaw :: string where "KindRaw \<equiv> ''raw''"

datatype field = Field (Label: string) (Kind: string) (Value: string)

record OpDescription =
  Index :: int
  Type :: string
  Source :: string
  Summary :: string
  Fields :: "field list"

record TxDescription =
  td_kind :: string
  td_network :: string
  td_hash :: string
  td_source :: string
  td_sequence :: string
  td_fee :: string
  td_min :: string
  td_max :: string
  td_memo_type :: string
  td_memo :: string
  td_operations :: "OpDescription list"

record renderer =
  rn_strkey :: strkey
  rn_quote :: "string \<Rightarrow> string"

definition normalizeAmount :: "string \<Rightarrow> string option" where
  "normalizeAmount amount =
     (if amount = [] then None
      else case Parse amount of Inl e \<Rightarrow> None | Inr parsed \<Rightarrow> Some (String_of parsed))"

definition describeAsset :: "asset option \<Rightarrow> string option" where
  "describeAsset a =
     (case a of
        None \<Rightarrow> None
      | Some Native \<Rightarrow> Some ''native''
      | Some (Credit code issuer) \<Rightarrow> if code = [] \<or> issuer = [] then None else Some (code @ '':'' @ issuer))"

definition describeChangeTrustAsset :: "trust_asset option \<Rightarrow> string option" where
  "describeChangeTrustAsset a =
     (case a of
        Some (TrustCredit code issuer) \<Rightarrow> if code = [] \<or> issuer = [] then None else Some (code @ '':'' @ issuer)
      | _ \<Rightarrow> None)"

definition arrow :: string where
  "arrow = '' '' @ [chr 226, chr 134, chr 146] @ '' ''"

definition describePath :: "asset option list \<Rightarrow> string option" where
  "describePath path =
     (if path = [] then Some ''direct''
      else map_option (join arrow) (those (map describeAsset path)))"

definition assetCode :: "string \<Rightarrow> string" where
  "assetCode asset = (if asset = ''native'' then ''XLM'' else fst (cut_byte (CHR '':'') asset))"

definition effective :: "string \<Rightarrow> string \<Rightarrow> string" where
  "effective opSource txSource = (if opSource \<noteq> [] then opSource else txSource)"

definition flagName :: "32 word \<Rightarrow> string" where
  "flagName f =
     (if f = 1 then ''auth required''
      else if f = 2 then ''auth revocable''
      else if f = 4 then ''auth immutable''
      else if f = 8 then ''clawback enabled''
      else ''flag '' @ fmt_int (uint f))"

definition zeroAmount :: string where
  "zeroAmount = ''0.0000000''"

definition describeOffer ::
  "string \<Rightarrow> asset option \<Rightarrow> asset option \<Rightarrow> string \<Rightarrow> 32 word \<times> 32 word \<Rightarrow> int64 \<Rightarrow> (field list \<times> string) option" where
  "describeOffer verb selling buying amount price offerID =
     do {
       normalized \<leftarrow> normalizeAmount amount;
       sell \<leftarrow> describeAsset selling;
       buy \<leftarrow> describeAsset buying;
       let rate = fmt_int (sint (fst price)) @ ''/'' @ fmt_int (sint (snd price));
       Some ([Field ''selling'' KindAsset sell, Field ''buying'' KindAsset buy, Field ''amount'' KindAmount normalized,
              Field ''price'' KindPrice rate, Field ''offer'' KindNumber (fmt_int (sint offerID))],
             if normalized = zeroAmount then ''Cancel offer '' @ fmt_int (sint offerID)
             else verb @ '' '' @ normalized @ '' '' @ assetCode sell @ '' for '' @ assetCode buy @ '' at '' @ rate)
     }"

definition opt_field :: "string \<Rightarrow> string \<Rightarrow> ('a \<Rightarrow> string) \<Rightarrow> 'a option \<Rightarrow> field list" where
  "opt_field label kind show x = (case x of None \<Rightarrow> [] | Some v \<Rightarrow> [Field label kind (show v)])"

definition opt_change :: "string \<Rightarrow> 'a option \<Rightarrow> string list" where
  "opt_change text1 x = (case x of None \<Rightarrow> [] | Some v \<Rightarrow> [text1])"

definition weight_text :: "8 word \<Rightarrow> string" where
  "weight_text w = fmt_int (uint w)"

definition option_fields :: "option_changes \<Rightarrow> field list" where
  "option_fields o1 =
     opt_field ''master weight'' KindNumber weight_text (oc_master o1)
     @ opt_field ''low threshold'' KindNumber weight_text (oc_low o1)
     @ opt_field ''medium threshold'' KindNumber weight_text (oc_medium o1)
     @ opt_field ''high threshold'' KindNumber weight_text (oc_high o1)
     @ opt_field ''signer'' KindAddress fst (oc_signer o1)
     @ opt_field ''signer weight'' KindNumber (\<lambda>s. weight_text (snd s)) (oc_signer o1)
     @ opt_field ''home domain'' KindText (\<lambda>s. s) (oc_home o1)
     @ opt_field ''inflation destination'' KindAddress (\<lambda>s. s) (oc_inflation o1)
     @ map (\<lambda>f. Field ''set flag'' KindFlag (flagName f)) (oc_set o1)
     @ map (\<lambda>f. Field ''clear flag'' KindFlag (flagName f)) (oc_clear o1)"

definition option_summary :: "option_changes \<Rightarrow> string" where
  "option_summary o1 =
     ''Change account settings: '' @ join '', ''
       (opt_change ''master weight'' (oc_master o1) @ opt_change ''low threshold'' (oc_low o1)
        @ opt_change ''medium threshold'' (oc_medium o1) @ opt_change ''high threshold'' (oc_high o1)
        @ (case oc_signer o1 of None \<Rightarrow> [] | Some s \<Rightarrow> [if snd s = 0 then ''remove a signer'' else ''add or change a signer''])
        @ opt_change ''home domain'' (oc_home o1) @ opt_change ''inflation destination'' (oc_inflation o1)
        @ map (\<lambda>f. ''set '' @ flagName f) (oc_set o1) @ map (\<lambda>f. ''clear '' @ flagName f) (oc_clear o1))"

definition describeSetOptions :: "option_changes \<Rightarrow> (field list \<times> string) option" where
  "describeSetOptions o1 = (if option_fields o1 = [] then None else Some (option_fields o1, option_summary o1))"

section \<open>Contract calls and restores\<close>

definition sourceAuthorizer :: string where
  "sourceAuthorizer = ''the transaction's source account''"

definition authorizerString :: "strkey \<Rightarrow> authorization \<Rightarrow> string option" where
  "authorizerString k a =
     (case au_credentials a of
        CredSource \<Rightarrow> Some sourceAuthorizer
      | CredAddress (Some addr) \<Rightarrow> scAddressString k addr
      | _ \<Rightarrow> None)"

definition numbered :: "string \<Rightarrow> string \<Rightarrow> string list \<Rightarrow> field list" where
  "numbered label kind vs = map (\<lambda>(i, v). Field (label @ fmt_int (int i)) kind v) (enumerate 0 vs)"

definition describeContractCall :: "strkey \<Rightarrow> contract_call option \<Rightarrow> authorization list \<Rightarrow> (field list \<times> string) option" where
  "describeContractCall k call auth =
     do {
       args \<leftarrow> call;
       contract \<leftarrow> scAddressString k (ic_contract args);
       rendered \<leftarrow> those (map (scvalString k) (ic_args args));
       who \<leftarrow> those (map (authorizerString k) auth);
       Some ([Field ''contract'' KindAddress contract, Field ''function'' KindText (ic_function args),
              Field ''arguments'' KindNumber (fmt_int (int (length (ic_args args))))]
             @ numbered ''arg '' KindRaw rendered
             @ [Field ''authorizations'' KindNumber (fmt_int (int (length auth)))]
             @ numbered ''authorized by '' KindAddress who,
             ''Call '' @ ic_function args @ '' on contract '' @ contract @ '' with '' @ fmt_int (int (length (ic_args args))) @ '' argument(s)'')
     }"

definition describeInvoke :: "strkey \<Rightarrow> host_function \<Rightarrow> authorization list \<Rightarrow> (field list \<times> string) option" where
  "describeInvoke k f auth = (case f of InvokeContract call \<Rightarrow> describeContractCall k call auth | OtherFunction \<Rightarrow> None)"

definition ledgerKeyString :: "strkey \<Rightarrow> ledger_key \<Rightarrow> string option" where
  "ledgerKeyString k key =
     (case key of
        KeyData contract temporary v \<Rightarrow>
          do {
            c \<leftarrow> scAddressString k contract;
            t \<leftarrow> scvalString k v;
            Some (''data '' @ c @ '' '' @ (if temporary then ''temporary'' else ''persistent'') @ '' '' @ t)
          }
      | KeyCode hash \<Rightarrow> Some (''code '' @ hexOf hash)
      | KeyOther \<Rightarrow> None)"

definition plural :: "nat \<Rightarrow> string \<Rightarrow> string \<Rightarrow> string" where
  "plural n one many = (if n = 1 then one else many)"

definition describeRestore :: "strkey \<Rightarrow> soroban_data option \<Rightarrow> (field list \<times> string) option" where
  "describeRestore k ext =
     do {
       data \<leftarrow> ext;
       if sd_read_only data \<noteq> [] \<or> sd_read_write data = [] then None
       else do {
         texts \<leftarrow> those (map (ledgerKeyString k) (sd_read_write data));
         let n = length (sd_read_write data);
         Some ([Field ''resource fee'' KindNumber (fmt_int (sint (sd_fee data))), Field ''entries'' KindNumber (fmt_int (int n))]
               @ numbered ''entry '' KindRaw texts,
               ''Restore '' @ fmt_int (int n) @ '' archived contract entr'' @ plural n ''y'' ''ies'')
       }
     }"

section \<open>Operations and transactions\<close>

definition opDescription :: "int \<Rightarrow> string \<Rightarrow> string \<Rightarrow> string \<Rightarrow> field list \<Rightarrow> OpDescription" where
  "opDescription i t src summary fs = \<lparr>Index = i, Type = t, Source = src, Summary = summary, Fields = fs\<rparr>"

definition MaxTrustlineLimit :: string where
  "MaxTrustlineLimit = ''922337203685.4775807''"

text \<open>The type of an operation, its source, its fields and its sentence; the operation's place is added by \<open>describeOp\<close>.\<close>

fun describe_body :: "renderer \<Rightarrow> operation \<Rightarrow> (string \<times> string \<times> string \<times> field list) option" where
  "describe_body R (Payment src to amount asset) =
     do {
       a \<leftarrow> normalizeAmount amount;
       t \<leftarrow> describeAsset asset;
       Some (''payment'', src, ''Send '' @ a @ '' '' @ assetCode t @ '' to '' @ to,
         [Field ''amount'' KindAmount a, Field ''asset'' KindAsset t, Field ''destination'' KindAddress to])
     }"
| "describe_body R (CreateAccount src to amount) =
     do {
       a \<leftarrow> normalizeAmount amount;
       Some (''create_account'', src, ''Create account '' @ to @ '' with '' @ a @ '' XLM'',
         [Field ''destination'' KindAddress to, Field ''starting balance'' KindAmount a])
     }"
| "describe_body R (AccountMerge src to) =
     Some (''account_merge'', src, ''Merge this account into '' @ to @ '', closing it'', [Field ''destination'' KindAddress to])"
| "describe_body R (ChangeTrust src line limit) =
     do {
       t \<leftarrow> describeChangeTrustAsset line;
       l \<leftarrow> normalizeAmount (if limit = [] then MaxTrustlineLimit else limit);
       Some (''change_trust'', src,
         if l = zeroAmount then ''Remove the trustline for '' @ assetCode t else ''Trust '' @ assetCode t @ '' up to '' @ l,
         [Field ''asset'' KindAsset t, Field ''limit'' KindAmount l])
     }"
| "describe_body R (BeginSponsoring src who) =
     Some (''begin_sponsoring_future_reserves'', src, ''Pay the reserves '' @ who @ '' is about to need'', [Field ''sponsored'' KindAddress who])"
| "describe_body R (EndSponsoring src) =
     Some (''end_sponsoring_future_reserves'', src, ''Stop sponsoring further reserves'', [])"
| "describe_body R (SetOptions src changes) =
     do { (fs, summary) \<leftarrow> describeSetOptions changes; Some (''set_options'', src, summary, fs) }"
| "describe_body R (ManageSellOffer src selling buying amount price offerID) =
     do { (fs, summary) \<leftarrow> describeOffer ''Sell'' selling buying amount price offerID; Some (''manage_sell_offer'', src, summary, fs) }"
| "describe_body R (ManageBuyOffer src selling buying amount price offerID) =
     do { (fs, summary) \<leftarrow> describeOffer ''Buy'' selling buying amount price offerID; Some (''manage_buy_offer'', src, summary, fs) }"
| "describe_body R (CreatePassiveSellOffer src selling buying amount price) =
     do { (fs, summary) \<leftarrow> describeOffer ''Passively sell'' selling buying amount price 0;
          Some (''create_passive_sell_offer'', src, summary, fs) }"
| "describe_body R (PathStrictSend src sendAsset sendAmount to destAsset destMin path) =
     do {
       a \<leftarrow> normalizeAmount sendAmount;
       m \<leftarrow> normalizeAmount destMin;
       s \<leftarrow> describeAsset sendAsset;
       d \<leftarrow> describeAsset destAsset;
       p \<leftarrow> describePath path;
       Some (''path_payment_strict_send'', src,
         ''Send '' @ a @ '' '' @ assetCode s @ '' to '' @ to @ '', who receives at least '' @ m @ '' '' @ assetCode d,
         [Field ''send amount'' KindAmount a, Field ''send asset'' KindAsset s, Field ''destination'' KindAddress to,
          Field ''destination asset'' KindAsset d, Field ''minimum received'' KindAmount m, Field ''path'' KindRaw p])
     }"
| "describe_body R (PathStrictReceive src sendAsset sendMax to destAsset destAmount path) =
     do {
       m \<leftarrow> normalizeAmount sendMax;
       a \<leftarrow> normalizeAmount destAmount;
       s \<leftarrow> describeAsset sendAsset;
       d \<leftarrow> describeAsset destAsset;
       p \<leftarrow> describePath path;
       Some (''path_payment_strict_receive'', src,
         ''Send '' @ to @ '' at most '' @ m @ '' '' @ assetCode s @ '' so they receive '' @ a @ '' '' @ assetCode d,
         [Field ''maximum sent'' KindAmount m, Field ''send asset'' KindAsset s, Field ''destination'' KindAddress to,
          Field ''destination asset'' KindAsset d, Field ''received'' KindAmount a, Field ''path'' KindRaw p])
     }"
| "describe_body R (BumpSequence src bumpTo) =
     Some (''bump_sequence'', src, ''Bump the sequence number to '' @ fmt_int (sint bumpTo),
       [Field ''bump to'' KindNumber (fmt_int (sint bumpTo))])"
| "describe_body R (ManageData src name value) =
     Some (''manage_data'', src,
       (case value of None \<Rightarrow> ''Delete the data entry '' | Some v \<Rightarrow> ''Set the data entry '') @ rn_quote R name,
       Field ''name'' KindText name # opt_field ''value'' KindRaw hexOf value)"
| "describe_body R (RestoreFootprint src ext) =
     do { (fs, summary) \<leftarrow> describeRestore (rn_strkey R) ext; Some (''restore_footprint'', src, summary, fs) }"
| "describe_body R (InvokeHostFunction src f auth) =
     do { (fs, summary) \<leftarrow> describeInvoke (rn_strkey R) f auth; Some (''invoke_contract'', src, summary, fs) }"
| "describe_body R OtherOperation = None"

definition describeOp :: "renderer \<Rightarrow> int \<Rightarrow> operation \<Rightarrow> string \<Rightarrow> OpDescription option" where
  "describeOp R i op txSource =
     do {
       (t, src, summary, fs) \<leftarrow> describe_body R op;
       Some (opDescription i t (effective src txSource) summary fs)
     }"

definition describeMemo :: "memo \<Rightarrow> (string \<times> string) option" where
  "describeMemo m =
     (case m of
        NoMemo \<Rightarrow> Some (''none'', [])
      | MemoText t \<Rightarrow> Some (''text'', t)
      | MemoID n \<Rightarrow> Some (''id'', fmt_int (uint n))
      | MemoHash h \<Rightarrow> Some (''hash'', hexOf h)
      | MemoReturn h \<Rightarrow> Some (''return'', hexOf h)
      | OtherMemo \<Rightarrow> None)"

text \<open>A restore without a footprint of its own takes the one on the envelope.\<close>

fun with_footprint :: "soroban_data option option \<Rightarrow> operation \<Rightarrow> operation" where
  "with_footprint (Some ext) (RestoreFootprint src None) = RestoreFootprint src ext"
| "with_footprint ext op = op"

fun describe_ops :: "renderer \<Rightarrow> transaction \<Rightarrow> int \<Rightarrow> operation list \<Rightarrow> OpDescription list option" where
  "describe_ops R tx i [] = Some []"
| "describe_ops R tx i (op # ops) =
     (case describeOp R i (with_footprint (tx_data tx) op) (tx_source tx) of
        None \<Rightarrow> None
      | Some d \<Rightarrow> map_option (\<lambda>ds. d # ds) (describe_ops R tx (i + 1) ops))"

definition bound_text :: "int64 \<Rightarrow> string" where
  "bound_text t = (if t \<noteq> 0 then fmt_int (sint t) else [])"

definition DescribeTx :: "renderer \<Rightarrow> string \<Rightarrow> (transaction \<Rightarrow> string \<Rightarrow> string option) \<Rightarrow> transaction option \<Rightarrow> TxDescription option" where
  "DescribeTx R network HashHex tx1 =
     do {
       tx \<leftarrow> tx1;
       hash \<leftarrow> HashHex tx network;
       (memoType, memo) \<leftarrow> describeMemo (tx_memo tx);
       if tx_ops tx = [] then None
       else do {
         ds \<leftarrow> describe_ops R tx 0 (tx_ops tx);
         Some \<lparr>td_kind = ''tx'', td_network = network, td_hash = hash, td_source = tx_source tx, td_sequence = fmt_int (sint (tx_sequence tx)),
               td_fee = fmt_int (sint (tx_fee tx)), td_min = bound_text (tx_min tx), td_max = bound_text (tx_max tx),
               td_memo_type = memoType, td_memo = memo, td_operations = ds\<rparr>
       }
     }"

text \<open>A fee bump: its inner transaction, and its own hash.\<close>

definition DescribeFeeBump ::
  "renderer \<Rightarrow> string \<Rightarrow> (transaction \<Rightarrow> string \<Rightarrow> string option) \<Rightarrow> (transaction option \<times> (string \<Rightarrow> string option)) option
   \<Rightarrow> TxDescription option" where
  "DescribeFeeBump R network HashHex bump =
     do {
       (inner, bumpHash) \<leftarrow> bump;
       if inner = None then None
       else do {
         d \<leftarrow> DescribeTx R network HashHex inner;
         hash \<leftarrow> bumpHash network;
         Some (d\<lparr>td_kind := ''fee_bump'', td_hash := hash\<rparr>)
       }
     }"

section \<open>The bytes that are compared\<close>

definition canonicalVersion :: string where
  "canonicalVersion = ''stelfin-tx-description-1''"

definition escape_byte :: "char \<Rightarrow> string" where
  "escape_byte c =
     (if c = chr 92 then [chr 92, chr 92]
      else if c = chr 10 then [chr 92, CHR ''n'']
      else if c = chr 13 then [chr 92, CHR ''r'']
      else if c = chr 9 then [chr 92, CHR ''t'']
      else [c])"

definition escape :: "string \<Rightarrow> string" where
  "escape s = concat (map escape_byte s)"

definition canonical_line :: "string list \<Rightarrow> string" where
  "canonical_line parts = join [chr 9] (map escape parts) @ [chr 10]"

definition op_rows :: "OpDescription \<Rightarrow> string list list" where
  "op_rows d =
     [''op'', fmt_int (Index d), Type d, Source d]
     # map (\<lambda>f. [''field'', fmt_int (Index d), Label f, Kind f, Value f]) (Fields d)"

definition canonical_rows :: "TxDescription \<Rightarrow> string list list" where
  "canonical_rows d =
     [[canonicalVersion], [''kind'', td_kind d], [''network'', td_network d], [''source'', td_source d], [''sequence'', td_sequence d],
      [''fee'', td_fee d], [''min_time'', td_min d], [''max_time'', td_max d], [''memo'', td_memo_type d, td_memo d],
      [''operations'', fmt_int (int (length (td_operations d)))]]
     @ concat (map op_rows (td_operations d)) @ [[''hash'', td_hash d]]"

definition Canonical :: "TxDescription \<Rightarrow> string" where
  "Canonical d = concat (map canonical_line (canonical_rows d))"

section \<open>Payments and batches\<close>

text \<open>The last field of a label, as the loops over the fields leave it; the empty text when there is none.\<close>

definition last_value :: "string \<Rightarrow> field list \<Rightarrow> string" where
  "last_value label fs = foldl (\<lambda>acc f. if Label f = label then Value f else acc) [] fs"

definition paymentFields :: "OpDescription \<Rightarrow> string \<times> string \<times> string" where
  "paymentFields d = (last_value ''amount'' (Fields d), last_value ''asset'' (Fields d), last_value ''destination'' (Fields d))"

record PaymentDescription =
  pd_from :: string
  pd_to :: string
  pd_amount :: stroops
  pd_code :: string
  pd_issuer :: string
  pd_native :: bool
  pd_hash :: string

definition SinglePayment :: "TxDescription \<Rightarrow> PaymentDescription option" where
  "SinglePayment d =
     (case td_operations d of
        [op] \<Rightarrow>
          if Type op \<noteq> ''payment'' then None
          else (case paymentFields op of (amount, asset, destination) \<Rightarrow>
            (case Parse amount of
               Inl e \<Rightarrow> None
             | Inr parsed \<Rightarrow>
                 if sint parsed \<le> 0 then None
                 else let out = \<lparr>pd_from = Source op, pd_to = destination, pd_amount = parsed, pd_code = ''XLM'', pd_issuer = [],
                                  pd_native = True, pd_hash = td_hash d\<rparr>
                      in if asset = ''native'' then Some out
                         else (case cut_byte (CHR '':'') asset of (code, issuer, ok) \<Rightarrow>
                           if \<not> ok then None else Some (out\<lparr>pd_native := False, pd_code := code, pd_issuer := issuer\<rparr>))))
      | _ \<Rightarrow> None)"

record BatchPayment =
  bp_index :: int
  bp_amount :: stroops
  bp_destination :: string

record BatchDescription =
  bd_description :: TxDescription
  bd_payments :: "BatchPayment list"
  bd_total :: stroops
  bd_asset :: string
  bd_code :: string
  bd_source :: string

datatype batch_error =
    NoOperations | NotAPayment int | OtherSource int | MissingField int | OtherAsset int | UnreadableAmount int | NotPositiveAmount int | TotalOverflows

fun batch_loop :: "string \<Rightarrow> OpDescription list \<Rightarrow> BatchDescription \<Rightarrow> (batch_error, BatchDescription) result" where
  "batch_loop src [] out = Inr out"
| "batch_loop src (op # ops) out =
     (if Type op \<noteq> ''payment'' then Inl (NotAPayment (Index op))
      else if Source op \<noteq> src then Inl (OtherSource (Index op))
      else case paymentFields op of (amount, asset, destination) \<Rightarrow>
        if asset = [] \<or> destination = [] then Inl (MissingField (Index op))
        else let out1 = (if bd_asset out = [] then out\<lparr>bd_asset := asset, bd_code := assetCode asset\<rparr> else out)
        in if asset \<noteq> bd_asset out1 then Inl (OtherAsset (Index op))
        else case Parse amount of
          Inl e \<Rightarrow> Inl (UnreadableAmount (Index op))
        | Inr parsed \<Rightarrow>
            if sint parsed \<le> 0 then Inl (NotPositiveAmount (Index op))
            else if sint (bd_total out1 + parsed) < sint (bd_total out1) then Inl TotalOverflows
            else batch_loop src ops (out1\<lparr>bd_total := bd_total out1 + parsed,
                   bd_payments := bd_payments out1 @ [\<lparr>bp_index = Index op, bp_amount = parsed, bp_destination = destination\<rparr>]\<rparr>))"

definition AsBatch :: "TxDescription \<Rightarrow> (batch_error, BatchDescription) result" where
  "AsBatch d =
     (if td_operations d = [] then Inl NoOperations
      else batch_loop (td_source d) (td_operations d)
             \<lparr>bd_description = d, bd_payments = [], bd_total = 0, bd_asset = [], bd_code = [], bd_source = td_source d\<rparr>)"

definition TotalText :: "BatchDescription \<Rightarrow> string" where
  "TotalText b = String_of (bd_total b)"

end
