(* ===== verification/Describe_Safety.thy ===== *)
theory Describe_Safety
  imports Describe
begin

text \<open>
  What a description is worth: its bytes determine everything it says, and what it says of an operation determines the
  operation.
\<close>

section \<open>The bytes determine the description\<close>

lemma chr_codes: "chr 92 \<noteq> chr 10" "chr 92 \<noteq> chr 13" "chr 92 \<noteq> chr 9" "chr 10 \<noteq> chr 13" "chr 10 \<noteq> chr 9" "chr 13 \<noteq> chr 9"
  "CHR ''n'' \<noteq> chr 92" "CHR ''r'' \<noteq> chr 92" "CHR ''t'' \<noteq> chr 92" "CHR ''n'' \<noteq> chr 9" "CHR ''r'' \<noteq> chr 9" "CHR ''t'' \<noteq> chr 9"
  "CHR ''n'' \<noteq> chr 10" "CHR ''r'' \<noteq> chr 10" "CHR ''t'' \<noteq> chr 10"
  by code_simp+

lemmas chr_distinct = chr_codes chr_codes [symmetric]

definition escapes :: "(char \<times> char) list" where
  "escapes = [(chr 92, chr 92), (CHR ''n'', chr 10), (CHR ''r'', chr 13), (CHR ''t'', chr 9)]"

lemma escape_byte_cases:
  obtains "escape_byte c = [c]" "c \<noteq> chr 92" "c \<noteq> chr 10" "c \<noteq> chr 9"
  | d where "escape_byte c = [chr 92, d]" "(d, c) \<in> set escapes"
proof -
  consider "c = chr 92" | "c = chr 10" | "c = chr 13" | "c = chr 9" | "c \<noteq> chr 92" "c \<noteq> chr 10" "c \<noteq> chr 13" "c \<noteq> chr 9" by blast
  then show ?thesis
    by cases (use that in \<open>simp_all add: escape_byte_def escapes_def chr_distinct\<close>)
qed

lemma escapes_inj: "(d, x) \<in> set escapes \<Longrightarrow> (d, y) \<in> set escapes \<Longrightarrow> x = y"
  by (auto simp: escapes_def chr_distinct)

interpretation line_escape: prefix_code escape_byte "\<lambda>c. True"
proof
  fix x y :: char and u v :: string
  show "escape_byte x \<noteq> []" by (simp add: escape_byte_def)
  assume eq: "escape_byte x @ u = escape_byte y @ v"
  show "x = y"
  proof (cases x rule: escape_byte_cases)
    case 1
    then show ?thesis using eq by (cases y rule: escape_byte_cases) auto
  next
    case x: (2 d)
    show ?thesis
    proof (cases y rule: escape_byte_cases)
      case 1
      then show ?thesis using eq x by auto
    next
      case (2 e)
      then have "d = e" using eq x(1) by simp
      then show ?thesis using escapes_inj x(2) 2(2) by blast
    qed
  qed
qed

lemma escape_inj: "escape s = escape t \<longleftrightarrow> s = t"
  using line_escape.concat_inj [of s t] by (auto simp: escape_def list_all_iff)

lemma escape_clean: "c \<in> set (escape s) \<Longrightarrow> c \<noteq> chr 9 \<and> c \<noteq> chr 10"
proof -
  have "c \<noteq> chr 9 \<and> c \<noteq> chr 10" if "c \<in> set (escape_byte x)" for x
    using that by (cases x rule: escape_byte_cases) (auto simp: escapes_def chr_distinct)
  then show "c \<in> set (escape s) \<Longrightarrow> c \<noteq> chr 9 \<and> c \<noteq> chr 10" by (auto simp: escape_def)
qed

lemma join_set: "c \<in> set (join sep ps) \<Longrightarrow> c \<in> set sep \<or> (\<exists>p \<in> set ps. c \<in> set p)"
  by (induction sep ps rule: join.induct) auto

interpretation lines: prefix_code canonical_line "\<lambda>ps. ps \<noteq> []"
proof
  fix ps qs :: "string list" and u v :: string
  assume ps: "ps \<noteq> []"
  show "canonical_line ps \<noteq> []" by (simp add: canonical_line_def)
  assume qs: "qs \<noteq> []" and eq: "canonical_line ps @ u = canonical_line qs @ v"
  have n: "c \<noteq> chr 10" if "c \<in> set (join [chr 9] (map escape xs))" for c xs
    using join_set [OF that] escape_clean chr_codes(5) by auto
  have "join [chr 9] (map escape ps) @ (chr 10 # u) = join [chr 9] (map escape qs) @ (chr 10 # v)"
    using eq by (simp add: canonical_line_def)
  from cut_unique [OF this, of "\<lambda>c. c = chr 10"] n have "join [chr 9] (map escape ps) = join [chr 9] (map escape qs)" by simp
  moreover have "split_byte (chr 9) (join [chr 9] (map escape xs)) = map escape xs" if "xs \<noteq> []" for xs
    using that escape_clean by (intro split_byte_join) auto
  ultimately have "map escape ps = map escape qs" using ps qs by metis
  moreover have "inj escape" by (rule injI) (simp add: escape_inj)
  ultimately show "ps = qs" by (rule map_injective)
qed

text \<open>What of a description is compared: all but the sentences.\<close>

definition visible :: "OpDescription \<Rightarrow> int \<times> string \<times> string \<times> field list" where
  "visible d = (Index d, Type d, Source d, Fields d)"

lemma field_rows_inj:
  "map (\<lambda>f. [''field'', i, Label f, Kind f, Value f]) fs = map (\<lambda>f. [''field'', i, Label f, Kind f, Value f]) gs \<Longrightarrow> fs = gs"
  by (rule map_injective) (auto simp: inj_def intro: field.expand)

definition opens :: "string list list \<Rightarrow> bool" where
  "opens rows \<longleftrightarrow> rows = [] \<or> hd (hd rows) \<noteq> ''field''"

lemma op_rows_inj:
  assumes "op_rows d @ r = op_rows e @ s" "opens r" "opens s"
  shows "visible d = visible e \<and> r = s"
proof -
  let ?F = "\<lambda>d. map (\<lambda>f. [''field'', fmt_int (Index d), Label f, Kind f, Value f]) (Fields d)"
  have h: "Index d = Index e" "Type d = Type e" "Source d = Source e"
    using assms(1) by (simp_all add: op_rows_def fmt_int_inj)
  have "tl (op_rows d @ r) = tl (op_rows e @ s)" using assms(1) by simp
  then have "?F d @ r = ?F e @ s" by (simp add: op_rows_def)
  then have "?F d = ?F e \<and> r = s" using cut_unique [of "?F d" r "?F e" s "\<lambda>row. hd row \<noteq> ''field''"] assms(2,3) by (auto simp: opens_def)
  then show ?thesis using h field_rows_inj [of "fmt_int (Index e)"] by (simp add: visible_def)
qed

lemma all_rows_inj:
  "concat (map op_rows ds) @ [[''hash'', h]] = concat (map op_rows es) @ [[''hash'', h']] \<Longrightarrow> map visible ds = map visible es \<and> h = h'"
proof (induction ds arbitrary: es)
  case Nil
  then show ?case by (cases es) (auto simp: op_rows_def)
next
  case (Cons d ds)
  have o1: "opens (concat (map op_rows xs) @ [[''hash'', k]])" for xs k by (cases xs) (simp_all add: opens_def op_rows_def)
  show ?case
  proof (cases es)
    case Nil
    then show ?thesis using Cons.prems by (simp add: op_rows_def)
  next
    case (Cons e es')
    then have "op_rows d @ (concat (map op_rows ds) @ [[''hash'', h]]) = op_rows e @ (concat (map op_rows es') @ [[''hash'', h']])"
      using Cons.prems by simp
    from op_rows_inj [OF this o1 o1] show ?thesis using Cons.IH [of es'] Cons by simp
  qed
qed

lemma Canonical_rows: "Canonical d = Canonical e \<Longrightarrow> canonical_rows d = canonical_rows e"
  unfolding Canonical_def by (rule lines.concat_inj) (auto simp: canonical_rows_def op_rows_def list_all_iff)

definition visible_tx :: "TxDescription \<Rightarrow> string list \<times> (int \<times> string \<times> string \<times> field list) list" where
  "visible_tx d = ([td_kind d, td_network d, td_hash d, td_source d, td_sequence d, td_fee d, td_min d, td_max d, td_memo_type d, td_memo d],
     map visible (td_operations d))"

definition rows_of :: "int \<times> string \<times> string \<times> field list \<Rightarrow> string list list" where
  "rows_of v = (case v of (i, t, src, fs) \<Rightarrow>
     [''op'', fmt_int i, t, src] # map (\<lambda>f. [''field'', fmt_int i, Label f, Kind f, Value f]) fs)"

lemma op_rows_visible: "map op_rows ds = map rows_of (map visible ds)"
  by (simp add: rows_of_def op_rows_def visible_def)

lemma Canonical_iff: "Canonical d = Canonical e \<longleftrightarrow> visible_tx d = visible_tx e"
proof
  assume "Canonical d = Canonical e"
  from Canonical_rows [OF this] show "visible_tx d = visible_tx e"
    using all_rows_inj [of "td_operations d" "td_hash d" "td_operations e" "td_hash e"] by (simp add: canonical_rows_def visible_tx_def)
next
  assume v: "visible_tx d = visible_tx e"
  then have m: "map visible (td_operations d) = map visible (td_operations e)" by (simp add: visible_tx_def)
  have "length (td_operations d) = length (td_operations e)" using arg_cong [OF m, of length] by simp
  moreover have "map op_rows (td_operations d) = map op_rows (td_operations e)" unfolding op_rows_visible m ..
  ultimately have "canonical_rows d = canonical_rows e" using v by (simp add: canonical_rows_def visible_tx_def)
  then show "Canonical d = Canonical e" by (simp add: Canonical_def)
qed

section \<open>What is shown of an operation determines it\<close>

text \<open>
  The texts in an operation that is written unambiguously: asset codes are letters and digits and issuers base32, as those of the
  network are, and the texts of contract values are valid UTF-8, which the wire does not ask for; two that are not may be written
  alike (\<open>Scval.scval_bytes_collide\<close>).
\<close>

definition alnum :: "char \<Rightarrow> bool" where
  "alnum c \<longleftrightarrow> 48 \<le> byte c \<and> byte c \<le> 57 \<or> 65 \<le> byte c \<and> byte c \<le> 90 \<or> 97 \<le> byte c \<and> byte c \<le> 122"

definition asset_ok :: "asset option \<Rightarrow> bool" where
  "asset_ok a \<longleftrightarrow> (case a of Some (Credit code issuer) \<Rightarrow> list_all alnum code \<and> list_all base32 issuer | _ \<Rightarrow> True)"

definition trust_ok :: "trust_asset option \<Rightarrow> bool" where
  "trust_ok a \<longleftrightarrow> (case a of Some (TrustCredit code issuer) \<Rightarrow> list_all alnum code \<and> list_all base32 issuer | _ \<Rightarrow> True)"

definition key_ok :: "ledger_key \<Rightarrow> bool" where
  "key_ok k \<longleftrightarrow> (case k of KeyData c t v \<Rightarrow> readable v | _ \<Rightarrow> True)"

fun op_ok :: "operation \<Rightarrow> bool" where
  "op_ok (Payment src to amount asset) = asset_ok asset"
| "op_ok (ChangeTrust src line limit) = trust_ok line"
| "op_ok (ManageSellOffer src a b amount price n) = (asset_ok a \<and> asset_ok b)"
| "op_ok (ManageBuyOffer src a b amount price n) = (asset_ok a \<and> asset_ok b)"
| "op_ok (CreatePassiveSellOffer src a b amount price) = (asset_ok a \<and> asset_ok b)"
| "op_ok (PathStrictSend src a amount to b least path) = (asset_ok a \<and> asset_ok b \<and> list_all asset_ok path)"
| "op_ok (PathStrictReceive src a most to b amount path) = (asset_ok a \<and> asset_ok b \<and> list_all asset_ok path)"
| "op_ok (RestoreFootprint src ext) = (case ext of None \<Rightarrow> True | Some d \<Rightarrow> list_all key_ok (sd_read_write d))"
| "op_ok (InvokeHostFunction src f auth) = (case f of InvokeContract (Some c) \<Rightarrow> list_all readable (ic_args c) | _ \<Rightarrow> True)"
| "op_ok op = True"

text \<open>
  An operation up to spelling: its source made explicit, its amounts in the one form they are shown in, an empty limit written
  out, an absent vector or map made empty; and of an authorisation only who gives it, for that is all that is shown.
\<close>

definition spelled :: "string \<Rightarrow> string" where
  "spelled amount = (case normalizeAmount amount of None \<Rightarrow> amount | Some a \<Rightarrow> a)"

definition plain_key :: "ledger_key \<Rightarrow> ledger_key" where
  "plain_key k = (case k of KeyData c t v \<Rightarrow> KeyData c t (strip v) | _ \<Rightarrow> k)"

fun normal :: "string \<Rightarrow> operation \<Rightarrow> operation" where
  "normal s (Payment src to amount asset) = Payment (effective src s) to (spelled amount) asset"
| "normal s (CreateAccount src to amount) = CreateAccount (effective src s) to (spelled amount)"
| "normal s (AccountMerge src to) = AccountMerge (effective src s) to"
| "normal s (ChangeTrust src line limit) = ChangeTrust (effective src s) line (spelled (if limit = [] then MaxTrustlineLimit else limit))"
| "normal s (BeginSponsoring src who) = BeginSponsoring (effective src s) who"
| "normal s (EndSponsoring src) = EndSponsoring (effective src s)"
| "normal s (SetOptions src changes) = SetOptions (effective src s) changes"
| "normal s (ManageSellOffer src a b amount price n) = ManageSellOffer (effective src s) a b (spelled amount) price n"
| "normal s (ManageBuyOffer src a b amount price n) = ManageBuyOffer (effective src s) a b (spelled amount) price n"
| "normal s (CreatePassiveSellOffer src a b amount price) = CreatePassiveSellOffer (effective src s) a b (spelled amount) price"
| "normal s (PathStrictSend src a amount to b least path) = PathStrictSend (effective src s) a (spelled amount) to b (spelled least) path"
| "normal s (PathStrictReceive src a most to b amount path) = PathStrictReceive (effective src s) a (spelled most) to b (spelled amount) path"
| "normal s (BumpSequence src n) = BumpSequence (effective src s) n"
| "normal s (ManageData src name value) = ManageData (effective src s) name value"
| "normal s (RestoreFootprint src ext) =
     RestoreFootprint (effective src s) (map_option (\<lambda>d. d\<lparr>sd_read_write := map plain_key (sd_read_write d)\<rparr>) ext)"
| "normal s (InvokeHostFunction src f auth) =
     InvokeHostFunction (effective src s)
       (case f of InvokeContract c \<Rightarrow> InvokeContract (map_option (\<lambda>c. c\<lparr>ic_args := map strip (ic_args c)\<rparr>) c) | OtherFunction \<Rightarrow> OtherFunction)
       (map (\<lambda>a. a\<lparr>au_invocation := []\<rparr>) auth)"
| "normal s OtherOperation = OtherOperation"

lemma spelled_eq: "normalizeAmount a = Some x \<Longrightarrow> spelled a = x"
  by (simp add: spelled_def)

lemma colon_not_alnum: "list_all alnum s \<Longrightarrow> CHR '':'' \<notin> set s" "list_all base32 s \<Longrightarrow> CHR '':'' \<notin> set s"
  by (auto simp: list_all_iff alnum_def base32_def dest!: bspec)

lemma pair_text_inj:
  assumes "c @ '':'' @ i = c' @ '':'' @ i'" "list_all alnum c" "list_all alnum c'"
  shows "c = c' \<and> i = i'"
  using cut_unique [of c "CHR '':'' # i" c' "CHR '':'' # i'" "\<lambda>x. x = CHR '':''"] assms colon_not_alnum(1) by auto

lemma describeAsset_cases:
  assumes "describeAsset a = Some t"
  obtains "a = Some Native" "t = ''native''" | c i where "a = Some (Credit c i)" "t = c @ '':'' @ i"
  using assms by (auto simp: describeAsset_def split: option.splits asset.splits if_splits)

lemma describeAsset_inj:
  assumes "describeAsset a = Some t" "describeAsset b = Some t" "asset_ok a" "asset_ok b"
  shows "a = b"
proof -
  have n: "c @ '':'' @ i \<noteq> ''native''" for c i
  proof
    assume "c @ '':'' @ i = ''native''"
    then have "CHR '':'' \<in> set ''native''" by (metis append_Cons in_set_conv_decomp)
    then show False by simp
  qed
  show ?thesis
    using assms(1)
  proof (cases rule: describeAsset_cases)
    case 1
    from assms(2) show ?thesis by (cases rule: describeAsset_cases) (use 1 n in auto)
  next
    case (2 c i)
    show ?thesis using assms(2)
    proof (cases rule: describeAsset_cases)
      case 1
      then show ?thesis using 2 n by auto
    next
      case (2 c' i')
      then show ?thesis using pair_text_inj [of c i c' i'] \<open>a = Some (Credit c i)\<close> \<open>t = c @ '':'' @ i\<close> assms(3,4) by (simp add: asset_ok_def)
    qed
  qed
qed

lemma describeTrust_inj:
  "describeChangeTrustAsset a = Some t \<Longrightarrow> describeChangeTrustAsset b = Some t \<Longrightarrow> trust_ok a \<Longrightarrow> trust_ok b \<Longrightarrow> a = b"
  by (auto simp: describeChangeTrustAsset_def trust_ok_def split: option.splits trust_asset.splits if_splits dest!: pair_text_inj [simplified])

lemma asset_text:
  assumes "describeAsset a = Some t" "asset_ok a"
  shows "chr 226 \<notin> set t \<and> t \<noteq> ''direct''"
proof -
  have p: "chr 226 \<notin> set c" if "list_all alnum c \<or> list_all base32 c" for c
    using that by (auto simp: list_all_iff alnum_def base32_def dest!: bspec)
  have k: "chr 226 \<notin> set ''native''" "chr 226 \<noteq> CHR '':''" by code_simp+
  have d: "c @ '':'' @ i \<noteq> ''direct''" for c i
  proof
    assume "c @ '':'' @ i = ''direct''"
    then have "CHR '':'' \<in> set ''direct''" by (metis append_Cons in_set_conv_decomp)
    then show False by simp
  qed
  from assms(1) show ?thesis by (cases rule: describeAsset_cases) (use p k d assms(2) in \<open>auto simp: asset_ok_def\<close>)
qed

lemma join_cut:
  assumes "join (x # y # z) ps = join (x # y # z) qs" "ps \<noteq> []" "qs \<noteq> []" "\<forall>p \<in> set ps \<union> set qs. y \<notin> set p" "x \<noteq> y"
  shows "ps = qs"
  using assms
proof (induction "x # y # z" ps arbitrary: qs rule: join.induct)
  case (2 p)
  show ?case
  proof (cases "tl qs")
    case Nil
    then show ?thesis using 2 by (cases qs) auto
  next
    case (Cons q' qs')
    then obtain q where "qs = q # q' # qs'" using 2 by (cases qs) auto
    then have "y \<in> set p" using 2(1) by simp
    then show ?thesis using 2 by simp
  qed
next
  case (3 p p' ps)
  show ?case
  proof (cases "tl qs")
    case Nil
    then obtain q where q: "qs = [q]" using 3 by (cases qs) auto
    have "join (x # y # z) (p # p' # ps) = q" using 3(2) q by simp
    then have "y \<in> set q" by force
    then show ?thesis using 3 q by simp
  next
    case (Cons q' qs')
    then obtain q where q: "qs = q # q' # qs'" using 3 by (cases qs) auto
    have eq: "(p @ [x]) @ (y # z @ join (x # y # z) (p' # ps)) = (q @ [x]) @ (y # z @ join (x # y # z) (q' # qs'))"
      using 3(2) q by simp
    have "p @ [x] = q @ [x] \<and> y # z @ join (x # y # z) (p' # ps) = y # z @ join (x # y # z) (q' # qs')"
      by (rule cut_unique [OF eq, of "\<lambda>c. c = y"]) (use 3 q in auto)
    then show ?thesis using 3(1) [of "q' # qs'"] 3 q by simp
  qed
qed auto

lemma those_map_inj:
  assumes "those (map f xs) = Some ts" "those (map f ys) = Some ts" "\<And>x y t. x \<in> set xs \<Longrightarrow> y \<in> set ys \<Longrightarrow> f x = Some t \<Longrightarrow> f y = Some t \<Longrightarrow> g x = g y"
  shows "map g xs = map g ys"
  using assms
proof (induction xs arbitrary: ys ts)
  case Nil
  then show ?case by (cases ys) (auto split: option.splits)
next
  case (Cons x xs)
  then obtain t ts' where t: "f x = Some t" "those (map f xs) = Some ts'" "ts = t # ts'" by (auto split: option.splits)
  then obtain y ys' where y: "ys = y # ys'" "f y = Some t" "those (map f ys') = Some ts'" using Cons.prems(2) by (cases ys) (auto split: option.splits)
  have "g x = g y" using Cons.prems(3) [of x y t] t y by simp
  moreover have "map g xs = map g ys'" using t y Cons.prems(3) by (intro Cons.IH [of ts']) auto
  ultimately show ?case using y by simp
qed

lemma those_set: "those (map f xs) = Some ts \<Longrightarrow> t \<in> set ts \<Longrightarrow> \<exists>x \<in> set xs. f x = Some t"
  by (induction xs arbitrary: ts) (auto split: option.splits)

lemma those_length: "those xs = Some ts \<Longrightarrow> length ts = length xs"
  by (induction xs arbitrary: ts) (auto split: option.splits)

lemma path_direct:
  assumes "describePath p = Some ''direct''" "list_all asset_ok p"
  shows "p = []"
proof (rule ccontr)
  assume "p \<noteq> []"
  then obtain ts where ts: "those (map describeAsset p) = Some ts" "join arrow ts = ''direct''" using assms(1) by (auto simp: describePath_def)
  then obtain t ts' where t: "ts = t # ts'" using \<open>p \<noteq> []\<close> those_length [OF ts(1)] by (cases ts) auto
  have "chr 226 \<notin> set ''direct''" by code_simp
  moreover have "chr 226 \<in> set (join arrow (t # a # l))" for a l by (simp add: arrow_def)
  ultimately have "ts' = []" using ts(2) t by (cases ts') metis+
  then have "t = ''direct''" using ts(2) t by simp
  moreover obtain a where "a \<in> set p" "describeAsset a = Some t" using those_set [OF ts(1), of t] t by auto
  ultimately show False using asset_text [of a t] assms(2) by (auto simp: list_all_iff)
qed

lemma describePath_inj:
  assumes "describePath p = Some t" "describePath q = Some t" "list_all asset_ok p" "list_all asset_ok q"
  shows "p = q"
proof (cases "p = [] \<or> q = []")
  case True
  then have "t = ''direct''" using assms(1,2) by (auto simp: describePath_def)
  then show ?thesis using path_direct assms by blast
next
  case False
  then obtain ts us where ts: "those (map describeAsset p) = Some ts" "t = join arrow ts" and us: "those (map describeAsset q) = Some us" "t = join arrow us"
    using assms(1,2) by (auto simp: describePath_def)
  have n: "\<forall>x \<in> set ts \<union> set us. chr 226 \<notin> set x"
    using those_set [OF ts(1)] those_set [OF us(1)] asset_text assms(3,4) by (fastforce simp: list_all_iff)
  have "CHR '' '' \<noteq> chr 226" by code_simp
  moreover have "ts \<noteq> []" "us \<noteq> []" using False those_length [OF ts(1)] those_length [OF us(1)] by auto
  moreover have "join arrow ts = join arrow us" using ts us by simp
  ultimately have "ts = us" using join_cut [of "CHR '' ''" "chr 226" "[chr 134, chr 146, CHR '' '']" ts us] n by (simp add: arrow_def)
  then have "map (\<lambda>x. x) p = map (\<lambda>x. x) q" using those_map_inj [OF ts(1), of q "\<lambda>x. x"] us(1) describeAsset_inj assms(3,4)
    by (auto simp: list_all_iff)
  then show ?thesis by simp
qed

lemma describeOffer_inj:
  assumes "describeOffer v a b amount price n = Some (fs, x)" "describeOffer v' a' b' amount' price' n' = Some (fs, x')"
    "asset_ok a" "asset_ok b" "asset_ok a'" "asset_ok b'"
  shows "a = a' \<and> b = b' \<and> spelled amount = spelled amount' \<and> price = price' \<and> n = n'"
proof -
  have no: "CHR ''/'' \<notin> set (fmt_int i)" for i using fmt_int_chars [of i] by (auto simp: is_digit_def)
  from assms(1) obtain m s t where p: "normalizeAmount amount = Some m" "describeAsset a = Some s" "describeAsset b = Some t"
    "fs = [Field ''selling'' KindAsset s, Field ''buying'' KindAsset t, Field ''amount'' KindAmount m,
           Field ''price'' KindPrice (fmt_int (sint (fst price)) @ ''/'' @ fmt_int (sint (snd price))), Field ''offer'' KindNumber (fmt_int (sint n))]"
    by (auto simp: describeOffer_def Let_def bind_eq_Some_conv)
  with assms(2) have q: "normalizeAmount amount' = Some m" "describeAsset a' = Some s" "describeAsset b' = Some t" "n = n'"
    and r: "fmt_int (sint (fst price)) @ ''/'' @ fmt_int (sint (snd price)) = fmt_int (sint (fst price')) @ ''/'' @ fmt_int (sint (snd price'))"
    by (auto simp: describeOffer_def Let_def bind_eq_Some_conv fmt_int_inj dest: word_eqD)
  have "sint (fst price) = sint (fst price') \<and> sint (snd price) = sint (snd price')"
    using cut_unique [of "fmt_int (sint (fst price))" "CHR ''/'' # fmt_int (sint (snd price))" "fmt_int (sint (fst price'))"
        "CHR ''/'' # fmt_int (sint (snd price'))" "\<lambda>c. c = CHR ''/''"] r no by (auto simp: fmt_int_inj)
  then have "price = price'" by (auto simp: prod_eq_iff dest: word_eqD)
  then show ?thesis using p q assms(3-6) describeAsset_inj by (auto simp: spelled_eq)
qed

section \<open>Account settings\<close>

lemma flagName_inj: "flagName f = flagName g \<Longrightarrow> f = g"
  by (auto simp: flagName_def fmt_int_inj dest: word_eqD split: if_splits)

text \<open>The values of a label; each setting has labels of its own.\<close>

definition label_values :: "string \<Rightarrow> field list \<Rightarrow> string list" where
  "label_values l fs = map Value (filter (\<lambda>f. Label f = l) fs)"

lemma label_values_simps [simp]:
  "label_values l [] = []" "label_values l (fs @ gs) = label_values l fs @ label_values l gs"
  "label_values l (opt_field l' kd show1 x) = (if l = l' then (case x of None \<Rightarrow> [] | Some v \<Rightarrow> [show1 v]) else [])"
  "label_values l (map (\<lambda>f. Field l' kd (show1 f)) xs) = (if l = l' then map show1 xs else [])"
  by (auto simp: label_values_def opt_field_def o_def split: option.splits)

lemma weight_text_inj: "weight_text a = weight_text b \<longleftrightarrow> a = b"
  by (auto simp: weight_text_def fmt_int_inj dest: word_eqD)

lemma opt_text_inj:
  "(case x of None \<Rightarrow> [] | Some v \<Rightarrow> [show1 v]) = (case y of None \<Rightarrow> [] | Some v \<Rightarrow> [show1 v]) \<Longrightarrow> inj show1 \<Longrightarrow> x = y"
  by (auto split: option.splits dest: injD)

lemma option_fields_inj:
  assumes "option_fields a = option_fields b"
  shows "a = b"
proof -
  have v: "label_values l (option_fields a) = label_values l (option_fields b)" for l using assms by simp
  have w: "inj weight_text" by (auto intro: injI simp: weight_text_inj)
  have i: "inj (\<lambda>s::string. s)" by (simp add: inj_def)
  have "oc_master a = oc_master b" using v [of "''master weight''"] opt_text_inj [OF _ w] by (simp add: option_fields_def)
  moreover have "oc_low a = oc_low b" using v [of "''low threshold''"] opt_text_inj [OF _ w] by (simp add: option_fields_def)
  moreover have "oc_medium a = oc_medium b" using v [of "''medium threshold''"] opt_text_inj [OF _ w] by (simp add: option_fields_def)
  moreover have "oc_high a = oc_high b" using v [of "''high threshold''"] opt_text_inj [OF _ w] by (simp add: option_fields_def)
  moreover have "oc_home a = oc_home b" using v [of "''home domain''"] opt_text_inj [OF _ i] by (simp add: option_fields_def)
  moreover have "oc_inflation a = oc_inflation b" using v [of "''inflation destination''"] opt_text_inj [OF _ i] by (simp add: option_fields_def)
  moreover have "oc_signer a = oc_signer b" using v [of "''signer''"] v [of "''signer weight''"]
    by (auto simp: option_fields_def weight_text_inj prod_eq_iff split: option.splits)
  moreover have "oc_set a = oc_set b" using v [of "''set flag''"] map_injective [of flagName "oc_set a" "oc_set b"] flagName_inj
    by (auto simp: option_fields_def inj_def)
  moreover have "oc_clear a = oc_clear b" using v [of "''clear flag''"] map_injective [of flagName "oc_clear a" "oc_clear b"] flagName_inj
    by (auto simp: option_fields_def inj_def)
  ultimately show ?thesis by (cases a; cases b) simp
qed

section \<open>Contract calls and restores\<close>

lemma numbered_inj: "numbered l kd vs = numbered l kd ws \<Longrightarrow> vs = ws"
proof -
  assume "numbered l kd vs = numbered l kd ws"
  then have "map Value (numbered l kd vs) = map Value (numbered l kd ws)" by simp
  moreover have "map Value (numbered l kd xs) = xs" for xs by (simp add: numbered_def o_def case_prod_beta enumerate_eq_zip)
  ultimately show ?thesis by simp
qed

lemma numbered_length [simp]: "length (numbered l kd vs) = length vs"
  by (simp add: numbered_def)

lemma authorizer_inj:
  assumes "strkey_laws k" "authorizerString k a = Some t" "authorizerString k b = Some t"
  shows "a\<lparr>au_invocation := []\<rparr> = b\<lparr>au_invocation := []\<rparr>"
proof -
  have "\<not> list_all base32 sourceAuthorizer" by (simp add: sourceAuthorizer_def base32_def)
  then have "scAddressString k c \<noteq> Some sourceAuthorizer" for c using address_base32 [OF assms(1)] by blast
  then have "au_credentials a = au_credentials b" using assms(2,3) address_inj [OF assms(1)]
    by (auto simp: authorizerString_def split: credentials.splits option.splits)
  then show ?thesis by (cases a; cases b) simp
qed

lemma describeInvoke_inj:
  assumes k: "strkey_laws k" and d: "describeInvoke k f auth = Some (fs, x)" "describeInvoke k g auth' = Some (fs, y)"
    and ok: "op_ok (InvokeHostFunction s f auth)" "op_ok (InvokeHostFunction s' g auth')" and src: "effective s t = effective s' t'"
  shows "normal t (InvokeHostFunction s f auth) = normal t' (InvokeHostFunction s' g auth')"
proof -
  from d obtain c c' where f: "f = InvokeContract (Some c)" "g = InvokeContract (Some c')"
    "describeContractCall k (Some c) auth = Some (fs, x)" "describeContractCall k (Some c') auth' = Some (fs, y)"
    by (auto simp: describeInvoke_def describeContractCall_def bind_eq_Some_conv split: host_function.splits)
  from f(3) obtain a r w where p: "scAddressString k (ic_contract c) = Some a" "those (map (scvalString k) (ic_args c)) = Some r"
    "those (map (authorizerString k) auth) = Some w" "fs = [Field ''contract'' KindAddress a, Field ''function'' KindText (ic_function c),
       Field ''arguments'' KindNumber (fmt_int (int (length (ic_args c))))] @ numbered ''arg '' KindRaw r
       @ [Field ''authorizations'' KindNumber (fmt_int (int (length auth)))] @ numbered ''authorized by '' KindAddress w"
    by (auto simp: describeContractCall_def bind_eq_Some_conv)
  from f(4) obtain a' r' w' where q: "scAddressString k (ic_contract c') = Some a'" "those (map (scvalString k) (ic_args c')) = Some r'"
    "those (map (authorizerString k) auth') = Some w'" "fs = [Field ''contract'' KindAddress a', Field ''function'' KindText (ic_function c'),
       Field ''arguments'' KindNumber (fmt_int (int (length (ic_args c'))))] @ numbered ''arg '' KindRaw r'
       @ [Field ''authorizations'' KindNumber (fmt_int (int (length auth')))] @ numbered ''authorized by '' KindAddress w'"
    by (auto simp: describeContractCall_def bind_eq_Some_conv)
  have h: "a = a'" "ic_function c = ic_function c'" "length (ic_args c) = length (ic_args c')"
    using p(4) q(4) by (auto simp: fmt_int_inj)
  then have "length r = length r'" using those_length [OF p(2)] those_length [OF q(2)] by simp
  then have "numbered ''arg '' KindRaw r = numbered ''arg '' KindRaw r' \<and> numbered ''authorized by '' KindAddress w = numbered ''authorized by '' KindAddress w'"
    using p(4) q(4) by simp
  then have "r = r'" "w = w'" using numbered_inj by blast+
  have "map strip (ic_args c) = map strip (ic_args c')"
  proof (rule those_map_inj [OF p(2)])
    show "those (map (scvalString k) (ic_args c')) = Some r" using q(2) \<open>r = r'\<close> by simp
    show "strip v = strip v'" if "v \<in> set (ic_args c)" "v' \<in> set (ic_args c')" "scvalString k v = Some u" "scvalString k v' = Some u" for v v' u
      using scval_same [OF k _ _ that(3,4)] ok f(1,2) that(1,2) by (simp add: list_all_iff)
  qed
  moreover have "map (\<lambda>a. a\<lparr>au_invocation := []\<rparr>) auth = map (\<lambda>a. a\<lparr>au_invocation := []\<rparr>) auth'"
  proof (rule those_map_inj [OF p(3)])
    show "those (map (authorizerString k) auth') = Some w" using q(3) \<open>w = w'\<close> by simp
  qed (rule authorizer_inj [OF k])
  moreover have "ic_contract c = ic_contract c'" using address_inj [OF k p(1)] q(1) h(1) by simp
  ultimately show ?thesis using f h src by simp
qed

lemma ledgerKey_inj:
  assumes k: "strkey_laws k" and t: "ledgerKeyString k a = Some t" "ledgerKeyString k b = Some t" and ok: "key_ok a" "key_ok b"
  shows "plain_key a = plain_key b"
proof (cases a)
  case a: (KeyData c temp v)
  with t(1) obtain ct vt where p: "scAddressString k c = Some ct" "scvalString k v = Some vt"
    "t = ''data '' @ ct @ '' '' @ (if temp then ''temporary'' else ''persistent'') @ '' '' @ vt"
    by (auto simp: ledgerKeyString_def bind_eq_Some_conv)
  with t(2) obtain c' temp' v' ct' vt' where b: "b = KeyData c' temp' v'" and q: "scAddressString k c' = Some ct'" "scvalString k v' = Some vt'"
    "t = ''data '' @ ct' @ '' '' @ (if temp' then ''temporary'' else ''persistent'') @ '' '' @ vt'"
    by (cases b) (auto simp: ledgerKeyString_def bind_eq_Some_conv)
  have sp: "\<forall>x \<in> set ct. x \<noteq> CHR '' ''" "\<forall>x \<in> set ct'. x \<noteq> CHR '' ''"
    using address_base32 [OF k p(1)] address_base32 [OF k q(1)] by (auto simp: list_all_iff base32_def)
  have "ct @ (CHR '' '' # (if temp then ''temporary'' else ''persistent'') @ '' '' @ vt) =
      ct' @ (CHR '' '' # (if temp' then ''temporary'' else ''persistent'') @ '' '' @ vt')" using p(3) q(3) by simp
  from cut_unique [OF this, of "\<lambda>x. x = CHR '' ''"] sp have "ct = ct'" "temp = temp'" "vt = vt'" by (auto split: if_splits)
  then have "c = c'" "strip v = strip v'"
    using address_inj [OF k p(1)] q(1) scval_same [OF k _ _ p(2)] q(2) ok a b by (simp_all add: key_ok_def)
  then show ?thesis using a b \<open>temp = temp'\<close> by (simp add: plain_key_def)
next
  case (KeyCode h)
  then show ?thesis using t by (cases b) (auto simp: ledgerKeyString_def hexOf_inj bind_eq_Some_conv)
next
  case KeyOther
  then show ?thesis using t by (simp add: ledgerKeyString_def)
qed

lemma describeRestore_inj:
  assumes k: "strkey_laws k" and d: "describeRestore k ext = Some (fs, x)" "describeRestore k ext' = Some (fs, y)"
    and ok: "op_ok (RestoreFootprint s ext)" "op_ok (RestoreFootprint s' ext')" and src: "effective s t = effective s' t'"
  shows "normal t (RestoreFootprint s ext) = normal t' (RestoreFootprint s' ext')"
proof -
  from d(1) obtain a ts where p: "ext = Some a" "sd_read_only a = []" "those (map (ledgerKeyString k) (sd_read_write a)) = Some ts"
    "fs = [Field ''resource fee'' KindNumber (fmt_int (sint (sd_fee a))), Field ''entries'' KindNumber (fmt_int (int (length (sd_read_write a))))]
       @ numbered ''entry '' KindRaw ts"
    by (auto simp: describeRestore_def Let_def bind_eq_Some_conv split: if_splits)
  from d(2) obtain b us where q: "ext' = Some b" "sd_read_only b = []" "those (map (ledgerKeyString k) (sd_read_write b)) = Some us"
    "fs = [Field ''resource fee'' KindNumber (fmt_int (sint (sd_fee b))), Field ''entries'' KindNumber (fmt_int (int (length (sd_read_write b))))]
       @ numbered ''entry '' KindRaw us"
    by (auto simp: describeRestore_def Let_def bind_eq_Some_conv split: if_splits)
  have "sint (sd_fee a) = sint (sd_fee b)" "numbered ''entry '' KindRaw ts = numbered ''entry '' KindRaw us"
    using p(4) q(4) by (simp_all add: fmt_int_inj)
  then have h: "sd_fee a = sd_fee b" "ts = us" using word_eqD(2) numbered_inj by blast+
  have "map plain_key (sd_read_write a) = map plain_key (sd_read_write b)"
  proof (rule those_map_inj [OF p(3)])
    show "those (map (ledgerKeyString k) (sd_read_write b)) = Some ts" using q(3) h(2) by simp
    show "plain_key u = plain_key v" if "u \<in> set (sd_read_write a)" "v \<in> set (sd_read_write b)" "ledgerKeyString k u = Some z"
        "ledgerKeyString k v = Some z" for u v z
      using ledgerKey_inj [OF k that(3,4)] ok p(1) q(1) that(1,2) by (simp add: list_all_iff)
  qed
  then show ?thesis using p(1,2) q(1,2) h(1) src by (cases a; cases b) simp
qed

section \<open>Operations\<close>

fun op_type :: "operation \<Rightarrow> string" where
  "op_type (Payment src to amount asset) = ''payment''"
| "op_type (CreateAccount src to amount) = ''create_account''"
| "op_type (AccountMerge src to) = ''account_merge''"
| "op_type (ChangeTrust src line limit) = ''change_trust''"
| "op_type (BeginSponsoring src who) = ''begin_sponsoring_future_reserves''"
| "op_type (EndSponsoring src) = ''end_sponsoring_future_reserves''"
| "op_type (SetOptions src changes) = ''set_options''"
| "op_type (ManageSellOffer src a b amount price n) = ''manage_sell_offer''"
| "op_type (ManageBuyOffer src a b amount price n) = ''manage_buy_offer''"
| "op_type (CreatePassiveSellOffer src a b amount price) = ''create_passive_sell_offer''"
| "op_type (PathStrictSend src a amount to b least path) = ''path_payment_strict_send''"
| "op_type (PathStrictReceive src a most to b amount path) = ''path_payment_strict_receive''"
| "op_type (BumpSequence src n) = ''bump_sequence''"
| "op_type (ManageData src name value) = ''manage_data''"
| "op_type (RestoreFootprint src ext) = ''restore_footprint''"
| "op_type (InvokeHostFunction src f auth) = ''invoke_contract''"
| "op_type OtherOperation = []"

lemma body_type: "describe_body R op = Some (t, src, x, fs) \<Longrightarrow> t = op_type op"
  by (cases op) (auto simp: bind_eq_Some_conv)

lemma opt_field_inj: "opt_field l kd f x = opt_field l kd f y \<Longrightarrow> inj f \<Longrightarrow> x = y"
  by (auto simp: opt_field_def inj_def split: option.splits)

text \<open>Two operations of one kind, described alike.\<close>

definition told_apart :: "renderer \<Rightarrow> operation \<Rightarrow> operation \<Rightarrow> bool" where
  "told_apart R p q \<longleftrightarrow> (\<forall>t s s' x x' fs u u'. describe_body R p = Some (t, s, x, fs) \<longrightarrow> describe_body R q = Some (t, s', x', fs)
     \<longrightarrow> op_ok p \<longrightarrow> op_ok q \<longrightarrow> effective s u = effective s' u' \<longrightarrow> normal u p = normal u' q)"

lemma told_apart_plain:
  "told_apart R (CreateAccount a b c) (CreateAccount a' b' c')" "told_apart R (AccountMerge a b) (AccountMerge a' b')"
  "told_apart R (BeginSponsoring a b) (BeginSponsoring a' b')" "told_apart R (EndSponsoring a) (EndSponsoring a')"
  by (auto simp: told_apart_def bind_eq_Some_conv spelled_eq)

lemma told_apart_number:
  "told_apart R (BumpSequence a n) (BumpSequence a' n')"
  unfolding told_apart_def by (auto simp: fmt_int_inj dest: word_eqD)

lemma told_apart_data: "told_apart R (ManageData a b v) (ManageData a' b' v')"
proof -
  have "inj hexOf" by (rule injI) (simp add: hexOf_inj)
  then show ?thesis unfolding told_apart_def by (auto dest: opt_field_inj)
qed

lemma told_apart_payment: "told_apart R (Payment a b c e) (Payment a' b' c' e')"
  unfolding told_apart_def using describeAsset_inj [of e _ e'] by (auto simp: bind_eq_Some_conv spelled_eq)

lemma told_apart_trust: "told_apart R (ChangeTrust a l m) (ChangeTrust a' l' m')"
  unfolding told_apart_def using describeTrust_inj [of l _ l'] by (auto simp: bind_eq_Some_conv spelled_eq)

lemma told_apart_options: "told_apart R (SetOptions a c) (SetOptions a' c')"
  unfolding told_apart_def using option_fields_inj [of c c'] by (auto simp: bind_eq_Some_conv describeSetOptions_def split: if_splits)

lemma told_apart_offers:
  "told_apart R (ManageSellOffer a b c m p n) (ManageSellOffer a' b' c' m' p' n')"
  "told_apart R (ManageBuyOffer a b c m p n) (ManageBuyOffer a' b' c' m' p' n')"
  "told_apart R (CreatePassiveSellOffer a b c m p) (CreatePassiveSellOffer a' b' c' m' p')"
  unfolding told_apart_def by (auto simp: bind_eq_Some_conv dest: describeOffer_inj)

lemma told_apart_paths:
  "told_apart R (PathStrictSend a b m e f l p) (PathStrictSend a' b' m' e' f' l' p')"
  "told_apart R (PathStrictReceive a b m e f l p) (PathStrictReceive a' b' m' e' f' l' p')"
  unfolding told_apart_def using describeAsset_inj [of b _ b'] describeAsset_inj [of f _ f'] describePath_inj [of p _ p']
  by (auto simp: bind_eq_Some_conv spelled_eq)

lemma told_apart_soroban:
  assumes "strkey_laws (rn_strkey R)"
  shows "told_apart R (RestoreFootprint a e) (RestoreFootprint a' e')" "told_apart R (InvokeHostFunction a f w) (InvokeHostFunction a' f' w')"
  unfolding told_apart_def using describeRestore_inj [OF assms] describeInvoke_inj [OF assms]
  by (auto simp del: op_ok.simps normal.simps simp: bind_eq_Some_conv)

lemmas told_apart_cases = told_apart_plain told_apart_number told_apart_data told_apart_payment told_apart_trust told_apart_options
  told_apart_offers told_apart_paths

lemma body_inj:
  assumes k: "strkey_laws (rn_strkey R)" and d: "describe_body R p = Some (t, s, x, fs)" "describe_body R q = Some (t, s', x', fs)"
    and ok: "op_ok p" "op_ok q" and src: "effective s u = effective s' u'"
  shows "normal u p = normal u' q"
proof -
  have "op_type p = op_type q" "p \<noteq> OtherOperation" using body_type [OF d(1)] body_type [OF d(2)] d(1) by auto
  then have "told_apart R p q" using told_apart_cases told_apart_soroban [OF k] by (cases p; cases q) simp_all
  then show ?thesis using d ok src unfolding told_apart_def by blast
qed

end
