(* ===== verification/Describe_Claims.thy ===== *)
theory Describe_Claims
  imports Describe_Safety
begin

text \<open>
  The two things a description promises: its bytes determine the transaction, and a batch screen's rows and total are the
  envelope.
\<close>

section \<open>Transactions\<close>

definition placed :: "transaction \<Rightarrow> operation list" where
  "placed tx = map (with_footprint (tx_data tx)) (tx_ops tx)"

definition tx_ok :: "transaction \<Rightarrow> bool" where
  "tx_ok tx \<longleftrightarrow> list_all op_ok (placed tx)"

lemma describe_ops_length: "describe_ops R tx i ops = Some ds \<Longrightarrow> length ds = length ops"
  by (induction ops arbitrary: i ds) (auto split: option.splits)

lemma visible_describeOp:
  "describeOp R i op src = Some d \<longleftrightarrow>
     (\<exists>t s x fs. describe_body R op = Some (t, s, x, fs) \<and> d = opDescription i t (effective s src) x fs)"
  by (auto simp: describeOp_def bind_eq_Some_conv)

lemma visible_opDescription: "visible (opDescription i t s x fs) = (i, t, s, fs)"
  by (simp add: visible_def opDescription_def)

lemma describe_ops_inj:
  assumes k: "strkey_laws (rn_strkey R)"
    and d: "describe_ops R tx i ops = Some ds" "describe_ops R tx' i ops' = Some es" "map visible ds = map visible es"
    and ok: "list_all op_ok (map (with_footprint (tx_data tx)) ops)" "list_all op_ok (map (with_footprint (tx_data tx')) ops')"
  shows "map (normal (tx_source tx)) (map (with_footprint (tx_data tx)) ops) = map (normal (tx_source tx')) (map (with_footprint (tx_data tx')) ops')"
  using d ok
proof (induction ops arbitrary: i ops' ds es)
  case Nil
  then show ?case by (cases ops') (auto split: option.splits)
next
  case (Cons p ops)
  from Cons.prems(1) obtain d ds' where d: "describeOp R i (with_footprint (tx_data tx) p) (tx_source tx) = Some d"
    "describe_ops R tx (i + 1) ops = Some ds'" "ds = d # ds'" by (auto split: option.splits)
  with Cons.prems(2,3) obtain q qs e es' where e: "ops' = q # qs" "describeOp R i (with_footprint (tx_data tx') q) (tx_source tx') = Some e"
    "describe_ops R tx' (i + 1) qs = Some es'" "es = e # es'" by (cases ops') (auto split: option.splits)
  from d(1) obtain t s x fs where p: "describe_body R (with_footprint (tx_data tx) p) = Some (t, s, x, fs)"
    "d = opDescription i t (effective s (tx_source tx)) x fs" by (auto simp: visible_describeOp)
  from e(2) obtain t' s' x' fs' where q: "describe_body R (with_footprint (tx_data tx') q) = Some (t', s', x', fs')"
    "e = opDescription i t' (effective s' (tx_source tx')) x' fs'" by (auto simp: visible_describeOp)
  have v: "t' = t" "fs' = fs" "effective s (tx_source tx) = effective s' (tx_source tx')" "map visible ds' = map visible es'"
    using Cons.prems(3) d(3) e(4) p(2) q(2) by (simp_all add: visible_opDescription)
  have "normal (tx_source tx) (with_footprint (tx_data tx) p) = normal (tx_source tx') (with_footprint (tx_data tx') q)"
    using body_inj [OF k p(1) q(1) [unfolded v(1,2)] _ _ v(3)] Cons.prems(4,5) e(1) by simp
  moreover have "map (normal (tx_source tx)) (map (with_footprint (tx_data tx)) ops) = map (normal (tx_source tx')) (map (with_footprint (tx_data tx')) qs)"
    using Cons.IH [OF d(2) e(3) v(4)] Cons.prems(4,5) e(1) by simp
  ultimately show ?case using e(1) by simp
qed

lemma memo_inj: "describeMemo m = Some (k, v) \<Longrightarrow> describeMemo n = Some (k, v) \<Longrightarrow> m = n"
  by (auto simp: describeMemo_def hexOf_inj fmt_int_inj dest: word_eqD split: memo.splits)

lemma bound_text_inj: "bound_text a = bound_text b \<Longrightarrow> a = b"
  using fmt_int_nonempty [symmetric] by (auto simp: bound_text_def fmt_int_inj dest: word_eqD split: if_splits)

lemma DescribeTx_eq:
  assumes "DescribeTx R network H (Some tx) = Some d"
  obtains hash memoType memo ds where "H tx network = Some hash" "describeMemo (tx_memo tx) = Some (memoType, memo)" "tx_ops tx \<noteq> []"
    "describe_ops R tx 0 (tx_ops tx) = Some ds"
    "d = \<lparr>td_kind = ''tx'', td_network = network, td_hash = hash, td_source = tx_source tx, td_sequence = fmt_int (sint (tx_sequence tx)),
          td_fee = fmt_int (sint (tx_fee tx)), td_min = bound_text (tx_min tx), td_max = bound_text (tx_max tx),
          td_memo_type = memoType, td_memo = memo, td_operations = ds\<rparr>"
  using assms by (auto simp: DescribeTx_def bind_eq_Some_conv split: if_splits)

text \<open>
  Of an authorisation inside a contract call only who gives it is shown: what it allows may be anything.
\<close>

lemma allowance_not_shown:
  "describe_body R (InvokeHostFunction s f (map (\<lambda>a. a\<lparr>au_invocation := g a\<rparr>) auth)) = describe_body R (InvokeHostFunction s f auth)"
proof -
  have "map (authorizerString k) (map (\<lambda>a. a\<lparr>au_invocation := g a\<rparr>) auth) = map (authorizerString k) auth" for k
    by (simp add: authorizerString_def)
  then show ?thesis by (cases f) (simp_all add: describeInvoke_def describeContractCall_def del: map_map)
qed

text \<open>
  C5: what the bytes that are compared determine.  Two envelopes whose descriptions have the same bytes are for the same network
  and have the same hash, source, sequence number, fee, time bounds and memo, and as many operations.  Where the asset codes are
  letters and digits, the issuers base32 and the texts of contract values valid UTF-8, they have the same operations in the same
  order from the same accounts, up to these: how an amount is spelled, whether the transaction's own source is named again, whether
  an absent vector or map is an empty one, and what an authorisation inside a contract call allows, of which only who gives it is
  shown; and of the resource data only the footprint and the fee of a restore are part of the comparison.
\<close>

theorem Canonical_determines:
  assumes "DescribeTx R network H (Some a) = Some d" "DescribeTx R network' H' (Some b) = Some e" "Canonical d = Canonical e"
  shows "network = network' \<and> H a network = H' b network' \<and> tx_source a = tx_source b \<and> tx_sequence a = tx_sequence b \<and> tx_fee a = tx_fee b
    \<and> tx_min a = tx_min b \<and> tx_max a = tx_max b \<and> tx_memo a = tx_memo b \<and> length (tx_ops a) = length (tx_ops b)
    \<and> (strkey_laws (rn_strkey R) \<and> tx_ok a \<and> tx_ok b \<longrightarrow> map (normal (tx_source a)) (placed a) = map (normal (tx_source b)) (placed b))"
proof -
  from assms(1) obtain h mt m ds where d: "H a network = Some h" "describeMemo (tx_memo a) = Some (mt, m)" "describe_ops R a 0 (tx_ops a) = Some ds"
    "d = \<lparr>td_kind = ''tx'', td_network = network, td_hash = h, td_source = tx_source a, td_sequence = fmt_int (sint (tx_sequence a)),
          td_fee = fmt_int (sint (tx_fee a)), td_min = bound_text (tx_min a), td_max = bound_text (tx_max a),
          td_memo_type = mt, td_memo = m, td_operations = ds\<rparr>" by (rule DescribeTx_eq)
  from assms(2) obtain h' mt' m' es where e: "H' b network' = Some h'" "describeMemo (tx_memo b) = Some (mt', m')" "describe_ops R b 0 (tx_ops b) = Some es"
    "e = \<lparr>td_kind = ''tx'', td_network = network', td_hash = h', td_source = tx_source b, td_sequence = fmt_int (sint (tx_sequence b)),
          td_fee = fmt_int (sint (tx_fee b)), td_min = bound_text (tx_min b), td_max = bound_text (tx_max b),
          td_memo_type = mt', td_memo = m', td_operations = es\<rparr>" by (rule DescribeTx_eq)
  have v: "network = network'" "h = h'" "tx_source a = tx_source b" "sint (tx_sequence a) = sint (tx_sequence b)" "sint (tx_fee a) = sint (tx_fee b)"
    "bound_text (tx_min a) = bound_text (tx_min b)" "bound_text (tx_max a) = bound_text (tx_max b)" "mt = mt'" "m = m'" "map visible ds = map visible es"
    using assms(3) unfolding Canonical_iff d(4) e(4) by (simp_all add: visible_tx_def fmt_int_inj)
  have "map (normal (tx_source a)) (placed a) = map (normal (tx_source b)) (placed b)" if "strkey_laws (rn_strkey R)" "tx_ok a" "tx_ok b"
    using describe_ops_inj [OF that(1) d(3) e(3) v(10)] that(2,3) by (simp add: placed_def tx_ok_def)
  moreover have "tx_memo a = tx_memo b" using memo_inj [OF d(2)] e(2) v(8,9) by simp
  moreover have "length ds = length es" using arg_cong [OF v(10), of length] by simp
  then have "length (tx_ops a) = length (tx_ops b)" using describe_ops_length [OF d(3)] describe_ops_length [OF e(3)] by simp
  ultimately show ?thesis using v(1-7) d(1) e(1) bound_text_inj word_eqD(2) by auto
qed

section \<open>Batches\<close>

text \<open>What one row of a batch says of one operation that is described.\<close>

definition row_of :: "string \<Rightarrow> string \<Rightarrow> OpDescription \<Rightarrow> BatchPayment \<Rightarrow> bool" where
  "row_of src asset op p \<longleftrightarrow> Type op = ''payment'' \<and> Source op = src \<and> Index op = bp_index p \<and> 0 < sint (bp_amount p)
     \<and> (\<exists>amount. paymentFields op = (amount, asset, bp_destination p) \<and> Parse amount = Inr (bp_amount p))"

definition amounts :: "BatchPayment list \<Rightarrow> int" where
  "amounts ps = sum_list (map (\<lambda>p. sint (bp_amount p)) ps)"

lemma positive_sum:
  assumes "0 \<le> sint (a :: int64)" "0 < sint b" "\<not> sint (a + b) < sint a"
  shows "sint (a + b) = sint a + sint b"
proof (cases "sint a + sint b < 2 ^ 63")
  case True
  then show ?thesis using assms(1,2) by (simp add: sint_add64 wrap64_id in_int64_def)
next
  case False
  have "sint a < 2 ^ 63" "sint b < 2 ^ 63" using sint_in_int64 [of a] sint_in_int64 [of b] unfolding in_int64_def by blast+
  then have "wrap64 (sint a + sint b) = sint a + sint b - 2 ^ 64" using False by (intro wrap64_high) simp_all
  then show ?thesis using assms(3) \<open>sint b < 2 ^ 63\<close> by (simp add: sint_add64)
qed

lemma batch_loop_rows:
  assumes "batch_loop src ops out = Inr b" "0 \<le> sint (bd_total out)"
  shows "\<exists>ps. bd_payments b = bd_payments out @ ps \<and> sint (bd_total b) = sint (bd_total out) + amounts ps
    \<and> list_all2 (row_of src (bd_asset b)) ops ps \<and> (bd_asset out \<noteq> [] \<longrightarrow> bd_asset b = bd_asset out)"
  using assms
proof (induction ops arbitrary: out)
  case Nil
  then show ?case by (auto simp: amounts_def)
next
  case (Cons op ops)
  obtain amount asset to where f: "paymentFields op = (amount, asset, to)" by (metis prod_cases3)
  define out1 where "out1 = (if bd_asset out = [] then out\<lparr>bd_asset := asset, bd_code := assetCode asset\<rparr> else out)"
  from Cons.prems(1) f obtain parsed where p: "Type op = ''payment''" "Source op = src" "asset \<noteq> []" "asset = bd_asset out1" "Parse amount = Inr parsed"
    "0 < sint parsed" "\<not> sint (bd_total out1 + parsed) < sint (bd_total out1)"
    "batch_loop src ops (out1\<lparr>bd_total := bd_total out1 + parsed,
       bd_payments := bd_payments out1 @ [\<lparr>bp_index = Index op, bp_amount = parsed, bp_destination = to\<rparr>]\<rparr>) = Inr b"
    unfolding out1_def [symmetric] by (auto simp: Let_def out1_def [symmetric] split: if_splits sum.splits)
  have o1: "bd_total out1 = bd_total out" "bd_payments out1 = bd_payments out" by (simp_all add: out1_def)
  have s: "sint (bd_total out + parsed) = sint (bd_total out) + sint parsed" using positive_sum [OF Cons.prems(2) p(6)] p(7) o1 by simp
  have IH: "\<exists>ps. bd_payments b = (bd_payments out @ [\<lparr>bp_index = Index op, bp_amount = parsed, bp_destination = to\<rparr>]) @ ps
      \<and> sint (bd_total b) = sint (bd_total out + parsed) + amounts ps \<and> list_all2 (row_of src (bd_asset b)) ops ps \<and> bd_asset b = bd_asset out1"
    using Cons.IH [OF p(8)] p(3,4,6) s Cons.prems(2) o1 by simp
  then obtain ps where ps: "bd_payments b = (bd_payments out @ [\<lparr>bp_index = Index op, bp_amount = parsed, bp_destination = to\<rparr>]) @ ps"
    "sint (bd_total b) = sint (bd_total out + parsed) + amounts ps" "list_all2 (row_of src (bd_asset b)) ops ps" "bd_asset b = bd_asset out1" by blast
  have "row_of src (bd_asset b) op \<lparr>bp_index = Index op, bp_amount = parsed, bp_destination = to\<rparr>"
    using p(1,2,4,5,6) f ps(4) by (simp add: row_of_def)
  moreover have "bd_asset out \<noteq> [] \<longrightarrow> bd_asset b = bd_asset out" using ps(4) by (simp add: out1_def)
  moreover have "amounts (\<lparr>bp_index = Index op, bp_amount = parsed, bp_destination = to\<rparr> # ps) = sint parsed + amounts ps" by (simp add: amounts_def)
  ultimately show ?case using ps(1-3) s by (intro exI [of _ "\<lparr>bp_index = Index op, bp_amount = parsed, bp_destination = to\<rparr> # ps"]) simp
qed

lemma described_payment:
  assumes "describeOp R i op src = Some d" "row_of s asset d p"
  shows "normal src op = Payment s (bp_destination p) (String_of (bp_amount p))
      (case op of Payment _ _ _ a \<Rightarrow> a | _ \<Rightarrow> None)" "describeAsset (case op of Payment _ _ _ a \<Rightarrow> a | _ \<Rightarrow> None) = Some asset"
proof -
  from assms(1) obtain t s0 x fs where b: "describe_body R op = Some (t, s0, x, fs)" "d = opDescription i t (effective s0 src) x fs"
    by (auto simp: visible_describeOp)
  have "op_type op = ''payment''" using assms(2) b body_type [OF b(1)] by (simp add: row_of_def opDescription_def)
  then obtain o1 to amount a where o: "op = Payment o1 to amount a" by (cases op) simp_all
  from b(1) o obtain m at1 where m: "normalizeAmount amount = Some m" "describeAsset a = Some at1" "s0 = o1"
    "fs = [Field ''amount'' KindAmount m, Field ''asset'' KindAsset at1, Field ''destination'' KindAddress to]" by (auto simp: bind_eq_Some_conv)
  from m(1) obtain v where v: "m = String_of v" by (auto simp: normalizeAmount_def split: if_splits sum.splits)
  have "paymentFields d = (m, at1, to)" using b(2) m(4) by (simp add: paymentFields_def last_value_def opDescription_def)
  then have "m = String_of (bp_amount p)" "at1 = asset" "to = bp_destination p" "effective o1 src = s"
    using assms(2) v b(2) m(3) by (auto simp: row_of_def Parse_String opDescription_def)
  then show "normal src op = Payment s (bp_destination p) (String_of (bp_amount p)) (case op of Payment _ _ _ a \<Rightarrow> a | _ \<Rightarrow> None)"
    "describeAsset (case op of Payment _ _ _ a \<Rightarrow> a | _ \<Rightarrow> None) = Some asset"
    using o m by (simp_all add: spelled_eq)
qed

lemma described_rows:
  assumes "describe_ops R tx i ops = Some ds" "list_all2 (row_of s asset) ds ps" "describeAsset a = Some asset" "asset_ok a" "list_all op_ok ops"
  shows "map (normal (tx_source tx)) (map (with_footprint (tx_data tx)) ops) =
    map (\<lambda>p. Payment s (bp_destination p) (String_of (bp_amount p)) a) ps"
  using assms
proof (induction ops arbitrary: i ds ps)
  case Nil
  then show ?case by simp
next
  case (Cons op ops)
  from Cons.prems(1) obtain d ds' where d: "describeOp R i (with_footprint (tx_data tx) op) (tx_source tx) = Some d"
    "describe_ops R tx (i + 1) ops = Some ds'" "ds = d # ds'" by (auto split: option.splits)
  with Cons.prems(2) obtain p ps' where p: "ps = p # ps'" "row_of s asset d p" "list_all2 (row_of s asset) ds' ps'" by (auto simp: list_all2_Cons1)
  have w: "with_footprint (tx_data tx) op = op"
  proof (cases op)
    case (RestoreFootprint x y)
    then have "op_type (with_footprint (tx_data tx) op) = ''restore_footprint''" by (cases "tx_data tx"; cases y) simp_all
    then have "Type d = ''restore_footprint''" using d(1) body_type by (fastforce simp: visible_describeOp opDescription_def)
    then show ?thesis using p(2) by (simp add: row_of_def)
  qed simp_all
  note o1 = described_payment [OF d(1) p(2), unfolded w]
  have "(case op of Payment _ _ _ x \<Rightarrow> x | _ \<Rightarrow> None) = a"
    using describeAsset_inj [OF o1(2) Cons.prems(3)] Cons.prems(4,5) by (cases op) (simp_all add: asset_ok_def)
  then show ?case using o1(1) w p(1) Cons.IH [OF d(2) p(3)] Cons.prems by simp
qed

lemma op_ok_placed: "op_ok (with_footprint ext op) \<Longrightarrow> op_ok op"
  by (cases "(ext, op)" rule: with_footprint.cases) auto

lemma described_asset:
  assumes "describe_ops R tx i (op # ops) = Some ds" "list_all2 (row_of s asset) ds ps" "list_all op_ok (placed tx)" "tx_ops tx = op # ops"
  obtains a where "describeAsset a = Some asset" "asset_ok a"
proof -
  from assms(1) obtain d ds' where d: "describeOp R i (with_footprint (tx_data tx) op) (tx_source tx) = Some d" "ds = d # ds'" by (auto split: option.splits)
  with assms(2) obtain p where p: "row_of s asset d p" by (auto simp: list_all2_Cons1)
  let ?a = "case with_footprint (tx_data tx) op of Payment _ _ _ x \<Rightarrow> x | _ \<Rightarrow> None"
  have "asset_ok ?a" using assms(3,4) by (cases "with_footprint (tx_data tx) op") (simp_all add: placed_def asset_ok_def)
  then show ?thesis using described_payment(2) [OF d(1) p] that by blast
qed

text \<open>
  The rows and the total of a batch screen are the envelope.  When a description passes as a batch, the transaction holds
  nothing but payments of one asset from its own source account, one for each row, in order, of the row's amount to the row's
  destination; every amount is positive; and the total is their exact sum.
\<close>

theorem batch_is_envelope:
  assumes "DescribeTx R network H (Some tx) = Some d" "AsBatch d = Inr b" "tx_ok tx"
  shows "\<exists>a. map (normal (tx_source tx)) (placed tx) = map (\<lambda>p. Payment (tx_source tx) (bp_destination p) (String_of (bp_amount p)) a) (bd_payments b)
    \<and> bd_payments b \<noteq> [] \<and> (\<forall>p \<in> set (bd_payments b). 0 < sint (bp_amount p))
    \<and> sint (bd_total b) = sum_list (map (\<lambda>p. sint (bp_amount p)) (bd_payments b))"
proof -
  from assms(1) obtain ds where d: "tx_ops tx \<noteq> []" "describe_ops R tx 0 (tx_ops tx) = Some ds" "td_source d = tx_source tx" "td_operations d = ds"
    by (rule DescribeTx_eq) simp
  from assms(2) have "batch_loop (tx_source tx) ds
      \<lparr>bd_description = d, bd_payments = [], bd_total = 0, bd_asset = [], bd_code = [], bd_source = tx_source tx\<rparr> = Inr b"
    using d by (simp add: AsBatch_def split: if_splits)
  from batch_loop_rows [OF this] have r: "list_all2 (row_of (tx_source tx) (bd_asset b)) ds (bd_payments b)" "sint (bd_total b) = amounts (bd_payments b)"
    by auto
  from d(1) obtain op ops where ops: "tx_ops tx = op # ops" by (cases "tx_ops tx") auto
  obtain a where a: "describeAsset a = Some (bd_asset b)" "asset_ok a"
    using described_asset [OF d(2) [unfolded ops] r(1) assms(3) [unfolded tx_ok_def] ops] by blast
  have "list_all op_ok (tx_ops tx)" using assms(3) op_ok_placed by (auto simp: tx_ok_def placed_def list_all_iff)
  then have m: "map (normal (tx_source tx)) (placed tx) =
      map (\<lambda>p. Payment (tx_source tx) (bp_destination p) (String_of (bp_amount p)) a) (bd_payments b)"
    using described_rows [OF d(2) r(1) a] by (simp add: placed_def)
  moreover have "bd_payments b \<noteq> []" using arg_cong [OF m, of length] ops by (auto simp: placed_def)
  moreover have "\<forall>p \<in> set (bd_payments b). 0 < sint (bp_amount p)"
    using r(1) by (auto simp: row_of_def list_all2_conv_all_nth in_set_conv_nth)
  ultimately show ?thesis using r(2) unfolding amounts_def by blast
qed

text \<open>
  The same for the one payment a screen shows.  The asset shown is the asset of the envelope as far as text goes: the code of a
  credit is shown up to its first colon, and a code of the network has none.
\<close>

lemma payment_is_envelope:
  assumes "DescribeTx R network H (Some tx) = Some d" "SinglePayment d = Some p"
  shows "\<exists>a. map (normal (tx_source tx)) (placed tx) = [Payment (pd_from p) (pd_to p) (String_of (pd_amount p)) (Some a)]
    \<and> (if pd_native p then a = Native \<and> pd_code p = ''XLM''
        else \<exists>c i. a = Credit c i \<and> (CHR '':'' \<notin> set c \<longrightarrow> c = pd_code p \<and> i = pd_issuer p))
    \<and> 0 < sint (pd_amount p) \<and> H tx network = Some (pd_hash p)"
proof -
  from assms(1) obtain h ds where d: "H tx network = Some h" "describe_ops R tx 0 (tx_ops tx) = Some ds" "td_operations d = ds" "td_hash d = h"
    by (rule DescribeTx_eq) simp
  from assms(2) d(3) obtain e amount asset to v where e: "ds = [e]" "Type e = ''payment''" "paymentFields e = (amount, asset, to)"
    "Parse amount = Inr v" "0 < sint v" "pd_from p = Source e" "pd_to p = to" "pd_amount p = v" "pd_hash p = h"
    "if pd_native p then asset = ''native'' \<and> pd_code p = ''XLM'' else asset \<noteq> ''native'' \<and> cut_byte (CHR '':'') asset = (pd_code p, pd_issuer p, True)"
    by (auto simp: SinglePayment_def Let_def d(4) split: list.splits prod.splits sum.splits if_splits)
  from d(2) e(1) obtain op where op: "tx_ops tx = [op]" "describeOp R 0 (with_footprint (tx_data tx) op) (tx_source tx) = Some e"
    by (cases "tx_ops tx"; cases "tl (tx_ops tx)") (auto split: option.splits)
  have "row_of (Source e) asset e \<lparr>bp_index = Index e, bp_amount = v, bp_destination = to\<rparr>" using e by (simp add: row_of_def)
  note o1 = described_payment [OF op(2) this]
  let ?a = "case with_footprint (tx_data tx) op of Payment _ _ _ x \<Rightarrow> x | _ \<Rightarrow> None"
  have m: "map (normal (tx_source tx)) (placed tx) = [Payment (pd_from p) (pd_to p) (String_of (pd_amount p)) ?a]"
    using o1(1) op(1) e by (simp add: placed_def)
  have "\<exists>a. ?a = Some a \<and> (if pd_native p then a = Native \<and> pd_code p = ''XLM''
        else \<exists>c i. a = Credit c i \<and> (CHR '':'' \<notin> set c \<longrightarrow> c = pd_code p \<and> i = pd_issuer p))"
    using o1(2)
  proof (cases rule: describeAsset_cases)
    case 1
    then show ?thesis using e(10) by (auto split: if_splits)
  next
    case (2 c i)
    have "CHR '':'' \<in> set asset" using 2 by simp
    then have "\<not> pd_native p" using e(10) by auto
    moreover have "CHR '':'' \<notin> set c \<Longrightarrow> cut_byte (CHR '':'') asset = (c, i, True)" using 2 by (simp add: cut_byte_found)
    ultimately show ?thesis using 2(1) e(10) by auto
  qed
  then show ?thesis using m e(5,8,9) d(1) by auto
qed

section \<open>Examples\<close>

definition demo_renderer :: renderer where
  "demo_renderer = \<lparr>rn_strkey = demo_strkeys, rn_quote = (\<lambda>s. s)\<rparr>"

definition demo_envelope :: "string \<Rightarrow> transaction" where
  "demo_envelope src = \<lparr>tx_source = ''GT'', tx_sequence = 7, tx_fee = 100, tx_min = 0, tx_max = 90, tx_memo = NoMemo,
     tx_ops = [Payment src ''GA'' (String_of 5) (Some Native), Payment ''GT'' ''GB'' (String_of 2) (Some Native)], tx_data = None\<rparr>"

definition demo_payment :: "int \<Rightarrow> string \<Rightarrow> stroops \<Rightarrow> OpDescription" where
  "demo_payment i to v = opDescription i ''payment'' ''GT'' (''Send '' @ String_of v @ '' XLM to '' @ to)
     [Field ''amount'' KindAmount (String_of v), Field ''asset'' KindAsset ''native'', Field ''destination'' KindAddress to]"

definition demo_description :: TxDescription where
  "demo_description = \<lparr>td_kind = ''tx'', td_network = ''test'', td_hash = ''h'', td_source = ''GT'', td_sequence = fmt_int 7, td_fee = fmt_int 100,
     td_min = [], td_max = fmt_int 90, td_memo_type = ''none'', td_memo = [], td_operations = [demo_payment 0 ''GA'' 5, demo_payment 1 ''GB'' 2]\<rparr>"

lemma normalize_String: "normalizeAmount (String_of v) = Some (String_of v)"
proof -
  have "Parse [] \<noteq> Inr v" by (simp add: Parse_def)
  then have "String_of v \<noteq> []" using Parse_String by metis
  then show ?thesis by (simp add: normalizeAmount_def Parse_String)
qed

lemma demo_described: "src \<in> {[], ''GT''} \<Longrightarrow> DescribeTx demo_renderer ''test'' (\<lambda>tx n. Some ''h'') (Some (demo_envelope src)) = Some demo_description"
  by (auto simp: demo_description_def DescribeTx_def demo_envelope_def describeMemo_def describeOp_def normalize_String describeAsset_def demo_payment_def
      effective_def assetCode_def bound_text_def)

lemma demo_envelope_ok: "tx_ok (demo_envelope src)"
  by (simp add: tx_ok_def placed_def demo_envelope_def asset_ok_def)

theorem Canonical_determines_witness:
  "demo_envelope [] \<noteq> demo_envelope ''GT'' \<and> tx_source (demo_envelope []) = tx_source (demo_envelope ''GT'')
   \<and> map (normal ''GT'') (placed (demo_envelope [])) = map (normal ''GT'') (placed (demo_envelope ''GT''))"
proof -
  have "strkey_laws (rn_strkey demo_renderer)" by (simp add: demo_renderer_def demo_strkeys_laws)
  with Canonical_determines [OF demo_described [of "[]"] demo_described [of "''GT''"] refl] demo_envelope_ok
  have "map (normal (tx_source (demo_envelope []))) (placed (demo_envelope [])) = map (normal (tx_source (demo_envelope ''GT''))) (placed (demo_envelope ''GT''))"
    by blast
  moreover have "tx_source (demo_envelope s) = ''GT''" for s by (simp add: demo_envelope_def)
  moreover have "demo_envelope [] \<noteq> demo_envelope ''GT''" by (simp add: demo_envelope_def)
  ultimately show ?thesis by simp
qed

theorem batch_is_envelope_witness:
  "\<exists>b. AsBatch demo_description = Inr b \<and> length (bd_payments b) = 2 \<and> sint (bd_total b) = sum_list (map (\<lambda>p. sint (bp_amount p)) (bd_payments b))"
proof -
  have "\<exists>b. AsBatch demo_description = Inr b \<and> length (bd_payments b) = 2"
    by (simp add: AsBatch_def demo_description_def demo_payment_def opDescription_def paymentFields_def last_value_def Parse_String Let_def)
  then obtain b where b: "AsBatch demo_description = Inr b" "length (bd_payments b) = 2" by blast
  with batch_is_envelope [OF demo_described [of "[]"] b(1) demo_envelope_ok] show ?thesis by blast
qed

end
