(* ===== verification/Payroll.thy ===== *)
theory Payroll
  imports Describe_Claims Proposal_Service Connector_Amount Intent_Verify "HOL-Library.AList"
begin

text \<open>
  \<^verbatim>\<open>settlement/ops_payroll.go\<close> and \<^verbatim>\<open>api/batch.go\<close>: a table of cells read as payments, all of them or none, and put to a
  treasury's signers as one proposal.  Cells are texts (\<^verbatim>\<open>Untrusted\<close> is a wrapper without content).  Which keys are valid
  and what \<^verbatim>\<open>lower\<close> computes in the database are arguments, and so is how the SDK builds an envelope from operations and
  gives its parts back (\<open>batch_sdk\<close>).  Lines are sorted stably; Go's sort may order two with the same number either way.
\<close>

section \<open>Operations that pay several people\<close>

definition PayrollChunkSize :: nat where "PayrollChunkSize = 95"

record PayrollLine =
  pl_to :: string
  pl_asset :: "asset option"
  pl_amount :: stroops

datatype payroll_error = BadSender | NoLines | TooManyLines nat | BadLineAddress nat | LineNotPositive nat | LineNoAsset nat

fun payroll_ops :: "(string \<Rightarrow> bool) \<Rightarrow> string \<Rightarrow> nat \<Rightarrow> PayrollLine list \<Rightarrow> (payroll_error, Describe.operation list) result" where
  "payroll_ops valid from i [] = Inr []"
| "payroll_ops valid from i (l # ls) =
     (if \<not> valid (pl_to l) then Inl (BadLineAddress (i + 1))
      else if sint (pl_amount l) \<le> 0 then Inl (LineNotPositive (i + 1))
      else if pl_asset l = None then Inl (LineNoAsset (i + 1))
      else case payroll_ops valid from (i + 1) ls of
             Inl e \<Rightarrow> Inl e
           | Inr ops \<Rightarrow> Inr (Payment from (pl_to l) (String_of (pl_amount l)) (pl_asset l) # ops))"

definition Payroll :: "(string \<Rightarrow> bool) \<Rightarrow> string \<Rightarrow> PayrollLine list \<Rightarrow> (payroll_error, Describe.operation list) result" where
  "Payroll valid from lines =
     (if \<not> valid from then Inl BadSender
      else if lines = [] then Inl NoLines
      else if length lines > PayrollChunkSize then Inl (TooManyLines (length lines))
      else payroll_ops valid from 0 lines)"

function split_from :: "nat \<Rightarrow> PayrollLine list \<Rightarrow> PayrollLine list list" where
  "split_from n lines = (if lines = [] \<or> n = 0 then [] else take n lines # split_from n (drop n lines))"
  by pat_completeness auto
termination
  by (relation "measure (\<lambda>(n, ls). length ls)") auto

declare split_from.simps [simp del]

definition SplitPayroll :: "PayrollLine list \<Rightarrow> int \<Rightarrow> PayrollLine list list" where
  "SplitPayroll lines perTx =
     (let n = (if perTx \<le> 0 \<or> perTx > int PayrollChunkSize then PayrollChunkSize else nat perTx)
      in split_from n lines)"

text \<open>The running totals by asset, in the order the assets first appear.\<close>

datatype total_error = TotalIndescribable nat | TotalMoney string money_error

fun total_lines :: "nat \<Rightarrow> PayrollLine list \<Rightarrow> (string \<times> stroops) list \<Rightarrow> (total_error, (string \<times> stroops) list) result" where
  "total_lines i [] totals = Inr totals"
| "total_lines i (l # ls) totals =
     (case describeAsset (pl_asset l) of
        None \<Rightarrow> Inl (TotalIndescribable (i + 1))
      | Some key \<Rightarrow>
          (case Add (case map_of totals key of None \<Rightarrow> 0 | Some s \<Rightarrow> s) (pl_amount l) of
             Inl e \<Rightarrow> Inl (TotalMoney key e)
           | Inr s \<Rightarrow> total_lines (i + 1) ls (AList.update key s totals)))"

definition TotalPayroll :: "PayrollLine list \<Rightarrow> (total_error, (string \<times> stroops) list) result" where
  "TotalPayroll lines = total_lines 0 lines []"

section \<open>A draft of cells\<close>

record cell_row =
  cl_line :: int
  cl_amount :: string
  cl_destination :: string
  cl_memo :: string

record cell_draft =
  cd_rows :: "cell_row list"
  cd_truncated :: bool

definition MaxBatchRows :: nat where "MaxBatchRows = 90"

record BatchRow =
  br_line :: int
  br_amount :: stroops
  br_destination :: string
  br_label :: string
  br_memo :: string
  br_said_amount :: string
  br_said_destination :: string

record Batch =
  ba_rows :: "BatchRow list"
  ba_total :: stroops
  ba_truncated :: bool

datatype row_error = RowCell cell_error | RowMoney money_error | RowNoDestination | RowChecksum | RowNotSaved | RowMemoTooLong nat

datatype batch_failure =
    OnService svc_error | ErrBatchEmpty | ErrBatchTooLarge nat | BatchError "(int \<times> row_error) list" | TotalTooLarge | TotalNotPositive
  | OnPayroll payroll_error | NotShownAsBatch | TotalsDiffer

record book =
  bk_valid :: "string \<Rightarrow> bool"
  bk_storable :: "string \<Rightarrow> bool"
  bk_lower :: "string \<Rightarrow> string"
  bk_rows :: "beneficiary list"

definition resolveDestination :: "book \<Rightarrow> Scope \<Rightarrow> string \<Rightarrow> (row_error, string \<times> string) result" where
  "resolveDestination bk scope text1 =
     (let trimmed = TrimSpace text1
      in if trimmed = [] then Inl RowNoDestination
         else if bk_valid bk trimmed then Inr (trimmed, trimmed)
         else if has_prefix trimmed ''G'' then Inl RowChecksum
         else if \<not> bk_storable bk trimmed then Inl RowNotSaved
         else case find (\<lambda>b. b_org b = sp_org scope \<and> b_owner b = sp_owner scope \<and> bk_lower bk (b_label b) = bk_lower bk trimmed) (bk_rows bk) of
                None \<Rightarrow> Inl RowNotSaved
              | Some b \<Rightarrow> Inr (b_address b, b_label b))"

definition resolveRow :: "book \<Rightarrow> Scope \<Rightarrow> cell_row \<Rightarrow> (row_error, BatchRow) result" where
  "resolveRow bk scope row =
     (case NormalizeTabularAmount (cl_amount row) of
        Inl e \<Rightarrow> Inl (RowCell e)
      | Inr text1 \<Rightarrow>
     (case Parse text1 of
        Inl e \<Rightarrow> Inl (RowMoney e)
      | Inr amount \<Rightarrow>
     (case resolveDestination bk scope (cl_destination row) of
        Inl e \<Rightarrow> Inl e
      | Inr (destination, label) \<Rightarrow>
          let memo = TrimSpace (cl_memo row)
          in if length (runes_of memo) > 28 then Inl (RowMemoTooLong (length (runes_of memo)))
             else Inr \<lparr>br_line = cl_line row, br_amount = amount, br_destination = destination, br_label = label, br_memo = memo,
                       br_said_amount = cl_amount row, br_said_destination = cl_destination row\<rparr>)))"

text \<open>Every row is tried: the rows that resolve, and the ones that do not with why.\<close>

fun resolve_rows :: "book \<Rightarrow> Scope \<Rightarrow> cell_row list \<Rightarrow> BatchRow list \<times> (int \<times> row_error) list" where
  "resolve_rows bk scope [] = ([], [])"
| "resolve_rows bk scope (r # rs) =
     (case resolve_rows bk scope rs of
        (good, bad) \<Rightarrow>
          (case resolveRow bk scope r of
             Inl e \<Rightarrow> (good, (cl_line r, e) # bad)
           | Inr b \<Rightarrow> (b # good, bad)))"

fun sum_rows :: "stroops \<Rightarrow> BatchRow list \<Rightarrow> stroops option" where
  "sum_rows total1 [] = Some total1"
| "sum_rows total1 (r # rs) =
     (let next1 = total1 + br_amount r
      in if sint next1 < sint total1 then None else sum_rows next1 rs)"

definition ResolveBatch :: "book \<Rightarrow> Scope \<Rightarrow> cell_draft \<Rightarrow> (batch_failure, Batch) result" where
  "ResolveBatch bk scope draft =
     (case scope_check scope of
        Some e \<Rightarrow> Inl (OnService e)
      | None \<Rightarrow>
          if cd_rows draft = [] then Inl ErrBatchEmpty
          else if length (cd_rows draft) > MaxBatchRows then Inl (ErrBatchTooLarge (length (cd_rows draft)))
          else case resolve_rows bk scope (cd_rows draft) of
            (good, bad) \<Rightarrow>
              if bad \<noteq> [] then Inl (BatchError (sort_key fst bad))
              else (case sum_rows 0 good of
                      None \<Rightarrow> Inl TotalTooLarge
                    | Some t \<Rightarrow> if sint t \<le> 0 then Inl TotalNotPositive
                                else Inr \<lparr>ba_rows = good, ba_total = t, ba_truncated = cd_truncated draft\<rparr>))"

section \<open>Proposing a batch\<close>

record 'tx batch_sdk =
  BuildOps :: "address \<Rightarrow> Describe.operation list \<Rightarrow> string option \<Rightarrow> int \<Rightarrow> 'tx option"
  Parsed :: "'tx \<Rightarrow> transaction"
  bs_renderer :: renderer
  bs_valid :: "string \<Rightarrow> bool"

definition cfg_asset :: "rails_config \<Rightarrow> asset option" where
  "cfg_asset cfg = Some (case CreditAsset cfg of None \<Rightarrow> Native | Some (code, issuer) \<Rightarrow> Credit code issuer)"

fun preflight_rows :: "'tx world \<Rightarrow> BatchRow list \<Rightarrow> rails_error option" where
  "preflight_rows w [] = None"
| "preflight_rows w (r # rs) =
     (case preflight (w_cfg w) (w_balances w) (br_destination r) (br_amount r) of
        Some e \<Rightarrow> Some e
      | None \<Rightarrow> preflight_rows w rs)"

definition DescribeBatch :: "'tx batch_sdk \<Rightarrow> 'tx world \<Rightarrow> 'tx \<Rightarrow> BatchDescription option" where
  "DescribeBatch sdk w tx =
     (case Describe.DescribeTx (bs_renderer sdk) (w_network w) (\<lambda>t n. HashHex w tx n) (Some (Parsed sdk tx)) of
        None \<Rightarrow> None
      | Some d \<Rightarrow> (case AsBatch d of Inl e \<Rightarrow> None | Inr b \<Rightarrow> Some b))"

text \<open>From the envelope on: describe it as a batch, compare the totals, store it.\<close>

definition openBatch ::
  "'tx batch_sdk \<Rightarrow> 'tx world \<Rightarrow> Scope \<Rightarrow> Batch \<Rightarrow> Treasury \<Rightarrow> MemberID \<Rightarrow> 'tx \<Rightarrow> 'tx svc \<Rightarrow> (batch_failure, ProposalView) result \<times> 'tx svc" where
  "openBatch sdk w scope batch t by_member tx st =
     (case DescribeBatch sdk w tx of
        None \<Rightarrow> (Inl NotShownAsBatch, st)
      | Some described \<Rightarrow>
          if bd_total described \<noteq> ba_total batch then (Inl TotalsDiffer, st)
          else
            let canonical = Canonical (bd_description described)
            in (case HashHex w tx (w_network w) of
                  None \<Rightarrow> (Inl (OnService CannotHash), st)
                | Some hash \<Rightarrow>
                    (case Base64 w tx of
                       None \<Rightarrow> (Inl (OnService CannotEncode), st)
                     | Some env \<Rightarrow>
                         (case CreateProposal (w_pf w) (w_dbnow w)
                            \<lparr>cp_org = sp_org scope, cp_treasury = tr_id t, cp_kind = ''payroll'', cp_xdr = env, cp_hash = hash,
                             cp_seq = SequenceNumber w tx, cp_description = canonical,
                             cp_digest = sha256 (w_pf w) canonical, cp_amount = ba_total batch, cp_created_by = by_member,
                             cp_expires_at = MaxTime w tx * 10 ^ 9\<rparr> (sv_db st) of
                            (Inl e, db) \<Rightarrow> (Inl (OnService (OnStore e)), st\<lparr>sv_db := db\<rparr>)
                          | (Inr p, db) \<Rightarrow>
                              ((case viewOf w (st\<lparr>sv_db := db\<rparr>) scope p t tx canonical of Inl e \<Rightarrow> Inl (OnService e) | Inr v \<Rightarrow> Inr v),
                               st\<lparr>sv_db := db\<rparr>)))))"

definition proposeBatch ::
  "'tx batch_sdk \<Rightarrow> 'tx world \<Rightarrow> Scope \<Rightarrow> Batch \<Rightarrow> TreasuryID \<Rightarrow> string \<Rightarrow> MemberID \<Rightarrow> 'tx svc
   \<Rightarrow> (batch_failure, ProposalView) result \<times> 'tx svc" where
  "proposeBatch sdk w scope batch treasury memo by_member st =
     (case writable (w_cfg w) (w_stat w) of
        Some e \<Rightarrow> (Inl (OnService (OnRails e)), st)
      | None \<Rightarrow>
     (case checkSpend (w_cfg w) (sv_policies st) (sv_db st) (w_now w) (sp_org scope) (ba_total batch) of
        Some e \<Rightarrow> (Inl (OnService (OnRails e)), st)
      | None \<Rightarrow>
     (case preflight_rows w (ba_rows batch) of
        Some e \<Rightarrow> (Inl (OnService (OnRails e)), st)
      | None \<Rightarrow>
     (case sv_ttl st (sp_org scope) of
        None \<Rightarrow> (Inl (OnService NoOrg), st)
      | Some ttl \<Rightarrow>
     (case find_treasury st (sp_org scope) treasury of
        None \<Rightarrow> (Inl (OnService ErrNoTreasury), st)
      | Some t \<Rightarrow>
          if tr_kind t \<noteq> TreasuryClassic then (Inl (OnService NotClassic), st)
          else (case Payroll (bs_valid sdk) (tr_address t)
                       (map (\<lambda>r. \<lparr>pl_to = br_destination r, pl_asset = cfg_asset (w_cfg w), pl_amount = br_amount r\<rparr>) (ba_rows batch)) of
                  Inl e \<Rightarrow> (Inl (OnPayroll e), st)
                | Inr ops \<Rightarrow>
                    (case BuildOps sdk (tr_address t) ops (memoOf memo) ttl of
                       None \<Rightarrow> (Inl (OnService BuildFailed), st)
                     | Some tx \<Rightarrow> openBatch sdk w scope batch t by_member tx st)))))))"

record ProposeBatchParams =
  pb_treasury :: TreasuryID
  pb_draft :: cell_draft
  pb_memo :: string
  pb_created_by :: MemberID

definition ProposeBatch ::
  "book \<Rightarrow> 'tx batch_sdk \<Rightarrow> 'tx world \<Rightarrow> Scope \<Rightarrow> ProposeBatchParams \<Rightarrow> 'tx svc \<Rightarrow> (batch_failure, ProposalView) result \<times> 'tx svc" where
  "ProposeBatch bk sdk w scope p st =
     (case scope_check scope of
        Some e \<Rightarrow> (Inl (OnService e), st)
      | None \<Rightarrow>
          (case ResolveBatch bk scope (pb_draft p) of
             Inl e \<Rightarrow> (Inl e, st)
           | Inr batch \<Rightarrow> proposeBatch sdk w scope batch (pb_treasury p) (pb_memo p) (pb_created_by p) st))"

end
