(* ===== verification/Drafts.thy ===== *)
theory Drafts
  imports Payroll Connector
begin

text \<open>
  The drafts of \<^verbatim>\<open>ledger/store/connector.go\<close> and of \<^verbatim>\<open>api/connectors.go\<close>: a table a connector returned read as a payroll,
  the payroll kept as a draft, and a draft a person reviewed put to the signers.  What the guarded read returned is an argument
  of \<open>DraftPayroll\<close>.  The rows of a draft are stored as JSON: its encoder writes each byte that is not valid UTF-8 as U+FFFD,
  and the database takes no text with a zero byte.
\<close>

section \<open>The table\<close>

type_synonym DraftID = int64

record DraftRow =
  dw_line :: int
  dw_amount :: string
  dw_destination :: string
  dw_label :: string
  dw_memo :: string
  dw_said_amount :: string
  dw_said_destination :: string

record Draft =
  df_id :: DraftID
  df_org :: OrgID
  df_connector :: int64
  df_selector :: string
  df_memo :: string
  df_rows :: "DraftRow list"
  df_total :: stroops
  df_status :: string
  df_proposal :: ProposalID
  df_created_by :: MemberID
  df_agent :: int64
  df_agent_label :: string
  df_created_at :: int

text \<open>\<open>fk_connectors\<close> and the like are the rows the foreign keys look up; a token also has the label that is shown with a draft.\<close>

record draft_db =
  draft_rows :: "Draft list"
  draft_seq :: DraftID
  fk_orgs :: "OrgID list"
  fk_connectors :: "(int64 \<times> OrgID) list"
  fk_members :: "(MemberID \<times> OrgID) list"
  fk_tokens :: "(int64 \<times> OrgID \<times> string) list"
  fk_proposals :: "ProposalID list"

datatype draft_error =
    DraftEmpty | OneAuthor | DraftDb db_error | ErrNoDraft | NamesProposal | DoesNotClose
  | OnBatch batch_failure | ErrMemoTooLong nat | ErrNotTabular | NotRead | DraftUnreadable int | DraftTotal
  | NoToken | AgentMemo nat | AgentAddress nat

definition json_text :: "string \<Rightarrow> string" where
  "json_text s = string_of_runes (runes_of s)"

definition json_row :: "DraftRow \<Rightarrow> DraftRow" where
  "json_row r = \<lparr>dw_line = dw_line r, dw_amount = json_text (dw_amount r), dw_destination = json_text (dw_destination r),
     dw_label = json_text (dw_label r), dw_memo = json_text (dw_memo r), dw_said_amount = json_text (dw_said_amount r),
     dw_said_destination = json_text (dw_said_destination r)\<rparr>"

definition no_zero :: "DraftRow \<Rightarrow> bool" where
  "no_zero r \<longleftrightarrow> list_all (\<lambda>s. chr 0 \<notin> set s)
     [dw_amount r, dw_destination r, dw_label r, dw_memo r, dw_said_amount r, dw_said_destination r]"

definition draft_keys :: "draft_db \<Rightarrow> Draft \<Rightarrow> bool" where
  "draft_keys db d \<longleftrightarrow> df_org d \<in> set (fk_orgs db)
     \<and> (df_connector d \<noteq> 0 \<longrightarrow> (df_connector d, df_org d) \<in> set (fk_connectors db))
     \<and> (df_created_by d \<noteq> 0 \<longrightarrow> (df_created_by d, df_org d) \<in> set (fk_members db))
     \<and> (df_agent d \<noteq> 0 \<longrightarrow> df_agent d \<in> fst ` set (fk_tokens db))"

definition SaveDraft :: "platform \<Rightarrow> int \<Rightarrow> Draft \<Rightarrow> draft_db \<Rightarrow> (draft_error, Draft) result \<times> draft_db" where
  "SaveDraft pf now d db =
     (if df_rows d = [] \<or> sint (df_total d) \<le> 0 then (Inl DraftEmpty, db)
      else if (df_created_by d = 0) = (df_agent d = 0) then (Inl OneAuthor, db)
      else if \<not> text_ok pf (df_selector d) \<or> \<not> text_ok pf (df_memo d) \<or> \<not> list_all no_zero (df_rows d) then (Inl (DraftDb NotStorable), db)
      else case next_id (draft_seq db) of
          None \<Rightarrow> (Inl (DraftDb SequenceExhausted), db)
        | Some i \<Rightarrow>
            let drawn = db\<lparr>draft_seq := i\<rparr>;
                saved = d\<lparr>df_id := i, df_status := ''open'', df_created_at := now\<rparr>
            in if (df_agent d = 0) \<noteq> (df_connector d \<noteq> 0) then (Inl (DraftDb CheckViolation), drawn)
               else if \<not> draft_keys db d then (Inl (DraftDb ForeignKeyViolation), drawn)
               else (Inr saved, drawn\<lparr>draft_rows := draft_rows db @ [saved\<lparr>df_rows := map json_row (df_rows d), df_proposal := 0, df_agent_label := []\<rparr>]\<rparr>))"

definition scanDraft :: "draft_db \<Rightarrow> Draft \<Rightarrow> Draft" where
  "scanDraft db d = d\<lparr>df_agent_label :=
     (case find (\<lambda>(t, org, label). t = df_agent d \<and> org = df_org d) (fk_tokens db) of None \<Rightarrow> [] | Some (t, org, label) \<Rightarrow> label)\<rparr>"

definition OpenDraft :: "draft_db \<Rightarrow> OrgID \<Rightarrow> DraftID \<Rightarrow> (draft_error, Draft) result" where
  "OpenDraft db org i =
     (case find (\<lambda>d. df_org d = org \<and> df_id d = i \<and> df_status d = ''open'') (draft_rows db) of
        None \<Rightarrow> Inl ErrNoDraft
      | Some d \<Rightarrow> Inr (scanDraft db d))"

definition Drafts_of :: "draft_db \<Rightarrow> OrgID \<Rightarrow> nat \<Rightarrow> Draft list" where
  "Drafts_of db org limit =
     map (scanDraft db) (take limit (rev (sort_key (\<lambda>d. (df_created_at d, sint (df_id d))) (filter (\<lambda>d. df_org d = org) (draft_rows db)))))"

definition resolved_draft :: "string \<Rightarrow> ProposalID \<Rightarrow> Draft \<Rightarrow> Draft" where
  "resolved_draft status proposal d = d\<lparr>df_status := status, df_proposal := (if status = ''proposed'' then proposal else 0)\<rparr>"

definition ResolveDraft :: "OrgID \<Rightarrow> DraftID \<Rightarrow> string \<Rightarrow> ProposalID \<Rightarrow> draft_db \<Rightarrow> draft_error option \<times> draft_db" where
  "ResolveDraft org i status proposal db =
     (if status \<noteq> ''proposed'' \<and> status \<noteq> ''discarded'' then (Some DoesNotClose, db)
      else if status = ''proposed'' \<and> proposal = 0 then (Some NamesProposal, db)
      else let hit = (\<lambda>d. df_org d = org \<and> df_id d = i \<and> df_status d = ''open'')
           in if \<not> list_ex hit (draft_rows db) then (Some ErrNoDraft, db)
              else if status = ''proposed'' \<and> proposal \<notin> set (fk_proposals db) then (Some (DraftDb ForeignKeyViolation), db)
              else (None, db\<lparr>draft_rows := map (\<lambda>d. if hit d then resolved_draft status proposal d else d) (draft_rows db)\<rparr>))"

section \<open>Reading a table as a payroll\<close>

definition to_names :: "string list" where
  "to_names = [''to'', ''address'', ''destination'', ''recipient'', ''wallet'', ''account'']"

definition amount_names :: "string list" where
  "amount_names = [''amount'', ''pay'', ''payment'', ''total'']"

definition memo_names :: "string list" where
  "memo_names = [''memo'', ''note'', ''notes'', ''reference'', ''for'']"

definition heading :: "unicode_tables \<Rightarrow> string \<Rightarrow> string" where
  "heading U cell = ToLower U (TrimSpace cell)"

definition looksLikeHeader :: "unicode_tables \<Rightarrow> string list \<Rightarrow> string \<Rightarrow> bool" where
  "looksLikeHeader U row asset \<longleftrightarrow>
     2 \<le> length (filter (\<lambda>cell. heading U cell \<in> set to_names \<union> set amount_names \<union> {asset}) row)"

text \<open>The columns found so far, \<open>None\<close> for one that is not there; the first heading of a kind counts.\<close>

fun find_columns ::
  "unicode_tables \<Rightarrow> string \<Rightarrow> nat \<Rightarrow> string list \<Rightarrow> nat option \<times> nat option \<times> nat option \<Rightarrow> nat option \<times> nat option \<times> nat option" where
  "find_columns U asset i [] cols = cols"
| "find_columns U asset i (cell # cells) (to, amount, memo) =
     find_columns U asset (i + 1) cells
       (if heading U cell \<in> set to_names then (if to = None then Some i else to, amount, memo)
        else if heading U cell \<in> set amount_names \<or> heading U cell = asset then (to, if amount = None then Some i else amount, memo)
        else if heading U cell \<in> set memo_names then (to, amount, if memo = None then Some i else memo)
        else (to, amount, memo))"

definition cell_at :: "string list \<Rightarrow> nat option \<Rightarrow> string" where
  "cell_at row i = (case i of None \<Rightarrow> [] | Some n \<Rightarrow> if n < length row then row ! n else [])"

fun read_rows :: "nat option \<times> nat option \<times> nat option \<Rightarrow> int \<Rightarrow> string list list \<Rightarrow> cell_row list" where
  "read_rows cols line [] = []"
| "read_rows (to, amount, memo) line (row # rows) =
     (if TrimSpace (cell_at row to) = [] \<and> TrimSpace (cell_at row amount) = [] then read_rows (to, amount, memo) (line + 1) rows
      else \<lparr>cl_line = line, cl_amount = cell_at row amount, cl_destination = cell_at row to, cl_memo = cell_at row memo\<rparr>
           # read_rows (to, amount, memo) (line + 1) rows)"

definition draftFromRows :: "unicode_tables \<Rightarrow> observation \<Rightarrow> string \<Rightarrow> (draft_error, cell_draft) result" where
  "draftFromRows U seen assetCode1 =
     (let asset = ToLower U (TrimSpace assetCode1);
          headed = (ob_columns seen = [] \<and> ob_rows seen \<noteq> [] \<and> looksLikeHeader U (hd (ob_rows seen)) asset);
          header = (if headed then hd (ob_rows seen) else ob_columns seen);
          rows = (if headed then tl (ob_rows seen) else ob_rows seen);
          cols = (if header \<noteq> [] then find_columns U asset 0 header (None, None, None) else (Some 0, Some 1, Some 2))
      in if header \<noteq> [] \<and> (fst cols = None \<or> fst (snd cols) = None) then Inl ErrNotTabular
         else let out = read_rows cols (if headed then 2 else 1) rows
              in if out = [] then Inl (OnBatch ErrBatchEmpty) else Inr \<lparr>cd_rows = out, cd_truncated = ob_truncated seen\<rparr>)"

definition draft_row :: "BatchRow \<Rightarrow> DraftRow" where
  "draft_row r = \<lparr>dw_line = br_line r, dw_amount = String_of (br_amount r), dw_destination = br_destination r, dw_label = br_label r,
     dw_memo = br_memo r, dw_said_amount = br_said_amount r, dw_said_destination = br_said_destination r\<rparr>"

definition new_draft :: "OrgID \<Rightarrow> int64 \<Rightarrow> string \<Rightarrow> string \<Rightarrow> Batch \<Rightarrow> MemberID \<Rightarrow> int64 \<Rightarrow> (BatchRow \<Rightarrow> DraftRow) \<Rightarrow> Draft" where
  "new_draft org connector1 selector memo batch by_member agent row =
     \<lparr>df_id = 0, df_org = org, df_connector = connector1, df_selector = selector, df_memo = memo, df_rows = map row (ba_rows batch),
      df_total = ba_total batch, df_status = [], df_proposal = 0, df_created_by = by_member, df_agent = agent, df_agent_label = [], df_created_at = 0\<rparr>"

definition DraftPayroll ::
  "unicode_tables \<Rightarrow> book \<Rightarrow> platform \<Rightarrow> int \<Rightarrow> string \<Rightarrow> Scope \<Rightarrow> MemberID \<Rightarrow> (observation \<times> int64) option \<Rightarrow> string \<Rightarrow> string \<Rightarrow> draft_db
   \<Rightarrow> (draft_error, Draft) result \<times> draft_db" where
  "DraftPayroll U bk pf now assetCode1 scope by_member read selector memo db =
     (case read of
        None \<Rightarrow> (Inl NotRead, db)
      | Some (seen, connector1) \<Rightarrow>
          if ob_truncated seen then (Inl (OnBatch (ErrBatchTooLarge (length (ob_rows seen)))), db)
          else (case draftFromRows U seen assetCode1 of
                  Inl e \<Rightarrow> (Inl e, db)
                | Inr draft \<Rightarrow>
                    (case ResolveBatch bk scope draft of
                       Inl e \<Rightarrow> (Inl (OnBatch e), db)
                     | Inr batch \<Rightarrow>
                         if length memo > 28 then (Inl (ErrMemoTooLong (length memo)), db)
                         else SaveDraft pf now (new_draft (sp_org scope) connector1 selector memo batch by_member 0 draft_row) db)))"

section \<open>A draft an agent wrote\<close>

record PaymentLine =
  ln_to :: string
  ln_amount :: string
  ln_memo :: string

fun agent_rows :: "(string \<Rightarrow> bool) \<Rightarrow> nat \<Rightarrow> PaymentLine list \<Rightarrow> (nat, cell_row list) result" where
  "agent_rows valid i [] = Inr []"
| "agent_rows valid i (l # ls) =
     (if \<not> valid (TrimSpace (ln_to l)) then Inl (i + 1)
      else case agent_rows valid (i + 1) ls of
             Inl e \<Rightarrow> Inl e
           | Inr rs \<Rightarrow> Inr (\<lparr>cl_line = int i + 1, cl_amount = ln_amount l, cl_destination = TrimSpace (ln_to l), cl_memo = ln_memo l\<rparr> # rs))"

definition DraftForAgent ::
  "book \<Rightarrow> platform \<Rightarrow> int \<Rightarrow> OrgID \<Rightarrow> int64 \<Rightarrow> PaymentLine list \<Rightarrow> string \<Rightarrow> draft_db \<Rightarrow> (draft_error, DraftID \<times> nat \<times> string) result \<times> draft_db" where
  "DraftForAgent bk pf now org token lines memo db =
     (if sint token \<le> 0 then (Inl NoToken, db)
      else if length memo > 28 then (Inl (AgentMemo (length memo)), db)
      else case agent_rows (bk_valid bk) 0 lines of
          Inl i \<Rightarrow> (Inl (AgentAddress i), db)
        | Inr rows \<Rightarrow>
            (case ResolveBatch bk \<lparr>sp_org = org, sp_owner = ''mcp:'' @ fmt_int (sint token)\<rparr> \<lparr>cd_rows = rows, cd_truncated = False\<rparr> of
               Inl e \<Rightarrow> (Inl (OnBatch e), db)
             | Inr batch \<Rightarrow>
                 (case SaveDraft pf now (new_draft org 0 [] memo batch 0 token (\<lambda>r. (draft_row r)\<lparr>dw_label := []\<rparr>)) db of
                    (Inl e, db1) \<Rightarrow> (Inl e, db1)
                  | (Inr saved, db1) \<Rightarrow> (Inr (df_id saved, length (df_rows saved), String_of (df_total saved)), db1))))"

section \<open>Proposing a draft\<close>

fun batch_rows :: "DraftRow list \<Rightarrow> stroops \<Rightarrow> (int, BatchRow list \<times> stroops) result" where
  "batch_rows [] total1 = Inr ([], total1)"
| "batch_rows (r # rs) total1 =
     (case Parse (dw_amount r) of
        Inl e \<Rightarrow> Inl (dw_line r)
      | Inr amount \<Rightarrow>
          if sint amount \<le> 0 then Inl (dw_line r)
          else case batch_rows rs (total1 + amount) of
                 Inl e \<Rightarrow> Inl e
               | Inr (bs, t) \<Rightarrow>
                   Inr (\<lparr>br_line = dw_line r, br_amount = amount, br_destination = dw_destination r, br_label = dw_label r, br_memo = dw_memo r,
                         br_said_amount = dw_said_amount r, br_said_destination = dw_said_destination r\<rparr> # bs, t))"

definition batchOf :: "Draft \<Rightarrow> (draft_error, Batch) result" where
  "batchOf d =
     (case batch_rows (df_rows d) 0 of
        Inl line \<Rightarrow> Inl (DraftUnreadable line)
      | Inr (rows, t) \<Rightarrow> if t \<noteq> df_total d then Inl DraftTotal else Inr \<lparr>ba_rows = rows, ba_total = t, ba_truncated = False\<rparr>)"

text \<open>The service state and the drafts together; a stored proposal is there for the drafts' foreign key to find.\<close>

definition ProposeDraft ::
  "'tx batch_sdk \<Rightarrow> 'tx world \<Rightarrow> Scope \<Rightarrow> DraftID \<Rightarrow> TreasuryID \<Rightarrow> MemberID \<Rightarrow> 'tx svc \<Rightarrow> draft_db
   \<Rightarrow> (draft_error, ProposalView \<times> draft_error option) result \<times> 'tx svc \<times> draft_db" where
  "ProposeDraft sdk w scope i treasury by_member st db =
     (case scope_check scope of
        Some e \<Rightarrow> (Inl (OnBatch (OnService e)), st, db)
      | None \<Rightarrow>
     (case OpenDraft db (sp_org scope) i of
        Inl e \<Rightarrow> (Inl e, st, db)
      | Inr draft \<Rightarrow>
     (case batchOf draft of
        Inl e \<Rightarrow> (Inl e, st, db)
      | Inr batch \<Rightarrow>
     (case proposeBatch sdk w scope batch treasury (df_memo draft) by_member st of
        (Inl e, st1) \<Rightarrow> (Inl (OnBatch e), st1, db)
      | (Inr view, st1) \<Rightarrow>
          (case ResolveDraft (sp_org scope) i ''proposed'' (pr_id (vw_proposal view)) (db\<lparr>fk_proposals := map pr_id (proposals (sv_db st1))\<rparr>) of
             (e, db1) \<Rightarrow> (Inr (view, e), st1, db1))))))"

end
