(* ===== verification/Payroll_Safety.thy ===== *)
theory Payroll_Safety
  imports Drafts
begin

text \<open>
  What is shown of payrolls: a table is read whole or not at all, a stored draft gives back the reading that was reviewed, and
  the proposal made of it pays exactly its rows.
\<close>

section \<open>Splitting and totals\<close>

lemma split_from_spec:
  "0 < n \<Longrightarrow> concat (split_from n ls) = ls \<and> (\<forall>c \<in> set (split_from n ls). c \<noteq> [] \<and> length c \<le> n)"
proof (induction n ls rule: split_from.induct)
  case (1 n ls)
  then show ?case by (subst (1 2) split_from.simps) auto
qed

lemma SplitPayroll_spec:
  "concat (SplitPayroll lines perTx) = lines \<and> (\<forall>c \<in> set (SplitPayroll lines perTx). c \<noteq> [] \<and> length c \<le> PayrollChunkSize)"
proof -
  let ?n = "if perTx \<le> 0 \<or> perTx > int PayrollChunkSize then PayrollChunkSize else nat perTx"
  have "0 < ?n" "?n \<le> PayrollChunkSize" by (auto simp: PayrollChunkSize_def)
  then show ?thesis using split_from_spec [of ?n lines] unfolding SplitPayroll_def Let_def by (meson le_trans)
qed

section \<open>Resolving\<close>

lemma resolve_rows_eq:
  "resolve_rows bk scope rs =
     (concat (map (\<lambda>r. case resolveRow bk scope r of Inl e \<Rightarrow> [] | Inr b \<Rightarrow> [b]) rs),
      concat (map (\<lambda>r. case resolveRow bk scope r of Inl e \<Rightarrow> [(cl_line r, e)] | Inr b \<Rightarrow> []) rs))"
  by (induction rs) (auto split: sum.splits)

lemma resolved_all:
  "resolve_rows bk scope rs = (good, []) \<longleftrightarrow> list_all2 (\<lambda>r b. resolveRow bk scope r = Inr b) rs good"
proof (induction rs arbitrary: good)
  case (Cons r rs)
  show ?case
  proof (cases "resolveRow bk scope r")
    case (Inl e)
    then show ?thesis by (auto simp: list_all2_Cons1 split: prod.splits)
  next
    case (Inr b)
    then show ?thesis using Cons.IH by (cases "resolve_rows bk scope rs"; cases good) auto
  qed
qed auto

lemma tabular_positive:
  assumes "NormalizeTabularAmount raw = Inr t" "Parse t = Inr v"
  shows "0 < sint v"
proof -
  obtain ip fp where "0 < amount_value False ip fp" "t = amount_text False (canonical_whole ip) fp"
    "Parse t = (if in_int64 (amount_value False ip fp) then Inr (word_of_int (amount_value False ip fp)) else Inl ErrOverflow)"
    using assms(1) tabular_sound [of raw t] Parse_canonical by (metis grouped_def)
  then show ?thesis using assms(2) by (auto simp: sint_word_of_int64 wrap64_id split: if_splits)
qed

lemma resolveRow_positive: "resolveRow bk scope r = Inr b \<Longrightarrow> 0 < sint (br_amount b)"
  using tabular_positive by (auto simp: resolveRow_def Let_def split: sum.splits if_splits prod.splits)

definition row_sum :: "BatchRow list \<Rightarrow> int" where
  "row_sum rs = sum_list (map (\<lambda>r. sint (br_amount r)) rs)"

lemma row_sum_nonneg: "\<forall>r \<in> set rs. 0 < sint (br_amount r) \<Longrightarrow> 0 \<le> row_sum rs"
  by (induction rs) (auto simp: row_sum_def)

lemma sum_rows_exact:
  assumes "\<forall>r \<in> set rs. 0 < sint (br_amount r)" "0 \<le> sint t"
  shows "sum_rows t rs = Some u \<longleftrightarrow> sint u = sint t + row_sum rs"
  using assms
proof (induction rs arbitrary: t)
  case Nil
  then show ?case by (auto simp: row_sum_def dest: word_eqD)
next
  case (Cons r rs)
  let ?a = "br_amount r"
  have pos: "0 < sint ?a" "0 \<le> row_sum rs" "row_sum (r # rs) = sint ?a + row_sum rs" using Cons.prems(1) row_sum_nonneg [of rs] by (auto simp: row_sum_def)
  show ?case
  proof (cases "sint (t + ?a) < sint t")
    case True
    have "sint u \<noteq> sint t + row_sum (r # rs)"
    proof
      assume u: "sint u = sint t + row_sum (r # rs)"
      have "in_int64 (sint t + sint ?a)" using sint_in_int64 [of u] u pos Cons.prems(2) by (simp add: in_int64_def)
      then have "sint (t + ?a) = sint t + sint ?a" by (simp add: sint_add64 wrap64_id)
      then show False using True pos by simp
    qed
    then show ?thesis using True by (simp add: Let_def)
  next
    case False
    then have "sint (t + ?a) = sint t + sint ?a" using positive_sum pos Cons.prems(2) by blast
    then show ?thesis using False Cons.IH [of "t + ?a"] Cons.prems pos by (simp add: Let_def add.assoc)
  qed
qed


lemma resolved_positive:
  assumes "list_all2 (\<lambda>r b. resolveRow bk scope r = Inr b) rs good"
  shows "\<forall>b \<in> set good. 0 < sint (br_amount b)"
  using assms by (induction rs good rule: list_all2_induct) (auto dest: resolveRow_positive)

lemma resolved_sum:
  assumes "list_all2 (\<lambda>r b. resolveRow bk scope r = Inr b) rs good" "rs \<noteq> []"
  shows "sum_rows 0 good = Some t \<longleftrightarrow> sint t = row_sum good" "0 < row_sum good"
proof -
  note pos = resolved_positive [OF assms(1)]
  show "sum_rows 0 good = Some t \<longleftrightarrow> sint t = row_sum good" using sum_rows_exact [OF pos, of 0 t] by simp
  obtain g gs where "good = g # gs" using assms by (cases good) auto
  then show "0 < row_sum good" using pos row_sum_nonneg [of gs] by (auto simp: row_sum_def)
qed

definition row_errors :: "book \<Rightarrow> Scope \<Rightarrow> cell_row list \<Rightarrow> (int \<times> row_error) list" where
  "row_errors bk scope rs = concat (map (\<lambda>r. case resolveRow bk scope r of Inl e \<Rightarrow> [(cl_line r, e)] | Inr b \<Rightarrow> []) rs)"

lemma resolve_rows_errors: "resolve_rows bk scope rs = (good, bad) \<Longrightarrow> bad = row_errors bk scope rs"
  by (simp add: resolve_rows_eq row_errors_def)

lemma ResolveBatch_Inr:
  "ResolveBatch bk scope draft = Inr b \<longleftrightarrow>
     scope_check scope = None \<and> cd_rows draft \<noteq> [] \<and> length (cd_rows draft) \<le> MaxBatchRows
     \<and> list_all2 (\<lambda>r g. resolveRow bk scope r = Inr g) (cd_rows draft) (ba_rows b)
     \<and> sint (ba_total b) = row_sum (ba_rows b) \<and> ba_truncated b = cd_truncated draft"
  (is "?l \<longleftrightarrow> ?r")
proof -
  obtain good bad where rows: "resolve_rows bk scope (cd_rows draft) = (good, bad)" by fastforce
  show ?thesis
  proof
    assume ?l
    then have g: "scope_check scope = None" "cd_rows draft \<noteq> []" "length (cd_rows draft) \<le> MaxBatchRows" "bad = []"
      and t: "sum_rows 0 good = Some (ba_total b)" "ba_rows b = good" "ba_truncated b = cd_truncated draft"
      using rows by (auto simp: ResolveBatch_def split: option.splits if_splits)
    have "list_all2 (\<lambda>r g. resolveRow bk scope r = Inr g) (cd_rows draft) good" using rows g(4) resolved_all by blast
    then show ?r using g t resolved_sum(1) [of bk scope "cd_rows draft" good] by simp
  next
    assume r: ?r
    then have "(good, bad) = (ba_rows b, [])" using rows resolved_all [of bk scope "cd_rows draft" "ba_rows b"] by simp
    moreover have "sum_rows 0 (ba_rows b) = Some (ba_total b)" "0 < sint (ba_total b)"
      using r resolved_sum [of bk scope "cd_rows draft" "ba_rows b"] by simp_all
    ultimately show ?l using r rows by (simp add: ResolveBatch_def)
  qed
qed

text \<open>
  C13: a table is read whole or not at all.  A batch comes out exactly when every row of a table of one to ninety rows resolves
  by itself, its rows are those readings in the table's order, every amount is positive and the total is their exact sum; and the
  refusal of a table names every line that does not resolve with its own reason, and only those, in the order of the lines.
\<close>

theorem ResolveBatch_all_or_nothing:
  "(ResolveBatch bk scope draft = Inr b \<longleftrightarrow>
     scope_check scope = None \<and> cd_rows draft \<noteq> [] \<and> length (cd_rows draft) \<le> MaxBatchRows
     \<and> list_all2 (\<lambda>r g. resolveRow bk scope r = Inr g) (cd_rows draft) (ba_rows b)
     \<and> sint (ba_total b) = row_sum (ba_rows b) \<and> ba_truncated b = cd_truncated draft)
   \<and> (ResolveBatch bk scope draft = Inl (BatchError bad) \<longleftrightarrow>
     scope_check scope = None \<and> length (cd_rows draft) \<le> MaxBatchRows
     \<and> row_errors bk scope (cd_rows draft) \<noteq> [] \<and> bad = sort_key fst (row_errors bk scope (cd_rows draft)))"
proof (rule conjI [OF ResolveBatch_Inr])
  obtain good bad1 where rows: "resolve_rows bk scope (cd_rows draft) = (good, bad1)" by fastforce
  note bad = resolve_rows_errors [OF rows]
  have "row_errors bk scope [] = []" by (simp add: row_errors_def)
  then show "ResolveBatch bk scope draft = Inl (BatchError bad) \<longleftrightarrow>
     scope_check scope = None \<and> length (cd_rows draft) \<le> MaxBatchRows
     \<and> row_errors bk scope (cd_rows draft) \<noteq> [] \<and> bad = sort_key fst (row_errors bk scope (cd_rows draft))"
    using rows unfolding bad [symmetric] by (auto simp: ResolveBatch_def bad split: option.splits if_splits)
qed

section \<open>Drafts\<close>

lemma json_text_valid: "valid_utf8 s \<Longrightarrow> json_text s = s"
  unfolding json_text_def by (rule valid_utf8_runes)

lemma json_text_ascii: "ascii s \<Longrightarrow> json_text s = s"
proof -
  assume a: "ascii s"
  then have "string_of_runes (map byte s) = map chr (map byte s)" by (intro string_of_runes_ascii) (auto simp: ascii_def)
  then show ?thesis using a by (simp add: json_text_def runes_of_ascii comp_def)
qed

lemma String_of_ascii: "ascii (String_of v)"
proof -
  have d: "\<forall>c \<in> set (fmt_nat n). byte c < 128" for n using ascii_digits [OF fmt_nat_digits [of n, unfolded list_all_iff]] by (simp add: ascii_def)
  then show ?thesis by (auto simp: String_of_def ascii_def Let_def pad_zeros_def)
qed

text \<open>The steps of the table of drafts: a draft is stored, a draft is closed, and the tables its keys name change.\<close>

inductive draft_step :: "draft_db \<Rightarrow> draft_db \<Rightarrow> bool" where
  draft_saved: "SaveDraft pf now d db = (r, db') \<Longrightarrow> draft_step db db'"
| draft_resolved: "ResolveDraft org i status proposal db = (e, db') \<Longrightarrow> draft_step db db'"
| draft_keys_change: "draft_step db (db\<lparr>fk_orgs := a, fk_connectors := b, fk_members := c, fk_tokens := t, fk_proposals := p\<rparr>)"

definition draft_init :: draft_db where
  "draft_init = \<lparr>draft_rows = [], draft_seq = 0, fk_orgs = [], fk_connectors = [], fk_members = [], fk_tokens = [], fk_proposals = []\<rparr>"

definition draft_wf :: "draft_db \<Rightarrow> bool" where
  "draft_wf db \<longleftrightarrow> distinct (map df_id (draft_rows db)) \<and> (\<forall>i \<in> set (map df_id (draft_rows db)). sint i \<le> sint (draft_seq db))"

lemma SaveDraft_cases:
  assumes "SaveDraft pf now d db = (r, db')"
  obtains (refused) e where "r = Inl e" "draft_rows db' = draft_rows db" "sint (draft_seq db) \<le> sint (draft_seq db')"
  | (stored) i where "next_id (draft_seq db) = Some i" "r = Inr (d\<lparr>df_id := i, df_status := ''open'', df_created_at := now\<rparr>)"
      "draft_seq db' = i" "draft_rows db' = draft_rows db @
        [d\<lparr>df_id := i, df_status := ''open'', df_created_at := now, df_rows := map json_row (df_rows d), df_proposal := 0, df_agent_label := []\<rparr>]"
proof (cases "next_id (draft_seq db)")
  case None
  then show ?thesis using assms by (intro refused [of "projl r"]) (auto simp: SaveDraft_def split: if_splits)
next
  case (Some i)
  show ?thesis
  proof (cases r)
    case (Inl e)
    then show ?thesis using assms Some next_id_gt [OF Some] by (intro refused [of e]) (auto simp: SaveDraft_def Let_def split: if_splits)
  next
    case (Inr saved)
    then show ?thesis using assms Some by (intro stored [of i]) (simp_all add: SaveDraft_def Let_def split: if_splits, auto)
  qed
qed

text \<open>What a draft says does not change, and a draft that is closed does not change at all.\<close>

definition same_reading :: "Draft \<Rightarrow> Draft \<Rightarrow> bool" where
  "same_reading d e \<longleftrightarrow> df_id e = df_id d \<and> df_org e = df_org d \<and> df_rows e = df_rows d \<and> df_total e = df_total d \<and> df_memo e = df_memo d
     \<and> (df_status d \<noteq> ''open'' \<longrightarrow> e = d)"

definition close_where :: "OrgID \<Rightarrow> DraftID \<Rightarrow> string \<Rightarrow> ProposalID \<Rightarrow> Draft \<Rightarrow> Draft" where
  "close_where org i status proposal d =
     (if df_org d = org \<and> df_id d = i \<and> df_status d = ''open'' then resolved_draft status proposal d else d)"

lemma close_where_reading: "same_reading d (close_where org i status proposal d)"
  by (simp add: same_reading_def close_where_def resolved_draft_def)

lemma ResolveDraft_rows:
  assumes "ResolveDraft org i status proposal db = (e, db')"
  shows "draft_seq db' = draft_seq db \<and> (\<exists>f. draft_rows db' = map f (draft_rows db) \<and> (\<forall>d. same_reading d (f d)))"
proof -
  have "db' = db \<or> db' = db\<lparr>draft_rows := map (close_where org i status proposal) (draft_rows db)\<rparr>"
    using assms unfolding ResolveDraft_def Let_def close_where_def by (simp split: if_splits)
  moreover have "draft_rows db = map (\<lambda>d. d) (draft_rows db)" "same_reading d d" for d by (simp_all add: same_reading_def)
  ultimately show ?thesis using close_where_reading by (metis (no_types, lifting) draft_db.select_convs(1,2) draft_db.surjective draft_db.update_convs(1))
qed

lemma draft_wf_step: "draft_step db db' \<Longrightarrow> draft_wf db \<Longrightarrow> draft_wf db'"
proof (induction rule: draft_step.induct)
  case (draft_saved pf now d db r db')
  from draft_saved(1) show ?case
  proof (cases rule: SaveDraft_cases)
    case (refused e)
    then show ?thesis using draft_saved(2) by (auto simp: draft_wf_def)
  next
    case (stored i)
    then show ?thesis using draft_saved(2) next_id_gt [OF stored(1)] by (fastforce simp: draft_wf_def)
  qed
next
  case (draft_resolved org i status proposal db e db')
  have "map df_id (draft_rows db') = map df_id (draft_rows db) \<and> draft_seq db' = draft_seq db"
    using ResolveDraft_rows [OF draft_resolved(1)] by (auto simp: same_reading_def)
  then show ?case using draft_resolved(2) unfolding draft_wf_def by metis
qed (simp add: draft_wf_def)

lemma draft_step_keeps:
  assumes "draft_step db db'" "d \<in> set (draft_rows db)"
  shows "\<exists>e \<in> set (draft_rows db'). same_reading d e"
  using assms
proof (induction rule: draft_step.induct)
  case (draft_saved pf now d1 db r db')
  from draft_saved(1) show ?case
    by (cases rule: SaveDraft_cases) (use draft_saved(2) in \<open>auto simp: same_reading_def\<close>)
next
  case (draft_resolved org i status proposal db e db')
  from ResolveDraft_rows [OF draft_resolved(1)] show ?case
    using draft_resolved(2) by auto
qed (auto simp: same_reading_def)

lemma draft_steps_keep:
  assumes "draft_step\<^sup>*\<^sup>* db db'" "draft_wf db" "d \<in> set (draft_rows db)"
  shows "draft_wf db' \<and> (\<exists>e \<in> set (draft_rows db'). same_reading d e)"
  using assms
proof (induction rule: rtranclp_induct)
  case (step a b)
  then obtain e where e: "draft_wf a" "e \<in> set (draft_rows a)" "same_reading d e" by blast
  with draft_step_keeps [OF step(2) e(2)] obtain f where f: "f \<in> set (draft_rows b)" "same_reading e f" by blast
  moreover have "same_reading d f" using e(3) f(2) unfolding same_reading_def by metis
  ultimately show ?case using draft_wf_step [OF step(2) e(1)] by blast
qed (auto simp: same_reading_def)

lemma draft_reach_wf: "draft_step\<^sup>*\<^sup>* draft_init db \<Longrightarrow> draft_wf db"
proof (induction rule: rtranclp_induct)
  case base
  show ?case by (simp add: draft_init_def draft_wf_def)
qed (rule draft_wf_step)

lemma OpenDraft_row:
  assumes "draft_wf db" "OpenDraft db org i = Inr d" "e \<in> set (draft_rows db)" "df_id e = i"
  shows "df_rows d = df_rows e \<and> df_total d = df_total e \<and> df_memo d = df_memo e \<and> df_status e = ''open''"
proof -
  from assms(2) obtain f where f: "find (\<lambda>d. df_org d = org \<and> df_id d = i \<and> df_status d = ''open'') (draft_rows db) = Some f" "d = scanDraft db f"
    by (auto simp: OpenDraft_def split: option.splits)
  then have "f \<in> set (draft_rows db)" "df_id f = i" "df_status f = ''open''" by (auto simp: find_Some_iff)
  then have "f = e" using assms(1,3,4) by (auto simp: draft_wf_def distinct_map inj_on_def)
  then show ?thesis using f(2) \<open>df_status f = ''open''\<close> by (simp add: scanDraft_def)
qed

definition texts_valid :: "BatchRow \<Rightarrow> bool" where
  "texts_valid r \<longleftrightarrow> list_all valid_utf8 [br_destination r, br_label r, br_memo r, br_said_amount r, br_said_destination r]"

lemma json_draft_row: "texts_valid r \<Longrightarrow> json_row (draft_row r) = draft_row r"
  by (simp add: json_row_def draft_row_def texts_valid_def json_text_valid json_text_ascii String_of_ascii)

lemma batch_rows_back:
  assumes "\<forall>r \<in> set rs. 0 < sint (br_amount r) \<and> texts_valid r" "sum_rows t rs = Some u"
  shows "batch_rows (map (\<lambda>r. json_row (draft_row r)) rs) t = Inr (rs, u)"
  using assms
proof (induction rs arbitrary: t)
  case (Cons r rs)
  then have "sum_rows (t + br_amount r) rs = Some u" by (auto simp: Let_def split: if_splits)
  then have "batch_rows (map (\<lambda>r. json_row (draft_row r)) rs) (t + br_amount r) = Inr (rs, u)" using Cons by simp
  then show ?case using Cons.prems(1) by (simp add: json_draft_row) (simp add: draft_row_def Parse_String)
qed simp

lemma saved_reading:
  assumes "ResolveBatch bk scope draft = Inr batch" "\<not> cd_truncated draft" "list_all texts_valid (ba_rows batch)"
    "df_rows d = map json_row (map draft_row (ba_rows batch))" "df_total d = ba_total batch"
  shows "batchOf d = Inr batch"
proof -
  from assms(1) have b: "list_all2 (\<lambda>r g. resolveRow bk scope r = Inr g) (cd_rows draft) (ba_rows batch)" "cd_rows draft \<noteq> []"
    "sint (ba_total batch) = row_sum (ba_rows batch)" "\<not> ba_truncated batch" using assms(2) by (simp_all add: ResolveBatch_Inr)
  have "sum_rows 0 (ba_rows batch) = Some (ba_total batch)" using resolved_sum(1) [OF b(1,2)] b(3) by blast
  then have "batch_rows (df_rows d) 0 = Inr (ba_rows batch, ba_total batch)"
    using batch_rows_back resolved_positive [OF b(1)] assms(3,4) by (simp add: list_all_iff comp_def)
  then show ?thesis using assms(5) b(4) by (simp add: batchOf_def)
qed

text \<open>
  The draft that is proposed is the reading that was reviewed.  A payroll read from a table and stored, taken up again after
  anything else happened to the table of drafts, gives back the batch the table resolved to, row by row, with its total, its
  memo and each cell as it was written.
\<close>

theorem draft_round_trip:
  assumes "draft_step\<^sup>*\<^sup>* draft_init db" "draftFromRows U seen asset = Inr draft" "ResolveBatch bk scope draft = Inr batch"
    "DraftPayroll U bk pf now asset scope by_member (Some (seen, c)) selector memo db = (Inr saved, db1)"
    "list_all texts_valid (ba_rows batch)" "draft_step\<^sup>*\<^sup>* db1 db2" "OpenDraft db2 (sp_org scope) (df_id saved) = Inr d"
  shows "batchOf d = Inr batch \<and> df_memo d = memo"
proof -
  let ?n = "new_draft (sp_org scope) c selector memo batch by_member 0 draft_row"
  have s: "SaveDraft pf now ?n db = (Inr saved, db1)" "\<not> ob_truncated seen" using assms(2-4) by (auto simp: DraftPayroll_def split: if_splits)
  have trunc: "\<not> cd_truncated draft" using assms(2) s(2) by (auto simp: draftFromRows_def Let_def split: if_splits)
  from s(1) obtain i where i: "df_id saved = i" "?n\<lparr>df_id := i, df_status := ''open'', df_created_at := now,
      df_rows := map json_row (df_rows ?n), df_proposal := 0, df_agent_label := []\<rparr> \<in> set (draft_rows db1)"
    by (cases rule: SaveDraft_cases) auto
  have wf: "draft_wf db1" using draft_wf_step [OF draft_saved [OF s(1)]] draft_reach_wf assms(1) by blast
  from draft_steps_keep [OF assms(6) wf i(2)] obtain e where e: "draft_wf db2" "e \<in> set (draft_rows db2)" "df_id e = i"
    "df_rows e = map json_row (df_rows ?n)" "df_total e = df_total ?n" "df_memo e = df_memo ?n" by (auto simp: same_reading_def)
  have "df_rows d = df_rows e \<and> df_total d = df_total e \<and> df_memo d = df_memo e"
    using OpenDraft_row [OF e(1) assms(7) e(2)] e(3) i(1) by simp
  then show ?thesis using saved_reading [OF assms(3) trunc assms(5), of d] e(4-6) by (simp add: new_draft_def)
qed

section \<open>The proposal\<close>

text \<open>What the SDK's transaction builder documents: the transaction it returns has the source account and the operations it was given.\<close>

definition builds :: "'tx batch_sdk \<Rightarrow> bool" where
  "builds sdk \<longleftrightarrow> (\<forall>a ops m ttl tx. BuildOps sdk a ops m ttl = Some tx
     \<longrightarrow> tx_source (Parsed sdk tx) = a \<and> tx_ops (Parsed sdk tx) = ops)"

definition row_payment :: "string \<Rightarrow> asset option \<Rightarrow> BatchRow \<Rightarrow> Describe.operation" where
  "row_payment from asset r = Payment from (br_destination r) (String_of (br_amount r)) asset"

definition payroll_line :: "asset option \<Rightarrow> BatchRow \<Rightarrow> PayrollLine" where
  "payroll_line asset r = \<lparr>pl_to = br_destination r, pl_asset = asset, pl_amount = br_amount r\<rparr>"

lemma payroll_ops_rows:
  "payroll_ops valid from i (map (payroll_line asset) rs) = Inr ops \<Longrightarrow>
     ops = map (row_payment from asset) rs \<and> (\<forall>r \<in> set rs. valid (br_destination r) \<and> 0 < sint (br_amount r))"
  by (induction rs arbitrary: i ops) (auto simp: payroll_line_def row_payment_def split: if_splits sum.splits)

lemma Payroll_rows:
  assumes "Payroll valid from (map (payroll_line asset) rs) = Inr ops"
  shows "ops = map (row_payment from asset) rs \<and> rs \<noteq> [] \<and> length rs \<le> PayrollChunkSize
    \<and> (\<forall>r \<in> set rs. valid (br_destination r) \<and> 0 < sint (br_amount r))"
  using assms payroll_ops_rows [of valid "from" 0 asset rs ops] by (auto simp: Payroll_def split: if_splits)

lemma preflight_all: "preflight_rows w rs = None \<longleftrightarrow> (\<forall>r \<in> set rs. preflight (w_cfg w) (w_balances w) (br_destination r) (br_amount r) = None)"
  by (induction rs) (auto split: option.splits)

lemma placed_payment [simp]: "with_footprint f (row_payment from asset r) = row_payment from asset r"
  by (simp add: row_payment_def)

lemma batch_loop_description: "batch_loop src ops out = Inr b \<Longrightarrow> bd_description b = bd_description out"
  by (induction src ops out rule: batch_loop.induct) (auto simp: Let_def split: if_splits prod.splits sum.splits)

lemma described_total:
  assumes "describe_ops R tx i (map (row_payment from asset) rs) = Some ds" "list_all2 (row_of s shown) ds ps"
  shows "amounts ps = row_sum rs"
  using assms
proof (induction rs arbitrary: i ds ps)
  case (Cons r rs)
  then obtain d ds1 where d: "describeOp R i (row_payment from asset r) (tx_source tx) = Some d"
    "describe_ops R tx (i + 1) (map (row_payment from asset) rs) = Some ds1" "ds = d # ds1"
    by (auto split: option.splits)
  then obtain p ps1 where p: "ps = p # ps1" "row_of s shown d p" "list_all2 (row_of s shown) ds1 ps1"
    using Cons.prems(2) by (auto simp: list_all2_Cons1)
  have "normal (tx_source tx) (row_payment from asset r) = Payment (effective from (tx_source tx)) (br_destination r) (String_of (br_amount r)) asset"
    by (simp add: row_payment_def spelled_eq [OF normalize_String])
  then have "String_of (bp_amount p) = String_of (br_amount r)" using described_payment(1) [OF d(1) p(2)] by simp
  then have "bp_amount p = br_amount r" using Parse_String by (metis sum.inject(2))
  then show ?case using Cons.IH [OF d(2) p(3)] p(1) by (simp add: amounts_def row_sum_def)
qed (auto simp: amounts_def row_sum_def)

lemma DescribeBatch_total:
  assumes "DescribeBatch sdk w tx = Some b" "tx_ops (Parsed sdk tx) = map (row_payment from asset) rs"
  shows "sint (bd_total b) = row_sum rs \<and>
    Describe.DescribeTx (bs_renderer sdk) (w_network w) (\<lambda>t n. HashHex w tx n) (Some (Parsed sdk tx)) = Some (bd_description b)"
proof -
  from assms(1) obtain d where d: "Describe.DescribeTx (bs_renderer sdk) (w_network w) (\<lambda>t n. HashHex w tx n) (Some (Parsed sdk tx)) = Some d"
    "AsBatch d = Inr b" by (auto simp: DescribeBatch_def split: option.splits sum.splits)
  from d(1) obtain ds where ds: "describe_ops (bs_renderer sdk) (Parsed sdk tx) 0 (tx_ops (Parsed sdk tx)) = Some ds" "td_operations d = ds"
    by (rule DescribeTx_eq) simp
  let ?o = "\<lparr>bd_description = d, bd_payments = [], bd_total = 0, bd_asset = [], bd_code = [], bd_source = td_source d\<rparr>"
  from d(2) have l: "batch_loop (td_source d) ds ?o = Inr b" using ds(2) by (simp add: AsBatch_def split: if_splits)
  from batch_loop_rows [OF l] have r: "list_all2 (row_of (td_source d) (bd_asset b)) ds (bd_payments b)" "sint (bd_total b) = amounts (bd_payments b)"
    by auto
  show ?thesis using described_total [OF ds(1) [unfolded assms(2)] r(1)] r(2) d(1) batch_loop_description [OF l] by simp
qed

lemma openBatch_rows:
  assumes "openBatch sdk w scope batch t m tx st = (r, st')"
    and "q \<in> set (proposals (sv_db st'))" "pr_id q \<notin> pr_id ` set (proposals (sv_db st))"
  shows "\<exists>b. DescribeBatch sdk w tx = Some b \<and> bd_total b = ba_total batch \<and> pr_description q = Canonical (bd_description b)
    \<and> HashHex w tx (w_network w) = Some (pr_hash q) \<and> Base64 w tx = Some (pr_xdr q) \<and> pr_org q = sp_org scope
    \<and> pr_treasury q = tr_id t \<and> pr_kind q = ''payroll'' \<and> pr_seq q = SequenceNumber w tx
    \<and> pr_amount q = (if ba_total batch = 0 then None else Some (ba_total batch))"
proof -
  let ?P = "\<lambda>c h e. \<lparr>cp_org = sp_org scope, cp_treasury = tr_id t, cp_kind = ''payroll'', cp_xdr = e, cp_hash = h,
     cp_seq = SequenceNumber w tx, cp_description = c, cp_digest = sha256 (w_pf w) c, cp_amount = ba_total batch,
     cp_created_by = m, cp_expires_at = MaxTime w tx * 10 ^ 9\<rparr>"
  have "st' \<noteq> st" using assms(2,3) by auto
  then obtain b h e where b: "DescribeBatch sdk w tx = Some b" "bd_total b = ba_total batch"
    "HashHex w tx (w_network w) = Some h" "Base64 w tx = Some e"
    using assms(1) by (auto simp: openBatch_def Let_def split: option.splits if_splits)
  let ?c = "Canonical (bd_description b)"
  obtain r2 db where cr: "CreateProposal (w_pf w) (w_dbnow w) (?P ?c h e) (sv_db st) = (r2, db)" by fastforce
  have "sv_db st' = db" using assms(1) b cr by (auto simp: openBatch_def Let_def split: sum.splits)
  then obtain i where "q = proposal_row (?P ?c h e) (w_dbnow w) i"
    using new_rows_created [OF cr] assms(2,3) by blast
  then show ?thesis using b by (simp add: proposal_row_def)
qed

text \<open>
  C9: a payroll that reaches the signers pays exactly its rows.  A proposal \<open>proposeBatch\<close> stores was past every guard (the
  deployment writable, the whole total within the ceilings, every destination able to receive its amount), is from a classic
  treasury of the caller's org, and its envelope pays each row's amount to the row's destination, one operation a row in the rows'
  order from the treasury's own account; the amount recorded for the ceilings is the exact sum of the rows, and the text stored is
  the canonical description of that envelope.
\<close>

theorem proposeBatch_pays_rows:
  assumes "proposeBatch sdk w scope batch treasury memo by_member st = (r, st')" "builds sdk"
    and "q \<in> set (proposals (sv_db st'))" "pr_id q \<notin> pr_id ` set (proposals (sv_db st))"
  shows "writable (w_cfg w) (w_stat w) = None
    \<and> checkSpend (w_cfg w) (sv_policies st) (sv_db st) (w_now w) (sp_org scope) (ba_total batch) = None
    \<and> (\<forall>r \<in> set (ba_rows batch). 0 < sint (br_amount r) \<and> preflight (w_cfg w) (w_balances w) (br_destination r) (br_amount r) = None)
    \<and> ba_rows batch \<noteq> [] \<and> length (ba_rows batch) \<le> PayrollChunkSize
    \<and> pr_org q = sp_org scope \<and> pr_kind q = ''payroll'' \<and> pr_amount q = Some (ba_total batch) \<and> sint (ba_total batch) = row_sum (ba_rows batch)
    \<and> (\<exists>t tx d. find_treasury st (sp_org scope) treasury = Some t \<and> tr_kind t = TreasuryClassic \<and> pr_treasury q = tr_id t
        \<and> tx_source (Parsed sdk tx) = tr_address t
        \<and> tx_ops (Parsed sdk tx) = map (row_payment (tr_address t) (cfg_asset (w_cfg w))) (ba_rows batch)
        \<and> Describe.DescribeTx (bs_renderer sdk) (w_network w) (\<lambda>t n. HashHex w tx n) (Some (Parsed sdk tx)) = Some d
        \<and> pr_description q = Canonical d \<and> HashHex w tx (w_network w) = Some (pr_hash q)
        \<and> Base64 w tx = Some (pr_xdr q) \<and> pr_seq q = SequenceNumber w tx)"
proof -
  have "st' \<noteq> st" using assms(3,4) by auto
  then obtain ttl t ops tx where g: "writable (w_cfg w) (w_stat w) = None"
    "checkSpend (w_cfg w) (sv_policies st) (sv_db st) (w_now w) (sp_org scope) (ba_total batch) = None"
    "preflight_rows w (ba_rows batch) = None" "find_treasury st (sp_org scope) treasury = Some t" "tr_kind t = TreasuryClassic"
    and p: "Payroll (bs_valid sdk) (tr_address t) (map (payroll_line (cfg_asset (w_cfg w))) (ba_rows batch)) = Inr ops"
    and b: "BuildOps sdk (tr_address t) ops (memoOf memo) ttl = Some tx"
    and o: "openBatch sdk w scope batch t by_member tx st = (r, st')"
    using assms(1) unfolding payroll_line_def [abs_def] by (auto simp: proposeBatch_def split: option.splits if_splits sum.splits)
  note rows = Payroll_rows [OF p]
  have tx: "tx_source (Parsed sdk tx) = tr_address t" "tx_ops (Parsed sdk tx) = map (row_payment (tr_address t) (cfg_asset (w_cfg w))) (ba_rows batch)"
    using assms(2) b rows by (auto simp: builds_def)
  obtain d where d: "DescribeBatch sdk w tx = Some d" "bd_total d = ba_total batch" "pr_description q = Canonical (bd_description d)"
    "HashHex w tx (w_network w) = Some (pr_hash q)" "Base64 w tx = Some (pr_xdr q)" "pr_org q = sp_org scope"
    "pr_treasury q = tr_id t" "pr_kind q = ''payroll''" "pr_seq q = SequenceNumber w tx"
    "pr_amount q = (if ba_total batch = 0 then None else Some (ba_total batch))"
    using openBatch_rows [OF o assms(3,4)] by blast
  have s: "sint (ba_total batch) = row_sum (ba_rows batch)" using DescribeBatch_total [OF d(1) tx(2)] d(2) by simp
  obtain x xs where x: "ba_rows batch = x # xs" using rows by (cases "ba_rows batch") auto
  have "0 < sint (br_amount x)" "0 \<le> row_sum xs" using rows x row_sum_nonneg [of xs] by auto
  then have "ba_total batch \<noteq> 0" using s x by (auto simp: row_sum_def)
  then show ?thesis using g rows tx d s DescribeBatch_total [OF d(1) tx(2)] by (auto simp: preflight_all)
qed

section \<open>Examples\<close>

text \<open>A table of one line, five to one address.\<close>

definition demo_book :: book where
  "demo_book = \<lparr>bk_valid = (\<lambda>a. a = ''GDEST''), bk_storable = (\<lambda>s. True), bk_lower = (\<lambda>s. s), bk_rows = []\<rparr>"

definition demo_table :: observation where
  "demo_table = \<lparr>ob_columns = [''to'', ''amount''], ob_rows = [[''GDEST'', ''5'']], ob_truncated = False\<rparr>"

definition demo_draft :: cell_draft where
  "demo_draft = \<lparr>cd_rows = [\<lparr>cl_line = 1, cl_amount = ''5'', cl_destination = ''GDEST'', cl_memo = []\<rparr>], cd_truncated = False\<rparr>"

definition demo_row :: BatchRow where
  "demo_row = \<lparr>br_line = 1, br_amount = 50000000, br_destination = ''GDEST'', br_label = ''GDEST'', br_memo = [], br_said_amount = ''5'', br_said_destination = ''GDEST''\<rparr>"

definition demo_batch :: Batch where
  "demo_batch = \<lparr>ba_rows = [demo_row], ba_total = 50000000, ba_truncated = False\<rparr>"

lemma demo_trim: "TrimSpace ''GDEST'' = ''GDEST''" "TrimSpace ''5'' = ''5''" "TrimSpace [] = []" "TrimSpace ''to'' = ''to''"
  "TrimSpace ''amount'' = ''amount''" "TrimSpace ''USDC'' = ''USDC''"
  by (simp_all add: TrimSpace_digits IsSpace_def) (simp add: TrimSpace_def TrimFunc_def)

lemma demo_five: "NormalizeTabularAmount ''5'' = Inr ''5''" "Parse ''5'' = Inr 50000000"
proof -
  have "CHR ''5'' \<noteq> chr 39" by code_simp
  then have d: "trim_prefix (TrimSpace ''5'') [chr 39] = amount_text False ''5'' []" "allDigits ''5''" "allDigits []" "canonical_whole ''5'' = ''5''"
    "amount_value False ''5'' [] = 50000000"
    by (simp_all add: demo_trim trim_prefix_def has_prefix_def amount_text_def allDigits_iff is_digit_def canonical_whole_def amount_value_def
        digits_val_def digit_val_def char_of_eq_iff take_bit_eq_mod)
  then show "NormalizeTabularAmount ''5'' = Inr ''5''" "Parse ''5'' = Inr 50000000"
    using tabular_complete [of "''5''" "''5''" "[]" "''5''"] Parse_canonical [of "''5''" "[]"]
    by (simp_all add: grouped_def amount_text_def in_int64_def)
qed

lemma demo_headings: "heading U ''to'' = ''to''" "heading U ''amount'' = ''amount''" "ToLower U (TrimSpace ''USDC'') = ''usdc''"
  by (simp_all add: heading_def demo_trim ToLower_ascii ascii_def lower_byte_def ascii_lower_def char_of_eq_iff take_bit_eq_mod)

lemma demo_table_read: "draftFromRows U demo_table ''USDC'' = Inr demo_draft"
  by (simp add: draftFromRows_def demo_headings demo_table_def to_names_def amount_names_def demo_draft_def cell_at_def demo_trim)

lemma demo_resolved: "ResolveBatch demo_book demo_scope demo_draft = Inr demo_batch"
proof -
  have "resolveRow demo_book demo_scope \<lparr>cl_line = 1, cl_amount = ''5'', cl_destination = ''GDEST'', cl_memo = []\<rparr> = Inr demo_row"
    by (simp add: resolveRow_def demo_five resolveDestination_def demo_trim demo_book_def demo_row_def runes_of_def Let_def)
  then show ?thesis by (simp add: ResolveBatch_def demo_scope_ok demo_draft_def demo_batch_def MaxBatchRows_def demo_row_def)
qed

definition demo_tables :: draft_db where
  "demo_tables = draft_init\<lparr>fk_orgs := [1], fk_connectors := [(2, 1)], fk_members := [(3, 1)], fk_tokens := [], fk_proposals := []\<rparr>"

definition demo_stored :: Draft where
  "demo_stored = new_draft 1 2 ''A1:B9'' ''june'' demo_batch 3 0 draft_row"

lemma demo_stored_ok: "df_rows demo_stored = [draft_row demo_row]" "df_total demo_stored = 50000000" "df_org demo_stored = 1" "df_connector demo_stored = 2"
  "df_created_by demo_stored = 3" "df_agent demo_stored = 0" "texts_valid demo_row" "no_zero (draft_row demo_row)" "df_memo demo_stored = ''june''"
proof -
  have "valid_utf8 (string_of_runes (map byte s))" if "\<forall>c \<in> set s. byte c < 128" for s
    unfolding valid_utf8_def using that by (intro exI [of _ "map byte s"]) (auto simp: list_all_iff scalar_def)
  then have ok: "valid_utf8 s" if "ascii s" for s using json_text_ascii [OF that] that unfolding ascii_def json_text_def runes_of_ascii [OF that] by metis
  show "texts_valid demo_row" by (simp add: texts_valid_def demo_row_def ok ascii_def)
  have "chr 0 \<notin> set (String_of 50000000)" "chr 0 \<noteq> CHR ''5''" "chr 0 \<notin> set ''GDEST''" by code_simp+
  then show "no_zero (draft_row demo_row)" by (simp add: no_zero_def draft_row_def demo_row_def)
qed (simp_all add: demo_stored_def new_draft_def demo_batch_def)

lemma demo_saved:
  "SaveDraft demo_pf 9 demo_stored demo_tables =
    (Inr (demo_stored\<lparr>df_id := 1, df_status := ''open'', df_created_at := 9\<rparr>),
     demo_tables\<lparr>draft_seq := 1, draft_rows := [demo_stored\<lparr>df_id := 1, df_status := ''open'', df_created_at := 9,
        df_rows := [json_row (draft_row demo_row)], df_proposal := 0, df_agent_label := []\<rparr>]\<rparr>)"
  by (simp add: SaveDraft_def demo_stored_ok demo_pf_def demo_tables_def draft_init_def next_id_def draft_keys_def Let_def)

theorem draft_round_trip_witness:
  "\<exists>d. OpenDraft (snd (SaveDraft demo_pf 9 demo_stored demo_tables)) 1 1 = Inr d \<and> batchOf d = Inr demo_batch \<and> df_memo d = ''june''"
proof -
  let ?s = "demo_stored\<lparr>df_id := 1, df_status := ''open'', df_created_at := 9\<rparr>" and ?db = "snd (SaveDraft demo_pf 9 demo_stored demo_tables)"
  have "SaveDraft demo_pf 9 demo_stored demo_tables = (Inr ?s, ?db)" unfolding demo_saved by simp
  then have p: "DraftPayroll U demo_book demo_pf 9 ''USDC'' demo_scope 3 (Some (demo_table, 2)) ''A1:B9'' ''june'' demo_tables = (Inr ?s, ?db)" for U
    by (simp add: DraftPayroll_def demo_table_read demo_resolved demo_scope_ok demo_stored_def) (simp add: demo_table_def)
  have r: "draft_step\<^sup>*\<^sup>* draft_init demo_tables" unfolding demo_tables_def by (rule r_into_rtranclp) (rule draft_keys_change)
  obtain d where o: "OpenDraft ?db 1 1 = Inr d" unfolding demo_saved by (simp add: OpenDraft_def demo_stored_ok)
  have v: "list_all texts_valid (ba_rows demo_batch)" using demo_stored_ok(7) by (simp add: demo_batch_def)
  from draft_round_trip [OF r demo_table_read demo_resolved p v rtranclp.rtrancl_refl] o
  have "batchOf d = Inr demo_batch \<and> df_memo d = ''june''" by (simp add: demo_scope_ok)
  with o show ?thesis by blast
qed

text \<open>Fifty stroops, within the ceilings of the small deployment of \<open>Rails\<close>.\<close>

definition demo_small :: BatchRow where
  "demo_small = demo_row\<lparr>br_amount := 50\<rparr>"

definition demo_pay :: Batch where
  "demo_pay = \<lparr>ba_rows = [demo_small], ba_total = 50, ba_truncated = False\<rparr>"

definition demo_parsed :: transaction where
  "demo_parsed = \<lparr>tx_source = ''GT'', tx_sequence = 5, tx_fee = 100, tx_min = 0, tx_max = 100, tx_memo = NoMemo,
     tx_ops = [row_payment ''GT'' (cfg_asset demo_cfg) demo_small], tx_data = None\<rparr>"

definition demo_builder :: "env_sig list batch_sdk" where
  "demo_builder = \<lparr>BuildOps = (\<lambda>a ops m ttl. if a = ''GT'' \<and> ops = tx_ops demo_parsed then Some [] else None), Parsed = (\<lambda>tx. demo_parsed),
     bs_renderer = demo_renderer, bs_valid = (\<lambda>a. True)\<rparr>"

lemma demo_builds: "builds demo_builder"
  by (auto simp: builds_def demo_builder_def demo_parsed_def)

lemma demo_described_batch:
  "\<exists>b. DescribeBatch demo_builder (demo_world NoCodes) [] = Some b \<and> bd_total b = 50"
proof -
  have c: "describeAsset (cfg_asset demo_cfg) = Some ''USDC:GISSUER''" by (simp add: cfg_asset_def demo_cfg_def describeAsset_def)
  show ?thesis
    by (simp add: DescribeBatch_def demo_builder_def demo_parsed_def Describe.DescribeTx_def describeMemo_def describeOp_def row_payment_def c
        normalize_String AsBatch_def opDescription_def paymentFields_def last_value_def Parse_String Let_def effective_def demo_small_def demo_row_def)
qed

lemma demo_built: "Payroll (bs_valid demo_builder) ''GT'' [\<lparr>pl_to = br_destination demo_small, pl_asset = cfg_asset demo_cfg, pl_amount = br_amount demo_small\<rparr>] =
    Inr (tx_ops demo_parsed)" "BuildOps demo_builder ''GT'' (tx_ops demo_parsed) m ttl = Some []"
  by (simp_all add: Payroll_def demo_builder_def demo_parsed_def PayrollChunkSize_def cfg_asset_def row_payment_def demo_small_def)

theorem proposeBatch_pays_rows_witness:
  "\<exists>q. q \<in> set (proposals (sv_db (snd (proposeBatch demo_builder (demo_world NoCodes) demo_scope demo_pay 7 ''june'' 3 (demo_svc demo_rows)))))
     \<and> pr_kind q = ''payroll'' \<and> pr_amount q = Some 50"
proof -
  let ?w = "demo_world NoCodes" and ?st = "demo_svc demo_rows"
  have spend: "checkSpend demo_cfg demo_policies demo_rows 20 1 50 = None"
    by (simp add: checkSpend_def SpendPolicyOf_def demo_policies_def over_payment_def over_day_def ProposedSince_def
        proposed_total_def demo_rows_def proposal_init_def Let_def in_int64_def demo_cfg_def)
  have pre: "preflight_rows ?w [demo_small] = None" by (simp add: preflight_def demo_load_def demo_cfg_def Parse_String demo_small_def demo_row_def)
  have t: "find_treasury ?st 1 7 = Some demo_treasury" by (simp add: find_treasury_def demo_svc_def demo_treasury_def)
  obtain b where b: "DescribeBatch demo_builder ?w [] = Some b" "bd_total b = 50" using demo_described_batch by blast
  let ?p = "\<lparr>cp_org = 1, cp_treasury = 7, cp_kind = ''payroll'', cp_xdr = ''AAAA'', cp_hash = replicate 64 (CHR ''a''),
     cp_seq = 5, cp_description = Canonical (bd_description b), cp_digest = replicate 32 (CHR ''0''), cp_amount = 50,
     cp_created_by = 3, cp_expires_at = 100 * 10 ^ 9\<rparr>"
  have c: "Canonical (bd_description b) \<noteq> []" by (simp add: Canonical_def canonical_rows_def canonical_line_def)
  have rows: "proposals (snd (CreateProposal demo_pf 20 ?p demo_rows)) = [proposal_row ?p 20 1]" using c by (simp add: proposal_eval demo_hash)
  obtain r2 db where cr: "CreateProposal demo_pf 20 ?p demo_rows = (r2, db)" "proposals db = [proposal_row ?p 20 1]"
    using rows by (cases "CreateProposal demo_pf 20 ?p demo_rows") simp
  have sha: "sha256 demo_pf c = replicate 32 (CHR ''0'')" for c by (simp add: demo_pf_def)
  obtain r st' where pb: "proposeBatch demo_builder ?w demo_scope demo_pay 7 ''june'' 3 ?st = (r, st')" by fastforce
  have "openBatch demo_builder ?w demo_scope demo_pay demo_treasury 3 [] ?st = (r, st')"
    using pb spend pre t demo_writable [of NoCodes] demo_built
    by (simp add: proposeBatch_def demo_scope_ok demo_pay_def demo_treasury_def)
  then have "sv_db st' = db" using b cr(1)
    by (auto simp: openBatch_def Let_def demo_pay_def demo_treasury_def demo_scope_ok sha split: sum.splits)
  then have n: "proposal_row ?p 20 1 \<in> set (proposals (sv_db st'))" "proposals (sv_db ?st) = []"
    using cr(2) by (simp_all add: demo_rows_def proposal_init_def)
  then have "pr_kind (proposal_row ?p 20 1) = ''payroll'' \<and> pr_amount (proposal_row ?p 20 1) = Some (ba_total demo_pay)"
    using proposeBatch_pays_rows [OF pb demo_builds n(1)] by simp
  then show ?thesis using n(1) pb by (intro exI [of _ "proposal_row ?p 20 1"]) (simp add: demo_pay_def)
qed

end
