(* ===== verification/Treasury_Abi.thy ===== *)
theory Treasury_Abi
  imports Scval "HOL-Library.List_Lexorder" "HOL-Library.Multiset"
begin

text \<open>
  \<^verbatim>\<open>contracts/treasuryabi\<close>: the values of the treasury contract as Go writes and reads them.  A pointer that may be nil is an
  option; a Go map that is written out is the list of its entries and one that is built by a loop is a partial map.  How the SDK
  reads and writes a key as text is an argument (\<open>abi_keys\<close>), with its laws as a predicate; the wording of an error is left out.
\<close>

section \<open>Values\<close>

record abi_keys =
  ak_encode :: strkey
  IsValidEd25519PublicKey :: "string \<Rightarrow> bool"
  SetAddress :: "string \<Rightarrow> string option"
  IsValidContractAddress :: "string \<Rightarrow> bool"
  DecodeContract :: "string \<Rightarrow> string option"

datatype abi_error = ErrShape | ErrKey

type_synonym 'a abi = "(abi_error, 'a) result"

record abi_Policy =
  QuorumBps :: "32 word"
  ApprovalBps :: "32 word"
  VotingPeriod :: "64 word"
  Timelock :: "64 word"
  SpendLimit :: "int option"
  SpendWindow :: "64 word"

record abi_Member =
  am_address :: string
  am_weight :: "32 word"

record abi_Payment =
  ap_token :: string
  ap_to :: string
  ap_amount :: "int option"

text \<open>The name of an action says which of the other fields counts.\<close>

record abi_Action =
  ac_kind :: string
  ac_payment :: "abi_Payment option"
  ac_policy :: "abi_Policy option"
  ac_member :: "abi_Member option"
  ac_recipient :: string
  ac_target :: "32 word"

record abi_Proposal =
  apr_id :: "32 word"
  apr_proposer :: string
  apr_action :: abi_Action
  apr_memo :: string
  apr_status :: string
  apr_closes_at :: "64 word"
  apr_executable_at :: "64 word"
  apr_yes :: "32 word"
  apr_no :: "32 word"

definition and_then :: "'a abi \<Rightarrow> ('a \<Rightarrow> 'b abi) \<Rightarrow> 'b abi" where
  "and_then r f = (case r of Inl e \<Rightarrow> Inl e | Inr x \<Rightarrow> f x)"

lemma and_then_simps [simp]: "and_then (Inl e) f = Inl e" "and_then (Inr x) f = f x"
  by (simp_all add: and_then_def)

lemma and_then_Inr: "and_then r f = Inr y \<longleftrightarrow> (\<exists>x. r = Inr x \<and> f x = Inr y)"
  by (cases r) auto

section \<open>Into the contract's values\<close>

definition i128_val :: "int option \<Rightarrow> ScVal abi" where
  "i128_val n =
     (case n of
        None \<Rightarrow> Inl ErrShape
      | Some n \<Rightarrow>
          if n < - (2 ^ 127) \<or> n > 2 ^ 127 - 1 then Inl ErrShape
          else Inr (ScvI128 (word_of_int (drop_bit 64 n)) (word_of_int (n AND (2 ^ 64 - 1)))))"

text \<open>\<^verbatim>\<open>copy(id[:], raw)\<close> into an array of 32 zero bytes.\<close>

definition copy32 :: "string \<Rightarrow> string" where
  "copy32 raw = take 32 raw @ replicate (32 - length raw) (chr 0)"

definition Address_val :: "abi_keys \<Rightarrow> string \<Rightarrow> ScVal abi" where
  "Address_val K address =
     (if IsValidEd25519PublicKey K address then
        (case SetAddress K address of
           None \<Rightarrow> Inl ErrShape
         | Some account \<Rightarrow> Inr (ScvAddress (AddrAccount account)))
      else if IsValidContractAddress K address then
        (case DecodeContract K address of
           None \<Rightarrow> Inl ErrShape
         | Some raw \<Rightarrow> Inr (ScvAddress (AddrContract (copy32 raw))))
      else Inl ErrShape)"

definition Memo_val :: "string \<Rightarrow> ScVal" where
  "Memo_val memo = ScvBytes memo"

definition structOf :: "(string \<times> ScVal) list \<Rightarrow> ScVal" where
  "structOf entries = ScvMap (Some (map (\<lambda>e. (ScvSymbol (fst e), snd e)) (sort_key (\<lambda>e. map byte (fst e)) entries)))"

definition Policy_ScVal :: "abi_Policy \<Rightarrow> ScVal abi" where
  "Policy_ScVal p =
     and_then (i128_val (SpendLimit p)) (\<lambda>limit.
       Inr (structOf [(''quorum_bps'', ScvU32 (QuorumBps p)), (''approval_bps'', ScvU32 (ApprovalBps p)), (''voting_period'', ScvU64 (VotingPeriod p)),
         (''timelock'', ScvU64 (Timelock p)), (''spend_limit'', limit), (''spend_window'', ScvU64 (SpendWindow p))]))"

definition Member_ScVal :: "abi_keys \<Rightarrow> abi_Member \<Rightarrow> ScVal abi" where
  "Member_ScVal K m =
     and_then (Address_val K (am_address m)) (\<lambda>address.
       Inr (structOf [(''address'', address), (''weight'', ScvU32 (am_weight m))]))"

definition Payment_ScVal :: "abi_keys \<Rightarrow> abi_Payment \<Rightarrow> ScVal abi" where
  "Payment_ScVal K p =
     and_then (Address_val K (ap_token p)) (\<lambda>token.
     and_then (Address_val K (ap_to p)) (\<lambda>to.
     and_then (i128_val (ap_amount p)) (\<lambda>amount.
       Inr (structOf [(''token'', token), (''to'', to), (''amount'', amount)]))))"

definition action_payload :: "abi_keys \<Rightarrow> abi_Action \<Rightarrow> ScVal abi" where
  "action_payload K a =
     (if ac_kind a = ''Pay'' then (case ac_payment a of None \<Rightarrow> Inl ErrShape | Some p \<Rightarrow> Payment_ScVal K p)
      else if ac_kind a = ''SetPolicy'' then (case ac_policy a of None \<Rightarrow> Inl ErrShape | Some p \<Rightarrow> Policy_ScVal p)
      else if ac_kind a = ''SetMember'' then (case ac_member a of None \<Rightarrow> Inl ErrShape | Some m \<Rightarrow> Member_ScVal K m)
      else if ac_kind a = ''AllowRecipient'' \<or> ac_kind a = ''DenyRecipient'' then Address_val K (ac_recipient a)
      else if ac_kind a = ''Revoke'' then Inr (ScvU32 (ac_target a))
      else Inl ErrShape)"

definition Action_ScVal :: "abi_keys \<Rightarrow> abi_Action \<Rightarrow> ScVal abi" where
  "Action_ScVal K a = and_then (action_payload K a) (\<lambda>payload. Inr (ScvVec (Some [ScvSymbol (ac_kind a), payload])))"

fun all_of :: "('a \<Rightarrow> 'b abi) \<Rightarrow> 'a list \<Rightarrow> 'b list abi" where
  "all_of f [] = Inr []"
| "all_of f (x # xs) = and_then (f x) (\<lambda>v. and_then (all_of f xs) (\<lambda>vs. Inr (v # vs)))"

definition Members_val :: "abi_keys \<Rightarrow> abi_Member list \<Rightarrow> ScVal abi" where
  "Members_val K ms = and_then (all_of (Member_ScVal K) ms) (\<lambda>items. Inr (ScvVec (Some items)))"

definition Addresses_val :: "abi_keys \<Rightarrow> string list \<Rightarrow> ScVal abi" where
  "Addresses_val K as1 = and_then (all_of (Address_val K) as1) (\<lambda>items. Inr (ScvVec (Some items)))"

section \<open>Back out of the contract's values\<close>

fun AsU32 :: "ScVal \<Rightarrow> 32 word abi" where
  "AsU32 (ScvU32 n) = Inr n"
| "AsU32 v = Inl ErrShape"

fun asU64 :: "ScVal \<Rightarrow> 64 word abi" where
  "asU64 (ScvU64 n) = Inr n"
| "asU64 v = Inl ErrShape"

fun AsAmount :: "ScVal \<Rightarrow> int abi" where
  "AsAmount (ScvI128 hi lo) = Inr (push_bit 64 (sint hi) + uint lo)"
| "AsAmount v = Inl ErrShape"

fun AsAddress :: "abi_keys \<Rightarrow> ScVal \<Rightarrow> string abi" where
  "AsAddress K (ScvAddress (AddrAccount key)) = Inr (EncodeAccount (ak_encode K) key)"
| "AsAddress K (ScvAddress (AddrContract key)) = (case EncodeContract (ak_encode K) key of None \<Rightarrow> Inl ErrKey | Some t \<Rightarrow> Inr t)"
| "AsAddress K v = Inl ErrShape"

fun asVec :: "ScVal \<Rightarrow> ScVal list abi" where
  "asVec (ScvVec None) = Inr []"
| "asVec (ScvVec (Some vs)) = Inr vs"
| "asVec v = Inl ErrShape"

definition AsAddresses :: "abi_keys \<Rightarrow> ScVal \<Rightarrow> string list abi" where
  "AsAddresses K v = and_then (asVec v) (all_of (AsAddress K))"

fun AsVote :: "ScVal \<Rightarrow> (bool \<times> bool) abi" where
  "AsVote ScvVoid = Inr (False, False)"
| "AsVote (ScvBool b) = Inr (b, True)"
| "AsVote v = Inl ErrShape"

fun named_fields :: "(ScVal \<times> ScVal) list \<Rightarrow> (string \<rightharpoonup> ScVal) \<Rightarrow> (string \<rightharpoonup> ScVal) abi" where
  "named_fields [] out = Inr out"
| "named_fields ((ScvSymbol name, v) # es) out = named_fields es (out(name \<mapsto> v))"
| "named_fields (e # es) out = Inl ErrShape"

fun fieldsOf :: "ScVal \<Rightarrow> string list \<Rightarrow> (string \<rightharpoonup> ScVal) abi" where
  "fieldsOf (ScvMap (Some entries)) names =
     (if length entries \<noteq> length names then Inl ErrShape
      else and_then (named_fields entries (\<lambda>x. None)) (\<lambda>out. if list_all (\<lambda>name. out name \<noteq> None) names then Inr out else Inl ErrShape))"
| "fieldsOf v names = Inl ErrShape"

definition variantOf :: "ScVal \<Rightarrow> (string \<times> ScVal list) abi" where
  "variantOf v =
     and_then (asVec v) (\<lambda>items.
       case items of
         ScvSymbol name # payload \<Rightarrow> Inr (name, payload)
       | _ \<Rightarrow> Inl ErrShape)"

text \<open>What indexing a Go map gives: the zero value, of no kind that a reader takes, when the name is not there.\<close>

definition at_field :: "(string \<rightharpoonup> ScVal) \<Rightarrow> string \<Rightarrow> ScVal" where
  "at_field f name = (case f name of None \<Rightarrow> ScvOther | Some v \<Rightarrow> v)"

definition AsPolicy :: "ScVal \<Rightarrow> abi_Policy abi" where
  "AsPolicy v =
     and_then (fieldsOf v [''quorum_bps'', ''approval_bps'', ''voting_period'', ''timelock'', ''spend_limit'', ''spend_window'']) (\<lambda>f.
     and_then (AsU32 (at_field f ''quorum_bps'')) (\<lambda>quorum.
     and_then (AsU32 (at_field f ''approval_bps'')) (\<lambda>approval.
     and_then (asU64 (at_field f ''voting_period'')) (\<lambda>period.
     and_then (asU64 (at_field f ''timelock'')) (\<lambda>timelock.
     and_then (AsAmount (at_field f ''spend_limit'')) (\<lambda>limit.
     and_then (asU64 (at_field f ''spend_window'')) (\<lambda>window1.
       Inr \<lparr>QuorumBps = quorum, ApprovalBps = approval, VotingPeriod = period, Timelock = timelock, SpendLimit = Some limit, SpendWindow = window1\<rparr>)))))))"

definition asMember :: "abi_keys \<Rightarrow> ScVal \<Rightarrow> abi_Member abi" where
  "asMember K v =
     and_then (fieldsOf v [''address'', ''weight'']) (\<lambda>f.
     and_then (AsAddress K (at_field f ''address'')) (\<lambda>address.
     and_then (AsU32 (at_field f ''weight'')) (\<lambda>weight.
       Inr \<lparr>am_address = address, am_weight = weight\<rparr>)))"

definition asPayment :: "abi_keys \<Rightarrow> ScVal \<Rightarrow> abi_Payment abi" where
  "asPayment K v =
     and_then (fieldsOf v [''token'', ''to'', ''amount'']) (\<lambda>f.
     and_then (AsAddress K (at_field f ''token'')) (\<lambda>token.
     and_then (AsAddress K (at_field f ''to'')) (\<lambda>to.
     and_then (AsAmount (at_field f ''amount'')) (\<lambda>amount.
       Inr \<lparr>ap_token = token, ap_to = to, ap_amount = Some amount\<rparr>))))"

definition blank_action :: "string \<Rightarrow> abi_Action" where
  "blank_action name = \<lparr>ac_kind = name, ac_payment = None, ac_policy = None, ac_member = None, ac_recipient = [], ac_target = 0\<rparr>"

definition AsAction :: "abi_keys \<Rightarrow> ScVal \<Rightarrow> abi_Action abi" where
  "AsAction K v =
     and_then (variantOf v) (\<lambda>(name, payload).
       if length payload \<noteq> 1 then Inl ErrShape
       else let x = hd payload; a = blank_action name
            in if name = ''Pay'' then and_then (asPayment K x) (\<lambda>p. Inr (a\<lparr>ac_payment := Some p\<rparr>))
               else if name = ''SetPolicy'' then and_then (AsPolicy x) (\<lambda>p. Inr (a\<lparr>ac_policy := Some p\<rparr>))
               else if name = ''SetMember'' then and_then (asMember K x) (\<lambda>m. Inr (a\<lparr>ac_member := Some m\<rparr>))
               else if name = ''AllowRecipient'' \<or> name = ''DenyRecipient'' then and_then (AsAddress K x) (\<lambda>r. Inr (a\<lparr>ac_recipient := r\<rparr>))
               else if name = ''Revoke'' then and_then (AsU32 x) (\<lambda>t. Inr (a\<lparr>ac_target := t\<rparr>))
               else Inl ErrShape)"

definition AsStatus :: "ScVal \<Rightarrow> string abi" where
  "AsStatus v =
     and_then (variantOf v) (\<lambda>(name, payload).
       if payload \<noteq> [] then Inl ErrShape
       else if name \<in> {''Open'', ''Passed'', ''Executed'', ''Rejected'', ''Cancelled''} then Inr name
       else Inl ErrShape)"

fun memo_bytes :: "ScVal \<Rightarrow> string abi" where
  "memo_bytes (ScvBytes b) = (if length b \<noteq> 32 then Inl ErrShape else Inr b)"
| "memo_bytes v = Inl ErrShape"

definition proposal_fields :: "string list" where
  "proposal_fields = [''id'', ''proposer'', ''action'', ''memo'', ''status'', ''closes_at'', ''executable_at'', ''yes'', ''no'']"

definition AsProposal :: "abi_keys \<Rightarrow> ScVal \<Rightarrow> abi_Proposal abi" where
  "AsProposal K v =
     and_then (fieldsOf v proposal_fields) (\<lambda>f.
     and_then (AsU32 (at_field f ''id'')) (\<lambda>i.
     and_then (AsAddress K (at_field f ''proposer'')) (\<lambda>proposer.
     and_then (AsAction K (at_field f ''action'')) (\<lambda>action.
     and_then (memo_bytes (at_field f ''memo'')) (\<lambda>memo.
     and_then (AsStatus (at_field f ''status'')) (\<lambda>status.
     and_then (asU64 (at_field f ''closes_at'')) (\<lambda>closes.
     and_then (asU64 (at_field f ''executable_at'')) (\<lambda>executable.
     and_then (AsU32 (at_field f ''yes'')) (\<lambda>yes.
     and_then (AsU32 (at_field f ''no'')) (\<lambda>no.
       Inr \<lparr>apr_id = i, apr_proposer = proposer, apr_action = action, apr_memo = memo, apr_status = status, apr_closes_at = closes,
            apr_executable_at = executable, apr_yes = yes, apr_no = no\<rparr>))))))))))"

section \<open>Structs\<close>

definition symbols :: "(string \<times> ScVal) list \<Rightarrow> (ScVal \<times> ScVal) list" where
  "symbols es = map (\<lambda>e. (ScvSymbol (fst e), snd e)) es"

lemma named_fields_symbols: "named_fields (symbols es) out = Inr (out ++ map_of (rev es))"
  by (induction es arbitrary: out) (auto simp: symbols_def map_add_def fun_eq_iff split: option.splits)

lemma named_fields_cases:
  "named_fields es out = Inr f \<Longrightarrow> \<exists>ns. es = symbols ns"
proof (induction es out rule: named_fields.induct)
  case (2 name v es out)
  from "2.prems" have "named_fields es (out(name \<mapsto> v)) = Inr f" by simp
  from "2.IH" [OF this] obtain ns where "es = symbols ns" by blast
  then have "(ScvSymbol name, v) # es = symbols ((name, v) # ns)" by (simp add: symbols_def)
  then show ?case by blast
qed (auto simp: symbols_def intro: exI [of _ "[]"])

lemma length_symbols [simp]: "length (symbols es) = length es"
  by (simp add: symbols_def)

lemma distinct_rev_map_of: "distinct (map fst es) \<Longrightarrow> map_of (rev es) = map_of es"
  by (simp add: map_of_inject_set rev_map [symmetric])

text \<open>Only a struct with exactly the names asked for is read, each once, in whatever order; and what is read of a name is its value.\<close>

lemma fieldsOf_exact:
  assumes "distinct names"
  shows "fieldsOf v names = Inr f \<longleftrightarrow> (\<exists>es. v = ScvMap (Some (symbols es)) \<and> mset (map fst es) = mset names \<and> f = map_of es)"
proof
  assume a: "fieldsOf v names = Inr f"
  then obtain ms where v: "v = ScvMap (Some ms)" by (cases "(v, names)" rule: fieldsOf.cases) auto
  with a have l: "length ms = length names" "named_fields ms (\<lambda>x. None) = Inr f" "\<forall>n \<in> set names. f n \<noteq> None"
    by (auto simp: and_then_Inr list_all_iff split: if_splits)
  from named_fields_cases [OF l(2)] obtain es where es: "ms = symbols es" by blast
  have f: "f = map_of (rev es)" using l(2) unfolding es named_fields_symbols by (simp add: map_add_def fun_eq_iff)
  have sub: "set names \<subseteq> set (map fst es)" using l(3) f by (auto simp: map_of_eq_None_iff)
  have card: "card (set names) = length (map fst es)" using assms l(1) es by (simp add: distinct_card)
  then have "set names = set (map fst es)" using sub card_length [of "map fst es"] by (metis List.finite_set card_seteq)
  moreover from this have "distinct (map fst es)" using card by (simp add: card_distinct)
  ultimately have "mset (map fst es) = mset names" "f = map_of es" using assms f distinct_rev_map_of set_eq_iff_mset_eq_distinct by metis+
  then show "\<exists>es. v = ScvMap (Some (symbols es)) \<and> mset (map fst es) = mset names \<and> f = map_of es" using v es by blast
next
  assume "\<exists>es. v = ScvMap (Some (symbols es)) \<and> mset (map fst es) = mset names \<and> f = map_of es"
  then obtain es where es: "v = ScvMap (Some (symbols es))" "mset (map fst es) = mset names" "f = map_of es" by blast
  then have d: "distinct (map fst es)" "set names = set (map fst es)" "length es = length names"
    using assms by (metis mset_eq_imp_distinct_iff, metis set_mset_mset, metis length_map size_mset)
  then show "fieldsOf v names = Inr f"
    using es by (auto simp: named_fields_symbols distinct_rev_map_of list_all_iff map_of_eq_None_iff)
qed

lemma structOf_fields:
  assumes "distinct (map fst entries)" "mset (map fst entries) = mset names"
  shows "fieldsOf (structOf entries) names = Inr (map_of entries)"
proof -
  let ?s = "sort_key (\<lambda>e. map byte (fst e)) entries"
  have m: "mset ?s = mset entries" by simp
  then have d: "mset (map fst ?s) = mset names" using assms(2) by (metis mset_map)
  have "distinct names" using assms by (metis mset_eq_imp_distinct_iff)
  moreover have "map_of ?s = map_of entries"
  proof (rule iffD2 [OF map_of_inject_set])
    show "distinct (map fst ?s)" using assms(1) m by (metis mset_eq_imp_distinct_iff mset_map)
  qed (use assms(1) in simp_all)
  ultimately show ?thesis using d fieldsOf_exact [of names "structOf entries" "map_of entries"]
    unfolding structOf_def symbols_def by metis
qed

section \<open>Round trips\<close>

text \<open>What the SDK's key texts document: a text that is a key is the text of the key it reads as, and a contract's key has 32 bytes.\<close>

definition abi_laws :: "abi_keys \<Rightarrow> bool" where
  "abi_laws K \<longleftrightarrow> (\<forall>t key. SetAddress K t = Some key \<longrightarrow> EncodeAccount (ak_encode K) key = t)
     \<and> (\<forall>t raw. DecodeContract K t = Some raw \<longrightarrow> length raw = 32 \<and> EncodeContract (ak_encode K) raw = Some t)"

lemma copy32_id: "length raw = 32 \<Longrightarrow> copy32 raw = raw"
  by (simp add: copy32_def)

lemma Address_back: "abi_laws K \<Longrightarrow> Address_val K t = Inr v \<Longrightarrow> AsAddress K v = Inr t"
  by (auto simp: Address_val_def abi_laws_def copy32_id split: if_splits option.splits)

lemma halves: "push_bit 64 (sint (word_of_int (drop_bit 64 n) :: 64 word)) + uint (word_of_int (n AND (2 ^ 64 - 1)) :: 64 word) = (n :: int)"
  if "- (2 ^ 127) \<le> n" "n < 2 ^ 127"
proof -
  have d: "drop_bit 64 n = n div 2 ^ 64" "n AND (2 ^ 64 - 1) = n mod 2 ^ 64"
    using drop_bit_eq_div [of 64 n] take_bit_eq_mask [of 64 n] take_bit_eq_mod [of 64 n] mask_eq_exp_minus_1 [of 64] by metis+
  have "- (2 ^ 63) \<le> n div 2 ^ 64" "n div 2 ^ 64 < 2 ^ 63"
    using zdiv_mono1 [of "- (2 ^ 127)" n "2 ^ 64"] zdiv_mono1 [of n "2 ^ 127 - 1" "2 ^ 64"] that by simp_all
  then have "sint (word_of_int (n div 2 ^ 64) :: 64 word) = n div 2 ^ 64" by (simp add: sint_word_of_int64 wrap64_id in_int64_def)
  moreover have "uint (word_of_int (n mod 2 ^ 64) :: 64 word) = n mod 2 ^ 64" by (simp add: uint_word_of_int)
  ultimately show ?thesis unfolding d by (simp add: push_bit_eq_mult)
qed

lemma i128_back: "i128_val n = Inr v \<longleftrightarrow> (\<exists>x hi lo. n = Some x \<and> - (2 ^ 127) \<le> x \<and> x < 2 ^ 127 \<and> v = ScvI128 hi lo \<and>
    hi = word_of_int (drop_bit 64 x) \<and> lo = word_of_int (x AND (2 ^ 64 - 1)))"
  by (cases n) (auto simp: i128_val_def not_less split: if_splits)

lemma amount_back: "i128_val n = Inr v \<Longrightarrow> \<exists>x. n = Some x \<and> AsAmount v = Inr x"
  using halves by (auto simp: i128_back)

lemma Policy_back: "Policy_ScVal p = Inr v \<Longrightarrow> AsPolicy v = Inr p"
proof -
  assume "Policy_ScVal p = Inr v"
  then obtain limit where l: "i128_val (SpendLimit p) = Inr limit" and v: "v = structOf [(''quorum_bps'', ScvU32 (QuorumBps p)),
      (''approval_bps'', ScvU32 (ApprovalBps p)), (''voting_period'', ScvU64 (VotingPeriod p)),
      (''timelock'', ScvU64 (Timelock p)), (''spend_limit'', limit), (''spend_window'', ScvU64 (SpendWindow p))]"
    by (auto simp: Policy_ScVal_def and_then_Inr)
  from amount_back [OF l] obtain x where "SpendLimit p = Some x" "AsAmount limit = Inr x" by blast
  then show ?thesis unfolding v AsPolicy_def by (subst structOf_fields) (simp_all add: at_field_def)
qed

lemma Member_back: "abi_laws K \<Longrightarrow> Member_ScVal K m = Inr v \<Longrightarrow> asMember K v = Inr m"
proof -
  assume K: "abi_laws K" and "Member_ScVal K m = Inr v"
  then obtain a where a: "Address_val K (am_address m) = Inr a" and v: "v = structOf [(''address'', a), (''weight'', ScvU32 (am_weight m))]"
    by (auto simp: Member_ScVal_def and_then_Inr)
  show ?thesis unfolding v asMember_def by (subst structOf_fields) (simp_all add: at_field_def Address_back [OF K a])
qed

lemma Payment_back: "abi_laws K \<Longrightarrow> Payment_ScVal K p = Inr v \<Longrightarrow> asPayment K v = Inr p"
proof -
  assume K: "abi_laws K" and "Payment_ScVal K p = Inr v"
  then obtain t to n where a: "Address_val K (ap_token p) = Inr t" "Address_val K (ap_to p) = Inr to" "i128_val (ap_amount p) = Inr n"
    and v: "v = structOf [(''token'', t), (''to'', to), (''amount'', n)]"
    by (auto simp: Payment_ScVal_def and_then_Inr)
  from amount_back [OF a(3)] obtain x where "ap_amount p = Some x" "AsAmount n = Inr x" by blast
  then show ?thesis unfolding v asPayment_def
    by (subst structOf_fields) (simp_all add: at_field_def Address_back [OF K a(1)] Address_back [OF K a(2)])
qed

text \<open>An action with nothing set but what its name says.\<close>

definition only_named :: "abi_Action \<Rightarrow> abi_Action" where
  "only_named a =
     (let b = blank_action (ac_kind a)
      in if ac_kind a = ''Pay'' then b\<lparr>ac_payment := ac_payment a\<rparr>
         else if ac_kind a = ''SetPolicy'' then b\<lparr>ac_policy := ac_policy a\<rparr>
         else if ac_kind a = ''SetMember'' then b\<lparr>ac_member := ac_member a\<rparr>
         else if ac_kind a = ''AllowRecipient'' \<or> ac_kind a = ''DenyRecipient'' then b\<lparr>ac_recipient := ac_recipient a\<rparr>
         else b\<lparr>ac_target := ac_target a\<rparr>)"

lemma Action_back: "abi_laws K \<Longrightarrow> Action_ScVal K a = Inr v \<Longrightarrow> AsAction K v = Inr (only_named a)"
proof -
  assume K: "abi_laws K" and "Action_ScVal K a = Inr v"
  then obtain x where x: "action_payload K a = Inr x" "v = ScvVec (Some [ScvSymbol (ac_kind a), x])" by (auto simp: Action_ScVal_def and_then_Inr)
  then show ?thesis using Payment_back [OF K] Policy_back Member_back [OF K] Address_back [OF K]
    by (auto simp: action_payload_def AsAction_def variantOf_def only_named_def Let_def split: if_splits option.splits)
qed

lemma all_of_back: "(\<And>x y. f x = Inr y \<Longrightarrow> g y = Inr x) \<Longrightarrow> all_of f xs = Inr ys \<Longrightarrow> all_of g ys = Inr xs"
  by (induction xs arbitrary: ys) (auto simp: and_then_Inr)

section \<open>What is read\<close>

text \<open>A struct of the contract: each of the names once, in any order, and nothing else.\<close>

definition struct_fields :: "string list \<Rightarrow> ScVal \<Rightarrow> (string \<rightharpoonup> ScVal) \<Rightarrow> bool" where
  "struct_fields names v f \<longleftrightarrow> (\<exists>es. v = ScvMap (Some (symbols es)) \<and> mset (map fst es) = mset names \<and> f = map_of es)"

lemma fieldsOf_struct: "distinct names \<Longrightarrow> fieldsOf v names = Inr f \<longleftrightarrow> struct_fields names v f"
  unfolding struct_fields_def by (rule fieldsOf_exact)

lemma struct_dom: "struct_fields names v f \<Longrightarrow> n \<in> set names \<Longrightarrow> \<exists>x. f n = Some x"
proof -
  assume "struct_fields names v f" "n \<in> set names"
  then obtain es where es: "set (map fst es) = set names" "f = map_of es" unfolding struct_fields_def by (metis mset_eq_setD)
  then have "map_of es n \<noteq> None" using \<open>n \<in> set names\<close> by (simp add: map_of_eq_None_iff)
  then show "\<exists>x. f n = Some x" using es(2) by simp
qed

lemma at_field_eq: "struct_fields names v f \<Longrightarrow> n \<in> set names \<Longrightarrow> f n = Some (at_field f n)"
  using struct_dom by (fastforce simp: at_field_def)

lemma reads_words:
  "AsU32 x = Inr n \<longleftrightarrow> x = ScvU32 n" "asU64 x = Inr m \<longleftrightarrow> x = ScvU64 m"
  by (cases x; auto)+

definition member_read :: "abi_keys \<Rightarrow> ScVal \<Rightarrow> abi_Member \<Rightarrow> bool" where
  "member_read K v m \<longleftrightarrow> (\<exists>f a. struct_fields [''address'', ''weight''] v f
     \<and> f ''address'' = Some a \<and> AsAddress K a = Inr (am_address m) \<and> f ''weight'' = Some (ScvU32 (am_weight m)))"

definition payment_read :: "abi_keys \<Rightarrow> ScVal \<Rightarrow> abi_Payment \<Rightarrow> bool" where
  "payment_read K v p \<longleftrightarrow> (\<exists>f t d hi lo. struct_fields [''token'', ''to'', ''amount''] v f
     \<and> f ''token'' = Some t \<and> AsAddress K t = Inr (ap_token p) \<and> f ''to'' = Some d \<and> AsAddress K d = Inr (ap_to p)
     \<and> f ''amount'' = Some (ScvI128 hi lo) \<and> ap_amount p = Some (sint hi * 2 ^ 64 + uint lo))"

definition policy_read :: "ScVal \<Rightarrow> abi_Policy \<Rightarrow> bool" where
  "policy_read v p \<longleftrightarrow> (\<exists>f hi lo. struct_fields [''quorum_bps'', ''approval_bps'', ''voting_period'', ''timelock'', ''spend_limit'', ''spend_window''] v f
     \<and> f ''quorum_bps'' = Some (ScvU32 (QuorumBps p)) \<and> f ''approval_bps'' = Some (ScvU32 (ApprovalBps p))
     \<and> f ''voting_period'' = Some (ScvU64 (VotingPeriod p)) \<and> f ''timelock'' = Some (ScvU64 (Timelock p))
     \<and> f ''spend_limit'' = Some (ScvI128 hi lo) \<and> SpendLimit p = Some (sint hi * 2 ^ 64 + uint lo)
     \<and> f ''spend_window'' = Some (ScvU64 (SpendWindow p)))"

lemma reads_amount: "AsAmount x = Inr n \<longleftrightarrow> (\<exists>hi lo. x = ScvI128 hi lo \<and> n = sint hi * 2 ^ 64 + uint lo)"
  by (cases x) (auto simp: push_bit_eq_mult)

lemma asMember_read: "asMember K v = Inr m \<Longrightarrow> member_read K v m"
proof -
  assume "asMember K v = Inr m"
  then obtain f where f: "struct_fields [''address'', ''weight''] v f" "AsAddress K (at_field f ''address'') = Inr (am_address m)"
    "at_field f ''weight'' = ScvU32 (am_weight m)" by (auto simp: asMember_def and_then_Inr fieldsOf_struct reads_words)
  show ?thesis unfolding member_read_def
    by (intro exI [of _ f] exI [of _ "at_field f ''address''"]) (use f at_field_eq [OF f(1)] in simp)
qed

lemma asPayment_read: "asPayment K v = Inr p \<Longrightarrow> payment_read K v p"
proof -
  assume "asPayment K v = Inr p"
  then obtain f hi lo where f: "struct_fields [''token'', ''to'', ''amount''] v f" "AsAddress K (at_field f ''token'') = Inr (ap_token p)"
    "AsAddress K (at_field f ''to'') = Inr (ap_to p)" "at_field f ''amount'' = ScvI128 hi lo" "ap_amount p = Some (sint hi * 2 ^ 64 + uint lo)"
    by (auto simp: asPayment_def and_then_Inr fieldsOf_struct reads_amount)
  show ?thesis unfolding payment_read_def
    by (intro exI [of _ f] exI [of _ "at_field f ''token''"] exI [of _ "at_field f ''to''"] exI [of _ hi] exI [of _ lo])
       (use f at_field_eq [OF f(1)] in simp)
qed

lemma AsPolicy_read: "AsPolicy v = Inr p \<Longrightarrow> policy_read v p"
proof -
  let ?n = "[''quorum_bps'', ''approval_bps'', ''voting_period'', ''timelock'', ''spend_limit'', ''spend_window'']"
  assume "AsPolicy v = Inr p"
  then obtain f hi lo where f: "struct_fields ?n v f" "at_field f ''quorum_bps'' = ScvU32 (QuorumBps p)" "at_field f ''approval_bps'' = ScvU32 (ApprovalBps p)"
    "at_field f ''voting_period'' = ScvU64 (VotingPeriod p)" "at_field f ''timelock'' = ScvU64 (Timelock p)" "at_field f ''spend_limit'' = ScvI128 hi lo"
    "SpendLimit p = Some (sint hi * 2 ^ 64 + uint lo)" "at_field f ''spend_window'' = ScvU64 (SpendWindow p)"
    by (auto simp: AsPolicy_def and_then_Inr fieldsOf_struct reads_words reads_amount)
  show ?thesis unfolding policy_read_def
    by (intro exI [of _ f] exI [of _ hi] exI [of _ lo]) (use f at_field_eq [OF f(1)] in simp)
qed

text \<open>What an action's payload must be for it to be read as the action.\<close>

definition action_read :: "abi_keys \<Rightarrow> ScVal \<Rightarrow> abi_Action \<Rightarrow> bool" where
  "action_read K x a \<longleftrightarrow>
     ac_kind a = ''Pay'' \<and> (\<exists>p. payment_read K x p \<and> a = (blank_action ''Pay'')\<lparr>ac_payment := Some p\<rparr>)
     \<or> ac_kind a = ''SetPolicy'' \<and> (\<exists>p. policy_read x p \<and> a = (blank_action ''SetPolicy'')\<lparr>ac_policy := Some p\<rparr>)
     \<or> ac_kind a = ''SetMember'' \<and> (\<exists>m. member_read K x m \<and> a = (blank_action ''SetMember'')\<lparr>ac_member := Some m\<rparr>)
     \<or> ac_kind a \<in> {''AllowRecipient'', ''DenyRecipient''} \<and> (\<exists>r. AsAddress K x = Inr r \<and> a = (blank_action (ac_kind a))\<lparr>ac_recipient := r\<rparr>)
     \<or> ac_kind a = ''Revoke'' \<and> (\<exists>n. x = ScvU32 n \<and> a = (blank_action ''Revoke'')\<lparr>ac_target := n\<rparr>)"

lemma asVec_Cons: "asVec v = Inr (y # ys) \<Longrightarrow> v = ScvVec (Some (y # ys))"
  by (cases v rule: asVec.cases) simp_all

lemma variantOf_eq: "variantOf v = Inr (name, payload) \<Longrightarrow> v = ScvVec (Some (ScvSymbol name # payload))"
proof -
  assume "variantOf v = Inr (name, payload)"
  then obtain items where i: "asVec v = Inr items"
    "(case items of ScvSymbol name # payload \<Rightarrow> Inr (name, payload) | _ \<Rightarrow> Inl ErrShape) = Inr (name, payload)" by (auto simp: variantOf_def and_then_Inr)
  then obtain y ys where y: "items = y # ys" by (cases items) simp_all
  with i(2) have "y = ScvSymbol name \<and> ys = payload" by (cases y) simp_all
  then show ?thesis using asVec_Cons i(1) y by simp
qed

lemma AsAction_read:
  assumes "AsAction K v = Inr a"
  shows "\<exists>x. v = ScvVec (Some [ScvSymbol (ac_kind a), x]) \<and> action_read K x a"
proof -
  from assms obtain name payload where n: "variantOf v = Inr (name, payload)" "length payload = 1" by (auto simp: AsAction_def and_then_Inr split: if_splits)
  then obtain x where x: "payload = [x]" by (cases payload) auto
  from variantOf_eq [OF n(1)] x have v: "v = ScvVec (Some [ScvSymbol name, x])" by simp
  have body: "(if name = ''Pay'' then and_then (asPayment K x) (\<lambda>p. Inr ((blank_action name)\<lparr>ac_payment := Some p\<rparr>))
      else if name = ''SetPolicy'' then and_then (AsPolicy x) (\<lambda>p. Inr ((blank_action name)\<lparr>ac_policy := Some p\<rparr>))
      else if name = ''SetMember'' then and_then (asMember K x) (\<lambda>m. Inr ((blank_action name)\<lparr>ac_member := Some m\<rparr>))
      else if name = ''AllowRecipient'' \<or> name = ''DenyRecipient'' then and_then (AsAddress K x) (\<lambda>r. Inr ((blank_action name)\<lparr>ac_recipient := r\<rparr>))
      else if name = ''Revoke'' then and_then (AsU32 x) (\<lambda>t. Inr ((blank_action name)\<lparr>ac_target := t\<rparr>))
      else Inl ErrShape) = Inr a"
    using assms n(1) unfolding x by (simp add: AsAction_def Let_def)
  have kind: "ac_kind (blank_action k) = k" for k by (simp add: blank_action_def)
  consider (pay) "name = ''Pay''" | (policy) "name = ''SetPolicy''" | (member) "name = ''SetMember''"
    | (recipient) "name \<in> {''AllowRecipient'', ''DenyRecipient''}" | (revoke) "name = ''Revoke''"
    using body by (metis Inl_Inr_False insert_iff)
  then have "ac_kind a = name \<and> action_read K x a"
  proof cases
    case pay
    then obtain p where "payment_read K x p" "a = (blank_action ''Pay'')\<lparr>ac_payment := Some p\<rparr>"
      using body asPayment_read by (auto simp: and_then_Inr)
    then show ?thesis using pay by (auto simp: action_read_def kind)
  next
    case policy
    then obtain p where "policy_read x p" "a = (blank_action ''SetPolicy'')\<lparr>ac_policy := Some p\<rparr>"
      using body AsPolicy_read by (auto simp: and_then_Inr)
    then show ?thesis using policy by (auto simp: action_read_def kind)
  next
    case member
    then obtain m where "member_read K x m" "a = (blank_action ''SetMember'')\<lparr>ac_member := Some m\<rparr>"
      using body asMember_read by (auto simp: and_then_Inr)
    then show ?thesis using member by (auto simp: action_read_def kind)
  next
    case recipient
    then obtain r where "AsAddress K x = Inr r" "a = (blank_action name)\<lparr>ac_recipient := r\<rparr>"
      using body by (auto simp: and_then_Inr)
    then show ?thesis using recipient by (auto simp: action_read_def kind)
  next
    case revoke
    then obtain t where "x = ScvU32 t" "a = (blank_action ''Revoke'')\<lparr>ac_target := t\<rparr>"
      using body by (auto simp: and_then_Inr reads_words)
    then show ?thesis using revoke by (auto simp: action_read_def kind)
  qed
  then show ?thesis using v by blast
qed

lemma AsProposal_struct: "AsProposal K v = Inr p \<Longrightarrow> \<exists>f. struct_fields proposal_fields v f"
  by (auto simp: AsProposal_def and_then_Inr fieldsOf_struct proposal_fields_def)


definition demo_abi :: abi_keys where
  "demo_abi = \<lparr>ak_encode = \<lparr>EncodeAccount = (\<lambda>key. CHR ''G'' # key), EncodeContract = (\<lambda>key. None)\<rparr>,
     IsValidEd25519PublicKey = (\<lambda>t. t \<noteq> [] \<and> hd t = CHR ''G''), SetAddress = (\<lambda>t. if t \<noteq> [] \<and> hd t = CHR ''G'' then Some (tl t) else None),
     IsValidContractAddress = (\<lambda>t. False), DecodeContract = (\<lambda>t. None)\<rparr>"

definition demo_action :: abi_Action where
  "demo_action = (blank_action ''Pay'')\<lparr>ac_payment := Some \<lparr>ap_token = ''GT'', ap_to = ''GA'', ap_amount = Some (- (2 ^ 127))\<rparr>\<rparr>"


end
