(* ===== verification/Sends.thy ===== *)
theory Sends
  imports Payroll Member_Safety
begin

text \<open>
  \<^verbatim>\<open>api/send.go\<close>, \<^verbatim>\<open>api/submit.go\<close> and \<^verbatim>\<open>api/confirm.go\<close>: a message becomes a payment somebody is shown, and the payment that
  was shown, signed, is sent with the operator's fee around it.  The model's reading of a message is an arbitrary argument, and so
  are Horizon and the SDK's transactions; what the SDK computes of an envelope is one record (\<open>send_sdk\<close>), fixed through a run,
  and what the outside answers is another (\<open>send_world\<close>), different at every step.
\<close>

section \<open>State\<close>

record pending_send =
  ps_hash :: string
  ps_org :: OrgID
  ps_owner :: string
  ps_xdr :: string
  ps_amount :: stroops
  ps_asset :: AssetID
  ps_destination :: address
  ps_to_label :: string
  ps_said_amount :: string
  ps_said_destination :: string
  ps_created :: int
  ps_expires :: int
  ps_submitted :: "int option"

record TrackedAddress =
  tk_address :: address
  tk_org :: OrgID
  tk_account :: AccountID
  tk_role :: string

record owner_account =
  oa_id :: AccountID
  oa_org :: OrgID
  oa_kind :: string
  oa_owner :: string

text \<open>\<open>sd_sent\<close> is what was handed to Horizon: the hash of the payment that was signed, and the fee bump around it.\<close>

record 'fb send_state =
  sd_pending :: "pending_send list"
  sd_tracked :: "TrackedAddress list"
  sd_accounts :: "owner_account list"
  sd_members :: member_db
  sd_assets :: "AssetID list"
  sd_sent :: "(string \<times> 'fb) list"

record ('tx, 'fb) send_sdk =
  sk_network :: string
  sk_renderer :: renderer
  sk_parsed :: "'tx \<Rightarrow> transaction"
  sk_hash :: "'tx \<Rightarrow> string option"
  sk_base64 :: "'tx \<Rightarrow> string option"
  sk_max_time :: "'tx \<Rightarrow> int"
  sk_from_xdr :: "string \<Rightarrow> 'tx option option"
  sk_signatures :: "'tx \<Rightarrow> env_sig list"
  sk_fee_bump :: "'tx \<Rightarrow> address \<Rightarrow> 'fb option"
  sk_bump_hash :: "'fb \<Rightarrow> string option"

record ('tx, 'fb) send_world =
  sn_now :: int
  sn_cfg :: rails_config
  sn_code :: string
  sn_asset_id :: AssetID
  sn_stat :: "string \<Rightarrow> stat_result"
  sn_pf :: platform
  sn_decode :: "string list \<Rightarrow> Decoded option"
  sn_tables :: unicode_tables
  sn_order :: "(string \<times> int64) list"
  sn_env :: resolve_env
  sn_beneficiaries :: "beneficiary list"
  sn_build :: "address \<Rightarrow> Describe.operation list \<Rightarrow> 'tx option"
  sn_sign :: "'fb \<Rightarrow> 'fb option"
  sn_horizon :: "'fb \<Rightarrow> submit_answer"
  sn_lookup :: "string \<Rightarrow> lookup_answer"

datatype send_error =
    SendScope svc_error | EmptyConversation | SendRails rails_error | DecodeFailed | SendVerify verify_error | ErrNotASend
  | SendResolve resolve_error | ErrNoAccount | PaymentNotPositive | PaymentEnds | SameAccount | PaymentNotBuilt
  | ErrIndescribable | ErrBuilderMismatch | EnvelopeNotEncoded | SendDb db_error
  | EnvelopeUnreadable | NotPlain | ErrUnsigned | EnvelopeNotHashed | ErrUnknownTransaction | ErrNotYours | ErrAlreadySubmitted | SendExpired
  | BumpNotBuilt | BumpNotSigned | SendNotSubmitted submit_error | ErrNoSuchSend | StoredMismatch

section \<open>Preparing\<close>

record Confirmation =
  cf_amount :: stroops
  cf_display :: string
  cf_asset :: string
  cf_from :: address
  cf_to :: address
  cf_to_label :: string
  cf_hash :: string
  cf_xdr :: string
  cf_said_amount :: string
  cf_said_destination :: string

definition AddressForOwner :: "'fb send_state \<Rightarrow> OrgID \<Rightarrow> string \<Rightarrow> address option" where
  "AddressForOwner st org owner =
     map_option tk_address (find (\<lambda>t. list_ex (\<lambda>a. oa_id a = tk_account t \<and> oa_org a = org \<and> oa_kind a = ''member'' \<and> oa_owner a = owner)
        (sd_accounts st)) (sd_tracked st))"

definition stellarAddress :: "('tx, 'fb) send_world \<Rightarrow> 'fb send_state \<Rightarrow> Scope \<Rightarrow> (send_error, address) result" where
  "stellarAddress w st scope =
     (if \<not> text_ok (sn_pf w) (sp_owner scope) then Inl (SendDb NotStorable)
      else case AddressForOwner st (sp_org scope) (sp_owner scope) of
        Some a \<Rightarrow> Inr a
      | None \<Rightarrow>
          (case cut_byte (CHR '':'') (sp_owner scope) of
             (channel, user, ok) \<Rightarrow>
               if \<not> ok then Inl ErrNoAccount
               else (case MemberByIdentity (sd_members st) (sp_org scope) channel user of
                       None \<Rightarrow> Inl ErrNoAccount
                     | Some m \<Rightarrow> if \<not> HasAddress m then Inl ErrNoAccount else Inr (the (m_address m)))))"

definition BuildPayment ::
  "('tx, 'fb) send_world \<Rightarrow> address \<Rightarrow> address \<Rightarrow> asset option \<Rightarrow> stroops \<Rightarrow> (send_error, 'tx) result" where
  "BuildPayment w from to asset amount =
     (if sint amount \<le> 0 then Inl PaymentNotPositive
      else if from = [] \<or> to = [] then Inl PaymentEnds
      else if from = to then Inl SameAccount
      else case sn_build w from [Payment from to (String_of amount) asset] of
             None \<Rightarrow> Inl PaymentNotBuilt
           | Some tx \<Rightarrow> Inr tx)"

text \<open>What an envelope pays, when it is one payment.\<close>

definition shown :: "('tx, 'fb) send_sdk \<Rightarrow> 'tx \<Rightarrow> PaymentDescription option" where
  "shown K tx =
     (case Describe.DescribeTx (sk_renderer K) (sk_network K) (\<lambda>t n. sk_hash K tx) (Some (sk_parsed K tx)) of
        None \<Rightarrow> None
      | Some d \<Rightarrow> SinglePayment d)"

definition agrees :: "PaymentDescription \<Rightarrow> Grounded \<Rightarrow> Destination \<Rightarrow> string \<Rightarrow> address \<Rightarrow> bool" where
  "agrees desc g dest code from \<longleftrightarrow>
     pd_amount desc = g_Amount g \<and> pd_to desc = Address dest \<and> pd_from desc = from \<and> pd_code desc = code"

definition recordPending ::
  "('tx, 'fb) send_world \<Rightarrow> Scope \<Rightarrow> Confirmation \<Rightarrow> int \<Rightarrow> 'fb send_state \<Rightarrow> db_error option \<times> 'fb send_state" where
  "recordPending w scope c expires st =
     (let row = \<lparr>ps_hash = cf_hash c, ps_org = sp_org scope, ps_owner = sp_owner scope, ps_xdr = cf_xdr c, ps_amount = cf_amount c,
          ps_asset = sn_asset_id w, ps_destination = cf_to c, ps_to_label = cf_to_label c, ps_said_amount = cf_said_amount c,
          ps_said_destination = cf_said_destination c, ps_created = sn_now w, ps_expires = expires, ps_submitted = None\<rparr>
      in if \<not> list_all (text_ok (sn_pf w)) [cf_hash c, sp_owner scope, cf_xdr c, cf_to c, cf_to_label c, cf_said_amount c, cf_said_destination c]
         then (Some NotStorable, st)
         else if \<not> hash_ok (ps_hash row) \<or> ps_xdr row = [] \<or> sint (ps_amount row) \<le> 0 \<or> \<not> issuer_ok (ps_destination row) \<or> ps_expires row \<le> ps_created row
         then (Some CheckViolation, st)
         else if list_ex (\<lambda>p. ps_hash p = ps_hash row) (sd_pending st) then (None, st)
         else if ps_org row \<notin> set (org_rows (sd_members st)) \<or> ps_asset row \<notin> set (sd_assets st) then (Some ForeignKeyViolation, st)
         else (None, st\<lparr>sd_pending := sd_pending st @ [row]\<rparr>))"

definition confirmation :: "PaymentDescription \<Rightarrow> string \<Rightarrow> string \<Rightarrow> string \<Rightarrow> string \<Rightarrow> Confirmation" where
  "confirmation desc xdr label said_amount said_destination =
     \<lparr>cf_amount = pd_amount desc, cf_display = Display (pd_amount desc), cf_asset = pd_code desc, cf_from = pd_from desc, cf_to = pd_to desc,
      cf_to_label = label, cf_hash = pd_hash desc, cf_xdr = xdr, cf_said_amount = said_amount, cf_said_destination = said_destination\<rparr>"

text \<open>From the grounded instruction on.\<close>

definition prepare_grounded ::
  "('tx, 'fb) send_sdk \<Rightarrow> ('tx, 'fb) send_world \<Rightarrow> Scope \<Rightarrow> Grounded \<Rightarrow> 'fb send_state \<Rightarrow> (send_error, Confirmation) result \<times> 'fb send_state" where
  "prepare_grounded K w scope g st =
     (case Resolve (sn_tables w) (sn_env w) (sn_beneficiaries w) (sp_org scope) (sp_owner scope) g of
        Inl e \<Rightarrow> (Inl (SendResolve e), st)
      | Inr dest \<Rightarrow>
     (case stellarAddress w st scope of
        Inl e \<Rightarrow> (Inl e, st)
      | Inr from \<Rightarrow>
     (case BuildPayment w from (Address dest) (cfg_asset (sn_cfg w)) (g_Amount g) of
        Inl e \<Rightarrow> (Inl e, st)
      | Inr tx \<Rightarrow>
     (case shown K tx of
        None \<Rightarrow> (Inl ErrIndescribable, st)
      | Some desc \<Rightarrow>
          if \<not> agrees desc g dest (sn_code w) from then (Inl ErrBuilderMismatch, st)
          else (case sk_base64 K tx of
                  None \<Rightarrow> (Inl EnvelopeNotEncoded, st)
                | Some xdr \<Rightarrow>
                    let c = confirmation desc xdr (Label dest) (g_AmountText g) (g_DestinationText g)
                    in (case recordPending w scope c (sk_max_time K tx * 10 ^ 9) st of
                          (Some e, st1) \<Rightarrow> (Inl (SendDb e), st1)
                        | (None, st1) \<Rightarrow> (Inr c, st1)))))))"

definition PrepareSend ::
  "('tx, 'fb) send_sdk \<Rightarrow> ('tx, 'fb) send_world \<Rightarrow> Scope \<Rightarrow> string list \<Rightarrow> 'fb send_state \<Rightarrow> (send_error, Confirmation) result \<times> 'fb send_state" where
  "PrepareSend K w scope turns st =
     (case scope_check scope of
        Some e \<Rightarrow> (Inl (SendScope e), st)
      | None \<Rightarrow>
          if turns = [] then (Inl EmptyConversation, st)
          else (case writable (sn_cfg w) (sn_stat w) of
            Some e \<Rightarrow> (Inl (SendRails e), st)
          | None \<Rightarrow>
          (case sn_decode w turns of
             None \<Rightarrow> (Inl DecodeFailed, st)
           | Some decoded \<Rightarrow>
          (case verify_intent (sn_tables w) (sn_order w) (map (Tokenize (sn_tables w)) turns) decoded of
             Inl e \<Rightarrow> (Inl (SendVerify e), st)
           | Inr g \<Rightarrow>
               if g_Action g \<noteq> ActionSend then (Inl ErrNotASend, st)
               else prepare_grounded K w scope g st))))"

section \<open>Submitting\<close>

definition claims :: "int \<Rightarrow> Scope \<Rightarrow> string \<Rightarrow> pending_send \<Rightarrow> bool" where
  "claims now scope hash p \<longleftrightarrow> ps_hash p = hash \<and> ps_org p = sp_org scope \<and> ps_owner p = sp_owner scope \<and> ps_submitted p = None \<and> now < ps_expires p"

definition explainRefusal :: "Scope \<Rightarrow> string \<Rightarrow> 'fb send_state \<Rightarrow> send_error" where
  "explainRefusal scope hash st =
     (case find (\<lambda>p. ps_hash p = hash \<and> ps_org p = sp_org scope) (sd_pending st) of
        None \<Rightarrow> ErrUnknownTransaction
      | Some p \<Rightarrow>
          if ps_owner p \<noteq> sp_owner scope then ErrNotYours
          else if ps_submitted p \<noteq> None then ErrAlreadySubmitted
          else SendExpired)"

definition send_authorise :: "int \<Rightarrow> Scope \<Rightarrow> string \<Rightarrow> 'fb send_state \<Rightarrow> send_error option \<times> 'fb send_state" where
  "send_authorise now scope hash st =
     (if list_ex (claims now scope hash) (sd_pending st)
      then (None, st\<lparr>sd_pending := map (\<lambda>p. if claims now scope hash p then p\<lparr>ps_submitted := Some now\<rparr> else p) (sd_pending st)\<rparr>)
      else (Some (explainRefusal scope hash st), st))"

record SubmitResult =
  su_hash :: string
  su_inner :: string
  su_ledger :: int32
  su_known :: bool

text \<open>With the claim taken: wrap, sign and hand over.  A bump whose hash cannot be computed is never handed over.\<close>

definition send_claimed ::
  "('tx, 'fb) send_sdk \<Rightarrow> ('tx, 'fb) send_world \<Rightarrow> 'tx \<Rightarrow> string \<Rightarrow> address \<Rightarrow> 'fb send_state \<Rightarrow> (send_error, SubmitResult) result \<times> 'fb send_state" where
  "send_claimed K w inner hash treasury st =
     (case sk_fee_bump K inner treasury of
        None \<Rightarrow> (Inl BumpNotBuilt, st)
      | Some bump \<Rightarrow>
     (case sn_sign w bump of
        None \<Rightarrow> (Inl BumpNotSigned, st)
      | Some signed1 \<Rightarrow>
          ((case Settlement.Submit (sk_bump_hash K) (sn_horizon w) (sn_lookup w) signed1 of
              Inl e \<Rightarrow> Inl (SendNotSubmitted e)
            | Inr r \<Rightarrow> Inr \<lparr>su_hash = r_hash r, su_inner = hash, su_ledger = r_ledger r, su_known = r_already_known r\<rparr>),
           if sk_bump_hash K signed1 = None then st else st\<lparr>sd_sent := sd_sent st @ [(hash, signed1)]\<rparr>)))"

definition Service_Submit ::
  "('tx, 'fb) send_sdk \<Rightarrow> ('tx, 'fb) send_world \<Rightarrow> Scope \<Rightarrow> string \<Rightarrow> address \<Rightarrow> 'fb send_state \<Rightarrow> (send_error, SubmitResult) result \<times> 'fb send_state" where
  "Service_Submit K w scope signedXDR treasury st =
     (case writable (sn_cfg w) (sn_stat w) of
        Some e \<Rightarrow> (Inl (SendRails e), st)
      | None \<Rightarrow>
     (case sk_from_xdr K signedXDR of
        None \<Rightarrow> (Inl EnvelopeUnreadable, st)
      | Some None \<Rightarrow> (Inl NotPlain, st)
      | Some (Some inner) \<Rightarrow>
          if sk_signatures K inner = [] then (Inl ErrUnsigned, st)
          else (case sk_hash K inner of
                  None \<Rightarrow> (Inl EnvelopeNotHashed, st)
                | Some hash \<Rightarrow>
                    (case send_authorise (sn_now w) scope hash st of
                       (Some e, st1) \<Rightarrow> (Inl e, st1)
                     | (None, st1) \<Rightarrow> send_claimed K w inner hash treasury st1))))"

section \<open>Looking again\<close>

definition LoadConfirmation :: "('tx, 'fb) send_sdk \<Rightarrow> int \<Rightarrow> Scope \<Rightarrow> string \<Rightarrow> 'fb send_state \<Rightarrow> (send_error, Confirmation) result" where
  "LoadConfirmation K now scope hash st =
     (case find (claims now scope hash) (sd_pending st) of
        None \<Rightarrow> Inl ErrNoSuchSend
      | Some p \<Rightarrow>
          (case sk_from_xdr K (ps_xdr p) of
             None \<Rightarrow> Inl EnvelopeUnreadable
           | Some None \<Rightarrow> Inl NotPlain
           | Some (Some tx) \<Rightarrow>
               (case shown K tx of
                  None \<Rightarrow> Inl ErrIndescribable
                | Some desc \<Rightarrow>
                    if pd_hash desc \<noteq> hash then Inl StoredMismatch
                    else Inr (confirmation desc (ps_xdr p) (ps_to_label p) (ps_said_amount p) (ps_said_destination p)))))"

definition Pending :: "int \<Rightarrow> Scope \<Rightarrow> 'fb send_state \<Rightarrow> pending_send list" where
  "Pending now scope st =
     rev (sort_key ps_created (filter (\<lambda>p. ps_org p = sp_org scope \<and> ps_owner p = sp_owner scope \<and> ps_submitted p = None \<and> now < ps_expires p) (sd_pending st)))"

end
