(* ===== verification/Sends_Safety.thy ===== *)
theory Sends_Safety
  imports Sends
begin

text \<open>
  What is shown of sends: a payment is put to somebody only when the envelope pays what their words say, and what is handed to
  the network is an envelope that was shown, once.
\<close>

section \<open>Preparing\<close>

lemma recordPending_cases:
  assumes "recordPending w scope c expires st = (e, st')"
  obtains (kept) "st' = st" | (added) row where "e = None" "st' = st\<lparr>sd_pending := sd_pending st @ [row]\<rparr>" "ps_hash row = cf_hash c"
      "ps_hash row \<notin> ps_hash ` set (sd_pending st)" "ps_org row = sp_org scope" "ps_owner row = sp_owner scope" "ps_xdr row = cf_xdr c"
      "ps_amount row = cf_amount c" "ps_destination row = cf_to c" "ps_submitted row = None" "ps_expires row = expires"
proof (cases "st' = st")
  case False
  let ?row = "\<lparr>ps_hash = cf_hash c, ps_org = sp_org scope, ps_owner = sp_owner scope, ps_xdr = cf_xdr c, ps_amount = cf_amount c,
    ps_asset = sn_asset_id w, ps_destination = cf_to c, ps_to_label = cf_to_label c, ps_said_amount = cf_said_amount c,
    ps_said_destination = cf_said_destination c, ps_created = sn_now w, ps_expires = expires, ps_submitted = None\<rparr>"
  have "\<not> list_ex (\<lambda>p. ps_hash p = cf_hash c) (sd_pending st)" "e = None" "st' = st\<lparr>sd_pending := sd_pending st @ [?row]\<rparr>"
    using assms False unfolding recordPending_def Let_def by (simp_all split: if_splits)
  then show ?thesis by (intro added [of ?row]) (auto simp: list_ex_iff)
qed (rule kept)

lemma recordPending_present: "recordPending w scope c expires st = (None, st') \<Longrightarrow> cf_hash c \<in> ps_hash ` set (sd_pending st) \<Longrightarrow> st' = st"
  unfolding recordPending_def Let_def by (auto simp: list_ex_iff split: if_splits)

lemma recordPending_absent:
  assumes "recordPending w scope c expires st = (None, st')" "cf_hash c \<notin> ps_hash ` set (sd_pending st)"
  shows "let p = \<lparr>ps_hash = cf_hash c, ps_org = sp_org scope, ps_owner = sp_owner scope, ps_xdr = cf_xdr c, ps_amount = cf_amount c,
      ps_asset = sn_asset_id w, ps_destination = cf_to c, ps_to_label = cf_to_label c, ps_said_amount = cf_said_amount c,
      ps_said_destination = cf_said_destination c, ps_created = sn_now w, ps_expires = expires, ps_submitted = None\<rparr>
    in st' = st\<lparr>sd_pending := sd_pending st @ [p]\<rparr> \<and> sn_now w < expires"
proof -
  have "\<not> list_ex (\<lambda>p. ps_hash p = cf_hash c) (sd_pending st)" using assms(2) unfolding list_ex_iff by force
  then show ?thesis using assms(1) unfolding recordPending_def Let_def by (simp split: if_splits)
qed

text \<open>Everything that is true of an instruction once it is shown.\<close>

definition instructed ::
  "('tx, 'fb) send_sdk \<Rightarrow> ('tx, 'fb) send_world \<Rightarrow> Scope \<Rightarrow> Grounded \<Rightarrow> 'fb send_state \<Rightarrow> 'tx \<Rightarrow> Confirmation \<Rightarrow> bool" where
  "instructed K w scope g st tx c \<longleftrightarrow>
     (\<exists>dest desc xdr. Resolve (sn_tables w) (sn_env w) (sn_beneficiaries w) (sp_org scope) (sp_owner scope) g = Inr dest
        \<and> stellarAddress w st scope = Inr (pd_from desc) \<and> shown K tx = Some desc \<and> sk_base64 K tx = Some xdr
        \<and> pd_amount desc = g_Amount g \<and> pd_to desc = Address dest \<and> pd_code desc = sn_code w
        \<and> c = confirmation desc xdr (Label dest) (g_AmountText g) (g_DestinationText g))"

lemma prepare_grounded_cases:
  assumes "prepare_grounded K w scope g st = (r, st')"
  obtains (refused) e where "r = Inl e" "st' = st"
  | (recorded) tx c e where "instructed K w scope g st tx c" "recordPending w scope c (sk_max_time K tx * 10 ^ 9) st = (e, st')"
      "r = (case e of None \<Rightarrow> Inr c | Some x \<Rightarrow> Inl (SendDb x))"
proof (cases "\<exists>tx c e. instructed K w scope g st tx c \<and> recordPending w scope c (sk_max_time K tx * 10 ^ 9) st = (e, st')
      \<and> r = (case e of None \<Rightarrow> Inr c | Some x \<Rightarrow> Inl (SendDb x))")
  case True
  then show ?thesis using recorded by blast
next
  case False
  have "\<exists>e. r = Inl e \<and> st' = st"
  proof (rule ccontr)
    assume n: "\<not> ?thesis"
    then obtain dest src tx desc xdr where s: "Resolve (sn_tables w) (sn_env w) (sn_beneficiaries w) (sp_org scope) (sp_owner scope) g = Inr dest"
      "stellarAddress w st scope = Inr src" "BuildPayment w src (Address dest) (cfg_asset (sn_cfg w)) (g_Amount g) = Inr tx"
      "shown K tx = Some desc" "agrees desc g dest (sn_code w) src" "sk_base64 K tx = Some xdr"
      using assms unfolding prepare_grounded_def by (auto split: sum.splits option.splits if_splits)
    let ?c = "confirmation desc xdr (Label dest) (g_AmountText g) (g_DestinationText g)"
    have "instructed K w scope g st tx ?c" using s unfolding instructed_def agrees_def by (auto simp: confirmation_def)
    moreover obtain e st1 where "recordPending w scope ?c (sk_max_time K tx * 10 ^ 9) st = (e, st1)" by fastforce
    moreover from this have "(r, st') = ((case e of None \<Rightarrow> Inr ?c | Some x \<Rightarrow> Inl (SendDb x)), st1)"
      using assms s by (simp add: prepare_grounded_def Let_def split: option.splits)
    ultimately show False using False by blast
  qed
  then show ?thesis using refused by blast
qed

lemma PrepareSend_cases:
  assumes "PrepareSend K w scope turns st = (r, st')"
  obtains (refused) e where "r = Inl e" "st' = st"
  | (grounded) d g where "sn_decode w turns = Some d" "verify_intent (sn_tables w) (sn_order w) (map (Tokenize (sn_tables w)) turns) d = Inr g"
      "g_Action g = ActionSend" "scope_check scope = None" "writable (sn_cfg w) (sn_stat w) = None" "prepare_grounded K w scope g st = (r, st')"
  using assms unfolding PrepareSend_def by (auto split: sum.splits option.splits if_splits)

lemma shown_hash: "shown K tx = Some d \<Longrightarrow> sk_hash K tx = Some (pd_hash d)"
proof -
  assume "shown K tx = Some d"
  then obtain e where e: "Describe.DescribeTx (sk_renderer K) (sk_network K) (\<lambda>t n. sk_hash K tx) (Some (sk_parsed K tx)) = Some e"
    "SinglePayment e = Some d" by (auto simp: shown_def split: option.splits)
  from e(1) have "sk_hash K tx = Some (td_hash e)" by (rule DescribeTx_eq) simp
  moreover have "pd_hash d = td_hash e" using e(2) by (auto simp: SinglePayment_def Let_def split: list.splits prod.splits sum.splits if_splits)
  ultimately show ?thesis by simp
qed

text \<open>The one payment an envelope is, as its description has it.\<close>

definition envelope_pays :: "('tx, 'fb) send_sdk \<Rightarrow> 'tx \<Rightarrow> address \<Rightarrow> address \<Rightarrow> stroops \<Rightarrow> string \<Rightarrow> bool" where
  "envelope_pays K tx src dest amount code \<longleftrightarrow>
     (\<exists>a. map (normal (tx_source (sk_parsed K tx))) (placed (sk_parsed K tx)) = [Payment src dest (String_of amount) (Some a)]
       \<and> (a = Native \<and> code = ''XLM'' \<or> (\<exists>c i. a = Credit c i \<and> (CHR '':'' \<notin> set c \<longrightarrow> c = code))))"

lemma shown_payment:
  assumes "shown K tx = Some d"
  shows "envelope_pays K tx (pd_from d) (pd_to d) (pd_amount d) (pd_code d)" "0 < sint (pd_amount d)"
proof -
  from assms obtain e where e: "Describe.DescribeTx (sk_renderer K) (sk_network K) (\<lambda>t n. sk_hash K tx) (Some (sk_parsed K tx)) = Some e"
    "SinglePayment e = Some d" by (auto simp: shown_def split: option.splits)
  note p = payment_is_envelope [OF e]
  show "0 < sint (pd_amount d)" using p by blast
  show "envelope_pays K tx (pd_from d) (pd_to d) (pd_amount d) (pd_code d)" using p unfolding envelope_pays_def by (auto split: if_splits)
qed

text \<open>What is shown is read off the parsed envelope and its hash.\<close>

lemma shown_same: "sk_parsed K a = sk_parsed K b \<Longrightarrow> sk_hash K a = sk_hash K b \<Longrightarrow> shown K a = shown K b"
  by (simp add: shown_def)

section \<open>Runs\<close>

text \<open>The steps of the tables: a message is read, an envelope is handed in, and everything around the pending sends changes.\<close>

inductive send_step :: "('tx, 'fb) send_sdk \<Rightarrow> 'fb send_state \<Rightarrow> 'fb send_state \<Rightarrow> bool" for K where
  step_prepare: "PrepareSend K w scope turns st = (r, st') \<Longrightarrow> send_step K st st'"
| step_submit: "Service_Submit K w scope xdr treasury st = (r, st') \<Longrightarrow> send_step K st st'"
| step_around: "send_step K st (st\<lparr>sd_tracked := t, sd_accounts := a, sd_members := m, sd_assets := s\<rparr>)"

definition send_init :: "'fb send_state \<Rightarrow> bool" where
  "send_init st \<longleftrightarrow> sd_pending st = [] \<and> sd_sent st = []"

text \<open>Each row is of an envelope that pays what the row says; what was sent was claimed, and once.\<close>

definition row_true :: "('tx, 'fb) send_sdk \<Rightarrow> pending_send \<Rightarrow> bool" where
  "row_true K p \<longleftrightarrow> (\<exists>tx d. shown K tx = Some d \<and> sk_base64 K tx = Some (ps_xdr p) \<and> pd_hash d = ps_hash p
     \<and> pd_amount d = ps_amount p \<and> pd_to d = ps_destination p)"

definition spent_row :: "pending_send list \<Rightarrow> string \<Rightarrow> bool" where
  "spent_row ps h \<longleftrightarrow> (\<exists>p \<in> set ps. ps_hash p = h \<and> ps_submitted p \<noteq> None)"

definition send_ok :: "('tx, 'fb) send_sdk \<Rightarrow> 'fb send_state \<Rightarrow> bool" where
  "send_ok K st \<longleftrightarrow> distinct (map ps_hash (sd_pending st)) \<and> (\<forall>p \<in> set (sd_pending st). row_true K p)
     \<and> distinct (map fst (sd_sent st)) \<and> list_all (\<lambda>s. spent_row (sd_pending st) (fst s)) (sd_sent st)"

lemma instructed_row:
  "instructed K w scope g st tx c \<Longrightarrow> ps_hash p = cf_hash c \<Longrightarrow> ps_xdr p = cf_xdr c \<Longrightarrow> ps_amount p = cf_amount c \<Longrightarrow> ps_destination p = cf_to c
   \<Longrightarrow> row_true K p"
  unfolding instructed_def row_true_def by (elim exE conjE, intro exI conjI) (simp_all add: confirmation_def)

lemma PrepareSend_ok:
  assumes "PrepareSend K w scope turns st = (r, st')" "send_ok K st"
  shows "send_ok K st'"
  using assms(1)
proof (cases rule: PrepareSend_cases)
  case (grounded d g)
  from grounded(6) show ?thesis
  proof (cases rule: prepare_grounded_cases)
    case (recorded tx c e)
    from recorded(2) show ?thesis
    proof (cases rule: recordPending_cases)
      case (added row)
      have "row_true K row" by (rule instructed_row [OF recorded(1) added(3,7-9)])
      then show ?thesis using assms(2) added(2,3,4) by (auto simp: send_ok_def list_all_iff spent_row_def)
    qed (use assms(2) in simp)
  qed (use assms(2) in simp)
qed (use assms(2) in simp)

definition claimed_rows :: "int \<Rightarrow> Scope \<Rightarrow> string \<Rightarrow> 'fb send_state \<Rightarrow> 'fb send_state" where
  "claimed_rows now scope hash st =
     st\<lparr>sd_pending := map (\<lambda>p. if claims now scope hash p then p\<lparr>ps_submitted := Some now\<rparr> else p) (sd_pending st)\<rparr>"

lemma Service_Submit_cases:
  assumes "Service_Submit K w scope xdr treasury st = (r, st')"
  obtains (refused) "st' = st"
  | (claimed) inner hash p where "sk_from_xdr K xdr = Some (Some inner)" "sk_signatures K inner \<noteq> []" "sk_hash K inner = Some hash"
      "writable (sn_cfg w) (sn_stat w) = None" "p \<in> set (sd_pending st)" "claims (sn_now w) scope hash p"
      "send_claimed K w inner hash treasury (claimed_rows (sn_now w) scope hash st) = (r, st')"
proof (cases "st' = st")
  case False
  then obtain inner hash where i: "sk_from_xdr K xdr = Some (Some inner)" "sk_signatures K inner \<noteq> []" "sk_hash K inner = Some hash"
    "writable (sn_cfg w) (sn_stat w) = None" "list_ex (claims (sn_now w) scope hash) (sd_pending st)"
    using assms unfolding Service_Submit_def send_authorise_def by (auto split: option.splits if_splits)
  then obtain p where "p \<in> set (sd_pending st)" "claims (sn_now w) scope hash p" by (auto simp: list_ex_iff)
  moreover have "send_claimed K w inner hash treasury (claimed_rows (sn_now w) scope hash st) = (r, st')"
    using assms i unfolding Service_Submit_def send_authorise_def claimed_rows_def by simp
  ultimately show ?thesis using claimed i by blast
qed (rule refused)

lemma send_claimed_sent:
  assumes "send_claimed K w inner hash treasury st = (r, st')"
  shows "sd_pending st' = sd_pending st \<and> (sd_sent st' = sd_sent st
    \<or> (\<exists>bump fb. sk_fee_bump K inner treasury = Some bump \<and> sn_sign w bump = Some fb \<and> sd_sent st' = sd_sent st @ [(hash, fb)]))"
  using assms unfolding send_claimed_def by (auto split: option.splits if_splits)

lemma spent_row_claimed:
  "spent_row ps h \<Longrightarrow> spent_row (map (\<lambda>p. if claims now scope hash p then p\<lparr>ps_submitted := Some now\<rparr> else p) ps) h"
  unfolding spent_row_def by (auto simp: claims_def intro: rev_image_eqI)

lemma claimed_rows_ok:
  assumes "send_ok K st" "p \<in> set (sd_pending st)" "claims now scope hash p"
  shows "send_ok K (claimed_rows now scope hash st)" "hash \<notin> fst ` set (sd_sent st)" "spent_row (sd_pending (claimed_rows now scope hash st)) hash"
proof -
  let ?f = "\<lambda>p. if claims now scope hash p then p\<lparr>ps_submitted := Some now\<rparr> else p"
  have hashes: "map ps_hash (map ?f ps) = map ps_hash ps" for ps by simp
  have "row_true K (?f q) \<longleftrightarrow> row_true K q" for q by (simp add: row_true_def)
  then have rows: "\<forall>q \<in> set (map ?f (sd_pending st)). row_true K q" using assms(1) unfolding send_ok_def set_map by blast
  have "distinct (map ps_hash (map ?f (sd_pending st)))" unfolding hashes using assms(1) by (simp add: send_ok_def)
  then show "send_ok K (claimed_rows now scope hash st)"
    using assms(1) rows spent_row_claimed unfolding send_ok_def claimed_rows_def by (simp add: list_all_iff)
  show "hash \<notin> fst ` set (sd_sent st)"
  proof
    assume "hash \<in> fst ` set (sd_sent st)"
    then have "spent_row (sd_pending st) hash" using assms(1) by (auto simp: send_ok_def list_all_iff)
    then obtain q where "q \<in> set (sd_pending st)" "ps_hash q = hash" "ps_submitted q \<noteq> None" by (auto simp: spent_row_def)
    moreover from this have "q = p" using assms by (auto simp: send_ok_def claims_def distinct_map inj_on_def)
    ultimately show False using assms(3) by (simp add: claims_def)
  qed
  show "spent_row (sd_pending (claimed_rows now scope hash st)) hash"
    unfolding spent_row_def claimed_rows_def
    by (rule bexI [of _ "?f p"]) (use assms(2,3) in \<open>simp_all add: claims_def\<close>)
qed

lemma Service_Submit_ok:
  assumes "Service_Submit K w scope xdr treasury st = (r, st')" "send_ok K st"
  shows "send_ok K st'"
  using assms(1)
proof (cases rule: Service_Submit_cases)
  case (claimed inner hash p)
  note c = claimed_rows_ok [OF assms(2) claimed(5,6)]
  have "sd_sent (claimed_rows (sn_now w) scope hash st) = sd_sent st" by (simp add: claimed_rows_def)
  then show ?thesis using send_claimed_sent [OF claimed(7)] c by (auto simp: send_ok_def)
qed (use assms(2) in simp)

lemma send_steps_ok:
  assumes "(send_step K)\<^sup>*\<^sup>* st0 st" "send_init st0"
  shows "send_ok K st"
  using assms(1)
proof (induction rule: rtranclp_induct)
  case base
  then show ?case using assms(2) by (simp add: send_ok_def send_init_def)
next
  case (step a b)
  from step(2) show ?case
  proof cases
    case step_prepare
    then show ?thesis using PrepareSend_ok step(3) by blast
  next
    case step_submit
    then show ?thesis using Service_Submit_ok step(3) by blast
  next
    case step_around
    then show ?thesis using step(3) by (simp add: send_ok_def)
  qed
qed

section \<open>What is shown and what is sent\<close>

text \<open>Every row of a reachable state was recorded by showing a confirmation of what it holds to the org and owner it names.\<close>

definition recorded_for :: "('tx, 'fb) send_sdk \<Rightarrow> pending_send \<Rightarrow> Confirmation \<Rightarrow> Scope \<Rightarrow> bool" where
  "recorded_for K p c scope \<longleftrightarrow> ps_hash p = cf_hash c \<and> ps_xdr p = cf_xdr c \<and> ps_amount p = cf_amount c \<and> ps_destination p = cf_to c
     \<and> ps_org p = sp_org scope \<and> ps_owner p = sp_owner scope
     \<and> (\<exists>tx d. shown K tx = Some d \<and> sk_base64 K tx = Some (cf_xdr c) \<and> pd_hash d = cf_hash c \<and> pd_amount d = cf_amount c
          \<and> pd_to d = cf_to c \<and> pd_from d = cf_from c \<and> pd_code d = cf_asset c)"

definition shown_before :: "('tx, 'fb) send_sdk \<Rightarrow> 'fb send_state \<Rightarrow> 'fb send_state \<Rightarrow> pending_send \<Rightarrow> bool" where
  "shown_before K st0 st p \<longleftrightarrow>
     (\<exists>w scope turns st1 st2 c. (send_step K)\<^sup>*\<^sup>* st0 st1 \<and> PrepareSend K w scope turns st1 = (Inr c, st2) \<and> (send_step K)\<^sup>*\<^sup>* st2 st
        \<and> recorded_for K p c scope)"

lemma shown_before_step: "shown_before K st0 st p \<Longrightarrow> send_step K st st' \<Longrightarrow> shown_before K st0 st' p"
  unfolding shown_before_def by (meson rtranclp.rtrancl_into_rtrancl)

lemma shown_before_claimed: "shown_before K st0 st p \<Longrightarrow> shown_before K st0 st (p\<lparr>ps_submitted := x\<rparr>)"
  by (simp add: shown_before_def recorded_for_def)

lemma instructed_recorded:
  assumes "instructed K w scope g st tx c" "ps_hash p = cf_hash c" "ps_xdr p = cf_xdr c" "ps_amount p = cf_amount c" "ps_destination p = cf_to c"
    "ps_org p = sp_org scope" "ps_owner p = sp_owner scope"
  shows "recorded_for K p c scope"
proof -
  obtain dest :: Destination and desc xdr where "shown K tx = Some desc" "sk_base64 K tx = Some xdr"
    "c = confirmation desc xdr (Label dest) (g_AmountText g) (g_DestinationText g)" using assms(1) unfolding instructed_def by blast
  then show ?thesis using assms(2-) by (auto simp: recorded_for_def confirmation_def intro!: exI [of _ tx] exI [of _ desc])
qed

lemma PrepareSend_rows:
  assumes "PrepareSend K w scope turns st = (r, st')"
  obtains (kept) "sd_pending st' = sd_pending st"
  | (added) p c where "r = Inr c" "sd_pending st' = sd_pending st @ [p]" "recorded_for K p c scope"
  using assms
proof (cases rule: PrepareSend_cases)
  case (grounded d g)
  from grounded(6) show ?thesis
  proof (cases rule: prepare_grounded_cases)
    case (recorded tx c e)
    from recorded(2) show ?thesis
    proof (cases rule: recordPending_cases)
      case (added row)
      show ?thesis using that(2) [of c row] recorded(3) added(1,2) instructed_recorded [OF recorded(1) added(3,7,8,9,5,6)] by simp
    qed (use that(1) in simp)
  qed (use that(1) in simp)
qed (use that(1) in simp)

lemma rows_shown:
  assumes "(send_step K)\<^sup>*\<^sup>* st0 st" "send_init st0"
  shows "\<forall>p \<in> set (sd_pending st). shown_before K st0 st p"
  using assms(1)
proof (induction rule: rtranclp_induct)
  case base
  then show ?case using assms(2) by (simp add: send_init_def)
next
  case (step a b)
  have old: "shown_before K st0 b p" if "p \<in> set (sd_pending a)" for p using step that shown_before_step by blast
  from step(2) show ?case
  proof cases
    case (step_prepare w scope turns r)
    from step_prepare show ?thesis
    proof (cases rule: PrepareSend_rows)
      case (added p c)
      have "shown_before K st0 b p" unfolding shown_before_def using step(1) step_prepare added(1,3) by blast
      then show ?thesis using added(2) old by auto
    qed (use old in simp)
  next
    case (step_submit w scope xdr treasury r)
    then show ?thesis
    proof (cases rule: Service_Submit_cases)
      case (claimed inner hash p)
      have "sd_pending b = map (\<lambda>p. if claims (sn_now w) scope hash p then p\<lparr>ps_submitted := Some (sn_now w)\<rparr> else p) (sd_pending a)"
        using send_claimed_sent [OF claimed(7)] by (simp add: claimed_rows_def)
      moreover have "shown_before K st0 b (p\<lparr>ps_submitted := x\<rparr>)" if "p \<in> set (sd_pending a)" for p x using old [OF that] by (rule shown_before_claimed)
      ultimately show ?thesis using old by auto
    qed (use old in simp)
  next
    case step_around
    then show ?thesis using old by simp
  qed
qed

text \<open>
  C4: nobody is shown a payment their words do not say.  A confirmation that \<open>PrepareSend\<close> returns is of an envelope that is one
  payment, from the asker's own wallet, of exactly the amount of the grounded instruction and of the deployment's asset, to exactly
  the address their destination resolves to among their own recipients; its text, amount and hash are read out of that envelope.
  The row with that hash holds the amount and the destination that are shown.  Unless there was a row with that hash before, it is
  new, the only change, unclaimed and not yet expired, and holds the org and the owner who asked, the envelope, its label and the
  words said, and expires when the envelope does; if there was one, it is left as it was, whoever it was recorded for.  Of the hash
  the argument needs that no two envelopes that share it parse differently.
\<close>

theorem PrepareSend_shows_instruction:
  assumes "(send_step K)\<^sup>*\<^sup>* st0 st" "send_init st0" "PrepareSend K w scope turns st = (Inr c, st')"
    and "\<forall>a b. sk_hash K a = Some (cf_hash c) \<and> sk_hash K b = Some (cf_hash c) \<longrightarrow> sk_parsed K a = sk_parsed K b"
  shows "\<exists>d g dest tx p. sn_decode w turns = Some d
    \<and> verify_intent (sn_tables w) (sn_order w) (map (Tokenize (sn_tables w)) turns) d = Inr g \<and> g_Action g = ActionSend
    \<and> Resolve (sn_tables w) (sn_env w) (sn_beneficiaries w) (sp_org scope) (sp_owner scope) g = Inr dest
    \<and> stellarAddress w st scope = Inr (cf_from c) \<and> sk_base64 K tx = Some (cf_xdr c) \<and> sk_hash K tx = Some (cf_hash c)
    \<and> cf_amount c = g_Amount g \<and> 0 < sint (cf_amount c) \<and> cf_to c = Address dest \<and> cf_asset c = sn_code w
    \<and> envelope_pays K tx (cf_from c) (cf_to c) (cf_amount c) (cf_asset c)
    \<and> p \<in> set (sd_pending st') \<and> ps_hash p = cf_hash c \<and> ps_amount p = cf_amount c \<and> ps_destination p = cf_to c
    \<and> (if cf_hash c \<in> ps_hash ` set (sd_pending st) then st' = st
        else st' = st\<lparr>sd_pending := sd_pending st @ [p]\<rparr> \<and> ps_org p = sp_org scope \<and> ps_owner p = sp_owner scope \<and> ps_xdr p = cf_xdr c
          \<and> ps_to_label p = Label dest \<and> ps_said_amount p = g_AmountText g \<and> ps_said_destination p = g_DestinationText g
          \<and> ps_expires p = sk_max_time K tx * 10 ^ 9 \<and> sn_now w < ps_expires p \<and> ps_submitted p = None)"
  using assms(3)
proof (cases rule: PrepareSend_cases)
  case (grounded d g)
  from grounded(6) show ?thesis
  proof (cases rule: prepare_grounded_cases)
    case (recorded tx c1 e)
    from recorded(3) have e: "e = None" "c1 = c" by (auto split: option.splits)
    from recorded(1) e(2) obtain dest desc xdr where i: "Resolve (sn_tables w) (sn_env w) (sn_beneficiaries w) (sp_org scope) (sp_owner scope) g = Inr dest"
      "stellarAddress w st scope = Inr (pd_from desc)" "shown K tx = Some desc" "sk_base64 K tx = Some xdr"
      "pd_amount desc = g_Amount g" "pd_to desc = Address dest" "pd_code desc = sn_code w"
      "c = confirmation desc xdr (Label dest) (g_AmountText g) (g_DestinationText g)" unfolding instructed_def by auto
    have c: "cf_amount c = pd_amount desc" "cf_to c = pd_to desc" "cf_from c = pd_from desc" "cf_hash c = pd_hash desc" "cf_asset c = pd_code desc"
      "cf_xdr c = xdr" "cf_to_label c = Label dest" "cf_said_amount c = g_AmountText g" "cf_said_destination c = g_DestinationText g"
      by (simp_all add: i(8) confirmation_def)
    have rec: "recordPending w scope c (sk_max_time K tx * 10 ^ 9) st = (None, st')" using recorded(2) e by simp
    let ?as_shown = "\<lambda>p. ps_hash p = cf_hash c \<and> ps_amount p = cf_amount c \<and> ps_destination p = cf_to c
        \<and> (if cf_hash c \<in> ps_hash ` set (sd_pending st) then st' = st
            else st' = st\<lparr>sd_pending := sd_pending st @ [p]\<rparr> \<and> ps_org p = sp_org scope \<and> ps_owner p = sp_owner scope \<and> ps_xdr p = cf_xdr c
              \<and> ps_to_label p = Label dest \<and> ps_said_amount p = g_AmountText g \<and> ps_said_destination p = g_DestinationText g
              \<and> ps_expires p = sk_max_time K tx * 10 ^ 9 \<and> sn_now w < ps_expires p \<and> ps_submitted p = None)"
    have "\<exists>p \<in> set (sd_pending st'). ?as_shown p"
    proof (cases "cf_hash c \<in> ps_hash ` set (sd_pending st)")
      case True
      then obtain p where p: "p \<in> set (sd_pending st)" "ps_hash p = cf_hash c" by auto
      have "st' = st" using recordPending_present [OF rec True] .
      moreover have "row_true K p" using send_steps_ok [OF assms(1,2)] p(1) by (simp add: send_ok_def)
      then obtain tx1 d1 where t: "shown K tx1 = Some d1" "pd_hash d1 = cf_hash c" "pd_amount d1 = ps_amount p" "pd_to d1 = ps_destination p"
        using p(2) by (auto simp: row_true_def)
      have h: "sk_hash K tx1 = Some (cf_hash c)" "sk_hash K tx = Some (cf_hash c)" using shown_hash [OF t(1)] shown_hash [OF i(3)] t(2) c(4) by simp_all
      have "sk_parsed K tx1 = sk_parsed K tx" using assms(4) h by blast
      then have "shown K tx1 = shown K tx" by (rule shown_same) (simp add: h)
      then have "desc = d1" using t(1) i(3) by simp
      ultimately show ?thesis using p t(3,4) c(1,2) True by (intro bexI [of _ p]) simp_all
    next
      case False
      then show ?thesis using recordPending_absent [OF rec False] c by (auto simp: Let_def)
    qed
    then obtain p where p: "p \<in> set (sd_pending st')" "?as_shown p" by blast
    show ?thesis using grounded(1-3) i(1-7) c(1-6) shown_payment [OF i(3)] shown_hash [OF i(3)] p
      by (intro exI [of _ d] exI [of _ g] exI [of _ dest] exI [of _ tx] exI [of _ p]) (auto split: if_splits)
  qed simp
qed simp

text \<open>
  C3: what is sent is what was shown to the one who sends it, and once.  In any run, no payment is handed to the network twice,
  whatever is handed in and by whom.  What a submission hands over is the operator's fee bump around the very envelope that was
  handed in, which carries a signature; a pending row with its hash stood for the org and the owner who hands it in, unclaimed and
  not expired; and earlier in the run a confirmation with that hash was shown to that org and owner, whose sender, recipient and
  amount are the one payment of the envelope that is sent.  Of the hash of the recorded envelope the argument needs that no other
  envelope that shares it parses differently.
\<close>

theorem Submit_sends_what_was_shown:
  assumes "(send_step K)\<^sup>*\<^sup>* st0 st" "send_init st0" "Service_Submit K w scope xdr treasury st = (r, st')"
    and "(h, fb) \<in> set (sd_sent st')" "(h, fb) \<notin> set (sd_sent st)"
    and "\<forall>a b. sk_hash K a = Some h \<and> sk_hash K b = Some h \<longrightarrow> sk_parsed K a = sk_parsed K b"
  shows "distinct (map fst (sd_sent st')) \<and> (\<exists>p inner bump. p \<in> set (sd_pending st) \<and> claims (sn_now w) scope h p
    \<and> sk_from_xdr K xdr = Some (Some inner) \<and> sk_signatures K inner \<noteq> [] \<and> sk_hash K inner = Some h
    \<and> sk_fee_bump K inner treasury = Some bump \<and> sn_sign w bump = Some fb
    \<and> (\<exists>w1 scope1 turns st1 st2 c. (send_step K)\<^sup>*\<^sup>* st0 st1 \<and> PrepareSend K w1 scope1 turns st1 = (Inr c, st2) \<and> (send_step K)\<^sup>*\<^sup>* st2 st
         \<and> sp_org scope1 = sp_org scope \<and> sp_owner scope1 = sp_owner scope \<and> cf_hash c = h \<and> cf_amount c = ps_amount p \<and> cf_to c = ps_destination p
         \<and> envelope_pays K inner (cf_from c) (cf_to c) (cf_amount c) (cf_asset c)))"
proof -
  have ok: "send_ok K st" by (rule send_steps_ok [OF assms(1,2)])
  have once: "distinct (map fst (sd_sent st'))" using Service_Submit_ok [OF assms(3) ok] by (simp add: send_ok_def)
  from assms(3) show ?thesis
  proof (cases rule: Service_Submit_cases)
    case (claimed inner hash p)
    have "sd_sent (claimed_rows (sn_now w) scope hash st) = sd_sent st" by (simp add: claimed_rows_def)
    with send_claimed_sent [OF claimed(7)] assms(4,5) obtain bump where b: "h = hash" "sk_fee_bump K inner treasury = Some bump" "sn_sign w bump = Some fb"
      by (elim conjE disjE exE) simp_all
    have p: "ps_hash p = h" "ps_org p = sp_org scope" "ps_owner p = sp_owner scope" using claimed(6) b(1) by (simp_all add: claims_def)
    obtain w1 scope1 turns st1 st2 c where s: "(send_step K)\<^sup>*\<^sup>* st0 st1" "PrepareSend K w1 scope1 turns st1 = (Inr c, st2)" "(send_step K)\<^sup>*\<^sup>* st2 st"
      "recorded_for K p c scope1" using rows_shown [OF assms(1,2)] claimed(5) unfolding shown_before_def by blast
    obtain tx d where d: "shown K tx = Some d" "pd_hash d = cf_hash c" "pd_amount d = cf_amount c" "pd_to d = cf_to c" "pd_from d = cf_from c" "pd_code d = cf_asset c"
      using s(4) unfolding recorded_for_def by blast
    have c: "cf_hash c = h" "cf_amount c = ps_amount p" "cf_to c = ps_destination p" "sp_org scope1 = sp_org scope" "sp_owner scope1 = sp_owner scope"
      using s(4) p unfolding recorded_for_def by simp_all
    have same: "sk_parsed K inner = sk_parsed K tx" using assms(6) claimed(3) shown_hash [OF d(1)] d(2) b(1) c(1) by metis
    have "envelope_pays K inner (cf_from c) (cf_to c) (cf_amount c) (cf_asset c)"
      using shown_payment(1) [OF d(1)] unfolding d(3-6) envelope_pays_def same .
    then show ?thesis using once claimed(1,2,3,5,6) b s(1-3) c by blast
  qed (use assms(4,5) in simp)
qed

section \<open>Examples\<close>

text \<open>``send 5 bob'', shown and then signed: an envelope is whether it carries the signature.\<close>

definition demo_hash64 :: string where
  "demo_hash64 = replicate 64 (CHR ''a'')"

definition demo_send_tx :: transaction where
  "demo_send_tx = \<lparr>tx_source = ''GFROM'', tx_sequence = 5, tx_fee = 100, tx_min = 0, tx_max = 100, tx_memo = NoMemo,
     tx_ops = [Payment ''GFROM'' demo_key (String_of 50000000) (Some Native)], tx_data = None\<rparr>"

definition demo_send_sdk :: "(transaction \<times> bool, unit) send_sdk" where
  "demo_send_sdk = \<lparr>sk_network = ''Test'', sk_renderer = demo_renderer, sk_parsed = fst,
     sk_hash = (\<lambda>tx. Some (if fst tx = demo_send_tx then demo_hash64 else replicate 64 (CHR ''b''))),
     sk_base64 = (\<lambda>tx. Some (if fst tx = demo_send_tx then if snd tx then ''s'' else ''u'' else ''x'')), sk_max_time = (\<lambda>tx. sint (tx_max (fst tx))),
     sk_from_xdr = (\<lambda>x. if x = ''s'' then Some (Some (demo_send_tx, True)) else if x = ''u'' then Some (Some (demo_send_tx, False)) else None),
     sk_signatures = (\<lambda>tx. if snd tx then [demo_sig] else []), sk_fee_bump = (\<lambda>tx a. Some ()), sk_bump_hash = (\<lambda>b. Some ''b'')\<rparr>"

text \<open>Only envelopes of the one payment have its hash.\<close>

lemma demo_send_hash:
  assumes "sk_hash demo_send_sdk a = Some demo_hash64"
  shows "sk_parsed demo_send_sdk a = demo_send_tx"
proof -
  have "replicate 64 (CHR ''b'') \<noteq> demo_hash64" by (simp add: demo_hash64_def numeral_eq_Suc)
  then show ?thesis using assms by (auto simp: demo_send_sdk_def split: if_splits)
qed

definition demo_native :: rails_config where
  "demo_native = demo_cfg\<lparr>CreditAsset := None\<rparr>"

definition demo_send_world :: "(transaction \<times> bool, unit) send_world" where
  "demo_send_world = \<lparr>sn_now = 20, sn_cfg = demo_native, sn_code = ''XLM'', sn_asset_id = 1, sn_stat = (\<lambda>_. StatNotExist), sn_pf = demo_pf,
     sn_decode = (\<lambda>turns. Some demo_decoded), sn_tables = plain_tables, sn_order = multipliers,
     sn_env = \<lparr>resolve_env.pg_lower = (\<lambda>s. s), pg_like = (\<lambda>a b. False), valid_key = (\<lambda>a. True), order_labels = (\<lambda>bs. bs)\<rparr>,
     sn_beneficiaries = [\<lparr>beneficiary.b_org = 1, b_owner = ''u'', b_label = ''bob'', b_address = demo_key\<rparr>],
     sn_build = (\<lambda>a ops. Some (demo_send_tx\<lparr>tx_source := a, tx_ops := ops\<rparr>, False)), sn_sign = (\<lambda>b. Some b), sn_horizon = (\<lambda>b. NoCodes), sn_lookup = (\<lambda>h. NotFound)\<rparr>"

definition demo_sends :: "unit send_state" where
  "demo_sends = \<lparr>sd_pending = [], sd_tracked = [\<lparr>tk_address = ''GFROM'', tk_org = 1, tk_account = 4, tk_role = ''member''\<rparr>],
     sd_accounts = [\<lparr>oa_id = 4, oa_org = 1, oa_kind = ''member'', oa_owner = ''u''\<rparr>], sd_members = member_init\<lparr>org_rows := [1]\<rparr>,
     sd_assets = [1], sd_sent = []\<rparr>"

definition demo_shown :: PaymentDescription where
  "demo_shown = \<lparr>pd_from = ''GFROM'', pd_to = demo_key, pd_amount = 50000000, pd_code = ''XLM'', pd_issuer = [], pd_native = True, pd_hash = demo_hash64\<rparr>"

lemma demo_send_shown: "shown demo_send_sdk (demo_send_tx, b) = Some demo_shown"
proof -
  have "describeMemo (tx_memo demo_send_tx) = Some (''none'', [])" by (simp add: demo_send_tx_def describeMemo_def)
  moreover have "describeOp demo_renderer 0 (Payment ''GFROM'' demo_key (String_of 50000000) (Some Native)) (tx_source demo_send_tx) =
      Some (opDescription 0 ''payment'' ''GFROM'' (''Send '' @ String_of 50000000 @ '' XLM to '' @ demo_key)
        [Field ''amount'' KindAmount (String_of 50000000), Field ''asset'' KindAsset ''native'', Field ''destination'' KindAddress demo_key])"
    by (simp add: demo_send_tx_def describeOp_def normalize_String describeAsset_def effective_def assetCode_def)
  ultimately show ?thesis
    by (simp add: shown_def demo_send_sdk_def Describe.DescribeTx_def demo_send_tx_def
        SinglePayment_def opDescription_def paymentFields_def last_value_def Parse_String Let_def demo_shown_def)
qed

definition demo_confirmation :: Confirmation where
  "demo_confirmation = confirmation demo_shown ''u'' ''bob'' ''5'' ''bob''"

definition demo_pending :: pending_send where
  "demo_pending = \<lparr>ps_hash = demo_hash64, ps_org = 1, ps_owner = ''u'', ps_xdr = ''u'', ps_amount = 50000000, ps_asset = 1, ps_destination = demo_key,
     ps_to_label = ''bob'', ps_said_amount = ''5'', ps_said_destination = ''bob'', ps_created = 20, ps_expires = 100 * 10 ^ 9, ps_submitted = None\<rparr>"

lemma demo_recorded: "recordPending demo_send_world demo_scope demo_confirmation (100 * 10 ^ 9) demo_sends = (None, demo_sends\<lparr>sd_pending := [demo_pending]\<rparr>)"
proof -
  have "hash_ok demo_hash64" "issuer_ok demo_key" using demo_hash demo_signer by (simp_all add: hash_ok_def demo_hash64_def demo_key_def)
  then show ?thesis
    by (simp add: recordPending_def demo_confirmation_def confirmation_def demo_shown_def demo_send_world_def demo_pf_def demo_sends_def demo_scope_def demo_pending_def)
qed

lemma demo_prepared:
  "PrepareSend demo_send_sdk demo_send_world demo_scope [demo_message] demo_sends = (Inr demo_confirmation, demo_sends\<lparr>sd_pending := [demo_pending]\<rparr>)"
proof -
  let ?g = "\<lparr>g_Action = ActionSend, g_Amount = 50000000, g_AmountText = ''5'', g_DestinationText = ''bob'',
       g_DestinationKind = DestinationBeneficiary, g_AmountSpan = \<lparr>Turn = 0, SpanStart = 1, SpanEnd = 2\<rparr>,
       g_DestinationSpan = \<lparr>Turn = 0, SpanStart = 2, SpanEnd = 3\<rparr>\<rparr>"
  have wr: "writable (sn_cfg demo_send_world) (sn_stat demo_send_world) = None" by (simp add: demo_send_world_def demo_native_def demo_cfg_def writable_def)
  have "ToLower plain_tables (TrimSpace ''bob'') = ''bob''"
    by (simp add: TrimSpace_digits IsSpace_def ToLower_ascii ascii_def lower_byte_def ascii_lower_def char_of_eq_iff take_bit_eq_mod)
  then have r: "Resolve (sn_tables demo_send_world) (sn_env demo_send_world) (sn_beneficiaries demo_send_world) (sp_org demo_scope) (sp_owner demo_scope) ?g =
      Inr \<lparr>Address = demo_key, Label = ''bob'', dest_kind = DestinationBeneficiary\<rparr>"
    by (simp add: Resolve_def resolveBeneficiary_def Let_def demo_send_world_def demo_scope_def DestinationAddress_def DestinationBeneficiary_def)
  have s: "stellarAddress demo_send_world demo_sends demo_scope = Inr ''GFROM''"
    by (simp add: stellarAddress_def demo_send_world_def demo_pf_def demo_scope_def AddressForOwner_def demo_sends_def)
  have b: "BuildPayment demo_send_world ''GFROM'' demo_key (cfg_asset (sn_cfg demo_send_world)) 50000000 = Inr (demo_send_tx, False)"
  proof -
    have "(50000000 :: stroops) \<noteq> 0" "demo_key \<noteq> []" "demo_key \<noteq> ''GFROM''" by (simp_all add: demo_key_def) (simp add: numeral_eq_Suc)
    moreover have "demo_send_tx\<lparr>tx_source := ''GFROM'', tx_ops := [Payment ''GFROM'' demo_key (String_of 50000000) (Some Native)]\<rparr> = demo_send_tx"
      by (simp add: demo_send_tx_def)
    moreover have "cfg_asset (sn_cfg demo_send_world) = Some Native" by (simp add: demo_send_world_def demo_native_def cfg_asset_def)
    ultimately show ?thesis by (simp add: BuildPayment_def demo_send_world_def)
  qed
  have a: "agrees demo_shown ?g \<lparr>Address = demo_key, Label = ''bob'', dest_kind = DestinationBeneficiary\<rparr> (sn_code demo_send_world) ''GFROM''"
    by (simp add: agrees_def demo_shown_def demo_send_world_def)
  have p: "prepare_grounded demo_send_sdk demo_send_world demo_scope ?g demo_sends = (Inr demo_confirmation, demo_sends\<lparr>sd_pending := [demo_pending]\<rparr>)"
    using r s b a demo_recorded by (simp add: prepare_grounded_def demo_send_shown)
      (simp add: demo_send_sdk_def demo_confirmation_def demo_send_tx_def)
  have "sn_decode demo_send_world [demo_message] = Some demo_decoded" "sn_tables demo_send_world = plain_tables" "sn_order demo_send_world = multipliers"
    by (simp_all add: demo_send_world_def)
  then show ?thesis using demo_verified wr p by (simp add: PrepareSend_def demo_scope_ok)
qed

lemma demo_send_init: "send_init demo_sends"
  by (simp add: send_init_def demo_sends_def)

theorem PrepareSend_shows_instruction_witness:
  "\<exists>p. envelope_pays demo_send_sdk (demo_send_tx, False) ''GFROM'' demo_key 50000000 ''XLM''
     \<and> snd (PrepareSend demo_send_sdk demo_send_world demo_scope [demo_message] demo_sends) = demo_sends\<lparr>sd_pending := [p]\<rparr>
     \<and> ps_amount p = 50000000 \<and> ps_destination p = demo_key \<and> ps_owner p = ''u'' \<and> 20 < ps_expires p"
proof -
  have c: "cf_hash demo_confirmation = demo_hash64" "cf_amount demo_confirmation = 50000000" "cf_to demo_confirmation = demo_key" "cf_from demo_confirmation = ''GFROM''"
    "cf_asset demo_confirmation = ''XLM''" by (simp_all add: demo_confirmation_def confirmation_def demo_shown_def)
  have h: "\<forall>a b. sk_hash demo_send_sdk a = Some (cf_hash demo_confirmation) \<and> sk_hash demo_send_sdk b = Some (cf_hash demo_confirmation)
      \<longrightarrow> sk_parsed demo_send_sdk a = sk_parsed demo_send_sdk b" using demo_send_hash unfolding c(1) by metis
  have n: "demo_hash64 \<notin> ps_hash ` set (sd_pending demo_sends)" by (simp add: demo_sends_def)
  note t = PrepareSend_shows_instruction [OF rtranclp.rtrancl_refl demo_send_init demo_prepared h, unfolded c if_not_P [OF n]]
  from t obtain tx p where r: "sk_hash demo_send_sdk tx = Some demo_hash64" "envelope_pays demo_send_sdk tx ''GFROM'' demo_key 50000000 ''XLM''"
    "demo_sends\<lparr>sd_pending := [demo_pending]\<rparr> = demo_sends\<lparr>sd_pending := sd_pending demo_sends @ [p]\<rparr>" "ps_amount p = 50000000" "ps_destination p = demo_key"
    "ps_owner p = sp_owner demo_scope" "sn_now demo_send_world < ps_expires p" by (elim exE conjE) assumption
  have "sk_parsed demo_send_sdk tx = sk_parsed demo_send_sdk (demo_send_tx, False)" using demo_send_hash [OF r(1)] by (simp add: demo_send_sdk_def)
  then have "envelope_pays demo_send_sdk (demo_send_tx, False) ''GFROM'' demo_key 50000000 ''XLM''" using r(2) by (simp add: envelope_pays_def)
  moreover have "sd_pending demo_sends = []" "sp_owner demo_scope = ''u''" "sn_now demo_send_world = 20"
    by (simp_all add: demo_sends_def demo_scope_def demo_send_world_def)
  ultimately show ?thesis using r(3-7) demo_prepared by (intro exI [of _ p]) simp
qed

theorem Submit_sends_what_was_shown_witness:
  "sd_sent (snd (Service_Submit demo_send_sdk demo_send_world demo_scope ''s'' ''GOP'' (demo_sends\<lparr>sd_pending := [demo_pending]\<rparr>))) = [(demo_hash64, ())]
   \<and> (\<exists>c :: Confirmation. cf_hash c = demo_hash64 \<and> envelope_pays demo_send_sdk (demo_send_tx, True) (cf_from c) (cf_to c) (cf_amount c) (cf_asset c))"
proof -
  let ?st = "demo_sends\<lparr>sd_pending := [demo_pending]\<rparr>"
  have reach: "(send_step demo_send_sdk)\<^sup>*\<^sup>* demo_sends ?st" using step_prepare [OF demo_prepared] by (rule r_into_rtranclp)
  obtain r st' where s: "Service_Submit demo_send_sdk demo_send_world demo_scope ''s'' ''GOP'' ?st = (r, st')" by fastforce
  have "writable (sn_cfg demo_send_world) (sn_stat demo_send_world) = None" by (simp add: demo_send_world_def demo_native_def demo_cfg_def writable_def)
  moreover have "claims (sn_now demo_send_world) demo_scope demo_hash64 demo_pending" by (simp add: claims_def demo_pending_def demo_send_world_def demo_scope_def)
  ultimately have sent: "sd_sent st' = [(demo_hash64, ())]"
    using s by (auto simp: Service_Submit_def send_authorise_def send_claimed_def demo_send_sdk_def demo_sends_def demo_send_world_def)
  have new: "(demo_hash64, ()) \<in> set (sd_sent st')" "(demo_hash64, ()) \<notin> set (sd_sent ?st)" unfolding sent by (simp_all add: demo_sends_def)
  have h: "\<forall>a b. sk_hash demo_send_sdk a = Some demo_hash64 \<and> sk_hash demo_send_sdk b = Some demo_hash64
      \<longrightarrow> sk_parsed demo_send_sdk a = sk_parsed demo_send_sdk b" using demo_send_hash by metis
  obtain inner and c :: Confirmation where i: "sk_from_xdr demo_send_sdk ''s'' = Some (Some inner)" "cf_hash c = demo_hash64"
    "envelope_pays demo_send_sdk inner (cf_from c) (cf_to c) (cf_amount c) (cf_asset c)"
    using Submit_sends_what_was_shown [OF reach demo_send_init s new h] by blast
  have "inner = (demo_send_tx, True)" using i(1) by (simp add: demo_send_sdk_def)
  then show ?thesis unfolding s using sent i(2,3) by auto
qed

end
