(* ===== verification/Markets.thy ===== *)
theory Markets
  imports Payroll
begin

text \<open>
  \<^verbatim>\<open>settlement/ops_dex.go\<close>, \<^verbatim>\<open>settlement/quote.go\<close>, \<^verbatim>\<open>settlement/ops_trustline.go\<close> and \<^verbatim>\<open>api/assets.go\<close>: offers, swaps and their
  floors, trustlines, what an account holds and how an asset is named.  An asset that is nil in Go is \<open>None\<close>.  Which keys are valid
  is an argument, and so is what Horizon answers; the wording of a refusal is left out, and so is a client that cannot ask for a
  quote at all (\<^verbatim>\<open>ErrNoPathFinder\<close>), which only a test double is.
\<close>

section \<open>Offers\<close>

record Price =
  price_n :: "32 word"
  price_d :: "32 word"

datatype dex_error =
    PriceTerms | BadOfferAccount | OfferAssets | OfferIndescribable | SellsItself | CancelNeedsID | NegativeOffer
  | BadSwapSender | BadSwapDestination | SwapAssets | SendNotPositive | ErrNoSlippageBound
  | QuoteNotPositive | BadTolerance | BoundOverflow | BoundNothing
  | BadTrustAccount | TrustNeedsIssued | BadIssuer | OwnAsset | NegativeLimit

definition NewPrice :: "32 word \<Rightarrow> 32 word \<Rightarrow> (dex_error, Price) result" where
  "NewPrice n d = (if sint n \<le> 0 \<or> sint d \<le> 0 then Inl PriceTerms else Inr \<lparr>price_n = n, price_d = d\<rparr>)"

definition Price_Cmp :: "Price \<Rightarrow> Price \<Rightarrow> int" where
  "Price_Cmp p q =
     (let left = sint (price_n p) * sint (price_d q); right = sint (price_n q) * sint (price_d p)
      in if left < right then -1 else if left > right then 1 else 0)"

record OfferRequest =
  of_account :: string
  of_selling :: "asset option"
  of_buying :: "asset option"
  of_amount :: stroops
  of_price :: Price
  of_offer :: int64
  of_buy :: bool

definition Offer :: "(string \<Rightarrow> bool) \<Rightarrow> OfferRequest \<Rightarrow> (dex_error, Describe.operation list) result" where
  "Offer valid req =
     (if \<not> valid (of_account req) then Inl BadOfferAccount
      else if of_selling req = None \<or> of_buying req = None then Inl OfferAssets
      else case describeAsset (of_selling req) of
        None \<Rightarrow> Inl OfferIndescribable
      | Some selling \<Rightarrow>
      (case describeAsset (of_buying req) of
         None \<Rightarrow> Inl OfferIndescribable
       | Some buying \<Rightarrow>
           if selling = buying then Inl SellsItself
           else let cancelling = IsZero (of_amount req)
           in if cancelling \<and> of_offer req = 0 then Inl CancelNeedsID
              else if Sign (of_amount req) < 0 then Inl NegativeOffer
              else if \<not> cancelling \<and> (sint (price_n (of_price req)) \<le> 0 \<or> sint (price_d (of_price req)) \<le> 0) then Inl PriceTerms
              else let price = (if cancelling then (1, 1) else (price_n (of_price req), price_d (of_price req)))
              in Inr [if of_buy req
                      then ManageBuyOffer (of_account req) (of_selling req) (of_buying req) (String_of (of_amount req)) price (of_offer req)
                      else ManageSellOffer (of_account req) (of_selling req) (of_buying req) (String_of (of_amount req)) price (of_offer req)]))"

section \<open>Swaps\<close>

record SwapRequest =
  sr_from :: string
  sr_to :: string
  sr_send_asset :: "asset option"
  sr_dest_asset :: "asset option"
  sr_send :: stroops
  sr_minimum :: stroops
  sr_path :: "asset option list"

definition Swap :: "(string \<Rightarrow> bool) \<Rightarrow> SwapRequest \<Rightarrow> (dex_error, Describe.operation list) result" where
  "Swap valid req =
     (if \<not> valid (sr_from req) then Inl BadSwapSender
      else if \<not> valid (sr_to req) then Inl BadSwapDestination
      else if sr_send_asset req = None \<or> sr_dest_asset req = None then Inl SwapAssets
      else if Sign (sr_send req) \<le> 0 then Inl SendNotPositive
      else if Sign (sr_minimum req) \<le> 0 then Inl ErrNoSlippageBound
      else Inr [PathStrictSend (sr_from req) (sr_send_asset req) (String_of (sr_send req)) (sr_to req) (sr_dest_asset req)
                  (String_of (sr_minimum req)) (sr_path req)])"

definition SlippageBound :: "stroops \<Rightarrow> int64 \<Rightarrow> (dex_error, stroops) result" where
  "SlippageBound quote bps =
     (if Sign quote \<le> 0 then Inl QuoteNotPositive
      else if sint bps < 0 \<or> sint bps \<ge> 10000 then Inl BadTolerance
      else let scaled = sint quote * (10000 - sint bps) div 10000
      in if \<not> in_int64 scaled then Inl BoundOverflow
         else let bound = word_of_int scaled
         in if Sign bound \<le> 0 then Inl BoundNothing else Inr bound)"

section \<open>Quotes\<close>

record path_record =
  pa_amount :: string
  pa_hops :: "(string \<times> string \<times> string) list"

record Quote =
  qu_receive :: stroops
  qu_path :: "asset option list"

datatype quote_error = QuoteAssets | QuoteAmount | QuoteFailed | ErrNoPath

definition hop_asset :: "string \<times> string \<times> string \<Rightarrow> asset option" where
  "hop_asset h = (case h of (kind, code, issuer) \<Rightarrow> Some (if kind = ''native'' then Native else Credit code issuer))"

fun best_path :: "Quote option \<Rightarrow> path_record list \<Rightarrow> Quote option" where
  "best_path best [] = best"
| "best_path best (r # rs) =
     (case Parse (pa_amount r) of
        Inl e \<Rightarrow> best_path best rs
      | Inr got \<Rightarrow>
          if Sign got \<le> 0 \<or> (\<exists>b. best = Some b \<and> sint got \<le> sint (qu_receive b)) then best_path best rs
          else best_path (Some \<lparr>qu_receive = got, qu_path = map hop_asset (pa_hops r)\<rparr>) rs)"

definition QuoteStrictSend ::
  "(asset \<Rightarrow> string \<Rightarrow> asset \<Rightarrow> path_record list option) \<Rightarrow> asset option \<Rightarrow> stroops \<Rightarrow> asset option \<Rightarrow> (quote_error, Quote) result" where
  "QuoteStrictSend paths send amount dest =
     (case (send, dest) of
        (Some s, Some d) \<Rightarrow>
          if Sign amount \<le> 0 then Inl QuoteAmount
          else (case paths s (String_of amount) d of
                  None \<Rightarrow> Inl QuoteFailed
                | Some records \<Rightarrow> (case best_path None records of None \<Rightarrow> Inl ErrNoPath | Some q \<Rightarrow> Inr q))
      | _ \<Rightarrow> Inl QuoteAssets)"

section \<open>Trustlines\<close>

definition Trust :: "(string \<Rightarrow> bool) \<Rightarrow> string \<Rightarrow> string \<Rightarrow> string \<Rightarrow> stroops option \<Rightarrow> (dex_error, Describe.operation list) result" where
  "Trust valid account code issuer limit =
     (if \<not> valid account then Inl BadTrustAccount
      else if code = [] \<or> issuer = [] then Inl TrustNeedsIssued
      else if \<not> valid issuer then Inl BadIssuer
      else if account = issuer then Inl OwnAsset
      else case limit of
             None \<Rightarrow> Inr [ChangeTrust account (Some (TrustCredit code issuer)) MaxTrustlineLimit]
           | Some l \<Rightarrow> if Sign l < 0 then Inl NegativeLimit else Inr [ChangeTrust account (Some (TrustCredit code issuer)) (String_of l)])"

definition Untrust :: "(string \<Rightarrow> bool) \<Rightarrow> string \<Rightarrow> string \<Rightarrow> string \<Rightarrow> (dex_error, Describe.operation list) result" where
  "Untrust valid account code issuer = Trust valid account code issuer (Some 0)"

section \<open>What an account holds\<close>

definition BaseReserve :: stroops where "BaseReserve = 5000000"

record horizon_line =
  hl_type :: string
  hl_code :: string
  hl_issuer :: string
  hl_balance :: string
  hl_limit :: string
  hl_selling :: string
  hl_authorized :: "bool option"

record horizon_account =
  ha_lines :: "horizon_line list"
  ha_subentries :: "32 word"
  ha_sponsoring :: "32 word"
  ha_sponsored :: "32 word"

datatype account_answer = Loaded horizon_account | NoSuchAccount | NotLoaded

record Holding =
  ho_asset :: asset
  ho_balance :: stroops
  ho_limit :: stroops
  ho_selling :: stroops
  ho_authorized :: bool

record AccountState =
  at_address :: string
  at_exists :: bool
  at_holdings :: "Holding list"
  at_spare :: stroops

definition sameAsset :: "asset option \<Rightarrow> asset option \<Rightarrow> bool" where
  "sameAsset a b = (case (a, b) of (Some x, Some y) \<Rightarrow> x = y | _ \<Rightarrow> False)"

definition holding :: "AccountState \<Rightarrow> asset \<Rightarrow> Holding option" where
  "holding a asset = find (\<lambda>h. sameAsset (Some (ho_asset h)) (Some asset)) (at_holdings a)"

definition orZero :: "string \<Rightarrow> string" where
  "orZero s = (if TrimSpace s = [] then ''0'' else s)"

definition parse_or_zero :: "string \<Rightarrow> stroops" where
  "parse_or_zero s = (case Parse (orZero s) of Inl e \<Rightarrow> 0 | Inr v \<Rightarrow> v)"

text \<open>The lines, with the native balance and what its offers have promised of it as they stand after the last native line.\<close>

fun read_lines :: "horizon_line list \<Rightarrow> Holding list \<times> stroops \<times> stroops \<Rightarrow> (Holding list \<times> stroops \<times> stroops) option" where
  "read_lines [] out = Some out"
| "read_lines (b # bs) (hs, native, promised) =
     (case Parse (hl_balance b) of
        Inl e \<Rightarrow> None
      | Inr balance \<Rightarrow>
          let selling = parse_or_zero (hl_selling b)
          in if hl_type b = ''native''
             then read_lines bs (hs @ [\<lparr>ho_asset = Native, ho_balance = balance, ho_limit = 0, ho_selling = selling, ho_authorized = True\<rparr>], balance, selling)
             else if hl_type b = ''credit_alphanum4'' \<or> hl_type b = ''credit_alphanum12''
             then read_lines bs (hs @ [\<lparr>ho_asset = Credit (hl_code b) (hl_issuer b), ho_balance = balance, ho_limit = parse_or_zero (hl_limit b),
                    ho_selling = selling, ho_authorized = (hl_authorized b \<noteq> Some False)\<rparr>], native, promised)
             else read_lines bs (hs, native, promised))"

definition reserve_entries :: "horizon_account \<Rightarrow> int64" where
  "reserve_entries a =
     (let n = 2 + word_of_int (sint (ha_subentries a)) + word_of_int (uint (ha_sponsoring a)) - word_of_int (uint (ha_sponsored a))
      in if sint n < 0 then 0 else n)"

definition stateOf :: "string \<Rightarrow> horizon_account \<Rightarrow> AccountState option" where
  "stateOf address account =
     (case read_lines (ha_lines account) ([], 0, 0) of
        None \<Rightarrow> None
      | Some (hs, native, promised) \<Rightarrow>
          let spare = native - reserve_entries account * BaseReserve - promised
          in Some \<lparr>at_address = address, at_exists = True, at_holdings = hs, at_spare = (if sint spare < 0 then 0 else spare)\<rparr>)"

definition accountState :: "(string \<Rightarrow> account_answer) \<Rightarrow> string \<Rightarrow> AccountState option" where
  "accountState load address =
     (case load address of
        Loaded a \<Rightarrow> stateOf address a
      | NoSuchAccount \<Rightarrow> Some \<lparr>at_address = address, at_exists = False, at_holdings = [], at_spare = 0\<rparr>
      | NotLoaded \<Rightarrow> None)"

section \<open>Naming an asset\<close>

datatype asset_refusal = NothingNamed | NotACode | NotAnIssuer | NotAnAsset | WhichAsset | SeveralAssets

definition validCode :: "string \<Rightarrow> bool" where
  "validCode code \<longleftrightarrow> 1 \<le> length code \<and> length code \<le> 12
     \<and> list_all (\<lambda>r. 97 \<le> r \<and> r \<le> 122 \<or> 65 \<le> r \<and> r \<le> 90 \<or> 48 \<le> r \<and> r \<le> 57) (runes_of code)"

definition named_held :: "unicode_tables \<Rightarrow> string \<Rightarrow> Holding list \<Rightarrow> asset list" where
  "named_held U text1 held =
     map ho_asset (filter (\<lambda>h. case ho_asset h of Native \<Rightarrow> False | Credit code issuer \<Rightarrow> EqualFold U code text1) held)"

definition parseAsset ::
  "unicode_tables \<Rightarrow> (string \<Rightarrow> bool) \<Rightarrow> (string \<times> string) option \<Rightarrow> string \<Rightarrow> Holding list \<Rightarrow> (asset_refusal, asset) result" where
  "parseAsset U valid configured raw held =
     (let text1 = TrimSpace raw
      in if text1 = [] then Inl NothingNamed
         else if EqualFold U text1 ''XLM'' \<or> EqualFold U text1 ''native'' then Inr Native
         else case cut_byte (CHR '':'') text1 of
           (code0, issuer0, full) \<Rightarrow>
             if full then
               (let code = TrimSpace code0; issuer = TrimSpace issuer0
                in if \<not> validCode code then Inl NotACode
                   else if \<not> valid issuer then Inl NotAnIssuer
                   else Inr (Credit code issuer))
             else if \<not> validCode text1 then Inl NotAnAsset
             else (case configured of
                     Some (code, issuer) \<Rightarrow> if EqualFold U text1 code then Inr (Credit code issuer)
                       else (case named_held U text1 held of [a] \<Rightarrow> Inr a | [] \<Rightarrow> Inl WhichAsset | _ \<Rightarrow> Inl SeveralAssets)
                   | None \<Rightarrow> (case named_held U text1 held of [a] \<Rightarrow> Inr a | [] \<Rightarrow> Inl WhichAsset | _ \<Rightarrow> Inl SeveralAssets)))"

definition AssetName :: "(string \<times> string) option \<Rightarrow> asset option \<Rightarrow> string" where
  "AssetName configured a =
     (case a of
        None \<Rightarrow> []
      | Some Native \<Rightarrow> ''XLM''
      | Some (Credit code issuer) \<Rightarrow> if configured = Some (code, issuer) then code else code @ '':'' @ issuer)"

section \<open>What is shown\<close>

text \<open>The floor under a swap is exact and never rounded up, for every quote an amount can hold: no product overflows.\<close>

lemma SlippageBound_iff:
  "SlippageBound quote bps = Inr b \<longleftrightarrow>
     0 < sint quote \<and> 0 \<le> sint bps \<and> sint bps < 10000 \<and> sint b = sint quote * (10000 - sint bps) div 10000 \<and> 0 < sint b"
proof (cases "0 < sint quote \<and> 0 \<le> sint bps \<and> sint bps < 10000")
  case True
  let ?s = "sint quote * (10000 - sint bps) div 10000"
  have "sint quote * (10000 - sint bps) \<le> sint quote * 10000" using True by (intro mult_left_mono) auto
  then have "?s \<le> sint quote" by linarith
  moreover have "0 \<le> ?s" using True by (simp add: pos_imp_zdiv_nonneg_iff)
  ultimately have i: "in_int64 ?s" using sint_in_int64 [of quote] by (simp add: in_int64_def)
  then have w: "sint (word_of_int ?s :: int64) = ?s" by (simp add: sint_word_of_int64 wrap64_id)
  have u: "b = word_of_int ?s \<longleftrightarrow> sint b = ?s" using w by (metis signed_word_eqI)
  have q: "\<not> Sign quote \<le> 0" using True by (simp add: Sign_def)
  have "Sign (word_of_int ?s) \<le> 0 \<longleftrightarrow> ?s \<le> 0" unfolding Sign_def w by auto
  then show ?thesis using True i q u unfolding SlippageBound_def Let_def by (auto simp: not_le)
next
  case False
  then show ?thesis by (auto simp: SlippageBound_def Sign_def Let_def split: if_splits)
qed

text \<open>
  The floor under a swap.  A bound computed from a quote and a tolerance is the quote less the tolerance, rounded down and
  never up: it lies below the quote, at least the tolerated share of it short of one stroop, and above zero; and a positive quote
  with a tolerance in range is refused only when the bound would be nothing, never because a product does not fit.
\<close>

theorem SlippageBound_exact:
  "(SlippageBound quote bps = Inr b \<longrightarrow> 0 < sint b \<and> sint b \<le> sint quote
      \<and> 10000 * sint b \<le> sint quote * (10000 - sint bps) \<and> sint quote * (10000 - sint bps) < 10000 * (sint b + 1))
   \<and> (0 < sint quote \<and> 0 \<le> sint bps \<and> sint bps < 10000 \<longrightarrow>
        SlippageBound quote bps = Inl BoundNothing \<and> sint quote * (10000 - sint bps) < 10000
        \<or> (\<exists>b. SlippageBound quote bps = Inr b))"
proof (rule conjI; rule impI)
  assume "SlippageBound quote bps = Inr b"
  then have i: "0 < sint quote" "0 \<le> sint bps" "sint bps < 10000" "sint b = sint quote * (10000 - sint bps) div 10000" "0 < sint b"
    by (auto simp: SlippageBound_iff)
  define x where "x = sint quote * (10000 - sint bps)"
  have bound: "x < 10000 * (x div 10000 + 1)" for x :: int by presburger
  have "x \<le> sint quote * 10000" unfolding x_def using i by (intro mult_left_mono) auto
  moreover have "sint b = x div 10000" using i(4) by (simp add: x_def)
  ultimately have "0 < sint b \<and> sint b \<le> sint quote \<and> 10000 * sint b \<le> x \<and> x < 10000 * (sint b + 1)"
    using i(5) bound [of x] by (intro conjI) (linarith, linarith, linarith, simp)
  then show "0 < sint b \<and> sint b \<le> sint quote \<and> 10000 * sint b \<le> sint quote * (10000 - sint bps)
      \<and> sint quote * (10000 - sint bps) < 10000 * (sint b + 1)" by (simp only: x_def)
next
  assume a: "0 < sint quote \<and> 0 \<le> sint bps \<and> sint bps < 10000"
  let ?s = "sint quote * (10000 - sint bps) div 10000"
  show "SlippageBound quote bps = Inl BoundNothing \<and> sint quote * (10000 - sint bps) < 10000 \<or> (\<exists>b. SlippageBound quote bps = Inr b)"
  proof (cases "0 < ?s")
    case True
    have "sint quote * (10000 - sint bps) \<le> sint quote * 10000" using a by (intro mult_left_mono) auto
    then have "in_int64 ?s" using True sint_in_int64 [of quote] by (simp add: in_int64_def) linarith
    then have "sint (word_of_int ?s :: int64) = ?s" by (simp add: sint_word_of_int64 wrap64_id)
    then have "SlippageBound quote bps = Inr (word_of_int ?s)" using True a by (simp add: SlippageBound_iff)
    then show ?thesis by blast
  next
    case False
    then have z: "?s = 0" "sint quote * (10000 - sint bps) < 10000" using a by (simp_all add: pos_imp_zdiv_nonneg_iff not_less)
    then show ?thesis using a by (simp add: SlippageBound_def Sign_def in_int64_def)
  qed
qed

theorem SlippageBound_exact_witness: "SlippageBound 1000 50 = Inr 995 \<and> (995 :: int) \<le> 1000 \<and> 1000 * (10000 - 50) < 10000 * (995 + 1 :: int)"
proof -
  have "SlippageBound 1000 50 = Inr 995" by (simp add: SlippageBound_iff)
  with SlippageBound_exact [of 1000 50 995] show ?thesis by simp
qed

text \<open>The quote is the best that was offered, and there is one unless nothing readable and positive was.\<close>

definition offered :: "path_record list \<Rightarrow> Quote set" where
  "offered rs = {\<lparr>qu_receive = got, qu_path = map hop_asset (pa_hops r)\<rparr> | r got. r \<in> set rs \<and> Parse (pa_amount r) = Inr got \<and> 0 < sint got}"

lemma offered_Cons:
  "offered (r # rs) = offered rs \<union> (case Parse (pa_amount r) of Inl e \<Rightarrow> {} | Inr got \<Rightarrow>
     if 0 < sint got then {\<lparr>qu_receive = got, qu_path = map hop_asset (pa_hops r)\<rparr>} else {})"
  by (auto simp: offered_def split: sum.splits if_splits)

lemma best_path_best:
  "best_path best rs = Some q \<Longrightarrow>
     (q \<in> offered rs \<or> best = Some q) \<and> (\<forall>o1 \<in> offered rs \<union> set_option best. sint (qu_receive o1) \<le> sint (qu_receive q))"
proof (induction best rs rule: best_path.induct)
  case (1 best)
  then show ?case by (auto simp: offered_def)
next
  case (2 best r rs)
  show ?case
  proof (cases "Parse (pa_amount r)")
    case (Inl e)
    then show ?thesis using 2(1) [OF Inl] 2(4) by (simp add: offered_Cons)
  next
    case (Inr got)
    show ?thesis
    proof (cases "Sign got \<le> 0 \<or> (\<exists>b. best = Some b \<and> sint got \<le> sint (qu_receive b))")
      case True
      then have IH: "(q \<in> offered rs \<or> best = Some q) \<and> (\<forall>o1 \<in> offered rs \<union> set_option best. sint (qu_receive o1) \<le> sint (qu_receive q))"
        using 2(2) [OF Inr True] 2(4) Inr by simp
      from True show ?thesis
      proof
        assume "Sign got \<le> 0"
        then show ?thesis using IH Inr by (auto simp: offered_Cons Sign_def split: if_splits)
      next
        assume "\<exists>b. best = Some b \<and> sint got \<le> sint (qu_receive b)"
        then have "sint got \<le> sint (qu_receive q)" using IH by (auto intro: order_trans)
        then show ?thesis using IH Inr by (auto simp: offered_Cons)
      qed
    next
      case False
      let ?n = "\<lparr>qu_receive = got, qu_path = map hop_asset (pa_hops r)\<rparr>"
      have p: "0 < sint got" using False by (auto simp: Sign_def split: if_splits)
      have "(q \<in> offered rs \<or> Some ?n = Some q) \<and> (\<forall>o1 \<in> offered rs \<union> set_option (Some ?n). sint (qu_receive o1) \<le> sint (qu_receive q))"
        using 2(3) [OF Inr False] 2(4) Inr False by simp
      moreover have "\<forall>b \<in> set_option best. sint (qu_receive b) \<le> sint got" using False by auto
      ultimately show ?thesis using Inr p by (fastforce simp: offered_Cons)
    qed
  qed
qed

lemma best_path_None: "best_path best rs = None \<longleftrightarrow> best = None \<and> offered rs = {}"
  by (induction best rs rule: best_path.induct) (auto simp: offered_Cons offered_def [of "[]"] Sign_def split: sum.splits if_splits)

text \<open>A bare code means the deployment's own asset or the only one of that code the account holds; nothing is looked up by name.\<close>

lemma parseAsset_known:
  assumes "parseAsset U valid configured raw held = Inr a" "CHR '':'' \<notin> set (TrimSpace raw)"
  shows "a = Native \<or> (\<exists>c i. a = Credit c i \<and> (configured = Some (c, i) \<or> named_held U (TrimSpace raw) held = [Credit c i]))"
proof -
  have n: "\<not> snd (snd (cut_byte (CHR '':'') (TrimSpace raw)))" using assms(2) cut_byte_spec by (metis UnCI list.set_intros(1) prod.collapse set_append)
  obtain x y z where c: "cut_byte (CHR '':'') (TrimSpace raw) = (x, y, z)" by (metis prod_cases3)
  have "named_held U t held = [a] \<Longrightarrow> \<exists>c i. a = Credit c i" for t
    by (auto simp: named_held_def filter_eq_Cons_iff map_eq_Cons_conv split: asset.splits) (metis asset.exhaust)
  then show ?thesis using assms(1) n c
    by (auto simp: parseAsset_def Let_def split: if_splits option.splits list.splits prod.splits)
qed

end
