(* ===== verification/Swaps.thy ===== *)
theory Swaps
  imports Markets Payroll_Safety
begin

text \<open>
  \<^verbatim>\<open>api/swap.go\<close> and \<^verbatim>\<open>api/trust.go\<close>: a swap or a trustline put to a treasury's signers.  The proposal is opened by
  \<open>openProposal\<close> of \<open>Proposal_Service\<close>, with the SDK's builder and the description of \<open>Describe\<close> in the place of its arguments.
\<close>

section \<open>Opening a proposal of any operations\<close>

definition described_by :: "'tx batch_sdk \<Rightarrow> Describe.operation list \<Rightarrow> 'tx world \<Rightarrow> 'tx world" where
  "described_by sdk ops w = w\<lparr>BuildTx := (\<lambda>a none memo ttl. BuildOps sdk a ops memo ttl),
     DescribeTx := (\<lambda>tx. map_option Canonical
       (Describe.DescribeTx (bs_renderer sdk) (w_network w) (\<lambda>t n. HashHex w tx n) (Some (Parsed sdk tx))))\<rparr>"

definition openOperations ::
  "'tx batch_sdk \<Rightarrow> 'tx world \<Rightarrow> Scope \<Rightarrow> int \<Rightarrow> Treasury \<Rightarrow> string \<Rightarrow> Describe.operation list \<Rightarrow> string \<Rightarrow> stroops \<Rightarrow> MemberID
   \<Rightarrow> 'tx svc \<Rightarrow> (svc_error, ProposalView) result \<times> 'tx svc" where
  "openOperations sdk w scope ttl t kind ops memo amount by_member st =
     openProposal (described_by sdk ops w) scope ttl t kind [] memo amount by_member st"

record market =
  mk_account :: "string \<Rightarrow> account_answer"
  mk_paths :: "asset \<Rightarrow> string \<Rightarrow> asset \<Rightarrow> path_record list option"
  mk_tables :: unicode_tables

datatype market_error =
    MarketService svc_error | MarketAsset asset_refusal | AmountNothing | AccountUnreadable | TreasuryMissing | ForItself
  | HoldsNone | NotAuthorised | HoldsLess | NoTrustline | MayNotHold | MarketQuote quote_error | NoMinimum | MinimumNothing
  | MarketMovedError stroops stroops | MarketDex dex_error
  | NeedsNoTrustline | IssuesItself | AlreadyTrusted | NoSuchIssuer | NoReserve | NoLineToClose | StillHolds | StillSells

definition classicTreasury :: "'tx svc \<Rightarrow> Scope \<Rightarrow> TreasuryID \<Rightarrow> (svc_error, int \<times> Treasury) result" where
  "classicTreasury st scope i =
     (case sv_ttl st (sp_org scope) of
        None \<Rightarrow> Inl NoOrg
      | Some ttl \<Rightarrow>
          (case find_treasury st (sp_org scope) i of
             None \<Rightarrow> Inl ErrNoTreasury
           | Some t \<Rightarrow> if tr_kind t \<noteq> TreasuryClassic then Inl NotClassic else Inr (ttl, t)))"

section \<open>Quoting\<close>

record SwapQuote =
  sq_from :: asset
  sq_to :: asset
  sq_send :: stroops
  sq_receive :: stroops
  sq_route :: "asset option list"

text \<open>What the treasury can send of an asset, and whether it may receive one.\<close>

definition can_send :: "AccountState \<Rightarrow> asset \<Rightarrow> stroops \<Rightarrow> market_error option" where
  "can_send state from amount =
     (case holding state from of
        None \<Rightarrow> Some HoldsNone
      | Some held \<Rightarrow>
          let available = (if from = Native then at_spare state else ho_balance held - ho_selling held)
          in if \<not> ho_authorized held then Some NotAuthorised
             else if sint available < sint amount then Some HoldsLess
             else None)"

definition can_receive :: "AccountState \<Rightarrow> asset \<Rightarrow> market_error option" where
  "can_receive state to =
     (if to = Native then None
      else case holding state to of
             None \<Rightarrow> Some NoTrustline
           | Some line \<Rightarrow> if \<not> ho_authorized line then Some MayNotHold else None)"

definition quoteSwap ::
  "market \<Rightarrow> (string \<Rightarrow> bool) \<Rightarrow> rails_config \<Rightarrow> Treasury \<Rightarrow> stroops \<Rightarrow> string \<Rightarrow> string \<Rightarrow> (market_error, SwapQuote) result" where
  "quoteSwap mk valid cfg t amount fromText toText =
     (if Sign amount \<le> 0 then Inl AmountNothing
      else case accountState (mk_account mk) (tr_address t) of
        None \<Rightarrow> Inl AccountUnreadable
      | Some state \<Rightarrow>
          if \<not> at_exists state then Inl TreasuryMissing
          else case parseAsset (mk_tables mk) valid (CreditAsset cfg) fromText (at_holdings state) of
            Inl e \<Rightarrow> Inl (MarketAsset e)
          | Inr from \<Rightarrow>
          (case parseAsset (mk_tables mk) valid (CreditAsset cfg) toText (at_holdings state) of
             Inl e \<Rightarrow> Inl (MarketAsset e)
           | Inr to \<Rightarrow>
               if sameAsset (Some from) (Some to) then Inl ForItself
               else case can_send state from amount of
                 Some e \<Rightarrow> Inl e
               | None \<Rightarrow>
               (case can_receive state to of
                  Some e \<Rightarrow> Inl e
                | None \<Rightarrow>
                    (case QuoteStrictSend (mk_paths mk) (Some from) amount (Some to) of
                       Inl e \<Rightarrow> Inl (MarketQuote e)
                     | Inr q \<Rightarrow> Inr \<lparr>sq_from = from, sq_to = to, sq_send = amount, sq_receive = qu_receive q, sq_route = qu_path q\<rparr>))))"

definition QuoteSwap ::
  "market \<Rightarrow> 'tx batch_sdk \<Rightarrow> 'tx world \<Rightarrow> Scope \<Rightarrow> TreasuryID \<Rightarrow> stroops \<Rightarrow> string \<Rightarrow> string \<Rightarrow> 'tx svc \<Rightarrow> (market_error, SwapQuote) result" where
  "QuoteSwap mk sdk w scope i amount from to st =
     (case scope_check scope of
        Some e \<Rightarrow> Inl (MarketService e)
      | None \<Rightarrow>
          (case classicTreasury st scope i of
             Inl e \<Rightarrow> Inl (MarketService e)
           | Inr (ttl, t) \<Rightarrow> quoteSwap mk (bs_valid sdk) (w_cfg w) t amount from to))"

section \<open>Proposing a swap\<close>

record SwapParams =
  sw_treasury :: TreasuryID
  sw_amount :: stroops
  sw_from :: string
  sw_to :: string
  sw_minimum :: stroops
  sw_slippage :: int64
  sw_created_by :: MemberID

text \<open>The minimum is the caller's, or what their tolerance leaves of the quote.\<close>

definition swap_minimum :: "SwapParams \<Rightarrow> SwapQuote \<Rightarrow> (market_error, stroops) result" where
  "swap_minimum p quote =
     (if sw_minimum p \<noteq> 0 then Inr (sw_minimum p)
      else if sint (sw_slippage p) \<le> 0 then Inl NoMinimum
      else case SlippageBound (sq_receive quote) (sw_slippage p) of Inl e \<Rightarrow> Inl (MarketDex e) | Inr m \<Rightarrow> Inr m)"

text \<open>What counts against the ceilings.\<close>

definition swap_spend ::
  "'tx world \<Rightarrow> Scope \<Rightarrow> SwapParams \<Rightarrow> SwapQuote \<Rightarrow> 'tx svc \<Rightarrow> (market_error, stroops) result" where
  "swap_spend w scope p quote st =
     (if sameAsset (Some (sq_from quote)) (cfg_asset (w_cfg w))
      then (case checkSpend (w_cfg w) (sv_policies st) (sv_db st) (w_now w) (sp_org scope) (sw_amount p) of
              Some e \<Rightarrow> Inl (MarketService (OnRails e))
            | None \<Rightarrow> Inr (sw_amount p))
      else Inr 0)"

definition ProposeSwap ::
  "market \<Rightarrow> 'tx batch_sdk \<Rightarrow> 'tx world \<Rightarrow> Scope \<Rightarrow> SwapParams \<Rightarrow> 'tx svc \<Rightarrow> (market_error, ProposalView \<times> SwapQuote \<times> stroops) result \<times> 'tx svc" where
  "ProposeSwap mk sdk w scope p st =
     (case scope_check scope of
        Some e \<Rightarrow> (Inl (MarketService e), st)
      | None \<Rightarrow>
     (case writable (w_cfg w) (w_stat w) of
        Some e \<Rightarrow> (Inl (MarketService (OnRails e)), st)
      | None \<Rightarrow>
     (case classicTreasury st scope (sw_treasury p) of
        Inl e \<Rightarrow> (Inl (MarketService e), st)
      | Inr (ttl, t) \<Rightarrow>
     (case quoteSwap mk (bs_valid sdk) (w_cfg w) t (sw_amount p) (sw_from p) (sw_to p) of
        Inl e \<Rightarrow> (Inl e, st)
      | Inr quote \<Rightarrow>
     (case swap_minimum p quote of
        Inl e \<Rightarrow> (Inl e, st)
      | Inr minimum \<Rightarrow>
          if Sign minimum \<le> 0 then (Inl MinimumNothing, st)
          else if sint minimum > sint (sq_receive quote) then (Inl (MarketMovedError (sq_receive quote) minimum), st)
          else (case swap_spend w scope p quote st of
            Inl e \<Rightarrow> (Inl e, st)
          | Inr spent \<Rightarrow>
          (case Swap (bs_valid sdk) \<lparr>sr_from = tr_address t, sr_to = tr_address t, sr_send_asset = Some (sq_from quote), sr_dest_asset = Some (sq_to quote),
                   sr_send = sw_amount p, sr_minimum = minimum, sr_path = sq_route quote\<rparr> of
             Inl e \<Rightarrow> (Inl (MarketDex e), st)
           | Inr ops \<Rightarrow>
               (case openOperations sdk w scope ttl t ''dex'' ops [] spent (sw_created_by p) st of
                  (Inl e, st1) \<Rightarrow> (Inl (MarketService e), st1)
                | (Inr v, st1) \<Rightarrow> (Inr (v, quote, minimum), st1)))))))))"

text \<open>Just before a swap is submitted: whether the market still meets the minimum, as far as it can be asked.\<close>

definition stillDelivers :: "market \<Rightarrow> transaction \<Rightarrow> market_error option" where
  "stillDelivers mk tx =
     (case tx_ops tx of
        [PathStrictSend src send sendAmount destination dest destMin path] \<Rightarrow>
          (case Parse sendAmount of
             Inl e \<Rightarrow> None
           | Inr amount \<Rightarrow>
          (case Parse destMin of
             Inl e \<Rightarrow> None
           | Inr minimum \<Rightarrow>
               (case QuoteStrictSend (mk_paths mk) send amount dest of
                  Inl ErrNoPath \<Rightarrow> Some (MarketMovedError 0 minimum)
                | Inl e \<Rightarrow> None
                | Inr q \<Rightarrow> if sint (qu_receive q) < sint minimum then Some (MarketMovedError (qu_receive q) minimum) else None)))
      | _ \<Rightarrow> None)"

section \<open>Proposing a trustline\<close>

definition ProposeTrust ::
  "market \<Rightarrow> 'tx batch_sdk \<Rightarrow> 'tx world \<Rightarrow> Scope \<Rightarrow> TreasuryID \<Rightarrow> string \<Rightarrow> MemberID \<Rightarrow> 'tx svc
   \<Rightarrow> (market_error, ProposalView \<times> string) result \<times> 'tx svc" where
  "ProposeTrust mk sdk w scope i assetText by_member st =
     (case scope_check scope of
        Some e \<Rightarrow> (Inl (MarketService e), st)
      | None \<Rightarrow>
     (case writable (w_cfg w) (w_stat w) of
        Some e \<Rightarrow> (Inl (MarketService (OnRails e)), st)
      | None \<Rightarrow>
     (case classicTreasury st scope i of
        Inl e \<Rightarrow> (Inl (MarketService e), st)
      | Inr (ttl, t) \<Rightarrow>
     (case accountState (mk_account mk) (tr_address t) of
        None \<Rightarrow> (Inl AccountUnreadable, st)
      | Some state \<Rightarrow>
          if \<not> at_exists state then (Inl TreasuryMissing, st)
          else (case parseAsset (mk_tables mk) (bs_valid sdk) (CreditAsset (w_cfg w)) assetText [] of
            Inl e \<Rightarrow> (Inl (MarketAsset e), st)
          | Inr Native \<Rightarrow> (Inl NeedsNoTrustline, st)
          | Inr (Credit code issuer) \<Rightarrow>
              if issuer = tr_address t then (Inl IssuesItself, st)
              else if holding state (Credit code issuer) \<noteq> None then (Inl AlreadyTrusted, st)
              else (case accountState (mk_account mk) issuer of
                None \<Rightarrow> (Inl AccountUnreadable, st)
              | Some isr \<Rightarrow>
                  if \<not> at_exists isr then (Inl NoSuchIssuer, st)
                  else if sint (at_spare state) < sint BaseReserve then (Inl NoReserve, st)
                  else (case Trust (bs_valid sdk) (tr_address t) code issuer None of
                    Inl e \<Rightarrow> (Inl (MarketDex e), st)
                  | Inr ops \<Rightarrow>
                      (case openOperations sdk w scope ttl t ''trustline'' ops [] 0 by_member st of
                         (Inl e, st1) \<Rightarrow> (Inl (MarketService e), st1)
                       | (Inr v, st1) \<Rightarrow> (Inr (v, AssetName (CreditAsset (w_cfg w)) (Some (Credit code issuer))), st1)))))))))"

definition ProposeUntrust ::
  "market \<Rightarrow> 'tx batch_sdk \<Rightarrow> 'tx world \<Rightarrow> Scope \<Rightarrow> TreasuryID \<Rightarrow> string \<Rightarrow> MemberID \<Rightarrow> 'tx svc
   \<Rightarrow> (market_error, ProposalView \<times> string) result \<times> 'tx svc" where
  "ProposeUntrust mk sdk w scope i assetText by_member st =
     (case scope_check scope of
        Some e \<Rightarrow> (Inl (MarketService e), st)
      | None \<Rightarrow>
     (case writable (w_cfg w) (w_stat w) of
        Some e \<Rightarrow> (Inl (MarketService (OnRails e)), st)
      | None \<Rightarrow>
     (case classicTreasury st scope i of
        Inl e \<Rightarrow> (Inl (MarketService e), st)
      | Inr (ttl, t) \<Rightarrow>
     (case accountState (mk_account mk) (tr_address t) of
        None \<Rightarrow> (Inl AccountUnreadable, st)
      | Some state \<Rightarrow>
          (case parseAsset (mk_tables mk) (bs_valid sdk) (CreditAsset (w_cfg w)) assetText (at_holdings state) of
            Inl e \<Rightarrow> (Inl (MarketAsset e), st)
          | Inr Native \<Rightarrow> (Inl NoLineToClose, st)
          | Inr (Credit code issuer) \<Rightarrow>
              (case holding state (Credit code issuer) of
                 None \<Rightarrow> (Inl NoTrustline, st)
               | Some line \<Rightarrow>
                   if ho_balance line \<noteq> 0 then (Inl StillHolds, st)
                   else if ho_selling line \<noteq> 0 then (Inl StillSells, st)
                   else (case Untrust (bs_valid sdk) (tr_address t) code issuer of
                     Inl e \<Rightarrow> (Inl (MarketDex e), st)
                   | Inr ops \<Rightarrow>
                       (case openOperations sdk w scope ttl t ''trustline'' ops [] 0 by_member st of
                          (Inl e, st1) \<Rightarrow> (Inl (MarketService e), st1)
                        | (Inr v, st1) \<Rightarrow> (Inr (v, AssetName (CreditAsset (w_cfg w)) (Some (Credit code issuer))), st1)))))))))"

section \<open>The floor of a swap\<close>

lemma openOperations_rows:
  assumes "openOperations sdk w scope ttl t kind ops memo amount m st = (r, st')" "builds sdk"
    and "q \<in> set (proposals (sv_db st'))" "pr_id q \<notin> pr_id ` set (proposals (sv_db st))"
  shows "\<exists>tx d. tx_source (Parsed sdk tx) = tr_address t \<and> tx_ops (Parsed sdk tx) = ops
    \<and> Describe.DescribeTx (bs_renderer sdk) (w_network w) (\<lambda>t n. HashHex w tx n) (Some (Parsed sdk tx)) = Some d \<and> pr_description q = Canonical d
    \<and> HashHex w tx (w_network w) = Some (pr_hash q) \<and> Base64 w tx = Some (pr_xdr q) \<and> pr_org q = sp_org scope \<and> pr_treasury q = tr_id t
    \<and> pr_amount q = (if amount = 0 then None else Some amount)"
proof -
  from openProposal_rows [OF assms(1) [unfolded openOperations_def] assms(3,4)] obtain tx d where
    "BuildOps sdk (tr_address t) ops (memoOf memo) ttl = Some tx" "Canonical d = pr_description q"
    "Describe.DescribeTx (bs_renderer sdk) (w_network w) (\<lambda>t n. HashHex w tx n) (Some (Parsed sdk tx)) = Some d"
    "HashHex w tx (w_network w) = Some (pr_hash q)" "Base64 w tx = Some (pr_xdr q)" "pr_org q = sp_org scope" "pr_treasury q = tr_id t"
    "pr_amount q = (if amount = 0 then None else Some amount)" by (auto simp: described_by_def)
  moreover from this have "tx_source (Parsed sdk tx) = tr_address t" "tx_ops (Parsed sdk tx) = ops" using assms(2) unfolding builds_def by blast+
  ultimately show ?thesis by (intro exI [of _ tx] exI [of _ d]) simp
qed

lemma quoteSwap_Inr:
  assumes "quoteSwap mk valid cfg t amount fromText toText = Inr q"
  shows "sq_send q = amount \<and> sq_from q \<noteq> sq_to q \<and> 0 < sint (sq_receive q)
    \<and> (\<exists>state. accountState (mk_account mk) (tr_address t) = Some state \<and> at_exists state \<and> can_send state (sq_from q) amount = None \<and> can_receive state (sq_to q) = None)
    \<and> (\<exists>records. mk_paths mk (sq_from q) (String_of amount) (sq_to q) = Some records
         \<and> \<lparr>qu_receive = sq_receive q, qu_path = sq_route q\<rparr> \<in> offered records
         \<and> (\<forall>o1 \<in> offered records. sint (qu_receive o1) \<le> sint (sq_receive q)))"
proof -
  from assms obtain state from1 to1 qu where s: "accountState (mk_account mk) (tr_address t) = Some state" "at_exists state" "from1 \<noteq> to1"
    "can_send state from1 amount = None" "can_receive state to1 = None" "QuoteStrictSend (mk_paths mk) (Some from1) amount (Some to1) = Inr qu"
    "q = \<lparr>sq_from = from1, sq_to = to1, sq_send = amount, sq_receive = qu_receive qu, sq_route = qu_path qu\<rparr>"
    unfolding quoteSwap_def sameAsset_def by (auto split: option.splits sum.splits if_splits)
  from s(6) obtain records where r: "mk_paths mk from1 (String_of amount) to1 = Some records" "best_path None records = Some qu"
    by (auto simp: QuoteStrictSend_def split: option.splits if_splits)
  from best_path_best [OF r(2)] have b: "qu \<in> offered records" "\<forall>o1 \<in> offered records. sint (qu_receive o1) \<le> sint (qu_receive qu)" by auto
  then have "0 < sint (qu_receive qu)" by (auto simp: offered_def)
  moreover have "\<lparr>qu_receive = qu_receive qu, qu_path = qu_path qu\<rparr> \<in> offered records" using b(1) by (cases qu) simp
  ultimately show ?thesis using s r(1) b(2) by simp
qed

lemma can_send_enough:
  "can_send state from1 amount = None \<Longrightarrow> \<exists>h. holding state from1 = Some h \<and> ho_authorized h
     \<and> sint amount \<le> (if from1 = Native then sint (at_spare state) else sint (ho_balance h - ho_selling h))"
  by (auto simp: can_send_def Let_def split: option.splits if_splits)

lemma Swap_ops:
  "Swap valid req = Inr ops \<Longrightarrow> ops = [PathStrictSend (sr_from req) (sr_send_asset req) (String_of (sr_send req)) (sr_to req) (sr_dest_asset req)
     (String_of (sr_minimum req)) (sr_path req)]"
  by (auto simp: Swap_def split: if_splits)

text \<open>
  C12: a swap that reaches the signers has a floor the caller chose.  A proposal \<open>ProposeSwap\<close> stores is one path payment from the
  treasury to itself, of exactly the amount asked for, which the treasury has free to send, into another asset; the least it
  accepts is above zero and not above the best the market offered, and it is the number the caller named or what their tolerance
  leaves of that offer, rounded down; and when the asset sent is the deployment's own the amount is within the ceilings and is
  recorded against them.
\<close>

theorem ProposeSwap_floor:
  assumes "ProposeSwap mk sdk w scope p st = (r, st')" "builds sdk"
    and "q \<in> set (proposals (sv_db st'))" "pr_id q \<notin> pr_id ` set (proposals (sv_db st))"
  shows "\<exists>t tx from1 to1 best path minimum records state. find_treasury st (sp_org scope) (sw_treasury p) = Some t \<and> tr_kind t = TreasuryClassic
    \<and> pr_treasury q = tr_id t \<and> Base64 w tx = Some (pr_xdr q)
    \<and> tx_ops (Parsed sdk tx) = [PathStrictSend (tr_address t) (Some from1) (String_of (sw_amount p)) (tr_address t) (Some to1) (String_of minimum) path]
    \<and> from1 \<noteq> to1 \<and> mk_paths mk from1 (String_of (sw_amount p)) to1 = Some records \<and> \<lparr>qu_receive = best, qu_path = path\<rparr> \<in> offered records
    \<and> (\<forall>o1 \<in> offered records. sint (qu_receive o1) \<le> sint best) \<and> 0 < sint minimum \<and> sint minimum \<le> sint best
    \<and> (minimum = sw_minimum p \<or> sw_minimum p = 0 \<and> sint minimum = sint best * (10000 - sint (sw_slippage p)) div 10000)
    \<and> accountState (mk_account mk) (tr_address t) = Some state \<and> can_send state from1 (sw_amount p) = None
    \<and> (if Some from1 = cfg_asset (w_cfg w) then checkSpend (w_cfg w) (sv_policies st) (sv_db st) (w_now w) (sp_org scope) (sw_amount p) = None
          \<and> pr_amount q = Some (sw_amount p) else pr_amount q = None)"
proof -
  have "st' \<noteq> st" using assms(3,4) by auto
  then obtain ttl t quote minimum spent ops r1 where g: "classicTreasury st scope (sw_treasury p) = Inr (ttl, t)"
    "quoteSwap mk (bs_valid sdk) (w_cfg w) t (sw_amount p) (sw_from p) (sw_to p) = Inr quote" "swap_minimum p quote = Inr minimum"
    "0 < Sign minimum" "sint minimum \<le> sint (sq_receive quote)" "swap_spend w scope p quote st = Inr spent"
    "Swap (bs_valid sdk) \<lparr>sr_from = tr_address t, sr_to = tr_address t, sr_send_asset = Some (sq_from quote), sr_dest_asset = Some (sq_to quote),
       sr_send = sw_amount p, sr_minimum = minimum, sr_path = sq_route quote\<rparr> = Inr ops"
    "openOperations sdk w scope ttl t ''dex'' ops [] spent (sw_created_by p) st = (r1, st')"
    using assms(1) unfolding ProposeSwap_def by (auto simp: not_le not_less split: option.splits sum.splits if_splits prod.splits)
  note qs = quoteSwap_Inr [OF g(2)]
  then obtain state records where m: "accountState (mk_account mk) (tr_address t) = Some state" "can_send state (sq_from quote) (sw_amount p) = None"
    "mk_paths mk (sq_from quote) (String_of (sw_amount p)) (sq_to quote) = Some records"
    "\<lparr>qu_receive = sq_receive quote, qu_path = sq_route quote\<rparr> \<in> offered records" "\<forall>o1 \<in> offered records. sint (qu_receive o1) \<le> sint (sq_receive quote)"
    by blast
  have t: "find_treasury st (sp_org scope) (sw_treasury p) = Some t" "tr_kind t = TreasuryClassic"
    using g(1) by (auto simp: classicTreasury_def split: option.splits if_splits)
  have least: "minimum = sw_minimum p \<or> sw_minimum p = 0 \<and> sint minimum = sint (sq_receive quote) * (10000 - sint (sw_slippage p)) div 10000"
    using g(3) by (auto simp: swap_minimum_def SlippageBound_iff split: if_splits sum.splits)
  have pos: "0 < sint minimum" "sw_amount p \<noteq> 0" using g(4) g(2) by (auto simp: Sign_def quoteSwap_def split: if_splits)
  note ops = Swap_ops [OF g(7)]
  from openOperations_rows [OF g(8) assms(2-4)] obtain tx where tx: "tx_ops (Parsed sdk tx) = ops" "Base64 w tx = Some (pr_xdr q)"
    "pr_treasury q = tr_id t" "pr_amount q = (if spent = 0 then None else Some spent)" by blast
  have sp: "if Some (sq_from quote) = cfg_asset (w_cfg w) then checkSpend (w_cfg w) (sv_policies st) (sv_db st) (w_now w) (sp_org scope) (sw_amount p) = None
      \<and> pr_amount q = Some (sw_amount p) else pr_amount q = None"
    using g(6) tx(4) pos(2) by (auto simp: swap_spend_def sameAsset_def cfg_asset_def split: if_splits option.splits)
  show ?thesis
    by (rule exI [of _ t], rule exI [of _ tx], rule exI [of _ "sq_from quote"], rule exI [of _ "sq_to quote"], rule exI [of _ "sq_receive quote"],
        rule exI [of _ "sq_route quote"], rule exI [of _ minimum], rule exI [of _ records], rule exI [of _ state])
      (use t tx ops qs m g(5) pos(1) least sp in simp)
qed

section \<open>An example\<close>

definition demo_line :: "string \<Rightarrow> horizon_line" where
  "demo_line kind = \<lparr>hl_type = kind, hl_code = ''USDC'', hl_issuer = ''GISSUER'', hl_balance = String_of 50000000, hl_limit = [], hl_selling = [], hl_authorized = None\<rparr>"

definition demo_market :: market where
  "demo_market = \<lparr>mk_account = (\<lambda>a. Loaded \<lparr>ha_lines = [demo_line ''native'', demo_line ''credit_alphanum4''], ha_subentries = 1, ha_sponsoring = 0, ha_sponsored = 0\<rparr>),
     mk_paths = (\<lambda>s n d. Some [\<lparr>pa_amount = String_of 7, pa_hops = []\<rparr>]), mk_tables = plain_tables\<rparr>"

definition demo_swap :: SwapParams where
  "demo_swap = \<lparr>sw_treasury = 7, sw_amount = 10, sw_from = ''XLM'', sw_to = ''USDC'', sw_minimum = 5, sw_slippage = 0, sw_created_by = 3\<rparr>"

definition demo_swap_tx :: transaction where
  "demo_swap_tx = \<lparr>tx_source = ''GT'', tx_sequence = 5, tx_fee = 100, tx_min = 0, tx_max = 100, tx_memo = NoMemo,
     tx_ops = [PathStrictSend ''GT'' (Some Native) (String_of 10) ''GT'' (Some (Credit ''USDC'' ''GISSUER'')) (String_of 5) []], tx_data = None\<rparr>"

definition demo_swap_sdk :: "env_sig list batch_sdk" where
  "demo_swap_sdk = \<lparr>BuildOps = (\<lambda>a ops m ttl. if a = ''GT'' \<and> ops = tx_ops demo_swap_tx then Some [] else None), Parsed = (\<lambda>tx. demo_swap_tx),
     bs_renderer = demo_renderer, bs_valid = (\<lambda>a. True)\<rparr>"

lemma demo_zero: "parse_or_zero [] = 0"
proof -
  have "TrimSpace [] = []" by (simp add: TrimSpace_def TrimFunc_def)
  moreover have "Parse ''0'' = Inr 0" using Parse_canonical [of "''0''" "[]"]
    by (simp add: allDigits_iff is_digit_def canonical_whole_def amount_text_def amount_value_def digits_val_def digit_val_def in_int64_def)
  ultimately show ?thesis by (simp add: parse_or_zero_def orZero_def)
qed

lemma demo_state: "\<exists>state. accountState (mk_account demo_market) a = Some state \<and> at_exists state \<and> can_send state Native 10 = None
    \<and> can_receive state (Credit ''USDC'' ''GISSUER'') = None"
  by (simp add: accountState_def demo_market_def stateOf_def demo_line_def Parse_String demo_zero Let_def can_send_def can_receive_def holding_def
      sameAsset_def reserve_entries_def BaseReserve_def)

lemma demo_assets: "parseAsset plain_tables valid (Some (''USDC'', ''GISSUER'')) ''XLM'' held = Inr Native"
  "parseAsset plain_tables valid (Some (''USDC'', ''GISSUER'')) ''USDC'' held = Inr (Credit ''USDC'' ''GISSUER'')"
proof -
  have t: "TrimSpace ''XLM'' = ''XLM''" "TrimSpace ''USDC'' = ''USDC''" by (simp_all add: TrimSpace_digits IsSpace_def)
  have r: "runes_of ''XLM'' = [88, 76, 77]" "runes_of ''USDC'' = [85, 83, 68, 67]" "runes_of ''native'' = [110, 97, 116, 105, 118, 101]"
    by (simp_all add: runes_of_ascii ascii_def)
  show "parseAsset plain_tables valid (Some (''USDC'', ''GISSUER'')) ''XLM'' held = Inr Native" by (simp add: parseAsset_def t EqualFold_def)
  show "parseAsset plain_tables valid (Some (''USDC'', ''GISSUER'')) ''USDC'' held = Inr (Credit ''USDC'' ''GISSUER'')"
    by (simp add: parseAsset_def t EqualFold_def r FoldRune_def ascii_lower_def validCode_def)
qed

lemma demo_quoted: "quoteSwap demo_market valid demo_cfg demo_treasury 10 ''XLM'' ''USDC'' =
    Inr \<lparr>sq_from = Native, sq_to = Credit ''USDC'' ''GISSUER'', sq_send = 10, sq_receive = 7, sq_route = []\<rparr>"
proof -
  from demo_state obtain state where s: "accountState (mk_account demo_market) (tr_address demo_treasury) = Some state" "at_exists state"
    "can_send state Native 10 = None" "can_receive state (Credit ''USDC'' ''GISSUER'') = None" by blast
  have "QuoteStrictSend (mk_paths demo_market) (Some Native) 10 (Some (Credit ''USDC'' ''GISSUER'')) = Inr \<lparr>qu_receive = 7, qu_path = []\<rparr>"
    by (simp add: QuoteStrictSend_def demo_market_def Parse_String Sign_def)
  moreover have "mk_tables demo_market = plain_tables" "CreditAsset demo_cfg = Some (''USDC'', ''GISSUER'')" by (simp_all add: demo_market_def demo_cfg_def)
  ultimately show ?thesis using s by (simp add: quoteSwap_def demo_assets sameAsset_def Sign_def)
qed

lemma demo_swap_described: "\<exists>d. Describe.DescribeTx demo_renderer ''Test'' (\<lambda>t n. Some h) (Some demo_swap_tx) = Some d \<and> Canonical d \<noteq> []"
  by (simp add: Describe.DescribeTx_def demo_swap_tx_def describeMemo_def describeOp_def normalize_String describeAsset_def describePath_def
      Canonical_def canonical_rows_def canonical_line_def)

theorem ProposeSwap_floor_witness:
  "\<exists>q minimum. q \<in> set (proposals (sv_db (snd (ProposeSwap demo_market demo_swap_sdk (demo_world NoCodes) demo_scope demo_swap (demo_svc demo_rows)))))
     \<and> 0 < sint (minimum :: stroops) \<and> pr_amount q = None"
proof -
  let ?w = "demo_world NoCodes" and ?st = "demo_svc demo_rows" and ?h = "replicate 64 (CHR ''a'')"
  have b: "builds demo_swap_sdk" by (auto simp: builds_def demo_swap_sdk_def demo_swap_tx_def)
  have t: "classicTreasury ?st demo_scope 7 = Inr (100, demo_treasury)"
    by (simp add: classicTreasury_def demo_scope_ok find_treasury_def) (simp add: demo_svc_def demo_treasury_def)
  obtain r st' where pr: "ProposeSwap demo_market demo_swap_sdk ?w demo_scope demo_swap ?st = (r, st')" by fastforce
  from demo_swap_described obtain d where d: "Describe.DescribeTx demo_renderer ''Test'' (\<lambda>t n. Some ?h) (Some demo_swap_tx) = Some d" "Canonical d \<noteq> []" by blast
  have ops: "Swap (bs_valid demo_swap_sdk) \<lparr>sr_from = tr_address demo_treasury, sr_to = tr_address demo_treasury, sr_send_asset = Some Native,
      sr_dest_asset = Some (Credit ''USDC'' ''GISSUER''), sr_send = 10, sr_minimum = 5, sr_path = []\<rparr> = Inr (tx_ops demo_swap_tx)"
    by (simp add: Swap_def demo_swap_sdk_def Sign_def demo_treasury_def demo_swap_tx_def)
  have sp: "swap_spend ?w demo_scope demo_swap \<lparr>sq_from = Native, sq_to = Credit ''USDC'' ''GISSUER'', sq_send = 10, sq_receive = 7, sq_route = []\<rparr> ?st = Inr 0"
    by (simp add: swap_spend_def sameAsset_def cfg_asset_def demo_cfg_def)
  obtain r1 where o: "openOperations demo_swap_sdk ?w demo_scope 100 demo_treasury ''dex'' (tx_ops demo_swap_tx) [] 0 3 ?st = (r1, st')"
    using pr t sp ops demo_writable [of NoCodes] demo_quoted
    by (simp add: ProposeSwap_def demo_scope_ok demo_swap_def swap_minimum_def Sign_def split: prod.splits sum.splits)
  let ?p = "\<lparr>cp_org = 1, cp_treasury = 7, cp_kind = ''dex'', cp_xdr = ''AAAA'', cp_hash = ?h, cp_seq = 5, cp_description = Canonical d,
     cp_digest = replicate 32 (CHR ''0''), cp_amount = 0, cp_created_by = 3, cp_expires_at = 100 * 10 ^ 9\<rparr>"
  have rows: "proposals (snd (CreateProposal demo_pf 20 ?p demo_rows)) = [proposal_row ?p 20 1]" using d(2) by (simp add: proposal_eval demo_hash)
  obtain r2 db where cr: "CreateProposal demo_pf 20 ?p demo_rows = (r2, db)" "proposals db = [proposal_row ?p 20 1]"
    using rows by (cases "CreateProposal demo_pf 20 ?p demo_rows") simp
  have sha: "sha256 demo_pf c = replicate 32 (CHR ''0'')" for c by (simp add: demo_pf_def)
  have "sv_db st' = db" using o cr(1) d(1)
    by (auto simp: openOperations_def openProposal_def described_by_def demo_swap_sdk_def demo_treasury_def demo_scope_ok sha split: sum.splits)
  then have n: "proposal_row ?p 20 1 \<in> set (proposals (sv_db st'))" "pr_id (proposal_row ?p 20 1) \<notin> pr_id ` set (proposals (sv_db ?st))"
    using cr(2) by (simp_all add: demo_rows_def proposal_init_def)
  from ProposeSwap_floor [OF pr b n] obtain minimum :: stroops where "0 < sint minimum" by blast
  moreover have "pr_amount (proposal_row ?p 20 1) = None" by (simp add: proposal_row_def)
  ultimately show ?thesis using n(1) unfolding pr by (intro exI [of _ "proposal_row ?p 20 1"] exI [of _ minimum]) simp
qed

end
