(* ===== verification/Seal.thy ===== *)
theory Seal
  imports Base64 Connector Codes
begin

text \<open>
  \<^verbatim>\<open>connector/seal.go\<close>: a connector's endpoint and credential, encrypted at rest for one org and one connector.  AES-GCM is
  an argument, as what it makes of a key, a nonce, a text and its additional data; what is used of it are two laws
  (\<open>aead_laws\<close>): what was sealed opens under the same data, and not under other data.
\<close>

section \<open>Operations\<close>

record aead =
  ad_seal :: "string \<Rightarrow> string \<Rightarrow> string \<Rightarrow> string \<Rightarrow> string"
  ad_open :: "string \<Rightarrow> string \<Rightarrow> string \<Rightarrow> string \<Rightarrow> string option"

datatype seal_error = ErrKeySize nat | NoOrgGiven | NoConnectorGiven | ErrSealed

definition sealVersion :: string where "sealVersion = ''s1''"

text \<open>\<open>aead.NonceSize()\<close> of GCM.\<close>

definition NonceSize :: nat where "NonceSize = 12"

record Sealer =
  sealing_key :: string

definition NewSealer :: "string \<Rightarrow> (seal_error, Sealer) result" where
  "NewSealer key = (if length key \<noteq> 32 then Inl (ErrKeySize (length key)) else Inr \<lparr>sealing_key = key\<rparr>)"

definition appendField :: "string \<Rightarrow> string \<Rightarrow> string" where
  "appendField dst f = dst @ fmt_nat (length f) @ '':'' @ f"

definition additional :: "OrgID \<Rightarrow> string \<Rightarrow> string" where
  "additional org connector = appendField (appendField sealVersion (fmt_int (sint org))) connector"

text \<open>The nonce is what \<open>rand.Read\<close> filled in.\<close>

definition Seal :: "aead \<Rightarrow> Sealer \<Rightarrow> string \<Rightarrow> OrgID \<Rightarrow> string \<Rightarrow> string \<Rightarrow> (seal_error, string) result" where
  "Seal A s nonce org connector credential =
     (if sint org \<le> 0 then Inl NoOrgGiven
      else if connector = [] then Inl NoConnectorGiven
      else Inr (sealVersion @ ''.'' @ b64_encode (nonce @ ad_seal A (sealing_key s) nonce credential (additional org connector))))"

definition Open :: "aead \<Rightarrow> Sealer \<Rightarrow> OrgID \<Rightarrow> string \<Rightarrow> string \<Rightarrow> (seal_error, string) result" where
  "Open A s org connector text1 =
     (case cut_byte (CHR ''.'') text1 of (version, encoded, ok) \<Rightarrow>
        if \<not> ok \<or> version \<noteq> sealVersion then Inl ErrSealed
        else (case b64_decode encoded of
                None \<Rightarrow> Inl ErrSealed
              | Some raw \<Rightarrow>
                  if length raw < NonceSize then Inl ErrSealed
                  else (case ad_open A (sealing_key s) (take NonceSize raw) (drop NonceSize raw) (additional org connector) of
                          None \<Rightarrow> Inl ErrSealed
                        | Some plain \<Rightarrow> Inr plain)))"

section \<open>What a sealed text is bound to\<close>

lemma appendField_write: "appendField dst f = dst @ write_field f"
  by (simp add: appendField_def write_field_def)

lemma additional_inj: "additional org connector = additional org' connector' \<longleftrightarrow> org = org' \<and> connector = connector'"
  unfolding additional_def appendField_write append_assoc same_append_eq write_field_append
  using write_field_append [of connector "[]" connector' "[]"] by (auto simp: fmt_int_inj signed_word_eqI)

definition aead_laws :: "aead \<Rightarrow> bool" where
  "aead_laws A \<longleftrightarrow> (\<forall>k n p d d'. ad_open A k n (ad_seal A k n p d) d' = (if d' = d then Some p else None))"

lemma Open_sealed:
  assumes "aead_laws A" "length nonce = NonceSize" "Seal A s nonce org connector credential = Inr text1"
  shows "Open A s org' connector' text1 = (if org' = org \<and> connector' = connector then Inr credential else Inl ErrSealed)"
proof -
  let ?raw = "nonce @ ad_seal A (sealing_key s) nonce credential (additional org connector)"
  have t: "text1 = sealVersion @ CHR ''.'' # b64_encode ?raw" using assms(3) by (auto simp: Seal_def split: if_splits)
  have c: "cut_byte (CHR ''.'') text1 = (sealVersion, b64_encode ?raw, True)" unfolding t by (rule cut_byte_found) (simp add: sealVersion_def)
  have "ad_open A (sealing_key s) nonce (ad_seal A (sealing_key s) nonce credential (additional org connector)) (additional org' connector')
      = (if org' = org \<and> connector' = connector then Some credential else None)"
    using assms(1) additional_inj [of org' connector' org connector] by (simp add: aead_laws_def)
  then show ?thesis unfolding Open_def c by (simp add: b64_decode_encode assms(2) [symmetric])
qed

text \<open>
  C28: a credential is sealed to one workspace and one connector.  \<open>Seal\<close> refuses only a missing workspace or name; what it
  returns opens, with the same key, to exactly what was sealed when it is opened for the same workspace and connector, and is
  refused for every other workspace and every other connector, so that a row moved to another tenant does not open at all.
\<close>

theorem sealed_for_one_connector:
  assumes "aead_laws A" "NewSealer key = Inr s" "length nonce = NonceSize"
  shows "(case Seal A s nonce org connector credential of
       Inl e \<Rightarrow> sint org \<le> 0 \<or> connector = []
     | Inr text1 \<Rightarrow> Open A s org connector text1 = Inr credential
        \<and> (\<forall>org' connector'. (org', connector') \<noteq> (org, connector) \<longrightarrow> Open A s org' connector' text1 = Inl ErrSealed))"
proof (cases "Seal A s nonce org connector credential")
  case (Inl e)
  then show ?thesis by (auto simp: Seal_def split: if_splits)
next
  case (Inr text1)
  then show ?thesis using Open_sealed [OF assms(1,3) Inr] by simp
qed

section \<open>Example\<close>

text \<open>A cipher that keeps the additional data beside the text.\<close>

definition demo_aead :: aead where
  "demo_aead = \<lparr>ad_seal = (\<lambda>k n p d. write_field d @ p),
     ad_open = (\<lambda>k n b d. if take (length (write_field d)) b = write_field d then Some (drop (length (write_field d)) b) else None)\<rparr>"

lemma demo_aead_laws: "aead_laws demo_aead"
proof -
  have "take (length (write_field d')) (write_field d @ p) = write_field d' \<longleftrightarrow> d' = d" for d d' p
  proof
    assume "take (length (write_field d')) (write_field d @ p) = write_field d'"
    then have "write_field d @ p = write_field d' @ drop (length (write_field d')) (write_field d @ p)"
      by (metis append_take_drop_id)
    then show "d' = d" unfolding write_field_append by simp
  qed simp
  then show ?thesis by (simp add: aead_laws_def demo_aead_def del: take_append)
qed

theorem sealed_for_one_connector_witness:
  "case Seal demo_aead \<lparr>sealing_key = replicate 32 (CHR ''k'')\<rparr> (replicate 12 (CHR ''n'')) 1 ''23'' ''token'' of
     Inl e \<Rightarrow> False
   | Inr text1 \<Rightarrow> Open demo_aead \<lparr>sealing_key = replicate 32 (CHR ''k'')\<rparr> 1 ''23'' text1 = Inr ''token''
       \<and> Open demo_aead \<lparr>sealing_key = replicate 32 (CHR ''k'')\<rparr> 12 ''3'' text1 = Inl ErrSealed"
proof -
  have k: "NewSealer (replicate 32 (CHR ''k'')) = Inr \<lparr>sealing_key = replicate 32 (CHR ''k'')\<rparr>" by (simp add: NewSealer_def)
  have n: "length (replicate 12 (CHR ''n'')) = NonceSize" by (simp add: NonceSize_def)
  show ?thesis
    using sealed_for_one_connector [OF demo_aead_laws k n, of 1 "''23''" "''token''"] by (auto split: sum.splits)
qed

end
