(* ===== verification/Mcp_Surface.thy ===== *)
theory Mcp_Surface
  imports Connector Utf8
begin

text \<open>
  \<^verbatim>\<open>connector/mcpclient/surface.go\<close>: the tools a remote server offers, and the one encoding of them that a pin is the hash of.
  A JSON value is what \<^verbatim>\<open>encoding/json\<close> decodes into \<^verbatim>\<open>any\<close> with numbers kept as their text: an object's members are a list
  whose order stands for nothing.  The decoder itself is an argument (\<open>json_codec\<close>), and so is SHA-256.
\<close>

section \<open>Operations\<close>

datatype json = JNull | JBool bool | JNum string | JStr string | JArr "json list" | JObj "(string \<times> json) list"

record Tool =
  tl_name :: string
  tl_description :: string
  tl_schema :: string

text \<open>\<open>Decode\<close> of the first value of a text, and whether nothing but white space follows it; \<open>json.Valid\<close> and \<open>json.Compact\<close>.\<close>

record json_codec =
  js_decode :: "string \<Rightarrow> json option"
  js_single :: "string \<Rightarrow> bool"
  js_valid :: "string \<Rightarrow> bool"
  js_compact :: "string \<Rightarrow> string option"

datatype surface_error = TooManyTools nat | BadToolName | TwoTools string | SchemaUnreadable string

definition surfaceVersion :: string where "surfaceVersion = ''stelfin-mcp-surface-1''"
definition maxTools :: nat where "maxTools = 128"
definition maxSchemaDepth :: nat where "maxSchemaDepth = 64"

definition validToolName :: "string \<Rightarrow> bool" where
  "validToolName name =
     (if name = [] \<or> length name > 128 then False
      else list_all (\<lambda>c. (97 \<le> byte c \<and> byte c \<le> 122) \<or> (65 \<le> byte c \<and> byte c \<le> 90) \<or> is_digit c
        \<or> c = CHR ''_'' \<or> c = CHR ''-'' \<or> c = CHR ''.'') name)"

definition sort_members :: "(string \<times> 'a) list \<Rightarrow> (string \<times> 'a) list" where
  "sort_members ms = sort_key (\<lambda>m. map byte (fst m)) ms"

definition write_count :: "nat \<Rightarrow> string" where
  "write_count n = fmt_nat n @ '':''"

text \<open>The rendering of the parts, once each has its own or the whole has failed.\<close>

definition write_array :: "string option list \<Rightarrow> string option" where
  "write_array es = (case those es of None \<Rightarrow> None | Some ss \<Rightarrow> Some (''a'' @ write_count (length ss) @ concat ss))"

definition write_member :: "string \<times> string option \<Rightarrow> string option" where
  "write_member m = map_option (\<lambda>s. write_field (fst m) @ s) (snd m)"

definition write_object :: "(string \<times> string option) list \<Rightarrow> string option" where
  "write_object ms =
     (case those (map write_member (sort_members ms)) of
        None \<Rightarrow> None
      | Some ss \<Rightarrow> Some (''o'' @ write_count (length ms) @ concat ss))"

primrec writeCanonical :: "json \<Rightarrow> nat \<Rightarrow> string option" where
  "writeCanonical JNull depth = (if depth > maxSchemaDepth then None else Some ''n'')"
| "writeCanonical (JBool b) depth = (if depth > maxSchemaDepth then None else Some (if b then ''t'' else ''f''))"
| "writeCanonical (JNum s) depth = (if depth > maxSchemaDepth then None else Some (''d'' @ write_field s))"
| "writeCanonical (JStr s) depth = (if depth > maxSchemaDepth then None else Some (''s'' @ write_field s))"
| "writeCanonical (JArr vs) depth =
     (if depth > maxSchemaDepth then None else write_array (map (\<lambda>f. f (Suc depth)) (map writeCanonical vs)))"
| "writeCanonical (JObj ms) depth =
     (if depth > maxSchemaDepth then None else write_object (map (\<lambda>(k, f). (k, f (Suc depth))) (map (map_prod id writeCanonical) ms)))"

definition canonical_schema :: "json_codec \<Rightarrow> string \<Rightarrow> string option" where
  "canonical_schema J raw =
     (if TrimSpace raw = [] then Some ''n''
      else case js_decode J raw of
             None \<Rightarrow> None
           | Some v \<Rightarrow> if \<not> js_single J raw then None else writeCanonical v 0)"

definition sort_tools :: "Tool list \<Rightarrow> Tool list" where
  "sort_tools tools = sort_key (\<lambda>t. map byte (tl_name t)) tools"

text \<open>The loop over the sorted tools, with the name before.\<close>

fun write_tools :: "json_codec \<Rightarrow> string option \<Rightarrow> Tool list \<Rightarrow> (surface_error, string) result" where
  "write_tools J prev [] = Inr []"
| "write_tools J prev (t # ts) =
     (if \<not> validToolName (tl_name t) then Inl BadToolName
      else if prev = Some (tl_name t) then Inl (TwoTools (tl_name t))
      else case canonical_schema J (tl_schema t) of
             None \<Rightarrow> Inl (SchemaUnreadable (tl_name t))
           | Some schema \<Rightarrow>
               (case write_tools J (Some (tl_name t)) ts of
                  Inl e \<Rightarrow> Inl e
                | Inr rest \<Rightarrow> Inr (write_field (tl_name t) @ write_field (tl_description t) @ write_field schema @ rest)))"

definition tool_preimage :: "json_codec \<Rightarrow> Tool list \<Rightarrow> (surface_error, string) result" where
  "tool_preimage J tools =
     (if length tools > maxTools then Inl (TooManyTools (length tools))
      else case write_tools J None (sort_tools tools) of
             Inl e \<Rightarrow> Inl e
           | Inr body \<Rightarrow> Inr (write_field surfaceVersion @ write_count (length tools) @ body))"

definition ToolSurface :: "json_codec \<Rightarrow> (string \<Rightarrow> string) \<Rightarrow> Tool list \<Rightarrow> (surface_error, string) result" where
  "ToolSurface J sha256_hex tools = (case tool_preimage J tools of Inl e \<Rightarrow> Inl e | Inr b \<Rightarrow> Inr (sha256_hex b))"

section \<open>What one encoding stands for\<close>

text \<open>A value with the members of every object in the order of their names.\<close>

primrec ordered :: "json \<Rightarrow> json" where
  "ordered JNull = JNull"
| "ordered (JBool b) = JBool b"
| "ordered (JNum s) = JNum s"
| "ordered (JStr s) = JStr s"
| "ordered (JArr vs) = JArr (map ordered vs)"
| "ordered (JObj ms) = JObj (sort_members (map (map_prod id ordered) ms))"

lemma insort_members_map:
  "insort_key (\<lambda>m. map byte (fst m)) (map_prod id f m) (map (map_prod id f) ms) = map (map_prod id f) (insort_key (\<lambda>m. map byte (fst m)) m ms)"
  by (induction ms) simp_all

lemma sort_members_map: "sort_members (map (map_prod id f) ms) = map (map_prod id f) (sort_members ms)"
  unfolding sort_members_def by (induction ms) (simp_all add: insort_members_map [unfolded id_def])

lemma sort_members_idem: "sort_members (sort_members ms) = sort_members ms"
  unfolding sort_members_def by (rule sort_key_id_if_sorted) simp

lemma applied_members: "map (\<lambda>(k, f). (k, f n)) (map (map_prod id g) ms) = map (map_prod id (\<lambda>v. g v n)) ms"
  by (simp add: case_prod_beta map_prod_def)

text \<open>The two composite cases over the values themselves.\<close>

lemma writeCanonical_Arr: "writeCanonical (JArr vs) d = (if d > maxSchemaDepth then None else write_array (map (\<lambda>v. writeCanonical v (Suc d)) vs))"
  by (simp add: comp_def)

definition member_text :: "nat \<Rightarrow> string \<times> json \<Rightarrow> string option" where
  "member_text d m = map_option (\<lambda>s. write_field (fst m) @ s) (writeCanonical (snd m) d)"

lemma writeCanonical_Obj: "writeCanonical (JObj ms) d =
    (if d > maxSchemaDepth then None
     else map_option (\<lambda>ss. ''o'' @ write_count (length ms) @ concat ss) (those (map (member_text (Suc d)) (sort_members ms))))"
proof -
  have "map write_member (map (map_prod id (\<lambda>v. writeCanonical v (Suc d))) xs) = map (member_text (Suc d)) xs" for xs
    by (simp add: write_member_def member_text_def)
  then show ?thesis
    by (simp add: write_object_def applied_members sort_members_map option.case_eq_if map_option_case del: map_map)
qed

lemmas writeCanonical_simps = writeCanonical.simps(1,2,3,4) writeCanonical_Arr writeCanonical_Obj

declare writeCanonical.simps [simp del]

lemma those_Some: "those xs = Some ss \<longleftrightarrow> xs = map Some ss"
  by (induction xs arbitrary: ss) (auto simp: map_eq_Cons_conv Cons_eq_map_conv split: option.splits)

text \<open>Texts none of which is the beginning of another, one after the other.\<close>

lemma concat_prefix_free:
  assumes "\<And>v w s t x y. v \<in> set vs \<Longrightarrow> f v = Some s \<Longrightarrow> g w = Some t \<Longrightarrow> s @ x = t @ y \<Longrightarrow> h v = h w \<and> x = y"
    and "map f vs = map Some ss" "map g ws = map Some ts" "length vs = length ws" "concat ss @ x = concat ts @ y"
  shows "map h vs = map h ws \<and> x = y"
  using assms(4,1,2,3,5)
proof (induction vs ws arbitrary: ss ts rule: list_induct2)
  case (Cons v vs w ws)
  obtain s ss' where s: "ss = s # ss'" "f v = Some s" "map f vs = map Some ss'" using Cons.prems(2) by (auto simp: Cons_eq_map_conv)
  obtain t ts' where t: "ts = t # ts'" "g w = Some t" "map g ws = map Some ts'" using Cons.prems(3) by (auto simp: Cons_eq_map_conv)
  have e: "s @ (concat ss' @ x) = t @ (concat ts' @ y)" using Cons.prems(4) by (simp add: s(1) t(1))
  have "h v = h w \<and> concat ss' @ x = concat ts' @ y" by (rule Cons.prems(1) [OF _ s(2) t(2) e]) simp
  moreover have "map h vs = map h ws \<and> x = y"
    by (rule Cons.IH [OF Cons.prems(1) [OF list.set_intros(2)] s(3) t(3)]) (use calculation in simp_all)
  ultimately show ?case by simp
qed simp

lemma write_count_append: "write_count m @ x = write_count n @ y \<longleftrightarrow> m = n \<and> x = y"
  using write_number_append [of m x n y] by (simp add: write_count_def)

fun tag_of :: "json \<Rightarrow> char" where
  "tag_of JNull = CHR ''n''"
| "tag_of (JBool b) = (if b then CHR ''t'' else CHR ''f'')"
| "tag_of (JNum s) = CHR ''d''"
| "tag_of (JStr s) = CHR ''s''"
| "tag_of (JArr vs) = CHR ''a''"
| "tag_of (JObj ms) = CHR ''o''"

lemma writeCanonical_tag: "writeCanonical v d = Some a \<Longrightarrow> \<exists>t. a = tag_of v # t"
  by (cases v) (auto simp: writeCanonical_simps write_array_def split: if_splits option.splits)

lemma same_tag: "writeCanonical v d = Some a \<Longrightarrow> writeCanonical w e = Some b \<Longrightarrow> a @ x = b @ y \<Longrightarrow> tag_of v = tag_of w"
  using writeCanonical_tag [of v d a] writeCanonical_tag [of w e b] by auto

lemma leaf_texts:
  "writeCanonical JNull d = Some a \<Longrightarrow> a = ''n''"
  "writeCanonical (JBool c) d = Some a \<Longrightarrow> a = (if c then ''t'' else ''f'')"
  "writeCanonical (JNum s) d = Some a \<Longrightarrow> a = CHR ''d'' # write_field s"
  "writeCanonical (JStr s) d = Some a \<Longrightarrow> a = CHR ''s'' # write_field s"
  by (auto simp: writeCanonical_simps split: if_splits)

lemma writeCanonical_prefix:
  "writeCanonical v d = Some a \<Longrightarrow> writeCanonical w e = Some b \<Longrightarrow> a @ x = b @ y \<Longrightarrow> ordered v = ordered w \<and> x = y"
proof (induction v arbitrary: w d e a b x y)
  case (JArr vs)
  then obtain ss where a: "those (map (\<lambda>v. writeCanonical v (Suc d)) vs) = Some ss" "a = ''a'' @ write_count (length ss) @ concat ss"
    by (auto simp: writeCanonical_simps write_array_def split: if_splits option.splits)
  from JArr.prems(2,3) a(2) obtain ws ts where b: "w = JArr ws" "those (map (\<lambda>v. writeCanonical v (Suc e)) ws) = Some ts"
      "b = ''a'' @ write_count (length ts) @ concat ts"
    by (cases w) (auto simp: writeCanonical_simps write_array_def split: if_splits option.splits)
  have l: "length ss = length ts" "concat ss @ x = concat ts @ y" using JArr.prems(3) by (simp_all add: a(2) b(3) write_count_append)
  have m: "map (\<lambda>v. writeCanonical v (Suc d)) vs = map Some ss" "map (\<lambda>v. writeCanonical v (Suc e)) ws = map Some ts"
    using a(1) b(2) by (simp_all add: those_Some)
  have "length vs = length ws" using l(1) m by (metis length_map)
  have step: "ordered v = ordered v' \<and> x' = y'"
    if "v \<in> set vs" "writeCanonical v (Suc d) = Some s" "writeCanonical v' (Suc e) = Some t" "s @ x' = t @ y'" for v v' s t x' y'
    by (rule JArr.IH [OF that])
  have "map ordered vs = map ordered ws \<and> x = y"
    by (rule concat_prefix_free [OF step m \<open>length vs = length ws\<close> l(2)])
  then show ?case by (simp add: b(1))
next
  case (JObj ms)
  then obtain ss where a: "those (map (member_text (Suc d)) (sort_members ms)) = Some ss" "a = ''o'' @ write_count (length ms) @ concat ss"
    by (auto simp: writeCanonical_simps split: if_splits)
  from JObj.prems(2,3) a(2) obtain ws ts where b: "w = JObj ws" "those (map (member_text (Suc e)) (sort_members ws)) = Some ts"
      "b = ''o'' @ write_count (length ws) @ concat ts"
    by (cases w) (auto simp: writeCanonical_simps write_array_def split: if_splits option.splits)
  have l: "length ms = length ws" "concat ss @ x = concat ts @ y" using JObj.prems(3) by (simp_all add: a(2) b(3) write_count_append)
  have step: "map_prod id ordered m = map_prod id ordered m' \<and> x' = y'"
    if h: "m \<in> set (sort_members ms)" "member_text (Suc d) m = Some s" "member_text (Suc e) m' = Some t" "s @ x' = t @ y'" for m m' s t x' y'
  proof -
    obtain s' t' where s': "writeCanonical (snd m) (Suc d) = Some s'" "s = write_field (fst m) @ s'"
      "writeCanonical (snd m') (Suc e) = Some t'" "t = write_field (fst m') @ t'" using h(2,3) by (auto simp: member_text_def)
    have k: "fst m = fst m'" "s' @ x' = t' @ y'" using h(4) by (simp_all add: s'(2,4) write_field_append)
    have "m \<in> set ms" using h(1) by (simp add: sort_members_def)
    then have "ordered (snd m) = ordered (snd m') \<and> x' = y'" by (intro JObj.IH [OF _ _ s'(1,3) k(2)]) (auto intro: prod_set_simps snds.intros)
    then show ?thesis using k(1) by (simp add: map_prod_def case_prod_beta)
  qed
  have "map (map_prod id ordered) (sort_members ms) = map (map_prod id ordered) (sort_members ws) \<and> x = y"
    by (rule concat_prefix_free [OF step a(1) [unfolded those_Some] b(2) [unfolded those_Some] _ l(2)]) (simp_all add: l(1) sort_members_def)
  then show ?case by (simp add: b(1) sort_members_map)
next
  case JNull
  then have "w = JNull" using same_tag [OF JNull] by (cases w) (auto split: if_splits)
  then show ?case using JNull leaf_texts(1) by auto
next
  case (JBool c)
  then have "w = JBool c" using same_tag [OF JBool] by (cases w) (auto split: if_splits)
  then show ?case using JBool(3) leaf_texts(2) [OF JBool(1)] leaf_texts(2) [of c e b] JBool(2) by simp
next
  case (JNum s)
  then obtain t where "w = JNum t" using same_tag [OF JNum] by (cases w) (auto split: if_splits)
  then show ?case using JNum(3) leaf_texts(3) [OF JNum(1)] leaf_texts(3) [of t e b] JNum(2) by (simp add: write_field_append)
next
  case (JStr s)
  then obtain t where "w = JStr t" using same_tag [OF JStr] by (cases w) (auto split: if_splits)
  then show ?case using JStr(3) leaf_texts(4) [OF JStr(1)] leaf_texts(4) [of t e b] JStr(2) by (simp add: write_field_append)
qed

lemma ordered_idem: "ordered (ordered v) = ordered v"
proof (induction v)
  case (JObj ms)
  have "map_prod id ordered (map_prod id ordered m) = map_prod id ordered m" if "m \<in> set ms" for m
    using JObj [of m "snd m"] that by (cases m) auto
  then have "map (map_prod id ordered) (map (map_prod id ordered) (sort_members ms)) = map (map_prod id ordered) (sort_members ms)"
    unfolding map_map by (intro map_cong) (auto simp: sort_members_def)
  then show ?case by (simp only: ordered.simps sort_members_map sort_members_idem)
qed simp_all

lemma writeCanonical_ordered: "writeCanonical (ordered v) d = writeCanonical v d"
proof (induction v arbitrary: d)
  case (JArr vs)
  then have "map (\<lambda>v. writeCanonical v (Suc d)) (map ordered vs) = map (\<lambda>v. writeCanonical v (Suc d)) vs" by simp
  then show ?case by (simp only: ordered.simps writeCanonical_simps)
next
  case (JObj ms)
  have "member_text (Suc d) (map_prod id ordered m) = member_text (Suc d) m" if "m \<in> set ms" for m
    using JObj [of m "snd m" "Suc d"] that by (cases m) (auto simp: member_text_def)
  then have "map (member_text (Suc d)) (map (map_prod id ordered) (sort_members ms)) = map (member_text (Suc d)) (sort_members ms)"
    by (simp add: sort_members_def)
  then show ?case
    by (simp only: ordered.simps writeCanonical_simps sort_members_map [symmetric] sort_members_idem)
       (simp only: sort_members_map sort_members_idem length_map, simp add: sort_members_def)
qed simp_all

text \<open>What a schema says: absent and null alike, and the members of an object in no order.\<close>

definition reading :: "json_codec \<Rightarrow> string \<Rightarrow> json option" where
  "reading J raw =
     (if TrimSpace raw = [] then Some JNull
      else if js_single J raw then map_option ordered (js_decode J raw) else None)"

lemma canonical_writes: "canonical_schema J raw = Some c \<Longrightarrow> \<exists>v. reading J raw = Some v \<and> ordered v = v \<and> writeCanonical v 0 = Some c"
proof -
  assume c: "canonical_schema J raw = Some c"
  show ?thesis
  proof (cases "TrimSpace raw = []")
    case True
    then show ?thesis using c by (simp add: canonical_schema_def reading_def writeCanonical_simps maxSchemaDepth_def)
  next
    case False
    then obtain v where v: "js_decode J raw = Some v" "js_single J raw" "writeCanonical v 0 = Some c"
      using c by (auto simp: canonical_schema_def split: option.splits if_splits)
    then show ?thesis using False by (simp add: reading_def writeCanonical_ordered ordered_idem)
  qed
qed

lemma canonical_eq_iff:
  assumes "canonical_schema J r = Some c" "canonical_schema J r' = Some c'"
  shows "c = c' \<longleftrightarrow> reading J r = reading J r'"
proof -
  obtain v where v: "reading J r = Some v" "ordered v = v" "writeCanonical v 0 = Some c" using canonical_writes [OF assms(1)] by blast
  obtain w where w: "reading J r' = Some w" "ordered w = w" "writeCanonical w 0 = Some c'" using canonical_writes [OF assms(2)] by blast
  show ?thesis using writeCanonical_prefix [OF v(3) w(3), of "[]" "[]"] v w by auto
qed

section \<open>What a pin covers\<close>

definition offer :: "json_codec \<Rightarrow> Tool \<Rightarrow> string \<times> string \<times> json option" where
  "offer J t = (tl_name t, tl_description t, reading J (tl_schema t))"

lemma map_byte_inj: "map byte s = map byte t \<longleftrightarrow> s = t"
  by (simp add: inj_map_eq_map inj_def of_char_eq_iff)

lemma write_tools_ok:
  "write_tools J p ts = Inr a \<Longrightarrow> sorted (map (\<lambda>t. map byte (tl_name t)) ts) \<Longrightarrow> (\<And>q t. p = Some q \<Longrightarrow> t \<in> set ts \<Longrightarrow> map byte q \<le> map byte (tl_name t))
   \<Longrightarrow> distinct (map tl_name ts) \<and> p \<notin> Some ` tl_name ` set ts \<and> (\<forall>t\<in>set ts. validToolName (tl_name t) \<and> reading J (tl_schema t) \<noteq> None)"
proof (induction ts arbitrary: p a)
  case (Cons t ts)
  then obtain c b where w: "p \<noteq> Some (tl_name t)" "validToolName (tl_name t)" "canonical_schema J (tl_schema t) = Some c" "write_tools J (Some (tl_name t)) ts = Inr b"
    by (auto split: if_splits option.splits sum.splits)
  have "distinct (map tl_name ts) \<and> Some (tl_name t) \<notin> Some ` tl_name ` set ts
      \<and> (\<forall>t\<in>set ts. validToolName (tl_name t) \<and> reading J (tl_schema t) \<noteq> None)"
    by (rule Cons.IH [OF w(4)]) (use Cons.prems(2) in auto)
  moreover have "tl_name u \<noteq> q" if "p = Some q" "u \<in> set ts" for u q
  proof
    assume u: "tl_name u = q"
    have "map byte q \<le> map byte (tl_name t)" "map byte (tl_name t) \<le> map byte (tl_name u)" using Cons.prems(2,3) that by auto
    then have "map byte q = map byte (tl_name t)" using u by simp
    then show False using w(1) that(1) by (simp add: map_byte_inj)
  qed
  ultimately show ?case using w(1,2) canonical_writes [OF w(3)] by fastforce
qed auto

lemma write_tools_eq_iff:
  "write_tools J p ts = Inr a \<Longrightarrow> write_tools J q us = Inr b \<Longrightarrow> length ts = length us \<Longrightarrow> a = b \<longleftrightarrow> map (offer J) ts = map (offer J) us"
proof (induction ts arbitrary: p q us a b)
  case (Cons t ts)
  then obtain u us' where us: "us = u # us'" by (cases us) auto
  obtain c r where t: "canonical_schema J (tl_schema t) = Some c" "write_tools J (Some (tl_name t)) ts = Inr r"
      "a = write_field (tl_name t) @ write_field (tl_description t) @ write_field c @ r"
    using Cons.prems(1) by (auto split: if_splits option.splits sum.splits)
  obtain d s where u: "canonical_schema J (tl_schema u) = Some d" "write_tools J (Some (tl_name u)) us' = Inr s"
      "b = write_field (tl_name u) @ write_field (tl_description u) @ write_field d @ s"
    using Cons.prems(2) us by (auto split: if_splits option.splits sum.splits)
  have "r = s \<longleftrightarrow> map (offer J) ts = map (offer J) us'" by (rule Cons.IH [OF t(2) u(2)]) (use Cons.prems(3) us in simp)
  then show ?case
    by (simp add: t(3) u(3) us write_field_append offer_def [of J t] offer_def [of J u] canonical_eq_iff [OF t(1) u(1)] conj_ac)
qed simp

lemma insort_offer:
  "insort_key (\<lambda>v. map byte (fst v)) (offer J t) (map (offer J) ts) = map (offer J) (insort_key (\<lambda>t. map byte (tl_name t)) t ts)"
  by (induction ts) (simp_all add: offer_def)

lemma sort_offers: "map (offer J) (sort_tools ts) = sort_key (\<lambda>v. map byte (fst v)) (map (offer J) ts)"
  unfolding sort_tools_def by (induction ts) (simp_all add: insort_offer [symmetric])

lemma tool_preimage_names:
  assumes "tool_preimage J ts = Inr a"
  shows "distinct (map tl_name ts) \<and> length ts \<le> maxTools \<and> (\<forall>t\<in>set ts. validToolName (tl_name t) \<and> reading J (tl_schema t) \<noteq> None)"
proof -
  obtain b where "write_tools J None (sort_tools ts) = Inr b" "length ts \<le> maxTools"
    using assms by (auto simp: tool_preimage_def split: if_splits sum.splits)
  then have w: "distinct (map tl_name (sort_tools ts))" "\<forall>t\<in>set ts. validToolName (tl_name t) \<and> reading J (tl_schema t) \<noteq> None"
    using write_tools_ok [of J None "sort_tools ts" b] by (auto simp: sort_tools_def)
  have "mset (map tl_name (sort_tools ts)) = mset (map tl_name ts)" unfolding mset_map sort_tools_def mset_sort ..
  then have "distinct (map tl_name ts)" using w(1) by (metis distinct_count_atmost_1 set_mset_mset)
  then show ?thesis using w(2) \<open>length ts \<le> maxTools\<close> by blast
qed

lemma sorted_offers_eq_iff:
  assumes "distinct (map tl_name ts)" "distinct (map tl_name us)"
  shows "map (offer J) (sort_tools ts) = map (offer J) (sort_tools us) \<longleftrightarrow> offer J ` set ts = offer J ` set us"
proof
  assume "map (offer J) (sort_tools ts) = map (offer J) (sort_tools us)"
  then have "set (map (offer J) (sort_tools ts)) = set (map (offer J) (sort_tools us))" by simp
  then show "offer J ` set ts = offer J ` set us" by (simp add: sort_tools_def)
next
  have d: "distinct (map (offer J) xs)" if "distinct (map tl_name xs)" for xs
    using that by (auto simp: distinct_map inj_on_def offer_def)
  assume e: "offer J ` set ts = offer J ` set us"
  then have "mset (map (offer J) ts) = mset (map (offer J) us)"
    using d [OF assms(1)] d [OF assms(2)] by (simp add: set_eq_iff_mset_eq_distinct [symmetric] del: mset_map)
  moreover have "inj_on (\<lambda>v. map byte (fst v)) (set (map (offer J) ts))"
    unfolding set_map e inj_on_def using assms(2) by (auto simp: map_byte_inj distinct_map inj_on_def offer_def)
  ultimately show "map (offer J) (sort_tools ts) = map (offer J) (sort_tools us)"
    unfolding sort_offers by (intro sort_key_inj_key_eq) (simp_all add: mset_sort)
qed

lemma tool_preimage_eq_iff:
  assumes "tool_preimage J ts = Inr a" "tool_preimage J us = Inr b"
  shows "a = b \<longleftrightarrow> offer J ` set ts = offer J ` set us"
proof -
  obtain x where x: "write_tools J None (sort_tools ts) = Inr x" "a = write_field surfaceVersion @ write_count (length ts) @ x"
    using assms(1) by (auto simp: tool_preimage_def split: if_splits sum.splits)
  obtain y where y: "write_tools J None (sort_tools us) = Inr y" "b = write_field surfaceVersion @ write_count (length us) @ y"
    using assms(2) by (auto simp: tool_preimage_def split: if_splits sum.splits)
  have n: "distinct (map tl_name ts)" "distinct (map tl_name us)" using assms tool_preimage_names by blast+
  have d: "length xs = card (offer J ` set xs)" if "distinct (map tl_name xs)" for xs
  proof -
    have "inj_on (offer J) (set xs)" using that by (auto simp: inj_on_def offer_def distinct_map)
    then show ?thesis using that by (simp add: card_image distinct_map distinct_card)
  qed
  show ?thesis
  proof (cases "length ts = length us")
    case True
    then show ?thesis using write_tools_eq_iff [OF x(1) y(1)] sorted_offers_eq_iff [OF n, of J] by (simp add: x(2) y(2) sort_tools_def)
  next
    case False
    then show ?thesis using d [OF n(1)] d [OF n(2)] by (auto simp: x(2) y(2) write_count_append)
  qed
qed

lemma ToolSurface_preimage:
  assumes "ToolSurface J sha256_hex ts = Inr h"
  obtains a where "tool_preimage J ts = Inr a" "h = sha256_hex a" "distinct (map tl_name ts)" "length ts \<le> maxTools"
  using assms tool_preimage_names by (auto simp: ToolSurface_def split: sum.splits)

lemma same_digest:
  assumes "ToolSurface J sha256_hex ts = Inr h" "ToolSurface J sha256_hex us = Inr h"
  shows "distinct (map tl_name ts) \<and> (offer J ` set ts = offer J ` set us
    \<or> (\<exists>a b. tool_preimage J ts = Inr a \<and> tool_preimage J us = Inr b \<and> a \<noteq> b \<and> sha256_hex a = sha256_hex b))"
  using assms tool_preimage_eq_iff by (elim ToolSurface_preimage) metis

text \<open>
  C21: a pin is of the tools themselves.  Two lists a server may offer have the same surface digest exactly when they offer the same
  tools, each with the same name, the same description and the same input schema, whatever the order of the tools, of an
  object's members, the white space or the escapes; unless SHA-256 sends two different texts, the encodings of the two lists, to
  one digest.  No two tools of a surface share a name.
\<close>

theorem surface_digest_pins:
  assumes "ToolSurface J sha256_hex ts = Inr h" "ToolSurface J sha256_hex us = Inr k"
  shows "(offer J ` set ts = offer J ` set us \<longrightarrow> h = k) \<and> distinct (map tl_name ts) \<and> length ts \<le> maxTools
    \<and> (h = k \<longrightarrow> offer J ` set ts = offer J ` set us
         \<or> (\<exists>a b. tool_preimage J ts = Inr a \<and> tool_preimage J us = Inr b \<and> a \<noteq> b \<and> sha256_hex a = sha256_hex b))"
proof -
  obtain a where a: "tool_preimage J ts = Inr a" "h = sha256_hex a" "distinct (map tl_name ts)" "length ts \<le> maxTools"
    using assms(1) by (rule ToolSurface_preimage)
  obtain b where b: "tool_preimage J us = Inr b" "k = sha256_hex b" using assms(2) by (rule ToolSurface_preimage)
  show ?thesis using tool_preimage_eq_iff [OF a(1) b(1)] a b by blast
qed

section \<open>Example\<close>

text \<open>A decoder that knows two spellings of one schema.\<close>

definition demo_codec :: json_codec where
  "demo_codec = \<lparr>js_decode = (\<lambda>r. if r = ''ab'' then Some (JObj [(''a'', JNum ''1''), (''b'', JNull)])
       else if r = ''ba'' then Some (JObj [(''b'', JNull), (''a'', JNum ''1'')]) else None),
     js_single = (\<lambda>r. True), js_valid = (\<lambda>r. True), js_compact = Some\<rparr>"

definition demo_tools :: "string \<Rightarrow> Tool list" where
  "demo_tools schema = [\<lparr>tl_name = ''list'', tl_description = [], tl_schema = []\<rparr>, \<lparr>tl_name = ''rate'', tl_description = ''quotes'', tl_schema = schema\<rparr>]"

lemma demo_schemas: "TrimSpace ''ab'' = ''ab''" "TrimSpace ''ba'' = ''ba''" "TrimSpace [] = []"
  by (simp_all add: TrimSpace_digits IsSpace_def) (simp add: TrimSpace_def TrimFunc_def chunk_text_def)

lemma demo_sorted: "sort_tools (demo_tools s) = demo_tools s" "sort_tools (rev (demo_tools s)) = demo_tools s"
proof -
  have "map byte ''list'' \<le> map byte ''rate''" "\<not> map byte ''rate'' \<le> map byte ''list''" by (simp_all add: Cons_le_Cons)
  then show "sort_tools (demo_tools s) = demo_tools s" "sort_tools (rev (demo_tools s)) = demo_tools s"
    by (simp_all add: sort_tools_def demo_tools_def)
qed

lemma demo_count: "length (demo_tools s) = 2"
  by (simp add: demo_tools_def)

lemma demo_surface: "s \<in> {''ab'', ''ba''} \<Longrightarrow> \<exists>b. write_tools demo_codec None (demo_tools s) = Inr b"
  by (auto simp: demo_tools_def validToolName_def is_digit_def canonical_schema_def demo_schemas demo_codec_def writeCanonical_simps maxSchemaDepth_def
      member_text_def sort_members_def)

theorem surface_digest_pins_witness:
  "\<exists>h. ToolSurface demo_codec id (demo_tools ''ab'') = Inr h \<and> ToolSurface demo_codec id (rev (demo_tools ''ba'')) = Inr h"
proof -
  obtain h where h: "ToolSurface demo_codec id (demo_tools ''ab'') = Inr h"
    using demo_surface [of "''ab''"] by (auto simp: ToolSurface_def tool_preimage_def demo_sorted demo_count maxTools_def)
  obtain k where k: "ToolSurface demo_codec id (rev (demo_tools ''ba'')) = Inr k"
    using demo_surface [of "''ba''"] by (auto simp: ToolSurface_def tool_preimage_def demo_sorted demo_count maxTools_def)
  have "offer demo_codec ` set (demo_tools ''ab'') = offer demo_codec ` set (rev (demo_tools ''ba''))"
    by (simp add: demo_tools_def offer_def reading_def demo_schemas demo_codec_def sort_members_def insert_commute)
  then show ?thesis using surface_digest_pins [OF h k] h k by simp
qed

end
