(* ===== verification/Mcp_Client.thy ===== *)
theory Mcp_Client
  imports Mcp_Surface Breaker Egress Codes
begin

text \<open>
  \<^verbatim>\<open>connector/mcpclient/mcpclient.go\<close> and \<^verbatim>\<open>connector/mcpclient/wire.go\<close>: a client of one remote MCP server that calls no
  tool unless the server still offers the surface that was approved.  The server is an arbitrary function of everything that was
  sent to it in the session (\<open>mcp_server\<close>), so that it may answer as it likes and differently each time; a session keeps the list
  of what was sent, arguments as the compacted text that encoding them yields up to its escaping of HTML.  Decoding JSON into the shapes the code asks for, reading a media type and SHA-256 are arguments.
\<close>

section \<open>The wire\<close>

datatype mcp_error =
    NeedsID | NeedsHTTP | EndpointRefused egress_error | CredentialControl | NeedsPin | NeedsTools | ToolsNotPlain
  | McpSurfaceChanged | ErrToolNotPinned | ErrCircuitOpen | ErrBadSelector | ErrToolFailed | ErrProtocol | ErrServerRequest
  | NotReached | HTTPStatus int | ErrBodyTooLarge | BodyFailed

datatype mcp_params = NoParams | InitParams | ListParams | CallParams string string

record mcp_request =
  mr_method :: string
  mr_id :: "nat option"
  mr_params :: mcp_params
  mr_session :: string
  mr_version :: string
  mr_bearer :: string

record http_response =
  hr_status :: int
  hr_type :: string
  hr_session :: string
  hr_body :: string
  hr_broken :: bool

type_synonym mcp_server = "mcp_request list \<Rightarrow> http_response option"

record message =
  mg_jsonrpc :: string
  mg_id :: string
  mg_method :: string
  mg_result :: string
  mg_error :: "int option"

text \<open>\<open>json.Unmarshal\<close> of a message; the shapes a result is decoded into; the kind of \<open>mime.ParseMediaType\<close>.\<close>

record wire_codec =
  wc_message :: "string \<Rightarrow> message option"
  wc_version :: "string \<Rightarrow> string option"
  wc_tools :: "string \<Rightarrow> (Tool list \<times> string) option"
  wc_content :: "string \<Rightarrow> ((string \<times> string) list \<times> bool) option"
  wc_media :: "string \<Rightarrow> string option"

record mcp_endpoint =
  ep_url :: string
  ep_bearer :: string
  ep_max :: nat

record session =
  se_id :: string
  se_version :: string
  se_next :: nat
  se_sent :: "mcp_request list"

definition acceptedVersions :: "string list" where
  "acceptedVersions = [''2024-11-05'', ''2025-03-26'', ''2025-06-18'']"

definition visibleASCII :: "string \<Rightarrow> bool" where
  "visibleASCII s \<longleftrightarrow> list_all (\<lambda>c. 33 \<le> byte c \<and> byte c \<le> 126) s"

definition parseMessage :: "wire_codec \<Rightarrow> string \<Rightarrow> (mcp_error, message) result" where
  "parseMessage C raw =
     (case wc_message C raw of
        None \<Rightarrow> Inl ErrProtocol
      | Some m \<Rightarrow> if mg_jsonrpc m \<noteq> ''2.0'' then Inl ErrProtocol else Inr m)"

definition hasID :: "message \<Rightarrow> bool" where
  "hasID m \<longleftrightarrow> TrimSpace (mg_id m) \<noteq> [] \<and> TrimSpace (mg_id m) \<noteq> ''null''"

definition refuseServerMessage :: "message \<Rightarrow> mcp_error" where
  "refuseServerMessage m = (if hasID m then ErrServerRequest else ErrProtocol)"

definition checkID :: "message \<Rightarrow> nat \<Rightarrow> (mcp_error, message) result" where
  "checkID m i = (if TrimSpace (mg_id m) \<noteq> fmt_nat i then Inl ErrProtocol else Inr m)"

text \<open>\<open>egress.LimitBody\<close>: the bytes that can be read, and what ends them when it is not the end of the body.\<close>

definition LimitBody :: "http_response \<Rightarrow> nat \<Rightarrow> string \<times> mcp_error option" where
  "LimitBody r limit =
     (if length (hr_body r) > limit then (take limit (hr_body r), Some ErrBodyTooLarge)
      else (hr_body r, if hr_broken r then Some BodyFailed else None))"

text \<open>The lines \<open>ReadString\<close> yields before the error that ends them: a last line without its newline counts only at the end of the body.\<close>

definition stream_lines :: "string \<times> mcp_error option \<Rightarrow> string list" where
  "stream_lines b =
     (let pieces = split_byte (chr 10) (fst b); rest = last pieces
      in map (trim_right_byte (chr 13)) (if snd b = None \<and> rest \<noteq> [] then pieces else butlast pieces))"

fun read_events :: "wire_codec \<Rightarrow> nat \<Rightarrow> mcp_error \<Rightarrow> string list \<Rightarrow> string list \<Rightarrow> (mcp_error, message) result" where
  "read_events C i ending data [] = Inl ending"
| "read_events C i ending data (line # ls) =
     (if line \<noteq> [] then
        (if has_prefix line ''data:'' then read_events C i ending (data @ [trim_prefix (drop 5 line) '' '']) ls
         else read_events C i ending data ls)
      else if data = [] then read_events C i ending data ls
      else case parseMessage C (join [chr 10] data) of
             Inl e \<Rightarrow> Inl e
           | Inr m \<Rightarrow>
               if mg_method m \<noteq> [] then (if hasID m then Inl ErrServerRequest else read_events C i ending [] ls)
               else checkID m i)"

definition readStream :: "wire_codec \<Rightarrow> string \<times> mcp_error option \<Rightarrow> nat \<Rightarrow> (mcp_error, message) result" where
  "readStream C body i = read_events C i (case snd body of None \<Rightarrow> ErrProtocol | Some e \<Rightarrow> e) [] (stream_lines body)"

definition answer :: "wire_codec \<Rightarrow> mcp_endpoint \<Rightarrow> http_response \<Rightarrow> nat \<Rightarrow> (mcp_error, message) result" where
  "answer C E r i =
     (case wc_media C (hr_type r) of
        None \<Rightarrow> Inl ErrProtocol
      | Some kind \<Rightarrow>
          if kind = ''application/json'' then
            (case LimitBody r (ep_max E) of
               (body, Some e) \<Rightarrow> Inl e
             | (body, None) \<Rightarrow>
                 (case parseMessage C body of
                    Inl e \<Rightarrow> Inl e
                  | Inr m \<Rightarrow> if mg_method m \<noteq> [] then Inl (refuseServerMessage m) else checkID m i))
          else if kind = ''text/event-stream'' then readStream C (LimitBody r (ep_max E)) i
          else Inl ErrProtocol)"

text \<open>One request out; the server sees it after everything sent before.\<close>

definition post :: "mcp_endpoint \<Rightarrow> mcp_server \<Rightarrow> string \<Rightarrow> nat option \<Rightarrow> mcp_params \<Rightarrow> session \<Rightarrow> (mcp_error, http_response) result \<times> session" where
  "post E srv method i params s =
     (let rq = \<lparr>mr_method = method, mr_id = i, mr_params = params, mr_session = se_id s, mr_version = se_version s, mr_bearer = ep_bearer E\<rparr>;
          sent = se_sent s @ [rq]
      in (case srv sent of None \<Rightarrow> Inl NotReached | Some r \<Rightarrow> Inr r, s\<lparr>se_sent := sent\<rparr>))"

definition session_call ::
  "wire_codec \<Rightarrow> mcp_endpoint \<Rightarrow> mcp_server \<Rightarrow> string \<Rightarrow> mcp_params \<Rightarrow> (string \<Rightarrow> 'a option) \<Rightarrow> session \<Rightarrow> (mcp_error, 'a \<times> string) result \<times> session" where
  "session_call C E srv method params decode s0 =
     (let i = se_next s0 + 1; s = s0\<lparr>se_next := i\<rparr>
      in case post E srv method (Some i) params s of
           (Inl e, s1) \<Rightarrow> (Inl e, s1)
         | (Inr r, s1) \<Rightarrow>
             ((if hr_status r \<noteq> 200 then Inl (HTTPStatus (hr_status r))
               else case answer C E r i of
                      Inl e \<Rightarrow> Inl e
                    | Inr m \<Rightarrow>
                        if mg_error m \<noteq> None then Inl ErrProtocol
                        else if mg_result m = [] then Inl ErrProtocol
                        else (case decode (mg_result m) of None \<Rightarrow> Inl ErrProtocol | Some v \<Rightarrow> Inr (v, hr_session r))), s1))"

definition notify :: "mcp_endpoint \<Rightarrow> mcp_server \<Rightarrow> string \<Rightarrow> session \<Rightarrow> mcp_error option \<times> session" where
  "notify E srv method s =
     (case post E srv method None NoParams s of
        (Inl e, s1) \<Rightarrow> (Some e, s1)
      | (Inr r, s1) \<Rightarrow> (if hr_status r < 200 \<or> hr_status r > 299 then Some (HTTPStatus (hr_status r)) else None, s1))"

definition initialise :: "wire_codec \<Rightarrow> mcp_endpoint \<Rightarrow> mcp_server \<Rightarrow> session \<Rightarrow> mcp_error option \<times> session" where
  "initialise C E srv s =
     (case session_call C E srv ''initialize'' InitParams (wc_version C) s of
        (Inl e, s1) \<Rightarrow> (Some e, s1)
      | (Inr (version, header), s1) \<Rightarrow>
          if version \<notin> set acceptedVersions then (Some ErrProtocol, s1)
          else let s2 = s1\<lparr>se_version := version\<rparr>
               in if header \<noteq> [] \<and> (\<not> visibleASCII header \<or> length header > 512) then (Some ErrProtocol, s2)
                  else notify E srv ''notifications/initialized'' (if header \<noteq> [] then s2\<lparr>se_id := header\<rparr> else s2))"

section \<open>The client\<close>

record mcp_config =
  mf_id :: string
  mf_endpoint :: string
  mf_digest :: string
  mf_tools :: "string list"
  mf_credential :: string
  mf_check :: "(string \<Rightarrow> egress_error option) option"
  mf_max :: int
  mf_threshold :: int
  mf_cool :: int

record mcp_client =
  mc_id :: string
  mc_endpoint :: mcp_endpoint
  mc_digest :: string
  mc_tools :: "string list"
  mc_breaker :: breaker

definition newEndpoint :: "mcp_config \<Rightarrow> (mcp_error, mcp_endpoint) result" where
  "newEndpoint cfg =
     (case mf_check cfg of
        None \<Rightarrow> Inl NeedsHTTP
      | Some check \<Rightarrow>
          (case check (mf_endpoint cfg) of
             Some e \<Rightarrow> Inl (EndpointRefused e)
           | None \<Rightarrow>
               if list_ex (\<lambda>b. byte b < 32 \<or> byte b = 127) (mf_credential cfg) then Inl CredentialControl
               else Inr \<lparr>ep_url = mf_endpoint cfg, ep_bearer = mf_credential cfg, ep_max = (if mf_max cfg \<le> 0 then 2 ^ 20 else nat (mf_max cfg))\<rparr>))"

text \<open>\<open>isDigest\<close> of the pin.\<close>

definition pin_ok :: "string \<Rightarrow> bool" where
  "pin_ok s \<longleftrightarrow> length s = 64 \<and> list_all (\<lambda>c. is_digit c \<or> (97 \<le> byte c \<and> byte c \<le> 102)) s"

definition New_client :: "mcp_config \<Rightarrow> (mcp_error, mcp_client) result" where
  "New_client cfg =
     (if mf_id cfg = [] then Inl NeedsID
      else case newEndpoint cfg of
        Inl e \<Rightarrow> Inl e
      | Inr target \<Rightarrow>
          if \<not> pin_ok (mf_digest cfg) then Inl NeedsPin
          else if mf_tools cfg = [] \<or> length (mf_tools cfg) > maxTools then Inl NeedsTools
          else if \<not> list_all validToolName (mf_tools cfg) \<or> \<not> distinct (mf_tools cfg) then Inl ToolsNotPlain
          else Inr \<lparr>mc_id = mf_id cfg, mc_endpoint = target, mc_digest = mf_digest cfg, mc_tools = sort_strings (mf_tools cfg),
                 mc_breaker = new_breaker (if mf_threshold cfg \<le> 0 then 5 else mf_threshold cfg) (if mf_cool cfg \<le> 0 then 60000000000 else mf_cool cfg)\<rparr>)"

definition Capability :: "string \<Rightarrow> string" where
  "Capability tool = ''tool.'' @ tool"

definition Client_Describe :: "mcp_client \<Rightarrow> Descriptor" where
  "Client_Describe c = \<lparr>d_ID = mc_id c, d_Kind = KindReader, d_Capabilities = (''surface.'' @ mc_digest c) # map Capability (mc_tools c)\<rparr>"

definition maxSelectorBytes :: nat where "maxSelectorBytes = 16384"

definition ParseSelector :: "json_codec \<Rightarrow> string \<Rightarrow> (mcp_error, string \<times> string) result" where
  "ParseSelector J selector =
     (if length selector > maxSelectorBytes then Inl ErrBadSelector
      else let trimmed = TrimSpace selector;
               gap = (\<lambda>c. byte c = 32 \<or> byte c = 9 \<or> byte c = 13 \<or> byte c = 10);
               tool = takeWhile (\<lambda>c. \<not> gap c) trimmed;
               rest = TrimSpace (dropWhile (\<lambda>c. \<not> gap c) trimmed)
           in if \<not> validToolName tool then Inl ErrBadSelector
              else if rest = [] then Inr (tool, ''{}'')
              else if hd rest \<noteq> CHR ''{'' \<or> \<not> js_valid J rest then Inl ErrBadSelector
              else (case js_compact J rest of None \<Rightarrow> Inl ErrBadSelector | Some compact \<Rightarrow> Inr (tool, compact)))"

definition listTools :: "wire_codec \<Rightarrow> mcp_endpoint \<Rightarrow> mcp_server \<Rightarrow> session \<Rightarrow> (mcp_error, Tool list) result \<times> session" where
  "listTools C E srv s =
     (case session_call C E srv ''tools/list'' ListParams (wc_tools C) s of
        (Inl e, s1) \<Rightarrow> (Inl e, s1)
      | (Inr ((tools, cursor), _), s1) \<Rightarrow> (if cursor \<noteq> [] then Inl ErrProtocol else Inr tools, s1))"

definition callTool :: "wire_codec \<Rightarrow> mcp_endpoint \<Rightarrow> mcp_server \<Rightarrow> string \<Rightarrow> string \<Rightarrow> session \<Rightarrow> (mcp_error, string list) result \<times> session" where
  "callTool C E srv tool arguments s =
     (case session_call C E srv ''tools/call'' (CallParams tool arguments) (wc_content C) s of
        (Inl e, s1) \<Rightarrow> (Inl e, s1)
      | (Inr ((content, isError), _), s1) \<Rightarrow>
          (if isError then Inl ErrToolFailed
           else if \<not> list_all (\<lambda>(kind, t). kind = ''text'') content then Inl ErrProtocol
           else Inr (map snd content), s1))"

definition fresh :: session where
  "fresh = \<lparr>se_id = [], se_version = [], se_next = 0, se_sent = []\<rparr>"

definition Client_call ::
  "wire_codec \<Rightarrow> json_codec \<Rightarrow> (string \<Rightarrow> string) \<Rightarrow> mcp_server \<Rightarrow> mcp_client \<Rightarrow> string \<Rightarrow> string \<Rightarrow> (mcp_error, string list) result \<times> session" where
  "Client_call C J sha256_hex srv c tool arguments =
     (case initialise C (mc_endpoint c) srv fresh of
        (Some e, s1) \<Rightarrow> (Inl e, s1)
      | (None, s1) \<Rightarrow>
     (case listTools C (mc_endpoint c) srv s1 of
        (Inl e, s2) \<Rightarrow> (Inl e, s2)
      | (Inr tools, s2) \<Rightarrow>
     (case ToolSurface J sha256_hex tools of
        Inl e \<Rightarrow> (Inl ErrProtocol, s2)
      | Inr now_digest \<Rightarrow>
          if now_digest \<noteq> mc_digest c then (Inl McpSurfaceChanged, s2)
          else if length tools \<noteq> length (mc_tools c) then (Inl McpSurfaceChanged, s2)
          else if \<not> list_all (\<lambda>t. tl_name t \<in> set (mc_tools c)) tools then (Inl McpSurfaceChanged, s2)
          else callTool C (mc_endpoint c) srv tool arguments s2)))"

text \<open>What a call says of the server; \<open>canceled\<close> is whether the caller's context was.\<close>

definition verdict :: "bool \<Rightarrow> (mcp_error, 'a) result \<Rightarrow> outcome" where
  "verdict canceled r =
     (case r of
        Inr _ \<Rightarrow> succeeded
      | Inl e \<Rightarrow> if e = ErrToolFailed then succeeded else if canceled then inconclusive else failed)"

fun take_rows :: "nat \<Rightarrow> string list list \<Rightarrow> string list \<Rightarrow> observation" where
  "take_rows limit rows [] = \<lparr>ob_columns = [], ob_rows = rows, ob_truncated = False\<rparr>"
| "take_rows limit rows (l # ls) =
     (if length rows = limit then \<lparr>ob_columns = [], ob_rows = rows, ob_truncated = True\<rparr> else take_rows limit (rows @ [[l]]) ls)"

definition text_lines :: "string \<Rightarrow> string list" where
  "text_lines t = split_byte (chr 10) (trim_suffix (join [chr 10] (split_str [chr 13, chr 10] t)) [chr 10])"

definition observationOf :: "string list \<Rightarrow> int \<Rightarrow> observation" where
  "observationOf texts limit = take_rows (nat (if limit \<le> 0 \<or> limit > MaxRows then MaxRows else limit)) [] (concat (map text_lines texts))"

text \<open>A read: what it returns, the client with its breaker as the read leaves it, and everything that was sent.\<close>

definition Client_Read ::
  "wire_codec \<Rightarrow> json_codec \<Rightarrow> (string \<Rightarrow> string) \<Rightarrow> mcp_server \<Rightarrow> int \<Rightarrow> int \<Rightarrow> bool \<Rightarrow> mcp_client \<Rightarrow> Request
   \<Rightarrow> (mcp_error, observation) result \<times> mcp_client \<times> mcp_request list" where
  "Client_Read C J sha256_hex srv before after canceled c request =
     (case ParseSelector J (Selector request) of
        Inl e \<Rightarrow> (Inl e, c, [])
      | Inr (tool, arguments) \<Rightarrow>
          if tool \<notin> set (mc_tools c) then (Inl ErrToolNotPinned, c, [])
          else (case enter (mc_breaker c) before of
                  (None, b1) \<Rightarrow> (Inl ErrCircuitOpen, c\<lparr>mc_breaker := b1\<rparr>, [])
                | (Some probe, b1) \<Rightarrow>
                    (case Client_call C J sha256_hex srv c tool arguments of
                       (r, s) \<Rightarrow>
                         ((case r of Inl e \<Rightarrow> Inl e | Inr texts \<Rightarrow> Inr (observationOf texts (Limit request))),
                          c\<lparr>mc_breaker := report probe (verdict canceled r) after b1\<rparr>, se_sent s))))"

definition Discover ::
  "wire_codec \<Rightarrow> json_codec \<Rightarrow> (string \<Rightarrow> string) \<Rightarrow> mcp_server \<Rightarrow> mcp_config \<Rightarrow> (mcp_error, Tool list \<times> string) result \<times> mcp_request list" where
  "Discover C J sha256_hex srv cfg =
     (case newEndpoint cfg of
        Inl e \<Rightarrow> (Inl e, [])
      | Inr E \<Rightarrow>
     (case initialise C E srv fresh of
        (Some e, s1) \<Rightarrow> (Inl e, se_sent s1)
      | (None, s1) \<Rightarrow>
     (case listTools C E srv s1 of
        (Inl e, s2) \<Rightarrow> (Inl e, se_sent s2)
      | (Inr tools, s2) \<Rightarrow>
          (case ToolSurface J sha256_hex tools of
             Inl e \<Rightarrow> (Inl ErrProtocol, se_sent s2)
           | Inr d \<Rightarrow> (Inr (sort_tools tools, d), se_sent s2)))))"

section \<open>What is sent\<close>

definition is_call :: "mcp_request \<Rightarrow> bool" where
  "is_call rq \<longleftrightarrow> (\<exists>t a. mr_params rq = CallParams t a)"

lemma post_sent: "post E srv method i params s = (r, s') \<Longrightarrow>
    \<exists>rq. se_sent s' = se_sent s @ [rq] \<and> mr_params rq = params \<and> mr_id rq = i \<and> se_next s' = se_next s
      \<and> (\<forall>h. r = Inr h \<longrightarrow> srv (se_sent s') = Some h)"
  by (auto simp: post_def Let_def split: option.splits)

lemma session_call_sent: "session_call C E srv method params decode s = (r, s') \<Longrightarrow>
    \<exists>rq. se_sent s' = se_sent s @ [rq] \<and> mr_params rq = params \<and> mr_id rq = Some (se_next s + 1) \<and> se_next s' = se_next s + 1
      \<and> (\<forall>v h. r = Inr (v, h) \<longrightarrow> (\<exists>resp m. srv (se_sent s') = Some resp \<and> hr_status resp = 200 \<and> answer C E resp (se_next s + 1) = Inr m
           \<and> mg_error m = None \<and> decode (mg_result m) = Some v))"
  by (auto simp: session_call_def Let_def split: prod.splits sum.splits if_splits option.splits dest!: post_sent)

lemma notify_sent: "notify E srv method s = (r, s') \<Longrightarrow>
    \<exists>rq. se_sent s' = se_sent s @ [rq] \<and> mr_params rq = NoParams \<and> se_next s' = se_next s"
  by (auto simp: notify_def split: prod.splits sum.splits dest!: post_sent)

lemma initialise_sent:
  assumes "initialise C E srv fresh = (r, s')"
  shows "\<not> list_ex is_call (se_sent s') \<and> (r = None \<longrightarrow> length (se_sent s') = 2 \<and> se_next s' = 1)"
proof (cases "session_call C E srv ''initialize'' InitParams (wc_version C) fresh")
  case (Pair r1 s1)
  obtain rq where rq: "se_sent s1 = [rq]" "mr_params rq = InitParams" "se_next s1 = 1"
    using session_call_sent [OF Pair] by (auto simp: fresh_def)
  show ?thesis
    using assms Pair rq
    by (auto simp: initialise_def Let_def is_call_def split: sum.splits if_splits dest!: notify_sent)
qed

lemma listTools_sent: "listTools C E srv s = (r, s') \<Longrightarrow>
    \<exists>rq. se_sent s' = se_sent s @ [rq] \<and> \<not> is_call rq \<and> se_next s' = se_next s + 1
      \<and> (\<forall>tools. r = Inr tools \<longrightarrow> (\<exists>resp m. srv (se_sent s') = Some resp \<and> answer C E resp (se_next s + 1) = Inr m \<and> wc_tools C (mg_result m) = Some (tools, [])))"
  unfolding listTools_def is_call_def
  by (auto split: prod.splits sum.splits if_splits dest!: session_call_sent)

lemma callTool_sent: "callTool C E srv tool arguments s = (r, s') \<Longrightarrow> \<exists>rq. se_sent s' = se_sent s @ [rq] \<and> mr_params rq = CallParams tool arguments"
  unfolding callTool_def by (auto split: prod.splits sum.splits if_splits dest!: session_call_sent)

text \<open>A read that sends a call has the listing behind it; one that does not sends no call at all.\<close>

lemma Client_call_sent:
  assumes "Client_call C J sha256_hex srv c tool arguments = (r, s)" "rq \<in> set (se_sent s)" "is_call rq"
  obtains resp m offered where "rq = last (se_sent s)" "length (se_sent s) = 4" "mr_params rq = CallParams tool arguments"
    "srv (take 3 (se_sent s)) = Some resp" "answer C (mc_endpoint c) resp 2 = Inr m" "wc_tools C (mg_result m) = Some (offered, [])"
    "ToolSurface J sha256_hex offered = Inr (mc_digest c)" "length offered = length (mc_tools c)" "tl_name ` set offered \<subseteq> set (mc_tools c)"
proof -
  obtain r1 s1 where i: "initialise C (mc_endpoint c) srv fresh = (r1, s1)" by fastforce
  obtain r2 s2 where l: "listTools C (mc_endpoint c) srv s1 = (r2, s2)" by fastforce
  have i1: "\<not> list_ex is_call (se_sent s1)" using initialise_sent [OF i] by blast
  obtain rl where rl: "se_sent s2 = se_sent s1 @ [rl]" "\<not> is_call rl" using listTools_sent [OF l] by blast
  have n: "s \<noteq> s1" "s \<noteq> s2" using assms(2,3) i1 rl by (auto simp: list_ex_iff)
  then obtain offered where o: "r1 = None" "r2 = Inr offered" "ToolSurface J sha256_hex offered = Inr (mc_digest c)"
      "length offered = length (mc_tools c)" "tl_name ` set offered \<subseteq> set (mc_tools c)" "callTool C (mc_endpoint c) srv tool arguments s2 = (r, s)"
    using assms(1) i l by (auto simp: Client_call_def list_all_iff split: option.splits sum.splits if_splits)
  have two: "length (se_sent s1) = 2" "se_next s1 = 1" using initialise_sent [OF i] o(1) by simp_all
  obtain resp m where a: "srv (se_sent s2) = Some resp" "answer C (mc_endpoint c) resp 2 = Inr m" "wc_tools C (mg_result m) = Some (offered, [])"
    using listTools_sent [OF l] o(2) two(2) by (auto simp: numeral_2_eq_2)
  obtain rc where rc: "se_sent s = se_sent s2 @ [rc]" "mr_params rc = CallParams tool arguments" using callTool_sent [OF o(6)] by blast
  have "rq = rc" using assms(2,3) i1 rl rc(1) by (auto simp: list_ex_iff)
  then show ?thesis using that [of resp m offered] a rc rl(1) two(1) o(3-5) by simp
qed

lemma New_client_fields:
  assumes "New_client cfg = Inr c"
  shows "mc_digest c = mf_digest cfg \<and> set (mc_tools c) = set (mf_tools cfg) \<and> length (mc_tools c) = length (mf_tools cfg) \<and> distinct (mc_tools c)"
  using assms by (auto simp: New_client_def sort_strings_def split: if_splits sum.splits)

lemma offered_names:
  assumes "distinct (map tl_name ts)" "length ts = length names" "tl_name ` set ts \<subseteq> set names" "distinct names"
  shows "tl_name ` set ts = set names"
proof (rule card_subset_eq [OF _ assms(3)])
  have "card (tl_name ` set ts) = length ts" using distinct_card [OF assms(1)] by simp
  then show "card (tl_name ` set ts) = card (set names)" using assms(2) distinct_card [OF assms(4)] by simp
qed simp

text \<open>
  C20: no tool is called on a server whose tools are not the approved ones.  Whatever the server answers, a read by a client made
  with an approved surface sends a tool call only as its fourth and last request, for the tool and the arguments the selector names;
  the tool is one of those that were approved; the breaker let the read in; and in the same session the server had answered the request for its
  tools, under that request's own id, with a list of exactly the approved names whose names, descriptions and schemas are the approved
  ones, unless SHA-256 sends the encodings of the two lists, different as they are, to one digest.
\<close>

theorem Read_calls_only_pinned:
  assumes "New_client cfg = Inr c0" "c = c0\<lparr>mc_breaker := b\<rparr>" "ToolSurface J sha256_hex approved = Inr (mf_digest cfg)"
    and "Client_Read C J sha256_hex srv before after canceled c request = (r, c', sent)"
    and "rq \<in> set sent" "mr_params rq = CallParams tool arguments"
  shows "rq = last sent \<and> length sent = 4 \<and> ParseSelector J (Selector request) = Inr (tool, arguments) \<and> tool \<in> set (mf_tools cfg)
    \<and> fst (enter b before) \<noteq> None
    \<and> (\<exists>resp m offered. srv (take 3 sent) = Some resp \<and> answer C (mc_endpoint c) resp 2 = Inr m \<and> wc_tools C (mg_result m) = Some (offered, [])
        \<and> tl_name ` set offered = set (mf_tools cfg)
        \<and> (offer J ` set offered = offer J ` set approved
             \<or> (\<exists>x y. tool_preimage J offered = Inr x \<and> tool_preimage J approved = Inr y \<and> x \<noteq> y \<and> sha256_hex x = sha256_hex y)))"
proof -
  have call: "is_call rq" using assms(6) by (auto simp: is_call_def)
  note f = New_client_fields [OF assms(1)]
  have "sent \<noteq> []" using assms(5) by auto
  then obtain t a s where s: "ParseSelector J (Selector request) = Inr (t, a)" "t \<in> set (mc_tools c)" "fst (enter (mc_breaker c) before) \<noteq> None"
      "Client_call C J sha256_hex srv c t a = (fst (Client_call C J sha256_hex srv c t a), s)" "sent = se_sent s"
    using assms(4) by (auto simp: Client_Read_def split: sum.splits if_splits prod.splits option.splits)
  from s(4) assms(5) [unfolded s(5)] call obtain resp m offered where o: "rq = last sent" "length sent = 4" "mr_params rq = CallParams t a"
      "srv (take 3 sent) = Some resp" "answer C (mc_endpoint c) resp 2 = Inr m" "wc_tools C (mg_result m) = Some (offered, [])"
      "ToolSurface J sha256_hex offered = Inr (mc_digest c)" "length offered = length (mc_tools c)" "tl_name ` set offered \<subseteq> set (mc_tools c)"
    unfolding s(5) by (rule Client_call_sent)
  have d: "ToolSurface J sha256_hex offered = Inr (mf_digest cfg)" using o(7) f assms(2) by simp
  have p: "distinct (map tl_name offered) \<and> (offer J ` set offered = offer J ` set approved
      \<or> (\<exists>x y. tool_preimage J offered = Inr x \<and> tool_preimage J approved = Inr y \<and> x \<noteq> y \<and> sha256_hex x = sha256_hex y))"
    by (rule same_digest [OF d assms(3)])
  have "tl_name ` set offered = set (mf_tools cfg)"
    using offered_names [OF conjunct1 [OF p] o(8,9)] f assms(2) by simp
  then show ?thesis using o(1-6) s(1-3) p f assms(2,6) by simp
qed

section \<open>Example\<close>

definition demo_tool :: Tool where
  "demo_tool = \<lparr>tl_name = ''list'', tl_description = [], tl_schema = []\<rparr>"

definition demo_wire :: wire_codec where
  "demo_wire = \<lparr>wc_message = (\<lambda>b. Some \<lparr>mg_jsonrpc = ''2.0'', mg_id = b, mg_method = [], mg_result = ''r'', mg_error = None\<rparr>),
     wc_version = (\<lambda>r. Some ''2025-06-18''), wc_tools = (\<lambda>r. Some ([demo_tool], [])), wc_content = (\<lambda>r. Some ([(''text'', ''hello'')], False)),
     wc_media = Some\<rparr>"

definition demo_server :: mcp_server where
  "demo_server sent = Some \<lparr>hr_status = 200, hr_type = ''application/json'', hr_session = [],
     hr_body = (if length sent = 1 then ''1'' else if length sent = 3 then ''2'' else ''3''), hr_broken = False\<rparr>"

definition demo_mcp_config :: mcp_config where
  "demo_mcp_config = \<lparr>mf_id = ''rates'', mf_endpoint = ''https://example.org/mcp'', mf_digest = replicate 64 (CHR ''a''), mf_tools = [''list''],
     mf_credential = [], mf_check = Some (\<lambda>u. None), mf_max = 0, mf_threshold = 0, mf_cool = 0\<rparr>"

definition demo_mcp_client :: mcp_client where
  "demo_mcp_client = \<lparr>mc_id = ''rates'', mc_endpoint = \<lparr>ep_url = ''https://example.org/mcp'', ep_bearer = [], ep_max = 2 ^ 20\<rparr>,
     mc_digest = replicate 64 (CHR ''a''), mc_tools = [''list''], mc_breaker = new_breaker 5 60000000000\<rparr>"

lemma demo_trims: "TrimSpace ''1'' = ''1''" "TrimSpace ''2'' = ''2''" "TrimSpace ''3'' = ''3''" "TrimSpace ''list'' = ''list''"
  by (simp_all add: TrimSpace_digits IsSpace_def)

lemma demo_ids: "fmt_nat 1 = ''1''" "fmt_nat 2 = ''2''" "fmt_nat 3 = ''3''"
  by (simp_all add: fmt_nat.simps digit_char_def char_of_eq_iff)

lemma demo_pin: "ToolSurface demo_codec (\<lambda>b. replicate 64 (CHR ''a'')) [demo_tool] = Inr (replicate 64 (CHR ''a''))"
  by (simp add: ToolSurface_def tool_preimage_def maxTools_def sort_tools_def demo_tool_def validToolName_def is_digit_def canonical_schema_def demo_schemas)

lemma demo_made: "New_client demo_mcp_config = Inr demo_mcp_client"
proof -
  have "pin_ok (replicate 64 (CHR ''a''))" by (simp add: pin_ok_def list_all_iff is_digit_def)
  then show ?thesis
    by (simp add: New_client_def demo_mcp_config_def demo_mcp_client_def newEndpoint_def maxTools_def validToolName_def sort_strings_def)
qed

lemma demo_shapes: "wc_version demo_wire ''r'' = Some ''2025-06-18''" "wc_tools demo_wire ''r'' = Some ([demo_tool], [])"
  "wc_content demo_wire ''r'' = Some ([(''text'', ''hello'')], False)"
  by (simp_all add: demo_wire_def)

lemma demo_answers:
  "session_call demo_wire E demo_server method params decode s =
     (let rq = \<lparr>mr_method = method, mr_id = Some (se_next s + 1), mr_params = params, mr_session = se_id s, mr_version = se_version s, mr_bearer = ep_bearer E\<rparr>
      in (case decode ''r'' of None \<Rightarrow> Inl ErrProtocol | Some v \<Rightarrow> Inr (v, []), s\<lparr>se_next := se_next s + 1, se_sent := se_sent s @ [rq]\<rparr>))"
  if "ep_max E = 1048576" "length (se_sent s) = 0 \<and> se_next s = 0 \<or> length (se_sent s) = 2 \<and> se_next s = 1 \<or> length (se_sent s) = 3 \<and> se_next s = 2"
  using that
  by (elim disjE) (auto simp: session_call_def post_def Let_def demo_server_def answer_def demo_wire_def LimitBody_def parseMessage_def checkID_def
      demo_trims demo_ids demo_ids [unfolded One_nat_def numeral_2_eq_2 numeral_3_eq_3] split: option.splits)

lemma demo_call:
  "\<exists>a b l. Client_call demo_wire demo_codec (\<lambda>b. replicate 64 (CHR ''a'')) demo_server demo_mcp_client ''list'' ''{}'' =
     (Inr [''hello''], \<lparr>se_id = [], se_version = ''2025-06-18'', se_next = 3, se_sent = [a, b, l,
        \<lparr>mr_method = ''tools/call'', mr_id = Some 3, mr_params = CallParams ''list'' ''{}'', mr_session = [], mr_version = ''2025-06-18'', mr_bearer = []\<rparr>]\<rparr>)"
proof -
  let ?E = "\<lparr>ep_url = ''https://example.org/mcp'', ep_bearer = [], ep_max = 1048576\<rparr>"
  obtain a b where "initialise demo_wire ?E demo_server fresh = (None, \<lparr>se_id = [], se_version = ''2025-06-18'', se_next = 1, se_sent = [a, b]\<rparr>)"
    by (simp add: initialise_def fresh_def demo_answers demo_shapes Let_def notify_def post_def demo_server_def acceptedVersions_def)
  moreover obtain l where "listTools demo_wire ?E demo_server \<lparr>se_id = [], se_version = ''2025-06-18'', se_next = 1, se_sent = [a, b]\<rparr> =
      (Inr [demo_tool], \<lparr>se_id = [], se_version = ''2025-06-18'', se_next = 2, se_sent = [a, b, l]\<rparr>)"
    by (simp add: listTools_def demo_answers demo_shapes Let_def)
  moreover have "callTool demo_wire ?E demo_server ''list'' ''{}'' \<lparr>se_id = [], se_version = ''2025-06-18'', se_next = 2, se_sent = [a, b, l]\<rparr> =
      (Inr [''hello''], \<lparr>se_id = [], se_version = ''2025-06-18'', se_next = 3, se_sent = [a, b, l,
        \<lparr>mr_method = ''tools/call'', mr_id = Some 3, mr_params = CallParams ''list'' ''{}'', mr_session = [], mr_version = ''2025-06-18'', mr_bearer = []\<rparr>]\<rparr>)"
    by (simp add: callTool_def demo_answers demo_shapes Let_def)
  ultimately show ?thesis
    by (simp add: Client_call_def demo_mcp_client_def demo_pin) (simp add: demo_tool_def)
qed

theorem Read_calls_only_pinned_witness:
  "\<exists>c' a b l rq. Client_Read demo_wire demo_codec (\<lambda>b. replicate 64 (CHR ''a'')) demo_server 0 1 False demo_mcp_client \<lparr>Selector = ''list'', Limit = 10\<rparr> =
     (Inr \<lparr>ob_columns = [], ob_rows = [[''hello'']], ob_truncated = False\<rparr>, c', [a, b, l, rq]) \<and> mr_params rq = CallParams ''list'' ''{}''
     \<and> (\<exists>resp. demo_server [a, b, l] = Some resp \<and> (\<exists>m. answer demo_wire (mc_endpoint demo_mcp_client) resp 2 = Inr m))"
proof -
  have p: "ParseSelector demo_codec ''list'' = Inr (''list'', ''{}'')"
    by (simp add: ParseSelector_def maxSelectorBytes_def demo_trims validToolName_def demo_schemas Let_def)
  have t: "text_lines ''hello'' = [''hello'']"
    by code_simp
  have m: "mc_tools demo_mcp_client = [''list'']" by (simp add: demo_mcp_client_def)
  have e: "enter (mc_breaker demo_mcp_client) 0 = (Some False, mc_breaker demo_mcp_client)"
    by (simp add: demo_mcp_client_def enter_def new_breaker_def)
  obtain a b l where c: "Client_call demo_wire demo_codec (\<lambda>b. replicate 64 (CHR ''a'')) demo_server demo_mcp_client ''list'' ''{}'' =
     (Inr [''hello''], \<lparr>se_id = [], se_version = ''2025-06-18'', se_next = 3, se_sent = [a, b, l,
        \<lparr>mr_method = ''tools/call'', mr_id = Some 3, mr_params = CallParams ''list'' ''{}'', mr_session = [], mr_version = ''2025-06-18'', mr_bearer = []\<rparr>]\<rparr>)"
    using demo_call by blast
  let ?rq = "\<lparr>mr_method = ''tools/call'', mr_id = Some 3, mr_params = CallParams ''list'' ''{}'', mr_session = [], mr_version = ''2025-06-18'', mr_bearer = []\<rparr>"
  obtain c' where r: "Client_Read demo_wire demo_codec (\<lambda>b. replicate 64 (CHR ''a'')) demo_server 0 1 False demo_mcp_client \<lparr>Selector = ''list'', Limit = 10\<rparr> =
     (Inr \<lparr>ob_columns = [], ob_rows = [[''hello'']], ob_truncated = False\<rparr>, c', [a, b, l, ?rq])"
    by (simp add: Client_Read_def p m e c observationOf_def t MaxRows_def)
  have same: "demo_mcp_client = demo_mcp_client\<lparr>mc_breaker := mc_breaker demo_mcp_client\<rparr>" by simp
  have "ToolSurface demo_codec (\<lambda>b. replicate 64 (CHR ''a'')) [demo_tool] = Inr (mf_digest demo_mcp_config)" by (simp add: demo_pin demo_mcp_config_def)
  from Read_calls_only_pinned [OF demo_made same this r, of ?rq] show ?thesis using r by auto
qed

end
