(* ===== verification/Grants.thy ===== *)
theory Grants
  imports Link_Safety Seal Mcp_Client Utf8_Chunks
begin

text \<open>
  \<^verbatim>\<open>ledger/store/connector.go\<close>: the connectors a workspace registered and the grants a treasury's signers gave them; and of
  \<^verbatim>\<open>api/connectors.go\<close> the registration, the set-up, the grant handshake, which puts a statement to the signers and puts the grant in
  force once they have signed it, and the one door a connector is read through.  The drafts of the two files are in \<open>Drafts\<close>, the guard
  and the rate limit in \<open>Connector\<close>, the sealing in \<open>Seal\<close> and the MCP client in \<open>Mcp_Client\<close>.  What a built connector reads, the workspace's
  own row and the envelope the SDK builds around a statement are arguments.
\<close>

section \<open>Tables\<close>

type_synonym ConnectorID = int64

abbreviation PurposeGrantConnector :: string where "PurposeGrantConnector \<equiv> ''grant_connector''"

record connector_row =
  cn_id :: ConnectorID
  cn_org :: OrgID
  cn_name :: string
  cn_kind :: string
  cn_sealed_endpoint :: string
  cn_host :: string
  cn_endpoint_digest :: string
  cn_sealed_credential :: string
  cn_tools :: "string list"
  cn_tool_digest :: string
  cn_ready_at :: "int option"
  cn_created_by :: MemberID
  cn_removed_at :: "int option"

record connector_grant =
  cg_id :: int64
  cg_org :: OrgID
  cg_connector :: ConnectorID
  cg_treasury :: TreasuryID
  cg_capabilities :: "string list"
  cg_surface :: string
  cg_per_hour :: int
  cg_statement :: string
  cg_digest :: string
  cg_challenge :: string
  cg_signed_xdr :: string
  cg_signed_by :: "string list"
  cg_requested_by :: MemberID
  cg_granted_at :: "int option"
  cg_revoked_at :: "int option"
  cg_revoked_by :: "MemberID option"

record grant_db =
  g_links :: link_db
  connector_rows :: "connector_row list"
  grant_rows :: "connector_grant list"
  connector_seq :: ConnectorID
  grant_seq :: int64

datatype grant_error =
    ErrNoConnector | ErrConnectorExists | ErrNoGrant | GrantNoChallenge | SignaturesNeeded | GrantUnique | GrantDb db_error
  | OnLink link_error | ErrConnectorsUnavailable | ErrConnectorName | ErrConnectorKind | ErrConnectorEndpoint | ErrConnectorNotReady
  | ErrConnectorChanged | ErrConnectorFailed | GrantRate | NoOrgRow | NotClassicTreasury | OnSealing seal_error | NilPointer
  | SheetsNeedsOrg | OnMcp mcp_error | HookRefused | OnGuard guard_error

definition same_connector :: "OrgID \<Rightarrow> ConnectorID \<Rightarrow> connector_row \<Rightarrow> bool" where
  "same_connector org i c \<longleftrightarrow> cn_org c = org \<and> cn_id c = i \<and> cn_removed_at c = None"

definition in_force :: "connector_grant \<Rightarrow> bool" where
  "in_force g \<longleftrightarrow> cg_granted_at g \<noteq> None \<and> cg_revoked_at g = None"

definition waiting :: "connector_grant \<Rightarrow> bool" where
  "waiting g \<longleftrightarrow> cg_granted_at g = None \<and> cg_revoked_at g = None"

section \<open>Connectors\<close>

definition name_ok :: "string \<Rightarrow> bool" where
  "name_ok s \<longleftrightarrow> s \<noteq> [] \<and> length s \<le> 31 \<and> 97 \<le> byte (hd s) \<and> byte (hd s) \<le> 122
     \<and> list_all (\<lambda>c. (97 \<le> byte c \<and> byte c \<le> 122) \<or> is_digit c \<or> c = CHR ''-'') (tl s)"

definition connector_kinds :: "string list" where
  "connector_kinds = [''sheets'', ''mcp'', ''webhook'']"

definition RegisterConnector ::
  "platform \<Rightarrow> int \<Rightarrow> OrgID \<Rightarrow> string \<Rightarrow> string \<Rightarrow> bool \<Rightarrow> MemberID \<Rightarrow> grant_db \<Rightarrow> (grant_error, connector_row) result \<times> grant_db" where
  "RegisterConnector pf now org name kind ready by1 db =
     (if \<not> text_ok pf name \<or> \<not> text_ok pf kind then (Inl (GrantDb NotStorable), db)
      else case next_id (connector_seq db) of
          None \<Rightarrow> (Inl (GrantDb SequenceExhausted), db)
        | Some i \<Rightarrow>
            let drawn = db\<lparr>connector_seq := i\<rparr>;
                c = \<lparr>cn_id = i, cn_org = org, cn_name = name, cn_kind = kind, cn_sealed_endpoint = [], cn_host = [], cn_endpoint_digest = [],
                     cn_sealed_credential = [], cn_tools = [], cn_tool_digest = [], cn_ready_at = (if ready then Some now else None),
                     cn_created_by = by1, cn_removed_at = None\<rparr>
            in if \<not> name_ok name \<or> kind \<notin> set connector_kinds then (Inl (GrantDb CheckViolation), drawn)
               else if list_ex (\<lambda>d. cn_org d = org \<and> cn_name d = name \<and> cn_removed_at d = None) (connector_rows db)
                    then (Inl ErrConnectorExists, drawn)
               else if find_member (people (g_links db)) org by1 = None then (Inl (GrantDb ForeignKeyViolation), drawn)
               else (Inr c, drawn\<lparr>connector_rows := connector_rows db @ [c]\<rparr>))"

definition ConnectorByName :: "platform \<Rightarrow> grant_db \<Rightarrow> OrgID \<Rightarrow> string \<Rightarrow> (grant_error, connector_row) result" where
  "ConnectorByName pf db org name =
     (if \<not> text_ok pf name then Inl (GrantDb NotStorable)
      else case find (\<lambda>c. cn_org c = org \<and> cn_name c = name \<and> cn_removed_at c = None) (connector_rows db) of
        None \<Rightarrow> Inl ErrNoConnector | Some c \<Rightarrow> Inr c)"

definition ConnectorByID :: "grant_db \<Rightarrow> OrgID \<Rightarrow> ConnectorID \<Rightarrow> (grant_error, connector_row) result" where
  "ConnectorByID db org i =
     (case find (same_connector org i) (connector_rows db) of None \<Rightarrow> Inl ErrNoConnector | Some c \<Rightarrow> Inr c)"

definition Connectors :: "grant_db \<Rightarrow> OrgID \<Rightarrow> connector_row list" where
  "Connectors db org = sort_key (\<lambda>c. map (\<lambda>x. byte x) (cn_name c)) (filter (\<lambda>c. cn_org c = org \<and> cn_removed_at c = None) (connector_rows db))"

record ConnectorSetupParams =
  cp_sealed_endpoint :: string
  cp_host :: string
  cp_endpoint_digest :: string
  cp_sealed_credential :: string
  cp_tools :: "string list"
  cp_tool_digest :: string

definition setup_checks :: "platform \<Rightarrow> ConnectorSetupParams \<Rightarrow> db_error option" where
  "setup_checks pf p =
     (if \<not> list_all (text_ok pf) (cp_sealed_endpoint p # cp_host p # cp_endpoint_digest p # cp_sealed_credential p # cp_tool_digest p # cp_tools p)
      then Some NotStorable
      else if \<not> (cp_endpoint_digest p = [] \<or> hash_ok (cp_endpoint_digest p)) \<or> \<not> (cp_tool_digest p = [] \<or> hash_ok (cp_tool_digest p))
      then Some CheckViolation else None)"

text \<open>The two statements that withdraw what a set-up supersedes.\<close>

definition revoke_in_force :: "int \<Rightarrow> MemberID option \<Rightarrow> OrgID \<Rightarrow> ConnectorID \<Rightarrow> connector_grant list \<Rightarrow> connector_grant list" where
  "revoke_in_force now by1 org i gs =
     map (\<lambda>g. if cg_org g = org \<and> cg_connector g = i \<and> in_force g then g\<lparr>cg_revoked_at := Some now, cg_revoked_by := by1\<rparr> else g) gs"

definition drop_requests :: "OrgID \<Rightarrow> ConnectorID \<Rightarrow> connector_grant list \<Rightarrow> connector_grant list" where
  "drop_requests org i gs = filter (\<lambda>g. \<not> (cg_org g = org \<and> cg_connector g = i \<and> cg_granted_at g = None)) gs"

definition CompleteConnectorSetup ::
  "platform \<Rightarrow> int \<Rightarrow> OrgID \<Rightarrow> ConnectorID \<Rightarrow> ConnectorSetupParams \<Rightarrow> grant_db \<Rightarrow> grant_error option \<times> grant_db" where
  "CompleteConnectorSetup pf now org i p db =
     (case setup_checks pf p of
        Some NotStorable \<Rightarrow> (Some (GrantDb NotStorable), db)
      | e \<Rightarrow>
          if \<not> list_ex (\<lambda>c. same_connector org i c \<and> cn_kind c \<noteq> ''sheets'') (connector_rows db) then (Some ErrNoConnector, db)
          else if e \<noteq> None then (Some (GrantDb CheckViolation), db)
          else (None, db\<lparr>connector_rows := map (\<lambda>c. if same_connector org i c \<and> cn_kind c \<noteq> ''sheets''
                  then c\<lparr>cn_sealed_endpoint := cp_sealed_endpoint p, cn_host := cp_host p, cn_endpoint_digest := cp_endpoint_digest p,
                    cn_sealed_credential := cp_sealed_credential p, cn_tools := cp_tools p, cn_tool_digest := cp_tool_digest p,
                    cn_ready_at := Some now\<rparr> else c) (connector_rows db),
                grant_rows := drop_requests org i (revoke_in_force now None org i (grant_rows db))\<rparr>))"

definition RemoveConnector ::
  "platform \<Rightarrow> int \<Rightarrow> OrgID \<Rightarrow> string \<Rightarrow> MemberID \<Rightarrow> grant_db \<Rightarrow> grant_error option \<times> grant_db" where
  "RemoveConnector pf now org name by1 db =
     (if \<not> text_ok pf name then (Some (GrantDb NotStorable), db)
      else case find (\<lambda>c. cn_org c = org \<and> cn_name c = name \<and> cn_removed_at c = None) (connector_rows db) of
          None \<Rightarrow> (Some ErrNoConnector, db)
        | Some c \<Rightarrow>
            (None, db\<lparr>connector_rows := map (\<lambda>d. if cn_org d = org \<and> cn_name d = name \<and> cn_removed_at d = None
                 then d\<lparr>cn_removed_at := Some now\<rparr> else d) (connector_rows db),
               grant_rows := revoke_in_force now (Some by1) org (cn_id c) (grant_rows db)\<rparr>))"

section \<open>Grants\<close>

record RequestGrantParams =
  rp_org :: OrgID
  rp_connector :: ConnectorID
  rp_treasury :: TreasuryID
  rp_capabilities :: "string list"
  rp_surface :: string
  rp_per_hour :: int
  rp_statement :: string
  rp_digest :: string
  rp_challenge :: string
  rp_requested_by :: MemberID

definition grant_of :: "RequestGrantParams \<Rightarrow> int64 \<Rightarrow> connector_grant" where
  "grant_of p i =
     \<lparr>cg_id = i, cg_org = rp_org p, cg_connector = rp_connector p, cg_treasury = rp_treasury p, cg_capabilities = rp_capabilities p,
      cg_surface = rp_surface p, cg_per_hour = rp_per_hour p, cg_statement = rp_statement p, cg_digest = rp_digest p,
      cg_challenge = rp_challenge p, cg_signed_xdr = [], cg_signed_by = [], cg_requested_by = rp_requested_by p, cg_granted_at = None,
      cg_revoked_at = None, cg_revoked_by = None\<rparr>"

definition grant_row_checks :: "connector_grant \<Rightarrow> bool" where
  "grant_row_checks g \<longleftrightarrow> cg_capabilities g \<noteq> [] \<and> hash_ok (cg_surface g) \<and> 1 \<le> cg_per_hour g \<and> cg_per_hour g \<le> 3600 \<and> cg_statement g \<noteq> []
     \<and> hash_ok (cg_digest g) \<and> hash_ok (cg_challenge g) \<and> (cg_granted_at g \<noteq> None \<longrightarrow> cg_signed_xdr g \<noteq> [] \<and> cg_signed_by g \<noteq> [])"

definition RequestGrant :: "platform \<Rightarrow> RequestGrantParams \<Rightarrow> grant_db \<Rightarrow> grant_error option \<times> grant_db" where
  "RequestGrant pf p db =
     (if \<not> list_all (text_ok pf) (rp_surface p # rp_statement p # rp_digest p # rp_challenge p # rp_capabilities p)
      then (Some (GrantDb NotStorable), db)
      else case next_id (grant_seq db) of
          None \<Rightarrow> (Some (GrantDb SequenceExhausted), db)
        | Some i \<Rightarrow>
            let g = grant_of p i; kept = drop_requests (rp_org p) (rp_connector p) (grant_rows db); drawn = db\<lparr>grant_seq := i\<rparr>
            in if \<not> grant_row_checks g then (Some (GrantDb CheckViolation), drawn)
               else if list_ex (\<lambda>d. cg_challenge d = rp_challenge p) kept then (Some GrantUnique, drawn)
               else if \<not> list_ex (\<lambda>c. cn_id c = rp_connector p \<and> cn_org c = rp_org p) (connector_rows db)
                     \<or> find_member (people (g_links db)) (rp_org p) (rp_requested_by p) = None
                    then (Some (GrantDb ForeignKeyViolation), drawn)
               else (None, drawn\<lparr>grant_rows := kept @ [g]\<rparr>))"

definition GrantRequest_of :: "grant_db \<Rightarrow> OrgID \<Rightarrow> string \<Rightarrow> (grant_error, connector_grant) result" where
  "GrantRequest_of db org hash =
     (case find (\<lambda>g. cg_org g = org \<and> cg_challenge g = hash \<and> waiting g) (grant_rows db) of
        None \<Rightarrow> Inl GrantNoChallenge | Some g \<Rightarrow> Inr g)"

text \<open>The row as the last \<open>UPDATE\<close> of \<open>ConsumeGrantChallenge\<close> leaves it.\<close>

definition granted_row :: "int \<Rightarrow> string \<Rightarrow> string list \<Rightarrow> connector_grant \<Rightarrow> connector_grant" where
  "granted_row now signedXDR signedBy g = g\<lparr>cg_granted_at := Some now, cg_signed_xdr := signedXDR, cg_signed_by := signedBy\<rparr>"

definition ConsumeGrantChallenge ::
  "platform \<Rightarrow> int \<Rightarrow> OrgID \<Rightarrow> string \<Rightarrow> address \<Rightarrow> string \<Rightarrow> string list \<Rightarrow> grant_db
   \<Rightarrow> (grant_error, connector_grant) result \<times> grant_db" where
  "ConsumeGrantChallenge pf now org hash address signedXDR signedBy db =
     (if signedXDR = [] \<or> signedBy = [] then (Inl SignaturesNeeded, db)
      else if \<not> list_all (text_ok pf) (hash # address # signedXDR # signedBy) then (Inl (GrantDb NotStorable), db)
      else case claim now (\<lambda>c. live now org hash c \<and> ch_address c = address \<and> ch_purpose c = PurposeGrantConnector) (people (g_links db)) of
          None \<Rightarrow> (Inl GrantNoChallenge, db)
        | Some (c, people1) \<Rightarrow>
            (case find (\<lambda>g. cg_org g = org \<and> cg_challenge g = hash \<and> waiting g) (grant_rows db) of
               None \<Rightarrow> (Inl GrantNoChallenge, db)
             | Some g \<Rightarrow>
                 let replaced = revoke_in_force now None org (cg_connector g) (grant_rows db)
                 in if list_ex (\<lambda>h. in_force h \<and> cg_connector h = cg_connector g \<and> cg_challenge h \<noteq> hash) replaced then (Inl GrantUnique, db)
                    else (Inr (granted_row now signedXDR signedBy g),
                          db\<lparr>g_links := (g_links db)\<lparr>people := people1\<rparr>,
                             grant_rows := map (\<lambda>h. if cg_org h = org \<and> cg_challenge h = hash then granted_row now signedXDR signedBy h else h) replaced\<rparr>)))"

definition GrantInForce :: "platform \<Rightarrow> grant_db \<Rightarrow> OrgID \<Rightarrow> string \<Rightarrow> (grant_error, connector_grant) result" where
  "GrantInForce pf db org name =
     (if \<not> text_ok pf name then Inl (GrantDb NotStorable)
      else case find (\<lambda>g. cg_org g = org \<and> in_force g
          \<and> list_ex (\<lambda>c. cn_id c = cg_connector g \<and> cn_org c = cg_org g \<and> cn_name c = name \<and> cn_removed_at c = None) (connector_rows db)) (grant_rows db) of
        None \<Rightarrow> Inl ErrNoGrant | Some g \<Rightarrow> Inr g)"

definition RevokeGrant :: "platform \<Rightarrow> int \<Rightarrow> OrgID \<Rightarrow> string \<Rightarrow> MemberID \<Rightarrow> grant_db \<Rightarrow> grant_error option \<times> grant_db" where
  "RevokeGrant pf now org name by1 db =
     (let hit = (\<lambda>g. cg_org g = org \<and> in_force g
          \<and> list_ex (\<lambda>c. cn_id c = cg_connector g \<and> cn_org c = cg_org g \<and> cn_name c = name \<and> cn_removed_at c = None) (connector_rows db))
      in if \<not> text_ok pf name then (Some (GrantDb NotStorable), db)
         else if \<not> list_ex hit (grant_rows db) then (Some ErrNoGrant, db)
         else (None, db\<lparr>grant_rows := map (\<lambda>g. if hit g then g\<lparr>cg_revoked_at := Some now, cg_revoked_by := Some by1\<rparr> else g) (grant_rows db)\<rparr>))"


section \<open>Reaching a connector\<close>

datatype built = BuiltSheets OrgID | BuiltMcp mcp_client | BuiltHook string string

record org_row =
  or_id :: OrgID
  or_name :: string
  or_network :: string

text \<open>
  What a deployment and its surroundings are at one moment: whether connectors are configured at all, and for which kinds; the keys; the
  remote server; what reading a built connector returns, and the limiter's answer; and the envelope the SDK builds around a statement.
\<close>

record 's grant_world =
  gw_link :: link_world
  gw_on :: bool
  gw_sheets :: bool
  gw_aead :: aead
  gw_sealer :: "Sealer option"
  gw_egress :: "(string \<Rightarrow> egress_error option) option"
  gw_host :: "string \<Rightarrow> string option"
  gw_nonces :: "string \<times> string"
  gw_wire :: wire_codec
  gw_json :: json_codec
  gw_server :: mcp_server
  gw_read :: "built \<Rightarrow> Request \<Rightarrow> observation option"
  gw_allow :: "'s allow_fun"
  gw_org :: "OrgID \<Rightarrow> org_row option"
  gw_statement :: "address \<Rightarrow> string \<Rightarrow> (string \<times> string \<times> int) option"

record grant_state =
  gs_db :: grant_db
  gs_live :: "ConnectorID \<rightharpoonup> built \<times> string"

definition built_descriptor :: "built \<Rightarrow> Descriptor" where
  "built_descriptor b =
     (case b of
        BuiltSheets org \<Rightarrow> \<lparr>d_ID = ''sheets'', d_Kind = KindReader, d_Capabilities = [''read.range'']\<rparr>
      | BuiltMcp c \<Rightarrow> Client_Describe c
      | BuiltHook name url1 \<Rightarrow> \<lparr>d_ID = name, d_Kind = KindReader, d_Capabilities = [''read.rows'']\<rparr>)"

text \<open>\<open>named\<close>: a built connector under the name its workspace registered it with.\<close>

definition named_descriptor :: "string \<Rightarrow> built \<Rightarrow> Descriptor" where
  "named_descriptor name b = (built_descriptor b)\<lparr>d_ID := name\<rparr>"

definition New_hook :: "(string \<Rightarrow> egress_error option) option \<Rightarrow> string \<Rightarrow> string \<Rightarrow> string \<Rightarrow> built option" where
  "New_hook egress name url1 credential =
     (if name = [] then None
      else case egress of
             None \<Rightarrow> None
           | Some check \<Rightarrow>
               if check url1 \<noteq> None \<or> list_ex (\<lambda>b. byte b < 32 \<or> byte b = 127) credential then None
               else Some (BuiltHook name url1))"

text \<open>\<open>Sealer.Open\<close> through a pointer that may be nil.\<close>

definition open_sealed :: "'s grant_world \<Rightarrow> OrgID \<Rightarrow> string \<Rightarrow> string \<Rightarrow> (grant_error, string) result" where
  "open_sealed w org name text1 =
     (case gw_sealer w of
        None \<Rightarrow> Inl NilPointer
      | Some s \<Rightarrow> (case Open (gw_aead w) s org name text1 of Inl e \<Rightarrow> Inl (OnSealing e) | Inr p \<Rightarrow> Inr p))"

definition credential_name :: "string \<Rightarrow> string" where
  "credential_name name = name @ chr 0 # ''credential''"

definition open_credential :: "'s grant_world \<Rightarrow> connector_row \<Rightarrow> (grant_error, string) result" where
  "open_credential w row =
     (if cn_sealed_credential row = [] then Inr []
      else open_sealed w (cn_org row) (credential_name (cn_name row)) (cn_sealed_credential row))"

definition mcp_config_of :: "'s grant_world \<Rightarrow> string \<Rightarrow> string \<Rightarrow> string \<Rightarrow> string list \<Rightarrow> string \<Rightarrow> mcp_config" where
  "mcp_config_of w name endpoint credential tools digest1 =
     \<lparr>mf_id = name, mf_endpoint = endpoint, mf_digest = digest1, mf_tools = tools, mf_credential = credential, mf_check = gw_egress w,
      mf_max = 0, mf_threshold = 0, mf_cool = 0\<rparr>"

definition build_remote :: "'s grant_world \<Rightarrow> connector_row \<Rightarrow> (grant_error, built) result" where
  "build_remote w row =
     (case open_sealed w (cn_org row) (cn_name row) (cn_sealed_endpoint row) of
        Inl e \<Rightarrow> Inl e
      | Inr endpoint \<Rightarrow>
     (case open_credential w row of
        Inl e \<Rightarrow> Inl e
      | Inr credential \<Rightarrow>
          if cn_kind row = ''mcp''
          then (case New_client (mcp_config_of w (cn_name row) endpoint credential (cn_tools row) (cn_tool_digest row)) of
                  Inl e \<Rightarrow> Inl (OnMcp e)
                | Inr c \<Rightarrow> Inr (BuiltMcp c))
          else (case New_hook (gw_egress w) (cn_name row) endpoint credential of None \<Rightarrow> Inl HookRefused | Some b \<Rightarrow> Inr b)))"

definition build :: "'s grant_world \<Rightarrow> connector_row \<Rightarrow> (grant_error, built) result" where
  "build w row =
     (if cn_kind row = ''sheets''
      then (if \<not> gw_sheets w then Inl ErrConnectorsUnavailable
            else if sint (cn_org row) \<le> 0 then Inl SheetsNeedsOrg
            else Inr (BuiltSheets (cn_org row)))
      else if cn_kind row = ''mcp'' \<or> cn_kind row = ''webhook'' then build_remote w row
      else Inl ErrConnectorKind)"

definition stamp_of :: "connector_row \<Rightarrow> string" where
  "stamp_of row = cn_sealed_endpoint row @ chr 0 # cn_sealed_credential row @ chr 0 # cn_tool_digest row"

definition as_connector :: "'s grant_world \<Rightarrow> Descriptor \<Rightarrow> built \<Rightarrow> (observation option, unit) connector" where
  "as_connector w d b = \<lparr>Describe = d, Read_method = Some (gw_read w b), Propose_method = None\<rparr>"

definition reader :: "'s grant_world \<Rightarrow> connector_row \<Rightarrow> grant_state \<Rightarrow> (grant_error, built) result \<times> grant_state" where
  "reader w row st =
     (if cn_ready_at row = None then (Inl ErrConnectorNotReady, st)
      else let fresh1 = (case build w row of
             Inl e \<Rightarrow> (Inl e, st)
           | Inr b \<Rightarrow>
               (case CheckKind (as_connector w (built_descriptor b) b) of
                  Some e \<Rightarrow> (Inl (OnGuard e), st)
                | None \<Rightarrow> (Inr b, st\<lparr>gs_live := (gs_live st)(cn_id row \<mapsto> (b, stamp_of row))\<rparr>)))
           in case gs_live st (cn_id row) of
                Some (b, stamp) \<Rightarrow> if stamp = stamp_of row then (Inr b, st) else fresh1
              | None \<Rightarrow> fresh1)"

definition forget :: "ConnectorID \<Rightarrow> grant_state \<Rightarrow> grant_state" where
  "forget i st = st\<lparr>gs_live := (gs_live st)(i := None)\<rparr>"

definition capabilityFor :: "'s grant_world \<Rightarrow> connector_row \<Rightarrow> string \<Rightarrow> (grant_error, string) result" where
  "capabilityFor w row selector =
     (if cn_kind row = ''sheets'' then Inr ''read.range''
      else if cn_kind row = ''webhook'' then Inr ''read.rows''
      else if cn_kind row = ''mcp'' then (case ParseSelector (gw_json w) selector of Inl e \<Rightarrow> Inl (OnMcp e) | Inr (tool, arguments) \<Rightarrow> Inr (Capability tool))
      else Inl ErrConnectorKind)"

section \<open>Registering and setting up\<close>

definition with_db :: "grant_state \<Rightarrow> 'a \<times> grant_db \<Rightarrow> 'a \<times> grant_state" where
  "with_db st r = (fst r, st\<lparr>gs_db := snd r\<rparr>)"

definition gw_pf :: "'s grant_world \<Rightarrow> platform" where "gw_pf w = lw_pf (gw_link w)"
definition gw_now :: "'s grant_world \<Rightarrow> int" where "gw_now w = lw_now (gw_link w)"

definition Service_RegisterConnector ::
  "'s grant_world \<Rightarrow> Scope \<Rightarrow> MemberID \<Rightarrow> string \<Rightarrow> string \<Rightarrow> grant_state \<Rightarrow> (grant_error, connector_row) result \<times> grant_state" where
  "Service_RegisterConnector w scope by1 name kind st =
     (case scope_check scope of
        Some e \<Rightarrow> (Inl (OnLink (OnScope e)), st)
      | None \<Rightarrow>
          if \<not> gw_on w then (Inl ErrConnectorsUnavailable, st)
          else if \<not> name_ok name then (Inl ErrConnectorName, st)
          else if kind = ''sheets''
          then (if \<not> gw_sheets w then (Inl ErrConnectorsUnavailable, st)
                else with_db st (RegisterConnector (gw_pf w) (gw_now w) (sp_org scope) name kind True by1 (gs_db st)))
          else if kind = ''mcp'' \<or> kind = ''webhook''
          then (if gw_egress w = None \<or> gw_sealer w = None then (Inl ErrConnectorsUnavailable, st)
                else with_db st (RegisterConnector (gw_pf w) (gw_now w) (sp_org scope) name kind False by1 (gs_db st)))
          else (Inl ErrConnectorKind, st))"

text \<open>Trying what was typed: the tools and their digest, and how many rows came back.\<close>

definition try_connector :: "'s grant_world \<Rightarrow> (string \<Rightarrow> string) \<Rightarrow> connector_row \<Rightarrow> string \<Rightarrow> string \<Rightarrow> (grant_error, string list \<times> string \<times> nat) result" where
  "try_connector w sha256_hex row endpoint credential =
     (if cn_kind row = ''mcp'' then
        (case fst (Discover (gw_wire w) (gw_json w) sha256_hex (gw_server w) (mcp_config_of w (cn_name row) endpoint credential [] [])) of
           Inl e \<Rightarrow> Inl ErrConnectorFailed
         | Inr (tools, d) \<Rightarrow> if tools = [] then Inl ErrConnectorFailed else Inr (sort_strings (map tl_name tools), d, 0))
      else if cn_kind row = ''webhook'' then
        (case New_hook (gw_egress w) (cn_name row) endpoint credential of
           None \<Rightarrow> Inl ErrConnectorFailed
         | Some b \<Rightarrow>
             (case gw_read w b \<lparr>Selector = [], Limit = MaxRows\<rparr> of
                None \<Rightarrow> Inl ErrConnectorFailed
              | Some seen \<Rightarrow> Inr ([], [], length (ob_rows seen))))
      else Inr ([], [], 0))"

definition seal_setup ::
  "'s grant_world \<Rightarrow> (string \<Rightarrow> string) \<Rightarrow> connector_row \<Rightarrow> string \<Rightarrow> string \<Rightarrow> string \<Rightarrow> string list \<Rightarrow> string \<Rightarrow> (grant_error, ConnectorSetupParams) result" where
  "seal_setup w sha256_hex row endpoint credential host tools d =
     (case gw_sealer w of
        None \<Rightarrow> Inl NilPointer
      | Some s \<Rightarrow>
     (case Seal (gw_aead w) s (fst (gw_nonces w)) (cn_org row) (cn_name row) endpoint of
        Inl e \<Rightarrow> Inl (OnSealing e)
      | Inr se \<Rightarrow>
     (case (if credential = [] then Inr [] else Seal (gw_aead w) s (snd (gw_nonces w)) (cn_org row) (credential_name (cn_name row)) credential) of
        Inl e \<Rightarrow> Inl (OnSealing e)
      | Inr sc \<Rightarrow> Inr \<lparr>cp_sealed_endpoint = se, cp_host = host, cp_endpoint_digest = sha256_hex endpoint, cp_sealed_credential = sc,
                    cp_tools = tools, cp_tool_digest = d\<rparr>)))"

definition SetUpConnector ::
  "'s grant_world \<Rightarrow> (string \<Rightarrow> string) \<Rightarrow> Scope \<Rightarrow> ConnectorID \<Rightarrow> string \<Rightarrow> string \<Rightarrow> grant_state
   \<Rightarrow> (grant_error, connector_row \<times> string list \<times> nat) result \<times> grant_state" where
  "SetUpConnector w sha256_hex scope i endpoint credential st =
     (case scope_check scope of
        Some e \<Rightarrow> (Inl (OnLink (OnScope e)), st)
      | None \<Rightarrow>
          if \<not> gw_on w then (Inl ErrConnectorsUnavailable, st)
          else case ConnectorByID (gs_db st) (sp_org scope) i of
            Inl e \<Rightarrow> (Inl e, st)
          | Inr row \<Rightarrow>
              if cn_kind row = ''sheets'' then (Inl ErrConnectorKind, st)
              else if length credential > 4096 then (Inl ErrConnectorEndpoint, st)
              else case gw_egress w of
                None \<Rightarrow> (Inl NilPointer, st)
              | Some check \<Rightarrow>
                  if check endpoint \<noteq> None then (Inl ErrConnectorEndpoint, st)
                  else (case gw_host w endpoint of
                    None \<Rightarrow> (Inl ErrConnectorEndpoint, st)
                  | Some host \<Rightarrow>
                  (case try_connector w sha256_hex row endpoint credential of
                     Inl e \<Rightarrow> (Inl e, st)
                   | Inr (tools, d, rows) \<Rightarrow>
                  (case seal_setup w sha256_hex row endpoint credential host tools d of
                     Inl e \<Rightarrow> (Inl e, st)
                   | Inr p \<Rightarrow>
                  (case CompleteConnectorSetup (gw_pf w) (gw_now w) (sp_org scope) i p (gs_db st) of
                     (Some e, db1) \<Rightarrow> (Inl e, st\<lparr>gs_db := db1\<rparr>)
                   | (None, db1) \<Rightarrow>
                       let st1 = forget i (st\<lparr>gs_db := db1\<rparr>)
                       in (case ConnectorByID db1 (sp_org scope) i of Inl e \<Rightarrow> (Inl e, st1) | Inr row1 \<Rightarrow> (Inr (row1, tools, rows), st1)))))))"

section \<open>The handshake\<close>

definition oneLine :: "string \<Rightarrow> string" where
  "oneLine s = join '' '' (Fields s)"

definition statement_line :: "string \<Rightarrow> string \<Rightarrow> string" where
  "statement_line key1 value1 = key1 @ chr 9 # value1"

definition statement_lines :: "(string \<Rightarrow> string) \<Rightarrow> org_row \<Rightarrow> treasury_row \<Rightarrow> connector_row \<Rightarrow> Descriptor \<Rightarrow> int \<Rightarrow> string list" where
  "statement_lines sha256_hex org1 t row d perHour =
     [''stelfin-connector-grant-1'',
      statement_line ''workspace'' (fmt_int (sint (or_id org1)) @ '' '' @ oneLine (or_name org1)),
      statement_line ''network'' (or_network org1),
      statement_line ''treasury'' (t_address t),
      statement_line ''connector'' (cn_name row),
      statement_line ''kind'' (cn_kind row),
      statement_line ''reaches'' (if cn_kind row = ''sheets'' then ''Google Sheets'' else cn_host row),
      statement_line ''endpoint_digest'' (cn_endpoint_digest row),
      statement_line ''surface'' (SurfaceDigest sha256_hex d)]
     @ map (statement_line ''may'') (sort_strings (d_Capabilities d))
     @ [statement_line ''rate'' (fmt_int perHour @ '' calls an hour''),
        statement_line ''cannot'' ''sign, submit or move funds; anything it returns is text a person must act on'']"

definition grantStatement :: "(string \<Rightarrow> string) \<Rightarrow> org_row \<Rightarrow> treasury_row \<Rightarrow> connector_row \<Rightarrow> Descriptor \<Rightarrow> int \<Rightarrow> string" where
  "grantStatement sha256_hex org1 t row d perHour = concat (map (\<lambda>l. l @ [chr 10]) (statement_lines sha256_hex org1 t row d perHour))"

definition BuildStatement :: "'s grant_world \<Rightarrow> challenge_sdk \<Rightarrow> address \<Rightarrow> string \<Rightarrow> (link_error, string \<times> string \<times> int) result" where
  "BuildStatement w sdk address d =
     (if \<not> valid_key sdk address then Inl ErrInvalidAddress
      else if \<not> isDigest d then Inl NotADigest
      else case gw_statement w address d of None \<Rightarrow> Inl BuildChallengeFailed | Some c \<Rightarrow> Inr c)"

definition DefaultGrantRate :: int where "DefaultGrantRate = 60"

text \<open>What the handlers check before they look anything up.\<close>

definition grant_opened :: "'s grant_world \<Rightarrow> Scope \<Rightarrow> (grant_error, challenge_sdk) result" where
  "grant_opened w scope =
     (case scope_check scope of
        Some e \<Rightarrow> Inl (OnLink (OnScope e))
      | None \<Rightarrow>
          if \<not> gw_on w then Inl ErrConnectorsUnavailable
          else (case lw_sdk (gw_link w) of None \<Rightarrow> Inl (OnLink ErrLinkingUnavailable) | Some sdk \<Rightarrow> Inr sdk))"

text \<open>With the statement built: the challenge is recorded, and then the request that waits on it.\<close>

definition ask_signers ::
  "'s grant_world \<Rightarrow> (string \<Rightarrow> string) \<Rightarrow> challenge_sdk \<Rightarrow> Scope \<Rightarrow> IdentityID \<Rightarrow> MemberID \<Rightarrow> connector_row \<Rightarrow> treasury_row \<Rightarrow> Descriptor \<Rightarrow> string \<Rightarrow> int
   \<Rightarrow> grant_state \<Rightarrow> (grant_error, LinkChallenge \<times> string) result \<times> grant_state" where
  "ask_signers w sha256_hex sdk scope identity by1 row t d statement perHour st =
     (case BuildStatement w sdk (t_address t) (sha256_hex statement) of
        Inl e \<Rightarrow> (Inl (OnLink e), st)
      | Inr built1 \<Rightarrow>
     (case issue (gw_link w) scope identity PurposeGrantConnector (t_address t) built1 (g_links (gs_db st)) of
        (Inl e, _) \<Rightarrow> (Inl (OnLink e), st)
      | (Inr lc, links1) \<Rightarrow>
          let st1 = st\<lparr>gs_db := (gs_db st)\<lparr>g_links := links1\<rparr>\<rparr>
          in (case RequestGrant (gw_pf w) \<lparr>rp_org = sp_org scope, rp_connector = cn_id row, rp_treasury = t_id t, rp_capabilities = d_Capabilities d,
                   rp_surface = SurfaceDigest sha256_hex d, rp_per_hour = perHour, rp_statement = statement, rp_digest = sha256_hex statement,
                   rp_challenge = lc_hash lc, rp_requested_by = by1\<rparr> (gs_db st1) of
                (Some e, db1) \<Rightarrow> (Inl e, st1\<lparr>gs_db := db1\<rparr>)
              | (None, db1) \<Rightarrow> (Inr (lc, statement), st1\<lparr>gs_db := db1\<rparr>))))"

definition PrepareGrant ::
  "'s grant_world \<Rightarrow> (string \<Rightarrow> string) \<Rightarrow> Scope \<Rightarrow> IdentityID \<Rightarrow> MemberID \<Rightarrow> string \<Rightarrow> TreasuryID \<Rightarrow> int \<Rightarrow> grant_state
   \<Rightarrow> (grant_error, LinkChallenge \<times> string) result \<times> grant_state" where
  "PrepareGrant w sha256_hex scope identity by1 name i rate st =
     (case grant_opened w scope of
        Inl e \<Rightarrow> (Inl e, st)
      | Inr sdk \<Rightarrow>
          let perHour = (if rate = 0 then DefaultGrantRate else rate)
          in if perHour < 1 \<or> perHour > 3600 then (Inl GrantRate, st)
             else case ConnectorByName (gw_pf w) (gs_db st) (sp_org scope) name of
               Inl e \<Rightarrow> (Inl e, st)
             | Inr row \<Rightarrow>
             (case reader w row st of
                (Inl e, st1) \<Rightarrow> (Inl e, st1)
              | (Inr b, st1) \<Rightarrow>
             (case gw_org w (sp_org scope) of
                None \<Rightarrow> (Inl NoOrgRow, st1)
              | Some org1 \<Rightarrow>
             (case Treasury_of (g_links (gs_db st1)) (sp_org scope) i of
                Inl e \<Rightarrow> (Inl (OnLink e), st1)
              | Inr t \<Rightarrow>
                  if t_kind t \<noteq> ''classic'' then (Inl NotClassicTreasury, st1)
                  else let d = named_descriptor (cn_name row) b
                       in ask_signers w sha256_hex sdk scope identity by1 row t d (grantStatement sha256_hex org1 t row d perHour) perHour st1))))"

text \<open>The checks of \<open>SubmitGrant\<close> up to the signatures: the challenge on record, the request that waits on it, and the statement as it would be now.\<close>

definition still_describes ::
  "'s grant_world \<Rightarrow> (string \<Rightarrow> string) \<Rightarrow> Scope \<Rightarrow> Challenge \<Rightarrow> connector_grant \<Rightarrow> grant_state
   \<Rightarrow> (grant_error, connector_row \<times> treasury_row) result \<times> grant_state" where
  "still_describes w sha256_hex scope c request st =
     (case ConnectorByID (gs_db st) (sp_org scope) (cg_connector request) of
        Inl e \<Rightarrow> (Inl e, st)
      | Inr row \<Rightarrow>
     (case Treasury_of (g_links (gs_db st)) (sp_org scope) (cg_treasury request) of
        Inl e \<Rightarrow> (Inl (OnLink e), st)
      | Inr t \<Rightarrow>
          if t_address t \<noteq> ch_address c then (Inl GrantNoChallenge, st)
          else (case reader w row st of
                  (Inl e, st1) \<Rightarrow> (Inl e, st1)
                | (Inr b, st1) \<Rightarrow>
                    (case gw_org w (sp_org scope) of
                       None \<Rightarrow> (Inl NoOrgRow, st1)
                     | Some org1 \<Rightarrow>
                         if grantStatement sha256_hex org1 t row (named_descriptor (cn_name row) b) (cg_per_hour request) \<noteq> cg_statement request
                         then (Inl ErrConnectorChanged, st1)
                         else (Inr (row, t), st1)))))"

definition verify_signers ::
  "'s grant_world \<Rightarrow> challenge_sdk \<Rightarrow> Challenge \<Rightarrow> string \<Rightarrow> string \<Rightarrow> (link_error, AccountSigners \<times> address list) result" where
  "verify_signers w sdk c signedXDR d =
     (case SignerSetOf sdk (lw_load (gw_link w)) (ch_address c) of
        Inl e \<Rightarrow> Inl e
      | Inr a \<Rightarrow>
          if Summary a (ch_address c) = [] then Inl ErrTreasuryUnprovable
          else (case VerifyStatement sdk signedXDR (ucast (Medium a)) (Summary a (ch_address c)) d of
                  Inl e \<Rightarrow> Inl e
                | Inr found \<Rightarrow> Inr (a, sort_strings found)))"

definition SubmitGrant ::
  "'s grant_world \<Rightarrow> (string \<Rightarrow> string) \<Rightarrow> Scope \<Rightarrow> string \<Rightarrow> string \<Rightarrow> grant_state
   \<Rightarrow> (grant_error, connector_row \<times> connector_grant \<times> treasury_row \<times> AccountSigners) result \<times> grant_state" where
  "SubmitGrant w sha256_hex scope hash signedXDR st =
     (case grant_opened w scope of
        Inl e \<Rightarrow> (Inl e, st)
      | Inr sdk \<Rightarrow>
          if signedXDR = [] then (Inl (OnLink SignedNeeded), st)
          else case live_challenge (gw_link w) scope hash (g_links (gs_db st)) of
            Inl e \<Rightarrow> (Inl (OnLink e), st)
          | Inr c \<Rightarrow>
              if ch_purpose c \<noteq> PurposeGrantConnector then (Inl GrantNoChallenge, st)
              else (case GrantRequest_of (gs_db st) (sp_org scope) hash of
                Inl e \<Rightarrow> (Inl e, st)
              | Inr request \<Rightarrow>
              (case still_describes w sha256_hex scope c request st of
                 (Inl e, st1) \<Rightarrow> (Inl e, st1)
               | (Inr (row, t), st1) \<Rightarrow>
              (case verify_signers w sdk c signedXDR (cg_digest request) of
                 Inl e \<Rightarrow> (Inl (OnLink e), st1)
               | Inr (a, found) \<Rightarrow>
                   (case ConsumeGrantChallenge (gw_pf w) (gw_now w) (sp_org scope) hash (ch_address c) signedXDR found (gs_db st1) of
                      (Inl e, db1) \<Rightarrow> (Inl e, st1\<lparr>gs_db := db1\<rparr>)
                    | (Inr g, db1) \<Rightarrow> (Inr (row, g, t, a), st1\<lparr>gs_db := db1\<rparr>))))))"

section \<open>The one door\<close>

definition grants_GrantFor :: "platform \<Rightarrow> grant_db \<Rightarrow> OrgID \<Rightarrow> string \<Rightarrow> (guard_error, Grant) result" where
  "grants_GrantFor pf db org name =
     (case GrantInForce pf db org name of
        Inl e \<Rightarrow> Inl (if e = ErrNoGrant then ErrNotGranted else GrantFailed)
      | Inr g \<Rightarrow> Inr \<lparr>g_Capabilities = cg_capabilities g, g_SurfaceDigest = cg_surface g, g_PerHour = cg_per_hour g\<rparr>)"

definition guard_of :: "'s grant_world \<Rightarrow> (string \<Rightarrow> string) \<Rightarrow> grant_db \<Rightarrow> 's guard" where
  "guard_of w sha256_hex db = \<lparr>grants = grants_GrantFor (gw_pf w) db, allow_call = gw_allow w, digest = sha256_hex\<rparr>"

definition own_refusal :: "guard_error \<Rightarrow> bool" where
  "own_refusal e \<longleftrightarrow> e \<in> {ErrNotGranted, ErrSurfaceChanged, ErrCapabilityNotGranted, ErrRateExceeded}"

definition ReadConnector ::
  "'s grant_world \<Rightarrow> (string \<Rightarrow> string) \<Rightarrow> Scope \<Rightarrow> string \<Rightarrow> string \<Rightarrow> grant_state \<Rightarrow> 's
   \<Rightarrow> (grant_error, observation \<times> connector_row) result \<times> grant_state \<times> 's" where
  "ReadConnector w sha256_hex scope name selector st lim =
     (case scope_check scope of
        Some e \<Rightarrow> (Inl (OnLink (OnScope e)), st, lim)
      | None \<Rightarrow>
          if \<not> gw_on w then (Inl ErrConnectorsUnavailable, st, lim)
          else case ConnectorByName (gw_pf w) (gs_db st) (sp_org scope) name of
            Inl e \<Rightarrow> (Inl e, st, lim)
          | Inr row \<Rightarrow>
          (case reader w row st of
             (Inl e, st1) \<Rightarrow> (Inl e, st1, lim)
           | (Inr b, st1) \<Rightarrow>
          (case capabilityFor w row selector of
             Inl e \<Rightarrow> (Inl ErrConnectorFailed, st1, lim)
           | Inr capability \<Rightarrow>
               (case Guard_Read (guard_of w sha256_hex (gs_db st1)) (gw_now w) (sp_org scope) (as_connector w (named_descriptor (cn_name row) b) b)
                    capability \<lparr>Selector = selector, Limit = 0\<rparr> lim of
                  (Inl e, lim1) \<Rightarrow> (Inl (if own_refusal e then OnGuard e else ErrConnectorFailed), st1, lim1)
                | (Inr None, lim1) \<Rightarrow> (Inl ErrConnectorFailed, st1, lim1)
                | (Inr (Some seen), lim1) \<Rightarrow> (Inr (seen, row), st1, lim1)))))"

end
