(* ===== verification/Grant_Statement.thy ===== *)
theory Grant_Statement
  imports Grants
begin

text \<open>
  The statement a treasury's signers sign (\<open>grantStatement\<close> of \<^verbatim>\<open>api/connectors.go\<close>): what two equal statements agree on.
\<close>

section \<open>Lines\<close>

lemma lines_inj:
  "concat (map (\<lambda>l. l @ [chr 10]) xs) = concat (map (\<lambda>l. l @ [chr 10]) ys) \<Longrightarrow> \<forall>l \<in> set xs. chr 10 \<notin> set l \<Longrightarrow> \<forall>l \<in> set ys. chr 10 \<notin> set l \<Longrightarrow> xs = ys"
proof (induction xs arbitrary: ys)
  case Nil
  then show ?case by (cases ys) auto
next
  case (Cons x xs)
  then obtain y ys' where ys: "ys = y # ys'" by (cases ys) auto
  let ?rest = "\<lambda>ls. concat (map (\<lambda>l. l @ [chr 10]) ls)"
  have "cut_byte (chr 10) (x @ chr 10 # ?rest xs) = cut_byte (chr 10) (y @ chr 10 # ?rest ys')" using Cons.prems(1) ys by simp
  then have "x = y" "?rest xs = ?rest ys'" using Cons.prems(2,3) ys by (simp_all add: cut_byte_found)
  then show ?case using Cons.IH [of ys'] Cons.prems(2,3) ys by simp
qed

lemma fields_loop_size: "length (concat (fields_loop f cur cs)) \<le> length cur + length (chunk_text cs)"
  by (induction f cur cs rule: fields_loop.induct) auto

lemma Fields_size: "length (concat (Fields s)) \<le> length s"
  using fields_loop_size [of IsSpace "[]" "utf8_chunks s"] by (simp add: Fields_def FieldsFunc_def)

text \<open>A word holds no line break, so that a workspace cannot add a line to a statement by its name.\<close>

lemma Fields_no_break:
  assumes "w \<in> set (Fields s)"
  shows "chr 10 \<notin> set w"
proof
  assume "chr 10 \<in> set w"
  then obtain a b where w: "w = a @ chr 10 # b" by (metis split_list)
  have nl: "byte (chr 10) = 10" by simp
  have "Fields w = Fields a @ Fields b" unfolding w by (rule Fields_space_join) (simp_all add: nl IsSpace_def)
  then have "length (concat (Fields w)) \<le> length a + length b" using Fields_size [of a] Fields_size [of b] by simp
  moreover have "Fields w = [w]" using Fields_solid Fields_words [OF assms] by blast
  ultimately show False using w by simp
qed

lemma join_chars: "set (join sep ws) \<subseteq> set sep \<union> \<Union> (set ` set ws)"
  by (induction sep ws rule: join.induct) auto

lemma oneLine_no_break: "chr 10 \<notin> set (oneLine s)"
proof -
  have "chr 10 \<noteq> CHR '' ''" by (simp add: char_of_eq_iff)
  then show ?thesis using join_chars [of "'' ''" "Fields s"] Fields_no_break [of _ s] unfolding oneLine_def by auto
qed

section \<open>The statement\<close>

definition unbroken :: "(string \<Rightarrow> string) \<Rightarrow> org_row \<Rightarrow> treasury_row \<Rightarrow> connector_row \<Rightarrow> Descriptor \<Rightarrow> bool" where
  "unbroken sha256_hex org1 t row d \<longleftrightarrow> list_all (\<lambda>s. chr 10 \<notin> set s)
     ([or_network org1, t_address t, cn_name row, cn_kind row, cn_host row, cn_endpoint_digest row, SurfaceDigest sha256_hex d] @ d_Capabilities d)"

lemma number_no_break: "chr 10 \<notin> set (fmt_int i)"
  using fmt_int_chars [of i] by (auto simp: is_digit_def char_of_eq_iff)

lemma statement_lines_unbroken:
  assumes "unbroken sha256_hex org1 t row d" "l \<in> set (statement_lines sha256_hex org1 t row d n)"
  shows "chr 10 \<notin> set l"
proof -
  have plain: "chr 10 \<in> set (statement_line k v) \<longleftrightarrow> chr 10 \<in> set k \<or> chr 10 \<in> set v" for k v
    by (simp add: statement_line_def char_of_eq_iff)
  have caps: "chr 10 \<notin> set c" if "c \<in> set (sort_strings (d_Capabilities d))" for c
    using assms(1) that by (simp add: unbroken_def list_all_iff sort_strings_def)
  show ?thesis
    using assms caps number_no_break oneLine_no_break
    by (auto simp: statement_lines_def unbroken_def list_all_iff plain char_of_eq_iff split: if_splits)
qed

definition agreed ::
  "(string \<Rightarrow> string) \<Rightarrow> org_row \<times> treasury_row \<times> connector_row \<times> Descriptor \<times> int
   \<Rightarrow> OrgID \<times> string \<times> string \<times> string \<times> string \<times> string \<times> string \<times> string \<times> string \<times> string multiset \<times> int" where
  "agreed sha256_hex x =
     (case x of (org1, t, row, d, n) \<Rightarrow>
        (or_id org1, oneLine (or_name org1), or_network org1, t_address t, cn_name row, cn_kind row,
         if cn_kind row = ''sheets'' then ''Google Sheets'' else cn_host row, cn_endpoint_digest row, SurfaceDigest sha256_hex d, mset (d_Capabilities d), n))"

lemma workspace_line: "fmt_int i @ '' '' @ s = fmt_int j @ '' '' @ s' \<longleftrightarrow> i = j \<and> s = s'"
proof
  have n: "CHR '' '' \<notin> set (fmt_int k)" for k using fmt_int_chars [of k] by (auto simp: is_digit_def)
  assume "fmt_int i @ '' '' @ s = fmt_int j @ '' '' @ s'"
  then have "cut_byte (CHR '' '') (fmt_int i @ CHR '' '' # s) = cut_byte (CHR '' '') (fmt_int j @ CHR '' '' # s')" by simp
  then show "i = j \<and> s = s'" by (simp add: cut_byte_found n fmt_int_inj)
qed simp

lemma statement_line_eq: "statement_line k v = statement_line k v' \<longleftrightarrow> v = v'"
  by (simp add: statement_line_def)

lemma may_lines: "map (statement_line ''may'') xs = map (statement_line ''may'') ys \<longleftrightarrow> xs = ys"
  by (rule inj_map_eq_map) (simp add: inj_def statement_line_eq)

lemma statement_lines_eq:
  "statement_lines sha256_hex org1 t row d n = statement_lines sha256_hex org2 t2 row2 d2 n2
     \<longleftrightarrow> agreed sha256_hex (org1, t, row, d, n) = agreed sha256_hex (org2, t2, row2, d2, n2)"
proof -
  have "sint a = sint b \<longleftrightarrow> a = b" for a b :: OrgID by (auto intro: signed_word_eqI)
  then show ?thesis
    by (simp add: statement_lines_def agreed_def statement_line_eq may_lines workspace_line [simplified] sort_strings_eq fmt_int_inj)
qed

text \<open>
  C27: what a signer reads is what the signature is over.  Two statements are the same text exactly when they are of the same workspace, named
  alike, on the same network, of the same treasury, for a connector of the same name and kind that reaches the same place, with the same endpoint
  digest, the same surface, the same capabilities and the same rate: provided none of the parts but the workspace's name holds a line break,
  which that name may, since its white space is folded first.
\<close>

theorem grantStatement_determines:
  assumes "unbroken sha256_hex org1 t row d" "unbroken sha256_hex org2 t2 row2 d2"
  shows "grantStatement sha256_hex org1 t row d n = grantStatement sha256_hex org2 t2 row2 d2 n2
    \<longleftrightarrow> agreed sha256_hex (org1, t, row, d, n) = agreed sha256_hex (org2, t2, row2, d2, n2)"
proof -
  have "grantStatement sha256_hex org1 t row d n = grantStatement sha256_hex org2 t2 row2 d2 n2
      \<longleftrightarrow> statement_lines sha256_hex org1 t row d n = statement_lines sha256_hex org2 t2 row2 d2 n2"
    using lines_inj statement_lines_unbroken [OF assms(1)] statement_lines_unbroken [OF assms(2)] unfolding grantStatement_def by metis
  then show ?thesis by (simp only: statement_lines_eq)
qed

definition demo_stated_org :: org_row where
  "demo_stated_org = \<lparr>or_id = 1, or_name = ''dao'', or_network = ''testnet''\<rparr>"

definition demo_stated_treasury :: treasury_row where
  "demo_stated_treasury = \<lparr>t_id = 1, t_org = 1, t_kind = ''classic'', t_address = ''GA'', t_label = [], t_low = 1, t_medium = 1, t_high = 1,
     t_contract = None, t_verified_by = None, t_verified_at = 30, t_refreshed_at = 30\<rparr>"

definition demo_stated_row :: connector_row where
  "demo_stated_row = \<lparr>cn_id = 1, cn_org = 1, cn_name = ''pay'', cn_kind = ''sheets'', cn_sealed_endpoint = [], cn_host = [], cn_endpoint_digest = [],
     cn_sealed_credential = [], cn_tools = [], cn_tool_digest = [], cn_ready_at = Some 30, cn_created_by = 1, cn_removed_at = None\<rparr>"

definition demo_stated_descriptor :: Descriptor where
  "demo_stated_descriptor = named_descriptor ''pay'' (BuiltSheets 1)"

theorem grantStatement_determines_witness:
  "grantStatement (\<lambda>_. ''f'') demo_stated_org demo_stated_treasury demo_stated_row demo_stated_descriptor 60 \<noteq>
     grantStatement (\<lambda>_. ''f'') demo_stated_org demo_stated_treasury demo_stated_row demo_stated_descriptor 600"
proof -
  have u: "unbroken (\<lambda>_. ''f'') demo_stated_org demo_stated_treasury demo_stated_row demo_stated_descriptor"
    by (simp add: unbroken_def SurfaceDigest_def demo_stated_org_def demo_stated_treasury_def demo_stated_row_def demo_stated_descriptor_def
        named_descriptor_def built_descriptor_def char_of_eq_iff)
  show ?thesis unfolding grantStatement_determines [OF u u] by (simp add: agreed_def)
qed

end
