(* ===== verification/Grant_Safety.thy ===== *)
theory Grant_Safety
  imports Grants
begin

text \<open>
  What a grant in force rests on, in any interleaving of the operations of \<open>Grants\<close>: a statement that says what the grant says, and an
  envelope on record, for a spent challenge, that carries the statement's digest; and what a read then rests on.  SHA-256 and the SDK are
  fixed through a run; everything else of a deployment may differ from one step to the next.
\<close>

section \<open>Runs\<close>

inductive grant_step :: "(string \<Rightarrow> string) \<Rightarrow> challenge_sdk \<Rightarrow> platform \<Rightarrow> grant_state \<Rightarrow> grant_state \<Rightarrow> bool" for sha256_hex sdk pf where
  gr_links: "link_step pf (g_links (gs_db st)) l \<Longrightarrow> grant_step sha256_hex sdk pf st (st\<lparr>gs_db := (gs_db st)\<lparr>g_links := l\<rparr>\<rparr>)"
| gr_register: "Service_RegisterConnector (w :: unit grant_world) scope by1 name kind st = (r, st') \<Longrightarrow> grant_step sha256_hex sdk pf st st'"
| gr_setup: "SetUpConnector (w :: unit grant_world) sha256_hex scope i endpoint credential st = (r, st') \<Longrightarrow> grant_step sha256_hex sdk pf st st'"
| gr_remove: "RemoveConnector pf now org name by1 (gs_db st) = (e, db') \<Longrightarrow> grant_step sha256_hex sdk pf st (st\<lparr>gs_db := db'\<rparr>)"
| gr_revoke: "RevokeGrant pf now org name by1 (gs_db st) = (e, db') \<Longrightarrow> grant_step sha256_hex sdk pf st (st\<lparr>gs_db := db'\<rparr>)"
| gr_prepare: "PrepareGrant (w :: unit grant_world) sha256_hex scope identity by1 name i rate st = (r, st') \<Longrightarrow> grant_step sha256_hex sdk pf st st'"
| gr_submit: "lw_sdk (gw_link (w :: unit grant_world)) \<in> {None, Some sdk} \<Longrightarrow> SubmitGrant w sha256_hex scope hash signedXDR st = (r, st')
    \<Longrightarrow> grant_step sha256_hex sdk pf st st'"
| gr_read: "ReadConnector (w :: unit grant_world) sha256_hex scope name selector st lim = (r, st', lim') \<Longrightarrow> grant_step sha256_hex sdk pf st st'"

definition grant_init :: grant_state where
  "grant_init = \<lparr>gs_db = \<lparr>g_links = link_init, connector_rows = [], grant_rows = [], connector_seq = 0, grant_seq = 0\<rparr>, gs_live = (\<lambda>_. None)\<rparr>"

section \<open>The invariant\<close>

text \<open>A grant's row says what its statement says.\<close>

definition stated :: "(string \<Rightarrow> string) \<Rightarrow> connector_grant \<Rightarrow> bool" where
  "stated sha256_hex g \<longleftrightarrow> (\<exists>org1 t row d. cg_statement g = grantStatement sha256_hex org1 t row d (cg_per_hour g) \<and> d_Capabilities d = cg_capabilities g
     \<and> SurfaceDigest sha256_hex d = cg_surface g \<and> d_ID d = cn_name row \<and> cn_id row = cg_connector g \<and> cn_org row = cg_org g
     \<and> t_id t = cg_treasury g \<and> t_org t = cg_org g) \<and> cg_digest g = sha256_hex (cg_statement g)"

text \<open>A grant that was given: the envelope on record carries the digest of its statement, once, and a challenge was spent on it.\<close>

definition evidenced :: "challenge_sdk \<Rightarrow> Challenge list \<Rightarrow> connector_grant \<Rightarrow> bool" where
  "evidenced sdk cs g \<longleftrightarrow> cg_signed_by g \<noteq> []
     \<and> map_option (filter carries) (Operations sdk (cg_signed_xdr g)) = Some [ManageData (server_account sdk) StatementKey (cg_digest g)]
     \<and> (\<exists>c \<in> set cs. ch_consumed c \<noteq> None \<and> ch_purpose c = PurposeGrantConnector \<and> ch_hash c = cg_challenge g \<and> ch_org c = cg_org g)"

definition grant_row_ok :: "(string \<Rightarrow> string) \<Rightarrow> challenge_sdk \<Rightarrow> Challenge list \<Rightarrow> connector_grant \<Rightarrow> bool" where
  "grant_row_ok sha256_hex sdk cs g \<longleftrightarrow> stated sha256_hex g \<and> (cg_granted_at g \<noteq> None \<longrightarrow> evidenced sdk cs g)"

definition grant_rows_ok :: "(string \<Rightarrow> string) \<Rightarrow> challenge_sdk \<Rightarrow> Challenge list \<Rightarrow> connector_grant list \<Rightarrow> bool" where
  "grant_rows_ok sha256_hex sdk cs gs \<longleftrightarrow> (\<forall>g \<in> set gs. grant_row_ok sha256_hex sdk cs g) \<and> distinct (map cg_challenge gs)
     \<and> (\<forall>g \<in> set gs. \<forall>h \<in> set gs. in_force g \<longrightarrow> in_force h \<longrightarrow> cg_connector g = cg_connector h \<longrightarrow> g = h)"

definition grants_ok :: "(string \<Rightarrow> string) \<Rightarrow> challenge_sdk \<Rightarrow> grant_db \<Rightarrow> bool" where
  "grants_ok sha256_hex sdk db \<longleftrightarrow> grant_rows_ok sha256_hex sdk (challenge_rows (people (g_links db))) (grant_rows db)"

definition withdrawn :: "(connector_grant \<Rightarrow> connector_grant) \<Rightarrow> bool" where
  "withdrawn f \<longleftrightarrow> (\<forall>g. f g = g \<or> (\<exists>t b. f g = g\<lparr>cg_revoked_at := Some t, cg_revoked_by := b\<rparr>))"

lemma grant_row_ok_revoked: "grant_row_ok sha256_hex sdk cs (g\<lparr>cg_revoked_at := t, cg_revoked_by := b\<rparr>) = grant_row_ok sha256_hex sdk cs g"
  by (simp add: grant_row_ok_def stated_def evidenced_def)

lemma withdrawn_row:
  assumes "withdrawn f"
  shows "grant_row_ok sha256_hex sdk cs (f g) = grant_row_ok sha256_hex sdk cs g" "cg_challenge (f g) = cg_challenge g" "in_force (f g) \<Longrightarrow> f g = g"
  using assms [unfolded withdrawn_def, rule_format, of g] grant_row_ok_revoked by (auto simp: in_force_def)

text \<open>Grants withdrawn and requests dropped.\<close>

lemma grant_rows_ok_shrink:
  assumes "grant_rows_ok sha256_hex sdk cs gs" "withdrawn f"
  shows "grant_rows_ok sha256_hex sdk cs (filter P (map f gs))"
proof -
  have "map cg_challenge (map f gs) = map cg_challenge gs" using withdrawn_row(2) [OF assms(2)] by simp
  then have "distinct (map cg_challenge (filter P (map f gs)))" using assms(1) by (metis distinct_map_filter grant_rows_ok_def)
  moreover have "g = h" if i: "g \<in> set (map f gs)" "h \<in> set (map f gs)" "in_force g" "in_force h" "cg_connector g = cg_connector h" for g h
  proof -
    obtain g' h' where "g = f g'" "h = f h'" "g' \<in> set gs" "h' \<in> set gs" using i(1,2) by auto
    then show ?thesis using assms(1) i(3-5) withdrawn_row(3) [OF assms(2)] unfolding grant_rows_ok_def by metis
  qed
  ultimately show ?thesis using assms(1) withdrawn_row(1) [OF assms(2)] unfolding grant_rows_ok_def by auto
qed

lemma withdrawn_revoke: "withdrawn (\<lambda>g. if Q g then g\<lparr>cg_revoked_at := Some t, cg_revoked_by := b\<rparr> else g)"
  by (auto simp: withdrawn_def)

text \<open>The facts a grant rests on stay when challenges are added or spent.\<close>

lemma grant_rows_ok_mono:
  assumes "grant_rows_ok sha256_hex sdk cs gs" "\<And>c. c \<in> set cs \<Longrightarrow> ch_consumed c \<noteq> None \<Longrightarrow> c \<in> set cs'"
  shows "grant_rows_ok sha256_hex sdk cs' gs"
proof -
  have "grant_row_ok sha256_hex sdk cs' g" if "grant_row_ok sha256_hex sdk cs g" for g
    using that assms(2) unfolding grant_row_ok_def evidenced_def by blast
  then show ?thesis using assms(1) unfolding grant_rows_ok_def by blast
qed

lemma link_step_keeps_spent:
  assumes "link_step pf db db'" "c \<in> set (challenge_rows (people db))" "ch_consumed c \<noteq> None"
  shows "c \<in> set (challenge_rows (people db'))"
  using assms(1)
proof cases
  case (l_people people1)
  then show ?thesis using step_keeps_spent [OF _ assms(2,3)] by simp
next
  case (l_treasury now hash p r)
  from l_treasury show ?thesis
  proof (cases rule: ConsumeTreasuryChallenge_cases)
    case (refused e n)
    then show ?thesis using assms(2) by simp
  next
    case (proved t c' people1)
    have "c \<in> set (challenge_rows people1)"
      by (rule claim_keeps_spent [OF proved(2) _ assms(2,3)]) (simp add: live_def)
    moreover have "people db' = people1" using proved(3) by (cases rule: linkTreasuryTx_cases) simp_all
    ultimately show ?thesis by simp
  qed
next
  case (l_signers now org i weights low medium1 high e)
  then have "people db' = people db" by (auto simp: SaveSignerSet_def split: if_splits)
  then show ?thesis using assms(2) by simp
qed

section \<open>Every operation keeps it\<close>

lemma reader_db: "reader w row st = (r, st') \<Longrightarrow> gs_db st' = gs_db st"
  by (auto simp: reader_def Let_def split: if_splits option.splits sum.splits)

lemma RegisterConnector_keeps:
  "RegisterConnector pf now org name kind ready by1 db = (r, db') \<Longrightarrow> g_links db' = g_links db \<and> grant_rows db' = grant_rows db"
  by (auto simp: RegisterConnector_def Let_def split: if_splits option.splits)

lemma CompleteConnectorSetup_keeps:
  "CompleteConnectorSetup pf now org i p db = (r, db') \<Longrightarrow> g_links db' = g_links db
     \<and> (grant_rows db' = grant_rows db \<or> grant_rows db' = drop_requests org i (revoke_in_force now None org i (grant_rows db)))"
  by (auto simp: CompleteConnectorSetup_def split: if_splits option.splits db_error.splits)

lemma setup_step:
  assumes "SetUpConnector w sha256_hex scope i endpoint credential st = (r, st')"
  obtains (kept) "gs_db st' = gs_db st"
  | (completed) p e db1 where "CompleteConnectorSetup (gw_pf w) (gw_now w) (sp_org scope) i p (gs_db st) = (e, db1)" "gs_db st' = db1" "e = None \<or> isl r"
proof (cases "gs_db st' = gs_db st")
  case False
  obtain p e db1 where "CompleteConnectorSetup (gw_pf w) (gw_now w) (sp_org scope) i p (gs_db st) = (e, db1)" "gs_db st' = db1" "e = None \<or> isl r"
    using assms False
    by (auto simp: SetUpConnector_def Let_def forget_def split: option.splits if_splits sum.splits prod.splits)
  then show thesis by (rule completed)
qed (rule kept)

text \<open>A request is added to those of other connectors.\<close>

lemma RequestGrant_ok:
  assumes ok: "grant_rows_ok sha256_hex sdk cs (grant_rows db)" and r: "RequestGrant pf p db = (e, db')" and s: "\<And>i. stated sha256_hex (grant_of p i)"
  shows "grant_rows_ok sha256_hex sdk cs (grant_rows db') \<and> g_links db' = g_links db"
proof -
  let ?kept = "drop_requests (rp_org p) (rp_connector p) (grant_rows db)"
  have kept: "grant_rows_ok sha256_hex sdk cs ?kept"
    using grant_rows_ok_shrink [OF ok, of id] by (simp add: drop_requests_def withdrawn_def)
  consider "grant_rows db' = grant_rows db" "g_links db' = g_links db"
    | i where "grant_rows db' = ?kept @ [grant_of p i]" "\<forall>d \<in> set ?kept. cg_challenge d \<noteq> rp_challenge p" "g_links db' = g_links db"
    using r by (auto simp: RequestGrant_def Let_def list_ex_iff split: if_splits option.splits)
  then show ?thesis
  proof cases
    case (2 i)
    have n: "cg_challenge (grant_of p i) = rp_challenge p" "\<not> in_force (grant_of p i)" "cg_granted_at (grant_of p i) = None"
      by (simp_all add: grant_of_def in_force_def)
    have "grant_row_ok sha256_hex sdk cs (grant_of p i)" using s n(3) by (simp add: grant_row_ok_def)
    then show ?thesis using kept n(1,2) 2 unfolding grant_rows_ok_def by auto
  qed (use ok in simp)
qed

lemma ask_signers_ok:
  assumes ok: "grants_ok sha256_hex sdk (gs_db st)"
    and a: "ask_signers w sha256_hex sdk1 scope identity by1 row t d (grantStatement sha256_hex org1 t row d perHour) perHour st = (r, st')"
    and d: "d_ID d = cn_name row" "cn_org row = sp_org scope" "t_org t = sp_org scope"
  shows "grants_ok sha256_hex sdk (gs_db st')"
proof (cases "st' = st")
  case False
  let ?p = "\<lambda>lc. \<lparr>rp_org = sp_org scope, rp_connector = cn_id row, rp_treasury = t_id t, rp_capabilities = d_Capabilities d,
     rp_surface = SurfaceDigest sha256_hex d, rp_per_hour = perHour, rp_statement = grantStatement sha256_hex org1 t row d perHour,
     rp_digest = sha256_hex (grantStatement sha256_hex org1 t row d perHour), rp_challenge = lc_hash lc, rp_requested_by = by1\<rparr>"
  obtain built1 lc links1 e db1 where i: "issue (gw_link w) scope identity PurposeGrantConnector (t_address t) built1 (g_links (gs_db st)) = (Inr lc, links1)"
      and q: "RequestGrant (gw_pf w) (?p lc) ((gs_db st)\<lparr>g_links := links1\<rparr>) = (e, db1)" and db: "gs_db st' = db1"
    using a False by (auto simp: ask_signers_def Let_def split: sum.splits prod.splits option.splits)
  obtain people1 where p1: "links1 = (g_links (gs_db st))\<lparr>people := people1\<rparr>" and m: "member_step (lw_pf (gw_link w)) (people (g_links (gs_db st))) people1"
    using i by (auto simp: issue_def split: prod.splits option.splits intro: m_save)
  have "grant_rows_ok sha256_hex sdk (challenge_rows people1) (grant_rows (gs_db st))"
    by (rule grant_rows_ok_mono [OF ok [unfolded grants_ok_def]]) (rule step_keeps_spent [OF m])
  then have g: "grant_rows_ok sha256_hex sdk (challenge_rows people1) (grant_rows ((gs_db st)\<lparr>g_links := links1\<rparr>))" by simp
  have "stated sha256_hex (grant_of (?p lc) j)" for j
    unfolding stated_def by (intro conjI exI [of _ org1] exI [of _ t] exI [of _ row] exI [of _ d]) (simp_all add: grant_of_def d)
  from RequestGrant_ok [OF g q this] show ?thesis by (simp add: grants_ok_def db p1)
qed (use ok in simp)

lemma ConnectorByName_row: "ConnectorByName pf db org name = Inr row \<Longrightarrow>
    row \<in> set (connector_rows db) \<and> cn_org row = org \<and> cn_name row = name \<and> cn_removed_at row = None"
  by (auto simp: ConnectorByName_def dest: find_in_set split: if_splits option.splits)

lemma ConnectorByID_row: "ConnectorByID db org i = Inr row \<Longrightarrow>
    row \<in> set (connector_rows db) \<and> cn_org row = org \<and> cn_id row = i \<and> cn_removed_at row = None"
  by (auto simp: ConnectorByID_def same_connector_def dest: find_in_set split: option.splits)

lemma Treasury_of_row: "Treasury_of db org i = Inr t \<Longrightarrow> t \<in> set (treasury_rows db) \<and> t_org t = org \<and> t_id t = i"
  by (auto simp: Treasury_of_def dest: find_in_set split: option.splits)

lemma prepare_step_ok:
  assumes ok: "grants_ok sha256_hex sdk (gs_db st)" and p: "PrepareGrant w sha256_hex scope identity by1 name i rate st = (r, st')"
  shows "grants_ok sha256_hex sdk (gs_db st')"
proof (cases "gs_db st' = gs_db st")
  case False
  let ?rate = "if rate = 0 then DefaultGrantRate else rate"
  obtain sdk1 row b st1 org1 t where g: "ConnectorByName (gw_pf w) (gs_db st) (sp_org scope) name = Inr row" "reader w row st = (Inr b, st1)"
      "Treasury_of (g_links (gs_db st1)) (sp_org scope) i = Inr t"
      "ask_signers w sha256_hex sdk1 scope identity by1 row t (named_descriptor (cn_name row) b)
         (grantStatement sha256_hex org1 t row (named_descriptor (cn_name row) b) ?rate) ?rate st1 = (r, st')"
    using p False reader_db by (fastforce simp: PrepareGrant_def Let_def split: sum.splits if_splits prod.splits option.splits)
  show ?thesis
    by (rule ask_signers_ok [OF _ g(4)])
       (use ok reader_db [OF g(2)] ConnectorByName_row [OF g(1)] Treasury_of_row [OF g(3)] in \<open>simp_all add: named_descriptor_def\<close>)
qed (use ok in simp)

section \<open>Putting a grant in force\<close>

lemma ConsumeGrantChallenge_cases:
  assumes "ConsumeGrantChallenge pf now org hash address signedXDR signedBy db = (r, db')"
  obtains (refused) e where "r = Inl e" "db' = db"
  | (granted) g c people1 where "r = Inr (granted_row now signedXDR signedBy g)" "signedXDR \<noteq> []" "signedBy \<noteq> []"
      "claim now (\<lambda>c. live now org hash c \<and> ch_address c = address \<and> ch_purpose c = PurposeGrantConnector) (people (g_links db)) = Some (c, people1)"
      "find (\<lambda>g. cg_org g = org \<and> cg_challenge g = hash \<and> waiting g) (grant_rows db) = Some g"
      "\<not> list_ex (\<lambda>h. in_force h \<and> cg_connector h = cg_connector g \<and> cg_challenge h \<noteq> hash) (revoke_in_force now None org (cg_connector g) (grant_rows db))"
      "db' = db\<lparr>g_links := (g_links db)\<lparr>people := people1\<rparr>, grant_rows :=
         map (\<lambda>h. if cg_org h = org \<and> cg_challenge h = hash then granted_row now signedXDR signedBy h else h)
           (revoke_in_force now None org (cg_connector g) (grant_rows db))\<rparr>"
proof (cases "signedXDR = [] \<or> signedBy = [] \<or> \<not> list_all (text_ok pf) (hash # address # signedXDR # signedBy)")
  case True
  then have "db' = db \<and> (\<exists>e. r = Inl e)" using assms unfolding ConsumeGrantChallenge_def by (cases "signedXDR = [] \<or> signedBy = []") auto
  then show thesis using refused by blast
next
  case ok: False
  let ?claim = "claim now (\<lambda>c. live now org hash c \<and> ch_address c = address \<and> ch_purpose c = PurposeGrantConnector) (people (g_links db))"
  let ?find = "find (\<lambda>g. cg_org g = org \<and> cg_challenge g = hash \<and> waiting g) (grant_rows db)"
  show thesis
  proof (cases ?claim; cases ?find)
    fix cp g assume c: "?claim = Some cp" and f: "?find = Some g"
    let ?live = "list_ex (\<lambda>h. in_force h \<and> cg_connector h = cg_connector g \<and> cg_challenge h \<noteq> hash) (revoke_in_force now None org (cg_connector g) (grant_rows db))"
    show thesis
    proof (cases ?live)
      case True
      then show thesis using assms refused ok unfolding ConsumeGrantChallenge_def c f by (cases cp) (auto simp: Let_def)
    next
      case False
      obtain ch people1 where cp: "cp = (ch, people1)" by (cases cp)
      show thesis
        by (rule granted [OF _ _ _ c [unfolded cp] f False])
           (use assms ok False in \<open>simp_all add: ConsumeGrantChallenge_def c f cp Let_def\<close>)
    qed
  qed (use assms refused ok in \<open>auto simp: ConsumeGrantChallenge_def\<close>)
qed

lemma grant_rows_ok_map:
  assumes "\<forall>g \<in> set (map k gs). grant_row_ok sha256_hex sdk cs g" "distinct (map cg_challenge (map k gs))"
    and "\<And>x y. x \<in> set gs \<Longrightarrow> y \<in> set gs \<Longrightarrow> in_force (k x) \<Longrightarrow> in_force (k y) \<Longrightarrow> cg_connector (k x) = cg_connector (k y) \<Longrightarrow> k x = k y"
  shows "grant_rows_ok sha256_hex sdk cs (map k gs)"
  unfolding grant_rows_ok_def using assms by auto

lemma grant_by_challenge:
  "distinct (map cg_challenge gs) \<Longrightarrow> g \<in> set gs \<Longrightarrow> h \<in> set gs \<Longrightarrow> cg_challenge g = cg_challenge h \<Longrightarrow> g = h"
  by (auto simp: distinct_map inj_on_def)

lemma ConsumeGrantChallenge_ok:
  assumes ok: "grants_ok sha256_hex sdk db" and c: "ConsumeGrantChallenge pf now org hash address signedXDR signedBy db = (r, db')"
    and ev: "\<And>g. g \<in> set (grant_rows db) \<Longrightarrow> cg_org g = org \<Longrightarrow> cg_challenge g = hash \<Longrightarrow>
      map_option (filter carries) (Operations sdk signedXDR) = Some [ManageData (server_account sdk) StatementKey (cg_digest g)]"
  shows "grants_ok sha256_hex sdk db'"
  using c
proof (cases rule: ConsumeGrantChallenge_cases)
  case (granted g ch people1)
  let ?cs = "challenge_rows people1" and ?gs = "revoke_in_force now None org (cg_connector g) (grant_rows db)"
  let ?k = "\<lambda>h. if cg_org h = org \<and> cg_challenge h = hash then granted_row now signedXDR signedBy h else h"
  have g: "g \<in> set (grant_rows db)" "cg_org g = org" "cg_challenge g = hash" "waiting g" using granted(5) by (auto dest: find_in_set)
  have u: "\<forall>d. (live now org hash d \<and> ch_address d = address \<and> ch_purpose d = PurposeGrantConnector) \<longrightarrow> ch_consumed d = None" by (simp add: live_def)
  have "grant_rows_ok sha256_hex sdk ?cs (grant_rows db)"
    by (rule grant_rows_ok_mono [OF ok [unfolded grants_ok_def]]) (rule claim_keeps_spent [OF granted(4) u])
  from grant_rows_ok_shrink [OF this withdrawn_revoke, of "\<lambda>_. True"] have gs: "grant_rows_ok sha256_hex sdk ?cs ?gs"
    unfolding revoke_in_force_def by simp
  have "ch\<lparr>ch_consumed := Some now\<rparr> \<in> set ?cs"
    unfolding claimD(5) [OF granted(4)] set_map using claimD(1,2) [OF granted(4)] by (intro image_eqI [of _ _ ch]) simp_all
  then have spent: "\<exists>d \<in> set ?cs. ch_consumed d \<noteq> None \<and> ch_purpose d = PurposeGrantConnector \<and> ch_hash d = hash \<and> ch_org d = org"
    using claimD(2) [OF granted(4)] by (intro bexI [of _ "ch\<lparr>ch_consumed := Some now\<rparr>"]) (simp_all add: live_def)
  have gg: "g \<in> set ?gs" unfolding revoke_in_force_def set_map using g by (intro image_eqI [of _ _ g]) (auto simp: waiting_def in_force_def)
  have dgs: "distinct (map cg_challenge ?gs)" using gs unfolding grant_rows_ok_def by blast
  have hit: "h = g" if "h \<in> set ?gs" "cg_challenge h = hash" for h
    by (rule grant_by_challenge [OF dgs that(1) gg]) (simp add: that(2) g(3))
  have "grant_row_ok sha256_hex sdk ?cs (granted_row now signedXDR signedBy g)"
    using gs gg g granted(3) ev [OF g(1-3)] spent
    by (auto simp: grant_rows_ok_def grant_row_ok_def stated_def evidenced_def granted_row_def)
  then have rows: "\<forall>h \<in> set (map ?k ?gs). grant_row_ok sha256_hex sdk ?cs h" using gs hit by (auto simp: grant_rows_ok_def)
  have "map cg_challenge (map ?k ?gs) = map cg_challenge ?gs" by (simp add: granted_row_def)
  then have dist: "distinct (map cg_challenge (map ?k ?gs))" using gs by (metis grant_rows_ok_def)
  have conn: "cg_connector (?k g) = cg_connector g" by (simp add: granted_row_def)
  have uniq: "x = y" if "x \<in> set ?gs" "y \<in> set ?gs" "in_force x" "in_force y" "cg_connector x = cg_connector y" for x y
    using gs that unfolding grant_rows_ok_def by blast
  have other: "cg_connector (?k h) \<noteq> cg_connector g" if "h \<in> set ?gs" "in_force (?k h)" "cg_challenge h \<noteq> hash" for h
  proof -
    have "?k h = h" using that(3) by simp
    then have "in_force h" "cg_connector (?k h) = cg_connector h" using that(2) by simp_all
    then show ?thesis using granted(6) that(1,3) unfolding list_ex_iff by metis
  qed
  have same: "?k x = ?k y" if "x \<in> set ?gs" "y \<in> set ?gs" "in_force (?k x)" "in_force (?k y)" "cg_connector (?k x) = cg_connector (?k y)" for x y
  proof (cases "cg_challenge x = hash")
    case True
    then have x: "x = g" by (rule hit [OF that(1)])
    have "cg_connector (?k y) = cg_connector g" by (rule that(5) [unfolded x conn, symmetric])
    then have "cg_challenge y = hash" using other [OF that(2,4)] by blast
    then show ?thesis using hit [OF that(1) True] hit [OF that(2)] by simp
  next
    case False
    have "cg_challenge y \<noteq> hash"
    proof
      assume "cg_challenge y = hash"
      then have y: "y = g" by (rule hit [OF that(2)])
      have "cg_connector (?k x) = cg_connector g" by (rule that(5) [unfolded y conn])
      then show False using other [OF that(1,3) False] by blast
    qed
    then have k: "?k x = x" "?k y = y" using False by simp_all
    show ?thesis unfolding k by (rule uniq [OF that(1,2)]) (use that(3-5) k in simp_all)
  qed
  have "grant_rows_ok sha256_hex sdk ?cs (map ?k ?gs)" by (rule grant_rows_ok_map [OF rows dist same])
  then show ?thesis by (simp add: grants_ok_def granted(7))
qed (use ok in simp)

text \<open>What a submission that changes the grants went through.\<close>

lemma SubmitGrant_cases:
  assumes "SubmitGrant w sha256_hex scope hash signedXDR st = (r, st')"
  obtains (kept) "gs_db st' = gs_db st"
  | (consumed) sdk c request row t b org1 a found st1 r1 where "lw_sdk (gw_link w) = Some sdk"
      "live_challenge (gw_link w) scope hash (g_links (gs_db st)) = Inr c" "ch_purpose c = PurposeGrantConnector"
      "GrantRequest_of (gs_db st) (sp_org scope) hash = Inr request"
      "ConnectorByID (gs_db st) (sp_org scope) (cg_connector request) = Inr row" "Treasury_of (g_links (gs_db st)) (sp_org scope) (cg_treasury request) = Inr t"
      "t_address t = ch_address c" "reader w row st = (Inr b, st1)" "gw_org w (sp_org scope) = Some org1"
      "cg_statement request = grantStatement sha256_hex org1 t row (named_descriptor (cn_name row) b) (cg_per_hour request)"
      "SignerSetOf sdk (lw_load (gw_link w)) (ch_address c) = Inr a" "Summary a (ch_address c) \<noteq> []"
      "VerifyStatement sdk signedXDR (ucast (Medium a)) (Summary a (ch_address c)) (cg_digest request) = Inr found"
      "ConsumeGrantChallenge (gw_pf w) (gw_now w) (sp_org scope) hash (ch_address c) signedXDR (sort_strings found) (gs_db st) = (r1, gs_db st')"
proof (cases "gs_db st' = gs_db st")
  case False
  obtain sdk where o: "grant_opened w scope = Inr sdk" and n: "signedXDR \<noteq> []"
    using assms False by (auto simp: SubmitGrant_def split: sum.splits if_splits)
  obtain c where c: "live_challenge (gw_link w) scope hash (g_links (gs_db st)) = Inr c" "ch_purpose c = PurposeGrantConnector"
    using assms False o n by (auto simp: SubmitGrant_def split: sum.splits if_splits)
  obtain request where q: "GrantRequest_of (gs_db st) (sp_org scope) hash = Inr request"
    using assms False o n c by (auto simp: SubmitGrant_def split: sum.splits)
  obtain x st1 where s: "still_describes w sha256_hex scope c request st = (x, st1)" by fastforce
  have db: "gs_db st1 = gs_db st" using s
    by (auto simp: still_describes_def split: sum.splits if_splits prod.splits option.splits dest: reader_db)
  obtain row t where x: "x = Inr (row, t)" using assms False o n c q s db by (auto simp: SubmitGrant_def split: sum.splits)
  obtain a found where v: "verify_signers w sdk c signedXDR (cg_digest request) = Inr (a, found)"
    using assms False o n c q s db x by (auto simp: SubmitGrant_def split: sum.splits)
  obtain r1 where g: "ConsumeGrantChallenge (gw_pf w) (gw_now w) (sp_org scope) hash (ch_address c) signedXDR found (gs_db st) = (r1, gs_db st')"
    using assms o n c q s x v db by (auto simp: SubmitGrant_def split: sum.splits prod.splits)
  obtain found1 where f: "SignerSetOf sdk (lw_load (gw_link w)) (ch_address c) = Inr a" "Summary a (ch_address c) \<noteq> []"
      "VerifyStatement sdk signedXDR (ucast (Medium a)) (Summary a (ch_address c)) (cg_digest request) = Inr found1" "found = sort_strings found1"
    using v by (auto simp: verify_signers_def split: sum.splits if_splits)
  obtain b org1 where d: "ConnectorByID (gs_db st) (sp_org scope) (cg_connector request) = Inr row" "Treasury_of (g_links (gs_db st)) (sp_org scope) (cg_treasury request) = Inr t"
      "t_address t = ch_address c" "reader w row st = (Inr b, st1)" "gw_org w (sp_org scope) = Some org1"
      "cg_statement request = grantStatement sha256_hex org1 t row (named_descriptor (cn_name row) b) (cg_per_hour request)"
    using s x by (auto simp: still_describes_def split: sum.splits if_splits prod.splits option.splits)
  have "lw_sdk (gw_link w) = Some sdk" using o by (auto simp: grant_opened_def split: option.splits if_splits)
  then show thesis using consumed [OF _ c q d f(1-3)] g f(4) by blast
qed (rule kept)

text \<open>Live connectors of a workspace have different names.\<close>

definition live_named :: "OrgID \<Rightarrow> string \<Rightarrow> connector_row \<Rightarrow> bool" where
  "live_named org name c \<longleftrightarrow> cn_org c = org \<and> cn_name c = name \<and> cn_removed_at c = None"

definition names_ok :: "connector_row list \<Rightarrow> bool" where
  "names_ok cs \<longleftrightarrow> (\<forall>c \<in> set cs. \<forall>d \<in> set cs. \<forall>org name. live_named org name c \<longrightarrow> live_named org name d \<longrightarrow> c = d)"

lemma names_ok_map:
  assumes "names_ok cs" "\<And>c org name. live_named org name (f c) \<Longrightarrow> live_named org name c"
  shows "names_ok (map f cs)"
  using assms unfolding names_ok_def by (metis (no_types, lifting) imageE list.set_map)

lemma names_ok_snoc: "names_ok cs \<Longrightarrow> \<not> list_ex (live_named (cn_org c) (cn_name c)) cs \<Longrightarrow> names_ok (cs @ [c])"
proof (unfold names_ok_def, intro ballI allI impI)
  fix x y org name
  assume ok: "\<forall>c \<in> set cs. \<forall>d \<in> set cs. \<forall>org name. live_named org name c \<longrightarrow> live_named org name d \<longrightarrow> c = d" and n: "\<not> list_ex (live_named (cn_org c) (cn_name c)) cs"
    and xy: "x \<in> set (cs @ [c])" "y \<in> set (cs @ [c])" "live_named org name x" "live_named org name y"
  have "\<not> live_named org name z" if "z \<in> set cs" "live_named org name c" for z
  proof -
    have "cn_org c = org" "cn_name c = name" using that(2) by (simp_all add: live_named_def)
    then show ?thesis using n that(1) by (simp add: list_ex_iff)
  qed
  then show "x = y" using xy ok by (cases "x = c"; cases "y = c") auto
qed

lemma RegisterConnector_names:
  assumes "RegisterConnector pf now org name kind ready by1 db = (r, db')" "names_ok (connector_rows db)"
  shows "names_ok (connector_rows db')"
proof -
  have e: "(\<lambda>d. cn_org d = org \<and> cn_name d = name \<and> cn_removed_at d = None) = live_named org name" by (simp add: live_named_def fun_eq_iff)
  consider "connector_rows db' = connector_rows db"
    | c where "connector_rows db' = connector_rows db @ [c]" "cn_org c = org" "cn_name c = name" "\<not> list_ex (live_named org name) (connector_rows db)"
    using assms(1) unfolding RegisterConnector_def Let_def e by (auto split: if_splits option.splits)
  then show ?thesis using assms(2) by cases (auto intro: names_ok_snoc)
qed

lemma register_step:
  assumes "Service_RegisterConnector w scope by1 name kind st = (r, st')"
  shows "g_links (gs_db st') = g_links (gs_db st) \<and> grant_rows (gs_db st') = grant_rows (gs_db st)
    \<and> (names_ok (connector_rows (gs_db st)) \<longrightarrow> names_ok (connector_rows (gs_db st')))"
proof (cases "st' = st")
  case False
  then obtain ready where "with_db st (RegisterConnector (gw_pf w) (gw_now w) (sp_org scope) name kind ready by1 (gs_db st)) = (r, st')"
    using assms by (auto simp: Service_RegisterConnector_def split: option.splits if_splits)
  then obtain db1 where "RegisterConnector (gw_pf w) (gw_now w) (sp_org scope) name kind ready by1 (gs_db st) = (r, db1)" "gs_db st' = db1"
    by (cases "RegisterConnector (gw_pf w) (gw_now w) (sp_org scope) name kind ready by1 (gs_db st)") (auto simp: with_db_def)
  then show ?thesis using RegisterConnector_keeps RegisterConnector_names by blast
qed simp

lemma CompleteConnectorSetup_names:
  assumes "CompleteConnectorSetup pf now org i p db = (r, db')" "names_ok (connector_rows db)"
  shows "names_ok (connector_rows db')"
proof (cases "connector_rows db' = connector_rows db")
  case False
  let ?f = "\<lambda>c. if same_connector org i c \<and> cn_kind c \<noteq> ''sheets''
     then c\<lparr>cn_sealed_endpoint := cp_sealed_endpoint p, cn_host := cp_host p, cn_endpoint_digest := cp_endpoint_digest p,
       cn_sealed_credential := cp_sealed_credential p, cn_tools := cp_tools p, cn_tool_digest := cp_tool_digest p, cn_ready_at := Some now\<rparr> else c"
  have "connector_rows db' = map ?f (connector_rows db)"
    using assms(1) False unfolding CompleteConnectorSetup_def by (auto split: if_splits option.splits db_error.splits)
  moreover have "names_ok (map ?f (connector_rows db))" by (rule names_ok_map [OF assms(2)]) (auto simp: live_named_def split: if_splits)
  ultimately show ?thesis by simp
qed (use assms(2) in simp)

lemma RemoveConnector_keeps:
  assumes "RemoveConnector pf now org name by1 db = (e, db')"
  shows "g_links db' = g_links db \<and> (names_ok (connector_rows db) \<longrightarrow> names_ok (connector_rows db'))
    \<and> (grant_rows db' = grant_rows db \<or> (\<exists>i. grant_rows db' = revoke_in_force now (Some by1) org i (grant_rows db)))"
proof (cases "db' = db")
  case False
  let ?f = "\<lambda>d. if cn_org d = org \<and> cn_name d = name \<and> cn_removed_at d = None then d\<lparr>cn_removed_at := Some now\<rparr> else d"
  obtain i where "db' = db\<lparr>connector_rows := map ?f (connector_rows db), grant_rows := revoke_in_force now (Some by1) org i (grant_rows db)\<rparr>"
    using assms False by (auto simp: RemoveConnector_def split: if_splits option.splits)
  moreover have "names_ok (connector_rows db) \<Longrightarrow> names_ok (map ?f (connector_rows db))"
    by (rule names_ok_map) (auto simp: live_named_def split: if_splits)
  ultimately show ?thesis by auto
qed simp

lemma RevokeGrant_keeps:
  assumes "RevokeGrant pf now org name by1 db = (e, db')"
  shows "g_links db' = g_links db \<and> connector_rows db' = connector_rows db
    \<and> (\<exists>P. grant_rows db' = map (\<lambda>g. if P g then g\<lparr>cg_revoked_at := Some now, cg_revoked_by := Some by1\<rparr> else g) (grant_rows db))"
proof (cases "db' = db")
  case True
  then show ?thesis by (auto intro: exI [of _ "\<lambda>_. False"])
next
  case False
  let ?hit = "\<lambda>g. cg_org g = org \<and> in_force g
     \<and> list_ex (\<lambda>c. cn_id c = cg_connector g \<and> cn_org c = cg_org g \<and> cn_name c = name \<and> cn_removed_at c = None) (connector_rows db)"
  have "db' = db\<lparr>grant_rows := map (\<lambda>g. if ?hit g then g\<lparr>cg_revoked_at := Some now, cg_revoked_by := Some by1\<rparr> else g) (grant_rows db)\<rparr>"
    using assms False unfolding RevokeGrant_def Let_def by (auto split: if_splits)
  then show ?thesis by (intro conjI exI [of _ ?hit]) simp_all
qed

definition grant_ok :: "(string \<Rightarrow> string) \<Rightarrow> challenge_sdk \<Rightarrow> grant_db \<Rightarrow> bool" where
  "grant_ok sha256_hex sdk db \<longleftrightarrow> grants_ok sha256_hex sdk db \<and> names_ok (connector_rows db)"

lemma grants_ok_withdraw:
  assumes "grants_ok sha256_hex sdk db" "g_links db' = g_links db" "withdrawn f" "grant_rows db' = filter P (map f (grant_rows db))"
  shows "grants_ok sha256_hex sdk db'"
  using grant_rows_ok_shrink [OF _ assms(3)] assms unfolding grants_ok_def by metis

lemma grants_ok_revoke:
  assumes "grants_ok sha256_hex sdk db" "g_links db' = g_links db" "grant_rows db' = revoke_in_force now b org i (grant_rows db)"
  shows "grants_ok sha256_hex sdk db'"
proof -
  have "grant_rows db' = filter (\<lambda>_. True) (map (\<lambda>g. if cg_org g = org \<and> cg_connector g = i \<and> in_force g
      then g\<lparr>cg_revoked_at := Some now, cg_revoked_by := b\<rparr> else g) (grant_rows db))" by (simp add: assms(3) revoke_in_force_def)
  then show ?thesis by (rule grants_ok_withdraw [OF assms(1,2) withdrawn_revoke])
qed

lemma grants_ok_same: "grants_ok sha256_hex sdk db \<Longrightarrow> g_links db' = g_links db \<Longrightarrow> grant_rows db' = grant_rows db \<Longrightarrow> grants_ok sha256_hex sdk db'"
  by (simp add: grants_ok_def)

lemma submit_step_ok:
  assumes ok: "grants_ok sha256_hex sdk (gs_db st)" and s: "SubmitGrant w sha256_hex scope hash signedXDR st = (r, st')"
    and k: "lw_sdk (gw_link w) \<in> {None, Some sdk}"
  shows "grants_ok sha256_hex sdk (gs_db st')"
  using s
proof (cases rule: SubmitGrant_cases)
  case (consumed sdk1 c request row t b org1 a found st1 r1)
  have sdk: "sdk1 = sdk" using consumed(1) k by auto
  have req: "request \<in> set (grant_rows (gs_db st))" "cg_challenge request = hash"
    using consumed(4) by (auto simp: GrantRequest_of_def dest: find_in_set split: option.splits)
  show ?thesis
  proof (rule ConsumeGrantChallenge_ok [OF ok consumed(14)])
    fix g assume g: "g \<in> set (grant_rows (gs_db st))" "cg_challenge g = hash"
    have "distinct (map cg_challenge (grant_rows (gs_db st)))" using ok by (simp add: grants_ok_def grant_rows_ok_def)
    then have "g = request" using grant_by_challenge g req by metis
    then show "map_option (filter carries) (Operations sdk signedXDR) = Some [ManageData (server_account sdk) StatementKey (cg_digest g)]"
      using consumed(13) unfolding VerifyStatement_exact sdk by simp
  qed
qed (use ok in simp)

lemma names_unchanged:
  "PrepareGrant w sha256_hex scope identity by1 name i rate st = (r, st') \<Longrightarrow> connector_rows (gs_db st') = connector_rows (gs_db st)"
  "SubmitGrant w sha256_hex scope hash signedXDR st = (r1, st') \<Longrightarrow> connector_rows (gs_db st') = connector_rows (gs_db st)"
proof -
  have rq: "connector_rows db' = connector_rows db" if "RequestGrant pf p db = (e, db')" for pf p db e db'
    using that by (auto simp: RequestGrant_def Let_def split: if_splits option.splits)
  assume "PrepareGrant w sha256_hex scope identity by1 name i rate st = (r, st')"
  then show "connector_rows (gs_db st') = connector_rows (gs_db st)"
    by (auto simp: PrepareGrant_def ask_signers_def Let_def dest!: reader_db rq split: sum.splits if_splits prod.splits option.splits)
next
  assume "SubmitGrant w sha256_hex scope hash signedXDR st = (r1, st')"
  then show "connector_rows (gs_db st') = connector_rows (gs_db st)"
  proof (cases rule: SubmitGrant_cases)
    case (consumed sdk1 c request row t b org1 a found st1 r1)
    from consumed(14) show ?thesis by (cases rule: ConsumeGrantChallenge_cases) simp_all
  qed simp
qed

lemma ReadConnector_db: "ReadConnector w sha256_hex scope name selector st lim = (r, st', lim') \<Longrightarrow> gs_db st' = gs_db st"
  by (auto simp: ReadConnector_def dest: reader_db split: option.splits if_splits sum.splits prod.splits)

lemma grant_step_ok:
  assumes "grant_step sha256_hex sdk pf st st'" "grant_ok sha256_hex sdk (gs_db st)"
  shows "grant_ok sha256_hex sdk (gs_db st')"
  using assms(1)
proof cases
  case (gr_links l)
  have "grant_rows_ok sha256_hex sdk (challenge_rows (people l)) (grant_rows (gs_db st))"
    by (rule grant_rows_ok_mono [OF _ link_step_keeps_spent [OF gr_links(2)]]) (use assms(2) in \<open>simp_all add: grant_ok_def grants_ok_def\<close>)
  then show ?thesis using assms(2) gr_links(1) by (simp add: grant_ok_def grants_ok_def)
next
  case (gr_register w scope by1 name kind r)
  then show ?thesis using register_step [OF gr_register] assms(2) grants_ok_same unfolding grant_ok_def by blast
next
  case (gr_setup w scope i endpoint credential r)
  from gr_setup show ?thesis
  proof (cases rule: setup_step)
    case (completed p e db1)
    have "grants_ok sha256_hex sdk db1"
      using CompleteConnectorSetup_keeps [OF completed(1)]
    proof (elim conjE disjE)
      assume l: "g_links db1 = g_links (gs_db st)"
        and "grant_rows db1 = drop_requests (sp_org scope) i (revoke_in_force (gw_now w) None (sp_org scope) i (grant_rows (gs_db st)))"
      then have "grants_ok sha256_hex sdk (db1\<lparr>grant_rows := revoke_in_force (gw_now w) None (sp_org scope) i (grant_rows (gs_db st))\<rparr>)"
          "grant_rows db1 = filter (\<lambda>g. \<not> (cg_org g = sp_org scope \<and> cg_connector g = i \<and> cg_granted_at g = None))
             (map id (revoke_in_force (gw_now w) None (sp_org scope) i (grant_rows (gs_db st))))"
        using assms(2) by (auto simp: grant_ok_def drop_requests_def intro: grants_ok_revoke)
      then show ?thesis by (intro grants_ok_withdraw [of _ _ "db1\<lparr>grant_rows := revoke_in_force (gw_now w) None (sp_org scope) i (grant_rows (gs_db st))\<rparr>" db1 id])
         (simp_all add: withdrawn_def)
    qed (use assms(2) in \<open>auto simp: grant_ok_def intro: grants_ok_same\<close>)
    then show ?thesis using CompleteConnectorSetup_names [OF completed(1)] assms(2) by (simp add: grant_ok_def completed(2))
  qed (use assms(2) in simp)
next
  case (gr_remove now org name by1 e db')
  have "grants_ok sha256_hex sdk db'"
    using RemoveConnector_keeps [OF gr_remove(2)] assms(2) grants_ok_same grants_ok_revoke unfolding grant_ok_def by metis
  then show ?thesis using RemoveConnector_keeps [OF gr_remove(2)] assms(2) gr_remove(1) by (simp add: grant_ok_def)
next
  case (gr_revoke now org name by1 e db')
  obtain P where p: "grant_rows db' = filter (\<lambda>_. True) (map (\<lambda>g. if P g then g\<lparr>cg_revoked_at := Some now, cg_revoked_by := Some by1\<rparr> else g) (grant_rows (gs_db st)))"
      "g_links db' = g_links (gs_db st)"
    using RevokeGrant_keeps [OF gr_revoke(2)] by auto
  have "grants_ok sha256_hex sdk (gs_db st)" using assms(2) by (simp add: grant_ok_def)
  then have "grants_ok sha256_hex sdk db'" by (rule grants_ok_withdraw [OF _ p(2) withdrawn_revoke p(1)])
  then show ?thesis using RevokeGrant_keeps [OF gr_revoke(2)] assms(2) gr_revoke(1) by (simp add: grant_ok_def)
next
  case (gr_prepare w scope identity by1 name i rate r)
  then show ?thesis using prepare_step_ok [OF _ gr_prepare] names_unchanged(1) [OF gr_prepare] assms(2) by (simp add: grant_ok_def)
next
  case (gr_submit w scope hash signedXDR r)
  then show ?thesis using submit_step_ok [OF _ gr_submit(2,1)] names_unchanged(2) [OF gr_submit(2)] assms(2) by (simp add: grant_ok_def)
next
  case (gr_read w scope name selector lim r lim')
  then show ?thesis using ReadConnector_db [OF gr_read] assms(2) by simp
qed

lemma grant_init_ok: "grant_ok sha256_hex sdk (gs_db grant_init)"
  by (simp add: grant_ok_def grant_init_def grants_ok_def grant_rows_ok_def names_ok_def)

lemma grant_steps_ok: "(grant_step sha256_hex sdk pf)\<^sup>*\<^sup>* st st' \<Longrightarrow> grant_ok sha256_hex sdk (gs_db st) \<Longrightarrow> grant_ok sha256_hex sdk (gs_db st')"
  by (induction rule: rtranclp_induct) (auto intro: grant_step_ok)

section \<open>Properties\<close>

lemma ConsumeGrantChallenge_new:
  assumes ok: "grants_ok sha256_hex sdk db" and c: "ConsumeGrantChallenge pf now org hash address signedXDR signedBy db = (r, db')"
    and g: "g \<in> set (grant_rows db')" "in_force g" "g \<notin> set (grant_rows db)" and q: "request \<in> set (grant_rows db)" "cg_challenge request = hash"
  shows "g = granted_row now signedXDR signedBy request"
  using c
proof (cases rule: ConsumeGrantChallenge_cases)
  case (granted g1 ch people1)
  let ?gs = "revoke_in_force now None org (cg_connector g1) (grant_rows db)"
  obtain h where h: "h \<in> set ?gs" "g = (if cg_org h = org \<and> cg_challenge h = hash then granted_row now signedXDR signedBy h else h)"
    using g(1) granted(7) by auto
  obtain h0 where h0: "h0 \<in> set (grant_rows db)" "h = h0 \<or> \<not> in_force h \<and> cg_challenge h = cg_challenge h0"
    "h \<noteq> h0 \<longrightarrow> in_force h0"
    using h(1) by (auto simp: revoke_in_force_def in_force_def split: if_splits)
  have d: "distinct (map cg_challenge (grant_rows db))" using ok by (simp add: grants_ok_def grant_rows_ok_def)
  have g1: "g1 \<in> set (grant_rows db)" "cg_challenge g1 = hash" "waiting g1" using granted(5) by (auto dest: find_in_set)
  have hash: "cg_challenge h = hash" using h(2) h0 g(2,3) by (auto split: if_splits)
  then have "h0 = g1" using grant_by_challenge [OF d h0(1) g1(1)] h0(2) g1(2) by auto
  moreover have "h = h0" using h0(3) g1(3) calculation by (auto simp: waiting_def in_force_def)
  moreover have "g1 = request" using grant_by_challenge [OF d g1(1) q(1)] g1(2) q(2) by simp
  ultimately show ?thesis using h(2) hash g(2,3) q(1) by (auto split: if_splits)
qed (use g in simp)

text \<open>
  C10: a connector's grant comes into force by its treasury's signers, on what they read.  In any run, a grant that a submission puts in force
  waited on a challenge that was live, was issued for that purpose and names the address of the grant's own treasury; the signers the network
  reports for that address at the moment reach its medium threshold on the envelope handed in, and are the ones recorded; the envelope carries
  exactly one statement, the server's, and it is the digest of the grant's statement; that statement is word for word the one the connector, the
  treasury and the workspace give as they stand at the moment, and it was built from the very capabilities, surface and rate the grant records;
  and every other grant of the connector is out of force.
\<close>

theorem SubmitGrant_signed:
  assumes "(grant_step sha256_hex sdk pf)\<^sup>*\<^sup>* grant_init st" "lw_sdk (gw_link w) \<in> {None, Some sdk}"
    and "SubmitGrant (w :: unit grant_world) sha256_hex scope hash signedXDR st = (r, st')"
    and "g \<in> set (grant_rows (gs_db st'))" "in_force g" "g \<notin> set (grant_rows (gs_db st))"
  shows "(\<exists>c row t b org1 a found st1. c \<in> set (challenge_rows (people (g_links (gs_db st)))) \<and> live (gw_now w) (sp_org scope) hash c
      \<and> ch_purpose c = PurposeGrantConnector \<and> cg_challenge g = hash \<and> t \<in> set (treasury_rows (g_links (gs_db st))) \<and> t_id t = cg_treasury g
      \<and> t_org t = sp_org scope \<and> t_address t = ch_address c \<and> SignerSetOf sdk (lw_load (gw_link w)) (t_address t) = Inr a
      \<and> VerifyChallengeTxThreshold sdk signedXDR (ucast (Medium a)) (Summary a (t_address t)) = Some found \<and> cg_signed_by g = sort_strings found
      \<and> map_option (filter carries) (Operations sdk signedXDR) = Some [ManageData (server_account sdk) StatementKey (sha256_hex (cg_statement g))]
      \<and> row \<in> set (connector_rows (gs_db st)) \<and> cn_id row = cg_connector g \<and> cn_removed_at row = None \<and> reader w row st = (Inr b, st1)
      \<and> cg_statement g = grantStatement sha256_hex org1 t row (named_descriptor (cn_name row) b) (cg_per_hour g))
    \<and> stated sha256_hex g \<and> (\<forall>h \<in> set (grant_rows (gs_db st')). in_force h \<longrightarrow> cg_connector h = cg_connector g \<longrightarrow> h = g)"
proof -
  have ok: "grants_ok sha256_hex sdk (gs_db st)" using grant_steps_ok [OF assms(1) grant_init_ok] by (simp add: grant_ok_def)
  have ok': "grants_ok sha256_hex sdk (gs_db st')" by (rule submit_step_ok [OF ok assms(3,2)])
  then have one: "\<forall>h \<in> set (grant_rows (gs_db st')). in_force h \<longrightarrow> cg_connector h = cg_connector g \<longrightarrow> h = g" and s: "stated sha256_hex g"
    using assms(4,5) unfolding grants_ok_def grant_rows_ok_def grant_row_ok_def by blast+
  from assms(3) show ?thesis
  proof (cases rule: SubmitGrant_cases)
    case (consumed sdk1 c request row t b org1 a found st1 r1)
    have sdk: "sdk1 = sdk" using consumed(1) assms(2) by auto
    have req: "request \<in> set (grant_rows (gs_db st))" "cg_challenge request = hash"
      using consumed(4) by (auto simp: GrantRequest_of_def dest: find_in_set split: option.splits)
    have g: "g = granted_row (gw_now w) signedXDR (sort_strings found) request"
      by (rule ConsumeGrantChallenge_new [OF ok consumed(14) assms(4,5,6) req])
    have f: "cg_challenge g = hash" "cg_treasury g = cg_treasury request" "cg_signed_by g = sort_strings found" "cg_statement g = cg_statement request"
      "cg_connector g = cg_connector request" "cg_per_hour g = cg_per_hour request" "cg_digest g = cg_digest request"
      unfolding g using req(2) by (simp_all add: granted_row_def)
    have v: "VerifyChallengeTxThreshold sdk signedXDR (ucast (Medium a)) (Summary a (ch_address c)) = Some found"
      "map_option (filter carries) (Operations sdk signedXDR) = Some [ManageData (server_account sdk) StatementKey (sha256_hex (cg_statement g))]"
      using consumed(13) s f(7) unfolding VerifyStatement_exact sdk stated_def by simp_all
    note l = live_challengeD [OF consumed(2)] and r = ConnectorByID_row [OF consumed(5)] and t = Treasury_of_row [OF consumed(6)]
    show ?thesis
      by (intro conjI exI [of _ c] exI [of _ row] exI [of _ t] exI [of _ b] exI [of _ org1] exI [of _ a] exI [of _ found] exI [of _ st1] one s)
         (use l r t v consumed(3,7,8,10,11) f in \<open>simp_all add: gw_now_def sdk\<close>)
  qed (use assms(4,6) in simp)
qed

lemma GrantInForce_row:
  assumes "GrantInForce pf db org name = Inr g"
  obtains c where "g \<in> set (grant_rows db)" "cg_org g = org" "in_force g" "c \<in> set (connector_rows db)" "cn_id c = cg_connector g" "live_named org name c"
  using assms by (auto simp: GrantInForce_def list_ex_iff live_named_def dest!: find_in_set split: if_splits option.splits)

lemma ReadConnector_guarded:
  assumes "ReadConnector w sha256_hex scope name selector st lim = (Inr (seen, row), st', lim')"
  obtains b capability where "ConnectorByName (gw_pf w) (gs_db st) (sp_org scope) name = Inr row" "reader w row st = (Inr b, st')"
    "capabilityFor w row selector = Inr capability"
    "Guard_Read (guard_of w sha256_hex (gs_db st)) (gw_now w) (sp_org scope) (as_connector w (named_descriptor (cn_name row) b) b) capability
       \<lparr>Selector = selector, Limit = 0\<rparr> lim = (Inr (Some seen), lim')"
  using assms by (auto simp: ReadConnector_def dest: reader_db split: option.splits if_splits sum.splits prod.splits)

text \<open>
  C11: a connector is read only as its treasury's signers agreed.  In any run, a read that returns rows is of a live connector of that name in
  that workspace, and under a grant of that very connector, in force at the moment: the capability the read needs is named in it, the surface
  it pins is the digest of what the connector that was read says of itself under its name, the limiter counted the call at its rate, and
  no more rows were asked for than a connector may return; the grant's statement was built from those capabilities, that surface and that rate, and the
  envelope kept with the grant carries the statement's digest, once, for a challenge that was spent.
\<close>

theorem ReadConnector_granted:
  assumes "(grant_step sha256_hex sdk pf)\<^sup>*\<^sup>* grant_init st"
    and "ReadConnector w sha256_hex scope name selector st lim = (Inr (seen, row), st', lim')"
  shows "\<exists>g b capability. row \<in> set (connector_rows (gs_db st)) \<and> live_named (sp_org scope) name row
    \<and> g \<in> set (grant_rows (gs_db st)) \<and> in_force g \<and> cg_org g = sp_org scope \<and> cg_connector g = cn_id row
    \<and> reader w row st = (Inr b, st') \<and> capabilityFor w row selector = Inr capability \<and> capability \<in> set (cg_capabilities g)
    \<and> cg_surface g = SurfaceDigest sha256_hex (named_descriptor name b) \<and> gw_allow w lim (sp_org scope) name (cg_per_hour g) (gw_now w) = (Some True, lim')
    \<and> gw_read w b \<lparr>Selector = selector, Limit = MaxRows\<rparr> = Some seen
    \<and> stated sha256_hex g \<and> evidenced sdk (challenge_rows (people (g_links (gs_db st)))) g"
proof -
  have ok: "grants_ok sha256_hex sdk (gs_db st)" "names_ok (connector_rows (gs_db st))"
    using grant_steps_ok [OF assms(1) grant_init_ok] by (simp_all add: grant_ok_def)
  from assms(2) obtain b capability where r: "ConnectorByName (gw_pf w) (gs_db st) (sp_org scope) name = Inr row" "reader w row st = (Inr b, st')"
    "capabilityFor w row selector = Inr capability"
    "Guard_Read (guard_of w sha256_hex (gs_db st)) (gw_now w) (sp_org scope) (as_connector w (named_descriptor (cn_name row) b) b) capability
       \<lparr>Selector = selector, Limit = 0\<rparr> lim = (Inr (Some seen), lim')"
    by (rule ReadConnector_guarded)
  have row: "row \<in> set (connector_rows (gs_db st))" "live_named (sp_org scope) name row" "cn_name row = name"
    using ConnectorByName_row [OF r(1)] by (simp_all add: live_named_def)
  let ?d = "named_descriptor name b"
  have read: "gw_read w b \<lparr>Selector = selector, Limit = MaxRows\<rparr> = Some seen"
    and auth: "authorise (guard_of w sha256_hex (gs_db st)) (gw_now w) (sp_org scope) ?d capability lim = (None, lim')"
    using r(4) by (auto simp: Guard_Read_def as_connector_def bound_request_def row(3) split: prod.splits option.splits)
  have id: "d_ID ?d = name" by (simp add: named_descriptor_def)
  from auth obtain grant where grant: "grants_GrantFor (gw_pf w) (gs_db st) (sp_org scope) name = Inr grant"
      "SurfaceDigest sha256_hex ?d = g_SurfaceDigest grant" "covers (g_Capabilities grant) capability"
      "gw_allow w lim (sp_org scope) name (g_PerHour grant) (gw_now w) = (Some True, lim')"
    unfolding authorise_None by (auto simp: guard_of_def id)
  obtain g where g: "GrantInForce (gw_pf w) (gs_db st) (sp_org scope) name = Inr g"
      "grant = \<lparr>g_Capabilities = cg_capabilities g, g_SurfaceDigest = cg_surface g, g_PerHour = cg_per_hour g\<rparr>"
    using grant(1) by (auto simp: grants_GrantFor_def split: sum.splits)
  from g(1) obtain c where c: "g \<in> set (grant_rows (gs_db st))" "cg_org g = sp_org scope" "in_force g" "c \<in> set (connector_rows (gs_db st))"
    "cn_id c = cg_connector g" "live_named (sp_org scope) name c" by (rule GrantInForce_row)
  have "c = row" using ok(2) c(4,6) row(1,2) unfolding names_ok_def by blast
  moreover have "stated sha256_hex g" "evidenced sdk (challenge_rows (people (g_links (gs_db st)))) g"
    using ok(1) c(1,3) unfolding grants_ok_def grant_rows_ok_def grant_row_ok_def in_force_def by blast+
  moreover have "capability \<in> set (cg_capabilities g)" using grant(3) g(2) by (simp add: covers_iff)
  ultimately show ?thesis using r(2,3) row(1,2) c read grant(2,4) g(2)
    by (intro exI [of _ g] exI [of _ b] exI [of _ capability]) simp
qed

text \<open>
  A deployment may be given a service account and no connector key; its sealer is then nil.  A connector of another kind that was set up while there was a key is
  opened with it all the same, which is a nil dereference, and not the refusal that a missing service account is.
\<close>

lemma reader_without_key:
  assumes "gw_sealer w = None" "cn_ready_at row \<noteq> None" "gs_live st (cn_id row) = None"
  shows "cn_kind row \<in> {''mcp'', ''webhook''} \<Longrightarrow> reader w row st = (Inl NilPointer, st)"
    and "cn_kind row = ''sheets'' \<Longrightarrow> \<not> gw_sheets w \<Longrightarrow> reader w row st = (Inl ErrConnectorsUnavailable, st)"
  using assms by (auto simp: reader_def build_def build_remote_def open_sealed_def)

section \<open>A small history\<close>

text \<open>A spreadsheet, registered in the workspace whose treasury was proved, put to the treasury's one signer and granted.\<close>

abbreviation demo_sha :: "string \<Rightarrow> string" where "demo_sha \<equiv> \<lambda>_. replicate 64 (CHR ''a'')"

definition demo_statement_sdk :: challenge_sdk where
  "demo_statement_sdk = demo_challenges\<lparr>Operations := (\<lambda>_. Some [ManageData ''S'' StatementKey (replicate 64 (CHR ''a''))])\<rparr>"

definition demo_grant_world :: "unit grant_world" where
  "demo_grant_world = \<lparr>gw_link = demo_link_world\<lparr>lw_sdk := Some demo_statement_sdk\<rparr>, gw_on = True, gw_sheets = True, gw_aead = demo_aead, gw_sealer = None,
     gw_egress = None, gw_host = (\<lambda>_. None), gw_nonces = ([], []), gw_wire = demo_wire, gw_json = demo_codec, gw_server = demo_server,
     gw_read = (\<lambda>b r. Some \<lparr>ob_columns = [], ob_rows = [[''bob'', ''5'']], ob_truncated = False\<rparr>), gw_allow = (\<lambda>s org1 name n now. (Some True, s)),
     gw_org = (\<lambda>i. Some \<lparr>or_id = 1, or_name = ''dao'', or_network = ''testnet''\<rparr>),
     gw_statement = (\<lambda>a d. Some (replicate 64 (CHR ''b''), ''AAAA'', 100))\<rparr>"

definition demo_proved_treasury :: treasury_row where
  "demo_proved_treasury = \<lparr>t_id = 1, t_org = 1, t_kind = ''classic'', t_address = replicate 56 (CHR ''G''), t_label = [], t_low = 1, t_medium = 1, t_high = 1,
     t_contract = None, t_verified_by = Some 1, t_verified_at = 30, t_refreshed_at = 30\<rparr>"

definition demo_sheet :: connector_row where
  "demo_sheet = \<lparr>cn_id = 1, cn_org = 1, cn_name = ''pay'', cn_kind = ''sheets'', cn_sealed_endpoint = [], cn_host = [], cn_endpoint_digest = [],
     cn_sealed_credential = [], cn_tools = [], cn_tool_digest = [], cn_ready_at = Some 30, cn_created_by = 1, cn_removed_at = None\<rparr>"

definition demo_grant_links :: grant_state where
  "demo_grant_links = grant_init\<lparr>gs_db := (gs_db grant_init)\<lparr>g_links := demo_treasury_linked\<rparr>\<rparr>"

definition demo_registered :: grant_state where
  "demo_registered = snd (Service_RegisterConnector demo_grant_world demo_link_scope 1 ''pay'' ''sheets'' demo_grant_links)"

definition demo_prepared :: grant_state where
  "demo_prepared = snd (PrepareGrant demo_grant_world demo_sha demo_link_scope 1 1 ''pay'' 1 0 demo_registered)"

definition demo_given :: grant_state where
  "demo_given = snd (SubmitGrant demo_grant_world demo_sha demo_link_scope (replicate 64 (CHR ''b'')) ''AAAA'' demo_prepared)"

lemma demo_linked_rows: "people demo_treasury_linked = demo_admin\<lparr>challenge_rows := [demo_challenge\<lparr>ch_purpose := PurposeLinkTreasury, ch_consumed := Some 30\<rparr>]\<rparr>"
  "treasury_rows demo_treasury_linked = [demo_proved_treasury]"
  by (simp_all add: demo_treasury_linked_def demo_treasury_asked_eq link_eval demo_admin_eq demo_challenge_def demo_proved_treasury_def)

lemma demo_registered_eq: "demo_registered = demo_grant_links\<lparr>gs_db := (gs_db demo_grant_links)\<lparr>connector_seq := 1, connector_rows := [demo_sheet]\<rparr>\<rparr>"
  by (simp add: demo_registered_def Service_RegisterConnector_def demo_grant_world_def demo_link_scope_def demo_link_scope_ok name_ok_def is_digit_def with_db_def
      RegisterConnector_def gw_pf_def gw_now_def demo_link_world_def demo_pf_def demo_grant_links_def grant_init_def next_id_def Let_def connector_kinds_def
      demo_linked_rows demo_admin_eq find_member_def new_member_def demo_sheet_def)

definition demo_asked_grant :: connector_grant where
  "demo_asked_grant = \<lparr>cg_id = 1, cg_org = 1, cg_connector = 1, cg_treasury = 1, cg_capabilities = [''read.range''], cg_surface = replicate 64 (CHR ''a''),
     cg_per_hour = 60, cg_statement = grantStatement demo_sha \<lparr>or_id = 1, or_name = ''dao'', or_network = ''testnet''\<rparr> demo_proved_treasury demo_sheet
       (named_descriptor ''pay'' (BuiltSheets 1)) 60, cg_digest = replicate 64 (CHR ''a''), cg_challenge = replicate 64 (CHR ''b''), cg_signed_xdr = [],
     cg_signed_by = [], cg_requested_by = 1, cg_granted_at = None, cg_revoked_at = None, cg_revoked_by = None\<rparr>"

definition demo_grant_challenge :: Challenge where
  "demo_grant_challenge = \<lparr>ch_hash = replicate 64 (CHR ''b''), ch_org = 1, ch_identity = 1, ch_purpose = PurposeGrantConnector,
     ch_address = replicate 56 (CHR ''G''), ch_xdr = ''AAAA'', ch_expires = 100, ch_consumed = None\<rparr>"

lemma demo_reader_new:
  "reader demo_grant_world demo_sheet st = (Inr (BuiltSheets 1), st\<lparr>gs_live := (gs_live st)(1 \<mapsto> (BuiltSheets 1, stamp_of demo_sheet))\<rparr>)" if "gs_live st 1 = None"
  using that by (simp add: reader_def demo_sheet_def build_def demo_grant_world_def CheckKind_def as_connector_def is_reader_def is_proposer_def
      built_descriptor_def KindReader_def KindProposer_def)

lemma demo_reader_again:
  "reader demo_grant_world demo_sheet st = (Inr (BuiltSheets 1), st)" if "gs_live st 1 = Some (BuiltSheets 1, stamp_of demo_sheet)"
  using that by (simp add: reader_def demo_sheet_def)

lemma demo_hashes: "hash_ok (replicate 64 (CHR ''a''))" "hash_ok (replicate 64 (CHR ''b''))" "isDigest (replicate 64 (CHR ''a''))"
  by (simp_all add: hash_ok_def isDigest_def list_all_iff hex_char_def)

lemma demo_opened: "grant_opened demo_grant_world demo_link_scope = Inr demo_statement_sdk"
  by (simp add: grant_opened_def demo_link_scope_def demo_link_scope_ok demo_grant_world_def)

lemma demo_prepared_eq:
  "demo_prepared = \<lparr>gs_db = \<lparr>g_links = demo_treasury_linked\<lparr>people := (people demo_treasury_linked)\<lparr>challenge_rows :=
       challenge_rows (people demo_treasury_linked) @ [demo_grant_challenge]\<rparr>\<rparr>, connector_rows = [demo_sheet], grant_rows = [demo_asked_grant],
     connector_seq = 1, grant_seq = 1\<rparr>, gs_live = (\<lambda>_. None)(1 \<mapsto> (BuiltSheets 1, stamp_of demo_sheet))\<rparr>"
proof -
  let ?st1 = "demo_registered\<lparr>gs_live := (gs_live demo_registered)(1 \<mapsto> (BuiltSheets 1, stamp_of demo_sheet))\<rparr>"
  have r: "reader demo_grant_world demo_sheet demo_registered = (Inr (BuiltSheets 1), ?st1)"
    by (rule demo_reader_new) (simp add: demo_registered_eq demo_grant_links_def grant_init_def)
  have f: "ConnectorByName (gw_pf demo_grant_world) (gs_db demo_registered) (sp_org demo_link_scope) ''pay'' = Inr demo_sheet"
    by (simp add: ConnectorByName_def demo_registered_eq demo_link_scope_def gw_pf_def demo_grant_world_def demo_link_world_def demo_pf_def demo_sheet_def)
  have t: "Treasury_of demo_treasury_linked (sp_org demo_link_scope) 1 = Inr demo_proved_treasury"
    by (simp add: Treasury_of_def demo_linked_rows demo_link_scope_def demo_proved_treasury_def)
  have n: "cn_name demo_sheet = ''pay''" "t_kind demo_proved_treasury = ''classic''" "cn_id demo_sheet = 1" "t_id demo_proved_treasury = 1" "cn_org demo_sheet = 1"
    "t_address demo_proved_treasury = replicate 56 (CHR ''G'')" by (simp_all add: demo_sheet_def demo_proved_treasury_def)
  have d: "d_Capabilities (named_descriptor ''pay'' (BuiltSheets 1)) = [''read.range'']" by (simp add: named_descriptor_def built_descriptor_def)
  have s: "grantStatement demo_sha o1 t1 row1 d1 n1 \<noteq> []" for o1 t1 row1 d1 n1 by (simp add: grantStatement_def statement_lines_def)
  have o: "gw_org demo_grant_world i = Some \<lparr>or_id = 1, or_name = ''dao'', or_network = ''testnet''\<rparr>" for i by (simp add: demo_grant_world_def)
  have i: "issue (gw_link demo_grant_world) demo_link_scope 1 PurposeGrantConnector (replicate 56 (CHR ''G'')) (replicate 64 (CHR ''b''), ''AAAA'', 100) demo_treasury_linked =
      (Inr \<lparr>lc_address = replicate 56 (CHR ''G''), lc_xdr = ''AAAA'', lc_hash = replicate 64 (CHR ''b''), lc_purpose = PurposeGrantConnector\<rparr>,
       demo_treasury_linked\<lparr>people := (people demo_treasury_linked)\<lparr>challenge_rows := challenge_rows (people demo_treasury_linked) @ [demo_grant_challenge]\<rparr>\<rparr>)"
    by (simp add: issue_def SaveChallenge_def demo_linked_rows demo_admin_eq demo_challenge_def demo_pf_def challenge_checks_def demo_hashes demo_signer purposes_def
        demo_grant_world_def demo_link_world_def demo_link_scope_def demo_grant_challenge_def)
  have b: "BuildStatement demo_grant_world demo_statement_sdk a (replicate 64 (CHR ''a'')) = Inr (replicate 64 (CHR ''b''), ''AAAA'', 100)" for a
    by (simp add: BuildStatement_def demo_hashes demo_statement_sdk_def demo_challenges_def demo_grant_world_def)
  have links: "g_links (gs_db demo_registered) = demo_treasury_linked" by (simp add: demo_registered_eq demo_grant_links_def)
  show ?thesis
    unfolding demo_prepared_def PrepareGrant_def demo_opened f
    by (simp add: Let_def DefaultGrantRate_def f r o t n ask_signers_def b i links)
       (simp add: RequestGrant_def Let_def gw_pf_def demo_grant_world_def demo_link_world_def demo_pf_def demo_registered_eq demo_grant_links_def grant_init_def
          next_id_def grant_of_def grant_row_checks_def d s demo_hashes SurfaceDigest_def drop_requests_def n find_member_def demo_linked_rows demo_admin_eq new_member_def
          demo_link_scope_def demo_asked_grant_def)
qed

lemma demo_consumed:
  obtains db1 where "ConsumeGrantChallenge (gw_pf demo_grant_world) (gw_now demo_grant_world) (sp_org demo_link_scope) (replicate 64 (CHR ''b'')) (ch_address demo_grant_challenge) ''AAAA''
      [replicate 56 (CHR ''G'')] (gs_db demo_prepared) = (Inr (granted_row 30 ''AAAA'' [replicate 56 (CHR ''G'')] demo_asked_grant), db1)"
    "grant_rows db1 = [granted_row 30 ''AAAA'' [replicate 56 (CHR ''G'')] demo_asked_grant]" "connector_rows db1 = [demo_sheet]"
proof -
  let ?P = "\<lambda>c. live (gw_now demo_grant_world) (sp_org demo_link_scope) (replicate 64 (CHR ''b'')) c \<and> ch_address c = ch_address demo_grant_challenge
      \<and> ch_purpose c = PurposeGrantConnector"
  have cs: "challenge_rows (people (g_links (gs_db demo_prepared))) = [demo_challenge\<lparr>ch_purpose := PurposeLinkTreasury, ch_consumed := Some 30\<rparr>, demo_grant_challenge]"
    by (simp add: demo_prepared_eq demo_linked_rows)
  have "\<not> ?P (demo_challenge\<lparr>ch_purpose := PurposeLinkTreasury, ch_consumed := Some 30\<rparr>)" by (simp add: live_def demo_challenge_def)
  moreover have "?P demo_grant_challenge"
    by (simp add: live_def demo_grant_challenge_def gw_now_def demo_grant_world_def demo_link_world_def demo_link_scope_def)
  ultimately obtain people1 where cl: "claim (gw_now demo_grant_world) ?P (people (g_links (gs_db demo_prepared))) = Some (demo_grant_challenge, people1)"
    unfolding claim_def cs by (simp add: find.simps)
  have g: "cg_org demo_asked_grant = 1" "cg_challenge demo_asked_grant = replicate 64 (CHR ''b'')" "waiting demo_asked_grant" "\<not> in_force demo_asked_grant"
    by (simp_all add: demo_asked_grant_def waiting_def in_force_def)
  have rows: "grant_rows (gs_db demo_prepared) = [demo_asked_grant]" "connector_rows (gs_db demo_prepared) = [demo_sheet]" by (simp_all add: demo_prepared_eq)
  have org: "sp_org demo_link_scope = 1" by (simp add: demo_link_scope_def)
  have ok: "text_ok (gw_pf demo_grant_world) s" for s by (simp add: gw_pf_def demo_grant_world_def demo_link_world_def demo_pf_def)
  have now: "gw_now demo_grant_world = 30" by (simp add: gw_now_def demo_grant_world_def demo_link_world_def)
  have rv: "revoke_in_force n b1 o1 i [demo_asked_grant] = [demo_asked_grant]" for n b1 o1 i by (simp add: revoke_in_force_def g)
  let ?g = "granted_row 30 ''AAAA'' [replicate 56 (CHR ''G'')] demo_asked_grant"
  let ?db = "(gs_db demo_prepared)\<lparr>g_links := (g_links (gs_db demo_prepared))\<lparr>people := people1\<rparr>, grant_rows := [?g]\<rparr>"
  have "ConsumeGrantChallenge (gw_pf demo_grant_world) (gw_now demo_grant_world) (sp_org demo_link_scope) (replicate 64 (CHR ''b'')) (ch_address demo_grant_challenge) ''AAAA''
      [replicate 56 (CHR ''G'')] (gs_db demo_prepared) = (Inr ?g, ?db)"
    unfolding ConsumeGrantChallenge_def cl option.case prod.case rows Let_def rv by (simp add: g now org ok)
  moreover have "grant_rows ?db = [?g]" "connector_rows ?db = [demo_sheet]" by (simp_all add: rows)
  ultimately show thesis by (rule that)
qed

lemma demo_given_eq:
  "SubmitGrant demo_grant_world demo_sha demo_link_scope (replicate 64 (CHR ''b'')) ''AAAA'' demo_prepared =
     (fst (SubmitGrant demo_grant_world demo_sha demo_link_scope (replicate 64 (CHR ''b'')) ''AAAA'' demo_prepared), demo_given)"
  "grant_rows (gs_db demo_given) = [granted_row 30 ''AAAA'' [replicate 56 (CHR ''G'')] demo_asked_grant]"
  "connector_rows (gs_db demo_given) = [demo_sheet]" "gs_live demo_given 1 = Some (BuiltSheets 1, stamp_of demo_sheet)"
proof -
  show "SubmitGrant demo_grant_world demo_sha demo_link_scope (replicate 64 (CHR ''b'')) ''AAAA'' demo_prepared =
     (fst (SubmitGrant demo_grant_world demo_sha demo_link_scope (replicate 64 (CHR ''b'')) ''AAAA'' demo_prepared), demo_given)"
    unfolding demo_given_def by (rule prod.collapse [symmetric])
  have hashes: "replicate 64 (CHR ''a'') \<noteq> replicate 64 (CHR ''b'')" by simp
  have cs: "challenge_rows (people (g_links (gs_db demo_prepared))) = [demo_challenge\<lparr>ch_purpose := PurposeLinkTreasury, ch_consumed := Some 30\<rparr>, demo_grant_challenge]"
    by (simp add: demo_prepared_eq demo_linked_rows)
  have lc: "live_challenge (gw_link demo_grant_world) demo_link_scope (replicate 64 (CHR ''b'')) (g_links (gs_db demo_prepared)) = Inr demo_grant_challenge"
    by (simp add: live_challenge_def LiveChallenge_def cs live_def demo_challenge_def demo_grant_challenge_def demo_link_scope_def demo_grant_world_def demo_link_world_def)
  have rq: "GrantRequest_of (gs_db demo_prepared) (sp_org demo_link_scope) (replicate 64 (CHR ''b'')) = Inr demo_asked_grant"
    by (simp add: GrantRequest_of_def demo_prepared_eq demo_asked_grant_def demo_link_scope_def waiting_def)
  have re: "reader demo_grant_world demo_sheet demo_prepared = (Inr (BuiltSheets 1), demo_prepared)"
    by (rule demo_reader_again) (simp add: demo_prepared_eq)
  have sd: "still_describes demo_grant_world demo_sha demo_link_scope demo_grant_challenge demo_asked_grant demo_prepared = (Inr (demo_sheet, demo_proved_treasury), demo_prepared)"
  proof -
    have "ConnectorByID (gs_db demo_prepared) (sp_org demo_link_scope) (cg_connector demo_asked_grant) = Inr demo_sheet"
      by (simp add: ConnectorByID_def same_connector_def demo_prepared_eq demo_link_scope_def demo_asked_grant_def demo_sheet_def)
    moreover have "Treasury_of (g_links (gs_db demo_prepared)) (sp_org demo_link_scope) (cg_treasury demo_asked_grant) = Inr demo_proved_treasury"
      by (simp add: Treasury_of_def demo_prepared_eq demo_linked_rows demo_link_scope_def demo_asked_grant_def demo_proved_treasury_def)
    moreover have "t_address demo_proved_treasury = ch_address demo_grant_challenge" by (simp add: demo_proved_treasury_def demo_grant_challenge_def)
    moreover have "cg_statement demo_asked_grant = grantStatement demo_sha \<lparr>or_id = 1, or_name = ''dao'', or_network = ''testnet''\<rparr> demo_proved_treasury demo_sheet
        (named_descriptor (cn_name demo_sheet) (BuiltSheets 1)) (cg_per_hour demo_asked_grant)" by (simp add: demo_asked_grant_def demo_sheet_def)
    moreover have "gw_org demo_grant_world i = Some \<lparr>or_id = 1, or_name = ''dao'', or_network = ''testnet''\<rparr>" for i by (simp add: demo_grant_world_def)
    ultimately show ?thesis unfolding still_describes_def by (simp add: re)
  qed
  have vs: "verify_signers demo_grant_world demo_statement_sdk demo_grant_challenge ''AAAA'' (cg_digest demo_asked_grant) =
      Inr (\<lparr>MasterWeight = 1, Signers = [], Low = 1, Medium = 1, High = 1, SkippedNonKeySigners = 0\<rparr>, [replicate 56 (CHR ''G'')])"
    by (simp add: verify_signers_def SignerSetOf_def demo_statement_sdk_def demo_challenges_def demo_grant_world_def demo_link_world_def Summary_def map_put_def map_delete_def
        demo_grant_challenge_def VerifyStatement_def VerifyThreshold_def demo_asked_grant_def demo_hashes sort_strings_def)
  obtain db1 where c: "ConsumeGrantChallenge (gw_pf demo_grant_world) (gw_now demo_grant_world) (sp_org demo_link_scope) (replicate 64 (CHR ''b'')) (ch_address demo_grant_challenge) ''AAAA''
      [replicate 56 (CHR ''G'')] (gs_db demo_prepared) = (Inr (granted_row 30 ''AAAA'' [replicate 56 (CHR ''G'')] demo_asked_grant), db1)"
    "grant_rows db1 = [granted_row 30 ''AAAA'' [replicate 56 (CHR ''G'')] demo_asked_grant]" "connector_rows db1 = [demo_sheet]" by (rule demo_consumed)
  have p: "ch_purpose demo_grant_challenge = PurposeGrantConnector" by (simp add: demo_grant_challenge_def)
  have d: "demo_given = demo_prepared\<lparr>gs_db := db1\<rparr>"
    unfolding demo_given_def SubmitGrant_def demo_opened lc sum.case rq sd vs by (simp add: lc rq sd vs p c(1))
  show "grant_rows (gs_db demo_given) = [granted_row 30 ''AAAA'' [replicate 56 (CHR ''G'')] demo_asked_grant]"
    "connector_rows (gs_db demo_given) = [demo_sheet]" "gs_live demo_given 1 = Some (BuiltSheets 1, stamp_of demo_sheet)"
    unfolding d using c(2,3) by (simp_all add: demo_prepared_eq)
qed

lemma grant_links_lift:
  assumes "(link_step pf)\<^sup>*\<^sup>* (g_links (gs_db st)) l"
  shows "(grant_step sha256_hex sdk pf)\<^sup>*\<^sup>* st (st\<lparr>gs_db := (gs_db st)\<lparr>g_links := l\<rparr>\<rparr>)"
  using assms
proof induction
  case base show ?case by simp
next
  case (step l1 l2)
  have "grant_step sha256_hex sdk pf (st\<lparr>gs_db := (gs_db st)\<lparr>g_links := l1\<rparr>\<rparr>) (st\<lparr>gs_db := (gs_db st)\<lparr>g_links := l2\<rparr>\<rparr>)"
    using gr_links [of pf "st\<lparr>gs_db := (gs_db st)\<lparr>g_links := l1\<rparr>\<rparr>" l2 sha256_hex sdk] step.hyps(2) by simp
  with step.IH show ?case by (rule rtranclp.rtrancl_into_rtrancl)
qed

lemma demo_grant_reached:
  "(grant_step demo_sha demo_statement_sdk demo_pf)\<^sup>*\<^sup>* grant_init demo_prepared"
  "(grant_step demo_sha demo_statement_sdk demo_pf)\<^sup>*\<^sup>* grant_init demo_given"
proof -
  have "(link_step demo_pf)\<^sup>*\<^sup>* (g_links (gs_db grant_init)) demo_treasury_linked" using demo_link_reached(3) by (simp add: grant_init_def)
  then have "(grant_step demo_sha demo_statement_sdk demo_pf)\<^sup>*\<^sup>* grant_init demo_grant_links"
    unfolding demo_grant_links_def by (rule grant_links_lift)
  moreover have "grant_step demo_sha demo_statement_sdk demo_pf demo_grant_links demo_registered"
    unfolding demo_registered_def by (rule gr_register, rule prod.collapse [symmetric])
  moreover have "grant_step demo_sha demo_statement_sdk demo_pf demo_registered demo_prepared"
    unfolding demo_prepared_def by (rule gr_prepare, rule prod.collapse [symmetric])
  ultimately show p: "(grant_step demo_sha demo_statement_sdk demo_pf)\<^sup>*\<^sup>* grant_init demo_prepared" by (meson rtranclp.rtrancl_into_rtrancl)
  have "grant_step demo_sha demo_statement_sdk demo_pf demo_prepared demo_given"
    by (rule gr_submit [OF _ demo_given_eq(1)]) (simp add: demo_grant_world_def)
  with p show "(grant_step demo_sha demo_statement_sdk demo_pf)\<^sup>*\<^sup>* grant_init demo_given" by (rule rtranclp.rtrancl_into_rtrancl)
qed

lemma demo_asked_facts: "cg_org demo_asked_grant = 1" "cg_connector demo_asked_grant = 1" "cg_capabilities demo_asked_grant = [''read.range'']"
  "cg_surface demo_asked_grant = replicate 64 (CHR ''a'')" "cg_per_hour demo_asked_grant = 60" "cg_granted_at demo_asked_grant = None"
  "cg_revoked_at demo_asked_grant = None"
  by (simp_all add: demo_asked_grant_def)

theorem SubmitGrant_signed_witness:
  "\<exists>g. grant_rows (gs_db demo_given) = [g] \<and> in_force g \<and> stated demo_sha g"
proof -
  let ?g = "granted_row 30 ''AAAA'' [replicate 56 (CHR ''G'')] demo_asked_grant"
  have g: "?g \<in> set (grant_rows (gs_db demo_given))" "in_force ?g" "?g \<notin> set (grant_rows (gs_db demo_prepared))"
  proof -
    have "cg_granted_at ?g \<noteq> cg_granted_at demo_asked_grant" by (simp add: granted_row_def demo_asked_facts)
    then have "?g \<noteq> demo_asked_grant" by metis
    then show "?g \<notin> set (grant_rows (gs_db demo_prepared))" by (simp add: demo_prepared_eq)
  qed (simp_all add: demo_given_eq(2) in_force_def granted_row_def demo_asked_facts)
  have sdk: "lw_sdk (gw_link demo_grant_world) \<in> {None, Some demo_statement_sdk}" by (simp add: demo_grant_world_def)
  from SubmitGrant_signed [OF demo_grant_reached(1) sdk demo_given_eq(1) g] have "stated demo_sha ?g" by (rule conjunct1 [OF conjunct2])
  with g(2) demo_given_eq(2) show ?thesis by blast
qed

theorem ReadConnector_granted_witness:
  "\<exists>g. in_force g \<and> ''read.range'' \<in> set (cg_capabilities g) \<and> stated demo_sha g
     \<and> ReadConnector demo_grant_world demo_sha demo_link_scope ''pay'' ''A1:B2'' demo_given () =
       (Inr (\<lparr>ob_columns = [], ob_rows = [[''bob'', ''5'']], ob_truncated = False\<rparr>, demo_sheet), demo_given, ())"
proof -
  let ?g = "granted_row 30 ''AAAA'' [replicate 56 (CHR ''G'')] demo_asked_grant"
  have f: "ConnectorByName (gw_pf demo_grant_world) (gs_db demo_given) (sp_org demo_link_scope) ''pay'' = Inr demo_sheet"
    by (simp add: ConnectorByName_def demo_given_eq demo_link_scope_def gw_pf_def demo_grant_world_def demo_link_world_def demo_pf_def demo_sheet_def)
  have re: "reader demo_grant_world demo_sheet demo_given = (Inr (BuiltSheets 1), demo_given)"
    by (rule demo_reader_again) (rule demo_given_eq(4))
  have ca: "capabilityFor demo_grant_world demo_sheet ''A1:B2'' = Inr ''read.range''" by (simp add: capabilityFor_def demo_sheet_def)
  have gf: "grants_GrantFor (gw_pf demo_grant_world) (gs_db demo_given) 1 ''pay'' =
      Inr \<lparr>g_Capabilities = [''read.range''], g_SurfaceDigest = replicate 64 (CHR ''a''), g_PerHour = 60\<rparr>"
    by (simp add: grants_GrantFor_def GrantInForce_def demo_given_eq gw_pf_def demo_grant_world_def demo_link_world_def demo_pf_def demo_sheet_def in_force_def
        granted_row_def demo_asked_facts)
  have n: "cn_name demo_sheet = ''pay''" by (simp add: demo_sheet_def)
  have sc: "scope_check demo_link_scope = None" "sp_org demo_link_scope = 1" "gw_on demo_grant_world" using demo_link_scope_ok by (simp_all add: demo_link_scope_def demo_grant_world_def)
  have gr: "Guard_Read (guard_of demo_grant_world demo_sha (gs_db demo_given)) (gw_now demo_grant_world) 1
      (as_connector demo_grant_world (named_descriptor ''pay'' (BuiltSheets 1)) (BuiltSheets 1)) ''read.range'' \<lparr>Selector = ''A1:B2'', Limit = 0\<rparr> () =
      (Inr (Some \<lparr>ob_columns = [], ob_rows = [[''bob'', ''5'']], ob_truncated = False\<rparr>), ())"
  proof -
    let ?d = "named_descriptor ''pay'' (BuiltSheets 1)"
    have d: "checkDescriptor ?d = None" "d_ID ?d = ''pay''" by (simp_all add: named_descriptor_def built_descriptor_def checkDescriptor_def KindReader_def)
    have "authorise (guard_of demo_grant_world demo_sha (gs_db demo_given)) (gw_now demo_grant_world) 1 ?d ''read.range'' () = (None, ())"
      by (simp add: authorise_def d guard_of_def gf SurfaceDigest_def covers_def) (simp add: demo_grant_world_def)
    then show ?thesis by (simp add: Guard_Read_def as_connector_def) (simp add: demo_grant_world_def)
  qed
  have rd: "ReadConnector demo_grant_world demo_sha demo_link_scope ''pay'' ''A1:B2'' demo_given () =
       (Inr (\<lparr>ob_columns = [], ob_rows = [[''bob'', ''5'']], ob_truncated = False\<rparr>, demo_sheet), demo_given, ())"
    unfolding ReadConnector_def by (simp add: f re ca n sc gr f [unfolded sc])
  obtain g where g: "in_force g" "''read.range'' \<in> set (cg_capabilities g)" "stated demo_sha g"
    using ReadConnector_granted [OF demo_grant_reached(2) rd] by (auto simp: ca)
  with rd show ?thesis by blast
qed

end
