(* ===== verification/Ingestion.thy ===== *)
theory Ingestion
  imports Enrollment Sends Scval
begin

text \<open>
  \<^verbatim>\<open>ingestion/ingestion.go\<close>, \<^verbatim>\<open>ingestion/source.go\<close>, \<^verbatim>\<open>ingestion/horizon.go\<close> and \<^verbatim>\<open>ingestion/soroban.go\<close>, with the tracked addresses of
  \<^verbatim>\<open>ledger/store/account.go\<close> and \<open>ReleaseAddress\<close> of \<^verbatim>\<open>ledger/store/reclaim.go\<close>: what happened on the network, as ledger entries.  The ledger is that of
  \<open>Ledger\<close>.  What Horizon and the RPC server answer is an argument, and so are the decoders of the SDK.
\<close>

section \<open>Records\<close>

datatype unreadable = UndecodableValue | NotAnAmount | ErrAmountTooLarge int

record Movement =
  mv_from :: address
  mv_to :: address
  mv_asset_type :: string
  mv_code :: string
  mv_issuer :: string
  mv_amount :: stroops
  mv_unreadable :: "unreadable option"

record Record =
  rc_cursor :: string
  rc_id :: string
  rc_tx :: string
  rc_occurred :: int
  rc_movements :: "Movement list"
  rc_closed :: address

datatype ingest_error =
    OnLedger ledger_error | OnAddress db_error | MovesUnreadable unreadable | NonPositiveAmount stroops | IncompleteAsset
  | UnparseableAmount money_error | UnreadableTime | UndecodableTopic nat | UnreadableCursor | FetchFailed | ErrRetentionGap

section \<open>Operations of Horizon\<close>

text \<open>The operations the source understands, with the fields it reads; \<open>OtherOperation\<close> is every other type.\<close>

record horizon_payment =
  hp_from :: address
  hp_to :: address
  hp_asset :: "string \<times> string \<times> string"
  hp_amount :: string

datatype horizon_body =
    HPayment horizon_payment
  | HCreateAccount address address string
  | HPathPayment horizon_payment string "string \<times> string \<times> string"
  | HPathPaymentStrictSend horizon_payment string "string \<times> string \<times> string"
  | HAccountMerge address
  | OtherOperation

record horizon_operation =
  ho_token :: string
  ho_id :: string
  ho_hash :: string
  ho_closed_at :: int
  ho_successful :: bool
  ho_body :: horizon_body

definition movement :: "address \<Rightarrow> address \<Rightarrow> string \<times> string \<times> string \<Rightarrow> stroops \<Rightarrow> Movement" where
  "movement from1 to1 asset1 amount =
     (case asset1 of (ty, code, issuer) \<Rightarrow>
        \<lparr>mv_from = from1, mv_to = to1, mv_asset_type = ty, mv_code = code, mv_issuer = issuer, mv_amount = amount, mv_unreadable = None\<rparr>)"

definition pathMovements :: "horizon_payment \<Rightarrow> string \<Rightarrow> string \<times> string \<times> string \<Rightarrow> (ingest_error, Movement list) result" where
  "pathMovements p sourceAmount source_asset =
     (case Parse (hp_amount p) of
        Inl e \<Rightarrow> Inl (UnparseableAmount e)
      | Inr received \<Rightarrow>
     (case Parse sourceAmount of
        Inl e \<Rightarrow> Inl (UnparseableAmount e)
      | Inr sent \<Rightarrow> Inr [movement (hp_from p) [] source_asset sent, movement [] (hp_to p) (hp_asset p) received]))"

definition native_asset :: "string \<times> string \<times> string" where
  "native_asset = (''native'', [], [])"

definition recordOf :: "horizon_operation \<Rightarrow> (ingest_error, Record) result" where
  "recordOf op1 =
     (let base = \<lparr>rc_cursor = ho_token op1, rc_id = ''horizon:op:'' @ ho_id op1, rc_tx = ho_hash op1, rc_occurred = ho_closed_at op1,
            rc_movements = [], rc_closed = []\<rparr>
      in if \<not> ho_successful op1 then Inr base
         else case ho_body op1 of
           HPayment p \<Rightarrow>
             (case Parse (hp_amount p) of
                Inl e \<Rightarrow> Inl (UnparseableAmount e)
              | Inr amount \<Rightarrow> Inr (base\<lparr>rc_movements := [movement (hp_from p) (hp_to p) (hp_asset p) amount]\<rparr>))
         | HCreateAccount funder account starting \<Rightarrow>
             (case Parse starting of
                Inl e \<Rightarrow> Inl (UnparseableAmount e)
              | Inr amount \<Rightarrow> Inr (if Sign amount > 0 then base\<lparr>rc_movements := [movement funder account native_asset amount]\<rparr> else base))
         | HPathPayment p sent asset1 \<Rightarrow> (case pathMovements p sent asset1 of Inl e \<Rightarrow> Inl e | Inr ms \<Rightarrow> Inr (base\<lparr>rc_movements := ms\<rparr>))
         | HPathPaymentStrictSend p sent asset1 \<Rightarrow> (case pathMovements p sent asset1 of Inl e \<Rightarrow> Inl e | Inr ms \<Rightarrow> Inr (base\<lparr>rc_movements := ms\<rparr>))
         | HAccountMerge account \<Rightarrow> Inr (base\<lparr>rc_closed := account\<rparr>)
         | OtherOperation \<Rightarrow> Inr base)"

text \<open>A page becomes records one by one; the first that cannot be read refuses the page.\<close>

fun map_records :: "('a \<Rightarrow> (ingest_error, Record) result) \<Rightarrow> 'a list \<Rightarrow> (ingest_error, Record list) result" where
  "map_records f [] = Inr []"
| "map_records f (x # xs) =
     (case f x of Inl e \<Rightarrow> Inl e | Inr r \<Rightarrow> (case map_records f xs of Inl e \<Rightarrow> Inl e | Inr rs \<Rightarrow> Inr (r # rs)))"

definition OperationsSource_Fetch :: "(string \<Rightarrow> nat \<Rightarrow> horizon_operation list option) \<Rightarrow> string \<Rightarrow> nat \<Rightarrow> (ingest_error, Record list) result" where
  "OperationsSource_Fetch operations cursor limit =
     (case operations cursor limit of None \<Rightarrow> Inl FetchFailed | Some page \<Rightarrow> map_records recordOf page)"

section \<open>Events of a token contract\<close>

text \<open>An event as the RPC server reports it: its time as \<open>time.Parse\<close> reads it and its topics and value as the SDK decodes them.\<close>

record rpc_event =
  ev_id :: string
  ev_contract :: string
  ev_tx :: string
  ev_closed_at :: "int option"
  ev_topics :: "ScVal option list"
  ev_value :: "ScVal option"

definition addressOf :: "strkey \<Rightarrow> ScVal \<Rightarrow> address option" where
  "addressOf k v =
     (case v of
        ScvAddress (AddrAccount key) \<Rightarrow> Some (EncodeAccount k key)
      | ScvAddress (AddrContract key) \<Rightarrow> EncodeContract k key
      | _ \<Rightarrow> None)"

definition parseAsset_event :: "string \<Rightarrow> (string \<times> string \<times> string) option" where
  "parseAsset_event asset1 =
     (if asset1 = ''native'' then Some (''native'', [], [])
      else case cut_byte (CHR '':'') asset1 of (code, issuer, found) \<Rightarrow>
             if \<not> found \<or> code = [] \<or> issuer = [] then None
             else if length code \<le> 4 then Some (''credit_alphanum4'', code, issuer)
             else Some (''credit_alphanum12'', code, issuer))"

text \<open>The amount of a transfer as a big integer, and as the ledger's.\<close>

definition transfer_amount :: "ScVal \<Rightarrow> int option" where
  "transfer_amount v =
     (case v of
        ScvI128 hi lo \<Rightarrow> Some (push_bit 64 (sint hi) + uint lo)
      | ScvU128 hi lo \<Rightarrow> Some (push_bit 64 (uint hi) OR uint lo)
      | ScvI64 i \<Rightarrow> Some (sint i)
      | ScvU64 u \<Rightarrow> Some (uint u)
      | _ \<Rightarrow> None)"

definition stroopsOf :: "ScVal \<Rightarrow> (unreadable, stroops) result" where
  "stroopsOf v =
     (case transfer_amount v of
        None \<Rightarrow> Inl NotAnAmount
      | Some n \<Rightarrow> if \<not> in_int64 n then Inl (ErrAmountTooLarge n) else Inr (word_of_int n))"

definition amountIn :: "ScVal \<Rightarrow> ScVal" where
  "amountIn v =
     (case v of
        ScvMap (Some m) \<Rightarrow> (case find (\<lambda>(k, x). k = ScvSymbol ''amount'') m of Some (k, x) \<Rightarrow> x | None \<Rightarrow> v)
      | _ \<Rightarrow> v)"

fun decodeTopics :: "nat \<Rightarrow> ScVal option list \<Rightarrow> (ingest_error, ScVal list) result" where
  "decodeTopics i [] = Inr []"
| "decodeTopics i (None # ts) = Inl (UndecodableTopic i)"
| "decodeTopics i (Some t # ts) = (case decodeTopics (Suc i) ts of Inl e \<Rightarrow> Inl e | Inr out \<Rightarrow> Inr (t # out))"

text \<open>What the topics say: from, to and the asset; nothing when they are not those of a transfer.\<close>

definition transfer_topics :: "strkey \<Rightarrow> ScVal list \<Rightarrow> (address \<times> address \<times> string \<times> string \<times> string) option" where
  "transfer_topics k topics =
     (case topics of
        [ScvSymbol name, f, t, ScvString asset1] \<Rightarrow>
          if name \<noteq> ''transfer'' then None
          else (case (addressOf k f, addressOf k t, parseAsset_event asset1) of
                  (Some from1, Some to1, Some a) \<Rightarrow> Some (from1, to1, a)
                | _ \<Rightarrow> None)
      | _ \<Rightarrow> None)"

definition event_movements :: "ScVal option \<Rightarrow> Movement \<Rightarrow> Movement list" where
  "event_movements v m =
     (case v of
        None \<Rightarrow> [m\<lparr>mv_unreadable := Some UndecodableValue\<rparr>]
      | Some x \<Rightarrow>
          (case stroopsOf (amountIn x) of
             Inl e \<Rightarrow> [m\<lparr>mv_unreadable := Some e\<rparr>]
           | Inr amount \<Rightarrow> if Sign amount \<le> 0 then [] else [m\<lparr>mv_amount := amount\<rparr>]))"

definition transferRecord :: "strkey \<Rightarrow> rpc_event \<Rightarrow> (ingest_error, Record) result" where
  "transferRecord k ev =
     (case ev_closed_at ev of
        None \<Rightarrow> Inl UnreadableTime
      | Some closed_at \<Rightarrow>
          let record1 = \<lparr>rc_cursor = ev_id ev, rc_id = ''soroban:event:'' @ ev_id ev, rc_tx = ev_tx ev, rc_occurred = closed_at, rc_movements = [], rc_closed = []\<rparr>
          in case decodeTopics 0 (ev_topics ev) of
               Inl e \<Rightarrow> Inl e
             | Inr topics \<Rightarrow>
                 (case transfer_topics k topics of
                    None \<Rightarrow> Inr record1
                  | Some (from1, to1, a) \<Rightarrow> Inr (record1\<lparr>rc_movements := event_movements (ev_value ev) (movement from1 to1 a 0)\<rparr>)))"

text \<open>\<open>ParseCursor\<close> of the SDK gives the ledger of a cursor; the answer to \<open>GetEvents\<close> has the oldest ledger the server still holds.\<close>

definition checkRetention :: "(string \<Rightarrow> nat option) \<Rightarrow> string \<Rightarrow> nat \<Rightarrow> ingest_error option" where
  "checkRetention parse_cursor cursor oldest =
     (if cursor = [] \<or> oldest = 0 then None
      else case parse_cursor cursor of
             None \<Rightarrow> Some UnreadableCursor
           | Some ledger1 \<Rightarrow> if oldest > ledger1 then Some ErrRetentionGap else None)"

definition TransferSource_Fetch ::
  "strkey \<Rightarrow> (string \<Rightarrow> nat option) \<Rightarrow> nat \<Rightarrow> (string \<Rightarrow> nat \<Rightarrow> nat \<Rightarrow> (nat \<times> rpc_event list) option) \<Rightarrow> string \<Rightarrow> nat \<Rightarrow> (ingest_error, Record list) result" where
  "TransferSource_Fetch k parse_cursor startLedger get_page cursor limit =
     (if cursor \<noteq> [] \<and> parse_cursor cursor = None then Inl UnreadableCursor
      else case get_page cursor (if cursor = [] then startLedger else 0) limit of
             None \<Rightarrow> Inl FetchFailed
           | Some (oldest, page) \<Rightarrow>
               (case checkRetention parse_cursor cursor oldest of
                  Some e \<Rightarrow> Inl e
                | None \<Rightarrow>
                    if cursor = [] \<and> startLedger = 0 \<and> oldest > 0 then Inl ErrRetentionGap
                    else map_records (transferRecord k) page))"

section \<open>State\<close>

text \<open>
  The tables, and \<open>ig_external\<close>, what the process remembers of the counterparty accounts, which is empty after a restart.
\<close>

record ingest_state =
  ig_ledger :: ledger_db
  ig_tracked :: "TrackedAddress list"
  ig_people :: member_db
  ig_grants :: "enrollment_grant list"
  ig_cursors :: "string \<Rightarrow> string option"
  ig_external :: "OrgID \<Rightarrow> AccountID option"

definition ensureAccountTx ::
  "platform \<Rightarrow> OrgID \<Rightarrow> AccountKind \<Rightarrow> string \<Rightarrow> string \<Rightarrow> ledger_db \<Rightarrow> (ledger_error, AccountID) result \<times> ledger_db" where
  "ensureAccountTx pf org kind ownerRef name db =
     (if \<not> text_ok pf ownerRef \<or> \<not> text_ok pf name then (Inl (Database NotStorable), db)
      else case next_id (account_seq db) of
        None \<Rightarrow> (Inl (Database SequenceExhausted), db)
      | Some i \<Rightarrow>
          let n = new_account i org kind ownerRef name; drawn = db\<lparr>account_seq := i\<rparr>
          in if \<not> account_checks n then (Inl (Database CheckViolation), drawn)
             else if list_ex (account_conflict pf n) (accounts db)
                  then (case find (account_match pf n) (accounts db) of
                          None \<Rightarrow> (Inl (Database NoRows), drawn)
                        | Some r \<Rightarrow> (Inr (acc_id r), drawn))
             else if org \<notin> set (orgs db) then (Inl (Database ForeignKeyViolation), drawn)
             else (Inr i, drawn\<lparr>accounts := accounts db @ [n]\<rparr>))"

definition tracked_text :: "string \<Rightarrow> bool" where
  "tracked_text s \<longleftrightarrow> length s = 56 \<and> hd s \<in> {CHR ''G'', CHR ''C''} \<and> list_all base32_char (tl s)"

definition address_roles :: "string list" where
  "address_roles = [''treasury'', ''member'', ''sponsor'']"

definition TrackAddress :: "platform \<Rightarrow> OrgID \<Rightarrow> address \<Rightarrow> AccountID \<Rightarrow> string \<Rightarrow> ingest_state \<Rightarrow> ingest_error option \<times> ingest_state" where
  "TrackAddress pf org address1 account role st =
     (if \<not> text_ok pf address1 \<or> \<not> text_ok pf role then (Some (OnAddress NotStorable), st)
      else if \<not> tracked_text address1 \<or> role \<notin> set address_roles then (Some (OnAddress CheckViolation), st)
      else if list_ex (\<lambda>t. tk_address t = address1) (ig_tracked st) then (None, st)
      else if list_ex (\<lambda>t. tk_account t = account) (ig_tracked st) then (Some (OnAddress CheckViolation), st)
      else if \<not> list_ex (\<lambda>a. acc_id a = account \<and> acc_org a = org) (accounts (ig_ledger st)) then (Some (OnAddress ForeignKeyViolation), st)
      else (None, st\<lparr>ig_tracked := ig_tracked st @ [\<lparr>tk_address = address1, tk_org = org, tk_account = account, tk_role = role\<rparr>]\<rparr>))"

definition TrackedAddress_of :: "platform \<Rightarrow> address \<Rightarrow> ingest_state \<Rightarrow> (ingest_error, TrackedAddress option) result" where
  "TrackedAddress_of pf address1 st =
     (if \<not> text_ok pf address1 then Inl (OnAddress NotStorable) else Inr (find (\<lambda>t. tk_address t = address1) (ig_tracked st)))"

definition ReleaseAddress :: "platform \<Rightarrow> int \<Rightarrow> OrgID \<Rightarrow> address \<Rightarrow> ingest_state \<Rightarrow> ingest_error option \<times> ingest_state" where
  "ReleaseAddress pf now org address1 st =
     (if \<not> text_ok pf address1 then (Some (OnAddress NotStorable), st)
      else (None, st\<lparr>ig_tracked := filter (\<lambda>t. \<not> (tk_org t = org \<and> tk_address t = address1)) (ig_tracked st),
              ig_people := release_member org address1 (ig_people st),
              ig_grants := map (\<lambda>g. if unreclaimed org address1 g then g\<lparr>g_reclaimed_at := Some now\<rparr> else g) (ig_grants st)\<rparr>))"

section \<open>Applying a record\<close>

definition with_ledger :: "ingest_state \<Rightarrow> (ledger_error, 'a) result \<times> ledger_db \<Rightarrow> (ingest_error, 'a) result \<times> ingest_state" where
  "with_ledger st r = (map_sum OnLedger id (fst r), st\<lparr>ig_ledger := snd r\<rparr>)"

definition externalFor :: "platform \<Rightarrow> OrgID \<Rightarrow> ingest_state \<Rightarrow> (ingest_error, AccountID) result \<times> ingest_state" where
  "externalFor pf org st =
     (case ig_external st org of
        Some i \<Rightarrow> (Inr i, st)
      | None \<Rightarrow>
          (case with_ledger st (ensureAccountTx pf org AccountExternal [] ''external'' (ig_ledger st)) of
             (Inl e, st1) \<Rightarrow> (Inl e, st1)
           | (Inr i, st1) \<Rightarrow> (Inr i, st1\<lparr>ig_external := (ig_external st1)(org \<mapsto> i)\<rparr>)))"

definition resolveAsset :: "platform \<Rightarrow> string \<Rightarrow> string \<Rightarrow> string \<Rightarrow> ingest_state \<Rightarrow> (ingest_error, AssetID) result \<times> ingest_state" where
  "resolveAsset pf assetType code issuer st =
     (if assetType = ''native'' then with_ledger st (EnsureAsset pf ''XLM'' [] (ig_ledger st))
      else if code = [] \<or> issuer = [] then (Inl IncompleteAsset, st)
      else with_ledger st (EnsureAsset pf code issuer (ig_ledger st)))"

record entry =
  en_org :: OrgID
  en_kind :: TxKind
  en_postings :: "Posting list"

definition two_lines :: "AccountID \<Rightarrow> AccountID \<Rightarrow> AssetID \<Rightarrow> stroops \<Rightarrow> Posting list" where
  "two_lines account counter asset1 amount =
     [\<lparr>Account = account, Asset = asset1, Amount = amount\<rparr>, \<lparr>Account = counter, Asset = asset1, Amount = - amount\<rparr>]"

text \<open>One side of a payment, against the org's own counterparty.\<close>

definition side_entry ::
  "platform \<Rightarrow> TxKind \<Rightarrow> TrackedAddress option \<Rightarrow> AssetID \<Rightarrow> stroops \<Rightarrow> ingest_state \<Rightarrow> (ingest_error, entry list) result \<times> ingest_state" where
  "side_entry pf kind side asset1 amount st =
     (case side of
        None \<Rightarrow> (Inr [], st)
      | Some t \<Rightarrow>
          (case externalFor pf (tk_org t) st of
             (Inl e, st1) \<Rightarrow> (Inl e, st1)
           | (Inr external, st1) \<Rightarrow> (Inr [\<lparr>en_org = tk_org t, en_kind = kind, en_postings = two_lines (tk_account t) external asset1 amount\<rparr>], st1)))"

definition same_org :: "TrackedAddress option \<Rightarrow> TrackedAddress option \<Rightarrow> bool" where
  "same_org f t \<longleftrightarrow> (case (f, t) of (Some a, Some b) \<Rightarrow> tk_org a = tk_org b | _ \<Rightarrow> False)"

definition entriesFor ::
  "platform \<Rightarrow> TrackedAddress option \<Rightarrow> TrackedAddress option \<Rightarrow> AssetID \<Rightarrow> stroops \<Rightarrow> ingest_state \<Rightarrow> (ingest_error, entry list) result \<times> ingest_state" where
  "entriesFor pf f t asset1 amount st =
     (if same_org f t
      then (Inr [\<lparr>en_org = tk_org (the f), en_kind = ''send'', en_postings = two_lines (tk_account (the f)) (tk_account (the t)) asset1 (- amount)\<rparr>], st)
      else case side_entry pf ''withdrawal'' f asset1 (- amount) st of
             (Inl e, st1) \<Rightarrow> (Inl e, st1)
           | (Inr outgoing, st1) \<Rightarrow>
               (case side_entry pf ''deposit'' t asset1 amount st1 of
                  (Inl e, st2) \<Rightarrow> (Inl e, st2)
                | (Inr incoming, st2) \<Rightarrow> (Inr (outgoing @ incoming), st2)))"

definition opening_request :: "Record \<Rightarrow> string \<Rightarrow> TrackedAddress \<Rightarrow> AccountID \<Rightarrow> AssetID \<Rightarrow> stroops \<Rightarrow> PostRequest" where
  "opening_request r key f external asset1 short =
     \<lparr>Org = tk_org f, IdempotencyKey = key @ '':opening:'' @ fmt_int (sint short), Kind = ''opening'', ExternalRef = [], OccurredAt = rc_occurred r,
      Metadata = [], Postings = two_lines (tk_account f) external asset1 short\<rparr>"

definition open_balance :: "platform \<Rightarrow> Record \<Rightarrow> string \<Rightarrow> TrackedAddress \<Rightarrow> AssetID \<Rightarrow> stroops \<Rightarrow> ingest_state \<Rightarrow> ingest_error option \<times> ingest_state" where
  "open_balance pf r key f asset1 amount st =
     (let held = Balance (ig_ledger st) (tk_org f) (tk_account f) asset1; short = amount - held
      in if sint short \<le> 0 then (None, st)
         else case externalFor pf (tk_org f) st of
                (Inl e, st1) \<Rightarrow> (Some e, st1)
              | (Inr external, st1) \<Rightarrow>
                  (case with_ledger st1 (Post pf (opening_request r key f external asset1 short) (ig_ledger st1)) of
                     (Inl e, st2) \<Rightarrow> (Some e, st2)
                   | (Inr _, st2) \<Rightarrow> (None, st2)))"

definition entry_request :: "Record \<Rightarrow> string \<Rightarrow> entry \<Rightarrow> PostRequest" where
  "entry_request r key e =
     \<lparr>Org = en_org e, IdempotencyKey = key, Kind = en_kind e, ExternalRef = rc_tx r, OccurredAt = rc_occurred r, Metadata = [], Postings = en_postings e\<rparr>"

definition of_org :: "TrackedAddress option \<Rightarrow> OrgID \<Rightarrow> bool" where
  "of_org f org \<longleftrightarrow> (case f of Some a \<Rightarrow> tk_org a = org | None \<Rightarrow> False)"

definition post_entry ::
  "platform \<Rightarrow> Record \<Rightarrow> string \<Rightarrow> TrackedAddress option \<Rightarrow> AssetID \<Rightarrow> stroops \<Rightarrow> entry \<Rightarrow> ingest_state \<Rightarrow> ingest_error option \<times> ingest_state" where
  "post_entry pf r key f asset1 amount e st =
     (let req = entry_request r key e
      in case Post pf req (ig_ledger st) of
           (Inr _, l) \<Rightarrow> (None, st\<lparr>ig_ledger := l\<rparr>)
         | (Inl x, l) \<Rightarrow>
             if x = ErrInsufficientFunds \<and> of_org f (en_org e)
             then (case open_balance pf r key (the f) asset1 amount (st\<lparr>ig_ledger := l\<rparr>) of
                     (Some x1, st1) \<Rightarrow> (Some x1, st1)
                   | (None, st1) \<Rightarrow>
                       (case Post pf req (ig_ledger st1) of
                          (Inr _, l2) \<Rightarrow> (None, st1\<lparr>ig_ledger := l2\<rparr>)
                        | (Inl x2, l2) \<Rightarrow> (Some (OnLedger x2), st1\<lparr>ig_ledger := l2\<rparr>)))
             else (Some (OnLedger x), st\<lparr>ig_ledger := l\<rparr>))"

fun post_entries ::
  "platform \<Rightarrow> Record \<Rightarrow> string \<Rightarrow> TrackedAddress option \<Rightarrow> AssetID \<Rightarrow> stroops \<Rightarrow> entry list \<Rightarrow> ingest_state \<Rightarrow> ingest_error option \<times> ingest_state" where
  "post_entries pf r key f asset1 amount [] st = (None, st)"
| "post_entries pf r key f asset1 amount (e # es) st =
     (case post_entry pf r key f asset1 amount e st of
        (Some x, st1) \<Rightarrow> (Some x, st1)
      | (None, st1) \<Rightarrow> post_entries pf r key f asset1 amount es st1)"

definition record_key :: "Record \<Rightarrow> nat \<Rightarrow> string" where
  "record_key r n = (if length (rc_movements r) > 1 then rc_id r @ '':'' @ fmt_nat n else rc_id r)"

definition applyMovement :: "platform \<Rightarrow> Record \<Rightarrow> nat \<Rightarrow> Movement \<Rightarrow> ingest_state \<Rightarrow> ingest_error option \<times> ingest_state" where
  "applyMovement pf r n m st =
     (case TrackedAddress_of pf (mv_from m) st of
        Inl e \<Rightarrow> (Some e, st)
      | Inr f \<Rightarrow>
     (case TrackedAddress_of pf (mv_to m) st of
        Inl e \<Rightarrow> (Some e, st)
      | Inr t \<Rightarrow>
          if f = None \<and> t = None then (None, st)
          else case mv_unreadable m of
            Some u \<Rightarrow> (Some (MovesUnreadable u), st)
          | None \<Rightarrow>
              if Sign (mv_amount m) \<le> 0 then (Some (NonPositiveAmount (mv_amount m)), st)
              else (case resolveAsset pf (mv_asset_type m) (mv_code m) (mv_issuer m) st of
                      (Inl e, st1) \<Rightarrow> (Some e, st1)
                    | (Inr asset1, st1) \<Rightarrow>
                        (case entriesFor pf f t asset1 (mv_amount m) st1 of
                           (Inl e, st2) \<Rightarrow> (Some e, st2)
                         | (Inr es, st2) \<Rightarrow> post_entries pf r (record_key r n) f asset1 (mv_amount m) es st2))))"

definition applyClose :: "platform \<Rightarrow> int \<Rightarrow> address \<Rightarrow> ingest_state \<Rightarrow> ingest_error option \<times> ingest_state" where
  "applyClose pf now address1 st =
     (case TrackedAddress_of pf address1 st of
        Inl e \<Rightarrow> (Some e, st)
      | Inr None \<Rightarrow> (None, st)
      | Inr (Some t) \<Rightarrow> ReleaseAddress pf now (tk_org t) address1 st)"

fun apply_movements :: "platform \<Rightarrow> Record \<Rightarrow> nat \<Rightarrow> Movement list \<Rightarrow> ingest_state \<Rightarrow> ingest_error option \<times> ingest_state" where
  "apply_movements pf r n [] st = (None, st)"
| "apply_movements pf r n (m # ms) st =
     (case applyMovement pf r n m st of
        (Some e, st1) \<Rightarrow> (Some e, st1)
      | (None, st1) \<Rightarrow> apply_movements pf r (Suc n) ms st1)"

definition apply_record :: "platform \<Rightarrow> int \<Rightarrow> Record \<Rightarrow> ingest_state \<Rightarrow> ingest_error option \<times> ingest_state" where
  "apply_record pf now r st =
     (case apply_movements pf r 0 (rc_movements r) st of
        (Some e, st1) \<Rightarrow> (Some e, st1)
      | (None, st1) \<Rightarrow> if rc_closed r \<noteq> [] then applyClose pf now (rc_closed r) st1 else (None, st1))"

section \<open>Pages\<close>

definition loadCursor :: "platform \<Rightarrow> string \<Rightarrow> ingest_state \<Rightarrow> (ingest_error, string) result" where
  "loadCursor pf stream st =
     (if \<not> text_ok pf stream then Inl (OnAddress NotStorable)
      else case ig_cursors st stream of None \<Rightarrow> Inr [] | Some c \<Rightarrow> Inr c)"

definition saveCursor :: "platform \<Rightarrow> string \<Rightarrow> string \<Rightarrow> ingest_state \<Rightarrow> ingest_error option \<times> ingest_state" where
  "saveCursor pf stream cursor st =
     (if \<not> text_ok pf stream \<or> \<not> text_ok pf cursor then (Some (OnAddress NotStorable), st)
      else if stream = [] then (Some (OnAddress CheckViolation), st)
      else (None, st\<lparr>ig_cursors := (ig_cursors st)(stream \<mapsto> cursor)\<rparr>))"

fun once_loop :: "platform \<Rightarrow> int \<Rightarrow> string \<Rightarrow> Record list \<Rightarrow> nat \<Rightarrow> ingest_state \<Rightarrow> nat \<times> ingest_error option \<times> ingest_state" where
  "once_loop pf now stream [] consumed st = (consumed, None, st)"
| "once_loop pf now stream (r # rs) consumed st =
     (case apply_record pf now r st of
        (Some e, st1) \<Rightarrow> (consumed, Some e, st1)
      | (None, st1) \<Rightarrow>
          (case saveCursor pf stream (rc_cursor r) st1 of
             (Some e, st2) \<Rightarrow> (consumed, Some e, st2)
           | (None, st2) \<Rightarrow> once_loop pf now stream rs (Suc consumed) st2))"

definition Once :: "platform \<Rightarrow> int \<Rightarrow> string \<Rightarrow> (string \<Rightarrow> (ingest_error, Record list) result) \<Rightarrow> ingest_state \<Rightarrow> nat \<times> ingest_error option \<times> ingest_state" where
  "Once pf now stream fetch st =
     (case loadCursor pf stream st of
        Inl e \<Rightarrow> (0, Some e, st)
      | Inr cursor \<Rightarrow>
          (case fetch cursor of
             Inl e \<Rightarrow> (0, Some e, st)
           | Inr records \<Rightarrow> once_loop pf now stream records 0 st))"

end
