(* ===== verification/Ingestion_Safety.thy ===== *)
theory Ingestion_Safety
  imports Ingestion
begin

text \<open>
  What ingestion promises: a record delivered again changes nothing, a cursor moves only past what is in the books, and the books follow what the
  network says moved.
\<close>

section \<open>What the ledger keeps\<close>

definition same_tables :: "ledger_db \<Rightarrow> ledger_db \<Rightarrow> bool" where
  "same_tables l l' \<longleftrightarrow> transactions l' = transactions l \<and> entries l' = entries l \<and> balances l' = balances l \<and> accounts l' = accounts l
     \<and> assets l' = assets l \<and> orgs l' = orgs l"

lemma same_tables_refl [simp]: "same_tables l l"
  and same_tables_trans: "same_tables l l1 \<Longrightarrow> same_tables l1 l2 \<Longrightarrow> same_tables l l2"
  and same_tables_seq [simp]: "same_tables l (l\<lparr>tx_seq := i\<rparr>)" "same_tables l (l\<lparr>account_seq := j\<rparr>)" "same_tables l (l\<lparr>asset_seq := k\<rparr>)"
  by (simp_all add: same_tables_def)

lemma ensureAccountTx_eq: "org \<noteq> 0 \<Longrightarrow> ensureAccountTx pf org kind ownerRef name db = EnsureAccount pf org kind ownerRef name db"
  by (simp add: ensureAccountTx_def EnsureAccount_def)

lemma step_assets: "ledger_step pf l l' \<Longrightarrow> prefix (assets l) (assets l')"
proof (erule ledger_stepE)
  fix req res assume "Post pf req l = (res, l')"
  then show ?thesis
  proof (cases rule: Post_cases)
    case (recorded i)
    then show ?thesis using insert_entries_frame [OF recorded(5)] by simp
  qed simp_all
next
  fix code issuer res assume "EnsureAsset pf code issuer l = (res, l')"
  then obtain s xs where "l' = l\<lparr>asset_seq := s, assets := assets l @ xs\<rparr>" by (rule EnsureAsset_frame)
  then show ?thesis by simp
next
  fix org kind ownerRef name res assume "EnsureAccount pf org kind ownerRef name l = (res, l')"
  then show ?thesis by (cases rule: EnsureAccount_cases) simp_all
qed simp

text \<open>Everything the ledger is asked to keep is still there later.\<close>

definition grows :: "ledger_db \<Rightarrow> ledger_db \<Rightarrow> bool" where
  "grows l l' \<longleftrightarrow> prefix (transactions l) (transactions l') \<and> prefix (entries l) (entries l') \<and> prefix (accounts l) (accounts l') \<and> prefix (assets l) (assets l')"

lemma grows_refl [simp]: "grows l l" and grows_trans: "grows l l1 \<Longrightarrow> grows l1 l2 \<Longrightarrow> grows l l2"
  by (auto simp: grows_def intro: prefix_order.trans)

lemma steps_grow: "(ledger_step pf)\<^sup>*\<^sup>* l l' \<Longrightarrow> grows l l'"
proof (induction rule: rtranclp_induct)
  case (step l1 l2)
  have "grows l1 l2" using step_append_only [OF step(2)] step_assets [OF step(2)] by (simp add: grows_def)
  with step.IH show ?case by (rule grows_trans)
qed simp

lemma same_tables_grows: "same_tables l l' \<Longrightarrow> grows l l'"
  by (simp add: grows_def same_tables_def)

section \<open>Facts that last\<close>

definition known_asset :: "platform \<Rightarrow> ledger_db \<Rightarrow> string \<Rightarrow> string \<Rightarrow> AssetID \<Rightarrow> bool" where
  "known_asset pf l code issuer a \<longleftrightarrow> text_ok pf code \<and> text_ok pf issuer \<and> code \<noteq> [] \<and> (issuer = [] \<or> issuer_ok issuer)
     \<and> map_option asset_id (find (same_asset code (if issuer = [] then None else Some issuer)) (assets l)) = Some a"

definition named_asset :: "string \<Rightarrow> string \<Rightarrow> string \<Rightarrow> (string \<times> string) option" where
  "named_asset ty code issuer = (if ty = ''native'' then Some (''XLM'', []) else if code = [] \<or> issuer = [] then None else Some (code, issuer))"

definition known_external :: "platform \<Rightarrow> ledger_db \<Rightarrow> OrgID \<Rightarrow> AccountID \<Rightarrow> bool" where
  "known_external pf l org i \<longleftrightarrow> text_ok pf [] \<and> text_ok pf ''external''
     \<and> map_option acc_id (find (account_match pf (new_account 0 org AccountExternal [] ''external'')) (accounts l)) = Some i"

definition posted :: "platform \<Rightarrow> ledger_db \<Rightarrow> PostRequest \<Rightarrow> bool" where
  "posted pf l req \<longleftrightarrow> validate (map_order pf) req = None \<and> (\<forall>j. storable_tx pf (tx_row pf req j) \<and> tx_checks (tx_row pf req j))
     \<and> map_option tx_fingerprint (find_key l (Org req) (IdempotencyKey req)) = Some (fingerprint (sha256 pf) req)"

lemma find_lasts: "prefix xs ys \<Longrightarrow> map_option f (find P xs) = Some y \<Longrightarrow> map_option f (find P ys) = Some y"
  using find_prefix by fastforce

lemma facts_last:
  assumes "grows l l'"
  shows "known_asset pf l code issuer a \<Longrightarrow> known_asset pf l' code issuer a" "known_external pf l org i \<Longrightarrow> known_external pf l' org i"
    "posted pf l req \<Longrightarrow> posted pf l' req"
proof -
  have p: "prefix (transactions l) (transactions l')" "prefix (accounts l) (accounts l')" "prefix (assets l) (assets l')" using assms by (simp_all add: grows_def)
  show "known_asset pf l code issuer a \<Longrightarrow> known_asset pf l' code issuer a" unfolding known_asset_def by (elim conjE, intro conjI find_lasts [OF p(3)])
  show "known_external pf l org i \<Longrightarrow> known_external pf l' org i" unfolding known_external_def by (elim conjE, intro conjI find_lasts [OF p(2)])
  show "posted pf l req \<Longrightarrow> posted pf l' req" unfolding posted_def find_key_def by (elim conjE, intro conjI find_lasts [OF p(1)])
qed

lemma EnsureAsset_known:
  assumes "EnsureAsset pf code issuer l = (Inr a, l')"
  shows "known_asset pf l' code issuer a"
  using assms
  by (auto simp: EnsureAsset_def known_asset_def Let_def find_append_none same_asset_def split: if_splits option.splits)

lemma EnsureAsset_again:
  assumes "known_asset pf l code issuer a" "EnsureAsset pf code issuer l = (res, l')"
  shows "(res = Inr a \<or> res = Inl (Database SequenceExhausted)) \<and> same_tables l l'"
  using assms by (auto simp: EnsureAsset_def known_asset_def Let_def split: if_splits option.splits)

lemma external_checks: "account_checks (new_account i org AccountExternal [] ''external'')"
  by (simp add: account_checks_def new_account_def)

lemma external_match: "account_match pf (new_account i org AccountExternal [] ''external'') = account_match pf (new_account 0 org AccountExternal [] ''external'')"
  by (rule match_new_account)

lemma EnsureAccount_known:
  assumes "EnsureAccount pf org AccountExternal [] ''external'' l = (Inr i, l')"
  shows "known_external pf l' org i"
proof -
  have ok: "text_ok pf []" "text_ok pf ''external''" using assms by (auto simp: EnsureAccount_def split: if_splits)
  from assms show ?thesis
  proof (cases rule: EnsureAccount_cases)
    case (same s)
    then show ?thesis using ok external_match [of pf s org] by (auto simp: known_external_def)
  next
    case (new k)
    have "find (account_match pf (new_account 0 org AccountExternal [] ''external'')) (accounts l) = None"
      using new(4) external_match [of pf k org] by (simp add: find_None_iff)
    moreover have "account_match pf (new_account 0 org AccountExternal [] ''external'') (new_account k org AccountExternal [] ''external'')"
      by (simp add: account_match_def new_account_def)
    ultimately show ?thesis using ok new(1) by (simp add: known_external_def new(5) find_append_none) (simp add: new_account_def)
  qed
qed

lemma EnsureAccount_again:
  assumes "known_external pf l org i" "EnsureAccount pf org AccountExternal [] ''external'' l = (res, l')" "org \<noteq> 0"
  shows "(res = Inr i \<or> res = Inl (Database SequenceExhausted)) \<and> same_tables l l'"
proof -
  obtain r where r: "find (account_match pf (new_account 0 org AccountExternal [] ''external'')) (accounts l) = Some r" "acc_id r = i"
    using assms(1) by (auto simp: known_external_def)
  have m: "find (account_match pf (new_account j org AccountExternal [] ''external'')) (accounts l) = Some r" for j
    using r(1) external_match [of pf j org] by simp
  have "list_ex (account_conflict pf (new_account j org AccountExternal [] ''external'')) (accounts l)" for j
    using match_conflict [OF external_checks, of pf j org r] find_in_set [OF m [of j]] unfolding list_ex_iff by blast
  then show ?thesis using assms r(2)
    by (auto simp: EnsureAccount_def known_external_def Let_def external_checks m split: option.splits)
qed

lemma Post_posted:
  assumes "Post pf req l = (Inr i, l')"
  shows "posted pf l' req"
proof -
  have "validate (map_order pf) req = None" using assms by (auto simp: Post_def split: option.splits)
  then show ?thesis using Post_found [OF assms] unfolding posted_def by (metis option.simps(9))
qed

lemma Post_again:
  assumes "posted pf l req" "Post pf req l = (res, l')"
  shows "((\<exists>i. res = Inr i) \<or> res = Inl (Database SequenceExhausted)) \<and> same_tables l l'"
proof (cases "next_id (tx_seq l)")
  case None
  then show ?thesis using assms by (auto simp: posted_def Post_def insert_transaction_def)
next
  case (Some j)
  obtain t where "find_key l (Org req) (IdempotencyKey req) = Some t" "tx_fingerprint t = fingerprint (sha256 pf) req"
    using assms(1) by (auto simp: posted_def)
  then show ?thesis using assms Post_replay [OF _ Some] by (auto simp: posted_def)
qed

section \<open>The state of an ingester\<close>

definition orgs_named :: "ledger_db \<Rightarrow> bool" where
  "orgs_named l \<longleftrightarrow> (\<forall>a \<in> set (accounts l). acc_org a \<noteq> 0)"

text \<open>One address per account and one account per address.\<close>

definition distinct_tracked :: "TrackedAddress list \<Rightarrow> bool" where
  "distinct_tracked ts \<longleftrightarrow> distinct (map tk_address ts) \<and> distinct (map tk_account ts)"

definition tracked_ok :: "ingest_state \<Rightarrow> bool" where
  "tracked_ok st \<longleftrightarrow> distinct_tracked (ig_tracked st)
     \<and> (\<forall>t \<in> set (ig_tracked st). \<exists>a \<in> set (accounts (ig_ledger st)). acc_id a = tk_account t \<and> acc_org a = tk_org t)"

definition memo_ok :: "platform \<Rightarrow> ingest_state \<Rightarrow> bool" where
  "memo_ok pf st \<longleftrightarrow> (\<forall>org i. ig_external st org = Some i \<longrightarrow> known_external pf (ig_ledger st) org i)"

definition ingest_ok :: "platform \<Rightarrow> ingest_state \<Rightarrow> bool" where
  "ingest_ok pf st \<longleftrightarrow> books_ok (ig_ledger st) \<and> orgs_named (ig_ledger st) \<and> tracked_ok st \<and> memo_ok pf st"

text \<open>What applying movements leaves: the ledger after some of its own steps, and a memo that only grows.\<close>

definition advances :: "platform \<Rightarrow> ingest_state \<Rightarrow> ingest_state \<Rightarrow> bool" where
  "advances pf st st' \<longleftrightarrow> (ledger_step pf)\<^sup>*\<^sup>* (ig_ledger st) (ig_ledger st') \<and> ig_tracked st' = ig_tracked st \<and> ig_people st' = ig_people st
     \<and> ig_grants st' = ig_grants st \<and> ig_cursors st' = ig_cursors st \<and> (memo_ok pf st \<longrightarrow> memo_ok pf st')"

lemma advances_refl [simp]: "advances pf st st" by (simp add: advances_def)

lemma advances_trans: "advances pf st st1 \<Longrightarrow> advances pf st1 st2 \<Longrightarrow> advances pf st st2"
  by (auto simp: advances_def intro: rtranclp_trans)

lemma step_orgs_named: "ledger_step pf l l' \<Longrightarrow> orgs_named l \<Longrightarrow> orgs_named l'"
proof (erule ledger_stepE)
  fix req res assume l: "orgs_named l" and p: "Post pf req l = (res, l')"
  from p show ?thesis
  proof (cases rule: Post_cases)
    case (recorded i)
    then show ?thesis using l insert_entries_frame [OF recorded(5)] by (simp add: orgs_named_def)
  qed (use l in \<open>simp_all add: orgs_named_def\<close>)
next
  fix code issuer res assume l: "orgs_named l" and e: "EnsureAsset pf code issuer l = (res, l')"
  from e obtain s xs where "l' = l\<lparr>asset_seq := s, assets := assets l @ xs\<rparr>" by (rule EnsureAsset_frame)
  then show ?thesis using l by (simp add: orgs_named_def)
next
  fix org kind ownerRef name res assume l: "orgs_named l" and e: "EnsureAccount pf org kind ownerRef name l = (res, l')"
  show ?thesis
  proof (cases "org = 0")
    case True
    then show ?thesis using e l by (simp add: EnsureAccount_def)
  next
    case False
    from e show ?thesis by (cases rule: EnsureAccount_cases) (use l False in \<open>auto simp: orgs_named_def new_account_def\<close>)
  qed
qed (simp add: orgs_named_def)

lemma steps_orgs_named: "(ledger_step pf)\<^sup>*\<^sup>* l l' \<Longrightarrow> orgs_named l \<Longrightarrow> orgs_named l'"
  by (induction rule: rtranclp_induct) (auto intro: step_orgs_named)

lemma memo_grows: "memo_ok pf st \<Longrightarrow> grows (ig_ledger st) l \<Longrightarrow> memo_ok pf (st\<lparr>ig_ledger := l\<rparr>)"
  using facts_last(2) by (auto simp: memo_ok_def)

lemma advances_step: "(ledger_step pf)\<^sup>*\<^sup>* (ig_ledger st) l \<Longrightarrow> advances pf st (st\<lparr>ig_ledger := l\<rparr>)"
  using memo_grows steps_grow by (auto simp: advances_def)

lemma advances_ledger: "ledger_step pf (ig_ledger st) l \<Longrightarrow> advances pf st (st\<lparr>ig_ledger := l\<rparr>)"
  by (rule advances_step) (rule r_into_rtranclp)

lemma tracked_grows: "tracked_ok st \<Longrightarrow> set (accounts (ig_ledger st)) \<subseteq> set (accounts (ig_ledger st')) \<Longrightarrow> ig_tracked st' = ig_tracked st \<Longrightarrow> tracked_ok st'"
  unfolding tracked_ok_def by (metis subsetD)

lemma advances_ok:
  assumes "advances pf st st'" "ingest_ok pf st"
  shows "ingest_ok pf st'"
proof -
  have g: "(ledger_step pf)\<^sup>*\<^sup>* (ig_ledger st) (ig_ledger st')" "ig_tracked st' = ig_tracked st" "memo_ok pf st'"
    using assms by (auto simp: advances_def ingest_ok_def)
  have "set (accounts (ig_ledger st)) \<subseteq> set (accounts (ig_ledger st'))"
    using steps_grow [OF g(1)] by (auto simp: grows_def prefix_def)
  then have "tracked_ok st'" using assms(2) g(2) tracked_grows [of st st'] by (simp add: ingest_ok_def)
  then show ?thesis using assms(2) g steps_books_ok [OF g(1)] steps_orgs_named [OF g(1)] by (simp add: ingest_ok_def)
qed

lemma tracked_org: "ingest_ok pf st \<Longrightarrow> t \<in> set (ig_tracked st) \<Longrightarrow> tk_org t \<noteq> 0"
  unfolding ingest_ok_def tracked_ok_def orgs_named_def by metis

section \<open>Each part advances\<close>

lemma externalFor_advances:
  assumes "externalFor pf org st = (res, st')" "org \<noteq> 0" "memo_ok pf st"
  shows "advances pf st st' \<and> (\<forall>i. res = Inr i \<longrightarrow> known_external pf (ig_ledger st') org i)"
proof (cases "ig_external st org")
  case (Some i)
  then show ?thesis using assms by (auto simp: externalFor_def memo_ok_def)
next
  case None
  obtain r l where e: "EnsureAccount pf org AccountExternal [] ''external'' (ig_ledger st) = (r, l)" by fastforce
  have s: "ledger_step pf (ig_ledger st) l" by (rule step_account [OF e])
  have adv: "advances pf st (st\<lparr>ig_ledger := l\<rparr>)" by (rule advances_ledger [OF s])
  show ?thesis
  proof (cases r)
    case (Inl x)
    then show ?thesis using assms(1) None adv by (auto simp: externalFor_def with_ledger_def ensureAccountTx_eq [OF assms(2)] e)
  next
    case (Inr i)
    have k: "known_external pf l org i" using EnsureAccount_known e Inr by simp
    have st': "st' = st\<lparr>ig_ledger := l, ig_external := (ig_external st)(org \<mapsto> i)\<rparr>" "res = Inr i"
      using assms(1) None Inr by (simp_all add: externalFor_def with_ledger_def ensureAccountTx_eq [OF assms(2)] e)
    have "memo_ok pf st'" using adv assms(3) k by (auto simp: advances_def memo_ok_def st')
    then show ?thesis using adv k by (simp add: advances_def st')
  qed
qed

lemma resolveAsset_advances:
  assumes "resolveAsset pf ty code issuer st = (res, st')"
  shows "advances pf st st' \<and> (\<forall>a. res = Inr a \<longrightarrow> (\<exists>c i. named_asset ty code issuer = Some (c, i) \<and> known_asset pf (ig_ledger st') c i a))"
proof -
  have e: "advances pf st (st\<lparr>ig_ledger := snd (EnsureAsset pf c i (ig_ledger st))\<rparr>)" for c i
    by (rule advances_ledger, rule step_asset, rule prod.collapse [symmetric])
  have k: "known_asset pf (snd (EnsureAsset pf c i l)) c i a" if "fst (EnsureAsset pf c i l) = Inr a" for c i l a
    by (rule EnsureAsset_known [of _ _ _ l]) (simp add: prod_eq_iff that)
  have k': "known_asset pf (snd (EnsureAsset pf c i l)) c i a" if "map_sum OnLedger id (fst (EnsureAsset pf c i l)) = Inr a" for c i l a
    using that by (cases "fst (EnsureAsset pf c i l)") (auto intro: k)
  show ?thesis using assms e k'
    by (auto simp: resolveAsset_def with_ledger_def named_asset_def split: if_splits)
qed

text \<open>What the entries of a movement are, with the counterparties the ledger has on record.\<close>

definition side_is :: "platform \<Rightarrow> ledger_db \<Rightarrow> TxKind \<Rightarrow> TrackedAddress option \<Rightarrow> AssetID \<Rightarrow> stroops \<Rightarrow> entry list \<Rightarrow> bool" where
  "side_is pf l kind side a amount es \<longleftrightarrow> (case side of
      None \<Rightarrow> es = []
    | Some t \<Rightarrow> \<exists>x. known_external pf l (tk_org t) x \<and> es = [\<lparr>en_org = tk_org t, en_kind = kind, en_postings = two_lines (tk_account t) x a amount\<rparr>])"

definition entries_are :: "platform \<Rightarrow> ledger_db \<Rightarrow> TrackedAddress option \<Rightarrow> TrackedAddress option \<Rightarrow> AssetID \<Rightarrow> stroops \<Rightarrow> entry list \<Rightarrow> bool" where
  "entries_are pf l f t a amount es \<longleftrightarrow>
     (if same_org f t
      then es = [\<lparr>en_org = tk_org (the f), en_kind = ''send'', en_postings = two_lines (tk_account (the f)) (tk_account (the t)) a (- amount)\<rparr>]
      else \<exists>os is1. side_is pf l ''withdrawal'' f a (- amount) os \<and> side_is pf l ''deposit'' t a amount is1 \<and> es = os @ is1)"

lemma side_is_grows: "side_is pf l kind side a amount es \<Longrightarrow> grows l l' \<Longrightarrow> side_is pf l' kind side a amount es"
  using facts_last(2) by (fastforce simp: side_is_def split: option.splits)

lemma entries_are_grows: "entries_are pf l f t a amount es \<Longrightarrow> grows l l' \<Longrightarrow> entries_are pf l' f t a amount es"
  unfolding entries_are_def by (auto split: if_splits intro: side_is_grows)

lemma advances_grows: "advances pf st st' \<Longrightarrow> grows (ig_ledger st) (ig_ledger st')"
  unfolding advances_def by (blast intro: steps_grow)

lemma advances_memo: "advances pf st st' \<Longrightarrow> memo_ok pf st \<Longrightarrow> memo_ok pf st'"
  by (simp add: advances_def)

definition named_org :: "TrackedAddress option \<Rightarrow> bool" where
  "named_org side \<longleftrightarrow> (\<forall>t. side = Some t \<longrightarrow> tk_org t \<noteq> 0)"

lemma side_entry_advances:
  assumes "side_entry pf kind side a amount st = (res, st')" "named_org side" "memo_ok pf st"
  shows "advances pf st st' \<and> (\<forall>es. res = Inr es \<longrightarrow> side_is pf (ig_ledger st') kind side a amount es)"
proof (cases side)
  case None
  then show ?thesis using assms(1) by (auto simp: side_entry_def side_is_def)
next
  case (Some t)
  obtain r st1 where e: "externalFor pf (tk_org t) st = (r, st1)" by fastforce
  have "tk_org t \<noteq> 0" using assms(2) Some by (simp add: named_org_def)
  then show ?thesis using externalFor_advances [OF e _ assms(3)] assms(1) Some
    by (auto simp: side_entry_def side_is_def e split: sum.splits)
qed

lemma entriesFor_advances:
  assumes "entriesFor pf f t a amount st = (res, st')" "named_org f" "named_org t" "memo_ok pf st"
  shows "advances pf st st' \<and> (\<forall>es. res = Inr es \<longrightarrow> entries_are pf (ig_ledger st') f t a amount es)"
proof (cases "same_org f t")
  case True
  then show ?thesis using assms(1) by (auto simp: entriesFor_def entries_are_def)
next
  case False
  obtain r1 st1 where 1: "side_entry pf ''withdrawal'' f a (- amount) st = (r1, st1)" by fastforce
  have a1: "advances pf st st1" "\<forall>es. r1 = Inr es \<longrightarrow> side_is pf (ig_ledger st1) ''withdrawal'' f a (- amount) es"
    using side_entry_advances [OF 1 assms(2,4)] by simp_all
  show ?thesis
  proof (cases r1)
    case (Inl e)
    then show ?thesis using assms(1) False 1 a1 by (auto simp: entriesFor_def)
  next
    case (Inr os)
    obtain r2 st2 where 2: "side_entry pf ''deposit'' t a amount st1 = (r2, st2)" by fastforce
    have a2: "advances pf st1 st2" "\<forall>es. r2 = Inr es \<longrightarrow> side_is pf (ig_ledger st2) ''deposit'' t a amount es"
      using side_entry_advances [OF 2 assms(3) advances_memo [OF a1(1) assms(4)]] by simp_all
    have o: "side_is pf (ig_ledger st2) ''withdrawal'' f a (- amount) os"
      by (rule side_is_grows [OF _ advances_grows [OF a2(1)]]) (simp add: a1(2) Inr)
    have eq: "entriesFor pf f t a amount st = (case r2 of Inl e \<Rightarrow> (Inl e, st2) | Inr is1 \<Rightarrow> (Inr (os @ is1), st2))"
      using False by (simp add: entriesFor_def 1 2 Inr split: sum.split)
    have adv: "advances pf st st'" using eq assms(1) advances_trans [OF a1(1) a2(1)] by (cases r2) simp_all
    have "entries_are pf (ig_ledger st') f t a amount es" if "res = Inr es" for es
    proof -
      obtain is1 where "r2 = Inr is1" "es = os @ is1" "st' = st2" using eq assms(1) \<open>res = Inr es\<close> by (cases r2) auto
      then show ?thesis using False o a2(2) unfolding entries_are_def by (simp only: if_False) blast
    qed
    with adv show ?thesis by blast
  qed
qed

lemma Post_advances: "Post pf req (ig_ledger st) = (res, l) \<Longrightarrow> advances pf st (st\<lparr>ig_ledger := l\<rparr>)"
  by (rule advances_ledger) (rule step_post)

lemma open_advances:
  assumes "open_balance pf r key f a amount st = (res, st')" "tk_org f \<noteq> 0" "memo_ok pf st"
  shows "advances pf st st'"
proof (cases "sint (amount - Balance (ig_ledger st) (tk_org f) (tk_account f) a) \<le> 0")
  case True
  then show ?thesis using assms(1) by (simp add: open_balance_def Let_def)
next
  case False
  let ?short = "amount - Balance (ig_ledger st) (tk_org f) (tk_account f) a"
  obtain x st1 where e: "externalFor pf (tk_org f) st = (x, st1)" by fastforce
  have a1: "advances pf st st1" using externalFor_advances [OF e assms(2,3)] by simp
  show ?thesis
  proof (cases x)
    case (Inl y)
    then show ?thesis using assms(1) False e a1 by (simp add: open_balance_def Let_def)
  next
    case (Inr external)
    obtain p l where p: "Post pf (opening_request r key f external a ?short) (ig_ledger st1) = (p, l)" by fastforce
    show ?thesis using assms(1) False e Inr p advances_trans [OF a1 Post_advances [OF p]]
      by (cases p) (auto simp: open_balance_def Let_def with_ledger_def)
  qed
qed

lemma post_entry_advances:
  assumes "post_entry pf r key f a amount e st = (res, st')" "named_org f" "memo_ok pf st"
  shows "advances pf st st' \<and> (res = None \<longrightarrow> posted pf (ig_ledger st') (entry_request r key e))"
proof -
  let ?req = "entry_request r key e"
  obtain p l where p: "Post pf ?req (ig_ledger st) = (p, l)" by fastforce
  have a1: "advances pf st (st\<lparr>ig_ledger := l\<rparr>)" by (rule Post_advances [OF p])
  show ?thesis
  proof (cases "p = Inl ErrInsufficientFunds \<and> of_org f (en_org e)")
    case False
    then show ?thesis using assms(1) p a1 Post_posted [of pf ?req "ig_ledger st" _ l]
      by (cases p) (auto simp: post_entry_def Let_def)
  next
    case True
    then obtain t where t: "f = Some t" "tk_org t \<noteq> 0" using assms(2) by (auto simp: of_org_def named_org_def split: option.splits)
    obtain x st1 where o: "open_balance pf r key t a amount (st\<lparr>ig_ledger := l\<rparr>) = (x, st1)" by fastforce
    have a2: "advances pf st st1"
      using open_advances [OF o t(2) advances_memo [OF a1 assms(3)]] advances_trans [OF a1] by blast
    show ?thesis
    proof (cases x)
      case (Some y)
      then show ?thesis using assms(1) p True o a2 t(1) by (auto simp: post_entry_def Let_def)
    next
      case None
      obtain q l2 where q: "Post pf ?req (ig_ledger st1) = (q, l2)" by fastforce
      then show ?thesis using assms(1) p True o t(1) None advances_trans [OF a2 Post_advances [OF q]] Post_posted [of pf ?req "ig_ledger st1" _ l2]
        by (cases q) (auto simp: post_entry_def Let_def)
    qed
  qed
qed

lemma post_entries_advances:
  assumes "post_entries pf r key f a amount es st = (res, st')" "named_org f" "memo_ok pf st"
  shows "advances pf st st' \<and> (res = None \<longrightarrow> (\<forall>e \<in> set es. posted pf (ig_ledger st') (entry_request r key e)))"
  using assms
proof (induction es arbitrary: st)
  case (Cons e es)
  obtain x st1 where 1: "post_entry pf r key f a amount e st = (x, st1)" by fastforce
  have a1: "advances pf st st1" "x = None \<longrightarrow> posted pf (ig_ledger st1) (entry_request r key e)"
    using post_entry_advances [OF 1 Cons.prems(2,3)] by simp_all
  show ?case
  proof (cases x)
    case (Some y)
    then show ?thesis using Cons.prems(1) 1 a1(1) by auto
  next
    case None
    then have rest: "post_entries pf r key f a amount es st1 = (res, st')" using Cons.prems(1) 1 by simp
    note IH = Cons.IH [OF rest Cons.prems(2) advances_memo [OF a1(1) Cons.prems(3)]]
    have "posted pf (ig_ledger st') (entry_request r key e)"
      using a1(2) None facts_last(3) [OF advances_grows [of pf st1 st']] IH by blast
    then show ?thesis using IH advances_trans [OF a1(1)] by auto
  qed
qed simp

section \<open>A movement\<close>

text \<open>A movement is settled when everything it says for the addresses that are tracked is in the books.\<close>

definition settled :: "platform \<Rightarrow> Record \<Rightarrow> nat \<Rightarrow> Movement \<Rightarrow> TrackedAddress option \<Rightarrow> TrackedAddress option \<Rightarrow> ledger_db \<Rightarrow> bool" where
  "settled pf r n m f t l \<longleftrightarrow> f = None \<and> t = None \<or>
     mv_unreadable m = None \<and> 0 < Sign (mv_amount m) \<and>
     (\<exists>c i a es. named_asset (mv_asset_type m) (mv_code m) (mv_issuer m) = Some (c, i) \<and> known_asset pf l c i a
        \<and> entries_are pf l f t a (mv_amount m) es \<and> (\<forall>e \<in> set es. posted pf l (entry_request r (record_key r n) e)))"

lemma settled_grows:
  assumes "settled pf r n m f t l" "grows l l'"
  shows "settled pf r n m f t l'"
proof (cases "f = None \<and> t = None")
  case True
  then show ?thesis by (simp add: settled_def)
next
  case False
  then obtain c i a es where s: "mv_unreadable m = None" "0 < Sign (mv_amount m)" "named_asset (mv_asset_type m) (mv_code m) (mv_issuer m) = Some (c, i)"
    "known_asset pf l c i a" "entries_are pf l f t a (mv_amount m) es" "\<forall>e \<in> set es. posted pf l (entry_request r (record_key r n) e)"
    using assms(1) unfolding settled_def by metis
  have "known_asset pf l' c i a" "entries_are pf l' f t a (mv_amount m) es" "\<forall>e \<in> set es. posted pf l' (entry_request r (record_key r n) e)"
    using facts_last(1) [OF assms(2) s(4)] entries_are_grows [OF s(5) assms(2)] facts_last(3) [OF assms(2)] s(6) by simp_all
  then show ?thesis using s(1-3) unfolding settled_def by blast
qed

lemma applyMovement_advances:
  assumes "applyMovement pf r n m st = (res, st')" "ingest_ok pf st"
  shows "advances pf st st' \<and> (res = None \<longrightarrow> (\<exists>f t. TrackedAddress_of pf (mv_from m) st = Inr f \<and> TrackedAddress_of pf (mv_to m) st = Inr t
    \<and> settled pf r n m f t (ig_ledger st')))"
proof (cases "\<exists>f t. TrackedAddress_of pf (mv_from m) st = Inr f \<and> TrackedAddress_of pf (mv_to m) st = Inr t \<and> (f \<noteq> None \<or> t \<noteq> None)
    \<and> mv_unreadable m = None \<and> 0 < Sign (mv_amount m)")
  case False
  then show ?thesis using assms(1)
    by (auto simp: applyMovement_def settled_def not_less split: sum.splits option.splits if_splits)
next
  case True
  then obtain f t where ft: "TrackedAddress_of pf (mv_from m) st = Inr f" "TrackedAddress_of pf (mv_to m) st = Inr t" "f \<noteq> None \<or> t \<noteq> None"
    "mv_unreadable m = None" "0 < Sign (mv_amount m)" by blast
  have named: "named_org f" "named_org t" using ft(1,2) tracked_org [OF assms(2)]
    by (auto simp: named_org_def TrackedAddress_of_def dest: find_in_set split: if_splits)
  have memo: "memo_ok pf st" using assms(2) by (simp add: ingest_ok_def)
  obtain x st1 where 1: "resolveAsset pf (mv_asset_type m) (mv_code m) (mv_issuer m) st = (x, st1)" by fastforce
  have a1: "advances pf st st1" and k1: "\<forall>a. x = Inr a \<longrightarrow> (\<exists>c i. named_asset (mv_asset_type m) (mv_code m) (mv_issuer m) = Some (c, i) \<and> known_asset pf (ig_ledger st1) c i a)"
    using resolveAsset_advances [OF 1] by simp_all
  have body: "applyMovement pf r n m st = (case x of Inl e \<Rightarrow> (Some e, st1)
      | Inr a \<Rightarrow> (case entriesFor pf f t a (mv_amount m) st1 of (Inl e, st2) \<Rightarrow> (Some e, st2)
          | (Inr es, st2) \<Rightarrow> post_entries pf r (record_key r n) f a (mv_amount m) es st2))"
    using ft by (auto simp: applyMovement_def 1 split: sum.split)
  show ?thesis
  proof (cases x)
    case (Inl e)
    then show ?thesis using body assms(1) a1 by auto
  next
    case (Inr a)
    obtain y st2 where 2: "entriesFor pf f t a (mv_amount m) st1 = (y, st2)" by fastforce
    have a2: "advances pf st1 st2" and k2: "\<forall>es. y = Inr es \<longrightarrow> entries_are pf (ig_ledger st2) f t a (mv_amount m) es"
      using entriesFor_advances [OF 2 named advances_memo [OF a1 memo]] by simp_all
    show ?thesis
    proof (cases y)
      case (Inl e)
      then show ?thesis using body assms(1) Inr 2 advances_trans [OF a1 a2] by auto
    next
      case y: (Inr es)
      have 3: "post_entries pf r (record_key r n) f a (mv_amount m) es st2 = (res, st')" using body assms(1) Inr 2 y by simp
      have a3: "advances pf st2 st'" and k3: "res = None \<longrightarrow> (\<forall>e \<in> set es. posted pf (ig_ledger st') (entry_request r (record_key r n) e))"
        using post_entries_advances [OF 3 named(1) advances_memo [OF a2 advances_memo [OF a1 memo]]] by simp_all
      obtain c i where ci: "named_asset (mv_asset_type m) (mv_code m) (mv_issuer m) = Some (c, i)" "known_asset pf (ig_ledger st1) c i a" using k1 Inr by blast
      have "known_asset pf (ig_ledger st') c i a"
        by (rule facts_last(1) [OF advances_grows [OF advances_trans [OF a2 a3]] ci(2)])
      moreover have "entries_are pf (ig_ledger st') f t a (mv_amount m) es"
        by (rule entries_are_grows [OF _ advances_grows [OF a3]]) (simp add: k2 y)
      ultimately have "res = None \<longrightarrow> settled pf r n m f t (ig_ledger st')"
        using ft(4,5) ci(1) k3 unfolding settled_def by blast
      then show ?thesis using ft(1,2) advances_trans [OF a1 advances_trans [OF a2 a3]] by blast
    qed
  qed
qed

section \<open>Delivered again\<close>

text \<open>Nothing but drawn sequence values, and a memo that knows no more than the ledger.\<close>

definition quiet :: "platform \<Rightarrow> ingest_state \<Rightarrow> ingest_state \<Rightarrow> bool" where
  "quiet pf st st' \<longleftrightarrow> same_tables (ig_ledger st) (ig_ledger st') \<and> ig_tracked st' = ig_tracked st \<and> ig_people st' = ig_people st
     \<and> ig_grants st' = ig_grants st \<and> ig_cursors st' = ig_cursors st \<and> memo_ok pf st'"

lemma quiet_refl: "memo_ok pf st \<Longrightarrow> quiet pf st st" by (simp add: quiet_def)

lemma quiet_trans: "quiet pf st st1 \<Longrightarrow> quiet pf st1 st2 \<Longrightarrow> quiet pf st st2"
  by (auto simp: quiet_def intro: same_tables_trans)

lemma quiet_grows: "quiet pf st st' \<Longrightarrow> grows (ig_ledger st) (ig_ledger st')"
  by (simp add: quiet_def same_tables_grows)

lemma quiet_ledger: "memo_ok pf st \<Longrightarrow> same_tables (ig_ledger st) l \<Longrightarrow> quiet pf st (st\<lparr>ig_ledger := l\<rparr>)"
  using memo_grows same_tables_grows by (simp add: quiet_def)

abbreviation exhausted :: ingest_error where "exhausted \<equiv> OnLedger (Database SequenceExhausted)"

lemma externalFor_again:
  assumes "known_external pf (ig_ledger st) org x" "externalFor pf org st = (res, st')" "org \<noteq> 0" "memo_ok pf st"
  shows "(res = Inr x \<or> res = Inl exhausted) \<and> quiet pf st st'"
proof (cases "ig_external st org")
  case (Some i)
  then have "known_external pf (ig_ledger st) org i" using assms(4) by (simp add: memo_ok_def)
  then have "i = x" using assms(1) by (auto simp: known_external_def)
  then show ?thesis using assms(2,4) Some by (auto simp: externalFor_def quiet_refl)
next
  case None
  obtain r l where e: "EnsureAccount pf org AccountExternal [] ''external'' (ig_ledger st) = (r, l)" by fastforce
  have r: "r = Inr x \<or> r = Inl (Database SequenceExhausted)" "same_tables (ig_ledger st) l" using EnsureAccount_again [OF assms(1) e assms(3)] by simp_all
  have q: "quiet pf st (st\<lparr>ig_ledger := l\<rparr>)" by (rule quiet_ledger [OF assms(4) r(2)])
  have kx: "known_external pf l org x" by (rule facts_last(2) [OF same_tables_grows [OF r(2)] assms(1)])
  have m: "memo_ok pf (st\<lparr>ig_ledger := l, ig_external := (ig_external st)(org \<mapsto> x)\<rparr>)" using q kx by (auto simp: quiet_def memo_ok_def)
  show ?thesis using assms(2) None r(1) q m
    by (auto simp: externalFor_def with_ledger_def ensureAccountTx_eq [OF assms(3)] e quiet_def)
qed

lemma resolveAsset_again:
  assumes "named_asset ty code issuer = Some (c, i)" "known_asset pf (ig_ledger st) c i a" "resolveAsset pf ty code issuer st = (res, st')" "memo_ok pf st"
  shows "(res = Inr a \<or> res = Inl exhausted) \<and> quiet pf st st'"
proof -
  obtain r l where e: "EnsureAsset pf c i (ig_ledger st) = (r, l)" by fastforce
  have "resolveAsset pf ty code issuer st = with_ledger st (r, l)"
    using assms(1) e by (auto simp: named_asset_def resolveAsset_def split: if_splits)
  then show ?thesis using EnsureAsset_again [OF assms(2) e] quiet_ledger [OF assms(4)] assms(3) by (auto simp: with_ledger_def)
qed

lemma side_entry_again:
  assumes "side_is pf (ig_ledger st) kind side a amount es" "side_entry pf kind side a amount st = (res, st')" "named_org side" "memo_ok pf st"
  shows "(res = Inr es \<or> res = Inl exhausted) \<and> quiet pf st st'"
proof (cases side)
  case None
  then show ?thesis using assms by (auto simp: side_is_def side_entry_def quiet_refl)
next
  case (Some t)
  then obtain x where x: "known_external pf (ig_ledger st) (tk_org t) x"
    "es = [\<lparr>en_org = tk_org t, en_kind = kind, en_postings = two_lines (tk_account t) x a amount\<rparr>]" using assms(1) by (auto simp: side_is_def)
  obtain r st1 where e: "externalFor pf (tk_org t) st = (r, st1)" by fastforce
  show ?thesis using externalFor_again [OF x(1) e _ assms(4)] assms(2,3) Some x(2) by (auto simp: side_entry_def e named_org_def)
qed

lemma entriesFor_again:
  assumes "entries_are pf (ig_ledger st) f t a amount es" "entriesFor pf f t a amount st = (res, st')" "named_org f" "named_org t" "memo_ok pf st"
  shows "(res = Inr es \<or> res = Inl exhausted) \<and> quiet pf st st'"
proof (cases "same_org f t")
  case True
  then show ?thesis using assms by (auto simp: entries_are_def entriesFor_def quiet_refl)
next
  case False
  then obtain os is1 where es: "side_is pf (ig_ledger st) ''withdrawal'' f a (- amount) os" "side_is pf (ig_ledger st) ''deposit'' t a amount is1" "es = os @ is1"
    using assms(1) unfolding entries_are_def by (simp only: if_False) blast
  obtain r1 st1 where 1: "side_entry pf ''withdrawal'' f a (- amount) st = (r1, st1)" by fastforce
  have q1: "r1 = Inr os \<or> r1 = Inl exhausted" "quiet pf st st1" using side_entry_again [OF es(1) 1 assms(3,5)] by simp_all
  obtain r2 st2 where 2: "side_entry pf ''deposit'' t a amount st1 = (r2, st2)" by fastforce
  have "memo_ok pf st1" using q1(2) by (simp add: quiet_def)
  then have q2: "r2 = Inr is1 \<or> r2 = Inl exhausted" "quiet pf st1 st2"
    using side_entry_again [OF side_is_grows [OF es(2) quiet_grows [OF q1(2)]] 2 assms(4)] by simp_all
  show ?thesis
    using assms(2) False 1 2 q1 q2 quiet_trans [OF q1(2) q2(2)] es(3) by (auto simp: entriesFor_def)
qed

lemma post_entry_again:
  assumes "posted pf (ig_ledger st) (entry_request r key e)" "post_entry pf r key f a amount e st = (res, st')" "memo_ok pf st"
  shows "(res = None \<or> res = Some exhausted) \<and> quiet pf st st'"
proof -
  obtain p l where p: "Post pf (entry_request r key e) (ig_ledger st) = (p, l)" by fastforce
  show ?thesis using Post_again [OF assms(1) p] quiet_ledger [OF assms(3)] assms(2) p by (auto simp: post_entry_def Let_def)
qed

lemma post_entries_again:
  assumes "\<forall>e \<in> set es. posted pf (ig_ledger st) (entry_request r key e)" "post_entries pf r key f a amount es st = (res, st')" "memo_ok pf st"
  shows "(res = None \<or> res = Some exhausted) \<and> quiet pf st st'"
  using assms
proof (induction es arbitrary: st)
  case Nil
  then show ?case by (simp add: quiet_refl)
next
  case (Cons e es)
  obtain x st1 where 1: "post_entry pf r key f a amount e st = (x, st1)" by fastforce
  have q: "x = None \<or> x = Some exhausted" "quiet pf st st1" using post_entry_again [OF _ 1] Cons.prems by simp_all
  show ?case
  proof (cases x)
    case (Some y)
    then show ?thesis using Cons.prems(2) 1 q by auto
  next
    case None
    have "\<forall>e \<in> set es. posted pf (ig_ledger st1) (entry_request r key e)" using Cons.prems(1) facts_last(3) [OF quiet_grows [OF q(2)]] by simp
    moreover have "memo_ok pf st1" using q(2) by (simp add: quiet_def)
    ultimately show ?thesis using Cons.IH [of st1] Cons.prems(2) 1 None quiet_trans [OF q(2)] by auto
  qed
qed

lemma applyMovement_again:
  assumes "settled pf r n m f t (ig_ledger st)" "TrackedAddress_of pf (mv_from m) st = Inr f" "TrackedAddress_of pf (mv_to m) st = Inr t"
    "applyMovement pf r n m st = (res, st')" "ingest_ok pf st"
  shows "(res = None \<or> res = Some exhausted) \<and> quiet pf st st'"
proof (cases "f = None \<and> t = None")
  case True
  then show ?thesis using assms by (auto simp: applyMovement_def ingest_ok_def quiet_refl)
next
  case False
  then obtain c i a es where s: "mv_unreadable m = None" "0 < Sign (mv_amount m)" "named_asset (mv_asset_type m) (mv_code m) (mv_issuer m) = Some (c, i)"
    "known_asset pf (ig_ledger st) c i a" "entries_are pf (ig_ledger st) f t a (mv_amount m) es"
    "\<forall>e \<in> set es. posted pf (ig_ledger st) (entry_request r (record_key r n) e)"
    using assms(1) unfolding settled_def by metis
  have named: "named_org f" "named_org t" using assms(2,3) tracked_org [OF assms(5)]
    by (auto simp: named_org_def TrackedAddress_of_def dest: find_in_set split: if_splits)
  have memo: "memo_ok pf st" using assms(5) by (simp add: ingest_ok_def)
  obtain x st1 where 1: "resolveAsset pf (mv_asset_type m) (mv_code m) (mv_issuer m) st = (x, st1)" by fastforce
  have q1: "x = Inr a \<or> x = Inl exhausted" "quiet pf st st1" using resolveAsset_again [OF s(3,4) 1 memo] by simp_all
  obtain y st2 where 2: "entriesFor pf f t a (mv_amount m) st1 = (y, st2)" by fastforce
  have q2: "y = Inr es \<or> y = Inl exhausted" "quiet pf st1 st2"
    using entriesFor_again [OF entries_are_grows [OF s(5) quiet_grows [OF q1(2)]] 2 named] q1(2) by (simp_all add: quiet_def)
  have q12: "quiet pf st st2" by (rule quiet_trans [OF q1(2) q2(2)])
  obtain z st3 where 3: "post_entries pf r (record_key r n) f a (mv_amount m) es st2 = (z, st3)" by fastforce
  have "\<forall>e \<in> set es. posted pf (ig_ledger st2) (entry_request r (record_key r n) e)" using s(6) facts_last(3) [OF quiet_grows [OF q12]] by simp
  then have q3: "z = None \<or> z = Some exhausted" "quiet pf st2 st3" using post_entries_again [OF _ 3] q2(2) by (simp_all add: quiet_def)
  have "applyMovement pf r n m st = (case x of Inl e \<Rightarrow> (Some e, st1) | Inr a' \<Rightarrow> (case y of Inl e \<Rightarrow> (Some e, st2) | Inr es' \<Rightarrow> (z, st3)))"
    using q1(1) q2(1) False s(1,2) by (elim disjE) (auto simp: applyMovement_def assms(2,3) 1 2 3 not_le split del: option.split)
  then show ?thesis using assms(4) q1 q2(1) q3 q12 quiet_trans [OF q12 q3(2)] by (auto split: sum.splits)
qed

section \<open>A record\<close>

lemma TrackedAddress_of_frame: "ig_tracked st' = ig_tracked st \<Longrightarrow> TrackedAddress_of pf x st' = TrackedAddress_of pf x st"
  by (simp add: TrackedAddress_of_def)

lemma apply_movements_advances:
  assumes "apply_movements pf r n ms st = (res, st')" "ingest_ok pf st"
  shows "advances pf st st' \<and> (res = None \<longrightarrow> (\<forall>k < length ms. \<exists>f t. TrackedAddress_of pf (mv_from (ms ! k)) st = Inr f
    \<and> TrackedAddress_of pf (mv_to (ms ! k)) st = Inr t \<and> settled pf r (n + k) (ms ! k) f t (ig_ledger st')))"
  using assms
proof (induction ms arbitrary: n st)
  case (Cons m ms)
  obtain x st1 where 1: "applyMovement pf r n m st = (x, st1)" by fastforce
  have a1: "advances pf st st1" and k1: "x = None \<longrightarrow> (\<exists>f t. TrackedAddress_of pf (mv_from m) st = Inr f \<and> TrackedAddress_of pf (mv_to m) st = Inr t
      \<and> settled pf r n m f t (ig_ledger st1))"
    using applyMovement_advances [OF 1 Cons.prems(2)] by simp_all
  show ?case
  proof (cases x)
    case (Some e)
    then show ?thesis using Cons.prems(1) 1 a1 by auto
  next
    case None
    have rest: "apply_movements pf r (Suc n) ms st1 = (res, st')" using Cons.prems(1) 1 None by simp
    note IH = Cons.IH [OF rest advances_ok [OF a1 Cons.prems(2)]]
    have tr: "TrackedAddress_of pf y st1 = TrackedAddress_of pf y st" for y using a1 by (intro TrackedAddress_of_frame) (simp add: advances_def)
    have g: "grows (ig_ledger st1) (ig_ledger st')" using IH advances_grows by blast
    have "\<exists>f t. TrackedAddress_of pf (mv_from ((m # ms) ! k)) st = Inr f \<and> TrackedAddress_of pf (mv_to ((m # ms) ! k)) st = Inr t
        \<and> settled pf r (n + k) ((m # ms) ! k) f t (ig_ledger st')" if "res = None" "k < length (m # ms)" for k
    proof (cases k)
      case 0
      then show ?thesis using k1 None settled_grows [OF _ g] by fastforce
    next
      case (Suc j)
      then show ?thesis using IH that by (auto simp: tr)
    qed
    moreover have "advances pf st st'" using IH advances_trans [OF a1] by blast
    ultimately show ?thesis by (intro conjI impI allI)
  qed
qed simp

lemma ReleaseAddress_frame:
  assumes "ReleaseAddress pf now org x st = (res, st')"
  shows "ig_ledger st' = ig_ledger st" "ig_external st' = ig_external st" "ig_cursors st' = ig_cursors st" "set (ig_tracked st') \<subseteq> set (ig_tracked st)"
    "distinct_tracked (ig_tracked st) \<Longrightarrow> distinct_tracked (ig_tracked st')"
  using assms by (auto simp: ReleaseAddress_def distinct_tracked_def distinct_map_filter split: if_splits)

lemma frame_ok:
  assumes "ingest_ok pf st" "ig_ledger st' = ig_ledger st" "ig_external st' = ig_external st" "set (ig_tracked st') \<subseteq> set (ig_tracked st)"
    "distinct_tracked (ig_tracked st')"
  shows "ingest_ok pf st'"
proof -
  have "memo_ok pf st'" using assms(1-3) by (simp add: ingest_ok_def memo_ok_def)
  moreover have "tracked_ok st'" using assms(1,2,4,5) unfolding ingest_ok_def tracked_ok_def by (metis subsetD)
  ultimately show ?thesis using assms(1,2) by (simp add: ingest_ok_def)
qed

lemma ReleaseAddress_ok: "ReleaseAddress pf now org x st = (res, st') \<Longrightarrow> ingest_ok pf st \<Longrightarrow> ingest_ok pf st'"
  by (rule frame_ok, assumption) (auto simp: ReleaseAddress_frame ingest_ok_def tracked_ok_def dest: ReleaseAddress_frame(4))

lemma applyClose_frame:
  assumes "applyClose pf now x st = (res, st')"
  shows "ig_ledger st' = ig_ledger st" "ig_external st' = ig_external st" "ig_cursors st' = ig_cursors st" "set (ig_tracked st') \<subseteq> set (ig_tracked st)"
    "distinct_tracked (ig_tracked st) \<Longrightarrow> distinct_tracked (ig_tracked st')"
  using assms ReleaseAddress_frame by (fastforce simp: applyClose_def split: sum.splits option.splits)+

text \<open>A record leaves the ledger further on, and takes addresses off the list only.\<close>

lemma apply_record_parts:
  assumes "apply_record pf now r st = (res, st')" "ingest_ok pf st"
  obtains st1 x where "apply_movements pf r 0 (rc_movements r) st = (x, st1)" "advances pf st st1" "ig_ledger st' = ig_ledger st1"
    "ig_external st' = ig_external st1" "ig_cursors st' = ig_cursors st" "set (ig_tracked st') \<subseteq> set (ig_tracked st)"
    "distinct_tracked (ig_tracked st')" "res = None \<longrightarrow> x = None"
proof -
  obtain x st1 where 1: "apply_movements pf r 0 (rc_movements r) st = (x, st1)" by fastforce
  have a: "advances pf st st1" using apply_movements_advances [OF 1 assms(2)] by simp
  then have eq: "ig_tracked st1 = ig_tracked st" "ig_cursors st1 = ig_cursors st" by (simp_all add: advances_def)
  have d: "distinct_tracked (ig_tracked st)" using assms(2) by (simp add: ingest_ok_def tracked_ok_def)
  consider "st' = st1" "res = None \<longrightarrow> x = None" | "applyClose pf now (rc_closed r) st1 = (res, st')" "x = None"
    using assms(1) 1 by (auto simp: apply_record_def split: option.splits if_splits)
  then show thesis
  proof cases
    case 1
    then show thesis using that [OF \<open>apply_movements pf r 0 (rc_movements r) st = (x, st1)\<close> a] eq d by simp
  next
    case 2
    then show thesis using that [OF 1 a] applyClose_frame [OF 2(1)] eq d by simp
  qed
qed

lemma apply_record_ok:
  assumes "apply_record pf now r st = (res, st')" "ingest_ok pf st"
  shows "ingest_ok pf st' \<and> (ledger_step pf)\<^sup>*\<^sup>* (ig_ledger st) (ig_ledger st')"
proof -
  obtain st1 x where p: "advances pf st st1" "ig_ledger st' = ig_ledger st1" "ig_external st' = ig_external st1" "set (ig_tracked st') \<subseteq> set (ig_tracked st)"
    "distinct_tracked (ig_tracked st')" by (rule apply_record_parts [OF assms])
  have "ingest_ok pf st1" by (rule advances_ok [OF p(1) assms(2)])
  moreover have "ig_tracked st1 = ig_tracked st" "(ledger_step pf)\<^sup>*\<^sup>* (ig_ledger st) (ig_ledger st1)" using p(1) unfolding advances_def by blast+
  ultimately show ?thesis using frame_ok [of pf st1 st', OF _ p(2,3) _ p(5)] p(2,4) by simp
qed

lemma apply_record_settles:
  assumes "apply_record pf now r st = (None, st')" "ingest_ok pf st" "k < length (rc_movements r)"
  obtains f t where "TrackedAddress_of pf (mv_from (rc_movements r ! k)) st = Inr f" "TrackedAddress_of pf (mv_to (rc_movements r ! k)) st = Inr t"
    "settled pf r k (rc_movements r ! k) f t (ig_ledger st')"
proof (rule apply_record_parts [OF assms(1,2)])
  fix st1 x assume p: "apply_movements pf r 0 (rc_movements r) st = (x, st1)" "ig_ledger st' = ig_ledger st1" "(None :: ingest_error option) = None \<longrightarrow> x = None"
  have "\<forall>k < length (rc_movements r). \<exists>f t. TrackedAddress_of pf (mv_from (rc_movements r ! k)) st = Inr f
      \<and> TrackedAddress_of pf (mv_to (rc_movements r ! k)) st = Inr t \<and> settled pf r k (rc_movements r ! k) f t (ig_ledger st')"
    using apply_movements_advances [OF p(1) assms(2)] p(2,3) by simp
  then show thesis using assms(3) that by blast
qed

lemma apply_movements_again:
  assumes "apply_movements pf r n ms st = (res, st')" "ingest_ok pf st"
    and "\<And>k. k < length ms \<Longrightarrow> \<exists>f t. TrackedAddress_of pf (mv_from (ms ! k)) st = Inr f \<and> TrackedAddress_of pf (mv_to (ms ! k)) st = Inr t
      \<and> settled pf r (n + k) (ms ! k) f t (ig_ledger st)"
  shows "(res = None \<or> res = Some exhausted) \<and> quiet pf st st'"
  using assms
proof (induction ms arbitrary: n st)
  case Nil
  then show ?case by (simp add: quiet_refl ingest_ok_def)
next
  case (Cons m ms)
  obtain x st1 where 1: "applyMovement pf r n m st = (x, st1)" by fastforce
  obtain f t where ft: "TrackedAddress_of pf (mv_from m) st = Inr f" "TrackedAddress_of pf (mv_to m) st = Inr t" "settled pf r n m f t (ig_ledger st)"
    using Cons.prems(3) [of 0] by auto
  have q: "x = None \<or> x = Some exhausted" "quiet pf st st1" using applyMovement_again [OF ft(3,1,2) 1 Cons.prems(2)] by simp_all
  show ?case
  proof (cases x)
    case (Some y)
    then show ?thesis using Cons.prems(1) 1 q by auto
  next
    case None
    have rest: "apply_movements pf r (Suc n) ms st1 = (res, st')" using Cons.prems(1) 1 None by simp
    have ok: "ingest_ok pf st1" using applyMovement_advances [OF 1 Cons.prems(2)] advances_ok Cons.prems(2) by blast
    have tr: "TrackedAddress_of pf y st1 = TrackedAddress_of pf y st" for y using q(2) by (intro TrackedAddress_of_frame) (simp add: quiet_def)
    have "\<exists>f t. TrackedAddress_of pf (mv_from (ms ! k)) st1 = Inr f \<and> TrackedAddress_of pf (mv_to (ms ! k)) st1 = Inr t
      \<and> settled pf r (Suc n + k) (ms ! k) f t (ig_ledger st1)" if "k < length ms" for k
      using Cons.prems(3) [of "Suc k"] that settled_grows [OF _ quiet_grows [OF q(2)]] by (fastforce simp: tr)
    then show ?thesis using Cons.IH [OF rest ok] quiet_trans [OF q(2)] by blast
  qed
qed

section \<open>A page\<close>

lemma settled_found:
  assumes "settled pf r n m f t l" "f = Some x \<or> t = Some x"
  shows "find_key l (tk_org x) (record_key r n) \<noteq> None"
proof -
  have "\<not> (f = None \<and> t = None)" using assms(2) by auto
  then obtain a es where s: "entries_are pf l f t a (mv_amount m) es" "\<forall>e \<in> set es. posted pf l (entry_request r (record_key r n) e)"
    using assms(1) unfolding settled_def by metis
  have "\<exists>e \<in> set es. en_org e = tk_org x"
  proof (cases "same_org f t")
    case True
    then show ?thesis using s(1) assms(2) by (auto simp: entries_are_def same_org_def split: option.splits)
  next
    case False
    then obtain os is1 where "side_is pf l ''withdrawal'' f a (- mv_amount m) os" "side_is pf l ''deposit'' t a (mv_amount m) is1" "es = os @ is1"
      using s(1) unfolding entries_are_def by (simp only: if_False) blast
    then show ?thesis using assms(2) by (fastforce simp: side_is_def split: option.splits)
  qed
  then show ?thesis using s(2) by (fastforce simp: posted_def entry_request_def)
qed

text \<open>Whatever the record moves for an address that is tracked is in that org's books.\<close>

definition accounted :: "ingest_state \<Rightarrow> Record \<Rightarrow> bool" where
  "accounted st r \<longleftrightarrow> (\<forall>k < length (rc_movements r). \<forall>t \<in> set (ig_tracked st). tk_address t \<in> {mv_from (rc_movements r ! k), mv_to (rc_movements r ! k)} \<longrightarrow>
     find_key (ig_ledger st) (tk_org t) (record_key r k) \<noteq> None)"

lemma find_key_grows: "find_key l org key \<noteq> None \<Longrightarrow> grows l l' \<Longrightarrow> find_key l' org key \<noteq> None"
  using find_prefix by (fastforce simp: find_key_def grows_def)

lemma accounted_grows:
  "accounted st r \<Longrightarrow> grows (ig_ledger st) (ig_ledger st') \<Longrightarrow> set (ig_tracked st') \<subseteq> set (ig_tracked st) \<Longrightarrow> accounted st' r"
  unfolding accounted_def using find_key_grows by (meson subsetD)

lemma find_tracked: "distinct (map tk_address ts) \<Longrightarrow> x \<in> set ts \<Longrightarrow> find (\<lambda>t. tk_address t = tk_address x) ts = Some x"
  by (induction ts) auto

lemma apply_record_accounted:
  assumes "apply_record pf now r st = (None, st')" "ingest_ok pf st"
  shows "accounted st' r"
  unfolding accounted_def
proof (intro allI impI ballI)
  fix k x assume k: "k < length (rc_movements r)" and x: "x \<in> set (ig_tracked st')" "tk_address x \<in> {mv_from (rc_movements r ! k), mv_to (rc_movements r ! k)}"
  obtain f t where ft: "TrackedAddress_of pf (mv_from (rc_movements r ! k)) st = Inr f" "TrackedAddress_of pf (mv_to (rc_movements r ! k)) st = Inr t"
    "settled pf r k (rc_movements r ! k) f t (ig_ledger st')" by (rule apply_record_settles [OF assms k])
  have "x \<in> set (ig_tracked st)" by (rule apply_record_parts [OF assms]) (use x(1) in blast)
  then have "find (\<lambda>t. tk_address t = tk_address x) (ig_tracked st) = Some x"
    using assms(2) by (intro find_tracked) (simp_all add: ingest_ok_def tracked_ok_def distinct_tracked_def)
  then have "f = Some x \<or> t = Some x" using x(2) ft(1,2) by (auto simp: TrackedAddress_of_def split: if_splits)
  then show "find_key (ig_ledger st') (tk_org x) (record_key r k) \<noteq> None" by (rule settled_found [OF ft(3)])
qed

lemma saveCursor_frame:
  assumes "saveCursor pf stream c st = (res, st')"
  shows "ig_ledger st' = ig_ledger st" "ig_external st' = ig_external st" "ig_tracked st' = ig_tracked st" "ig_people st' = ig_people st" "ig_grants st' = ig_grants st"
    "ig_cursors st' = (if res = None then (ig_cursors st)(stream \<mapsto> c) else ig_cursors st)"
  using assms by (auto simp: saveCursor_def split: if_splits)

lemma saveCursor_ok: "saveCursor pf stream c st = (res, st') \<Longrightarrow> ingest_ok pf st \<Longrightarrow> ingest_ok pf st'"
  by (rule frame_ok, assumption) (auto simp: saveCursor_frame ingest_ok_def tracked_ok_def)

text \<open>What a page leaves behind, with \<open>n\<close> of its records consumed.\<close>

definition page_done :: "platform \<Rightarrow> string \<Rightarrow> Record list \<Rightarrow> nat \<Rightarrow> ingest_state \<Rightarrow> ingest_state \<Rightarrow> bool" where
  "page_done pf stream rs n st st' \<longleftrightarrow> ingest_ok pf st' \<and> (ledger_step pf)\<^sup>*\<^sup>* (ig_ledger st) (ig_ledger st') \<and> set (ig_tracked st') \<subseteq> set (ig_tracked st)
     \<and> n \<le> length rs \<and> ig_cursors st' stream = (if n = 0 then ig_cursors st stream else Some (rc_cursor (rs ! (n - 1)))) \<and> (\<forall>r \<in> set (take n rs). accounted st' r)"

lemma page_done_Suc:
  assumes "apply_record pf now r st = (None, st1)" "saveCursor pf stream (rc_cursor r) st1 = (None, st2)" "page_done pf stream rs n st2 st'" "ingest_ok pf st"
  shows "page_done pf stream (r # rs) (Suc n) st st'"
proof -
  have ok1: "ingest_ok pf st1" "(ledger_step pf)\<^sup>*\<^sup>* (ig_ledger st) (ig_ledger st1)" using apply_record_ok [OF assms(1,4)] by simp_all
  note fr = saveCursor_frame [OF assms(2)]
  have sub: "set (ig_tracked st1) \<subseteq> set (ig_tracked st)" by (rule apply_record_parts [OF assms(1,4)])
  have d: "ingest_ok pf st'" "(ledger_step pf)\<^sup>*\<^sup>* (ig_ledger st1) (ig_ledger st')" "set (ig_tracked st') \<subseteq> set (ig_tracked st1)" "n \<le> length rs"
    "ig_cursors st' stream = (if n = 0 then Some (rc_cursor r) else Some (rc_cursor (rs ! (n - 1))))" "\<forall>r \<in> set (take n rs). accounted st' r"
    using assms(3) fr by (simp_all add: page_done_def)
  have "accounted st' r"
    by (rule accounted_grows [OF apply_record_accounted [OF assms(1,4)] steps_grow [OF d(2)] d(3)])
  moreover have "(r # rs) ! (Suc n - 1) = (if n = 0 then r else rs ! (n - 1))" by (simp add: nth_Cons')
  ultimately show ?thesis using d sub rtranclp_trans [OF ok1(2) d(2)] unfolding page_done_def by auto
qed

lemma once_loop_done:
  assumes "once_loop pf now stream rs c st = (n, e, st')" "ingest_ok pf st"
  shows "c \<le> n \<and> page_done pf stream rs (n - c) st st' \<and> (e = None \<longrightarrow> n = c + length rs)"
  using assms
proof (induction rs arbitrary: c st)
  case Nil
  then show ?case by (simp add: page_done_def)
next
  case (Cons r rs)
  obtain x st1 where 1: "apply_record pf now r st = (x, st1)" by fastforce
  have ok1: "ingest_ok pf st1" "(ledger_step pf)\<^sup>*\<^sup>* (ig_ledger st) (ig_ledger st1)" using apply_record_ok [OF 1 Cons.prems(2)] by simp_all
  have fr0: "set (ig_tracked st1) \<subseteq> set (ig_tracked st)" by (rule apply_record_parts [OF 1 Cons.prems(2)])
  have "ig_cursors st1 = ig_cursors st" by (rule apply_record_parts [OF 1 Cons.prems(2)])
  note fr1 = fr0 this
  show ?case
  proof (cases x)
    case (Some y)
    then show ?thesis using Cons.prems(1) 1 ok1 fr1 by (auto simp: page_done_def)
  next
    case None
    obtain z st2 where 2: "saveCursor pf stream (rc_cursor r) st1 = (z, st2)" by fastforce
    note fr2 = saveCursor_frame [OF 2] saveCursor_ok [OF 2 ok1(1)]
    show ?thesis
    proof (cases z)
      case (Some y)
      then have st': "n = c" "st' = st2" "e = Some y" using Cons.prems(1) 1 2 None by simp_all
      have "page_done pf stream (r # rs) 0 st st2"
        unfolding page_done_def fr2(1,3) using ok1(2) fr1 fr2(6,7) Some by simp
      then show ?thesis by (simp add: st')
    next
      case z: None
      have rest: "once_loop pf now stream rs (Suc c) st2 = (n, e, st')" using Cons.prems(1) 1 2 None z by simp
      note IH = Cons.IH [OF rest fr2(7)]
      have "page_done pf stream (r # rs) (Suc (n - Suc c)) st st'"
        using page_done_Suc [of pf now r st st1 stream st2 rs "n - Suc c" st'] 1 2 None z IH Cons.prems(2) by blast
      moreover have "Suc (n - Suc c) = n - c" using conjunct1 [OF IH] by arith
      ultimately show ?thesis using IH by auto
    qed
  qed
qed

lemma Once_done:
  assumes "Once pf now stream fetch st = (n, e, st')" "ingest_ok pf st"
  shows "ingest_ok pf st' \<and> (ledger_step pf)\<^sup>*\<^sup>* (ig_ledger st) (ig_ledger st')"
    and "loadCursor pf stream st = Inr c \<Longrightarrow> fetch c = Inr rs \<Longrightarrow> page_done pf stream rs n st st' \<and> (e = None \<longrightarrow> n = length rs)"
proof -
  have d: "page_done pf stream rs1 n st st' \<and> (e = None \<longrightarrow> n = length rs1)" if "loadCursor pf stream st = Inr c1" "fetch c1 = Inr rs1" for c1 rs1
  proof -
    have "once_loop pf now stream rs1 0 st = (n, e, st')" using assms(1) that by (simp add: Once_def)
    then show ?thesis using once_loop_done [OF _ assms(2), of now stream rs1 0 n e st'] by simp
  qed
  then show "loadCursor pf stream st = Inr c \<Longrightarrow> fetch c = Inr rs \<Longrightarrow> page_done pf stream rs n st st' \<and> (e = None \<longrightarrow> n = length rs)" .
  show "ingest_ok pf st' \<and> (ledger_step pf)\<^sup>*\<^sup>* (ig_ledger st) (ig_ledger st')"
  proof (cases "\<exists>c1 rs1. loadCursor pf stream st = Inr c1 \<and> fetch c1 = Inr rs1")
    case True
    then show ?thesis using d unfolding page_done_def by blast
  next
    case False
    then have "st' = st" using assms(1) by (auto simp: Once_def split: sum.splits)
    then show ?thesis using assms(2) by simp
  qed
qed

section \<open>Runs\<close>

text \<open>
  One call at a time, by ingesters, by the services that track and release addresses, and by whatever else writes to the ledger; a process that
  stops forgets its memo.  A process that stops in the middle of a movement leaves some of the ledger's own steps behind, which are steps here too.
\<close>

inductive ingest_step :: "platform \<Rightarrow> ingest_state \<Rightarrow> ingest_state \<Rightarrow> bool" for pf where
  is_ledger: "ledger_step pf (ig_ledger st) l \<Longrightarrow> ingest_step pf st (st\<lparr>ig_ledger := l\<rparr>)"
| is_restart: "ingest_step pf st (st\<lparr>ig_external := (\<lambda>_. None)\<rparr>)"
| is_track: "TrackAddress pf org x account role st = (e, st') \<Longrightarrow> ingest_step pf st st'"
| is_release: "ReleaseAddress pf now org x st = (e, st') \<Longrightarrow> ingest_step pf st st'"
| is_movement: "applyMovement pf r n m st = (e, st') \<Longrightarrow> ingest_step pf st st'"
| is_once: "Once pf now stream fetch st = (k, e, st') \<Longrightarrow> ingest_step pf st st'"

definition ingest_init :: ingest_state where
  "ingest_init = \<lparr>ig_ledger = ledger_init, ig_tracked = [], ig_people = member_init, ig_grants = [], ig_cursors = (\<lambda>_. None), ig_external = (\<lambda>_. None)\<rparr>"

lemma TrackAddress_ok:
  assumes "TrackAddress pf org x account role st = (e, st')" "ingest_ok pf st"
  shows "ingest_ok pf st' \<and> ig_ledger st' = ig_ledger st"
proof -
  consider "st' = st" | "st' = st\<lparr>ig_tracked := ig_tracked st @ [\<lparr>tk_address = x, tk_org = org, tk_account = account, tk_role = role\<rparr>]\<rparr>"
      "\<not> list_ex (\<lambda>t. tk_address t = x) (ig_tracked st)" "\<not> list_ex (\<lambda>t. tk_account t = account) (ig_tracked st)" "list_ex (\<lambda>a. acc_id a = account \<and> acc_org a = org) (accounts (ig_ledger st))"
    using assms(1) by (auto simp: TrackAddress_def split: if_splits)
  then show ?thesis
  proof cases
    case 1
    then show ?thesis using assms(2) by simp
  next
    case 2
    have "tracked_ok st'" using assms(2) 2(2-4) unfolding ingest_ok_def tracked_ok_def distinct_tracked_def by (auto simp: 2(1) list_ex_iff)
    then show ?thesis using assms(2) by (simp add: ingest_ok_def memo_ok_def 2(1))
  qed
qed

lemma ingest_step_ok:
  assumes "ingest_step pf st st'" "ingest_ok pf st"
  shows "ingest_ok pf st' \<and> (ledger_step pf)\<^sup>*\<^sup>* (ig_ledger st) (ig_ledger st')"
  using assms(1)
proof cases
  case (is_ledger l)
  have a: "advances pf st st'" unfolding is_ledger(1) by (rule advances_ledger [OF is_ledger(2)])
  then show ?thesis using advances_ok [OF a assms(2)] unfolding advances_def by blast
next
  case is_restart
  then show ?thesis using assms(2) by (simp add: ingest_ok_def tracked_ok_def memo_ok_def)
next
  case (is_track org x account role e)
  then show ?thesis using TrackAddress_ok [OF _ assms(2)] by fastforce
next
  case (is_release now org x e)
  then show ?thesis using ReleaseAddress_ok [OF _ assms(2)] ReleaseAddress_frame(1) by fastforce
next
  case (is_movement r n m e)
  have a: "advances pf st st'" using applyMovement_advances [OF is_movement assms(2)] by blast
  then show ?thesis using advances_ok [OF a assms(2)] unfolding advances_def by blast
next
  case (is_once now stream fetch k e)
  then show ?thesis using Once_done(1) [OF _ assms(2)] by blast
qed

lemma ingest_steps_ok:
  assumes "(ingest_step pf)\<^sup>*\<^sup>* st st'" "ingest_ok pf st"
  shows "ingest_ok pf st' \<and> (ledger_step pf)\<^sup>*\<^sup>* (ig_ledger st) (ig_ledger st')"
  using assms
proof (induction rule: rtranclp_induct)
  case (step st1 st2)
  then show ?case using ingest_step_ok [OF step(2)] by (meson rtranclp_trans)
qed simp

lemma ingest_init_ok: "ingest_ok pf ingest_init"
  using books_ok_init by (simp add: ingest_ok_def ingest_init_def orgs_named_def tracked_ok_def distinct_tracked_def memo_ok_def ledger_init_def)

section \<open>Exactly once\<close>

text \<open>
  C8: a cursor moves only past what is in the books.  In any run, a page that was fetched from the stream's cursor and consumed to its \<open>n\<close>-th record leaves the
  cursor at that record and nowhere further, or where it was when none was consumed; without an error all records were consumed; and for each of them,
  every movement from or to an address that is still tracked has one transaction under its key in the books of the org the address belongs to, and only one.
\<close>

theorem Once_loses_nothing:
  assumes "(ingest_step pf)\<^sup>*\<^sup>* ingest_init st" "Once pf now stream fetch st = (n, e, st')"
    and "loadCursor pf stream st = Inr c" "fetch c = Inr rs"
  shows "n \<le> length rs \<and> (e = None \<longrightarrow> n = length rs)
    \<and> ig_cursors st' stream = (if n = 0 then ig_cursors st stream else Some (rc_cursor (rs ! (n - 1))))
    \<and> (\<forall>r \<in> set (take n rs). \<forall>k < length (rc_movements r). \<forall>t \<in> set (ig_tracked st').
         tk_address t = mv_from (rc_movements r ! k) \<or> tk_address t = mv_to (rc_movements r ! k) \<longrightarrow>
         (\<exists>!x. x \<in> set (transactions (ig_ledger st')) \<and> tx_org x = tk_org t \<and> tx_key x = record_key r k))"
proof -
  have ok: "ingest_ok pf st" using ingest_steps_ok [OF assms(1) ingest_init_ok] by simp
  have d: "page_done pf stream rs n st st'" "e = None \<longrightarrow> n = length rs" using Once_done(2) [OF assms(2) ok assms(3,4)] by simp_all
  have ids: "distinct (map (\<lambda>x. (tx_org x, tx_key x)) (transactions (ig_ledger st')))"
    using d(1) by (simp add: page_done_def ingest_ok_def books_ok_def ids_ok_def)
  have one: "\<exists>!x. x \<in> set (transactions (ig_ledger st')) \<and> tx_org x = org \<and> tx_key x = key" if found: "find_key (ig_ledger st') org key \<noteq> None" for org key
  proof -
    obtain x where "x \<in> set (transactions (ig_ledger st'))" "tx_org x = org" "tx_key x = key"
      using found by (auto simp: find_key_def dest!: find_in_set)
    moreover have "y = x" if "y \<in> set (transactions (ig_ledger st'))" "tx_org y = org" "tx_key y = key" for y
      using distinct_map_eq [OF ids, of y x] calculation that by simp
    ultimately show ?thesis by blast
  qed
  have "\<exists>!x. x \<in> set (transactions (ig_ledger st')) \<and> tx_org x = tk_org t \<and> tx_key x = record_key r k"
    if "r \<in> set (take n rs)" "k < length (rc_movements r)" "t \<in> set (ig_tracked st')"
      "tk_address t = mv_from (rc_movements r ! k) \<or> tk_address t = mv_to (rc_movements r ! k)" for r k t
  proof (rule one)
    have "accounted st' r" using d(1) that(1) by (simp add: page_done_def)
    then show "find_key (ig_ledger st') (tk_org t) (record_key r k) \<noteq> None" using that(2-4) unfolding accounted_def by blast
  qed
  then show ?thesis using d unfolding page_done_def by blast
qed

text \<open>
  C7: a record may be delivered again.  Once a record was applied, applying it again at any later time, after restarts and whatever else was posted, adds nothing to the
  ledger and takes nothing from it, and it succeeds, unless an identity sequence of the database is used up; provided that its
  addresses are tracked as they were when it was first applied.
\<close>

theorem redelivery_harmless:
  assumes "(ingest_step pf)\<^sup>*\<^sup>* ingest_init st" "apply_record pf now r st = (None, st1)" "(ingest_step pf)\<^sup>*\<^sup>* st1 st2"
    and "\<forall>m \<in> set (rc_movements r). TrackedAddress_of pf (mv_from m) st2 = TrackedAddress_of pf (mv_from m) st
      \<and> TrackedAddress_of pf (mv_to m) st2 = TrackedAddress_of pf (mv_to m) st"
    and "apply_record pf later r st2 = (res, st3)"
  shows "(res = None \<or> res = Some (OnLedger (Database SequenceExhausted)))
    \<and> transactions (ig_ledger st3) = transactions (ig_ledger st2) \<and> entries (ig_ledger st3) = entries (ig_ledger st2)
    \<and> balances (ig_ledger st3) = balances (ig_ledger st2) \<and> accounts (ig_ledger st3) = accounts (ig_ledger st2) \<and> assets (ig_ledger st3) = assets (ig_ledger st2)"
proof -
  have ok: "ingest_ok pf st" using ingest_steps_ok [OF assms(1) ingest_init_ok] by simp
  have ok1: "ingest_ok pf st1" using apply_record_ok [OF assms(2) ok] by simp
  have ok2: "ingest_ok pf st2" "grows (ig_ledger st1) (ig_ledger st2)" using ingest_steps_ok [OF assms(3) ok1] steps_grow by blast+
  have settled: "\<exists>f t. TrackedAddress_of pf (mv_from (rc_movements r ! k)) st2 = Inr f \<and> TrackedAddress_of pf (mv_to (rc_movements r ! k)) st2 = Inr t
      \<and> settled pf r (0 + k) (rc_movements r ! k) f t (ig_ledger st2)" if k: "k < length (rc_movements r)" for k
  proof -
    obtain f t where "TrackedAddress_of pf (mv_from (rc_movements r ! k)) st = Inr f" "TrackedAddress_of pf (mv_to (rc_movements r ! k)) st = Inr t"
      "settled pf r k (rc_movements r ! k) f t (ig_ledger st1)" by (rule apply_record_settles [OF assms(2) ok k])
    then show ?thesis using settled_grows [OF _ ok2(2)] assms(4) k by simp
  qed
  obtain x st4 where a: "apply_movements pf r 0 (rc_movements r) st2 = (x, st4)" by fastforce
  have q: "x = None \<or> x = Some exhausted" "quiet pf st2 st4" using apply_movements_again [OF a ok2(1) settled] by simp_all
  have closed: "rc_closed r \<noteq> [] \<Longrightarrow> text_ok pf (rc_closed r)"
    using assms(2) by (auto simp: apply_record_def applyClose_def TrackedAddress_of_def split: option.splits prod.splits if_splits sum.splits)
  have "(res = None \<or> res = Some exhausted) \<and> ig_ledger st3 = ig_ledger st4"
  proof (cases "x = None \<and> rc_closed r \<noteq> []")
    case False
    then show ?thesis using assms(5) a q(1) by (auto simp: apply_record_def)
  next
    case True
    have "applyClose pf later (rc_closed r) st4 = (res, st3)" using assms(5) a True by (simp add: apply_record_def)
    then show ?thesis using closed True by (auto simp: applyClose_def TrackedAddress_of_def ReleaseAddress_def split: option.splits)
  qed
  then show ?thesis using q(2) by (simp add: quiet_def same_tables_def)
qed

section \<open>A deposit\<close>

text \<open>A payment from a stranger to the member of the small ledger.\<close>

definition demo_deposit :: Record where
  "demo_deposit = \<lparr>rc_cursor = ''7'', rc_id = ''horizon:op:7'', rc_tx = [], rc_occurred = 1700000000 * 10 ^ 9,
     rc_movements = [movement ''stranger'' (replicate 56 (CHR ''G'')) native_asset 5], rc_closed = []\<rparr>"

definition demo_watched :: TrackedAddress where
  "demo_watched = \<lparr>tk_address = replicate 56 (CHR ''G''), tk_org = 1, tk_account = 2, tk_role = ''member''\<rparr>"

definition demo_watching :: ingest_state where
  "demo_watching = snd (TrackAddress demo_pf 1 (replicate 56 (CHR ''G'')) 2 ''member'' (ingest_init\<lparr>ig_ledger := demo_db\<rparr>))"

lemma demo_watching_eq: "demo_watching = ingest_init\<lparr>ig_ledger := demo_db, ig_tracked := [demo_watched]\<rparr>"
  by (simp add: demo_watching_def TrackAddress_def demo_pf_def tracked_text_def base32_char_def list_all_iff address_roles_def ingest_init_def
      demo_db_eq demo_opened_eq new_account_def demo_watched_def)

lemma demo_watching_reached: "(ingest_step demo_pf)\<^sup>*\<^sup>* ingest_init demo_watching"
proof -
  have l: "(ingest_step demo_pf)\<^sup>*\<^sup>* st (st\<lparr>ig_ledger := l\<rparr>)" if "(ledger_step demo_pf)\<^sup>*\<^sup>* (ig_ledger st) l" for st l
    using that
  proof induction
    case (step l1 l2)
    have "ingest_step demo_pf (st\<lparr>ig_ledger := l1\<rparr>) (st\<lparr>ig_ledger := l2\<rparr>)" using is_ledger [of demo_pf "st\<lparr>ig_ledger := l1\<rparr>" l2] step.hyps(2) by simp
    with step.IH show ?case by (rule rtranclp.rtrancl_into_rtrancl)
  qed simp
  have "(ingest_step demo_pf)\<^sup>*\<^sup>* ingest_init (ingest_init\<lparr>ig_ledger := demo_db\<rparr>)"
    by (rule l) (simp add: ingest_init_def Ledger.demo_reach)
  moreover have "ingest_step demo_pf (ingest_init\<lparr>ig_ledger := demo_db\<rparr>) demo_watching"
    unfolding demo_watching_def by (rule is_track, rule prod.collapse [symmetric])
  ultimately show ?thesis by (rule rtranclp.rtrancl_into_rtrancl)
qed

definition demo_deposited :: ingest_state where
  "demo_deposited = snd (apply_record demo_pf 0 demo_deposit demo_watching)"

definition demo_deposit_entry :: entry where
  "demo_deposit_entry = \<lparr>en_org = 1, en_kind = ''deposit'', en_postings = two_lines 2 1 1 5\<rparr>"

lemma demo_deposit_lookups: "TrackedAddress_of demo_pf ''stranger'' demo_watching = Inr None"
  "TrackedAddress_of demo_pf (replicate 56 (CHR ''G'')) demo_watching = Inr (Some demo_watched)"
  by (auto simp: TrackedAddress_of_def demo_watching_eq demo_pf_def demo_watched_def dest: arg_cong [where f = length])

lemma demo_deposit_applied:
  "\<exists>l x. apply_record demo_pf 0 demo_deposit demo_watching = (None, demo_watching\<lparr>ig_ledger := l, ig_external := x\<rparr>)
     \<and> length (transactions l) = 2 \<and> bal l 2 1 = 55"
proof -
  let ?l1 = "demo_db\<lparr>asset_seq := 2\<rparr>" and ?l2 = "demo_db\<lparr>asset_seq := 2, account_seq := 3\<rparr>"
  have asset: "resolveAsset demo_pf ''native'' [] [] demo_watching = (Inr 1, demo_watching\<lparr>ig_ledger := ?l1\<rparr>)"
    by (simp add: resolveAsset_def with_ledger_def EnsureAsset_def demo_watching_eq demo_db_eq demo_opened_eq ledger_init_def demo_pf_def next_id_def Let_def
        same_asset_def coalesce_def)
  have ext: "externalFor demo_pf 1 (demo_watching\<lparr>ig_ledger := ?l1\<rparr>) = (Inr 1, demo_watching\<lparr>ig_ledger := ?l2, ig_external := [1 \<mapsto> 1]\<rparr>)"
    by (simp add: externalFor_def with_ledger_def ensureAccountTx_eq demo_watching_eq ingest_init_def demo_db_eq demo_opened_eq ledger_eval coalesce_def)
  let ?req = "entry_request demo_deposit ''horizon:op:7'' demo_deposit_entry"
  have "\<exists>l. Post demo_pf ?req ?l2 = (Inr 2, l) \<and> length (transactions l) = 2 \<and> bal l 2 1 = 55"
    by (simp add: entry_request_def demo_deposit_entry_def two_lines_def demo_deposit_def demo_db_eq demo_opened_eq bal_def ledger_eval)
  then obtain l where l: "Post demo_pf ?req ?l2 = (Inr 2, l)" "length (transactions l) = 2" "bal l 2 1 = 55" by blast
  have w: "tk_org demo_watched = 1" "tk_account demo_watched = 2" by (simp_all add: demo_watched_def)
  have es: "entriesFor demo_pf None (Some demo_watched) 1 5 (demo_watching\<lparr>ig_ledger := ?l1\<rparr>) =
      (Inr [demo_deposit_entry], demo_watching\<lparr>ig_ledger := ?l2, ig_external := [1 \<mapsto> 1]\<rparr>)"
    by (simp add: entriesFor_def same_org_def side_entry_def w ext demo_deposit_entry_def)
  have "apply_record demo_pf 0 demo_deposit demo_watching = (None, demo_watching\<lparr>ig_ledger := l, ig_external := [1 \<mapsto> 1]\<rparr>)"
    using l(1) by (simp add: apply_record_def applyMovement_def demo_deposit_def movement_def native_asset_def demo_deposit_lookups Sign_def asset es record_key_def
        post_entry_def Let_def)
  with l(2,3) show ?thesis by blast
qed

theorem redelivery_harmless_witness:
  "\<exists>st1 res st3. apply_record demo_pf 0 demo_deposit demo_watching = (None, st1) \<and> apply_record demo_pf 0 demo_deposit st1 = (res, st3)
     \<and> length (transactions (ig_ledger st1)) = 2 \<and> length (transactions (ig_ledger st3)) = 2"
proof -
  obtain l x where a: "apply_record demo_pf 0 demo_deposit demo_watching = (None, demo_watching\<lparr>ig_ledger := l, ig_external := x\<rparr>)" "length (transactions l) = 2"
    using demo_deposit_applied by blast
  let ?st1 = "demo_watching\<lparr>ig_ledger := l, ig_external := x\<rparr>"
  obtain res st3 where b: "apply_record demo_pf 0 demo_deposit ?st1 = (res, st3)" by fastforce
  have t: "\<forall>m \<in> set (rc_movements demo_deposit). TrackedAddress_of demo_pf (mv_from m) ?st1 = TrackedAddress_of demo_pf (mv_from m) demo_watching
      \<and> TrackedAddress_of demo_pf (mv_to m) ?st1 = TrackedAddress_of demo_pf (mv_to m) demo_watching" by (simp add: TrackedAddress_of_def)
  have "transactions (ig_ledger st3) = transactions l"
    using redelivery_harmless [OF demo_watching_reached a(1) rtranclp.rtrancl_refl t b] by simp
  then show ?thesis using a b by (intro exI [of _ ?st1] exI [of _ res] exI [of _ st3]) simp
qed

theorem Once_loses_nothing_witness:
  "\<exists>n e st'. Once demo_pf 0 ''horizon'' (\<lambda>_. Inr [demo_deposit]) demo_watching = (n, e, st') \<and> ig_cursors st' ''horizon'' = Some ''7''
     \<and> (\<exists>!x. x \<in> set (transactions (ig_ledger st')) \<and> tx_org x = 1 \<and> tx_key x = ''horizon:op:7'')"
proof -
  obtain l x where a: "apply_record demo_pf 0 demo_deposit demo_watching = (None, demo_watching\<lparr>ig_ledger := l, ig_external := x\<rparr>)"
    using demo_deposit_applied by blast
  have c: "loadCursor demo_pf ''horizon'' demo_watching = Inr []" by (simp add: loadCursor_def demo_pf_def demo_watching_eq ingest_init_def)
  have "saveCursor demo_pf ''horizon'' c1 st = (None, st\<lparr>ig_cursors := (ig_cursors st)(''horizon'' \<mapsto> c1)\<rparr>)" for c1 st
    by (simp add: saveCursor_def demo_pf_def)
  then obtain st' where o: "Once demo_pf 0 ''horizon'' (\<lambda>_. Inr [demo_deposit]) demo_watching = (1, None, st')" "ig_tracked st' = ig_tracked demo_watching"
    using a by (simp add: Once_def c)
  have m: "rc_cursor demo_deposit = ''7''" "length (rc_movements demo_deposit) = 1" "mv_to (rc_movements demo_deposit ! 0) = tk_address demo_watched" "tk_org demo_watched = 1"
    "record_key demo_deposit 0 = ''horizon:op:7''" by (simp_all add: demo_deposit_def movement_def native_asset_def demo_watched_def record_key_def)
  have "ig_cursors st' ''horizon'' = Some ''7'' \<and> (\<exists>!x. x \<in> set (transactions (ig_ledger st')) \<and> tx_org x = 1 \<and> tx_key x = ''horizon:op:7'')"
    using Once_loses_nothing [OF demo_watching_reached o(1) c refl] m by (simp add: o(2) demo_watching_eq)
  then show ?thesis using o(1) by blast
qed

end
