(* ===== verification/Ingestion_Books.thy ===== *)
theory Ingestion_Books
  imports Ingestion_Safety
begin

text \<open>
  What a movement does to the balances, when it is recorded for the first time: the books follow the network.
\<close>

section \<open>What moves\<close>

definition posting_sum :: "AccountID \<Rightarrow> AssetID \<Rightarrow> Posting list \<Rightarrow> int" where
  "posting_sum a s ps = sum_list (map (\<lambda>p. if Account p = a \<and> Asset p = s then sint (Amount p) else 0) ps)"

lemma insert_entries_bal: "insert_entries i ps l = Inr l' \<Longrightarrow> bal l' a s = bal l a s + posting_sum a s ps"
proof (induction ps arbitrary: l)
  case (Cons p ps)
  then obtain l1 where 1: "insert_entry (entry_of i p) l = Inr l1" "insert_entries i ps l1 = Inr l'" by (auto split: sum.splits)
  have "bal l1 a s = bal l a s + (if Account p = a \<and> Asset p = s then sint (Amount p) else 0)"
    by (rule insert_entry_Inr [OF 1(1)]) (auto simp: bal_after entry_of_def)
  then show ?case using Cons.IH [OF 1(2)] by (simp add: posting_sum_def)
qed (simp add: posting_sum_def)

lemma Post_fresh:
  assumes "Post pf req l = (Inr i, l')" "find_key l (Org req) (IdempotencyKey req) = None"
  shows "bal l' a s = bal l a s + posting_sum a s (Postings req)" "transactions l' = transactions l @ [tx_row pf req i]"
proof -
  from assms(1) have "bal l' a s = bal l a s + posting_sum a s (Postings req) \<and> transactions l' = transactions l @ [tx_row pf req i]"
  proof (cases rule: Post_cases)
    case (recorded k)
    have "bal (l\<lparr>tx_seq := k, transactions := transactions l @ [tx_row pf req k]\<rparr>) a s = bal l a s" by (simp add: bal_def)
    then show ?thesis using insert_entries_bal [OF recorded(5), of a s] insert_entries_frame(3) [OF recorded(5)] recorded(1) by simp
  qed (use assms(2) in simp_all)
  then show "bal l' a s = bal l a s + posting_sum a s (Postings req)" "transactions l' = transactions l @ [tx_row pf req i]" by simp_all
qed

lemma posting_sum_lines:
  "posting_sum a s (two_lines x y asset1 amount) =
     (if s = asset1 then (if a = x then sint amount else 0) + (if a = y then sint (- amount) else 0) else 0)"
  by (auto simp: posting_sum_def two_lines_def)

lemma sint_neg: "0 < sint (v :: stroops) \<Longrightarrow> sint (- v) = - sint v"
proof -
  assume v: "0 < sint v"
  have "in_int64 (- sint v)" using sint_in_int64 [of v] v by (simp add: in_int64_def)
  then show ?thesis by (simp add: sint_uminus64 wrap64_id)
qed

lemma sint_short: "0 < sint (v :: stroops) \<Longrightarrow> 0 \<le> sint w \<Longrightarrow> sint (v - w) = sint v - sint w"
proof -
  assume v: "0 < sint v" "0 \<le> sint w"
  have "in_int64 (sint v - sint w)" using sint_in_int64 [of v] sint_in_int64 [of w] v by (simp add: in_int64_def)
  then show ?thesis by (simp add: sint_diff64 wrap64_id)
qed

text \<open>An account that may not go negative, so not a counterparty.\<close>

definition plain_account :: "ledger_db \<Rightarrow> AccountID \<Rightarrow> bool" where
  "plain_account l a \<longleftrightarrow> (\<exists>r \<in> set (accounts l). acc_id r = a \<and> \<not> allows_negative r)"

lemma plain_grows: "plain_account l a \<Longrightarrow> grows l l' \<Longrightarrow> plain_account l' a"
  by (auto simp: plain_account_def grows_def prefix_def)

lemma external_not_plain:
  assumes "books_ok l" "known_external pf l org x" "plain_account l a"
  shows "a \<noteq> x"
proof
  assume "a = x"
  obtain r where r: "r \<in> set (accounts l)" "acc_id r = x" "acc_kind r = AccountExternal"
    using assms(2) by (auto simp: known_external_def account_match_def new_account_def dest!: find_in_set)
  obtain q where q: "q \<in> set (accounts l)" "acc_id q = x" "\<not> allows_negative q" using assms(3) \<open>a = x\<close> by (auto simp: plain_account_def)
  have "q = r" using assms(1) r(1,2) q(1,2) distinct_map_eq [of acc_id "accounts l" q r] by (simp add: books_ok_def ids_ok_def)
  moreover have "allows_negative r" using assms(1) r(1,3) by (auto simp: books_ok_def ids_ok_def account_checks_def)
  ultimately show False using q(3) by simp
qed

lemma plain_nonneg: "books_ok l \<Longrightarrow> plain_account l a \<Longrightarrow> 0 \<le> bal l a s"
  by (auto simp: books_ok_def signs_ok_def plain_account_def)

text \<open>A key no transaction of the org has, and no opening balance made for it.\<close>

definition unused :: "ledger_db \<Rightarrow> OrgID \<Rightarrow> string \<Rightarrow> bool" where
  "unused l org key \<longleftrightarrow> (\<forall>x \<in> set (transactions l). tx_org x = org \<longrightarrow> tx_key x \<noteq> key \<and> \<not> prefix (key @ '':opening:'') (tx_key x))"

lemma unused_key: "unused l org key \<Longrightarrow> find_key l org key = None" "unused l org key \<Longrightarrow> find_key l org (key @ '':opening:'' @ x) = None"
  unfolding unused_def find_key_def find_None_iff by (auto simp: prefix_def)

text \<open>The balances and the keys, which are all that a posting looks at here.\<close>

definition same_money :: "ledger_db \<Rightarrow> ledger_db \<Rightarrow> bool" where
  "same_money l l' \<longleftrightarrow> balances l' = balances l \<and> transactions l' = transactions l"

lemma same_money_bal: "same_money l l' \<Longrightarrow> bal l' a s = bal l a s" by (simp add: same_money_def bal_def)

lemma same_money_unused: "same_money l l' \<Longrightarrow> unused l' org key = unused l org key" by (simp add: same_money_def unused_def)

lemma same_money_trans: "same_money l l1 \<Longrightarrow> same_money l1 l2 \<Longrightarrow> same_money l l2" by (simp add: same_money_def)

lemma Post_refused_money: "Post pf req l = (Inl e, l') \<Longrightarrow> same_money l l'"
  by (erule Post_cases) (auto simp: same_money_def)

lemma externalFor_money:
  assumes "externalFor pf org st = (res, st')" "org \<noteq> 0"
  shows "same_money (ig_ledger st) (ig_ledger st')"
proof (cases "ig_external st org")
  case (Some i)
  then show ?thesis using assms(1) by (auto simp: externalFor_def same_money_def)
next
  case None
  obtain r l where e: "EnsureAccount pf org AccountExternal [] ''external'' (ig_ledger st) = (r, l)" by fastforce
  have "ig_ledger st' = l" using assms(1) None e by (cases r) (auto simp: externalFor_def with_ledger_def ensureAccountTx_eq [OF assms(2)])
  moreover have "same_money (ig_ledger st) l" using e by (cases rule: EnsureAccount_cases) (simp_all add: same_money_def)
  ultimately show ?thesis by simp
qed

lemma resolveAsset_money:
  assumes "resolveAsset pf ty code issuer st = (res, st')"
  shows "same_money (ig_ledger st) (ig_ledger st')"
proof -
  have "same_money l (snd (EnsureAsset pf c i l))" for c i l
    by (rule EnsureAsset_frame [OF prod.collapse [symmetric], of pf c i l]) (simp add: same_money_def)
  then show ?thesis using assms by (auto simp: resolveAsset_def with_ledger_def same_money_def split: if_splits)
qed

lemma side_entry_money:
  assumes "side_entry pf kind side a amount st = (res, st')" "named_org side"
  shows "same_money (ig_ledger st) (ig_ledger st')"
proof (cases side)
  case None
  then show ?thesis using assms(1) by (auto simp: side_entry_def same_money_def)
next
  case (Some t)
  obtain r st1 where e: "externalFor pf (tk_org t) st = (r, st1)" by fastforce
  have "st' = st1" using assms(1) Some e by (cases r) (auto simp: side_entry_def)
  then show ?thesis using externalFor_money [OF e] assms(2) Some by (simp add: named_org_def)
qed

lemma entriesFor_money:
  assumes "entriesFor pf f t a amount st = (res, st')" "named_org f" "named_org t"
  shows "same_money (ig_ledger st) (ig_ledger st')"
proof (cases "same_org f t")
  case True
  then show ?thesis using assms(1) by (auto simp: entriesFor_def same_money_def)
next
  case False
  obtain r1 st1 where 1: "side_entry pf ''withdrawal'' f a (- amount) st = (r1, st1)" by fastforce
  obtain r2 st2 where 2: "side_entry pf ''deposit'' t a amount st1 = (r2, st2)" by fastforce
  have "st' = st1 \<or> st' = st2" using assms(1) False 1 2 by (cases r1; cases r2) (auto simp: entriesFor_def)
  then show ?thesis using side_entry_money [OF 1 assms(2)] side_entry_money [OF 2 assms(3)] same_money_trans by blast
qed

section \<open>One entry\<close>

lemma Post_entry:
  assumes "Post pf (entry_request r key e) l = (Inr i, l')" "unused l (en_org e) key"
  shows "bal l' a s = bal l a s + posting_sum a s (en_postings e)"
    and "org \<noteq> en_org e \<Longrightarrow> unused l' org key = unused l org key"
proof -
  have k: "find_key l (Org (entry_request r key e)) (IdempotencyKey (entry_request r key e)) = None"
    using unused_key(1) [OF assms(2)] by (simp add: entry_request_def)
  show "bal l' a s = bal l a s + posting_sum a s (en_postings e)" using Post_fresh(1) [OF assms(1) k] by (simp add: entry_request_def)
  show "org \<noteq> en_org e \<Longrightarrow> unused l' org key = unused l org key"
    using Post_fresh(2) [OF assms(1) k] by (auto simp: unused_def tx_row_def entry_request_def)
qed

lemma open_balance_books:
  assumes "open_balance pf r key f asset1 amount st = (None, st')" "ingest_ok pf st" "f \<in> set (ig_tracked st)" "0 < sint amount"
    "unused (ig_ledger st) (tk_org f) key" "plain_account (ig_ledger st) (tk_account f)"
  shows "same_money (ig_ledger st) (ig_ledger st')
    \<or> (bal (ig_ledger st) (tk_account f) asset1 < sint amount
       \<and> (\<forall>a s. plain_account (ig_ledger st') a \<longrightarrow> bal (ig_ledger st') a s = (if a = tk_account f \<and> s = asset1 then sint amount else bal (ig_ledger st) a s))
       \<and> find_key (ig_ledger st') (tk_org f) key = None \<and> (\<forall>org. org \<noteq> tk_org f \<longrightarrow> unused (ig_ledger st') org key = unused (ig_ledger st) org key))"
proof -
  let ?l = "ig_ledger st"
  let ?short = "amount - Balance ?l (tk_org f) (tk_account f) asset1"
  have ok: "books_ok ?l" using assms(2) by (simp add: ingest_ok_def)
  have "\<exists>q \<in> set (accounts ?l). acc_id q = tk_account f \<and> acc_org q = tk_org f" using assms(2,3) by (simp add: ingest_ok_def tracked_ok_def)
  then have held: "sint (Balance ?l (tk_org f) (tk_account f) asset1) = bal ?l (tk_account f) asset1" by (simp add: Balance_eq)
  have short: "sint ?short = sint amount - bal ?l (tk_account f) asset1"
    using sint_short [OF assms(4)] plain_nonneg [OF ok assms(6)] held by simp
  show ?thesis
  proof (cases "sint ?short \<le> 0")
    case True
    then show ?thesis using assms(1) by (auto simp: open_balance_def Let_def same_money_def)
  next
    case False
    have org: "tk_org f \<noteq> 0" by (rule tracked_org [OF assms(2,3)])
    obtain x st1 where e: "externalFor pf (tk_org f) st = (x, st1)" by fastforce
    obtain external where x: "x = Inr external" using assms(1) False e by (cases x) (auto simp: open_balance_def Let_def)
    have memo: "memo_ok pf st" using assms(2) by (simp add: ingest_ok_def)
    have a1: "advances pf st st1" "known_external pf (ig_ledger st1) (tk_org f) external" using externalFor_advances [OF e org memo] x by simp_all
    have m1: "same_money ?l (ig_ledger st1)" by (rule externalFor_money [OF e org])
    let ?req = "opening_request r key f external asset1 ?short"
    obtain p l2 where p: "Post pf ?req (ig_ledger st1) = (p, l2)" by fastforce
    obtain i where i: "p = Inr i" "st' = st1\<lparr>ig_ledger := l2\<rparr>"
      using assms(1) False e x p by (cases p) (auto simp: open_balance_def Let_def with_ledger_def)
    have k: "find_key (ig_ledger st1) (Org ?req) (IdempotencyKey ?req) = None"
      using unused_key(2) assms(5) same_money_unused [OF m1] by (simp add: opening_request_def)
    note P = Post_fresh [OF p [unfolded i(1)] k]
    have ok1: "ingest_ok pf st1" by (rule advances_ok [OF a1(1) assms(2)])
    have adv2: "advances pf st1 st'" unfolding i(2) by (rule Post_advances [OF p])
    have ok': "books_ok (ig_ledger st')" using advances_ok [OF adv2 ok1] by (simp add: ingest_ok_def)
    have k': "known_external pf (ig_ledger st') (tk_org f) external" by (rule facts_last(2) [OF advances_grows [OF adv2] a1(2)])
    have pf': "plain_account (ig_ledger st') (tk_account f)"
      by (rule plain_grows [OF assms(6) advances_grows [OF advances_trans [OF a1(1) adv2]]])
    have "bal (ig_ledger st') a s = (if a = tk_account f \<and> s = asset1 then sint amount else bal ?l a s)" if "plain_account (ig_ledger st') a" for a s
      using P(1) [of a s] short external_not_plain [OF ok' k' that] external_not_plain [OF ok' k' pf'] same_money_bal [OF m1]
      by (auto simp: i(2) opening_request_def posting_sum_lines)
    moreover have row: "tx_org (tx_row pf ?req i) = tk_org f" "tx_key (tx_row pf ?req i) \<noteq> key" by (simp_all add: tx_row_def opening_request_def)
    have txs: "transactions (ig_ledger st') = transactions ?l @ [tx_row pf ?req i]" using P(2) m1 by (simp add: i(2) same_money_def)
    have "\<not> (tx_org x = tk_org f \<and> tx_key x = key)" if "x \<in> set (transactions (ig_ledger st'))" for x
      using that row(2) assms(5) unfolding txs unused_def by (cases "x = tx_row pf ?req i") auto
    then have "find_key (ig_ledger st') (tk_org f) key = None" unfolding find_key_def find_None_iff by blast
    moreover have "unused (ig_ledger st') org1 key = unused ?l org1 key" if "org1 \<noteq> tk_org f" for org1
      unfolding unused_def txs using that row(1) by simp
    ultimately show ?thesis using False short by auto
  qed
qed

text \<open>The balance of a plain account after a movement of an amount out of one account and into another.\<close>

definition paid :: "AccountID option \<Rightarrow> AccountID option \<Rightarrow> AssetID \<Rightarrow> int \<Rightarrow> AccountID \<Rightarrow> AssetID \<Rightarrow> int \<Rightarrow> int" where
  "paid f t asset1 amount a s b =
     (if s = asset1 \<and> f = Some a then max 0 (b - amount) else if s = asset1 \<and> t = Some a then b + amount else b)"

lemma outgoing_lines:
  "0 < sint amount \<Longrightarrow> y \<noteq> x \<Longrightarrow> posting_sum a s (two_lines x y asset1 (- amount)) =
     (if s = asset1 then (if a = x then - sint amount else if a = y then sint amount else 0) else 0)"
  by (auto simp: posting_sum_lines sint_neg)

lemma incoming_lines:
  "posting_sum a s (two_lines x y asset1 amount) = (if s = asset1 \<and> a = x then sint amount else 0)" if "a \<noteq> y"
  using that by (auto simp: posting_sum_lines)

lemma outgoing_books:
  assumes "post_entry pf r key (Some f) asset1 amount e st = (None, st')" "ingest_ok pf st" "f \<in> set (ig_tracked st)" "0 < sint amount"
    and e: "en_org e = tk_org f" "en_postings e = two_lines (tk_account f) y asset1 (- amount)" "y \<noteq> tk_account f"
    and "unused (ig_ledger st) (tk_org f) key" "plain_account (ig_ledger st) (tk_account f)"
  shows "\<forall>a s. plain_account (ig_ledger st) a \<longrightarrow> bal (ig_ledger st') a s = paid (Some (tk_account f)) (Some y) asset1 (sint amount) a s (bal (ig_ledger st) a s)"
    and "org \<noteq> tk_org f \<Longrightarrow> unused (ig_ledger st') org key = unused (ig_ledger st) org key"
proof -
  let ?l = "ig_ledger st" and ?req = "entry_request r key e"
  have named: "named_org (Some f)" "memo_ok pf st" using tracked_org [OF assms(2,3)] assms(2) by (simp_all add: named_org_def ingest_ok_def)
  have adv: "advances pf st st'" using post_entry_advances [OF assms(1) named] by simp
  have ok': "books_ok (ig_ledger st')" using advances_ok [OF adv assms(2)] by (simp add: ingest_ok_def)
  have nonneg: "0 \<le> bal (ig_ledger st') a s" if "plain_account ?l a" for a s
    by (rule plain_nonneg [OF ok' plain_grows [OF that advances_grows [OF adv]]])
  have direct: "(\<forall>a s. plain_account ?l a \<longrightarrow> bal (ig_ledger st') a s = paid (Some (tk_account f)) (Some y) asset1 (sint amount) a s (bal ?l a s))
      \<and> (\<forall>org1. org1 \<noteq> tk_org f \<longrightarrow> unused (ig_ledger st') org1 key = unused ?l org1 key)"
    if "Post pf ?req l1 = (Inr i, ig_ledger st')" "same_money ?l l1" for l1 i
  proof -
    have u: "unused l1 (en_org e) key" using assms(8) same_money_unused [OF that(2)] e(1) by simp
    have b: "bal (ig_ledger st') a s = bal ?l a s + (if s = asset1 then (if a = tk_account f then - sint amount else if a = y then sint amount else 0) else 0)" for a s
      using Post_entry(1) [OF that(1) u, of a s] same_money_bal [OF that(2)] by (simp add: e(2) outgoing_lines [OF assms(4) e(3)])
    have "bal (ig_ledger st') a s = paid (Some (tk_account f)) (Some y) asset1 (sint amount) a s (bal ?l a s)" if "plain_account ?l a" for a s
      using b [of a s] nonneg [OF that, of s] by (auto simp: paid_def)
    moreover have "unused (ig_ledger st') org1 key = unused ?l org1 key" if "org1 \<noteq> tk_org f" for org1
      using Post_entry(2) [OF \<open>Post pf ?req l1 = (Inr i, ig_ledger st')\<close> u, of org1] that e(1) same_money_unused [OF \<open>same_money ?l l1\<close>] by simp
    ultimately show ?thesis by blast
  qed
  obtain p l1 where p: "Post pf ?req ?l = (p, l1)" by fastforce
  have "(\<forall>a s. plain_account ?l a \<longrightarrow> bal (ig_ledger st') a s = paid (Some (tk_account f)) (Some y) asset1 (sint amount) a s (bal ?l a s))
      \<and> (\<forall>org1. org1 \<noteq> tk_org f \<longrightarrow> unused (ig_ledger st') org1 key = unused ?l org1 key)"
  proof (cases p)
    case (Inr i)
    then have "ig_ledger st' = l1" using assms(1) p by (auto simp: post_entry_def Let_def)
    then show ?thesis using direct [of ?l i] p Inr by (simp add: same_money_def)
  next
    case (Inl x)
    have m1: "same_money ?l l1" using Post_refused_money p Inl by blast
    obtain o2 st1 where o: "open_balance pf r key f asset1 amount (st\<lparr>ig_ledger := l1\<rparr>) = (o2, st1)" by fastforce
    obtain q l2 where q: "Post pf ?req (ig_ledger st1) = (q, l2)" by fastforce
    obtain j where j: "o2 = None" "q = Inr j" "ig_ledger st' = l2"
      using assms(1) p Inl o q by (cases o2; cases q) (auto simp: post_entry_def Let_def split: if_splits)
    have adv1: "advances pf st (st\<lparr>ig_ledger := l1\<rparr>)" by (rule Post_advances [OF p])
    have pl1: "plain_account l1 a" if "plain_account ?l a" for a using plain_grows [OF that advances_grows [OF adv1]] by simp
    have "same_money l1 (ig_ledger st1) \<or> (bal l1 (tk_account f) asset1 < sint amount
       \<and> (\<forall>a s. plain_account (ig_ledger st1) a \<longrightarrow> bal (ig_ledger st1) a s = (if a = tk_account f \<and> s = asset1 then sint amount else bal l1 a s))
       \<and> find_key (ig_ledger st1) (tk_org f) key = None \<and> (\<forall>org. org \<noteq> tk_org f \<longrightarrow> unused (ig_ledger st1) org key = unused l1 org key))"
    proof -
      have eq: "ig_ledger (st\<lparr>ig_ledger := l1\<rparr>) = l1" "f \<in> set (ig_tracked (st\<lparr>ig_ledger := l1\<rparr>))" using assms(3) by simp_all
      have u: "unused l1 (tk_org f) key" using assms(8) same_money_unused [OF m1] by simp
      show ?thesis using open_balance_books [OF o [unfolded j(1)] advances_ok [OF adv1 assms(2)] eq(2) assms(4), unfolded eq(1), OF u pl1 [OF assms(9)]] .
    qed
    then show ?thesis
    proof
      assume "same_money l1 (ig_ledger st1)"
      then show ?thesis using direct [of "ig_ledger st1" j] q j(2,3) same_money_trans [OF m1] by simp
    next
      assume op: "bal l1 (tk_account f) asset1 < sint amount
       \<and> (\<forall>a s. plain_account (ig_ledger st1) a \<longrightarrow> bal (ig_ledger st1) a s = (if a = tk_account f \<and> s = asset1 then sint amount else bal l1 a s))
       \<and> find_key (ig_ledger st1) (tk_org f) key = None \<and> (\<forall>org. org \<noteq> tk_org f \<longrightarrow> unused (ig_ledger st1) org key = unused l1 org key)"
      have k: "find_key (ig_ledger st1) (Org ?req) (IdempotencyKey ?req) = None" using op e(1) by (simp add: entry_request_def)
      note P = Post_fresh [OF q [unfolded j(2)] k]
      have b: "bal (ig_ledger st') a s = bal (ig_ledger st1) a s + (if s = asset1 then (if a = tk_account f then - sint amount else if a = y then sint amount else 0) else 0)" for a s
        using P(1) [of a s] by (simp add: j(3) entry_request_def e(2) outgoing_lines [OF assms(4) e(3)])
      have adv2: "advances pf (st\<lparr>ig_ledger := l1\<rparr>) st1"
        using open_advances [OF o tracked_org [OF assms(2,3)] advances_memo [OF adv1 named(2)]] .
      have "bal (ig_ledger st') a s = paid (Some (tk_account f)) (Some y) asset1 (sint amount) a s (bal ?l a s)" if "plain_account ?l a" for a s
      proof -
        have "plain_account (ig_ledger st1) a" using plain_grows [OF pl1 [OF that]] advances_grows [OF adv2] by simp
        then have "bal (ig_ledger st1) a s = (if a = tk_account f \<and> s = asset1 then sint amount else bal ?l a s)" using op same_money_bal [OF m1] by simp
        then show ?thesis using b [of a s] op same_money_bal [OF m1] by (auto simp: paid_def)
      qed
      moreover have "unused (ig_ledger st') org1 key = unused ?l org1 key" if "org1 \<noteq> tk_org f" for org1
      proof -
        have "tx_org (tx_row pf ?req j) = tk_org f" by (simp add: tx_row_def entry_request_def e(1))
        then have "unused (ig_ledger st') org1 key = unused (ig_ledger st1) org1 key" using P(2) that by (simp add: unused_def j(3))
        then show ?thesis using op that same_money_unused [OF m1] by simp
      qed
      ultimately show ?thesis by blast
    qed
  qed
  then show "\<forall>a s. plain_account (ig_ledger st) a \<longrightarrow> bal (ig_ledger st') a s = paid (Some (tk_account f)) (Some y) asset1 (sint amount) a s (bal (ig_ledger st) a s)"
    and "org \<noteq> tk_org f \<Longrightarrow> unused (ig_ledger st') org key = unused (ig_ledger st) org key" by blast+
qed

lemma incoming_books:
  assumes "post_entry pf r key f asset1 amount e st = (None, st')" "\<not> of_org f (en_org e)" "en_postings e = two_lines x y asset1 amount"
    and "unused (ig_ledger st) (en_org e) key" "a \<noteq> y"
  shows "bal (ig_ledger st') a s = bal (ig_ledger st) a s + (if s = asset1 \<and> a = x then sint amount else 0)"
proof -
  obtain p l1 where p: "Post pf (entry_request r key e) (ig_ledger st) = (p, l1)" by fastforce
  obtain i where "p = Inr i" "ig_ledger st' = l1" using assms(1,2) p by (cases p) (auto simp: post_entry_def Let_def)
  then show ?thesis using Post_entry(1) [of pf r key e "ig_ledger st" i l1] p assms(3,4) incoming_lines [OF assms(5)] by simp
qed

section \<open>A movement\<close>

lemma applyMovement_parts:
  assumes "applyMovement pf r n m st = (None, st')" "TrackedAddress_of pf (mv_from m) st = Inr f" "TrackedAddress_of pf (mv_to m) st = Inr t"
    "f \<noteq> None \<or> t \<noteq> None" "ingest_ok pf st"
  obtains a es st2 c i where "0 < sint (mv_amount m)" "advances pf st st2" "same_money (ig_ledger st) (ig_ledger st2)"
    "entries_are pf (ig_ledger st2) f t a (mv_amount m) es" "post_entries pf r (record_key r n) f a (mv_amount m) es st2 = (None, st')"
    "named_asset (mv_asset_type m) (mv_code m) (mv_issuer m) = Some (c, i)" "known_asset pf (ig_ledger st2) c i a"
proof -
  have named: "named_org f" "named_org t" using assms(2,3) tracked_org [OF assms(5)]
    by (auto simp: named_org_def TrackedAddress_of_def dest: find_in_set split: if_splits)
  have memo: "memo_ok pf st" using assms(5) by (simp add: ingest_ok_def)
  have pre: "mv_unreadable m = None" "0 < Sign (mv_amount m)" using assms(1-4) by (auto simp: applyMovement_def split: option.splits if_splits)
  obtain x st1 where 1: "resolveAsset pf (mv_asset_type m) (mv_code m) (mv_issuer m) st = (x, st1)" by fastforce
  obtain a where x: "x = Inr a" using assms pre 1 by (cases x) (auto simp: applyMovement_def)
  obtain y st2 where 2: "entriesFor pf f t a (mv_amount m) st1 = (y, st2)" by fastforce
  have body: "applyMovement pf r n m st = (case y of Inl e \<Rightarrow> (Some e, st2) | Inr es \<Rightarrow> post_entries pf r (record_key r n) f a (mv_amount m) es st2)"
    using assms(2-4) pre by (auto simp: applyMovement_def 1 2 x split: sum.split)
  obtain es where es: "y = Inr es" "post_entries pf r (record_key r n) f a (mv_amount m) es st2 = (None, st')" using body assms(1) by (cases y) auto
  have a1: "advances pf st st1" using resolveAsset_advances [OF 1] by simp
  obtain c i where ci: "named_asset (mv_asset_type m) (mv_code m) (mv_issuer m) = Some (c, i)" "known_asset pf (ig_ledger st1) c i a"
    using resolveAsset_advances [OF 1] x by blast
  have a2: "advances pf st1 st2" "entries_are pf (ig_ledger st2) f t a (mv_amount m) es"
    using entriesFor_advances [OF 2 named advances_memo [OF a1 memo]] es(1) by simp_all
  have m: "same_money (ig_ledger st) (ig_ledger st2)"
    using resolveAsset_money [OF 1] entriesFor_money [OF 2 named] same_money_trans by blast
  have "0 < sint (mv_amount m)" using pre(2) by (simp add: Sign_def split: if_splits)
  then show thesis using that [OF _ advances_trans [OF a1 a2(1)] m a2(2) es(2) ci(1) facts_last(1) [OF advances_grows [OF a2(1)] ci(2)]] by blast
qed

definition account_of :: "TrackedAddress option \<Rightarrow> AccountID option" where
  "account_of side = map_option tk_account side"

lemma sides_books:
  assumes "post_entries pf r key f asset1 amount es st = (None, st')" "ingest_ok pf st" "0 < sint amount" "\<not> same_org f t"
    and sides: "\<And>x. f = Some x \<or> t = Some x \<Longrightarrow> x \<in> set (ig_tracked st) \<and> plain_account (ig_ledger st) (tk_account x) \<and> unused (ig_ledger st) (tk_org x) key"
    and "side_is pf (ig_ledger st) ''withdrawal'' f asset1 (- amount) os" "side_is pf (ig_ledger st) ''deposit'' t asset1 amount is1" "es = os @ is1"
    and "plain_account (ig_ledger st) a"
  shows "bal (ig_ledger st') a s = paid (account_of f) (account_of t) asset1 (sint amount) a s (bal (ig_ledger st) a s)"
proof -
  let ?l = "ig_ledger st"
  have ok: "books_ok ?l" using assms(2) by (simp add: ingest_ok_def)
  have memo: "memo_ok pf st" using assms(2) by (simp add: ingest_ok_def)
  have diff: "tk_account x \<noteq> tk_account y \<and> tk_org x \<noteq> tk_org y" if "f = Some x" "t = Some y" for x y
  proof -
    have o: "tk_org x \<noteq> tk_org y" using assms(4) that by (simp add: same_org_def)
    have in2: "x \<in> set (ig_tracked st)" "y \<in> set (ig_tracked st)" using sides that by blast+
    have rows: "\<forall>u \<in> set (ig_tracked st). \<exists>w \<in> set (accounts ?l). acc_id w = tk_account u \<and> acc_org w = tk_org u"
      using assms(2) by (simp add: ingest_ok_def tracked_ok_def)
    obtain p where p: "p \<in> set (accounts ?l)" "acc_id p = tk_account x" "acc_org p = tk_org x" using rows in2(1) by blast
    obtain q where q: "q \<in> set (accounts ?l)" "acc_id q = tk_account y" "acc_org q = tk_org y" using rows in2(2) by blast
    from p q show ?thesis using o ok distinct_map_eq [of acc_id "accounts ?l" p q] by (auto simp: books_ok_def ids_ok_def)
  qed
  have outgoing: "\<exists>st1. post_entries pf r key f asset1 amount is1 st1 = (None, st') \<and> advances pf st st1
      \<and> bal (ig_ledger st1) a s = paid (account_of f) None asset1 (sint amount) a s (bal ?l a s) \<and> (\<forall>y. t = Some y \<longrightarrow> unused (ig_ledger st1) (tk_org y) key)"
  proof (cases f)
    case None
    then have "os = []" using assms(6) by (simp add: side_is_def)
    then show ?thesis using assms(1,8) sides by (intro exI [of _ st]) (auto simp: paid_def account_of_def None)
  next
    case (Some x)
    obtain z where z: "known_external pf ?l (tk_org x) z" "os = [\<lparr>en_org = tk_org x, en_kind = ''withdrawal'', en_postings = two_lines (tk_account x) z asset1 (- amount)\<rparr>]"
      using assms(6) Some by (auto simp: side_is_def)
    let ?e = "\<lparr>en_org = tk_org x, en_kind = ''withdrawal'', en_postings = two_lines (tk_account x) z asset1 (- amount)\<rparr>"
    obtain e1 st1 where 1: "post_entry pf r key f asset1 amount ?e st = (e1, st1)" by fastforce
    have e1: "e1 = None" "post_entries pf r key f asset1 amount is1 st1 = (None, st')" using assms(1,8) z(2) 1 by (cases e1; auto)+
    have s: "x \<in> set (ig_tracked st)" "plain_account ?l (tk_account x)" "unused ?l (tk_org x) key" using sides [of x] Some by simp_all
    have nz: "z \<noteq> tk_account x" "a \<noteq> z" using external_not_plain [OF ok z(1)] s(2) assms(9) by auto
    note O = outgoing_books [OF 1 [unfolded e1(1) Some] assms(2) s(1) assms(3) _ _ nz(1) s(3,2), simplified]
    have "advances pf st st1" using post_entry_advances [OF 1 _ memo] tracked_org [OF assms(2) s(1)] Some by (simp add: named_org_def)
    moreover have "bal (ig_ledger st1) a s = paid (account_of f) None asset1 (sint amount) a s (bal ?l a s)"
      using O(1) assms(9) nz(2) by (auto simp: paid_def account_of_def Some)
    moreover have "unused (ig_ledger st1) (tk_org y) key" if "t = Some y" for y
      using O(2) [of "tk_org y"] diff [OF Some that] sides [of y] that by auto
    ultimately show ?thesis using e1(2) by blast
  qed
  then obtain st1 where st1: "post_entries pf r key f asset1 amount is1 st1 = (None, st')" "advances pf st st1"
    "bal (ig_ledger st1) a s = paid (account_of f) None asset1 (sint amount) a s (bal ?l a s)" "\<forall>y. t = Some y \<longrightarrow> unused (ig_ledger st1) (tk_org y) key" by blast
  show ?thesis
  proof (cases t)
    case None
    then have "is1 = []" using assms(7) by (simp add: side_is_def)
    then show ?thesis using st1(1,3) by (simp add: None account_of_def)
  next
    case (Some y)
    obtain z where z: "known_external pf ?l (tk_org y) z" "is1 = [\<lparr>en_org = tk_org y, en_kind = ''deposit'', en_postings = two_lines (tk_account y) z asset1 amount\<rparr>]"
      using assms(7) Some by (auto simp: side_is_def)
    let ?e = "\<lparr>en_org = tk_org y, en_kind = ''deposit'', en_postings = two_lines (tk_account y) z asset1 amount\<rparr>"
    have 2: "post_entry pf r key f asset1 amount ?e st1 = (None, st')" using st1(1) z(2) by (auto split: option.splits prod.splits)
    have no: "\<not> of_org f (en_org ?e)" using diff Some by (auto simp: of_org_def split: option.splits)
    have "a \<noteq> z" using external_not_plain [OF ok z(1) assms(9)] .
    then have b: "bal (ig_ledger st') a s = bal (ig_ledger st1) a s + (if s = asset1 \<and> a = tk_account y then sint amount else 0)"
      using incoming_books [OF 2 no, of "tk_account y" z a s] st1(4) Some by simp
    have "f \<noteq> None \<longrightarrow> account_of f \<noteq> Some (tk_account y)" using diff Some by (auto simp: account_of_def)
    then show ?thesis using b st1(3) by (auto simp: paid_def account_of_def Some)
  qed
qed

text \<open>
  C6: the books follow the network.  In any run, a movement that is recorded for the first time takes its amount from the account of the tracked address it came from, and adds it to the
  account of the tracked address it went to, in the asset it names and in no other, whether the two are of one org or of two; an account that is seen to spend more
  than the books say it held, because the rest arrived before it was watched, is left with nothing; and no other account that is not a counterparty changes.
\<close>

theorem books_follow_network:
  assumes "(ingest_step pf)\<^sup>*\<^sup>* ingest_init st" "applyMovement pf r n m st = (None, st')"
    and "TrackedAddress_of pf (mv_from m) st = Inr f" "TrackedAddress_of pf (mv_to m) st = Inr t" "f \<noteq> None \<or> t \<noteq> None" "mv_from m \<noteq> mv_to m"
    and "\<And>x. f = Some x \<or> t = Some x \<Longrightarrow> plain_account (ig_ledger st) (tk_account x) \<and> unused (ig_ledger st) (tk_org x) (record_key r n)"
  shows "\<exists>c i asset1. named_asset (mv_asset_type m) (mv_code m) (mv_issuer m) = Some (c, i) \<and> known_asset pf (ig_ledger st') c i asset1
    \<and> (\<forall>a s. plain_account (ig_ledger st) a \<longrightarrow>
         bal (ig_ledger st') a s = paid (account_of f) (account_of t) asset1 (sint (mv_amount m)) a s (bal (ig_ledger st) a s))"
proof -
  have ok: "ingest_ok pf st" using ingest_steps_ok [OF assms(1) ingest_init_ok] by simp
  obtain a1 es st2 c i where p: "0 < sint (mv_amount m)" "advances pf st st2" "same_money (ig_ledger st) (ig_ledger st2)"
    "entries_are pf (ig_ledger st2) f t a1 (mv_amount m) es" "post_entries pf r (record_key r n) f a1 (mv_amount m) es st2 = (None, st')"
    "named_asset (mv_asset_type m) (mv_code m) (mv_issuer m) = Some (c, i)" "known_asset pf (ig_ledger st2) c i a1"
    by (rule applyMovement_parts [OF assms(2-5) ok])
  have ok2: "ingest_ok pf st2" by (rule advances_ok [OF p(2) ok])
  have g2: "grows (ig_ledger st) (ig_ledger st2)" by (rule advances_grows [OF p(2)])
  have tr: "ig_tracked st2 = ig_tracked st" using p(2) by (simp add: advances_def)
  have looked: "x \<in> set (ig_tracked st) \<and> tk_address x = y" if "TrackedAddress_of pf y st = Inr (Some x)" for x y
    using that find_in_set [of "\<lambda>t. tk_address t = y" "ig_tracked st" x] by (simp add: TrackedAddress_of_def split: if_splits)
  have found: "x \<in> set (ig_tracked st)" if "f = Some x \<or> t = Some x" for x using that looked assms(3,4) by blast
  have sides: "x \<in> set (ig_tracked st2) \<and> plain_account (ig_ledger st2) (tk_account x) \<and> unused (ig_ledger st2) (tk_org x) (record_key r n)" if "f = Some x \<or> t = Some x" for x
    using found [OF that] assms(7) [OF that] plain_grows [OF _ g2] same_money_unused [OF p(3)] tr by simp
  have named: "named_org f" "memo_ok pf st2" using found tracked_org [OF ok] ok2 by (auto simp: named_org_def ingest_ok_def)
  have "bal (ig_ledger st') a s = paid (account_of f) (account_of t) a1 (sint (mv_amount m)) a s (bal (ig_ledger st2) a s)" if a: "plain_account (ig_ledger st2) a" for a s
  proof (cases "same_org f t")
    case False
    then obtain os is1 where "side_is pf (ig_ledger st2) ''withdrawal'' f a1 (- mv_amount m) os" "side_is pf (ig_ledger st2) ''deposit'' t a1 (mv_amount m) is1" "es = os @ is1"
      using p(4) unfolding entries_are_def by (simp only: if_False) blast
    then show ?thesis using sides_books [OF p(5) ok2 p(1) False sides] a by blast
  next
    case True
    then obtain x y where xy: "f = Some x" "t = Some y" "tk_org x = tk_org y" by (auto simp: same_org_def split: option.splits)
    let ?e = "\<lparr>en_org = tk_org x, en_kind = ''send'', en_postings = two_lines (tk_account x) (tk_account y) a1 (- mv_amount m)\<rparr>"
    have e: "post_entry pf r (record_key r n) (Some x) a1 (mv_amount m) ?e st2 = (None, st')"
      using p(4,5) True xy by (auto simp: entries_are_def split: option.splits prod.splits)
    have "x \<noteq> y" using looked assms(3,4,6) xy(1,2) by metis
    then have ne: "tk_account y \<noteq> tk_account x"
      using found [of x] found [of y] xy(1,2) ok distinct_map_eq [of tk_account "ig_tracked st" y x]
      by (auto simp: ingest_ok_def tracked_ok_def distinct_tracked_def)
    have s: "x \<in> set (ig_tracked st2)" "plain_account (ig_ledger st2) (tk_account x)" "unused (ig_ledger st2) (tk_org x) (record_key r n)" using sides [of x] xy(1) by simp_all
    show ?thesis using outgoing_books(1) [OF e ok2 s(1) p(1) _ _ ne s(3,2)] a by (simp add: account_of_def xy)
  qed
  then have "\<forall>a s. plain_account (ig_ledger st) a \<longrightarrow>
      bal (ig_ledger st') a s = paid (account_of f) (account_of t) a1 (sint (mv_amount m)) a s (bal (ig_ledger st) a s)"
    using plain_grows [OF _ g2] same_money_bal [OF p(3)] by simp
  moreover have "known_asset pf (ig_ledger st') c i a1"
    using facts_last(1) [OF advances_grows p(7)] post_entries_advances [OF p(5) named] by blast
  ultimately show ?thesis using p(6) by blast
qed

theorem books_follow_network_witness:
  "bal (ig_ledger demo_watching) 2 1 = 50
     \<and> (\<exists>st'. applyMovement demo_pf demo_deposit 0 (rc_movements demo_deposit ! 0) demo_watching = (None, st') \<and> bal (ig_ledger st') 2 1 = 55)"
proof -
  let ?m = "movement ''stranger'' (replicate 56 (CHR ''G'')) native_asset 5"
  have m: "rc_movements demo_deposit = [?m]" "rc_closed demo_deposit = []" "mv_from ?m = ''stranger''" "mv_to ?m = replicate 56 (CHR ''G'')" "mv_amount ?m = 5"
    "mv_asset_type ?m = ''native''" by (simp_all add: demo_deposit_def movement_def native_asset_def)
  obtain st' where ap: "applyMovement demo_pf demo_deposit 0 ?m demo_watching = (None, st')"
    using demo_deposit_applied by (auto simp: apply_record_def m(1,2) split: prod.splits option.splits)
  have l: "ig_ledger demo_watching = demo_db" by (simp add: demo_watching_eq)
  have plain: "plain_account demo_db 2" by (simp add: plain_account_def demo_db_eq demo_opened_eq new_account_def)
  have unused: "unused demo_db 1 (record_key demo_deposit 0)" by (simp add: unused_def demo_db_eq tx_row_def demo_request_def record_key_def demo_deposit_def)
  have w: "tk_account demo_watched = 2" "tk_org demo_watched = 1" by (simp_all add: demo_watched_def)
  have ne: "mv_from ?m \<noteq> mv_to ?m" unfolding m by (auto dest: arg_cong [where f = length])
  obtain c i a1 where r: "named_asset ''native'' (mv_code ?m) (mv_issuer ?m) = Some (c, i)" "known_asset demo_pf (ig_ledger st') c i a1"
    "bal (ig_ledger st') 2 1 = paid None (Some 2) a1 5 2 1 (bal demo_db 2 1)"
    using books_follow_network [OF demo_watching_reached ap, unfolded m, OF demo_deposit_lookups _ ne [unfolded m]] plain unused by (auto simp: l w account_of_def)
  have k: "known_asset demo_pf demo_db ''XLM'' [] 1"
    by (simp add: known_asset_def demo_pf_def demo_db_eq demo_opened_eq ledger_init_def same_asset_def coalesce_def)
  have "advances demo_pf demo_watching st'"
    using applyMovement_advances [OF ap] ingest_steps_ok [OF demo_watching_reached ingest_init_ok] by blast
  then have "known_asset demo_pf (ig_ledger st') ''XLM'' [] 1" using facts_last(1) [OF advances_grows k [folded l]] by blast
  then have "a1 = 1" using r(1,2) by (auto simp: named_asset_def known_asset_def)
  moreover have "bal demo_db 2 1 = 50" by (simp add: bal_def demo_db_eq)
  ultimately show ?thesis using r(3) ap l by (simp add: paid_def m(1))
qed

end
