(* ===== verification/Ingestion_Events.thy ===== *)
theory Ingestion_Events
  imports Ingestion_Safety
begin

text \<open>
  What an event becomes, and three ways the stream stops or the books are wrong.
\<close>

section \<open>Amounts\<close>

text \<open>The integer a transfer states, as the contract wrote it.\<close>

definition token_amount :: "ScVal \<Rightarrow> int option" where
  "token_amount v =
     (case v of
        ScvI128 hi lo \<Rightarrow> Some (sint hi * 2 ^ 64 + uint lo)
      | ScvU128 hi lo \<Rightarrow> Some (uint hi * 2 ^ 64 + uint lo)
      | ScvI64 i \<Rightarrow> Some (sint i)
      | ScvU64 u \<Rightarrow> Some (uint u)
      | _ \<Rightarrow> None)"

lemma transfer_amount_eq: "transfer_amount v = token_amount v"
  by (cases v) (simp_all add: transfer_amount_def token_amount_def glue_add glue_or glue_def)

lemma stroopsOf_exact:
  "stroopsOf v = (case token_amount v of None \<Rightarrow> Inl NotAnAmount | Some n \<Rightarrow> if in_int64 n then Inr (word_of_int n) else Inl (ErrAmountTooLarge n))"
  by (simp add: stroopsOf_def transfer_amount_eq split: option.split)

lemma Sign_word: "in_int64 n \<Longrightarrow> sint (word_of_int n :: stroops) = n"
  by (simp only: sint_word_of_int64 wrap64_id)

text \<open>What the data of a transfer states: an integer, or one under \<open>amount\<close> in a map beside a memo.\<close>

definition stated :: "ScVal option \<Rightarrow> int option" where
  "stated v =
     (case v of
        None \<Rightarrow> None
      | Some (ScvMap (Some m)) \<Rightarrow> (case map_of m (ScvSymbol ''amount'') of None \<Rightarrow> None | Some x \<Rightarrow> token_amount x)
      | Some x \<Rightarrow> token_amount x)"

lemma find_map_of: "map_option snd (find (\<lambda>(k, x). k = key) m) = map_of m key"
  by (induction m) auto

lemma stated_Some: "stated (Some v) = token_amount (amountIn v)"
proof (cases v)
  case (ScvMap o1)
  then show ?thesis
  proof (cases o1)
    case (Some m)
    show ?thesis
    proof (cases "find (\<lambda>(k, x). k = ScvSymbol ''amount'') m")
      case None
      then have "map_of m (ScvSymbol ''amount'') = None" using find_map_of [of "ScvSymbol ''amount''" m] by simp
      then show ?thesis using ScvMap Some None by (simp add: stated_def amountIn_def token_amount_def)
    next
      case f: (Some p)
      then have "map_of m (ScvSymbol ''amount'') = Some (snd p)" using find_map_of [of "ScvSymbol ''amount''" m] by simp
      then show ?thesis using ScvMap Some f by (cases p) (simp add: stated_def amountIn_def)
    qed
  qed (simp add: stated_def amountIn_def token_amount_def)
qed (simp_all add: stated_def amountIn_def)

lemma event_movements_stated:
  "event_movements v m =
     (case stated v of
        None \<Rightarrow> [m\<lparr>mv_unreadable := Some (if v = None then UndecodableValue else NotAnAmount)\<rparr>]
      | Some n \<Rightarrow> if \<not> in_int64 n then [m\<lparr>mv_unreadable := Some (ErrAmountTooLarge n)\<rparr>]
                   else if n \<le> 0 then [] else [m\<lparr>mv_amount := word_of_int n\<rparr>])"
proof (cases v)
  case None
  then show ?thesis by (simp add: event_movements_def stated_def)
next
  case (Some x)
  then show ?thesis
    by (auto simp: event_movements_def stated_Some stroopsOf_exact Sign_def Sign_word split: option.splits)
qed

text \<open>
  C34: the amount of a transfer is read exactly, or the transfer is kept as unreadable; none is lost.  An event whose topics are those of a transfer gives one
  movement, between the two addresses and in the asset of the topics, unless it states an integer of 64 bits that is not positive, which moves nothing.  The
  movement is readable exactly when the event states a positive integer below \<open>2 ^ 63\<close>, and then its amount is that integer; otherwise it carries why it
  cannot be read: its data does not decode, is not an integer, or is the very integer that does not fit.
\<close>

theorem transferRecord_exact:
  assumes "transferRecord k ev = Inr r" "decodeTopics 0 (ev_topics ev) = Inr topics" "transfer_topics k topics = Some (from1, to1, ty, code, issuer)"
  shows "(rc_movements r = [] \<longleftrightarrow> (\<exists>n. stated (ev_value ev) = Some n \<and> - (2 ^ 63) \<le> n \<and> n \<le> 0))
    \<and> (rc_movements r \<noteq> [] \<longrightarrow> (\<exists>m. rc_movements r = [m] \<and> mv_from m = from1 \<and> mv_to m = to1 \<and> mv_asset_type m = ty \<and> mv_code m = code \<and> mv_issuer m = issuer
         \<and> mv_unreadable m =
             (case stated (ev_value ev) of
                None \<Rightarrow> Some (if ev_value ev = None then UndecodableValue else NotAnAmount)
              | Some n \<Rightarrow> if - (2 ^ 63) \<le> n \<and> n < 2 ^ 63 then None else Some (ErrAmountTooLarge n))
         \<and> (mv_unreadable m = None \<longrightarrow> stated (ev_value ev) = Some (sint (mv_amount m)) \<and> 0 < sint (mv_amount m))))"
proof -
  let ?m = "movement from1 to1 (ty, code, issuer) 0"
  have r: "rc_movements r = event_movements (ev_value ev) ?m"
    using assms by (auto simp: transferRecord_def Let_def split: option.splits)
  have m: "mv_from ?m = from1" "mv_to ?m = to1" "mv_asset_type ?m = ty" "mv_code ?m = code" "mv_issuer ?m = issuer" "mv_unreadable ?m = None"
    by (simp_all add: movement_def)
  have fits: "in_int64 n \<longleftrightarrow> - (2 ^ 63) \<le> n \<and> n < 2 ^ 63" for n by (simp add: in_int64_def)
  show ?thesis
  proof (cases "stated (ev_value ev)")
    case None
    then show ?thesis using m by (simp add: r event_movements_stated)
  next
    case (Some n)
    then show ?thesis using m fits [of n] Sign_word [of n] by (cases "in_int64 n") (auto simp: r event_movements_stated)
  qed
qed

definition demo_keys_of :: strkey where
  "demo_keys_of = \<lparr>EncodeAccount = (\<lambda>s. CHR ''G'' # s), EncodeContract = (\<lambda>s. Some (CHR ''C'' # s))\<rparr>"

definition demo_event :: rpc_event where
  "demo_event = \<lparr>ev_id = ''1-1'', ev_contract = ''anyone'', ev_tx = [], ev_closed_at = Some 0,
     ev_topics = [Some (ScvSymbol ''transfer''), Some (ScvAddress (AddrAccount ''A'')), Some (ScvAddress (AddrContract ''B'')), Some (ScvString ''native'')],
     ev_value = Some (ScvI128 1 5)\<rparr>"

theorem transferRecord_exact_witness:
  "\<exists>r m. transferRecord demo_keys_of demo_event = Inr r \<and> rc_movements r = [m] \<and> mv_unreadable m = Some (ErrAmountTooLarge (2 ^ 64 + 5))"
proof -
  let ?ts = "[ScvSymbol ''transfer'', ScvAddress (AddrAccount ''A''), ScvAddress (AddrContract ''B''), ScvString ''native'']"
  have t: "decodeTopics 0 (ev_topics demo_event) = Inr ?ts" by (simp add: demo_event_def)
  have p: "transfer_topics demo_keys_of ?ts = Some (''GA'', ''CB'', ''native'', [], [])"
    by (simp add: transfer_topics_def addressOf_def parseAsset_event_def demo_keys_of_def)
  obtain r where r: "transferRecord demo_keys_of demo_event = Inr r" using t p by (simp add: transferRecord_def demo_event_def)
  have v: "stated (ev_value demo_event) = Some (2 ^ 64 + 5)" by (simp add: demo_event_def stated_def token_amount_def)
  have "rc_movements r \<noteq> []" using transferRecord_exact [OF r t p] v by simp
  then show ?thesis using transferRecord_exact [OF r t p] v r by (intro exI [of _ r]) auto
qed

section \<open>Whose event it is\<close>

text \<open>
  The contract an event comes from is not looked at, so that the asset a transfer is booked in is whatever the contract that emitted it says: any contract may say \<open>native\<close>.
\<close>

lemma any_contract_books: "transferRecord k (ev\<lparr>ev_contract := c\<rparr>) = transferRecord k ev"
  by (simp add: transferRecord_def Let_def cong: option.case_cong sum.case_cong)

text \<open>
  An asset whose issuer is not an account's address is refused by the table of assets, and a record that is refused keeps the cursor where it is.  A contract may
  name any issuer, so that one event naming a tracked address stops the stream for good.
\<close>

lemma any_token_stops:
  assumes "TrackedAddress_of pf (mv_from m) st = Inr f" "TrackedAddress_of pf (mv_to m) st = Inr (Some t)" "mv_asset_type m \<noteq> ''native''" "\<not> issuer_ok (mv_issuer m)"
  shows "fst (applyMovement pf r n m st) \<noteq> None"
  using assms
  by (auto simp: applyMovement_def resolveAsset_def with_ledger_def EnsureAsset_def Let_def split: option.splits prod.splits sum.splits if_splits)

lemma any_token_reads: "parseAsset_event ''USDX:me'' = Some (''credit_alphanum4'', ''USDX'', ''me'')" "\<not> issuer_ok ''me''"
  by (simp_all add: parseAsset_event_def issuer_ok_def)

section \<open>The table of assets wears out\<close>

text \<open>
  Every call of \<open>EnsureAsset\<close> draws a value of a sequence of 16 bits, for a known asset too, and ingestion makes one for every movement of a tracked address.
  After 32767 of them no asset is found any more, and no movement is recorded.
\<close>

lemma EnsureAsset_draws:
  assumes "EnsureAsset pf code issuer l = (Inr a, l')"
  shows "sint (asset_seq l') = sint (asset_seq l) + 1"
proof -
  obtain i where i: "next_id (asset_seq l) = Some i" "asset_seq l' = i"
    using assms by (auto simp: EnsureAsset_def Let_def split: option.splits if_splits)
  then have "sint (asset_seq l) < sint (asset_seq l + 1)" "i = asset_seq l + 1" by (auto simp: next_id_def split: if_splits)
  moreover have "sint (asset_seq l + 1) = sint (asset_seq l) + 1"
  proof -
    have r: "sint (asset_seq l) < 2 ^ 15" "- (2 ^ 15) \<le> sint (asset_seq l)" using sint_lt [of "asset_seq l"] sint_ge [of "asset_seq l"] by simp_all
    have "sint (asset_seq l) \<noteq> 2 ^ 15 - 1"
    proof
      assume "sint (asset_seq l) = 2 ^ 15 - 1"
      then have "sint (asset_seq l) = sint (32767 :: AssetID)" by simp
      then have "asset_seq l = 32767" by (rule signed_word_eqI)
      then show False using \<open>sint (asset_seq l) < sint (asset_seq l + 1)\<close> by simp
    qed
    then have "signed_take_bit 15 (sint (asset_seq l) + 1) = sint (asset_seq l) + 1" using r by (intro signed_take_bit_int_eq_self) simp_all
    then show ?thesis by (simp add: sint_word_ariths)
  qed
  ultimately show ?thesis using i(2) by simp
qed

lemma EnsureAsset_worn:
  assumes "sint (asset_seq l) = 32767"
  shows "fst (EnsureAsset pf code issuer l) \<noteq> Inr a"
proof -
  have "asset_seq l = 32767" using assms by (intro signed_word_eqI) simp
  then have "next_id (asset_seq l) = None" by (simp add: next_id_def)
  then show ?thesis by (simp add: EnsureAsset_def Let_def)
qed

lemma worn_stops:
  assumes "TrackedAddress_of pf (mv_from m) st = Inr f" "TrackedAddress_of pf (mv_to m) st = Inr (Some t)" "sint (asset_seq (ig_ledger st)) = 32767"
  shows "fst (applyMovement pf r n m st) \<noteq> None"
proof -
  have "fst (resolveAsset pf ty code issuer st) \<noteq> Inr a" for ty code issuer a
    using EnsureAsset_worn [OF assms(3)] by (auto simp: resolveAsset_def with_ledger_def map_sum_def split: sum.splits)
  then have "\<exists>e st1. resolveAsset pf ty code issuer st = (Inl e, st1)" for ty code issuer
    by (metis prod.collapse sum.exhaust)
  then obtain e st1 where "resolveAsset pf (mv_asset_type m) (mv_code m) (mv_issuer m) st = (Inl e, st1)" by blast
  then show ?thesis using assms(1,2) by (auto simp: applyMovement_def split: option.splits)
qed

end
