(* ===== verification/Spec2Isabelle.thy ===== *)
theory Spec2Isabelle
  imports Intent_Verify Tokens Connector_Amount Connector Breaker Chat_Split Egress Proposal_Slots Member_Safety
    Link_Safety Enrollment Payroll_Safety Treasury_Abi Sends_Safety Swaps Grant_Statement Grant_Safety Ingestion_Books Ingestion_Events
begin

text \<open>
  A verification development for stelfin, a service through which the members of a group keep and spend a shared Stellar
  treasury from a chat.  The program keeps an append-only double-entry ledger of what it saw on the network, members and the addresses they
  have proved, treasuries and their signers, proposals that wait for signatures, and connectors to the outside tools a workspace reads.
  Every theory models the Go code it names, definition by definition; nothing here is executed by the program.

  \<^bold>\<open>How the parts interact.\<close>  A message is decoded by a language model; \<^verbatim>\<open>api/intent\<close> checks the decoding against the words that were said, and
  \<^verbatim>\<open>api/send.go\<close> turns it into an envelope that is shown and, once confirmed through a token (\<^verbatim>\<open>api/token.go\<close>), submitted
  (\<^verbatim>\<open>api/submit.go\<close>, \<^verbatim>\<open>settlement/settlement.go\<close>).  A treasury's money moves through a proposal instead: \<^verbatim>\<open>api/proposal.go\<close>,
  \<^verbatim>\<open>api/batch.go\<close>, \<^verbatim>\<open>api/swap.go\<close> and \<^verbatim>\<open>api/trust.go\<close> build an envelope within the limits of \<^verbatim>\<open>api/rails.go\<close>, describe it
  (\<^verbatim>\<open>settlement/describe.go\<close>), store it (\<^verbatim>\<open>ledger/store/proposal.go\<close>), collect signatures (\<^verbatim>\<open>signer\<close>) and submit it.  Who may do what rests on
  challenges that were signed (\<^verbatim>\<open>identity\<close>, \<^verbatim>\<open>api/link.go\<close>, \<^verbatim>\<open>api/treasury.go\<close>, \<^verbatim>\<open>ledger/store/member.go\<close>).  A payroll may be read from a
  connector, which a treasury's signers granted (\<^verbatim>\<open>api/connectors.go\<close>, \<^verbatim>\<open>connector\<close>).

  \<^bold>\<open>The theories.\<close>

    \<^item> \<open>Prelude\<close>, \<open>Go_Strings\<close>, \<open>Utf8\<close>, \<open>Utf8_Chunks\<close>, \<open>Base64\<close>, \<open>Codes\<close>: results, 64-bit words, the parts of Go's \<^verbatim>\<open>strings\<close>, \<^verbatim>\<open>strconv\<close>,
      \<^verbatim>\<open>utf8\<close> and \<^verbatim>\<open>base64\<close> the program uses, and the locale \<open>prefix_code\<close> of encodings that can be read back in one way only, which the
      escapings of \<open>Scval\<close> and \<open>Describe_Safety\<close> and UTF-8 itself are interpretations of.
    \<^item> \<open>Money\<close> (\<^verbatim>\<open>internal/money\<close>): parsing, printing and checked arithmetic on stroops; exact or refused.
    \<^item> \<open>Intent_Amount\<close>, \<open>Intent_Verify\<close> (\<^verbatim>\<open>api/intent\<close>): amounts in words, tokens, verification and resolution; what is verified is grounded in the
      message, whatever the decoder answered.
    \<^item> \<open>Ledger\<close> (\<^verbatim>\<open>ledger/ledger.go\<close>): posting, balances, assets and accounts over the tables with their constraints and triggers.  The state is a
      record of tables; runs are the step relation \<open>ledger_step\<close>; every reachable ledger balances, conserves value in each org, and takes a
      retry once.
    \<^item> \<open>Sends\<close>, \<open>Sends_Safety\<close> (\<^verbatim>\<open>api/send.go\<close>, \<^verbatim>\<open>submit.go\<close>, \<^verbatim>\<open>confirm.go\<close>, \<^verbatim>\<open>settlement/payment.go\<close>): what is shown is what the envelope pays and
      what was said, and it is handed to the network at most once, by the org and owner it was shown to.
    \<^item> \<open>Tokens\<close> (the four token files of \<^verbatim>\<open>api\<close>): issue and verify; the locale \<open>token_codec\<close> is interpreted for each kind.
    \<^item> \<open>Proposal_Store\<close>, \<open>Proposal_Slots\<close> (\<^verbatim>\<open>ledger/store/proposal.go\<close>) and \<open>Proposal_Service\<close> (\<^verbatim>\<open>api/proposal.go\<close>, \<^verbatim>\<open>scope.go\<close>): the life of a proposal
      as a state machine, its refinement to one slot per treasury, and that only what enough signers signed is submitted.
    \<^item> \<open>Rails\<close> (\<^verbatim>\<open>api/rails.go\<close>, \<^verbatim>\<open>ledger/store/workspace.go\<close>): kill switch, ceilings and destination check.
    \<^item> \<open>Signer\<close> (\<^verbatim>\<open>signer\<close>), \<open>Settlement\<close> (\<^verbatim>\<open>settlement/settlement.go\<close>, \<^verbatim>\<open>ops_multisig.go\<close>): signatures and their weight, submission and its answers, and
      that a signer change never locks an account.
    \<^item> \<open>Scval\<close>, \<open>Describe\<close>, \<open>Describe_Safety\<close>, \<open>Describe_Claims\<close> (\<^verbatim>\<open>settlement/scval.go\<close>, \<^verbatim>\<open>describe*.go\<close>, \<^verbatim>\<open>canonical.go\<close>): what a signer is shown of a
      transaction, and how far its bytes determine the transaction: its header always, its operations where contract texts are UTF-8, but not what an
      authorisation allows.
    \<^item> \<open>Payroll\<close>, \<open>Drafts\<close>, \<open>Payroll_Safety\<close> (\<^verbatim>\<open>settlement/ops_payroll.go\<close>, \<^verbatim>\<open>api/batch.go\<close>, drafts of \<^verbatim>\<open>api/connectors.go\<close>): a table is read whole or not at all
      and the proposal pays exactly its rows.
    \<^item> \<open>Markets\<close>, \<open>Swaps\<close> (\<^verbatim>\<open>settlement/ops_dex.go\<close>, \<^verbatim>\<open>quote.go\<close>, \<^verbatim>\<open>ops_trustline.go\<close>, \<^verbatim>\<open>api/assets.go\<close>, \<^verbatim>\<open>swap.go\<close>, \<^verbatim>\<open>trust.go\<close>): quotes, slippage and swaps with
      the floor that was agreed.
    \<^item> \<open>Treasury_Abi\<close> (\<^verbatim>\<open>contracts/treasuryabi\<close>): the values of the treasury contract, written and read back; nothing but a struct with exactly its fields is read.
    \<^item> \<open>Members\<close>, \<open>Members_Inv\<close>, \<open>Member_Safety\<close> (\<^verbatim>\<open>ledger/store/member.go\<close>, \<^verbatim>\<open>challenge.go\<close>, \<^verbatim>\<open>ReleaseAddress\<close> of \<^verbatim>\<open>reclaim.go\<close>), \<open>Linking\<close>, \<open>Link_Safety\<close> (\<^verbatim>\<open>identity\<close>, \<^verbatim>\<open>api/link.go\<close>,
      \<^verbatim>\<open>api/treasury.go\<close>, \<^verbatim>\<open>ledger/store/treasury.go\<close>), \<open>Enrollment\<close> (\<^verbatim>\<open>ledger/store/enrollment.go\<close>): identities, roles, challenges, treasuries and
      sponsored accounts; an address or a treasury is on record only after a challenge for it was signed and spent.
    \<^item> \<open>Connector\<close>, \<open>Connector_Amount\<close>, \<open>Breaker\<close>, \<open>Egress\<close>, \<open>Seal\<close>, \<open>Mcp_Surface\<close>, \<open>Mcp_Client\<close> (\<^verbatim>\<open>connector\<close>): the guard, its two limiters as
      interpretations of the locale \<open>limiter\<close>, cells, the breaker under overlapping calls against the history of what they reported, public addresses only, sealed credentials, the digest of a
      server's tools and the client that calls only pinned ones.
    \<^item> \<open>Grants\<close>, \<open>Grant_Statement\<close>, \<open>Grant_Safety\<close> (\<^verbatim>\<open>ledger/store/connector.go\<close>, \<^verbatim>\<open>api/connectors.go\<close>, \<^verbatim>\<open>identity/grant.go\<close>): registering, setting up, granting
      and reading; a read returns rows only under a grant whose statement the treasury's signers signed, and equal statements agree on every line.
    \<^item> \<open>Ingestion\<close>, \<open>Ingestion_Safety\<close> (\<^verbatim>\<open>ingestion\<close>, \<^verbatim>\<open>ledger/store/account.go\<close>): operations and events of the network into postings; a record that is
      delivered again changes nothing, and the books follow what the network says moved.
    \<^item> \<open>Chat_Split\<close> (\<^verbatim>\<open>chat/split.go\<close>): replies cut to what a platform takes, losing no word.

  \<^bold>\<open>State, errors, words.\<close>  A store's state is a record with one list per table; a call is a function that returns its result, an error value or
  a success, beside the new state, and refused calls say what they leave behind.  One transaction is one step, so any interleaving of callers is a
  sequence of steps; where the source checks and acts in two transactions the model has two.  Go's \<open>int64\<close> is \<open>64 word\<close>, read with \<open>sint\<close>; strings are
  byte lists, which need not be UTF-8.  A panic is a value (\<open>None\<close>, or \<open>NilPointer\<close> in \<open>Grants\<close>).

  \<^bold>\<open>Parameters.\<close>  Code that is not in the repository is an argument: the Stellar SDK (envelopes, hashes, Ed25519, strkeys, SEP-10), Horizon's answers, what the
  language model decodes, remote servers, \<^verbatim>\<open>encoding/json\<close>, AES-GCM, HMAC and SHA-256, what PostgreSQL can store and how it folds case, the Unicode tables
  above U+0080, clocks and random bytes.  Laws are assumed of them only where a theorem says so, and each such theorem has a witness in which a
  concrete function satisfies them; where a hash decides, a theorem says that the digests agree only if the texts do or the hash collides.

  \<^bold>\<open>Termination and bounds.\<close>  All definitions are total but the loop of \<open>Chat_Split\<close> that cuts a long word, which is a \<open>partial_function (option)\<close>, with the theorem
  that it returns whenever the limit is at least 2 (with 1 it does not, which is a finding).  No definition uses fuel.  The depth of a JSON schema is bounded as the code
  bounds it (64).

  \<^bold>\<open>Not modelled.\<close>  The contract treasuries' services and the Soroban client (\<^verbatim>\<open>api/daotreasury.go\<close>, \<^verbatim>\<open>settlement/soroban.go\<close> and their neighbours), whose work is
  simulation by an RPC server; the contracts themselves, which are Rust; the chat commands of \<^verbatim>\<open>core\<close> and the HTTP handlers, which call what is modelled and word
  replies; the Telegram and Discord transports; reading spreadsheets and webhook bodies, which is JSON and CSV over library code; the decoder; the MCP server;
  configuration and wiring; and web assets.  Wording of messages and logging are left out throughout.
\<close>

end
